(* ===== verification/Scalar_data.thy ===== *)
theory Scalar_data
  imports Main "HOL-Library.Word"
begin

text \<open>
  The data of the Scalar server (\<open>src/Scalar/server/src/defs/ConceptDefs.h\<close>): points, the binary
  searches of the C++ library over vectors of points, and views of a vector with the sampling of
  \<open>GatherElement\<close>.

  A step is kept as the 64 bits of \<open>int64_t\<close>; the code compares it with \<open>uint64_t\<close> values, so
  the comparison is the unsigned one.  Values (\<open>float\<close>) and wall times (\<open>double\<close>) have the types
  \<open>'f\<close> and \<open>'d\<close>: what the code computes with them is given by records of operations where it is
  used.  A view holds two iterators into a vector; here it holds the vector and two indices.
\<close>

record ('f, 'd) ScalarPoint =
  sp_step :: "64 word"
  sp_value :: 'f
  sp_wallTime :: 'd
  sp_localTime :: string

subsection \<open>Binary search\<close>

text \<open>
  \<open>std::lower_bound\<close> and \<open>std::upper_bound\<close> keep a first position and a length and halve the
  length; \<open>P\<close> says that an element is still before the bound.
\<close>

function bound_search :: "('a \<Rightarrow> bool) \<Rightarrow> 'a list \<Rightarrow> nat \<Rightarrow> nat \<Rightarrow> nat" where
  "bound_search P xs first len =
    (if len = 0 then first
     else let half = len div 2 in
       if P (xs ! (first + half)) then bound_search P xs (first + half + 1) (len - half - 1)
       else bound_search P xs first half)"
  by auto
termination by (relation "measure (\<lambda>(P, xs, first, len). len)") auto

declare bound_search.simps [simp del]

definition lower_bound :: "('f, 'd) ScalarPoint list \<Rightarrow> 64 word \<Rightarrow> nat" where
  "lower_bound data v = bound_search (\<lambda>p. sp_step p < v) data 0 (length data)"

definition upper_bound :: "('f, 'd) ScalarPoint list \<Rightarrow> 64 word \<Rightarrow> nat" where
  "upper_bound data v = bound_search (\<lambda>p. \<not> v < sp_step p) data 0 (length data)"

text \<open>What the C++ standard promises: for a partitioned range the result is the partition point.\<close>

lemma bound_search_split:
  assumes "first + len \<le> length xs" "\<forall>i<first. P (xs ! i)"
    "\<forall>i. first + len \<le> i \<and> i < length xs \<longrightarrow> \<not> P (xs ! i)"
    "\<forall>i j. i \<le> j \<and> j < length xs \<and> P (xs ! j) \<longrightarrow> P (xs ! i)"
  shows "bound_search P xs first len \<le> length xs
    \<and> (\<forall>i<bound_search P xs first len. P (xs ! i))
    \<and> (\<forall>i. bound_search P xs first len \<le> i \<and> i < length xs \<longrightarrow> \<not> P (xs ! i))"
  using assms
proof (induction P xs first len rule: bound_search.induct)
  case (1 P xs first len)
  show ?case
  proof (cases "len = 0")
    case True
    then have "bound_search P xs first len = first" by (subst bound_search.simps) simp
    with True 1(3-5) show ?thesis by simp
  next
    case False
    let ?h = "len div 2"
    have h: "?h < len" using False by simp
    show ?thesis
    proof (cases "P (xs ! (first + ?h))")
      case True
      have pre: "\<forall>i<first + ?h + 1. P (xs ! i)"
      proof (intro allI impI)
        fix i assume "i < first + ?h + 1"
        then have "i \<le> first + ?h" "first + ?h < length xs" using h 1(3) by simp_all
        with True 1(6) show "P (xs ! i)" by blast
      qed
      have "first + ?h + 1 + (len - ?h - 1) = first + len" using h by simp
      moreover have "bound_search P xs first len = bound_search P xs (first + ?h + 1) (len - ?h - 1)"
        using False True by (subst bound_search.simps) (simp add: Let_def)
      ultimately show ?thesis
        using 1(1) [OF False refl True _ pre _ 1(6)] 1(3,5) by simp
    next
      case F: False
      have post: "\<forall>i. first + ?h \<le> i \<and> i < length xs \<longrightarrow> \<not> P (xs ! i)"
        using 1(6) F by blast
      have "first + ?h \<le> length xs" using 1(3) h by simp
      moreover have "bound_search P xs first len = bound_search P xs first ?h"
        using False F by (subst bound_search.simps) (simp add: Let_def)
      ultimately show ?thesis
        using 1(2) [OF False refl F _ 1(4) post 1(6)] by simp
    qed
  qed
qed

lemma bound_search_takeWhile:
  assumes "\<forall>i j. i \<le> j \<and> j < length xs \<and> P (xs ! j) \<longrightarrow> P (xs ! i)"
  shows "bound_search P xs 0 (length xs) = length (takeWhile P xs)"
proof -
  let ?k = "bound_search P xs 0 (length xs)"
  have "0 + length xs \<le> length xs" "\<forall>i<0. P (xs ! i)"
    "\<forall>i. 0 + length xs \<le> i \<and> i < length xs \<longrightarrow> \<not> P (xs ! i)" by auto
  note k = bound_search_split [OF this assms]
  have "takeWhile P xs = take ?k xs"
    using k by (intro takeWhile_eq_take_P_nth) blast+
  then show ?thesis using k by simp
qed

text \<open>The vectors the server searches are sorted by step.\<close>

abbreviation steps_sorted :: "('f, 'd) ScalarPoint list \<Rightarrow> bool" where
  "steps_sorted data \<equiv> sorted (map sp_step data)"

lemma lower_bound_sorted:
  assumes "steps_sorted data"
  shows "lower_bound data v = length (takeWhile (\<lambda>p. sp_step p < v) data)"
  unfolding lower_bound_def
proof (rule bound_search_takeWhile, intro allI impI)
  fix i j assume a: "i \<le> j \<and> j < length data \<and> sp_step (data ! j) < v"
  then have "sp_step (data ! i) \<le> sp_step (data ! j)"
    using sorted_nth_mono [OF assms, of i j] by simp
  with a show "sp_step (data ! i) < v" using le_less_trans by blast
qed

lemma upper_bound_sorted:
  assumes "steps_sorted data"
  shows "upper_bound data v = length (takeWhile (\<lambda>p. sp_step p \<le> v) data)"
proof -
  have "upper_bound data v = length (takeWhile (\<lambda>p. \<not> v < sp_step p) data)"
    unfolding upper_bound_def
  proof (rule bound_search_takeWhile, intro allI impI)
    fix i j assume a: "i \<le> j \<and> j < length data \<and> \<not> v < sp_step (data ! j)"
    then have "sp_step (data ! i) \<le> sp_step (data ! j)"
      using sorted_nth_mono [OF assms, of i j] by simp
    with a show "\<not> v < sp_step (data ! i)" using less_le_trans by blast
  qed
  then show ?thesis by (simp add: linorder_not_less)
qed

subsection \<open>Views\<close>

datatype ViewType = CONTINUES | DISCRETE

record ('f, 'd) DataView =
  dv_file :: string
  dv_data :: "('f, 'd) ScalarPoint list"
  dv_lower :: nat
  dv_upper :: nat
  dv_type :: ViewType
  dv_length :: nat
  dv_points :: "nat list"

definition new_DataView ::
  "('f, 'd) ScalarPoint list \<Rightarrow> nat \<Rightarrow> nat \<Rightarrow> string \<Rightarrow> ('f, 'd) DataView" where
  "new_DataView data l u f =
    \<lparr>dv_file = f, dv_data = data, dv_lower = l, dv_upper = u, dv_type = CONTINUES,
     dv_length = u - l + 1, dv_points = []\<rparr>"

definition DataView_Length :: "('f, 'd) DataView \<Rightarrow> nat" where
  "DataView_Length v = (if dv_type v = CONTINUES then dv_length v else length (dv_points v))"

text \<open>The points the loop takes and the position it stops at; it does not return for step 0.\<close>

partial_function (option) gather_loop :: "nat \<Rightarrow> nat \<Rightarrow> nat \<Rightarrow> nat \<Rightarrow> nat list \<Rightarrow> (nat list \<times> nat) option" where
  "gather_loop s u remain index pts =
    (if 0 < remain \<and> index \<noteq> u then
       let pts' = pts @ [index] in
       if remain < s then Some (pts', index)
       else gather_loop s u (remain - s) (index + s) pts'
     else Some (pts, index))"

definition DataView_GatherElement :: "nat \<Rightarrow> ('f, 'd) DataView \<Rightarrow> ('f, 'd) DataView option" where
  "DataView_GatherElement s v =
    (if dv_type v \<noteq> CONTINUES then Some v
     else case gather_loop s (dv_upper v) (dv_length v) (dv_lower v) [] of
       None \<Rightarrow> None
     | Some (pts, index) \<Rightarrow>
         let v' = v\<lparr>dv_type := DISCRETE, dv_length := 0\<rparr> in
         Some (if index \<noteq> dv_upper v
               then v'\<lparr>dv_upper := dv_upper v - 1, dv_points := pts @ [dv_upper v - 1]\<rparr>
               else v'\<lparr>dv_points := pts\<rparr>))"

definition DataView_GetElements :: "('f, 'd) DataView \<Rightarrow> ('f, 'd) ScalarPoint list" where
  "DataView_GetElements v =
    (if dv_type v = CONTINUES
     then take (dv_upper v - dv_lower v) (drop (dv_lower v) (dv_data v))
     else map (\<lambda>i. dv_data v ! i) (dv_points v))"

text \<open>\<open>LineOp/SampleLineOp.h\<close>: one step for all views of a line, computed from their sizes.\<close>

definition maxDataCount :: nat where
  "maxDataCount = 10001"

definition sample_step :: "('f, 'd) DataView list \<Rightarrow> nat" where
  "sample_step vs =
    (let total = foldl (\<lambda>count v. count + (dv_upper v - dv_lower v)) 0 vs;
         s = total div maxDataCount
     in if s = 0 then 1 else s)"

fun gather_all :: "nat \<Rightarrow> ('f, 'd) DataView list \<Rightarrow> ('f, 'd) DataView list option" where
  "gather_all s [] = Some []"
| "gather_all s (v # vs) =
    (case DataView_GatherElement s v of None \<Rightarrow> None
     | Some v' \<Rightarrow> (case gather_all s vs of None \<Rightarrow> None | Some vs' \<Rightarrow> Some (v' # vs')))"

definition SampleLineOp_Process :: "('f, 'd) DataView list \<Rightarrow> ('f, 'd) DataView list option" where
  "SampleLineOp_Process vs = (if vs = [] then Some [] else gather_all (sample_step vs) vs)"

subsection \<open>What sampling takes\<close>

text \<open>The multiples of \<open>s\<close> from \<open>k\<close> on that are below \<open>n\<close>.\<close>

definition multiples :: "nat \<Rightarrow> nat \<Rightarrow> nat \<Rightarrow> nat list" where
  "multiples s k n = filter (\<lambda>i. s dvd i) [k..<n]"

lemma multiples_ge: "n \<le> k \<Longrightarrow> multiples s k n = []"
  by (simp add: multiples_def)

lemma multiples_step:
  assumes "0 < s" "s dvd k" "k < n"
  shows "multiples s k n = k # multiples s (k + s) n"
proof -
  have none: "filter (\<lambda>i. s dvd i) [Suc k..<min (k + s) n] = []"
  proof -
    have "\<not> s dvd i" if "Suc k \<le> i" "i < k + s" for i
    proof
      assume "s dvd i"
      then have "s dvd i - k" using assms(2) by (rule dvd_diff_nat)
      with that show False by (auto dest: dvd_imp_le)
    qed
    then show ?thesis by (auto simp: filter_empty_conv)
  qed
  have "[k..<n] = k # [Suc k..<n]" using assms(3) by (rule upt_conv_Cons)
  moreover have "[Suc k..<n] = [Suc k..<min (k + s) n] @ [k + s..<n]"
  proof (cases "k + s \<le> n")
    case True
    then have "[Suc k..<n] = [Suc k..<k + s] @ [k + s..<n]"
      using upt_add_eq_append [of "Suc k" "k + s" "n - (k + s)"] assms(1) by simp
    with True show ?thesis by (simp add: min_def)
  qed (simp add: min_def not_le)
  ultimately show ?thesis
    using assms none by (simp add: multiples_def)
qed

text \<open>Where the loop stops decides whether the last point is added.\<close>

lemma gather_loop_result:
  assumes "0 < s" "s dvd k" "k \<le> n + 1"
  shows "\<exists>j. gather_loop s (l + n) (Suc n - k) (l + k) pts
      = Some (pts @ map ((+) l) (multiples s k n), j) \<and> (j = l + n \<longleftrightarrow> s dvd n \<and> k \<le> n)"
  using assms
proof (induction "Suc n - k" arbitrary: k pts rule: less_induct)
  case less
  show ?case
  proof (cases "k < n")
    case False
    then consider "k = n" | "k = n + 1" using less(4) by linarith
    then show ?thesis
    proof cases
      case 1
      then show ?thesis using less(3) by (subst gather_loop.simps) (simp add: multiples_ge)
    next
      case 2
      then show ?thesis by (subst gather_loop.simps) (simp add: multiples_ge)
    qed
  next
    case True
    show ?thesis
    proof (cases "Suc n - k < s")
      case T: True
      have "\<not> s dvd n"
      proof
        assume "s dvd n"
        then have "s dvd n - k" using less(3) by (rule dvd_diff_nat)
        with True T show False by (auto dest: dvd_imp_le)
      qed
      moreover have "multiples s k n = [k]"
        using multiples_step [OF less(2,3) True] multiples_ge [of n "k + s" s] T True by simp
      ultimately show ?thesis
        using True T by (subst gather_loop.simps) (simp add: Let_def)
    next
      case F: False
      have le: "k + s \<le> n + 1" using F True by simp
      have sh: "Suc n - k - s = Suc n - (k + s)" "l + k + s = l + (k + s)" by simp_all
      obtain j where j: "gather_loop s (l + n) (Suc n - (k + s)) (l + (k + s)) (pts @ [l + k])
          = Some ((pts @ [l + k]) @ map ((+) l) (multiples s (k + s) n), j)"
        "j = l + n \<longleftrightarrow> s dvd n \<and> k + s \<le> n"
        using less(1) [of "k + s" "pts @ [l + k]"] less(2,3) le True by fastforce
      have one: "gather_loop s (l + n) (Suc n - k) (l + k) pts
          = gather_loop s (l + n) (Suc n - k - s) (l + k + s) (pts @ [l + k])"
        using True F by (subst gather_loop.simps) (simp add: Let_def)
      have "k + s \<le> n" if "s dvd n"
      proof -
        from that have "s dvd n - k" using less(3) by (rule dvd_diff_nat)
        then have "s \<le> n - k" using True by (auto dest: dvd_imp_le)
        then show ?thesis using True by simp
      qed
      then have "j = l + n \<longleftrightarrow> s dvd n \<and> k \<le> n" using j(2) True by auto
      then show ?thesis
        unfolding one sh j(1) multiples_step [OF less(2,3) True] by simp
    qed
  qed
qed

definition is_view :: "('f, 'd) DataView \<Rightarrow> bool" where
  "is_view v \<longleftrightarrow> dv_type v = CONTINUES \<and> dv_lower v \<le> dv_upper v \<and> dv_upper v \<le> length (dv_data v)
     \<and> dv_length v = dv_upper v - dv_lower v + 1"

definition view_size :: "('f, 'd) DataView \<Rightarrow> nat" where
  "view_size v = dv_upper v - dv_lower v"

definition gathered :: "nat \<Rightarrow> ('f, 'd) DataView \<Rightarrow> nat list" where
  "gathered s v = map ((+) (dv_lower v)) (multiples s 0 (view_size v))
     @ (if s dvd view_size v then [] else [dv_upper v - 1])"

lemma gather_view:
  assumes "is_view v" "0 < s"
  shows "DataView_GatherElement s v = Some (v\<lparr>dv_type := DISCRETE, dv_length := 0,
    dv_points := gathered s v, dv_upper := (if s dvd view_size v then dv_upper v else dv_upper v - 1)\<rparr>)"
proof -
  have u: "dv_upper v = dv_lower v + view_size v" using assms(1) by (simp add: is_view_def view_size_def)
  obtain j where j: "gather_loop s (dv_upper v) (dv_length v) (dv_lower v) []
      = Some (map ((+) (dv_lower v)) (multiples s 0 (view_size v)), j)"
    "j = dv_upper v \<longleftrightarrow> s dvd view_size v"
    using gather_loop_result [OF assms(2), of 0 "view_size v" "dv_lower v" "[]"] assms(1)
    unfolding u by (auto simp: is_view_def view_size_def)
  then show ?thesis
    using assms by (cases "s dvd view_size v")
      (simp_all add: DataView_GatherElement_def is_view_def Let_def gathered_def)
qed

end
