(* ===== verification/Scalar_smooth.thy ===== *)
theory Scalar_smooth
  imports Scalar_data
begin

text \<open>
  The smoothers of the Scalar server (\<open>GraphLine/Smoother\<close>): the low-pass filter, the median of a
  window and the mean of the lowest values of a window, with their factories.

  The operations on \<open>float\<close> and \<open>double\<close> are the fields of \<open>float_ops\<close>.  The window is a
  \<open>std::multiset\<close> ordered by value with a queue of iterators into it: a node is a number and a
  point, an iterator is the number.  An element is inserted after those it is not less than, and
  an iterator erases its own node.  Where the code would use an empty queue or advance an iterator
  past the end, the result is \<open>None\<close>.
\<close>

record ('f, 'd) float_ops =
  f_zero :: 'f
  f_one :: 'f
  f_two :: 'f
  f_lt :: "'f \<Rightarrow> 'f \<Rightarrow> bool"
  f_eq :: "'f \<Rightarrow> 'f \<Rightarrow> bool"
  f_add :: "'f \<Rightarrow> 'f \<Rightarrow> 'f"
  f_sub :: "'f \<Rightarrow> 'f \<Rightarrow> 'f"
  f_mul :: "'f \<Rightarrow> 'f \<Rightarrow> 'f"
  f_div :: "'f \<Rightarrow> 'f \<Rightarrow> 'f"
  f_pow :: "'f \<Rightarrow> nat \<Rightarrow> 'f"
  f_of_nat :: "nat \<Rightarrow> 'f"
  f_isnan :: "'f \<Rightarrow> bool"
  f_isinf :: "'f \<Rightarrow> bool"
  d_zero :: 'd
  d_one :: 'd
  d_minus_one :: 'd
  d_milli :: 'd
  d_eq :: "'d \<Rightarrow> 'd \<Rightarrow> bool"
  d_lt :: "'d \<Rightarrow> 'd \<Rightarrow> bool"
  d_of_nat :: "nat \<Rightarrow> 'd"
  d_mul :: "'d \<Rightarrow> 'd \<Rightarrow> 'd"
  d_floor :: "'d \<Rightarrow> nat"
  d_floor_div :: "64 word \<Rightarrow> 'd \<Rightarrow> 64 word"
  d_ceil_div :: "64 word \<Rightarrow> 'd \<Rightarrow> 64 word"
  d_scale_step :: "'d \<Rightarrow> 64 word \<Rightarrow> 64 word"

subsection \<open>The window\<close>

record ('f, 'd) window =
  win_nodes :: "(nat \<times> ('f, 'd) ScalarPoint) list"
  win_next :: nat
  win_queue :: "nat list"

definition new_window :: "('f, 'd) window" where
  "new_window = \<lparr>win_nodes = [], win_next = 0, win_queue = []\<rparr>"

text \<open>\<open>ScalarPointCmp\<close> compares the values.\<close>

definition ScalarPointCmp :: "('f, 'd) float_ops \<Rightarrow> ('f, 'd) ScalarPoint \<Rightarrow> ('f, 'd) ScalarPoint \<Rightarrow> bool" where
  "ScalarPointCmp fo l r = f_lt fo (sp_value l) (sp_value r)"

definition multiset_insert ::
  "('f, 'd) float_ops \<Rightarrow> nat \<times> ('f, 'd) ScalarPoint \<Rightarrow> (nat \<times> ('f, 'd) ScalarPoint) list
   \<Rightarrow> (nat \<times> ('f, 'd) ScalarPoint) list" where
  "multiset_insert fo n nodes =
    takeWhile (\<lambda>m. \<not> ScalarPointCmp fo (snd n) (snd m)) nodes @ n
      # dropWhile (\<lambda>m. \<not> ScalarPointCmp fo (snd n) (snd m)) nodes"

definition win_insert :: "('f, 'd) float_ops \<Rightarrow> ('f, 'd) ScalarPoint \<Rightarrow> ('f, 'd) window \<Rightarrow> ('f, 'd) window" where
  "win_insert fo p w = w\<lparr>win_nodes := multiset_insert fo (win_next w, p) (win_nodes w),
     win_queue := win_queue w @ [win_next w], win_next := win_next w + 1\<rparr>"

definition win_slide ::
  "('f, 'd) float_ops \<Rightarrow> nat \<Rightarrow> ('f, 'd) ScalarPoint \<Rightarrow> ('f, 'd) window \<Rightarrow> ('f, 'd) window option" where
  "win_slide fo wsize p w =
    (if length (win_nodes w) = wsize then
       (case win_queue w of [] \<Rightarrow> None
        | it # q \<Rightarrow> Some (win_insert fo p
            (w\<lparr>win_queue := q, win_nodes := filter (\<lambda>n. fst n \<noteq> it) (win_nodes w)\<rparr>)))
     else Some (win_insert fo p w))"

subsection \<open>The median of a window\<close>

record ('f, 'd) WindowMedianSmoother =
  wm_windowSize :: nat
  wm_numAccum :: "32 word"
  wm_window :: "('f, 'd) window"
  wm_even :: bool

definition new_WindowMedianSmoother :: "('f, 'd) WindowMedianSmoother" where
  "new_WindowMedianSmoother =
    \<lparr>wm_windowSize = 0, wm_numAccum = 0, wm_window = new_window, wm_even = False\<rparr>"

definition WindowMedianSmoother_Reset ::
  "('f, 'd) WindowMedianSmoother \<Rightarrow> ('f, 'd) WindowMedianSmoother" where
  "WindowMedianSmoother_Reset s = s\<lparr>wm_numAccum := 0, wm_window := new_window\<rparr>"

definition WindowMedianSmoother_SetSampleParam ::
  "nat \<Rightarrow> ('f, 'd) WindowMedianSmoother \<Rightarrow> ('f, 'd) WindowMedianSmoother" where
  "WindowMedianSmoother_SetSampleParam wsize s =
    (if wsize \<noteq> wm_windowSize s
     then (WindowMedianSmoother_Reset s)\<lparr>wm_windowSize := wsize, wm_even := even wsize\<rparr>
     else s)"

definition WindowMedianSmoother_Equal ::
  "('f, 'd) WindowMedianSmoother \<Rightarrow> ('f, 'd) WindowMedianSmoother \<Rightarrow> bool" where
  "WindowMedianSmoother_Equal s other \<longleftrightarrow> wm_windowSize other = wm_windowSize s"

definition median_value ::
  "('f, 'd) float_ops \<Rightarrow> nat \<Rightarrow> bool \<Rightarrow> (nat \<times> ('f, 'd) ScalarPoint) list \<Rightarrow> 'f option" where
  "median_value fo wsize ev nodes =
    (let mid = wsize div 2 in
     if length nodes \<le> mid then None
     else if ev then
       (if mid = 0 then None
        else Some (f_div fo (f_add fo (sp_value (snd (nodes ! mid))) (sp_value (snd (nodes ! (mid - 1)))))
                        (f_two fo)))
     else Some (sp_value (snd (nodes ! mid))))"

definition median_point ::
  "('f, 'd) float_ops \<Rightarrow> ('f, 'd) WindowMedianSmoother \<Rightarrow> ('f, 'd) ScalarPoint
   \<Rightarrow> (('f, 'd) WindowMedianSmoother \<times> ('f, 'd) ScalarPoint) option" where
  "median_point fo s origin =
    (let s' = s\<lparr>wm_numAccum := wm_numAccum s + 1\<rparr> in
     if wm_windowSize s = 0 then Some (s', origin)
     else if length (win_nodes (wm_window s)) < wm_windowSize s - 1
     then Some (s'\<lparr>wm_window := win_insert fo origin (wm_window s)\<rparr>, origin)
     else case win_slide fo (wm_windowSize s) origin (wm_window s) of
       None \<Rightarrow> None
     | Some w \<Rightarrow>
         (case median_value fo (wm_windowSize s) (wm_even s) (win_nodes w) of
            None \<Rightarrow> None
          | Some v \<Rightarrow> Some (s'\<lparr>wm_window := w\<rparr>, origin\<lparr>sp_value := v\<rparr>)))"

subsection \<open>The mean of the lowest values of a window\<close>

record ('f, 'd) WindowTopXSmoother =
  tx_windowSize :: nat
  tx_top :: 'd
  tx_elemCount :: nat
  tx_numAccum :: "32 word"
  tx_window :: "('f, 'd) window"

definition new_WindowTopXSmoother :: "('f, 'd) float_ops \<Rightarrow> ('f, 'd) WindowTopXSmoother" where
  "new_WindowTopXSmoother fo =
    \<lparr>tx_windowSize = 0, tx_top = d_zero fo, tx_elemCount = 0, tx_numAccum = 0, tx_window = new_window\<rparr>"

definition WindowTopXSmoother_Reset ::
  "('f, 'd) WindowTopXSmoother \<Rightarrow> ('f, 'd) WindowTopXSmoother" where
  "WindowTopXSmoother_Reset s = s\<lparr>tx_numAccum := 0, tx_window := new_window, tx_elemCount := 0\<rparr>"

definition WindowTopXSmoother_SetSampleParam ::
  "('f, 'd) float_ops \<Rightarrow> nat \<Rightarrow> 'd \<Rightarrow> ('f, 'd) WindowTopXSmoother \<Rightarrow> ('f, 'd) WindowTopXSmoother" where
  "WindowTopXSmoother_SetSampleParam fo wsize share s =
    (if wsize = tx_windowSize s \<and> d_eq fo share (tx_top s) then s
     else let c = d_floor fo (d_mul fo (d_of_nat fo wsize) share) in
       (WindowTopXSmoother_Reset s)\<lparr>tx_windowSize := wsize, tx_top := share,
          tx_elemCount := (if c = 0 then 1 else c)\<rparr>)"

text \<open>The last test compares the share of one smoother with the window size of the other.\<close>

definition WindowTopXSmoother_Equal ::
  "('f, 'd) float_ops \<Rightarrow> ('f, 'd) WindowTopXSmoother \<Rightarrow> ('f, 'd) WindowTopXSmoother \<Rightarrow> bool" where
  "WindowTopXSmoother_Equal fo s other \<longleftrightarrow>
    tx_windowSize other = tx_windowSize s \<and> d_eq fo (tx_top other) (d_of_nat fo (tx_windowSize s))"

definition lowest_mean ::
  "('f, 'd) float_ops \<Rightarrow> nat \<Rightarrow> (nat \<times> ('f, 'd) ScalarPoint) list \<Rightarrow> 'f option" where
  "lowest_mean fo count nodes =
    (if length nodes < count then None
     else Some (f_div fo (foldl (\<lambda>res n. f_add fo (sp_value (snd n)) res) (f_zero fo) (take count nodes))
                     (f_of_nat fo count)))"

definition topx_point ::
  "('f, 'd) float_ops \<Rightarrow> ('f, 'd) WindowTopXSmoother \<Rightarrow> ('f, 'd) ScalarPoint
   \<Rightarrow> (('f, 'd) WindowTopXSmoother \<times> ('f, 'd) ScalarPoint) option" where
  "topx_point fo s origin =
    (let s' = s\<lparr>tx_numAccum := tx_numAccum s + 1\<rparr> in
     if tx_windowSize s = 0 then Some (s', origin)
     else if length (win_nodes (tx_window s)) < tx_windowSize s - 1
     then Some (s'\<lparr>tx_window := win_insert fo origin (tx_window s)\<rparr>, origin)
     else case win_slide fo (tx_windowSize s) origin (tx_window s) of
       None \<Rightarrow> None
     | Some w \<Rightarrow>
         (case lowest_mean fo (tx_elemCount s) (win_nodes w) of
            None \<Rightarrow> None
          | Some v \<Rightarrow> Some (s'\<lparr>tx_window := w\<rparr>, origin\<lparr>sp_value := v\<rparr>)))"

text \<open>Both \<open>Sample\<close> functions take the points from \<open>numAccum_\<close> on and append one result for each.\<close>

fun smooth_points :: "('s \<Rightarrow> 'p \<Rightarrow> ('s \<times> 'p) option) \<Rightarrow> 's \<Rightarrow> 'p list \<Rightarrow> ('s \<times> 'p list) option" where
  "smooth_points step s [] = Some (s, [])"
| "smooth_points step s (p # ps) =
    (case step s p of None \<Rightarrow> None
     | Some (s', r) \<Rightarrow> (case smooth_points step s' ps of None \<Rightarrow> None
        | Some (s'', rs) \<Rightarrow> Some (s'', r # rs)))"

definition WindowMedianSmoother_Sample ::
  "('f, 'd) float_ops \<Rightarrow> ('f, 'd) WindowMedianSmoother \<Rightarrow> ('f, 'd) ScalarPoint list
   \<Rightarrow> ('f, 'd) ScalarPoint list \<Rightarrow> (('f, 'd) WindowMedianSmoother \<times> ('f, 'd) ScalarPoint list) option" where
  "WindowMedianSmoother_Sample fo s original dst =
    (if length original \<le> unat (wm_numAccum s) then Some (s, dst)
     else case smooth_points (median_point fo) s (drop (unat (wm_numAccum s)) original) of
       None \<Rightarrow> None | Some (s', rs) \<Rightarrow> Some (s', dst @ rs))"

definition WindowTopXSmoother_Sample ::
  "('f, 'd) float_ops \<Rightarrow> ('f, 'd) WindowTopXSmoother \<Rightarrow> ('f, 'd) ScalarPoint list
   \<Rightarrow> ('f, 'd) ScalarPoint list \<Rightarrow> (('f, 'd) WindowTopXSmoother \<times> ('f, 'd) ScalarPoint list) option" where
  "WindowTopXSmoother_Sample fo s original dst =
    (if length original \<le> unat (tx_numAccum s) then Some (s, dst)
     else case smooth_points (topx_point fo) s (drop (unat (tx_numAccum s)) original) of
       None \<Rightarrow> None | Some (s', rs) \<Rightarrow> Some (s', dst @ rs))"

subsection \<open>The low-pass filter\<close>

record 'f IRLowSmoother =
  ir_weight :: 'f
  ir_last :: 'f
  ir_numAccum :: "32 word"

definition new_IRLowSmoother :: "('f, 'd) float_ops \<Rightarrow> 'f IRLowSmoother" where
  "new_IRLowSmoother fo = \<lparr>ir_weight = f_zero fo, ir_last = f_zero fo, ir_numAccum = 0\<rparr>"

definition IRLowSmoother_Reset :: "('f, 'd) float_ops \<Rightarrow> 'f IRLowSmoother \<Rightarrow> 'f IRLowSmoother" where
  "IRLowSmoother_Reset fo s = s\<lparr>ir_last := f_zero fo, ir_numAccum := 0\<rparr>"

definition IRLowSmoother_SetSampleParam ::
  "('f, 'd) float_ops \<Rightarrow> 'f \<Rightarrow> 'f IRLowSmoother \<Rightarrow> 'f IRLowSmoother" where
  "IRLowSmoother_SetSampleParam fo w s =
    (if \<not> f_eq fo w (ir_weight s) then (IRLowSmoother_Reset fo s)\<lparr>ir_weight := w\<rparr> else s)"

definition IRLowSmoother_Equal :: "('f, 'd) float_ops \<Rightarrow> 'f IRLowSmoother \<Rightarrow> 'f IRLowSmoother \<Rightarrow> bool" where
  "IRLowSmoother_Equal fo s other = f_eq fo (ir_weight other) (ir_weight s)"

definition ir_point ::
  "('f, 'd) float_ops \<Rightarrow> bool \<Rightarrow> 'f IRLowSmoother \<Rightarrow> ('f, 'd) ScalarPoint
   \<Rightarrow> 'f IRLowSmoother \<times> ('f, 'd) ScalarPoint" where
  "ir_point fo isConstant s p =
    (if isConstant \<or> f_isinf fo (sp_value p) \<or> f_isnan fo (sp_value p) then (s, p)
     else
       let l = f_add fo (f_mul fo (ir_last s) (ir_weight s))
                 (f_mul fo (f_sub fo (f_one fo) (ir_weight s)) (sp_value p));
           n = ir_numAccum s + 1;
           debias = (if f_eq fo (ir_weight s) (f_one fo) then f_one fo
                     else f_sub fo (f_one fo) (f_pow fo (ir_weight s) (unat n)))
       in (s\<lparr>ir_last := l, ir_numAccum := n\<rparr>, p\<lparr>sp_value := f_div fo l debias\<rparr>))"

fun ir_points ::
  "('f, 'd) float_ops \<Rightarrow> bool \<Rightarrow> 'f IRLowSmoother \<Rightarrow> ('f, 'd) ScalarPoint list
   \<Rightarrow> 'f IRLowSmoother \<times> ('f, 'd) ScalarPoint list" where
  "ir_points fo c s [] = (s, [])"
| "ir_points fo c s (p # ps) =
    (let (s', r) = ir_point fo c s p; (s'', rs) = ir_points fo c s' ps in (s'', r # rs))"

definition IRLowSmoother_Sample ::
  "('f, 'd) float_ops \<Rightarrow> 'f IRLowSmoother \<Rightarrow> ('f, 'd) ScalarPoint list \<Rightarrow> ('f, 'd) ScalarPoint list
   \<Rightarrow> 'f IRLowSmoother \<times> ('f, 'd) ScalarPoint list" where
  "IRLowSmoother_Sample fo s original dst =
    (if length original \<le> unat (ir_numAccum s) \<or> f_eq fo (ir_weight s) (f_zero fo) then (s, dst)
     else
       let c = list_all (\<lambda>p. f_eq fo (sp_value p) (sp_value (original ! 0))) original;
           (s', rs) = ir_points fo c s (drop (unat (ir_numAccum s)) original)
       in (s', dst @ rs))"

subsection \<open>The factories\<close>

datatype ('f, 'd) Smoother =
  IRLow "'f IRLowSmoother"
| WindowMedian "('f, 'd) WindowMedianSmoother"
| WindowTopX "('f, 'd) WindowTopXSmoother"

datatype ('f, 'd) SmoothingParam =
  IRSmootherParam 'f
| WindowMedianParam nat
| WindowToxSmoothingParam nat 'd

text \<open>\<open>GetSampler\<close> for the algorithm a parameter names, followed by its \<open>SetSampleParam\<close>.\<close>

fun sampler_for :: "('f, 'd) float_ops \<Rightarrow> ('f, 'd) SmoothingParam \<Rightarrow> ('f, 'd) Smoother" where
  "sampler_for fo (IRSmootherParam w) = IRLow (IRLowSmoother_SetSampleParam fo w (new_IRLowSmoother fo))"
| "sampler_for fo (WindowMedianParam n) =
     WindowMedian (WindowMedianSmoother_SetSampleParam n new_WindowMedianSmoother)"
| "sampler_for fo (WindowToxSmoothingParam n t) =
     WindowTopX (WindowTopXSmoother_SetSampleParam fo n t (new_WindowTopXSmoother fo))"

fun Smoother_Equal :: "('f, 'd) float_ops \<Rightarrow> ('f, 'd) Smoother \<Rightarrow> ('f, 'd) Smoother \<Rightarrow> bool" where
  "Smoother_Equal fo (IRLow a) (IRLow b) = IRLowSmoother_Equal fo a b"
| "Smoother_Equal fo (WindowMedian a) (WindowMedian b) = WindowMedianSmoother_Equal a b"
| "Smoother_Equal fo (WindowTopX a) (WindowTopX b) = WindowTopXSmoother_Equal fo a b"
| "Smoother_Equal fo _ _ = False"

fun Smoother_Sample ::
  "('f, 'd) float_ops \<Rightarrow> ('f, 'd) Smoother \<Rightarrow> ('f, 'd) ScalarPoint list \<Rightarrow> ('f, 'd) ScalarPoint list
   \<Rightarrow> (('f, 'd) Smoother \<times> ('f, 'd) ScalarPoint list) option" where
  "Smoother_Sample fo (IRLow s) original dst =
    (let (s', d) = IRLowSmoother_Sample fo s original dst in Some (IRLow s', d))"
| "Smoother_Sample fo (WindowMedian s) original dst =
    (case WindowMedianSmoother_Sample fo s original dst of None \<Rightarrow> None
     | Some (s', d) \<Rightarrow> Some (WindowMedian s', d))"
| "Smoother_Sample fo (WindowTopX s) original dst =
    (case WindowTopXSmoother_Sample fo s original dst of None \<Rightarrow> None
     | Some (s', d) \<Rightarrow> Some (WindowTopX s', d))"

end
