(* ===== verification/Scalar_file.thy ===== *)
theory Scalar_file
  imports Scalar_smooth
begin

text \<open>
  The files of the Scalar server (\<open>FileManager/File.h\<close> and \<open>File.cpp\<close>): the points of each tag, their
  smoothed copies, the smoothers and the range of steps.  One record serves \<open>File\<close> and its subclass
  \<open>VirtualFile\<close>, whose only further field is the set of its sub-files.  An operation that would throw
  or leave the defined behaviour of C++ gives \<open>None\<close>.
\<close>

datatype FileType = NORMAL | VISUAL

datatype ParseDataType = MINDSPORE_SUMMARY | TF_EVENT | TEXT_LOG | Unknown

datatype DataMode = M_NORMAL | M_SMOOTHING | M_TOKEN | M_SAMPLE | M_TOKEN_NORMAL | M_TOKEN_SMOOTHING

record ('f, 'd) File =
  fi_type :: FileType
  fi_data :: "string \<rightharpoonup> ('f, 'd) ScalarPoint list"
  fi_smoothingData :: "string \<rightharpoonup> ('f, 'd) ScalarPoint list"
  fi_smoother :: "string \<rightharpoonup> ('f, 'd) Smoother"
  fi_range :: "string \<rightharpoonup> 64 word \<times> 64 word"
  fi_tag :: "string set"
  fi_filePath :: string
  fi_dataType :: ParseDataType
  fi_offSet :: "64 word"
  fi_empty :: bool
  fi_imported :: bool
  fi_globalBatchSize :: 'd
  fi_seqLength :: 'd
  fi_subFiles :: "string set"

definition new_File :: "('f, 'd) float_ops \<Rightarrow> string \<Rightarrow> ParseDataType \<Rightarrow> ('f, 'd) File" where
  "new_File fo path t =
    \<lparr>fi_type = NORMAL, fi_data = Map.empty, fi_smoothingData = Map.empty, fi_smoother = Map.empty,
     fi_range = Map.empty, fi_tag = {}, fi_filePath = path, fi_dataType = t, fi_offSet = 0,
     fi_empty = False, fi_imported = True, fi_globalBatchSize = d_minus_one fo,
     fi_seqLength = d_minus_one fo, fi_subFiles = {}\<rparr>"

text \<open>\<open>operator[]\<close> of a map of vectors makes an empty vector for a new key.\<close>

definition vector_at :: "(string \<rightharpoonup> 'a list) \<Rightarrow> string \<Rightarrow> 'a list" where
  "vector_at m tag = (case m tag of None \<Rightarrow> [] | Some v \<Rightarrow> v)"

subsection \<open>Ranges\<close>

definition GetRangeFromData :: "('f, 'd) ScalarPoint list \<Rightarrow> 64 word \<times> 64 word" where
  "GetRangeFromData data =
    (if data = [] then (- 1, - 1) else (sp_step (hd data), sp_step (last data)))"

definition File_UpdateRange ::
  "string \<Rightarrow> ('f, 'd) ScalarPoint list \<Rightarrow> ('f, 'd) File \<Rightarrow> ('f, 'd) File" where
  "File_UpdateRange tag points f =
    (if points = [] then f
     else let range = GetRangeFromData points in
       if fst range = - 1 then f
       else case fi_range f tag of
         None \<Rightarrow> f\<lparr>fi_range := (fi_range f)(tag \<mapsto> range)\<rparr>
       | Some old \<Rightarrow> f\<lparr>fi_range := (fi_range f)(tag \<mapsto> (fst old, snd range))\<rparr>)"

definition File_GetIntersectionRange ::
  "string \<Rightarrow> 64 word \<Rightarrow> 64 word \<Rightarrow> ('f, 'd) File \<Rightarrow> (64 word \<times> 64 word) option" where
  "File_GetIntersectionRange tag left right f =
    (case fi_range f tag of
       None \<Rightarrow> None
     | Some (leftCur, rightCur) \<Rightarrow>
         if rightCur < left \<or> right < leftCur then None
         else Some (max left leftCur, min right rightCur))"

definition File_GetBoundary ::
  "('f, 'd) ScalarPoint list \<Rightarrow> 64 word \<Rightarrow> 64 word \<Rightarrow> nat \<times> nat" where
  "File_GetBoundary data left right = (lower_bound data left, upper_bound data right)"

subsection \<open>Smoothing\<close>

definition File_UpdateSmoothingData ::
  "('f, 'd) float_ops \<Rightarrow> string \<Rightarrow> ('f, 'd) File \<Rightarrow> ('f, 'd) File option" where
  "File_UpdateSmoothingData fo tag f =
    (case fi_smoother f tag of
       None \<Rightarrow> None
     | Some sm \<Rightarrow>
         let data = vector_at (fi_data f) tag in
         (case Smoother_Sample fo sm data (vector_at (fi_smoothingData f) tag) of
            None \<Rightarrow> None
          | Some (sm', dst) \<Rightarrow> Some (f\<lparr>fi_data := (fi_data f)(tag \<mapsto> data),
              fi_smoother := (fi_smoother f)(tag \<mapsto> sm'),
              fi_smoothingData := (fi_smoothingData f)(tag \<mapsto> dst)\<rparr>)))"

text \<open>The second branch replaces the smoother and leaves the smoothed points of the old one.\<close>

definition File_UpdateSmoothingParam ::
  "('f, 'd) float_ops \<Rightarrow> string \<Rightarrow> ('f, 'd) SmoothingParam option \<Rightarrow> ('f, 'd) File \<Rightarrow> ('f, 'd) File option" where
  "File_UpdateSmoothingParam fo tag param f =
    (case param of
       None \<Rightarrow> Some f
     | Some p \<Rightarrow>
         let sm = sampler_for fo p;
             f' = f\<lparr>fi_smoother := (fi_smoother f)(tag \<mapsto> sm)\<rparr> in
         (case fi_smoother f tag of
            None \<Rightarrow> File_UpdateSmoothingData fo tag f'
          | Some old \<Rightarrow> if \<not> Smoother_Equal fo old sm then File_UpdateSmoothingData fo tag f' else Some f))"

definition File_UpdateData ::
  "('f, 'd) float_ops \<Rightarrow> string \<Rightarrow> ('f, 'd) ScalarPoint list \<Rightarrow> ('f, 'd) File \<Rightarrow> ('f, 'd) File option" where
  "File_UpdateData fo tag points f =
    (if points = [] then Some f
     else
       let f1 = File_UpdateRange tag points (f\<lparr>fi_tag := insert tag (fi_tag f)\<rparr>);
           data = vector_at (fi_data f1) tag @ points;
           f2 = f1\<lparr>fi_data := (fi_data f1)(tag \<mapsto> data)\<rparr>
       in case fi_smoother f2 tag of
         None \<Rightarrow> Some f2
       | Some sm \<Rightarrow>
           (case Smoother_Sample fo sm data (vector_at (fi_smoothingData f2) tag) of
              None \<Rightarrow> None
            | Some (sm', dst) \<Rightarrow> Some (f2\<lparr>fi_smoother := (fi_smoother f2)(tag \<mapsto> sm'),
                fi_smoothingData := (fi_smoothingData f2)(tag \<mapsto> dst)\<rparr>)))"

subsection \<open>Tokens\<close>

definition File_UpdateTokenParam ::
  "('f, 'd) float_ops \<Rightarrow> 'd \<Rightarrow> 'd \<Rightarrow> ('f, 'd) File \<Rightarrow> ('f, 'd) File" where
  "File_UpdateTokenParam fo batch seq f =
    (let f1 = (if d_lt fo (d_zero fo) batch then f\<lparr>fi_globalBatchSize := batch\<rparr> else f) in
     if d_lt fo (d_zero fo) seq \<and> fi_dataType f1 \<noteq> TEXT_LOG then f1\<lparr>fi_seqLength := seq\<rparr> else f1)"

definition File_GetTokenCof :: "('f, 'd) float_ops \<Rightarrow> ('f, 'd) File \<Rightarrow> 'd" where
  "File_GetTokenCof fo f =
    (if d_lt fo (fi_globalBatchSize f) (d_zero fo) \<or> d_lt fo (fi_seqLength f) (d_zero fo) then d_one fo
     else d_mul fo (d_mul fo (fi_globalBatchSize f) (fi_seqLength f)) (d_milli fo))"

subsection \<open>Reading\<close>

text \<open>
  The code does not compare the bounds of a request.  When the first is beyond the last, the iterators of the view
  are crossed and every use of it leaves the vector; such a view is \<open>None\<close> here.
\<close>

definition File_GetDataNormal ::
  "string \<Rightarrow> 64 word \<Rightarrow> 64 word \<Rightarrow> ('f, 'd) File \<Rightarrow> ('f, 'd) DataView list option" where
  "File_GetDataNormal tag left right f =
    (case fi_data f tag of
       None \<Rightarrow> None
     | Some data \<Rightarrow>
         if data = [] then Some []
         else let (l, u) = File_GetBoundary data left right in
           if u < l then None else Some [new_DataView data l u (fi_filePath f)])"

definition File_GetSmoothingData ::
  "string \<Rightarrow> 64 word \<Rightarrow> 64 word \<Rightarrow> ('f, 'd) File \<Rightarrow> ('f, 'd) DataView list option" where
  "File_GetSmoothingData tag left right f =
    (if fi_smoother f tag = None then Some []
     else case fi_smoothingData f tag of
       None \<Rightarrow> Some []
     | Some data \<Rightarrow>
         if data = [] then Some []
         else let (l, u) = File_GetBoundary data left right in
           if u < l then None else Some [new_DataView data l u (fi_filePath f)])"

definition File_GetData ::
  "('f, 'd) float_ops \<Rightarrow> string \<Rightarrow> 64 word \<Rightarrow> 64 word \<Rightarrow> DataMode \<Rightarrow> ('f, 'd) File
   \<Rightarrow> ('f, 'd) DataView list option" where
  "File_GetData fo tag left right mode f =
    (if tag \<notin> fi_tag f then Some []
     else
       let token = (mode = M_TOKEN_NORMAL \<or> mode = M_TOKEN_SMOOTHING);
           left = (if token then d_floor_div fo left (File_GetTokenCof fo f) else left);
           right = (if token then d_ceil_div fo right (File_GetTokenCof fo f) else right)
       in case File_GetIntersectionRange tag left right f of
         None \<Rightarrow> Some []
       | Some (l, r) \<Rightarrow>
           (case mode of
              M_TOKEN \<Rightarrow> File_GetDataNormal tag l r f
            | M_TOKEN_NORMAL \<Rightarrow> File_GetDataNormal tag l r f
            | M_NORMAL \<Rightarrow> File_GetDataNormal tag l r f
            | M_TOKEN_SMOOTHING \<Rightarrow> File_GetSmoothingData tag l r f
            | M_SMOOTHING \<Rightarrow> File_GetSmoothingData tag l r f
            | M_SAMPLE \<Rightarrow> Some []))"

definition File_ContainsData :: "string \<Rightarrow> ('f, 'd) File \<Rightarrow> bool" where
  "File_ContainsData tag f \<longleftrightarrow> fi_data f tag \<noteq> None"

definition File_GetContainsTag :: "('f, 'd) File \<Rightarrow> string set" where
  "File_GetContainsTag f = fi_tag f"

end
