(* ===== verification/Scalar_text.thy ===== *)
theory Scalar_text
  imports Scalar_file
begin

text \<open>
  The regular expressions of the Scalar server and what it reads with them: the type of a file from its name
  (\<open>FileManager/FileInfoManager.h\<close>) and the points of a line of a training log
  (\<open>parser/LogTextParser.cpp\<close>).

  The matcher is the backtracking one of ECMAScript expressions, for the expressions used here: sequences of
  characters of a class, once, optionally, or repeated greedily, and groups of alternatives of such sequences.
  A matcher gives all remainders in the order in which they are tried; a search takes the first match of the
  leftmost position that has one.
\<close>

subsection \<open>Matching\<close>

datatype rx_item =
  One "char \<Rightarrow> bool"
| Opt "char \<Rightarrow> bool"
| Many "char \<Rightarrow> bool"
| Many1 "char \<Rightarrow> bool"
| AtEnd

datatype rx_part = Item rx_item | Group "rx_item list list"

definition greedy :: "(char \<Rightarrow> bool) \<Rightarrow> nat \<Rightarrow> string \<Rightarrow> string list" where
  "greedy p least s = map (\<lambda>k. drop k s) (rev [least..<Suc (length (takeWhile p s))])"

fun item_rests :: "rx_item \<Rightarrow> string \<Rightarrow> string list" where
  "item_rests (One p) s = (case s of [] \<Rightarrow> [] | c # cs \<Rightarrow> if p c then [cs] else [])"
| "item_rests (Opt p) s = (case s of [] \<Rightarrow> [s] | c # cs \<Rightarrow> if p c then [cs, s] else [s])"
| "item_rests (Many p) s = greedy p 0 s"
| "item_rests (Many1 p) s = greedy p 1 s"
| "item_rests AtEnd s = (if s = [] then [s] else [])"

fun seq_rests :: "rx_item list \<Rightarrow> string \<Rightarrow> string list" where
  "seq_rests [] s = [s]"
| "seq_rests (i # is) s = concat (map (seq_rests is) (item_rests i s))"

text \<open>The remainder and the text of each group.\<close>

fun rx_matches :: "rx_part list \<Rightarrow> string \<Rightarrow> (string \<times> string list) list" where
  "rx_matches [] s = [(s, [])]"
| "rx_matches (Item i # ps) s = concat (map (rx_matches ps) (item_rests i s))"
| "rx_matches (Group alts # ps) s =
    concat (map (\<lambda>alt. concat (map (\<lambda>r.
        map (\<lambda>(r', caps). (r', take (length s - length r) s # caps)) (rx_matches ps r)) (seq_rests alt s))) alts)"

text \<open>\<open>std::regex_search\<close>: the matched text and the groups.\<close>

fun regex_search :: "rx_part list \<Rightarrow> string \<Rightarrow> (string \<times> string list) option" where
  "regex_search ps s =
    (case rx_matches ps s of
       (r, caps) # _ \<Rightarrow> Some (take (length s - length r) s, caps)
     | [] \<Rightarrow> (case s of [] \<Rightarrow> None | c # cs \<Rightarrow> regex_search ps cs))"

declare regex_search.simps [simp del]

definition is_digit :: "char \<Rightarrow> bool" where
  "is_digit c \<longleftrightarrow> (48::nat) \<le> of_char c \<and> of_char c \<le> (57::nat)"

definition is_space :: "char \<Rightarrow> bool" where
  "is_space c \<longleftrightarrow> of_char c = (32::nat) \<or> (9::nat) \<le> of_char c \<and> of_char c \<le> (13::nat)"

definition any_char :: "char \<Rightarrow> bool" where
  "any_char c \<longleftrightarrow> of_char c \<noteq> (10::nat) \<and> of_char c \<noteq> (13::nat)"

definition lit :: "string \<Rightarrow> rx_part list" where
  "lit s = map (\<lambda>c. Item (One ((=) c))) s"

definition digits :: "nat \<Rightarrow> rx_part list" where
  "digits n = replicate n (Item (One is_digit))"

subsection \<open>File types\<close>

text \<open>The expressions of \<open>fileTypeMap_\<close>, in the order of the map; a dot matches any character.\<close>

definition fileTypeMap :: "(rx_part list \<times> ParseDataType) list" where
  "fileTypeMap =
    [(lit ''npu_'' @ [Item (Many any_char)] @ lit ''.log'', TEXT_LOG),
     (lit ''out'' @ [Item (One any_char)] @ lit ''events'' @ [Item (One any_char)] @ lit ''summary'', MINDSPORE_SUMMARY),
     (lit ''out'' @ [Item (One any_char)] @ lit ''tfevent'', TF_EVENT),
     (lit ''rank_'' @ [Item (Many any_char)] @ lit ''.log'', TEXT_LOG),
     (lit ''worker_'' @ [Item (Many1 is_digit), Item (Many any_char)] @ lit ''.log'', TEXT_LOG)]"

fun first_type :: "string \<Rightarrow> (rx_part list \<times> ParseDataType) list \<Rightarrow> ParseDataType" where
  "first_type name [] = Unknown"
| "first_type name ((pat, t) # m) = (if regex_search pat name \<noteq> None then t else first_type name m)"

subsection \<open>Lines of a log\<close>

text \<open>\<open>[-+]?\d*\.\d+|\d+\<close>\<close>

definition number_alternatives :: "rx_item list list" where
  "number_alternatives =
    [[Opt (\<lambda>c. c = CHR 0x2D \<or> c = CHR 0x2B), Many is_digit, One ((=) CHR 0x2E), Many1 is_digit],
     [Many1 is_digit]]"

definition timeRegex :: "rx_part list" where
  "timeRegex = digits 4 @ lit ''-'' @ digits 2 @ lit ''-'' @ digits 2 @ lit '' '' @ digits 2 @ lit '':''
     @ digits 2 @ lit '':'' @ digits 2 @ lit '','' @ digits 3"

definition stepRegex :: "rx_part list" where
  "stepRegex = lit ''step:'' @ [Item (Many is_space)] @ lit ''['' @ [Item (Many is_space), Group [[Many1 is_digit]]]
     @ lit [CHR 0x2F] @ [Item (Many is_space), Group [[Many1 is_digit]]] @ lit '']''"

definition lossRegex :: "rx_part list" where
  "lossRegex = lit ''loss:'' @ [Item (Many is_space), Group number_alternatives]"

definition normalRegex :: "rx_part list" where
  "normalRegex = lit ''global_norm:'' @ [Item (Many is_space)] @ lit ''['' @ [Group number_alternatives]"

definition globalBatchSizeRegex :: "rx_part list" where
  "globalBatchSizeRegex = [Item (Many1 is_digit), Item AtEnd]"

text \<open>\<open>std::string::find\<close> of a substring.\<close>

fun contains :: "string \<Rightarrow> string \<Rightarrow> bool" where
  "contains [] pat \<longleftrightarrow> pat = []"
| "contains (c # cs) pat \<longleftrightarrow> take (length pat) (c # cs) = pat \<or> contains cs pat"

definition digits_value :: "string \<Rightarrow> nat" where
  "digits_value s = foldl (\<lambda>a c. 10 * a + (of_char c - 48)) 0 s"

text \<open>\<open>std::stoll\<close> of digits throws when the value does not fit.\<close>

definition stoll :: "string \<Rightarrow> 64 word option" where
  "stoll s = (if int (digits_value s) < 2 ^ 63 then Some (of_nat (digits_value s)) else None)"

text \<open>
  The conversions from and to text: \<open>stof\<close> and \<open>stod\<close> (no value when they throw), and the two casts of
  times of \<open>ScalarPoint\<close>.
\<close>

record ('f, 'd) text_ops =
  t_stof :: "string \<Rightarrow> 'f option"
  t_stod :: "string \<Rightarrow> 'd option"
  t_wall_of_local :: "string \<Rightarrow> 'd"
  t_local_of_wall :: "'d \<Rightarrow> string"

text \<open>A record gives points for tags; \<open>std::map\<close> keeps its keys sorted.\<close>

type_synonym ('f, 'd) record_points = "(string \<times> ('f, 'd) ScalarPoint list) list"

fun string_less :: "string \<Rightarrow> string \<Rightarrow> bool" where
  "string_less [] ys \<longleftrightarrow> ys \<noteq> []"
| "string_less (x # xs) [] \<longleftrightarrow> False"
| "string_less (x # xs) (y # ys) \<longleftrightarrow>
    (of_char x :: nat) < of_char y \<or> x = y \<and> string_less xs ys"

fun add_point :: "string \<Rightarrow> ('f, 'd) ScalarPoint \<Rightarrow> ('f, 'd) record_points \<Rightarrow> ('f, 'd) record_points" where
  "add_point tag p [] = [(tag, [p])]"
| "add_point tag p ((t, ps) # m) =
    (if t = tag then (t, ps @ [p]) # m
     else if string_less tag t then (tag, [p]) # (t, ps) # m
     else (t, ps) # add_point tag p m)"

definition text_point :: "('f, 'd) text_ops \<Rightarrow> 64 word \<Rightarrow> 'f \<Rightarrow> string \<Rightarrow> ('f, 'd) ScalarPoint" where
  "text_point tops step v date = \<lparr>sp_step = step, sp_value = v, sp_wallTime = t_wall_of_local tops date,
     sp_localTime = date\<rparr>"

definition add_matched ::
  "('f, 'd) text_ops \<Rightarrow> rx_part list \<Rightarrow> string \<Rightarrow> 64 word \<Rightarrow> string \<Rightarrow> string \<Rightarrow> ('f, 'd) record_points
   \<Rightarrow> ('f, 'd) record_points option" where
  "add_matched tops pat tag step date record res =
    (case regex_search pat record of
       Some (_, v # _) \<Rightarrow> (case t_stof tops v of None \<Rightarrow> None | Some f \<Rightarrow> Some (add_point tag (text_point tops step f date) res))
     | _ \<Rightarrow> Some res)"

definition LogTextParser_ParseRecordToScalar ::
  "('f, 'd) text_ops \<Rightarrow> string \<Rightarrow> ('f, 'd) record_points option" where
  "LogTextParser_ParseRecordToScalar tops record =
    (if record = [] then Some []
     else if \<not> contains record ''step'' then Some []
     else
       let date = (case regex_search timeRegex record of Some (m, _) \<Rightarrow> m | None \<Rightarrow> []) in
       case regex_search stepRegex record of
         Some (_, s # _) \<Rightarrow>
           (case stoll s of None \<Rightarrow> None
            | Some step \<Rightarrow>
                (case add_matched tops lossRegex ''Loss'' step date record [] of None \<Rightarrow> None
                 | Some res \<Rightarrow> add_matched tops normalRegex ''global_norm'' step date record res))
       | _ \<Rightarrow> Some [])"

text \<open>
  \<open>BeforeParse\<close>: the batch size at the end of the first line that names it and ends in digits.
\<close>

fun find_batch_size :: "string list \<Rightarrow> string option" where
  "find_batch_size [] = None"
| "find_batch_size (line # lines) =
    (if \<not> contains line ''global_batch_size'' then find_batch_size lines
     else case regex_search globalBatchSizeRegex line of
       Some (m, _) \<Rightarrow> Some m
     | None \<Rightarrow> find_batch_size lines)"

end
