(* ===== verification/Scalar_server.thy ===== *)
theory Scalar_server
  imports Scalar_text "HOL-Library.List_Lexorder" "HOL-Library.Char_ord"
begin

text \<open>
  The state of the Scalar server and what its operations do to it: the known files
  (\<open>FileManager/FileInfoManager.cpp\<close>), the graphs (\<open>GraphManager/GraphManager.cpp\<close>), the file watcher
  (\<open>FileManager/FileWatcherLinuxImpl.cpp\<close>), virtual files (\<open>VirtualFile.cpp\<close>) and the operations of
  \<open>plugin/ScalarVisuallyServer.cpp\<close> that do not parse.

  A file is kept in the map by its path; the shared pointers of the code all come from this map.  The
  mutexes are left out: an operation is one step.  \<open>None\<close> is an exception or undefined behaviour inside
  the operations of a file.
\<close>

subsection \<open>Paths\<close>

text \<open>
  What the code uses of the file system library on paths of POSIX form: the part after the last slash, the part
  before it, and the root directory.
\<close>

definition slash :: char where
  "slash = CHR 0x2F"

definition path_filename :: "string \<Rightarrow> string" where
  "path_filename p = (if p \<noteq> [] \<and> last p = slash then (if list_all ((=) slash) p then [slash] else ''.'')
     else rev (takeWhile (\<lambda>c. c \<noteq> slash) (rev p)))"

definition path_parent :: "string \<Rightarrow> string" where
  "path_parent p =
    (let d = rev (dropWhile (\<lambda>c. c \<noteq> slash) (rev p));
         e = rev (dropWhile ((=) slash) (rev d))
     in if d = [] then [] else if e = [] then [slash] else e)"

definition path_root :: "string \<Rightarrow> string" where
  "path_root p = (if p \<noteq> [] \<and> hd p = slash then [slash] else [])"

definition GetFileType :: "string \<Rightarrow> ParseDataType" where
  "GetFileType path = first_type (path_filename path) fileTypeMap"

definition IsFileSupported :: "string \<Rightarrow> bool" where
  "IsFileSupported path = list_ex (\<lambda>(pat, t). regex_search pat (path_filename path) \<noteq> None) fileTypeMap"

subsection \<open>The file watcher\<close>

text \<open>
  The tables of the watcher, and the calls made to the kernel.  What \<open>inotify_add_watch\<close> and
  \<open>inotify_rm_watch\<close> return is given by \<open>inotify_env\<close>.
\<close>

datatype inotify_call = Add_watch string | Rm_watch int

record Watcher =
  fw_dirFd :: "string \<rightharpoonup> int"
  fw_fdDir :: "int \<rightharpoonup> string"
  fw_dirToFiles :: "string \<rightharpoonup> string set"
  fw_calls :: "inotify_call list"

record inotify_env =
  env_add :: "inotify_call list \<Rightarrow> string \<Rightarrow> int"
  env_rm :: "inotify_call list \<Rightarrow> int \<Rightarrow> int"

definition new_Watcher :: Watcher where
  "new_Watcher = \<lparr>fw_dirFd = Map.empty, fw_fdDir = Map.empty, fw_dirToFiles = Map.empty, fw_calls = []\<rparr>"

definition set_at :: "(string \<rightharpoonup> 'a set) \<Rightarrow> string \<Rightarrow> 'a set" where
  "set_at m k = (case m k of None \<Rightarrow> {} | Some s \<Rightarrow> s)"

definition FileWatcher_IsDirWatched :: "string \<Rightarrow> Watcher \<Rightarrow> bool" where
  "FileWatcher_IsDirWatched dir w \<longleftrightarrow> fw_dirFd w dir \<noteq> None"

text \<open>The lookup in \<open>watchDirToFiles_\<close> makes an entry for a watched directory that has none.\<close>

definition FileWatcher_IsFileWatched :: "string \<Rightarrow> string \<Rightarrow> Watcher \<Rightarrow> Watcher \<times> bool" where
  "FileWatcher_IsFileWatched dir file w =
    (if \<not> FileWatcher_IsDirWatched dir w then (w, False)
     else (w\<lparr>fw_dirToFiles := (fw_dirToFiles w)(dir \<mapsto> set_at (fw_dirToFiles w) dir)\<rparr>,
           file \<in> set_at (fw_dirToFiles w) dir))"

definition FileWatcher_IsWdWatched :: "int \<Rightarrow> Watcher \<Rightarrow> bool" where
  "FileWatcher_IsWdWatched wd w \<longleftrightarrow> wd \<noteq> - 1 \<and> fw_fdDir w wd \<noteq> None"

definition FileWatcher_GetWatchedDirName :: "int \<Rightarrow> Watcher \<Rightarrow> string" where
  "FileWatcher_GetWatchedDirName wd w =
    (if wd = - 1 then [] else case fw_fdDir w wd of None \<Rightarrow> [] | Some d \<Rightarrow> d)"

text \<open>\<open>emplace\<close> keeps an entry that is there.\<close>

definition map_emplace :: "('a \<rightharpoonup> 'b) \<Rightarrow> 'a \<Rightarrow> 'b \<Rightarrow> 'a \<rightharpoonup> 'b" where
  "map_emplace m k v = (if m k = None then m(k \<mapsto> v) else m)"

definition watch_one :: "inotify_env \<Rightarrow> string \<Rightarrow> Watcher \<Rightarrow> Watcher" where
  "watch_one env file w =
    (let dir = path_parent file; name = path_filename file;
         (w1, watched) = FileWatcher_IsFileWatched dir name w
     in if watched then w1
        else let fd = env_add env (fw_calls w1) dir;
                 w2 = w1\<lparr>fw_calls := fw_calls w1 @ [Add_watch dir]\<rparr> in
          if fd = - 1 then w2
          else w2\<lparr>fw_dirFd := map_emplace (fw_dirFd w2) dir fd,
                  fw_fdDir := map_emplace (fw_fdDir w2) fd dir,
                  fw_dirToFiles := (fw_dirToFiles w2)(dir \<mapsto> insert name (set_at (fw_dirToFiles w2) dir))\<rparr>)"

definition FileWatcher_AddWatchPath :: "inotify_env \<Rightarrow> string list \<Rightarrow> Watcher \<Rightarrow> Watcher" where
  "FileWatcher_AddWatchPath env files w = fold (watch_one env) files w"

definition unwatch_one :: "inotify_env \<Rightarrow> string \<Rightarrow> Watcher \<Rightarrow> Watcher" where
  "unwatch_one env file w =
    (let dir = path_root file; name = path_filename file;
         (w1, watched) = FileWatcher_IsFileWatched dir name w
     in if \<not> watched then w1
        else let fd = (case fw_dirFd w1 dir of None \<Rightarrow> 0 | Some fd \<Rightarrow> fd);
                 r = env_rm env (fw_calls w1) fd;
                 w2 = w1\<lparr>fw_calls := fw_calls w1 @ [Rm_watch fd]\<rparr> in
          if r = - 1 then w2
          else let left = set_at (fw_dirToFiles w2) dir - {name};
                   w3 = w2\<lparr>fw_dirToFiles := (fw_dirToFiles w2)(dir \<mapsto> left)\<rparr> in
            if left = {}
            then w3\<lparr>fw_dirFd := (fw_dirFd w3)(dir := None), fw_fdDir := (fw_fdDir w3)(fd := None),
                    fw_dirToFiles := (fw_dirToFiles w3)(dir := None)\<rparr>
            else w3)"

definition FileWatcher_DelWatchPath :: "inotify_env \<Rightarrow> string list \<Rightarrow> Watcher \<Rightarrow> Watcher" where
  "FileWatcher_DelWatchPath env files w = fold (unwatch_one env) files w"

text \<open>\<open>Reset\<close> forgets the directories but not the files noted for them.\<close>

definition FileWatcher_Reset :: "string list \<Rightarrow> Watcher \<Rightarrow> Watcher" where
  "FileWatcher_Reset order w =
    w\<lparr>fw_calls := fw_calls w @ map (\<lambda>d. Rm_watch (the (fw_dirFd w d))) order,
      fw_dirFd := Map.empty, fw_fdDir := Map.empty\<rparr>"

subsection \<open>The state of the server\<close>

record ParseState =
  ps_pending :: "string set"
  ps_fileInfos :: "string list"
  ps_dataSize :: "64 word"
  ps_percent :: "32 word"
  ps_finish :: bool

record ('f, 'd) Server =
  sv_filePaths :: "string set"
  sv_fileInfoMap :: "string \<rightharpoonup> ('f, 'd) File"
  sv_created :: "string \<rightharpoonup> string set"
  sv_graphs :: "string \<rightharpoonup> string set"
  sv_incremental :: "string \<rightharpoonup> string set"
  sv_parseState :: "string \<rightharpoonup> ParseState"
  sv_importedPaths :: "string list"
  sv_watcher :: Watcher
  sv_projectId :: "64 word"

definition new_Server :: "('f, 'd) Server" where
  "new_Server = \<lparr>sv_filePaths = {}, sv_fileInfoMap = Map.empty, sv_created = Map.empty, sv_graphs = Map.empty,
     sv_incremental = Map.empty, sv_parseState = Map.empty, sv_importedPaths = [], sv_watcher = new_Watcher,
     sv_projectId = 0\<rparr>"

subsection \<open>Known files\<close>

definition GetFileInfo :: "string \<Rightarrow> ('f, 'd) Server \<Rightarrow> ('f, 'd) File option" where
  "GetFileInfo path sv = (if path \<notin> sv_filePaths sv then None else sv_fileInfoMap sv path)"

definition put_file :: "string \<Rightarrow> ('f, 'd) File \<Rightarrow> ('f, 'd) Server \<Rightarrow> ('f, 'd) Server" where
  "put_file path f sv = sv\<lparr>sv_fileInfoMap := (sv_fileInfoMap sv)(path \<mapsto> f)\<rparr>"

definition FileInfoManager_AddFile ::
  "('f, 'd) float_ops \<Rightarrow> string \<Rightarrow> ParseDataType \<Rightarrow> ('f, 'd) Server \<Rightarrow> ('f, 'd) Server" where
  "FileInfoManager_AddFile fo path t sv =
    (if path \<in> sv_filePaths sv then sv
     else put_file path (new_File fo path t) (sv\<lparr>sv_filePaths := insert path (sv_filePaths sv)\<rparr>))"

definition FileInfoManager_AddFileInfo :: "('f, 'd) File \<Rightarrow> ('f, 'd) Server \<Rightarrow> ('f, 'd) Server" where
  "FileInfoManager_AddFileInfo f sv =
    (if fi_filePath f \<in> sv_filePaths sv then sv
     else sv\<lparr>sv_fileInfoMap := map_emplace (sv_fileInfoMap sv) (fi_filePath f) f,
             sv_filePaths := insert (fi_filePath f) (sv_filePaths sv)\<rparr>)"

definition FileInfoManager_DelFileFromMap :: "string \<Rightarrow> ('f, 'd) Server \<Rightarrow> ('f, 'd) Server \<times> bool" where
  "FileInfoManager_DelFileFromMap path sv =
    (if path \<notin> sv_filePaths sv then (sv, False)
     else (sv\<lparr>sv_filePaths := sv_filePaths sv - {path},
              sv_fileInfoMap := (sv_fileInfoMap sv)(path := None)\<rparr>, True))"

definition OnFileCreate :: "string \<Rightarrow> string \<Rightarrow> ('f, 'd) Server \<Rightarrow> ('f, 'd) Server" where
  "OnFileCreate dir name sv =
    sv\<lparr>sv_created := (sv_created sv)(dir \<mapsto> insert name (set_at (sv_created sv) dir))\<rparr>"

definition GetCreatedFileGroupByDir :: "('f, 'd) Server \<Rightarrow> ('f, 'd) Server \<times> (string \<rightharpoonup> string set)" where
  "GetCreatedFileGroupByDir sv = (sv\<lparr>sv_created := Map.empty\<rparr>, sv_created sv)"

definition IsFileImported :: "string \<Rightarrow> ('f, 'd) Server \<Rightarrow> bool" where
  "IsFileImported path sv = (case GetFileInfo path sv of None \<Rightarrow> False | Some f \<Rightarrow> fi_imported f)"

definition IsFileWatched :: "string \<Rightarrow> ('f, 'd) Server \<Rightarrow> bool" where
  "IsFileWatched path sv \<longleftrightarrow> GetFileInfo path sv \<noteq> None"

subsection \<open>Graphs\<close>

definition Graph_InnerFile :: "string \<Rightarrow> string set \<Rightarrow> bool" where
  "Graph_InnerFile file g \<longleftrightarrow> file \<in> g"

subsection \<open>Virtual files\<close>

text \<open>A set of paths is visited in the order of its elements.\<close>

definition VirtualFile_AddSubFiles :: "string list \<Rightarrow> ('f, 'd) Server \<Rightarrow> ('f, 'd) File \<Rightarrow> ('f, 'd) File" where
  "VirtualFile_AddSubFiles files sv f = fold (\<lambda>path f.
     if path \<in> fi_subFiles f then f
     else case GetFileInfo path sv of
       None \<Rightarrow> f
     | Some info \<Rightarrow> f\<lparr>fi_tag := fi_tag f \<union> fi_tag info, fi_subFiles := insert path (fi_subFiles f)\<rparr>) files f"

text \<open>The order of views: the step of the first point, then its wall time.\<close>

definition view_before :: "('f, 'd) float_ops \<Rightarrow> ('f, 'd) DataView \<Rightarrow> ('f, 'd) DataView \<Rightarrow> bool" where
  "view_before fo l r =
    (let p = dv_data l ! dv_lower l; q = dv_data r ! dv_lower r in
     if sp_step p \<noteq> sp_step q then sint (sp_step p) < sint (sp_step q) else d_lt fo (sp_wallTime p) (sp_wallTime q))"

fun insert_view :: "('f, 'd) float_ops \<Rightarrow> ('f, 'd) DataView \<Rightarrow> ('f, 'd) DataView list \<Rightarrow> ('f, 'd) DataView list" where
  "insert_view fo v [] = [v]"
| "insert_view fo v (w # ws) = (if view_before fo v w then v # w # ws else w # insert_view fo v ws)"

definition sort_views :: "('f, 'd) float_ops \<Rightarrow> ('f, 'd) DataView list \<Rightarrow> ('f, 'd) DataView list" where
  "sort_views fo vs = fold (insert_view fo) vs []"

fun sub_views ::
  "('f, 'd) float_ops \<Rightarrow> string \<Rightarrow> 64 word \<Rightarrow> 64 word \<Rightarrow> DataMode \<Rightarrow> ('f, 'd) Server \<Rightarrow> string list
   \<Rightarrow> ('f, 'd) DataView list option" where
  "sub_views fo tag l r mode sv [] = Some []"
| "sub_views fo tag l r mode sv (path # paths) =
    (case (case GetFileInfo path sv of
             None \<Rightarrow> Some []
           | Some f \<Rightarrow> if fi_type f \<noteq> NORMAL \<or> \<not> File_ContainsData tag f then Some []
                       else File_GetData fo tag l r mode f) of
       None \<Rightarrow> None
     | Some vs \<Rightarrow> (case sub_views fo tag l r mode sv paths of None \<Rightarrow> None | Some ws \<Rightarrow> Some (vs @ ws)))"

text \<open>Sorting several views reads the first point of each, which must exist.\<close>

definition VirtualFile_GetData ::
  "('f, 'd) float_ops \<Rightarrow> string \<Rightarrow> 64 word \<Rightarrow> 64 word \<Rightarrow> DataMode \<Rightarrow> ('f, 'd) Server \<Rightarrow> ('f, 'd) File
   \<Rightarrow> ('f, 'd) DataView list option" where
  "VirtualFile_GetData fo tag l r mode sv f =
    (case sub_views fo tag l r mode sv (sorted_list_of_set (fi_subFiles f)) of
       None \<Rightarrow> None
     | Some vs \<Rightarrow> if 2 \<le> length vs \<and> list_ex (\<lambda>v. length (dv_data v) \<le> dv_lower v) vs then None
                  else Some (sort_views fo vs))"

definition any_GetData ::
  "('f, 'd) float_ops \<Rightarrow> string \<Rightarrow> 64 word \<Rightarrow> 64 word \<Rightarrow> DataMode \<Rightarrow> ('f, 'd) Server \<Rightarrow> ('f, 'd) File
   \<Rightarrow> ('f, 'd) DataView list option" where
  "any_GetData fo tag l r mode sv f =
    (if fi_type f = VISUAL then VirtualFile_GetData fo tag l r mode sv f else File_GetData fo tag l r mode f)"

text \<open>
  Setting a smoothing parameter on a virtual file sets it on its sub-files; the argument bounds the depth of
  virtual files inside virtual files, which the server never makes.
\<close>

fun set_smoothing ::
  "nat \<Rightarrow> ('f, 'd) float_ops \<Rightarrow> string \<Rightarrow> ('f, 'd) SmoothingParam option \<Rightarrow> string list \<Rightarrow> ('f, 'd) Server
   \<Rightarrow> ('f, 'd) Server option" where
  "set_smoothing depth fo tag param [] sv = Some sv"
| "set_smoothing 0 fo tag param (path # paths) sv = None"
| "set_smoothing (Suc depth) fo tag param (path # paths) sv =
    (case (case GetFileInfo path sv of
             None \<Rightarrow> Some sv
           | Some f \<Rightarrow>
               if fi_type f = VISUAL then
                 (if param = None then Some sv
                  else set_smoothing depth fo tag param (sorted_list_of_set (fi_subFiles f)) sv)
               else (case File_UpdateSmoothingParam fo tag param f of
                       None \<Rightarrow> None | Some f' \<Rightarrow> Some (put_file path f' sv))) of
       None \<Rightarrow> None
     | Some sv' \<Rightarrow> set_smoothing (Suc depth) fo tag param paths sv')"

subsection \<open>The data of graphs\<close>

definition Graph_GetFileData ::
  "('f, 'd) float_ops \<Rightarrow> string \<Rightarrow> string set \<Rightarrow> string \<Rightarrow> 64 word \<Rightarrow> 64 word \<Rightarrow> DataMode \<Rightarrow> ('f, 'd) Server
   \<Rightarrow> ('f, 'd) DataView list option" where
  "Graph_GetFileData fo tag g file left right mode sv =
    (if \<not> Graph_InnerFile file g then Some []
     else case GetFileInfo file sv of None \<Rightarrow> Some [] | Some f \<Rightarrow> any_GetData fo tag left right mode sv f)"

definition GetGraphData ::
  "('f, 'd) float_ops \<Rightarrow> string \<Rightarrow> string \<Rightarrow> 64 word \<Rightarrow> 64 word \<Rightarrow> DataMode \<Rightarrow> ('f, 'd) Server
   \<Rightarrow> ('f, 'd) DataView list option" where
  "GetGraphData fo tag file left right mode sv =
    (case sv_graphs sv tag of
       None \<Rightarrow> Some []
     | Some g \<Rightarrow> Graph_GetFileData fo tag g file left right mode sv)"

text \<open>Two levels: a virtual file and its sub-files.\<close>

definition UpdateSmoothingParam ::
  "('f, 'd) float_ops \<Rightarrow> string \<Rightarrow> string \<Rightarrow> ('f, 'd) SmoothingParam option \<Rightarrow> ('f, 'd) Server
   \<Rightarrow> ('f, 'd) Server option" where
  "UpdateSmoothingParam fo tag file param sv =
    (if sv_graphs sv tag = None \<or> param = None then Some sv else set_smoothing 2 fo tag param [file] sv)"

definition Graph_UpdateData ::
  "('f, 'd) float_ops \<Rightarrow> string \<Rightarrow> string \<Rightarrow> ('f, 'd) ScalarPoint list \<Rightarrow> ('f, 'd) Server \<Rightarrow> ('f, 'd) Server option" where
  "Graph_UpdateData fo tag file data sv =
    (let sv1 = sv\<lparr>sv_graphs := (sv_graphs sv)(tag \<mapsto> insert file (set_at (sv_graphs sv) tag))\<rparr> in
     if data = [] then Some sv1
     else case GetFileInfo file sv1 of
       None \<Rightarrow> Some sv1
     | Some f \<Rightarrow>
         if fi_type f \<noteq> NORMAL then Some sv1
         else (case File_UpdateData fo tag data f of None \<Rightarrow> None | Some f' \<Rightarrow> Some (put_file file f' sv1)))"

text \<open>\<open>UpdateGraphData\<close> makes the graph of a new tag first; here this is the empty set \<open>set_at\<close> gives.\<close>

definition UpdateGraph ::
  "('f, 'd) float_ops \<Rightarrow> string \<Rightarrow> string \<Rightarrow> ('f, 'd) ScalarPoint list \<Rightarrow> ('f, 'd) Server \<Rightarrow> ('f, 'd) Server option" where
  "UpdateGraph fo tag file data sv = Graph_UpdateData fo tag file data
     (sv\<lparr>sv_graphs := (sv_graphs sv)(tag \<mapsto> set_at (sv_graphs sv) tag)\<rparr>)"

definition GetAllGraphInfo :: "('f, 'd) Server \<Rightarrow> string \<rightharpoonup> string set" where
  "GetAllGraphInfo sv = sv_graphs sv"

definition GetGraphContainsFile :: "string \<Rightarrow> ('f, 'd) Server \<Rightarrow> string set" where
  "GetGraphContainsFile tag sv = set_at (sv_graphs sv) tag"

text \<open>The graphs are visited in the order of an unordered map, here the argument.\<close>

definition GetFileTags :: "string list \<Rightarrow> string \<Rightarrow> ('f, 'd) Server \<Rightarrow> string set \<Rightarrow> string set" where
  "GetFileTags order path sv tags =
    fold (\<lambda>t tags. if Graph_InnerFile path (set_at (sv_graphs sv) t) then insert t tags else tags) order tags"

definition IsIncremental :: "string \<Rightarrow> string \<Rightarrow> ('f, 'd) Server \<Rightarrow> bool" where
  "IsIncremental path tag sv =
    (case sv_graphs sv tag of None \<Rightarrow> True | Some g \<Rightarrow> \<not> Graph_InnerFile path g)"

definition AddIncremental :: "string \<Rightarrow> string \<Rightarrow> ('f, 'd) Server \<Rightarrow> ('f, 'd) Server" where
  "AddIncremental path tag sv =
    sv\<lparr>sv_incremental := (sv_incremental sv)(tag \<mapsto> insert path (set_at (sv_incremental sv) tag))\<rparr>"

text \<open>
  \<open>GetIncremental\<close> hands over entries in the order of an unordered map, here the argument, and stops after
  the entry with which more than 1000 files have been handed over.
\<close>

fun take_incremental :: "nat \<Rightarrow> string list \<Rightarrow> (string \<rightharpoonup> string set) \<Rightarrow> (string \<rightharpoonup> string set) \<times> (string \<times> string set) list" where
  "take_incremental count [] m = (m, [])"
| "take_incremental count (tag # order) m =
    (let files = set_at m tag; count' = count + card files; m' = m(tag := None) in
     if 1000 < count' then (m', [(tag, files)])
     else let (m'', res) = take_incremental count' order m' in (m'', (tag, files) # res))"

definition GetIncremental :: "string list \<Rightarrow> ('f, 'd) Server \<Rightarrow> ('f, 'd) Server \<times> (string \<times> string set) list" where
  "GetIncremental order sv =
    (let (m, res) = take_incremental 0 order (sv_incremental sv) in (sv\<lparr>sv_incremental := m\<rparr>, res))"


subsection \<open>Adding and removing virtual files\<close>

definition AddFile :: "('f, 'd) float_ops \<Rightarrow> string \<Rightarrow> ('f, 'd) Server \<Rightarrow> ('f, 'd) Server" where
  "AddFile fo path sv = FileInfoManager_AddFile fo path (GetFileType path) sv"

definition AddVirtualFile :: "('f, 'd) File \<Rightarrow> ('f, 'd) Server \<Rightarrow> ('f, 'd) Server" where
  "AddVirtualFile f sv =
    (let sv1 = FileInfoManager_AddFileInfo f sv in
     sv1\<lparr>sv_graphs := (\<lambda>tag. if tag \<in> fi_tag f then map_option (insert (fi_filePath f)) (sv_graphs sv1 tag)
                              else sv_graphs sv1 tag)\<rparr>)"

definition DelVirtualFile :: "('f, 'd) File \<Rightarrow> ('f, 'd) Server \<Rightarrow> ('f, 'd) Server" where
  "DelVirtualFile f sv =
    (if GetFileInfo (fi_filePath f) sv = None then sv
     else let (sv1, _) = FileInfoManager_DelFileFromMap (fi_filePath f) sv in
       sv1\<lparr>sv_graphs := (\<lambda>tag. if tag \<in> fi_tag f then map_option (\<lambda>g. g - {fi_filePath f}) (sv_graphs sv1 tag)
                                else sv_graphs sv1 tag)\<rparr>)"

text \<open>
  \<open>FileMerge\<close> and \<open>FileUnMerge\<close> of \<open>Handler/ScalarVisuallyFileMergeHandler.cpp\<close>.  The generated name for a
  request without one is made and not used.
\<close>

definition new_VirtualFile :: "('f, 'd) float_ops \<Rightarrow> string \<Rightarrow> ('f, 'd) File" where
  "new_VirtualFile fo name = (new_File fo name TEXT_LOG)\<lparr>fi_type := VISUAL\<rparr>"

definition FileMerge :: "('f, 'd) float_ops \<Rightarrow> string list \<Rightarrow> string \<Rightarrow> ('f, 'd) Server \<Rightarrow> ('f, 'd) Server \<times> ('f, 'd) File" where
  "FileMerge fo subFiles name sv =
    (let f = VirtualFile_AddSubFiles subFiles sv (new_VirtualFile fo name) in (AddVirtualFile f sv, f))"

definition FileUnMerge :: "string \<Rightarrow> ('f, 'd) Server \<Rightarrow> ('f, 'd) Server" where
  "FileUnMerge file sv =
    (if file = [] then sv
     else case GetFileInfo file sv of
       None \<Rightarrow> sv
     | Some f \<Rightarrow> if fi_type f \<noteq> VISUAL then sv else DelVirtualFile f sv)"

text \<open>\<open>SetFileToken\<close> of \<open>Handler/ScalarVisuallyTokenSet.cpp\<close>: the tags of the file, or an error message.\<close>

definition SetFileToken ::
  "string \<Rightarrow> 'd \<Rightarrow> 'd \<Rightarrow> ('f, 'd) Server \<Rightarrow> ('f, 'd) Server \<times> (string + string set)" where
  "SetFileToken file batch seq sv =
    (case GetFileInfo file sv of
       None \<Rightarrow> (sv, Inl (''file '' @ file @ ''Not exist '' @ [CHR 0x0A]))
     | Some f \<Rightarrow>
         if fi_type f = VISUAL then (sv, Inl ''visual file can't config token'')
         else (put_file file (f\<lparr>fi_globalBatchSize := batch, fi_seqLength := seq\<rparr>) sv, Inr (fi_tag f)))"

subsection \<open>Projects and imported directories\<close>

definition GetProjectName :: "('f, 'd) Server \<Rightarrow> ('f, 'd) Server \<times> 64 word" where
  "GetProjectName sv = (sv\<lparr>sv_projectId := sv_projectId sv + 1\<rparr>, sv_projectId sv)"

definition AddImportedPath :: "string \<Rightarrow> ('f, 'd) Server \<Rightarrow> ('f, 'd) Server" where
  "AddImportedPath path sv = sv\<lparr>sv_importedPaths :=
     (if path \<in> set (sv_importedPaths sv) then sv_importedPaths sv else insort path (sv_importedPaths sv))\<rparr>"

text \<open>
  \<open>FileUtil::GetFileHierarchy\<close>: the parts of a path below a prefix; a path that ends in a slash has a last part
  that is a dot.
\<close>

fun path_parts :: "string \<Rightarrow> string \<Rightarrow> string list" where
  "path_parts acc [] = (if acc = [] then [] else [rev acc])"
| "path_parts acc (c # cs) =
    (if c = slash then (if acc = [] then [] else [rev acc]) @ path_parts [] cs else path_parts (c # acc) cs)"

text \<open>\<open>substr\<close> throws for a position past the end, which happens when the path is the prefix itself.\<close>

definition FileUtil_GetFileHierarchy :: "string \<Rightarrow> string \<Rightarrow> string list option" where
  "FileUtil_GetFileHierarchy pre path =
    (if take (length pre) path \<noteq> pre then Some []
     else if length path < length pre + 1 then None
     else let rel = drop (length pre + 1) path in
       Some ((if take 1 rel = [slash] then [[slash]] else []) @ path_parts [] rel
         @ (if path_parts [] rel \<noteq> [] \<and> last rel = slash then [''.''] else [])))"

fun GetFileHierarchy :: "string \<Rightarrow> string list \<Rightarrow> string list option" where
  "GetFileHierarchy path [] = Some []"
| "GetFileHierarchy path (pre # pres) =
    (if take (length pre) path = pre then FileUtil_GetFileHierarchy pre path else GetFileHierarchy path pres)"

definition Server_Reset :: "string list \<Rightarrow> ('f, 'd) Server \<Rightarrow> ('f, 'd) Server" where
  "Server_Reset order sv =
    sv\<lparr>sv_filePaths := {}, sv_fileInfoMap := Map.empty, sv_graphs := Map.empty,
       sv_watcher := FileWatcher_Reset order (sv_watcher sv), sv_incremental := Map.empty,
       sv_parseState := Map.empty, sv_importedPaths := []\<rparr>"

definition GetProjectParseStatus ::
  "string \<Rightarrow> ('f, 'd) Server \<Rightarrow> ('f, 'd) Server \<times> (string \<times> bool \<times> 32 word)" where
  "GetProjectParseStatus project sv =
    (case sv_parseState sv project of
       None \<Rightarrow> (sv, (project, True, 100))
     | Some s \<Rightarrow> (if ps_finish s then sv\<lparr>sv_parseState := (sv_parseState sv)(project := None)\<rparr> else sv,
                  (project, ps_finish s, ps_percent s)))"

end
