(* ===== verification/Scalar_line.thy ===== *)
theory Scalar_line
  imports Scalar_server
begin

text \<open>
  The lines of a graph and the operations that make their data: \<open>GraphLine/GraphLine.cpp\<close>, the headers of
  \<open>GraphLine/LineOp\<close>, and the part of \<open>Handler/ScalarVisuallyGetScalarDataHandler.cpp\<close> between the parsed
  request and the response.  \<open>None\<close> stands for an exception or undefined behaviour, such as a null pointer.
\<close>

subsection \<open>Lines\<close>

datatype LineType = L_SAMPLE | L_NORMAL | L_SMOOTHING | L_TOKEN | L_NORMAL_SMOOTHING | L_TOKEN_SMOOTHING | L_UNKNOWN

definition CastLineType :: "string \<Rightarrow> LineType" where
  "CastLineType s = (if s = ''normal'' then L_NORMAL else if s = ''sample'' then L_SAMPLE
     else if s = ''smoothing'' then L_SMOOTHING else if s = ''token'' then L_TOKEN else L_UNKNOWN)"

fun CastLineTypeStr :: "LineType \<Rightarrow> string" where
  "CastLineTypeStr L_NORMAL = ''normal''"
| "CastLineTypeStr L_SAMPLE = ''sample''"
| "CastLineTypeStr L_SMOOTHING = ''smoothing''"
| "CastLineTypeStr L_TOKEN = ''token''"
| "CastLineTypeStr L_NORMAL_SMOOTHING = ''normalSmoothing''"
| "CastLineTypeStr L_TOKEN_SMOOTHING = ''tokenSmoothing''"
| "CastLineTypeStr L_UNKNOWN = ''unknown''"

record ('f, 'd) GraphLine =
  gl_type :: LineType
  gl_view :: bool
  gl_srcData :: "('f, 'd) ScalarPoint list"
  gl_dataView :: "('f, 'd) DataView list"

definition new_GraphLine :: "LineType \<Rightarrow> ('f, 'd) GraphLine" where
  "new_GraphLine t = \<lparr>gl_type = t, gl_view = True, gl_srcData = [], gl_dataView = []\<rparr>"

definition GraphLine_AddLineData :: "('f, 'd) ScalarPoint list \<Rightarrow> ('f, 'd) GraphLine \<Rightarrow> ('f, 'd) GraphLine" where
  "GraphLine_AddLineData points line =
    (if gl_view line \<or> points = [] then line
     else line\<lparr>gl_srcData := take (lower_bound (gl_srcData line) (sp_step (hd points))) (gl_srcData line) @ points\<rparr>)"

definition GraphLine_GetLineData :: "('f, 'd) GraphLine \<Rightarrow> ('f, 'd) GraphLine \<times> ('f, 'd) ScalarPoint list" where
  "GraphLine_GetLineData line =
    (let line' = (if \<not> gl_view line then line
       else fold (\<lambda>v. GraphLine_AddLineData (DataView_GetElements v)) (gl_dataView line) (line\<lparr>gl_view := False\<rparr>))
     in (line'\<lparr>gl_srcData := []\<rparr>, gl_srcData line'))"

subsection \<open>Operations on lines\<close>

record op_info =
  op_tag :: string
  op_file :: string
  op_left :: "64 word"
  op_right :: "64 word"
  op_mode :: DataMode

datatype ('f, 'd) LineOp =
  NormalLineOp op_info
| SampleLineOp op_info
| SmoothingLineOp op_info "('f, 'd) SmoothingParam option"
| TokenLineOp op_info

text \<open>A clone of a smoothing operation clones its parameter through the pointer.\<close>

fun LineOp_Clone :: "('f, 'd) LineOp \<Rightarrow> ('f, 'd) LineOp option" where
  "LineOp_Clone (NormalLineOp i) = Some (NormalLineOp i)"
| "LineOp_Clone (SampleLineOp i) = Some (SampleLineOp (i\<lparr>op_mode := M_SAMPLE\<rparr>))"
| "LineOp_Clone (SmoothingLineOp i p) = (if p = None then None else Some (SmoothingLineOp i p))"
| "LineOp_Clone (TokenLineOp i) = Some (TokenLineOp (i\<lparr>op_mode := M_TOKEN\<rparr>))"

fun LineOp_SetDataMode :: "DataMode \<Rightarrow> ('f, 'd) LineOp \<Rightarrow> ('f, 'd) LineOp" where
  "LineOp_SetDataMode m (NormalLineOp i) = NormalLineOp (i\<lparr>op_mode := m\<rparr>)"
| "LineOp_SetDataMode m (SampleLineOp i) = SampleLineOp (i\<lparr>op_mode := m\<rparr>)"
| "LineOp_SetDataMode m (SmoothingLineOp i p) = SmoothingLineOp (i\<lparr>op_mode := m\<rparr>) p"
| "LineOp_SetDataMode m (TokenLineOp i) = TokenLineOp (i\<lparr>op_mode := m\<rparr>)"

definition TransViewToData ::
  "('f, 'd) float_ops \<Rightarrow> ('f, 'd) Server \<Rightarrow> ('f, 'd) GraphLine \<Rightarrow> ('f, 'd) GraphLine" where
  "TransViewToData fo sv line = fold (\<lambda>v line.
     case GetFileInfo (dv_file v) sv of
       None \<Rightarrow> line
     | Some f \<Rightarrow>
         let cof = File_GetTokenCof fo f;
             cof = (if d_lt fo cof (d_zero fo) \<or> d_eq fo cof (d_zero fo) then d_one fo else cof)
         in GraphLine_AddLineData
              (map (\<lambda>p. p\<lparr>sp_step := d_scale_step fo cof (sp_step p)\<rparr>) (DataView_GetElements v)) line)
     (gl_dataView line) (line\<lparr>gl_view := False\<rparr>)"

fun LineOp_Process ::
  "('f, 'd) float_ops \<Rightarrow> ('f, 'd) LineOp \<Rightarrow> ('f, 'd) Server \<Rightarrow> ('f, 'd) GraphLine
   \<Rightarrow> (('f, 'd) Server \<times> ('f, 'd) GraphLine) option" where
  "LineOp_Process fo (NormalLineOp i) sv line =
    (case GetGraphData fo (op_tag i) (op_file i) (op_left i) (op_right i) (op_mode i) sv of
       None \<Rightarrow> None | Some vs \<Rightarrow> Some (sv, line\<lparr>gl_dataView := vs\<rparr>))"
| "LineOp_Process fo (SampleLineOp i) sv line =
    (case SampleLineOp_Process (gl_dataView line) of
       None \<Rightarrow> None | Some vs \<Rightarrow> Some (sv, line\<lparr>gl_dataView := vs\<rparr>))"
| "LineOp_Process fo (SmoothingLineOp i p) sv line =
    (case UpdateSmoothingParam fo (op_tag i) (op_file i) p sv of
       None \<Rightarrow> None
     | Some sv' \<Rightarrow>
         (case GetGraphData fo (op_tag i) (op_file i) (op_left i) (op_right i) (op_mode i) sv' of
            None \<Rightarrow> None | Some vs \<Rightarrow> Some (sv', line\<lparr>gl_dataView := vs\<rparr>)))"
| "LineOp_Process fo (TokenLineOp i) sv line =
    Some (sv, if gl_view line then TransViewToData fo sv line else line)"

subsection \<open>From a request to its operations\<close>

text \<open>One entry of a request's configuration, with the smoothing parameter its algorithm names.\<close>

record ('f, 'd) line_conf =
  lc_type :: string
  lc_enable :: bool
  lc_param :: "('f, 'd) SmoothingParam option"

record ('f, 'd) SingleGraphReqInfo =
  rq_tag :: string
  rq_file :: string
  rq_start :: "64 word"
  rq_end :: "64 word"
  rq_lines :: "('f, 'd) line_conf list"

definition basic_info :: "('f, 'd) SingleGraphReqInfo \<Rightarrow> DataMode \<Rightarrow> op_info" where
  "basic_info r m = \<lparr>op_tag = rq_tag r, op_file = rq_file r, op_left = rq_start r, op_right = rq_end r, op_mode = m\<rparr>"

text \<open>An enabled entry of another type leaves the pointer null, which is then used.\<close>

definition op_insert :: "LineType \<Rightarrow> ('f, 'd) LineOp \<Rightarrow> (LineType \<rightharpoonup> ('f, 'd) LineOp) \<Rightarrow> LineType \<rightharpoonup> ('f, 'd) LineOp" where
  "op_insert t op m = (if m t = None then m(t \<mapsto> op) else m)"

definition BuildLineOps ::
  "('f, 'd) SingleGraphReqInfo \<Rightarrow> ('f, 'd) line_conf \<Rightarrow> (LineType \<rightharpoonup> ('f, 'd) LineOp)
   \<Rightarrow> (LineType \<rightharpoonup> ('f, 'd) LineOp) option" where
  "BuildLineOps r conf m =
    (if \<not> lc_enable conf then Some m
     else case CastLineType (lc_type conf) of
       L_SMOOTHING \<Rightarrow> Some (op_insert L_SMOOTHING (SmoothingLineOp (basic_info r M_SMOOTHING) (lc_param conf)) m)
     | L_NORMAL \<Rightarrow> Some (op_insert L_NORMAL (NormalLineOp (basic_info r M_NORMAL)) m)
     | L_TOKEN \<Rightarrow> Some (op_insert L_TOKEN (TokenLineOp (basic_info r M_TOKEN)) m)
     | _ \<Rightarrow> None)"

fun build_confs ::
  "('f, 'd) SingleGraphReqInfo \<Rightarrow> ('f, 'd) line_conf list \<Rightarrow> (LineType \<rightharpoonup> ('f, 'd) LineOp)
   \<Rightarrow> (LineType \<rightharpoonup> ('f, 'd) LineOp) option" where
  "build_confs r [] m = Some m"
| "build_confs r (c # cs) m = (case BuildLineOps r c m of None \<Rightarrow> None | Some m' \<Rightarrow> build_confs r cs m')"

definition BuildLineOP :: "('f, 'd) SingleGraphReqInfo \<Rightarrow> (LineType \<rightharpoonup> ('f, 'd) LineOp) option" where
  "BuildLineOP r =
    (case build_confs r (rq_lines r) Map.empty of
       None \<Rightarrow> None
     | Some m \<Rightarrow>
         let m1 = op_insert L_SAMPLE (SampleLineOp (basic_info r M_SAMPLE)) m;
             m2 = op_insert L_NORMAL (NormalLineOp (basic_info r M_NORMAL)) m1 in
         Some (if m2 L_TOKEN = None then m2
           else let m3 = m2(L_NORMAL := map_option (LineOp_SetDataMode M_TOKEN_NORMAL) (m2 L_NORMAL)) in
             m3(L_SMOOTHING := map_option (LineOp_SetDataMode M_TOKEN_SMOOTHING) (m3 L_SMOOTHING))))"

definition BuildLine :: "(LineType \<rightharpoonup> ('f, 'd) LineOp) \<Rightarrow> LineType list" where
  "BuildLine m =
    (let smoothing = (m L_SMOOTHING \<noteq> None) in
     if m L_TOKEN \<noteq> None then L_TOKEN # (if smoothing then [L_TOKEN_SMOOTHING] else [])
     else L_NORMAL # (if smoothing then [L_NORMAL_SMOOTHING] else []))"

fun clone_ops :: "(LineType \<rightharpoonup> ('f, 'd) LineOp) \<Rightarrow> LineType list \<Rightarrow> ('f, 'd) LineOp list option" where
  "clone_ops m [] = Some []"
| "clone_ops m (t # ts) =
    (case m t of
       None \<Rightarrow> None
     | Some op \<Rightarrow> (case LineOp_Clone op of None \<Rightarrow> None
         | Some c \<Rightarrow> map_option (\<lambda>cs. c # cs) (clone_ops m ts)))"

definition GetLineOps :: "LineType \<Rightarrow> (LineType \<rightharpoonup> ('f, 'd) LineOp) \<Rightarrow> ('f, 'd) LineOp list option" where
  "GetLineOps t m =
    (case t of
       L_NORMAL \<Rightarrow> clone_ops m [L_NORMAL, L_SAMPLE]
     | L_NORMAL_SMOOTHING \<Rightarrow> clone_ops m [L_SMOOTHING, L_SAMPLE]
     | L_SMOOTHING \<Rightarrow> clone_ops m [L_SMOOTHING, L_SAMPLE]
     | L_TOKEN \<Rightarrow> clone_ops m [L_NORMAL, L_SAMPLE, L_TOKEN]
     | L_TOKEN_SMOOTHING \<Rightarrow> clone_ops m [L_SMOOTHING, L_SAMPLE, L_TOKEN]
     | _ \<Rightarrow> Some [])"

subsection \<open>The response\<close>

text \<open>The dates of a line: the day in front of the time of day, where it changes.\<close>

fun find_char :: "char \<Rightarrow> string \<Rightarrow> nat option" where
  "find_char c [] = None"
| "find_char c (d # ds) = (if d = c then Some 0 else map_option Suc (find_char c ds))"

definition date_of :: "string \<Rightarrow> string" where
  "date_of s = (case find_char (CHR 0x2C) s of None \<Rightarrow> s | Some pos \<Rightarrow> if pos < 9 then s else take (pos - 9) s)"

fun date_index :: "string \<Rightarrow> ('f, 'd) ScalarPoint list \<Rightarrow> (64 word \<times> 'f \<times> string) list" where
  "date_index lst [] = []"
| "date_index lst (p # ps) =
    (let date = date_of (sp_localTime p) in
     if date = [] then date_index date ps
     else if date \<noteq> lst then (sp_step p, sp_value p, date) # date_index date ps
     else date_index lst ps)"

definition BuildDateIndex :: "('f, 'd) ScalarPoint list \<Rightarrow> (64 word \<times> 'f \<times> string) list" where
  "BuildDateIndex ps = date_index [] ps"

record ('f, 'd) ScalarResponse =
  rs_tag :: string
  rs_file :: string
  rs_lines :: "(string \<times> ('f, 'd) ScalarPoint list) list"
  rs_dateIndex :: "(64 word \<times> 'f \<times> string) list"

fun process_ops ::
  "('f, 'd) float_ops \<Rightarrow> ('f, 'd) LineOp list \<Rightarrow> ('f, 'd) Server \<Rightarrow> ('f, 'd) GraphLine
   \<Rightarrow> (('f, 'd) Server \<times> ('f, 'd) GraphLine) option" where
  "process_ops fo [] sv line = Some (sv, line)"
| "process_ops fo (op # ops) sv line =
    (case LineOp_Process fo op sv line of None \<Rightarrow> None | Some (sv', line') \<Rightarrow> process_ops fo ops sv' line')"

fun process_lines ::
  "('f, 'd) float_ops \<Rightarrow> (LineType \<times> ('f, 'd) LineOp list) list \<Rightarrow> ('f, 'd) Server \<Rightarrow> ('f, 'd) ScalarResponse
   \<Rightarrow> (('f, 'd) Server \<times> ('f, 'd) ScalarResponse) option" where
  "process_lines fo [] sv res = Some (sv, res)"
| "process_lines fo ((t, ops) # ls) sv res =
    (case process_ops fo ops sv (new_GraphLine t) of
       None \<Rightarrow> None
     | Some (sv', line) \<Rightarrow>
         let (_, data) = GraphLine_GetLineData line;
             res1 = (if rs_dateIndex res = [] \<and> data \<noteq> [] then res\<lparr>rs_dateIndex := BuildDateIndex data\<rparr> else res)
         in process_lines fo ls sv' (res1\<lparr>rs_lines := rs_lines res1 @ [(CastLineTypeStr t, data)]\<rparr>))"

text \<open>The operations of all lines are cloned before any line is processed.\<close>

fun ops_of_lines ::
  "(LineType \<rightharpoonup> ('f, 'd) LineOp) \<Rightarrow> LineType list \<Rightarrow> (LineType \<times> ('f, 'd) LineOp list) list option" where
  "ops_of_lines m [] = Some []"
| "ops_of_lines m (t # ts) =
    (case GetLineOps t m of None \<Rightarrow> None
     | Some ops \<Rightarrow> map_option (\<lambda>ls. (t, ops) # ls) (ops_of_lines m ts))"

definition ProcessSingleGraphReq ::
  "('f, 'd) float_ops \<Rightarrow> ('f, 'd) SingleGraphReqInfo \<Rightarrow> ('f, 'd) Server
   \<Rightarrow> (('f, 'd) Server \<times> ('f, 'd) ScalarResponse) option" where
  "ProcessSingleGraphReq fo r sv =
    (case BuildLineOP r of
       None \<Rightarrow> None
     | Some m \<Rightarrow>
         (case ops_of_lines m (BuildLine m) of
            None \<Rightarrow> None
          | Some ls \<Rightarrow> process_lines fo ls sv
              \<lparr>rs_tag = rq_tag r, rs_file = rq_file r, rs_lines = [], rs_dateIndex = []\<rparr>))"

end
