(* ===== verification/Scalar_parse.thy ===== *)
theory Scalar_parse
  imports Scalar_server
begin

text \<open>
  Reading data files (\<open>parser/FileParser.cpp\<close>, \<open>SummaryParser.cpp\<close>, \<open>TFEventParser.cpp\<close>,
  \<open>LogTextParser.cpp\<close>) and what the server does with them: events of watched files and the tasks of a
  project.

  The contents of files are given by an argument; a file that is missing or not readable has none.  The
  protocol buffer parser is generated code: what it makes of a record is an argument.  A call that throws
  gives \<open>Thrown\<close>.
\<close>

subsection \<open>Input streams\<close>

record ifstream =
  is_content :: string
  is_pos :: nat
  is_fail :: bool
  is_eof :: bool

definition ifstream_open :: "string \<Rightarrow> ifstream" where
  "ifstream_open c = \<lparr>is_content = c, is_pos = 0, is_fail = False, is_eof = False\<rparr>"

text \<open>A position past the 63 bits of a stream offset is negative, and seeking fails.\<close>

definition ifstream_seekg :: "64 word \<Rightarrow> ifstream \<Rightarrow> ifstream" where
  "ifstream_seekg off s =
    (let s1 = s\<lparr>is_eof := False\<rparr> in
     if is_fail s1 then s1
     else if sint off < 0 then s1\<lparr>is_fail := True\<rparr>
     else s1\<lparr>is_pos := unat off\<rparr>)"

definition ifstream_read :: "nat \<Rightarrow> ifstream \<Rightarrow> ifstream \<times> string" where
  "ifstream_read n s =
    (if is_fail s \<or> is_eof s then (s\<lparr>is_fail := True\<rparr>, [])
     else let d = take n (drop (is_pos s) (is_content s));
              s1 = s\<lparr>is_pos := is_pos s + length d\<rparr> in
       (if length d < n then s1\<lparr>is_fail := True, is_eof := True\<rparr> else s1, d))"

text \<open>\<open>std::getline\<close>: without a newline before the end the rest is taken and the end noted.\<close>

definition ifstream_getline :: "ifstream \<Rightarrow> ifstream \<times> string" where
  "ifstream_getline s =
    (if is_fail s \<or> is_eof s then (s\<lparr>is_fail := True\<rparr>, [])
     else let rest = drop (is_pos s) (is_content s);
              line = takeWhile (\<lambda>c. c \<noteq> CHR 0x0A) rest in
       if length line < length rest
       then (s\<lparr>is_pos := is_pos s + length line + 1\<rparr>, line)
       else (s\<lparr>is_pos := is_pos s + length line, is_eof := True, is_fail := (line = [])\<rparr>, line))"

definition ifstream_tellg :: "ifstream \<Rightarrow> nat option" where
  "ifstream_tellg s = (if is_fail s \<or> is_eof s then None else Some (is_pos s))"

subsection \<open>Records\<close>

datatype 'a read_result = Got 'a ifstream | Ended ifstream | Thrown

text \<open>
  A block is followed by four bytes of checksum, which are read and not looked at.  The buffer is made before
  the data is read: \<open>alloc_ok\<close> says which sizes can be allocated.
\<close>

definition ReadCheckSumRecord :: "(nat \<Rightarrow> bool) \<Rightarrow> nat \<Rightarrow> ifstream \<Rightarrow> string read_result" where
  "ReadCheckSumRecord alloc_ok n s =
    (if is_fail s then Ended s
     else if 2 ^ 63 - 1 < int n then Ended s
     else if \<not> alloc_ok (n + 1) then Thrown
     else let (s1, d) = ifstream_read n s in
       if length d \<noteq> n then Ended s1
       else let (s2, c) = ifstream_read 4 s1 in
         if length c \<noteq> 4 then Ended s2 else Got d s2)"

definition le64 :: "string \<Rightarrow> nat" where
  "le64 s = foldr (\<lambda>c a. of_char c + 256 * a) (take 8 s) 0"

text \<open>The same function in both parsers of binary files.\<close>

definition ReadRecord :: "(nat \<Rightarrow> bool) \<Rightarrow> ifstream \<Rightarrow> string read_result" where
  "ReadRecord alloc_ok s =
    (case ReadCheckSumRecord alloc_ok 8 s of
       Got h s1 \<Rightarrow> ReadCheckSumRecord alloc_ok (le64 h) s1
     | Ended s1 \<Rightarrow> Ended s1
     | Thrown \<Rightarrow> Thrown)"

definition LogTextParser_ReadRecord :: "ifstream \<Rightarrow> string read_result" where
  "LogTextParser_ReadRecord s =
    (let (s1, line) = ifstream_getline s in if is_eof s1 then Ended s1 else Got line s1)"

subsection \<open>Events\<close>

record ('f, 'd) event =
  ev_has_summary :: bool
  ev_step :: "64 word"
  ev_wall_time :: 'd
  ev_values :: "(string \<times> 'f option) list"

definition EventContainsScalar :: "('f, 'd) event \<Rightarrow> bool" where
  "EventContainsScalar e \<longleftrightarrow> ev_has_summary e \<and> list_ex (\<lambda>(t, v). v \<noteq> None) (ev_values e)"

definition event_points :: "('f, 'd) text_ops \<Rightarrow> ('f, 'd) event \<Rightarrow> ('f, 'd) record_points" where
  "event_points tops e = fold (\<lambda>(t, v) res. case v of None \<Rightarrow> res
     | Some f \<Rightarrow> add_point t \<lparr>sp_step = ev_step e, sp_value = f, sp_wallTime = ev_wall_time e,
         sp_localTime = t_local_of_wall tops (ev_wall_time e)\<rparr> res) (ev_values e) []"

text \<open>What a parser makes of a record: nothing for a record it cannot parse.\<close>

datatype ('f, 'd) parse_result = Points "('f, 'd) record_points" | Unparsed | Parse_thrown

definition event_result :: "('f, 'd) text_ops \<Rightarrow> ('f, 'd) event option \<Rightarrow> ('f, 'd) parse_result" where
  "event_result tops e =
    (case e of None \<Rightarrow> Unparsed
     | Some e \<Rightarrow> if \<not> EventContainsScalar e then Points [] else Points (event_points tops e))"

text \<open>The parser for a type of file: how it reads and parses a record.\<close>

record ('f, 'd) parser =
  pr_read :: "ifstream \<Rightarrow> string read_result"
  pr_parse :: "string \<Rightarrow> ('f, 'd) parse_result"

record ('f, 'd) parse_env =
  pe_ops :: "('f, 'd) float_ops"
  pe_text :: "('f, 'd) text_ops"
  pe_event :: "ParseDataType \<Rightarrow> string \<Rightarrow> ('f, 'd) event option"
  pe_alloc_ok :: "nat \<Rightarrow> bool"
  pe_file :: "string \<Rightarrow> string option"

definition CreateFileParse :: "('f, 'd) parse_env \<Rightarrow> ParseDataType \<Rightarrow> ('f, 'd) parser option" where
  "CreateFileParse e t =
    (case t of
       Unknown \<Rightarrow> None
     | TEXT_LOG \<Rightarrow> Some \<lparr>pr_read = LogTextParser_ReadRecord,
         pr_parse = (\<lambda>r. case LogTextParser_ParseRecordToScalar (pe_text e) r of
            None \<Rightarrow> Parse_thrown | Some res \<Rightarrow> Points res)\<rparr>
     | _ \<Rightarrow> Some \<lparr>pr_read = ReadRecord (pe_alloc_ok e),
         pr_parse = (\<lambda>r. event_result (pe_text e) (pe_event e t r))\<rparr>)"

subsection \<open>The cache of a parser\<close>

record ('f, 'd) parser_state =
  pa_dataCount :: "32 word"
  pa_tagSet :: "string set"
  pa_dataCache :: "(string \<times> ('f, 'd) ScalarPoint list) list"

definition new_parser_state :: "('f, 'd) parser_state" where
  "new_parser_state = \<lparr>pa_dataCount = 0, pa_tagSet = {}, pa_dataCache = []\<rparr>"

definition ReachLimit :: "('f, 'd) parser_state \<Rightarrow> bool" where
  "ReachLimit ps \<longleftrightarrow> 100 < card (pa_tagSet ps) \<or> 10000 < pa_dataCount ps"

definition deliver_entry ::
  "('f, 'd) float_ops \<Rightarrow> string \<Rightarrow> string \<times> ('f, 'd) ScalarPoint list \<Rightarrow> ('f, 'd) Server \<Rightarrow> ('f, 'd) Server option" where
  "deliver_entry fo path entry sv =
    (let (tag, points) = entry;
         sv1 = (if IsIncremental path tag sv then AddIncremental path tag sv else sv)
     in UpdateGraph fo tag path points sv1)"

text \<open>The entries delivered, those left, and whether the file was imported for all of them.\<close>

fun flush_cache ::
  "('f, 'd) float_ops \<Rightarrow> string \<Rightarrow> (string \<times> ('f, 'd) ScalarPoint list) list \<Rightarrow> ('f, 'd) Server
   \<Rightarrow> (('f, 'd) Server \<times> (string \<times> ('f, 'd) ScalarPoint list) list \<times> bool) option" where
  "flush_cache fo path [] sv = Some (sv, [], True)"
| "flush_cache fo path (e # es) sv =
    (if \<not> IsFileImported path sv then Some (sv, e # es, False)
     else case deliver_entry fo path e sv of None \<Rightarrow> None | Some sv' \<Rightarrow> flush_cache fo path es sv')"

definition UpdateDataToGraph ::
  "('f, 'd) float_ops \<Rightarrow> string \<Rightarrow> ('f, 'd) parser_state \<Rightarrow> ('f, 'd) Server
   \<Rightarrow> (('f, 'd) parser_state \<times> ('f, 'd) Server \<times> bool) option" where
  "UpdateDataToGraph fo path ps sv =
    (case flush_cache fo path (pa_dataCache ps) sv of
       None \<Rightarrow> None
     | Some (sv', rest, ok) \<Rightarrow>
         Some (if ok then ps\<lparr>pa_dataCache := rest, pa_tagSet := {}, pa_dataCount := 0\<rparr>
               else ps\<lparr>pa_dataCache := rest\<rparr>, sv', ok))"

definition FileParser_UpdateData ::
  "('f, 'd) float_ops \<Rightarrow> string \<Rightarrow> string \<Rightarrow> ('f, 'd) ScalarPoint list \<Rightarrow> bool \<Rightarrow> ('f, 'd) parser_state
   \<Rightarrow> ('f, 'd) Server \<Rightarrow> (('f, 'd) parser_state \<times> ('f, 'd) Server \<times> bool) option" where
  "FileParser_UpdateData fo path tag points force ps sv =
    (let ps1 = (if tag \<noteq> [] then ps\<lparr>pa_tagSet := insert tag (pa_tagSet ps),
                    pa_dataCount := pa_dataCount ps + of_nat (length points),
                    pa_dataCache := pa_dataCache ps @ [(tag, points)]\<rparr> else ps)
     in if ReachLimit ps1 \<or> force then UpdateDataToGraph fo path ps1 sv else Some (ps1, sv, True))"

fun update_record ::
  "('f, 'd) float_ops \<Rightarrow> string \<Rightarrow> ('f, 'd) record_points \<Rightarrow> ('f, 'd) parser_state
   \<Rightarrow> ('f, 'd) Server \<Rightarrow> (('f, 'd) parser_state \<times> ('f, 'd) Server \<times> bool) option" where
  "update_record fo path [] ps sv = Some (ps, sv, True)"
| "update_record fo path ((tag, points) # res) ps sv =
    (case FileParser_UpdateData fo path tag points False ps sv of
       None \<Rightarrow> None
     | Some (ps', sv', ok) \<Rightarrow> if ok then update_record fo path res ps' sv' else Some (ps', sv', False))"

subsection \<open>Parsing a file\<close>

text \<open>
  The loop of \<open>ParserData\<close>, with fuel for one record each; every record is longer than nothing, so a fuel
  beyond the length of the file is never used up.  The result is the server, the offset and the flag.
\<close>

fun parse_loop ::
  "nat \<Rightarrow> ('f, 'd) float_ops \<Rightarrow> ('f, 'd) parser \<Rightarrow> string \<Rightarrow> ifstream \<Rightarrow> 64 word \<Rightarrow> bool
   \<Rightarrow> ('f, 'd) parser_state \<Rightarrow> ('f, 'd) Server \<Rightarrow> (('f, 'd) Server \<times> 64 word \<times> bool) option" where
  "parse_loop 0 fo pr path s off flag ps sv = None"
| "parse_loop (Suc n) fo pr path s off flag ps sv =
    (let finish = (\<lambda>off. case FileParser_UpdateData fo path [] [] True ps sv of
        None \<Rightarrow> None | Some (ps', sv', ok) \<Rightarrow> Some (sv', off, flag)) in
     if is_fail s then finish off
     else case pr_read pr s of
       Thrown \<Rightarrow> None
     | Ended s' \<Rightarrow> finish off
     | Got r s' \<Rightarrow>
         (case pr_parse pr r of
            Parse_thrown \<Rightarrow> None
          | Unparsed \<Rightarrow> finish off
          | Points res \<Rightarrow>
              let off' = (case ifstream_tellg s' of None \<Rightarrow> off | Some p \<Rightarrow> of_nat p) in
              if res = [] then parse_loop n fo pr path s' off' flag ps sv
              else (case update_record fo path res ps sv of
                 None \<Rightarrow> None
               | Some (ps', sv', ok) \<Rightarrow>
                   if ok then parse_loop n fo pr path s' off' False ps' sv' else Some (sv', off', False))))"

text \<open>\<open>BeforeParse\<close> of the text parser sets the batch size of the file.\<close>

definition split_lines :: "string \<Rightarrow> string list" where
  "split_lines s = foldr (\<lambda>c ls. if c = CHR 0x0A then [] # ls
     else case ls of [] \<Rightarrow> [[c]] | l # ls \<Rightarrow> (c # l) # ls) s [[]]"

definition BeforeParse ::
  "('f, 'd) parse_env \<Rightarrow> ParseDataType \<Rightarrow> string \<Rightarrow> ('f, 'd) Server \<Rightarrow> ('f, 'd) Server option" where
  "BeforeParse e t path sv =
    (if t \<noteq> TEXT_LOG then Some sv
     else case GetFileInfo path sv of
       None \<Rightarrow> Some sv
     | Some f \<Rightarrow>
         (case pe_file e path of
            None \<Rightarrow> Some sv
          | Some c \<Rightarrow>
              (case find_batch_size (split_lines c) of
                 None \<Rightarrow> Some sv
               | Some ds \<Rightarrow> (case t_stod (pe_text e) ds of None \<Rightarrow> None
                   | Some d \<Rightarrow> Some (put_file path (f\<lparr>fi_globalBatchSize := d\<rparr>) sv)))))"

definition ParserData ::
  "('f, 'd) parse_env \<Rightarrow> ParseDataType \<Rightarrow> ('f, 'd) parser \<Rightarrow> string \<Rightarrow> 64 word \<Rightarrow> ('f, 'd) Server
   \<Rightarrow> (('f, 'd) Server \<times> 64 word \<times> bool) option" where
  "ParserData e t pr path off sv =
    (case (if path = [] then None else pe_file e path) of
       None \<Rightarrow> Some (sv, off, True)
     | Some c \<Rightarrow>
         (case BeforeParse e t path sv of
            None \<Rightarrow> None
          | Some sv1 \<Rightarrow>
              parse_loop (length c + 2) (pe_ops e) pr path (ifstream_seekg off (ifstream_open c)) off True
                new_parser_state sv1))"

subsection \<open>Events of watched files\<close>

definition set_offset :: "string \<Rightarrow> 64 word \<Rightarrow> ('f, 'd) Server \<Rightarrow> ('f, 'd) Server" where
  "set_offset path off sv = (case GetFileInfo path sv of None \<Rightarrow> sv
     | Some f \<Rightarrow> put_file path (f\<lparr>fi_offSet := off\<rparr>) sv)"

definition OnFileDataUpdate ::
  "('f, 'd) parse_env \<Rightarrow> string \<Rightarrow> string \<Rightarrow> ('f, 'd) Server \<Rightarrow> ('f, 'd) Server option" where
  "OnFileDataUpdate e dir name sv =
    (let path = dir @ [slash] @ name in
     case GetFileInfo path sv of
       None \<Rightarrow> Some sv
     | Some f \<Rightarrow>
         (case CreateFileParse e (fi_dataType f) of
            None \<Rightarrow> Some sv
          | Some pr \<Rightarrow>
              (case ParserData e (fi_dataType f) pr path (fi_offSet f) sv of
                 None \<Rightarrow> None
               | Some (sv1, off, none) \<Rightarrow>
                   let sv2 = set_offset path off sv1 in
                   Some (if \<not> none \<and> fi_empty f then
                           (case GetFileInfo path (OnFileCreate dir name sv2) of
                              None \<Rightarrow> OnFileCreate dir name sv2
                            | Some g \<Rightarrow> put_file path (g\<lparr>fi_empty := False\<rparr>) (OnFileCreate dir name sv2))
                         else sv2))))"

definition OnFileCreated :: "('f, 'd) parse_env \<Rightarrow> string \<Rightarrow> string \<Rightarrow> ('f, 'd) Server \<Rightarrow> ('f, 'd) Server" where
  "OnFileCreated e dir name sv =
    (let path = dir @ [slash] @ name;
         sv1 = AddFile (pe_ops e) path sv
     in OnFileCreate dir name (case GetFileInfo path sv1 of None \<Rightarrow> sv1
          | Some f \<Rightarrow> put_file path (f\<lparr>fi_empty := True, fi_imported := False\<rparr>) sv1))"

definition OnFileWriteClose :: "('f, 'd) parse_env \<Rightarrow> string \<Rightarrow> string \<Rightarrow> ('f, 'd) Server \<Rightarrow> ('f, 'd) Server option" where
  "OnFileWriteClose e dir name sv =
    (if \<not> IsFileImported (dir @ [slash] @ name) sv then Some sv else OnFileDataUpdate e dir name sv)"

text \<open>
  An event of the kernel: descriptor, what happened, and name.  One read fills the buffer with the events that
  fit into it as a whole, of which the code handles the first.
\<close>

datatype inotify_mask = In_modify | In_close_write | In_create | In_moved_to | In_other

type_synonym inotify_event = "int \<times> inotify_mask \<times> string"

definition event_size :: "inotify_event \<Rightarrow> nat" where
  "event_size ev = (let n = length (snd (snd ev)) in 16 + (if n = 0 then 0 else 16 * ((n + 16) div 16)))"

definition BUFFER_SIZE :: nat where
  "BUFFER_SIZE = 16 + 255 + 1"

fun read_events :: "nat \<Rightarrow> inotify_event list \<Rightarrow> inotify_event list \<times> inotify_event list" where
  "read_events room [] = ([], [])"
| "read_events room (ev # evs) =
    (if room < event_size ev then ([], ev # evs)
     else let (got, rest) = read_events (room - event_size ev) evs in (ev # got, rest))"

definition watch_event :: "('f, 'd) parse_env \<Rightarrow> inotify_event \<Rightarrow> ('f, 'd) Server \<Rightarrow> ('f, 'd) Server option" where
  "watch_event e ev sv =
    (let (wd, mask, name) = ev in
     if \<not> FileWatcher_IsWdWatched wd (sv_watcher sv) then Some sv
     else let dir = FileWatcher_GetWatchedDirName wd (sv_watcher sv) in
       case mask of
         In_modify \<Rightarrow> OnFileWriteClose e dir name sv
       | In_close_write \<Rightarrow> OnFileWriteClose e dir name sv
       | In_create \<Rightarrow> Some (OnFileCreated e dir name sv)
       | In_moved_to \<Rightarrow> Some (OnFileCreated e dir name sv)
       | In_other \<Rightarrow> Some sv)"

definition WatchFunc_turn ::
  "('f, 'd) parse_env \<Rightarrow> inotify_event list \<Rightarrow> ('f, 'd) Server \<Rightarrow> (inotify_event list \<times> ('f, 'd) Server) option" where
  "WatchFunc_turn e queue sv =
    (let (got, rest) = read_events BUFFER_SIZE queue in
     case got of
       [] \<Rightarrow> Some (rest, sv)
     | ev # _ \<Rightarrow> (case watch_event e ev sv of None \<Rightarrow> None | Some sv' \<Rightarrow> Some (rest, sv')))"

subsection \<open>Tasks of a project\<close>

text \<open>
  The sum of the file sizes goes through an \<open>int\<close> at each addition.
\<close>

definition add_size :: "64 word \<Rightarrow> 64 word \<Rightarrow> 64 word" where
  "add_size acc n = scast (ucast acc :: 32 word) + n"

text \<open>
  The files to parse are those not imported; each is submitted as a task when its type has a parser.  The result
  says whether the function returns: a file whose size cannot be had throws, after the files and the project
  have been added.
\<close>

definition AddParseTask ::
  "('f, 'd) parse_env \<Rightarrow> (string \<Rightarrow> 64 word option) \<Rightarrow> string \<Rightarrow> string list \<Rightarrow> ('f, 'd) Server
   \<Rightarrow> ('f, 'd) Server \<times> bool" where
  "AddParseTask e file_size project files sv =
    (let (sv1, infos) = fold (\<lambda>path (sv, infos). if IsFileImported path sv then (sv, infos)
            else (AddFile (pe_ops e) path sv, infos @ [path])) files (sv, []);
         tasks = filter (\<lambda>p. case GetFileInfo p sv1 of None \<Rightarrow> False
            | Some f \<Rightarrow> CreateFileParse e (fi_dataType f) \<noteq> None) infos;
         old = (case sv_parseState sv1 project of None \<Rightarrow>
             \<lparr>ps_pending = {}, ps_fileInfos = [], ps_dataSize = 0, ps_percent = 0, ps_finish = False\<rparr> | Some s \<Rightarrow> s)
     in if list_ex (\<lambda>p. file_size p = None) infos
        then (sv1\<lparr>sv_parseState := (sv_parseState sv1)(project \<mapsto> old)\<rparr>, False)
        else (sv1\<lparr>sv_parseState := (sv_parseState sv1)(project \<mapsto>
          old\<lparr>ps_dataSize := fold (\<lambda>p acc. add_size acc (the (file_size p))) infos 0, ps_percent := 0, ps_finish := False,
              ps_pending := ps_pending old \<union> set tasks, ps_fileInfos := ps_fileInfos old @ tasks\<rparr>)\<rparr>, True))"

text \<open>A task of the thread pool: parse from the offset of the file and keep the new offset.\<close>

definition run_task ::
  "('f, 'd) parse_env \<Rightarrow> string \<Rightarrow> string \<Rightarrow> ('f, 'd) Server \<Rightarrow> ('f, 'd) Server option" where
  "run_task e project path sv =
    (case GetFileInfo path sv of
       None \<Rightarrow> Some sv
     | Some f \<Rightarrow>
         (case CreateFileParse e (fi_dataType f) of
            None \<Rightarrow> Some sv
          | Some pr \<Rightarrow>
              (case ParserData e (fi_dataType f) pr path (fi_offSet f) sv of
                 None \<Rightarrow> None
               | Some (sv1, off, flag) \<Rightarrow>
                   let sv2 = set_offset path off sv1 in
                   Some (case sv_parseState sv2 project of None \<Rightarrow> sv2
                     | Some s \<Rightarrow> sv2\<lparr>sv_parseState := (sv_parseState sv2)(project \<mapsto>
                         s\<lparr>ps_pending := ps_pending s - {path}\<rparr>)\<rparr>))))"

text \<open>
  One pass of \<open>parseWatcher\<close> over a project.  The percentage is computed in floating point: how two sizes
  become one is an argument.
\<close>

definition watch_project ::
  "(64 word \<Rightarrow> 64 word \<Rightarrow> 32 word) \<Rightarrow> ('f, 'd) Server \<Rightarrow> ParseState \<Rightarrow> ParseState" where
  "watch_project percent sv s =
    (if ps_finish s then s
     else if ps_pending s = {} then s\<lparr>ps_finish := True, ps_percent := 100\<rparr>
     else s\<lparr>ps_percent := min 100 (percent
        (foldl (\<lambda>acc p. acc + (case GetFileInfo p sv of None \<Rightarrow> 0 | Some f \<Rightarrow> fi_offSet f)) 0 (ps_fileInfos s))
        (ps_dataSize s))\<rparr>)"

definition parseWatcher_turn :: "(64 word \<Rightarrow> 64 word \<Rightarrow> 32 word) \<Rightarrow> ('f, 'd) Server \<Rightarrow> ('f, 'd) Server" where
  "parseWatcher_turn percent sv =
    sv\<lparr>sv_parseState := (\<lambda>project. map_option (watch_project percent sv) (sv_parseState sv project))\<rparr>"

end
