(* ===== verification/Scalar_records.thy ===== *)
theory Scalar_records
  imports Scalar_parse
begin

text \<open>
  What parsing a file delivers.  The locale says what a reader of records promises on the encoding of a
  record and on an incomplete rest; its lemma gives the result of the loop of \<open>ParserData\<close>.  It is interpreted
  on the framed records of event files and on the lines of a log.  The caches of a parser do not change what
  is delivered, only when.
\<close>

subsection \<open>Delivering\<close>

fun deliver_all ::
  "('f, 'd) float_ops \<Rightarrow> string \<Rightarrow> (string \<times> ('f, 'd) ScalarPoint list) list \<Rightarrow> ('f, 'd) Server
   \<Rightarrow> ('f, 'd) Server option" where
  "deliver_all fo path [] sv = Some sv"
| "deliver_all fo path (e # es) sv =
    (case deliver_entry fo path e sv of None \<Rightarrow> None | Some sv' \<Rightarrow> deliver_all fo path es sv')"

lemma deliver_all_append:
  "deliver_all fo path (es @ es') sv
    = (case deliver_all fo path es sv of None \<Rightarrow> None | Some sv' \<Rightarrow> deliver_all fo path es' sv')"
  by (induction es arbitrary: sv) (auto split: option.split)

lemma File_UpdateData_keeps:
  "File_UpdateData fo tag b f = Some f' \<Longrightarrow> fi_imported f' = fi_imported f \<and> fi_type f' = fi_type f
    \<and> fi_offSet f' = fi_offSet f \<and> fi_dataType f' = fi_dataType f"
  by (auto simp: File_UpdateData_def File_UpdateRange_def Let_def split: if_splits option.splits)

lemma GetFileInfo_put_file:
  "GetFileInfo p (put_file q f sv) = (if p = q \<and> p \<in> sv_filePaths sv then Some f else GetFileInfo p sv)"
  by (simp add: GetFileInfo_def put_file_def)

lemma GetFileInfo_graphs [simp]:
  "GetFileInfo q (sv\<lparr>sv_graphs := G\<rparr>) = GetFileInfo q sv"
  "GetFileInfo q (sv\<lparr>sv_incremental := I\<rparr>) = GetFileInfo q sv"
  by (simp_all add: GetFileInfo_def)

lemma IsFileImported_graphs [simp]:
  "IsFileImported q (sv\<lparr>sv_graphs := G\<rparr>) = IsFileImported q sv"
  "IsFileImported q (sv\<lparr>sv_incremental := I\<rparr>) = IsFileImported q sv"
  by (simp_all add: IsFileImported_def)

lemma Graph_UpdateData_imported:
  assumes "Graph_UpdateData fo tag path pts sv = Some sv'"
  shows "IsFileImported p sv' = IsFileImported p sv"
proof -
  define sv1 where "sv1 = sv\<lparr>sv_graphs := (sv_graphs sv)(tag \<mapsto> insert path (set_at (sv_graphs sv) tag))\<rparr>"
  have i: "IsFileImported p sv1 = IsFileImported p sv" by (simp add: sv1_def)
  show ?thesis
  proof (cases "sv' = sv1")
    case False
    then obtain f f' where "GetFileInfo path sv1 = Some f" "File_UpdateData fo tag pts f = Some f'"
      "sv' = put_file path f' sv1"
      using assms unfolding Graph_UpdateData_def sv1_def [symmetric] Let_def
      by (auto split: if_splits option.splits)
    moreover from this have "fi_imported f' = fi_imported f" using File_UpdateData_keeps by blast
    ultimately show ?thesis
      unfolding i [symmetric] by (auto simp: IsFileImported_def GetFileInfo_put_file split: option.split)
  qed (simp add: i)
qed

lemma deliver_imported:
  "deliver_entry fo path (tag, pts) sv = Some sv' \<Longrightarrow> IsFileImported p sv' = IsFileImported p sv"
  by (auto simp: deliver_entry_def UpdateGraph_def AddIncremental_def Let_def
      dest!: Graph_UpdateData_imported [where p = p] split: if_splits)

lemma deliver_all_imported:
  "deliver_all fo path es sv = Some sv' \<Longrightarrow> IsFileImported p sv' = IsFileImported p sv"
proof (induction es arbitrary: sv)
  case (Cons e es)
  then show ?case
    by (cases e) (auto dest: deliver_imported split: option.splits)
qed simp

lemma flush_cache_all:
  assumes "IsFileImported path sv"
  shows "flush_cache fo path es sv = map_option (\<lambda>sv'. (sv', [], True)) (deliver_all fo path es sv)"
  using assms
proof (induction es arbitrary: sv)
  case (Cons e es)
  then show ?case
    by (cases e) (auto dest: deliver_imported split: option.split)
qed simp

text \<open>What the cache and the server stand for together.\<close>

definition cached :: "('f, 'd) float_ops \<Rightarrow> string \<Rightarrow> ('f, 'd) parser_state \<Rightarrow> ('f, 'd) Server \<Rightarrow> ('f, 'd) Server option" where
  "cached fo path ps sv = deliver_all fo path (pa_dataCache ps) sv"

definition entry :: "string \<Rightarrow> ('f, 'd) ScalarPoint list \<Rightarrow> (string \<times> ('f, 'd) ScalarPoint list) list" where
  "entry tag pts = (if tag \<noteq> [] then [(tag, pts)] else [])"

lemma UpdateData_cached:
  assumes "IsFileImported path sv"
  shows "case FileParser_UpdateData fo path tag pts force ps sv of
      None \<Rightarrow> deliver_all fo path (pa_dataCache ps @ entry tag pts) sv = None
    | Some (ps', sv', ok) \<Rightarrow> ok \<and> IsFileImported path sv'
        \<and> cached fo path ps' sv' = deliver_all fo path (pa_dataCache ps @ entry tag pts) sv
        \<and> (force \<longrightarrow> pa_dataCache ps' = [])"
proof -
  define ps1 where "ps1 = (if tag \<noteq> [] then ps\<lparr>pa_tagSet := insert tag (pa_tagSet ps),
      pa_dataCount := pa_dataCount ps + of_nat (length pts), pa_dataCache := pa_dataCache ps @ [(tag, pts)]\<rparr> else ps)"
  have c: "pa_dataCache ps1 = pa_dataCache ps @ entry tag pts" by (simp add: ps1_def entry_def)
  have u: "FileParser_UpdateData fo path tag pts force ps sv
      = (if ReachLimit ps1 \<or> force then UpdateDataToGraph fo path ps1 sv else Some (ps1, sv, True))"
    by (simp add: FileParser_UpdateData_def ps1_def Let_def)
  show ?thesis
  proof (cases "ReachLimit ps1 \<or> force")
    case True
    then show ?thesis
      using assms unfolding u by (cases "deliver_all fo path (pa_dataCache ps @ entry tag pts) sv")
        (auto simp: UpdateDataToGraph_def flush_cache_all c cached_def deliver_all_imported)
  next
    case False
    then show ?thesis using assms unfolding u by (simp add: cached_def c)
  qed
qed

definition record_entries :: "('f, 'd) record_points \<Rightarrow> (string \<times> ('f, 'd) ScalarPoint list) list" where
  "record_entries res = concat (map (\<lambda>(t, ps). entry t ps) res)"

lemma update_record_cached:
  assumes "IsFileImported path sv"
  shows "case update_record fo path res ps sv of
      None \<Rightarrow> deliver_all fo path (pa_dataCache ps @ record_entries res) sv = None
    | Some (ps', sv', ok) \<Rightarrow> ok \<and> IsFileImported path sv'
        \<and> cached fo path ps' sv' = deliver_all fo path (pa_dataCache ps @ record_entries res) sv"
  using assms
proof (induction res arbitrary: ps sv)
  case Nil
  then show ?case by (simp add: record_entries_def cached_def)
next
  case (Cons e res)
  obtain tag pts where e: "e = (tag, pts)" by (cases e)
  have re: "record_entries (e # res) = entry tag pts @ record_entries res" by (simp add: record_entries_def e)
  note step = UpdateData_cached [OF Cons.prems, where fo = fo and tag = tag and pts = pts and force = False and ps = ps]
  show ?case
  proof (cases "FileParser_UpdateData fo path tag pts False ps sv")
    case None
    with step have "deliver_all fo path ((pa_dataCache ps @ entry tag pts) @ record_entries res) sv = None"
      unfolding deliver_all_append [of _ _ _ "record_entries res"] by simp
    with None show ?thesis unfolding re append_assoc [symmetric] by (simp add: e)
  next
    case (Some r)
    obtain ps' sv' ok where r: "r = (ps', sv', ok)" by (cases r)
    with step Some have s: "ok" "IsFileImported path sv'"
      "deliver_all fo path (pa_dataCache ps') sv' = deliver_all fo path (pa_dataCache ps @ entry tag pts) sv"
      by (simp_all add: cached_def)
    have "deliver_all fo path (pa_dataCache ps' @ record_entries res) sv'
        = deliver_all fo path (pa_dataCache ps @ record_entries (e # res)) sv"
      unfolding re append_assoc [symmetric] deliver_all_append [of _ _ _ "record_entries res"] s(3) ..
    moreover have "update_record fo path (e # res) ps sv = update_record fo path res ps' sv'"
      using Some r s(1) by (simp add: e)
    ultimately show ?thesis using Cons.IH [OF s(2), of ps'] by (simp only:)
  qed
qed

subsection \<open>Reading records\<close>

locale record_reader =
  fixes rd :: "ifstream \<Rightarrow> string read_result"
    and enc :: "'x \<Rightarrow> string"
    and payload :: "'x \<Rightarrow> string"
    and fine :: "'x \<Rightarrow> bool"
    and stops :: "string \<Rightarrow> bool"
  assumes read_enc: "\<lbrakk>is_content s = pre @ enc x @ post; is_pos s = length pre; \<not> is_fail s; \<not> is_eof s; fine x\<rbrakk>
      \<Longrightarrow> rd s = Got (payload x) (s\<lparr>is_pos := length pre + length (enc x)\<rparr>)"
    and read_stop: "\<lbrakk>is_content s = pre @ tail; is_pos s = length pre; \<not> is_fail s; \<not> is_eof s; stops tail\<rbrakk>
      \<Longrightarrow> \<exists>s'. rd s = Ended s'"
begin

lemma parse_loop_records:
  assumes "is_content s = pre @ concat (map enc xs) @ tail" "is_pos s = length pre" "\<not> is_fail s" "\<not> is_eof s"
    "\<forall>x\<in>set xs. fine x \<and> pr_parse pr (payload x) = Points (pts x)" "stops tail" "pr_read pr = rd"
    "IsFileImported path sv" "length xs < n" "off = of_nat (length pre)"
  shows "parse_loop n fo pr path s off flag ps sv
    = map_option (\<lambda>sv'. (sv', of_nat (length pre + length (concat (map enc xs))),
          flag \<and> (\<forall>x\<in>set xs. pts x = [])))
        (deliver_all fo path (pa_dataCache ps @ concat (map (\<lambda>x. record_entries (pts x)) xs)) sv)"
  using assms
proof (induction xs arbitrary: s pre n off flag ps sv)
  case Nil
  then obtain m where n: "n = Suc m" by (cases n) auto
  obtain s' where "rd s = Ended s'" using read_stop [of s pre tail] Nil by auto
  with Nil n UpdateData_cached [OF Nil.prems(8), where fo = fo and tag = "[]" and pts = "[]" and force = True and ps = ps] show ?case
    by (auto simp: entry_def cached_def split: option.splits) (metis option.simps(9))
next
  case (Cons x xs)
  then obtain m where n: "n = Suc m" by (cases n) auto
  let ?s = "s\<lparr>is_pos := length pre + length (enc x)\<rparr>"
  have rd: "pr_read pr s = Got (payload x) ?s"
    using read_enc [of s pre x "concat (map enc xs) @ tail"] Cons.prems by simp
  have pp: "pr_parse pr (payload x) = Points (pts x)" using Cons.prems(5) by simp
  have tell: "ifstream_tellg ?s = Some (length (pre @ enc x))"
    using Cons.prems(3,4) by (simp add: ifstream_tellg_def)
  have IH: "parse_loop m fo pr path ?s (of_nat (length (pre @ enc x))) flag' ps' sv'
      = map_option (\<lambda>sv''. (sv'', of_nat (length (pre @ enc x) + length (concat (map enc xs))),
            flag' \<and> (\<forall>x\<in>set xs. pts x = [])))
          (deliver_all fo path (pa_dataCache ps' @ concat (map (\<lambda>x. record_entries (pts x)) xs)) sv')"
    if "IsFileImported path sv'" for flag' ps' and sv' :: "('a, 'b) Server"
    using Cons.prems n that by (intro Cons.IH) simp_all
  show ?case
  proof (cases "pts x = []")
    case True
    then show ?thesis
      using rd pp tell IH [OF Cons.prems(8), of flag ps] Cons.prems(3)
      by (simp add: n Let_def record_entries_def add.assoc)
  next
    case False
    note step = update_record_cached [OF Cons.prems(8), where fo = fo and res = "pts x" and ps = ps]
    show ?thesis
    proof (cases "update_record fo path (pts x) ps sv")
      case None
      with step have "deliver_all fo path ((pa_dataCache ps @ record_entries (pts x))
          @ concat (map (\<lambda>x. record_entries (pts x)) xs)) sv = None"
        unfolding deliver_all_append [of _ _ _ "concat (map (\<lambda>x. record_entries (pts x)) xs)"] by simp
      with None False rd pp tell Cons.prems(3) show ?thesis
        by (simp add: n Let_def)
    next
      case (Some r)
      obtain ps' sv' ok where r: "r = (ps', sv', ok)" by (cases r)
      with step Some have u: "ok" "IsFileImported path sv'"
        "deliver_all fo path (pa_dataCache ps') sv' = deliver_all fo path (pa_dataCache ps @ record_entries (pts x)) sv"
        by (simp_all add: cached_def)
      have "deliver_all fo path (pa_dataCache ps' @ concat (map (\<lambda>x. record_entries (pts x)) xs)) sv'
          = deliver_all fo path (pa_dataCache ps @ concat (map (\<lambda>x. record_entries (pts x)) (x # xs))) sv"
        unfolding list.map concat.simps append_assoc [symmetric]
          deliver_all_append [of _ _ _ "concat (map (\<lambda>x. record_entries (pts x)) xs)"] u(3) ..
      with Some r u(1) False rd pp tell IH [OF u(2), of False ps'] Cons.prems(3) show ?thesis
        by (simp add: n Let_def add.assoc)
    qed
  qed
qed

end

subsection \<open>Framed records\<close>

text \<open>
  A record of an event file: the length of the data in eight bytes, a checksum, the data, a checksum.
\<close>

fun bytes_of :: "nat \<Rightarrow> nat \<Rightarrow> string" where
  "bytes_of 0 v = []"
| "bytes_of (Suc n) v = (char_of (v mod 256) :: char) # bytes_of n (v div 256)"

record frame =
  fr_crc1 :: string
  fr_data :: string
  fr_crc2 :: string

definition enc_frame :: "frame \<Rightarrow> string" where
  "enc_frame r = bytes_of 8 (length (fr_data r)) @ fr_crc1 r @ fr_data r @ fr_crc2 r"

definition fine_frame :: "(nat \<Rightarrow> bool) \<Rightarrow> frame \<Rightarrow> bool" where
  "fine_frame alloc_ok r \<longleftrightarrow> length (fr_crc1 r) = 4 \<and> length (fr_crc2 r) = 4 \<and> length (fr_data r) < 2 ^ 63
     \<and> alloc_ok 9 \<and> alloc_ok (length (fr_data r) + 1)"

text \<open>A rest that is no complete record, such as one still being written.\<close>

definition incomplete :: "(nat \<Rightarrow> bool) \<Rightarrow> string \<Rightarrow> bool" where
  "incomplete alloc_ok tail \<longleftrightarrow> alloc_ok 9 \<and> length tail < 16 + le64 tail
     \<and> (12 \<le> length tail \<and> le64 tail < 2 ^ 63 \<longrightarrow> alloc_ok (le64 tail + 1))"

lemma length_bytes_of [simp]: "length (bytes_of n v) = n"
  by (induction n arbitrary: v) simp_all

lemma foldr_bytes_of: "foldr (\<lambda>c a. of_char c + 256 * a) (bytes_of n v) 0 = v mod 256 ^ n"
proof (induction n arbitrary: v)
  case (Suc n)
  have "v mod 256 ^ Suc n = v mod 256 + 256 * (v div 256 mod 256 ^ n)"
    by (simp add: mod_mult2_eq add.commute)
  with Suc show ?case by simp
qed simp

lemma le64_bytes_of: "v < 2 ^ 64 \<Longrightarrow> le64 (bytes_of 8 v @ s) = v"
  by (simp add: le64_def foldr_bytes_of)

lemma le64_take: "le64 (take 8 s) = le64 s"
  by (simp add: le64_def)

lemma read_block:
  assumes "is_content s = pre @ d @ post" "is_pos s = length pre" "\<not> is_fail s" "\<not> is_eof s"
  shows "ifstream_read (length d) s = (s\<lparr>is_pos := length pre + length d\<rparr>, d)"
  using assms by (simp add: ifstream_read_def)

lemma checksum_block:
  assumes "is_content s = pre @ d @ c @ post" "is_pos s = length pre" "\<not> is_fail s" "\<not> is_eof s"
    "length c = 4" "length d < 2 ^ 63" "alloc_ok (length d + 1)"
  shows "ReadCheckSumRecord alloc_ok (length d) s = Got d (s\<lparr>is_pos := length pre + length d + 4\<rparr>)"
proof -
  let ?s = "s\<lparr>is_pos := length pre + length d\<rparr>"
  have "ifstream_read 4 ?s = (?s\<lparr>is_pos := length (pre @ d) + length c\<rparr>, c)"
    using read_block [of ?s "pre @ d" c post] assms by simp
  with read_block [of s pre d "c @ post"] assms show ?thesis
    by (simp add: ReadCheckSumRecord_def Let_def)
qed

lemma checksum_short:
  assumes "\<not> is_fail s" "\<not> is_eof s" "length (is_content s) < is_pos s + n + 4" "is_pos s \<le> length (is_content s)"
    "n < 2 ^ 63 \<longrightarrow> alloc_ok (n + 1)"
  shows "\<exists>s'. ReadCheckSumRecord alloc_ok n s = Ended s'"
  using assms by (auto simp: ReadCheckSumRecord_def ifstream_read_def Let_def)

lemma ReadRecord_frame:
  assumes "is_content s = pre @ enc_frame r @ post" "is_pos s = length pre" "\<not> is_fail s" "\<not> is_eof s"
    "fine_frame alloc_ok r"
  shows "ReadRecord alloc_ok s = Got (fr_data r) (s\<lparr>is_pos := length pre + length (enc_frame r)\<rparr>)"
proof -
  let ?h = "bytes_of 8 (length (fr_data r))"
  have f: "length (fr_crc1 r) = 4" "length (fr_crc2 r) = 4" "length (fr_data r) < 2 ^ 63"
    "alloc_ok 9" "alloc_ok (length (fr_data r) + 1)" using assms(5) by (simp_all add: fine_frame_def)
  have "ReadCheckSumRecord alloc_ok (length ?h) s = Got ?h (s\<lparr>is_pos := length pre + length ?h + 4\<rparr>)"
    by (rule checksum_block [where c = "fr_crc1 r" and post = "fr_data r @ fr_crc2 r @ post"]) (use assms f in \<open>simp_all add: enc_frame_def\<close>)
  then have 1: "ReadCheckSumRecord alloc_ok 8 s = Got ?h (s\<lparr>is_pos := length pre + 12\<rparr>)" by simp
  have l: "le64 ?h = length (fr_data r)" using le64_bytes_of [of "length (fr_data r)" "[]"] f(3) by simp
  have "ReadCheckSumRecord alloc_ok (length (fr_data r)) (s\<lparr>is_pos := length pre + 12\<rparr>)
      = Got (fr_data r) (s\<lparr>is_pos := length pre + 12, is_pos := length (pre @ ?h @ fr_crc1 r) + length (fr_data r) + 4\<rparr>)"
    by (rule checksum_block [where c = "fr_crc2 r" and post = post]) (use assms f in \<open>simp_all add: enc_frame_def\<close>)
  with 1 l f show ?thesis by (simp add: ReadRecord_def enc_frame_def add.commute add.left_commute)
qed

lemma ReadRecord_incomplete:
  assumes "is_content s = pre @ tail" "is_pos s = length pre" "\<not> is_fail s" "\<not> is_eof s" "incomplete alloc_ok tail"
  shows "\<exists>s'. ReadRecord alloc_ok s = Ended s'"
proof (cases "length tail < 12")
  case True
  then have "\<exists>s'. ReadCheckSumRecord alloc_ok 8 s = Ended s'"
    using assms by (intro checksum_short) (auto simp: incomplete_def)
  then show ?thesis by (auto simp: ReadRecord_def)
next
  case False
  have "ReadCheckSumRecord alloc_ok (length (take 8 tail)) s
      = Got (take 8 tail) (s\<lparr>is_pos := length pre + length (take 8 tail) + 4\<rparr>)"
  proof (rule checksum_block [where c = "take 4 (drop 8 tail)" and post = "drop 12 tail"])
    have "take 8 tail @ take 4 (drop 8 tail) @ drop 12 tail = take 8 tail @ take 4 (drop 8 tail) @ drop 4 (drop 8 tail)"
      by simp
    then show "is_content s = pre @ take 8 tail @ take 4 (drop 8 tail) @ drop 12 tail"
      using assms(1) by (simp only: append_take_drop_id)
  qed (use assms False in \<open>auto simp: incomplete_def min_def\<close>)
  then have 1: "ReadCheckSumRecord alloc_ok 8 s = Got (take 8 tail) (s\<lparr>is_pos := length pre + 12\<rparr>)"
    using False by (simp add: min_def)
  have "\<exists>s'. ReadCheckSumRecord alloc_ok (le64 tail) (s\<lparr>is_pos := length pre + 12\<rparr>) = Ended s'"
    using assms False by (intro checksum_short) (auto simp: incomplete_def)
  then show ?thesis by (auto simp: ReadRecord_def 1 le64_take)
qed

interpretation frames: record_reader "ReadRecord alloc_ok" enc_frame fr_data "fine_frame alloc_ok" "incomplete alloc_ok"
  by unfold_locales (use ReadRecord_frame ReadRecord_incomplete in blast)+

subsection \<open>Lines\<close>

definition enc_line :: "string \<Rightarrow> string" where
  "enc_line l = l @ [CHR 0x0A]"

lemma getline_line:
  assumes "is_content s = pre @ enc_line l @ post" "is_pos s = length pre" "\<not> is_fail s" "\<not> is_eof s" "CHR 0x0A \<notin> set l"
  shows "LogTextParser_ReadRecord s = Got l (s\<lparr>is_pos := length pre + length (enc_line l)\<rparr>)"
proof -
  have "takeWhile (\<lambda>c. c \<noteq> CHR 0x0A) (l @ CHR 0x0A # post) = l"
    using assms(5) by (subst takeWhile_append2) auto
  then show ?thesis
    using assms by (simp add: LogTextParser_ReadRecord_def ifstream_getline_def enc_line_def Let_def)
qed

interpretation log_lines: record_reader LogTextParser_ReadRecord enc_line "\<lambda>l. l" "\<lambda>l. CHR 0x0A \<notin> set l"
  "\<lambda>tail. CHR 0x0A \<notin> set tail"
proof
  fix s :: ifstream and pre tail
  assume a: "is_content s = pre @ tail" "is_pos s = length pre" "\<not> is_fail s" "\<not> is_eof s" "CHR 0x0A \<notin> set tail"
  have "takeWhile (\<lambda>c. c \<noteq> CHR 0x0A) tail = tail" using a(5) by (auto simp: takeWhile_eq_all_conv)
  then have "\<not> length (takeWhile (\<lambda>c. c \<noteq> CHR 0x0A) tail) < length tail" by (simp only: less_irrefl not_False_eq_True)
  with a show "\<exists>s'. LogTextParser_ReadRecord s = Ended s'"
    by (simp add: LogTextParser_ReadRecord_def ifstream_getline_def Let_def)
qed (rule getline_line)

end
