(* ===== verification/Scalar_window.thy ===== *)
theory Scalar_window
  imports Scalar_smooth "HOL-Library.Sublist"
begin

text \<open>
  The smoothers of the Scalar server work incrementally: each \<open>Sample\<close> continues where the last
  one stopped.  The locale says what an incremental smoother promises, its lemma that feeding
  batches gives what a reference function of the whole data gives; it is interpreted on the two
  window smoothers and on the low-pass filter.
\<close>

subsection \<open>Incremental smoothers\<close>

text \<open>The batches of \<open>File::UpdateData\<close>: the vector grows and is sampled after each batch.\<close>

fun feed ::
  "('s \<Rightarrow> 'p list \<Rightarrow> 'p list \<Rightarrow> ('s \<times> 'p list) option) \<Rightarrow> 's \<Rightarrow> 'p list \<Rightarrow> 'p list \<Rightarrow> 'p list list
   \<Rightarrow> ('s \<times> 'p list) option" where
  "feed sample s orig dst [] = Some (s, dst)"
| "feed sample s orig dst (b # bs) =
    (case sample s (orig @ b) dst of None \<Rightarrow> None
     | Some (s', dst') \<Rightarrow> feed sample s' (orig @ b) dst' bs)"

locale incremental_smoother =
  fixes sample :: "'s \<Rightarrow> 'p list \<Rightarrow> 'p list \<Rightarrow> ('s \<times> 'p list) option"
    and good :: "'p list \<Rightarrow> bool"
    and after :: "'p list \<Rightarrow> nat \<Rightarrow> 's \<Rightarrow> bool"
    and smoothed :: "'p list \<Rightarrow> nat \<Rightarrow> 'p"
  assumes sample_law: "\<lbrakk>after orig k s; k \<le> length orig; good orig\<rbrakk> \<Longrightarrow>
      \<exists>s'. sample s orig dst = Some (s', dst @ map (smoothed orig) [k..<length orig])
        \<and> after orig (length orig) s'"
    and after_extend: "\<lbrakk>after orig k s; k \<le> length orig\<rbrakk> \<Longrightarrow> after (orig @ xs) k s"
    and smoothed_extend: "i < length orig \<Longrightarrow> smoothed (orig @ xs) i = smoothed orig i"
begin

lemma feed_smoothed:
  assumes "after orig (length orig) s" "\<forall>b. prefix b bs \<and> b \<noteq> [] \<longrightarrow> good (orig @ concat b)"
  shows "\<exists>s'. feed sample s orig dst bs = Some (s', dst @
      map (smoothed (orig @ concat bs)) [length orig..<length (orig @ concat bs)])
    \<and> after (orig @ concat bs) (length (orig @ concat bs)) s'"
  using assms
proof (induction bs arbitrary: orig s dst)
  case Nil
  then show ?case by simp
next
  case (Cons b bs)
  let ?o = "orig @ b" and ?all = "orig @ concat (b # bs)"
  have "good ?o" using Cons.prems(2) [rule_format, of "[b]"] by simp
  then obtain s1 where s1: "sample s ?o dst = Some (s1, dst @ map (smoothed ?o) [length orig..<length ?o])"
    "after ?o (length ?o) s1"
    using sample_law [OF after_extend [OF Cons.prems(1)], of b dst] by auto
  have "\<forall>c. prefix c bs \<and> c \<noteq> [] \<longrightarrow> good (?o @ concat c)"
  proof (intro allI impI)
    fix c assume "prefix c bs \<and> c \<noteq> []"
    then show "good (?o @ concat c)" using Cons.prems(2) [rule_format, of "b # c"] by simp
  qed
  from Cons.IH [OF s1(2) this] obtain s2 where
    s2: "feed sample s1 ?o (dst @ map (smoothed ?o) [length orig..<length ?o]) bs
      = Some (s2, (dst @ map (smoothed ?o) [length orig..<length ?o])
          @ map (smoothed (?o @ concat bs)) [length ?o..<length (?o @ concat bs)])"
    "after (?o @ concat bs) (length (?o @ concat bs)) s2" by blast
  have "map (smoothed ?o) [length orig..<length ?o] = map (smoothed ?all) [length orig..<length ?o]"
    using smoothed_extend [of _ ?o "concat bs"] by auto
  moreover have "[length orig..<length ?all] = [length orig..<length ?o] @ [length ?o..<length ?all]"
    using upt_add_eq_append [of "length orig" "length ?o" "length (concat bs)"] by (simp add: add.assoc)
  ultimately show ?case using s1(1) s2 by simp
qed

end

subsection \<open>Windows ordered by value\<close>

text \<open>
  Without NaN the comparison of values is a strict weak order: asymmetric, with a transitive
  complement.
\<close>

definition ordered_values :: "('f, 'd) float_ops \<Rightarrow> 'f set \<Rightarrow> bool" where
  "ordered_values fo V \<longleftrightarrow> (\<forall>x\<in>V. \<forall>y\<in>V. f_lt fo x y \<longrightarrow> \<not> f_lt fo y x)
     \<and> (\<forall>x\<in>V. \<forall>y\<in>V. \<forall>z\<in>V. \<not> f_lt fo x y \<longrightarrow> \<not> f_lt fo y z \<longrightarrow> \<not> f_lt fo x z)"

lemma ordered_values_mono: "ordered_values fo V \<Longrightarrow> U \<subseteq> V \<Longrightarrow> ordered_values fo U"
  unfolding ordered_values_def by blast

definition node_value :: "nat \<times> ('f, 'd) ScalarPoint \<Rightarrow> 'f" where
  "node_value n = sp_value (snd n)"

definition node_less :: "('f, 'd) float_ops \<Rightarrow> nat \<times> ('f, 'd) ScalarPoint \<Rightarrow> nat \<times> ('f, 'd) ScalarPoint \<Rightarrow> bool" where
  "node_less fo a b = f_lt fo (node_value a) (node_value b)"

lemma node_asym:
  "\<lbrakk>ordered_values fo V; node_value a \<in> V; node_value b \<in> V; node_less fo a b\<rbrakk> \<Longrightarrow> \<not> node_less fo b a"
  unfolding ordered_values_def node_less_def by blast

lemma node_trans:
  "\<lbrakk>ordered_values fo V; node_value a \<in> V; node_value b \<in> V; node_value c \<in> V;
    \<not> node_less fo a b; \<not> node_less fo b c\<rbrakk> \<Longrightarrow> \<not> node_less fo a c"
  unfolding ordered_values_def node_less_def by blast

definition nodes_sorted :: "('f, 'd) float_ops \<Rightarrow> (nat \<times> ('f, 'd) ScalarPoint) list \<Rightarrow> bool" where
  "nodes_sorted fo ns = sorted_wrt (\<lambda>a b. \<not> node_less fo b a) ns"

text \<open>In a sorted window the insertion splits by the comparison.\<close>

lemma takeWhile_sorted:
  assumes "ordered_values fo V" "node_value ` set ns \<subseteq> V" "node_value n \<in> V" "nodes_sorted fo ns"
  shows "takeWhile (\<lambda>m. \<not> node_less fo n m) ns = filter (\<lambda>m. \<not> node_less fo n m) ns
    \<and> dropWhile (\<lambda>m. \<not> node_less fo n m) ns = filter (node_less fo n) ns"
  using assms(2,4)
proof (induction ns)
  case Nil
  then show ?case by simp
next
  case (Cons m ns)
  show ?case
  proof (cases "node_less fo n m")
    case True
    have "node_less fo n m'" if m': "m' \<in> set ns" for m'
    proof (rule ccontr)
      assume "\<not> node_less fo n m'"
      moreover have "\<not> node_less fo m' m" using Cons.prems(2) m' by (simp add: nodes_sorted_def)
      ultimately have "\<not> node_less fo n m"
        using node_trans [OF assms(1,3), of m' m] Cons.prems(1) m' by auto
      with True show False by simp
    qed
    then have "filter (\<lambda>m'. \<not> node_less fo n m') ns = []" "filter (node_less fo n) ns = ns"
      by (auto simp: filter_empty_conv filter_id_conv)
    with True show ?thesis by simp
  next
    case False
    with Cons show ?thesis by (simp add: nodes_sorted_def)
  qed
qed

lemma multiset_insert_filter:
  assumes "ordered_values fo V" "node_value ` set ns \<subseteq> V" "node_value n \<in> V" "nodes_sorted fo ns"
  shows "multiset_insert fo n ns = filter (\<lambda>m. \<not> node_less fo n m) ns @ n # filter (node_less fo n) ns"
  using takeWhile_sorted [OF assms]
  by (simp add: multiset_insert_def ScalarPointCmp_def node_less_def node_value_def)

lemma set_multiset_insert: "set (multiset_insert fo n ns) = insert n (set ns)"
proof -
  let ?P = "\<lambda>m. \<not> ScalarPointCmp fo (snd n) (snd m)"
  have "set ns = set (takeWhile ?P ns) \<union> set (dropWhile ?P ns)"
    by (simp flip: set_append)
  then show ?thesis by (auto simp: multiset_insert_def)
qed

lemma length_multiset_insert: "length (multiset_insert fo n ns) = Suc (length ns)"
proof -
  let ?P = "\<lambda>m. \<not> ScalarPointCmp fo (snd n) (snd m)"
  have "length ns = length (takeWhile ?P ns) + length (dropWhile ?P ns)"
    by (simp flip: length_append)
  then show ?thesis by (simp add: multiset_insert_def)
qed

lemma multiset_insert_sorted:
  assumes "ordered_values fo V" "node_value ` set ns \<subseteq> V" "node_value n \<in> V" "nodes_sorted fo ns"
  shows "nodes_sorted fo (multiset_insert fo n ns)"
proof -
  have le: "\<not> node_less fo m' m" if "m \<in> set ns" "\<not> node_less fo n m" "m' \<in> set ns" "node_less fo n m'" for m m'
  proof
    assume l: "node_less fo m' m"
    have v: "node_value m \<in> V" "node_value m' \<in> V" using assms(2) that by auto
    have "\<not> node_less fo m' n" using node_asym [OF assms(1,3) v(2) that(4)] .
    from node_trans [OF assms(1) v(2) assms(3) v(1) this that(2)] l show False by simp
  qed
  have "\<not> node_less fo m' n" if "m' \<in> set ns" "node_less fo n m'" for m'
    using node_asym [OF assms(1,3) _ that(2)] assms(2) that(1) by auto
  with le assms(4) show ?thesis
    unfolding nodes_sorted_def multiset_insert_filter [OF assms] sorted_wrt_append
    by (auto simp: sorted_wrt_filter)
qed

text \<open>A window is sorted insertion of its points; erasing a node commutes with it.\<close>

definition sort_nodes :: "('f, 'd) float_ops \<Rightarrow> (nat \<times> ('f, 'd) ScalarPoint) list
   \<Rightarrow> (nat \<times> ('f, 'd) ScalarPoint) list" where
  "sort_nodes fo ns = foldl (\<lambda>L n. multiset_insert fo n L) [] ns"

lemma sort_nodes_snoc: "sort_nodes fo (ns @ [n]) = multiset_insert fo n (sort_nodes fo ns)"
  by (simp add: sort_nodes_def)

lemma set_sort_nodes: "set (sort_nodes fo ns) = set ns"
  by (induction ns rule: rev_induct) (auto simp: sort_nodes_snoc set_multiset_insert, auto simp: sort_nodes_def)

lemma length_sort_nodes: "length (sort_nodes fo ns) = length ns"
  by (induction ns rule: rev_induct) (auto simp: sort_nodes_snoc length_multiset_insert, auto simp: sort_nodes_def)

lemma sort_nodes_sorted:
  assumes "ordered_values fo V" "node_value ` set ns \<subseteq> V"
  shows "nodes_sorted fo (sort_nodes fo ns)"
  using assms(2)
proof (induction ns rule: rev_induct)
  case Nil
  show ?case by (simp add: sort_nodes_def nodes_sorted_def)
next
  case (snoc n ns)
  then show ?case
    using multiset_insert_sorted [OF assms(1), of "sort_nodes fo ns" n]
    by (auto simp: sort_nodes_snoc set_sort_nodes)
qed

lemma filter_multiset_insert:
  assumes "ordered_values fo V" "node_value ` set ns \<subseteq> V" "node_value n \<in> V" "nodes_sorted fo ns"
  shows "filter Q (multiset_insert fo n ns)
    = (if Q n then multiset_insert fo n (filter Q ns) else filter Q ns)"
proof -
  have fs: "nodes_sorted fo (filter Q ns)" "node_value ` set (filter Q ns) \<subseteq> V"
    using assms(2,4) by (auto simp: nodes_sorted_def sorted_wrt_filter)
  have "filter Q (filter (\<lambda>m. \<not> node_less fo n m) ns) @ filter Q (filter (node_less fo n) ns) = filter Q ns"
    using takeWhile_sorted [OF assms] by (metis filter_append takeWhile_dropWhile_id)
  then show ?thesis
    unfolding multiset_insert_filter [OF assms] multiset_insert_filter [OF assms(1) fs(2) assms(3) fs(1)]
    by (simp add: conj_commute)
qed

lemma filter_sort_nodes:
  assumes "ordered_values fo V" "node_value ` set ns \<subseteq> V"
  shows "filter Q (sort_nodes fo ns) = sort_nodes fo (filter Q ns)"
  using assms(2)
proof (induction ns rule: rev_induct)
  case Nil
  show ?case by (simp add: sort_nodes_def)
next
  case (snoc n ns)
  have s: "nodes_sorted fo (sort_nodes fo ns)" and v: "node_value ` set (sort_nodes fo ns) \<subseteq> V" "node_value n \<in> V"
    using sort_nodes_sorted [OF assms(1)] snoc.prems by (auto simp: set_sort_nodes)
  show ?case
    using snoc filter_multiset_insert [OF assms(1) v s, of Q] by (auto simp: sort_nodes_snoc)
qed


subsection \<open>The contents of a window\<close>

text \<open>After \<open>k\<close> points the window holds the last \<open>w\<close> of them, the numbers of its nodes being their positions.\<close>

definition window_start :: "nat \<Rightarrow> nat \<Rightarrow> nat" where
  "window_start w k = (if w = 0 then k else k - w)"

definition numbered :: "('f, 'd) ScalarPoint list \<Rightarrow> nat \<Rightarrow> nat \<Rightarrow> (nat \<times> ('f, 'd) ScalarPoint) list" where
  "numbered orig a b = map (\<lambda>i. (i, orig ! i)) [a..<b]"

definition window_after ::
  "('f, 'd) float_ops \<Rightarrow> nat \<Rightarrow> ('f, 'd) ScalarPoint list \<Rightarrow> nat \<Rightarrow> ('f, 'd) window \<Rightarrow> bool" where
  "window_after fo w orig k win \<longleftrightarrow> (w = 0 \<longrightarrow> win = new_window) \<and> (0 < w \<longrightarrow>
     win_nodes win = sort_nodes fo (numbered orig (k - w) k) \<and> win_queue win = [k - w..<k] \<and> win_next win = k)"

definition point_values :: "('f, 'd) ScalarPoint list \<Rightarrow> 'f set" where
  "point_values orig = sp_value ` set orig"

lemma numbered_extend: "k \<le> length orig \<Longrightarrow> numbered (orig @ xs) a k = numbered orig a k"
  by (auto simp: numbered_def nth_append)

lemma numbered_Suc: "a \<le> k \<Longrightarrow> numbered orig a (Suc k) = numbered orig a k @ [(k, orig ! k)]"
  by (simp add: numbered_def)

lemma numbered_values:
  "b \<le> length orig \<Longrightarrow> node_value ` set (numbered orig a b) \<subseteq> point_values orig"
  by (auto simp: numbered_def node_value_def point_values_def)

lemma length_tagged: "length (numbered orig a b) = b - a"
  by (simp add: numbered_def)

lemma window_after_extend:
  "window_after fo w orig k win \<Longrightarrow> k \<le> length orig \<Longrightarrow> window_after fo w (orig @ xs) k win"
  by (auto simp: window_after_def numbered_extend)

lemma window_after_insert:
  assumes "window_after fo w orig k win" "k < w"
  shows "window_after fo w orig (Suc k) (win_insert fo (orig ! k) win)"
  using assms by (simp add: window_after_def win_insert_def numbered_Suc sort_nodes_snoc)

lemma window_after_slide:
  assumes "window_after fo w orig k win" "0 < w" "w \<le> k" "k < length orig"
    "ordered_values fo (point_values orig)"
  shows "\<exists>win'. win_slide fo w (orig ! k) win = Some win' \<and> window_after fo w orig (Suc k) win'"
proof -
  have n: "win_nodes win = sort_nodes fo (numbered orig (k - w) k)" "win_queue win = [k - w..<k]"
    "win_next win = k" using assms(1,2) by (simp_all add: window_after_def)
  have q: "[k - w..<k] = (k - w) # [Suc (k - w)..<k]" using assms(2,3) by (simp add: upt_conv_Cons)
  have len: "length (win_nodes win) = w" using n(1) assms(3) by (simp add: length_sort_nodes length_tagged)
  have "filter (\<lambda>n. fst n \<noteq> k - w) (win_nodes win) = sort_nodes fo (numbered orig (Suc (k - w)) k)"
  proof -
    have "filter (\<lambda>n. fst n \<noteq> k - w) (numbered orig (k - w) k) = numbered orig (Suc (k - w)) k"
    proof -
      have "filter (\<lambda>n. fst n \<noteq> k - w) (numbered orig (Suc (k - w)) k) = numbered orig (Suc (k - w)) k"
        by (rule filter_True) (auto simp: numbered_def)
      then show ?thesis by (simp add: numbered_def q)
    qed
    then show ?thesis
      using filter_sort_nodes [OF assms(5) numbered_values, of k] assms(4) by (simp add: n(1))
  qed
  then show ?thesis
    using n len assms(2,3) q
    by (simp add: win_slide_def win_insert_def window_after_def Suc_diff_le numbered_Suc sort_nodes_snoc)
qed

text \<open>Both cases in which the smoothers produce a smoothed value.\<close>

lemma window_after_full:
  assumes "window_after fo w orig k win" "0 < w" "w \<le> Suc k" "k < length orig"
    "ordered_values fo (point_values orig)"
  shows "\<exists>win'. win_slide fo w (orig ! k) win = Some win' \<and> window_after fo w orig (Suc k) win'"
proof (cases "w \<le> k")
  case True
  with assms window_after_slide show ?thesis by blast
next
  case False
  then have "length (win_nodes win) \<noteq> w"
    using assms(1,2) by (simp add: window_after_def length_sort_nodes length_tagged)
  then have "win_slide fo w (orig ! k) win = Some (win_insert fo (orig ! k) win)"
    by (simp add: win_slide_def)
  then show ?thesis using window_after_insert [OF assms(1)] False by simp
qed

lemma window_after_length:
  "\<lbrakk>window_after fo w orig k win; 0 < w\<rbrakk> \<Longrightarrow> length (win_nodes win) = min k w"
  by (auto simp: window_after_def length_sort_nodes length_tagged)

text \<open>What a step promises is what the loop over the remaining points promises.\<close>

lemma smooth_points_law:
  assumes step: "\<And>k s. \<lbrakk>A k s; k < length orig\<rbrakk> \<Longrightarrow> \<exists>s'. step s (orig ! k) = Some (s', f k) \<and> A (Suc k) s'"
    and "A k s" "k \<le> length orig"
  shows "\<exists>s'. smooth_points step s (drop k orig) = Some (s', map f [k..<length orig]) \<and> A (length orig) s'"
  using assms(2,3)
proof (induction "length orig - k" arbitrary: k s)
  case 0
  then show ?case by simp
next
  case (Suc d)
  then have lt: "k < length orig" by simp
  obtain s' where s': "step s (orig ! k) = Some (s', f k)" "A (Suc k) s'" using step [OF Suc.prems(1) lt] by blast
  have "d = length orig - Suc k" using Suc.hyps(2) by simp
  from Suc.hyps(1) [OF this s'(2)] lt obtain s'' where
    "smooth_points step s' (drop (Suc k) orig) = Some (s'', map f [Suc k..<length orig])" "A (length orig) s''"
    by auto
  then show ?case
    using s'(1) lt by (simp add: upt_conv_Cons flip: Cons_nth_drop_Suc)
qed

subsection \<open>The three smoothers\<close>

text \<open>
  Data without NaN and of fewer than \<open>2 ^ 32\<close> points, so that the 32-bit counter does not wrap.
\<close>

definition plain_data :: "('f, 'd) float_ops \<Rightarrow> ('f, 'd) ScalarPoint list \<Rightarrow> bool" where
  "plain_data fo orig \<longleftrightarrow> length orig < 2 ^ 32 \<and> ordered_values fo (point_values orig)"

text \<open>The reference: each point from the last \<open>w\<close> points sorted anew, the first \<open>w - 1\<close> points as they are.\<close>

definition last_points :: "('f, 'd) ScalarPoint list \<Rightarrow> nat \<Rightarrow> nat \<Rightarrow> (nat \<times> ('f, 'd) ScalarPoint) list" where
  "last_points orig w i = numbered orig (Suc i - w) (Suc i)"

definition median_of ::
  "('f, 'd) float_ops \<Rightarrow> nat \<Rightarrow> ('f, 'd) ScalarPoint list \<Rightarrow> nat \<Rightarrow> ('f, 'd) ScalarPoint" where
  "median_of fo w orig i =
    (if Suc i < w \<or> w = 0 then orig ! i
     else (orig ! i)\<lparr>sp_value :=
       (let vs = map (\<lambda>n. sp_value (snd n)) (sort_nodes fo (last_points orig w i)) in
        if even w then f_div fo (f_add fo (vs ! (w div 2)) (vs ! (w div 2 - 1))) (f_two fo)
        else vs ! (w div 2))\<rparr>)"

definition topx_of ::
  "('f, 'd) float_ops \<Rightarrow> nat \<Rightarrow> nat \<Rightarrow> ('f, 'd) ScalarPoint list \<Rightarrow> nat \<Rightarrow> ('f, 'd) ScalarPoint" where
  "topx_of fo w c orig i =
    (if Suc i < w \<or> w = 0 then orig ! i
     else (orig ! i)\<lparr>sp_value :=
       (let vs = map (\<lambda>n. sp_value (snd n)) (sort_nodes fo (last_points orig w i)) in
        f_div fo (foldl (\<lambda>res v. f_add fo v res) (f_zero fo) (take c vs)) (f_of_nat fo c))\<rparr>)"

fun low_passed :: "('f, 'd) float_ops \<Rightarrow> 'f \<Rightarrow> ('f, 'd) ScalarPoint list \<Rightarrow> nat \<Rightarrow> 'f" where
  "low_passed fo w orig 0 = f_zero fo"
| "low_passed fo w orig (Suc i) = f_add fo (f_mul fo (low_passed fo w orig i) w)
     (f_mul fo (f_sub fo (f_one fo) w) (sp_value (orig ! i)))"

definition low_pass_of ::
  "('f, 'd) float_ops \<Rightarrow> 'f \<Rightarrow> ('f, 'd) ScalarPoint list \<Rightarrow> nat \<Rightarrow> ('f, 'd) ScalarPoint" where
  "low_pass_of fo w orig i = (orig ! i)\<lparr>sp_value := f_div fo (low_passed fo w orig (Suc i))
     (if f_eq fo w (f_one fo) then f_one fo else f_sub fo (f_one fo) (f_pow fo w (Suc i)))\<rparr>"

text \<open>The states of the smoothers after \<open>k\<close> points.\<close>

definition median_after ::
  "('f, 'd) float_ops \<Rightarrow> nat \<Rightarrow> ('f, 'd) ScalarPoint list \<Rightarrow> nat \<Rightarrow> ('f, 'd) WindowMedianSmoother \<Rightarrow> bool" where
  "median_after fo w orig k s \<longleftrightarrow> wm_windowSize s = w \<and> (0 < w \<longrightarrow> wm_even s = even w)
     \<and> wm_numAccum s = of_nat k \<and> window_after fo w orig k (wm_window s)"

definition topx_after ::
  "('f, 'd) float_ops \<Rightarrow> nat \<Rightarrow> nat \<Rightarrow> ('f, 'd) ScalarPoint list \<Rightarrow> nat \<Rightarrow> ('f, 'd) WindowTopXSmoother \<Rightarrow> bool" where
  "topx_after fo w c orig k s \<longleftrightarrow> tx_windowSize s = w \<and> tx_elemCount s = c \<and> (0 < w \<longrightarrow> c \<le> w)
     \<and> tx_numAccum s = of_nat k \<and> window_after fo w orig k (tx_window s)"

definition ir_after ::
  "('f, 'd) float_ops \<Rightarrow> 'f \<Rightarrow> ('f, 'd) ScalarPoint list \<Rightarrow> nat \<Rightarrow> 'f IRLowSmoother \<Rightarrow> bool" where
  "ir_after fo w orig k s \<longleftrightarrow> ir_weight s = w \<and> \<not> f_eq fo w (f_zero fo)
     \<and> ir_numAccum s = of_nat k \<and> ir_last s = low_passed fo w orig k"

text \<open>The low-pass filter counts only points it smooths: the data must be finite and not constant.\<close>

definition varied_data :: "('f, 'd) float_ops \<Rightarrow> ('f, 'd) ScalarPoint list \<Rightarrow> bool" where
  "varied_data fo orig \<longleftrightarrow> length orig < 2 ^ 32
     \<and> (\<forall>p\<in>set orig. \<not> f_isinf fo (sp_value p) \<and> \<not> f_isnan fo (sp_value p))
     \<and> \<not> list_all (\<lambda>p. f_eq fo (sp_value p) (sp_value (orig ! 0))) orig"

lemma unat_of_nat_32: "k < 2 ^ 32 \<Longrightarrow> unat (of_nat k :: 32 word) = k"
  by (simp add: unat_of_nat take_bit_nat_eq_self)

lemma last_points_extend:
  "i < length orig \<Longrightarrow> last_points (orig @ xs) w i = last_points orig w i"
  by (simp add: last_points_def numbered_extend)

lemma low_passed_extend:
  "i \<le> length orig \<Longrightarrow> low_passed fo w (orig @ xs) i = low_passed fo w orig i"
  by (induction i) (simp_all add: nth_append)

lemma window_nodes_last:
  "\<lbrakk>window_after fo w orig (Suc k) win; 0 < w\<rbrakk> \<Longrightarrow> win_nodes win = sort_nodes fo (last_points orig w k)"
  by (simp add: window_after_def last_points_def)

lemma median_point_law:
  assumes "median_after fo w orig k s" "k < length orig" "ordered_values fo (point_values orig)"
  shows "\<exists>s'. median_point fo s (orig ! k) = Some (s', median_of fo w orig k) \<and> median_after fo w orig (Suc k) s'"
proof -
  have s: "wm_windowSize s = w" "wm_numAccum s = of_nat k" "window_after fo w orig k (wm_window s)"
    "0 < w \<longrightarrow> wm_even s = even w" using assms(1) by (simp_all add: median_after_def)
  consider "w = 0" | "0 < w" "Suc k < w" | "0 < w" "w \<le> Suc k" by linarith
  then show ?thesis
  proof cases
    case 1
    with s show ?thesis by (simp add: median_point_def median_of_def median_after_def window_after_def)
  next
    case 2
    then have "length (win_nodes (wm_window s)) < w - 1"
      using window_after_length [OF s(3)] by simp
    with 2 s window_after_insert [OF s(3)] show ?thesis
      by (simp add: median_point_def median_of_def median_after_def)
  next
    case 3
    then have nl: "\<not> length (win_nodes (wm_window s)) < w - 1"
      using window_after_length [OF s(3)] by simp
    obtain win where win: "win_slide fo w (orig ! k) (wm_window s) = Some win"
      "window_after fo w orig (Suc k) win"
      using window_after_full [OF s(3) 3 assms(2,3)] by blast
    have len: "length (win_nodes win) = w"
      using window_after_length [OF win(2) 3(1)] 3(2) by simp
    have "\<exists>v. median_value fo w (wm_even s) (win_nodes win) = Some v
        \<and> (orig ! k)\<lparr>sp_value := v\<rparr> = median_of fo w orig k"
    proof -
      have m: "w div 2 < w" "even w \<Longrightarrow> w div 2 \<noteq> 0" using 3(1) by auto
      show ?thesis
        using 3 s(4) len m window_nodes_last [OF win(2) 3(1)]
        by (auto simp: median_value_def median_of_def Let_def)
    qed
    then obtain v where "median_value fo w (wm_even s) (win_nodes win) = Some v"
      "(orig ! k)\<lparr>sp_value := v\<rparr> = median_of fo w orig k" by blast
    with 3 s win nl show ?thesis
      by (simp add: median_point_def median_after_def)
  qed
qed

lemma topx_point_law:
  assumes "topx_after fo w c orig k s" "k < length orig" "ordered_values fo (point_values orig)"
  shows "\<exists>s'. topx_point fo s (orig ! k) = Some (s', topx_of fo w c orig k) \<and> topx_after fo w c orig (Suc k) s'"
proof -
  have s: "tx_windowSize s = w" "tx_numAccum s = of_nat k" "window_after fo w orig k (tx_window s)"
    "tx_elemCount s = c" "0 < w \<longrightarrow> c \<le> w" using assms(1) by (simp_all add: topx_after_def)
  consider "w = 0" | "0 < w" "Suc k < w" | "0 < w" "w \<le> Suc k" by linarith
  then show ?thesis
  proof cases
    case 1
    with s show ?thesis by (simp add: topx_point_def topx_of_def topx_after_def window_after_def)
  next
    case 2
    then have "length (win_nodes (tx_window s)) < w - 1"
      using window_after_length [OF s(3)] by simp
    with 2 s window_after_insert [OF s(3)] show ?thesis
      by (simp add: topx_point_def topx_of_def topx_after_def)
  next
    case 3
    then have nl: "\<not> length (win_nodes (tx_window s)) < w - 1"
      using window_after_length [OF s(3)] by simp
    obtain win where win: "win_slide fo w (orig ! k) (tx_window s) = Some win"
      "window_after fo w orig (Suc k) win"
      using window_after_full [OF s(3) 3 assms(2,3)] by blast
    have len: "length (win_nodes win) = w"
      using window_after_length [OF win(2) 3(1)] 3(2) by simp
    define v where "v = f_div fo (foldl (\<lambda>res n. f_add fo (sp_value (snd n)) res) (f_zero fo)
        (take c (win_nodes win))) (f_of_nat fo c)"
    have "lowest_mean fo c (win_nodes win) = Some v"
      using s(5) 3(1) len by (simp add: lowest_mean_def v_def)
    moreover have "(orig ! k)\<lparr>sp_value := v\<rparr> = topx_of fo w c orig k"
      using 3 window_nodes_last [OF win(2) 3(1)]
      by (simp add: topx_of_def v_def Let_def take_map foldl_map)
    ultimately show ?thesis
      using 3 s win nl by (simp add: topx_point_def topx_after_def)
  qed
qed

interpretation median: incremental_smoother
  "WindowMedianSmoother_Sample fo" "plain_data fo" "median_after fo w" "median_of fo w"
proof
  fix orig :: "('a, 'b) ScalarPoint list" and k and s :: "('a, 'b) WindowMedianSmoother" and dst
  assume a: "median_after fo w orig k s" "k \<le> length orig" "plain_data fo orig"
  then have n: "unat (wm_numAccum s) = k"
    by (simp add: median_after_def plain_data_def unat_of_nat_32)
  from a(3) have "ordered_values fo (point_values orig)" by (simp add: plain_data_def)
  note law = median_point_law [OF _ _ this]
  have "\<exists>s'. smooth_points (median_point fo) s (drop k orig) = Some (s', map (median_of fo w orig) [k..<length orig])
      \<and> median_after fo w orig (length orig) s'"
    by (rule smooth_points_law [where A = "median_after fo w orig"]) (use law a(1,2) in blast)+
  then obtain s' where "smooth_points (median_point fo) s (drop k orig) = Some (s', map (median_of fo w orig) [k..<length orig])"
    "median_after fo w orig (length orig) s'" by blast
  with a n show "\<exists>s'. WindowMedianSmoother_Sample fo s orig dst
      = Some (s', dst @ map (median_of fo w orig) [k..<length orig]) \<and> median_after fo w orig (length orig) s'"
    by (cases "k = length orig") (simp_all add: WindowMedianSmoother_Sample_def)
qed (auto simp: median_after_def window_after_extend median_of_def nth_append last_points_extend)

interpretation topx: incremental_smoother
  "WindowTopXSmoother_Sample fo" "plain_data fo" "topx_after fo w c" "topx_of fo w c"
proof
  fix orig :: "('a, 'b) ScalarPoint list" and k and s :: "('a, 'b) WindowTopXSmoother" and dst
  assume a: "topx_after fo w c orig k s" "k \<le> length orig" "plain_data fo orig"
  then have n: "unat (tx_numAccum s) = k"
    by (simp add: topx_after_def plain_data_def unat_of_nat_32)
  from a(3) have "ordered_values fo (point_values orig)" by (simp add: plain_data_def)
  note law = topx_point_law [OF _ _ this]
  have "\<exists>s'. smooth_points (topx_point fo) s (drop k orig) = Some (s', map (topx_of fo w c orig) [k..<length orig])
      \<and> topx_after fo w c orig (length orig) s'"
    by (rule smooth_points_law [where A = "topx_after fo w c orig"]) (use law a(1,2) in blast)+
  then obtain s' where "smooth_points (topx_point fo) s (drop k orig) = Some (s', map (topx_of fo w c orig) [k..<length orig])"
    "topx_after fo w c orig (length orig) s'" by blast
  with a n show "\<exists>s'. WindowTopXSmoother_Sample fo s orig dst
      = Some (s', dst @ map (topx_of fo w c orig) [k..<length orig]) \<and> topx_after fo w c orig (length orig) s'"
    by (cases "k = length orig") (simp_all add: WindowTopXSmoother_Sample_def)
qed (auto simp: topx_after_def window_after_extend topx_of_def nth_append last_points_extend)

lemma ir_points_law:
  assumes "ir_after fo w orig k s" "k \<le> length orig" "length orig < 2 ^ 32"
    "\<forall>p\<in>set orig. \<not> f_isinf fo (sp_value p) \<and> \<not> f_isnan fo (sp_value p)"
  shows "\<exists>s'. ir_points fo False s (drop k orig) = (s', map (low_pass_of fo w orig) [k..<length orig])
    \<and> ir_after fo w orig (length orig) s'"
  using assms(1,2)
proof (induction "length orig - k" arbitrary: k s)
  case 0
  then show ?case by simp
next
  case (Suc d)
  then have lt: "k < length orig" by simp
  have u: "unat (1 + of_nat k :: 32 word) = Suc k"
    using unat_of_nat_32 [of "Suc k"] lt assms(3) by simp
  obtain s' where s': "ir_point fo False s (orig ! k) = (s', low_pass_of fo w orig k)" "ir_after fo w orig (Suc k) s'"
    using Suc.prems(1) lt assms(4) u
    by (simp add: ir_point_def ir_after_def low_pass_of_def Let_def add.commute)
  have "d = length orig - Suc k" using Suc.hyps(2) by simp
  from Suc.hyps(1) [OF this s'(2)] lt obtain s'' where
    "ir_points fo False s' (drop (Suc k) orig) = (s'', map (low_pass_of fo w orig) [Suc k..<length orig])"
    "ir_after fo w orig (length orig) s''" by auto
  then show ?case
    using s'(1) lt by (simp add: upt_conv_Cons Let_def flip: Cons_nth_drop_Suc)
qed

interpretation low_pass: incremental_smoother
  "\<lambda>s orig dst. Some (IRLowSmoother_Sample fo s orig dst)" "\<lambda>orig. orig = [] \<or> varied_data fo orig" "ir_after fo w" "low_pass_of fo w"
proof
  fix orig :: "('a, 'b) ScalarPoint list" and k and s :: "'a IRLowSmoother" and dst
  assume a: "ir_after fo w orig k s" "k \<le> length orig" "orig = [] \<or> varied_data fo orig"
  then have n: "unat (ir_numAccum s) = k"
    by (auto simp: ir_after_def varied_data_def unat_of_nat_32)
  obtain s' where "ir_points fo False s (drop k orig) = (s', map (low_pass_of fo w orig) [k..<length orig])"
    "ir_after fo w orig (length orig) s'"
    using ir_points_law [OF a(1,2)] a(2,3) by (fastforce simp: varied_data_def)
  with a n show "\<exists>s'. Some (IRLowSmoother_Sample fo s orig dst)
      = Some (s', dst @ map (low_pass_of fo w orig) [k..<length orig]) \<and> ir_after fo w orig (length orig) s'"
    by (cases "k = length orig") (auto simp: IRLowSmoother_Sample_def varied_data_def ir_after_def)
qed (auto simp: ir_after_def low_passed_extend low_pass_of_def nth_append)

end
