(* ===== verification/Scalar_series.thy ===== *)
theory Scalar_series
  imports Scalar_file Scalar_window
begin

text \<open>
  What the files of the Scalar server give back: the points of a range of steps, and the smoothed
  points.  The claims at the end are about whole histories of a file.
\<close>

lemma vector_at_upd [simp]: "vector_at (m(k \<mapsto> v)) k = v"
  by (simp add: vector_at_def)

text \<open>A history of updates of one tag, in the order of the calls of \<open>UpdateData\<close>.\<close>

fun File_updates ::
  "('f, 'd) float_ops \<Rightarrow> string \<Rightarrow> ('f, 'd) ScalarPoint list list \<Rightarrow> ('f, 'd) File \<Rightarrow> ('f, 'd) File option" where
  "File_updates fo tag [] f = Some f"
| "File_updates fo tag (b # bs) f =
    (case File_UpdateData fo tag b f of None \<Rightarrow> None | Some f' \<Rightarrow> File_updates fo tag bs f')"

subsection \<open>Ranges of sorted data\<close>

lemma takeWhile_steps_le:
  assumes "steps_sorted data"
  shows "takeWhile (\<lambda>p. sp_step p \<le> r) data = filter (\<lambda>p. sp_step p \<le> r) data"
  using assms
proof (induction data)
  case Nil
  then show ?case by simp
next
  case (Cons p data)
  then have "filter (\<lambda>p. sp_step p \<le> r) data = []" if "\<not> sp_step p \<le> r"
    using that order_trans by (fastforce simp: filter_empty_conv)
  with Cons show ?case by simp
qed

lemma split_steps:
  assumes "steps_sorted data"
  shows "takeWhile (\<lambda>p. sp_step p < l) data = filter (\<lambda>p. sp_step p < l) data
    \<and> dropWhile (\<lambda>p. sp_step p < l) data = filter (\<lambda>p. l \<le> sp_step p) data"
  using assms
proof (induction data)
  case Nil
  then show ?case by simp
next
  case (Cons p data)
  then have "filter (\<lambda>p. sp_step p < l) data = [] \<and> filter (\<lambda>p. l \<le> sp_step p) data = data"
    if "\<not> sp_step p < l"
    using that order_trans by (fastforce simp: filter_empty_conv filter_id_conv not_less)
  with Cons show ?case by (auto simp: not_less not_le)
qed

lemma boundary_elements:
  assumes "steps_sorted data"
  shows "take (upper_bound data r - lower_bound data l) (drop (lower_bound data l) data)
    = filter (\<lambda>p. l \<le> sp_step p \<and> sp_step p \<le> r) data"
proof -
  let ?A = "filter (\<lambda>p. sp_step p < l) data" and ?R = "filter (\<lambda>p. l \<le> sp_step p) data"
  let ?le = "filter (\<lambda>p. sp_step p \<le> r)"
  have data: "data = ?A @ ?R"
    using split_steps [OF assms, of l] by (metis takeWhile_dropWhile_id)
  have bl: "lower_bound data l = length ?A"
    using split_steps [OF assms, of l] by (simp add: lower_bound_sorted [OF assms])
  have bu: "upper_bound data r = length (?le data)"
    using takeWhile_steps_le [OF assms, of r] by (simp add: upper_bound_sorted [OF assms])
  have R: "drop (length ?A) data = ?R" by (metis data append_eq_conv_conj)
  have sum: "length (?le data) = length (?le ?A) + length (?le ?R)"
    by (metis data filter_append length_append)
  have "length (?le data) - length ?A = length (?le ?R)"
  proof (cases "l \<le> r")
    case True
    then have "?le ?A = ?A" by (intro filter_True) (auto intro: order_trans [OF less_imp_le])
    with sum show ?thesis by simp
  next
    case False
    then have "?le ?R = []" by (auto simp: filter_empty_conv)
    moreover have "length (?le ?A) \<le> length ?A" by (rule length_filter_le)
    ultimately show ?thesis using sum by simp
  qed
  moreover have "take (length (?le ?R)) ?R = ?le ?R"
  proof -
    have "steps_sorted ?R" using assms by (rule sorted_filter)
    then show ?thesis using takeWhile_steps_le by (metis takeWhile_eq_take)
  qed
  moreover have "?le ?R = filter (\<lambda>p. l \<le> sp_step p \<and> sp_step p \<le> r) data"
    by (simp add: conj_commute)
  ultimately show ?thesis by (simp add: bl bu R)
qed

subsection \<open>The state of a file after updates\<close>

text \<open>
  The points received for a tag, with the range and the tag set that go with them.  A first step of
  \<open>2 ^ 64 - 1\<close> is the code's mark for no range, so the steps are below it.
\<close>

definition tag_holds :: "string \<Rightarrow> ('f, 'd) ScalarPoint list \<Rightarrow> ('f, 'd) File \<Rightarrow> bool" where
  "tag_holds tag pts f \<longleftrightarrow>
    (if pts = [] then tag \<notin> fi_tag f \<and> vector_at (fi_data f) tag = [] \<and> fi_range f tag = None
     else tag \<in> fi_tag f \<and> fi_data f tag = Some pts \<and> fi_range f tag = Some (sp_step (hd pts), sp_step (last pts)))"

lemma UpdateRange_frame [simp]: "fi_data (File_UpdateRange tag b f) = fi_data f"
  "fi_smoother (File_UpdateRange tag b f) = fi_smoother f"
  "fi_smoothingData (File_UpdateRange tag b f) = fi_smoothingData f"
  "fi_tag (File_UpdateRange tag b f) = fi_tag f"
  by (simp_all add: File_UpdateRange_def Let_def split: option.split)

lemma tag_holds_vector: "tag_holds tag pts f \<Longrightarrow> vector_at (fi_data f) tag = pts"
  by (auto simp: tag_holds_def vector_at_def split: if_splits)

lemma tag_holds_update:
  assumes "tag_holds tag pts f" "\<forall>p\<in>set b. sp_step p \<noteq> - 1" "File_UpdateData fo tag b f = Some f'"
  shows "tag_holds tag (pts @ b) f'"
proof (cases "b = []")
  case True
  with assms show ?thesis by (simp add: File_UpdateData_def)
next
  case False
  then have "sp_step (hd b) \<noteq> - 1" using assms(2) by simp
  with False assms(1,3) show ?thesis
    by (auto simp: tag_holds_def File_UpdateData_def File_UpdateRange_def GetRangeFromData_def Let_def
        vector_at_def split: if_splits option.splits prod.splits)
qed

lemma File_updates_holds:
  assumes "tag_holds tag pts f" "\<forall>b\<in>set bs. \<forall>p\<in>set b. sp_step p \<noteq> - 1" "File_updates fo tag bs f = Some f'"
  shows "tag_holds tag (pts @ concat bs) f'"
  using assms
proof (induction bs arbitrary: pts f)
  case Nil
  then show ?case by simp
next
  case (Cons b bs)
  then obtain f1 where f1: "File_UpdateData fo tag b f = Some f1" "File_updates fo tag bs f1 = Some f'"
    by (auto split: option.splits)
  have "tag_holds tag (pts @ b) f1"
    using tag_holds_update [OF Cons.prems(1) _ f1(1)] Cons.prems(2) by simp
  from Cons.IH [OF this _ f1(2)] Cons.prems(2) show ?case by simp
qed

lemma File_updates_plain:
  assumes "fi_smoother f tag = None"
  shows "\<exists>f'. File_updates fo tag bs f = Some f' \<and> fi_smoother f' tag = None
    \<and> fi_smoothingData f' = fi_smoothingData f"
  using assms
proof (induction bs arbitrary: f)
  case Nil
  then show ?case by simp
next
  case (Cons b bs)
  have "\<exists>f1. File_UpdateData fo tag b f = Some f1 \<and> fi_smoother f1 tag = None
      \<and> fi_smoothingData f1 = fi_smoothingData f"
    using Cons.prems by (cases "b = []") (simp_all add: File_UpdateData_def Let_def)
  then obtain f1 where f1: "File_UpdateData fo tag b f = Some f1" "fi_smoother f1 tag = None"
      "fi_smoothingData f1 = fi_smoothingData f" by blast
  from Cons.IH [OF f1(2)] f1 show ?case by simp
qed

lemma tag_holds_new: "tag_holds tag [] (new_File fo path t)"
  by (simp add: tag_holds_def new_File_def vector_at_def)

lemma new_File_plain [simp]: "fi_smoother (new_File fo path t) = Map.empty"
  "fi_smoothingData (new_File fo path t) = Map.empty" "fi_data (new_File fo path t) = Map.empty"
  by (simp_all add: new_File_def)

definition view_elements :: "('f, 'd) DataView list \<Rightarrow> ('f, 'd) ScalarPoint list" where
  "view_elements vs = concat (map DataView_GetElements vs)"

text \<open>Reading the range of a tag gives the points in it.\<close>

lemma steps_between:
  assumes "steps_sorted data" "p \<in> set data"
  shows "sp_step (hd data) \<le> sp_step p \<and> sp_step p \<le> sp_step (last data)"
proof -
  obtain i where i: "i < length data" "p = data ! i" using assms(2) by (metis in_set_conv_nth)
  then have "data \<noteq> []" by auto
  then show ?thesis
    using sorted_nth_mono [OF assms(1), of 0 i] sorted_nth_mono [OF assms(1), of i "length data - 1"] i
    by (simp add: hd_conv_nth last_conv_nth)
qed

lemma filter_range_max:
  assumes "steps_sorted data"
  shows "filter (\<lambda>p. l \<le> sp_step p \<and> sp_step (hd data) \<le> sp_step p \<and> sp_step p \<le> r
      \<and> sp_step p \<le> sp_step (last data)) data
    = filter (\<lambda>p. l \<le> sp_step p \<and> sp_step p \<le> r) data"
  using steps_between [OF assms] by (intro filter_cong) auto

lemma filter_range_none:
  assumes "steps_sorted data" "sp_step (last data) < l \<or> r < sp_step (hd data)"
  shows "filter (\<lambda>p. l \<le> sp_step p \<and> sp_step p \<le> r) data = []"
proof -
  have "\<not> (l \<le> sp_step p \<and> sp_step p \<le> r)" if "p \<in> set data" for p
    using steps_between [OF assms(1) that] assms(2) by (meson leD order_trans)
  then show ?thesis by (simp add: filter_empty_conv)
qed

lemma bounds_not_crossed:
  assumes "steps_sorted data" "l \<le> r"
  shows "lower_bound data l \<le> upper_bound data r" "upper_bound data r \<le> length data"
proof -
  have "length (filter (\<lambda>p. sp_step p < l) data) \<le> length (filter (\<lambda>p. sp_step p \<le> r) data)"
  proof (induction data)
    case (Cons p data)
    then show ?case using assms(2) by (auto dest: less_le_trans less_imp_le)
  qed simp
  then show "lower_bound data l \<le> upper_bound data r"
    using split_steps [OF assms(1), of l] takeWhile_steps_le [OF assms(1), of r]
    by (simp add: lower_bound_sorted [OF assms(1)] upper_bound_sorted [OF assms(1)])
  show "upper_bound data r \<le> length data"
    by (simp add: upper_bound_sorted [OF assms(1)] length_takeWhile_le)
qed

text \<open>The views of a read: none or one, over the points of the tag.\<close>

lemma GetData_view:
  assumes "tag_holds tag pts f" "steps_sorted pts" "l \<le> r"
  shows "\<exists>vs. File_GetData fo tag l r M_NORMAL f = Some vs \<and> list_all is_view vs \<and> length vs \<le> 1
    \<and> view_elements vs = filter (\<lambda>p. l \<le> sp_step p \<and> sp_step p \<le> r) pts"
proof (cases "pts = []")
  case True
  with assms(1) show ?thesis by (simp add: File_GetData_def tag_holds_def view_elements_def)
next
  case False
  then have h: "tag \<in> fi_tag f" "fi_data f tag = Some pts"
    "fi_range f tag = Some (sp_step (hd pts), sp_step (last pts))"
    using assms(1) by (simp_all add: tag_holds_def)
  show ?thesis
  proof (cases "sp_step (last pts) < l \<or> r < sp_step (hd pts)")
    case True
    with h filter_range_none [OF assms(2) True] show ?thesis
      by (simp add: File_GetData_def File_GetIntersectionRange_def view_elements_def)
  next
    case F: False
    let ?l = "max l (sp_step (hd pts))" and ?r = "min r (sp_step (last pts))"
    have "sp_step (hd pts) \<le> sp_step (last pts)" using steps_between [OF assms(2), of "hd pts"] False by simp
    then have lr: "?l \<le> ?r" using F assms(3) by (auto simp: not_less)
    let ?v = "new_DataView pts (lower_bound pts ?l) (upper_bound pts ?r) (fi_filePath f)"
    have "File_GetData fo tag l r M_NORMAL f = Some [?v]"
      using h False F bounds_not_crossed [OF assms(2) lr]
      by (simp add: File_GetData_def File_GetIntersectionRange_def File_GetDataNormal_def File_GetBoundary_def)
    moreover have "is_view ?v"
      using bounds_not_crossed [OF assms(2) lr] by (simp add: is_view_def new_DataView_def)
    moreover have "view_elements [?v] = filter (\<lambda>p. l \<le> sp_step p \<and> sp_step p \<le> r) pts"
      by (simp add: view_elements_def DataView_GetElements_def new_DataView_def boundary_elements [OF assms(2)]
          filter_range_max [OF assms(2)])
    ultimately show ?thesis by auto
  qed
qed

subsection \<open>Smoothed points\<close>

text \<open>A smoother inside a file: \<open>wrap\<close> makes it one of the three kinds a file holds.\<close>

locale file_smoother = incremental_smoother sample good after smoothed
  for sample :: "'s \<Rightarrow> ('f, 'd) ScalarPoint list \<Rightarrow> ('f, 'd) ScalarPoint list
      \<Rightarrow> ('s \<times> ('f, 'd) ScalarPoint list) option"
    and good after smoothed +
  fixes fo :: "('f, 'd) float_ops"
    and wrap :: "'s \<Rightarrow> ('f, 'd) Smoother"
  assumes wrap_sample: "Smoother_Sample fo (wrap s) orig dst =
      (case sample s orig dst of None \<Rightarrow> None | Some (s', d) \<Rightarrow> Some (wrap s', d))"
begin

definition holds_smoothed :: "string \<Rightarrow> ('f, 'd) ScalarPoint list \<Rightarrow> ('f, 'd) ScalarPoint list \<Rightarrow> ('f, 'd) File \<Rightarrow> bool" where
  "holds_smoothed tag old pts f \<longleftrightarrow> vector_at (fi_data f) tag = pts
     \<and> (\<exists>s. fi_smoother f tag = Some (wrap s) \<and> after pts (length pts) s)
     \<and> vector_at (fi_smoothingData f) tag = old @ map (smoothed pts) [0..<length pts]"

lemma resmoothed:
  assumes "fi_smoother f tag = Some (wrap s)" "after (vector_at (fi_data f) tag) 0 s"
    "good (vector_at (fi_data f) tag)"
  shows "\<exists>f'. File_UpdateSmoothingData fo tag f = Some f'
    \<and> holds_smoothed tag (vector_at (fi_smoothingData f) tag) (vector_at (fi_data f) tag) f'"
proof -
  let ?pts = "vector_at (fi_data f) tag"
  obtain s' where "sample s ?pts (vector_at (fi_smoothingData f) tag)
      = Some (s', vector_at (fi_smoothingData f) tag @ map (smoothed ?pts) [0..<length ?pts])"
    "after ?pts (length ?pts) s'"
    using sample_law [OF assms(2) _ assms(3)] by blast
  then show ?thesis
    using assms(1) by (auto simp: File_UpdateSmoothingData_def Let_def wrap_sample holds_smoothed_def)
qed

lemma update_smoothed:
  assumes "holds_smoothed tag old pts f" "good (pts @ b)"
  shows "\<exists>f'. File_UpdateData fo tag b f = Some f' \<and> holds_smoothed tag old (pts @ b) f'"
proof (cases "b = []")
  case True
  with assms(1) show ?thesis by (simp add: File_UpdateData_def)
next
  case False
  obtain s where s: "fi_smoother f tag = Some (wrap s)" "after pts (length pts) s"
    and h: "vector_at (fi_data f) tag = pts"
      "vector_at (fi_smoothingData f) tag = old @ map (smoothed pts) [0..<length pts]"
    using assms(1) by (auto simp: holds_smoothed_def)
  have ref: "map (smoothed pts) [0..<length pts] @ map (smoothed (pts @ b)) [length pts..<length (pts @ b)]
      = map (smoothed (pts @ b)) [0..<length (pts @ b)]"
  proof -
    have "[0..<length (pts @ b)] = [0..<length pts] @ [length pts..<length (pts @ b)]"
      using upt_add_eq_append [of 0 "length pts" "length b"] by simp
    then show ?thesis using smoothed_extend [of _ pts b] by simp
  qed
  obtain s' where "sample s (pts @ b) (old @ map (smoothed pts) [0..<length pts])
      = Some (s', old @ map (smoothed (pts @ b)) [0..<length (pts @ b)])"
    "after (pts @ b) (length (pts @ b)) s'"
    using sample_law [OF after_extend [OF s(2)] _ assms(2), of "old @ map (smoothed pts) [0..<length pts]"] ref
    by auto
  then show ?thesis
    using False s h by (auto simp: File_UpdateData_def Let_def wrap_sample holds_smoothed_def)
qed

lemma updates_smoothed:
  assumes "holds_smoothed tag old pts f" "\<forall>b. prefix b bs \<longrightarrow> good (pts @ concat b)"
  shows "\<exists>f'. File_updates fo tag bs f = Some f' \<and> holds_smoothed tag old (pts @ concat bs) f'"
  using assms
proof (induction bs arbitrary: pts f)
  case Nil
  then show ?case by simp
next
  case (Cons b bs)
  have "good (pts @ b)" using Cons.prems(2) [rule_format, of "[b]"] by simp
  then obtain f1 where f1: "File_UpdateData fo tag b f = Some f1" "holds_smoothed tag old (pts @ b) f1"
    using update_smoothed [OF Cons.prems(1)] by blast
  have "\<forall>c. prefix c bs \<longrightarrow> good ((pts @ b) @ concat c)"
  proof (intro allI impI)
    fix c assume "prefix c bs"
    then show "good ((pts @ b) @ concat c)" using Cons.prems(2) [rule_format, of "b # c"] by simp
  qed
  from Cons.IH [OF f1(2) this] f1(1) show ?case by simp
qed

end

interpretation file_median: file_smoother "WindowMedianSmoother_Sample fo" "plain_data fo"
  "median_after fo w" "median_of fo w" fo WindowMedian
  by unfold_locales simp

interpretation file_topx: file_smoother "WindowTopXSmoother_Sample fo" "plain_data fo"
  "topx_after fo w c" "topx_of fo w c" fo WindowTopX
  by unfold_locales simp

interpretation file_low_pass: file_smoother "\<lambda>s orig dst. Some (IRLowSmoother_Sample fo s orig dst)"
  "\<lambda>orig. orig = [] \<or> varied_data fo orig" "ir_after fo w" "low_pass_of fo w" fo IRLow
  by unfold_locales (simp split: prod.split)

text \<open>What each parameter asks for, and the data it is meant for.\<close>

definition topx_count :: "('f, 'd) float_ops \<Rightarrow> nat \<Rightarrow> 'd \<Rightarrow> nat" where
  "topx_count fo w t = tx_elemCount (WindowTopXSmoother_SetSampleParam fo w t (new_WindowTopXSmoother fo))"

fun smoothing_ref ::
  "('f, 'd) float_ops \<Rightarrow> ('f, 'd) SmoothingParam \<Rightarrow> ('f, 'd) ScalarPoint list \<Rightarrow> nat \<Rightarrow> ('f, 'd) ScalarPoint" where
  "smoothing_ref fo (IRSmootherParam w) = low_pass_of fo w"
| "smoothing_ref fo (WindowMedianParam w) = median_of fo w"
| "smoothing_ref fo (WindowToxSmoothingParam w t) = topx_of fo w (topx_count fo w t)"

fun smoothable :: "('f, 'd) float_ops \<Rightarrow> ('f, 'd) SmoothingParam \<Rightarrow> ('f, 'd) ScalarPoint list \<Rightarrow> bool" where
  "smoothable fo (IRSmootherParam w) orig \<longleftrightarrow> \<not> f_eq fo w (f_zero fo) \<and> (orig = [] \<or> varied_data fo orig)"
| "smoothable fo (WindowMedianParam w) orig \<longleftrightarrow> plain_data fo orig"
| "smoothable fo (WindowToxSmoothingParam w t) orig \<longleftrightarrow> plain_data fo orig \<and> topx_count fo w t \<le> w"

lemma window_after_0: "window_after fo w orig 0 new_window"
  by (simp add: window_after_def new_window_def sort_nodes_def numbered_def)

text \<open>
  Setting a parameter where no smoother is set or a different one, then receiving data.
\<close>

definition replaces :: "('f, 'd) float_ops \<Rightarrow> string \<Rightarrow> ('f, 'd) SmoothingParam \<Rightarrow> ('f, 'd) File \<Rightarrow> bool" where
  "replaces fo tag p f \<longleftrightarrow> (\<forall>old. fi_smoother f tag = Some old \<longrightarrow> \<not> Smoother_Equal fo old (sampler_for fo p))"

lemma replaces_update:
  "replaces fo tag p f \<Longrightarrow> File_UpdateSmoothingParam fo tag (Some p) f
    = File_UpdateSmoothingData fo tag (f\<lparr>fi_smoother := (fi_smoother f)(tag \<mapsto> sampler_for fo p)\<rparr>)"
  by (auto simp: replaces_def File_UpdateSmoothingParam_def Let_def split: option.split)

lemma smoothed_history:
  assumes "replaces fo tag p f" "vector_at (fi_data f) tag = pts"
    "\<forall>b. prefix b bs \<longrightarrow> smoothable fo p (pts @ concat b)"
  shows "\<exists>f1 f2. File_UpdateSmoothingParam fo tag (Some p) f = Some f1 \<and> File_updates fo tag bs f1 = Some f2
    \<and> fi_smoother f2 tag \<noteq> None
    \<and> vector_at (fi_smoothingData f2) tag = vector_at (fi_smoothingData f) tag
        @ map (smoothing_ref fo p (pts @ concat bs)) [0..<length (pts @ concat bs)]"
proof -
  let ?f = "f\<lparr>fi_smoother := (fi_smoother f)(tag \<mapsto> sampler_for fo p)\<rparr>"
  note up = replaces_update [OF assms(1)]
  have "smoothable fo p pts" using assms(3) [rule_format, of "[]"] by simp
  show ?thesis
  proof (cases p)
    case (IRSmootherParam w)
    have s: "ir_after fo w pts 0 (IRLowSmoother_SetSampleParam fo w (new_IRLowSmoother fo))"
      using \<open>smoothable fo p pts\<close> IRSmootherParam
      by (simp add: IRLowSmoother_SetSampleParam_def ir_after_def IRLowSmoother_Reset_def new_IRLowSmoother_def)
    obtain f1 where f1: "File_UpdateSmoothingData fo tag ?f = Some f1"
      "file_low_pass.holds_smoothed fo w tag (vector_at (fi_smoothingData f) tag) pts f1"
      using file_low_pass.resmoothed [where f = ?f and tag = tag and fo = fo and w = w] s assms(2)
        \<open>smoothable fo p pts\<close> IRSmootherParam by auto
    obtain f2 where "File_updates fo tag bs f1 = Some f2"
      "file_low_pass.holds_smoothed fo w tag (vector_at (fi_smoothingData f) tag) (pts @ concat bs) f2"
      using file_low_pass.updates_smoothed [OF f1(2), of bs] assms(3) IRSmootherParam
      unfolding IRSmootherParam smoothable.simps by blast
    with f1(1) IRSmootherParam show ?thesis
      unfolding up by (auto simp: file_low_pass.holds_smoothed_def)
  next
    case (WindowMedianParam w)
    have s: "median_after fo w pts 0 (WindowMedianSmoother_SetSampleParam w new_WindowMedianSmoother)"
      by (simp add: WindowMedianSmoother_SetSampleParam_def median_after_def WindowMedianSmoother_Reset_def
          new_WindowMedianSmoother_def window_after_0)
    obtain f1 where f1: "File_UpdateSmoothingData fo tag ?f = Some f1"
      "file_median.holds_smoothed fo w tag (vector_at (fi_smoothingData f) tag) pts f1"
      using file_median.resmoothed [where f = ?f and tag = tag and fo = fo and w = w] s assms(2)
        \<open>smoothable fo p pts\<close> WindowMedianParam by auto
    obtain f2 where "File_updates fo tag bs f1 = Some f2"
      "file_median.holds_smoothed fo w tag (vector_at (fi_smoothingData f) tag) (pts @ concat bs) f2"
      using file_median.updates_smoothed [OF f1(2), of bs] assms(3)
      unfolding WindowMedianParam smoothable.simps by blast
    with f1(1) WindowMedianParam show ?thesis
      unfolding up by (auto simp: file_median.holds_smoothed_def)
  next
    case (WindowToxSmoothingParam w t)
    have s: "topx_after fo w (topx_count fo w t) pts 0 (WindowTopXSmoother_SetSampleParam fo w t (new_WindowTopXSmoother fo))"
      using \<open>smoothable fo p pts\<close> WindowToxSmoothingParam
      by (simp add: topx_after_def topx_count_def) (simp add: WindowTopXSmoother_SetSampleParam_def Let_def
          WindowTopXSmoother_Reset_def new_WindowTopXSmoother_def window_after_0)
    obtain f1 where f1: "File_UpdateSmoothingData fo tag ?f = Some f1"
      "file_topx.holds_smoothed fo w (topx_count fo w t) tag (vector_at (fi_smoothingData f) tag) pts f1"
      using file_topx.resmoothed [where f = ?f and tag = tag and fo = fo and w = w] s assms(2)
        \<open>smoothable fo p pts\<close> WindowToxSmoothingParam by auto
    obtain f2 where "File_updates fo tag bs f1 = Some f2"
      "file_topx.holds_smoothed fo w (topx_count fo w t) tag (vector_at (fi_smoothingData f) tag) (pts @ concat bs) f2"
      using file_topx.updates_smoothed [OF f1(2), of bs] assms(3)
      unfolding WindowToxSmoothingParam smoothable.simps by blast
    with f1(1) WindowToxSmoothingParam show ?thesis
      unfolding up by (auto simp: file_topx.holds_smoothed_def)
  qed
qed

end
