(* ===== verification/Scalar_claims.thy ===== *)
theory Scalar_claims
  imports Scalar_series
begin

text \<open>
  What the Scalar server promises of points, files and smoothers: sampling, reading a range,
  incremental smoothing, and where smoothed points are repeated.
\<close>

text \<open>Integers stand for the floating-point numbers in the concrete inputs.\<close>

definition int_ops :: "(int, int) float_ops" where
  "int_ops = \<lparr>f_zero = 0, f_one = 1, f_two = 2, f_lt = (<), f_eq = (=), f_add = (+), f_sub = (-), f_mul = (*),
    f_div = (div), f_pow = (^), f_of_nat = int, f_isnan = (\<lambda>_. False), f_isinf = (\<lambda>_. False),
    d_zero = 0, d_one = 1, d_minus_one = - 1, d_milli = 1, d_eq = (=), d_lt = (<), d_of_nat = int,
    d_mul = (*), d_floor = nat, d_floor_div = (\<lambda>s d. s), d_ceil_div = (\<lambda>s d. s), d_scale_step = (\<lambda>d s. s)\<rparr>"

definition pt :: "64 word \<Rightarrow> int \<Rightarrow> (int, int) ScalarPoint" where
  "pt s v = \<lparr>sp_step = s, sp_value = v, sp_wallTime = 0, sp_localTime = ''''\<rparr>"

subsection \<open>Sampling\<close>

lemma length_multiples: "0 < s \<Longrightarrow> length (multiples s 0 n) \<le> n div s + (if s dvd n then 0 else 1)"
proof (induction n)
  case 0
  then show ?case by (simp add: multiples_def)
next
  case (Suc n)
  have "length (multiples s 0 (Suc n)) = length (multiples s 0 n) + (if s dvd n then 1 else 0)"
    by (simp add: multiples_def)
  with Suc show ?case by (auto simp: div_Suc dvd_eq_mod_eq_0 split: if_splits)
qed

lemma length_gathered: "0 < s \<Longrightarrow> length (gathered s v) \<le> view_size v div s + 2"
  using length_multiples [of s "view_size v"] by (auto simp: gathered_def split: if_splits)

lemma gather_all_views:
  assumes "list_all is_view vs" "0 < s"
  shows "\<exists>vs'. gather_all s vs = Some vs' \<and> map dv_points vs' = map (gathered s) vs
    \<and> list_all (\<lambda>v. dv_type v = DISCRETE) vs'"
  using assms(1)
proof (induction vs)
  case Nil
  then show ?case by simp
next
  case (Cons v vs)
  then show ?case using gather_view [of v s] assms(2) by auto
qed

lemma sum_div_le: "(\<Sum>v\<leftarrow>vs. f v div s) \<le> (\<Sum>v\<leftarrow>vs. f v) div (s::nat)"
proof (induction vs)
  case Nil
  then show ?case by simp
next
  case (Cons v vs)
  have "f v div s + (\<Sum>v\<leftarrow>vs. f v) div s \<le> (f v + (\<Sum>v\<leftarrow>vs. f v)) div s"
    by (subst div_add1_eq [of "f v"]) simp
  with Cons show ?case by simp
qed

lemma foldl_sizes: "foldl (\<lambda>c v. c + (dv_upper v - dv_lower v)) a vs = a + (\<Sum>v\<leftarrow>vs. view_size v)"
  by (induction vs arbitrary: a) (simp_all add: view_size_def)

lemma sample_step_total: "(\<Sum>v\<leftarrow>vs. view_size v) div sample_step vs \<le> 20001"
proof -
  let ?t = "\<Sum>v\<leftarrow>vs. view_size v"
  have s: "sample_step vs = (if ?t div 10001 = 0 then 1 else ?t div 10001)"
    by (simp add: sample_step_def foldl_sizes maxDataCount_def Let_def)
  show ?thesis
  proof (cases "?t div 10001 = 0")
    case True
    then show ?thesis using s by (simp add: div_eq_0_iff)
  next
    case False
    let ?q = "?t div 10001"
    have "?t < 20002 * ?q"
      using False div_mult_mod_eq [of ?t 10001] mod_less_divisor [of 10001 ?t] by linarith
    then have "?t div ?q < 20002" by (simp add: less_mult_imp_div_less)
    with s False show ?thesis by simp
  qed
qed


definition demo_view :: "(int, int) DataView" where
  "demo_view = new_DataView [pt 1 5, pt 2 7, pt 4 6] 0 2 ''f''"


subsection \<open>Reading\<close>

text \<open>
  Reading a tag of a file in the normal mode gives exactly the points received whose step lies between the
  bounds, in their order, however the data came in batches, as long as the steps do not decrease and none is
  the mark for no range.
\<close>

theorem File_GetData_range:
  assumes "steps_sorted (concat bs)" "\<forall>b\<in>set bs. \<forall>p\<in>set b. sp_step p \<noteq> - 1" "l \<le> r"
  shows "\<exists>f vs. File_updates fo tag bs (new_File fo path t) = Some f \<and> File_GetData fo tag l r M_NORMAL f = Some vs
    \<and> view_elements vs = filter (\<lambda>p. l \<le> sp_step p \<and> sp_step p \<le> r) (concat bs)"
proof -
  obtain f where f: "File_updates fo tag bs (new_File fo path t) = Some f"
    using File_updates_plain [of "new_File fo path t" tag fo bs] by auto
  have "tag_holds tag (concat bs) f"
    using File_updates_holds [OF tag_holds_new assms(2) f] by simp
  from GetData_view [OF this assms(1,3)] f show ?thesis by blast
qed

definition demo_batches :: "(int, int) ScalarPoint list list" where
  "demo_batches = [[pt 1 5, pt 2 7], [pt 4 6]]"

lemma demo_batches_facts:
  "steps_sorted (concat demo_batches)" "\<forall>b\<in>set demo_batches. \<forall>p\<in>set b. sp_step p \<noteq> - 1"
  "filter (\<lambda>p. 2 \<le> sp_step p \<and> sp_step p \<le> 9) (concat demo_batches) = [pt 2 7, pt 4 6]"
  "(2 :: 64 word) \<le> 9"
  by code_simp+

lemma File_GetData_range_witness:
  "\<exists>f vs. File_updates int_ops ''loss'' demo_batches (new_File int_ops ''a'' TF_EVENT) = Some f
    \<and> File_GetData int_ops ''loss'' 2 9 M_NORMAL f = Some vs \<and> view_elements vs = [pt 2 7, pt 4 6]"
  using File_GetData_range [OF demo_batches_facts(1,2) demo_batches_facts(4), of int_ops "''loss''" "''a''" TF_EVENT]
  unfolding demo_batches_facts(3) .

subsection \<open>Smoothing\<close>



text \<open>
  C35: setting a different smoothing parameter appends the newly smoothed points to those of the old
  parameter instead of replacing them, so a smoothed line then holds every step twice.  The comparison of two
  top-x smoothers looks at the wrong field, so for them already setting the same parameter again does this.
\<close>

theorem replaced_smoother_appends:
  assumes "vector_at (fi_data f) tag = pts" "smoothable fo p pts"
    "replaces fo tag p f \<or> (p = WindowToxSmoothingParam w t \<and> fi_smoother f tag = Some (WindowTopX s)
       \<and> 0 < w \<and> \<not> d_eq fo t (d_of_nat fo w))"
  shows "\<exists>f'. File_UpdateSmoothingParam fo tag (Some p) f = Some f'
      \<and> vector_at (fi_smoothingData f') tag
        = vector_at (fi_smoothingData f) tag @ map (smoothing_ref fo p pts) [0..<length pts]"
proof -
  have r: "replaces fo tag p f"
    using assms(3) by (auto simp: replaces_def WindowTopXSmoother_Equal_def WindowTopXSmoother_SetSampleParam_def
        Let_def new_WindowTopXSmoother_def)
  have "\<forall>b. prefix b [] \<longrightarrow> smoothable fo p (pts @ concat b)" using assms(2) by simp
  from smoothed_history [OF r assms(1) this] show ?thesis by auto
qed

definition topx_demo_file :: "(int, int) File" where
  "topx_demo_file = (new_File int_ops ''a'' TF_EVENT)\<lparr>
     fi_data := [''loss'' \<mapsto> [pt 1 5, pt 2 3]], fi_smoothingData := [''loss'' \<mapsto> [pt 1 5, pt 2 3]],
     fi_smoother := [''loss'' \<mapsto> WindowTopX (WindowTopXSmoother_SetSampleParam int_ops 2 1 (new_WindowTopXSmoother int_ops))]\<rparr>"

lemma replaced_smoother_appends_witness:
  "\<exists>f'. File_UpdateSmoothingParam int_ops ''loss'' (Some (WindowToxSmoothingParam 2 1)) topx_demo_file = Some f'
    \<and> vector_at (fi_smoothingData f') ''loss'' = [pt 1 5, pt 2 3, pt 1 5, pt 2 4]"
proof -
  have ord: "ordered_values int_ops V" for V by (auto simp: ordered_values_def int_ops_def)
  have c: "topx_count int_ops 2 1 = 2" by code_simp
  have h: "vector_at (fi_data topx_demo_file) ''loss'' = [pt 1 5, pt 2 3]"
    "vector_at (fi_smoothingData topx_demo_file) ''loss'' = [pt 1 5, pt 2 3]"
    "fi_smoother topx_demo_file ''loss''
      = Some (WindowTopX (WindowTopXSmoother_SetSampleParam int_ops 2 1 (new_WindowTopXSmoother int_ops)))"
    by (simp_all add: topx_demo_file_def vector_at_def)
  have s: "smoothable int_ops (WindowToxSmoothingParam 2 1) [pt 1 5, pt 2 3]"
    by (simp add: plain_data_def ord c)
  have n: "\<not> d_eq int_ops 1 (d_of_nat int_ops 2)" by (simp add: int_ops_def)
  have r: "map (smoothing_ref int_ops (WindowToxSmoothingParam 2 1) [pt 1 5, pt 2 3]) [0..<length [pt 1 5, pt 2 3]]
      = [pt 1 5, pt 2 4]" by code_simp
  have "[pt 1 5, pt 2 3] @ [pt 1 5, pt 2 4] = [pt 1 5, pt 2 3, pt 1 5, pt 2 4]" by simp
  with replaced_smoother_appends [OF h(1) s disjI2, OF conjI, OF refl conjI, OF h(3) conjI, OF _ n]
  show ?thesis unfolding h(2) r by simp
qed

text \<open>
  The low-pass filter counts only the points it changes. Data whose values are all the same is copied
  unchanged and not counted, so each sampling of the same points appends all of them once more.
\<close>

theorem constant_data_repeated:
  assumes "orig \<noteq> []" "\<forall>p\<in>set orig. f_eq fo (sp_value p) (sp_value (orig ! 0))" "ir_numAccum s = 0"
    "\<not> f_eq fo (ir_weight s) (f_zero fo)"
  shows "((\<lambda>(s, dst). IRLowSmoother_Sample fo s orig dst) ^^ k) (s, dst) = (s, dst @ concat (replicate k orig))"
proof -
  have raw: "ir_points fo True s ps = (s, ps)" for ps
    by (induction ps) (simp_all add: ir_point_def)
  have once: "IRLowSmoother_Sample fo s orig d = (s, d @ orig)" for d
    using assms by (simp add: IRLowSmoother_Sample_def list_all_iff raw)
  show ?thesis
  proof (induction k)
    case 0
    then show ?case by simp
  next
    case (Suc k)
    have "concat (replicate k orig) @ orig = concat (replicate k orig @ [orig])" by simp
    also have "replicate k orig @ [orig] = replicate (Suc k) orig" by (simp add: replicate_append_same)
    finally show ?case using Suc by (simp add: once)
  qed
qed

lemma constant_data_repeated_witness:
  "((\<lambda>(s, dst). IRLowSmoother_Sample int_ops s [pt 1 5, pt 2 5] dst) ^^ 2)
      (\<lparr>ir_weight = 3, ir_last = 0, ir_numAccum = 0\<rparr>, []) = (\<lparr>ir_weight = 3, ir_last = 0, ir_numAccum = 0\<rparr>,
      [pt 1 5, pt 2 5, pt 1 5, pt 2 5])"
  using constant_data_repeated [of "[pt 1 5, pt 2 5]" int_ops "\<lparr>ir_weight = 3, ir_last = 0, ir_numAccum = 0\<rparr>" 2 "[]"]
  by (simp add: int_ops_def pt_def numeral_2_eq_2)

end
