(* ===== verification/Scalar_parsing.thy ===== *)
theory Scalar_parsing
  imports Scalar_records Scalar_claims "HOL-Library.Code_Target_Nat"
begin

text \<open>
  Claims about parsing data files, the events of watched files, virtual files and the file watcher.
\<close>

subsection \<open>Event files\<close>

text \<open>The frames of an event file whose records all parse, and the entries they deliver.\<close>

definition event_type :: "ParseDataType \<Rightarrow> bool" where
  "event_type t \<longleftrightarrow> t = TF_EVENT \<or> t = MINDSPORE_SUMMARY"

definition frame_points :: "('f, 'd) parse_env \<Rightarrow> ParseDataType \<Rightarrow> frame \<Rightarrow> ('f, 'd) record_points" where
  "frame_points e t r = (case event_result (pe_text e) (pe_event e t (fr_data r)) of Points res \<Rightarrow> res | _ \<Rightarrow> [])"

definition frame_ok :: "('f, 'd) parse_env \<Rightarrow> ParseDataType \<Rightarrow> frame \<Rightarrow> bool" where
  "frame_ok e t r \<longleftrightarrow> fine_frame (pe_alloc_ok e) r \<and> pe_event e t (fr_data r) \<noteq> None"

definition frames_entries ::
  "('f, 'd) parse_env \<Rightarrow> ParseDataType \<Rightarrow> frame list \<Rightarrow> (string \<times> ('f, 'd) ScalarPoint list) list" where
  "frames_entries e t rs = concat (map (\<lambda>r. record_entries (frame_points e t r)) rs)"

lemma enc_frame_length: "fine_frame alloc_ok r \<Longrightarrow> 16 \<le> length (enc_frame r)"
  by (simp add: enc_frame_def fine_frame_def)

lemma frames_length: "\<forall>r\<in>set rs. fine_frame alloc_ok r \<Longrightarrow> length rs \<le> length (concat (map enc_frame rs))"
proof (induction rs)
  case (Cons r rs)
  then show ?case using enc_frame_length [of alloc_ok r] by simp
qed simp

lemma ParserData_frames:
  assumes "event_type t" "CreateFileParse e t = Some pr" "path \<noteq> []"
    "pe_file e path = Some (pre @ concat (map enc_frame rs) @ tail)" "\<forall>r\<in>set rs. frame_ok e t r"
    "incomplete (pe_alloc_ok e) tail" "IsFileImported path sv" "length pre < 2 ^ 63"
  shows "ParserData e t pr path (of_nat (length pre)) sv
    = map_option (\<lambda>sv'. (sv', of_nat (length pre + length (concat (map enc_frame rs))),
          \<forall>r\<in>set rs. frame_points e t r = []))
        (deliver_all (pe_ops e) path (frames_entries e t rs) sv)"
proof -
  have pr: "pr_read pr = ReadRecord (pe_alloc_ok e)"
    "pr_parse pr r = event_result (pe_text e) (pe_event e t r)" for r
    using assms(1,2) by (auto simp: event_type_def CreateFileParse_def)
  have off: "unat (of_nat (length pre) :: 64 word) = length pre" "\<not> sint (of_nat (length pre) :: 64 word) < 0"
  proof -
    show "unat (of_nat (length pre) :: 64 word) = length pre"
      using assms(8) by (simp add: unat_of_nat take_bit_nat_eq_self)
    have "sint (of_nat (length pre) :: 64 word) = int (length pre)"
      using assms(8) by (simp add: signed_of_nat signed_take_bit_int_eq_self)
    then show "\<not> sint (of_nat (length pre) :: 64 word) < 0" by simp
  qed
  let ?c = "pre @ concat (map enc_frame rs) @ tail"
  let ?s = "ifstream_seekg (of_nat (length pre)) (ifstream_open ?c)"
  have s: "is_content ?s = ?c" "is_pos ?s = length pre" "\<not> is_fail ?s" "\<not> is_eof ?s"
    using off by (simp_all add: ifstream_seekg_def ifstream_open_def)
  have ok: "\<forall>r\<in>set rs. fine_frame (pe_alloc_ok e) r \<and> pr_parse pr (fr_data r) = Points (frame_points e t r)"
    using assms(5) by (auto simp: frame_ok_def pr frame_points_def event_result_def split: option.split)
  then have len: "length rs < length ?c + 2" using frames_length [of rs "pe_alloc_ok e"] by simp
  have "BeforeParse e t path sv = Some sv" using assms(1) by (auto simp: event_type_def BeforeParse_def)
  then show ?thesis
    using assms(3,4) frames.parse_loop_records [OF s ok assms(6) pr(1) assms(7) len refl, of "pe_ops e" True new_parser_state]
    by (simp add: ParserData_def new_parser_state_def frames_entries_def)
qed

text \<open>
  C25: parsing an event file from an offset delivers the points of all complete records after it, in order,
  whatever the limits of the cache, and moves the offset past the last complete record. Parsing what the file has
  grown by gives the same as parsing all of it at once: the server of one parse is that of the two.
\<close>

theorem ParserData_incremental:
  assumes "event_type t" "CreateFileParse e t = Some pr" "path \<noteq> []" "length (pre @ concat (map enc_frame rs)) < 2 ^ 63"
    "pe_file e path = Some (pre @ concat (map enc_frame rs) @ tail)" "incomplete (pe_alloc_ok e) tail"
    "fs path = Some (pre @ concat (map enc_frame (rs @ rs')) @ tail')" "incomplete (pe_alloc_ok e) tail'"
    "\<forall>r\<in>set (rs @ rs'). frame_ok e t r" "IsFileImported path sv"
  shows "(case ParserData e t pr path (of_nat (length pre)) sv of
       None \<Rightarrow> deliver_all (pe_ops e) path (frames_entries e t rs) sv = None
     | Some (sv1, off1, flag1) \<Rightarrow>
         deliver_all (pe_ops e) path (frames_entries e t rs) sv = Some sv1
         \<and> off1 = of_nat (length pre + length (concat (map enc_frame rs)))
         \<and> map_option (\<lambda>(sv2, off2, flag2). (sv2, off2, flag1 \<and> flag2))
               (ParserData (e\<lparr>pe_file := fs\<rparr>) t pr path off1 sv1)
             = ParserData (e\<lparr>pe_file := fs\<rparr>) t pr path (of_nat (length pre)) sv)"
proof -
  let ?e = "e\<lparr>pe_file := fs\<rparr>"
  let ?pre = "pre @ concat (map enc_frame rs)"
  have same: "frame_points ?e t = frame_points e t" "frame_ok ?e t = frame_ok e t"
    "CreateFileParse ?e t = CreateFileParse e t"
    by (simp_all add: frame_points_def frame_ok_def CreateFileParse_def fun_eq_iff split: ParseDataType.split)
  then have ent: "frames_entries ?e t = frames_entries e t" by (simp add: frames_entries_def fun_eq_iff)
  have all: "frames_entries e t (rs @ rs') = frames_entries e t rs @ frames_entries e t rs'"
    by (simp add: frames_entries_def)
  have one: "ParserData e t pr path (of_nat (length pre)) sv
      = map_option (\<lambda>sv'. (sv', of_nat (length ?pre), \<forall>r\<in>set rs. frame_points e t r = []))
          (deliver_all (pe_ops e) path (frames_entries e t rs) sv)"
    using ParserData_frames [OF assms(1-3,5) _ assms(6,10)] assms(4,9) by simp
  have both: "ParserData ?e t pr path (of_nat (length pre)) sv
      = map_option (\<lambda>sv'. (sv', of_nat (length pre + length (concat (map enc_frame (rs @ rs')))),
            \<forall>r\<in>set (rs @ rs'). frame_points e t r = []))
          (deliver_all (pe_ops e) path (frames_entries e t (rs @ rs')) sv)"
    using ParserData_frames [OF assms(1) _ assms(3) _ _ _ assms(10), where e = ?e and rs = "rs @ rs'" and tail = tail']
      assms(2,4,7,8,9) by (simp add: same ent)
  show ?thesis
  proof (cases "deliver_all (pe_ops e) path (frames_entries e t rs) sv")
    case None
    then show ?thesis by (simp add: one)
  next
    case (Some sv1)
    have "IsFileImported path sv1" using deliver_all_imported [OF Some] assms(10) by blast
    then have two: "ParserData ?e t pr path (of_nat (length ?pre)) sv1
      = map_option (\<lambda>sv'. (sv', of_nat (length ?pre + length (concat (map enc_frame rs'))),
            \<forall>r\<in>set rs'. frame_points e t r = []))
          (deliver_all (pe_ops e) path (frames_entries e t rs') sv1)"
      using ParserData_frames [OF assms(1) _ assms(3), where e = ?e and pre = ?pre and rs = rs' and tail = tail']
        assms(2,4,7,8,9) by (simp add: same ent)
    have "deliver_all (pe_ops e) path (frames_entries e t (rs @ rs')) sv
        = deliver_all (pe_ops e) path (frames_entries e t rs') sv1"
      by (simp add: all deliver_all_append Some)
    then show ?thesis
      unfolding one both Some option.map option.case prod.case two
      by (auto simp: option.map_comp comp_def add.assoc intro!: option.map_cong)
  qed
qed

definition demo_frame :: "string \<Rightarrow> frame" where
  "demo_frame r = \<lparr>fr_crc1 = ''1234'', fr_data = r, fr_crc2 = ''5678''\<rparr>"

definition demo_text :: "(int, int) text_ops" where
  "demo_text = \<lparr>t_stof = (\<lambda>s. Some (int (digits_value s))), t_stod = (\<lambda>s. Some (int (digits_value s))),
     t_wall_of_local = (\<lambda>s. int (length s)), t_local_of_wall = (\<lambda>d. [])\<rparr>"

definition demo_env :: "string \<Rightarrow> (int, int) parse_env" where
  "demo_env c = \<lparr>pe_ops = int_ops, pe_text = demo_text,
     pe_event = (\<lambda>t r. Some \<lparr>ev_has_summary = True, ev_step = of_nat (length r), ev_wall_time = 0,
        ev_values = [(r, Some 7)]\<rparr>),
     pe_alloc_ok = (\<lambda>n. n < 100), pe_file = [''a'' \<mapsto> c]\<rparr>"

definition demo_server :: "(int, int) Server" where
  "demo_server = FileInfoManager_AddFile int_ops ''a'' TF_EVENT new_Server"

definition demo_c1 :: string where
  "demo_c1 = [] @ concat (map enc_frame [demo_frame ''lr'']) @ []"

definition demo_c2 :: string where
  "demo_c2 = [] @ concat (map enc_frame ([demo_frame ''lr''] @ [demo_frame ''loss''])) @ []"

lemma ParserData_incremental_witness:
  "\<exists>pr. CreateFileParse (demo_env demo_c1) TF_EVENT = Some pr \<and>
    (case ParserData (demo_env demo_c1) TF_EVENT pr ''a'' (of_nat (length ([]::string))) demo_server of
       None \<Rightarrow> deliver_all (pe_ops (demo_env demo_c1)) ''a'' (frames_entries (demo_env demo_c1) TF_EVENT [demo_frame ''lr'']) demo_server = None
     | Some (sv1, off1, flag1) \<Rightarrow>
         deliver_all (pe_ops (demo_env demo_c1)) ''a'' (frames_entries (demo_env demo_c1) TF_EVENT [demo_frame ''lr'']) demo_server = Some sv1
         \<and> off1 = of_nat (length ([]::string) + length (concat (map enc_frame [demo_frame ''lr''])))
         \<and> map_option (\<lambda>(sv2, off2, flag2). (sv2, off2, flag1 \<and> flag2))
               (ParserData ((demo_env demo_c1)\<lparr>pe_file := [''a'' \<mapsto> demo_c2]\<rparr>) TF_EVENT pr ''a'' off1 sv1)
             = ParserData ((demo_env demo_c1)\<lparr>pe_file := [''a'' \<mapsto> demo_c2]\<rparr>) TF_EVENT pr ''a''
                 (of_nat (length ([]::string))) demo_server)"
proof -
  obtain pr where pr: "CreateFileParse (demo_env demo_c1) TF_EVENT = Some pr"
    by (simp add: CreateFileParse_def)
  have l: "length (([]::string) @ concat (map enc_frame [demo_frame ''lr''])) < 2 ^ 63"
    by (simp add: enc_frame_def demo_frame_def)
  have f: "pe_file (demo_env demo_c1) ''a'' = Some ([] @ concat (map enc_frame [demo_frame ''lr'']) @ [])"
    "[''a'' \<mapsto> demo_c2] ''a'' = Some ([] @ concat (map enc_frame ([demo_frame ''lr''] @ [demo_frame ''loss''])) @ [])"
    by (simp_all only: demo_env_def parse_env.simps demo_c1_def demo_c2_def fun_upd_same)
  have i: "incomplete (pe_alloc_ok (demo_env demo_c1)) []"
    by (simp add: incomplete_def demo_env_def)
  have ok: "\<forall>r\<in>set ([demo_frame ''lr''] @ [demo_frame ''loss'']). frame_ok (demo_env demo_c1) TF_EVENT r"
    by (simp add: frame_ok_def fine_frame_def demo_frame_def demo_env_def)
  have t: "event_type TF_EVENT" by (simp add: event_type_def)
  have m: "IsFileImported ''a'' demo_server"
    by (simp add: IsFileImported_def demo_server_def FileInfoManager_AddFile_def put_file_def GetFileInfo_def
        new_Server_def new_File_def)
  have n: "''a'' \<noteq> []" by simp
  show ?thesis
    by (rule exI [of _ pr], rule conjI [OF pr],
        rule ParserData_incremental [where fs = "[''a'' \<mapsto> demo_c2]", OF t pr n l f(1) i f(2) i ok m])
qed

subsection \<open>Files that are not imported\<close>

lemma flush_not_imported:
  "\<not> IsFileImported path sv \<Longrightarrow> flush_cache fo path es sv = Some (sv, es, es = [])"
  by (cases es) simp_all

lemma UpdateData_not_imported:
  assumes "\<not> IsFileImported path sv"
  shows "\<exists>ps' ok. FileParser_UpdateData fo path tag pts force ps sv = Some (ps', sv, ok)"
  using assms by (auto simp: FileParser_UpdateData_def Let_def UpdateDataToGraph_def flush_not_imported)

lemma update_record_not_imported:
  assumes "\<not> IsFileImported path sv"
  shows "\<exists>ps' ok. update_record fo path res ps sv = Some (ps', sv, ok)"
proof (induction res arbitrary: ps)
  case (Cons e res)
  obtain tag pts where e: "e = (tag, pts)" by (cases e)
  obtain ps' ok where "FileParser_UpdateData fo path tag pts False ps sv = Some (ps', sv, ok)"
    using UpdateData_not_imported [OF assms] by blast
  with Cons [of ps'] show ?case by (auto simp: e)
qed auto

lemma parse_loop_not_imported:
  assumes "\<not> IsFileImported path sv" "parse_loop n fo pr path s off flag ps sv = Some (sv', off', flag')"
  shows "sv' = sv"
  using assms(2)
proof (induction n arbitrary: s off flag ps)
  case (Suc n)
  obtain ps1 ok1 where fin: "FileParser_UpdateData fo path [] [] True ps sv = Some (ps1, sv, ok1)"
    using UpdateData_not_imported [OF assms(1)] by blast
  show ?case
  proof (cases "is_fail s")
    case True
    with Suc.prems fin show ?thesis by simp
  next
    case False
    show ?thesis
    proof (cases "pr_read pr s")
      case (Got r s')
      show ?thesis
      proof (cases "pr_parse pr r")
        case (Points res)
        obtain ps2 ok2 where "update_record fo path res ps sv = Some (ps2, sv, ok2)"
          using update_record_not_imported [OF assms(1)] by blast
        with Suc False Got Points show ?thesis by (auto simp: Let_def split: if_splits)
      qed (use Suc.prems False Got fin in simp_all)
    qed (use Suc.prems False fin in simp_all)
  qed
qed simp

text \<open>The parts of the server parsing a file that is not imported leaves alone.\<close>

definition same_data :: "string \<Rightarrow> ('f, 'd) Server \<Rightarrow> ('f, 'd) Server \<Rightarrow> bool" where
  "same_data path sv sv' \<longleftrightarrow> sv_graphs sv' = sv_graphs sv \<and> sv_incremental sv' = sv_incremental sv
     \<and> map_option fi_data (GetFileInfo path sv') = map_option fi_data (GetFileInfo path sv)
     \<and> map_option fi_imported (GetFileInfo path sv') = map_option fi_imported (GetFileInfo path sv)"

lemma GetFileInfo_filePaths: "GetFileInfo p sv = Some f \<Longrightarrow> p \<in> sv_filePaths sv"
  by (simp add: GetFileInfo_def split: if_splits)

lemma run_task_not_imported:
  assumes "\<not> IsFileImported path sv" "run_task e project path sv = Some sv'"
  shows "same_data path sv sv'"
proof (cases "GetFileInfo path sv")
  case None
  with assms(2) show ?thesis by (simp add: run_task_def same_data_def)
next
  case (Some f)
  show ?thesis
  proof (cases "CreateFileParse e (fi_dataType f)")
    case None
    with Some assms(2) show ?thesis by (simp add: run_task_def same_data_def)
  next
    case pr: (Some pr)
    then obtain sv1 off flag where p: "ParserData e (fi_dataType f) pr path (fi_offSet f) sv = Some (sv1, off, flag)"
      using assms(2) Some by (auto simp: run_task_def split: option.splits)
    have "sv1 = sv \<or> (\<exists>d. sv1 = put_file path (f\<lparr>fi_globalBatchSize := d\<rparr>) sv)"
    proof (cases "if path = [] then None else pe_file e path")
      case None
      with p show ?thesis by (auto simp: ParserData_def split: if_splits)
    next
      case c: (Some c)
      then obtain sv0 where b: "BeforeParse e (fi_dataType f) path sv = Some sv0"
        "parse_loop (length c + 2) (pe_ops e) pr path (ifstream_seekg (fi_offSet f) (ifstream_open c)) (fi_offSet f)
           True new_parser_state sv0 = Some (sv1, off, flag)"
        using p by (auto simp: ParserData_def split: option.splits)
      then have s0: "sv0 = sv \<or> (\<exists>d. sv0 = put_file path (f\<lparr>fi_globalBatchSize := d\<rparr>) sv)"
        using Some by (auto simp: BeforeParse_def split: if_splits option.splits)
      then have "\<not> IsFileImported path sv0"
        using assms(1) Some by (auto simp: IsFileImported_def GetFileInfo_put_file split: option.splits if_splits)
      from parse_loop_not_imported [OF this b(2)] s0 show ?thesis by simp
    qed
    then have "\<exists>g. GetFileInfo path sv1 = Some g \<and> fi_data g = fi_data f \<and> fi_imported g = fi_imported f
      \<and> sv_graphs sv1 = sv_graphs sv \<and> sv_incremental sv1 = sv_incremental sv"
    proof (elim disjE exE)
      fix d assume "sv1 = put_file path (f\<lparr>fi_globalBatchSize := d\<rparr>) sv"
      then show ?thesis
        using GetFileInfo_filePaths [OF Some]
        by (intro exI [of _ "f\<lparr>fi_globalBatchSize := d\<rparr>"]) (simp add: GetFileInfo_put_file, simp add: put_file_def)
    qed (use Some in simp)
    then obtain g where g: "GetFileInfo path sv1 = Some g" "fi_data g = fi_data f" "fi_imported g = fi_imported f"
      "sv_graphs sv1 = sv_graphs sv" "sv_incremental sv1 = sv_incremental sv" by blast
    have "sv' = set_offset path off sv1 \<or> (\<exists>m. sv' = (set_offset path off sv1)\<lparr>sv_parseState := m\<rparr>)"
      using assms(2) Some pr p by (auto simp: run_task_def Let_def split: option.splits)
    moreover have "GetFileInfo path (set_offset path off sv1) = Some (g\<lparr>fi_offSet := off\<rparr>)"
      "sv_graphs (set_offset path off sv1) = sv_graphs sv" "sv_incremental (set_offset path off sv1) = sv_incremental sv"
      using g GetFileInfo_filePaths [OF g(1)] by (simp_all add: set_offset_def GetFileInfo_put_file) (simp_all add: put_file_def)
    moreover have "GetFileInfo path (sv\<lparr>sv_parseState := m\<rparr>) = GetFileInfo path sv" for m and sv :: "('a, 'b) Server"
      by (simp add: GetFileInfo_def)
    ultimately show ?thesis using Some g(2,3) by (auto simp: same_data_def)
  qed
qed

text \<open>\<open>AddParseTask\<close> leaves files it knows as they are.\<close>

lemma AddFile_keeps: "GetFileInfo p sv = Some f \<Longrightarrow> GetFileInfo p (AddFile fo q sv) = Some f"
  by (auto simp: AddFile_def FileInfoManager_AddFile_def GetFileInfo_def put_file_def split: if_splits)

lemma AddFile_parts [simp]: "sv_graphs (AddFile fo q sv) = sv_graphs sv" "sv_incremental (AddFile fo q sv) = sv_incremental sv"
  by (simp_all add: AddFile_def FileInfoManager_AddFile_def put_file_def)

lemma AddParseTask_keeps:
  assumes "GetFileInfo p sv = Some f"
  shows "GetFileInfo p (fst (AddParseTask e sz project files sv)) = Some f
    \<and> sv_graphs (fst (AddParseTask e sz project files sv)) = sv_graphs sv
    \<and> sv_incremental (fst (AddParseTask e sz project files sv)) = sv_incremental sv"
proof -
  let ?step = "\<lambda>path (sv, infos). if IsFileImported path sv then (sv, infos) else (AddFile (pe_ops e) path sv, infos @ [path])"
  have "GetFileInfo p (fst (fold ?step files (sv, infos))) = Some f
      \<and> sv_graphs (fst (fold ?step files (sv, infos))) = sv_graphs sv
      \<and> sv_incremental (fst (fold ?step files (sv, infos))) = sv_incremental sv" for infos
    using assms
  proof (induction files arbitrary: sv infos)
    case (Cons q files)
    then show ?case using AddFile_keeps [OF Cons.prems] by simp
  qed simp
  moreover have "GetFileInfo p (sv\<lparr>sv_parseState := m\<rparr>) = GetFileInfo p sv" for m and sv :: "('a, 'b) Server"
    by (simp add: GetFileInfo_def)
  ultimately show ?thesis by (simp add: AddParseTask_def split_beta Let_def)
qed

text \<open>Every path the server knows has a file.\<close>

definition files_known :: "('f, 'd) Server \<Rightarrow> bool" where
  "files_known sv \<longleftrightarrow> sv_filePaths sv = dom (sv_fileInfoMap sv)"

lemma AddFile_known: "files_known sv \<Longrightarrow> GetFileInfo p (AddFile fo p sv) \<noteq> None"
  by (auto simp: files_known_def AddFile_def FileInfoManager_AddFile_def GetFileInfo_def put_file_def)


definition late_env :: "(int, int) parse_env" where
  "late_env = (demo_env demo_c1)\<lparr>pe_file := [''d'' @ [slash] @ ''out.tfevents'' \<mapsto> demo_c1]\<rparr>"

definition late_server :: "(int, int) Server" where
  "late_server = fst (AddParseTask late_env (\<lambda>_. Some 1) ''0'' [''d'' @ [slash] @ ''out.tfevents'']
     (OnFileCreated late_env ''d'' ''out.tfevents'' new_Server))"

lemma late_task: "case run_task late_env ''0'' (''d'' @ [slash] @ ''out.tfevents'') late_server of None \<Rightarrow> False | Some _ \<Rightarrow> True"
  by code_simp


subsection \<open>The file watcher\<close>

lemma read_events_fit:
  assumes "sum_list (map event_size evs) \<le> room" "\<forall>ev. rest \<noteq> [] \<and> ev = hd rest \<longrightarrow> room < sum_list (map event_size evs) + event_size ev"
  shows "read_events room (evs @ rest) = (evs, rest)"
  using assms
proof (induction evs arbitrary: room)
  case Nil
  then show ?case by (cases rest) auto
next
  case (Cons ev evs)
  have "read_events (room - event_size ev) (evs @ rest) = (evs, rest)"
    using Cons.prems by (intro Cons.IH) auto
  with Cons.prems show ?case by simp
qed



lemma watch_one_dirs:
  "fw_dirFd (watch_one env f w) d \<noteq> None \<Longrightarrow> fw_dirFd w d \<noteq> None \<or> d = path_parent f"
  by (auto simp: watch_one_def FileWatcher_IsFileWatched_def FileWatcher_IsDirWatched_def Let_def map_emplace_def
      split: if_splits)

lemma AddWatchPath_dirs:
  "fw_dirFd (FileWatcher_AddWatchPath env files w) d \<noteq> None \<Longrightarrow> fw_dirFd w d \<noteq> None \<or> d \<in> path_parent ` set files"
proof (induction files arbitrary: w)
  case (Cons f files)
  from Cons.prems have "fw_dirFd (FileWatcher_AddWatchPath env files (watch_one env f w)) d \<noteq> None"
    by (simp add: FileWatcher_AddWatchPath_def)
  from Cons.IH [OF this] watch_one_dirs [of env f w d] show ?case by auto
qed (simp add: FileWatcher_AddWatchPath_def)

text \<open>
  \<open>DelWatchPath\<close> looks files up under the root directory of their paths, so it never removes a watch that
  \<open>AddWatchPath\<close> made on another directory: the tables and the kernel stay as they are.
\<close>

theorem DelWatchPath_removes_nothing:
  assumes "\<forall>f\<in>set files. path_parent f \<noteq> [] \<and> path_parent f \<noteq> [slash]"
  shows "FileWatcher_DelWatchPath env files' (FileWatcher_AddWatchPath env files new_Watcher)
    = FileWatcher_AddWatchPath env files new_Watcher"
proof -
  let ?w = "FileWatcher_AddWatchPath env files new_Watcher"
  have "fw_dirFd ?w (path_root f) = None" for f
  proof (rule ccontr)
    assume "fw_dirFd ?w (path_root f) \<noteq> None"
    from AddWatchPath_dirs [OF this] have "path_root f \<in> path_parent ` set files" by (simp add: new_Watcher_def)
    moreover have "path_root f = [] \<or> path_root f = [slash]" by (simp add: path_root_def)
    ultimately show False using assms by force
  qed
  then have "unwatch_one env f ?w = ?w" for f
    by (simp add: unwatch_one_def FileWatcher_IsFileWatched_def FileWatcher_IsDirWatched_def)
  then show ?thesis
    unfolding FileWatcher_DelWatchPath_def by (induction files') simp_all
qed

lemma DelWatchPath_removes_nothing_witness:
  "let env = \<lparr>env_add = (\<lambda>calls d. 1), env_rm = (\<lambda>calls fd. 0)\<rparr>; f = slash # ''d'' @ slash # ''a'';
     w = FileWatcher_AddWatchPath env [f] new_Watcher
   in FileWatcher_DelWatchPath env [f] w = w"
  using DelWatchPath_removes_nothing [of "[slash # ''d'' @ slash # ''a'']" "\<lparr>env_add = (\<lambda>calls d. 1), env_rm = (\<lambda>calls fd. 0)\<rparr>"]
  by (simp add: Let_def path_parent_def slash_def)

end
