(* ===== verification/Scalar_drawn.thy ===== *)
theory Scalar_drawn
  imports Scalar_line Scalar_parsing
begin

text \<open>
  Claims about the lines a request gets: which file wins where files overlap, what a plain request shows, and
  that merging files and taking the merge apart again restores the server.
\<close>

subsection \<open>Overlapping files\<close>

definition overlay :: "('f, 'd) ScalarPoint list \<Rightarrow> ('f, 'd) ScalarPoint list \<Rightarrow> ('f, 'd) ScalarPoint list" where
  "overlay xs acc = (if xs = [] then acc else filter (\<lambda>p. sp_step p < sp_step (hd xs)) acc @ xs)"

lemma overlay_sorted: "\<lbrakk>steps_sorted acc; steps_sorted xs\<rbrakk> \<Longrightarrow> steps_sorted (overlay xs acc)"
proof (cases "xs = []")
  case False
  assume a: "steps_sorted acc" "steps_sorted xs"
  have "sp_step p \<le> sp_step q" if "sp_step p < sp_step (hd xs)" "q \<in> set xs" for p q
    using steps_between [OF a(2) that(2)] that(1) by (meson less_imp_le less_le_trans)
  with a False show ?thesis
    by (auto simp: overlay_def sorted_append sorted_filter)
qed (simp add: overlay_def)

lemma AddLineData_overlay:
  assumes "\<not> gl_view line" "steps_sorted (gl_srcData line)"
  shows "GraphLine_AddLineData xs line = line\<lparr>gl_srcData := overlay xs (gl_srcData line)\<rparr>"
proof (cases "xs = []")
  case False
  have "take (lower_bound (gl_srcData line) (sp_step (hd xs))) (gl_srcData line)
      = filter (\<lambda>p. sp_step p < sp_step (hd xs)) (gl_srcData line)"
    using split_steps [OF assms(2)] by (metis lower_bound_sorted [OF assms(2)] takeWhile_eq_take)
  with False assms(1) show ?thesis by (simp add: GraphLine_AddLineData_def overlay_def)
qed (simp add: GraphLine_AddLineData_def overlay_def)

lemma AddLineData_fold:
  assumes "\<not> gl_view line" "steps_sorted (gl_srcData line)" "\<forall>v\<in>set vs. steps_sorted (DataView_GetElements v)"
  shows "fold (\<lambda>v. GraphLine_AddLineData (DataView_GetElements v)) vs line
      = line\<lparr>gl_srcData := fold overlay (map DataView_GetElements vs) (gl_srcData line)\<rparr>"
  using assms
proof (induction vs arbitrary: line)
  case (Cons v vs)
  then have "steps_sorted (overlay (DataView_GetElements v) (gl_srcData line))" by (intro overlay_sorted) simp_all
  with Cons show ?case by (simp add: AddLineData_overlay)
qed simp

text \<open>What remains of the \<open>i\<close>-th file: its points before the start of every later file.\<close>

definition uncovered :: "('f, 'd) ScalarPoint list list \<Rightarrow> nat \<Rightarrow> ('f, 'd) ScalarPoint list" where
  "uncovered es i = filter (\<lambda>p. \<forall>j\<in>{i<..<length es}. es ! j \<noteq> [] \<longrightarrow> sp_step p < sp_step (hd (es ! j))) (es ! i)"

lemma uncovered_snoc:
  assumes "i < length es"
  shows "uncovered (es @ [xs]) i = (if xs = [] then uncovered es i
    else filter (\<lambda>p. sp_step p < sp_step (hd xs)) (uncovered es i))"
proof -
  have "(\<forall>j\<in>{i<..<length (es @ [xs])}. (es @ [xs]) ! j \<noteq> [] \<longrightarrow> sp_step p < sp_step (hd ((es @ [xs]) ! j)))
      \<longleftrightarrow> (\<forall>j\<in>{i<..<length es}. es ! j \<noteq> [] \<longrightarrow> sp_step p < sp_step (hd (es ! j)))
          \<and> (xs \<noteq> [] \<longrightarrow> sp_step p < sp_step (hd xs))" for p :: "('a, 'b) ScalarPoint"
  proof -
    have "{i<..<length (es @ [xs])} = insert (length es) {i<..<length es}" using assms by auto
    then show ?thesis by (auto simp: nth_append)
  qed
  then show ?thesis using assms by (auto simp: uncovered_def nth_append conj_commute intro!: filter_cong)
qed

lemma fold_overlay:
  "fold overlay es [] = concat (map (uncovered es) [0..<length es])"
proof (induction es rule: rev_induct)
  case (snoc xs es)
  have last: "uncovered (es @ [xs]) (length es) = xs"
  proof -
    have "{length es<..<length (es @ [xs])} = {}" by auto
    then show ?thesis by (simp add: uncovered_def)
  qed
  have "map (uncovered (es @ [xs])) [0..<length es] = (if xs = [] then map (uncovered es) [0..<length es]
      else map (filter (\<lambda>p. sp_step p < sp_step (hd xs)) \<circ> uncovered es) [0..<length es])"
    by (simp add: uncovered_snoc)
  with snoc last show ?case
    by (simp add: overlay_def filter_concat)
qed simp

text \<open>
  C27: a line drawn from several files shows, of each file, the points whose step lies before the first step of every
  later file that has points: the later file wins, and the line is sorted by step.
\<close>

theorem GetLineData_latest_wins:
  assumes "gl_view line" "gl_srcData line = []" "\<forall>v\<in>set (gl_dataView line). steps_sorted (DataView_GetElements v)"
  shows "snd (GraphLine_GetLineData line)
      = concat (map (\<lambda>i. filter (\<lambda>p. \<forall>j\<in>{i<..<length (gl_dataView line)}.
            DataView_GetElements (gl_dataView line ! j) \<noteq> [] \<longrightarrow>
            sp_step p < sp_step (hd (DataView_GetElements (gl_dataView line ! j))))
          (DataView_GetElements (gl_dataView line ! i))) [0..<length (gl_dataView line)])
    \<and> steps_sorted (snd (GraphLine_GetLineData line))
    \<and> gl_srcData (fst (GraphLine_GetLineData line)) = []"
proof -
  let ?es = "map DataView_GetElements (gl_dataView line)"
  have d: "snd (GraphLine_GetLineData line) = fold overlay ?es []"
    using assms by (simp add: GraphLine_GetLineData_def Let_def AddLineData_fold)
  have "steps_sorted (fold overlay es acc)" if "steps_sorted acc" "\<forall>e\<in>set es. steps_sorted e"
    for es and acc :: "('a, 'b) ScalarPoint list"
    using that by (induction es arbitrary: acc) (auto intro: overlay_sorted)
  from this [of "[]" ?es] have s: "steps_sorted (snd (GraphLine_GetLineData line))" using d assms(3) by simp
  have "fold overlay ?es [] = concat (map (uncovered ?es) [0..<length (gl_dataView line)])" by (simp add: fold_overlay)
  also have "map (uncovered ?es) [0..<length (gl_dataView line)] = map (\<lambda>i. filter (\<lambda>p. \<forall>j\<in>{i<..<length (gl_dataView line)}.
            DataView_GetElements (gl_dataView line ! j) \<noteq> [] \<longrightarrow>
            sp_step p < sp_step (hd (DataView_GetElements (gl_dataView line ! j))))
          (DataView_GetElements (gl_dataView line ! i))) [0..<length (gl_dataView line)]"
    by (simp add: uncovered_def)
  finally show ?thesis using d s by (simp add: GraphLine_GetLineData_def Let_def)
qed

definition demo_line :: "(int, int) GraphLine" where
  "demo_line = (new_GraphLine L_NORMAL)\<lparr>gl_dataView :=
     [new_DataView [pt 1 5, pt 2 6, pt 3 7] 0 3 ''a'', new_DataView [pt 2 1, pt 4 2] 0 2 ''b'']\<rparr>"

lemma GetLineData_latest_wins_witness:
  "snd (GraphLine_GetLineData demo_line) = [pt 1 5, pt 2 1, pt 4 2] \<and> steps_sorted (snd (GraphLine_GetLineData demo_line))"
proof -
  have h: "gl_view demo_line" "gl_srcData demo_line = []"
    "list_all (\<lambda>v. steps_sorted (DataView_GetElements v)) (gl_dataView demo_line)" by code_simp+
  have s: "\<forall>v\<in>set (gl_dataView demo_line). steps_sorted (DataView_GetElements v)" using h(3) by (simp add: list_all_iff)
  have "snd (GraphLine_GetLineData demo_line) = [pt 1 5, pt 2 1, pt 4 2]" by code_simp
  then show ?thesis
    by (rule conjI) (rule conjunct1 [OF conjunct2 [OF GetLineData_latest_wins [OF h(1,2) s]]])
qed

subsection \<open>A plain request\<close>

lemma sampled_all:
  assumes "list_all is_view vs" "length vs \<le> 1" "length (view_elements vs) \<le> 20001"
  shows "\<exists>vs'. SampleLineOp_Process vs = Some vs' \<and> view_elements vs' = view_elements vs \<and> length vs' \<le> 1"
proof (cases vs)
  case Nil
  then show ?thesis by (simp add: SampleLineOp_Process_def)
next
  case (Cons v ws)
  then have v: "vs = [v]" "is_view v" using assms(1,2) by simp_all
  have el: "DataView_GetElements v = take (view_size v) (drop (dv_lower v) (dv_data v))"
    using v(2) by (simp add: DataView_GetElements_def is_view_def view_size_def)
  have n: "view_size v \<le> length (dv_data v) - dv_lower v" using v(2) by (auto simp: is_view_def view_size_def)
  have "view_size v \<le> 20001" using assms(3) v(1) n by (simp add: view_elements_def el min_def split: if_splits)
  then have "view_size v div 10001 < 2" by (intro less_mult_imp_div_less) simp
  then have s: "sample_step [v] = 1" by (auto simp: sample_step_def view_size_def maxDataCount_def Let_def)
  let ?v = "v\<lparr>dv_type := DISCRETE, dv_length := 0, dv_points := gathered 1 v\<rparr>"
  have g: "DataView_GatherElement 1 v = Some ?v" using gather_view [OF v(2), of 1] by simp
  have "DataView_GetElements ?v = DataView_GetElements v"
  proof -
    have "map (\<lambda>i. dv_data v ! (dv_lower v + i)) [0..<view_size v] = take (view_size v) (drop (dv_lower v) (dv_data v))"
      using n by (intro nth_equalityI) auto
    moreover have "DataView_GetElements ?v = map (\<lambda>i. dv_data v ! i) (gathered 1 v)"
      by (simp add: DataView_GetElements_def)
    ultimately show ?thesis by (simp add: el gathered_def multiples_def o_def)
  qed
  then show ?thesis
    using g by (simp add: SampleLineOp_Process_def v(1) s view_elements_def)
qed

lemma GetLineData_one:
  assumes "length vs \<le> 1" "steps_sorted (view_elements vs)"
  shows "snd (GraphLine_GetLineData (new_GraphLine t\<lparr>gl_dataView := vs\<rparr>)) = view_elements vs"
  using assms
  by (cases vs) (auto simp: GraphLine_GetLineData_def Let_def new_GraphLine_def view_elements_def
      GraphLine_AddLineData_def lower_bound_def bound_search.simps)

text \<open>
  A request for a tag of a file, with no configuration, gets one line, named normal, with exactly the points
  received for the tag whose step is within the bounds, as long as they are at most 20001, and the server stays
  as it is.
\<close>

lemma normal_request_shows_range:
  assumes "rq_lines r = []" "sv_graphs sv (rq_tag r) = Some g" "rq_file r \<in> g" "GetFileInfo (rq_file r) sv = Some f"
    "fi_type f = NORMAL" "tag_holds (rq_tag r) pts f" "steps_sorted pts" "rq_start r \<le> rq_end r"
    "length (filter (\<lambda>p. rq_start r \<le> sp_step p \<and> sp_step p \<le> rq_end r) pts) \<le> 20001"
  shows "let shown = filter (\<lambda>p. rq_start r \<le> sp_step p \<and> sp_step p \<le> rq_end r) pts in
    ProcessSingleGraphReq fo r sv = Some (sv, \<lparr>rs_tag = rq_tag r, rs_file = rq_file r,
      rs_lines = [(''normal'', shown)], rs_dateIndex = BuildDateIndex shown\<rparr>)"
proof -
  let ?shown = "filter (\<lambda>p. rq_start r \<le> sp_step p \<and> sp_step p \<le> rq_end r) pts"
  obtain vs where vs: "File_GetData fo (rq_tag r) (rq_start r) (rq_end r) M_NORMAL f = Some vs" "list_all is_view vs"
    "length vs \<le> 1" "view_elements vs = ?shown"
    using GetData_view [OF assms(6-8)] by blast
  obtain ws where ws: "SampleLineOp_Process vs = Some ws" "view_elements ws = ?shown" "length ws \<le> 1"
    using sampled_all [OF vs(2,3)] vs(4) assms(9) by auto
  have get: "GetGraphData fo (rq_tag r) (rq_file r) (rq_start r) (rq_end r) M_NORMAL sv = Some vs"
    using assms(2-5) vs(1) by (simp add: GetGraphData_def Graph_GetFileData_def Graph_InnerFile_def any_GetData_def)
  have line: "snd (GraphLine_GetLineData (new_GraphLine L_NORMAL\<lparr>gl_dataView := ws\<rparr>)) = ?shown"
    using GetLineData_one [OF ws(3)] ws(2) sorted_filter [OF assms(7)] by simp
  have twice: "new_GraphLine t\<lparr>gl_dataView := a, gl_dataView := b\<rparr> = new_GraphLine t\<lparr>gl_dataView := b\<rparr>" for t a b
    by simp
  have ops: "process_ops fo [NormalLineOp (basic_info r M_NORMAL), SampleLineOp (basic_info r M_SAMPLE)] sv (new_GraphLine L_NORMAL)
      = Some (sv, new_GraphLine L_NORMAL\<lparr>gl_dataView := ws\<rparr>)"
    using get ws(1) by (simp add: basic_info_def)
  have m: "BuildLineOP r = Some [L_SAMPLE \<mapsto> SampleLineOp (basic_info r M_SAMPLE), L_NORMAL \<mapsto> NormalLineOp (basic_info r M_NORMAL)]"
    by (simp add: BuildLineOP_def assms(1) op_insert_def)
  show ?thesis
    using line by (simp add: ProcessSingleGraphReq_def m BuildLine_def GetLineOps_def basic_info_def [of r M_SAMPLE]
        split_beta ops [unfolded basic_info_def [of r M_SAMPLE]] BuildDateIndex_def del: process_ops.simps)
qed

text \<open>A server with one file of three points, and a request for two of them.\<close>

definition demo_points :: "(int, int) ScalarPoint list" where
  "demo_points = [pt 1 5, pt 2 7, pt 4 6]"

definition shown_file :: "(int, int) File" where
  "shown_file = (new_File int_ops ''a'' TF_EVENT)\<lparr>fi_data := [''loss'' \<mapsto> demo_points],
     fi_range := [''loss'' \<mapsto> (1, 4)], fi_tag := {''loss''}\<rparr>"

definition shown_server :: "(int, int) Server" where
  "shown_server = put_file ''a'' shown_file
     (new_Server\<lparr>sv_filePaths := {''a''}, sv_graphs := [''loss'' \<mapsto> {''a''}]\<rparr>)"

definition shown_request :: "(int, int) SingleGraphReqInfo" where
  "shown_request = \<lparr>rq_tag = ''loss'', rq_file = ''a'', rq_start = 2, rq_end = 4, rq_lines = []\<rparr>"

lemma shown_facts:
  "rq_lines shown_request = []" "sv_graphs shown_server (rq_tag shown_request) = Some {''a''}"
  "rq_file shown_request \<in> {''a''}" "GetFileInfo (rq_file shown_request) shown_server = Some shown_file"
  "fi_type shown_file = NORMAL" "tag_holds (rq_tag shown_request) demo_points shown_file"
  "steps_sorted demo_points" "rq_start shown_request \<le> rq_end shown_request"
  "filter (\<lambda>p. rq_start shown_request \<le> sp_step p \<and> sp_step p \<le> rq_end shown_request) demo_points = [pt 2 7, pt 4 6]"
  by (simp_all add: shown_request_def shown_server_def shown_file_def demo_points_def put_file_def GetFileInfo_def
      new_File_def tag_holds_def pt_def word_le_nat_alt)

subsection \<open>Merging files\<close>

lemma AddSubFiles_frame:
  "fi_type (VirtualFile_AddSubFiles paths sv f) = fi_type f
    \<and> fi_filePath (VirtualFile_AddSubFiles paths sv f) = fi_filePath f"
  unfolding VirtualFile_AddSubFiles_def
  by (induction paths arbitrary: f) (simp_all split: option.split)

lemma new_VirtualFile_frame [simp]:
  "fi_type (new_VirtualFile fo name) = VISUAL" "fi_filePath (new_VirtualFile fo name) = name"
  by (simp_all add: new_VirtualFile_def new_File_def)

text \<open>
  C34: merging files under a new name and taking the merge apart again leaves the server as it was; a merge without a
  name is a file of its own under the empty path, and no request can take it apart: that request changes nothing.
\<close>

theorem unmerge_merge:
  assumes "name \<notin> sv_filePaths sv" "sv_fileInfoMap sv name = None" "\<forall>tag g. sv_graphs sv tag = Some g \<longrightarrow> name \<notin> g"
  shows "let sv' = fst (FileMerge fo files name sv) in
    GetFileInfo name sv' = Some (snd (FileMerge fo files name sv)) \<and>
    FileUnMerge name sv' = (if name = [] then sv' else sv)"
proof -
  define f where "f = VirtualFile_AddSubFiles files sv (new_VirtualFile fo name)"
  have f: "fi_type f = VISUAL" "fi_filePath f = name" by (simp_all add: f_def AddSubFiles_frame)
  have info: "GetFileInfo name (AddVirtualFile f sv) = Some f"
    using assms(1,2) f by (simp add: GetFileInfo_def AddVirtualFile_def FileInfoManager_AddFileInfo_def map_emplace_def Let_def)
  have m: "(sv_fileInfoMap sv)(name := None) = sv_fileInfoMap sv" using assms(2) by (simp add: fun_upd_idem)
  have g: "map_option ((\<lambda>g. g - {name}) \<circ> insert name) (sv_graphs sv tag) = sv_graphs sv tag" for tag
    using assms(3) by (cases "sv_graphs sv tag") simp_all
  have "DelVirtualFile f (AddVirtualFile f sv) = sv"
  proof (rule Server.equality)
    show "sv_graphs (DelVirtualFile f (AddVirtualFile f sv)) = sv_graphs sv"
      using info f g by (auto simp: DelVirtualFile_def AddVirtualFile_def FileInfoManager_AddFileInfo_def
          FileInfoManager_DelFileFromMap_def Let_def option.map_comp)
  qed (use assms(1,2) info f m in \<open>simp_all add: DelVirtualFile_def AddVirtualFile_def
      FileInfoManager_AddFileInfo_def FileInfoManager_DelFileFromMap_def map_emplace_def Let_def\<close>)
  with info f show ?thesis by (simp add: FileMerge_def FileUnMerge_def Let_def f_def [symmetric])
qed

lemma unmerge_merge_witness:
  "FileUnMerge ''m'' (fst (FileMerge int_ops [''a''] ''m'' shown_server)) = shown_server"
proof -
  have h: "''m'' \<notin> sv_filePaths shown_server" "sv_fileInfoMap shown_server ''m'' = None"
    "\<forall>tag g. sv_graphs shown_server tag = Some g \<longrightarrow> ''m'' \<notin> g"
    by (simp_all add: shown_server_def put_file_def new_Server_def)
  show ?thesis using unmerge_merge [OF h, of int_ops "[''a'']"] by (simp add: Let_def)
qed

end
