(* ===== verification/Scalar_shown.thy ===== *)
theory Scalar_shown
  imports Scalar_drawn
begin

text \<open>
  From the bytes of an event file to the line of a request: parsing, delivering, storing, reading and sampling
  together.
\<close>

text \<open>The points delivered for a tag.\<close>

definition points_of :: "string \<Rightarrow> (string \<times> ('f, 'd) ScalarPoint list) list \<Rightarrow> ('f, 'd) ScalarPoint list" where
  "points_of tag es = concat (map snd (filter (\<lambda>(t, ps). t = tag) es))"

lemma UpdateData_without_smoother:
  assumes "fi_smoother f = Map.empty"
  shows "\<exists>f'. File_UpdateData fo t b f = Some f' \<and> fi_smoother f' = Map.empty \<and> fi_type f' = fi_type f"
  using assms by (auto simp: File_UpdateData_def File_UpdateRange_def Let_def split: option.splits)

lemma tag_holds_other:
  assumes "tag_holds tag pts f" "t \<noteq> tag" "File_UpdateData fo t b f = Some f'"
  shows "tag_holds tag pts f'"
  using assms by (auto simp: tag_holds_def File_UpdateData_def File_UpdateRange_def GetRangeFromData_def Let_def
      vector_at_def split: if_splits option.splits prod.splits)

text \<open>The server has the file of a path, without smoothers, with the given points of a tag.\<close>

definition has_points :: "string \<Rightarrow> string \<Rightarrow> ('f, 'd) ScalarPoint list \<Rightarrow> ('f, 'd) Server \<Rightarrow> bool" where
  "has_points path tag pts sv \<longleftrightarrow> (\<exists>f. GetFileInfo path sv = Some f \<and> fi_type f = NORMAL
     \<and> fi_smoother f = Map.empty \<and> tag_holds tag pts f) \<and> (pts \<noteq> [] \<longrightarrow> path \<in> set_at (sv_graphs sv) tag)"

lemma deliver_entry_has:
  assumes "has_points path tag pts sv" "t = tag \<longrightarrow> (\<forall>p\<in>set ps. sp_step p \<noteq> - 1)"
  shows "\<exists>sv'. deliver_entry fo path (t, ps) sv = Some sv' \<and> has_points path tag (if t = tag then pts @ ps else pts) sv'"
proof -
  obtain f where f: "GetFileInfo path sv = Some f" "fi_type f = NORMAL" "fi_smoother f = Map.empty" "tag_holds tag pts f"
    using assms(1) by (auto simp: has_points_def)
  obtain f' where f': "File_UpdateData fo t ps f = Some f'" "fi_smoother f' = Map.empty" "fi_type f' = NORMAL"
    using UpdateData_without_smoother [OF f(3)] f(2) by metis
  have h: "tag_holds tag (if t = tag then pts @ ps else pts) f'"
    using tag_holds_update [OF f(4)] tag_holds_other [OF f(4)] f'(1) assms(2) by auto
  define sv1 where "sv1 = (if IsIncremental path t sv then AddIncremental path t sv else sv)"
  have sv1: "sv_filePaths sv1 = sv_filePaths sv" "sv_fileInfoMap sv1 = sv_fileInfoMap sv" "sv_graphs sv1 = sv_graphs sv"
    by (simp_all add: sv1_def AddIncremental_def)
  let ?g = "insert path (set_at (sv_graphs sv) t)"
  let ?sv2 = "sv1\<lparr>sv_graphs := (sv_graphs sv)(t \<mapsto> ?g)\<rparr>"
  have i: "GetFileInfo path ?sv2 = Some f" using f(1) sv1 by (simp add: GetFileInfo_def split: if_splits)
  have d: "deliver_entry fo path (t, ps) sv = (if ps = [] then Some ?sv2 else Some (put_file path f' ?sv2))"
  proof -
    have u: "deliver_entry fo path (t, ps) sv = UpdateGraph fo t path ps sv1"
      by (simp add: deliver_entry_def sv1_def)
    have m: "set_at (m(t \<mapsto> a)) t = a" for m :: "string \<rightharpoonup> string set" and a by (simp add: set_at_def)
    show ?thesis
      using f(2) f' i by (simp add: u UpdateGraph_def Graph_UpdateData_def Let_def m sv1)
  qed
  have in_graph: "path \<in> set_at ((sv_graphs sv)(t \<mapsto> ?g)) tag" if "(if t = tag then pts @ ps else pts) \<noteq> []"
    using that assms(1) by (cases "t = tag") (simp_all add: has_points_def set_at_def)
  have i': "GetFileInfo path (put_file path f' ?sv2) = Some f'"
    using GetFileInfo_filePaths [OF i] by (simp add: GetFileInfo_def put_file_def)
  have p: "sv_graphs (put_file path f' ?sv2) = (sv_graphs sv)(t \<mapsto> ?g)" by (simp add: put_file_def)
  have "has_points path tag (if t = tag then pts @ ps else pts) ?sv2" if "ps = []"
    using that in_graph i f(2-4) unfolding has_points_def by (cases "t = tag") simp_all
  moreover have "has_points path tag (if t = tag then pts @ ps else pts) (put_file path f' ?sv2)"
    using in_graph i' f' h unfolding has_points_def p by (cases "t = tag") simp_all
  ultimately show ?thesis using d by auto
qed

lemma deliver_all_has:
  assumes "has_points path tag pts sv" "\<forall>p\<in>set (points_of tag es). sp_step p \<noteq> - 1"
  shows "\<exists>sv'. deliver_all fo path es sv = Some sv' \<and> has_points path tag (pts @ points_of tag es) sv'"
  using assms
proof (induction es arbitrary: pts sv)
  case Nil
  then show ?case by (simp add: points_of_def)
next
  case (Cons e es)
  obtain t ps where e: "e = (t, ps)" by (cases e)
  have steps: "t = tag \<longrightarrow> (\<forall>p\<in>set ps. sp_step p \<noteq> - 1)" "\<forall>p\<in>set (points_of tag es). sp_step p \<noteq> - 1"
    using Cons.prems(2) by (auto simp: points_of_def e split: if_splits)
  obtain sv1 where sv1: "deliver_entry fo path (t, ps) sv = Some sv1" "has_points path tag (if t = tag then pts @ ps else pts) sv1"
    using deliver_entry_has [OF Cons.prems(1) steps(1)] by blast
  from Cons.IH [OF sv1(2) steps(2)] sv1(1) show ?case by (auto simp: e points_of_def)
qed


definition loss_request :: "(int, int) SingleGraphReqInfo" where
  "loss_request = \<lparr>rq_tag = ''loss'', rq_file = ''a'', rq_start = 1, rq_end = 9, rq_lines = []\<rparr>"

definition demo_frames :: "frame list" where
  "demo_frames = [demo_frame ''lr'', demo_frame ''loss'']"

definition written_env :: "(int, int) parse_env" where
  "written_env = demo_env (concat (map enc_frame demo_frames) @ [])"

lemma demo_entries: "points_of ''loss'' (frames_entries written_env TF_EVENT demo_frames) = [pt 4 7]"
  by (simp add: points_of_def frames_entries_def record_entries_def entry_def frame_points_def event_result_def
      EventContainsScalar_def event_points_def demo_frames_def demo_frame_def written_env_def demo_env_def demo_text_def pt_def)


end
