(* ===== verification/Scalar_logs.thy ===== *)
theory Scalar_logs
  imports Scalar_shown "HOL-Library.Code_Target_Nat"
begin

text \<open>
  What the parser of training logs reads in a line: the first match of each regular expression, worked out from
  the rules of the matcher.
\<close>

subsection \<open>First matches\<close>

fun first_of :: "'a list \<Rightarrow> 'a option" where
  "first_of [] = None" | "first_of (x # xs) = Some x"

lemma first_of_concat: "\<lbrakk>first_of xs = Some y; first_of (f y) = Some z\<rbrakk> \<Longrightarrow> first_of (concat (map f xs)) = Some z"
  by (cases xs; cases "f y") auto

lemma first_of_map: "first_of xs = Some y \<Longrightarrow> first_of (map f xs) = Some (f y)"
  by (cases xs) auto

lemma greedy_first:
  assumes "list_all p xs" "r = [] \<or> \<not> p (hd r)" "least \<le> length xs"
  shows "first_of (greedy p least (xs @ r)) = Some r"
proof -
  have "takeWhile p (xs @ r) = xs"
    using assms(1,2) by (cases r) (auto simp: list_all_iff takeWhile_append2)
  then show ?thesis using assms(3) by (simp add: greedy_def upt_Suc_append)
qed

lemma rx_lit: "rx_matches (lit w @ ps) s = (if take (length w) s = w then rx_matches ps (drop (length w) s) else [])"
proof (induction w arbitrary: s)
  case (Cons c w)
  then show ?case by (cases s) (simp_all add: lit_def)
qed (simp add: lit_def)

lemma rx_item:
  "\<lbrakk>first_of (item_rests i s) = Some s'; first_of (rx_matches ps s') = Some z\<rbrakk> \<Longrightarrow> first_of (rx_matches (Item i # ps) s) = Some z"
  by (simp add: first_of_concat)

lemma seq_first:
  "\<lbrakk>first_of (item_rests i s) = Some s'; first_of (seq_rests is s') = Some z\<rbrakk> \<Longrightarrow> first_of (seq_rests (i # is) s) = Some z"
  by (simp add: first_of_concat)

lemma rx_group:
  assumes "first_of (seq_rests alt s) = Some r" "first_of (rx_matches ps r) = Some (r', caps)"
  shows "first_of (rx_matches (Group (alt # alts) # ps) s) = Some (r', take (length s - length r) s # caps)"
proof -
  let ?f = "\<lambda>r. map (\<lambda>(r', caps). (r', take (length s - length r) s # caps)) (rx_matches ps r)"
  have "first_of (concat (map ?f (seq_rests alt s))) = Some (r', take (length s - length r) s # caps)"
    by (rule first_of_concat [OF assms(1)], subst first_of_map [OF assms(2)]) simp
  then show ?thesis by (cases "concat (map ?f (seq_rests alt s))") auto
qed

lemma rx_many:
  assumes "list_all p xs" "r = [] \<or> \<not> p (hd r)" "first_of (rx_matches ps r) = Some z"
  shows "first_of (rx_matches (Item (Many p) # ps) (xs @ r)) = Some z"
  using rx_item [of "Many p" "xs @ r" r ps z] greedy_first [OF assms(1,2), of 0] assms(3) by simp

text \<open>A group of digits takes all of them.\<close>

lemma rx_digits:
  assumes "list_all is_digit ds" "ds \<noteq> []" "r = [] \<or> \<not> is_digit (hd r)" "first_of (rx_matches ps r) = Some (r', caps)"
  shows "first_of (rx_matches (Group [[Many1 is_digit]] # ps) (ds @ r)) = Some (r', ds # caps)"
proof -
  have "1 \<le> length ds" using assms(2) by (cases ds) simp_all
  then have "first_of (seq_rests [Many1 is_digit] (ds @ r)) = Some r"
    using seq_first [of "Many1 is_digit" "ds @ r" r "[]" r] greedy_first [OF assms(1,3), of 1] by simp
  from rx_group [OF this assms(4), of "[]"] show ?thesis by simp
qed

text \<open>The group of a number takes an optional sign, digits, a point and digits.\<close>

lemma number_first:
  assumes "sg \<in> {[], ''-'', ''+''}" "list_all is_digit a" "list_all is_digit b" "b \<noteq> []" "r = [] \<or> \<not> is_digit (hd r)"
  shows "first_of (rx_matches [Group number_alternatives] (sg @ a @ ''.'' @ b @ r)) = Some (r, [sg @ a @ ''.'' @ b])"
proof -
  have digit: "\<not> is_digit (CHR ''.'')" "\<not> is_digit (CHR ''-'')" "\<not> is_digit (CHR ''+'')" by (simp_all add: is_digit_def)
  let ?sign = "\<lambda>c. c = CHR 0x2D \<or> c = CHR 0x2B"
  let ?t = "a @ ''.'' @ b @ r"
  have opt: "first_of (item_rests (Opt ?sign) (sg @ ?t)) = Some ?t"
  proof (cases "sg = []")
    case False
    with assms(1) show ?thesis by auto
  next
    case True
    show ?thesis
    proof (cases a)
      case (Cons c cs)
      then have "is_digit c" using assms(2) by simp
      then have "\<not> ?sign c" using digit by auto
      with True Cons show ?thesis by simp
    qed (use True in simp)
  qed
  have many: "first_of (item_rests (Many is_digit) ?t) = Some (''.'' @ b @ r)"
    using greedy_first [OF assms(2), of "''.'' @ b @ r" 0] digit by simp
  have point: "first_of (item_rests (One ((=) CHR 0x2E)) (''.'' @ b @ r)) = Some (b @ r)" by simp
  have "1 \<le> length b" using assms(4) by (cases b) simp_all
  then have dec: "first_of (item_rests (Many1 is_digit) (b @ r)) = Some r"
    using greedy_first [OF assms(3,5), of 1] by simp
  have nil: "first_of (seq_rests [] r) = Some r" by simp
  have "first_of (seq_rests [Opt ?sign, Many is_digit, One ((=) CHR 0x2E), Many1 is_digit] (sg @ ?t)) = Some r"
    by (rule seq_first [OF opt seq_first [OF many seq_first [OF point seq_first [OF dec nil]]]])
  moreover have "first_of (rx_matches [] r) = Some (r, [])" by simp
  ultimately have "first_of (rx_matches [Group number_alternatives] (sg @ ?t))
      = Some (r, [take (length (sg @ ?t) - length r) (sg @ ?t)])"
    unfolding number_alternatives_def by (rule rx_group)
  moreover have "take (length (sg @ ?t) - length r) (sg @ ?t) = sg @ a @ ''.'' @ b"
  proof -
    have "sg @ ?t = (sg @ a @ ''.'' @ b) @ r" by simp
    then show ?thesis by (metis append_eq_conv_conj diff_add_inverse2 length_append)
  qed
  ultimately show ?thesis by simp
qed

subsection \<open>The leftmost match\<close>

text \<open>The first place of a word in a text.\<close>

definition first_at :: "string \<Rightarrow> string \<Rightarrow> nat \<Rightarrow> bool" where
  "first_at w s i \<longleftrightarrow> take (length w) (drop i s) = w \<and> (\<forall>j<i. take (length w) (drop j s) \<noteq> w)"

lemma search_first_at:
  assumes "first_at w s i" "first_of (rx_matches ps (drop (i + length w) s)) = Some (r, caps)"
  shows "regex_search (lit w @ ps) s = Some (take (length s - i - length r) (drop i s), caps)"
  using assms
proof (induction i arbitrary: s)
  case 0
  then obtain rest where "rx_matches ps (drop (length w) s) = (r, caps) # rest"
    by (cases "rx_matches ps (drop (length w) s)") auto
  with 0 show ?case by (subst regex_search.simps) (simp add: rx_lit first_at_def)
next
  case (Suc i)
  show ?case
  proof (cases s)
    case Nil
    with Suc.prems(1) have "w = []" by (simp add: first_at_def)
    with Suc.prems(1) show ?thesis by (auto simp: first_at_def)
  next
    case (Cons c cs)
    have "take (length w) s \<noteq> w" using Suc.prems(1) by (auto simp: first_at_def)
    then have "regex_search (lit w @ ps) s = regex_search (lit w @ ps) cs"
      using Cons by (subst regex_search.simps) (simp add: rx_lit)
    moreover have "first_at w cs i" using Suc.prems(1) Cons by (auto simp: first_at_def)
    ultimately show ?thesis using Suc.IH [of cs] Suc.prems(2) Cons by simp
  qed
qed

lemma contains_at: "take (length w) (drop i s) = w \<Longrightarrow> contains s w"
  by (induction s arbitrary: i) (auto simp: drop_Cons' split: if_splits)

lemma search_absent: "\<not> contains s w \<Longrightarrow> regex_search (lit w @ ps) s = None"
proof (induction s)
  case Nil
  then show ?case by (subst regex_search.simps) (simp add: rx_lit)
next
  case (Cons c s)
  then show ?case by (subst regex_search.simps) (simp add: rx_lit)
qed

subsection \<open>A line of a log\<close>

lemma digit_no_space: "is_digit c \<Longrightarrow> \<not> is_space c"
  by (auto simp: is_digit_def is_space_def)

lemma hd_digit: "\<lbrakk>list_all is_digit ds; ds \<noteq> []\<rbrakk> \<Longrightarrow> is_digit (hd (ds @ r))"
  by (cases ds) auto

lemma rx_lit_first:
  "first_of (rx_matches ps s) = Some z \<Longrightarrow> first_of (rx_matches (lit w @ ps) (w @ s)) = Some z"
  by (simp add: rx_lit)

lemma step_match:
  assumes "list_all is_space (sp0 @ sp1 @ sp2)" "list_all is_digit ds" "ds \<noteq> []" "list_all is_digit es" "es \<noteq> []"
  shows "first_of (rx_matches ([Item (Many is_space)] @ lit ''['' @ [Item (Many is_space), Group [[Many1 is_digit]]]
      @ lit [CHR 0x2F] @ [Item (Many is_space), Group [[Many1 is_digit]]] @ lit '']'')
      (sp0 @ ''['' @ sp1 @ ds @ [CHR 0x2F] @ sp2 @ es @ '']'' @ r)) = Some (r, [ds, es])"
proof -
  have sp: "list_all is_space sp0" "list_all is_space sp1" "list_all is_space sp2" using assms(1) by simp_all
  have c: "\<not> is_digit (CHR '']'')" "\<not> is_digit (CHR 0x2F)" "\<not> is_space (CHR ''['')" by (simp_all add: is_digit_def is_space_def)
  have n: "\<not> is_space (hd (ds @ x))" "\<not> is_space (hd (es @ x))" for x
    using digit_no_space hd_digit assms(2-5) by blast+
  have "first_of (rx_matches (lit '']'') ('']'' @ r)) = Some (r, [])"
    using rx_lit_first [of "[]" r "(r, [])" "'']''"] by simp
  from rx_digits [OF assms(4,5) _ this] c
  have "first_of (rx_matches (Group [[Many1 is_digit]] # lit '']'') (es @ '']'' @ r)) = Some (r, [es])" by simp
  from rx_many [OF sp(3) _ this] n
  have "first_of (rx_matches (Item (Many is_space) # Group [[Many1 is_digit]] # lit '']'') (sp2 @ es @ '']'' @ r)) = Some (r, [es])"
    by blast
  from rx_lit_first [OF this, of "[CHR 0x2F]"]
  have "first_of (rx_matches (lit [CHR 0x2F] @ [Item (Many is_space), Group [[Many1 is_digit]]] @ lit '']'')
      ([CHR 0x2F] @ sp2 @ es @ '']'' @ r)) = Some (r, [es])" by simp
  from rx_digits [OF assms(2,3) _ this] c
  have "first_of (rx_matches (Group [[Many1 is_digit]] # lit [CHR 0x2F] @ [Item (Many is_space), Group [[Many1 is_digit]]] @ lit '']'')
      (ds @ [CHR 0x2F] @ sp2 @ es @ '']'' @ r)) = Some (r, [ds, es])" by simp
  from rx_many [OF sp(2) _ this] n
  have "first_of (rx_matches (Item (Many is_space) # Group [[Many1 is_digit]] # lit [CHR 0x2F]
      @ [Item (Many is_space), Group [[Many1 is_digit]]] @ lit '']'')
      (sp1 @ ds @ [CHR 0x2F] @ sp2 @ es @ '']'' @ r)) = Some (r, [ds, es])" by blast
  from rx_lit_first [OF this, of "''[''"]
  have "first_of (rx_matches (lit ''['' @ [Item (Many is_space), Group [[Many1 is_digit]]] @ lit [CHR 0x2F]
      @ [Item (Many is_space), Group [[Many1 is_digit]]] @ lit '']'')
      (''['' @ sp1 @ ds @ [CHR 0x2F] @ sp2 @ es @ '']'' @ r)) = Some (r, [ds, es])" by simp
  from rx_many [OF sp(1) _ this] c(3) show ?thesis by simp
qed

lemma number_match:
  assumes "list_all is_space sp" "sg \<in> {[], ''-'', ''+''}" "list_all is_digit a" "list_all is_digit b" "b \<noteq> []"
    "r = [] \<or> \<not> is_digit (hd r)"
  shows "first_of (rx_matches [Item (Many is_space), Group number_alternatives] (sp @ sg @ a @ ''.'' @ b @ r))
    = Some (r, [sg @ a @ ''.'' @ b])"
proof -
  have "\<not> is_space (hd (sg @ a @ ''.'' @ b @ r))"
  proof (cases "sg = [] \<and> a \<noteq> []")
    case True
    with hd_digit [OF assms(3)] digit_no_space show ?thesis by auto
  next
    case False
    with assms(2) show ?thesis by (auto simp: is_space_def)
  qed
  from rx_many [OF assms(1) disjI2 [OF this] number_first [OF assms(2-6)]] show ?thesis .
qed

text \<open>
  C29: a log line with a step and a loss gives one point: the step is the number before the slash behind the first
  \<open>step:\<close>, and the loss is the text behind the first \<open>loss:\<close> up to the last digit after the decimal
  point.  What follows is not looked at, so a loss written with an exponent, as small losses are, is read without it.
\<close>

theorem log_line_point:
  assumes "first_at ''step:'' record i"
    "drop (i + 5) record = sp0 @ ''['' @ sp1 @ ds @ [CHR 0x2F] @ sp2 @ es @ '']'' @ r1"
    "list_all is_space (sp0 @ sp1 @ sp2)" "list_all is_digit ds" "ds \<noteq> []" "list_all is_digit es" "es \<noteq> []"
    "first_at ''loss:'' record j" "drop (j + 5) record = sp @ sg @ a @ ''.'' @ b @ r2"
    "list_all is_space sp" "sg \<in> {[], ''-'', ''+''}" "list_all is_digit a" "list_all is_digit b" "b \<noteq> []"
    "r2 = [] \<or> \<not> is_digit (hd r2)" "\<not> contains record ''global_norm:''" "digits_value ds < 2 ^ 63"
  shows "LogTextParser_ParseRecordToScalar tops record =
    map_option (\<lambda>v. [(''Loss'', [text_point tops (of_nat (digits_value ds)) v
        (case regex_search timeRegex record of Some (m, _) \<Rightarrow> m | None \<Rightarrow> [])])])
      (t_stof tops (sg @ a @ ''.'' @ b))"
proof -
  have ne: "record \<noteq> []" using assms(2) by auto
  have "take 5 (drop i record) = ''step:''" using assms(1) by (simp add: first_at_def eval_nat_numeral)
  then have "take 4 (take 5 (drop i record)) = ''step''" by simp
  then have "take 4 (drop i record) = ''step''" by simp
  then have "take (length ''step'') (drop i record) = ''step''" by (simp add: eval_nat_numeral)
  then have c: "contains record ''step''" by (rule contains_at)
  have len: "length ''step:'' = 5" "length ''loss:'' = 5" by simp_all
  have s: "regex_search stepRegex record = Some (take (length record - i - length r1) (drop i record), [ds, es])"
    unfolding stepRegex_def
    by (rule search_first_at [OF assms(1)]) (simp only: len assms(2) step_match [OF assms(3-7)])
  have l: "regex_search lossRegex record = Some (take (length record - j - length r2) (drop j record), [sg @ a @ ''.'' @ b])"
    unfolding lossRegex_def
    by (rule search_first_at [OF assms(8)]) (simp only: len assms(9) number_match [OF assms(10-15)])
  have n: "regex_search normalRegex record = None"
    using search_absent [OF assms(16)] by (simp add: normalRegex_def)
  have "int (digits_value ds) < 2 ^ 63" using assms(17) by simp
  then have st: "stoll ds = Some (of_nat (digits_value ds))" by (simp add: stoll_def)
  show ?thesis
    by (cases "t_stof tops (sg @ a @ ''.'' @ b)")
      (simp_all add: LogTextParser_ParseRecordToScalar_def ne c s l n st add_matched_def Let_def split: option.split)
qed

definition log_record :: string where
  "log_record = ''2024-01-02 03:04:05,678 - { step:[ 20/ 100], loss: 2.5e-05, lr: 1 }''"

definition text_values :: "(int, int) text_ops" where
  "text_values = \<lparr>t_stof = (\<lambda>s. if s = ''2.5'' then Some 25 else None), t_stod = (\<lambda>s. None), t_wall_of_local = (\<lambda>s. 0),
     t_local_of_wall = (\<lambda>d. [])\<rparr>"

lemma log_line_point_witness:
  "map_option (map (\<lambda>(t, ps). (t, map sp_step ps, map sp_value ps))) (LogTextParser_ParseRecordToScalar text_values log_record)
    = Some [(''Loss'', [20], [25])]"
proof -
  have i: "first_at ''step:'' log_record 28" by code_simp
  have j: "first_at ''loss:'' log_record 45" by code_simp
  have di: "drop (28 + 5) log_record = [] @ ''['' @ '' '' @ ''20'' @ [CHR 0x2F] @ '' '' @ ''100'' @ '']'' @ '', loss: 2.5e-05, lr: 1 }''"
    by code_simp
  have dj: "drop (45 + 5) log_record = '' '' @ [] @ ''2'' @ ''.'' @ ''5'' @ ''e-05, lr: 1 }''" by code_simp
  have sp: "list_all is_space ([] @ '' '' @ '' '')" "list_all is_space '' ''" by code_simp+
  have dg: "list_all is_digit ''20''" "list_all is_digit ''100''" "list_all is_digit ''2''" "list_all is_digit ''5''" by code_simp+
  have ne: "''20'' \<noteq> []" "''100'' \<noteq> []" "''5'' \<noteq> []" by simp_all
  have sg: "[] \<in> {[], ''-'', ''+''}" by simp
  have r: "''e-05, lr: 1 }'' = [] \<or> \<not> is_digit (hd ''e-05, lr: 1 }'')" by code_simp
  have g: "\<not> contains log_record ''global_norm:''" by code_simp
  have v: "digits_value ''20'' = 20" by code_simp
  then have lt: "digits_value ''20'' < 2 ^ 63" by simp
  note p = log_line_point [OF i di sp(1) dg(1) ne(1) dg(2) ne(2) j dj sp(2) sg dg(3,4) ne(3) r g lt, of text_values]
  show ?thesis unfolding p by (simp add: v text_values_def text_point_def)
qed

end
