(* ===== verification/Scalar_json.thy ===== *)
theory Scalar_json
  imports Scalar_line Scalar_parse "HOL-Library.Monad_Syntax"
begin

text \<open>
  JSON documents, as far as the Scalar server looks at them (\<open>Util/ScalaryProtocolUtil.h\<close>), and what it reads
  from the requests: the checks and conversions of the handlers in \<open>plugin/Handler\<close> and the smoothing
  parameters (\<open>GraphLine/Smoother/SmootherFactory.h\<close>).

  Parsing and printing text is the work of the rapidjson library: the text of a request is given as its document
  or the message of the parser.  The library promises no more than an assertion for a member of something that is
  no object and for a missing member; that is \<open>None\<close>.
\<close>

subsection \<open>Documents\<close>

text \<open>A number is an integer of at most 64 bits or a double.\<close>

datatype 'd json =
  JNull
| JBool bool
| JString string
| JInt int
| JDouble 'd
| JArray "'d json list"
| JObject "(string \<times> 'd json) list"

record ('f, 'd) json_ops =
  jo_float :: "'d \<Rightarrow> 'f"
  jo_is_float :: "'d \<Rightarrow> bool"
  jo_double :: "'f \<Rightarrow> 'd"
  jo_of_int :: "int \<Rightarrow> 'd"
  jo_show :: "'f \<Rightarrow> string"

fun is_string :: "'d json \<Rightarrow> bool" where
  "is_string (JString s) = True" | "is_string _ = False"

fun is_bool :: "'d json \<Rightarrow> bool" where
  "is_bool (JBool b) = True" | "is_bool _ = False"

fun is_array :: "'d json \<Rightarrow> bool" where
  "is_array (JArray xs) = True" | "is_array _ = False"

fun is_object :: "'d json \<Rightarrow> bool" where
  "is_object (JObject ms) = True" | "is_object _ = False"

fun is_int64 :: "'d json \<Rightarrow> bool" where
  "is_int64 (JInt n) = (- (2 ^ 63) \<le> n \<and> n < 2 ^ 63)" | "is_int64 _ = False"

fun is_uint64 :: "'d json \<Rightarrow> bool" where
  "is_uint64 (JInt n) = (0 \<le> n \<and> n < 2 ^ 64)" | "is_uint64 _ = False"

fun is_double :: "'d json \<Rightarrow> bool" where
  "is_double (JDouble d) = True" | "is_double _ = False"

fun is_number :: "'d json \<Rightarrow> bool" where
  "is_number (JInt n) = True" | "is_number (JDouble d) = True" | "is_number _ = False"

fun get_string :: "'d json \<Rightarrow> string option" where
  "get_string (JString s) = Some s" | "get_string _ = None"

fun get_bool :: "'d json \<Rightarrow> bool option" where
  "get_bool (JBool b) = Some b" | "get_bool _ = None"

fun get_array :: "'d json \<Rightarrow> 'd json list option" where
  "get_array (JArray xs) = Some xs" | "get_array _ = None"

fun get_int64 :: "'d json \<Rightarrow> 64 word option" where
  "get_int64 (JInt n) = (if is_int64 (JInt n :: 'd json) then Some (of_int n) else None)" | "get_int64 _ = None"

fun get_double :: "('f, 'd) json_ops \<Rightarrow> 'd json \<Rightarrow> 'd option" where
  "get_double jo (JInt n) = Some (jo_of_int jo n)"
| "get_double jo (JDouble d) = Some d"
| "get_double jo _ = None"

fun member :: "string \<Rightarrow> 'd json \<Rightarrow> 'd json option" where
  "member k (JObject ms) = map_of ms k" | "member k _ = None"

text \<open>\<open>!v.HasMember(k) || !v[k].IsX()\<close>, negated.\<close>

fun has_such :: "string \<Rightarrow> ('d json \<Rightarrow> bool) \<Rightarrow> 'd json \<Rightarrow> bool option" where
  "has_such k is (JObject ms) = Some (case map_of ms k of None \<Rightarrow> False | Some v \<Rightarrow> is v)"
| "has_such k is _ = None"

text \<open>Conditions tested one after the other, until one does not hold.\<close>

fun all_such :: "(string \<times> ('d json \<Rightarrow> bool)) list \<Rightarrow> 'd json \<Rightarrow> bool option" where
  "all_such [] v = Some True"
| "all_such ((k, is) # cs) v = do { b \<leftarrow> has_such k is v; if b then all_such cs v else Some False }"

fun all_of :: "('a \<Rightarrow> bool option) \<Rightarrow> 'a list \<Rightarrow> bool option" where
  "all_of P [] = Some True"
| "all_of P (x # xs) = do { b \<leftarrow> P x; if b then all_of P xs else Some False }"

fun map_all :: "('a \<Rightarrow> 'b option) \<Rightarrow> 'a list \<Rightarrow> 'b list option" where
  "map_all f [] = Some []"
| "map_all f (x # xs) = do { y \<leftarrow> f x; ys \<leftarrow> map_all f xs; Some (y # ys) }"

subsection \<open>Smoothing parameters and line configurations\<close>

text \<open>A member that is missing or of another kind of number leaves the default.\<close>

fun uint64_or_0 :: "'d json option \<Rightarrow> nat" where
  "uint64_or_0 (Some (JInt n)) = (if 0 \<le> n \<and> n < 2 ^ 64 then nat n else 0)"
| "uint64_or_0 _ = 0"

definition new_IRSmootherParam ::
  "('f, 'd) float_ops \<Rightarrow> ('f, 'd) json_ops \<Rightarrow> 'd json \<Rightarrow> ('f, 'd) SmoothingParam" where
  "new_IRSmootherParam fo jo p = IRSmootherParam
    (case member ''weight'' p of Some (JDouble d) \<Rightarrow> if jo_is_float jo d then jo_float jo d else f_zero fo
     | _ \<Rightarrow> f_zero fo)"

definition new_WindowMedianParam :: "'d json \<Rightarrow> ('f, 'd) SmoothingParam" where
  "new_WindowMedianParam p = WindowMedianParam (uint64_or_0 (member ''windowSize'' p))"

definition new_WindowToxSmoothingParam :: "('f, 'd) float_ops \<Rightarrow> 'd json \<Rightarrow> ('f, 'd) SmoothingParam" where
  "new_WindowToxSmoothingParam fo p = WindowToxSmoothingParam (uint64_or_0 (member ''windowSize'' p))
    (case member ''top'' p of Some (JDouble d) \<Rightarrow> d | _ \<Rightarrow> d_zero fo)"

text \<open>No parameter, a null pointer, for an unknown algorithm.\<close>

definition BuildSmoothingParam ::
  "('f, 'd) float_ops \<Rightarrow> ('f, 'd) json_ops \<Rightarrow> 'd json \<Rightarrow> ('f, 'd) SmoothingParam option option" where
  "BuildSmoothingParam fo jo p = do {
     v \<leftarrow> member ''algorithm'' p;
     algorithm \<leftarrow> get_string v;
     Some (if algorithm = ''smoothing'' then Some (new_IRSmootherParam fo jo p)
       else if algorithm = ''windowMedian'' then Some (new_WindowMedianParam p)
       else if algorithm = ''windowTopx'' then Some (new_WindowToxSmoothingParam fo p)
       else None) }"

definition conf_of :: "('f, 'd) float_ops \<Rightarrow> ('f, 'd) json_ops \<Rightarrow> 'd json \<Rightarrow> ('f, 'd) line_conf option" where
  "conf_of fo jo p = do {
     t \<leftarrow> Option.bind (member ''type'' p) get_string;
     e \<leftarrow> Option.bind (member ''enable'' p) get_bool;
     sp \<leftarrow> (if e \<and> CastLineType t = L_SMOOTHING then BuildSmoothingParam fo jo p else Some None);
     Some \<lparr>lc_type = t, lc_enable = e, lc_param = sp\<rparr> }"

subsection \<open>Requests\<close>

datatype ErrCode = OK | INVALID_REQUEST_JSON | REQUEST_INVALID_PARAM | INVALID_PATH

text \<open>What a parser of requests gives: the request, or an error and its message.\<close>

type_synonym 'a request_result = "((ErrCode \<times> string) + 'a) option"

text \<open>
  The parsers with \<open>TryParseJson\<close>: they differ in the check and in the conversion.
\<close>

definition ParseRequestFromJson ::
  "('d json \<Rightarrow> bool option) \<Rightarrow> ('d json \<Rightarrow> 'a option) \<Rightarrow> string \<Rightarrow> (string + 'd json) \<Rightarrow> 'a request_result" where
  "ParseRequestFromJson valid conv prefix doc =
    (case doc of
       Inl err \<Rightarrow> Some (Inl (INVALID_REQUEST_JSON, prefix @ err))
     | Inr v \<Rightarrow> do {
         ok \<leftarrow> valid v;
         if \<not> ok then Some (Inl (REQUEST_INVALID_PARAM, ''Invalid request param''))
         else do { r \<leftarrow> conv v; Some (Inr r) } })"

record 'd graph_request =
  gr_tag :: string
  gr_file :: string
  gr_start :: "64 word"
  gr_end :: "64 word"
  gr_conf :: "'d json list"

definition GetScalarData_CheckParamValid :: "'d json \<Rightarrow> bool option" where
  "GetScalarData_CheckParamValid v = do {
     b \<leftarrow> has_such ''graphList'' is_array v;
     if \<not> b then Some False
     else do {
       xs \<leftarrow> Option.bind (member ''graphList'' v) get_array;
       all_of (all_such [(''tag'', is_string), (''file'', is_string), (''start'', is_int64), (''end'', is_int64),
         (''graphConfig'', is_array)]) xs } }"

definition graph_request_of :: "'d json \<Rightarrow> 'd graph_request option" where
  "graph_request_of g = do {
     t \<leftarrow> Option.bind (member ''tag'' g) get_string;
     f \<leftarrow> Option.bind (member ''file'' g) get_string;
     s \<leftarrow> Option.bind (member ''start'' g) get_int64;
     e \<leftarrow> Option.bind (member ''end'' g) get_int64;
     c \<leftarrow> Option.bind (member ''graphConfig'' g) get_array;
     Some \<lparr>gr_tag = t, gr_file = f, gr_start = s, gr_end = e, gr_conf = c\<rparr> }"

definition GetScalarData_ParseRequestFromJson :: "(string + 'd json) \<Rightarrow> 'd graph_request list request_result" where
  "GetScalarData_ParseRequestFromJson = ParseRequestFromJson GetScalarData_CheckParamValid
     (\<lambda>v. do { xs \<leftarrow> Option.bind (member ''graphList'' v) get_array; map_all graph_request_of xs })
     ''Invalid request json, err:''"

definition ImportFile_CheckParamValid :: "'d json \<Rightarrow> bool option" where
  "ImportFile_CheckParamValid v = do {
     b \<leftarrow> all_such [(''append'', is_bool), (''pathList'', is_array)] v;
     if \<not> b then Some False
     else do { xs \<leftarrow> Option.bind (member ''pathList'' v) get_array; Some (list_all is_string xs) } }"

definition ImportFile_ParseReqeustFromJson :: "(string + 'd json) \<Rightarrow> (bool \<times> string list) request_result" where
  "ImportFile_ParseReqeustFromJson = ParseRequestFromJson ImportFile_CheckParamValid
     (\<lambda>v. do {
        keep \<leftarrow> Option.bind (member ''append'' v) get_bool;
        xs \<leftarrow> Option.bind (member ''pathList'' v) get_array;
        ps \<leftarrow> map_all get_string xs;
        Some (keep, ps) })
     ''Invalid request json, error:''"

definition FileMerge_CheckParamValid :: "'d json \<Rightarrow> bool option" where
  "FileMerge_CheckParamValid v = do {
     b \<leftarrow> all_such [(''action'', is_string), (''name'', is_string), (''fileList'', is_array)] v;
     if \<not> b then Some False
     else do { xs \<leftarrow> Option.bind (member ''fileList'' v) get_array; Some (list_all is_string xs) } }"

text \<open>
  The merge handler parses with \<open>ParseJsonToStr\<close>, which always gives a document: it is null when the text is
  not JSON.
\<close>

definition FileMerge_ParseRequestFromJson :: "(string + 'd json) \<Rightarrow> (bool \<times> string \<times> string list) request_result" where
  "FileMerge_ParseRequestFromJson doc = ParseRequestFromJson FileMerge_CheckParamValid
     (\<lambda>v. do {
        action \<leftarrow> Option.bind (member ''action'' v) get_string;
        name \<leftarrow> Option.bind (member ''name'' v) get_string;
        xs \<leftarrow> Option.bind (member ''fileList'' v) get_array;
        fs \<leftarrow> map_all get_string xs;
        Some (action = ''merge'', name, fs) })
     ''Invalid request json,'' (case doc of Inl err \<Rightarrow> Inr JNull | Inr v \<Rightarrow> Inr v)"

definition TokenSet_CheckParamValid :: "'d json \<Rightarrow> bool option" where
  "TokenSet_CheckParamValid v = do {
     b \<leftarrow> has_such ''params'' is_array v;
     if \<not> b then Some False
     else do {
       xs \<leftarrow> Option.bind (member ''params'' v) get_array;
       all_of (\<lambda>x. if \<not> is_object x then Some False
         else all_such [(''file'', is_string), (''globalBatchSize'', is_number), (''seqLength'', is_number)] x) xs } }"

definition TokenSet_ParseReqeustFromJson ::
  "('f, 'd) json_ops \<Rightarrow> (string + 'd json) \<Rightarrow> (string \<times> 'd \<times> 'd) list request_result" where
  "TokenSet_ParseReqeustFromJson jo = ParseRequestFromJson TokenSet_CheckParamValid
     (\<lambda>v. do {
        xs \<leftarrow> Option.bind (member ''params'' v) get_array;
        map_all (\<lambda>x. do {
          f \<leftarrow> Option.bind (member ''file'' x) get_string;
          b \<leftarrow> Option.bind (member ''globalBatchSize'' x) (get_double jo);
          s \<leftarrow> Option.bind (member ''seqLength'' x) (get_double jo);
          Some (f, b, s) }) xs })
     ''Invalid request json, error:''"

definition GetParseState_CheckParamValid :: "'d json \<Rightarrow> bool option" where
  "GetParseState_CheckParamValid v =
    (if \<not> is_object v then Some False
     else do {
       b \<leftarrow> has_such ''projectNameLists'' is_array v;
       if \<not> b then Some False
       else do { xs \<leftarrow> Option.bind (member ''projectNameLists'' v) get_array; Some (list_all is_string xs) } })"

definition GetParseState_ParseRequestFromJson :: "(string + 'd json) \<Rightarrow> string list request_result" where
  "GetParseState_ParseRequestFromJson = ParseRequestFromJson GetParseState_CheckParamValid
     (\<lambda>v. do { xs \<leftarrow> Option.bind (member ''projectNameLists'' v) get_array; map_all get_string xs })
     ''Invalid request json, error:''"

end
