(* ===== verification/Scalar_requests.thy ===== *)
theory Scalar_requests
  imports Scalar_json
begin

text \<open>
  The handlers of the Scalar server (\<open>plugin/Handler\<close>): what a request does to the server, the response, and
  the value \<open>run\<close> returns.  A response is the document that is printed.  Where the code walks over an
  unordered map, the order of its keys is an argument.
\<close>

subsection \<open>Responses\<close>

fun AddJsonMember :: "string \<Rightarrow> 'd json \<Rightarrow> 'd json \<Rightarrow> 'd json" where
  "AddJsonMember k v (JObject ms) = JObject (ms @ [(k, v)])"
| "AddJsonMember k v j = j"

definition strings_json :: "string list \<Rightarrow> 'd json" where
  "strings_json ss = JArray (map JString ss)"

definition set_json :: "string set \<Rightarrow> 'd json" where
  "set_json s = strings_json (sorted_list_of_set s)"

fun replace_member :: "string \<Rightarrow> ('d json \<Rightarrow> 'd json) \<Rightarrow> (string \<times> 'd json) list \<Rightarrow> (string \<times> 'd json) list" where
  "replace_member k f [] = []"
| "replace_member k f ((l, v) # ms) = (if l = k then (l, f v) # ms else (l, v) # replace_member k f ms)"

fun at_member :: "string \<Rightarrow> ('d json \<Rightarrow> 'd json) \<Rightarrow> 'd json \<Rightarrow> 'd json" where
  "at_member k f (JObject ms) = JObject (replace_member k f ms)"
| "at_member k f j = j"

definition GetBasicResponse :: "'d json" where
  "GetBasicResponse = JObject [(''body'', JObject []), (''msg'', JString []), (''errCode'', JInt 0), (''result'', JBool True)]"

fun err_number :: "ErrCode \<Rightarrow> int" where
  "err_number OK = 0"
| "err_number INVALID_REQUEST_JSON = 1"
| "err_number REQUEST_INVALID_PARAM = 2"
| "err_number INVALID_PATH = 3"

definition SetResponseError :: "ErrCode \<Rightarrow> string \<Rightarrow> 'd json \<Rightarrow> 'd json" where
  "SetResponseError code msg r = at_member ''result'' (\<lambda>_. JBool False)
     (at_member ''msg'' (\<lambda>_. JString msg) (at_member ''errCode'' (\<lambda>_. JInt (err_number code)) r))"

definition in_body :: "string \<Rightarrow> 'd json \<Rightarrow> 'd json \<Rightarrow> 'd json" where
  "in_body k v r = at_member ''body'' (AddJsonMember k v) r"

text \<open>\<open>std::to_string\<close> of an integer.\<close>

function nat_digits :: "nat \<Rightarrow> string" where
  "nat_digits n = (if n < 10 then [char_of (48 + n)] else nat_digits (n div 10) @ [char_of (48 + n mod 10)])"
  by auto
termination by (relation "measure id") auto

declare nat_digits.simps [simp del]

definition show_int :: "int \<Rightarrow> string" where
  "show_int i = (if i < 0 then CHR 0x2D # nat_digits (nat (- i)) else nat_digits (nat i))"

definition GetReadableFileName :: "string \<Rightarrow> string" where
  "GetReadableFileName path = (if path = [] then [] else path_filename path)"

subsection \<open>Data of graphs\<close>

definition request_of ::
  "('f, 'd) float_ops \<Rightarrow> ('f, 'd) json_ops \<Rightarrow> 'd graph_request \<Rightarrow> ('f, 'd) SingleGraphReqInfo option" where
  "request_of fo jo g = do {
     ls \<leftarrow> map_all (conf_of fo jo) (gr_conf g);
     Some \<lparr>rq_tag = gr_tag g, rq_file = gr_file g, rq_start = gr_start g, rq_end = gr_end g, rq_lines = ls\<rparr> }"

fun process_requests ::
  "('f, 'd) float_ops \<Rightarrow> ('f, 'd) json_ops \<Rightarrow> 'd graph_request list \<Rightarrow> ('f, 'd) Server
   \<Rightarrow> (('f, 'd) Server \<times> ('f, 'd) ScalarResponse list) option" where
  "process_requests fo jo [] sv = Some (sv, [])"
| "process_requests fo jo (g # gs) sv = do {
     r \<leftarrow> request_of fo jo g;
     (sv1, res) \<leftarrow> ProcessSingleGraphReq fo r sv;
     (sv2, ress) \<leftarrow> process_requests fo jo gs sv1;
     Some (sv2, res # ress) }"

definition point_json :: "('f, 'd) float_ops \<Rightarrow> ('f, 'd) json_ops \<Rightarrow> ('f, 'd) ScalarPoint \<Rightarrow> 'd json" where
  "point_json fo jo p = JObject
     [(''value'', if f_isnan fo (sp_value p) \<or> f_isinf fo (sp_value p) then JString (jo_show jo (sp_value p))
                  else JDouble (jo_double jo (sp_value p))),
      (''wallTime'', JDouble (sp_wallTime p)), (''date'', JString (sp_localTime p))]"

definition line_json :: "('f, 'd) float_ops \<Rightarrow> ('f, 'd) json_ops \<Rightarrow> ('f, 'd) ScalarPoint list \<Rightarrow> 'd json" where
  "line_json fo jo ps = foldl (\<lambda>line p. AddJsonMember (show_int (sint (sp_step p))) (point_json fo jo p) line) (JObject []) ps"

definition date_json :: "('f, 'd) json_ops \<Rightarrow> 64 word \<times> 'f \<times> string \<Rightarrow> 'd json" where
  "date_json jo = (\<lambda>(step, value, date). JObject
     [(''step'', JInt (uint step)), (''value'', JDouble (jo_double jo value)), (''date'', JString date)])"

definition graph_json :: "('f, 'd) float_ops \<Rightarrow> ('f, 'd) json_ops \<Rightarrow> ('f, 'd) ScalarResponse \<Rightarrow> 'd json" where
  "graph_json fo jo g = AddJsonMember ''dateConfig'' (JArray (map (date_json jo) (rs_dateIndex g)))
     (foldl (\<lambda>graph (t, ps). AddJsonMember t (line_json fo jo ps) graph)
       (JObject [(''tag'', JString (rs_tag g)), (''file'', JString (rs_file g))]) (rs_lines g))"

definition GetScalarData_SetResponse ::
  "('f, 'd) float_ops \<Rightarrow> ('f, 'd) json_ops \<Rightarrow> ('f, 'd) ScalarResponse list \<Rightarrow> 'd json \<Rightarrow> 'd json" where
  "GetScalarData_SetResponse fo jo gs r = in_body ''data'' (JArray (map (graph_json fo jo) gs)) r"

text \<open>The server, the response and the value returned.\<close>

type_synonym ('f, 'd) run_result = "(('f, 'd) Server \<times> 'd json \<times> bool) option"

definition GetScalarData_run ::
  "('f, 'd) float_ops \<Rightarrow> ('f, 'd) json_ops \<Rightarrow> (string + 'd json) \<Rightarrow> ('f, 'd) Server \<Rightarrow> ('f, 'd) run_result" where
  "GetScalarData_run fo jo doc sv =
    (case GetScalarData_ParseRequestFromJson doc of
       None \<Rightarrow> None
     | Some (Inl (code, msg)) \<Rightarrow> Some (sv, SetResponseError code msg GetBasicResponse, False)
     | Some (Inr gs) \<Rightarrow> do {
         (sv', res) \<leftarrow> process_requests fo jo gs sv;
         Some (sv', GetScalarData_SetResponse fo jo res GetBasicResponse, True) })"

subsection \<open>Queries\<close>

definition file_item :: "string \<Rightarrow> 'd json" where
  "file_item f = JObject [(''path'', JString f), (''name'', JString (GetReadableFileName f))]"

definition GetAllGraph_run :: "string list \<Rightarrow> ('f, 'd) Server \<Rightarrow> ('f, 'd) run_result" where
  "GetAllGraph_run order sv = Some (sv, in_body ''data'' (JArray (map (\<lambda>tag. JObject
     [(''tag'', JString tag), (''fileList'', JArray (map file_item (sorted_list_of_set (set_at (GetAllGraphInfo sv) tag))))])
     order)) GetBasicResponse, True)"

definition incremental_item :: "string list \<Rightarrow> string \<Rightarrow> 'd json option" where
  "incremental_item imported f = do {
     dirs \<leftarrow> GetFileHierarchy f imported;
     Some (JObject [(''name'', JString (GetReadableFileName f)), (''path'', JString f), (''dirs'', strings_json dirs)]) }"

definition GetIncrementalTag_run :: "string list \<Rightarrow> ('f, 'd) Server \<Rightarrow> ('f, 'd) run_result" where
  "GetIncrementalTag_run order sv =
    (let (sv', found) = GetIncremental order sv in do {
       infos \<leftarrow> map_all (\<lambda>(tag, fs). do {
         items \<leftarrow> map_all (incremental_item (sv_importedPaths sv')) (sorted_list_of_set fs);
         Some (JObject [(''tag'', JString tag), (''fileList'', JArray items)]) }) found;
       Some (sv', in_body ''data'' (JArray infos) GetBasicResponse, True) })"

definition state_json :: "string \<times> bool \<times> 32 word \<Rightarrow> 'd json" where
  "state_json = (\<lambda>(project, finish, percent). JObject
     [(''projectName'', JString project), (''finish'', JBool finish), (''percent'', JInt (uint percent))])"

fun parse_states :: "string list \<Rightarrow> ('f, 'd) Server \<Rightarrow> ('f, 'd) Server \<times> (string \<times> bool \<times> 32 word) list" where
  "parse_states [] sv = (sv, [])"
| "parse_states (p # ps) sv =
    (let (sv1, s) = GetProjectParseStatus p sv; (sv2, ss) = parse_states ps sv1 in (sv2, s # ss))"

definition GetParseState_run :: "(string + 'd json) \<Rightarrow> ('f, 'd) Server \<Rightarrow> ('f, 'd) run_result" where
  "GetParseState_run doc sv =
    (case GetParseState_ParseRequestFromJson doc of
       None \<Rightarrow> None
     | Some (Inl (code, msg)) \<Rightarrow> Some (sv, SetResponseError code msg GetBasicResponse, False)
     | Some (Inr ps) \<Rightarrow>
         let (sv', ss) = parse_states ps sv in
         Some (sv', in_body ''stateList'' (JArray (map state_json ss)) GetBasicResponse, True))"

definition QueryCreatedFile_run :: "string list \<Rightarrow> ('f, 'd) Server \<Rightarrow> ('f, 'd) run_result" where
  "QueryCreatedFile_run order sv =
    (let (sv', created) = GetCreatedFileGroupByDir sv in
     Some (sv', in_body ''data'' (JArray (map (\<lambda>dir. JObject [(''dir'', JString dir), (''fileList'', set_json (set_at created dir))])
       order)) GetBasicResponse, True))"

subsection \<open>Merging and tokens\<close>

definition merge_json :: "string \<Rightarrow> string set \<Rightarrow> string set \<Rightarrow> string \<Rightarrow> 'd json" where
  "merge_json file tags subFiles action = JObject
     [(''file'', JString file), (''tags'', set_json tags), (''fileList'', set_json subFiles), (''action'', JString action)]"

definition FileMerge_run ::
  "('f, 'd) float_ops \<Rightarrow> (string + 'd json) \<Rightarrow> ('f, 'd) Server \<Rightarrow> ('f, 'd) run_result" where
  "FileMerge_run fo doc sv =
    (case FileMerge_ParseRequestFromJson doc of
       None \<Rightarrow> None
     | Some (Inl (code, msg)) \<Rightarrow> Some (sv, SetResponseError code msg GetBasicResponse, False)
     | Some (Inr (merge, name, files)) \<Rightarrow>
         if list_ex (\<lambda>f. case GetFileInfo f sv of None \<Rightarrow> True | Some i \<Rightarrow> fi_type i = VISUAL) files
         then Some (sv, SetResponseError REQUEST_INVALID_PARAM ''Invalid File'' GetBasicResponse, False)
         else if merge then
           let (sv', f) = FileMerge fo files name sv in
           Some (sv', in_body ''data'' (merge_json (fi_filePath f) (fi_tag f) (fi_subFiles f) ''merge'') GetBasicResponse, True)
         else (case GetFileInfo name sv of
           None \<Rightarrow> Some (sv, SetResponseError REQUEST_INVALID_PARAM ''Unmerge failed'' GetBasicResponse, True)
         | Some f \<Rightarrow>
             if fi_type f \<noteq> VISUAL
             then Some (sv, SetResponseError REQUEST_INVALID_PARAM ''Unmerge failed'' GetBasicResponse, True)
             else Some (FileUnMerge name sv,
               in_body ''data'' (merge_json (fi_filePath f) (fi_tag f) {} ''unset'') GetBasicResponse, True)))"

definition token_json :: "string \<times> 'd \<times> 'd \<Rightarrow> string set \<Rightarrow> 'd json" where
  "token_json info tags = JObject [(''file'', JString (fst info)), (''globalBatchSize'', JDouble (fst (snd info))),
     (''seqLength'', JDouble (snd (snd info))), (''tag'', set_json tags)]"

fun set_tokens ::
  "(string \<times> 'd \<times> 'd) list \<Rightarrow> ('f, 'd) Server \<Rightarrow> ('f, 'd) Server \<times> 'd json list" where
  "set_tokens [] sv = (sv, [])"
| "set_tokens ((f, b, s) # is) sv =
    (let (sv1, r) = SetFileToken f b s sv; (sv2, js) = set_tokens is sv1 in
     (sv2, token_json (f, b, s) (case r of Inl _ \<Rightarrow> {} | Inr tags \<Rightarrow> tags) # js))"

text \<open>
  After an error in the request the handler goes on with an empty request; the messages of \<open>SetFileToken\<close> are
  collected and not sent.
\<close>

definition TokenSet_run ::
  "('f, 'd) json_ops \<Rightarrow> (string + 'd json) \<Rightarrow> ('f, 'd) Server \<Rightarrow> ('f, 'd) run_result" where
  "TokenSet_run jo doc sv = do {
     r \<leftarrow> TokenSet_ParseReqeustFromJson jo doc;
     let (base, infos) = (case r of Inl (code, msg) \<Rightarrow> (SetResponseError code msg GetBasicResponse, [])
        | Inr infos \<Rightarrow> (GetBasicResponse, infos));
         (sv', js) = set_tokens infos sv
     in Some (sv', in_body ''data'' (JArray js) base, True) }"

subsection \<open>Importing\<close>

text \<open>
  The file system: what a path is, and the entries of a directory, none when the iterator cannot be made, which
  throws.
\<close>

record fs_env =
  fe_exists :: "string \<Rightarrow> bool"
  fe_is_directory :: "string \<Rightarrow> bool"
  fe_is_regular :: "string \<Rightarrow> bool"
  fe_readable :: "string \<Rightarrow> bool"
  fe_entries :: "string \<Rightarrow> string list option"
  fe_size :: "string \<Rightarrow> 64 word option"

definition found_files :: "fs_env \<Rightarrow> string list \<Rightarrow> string list" where
  "found_files env es = filter (\<lambda>e. \<not> fe_is_directory env e \<and> fe_is_regular env e \<and> IsFileSupported e) es"

text \<open>The loop of \<open>RecursiveScanFolder\<close>: the list of files, and whether it ended without an exception.\<close>

partial_function (option) scan_queue ::
  "fs_env \<Rightarrow> int \<Rightarrow> (string \<times> int) list \<Rightarrow> string list \<Rightarrow> (string list \<times> bool) option" where
  "scan_queue env maxDepth queue files =
    (case queue of
       [] \<Rightarrow> Some (files, True)
     | (path, depth) # rest \<Rightarrow>
         if depth = maxDepth then scan_queue env maxDepth rest files
         else if \<not> fe_readable env path then scan_queue env maxDepth rest files
         else case fe_entries env path of
           None \<Rightarrow> Some (files, False)
         | Some es \<Rightarrow> scan_queue env maxDepth
             (rest @ map (\<lambda>e. (e, depth + 1)) (filter (fe_is_directory env) es)) (files @ found_files env es))"

definition RecursiveScanFolder :: "fs_env \<Rightarrow> int \<Rightarrow> string \<Rightarrow> string list \<Rightarrow> (string list \<times> bool) option" where
  "RecursiveScanFolder env maxDepth path files =
    (if path = [] \<or> maxDepth < 0 then Some (files, True)
     else if \<not> fe_exists env path \<or> \<not> fe_is_directory env path then Some (files, True)
     else scan_queue env maxDepth [(path, 0)] files)"

definition MAX_DEPTH :: int where
  "MAX_DEPTH = 7"

text \<open>An exception of the file system ends the scan of one path; what was found before stays in the list.\<close>

fun GetImportFiles :: "fs_env \<Rightarrow> string list \<Rightarrow> string list \<Rightarrow> string list option" where
  "GetImportFiles env [] res = Some res"
| "GetImportFiles env (path # paths) res =
    (case RecursiveScanFolder env MAX_DEPTH path
        (if \<not> fe_is_directory env path \<and> IsFileSupported path then res @ [path] else res) of
       None \<Rightarrow> None
     | Some (res', _) \<Rightarrow> GetImportFiles env paths res')"

definition import_path :: "fs_env \<Rightarrow> string \<Rightarrow> ('f, 'd) Server \<Rightarrow> ('f, 'd) Server" where
  "import_path env p sv = AddImportedPath (if fe_is_directory env p then p else path_parent p) sv"

text \<open>No result when a size that cannot be had makes \<open>AddParseTask\<close> throw.\<close>

definition ImportFile_run ::
  "('f, 'd) parse_env \<Rightarrow> fs_env \<Rightarrow> string list \<Rightarrow> (string + 'd json) \<Rightarrow> ('f, 'd) Server \<Rightarrow> ('f, 'd) run_result" where
  "ImportFile_run e env order doc sv =
    (case ImportFile_ParseReqeustFromJson doc of
       None \<Rightarrow> None
     | Some (Inl (code, msg)) \<Rightarrow> Some (sv, SetResponseError code msg GetBasicResponse, False)
     | Some (Inr (keep, paths)) \<Rightarrow>
         let sv1 = (if keep then sv else Server_Reset order sv);
             (sv2, n) = GetProjectName sv1;
             project = show_int (uint n);
             sv3 = fold (import_path env) paths sv2
         in case GetImportFiles env paths [] of
           None \<Rightarrow> None
         | Some files \<Rightarrow>
             let (sv4, ok) = AddParseTask e (fe_size env) project files sv3 in
             if ok then Some (sv4, in_body ''projectName'' (JString project) GetBasicResponse, True) else None)"

end
