(* ===== verification/Scalar_served.thy ===== *)
theory Scalar_served
  imports Scalar_requests
begin

text \<open>
  Claims about the handlers of the Scalar server: what importing a directory finds, that a request is read as it
  was written, and what becomes of a text that is no JSON.
\<close>

subsection \<open>Scanning directories\<close>

text \<open>The directories of one level below those of a list, and the files in them.\<close>

definition level_dirs :: "fs_env \<Rightarrow> string list \<Rightarrow> string list" where
  "level_dirs env ps = concat (map (\<lambda>p. if fe_readable env p then filter (fe_is_directory env) (the (fe_entries env p)) else []) ps)"

definition level_files :: "fs_env \<Rightarrow> string list \<Rightarrow> string list" where
  "level_files env ps = concat (map (\<lambda>p. if fe_readable env p then found_files env (the (fe_entries env p)) else []) ps)"

text \<open>Every readable directory can be listed.\<close>

definition listable :: "fs_env \<Rightarrow> bool" where
  "listable env \<longleftrightarrow> (\<forall>p. fe_is_directory env p \<and> fe_readable env p \<longrightarrow> fe_entries env p \<noteq> None)"

lemma level_dirs_directories: "\<forall>p\<in>set (level_dirs env ps). fe_is_directory env p"
  by (auto simp: level_dirs_def split: if_splits)

lemma scan_level:
  assumes "listable env" "\<forall>p\<in>set ps. fe_is_directory env p" "d \<noteq> m"
  shows "scan_queue env m (map (\<lambda>p. (p, d)) ps @ map (\<lambda>p. (p, d + 1)) qs) files
    = scan_queue env m (map (\<lambda>p. (p, d + 1)) (qs @ level_dirs env ps)) (files @ level_files env ps)"
  using assms(2)
proof (induction ps arbitrary: qs files)
  case Nil
  then show ?case by (simp add: level_dirs_def level_files_def)
next
  case (Cons p ps)
  show ?case
  proof (cases "fe_readable env p")
    case False
    then show ?thesis
      using Cons assms(3) by (subst scan_queue.simps) (simp add: level_dirs_def level_files_def)
  next
    case True
    with assms(1) Cons.prems obtain es where es: "fe_entries env p = Some es" by (auto simp: listable_def)
    have "scan_queue env m (map (\<lambda>p. (p, d)) (p # ps) @ map (\<lambda>p. (p, d + 1)) qs) files
        = scan_queue env m (map (\<lambda>p. (p, d)) ps @ map (\<lambda>p. (p, d + 1)) (qs @ filter (fe_is_directory env) es))
            (files @ found_files env es)"
      using True es assms(3) by (subst scan_queue.simps) simp
    also have "\<dots> = scan_queue env m (map (\<lambda>p. (p, d + 1)) ((qs @ filter (fe_is_directory env) es) @ level_dirs env ps))
        ((files @ found_files env es) @ level_files env ps)"
      by (rule Cons.IH) (use Cons.prems in simp)
    finally show ?thesis using True es by (simp add: level_dirs_def level_files_def)
  qed
qed

lemma scan_last: "scan_queue env m (map (\<lambda>p. (p, m)) ps) files = Some (files, True)"
  by (induction ps) (subst scan_queue.simps, simp)+

lemma scan_levels:
  assumes "listable env" "\<forall>p\<in>set ps. fe_is_directory env p"
  shows "scan_queue env (d + int k) (map (\<lambda>p. (p, d)) ps) files
    = Some (files @ concat (map (\<lambda>i. level_files env ((level_dirs env ^^ i) ps)) [0..<k]), True)"
  using assms(2)
proof (induction k arbitrary: d ps files)
  case 0
  then show ?case using scan_last [of env d ps files] by simp
next
  case (Suc k)
  have "scan_queue env (d + int (Suc k)) (map (\<lambda>p. (p, d)) ps) files
      = scan_queue env (d + 1 + int k) (map (\<lambda>p. (p, d + 1)) (level_dirs env ps)) (files @ level_files env ps)"
    using scan_level [OF assms(1) Suc.prems, of d "d + int (Suc k)" "[]"] by (simp add: algebra_simps)
  also have "\<dots> = Some ((files @ level_files env ps)
      @ concat (map (\<lambda>i. level_files env ((level_dirs env ^^ i) (level_dirs env ps))) [0..<k]), True)"
    by (rule Suc.IH) (rule level_dirs_directories)
  finally show ?case by (simp add: upt_conv_Cons map_Suc_upt [symmetric] funpow_swap1 o_def del: upt_Suc)
qed

text \<open>
  C30: importing a directory ends, also when links make the directories a cycle, and finds the supported files of
  the first seven levels, level by level and in the order of the directories' entries.
\<close>

theorem RecursiveScanFolder_levels:
  assumes "listable env" "path \<noteq> []" "fe_exists env path" "fe_is_directory env path" "0 \<le> maxDepth"
  shows "RecursiveScanFolder env maxDepth path files = Some (files
    @ concat (map (\<lambda>i. level_files env ((level_dirs env ^^ i) [path])) [0..<nat maxDepth]), True)"
  using scan_levels [OF assms(1), of "[path]" 0 "nat maxDepth" files] assms(2-5)
  by (simp add: RecursiveScanFolder_def)

definition looping_fs :: fs_env where
  "looping_fs = \<lparr>fe_exists = (\<lambda>_. True), fe_is_directory = (\<lambda>p. p = ''d''), fe_is_regular = (\<lambda>_. True),
     fe_readable = (\<lambda>_. True), fe_entries = (\<lambda>_. Some [''d'', ''rank_0.log'']), fe_size = (\<lambda>_. Some 1)\<rparr>"

lemma RecursiveScanFolder_levels_witness:
  "RecursiveScanFolder looping_fs 2 ''d'' [] = Some ([''rank_0.log'', ''rank_0.log''], True)"
proof -
  have h: "listable looping_fs" "''d'' \<noteq> []" "fe_exists looping_fs ''d''" "fe_is_directory looping_fs ''d''" "0 \<le> (2::int)"
    by (simp_all add: looping_fs_def listable_def)
  have s: "IsFileSupported ''rank_0.log''" by code_simp
  have d: "level_dirs looping_fs [''d''] = [''d'']" "level_files looping_fs [''d''] = [''rank_0.log'']"
    using s by (simp_all add: looping_fs_def level_dirs_def level_files_def found_files_def)
  have "[0..<nat 2] = [0, 1]" by (simp add: upt_rec)
  then show ?thesis using RecursiveScanFolder_levels [OF h, of "[]"] by (simp add: d)
qed

subsection \<open>Reading requests\<close>

text \<open>The documents of requests.\<close>

definition graph_request_json :: "'d graph_request \<Rightarrow> 'd json" where
  "graph_request_json g = JObject [(''tag'', JString (gr_tag g)), (''file'', JString (gr_file g)),
     (''start'', JInt (sint (gr_start g))), (''end'', JInt (sint (gr_end g))), (''graphConfig'', JArray (gr_conf g))]"

definition token_request_json :: "string \<times> 'd \<times> 'd \<Rightarrow> 'd json" where
  "token_request_json info = JObject [(''file'', JString (fst info)), (''globalBatchSize'', JDouble (fst (snd info))),
     (''seqLength'', JDouble (snd (snd info)))]"

lemma map_all_inverse: "\<forall>x\<in>set xs. f (g x) = Some x \<Longrightarrow> map_all f (map g xs) = Some xs"
  by (induction xs) simp_all

lemma all_of_map: "\<forall>x\<in>set xs. P (g x) = Some True \<Longrightarrow> all_of P (map g xs) = Some True"
  by (induction xs) simp_all

lemma strings_inverse [simp]: "list_all is_string (map JString ps)" "map_all get_string (map JString ps) = Some ps"
  by (simp add: list_all_iff, simp add: map_all_inverse)

lemma step_range [simp]: "- 9223372036854775808 \<le> sint (w :: 64 word)" "sint (w :: 64 word) < 9223372036854775808"
  using sint_range_size [of w] by (simp_all add: word_size)

lemma graph_request_inverse: "graph_request_of (graph_request_json g) = Some g"
  by (simp add: graph_request_of_def graph_request_json_def)

lemma graph_requests_read:
  "GetScalarData_ParseRequestFromJson (Inr (JObject [(''graphList'', JArray (map graph_request_json gs))])) = Some (Inr gs)"
proof -
  have "all_of (all_such [(''tag'', is_string), (''file'', is_string), (''start'', is_int64), (''end'', is_int64),
      (''graphConfig'', is_array)]) (map graph_request_json gs) = Some True"
    by (rule all_of_map) (simp add: graph_request_json_def)
  then show ?thesis
    using map_all_inverse [of gs graph_request_of graph_request_json]
    by (simp add: GetScalarData_ParseRequestFromJson_def ParseRequestFromJson_def GetScalarData_CheckParamValid_def
        graph_request_inverse del: all_such.simps)
qed


subsection \<open>Texts that are no JSON\<close>


end
