(* ===== verification/Scalar_http.thy ===== *)
theory Scalar_http
  imports Scalar_served
begin

text \<open>
  How requests reach the handlers: plugins and their handlers (\<open>plugin_core\<close>,
  \<open>plugin/ScalarVisualPlugin.cpp\<close>, \<open>ModelVis/server\<close>) and the HTTP server
  (\<open>tools/httpServer/HttpServer.cpp\<close>).

  Receiving and sending is the work of uWebSockets: a request is its method, its path and its query or the chunks
  of its body, a response is its headers and its text.  Parsing and printing JSON text are parameters, and so is the
  Rust library behind the layout of models.
\<close>

subsection \<open>Plugins\<close>

datatype API_TYPE = GET | POST

text \<open>A handler has a type and runs on a text with the result so far; \<open>'s\<close> is the state of all plugins.\<close>

record 's ApiHandler =
  ah_type :: API_TYPE
  ah_run :: "'s \<Rightarrow> string \<Rightarrow> string \<Rightarrow> ('s \<times> string \<times> bool) option"

type_synonym 's handlers = "(string \<times> 's ApiHandler) list"

record 's BasePlugin =
  bp_name :: string
  bp_handlers :: "'s handlers"

text \<open>Both maps keep their first entry for a key; they are kept in the order of the keys.\<close>

fun map_insert :: "string \<Rightarrow> 'a \<Rightarrow> (string \<times> 'a) list \<Rightarrow> (string \<times> 'a) list" where
  "map_insert k v [] = [(k, v)]"
| "map_insert k v ((l, w) # m) =
    (if l = k then (l, w) # m else if string_less k l then (k, v) # (l, w) # m else (l, w) # map_insert k v m)"

definition RegisterPlugin :: "'s BasePlugin \<Rightarrow> (string \<times> 's BasePlugin) list \<Rightarrow> (string \<times> 's BasePlugin) list" where
  "RegisterPlugin p m = map_insert (bp_name p) p m"

subsection \<open>The HTTP server\<close>

record http_response =
  hr_headers :: "(string \<times> string) list"
  hr_body :: string

definition cors_headers :: "(string \<times> string) list" where
  "cors_headers = [(''Access-Control-Allow-Origin'', ''*''),
     (''Access-Control-Allow-Methods'', ''GET, POST, OPTIONS''),
     (''Access-Control-Allow-Headers'', ''Content-Type''),
     (''Access-Control-Allow-Credentials'', ''true'')]"

definition GetBasicResult :: string where
  "GetBasicResult = [CHR 0x7B, CHR 0x22] @ ''body'' @ [CHR 0x22, CHR 0x3A, CHR 0x7B, CHR 0x7D, CHR 0x2C] @ '' ''
     @ [CHR 0x22] @ ''msg'' @ [CHR 0x22, CHR 0x3A, CHR 0x22, CHR 0x22, CHR 0x2C] @ '' ''
     @ [CHR 0x22] @ ''errCode'' @ [CHR 0x22] @ '':0, '' @ [CHR 0x22] @ ''result'' @ [CHR 0x22] @ '':true}''"

text \<open>The value \<open>run\<close> returns is not looked at.\<close>

definition AddGetHandler :: "'s ApiHandler \<Rightarrow> string \<Rightarrow> 's \<Rightarrow> ('s \<times> http_response) option" where
  "AddGetHandler h query s = do {
     (s', result, ok) \<leftarrow> ah_run h s query GetBasicResult;
     Some (s', \<lparr>hr_headers = cors_headers, hr_body = result\<rparr>) }"

text \<open>A chunk of a body: it is added to the buffer, and the last one runs the handler.\<close>

definition on_data ::
  "'s ApiHandler \<Rightarrow> string \<Rightarrow> bool \<Rightarrow> string \<times> 's \<Rightarrow> ((string \<times> 's) \<times> http_response option) option" where
  "on_data h data isEnd st =
    (let body = fst st @ data in
     if \<not> isEnd then Some ((body, snd st), None)
     else do {
       (s', result, success) \<leftarrow> ah_run h (snd st) body GetBasicResult;
       Some ((body, s'), Some \<lparr>hr_headers = cors_headers, hr_body = result\<rparr>) })"

text \<open>The chunks of one request, the last one marked as such.\<close>

fun post_chunks :: "'s ApiHandler \<Rightarrow> string list \<Rightarrow> string \<times> 's \<Rightarrow> ((string \<times> 's) \<times> http_response list) option" where
  "post_chunks h [] st = Some (st, [])"
| "post_chunks h (c # cs) st = do {
     (st1, r) \<leftarrow> on_data h c (cs = []) st;
     (st2, rs) \<leftarrow> post_chunks h cs st1;
     Some (st2, (case r of None \<Rightarrow> [] | Some x \<Rightarrow> [x]) @ rs) }"

definition AddPostHandler :: "'s ApiHandler \<Rightarrow> string list \<Rightarrow> 's \<Rightarrow> ('s \<times> http_response list) option" where
  "AddPostHandler h chunks s = do { (st, rs) \<leftarrow> post_chunks h chunks ([], s); Some (snd st, rs) }"

text \<open>
  The routes of all plugins, in the order in which they are added; the one for \<open>test\<close>, which answers nothing, is
  left out.
\<close>

definition AddApiHandlers :: "(string \<times> 's BasePlugin) list \<Rightarrow> (API_TYPE \<times> string \<times> 's ApiHandler) list" where
  "AddApiHandlers m = concat (map (\<lambda>(name, p). map (\<lambda>(key, h).
     (ah_type h, [slash] @ name @ [slash] @ key, h)) (bp_handlers p)) m)"

fun route :: "API_TYPE \<Rightarrow> string \<Rightarrow> (API_TYPE \<times> string \<times> 's ApiHandler) list \<Rightarrow> 's ApiHandler option" where
  "route t path [] = None"
| "route t path ((u, p, h) # rs) = (if u = t \<and> p = path then Some h else route t path rs)"

subsection \<open>The two plugins\<close>

text \<open>What the handlers of the Scalar plugin depend on besides the server.\<close>

record ('f, 'd) handler_env =
  he_parse :: "('f, 'd) parse_env"
  he_json :: "('f, 'd) json_ops"
  he_fs :: fs_env
  he_read :: "string \<Rightarrow> string + 'd json"
  he_print :: "'d json \<Rightarrow> string"
  he_graphs :: "('f, 'd) Server \<Rightarrow> string list"
  he_created :: "('f, 'd) Server \<Rightarrow> string list"
  he_incremental :: "('f, 'd) Server \<Rightarrow> string list"
  he_watched :: "('f, 'd) Server \<Rightarrow> string list"

definition PostHandler ::
  "('f, 'd) handler_env \<Rightarrow> ((string + 'd json) \<Rightarrow> ('f, 'd) Server \<Rightarrow> ('f, 'd) run_result) \<Rightarrow> ('f, 'd) Server ApiHandler" where
  "PostHandler he run = \<lparr>ah_type = POST, ah_run = (\<lambda>sv data result. do {
     (sv', r, ok) \<leftarrow> run (he_read he data) sv;
     Some (sv', he_print he r, ok) })\<rparr>"

definition ScalarVisualPlugin :: "('f, 'd) handler_env \<Rightarrow> ('f, 'd) Server BasePlugin" where
  "ScalarVisualPlugin he = \<lparr>bp_name = ''ScalarVisually'', bp_handlers = fold (\<lambda>(k, h). map_insert k h)
     [(''ImportFile'', PostHandler he (\<lambda>doc sv. ImportFile_run (he_parse he) (he_fs he) (he_watched he sv) doc sv)),
      (''GetAllGraph'', PostHandler he (\<lambda>doc sv. GetAllGraph_run (he_graphs he sv) sv)),
      (''GetScalarData'', PostHandler he (GetScalarData_run (pe_ops (he_parse he)) (he_json he))),
      (''GetAddFiles'', PostHandler he (\<lambda>doc sv. QueryCreatedFile_run (he_created he sv) sv)),
      (''GetParseState'', PostHandler he GetParseState_run),
      (''GetIncrementalTag'', PostHandler he (\<lambda>doc sv. GetIncrementalTag_run (he_incremental he sv) sv)),
      (''FileMerge'', PostHandler he (FileMerge_run (pe_ops (he_parse he)))),
      (''TokenParamSet'', PostHandler he (TokenSet_run (he_json he)))] []\<rparr>"

definition GetModuleConfig :: "'d json" where
  "GetModuleConfig = JObject [(''name'', JString ''Scalar''), (''requestName'', JString ''scalar''),
     (''attributes'', JObject [(''src'', JString ''./plugins/Scalar/index.html'')]),
     (''isDefault'', JBool True), (''isCluster'', JBool True), (''isCompute'', JBool True), (''isJupyter'', JBool True)]"

text \<open>The layout of a model is the answer of the Rust library; the other handler keeps the result it is given.\<close>

definition ModelVisPlugin :: "(string \<Rightarrow> string) \<Rightarrow> 's BasePlugin" where
  "ModelVisPlugin layout_rs = \<lparr>bp_name = ''ModelVisual'', bp_handlers =
     [(''Layout'', \<lparr>ah_type = POST, ah_run = (\<lambda>s data result. Some (s, layout_rs data, True))\<rparr>),
      (''MiningSubGraph'', \<lparr>ah_type = GET, ah_run = (\<lambda>s data result. Some (s, result, True))\<rparr>)]\<rparr>"

text \<open>The values of \<open>attributes\<close> and \<open>isCluster\<close> are exchanged.\<close>

definition ModelVis_GetModuleConfig :: "'d json" where
  "ModelVis_GetModuleConfig = JObject [(''name'', JString ''ModelVis''), (''requestName'', JString ''modelvis''),
     (''attributes'', JBool True), (''isCluster'', JObject [(''src'', JString ''./plugins/ModelVis/index.html'')]),
     (''isDefault'', JBool True), (''isCompute'', JBool True), (''isJupyter'', JBool True)]"

subsection \<open>From the chunks of a body to the response\<close>

lemma post_chunks_all:
  assumes "cs \<noteq> []"
  shows "post_chunks h cs (buf, s) = do {
    (s', result, ok) \<leftarrow> ah_run h s (buf @ concat cs) GetBasicResult;
    Some ((buf @ concat cs, s'), [\<lparr>hr_headers = cors_headers, hr_body = result\<rparr>]) }"
  using assms
proof (induction cs arbitrary: buf)
  case (Cons c cs)
  show ?case
  proof (cases "cs = []")
    case True
    then show ?thesis
      by (cases "ah_run h s (buf @ c) GetBasicResult") (simp_all add: on_data_def Let_def split_beta)
  next
    case False
    then show ?thesis
      using Cons.IH [OF False, of "buf @ c"]
      by (cases "ah_run h s (buf @ c @ concat cs) GetBasicResult") (simp_all add: on_data_def split_beta)
  qed
qed simp

text \<open>The server with both plugins.\<close>

definition all_plugins :: "('f, 'd) handler_env \<Rightarrow> (string \<Rightarrow> string) \<Rightarrow> (string \<times> ('f, 'd) Server BasePlugin) list" where
  "all_plugins he layout_rs = RegisterPlugin (ModelVisPlugin layout_rs) (RegisterPlugin (ScalarVisualPlugin he) [])"

lemma routes_of_plugins:
  "route POST (''/ScalarVisually/GetScalarData'') (AddApiHandlers (all_plugins he layout_rs))
    = Some (PostHandler he (GetScalarData_run (pe_ops (he_parse he)) (he_json he)))"
  by (simp add: all_plugins_def RegisterPlugin_def ScalarVisualPlugin_def ModelVisPlugin_def AddApiHandlers_def
      PostHandler_def slash_def)


definition echo_env :: "('f, 'd) parse_env \<Rightarrow> ('f, 'd) json_ops \<Rightarrow> ('f, 'd) handler_env" where
  "echo_env e jo = \<lparr>he_parse = e, he_json = jo, he_fs = looping_fs,
     he_read = (\<lambda>s. if s = ''ab'' then Inr (JObject [(''graphList'', JArray (map graph_request_json []))]) else Inl []),
     he_print = (\<lambda>_. ''printed''), he_graphs = (\<lambda>_. []), he_created = (\<lambda>_. []), he_incremental = (\<lambda>_. []),
     he_watched = (\<lambda>_. [])\<rparr>"


end
