(* ===== verification/Scalar_pool.thy ===== *)
theory Scalar_pool
  imports Main
begin

text \<open>
  The thread pool of the Scalar server (\<open>Util/ThreadPoolUtil.h\<close>), as a machine whose steps are those of the
  workers and of the code that submits tasks, and what becomes of the tasks of
  \<open>plugin/ScalarVisuallyServer.cpp\<close>: the watcher of the parse states, which never returns, and the tasks that
  parse a file.

  A step is what a thread does while it holds the mutex of the queue, or the end of a task.
\<close>

subsection \<open>The pool\<close>

datatype 'a worker = Waiting | Working 'a | Gone

record 'a ThreadExecutor =
  te_workers :: "'a worker list"
  te_stop :: bool
  te_tasks :: "'a list"

definition new_ThreadExecutor :: "nat \<Rightarrow> 'a ThreadExecutor" where
  "new_ThreadExecutor n = \<lparr>te_workers = replicate n Waiting, te_stop = False, te_tasks = []\<rparr>"

text \<open>Submitting to a stopped pool throws.\<close>

definition Submit :: "'a \<Rightarrow> 'a ThreadExecutor \<Rightarrow> 'a ThreadExecutor option" where
  "Submit t p = (if te_stop p then None else Some (p\<lparr>te_tasks := te_tasks p @ [t]\<rparr>))"

text \<open>A worker whose condition holds: it leaves when the pool has stopped, and takes the first task otherwise.\<close>

definition worker_turn :: "nat \<Rightarrow> 'a ThreadExecutor \<Rightarrow> ('a ThreadExecutor \<times> 'a option) option" where
  "worker_turn i p =
    (if length (te_workers p) \<le> i then None
     else case te_workers p ! i of
       Waiting \<Rightarrow>
         (if \<not> te_stop p \<and> te_tasks p = [] then None
          else if te_stop p \<or> te_tasks p = [] then Some (p\<lparr>te_workers := (te_workers p)[i := Gone]\<rparr>, None)
          else Some (p\<lparr>te_workers := (te_workers p)[i := Working (hd (te_tasks p))],
                       te_tasks := tl (te_tasks p)\<rparr>, Some (hd (te_tasks p))))
     | _ \<Rightarrow> None)"

definition worker_done :: "nat \<Rightarrow> 'a ThreadExecutor \<Rightarrow> 'a ThreadExecutor" where
  "worker_done i p = p\<lparr>te_workers := (te_workers p)[i := Waiting]\<rparr>"

definition Clear :: "'a ThreadExecutor \<Rightarrow> 'a ThreadExecutor" where
  "Clear p = p\<lparr>te_tasks := []\<rparr>"

text \<open>The destructor stops the pool and then waits until all workers have left.\<close>

definition stop_pool :: "'a ThreadExecutor \<Rightarrow> 'a ThreadExecutor" where
  "stop_pool p = p\<lparr>te_stop := True\<rparr>"

definition all_joined :: "'a ThreadExecutor \<Rightarrow> bool" where
  "all_joined p \<longleftrightarrow> list_all (\<lambda>w. case w of Gone \<Rightarrow> True | _ \<Rightarrow> False) (te_workers p)"

text \<open>
  Runs of a pool: the tasks submitted and the tasks started, in order.  \<open>returns\<close> says which tasks end.  The
  server never calls \<open>Clear\<close>.
\<close>

inductive pool_run :: "('a \<Rightarrow> bool) \<Rightarrow> 'a ThreadExecutor \<Rightarrow> 'a list \<Rightarrow> 'a list \<Rightarrow> 'a ThreadExecutor \<Rightarrow> bool"
  for returns p where
  Begin: "pool_run returns p [] [] p"
| Submitted: "\<lbrakk>pool_run returns p us ss q; Submit t q = Some q'\<rbrakk> \<Longrightarrow> pool_run returns p (us @ [t]) ss q'"
| Started: "\<lbrakk>pool_run returns p us ss q; worker_turn i q = Some (q', Some t)\<rbrakk> \<Longrightarrow> pool_run returns p us (ss @ [t]) q'"
| Left: "\<lbrakk>pool_run returns p us ss q; worker_turn i q = Some (q', None)\<rbrakk> \<Longrightarrow> pool_run returns p us ss q'"
| Done: "\<lbrakk>pool_run returns p us ss q; i < length (te_workers q); te_workers q ! i = Working t; returns t\<rbrakk>
    \<Longrightarrow> pool_run returns p us ss (worker_done i q)"
| Stopped: "pool_run returns p us ss q \<Longrightarrow> pool_run returns p us ss (stop_pool q)"

lemma pool_run_append:
  assumes "pool_run returns q us' ss' r" "pool_run returns p us ss q"
  shows "pool_run returns p (us @ us') (ss @ ss') r"
  using assms
proof (induction rule: pool_run.induct)
  case (Submitted us' ss' q t q')
  then show ?case using pool_run.Submitted [of returns p "us @ us'" "ss @ ss'" q t q'] by simp
next
  case (Started us' ss' q i q' t)
  then show ?case using pool_run.Started [of returns p "us @ us'" "ss @ ss'" q i q' t] by simp
qed (auto intro: pool_run.intros)

lemma worker_turn_cases:
  assumes "worker_turn i q = Some (q', r)"
  obtains "i < length (te_workers q)" "te_workers q ! i = Waiting" "\<not> te_stop q" "te_tasks q \<noteq> []"
      "q' = q\<lparr>te_workers := (te_workers q)[i := Working (hd (te_tasks q))], te_tasks := tl (te_tasks q)\<rparr>"
      "r = Some (hd (te_tasks q))"
  | "i < length (te_workers q)" "te_workers q ! i = Waiting" "te_stop q"
      "q' = q\<lparr>te_workers := (te_workers q)[i := Gone]\<rparr>" "r = None"
  using assms by (auto simp: worker_turn_def split: worker.splits if_splits)

lemma Submit_cases:
  assumes "Submit t q = Some q'"
  obtains "\<not> te_stop q" "q' = q\<lparr>te_tasks := te_tasks q @ [t]\<rparr>"
  using assms by (auto simp: Submit_def split: if_splits)

lemma pool_run_queue:
  assumes "pool_run returns p us ss q"
  shows "te_tasks p @ us = ss @ te_tasks q \<and> length (te_workers q) = length (te_workers p)"
  using assms
proof (induction rule: pool_run.induct)
  case (Submitted us ss q t q')
  then show ?case by (elim Submit_cases) simp
next
  case (Started us ss q i q' t)
  from Started(2) show ?case
    using Started(3) by (elim worker_turn_cases) simp_all
next
  case (Left us ss q i q')
  from Left(2) show ?case using Left(3) by (elim worker_turn_cases) simp_all
qed (simp_all add: worker_done_def stop_pool_def)

text \<open>
  C38: the tasks started are the first ones submitted, in their order and each once, whatever the workers do; those
  still in the queue when the pool stops are never started.
\<close>

theorem pool_in_order:
  assumes "pool_run returns (new_ThreadExecutor n) us ss q"
  shows "us = ss @ te_tasks q
    \<and> (te_stop q \<longrightarrow> (\<forall>us' ss' r. pool_run returns q us' ss' r \<longrightarrow> us' = [] \<and> ss' = [] \<and> te_tasks r = te_tasks q))"
proof -
  have "us' = [] \<and> ss' = [] \<and> te_stop r \<and> te_tasks r = te_tasks q" if "pool_run returns q us' ss' r" "te_stop q" for us' ss' r
    using that
  proof (induction rule: pool_run.induct)
    case (Submitted us ss q t q')
    then show ?case by (elim Submit_cases) simp
  next
    case (Started us ss q i q' t)
    from Started(2) show ?case using Started(3,4) by (elim worker_turn_cases) simp_all
  next
    case (Left us ss q i q')
    from Left(2) show ?case using Left(3,4) by (elim worker_turn_cases) simp_all
  qed (simp_all add: worker_done_def stop_pool_def)
  with pool_run_queue [OF assms] show ?thesis by (auto simp: new_ThreadExecutor_def)
qed

subsection \<open>The tasks of the server\<close>

datatype server_task = Parse_watcher | Parse_file string

text \<open>The constructor of the server makes the pool and gives it the watcher first.\<close>

definition server_pool :: "nat \<Rightarrow> server_task ThreadExecutor" where
  "server_pool hardware_concurrency =
    (case Submit Parse_watcher (new_ThreadExecutor (min hardware_concurrency 16)) of
       None \<Rightarrow> new_ThreadExecutor 0 | Some p \<Rightarrow> p)"

text \<open>The loop of \<open>parseWatcher\<close> has no way out; parsing a file ends.\<close>

definition task_returns :: "server_task \<Rightarrow> bool" where
  "task_returns t \<longleftrightarrow> t \<noteq> Parse_watcher"

lemma server_pool_simps [simp]:
  "te_workers (server_pool n) = replicate (min n 16) Waiting" "te_tasks (server_pool n) = [Parse_watcher]"
  "te_stop (server_pool n) = False"
  by (simp_all add: server_pool_def Submit_def new_ThreadExecutor_def)

lemma watcher_stays:
  assumes "pool_run task_returns (server_pool n) us ss q" "ss \<noteq> []"
  shows "Working Parse_watcher \<in> set (te_workers q)"
  using assms
proof (induction rule: pool_run.induct)
  case (Submitted us ss q t q')
  then show ?case by (elim Submit_cases) simp
next
  case (Started us ss q i q' t)
  from Started(2) show ?case
  proof (cases rule: worker_turn_cases)
    case 1
    show ?thesis
    proof (cases "ss = []")
      case True
      then have "hd (te_tasks q) = Parse_watcher" using pool_run_queue [OF Started(1)] 1(4) by (cases "te_tasks q") auto
      with 1(1,5) show ?thesis by (simp add: set_update_memI)
    next
      case False
      with Started(3) obtain j where "j < length (te_workers q)" "te_workers q ! j = Working Parse_watcher"
        by (auto simp: in_set_conv_nth)
      moreover from this 1(2) have "j \<noteq> i" by auto
      ultimately show ?thesis using 1(5) by (auto simp: in_set_conv_nth intro!: exI [of _ j])
    qed
  qed simp
next
  case (Left us ss q i q')
  then obtain j where j: "j < length (te_workers q)" "te_workers q ! j = Working Parse_watcher"
    by (auto simp: in_set_conv_nth)
  from Left(2) show ?case
  proof (cases rule: worker_turn_cases)
    case 2
    with j have "j \<noteq> i" by auto
    with j 2(4) show ?thesis by (auto simp: in_set_conv_nth intro!: exI [of _ j])
  qed simp
next
  case (Done us ss q i t)
  then obtain j where j: "j < length (te_workers q)" "te_workers q ! j = Working Parse_watcher"
    by (auto simp: in_set_conv_nth)
  with Done(3,4) have "j \<noteq> i" by (auto simp: task_returns_def)
  with j show ?case by (auto simp: worker_done_def in_set_conv_nth intro!: exI [of _ j])
qed (simp_all add: stop_pool_def)

lemma set_nth_worker: "\<lbrakk>i < length ws; ws ! i = w\<rbrakk> \<Longrightarrow> w \<in> set ws"
  by auto

text \<open>With one worker at most, only the watcher is ever started.\<close>

lemma single_worker:
  assumes "pool_run task_returns (server_pool n) us ss q" "n \<le> 1"
  shows "ss = [] \<or> ss = [Parse_watcher]"
  using assms
proof (induction rule: pool_run.induct)
  case (Started us ss q i q' t)
  have len: "length (te_workers q) \<le> 1" using pool_run_queue [OF Started(1)] Started(4) by simp
  from Started(2) show ?case
  proof (cases rule: worker_turn_cases)
    case 1
    show ?thesis
    proof (cases "ss = []")
      case True
      then have "hd (te_tasks q) = Parse_watcher" using pool_run_queue [OF Started(1)] 1(4) by (cases "te_tasks q") auto
      with True 1(6) show ?thesis by simp
    next
      case False
      from watcher_stays [OF Started(1) False] have "Working Parse_watcher \<in> set (te_workers q)" .
      with len 1(1,2) have False by (cases "te_workers q") auto
      then show ?thesis ..
    qed
  qed simp
qed simp_all

text \<open>
  C39: the pool has as many workers as the machine has processors, and the watcher of the parse states keeps one of
  them for ever: on a machine with one processor (or when the number is not known and reported as 0) no file is
  ever parsed, and once the watcher has been started the destructor of the pool never returns, however many
  workers there are.
\<close>

theorem watcher_blocks_pool:
  assumes "pool_run task_returns (server_pool n) us ss q"
  shows "(n \<le> 1 \<longrightarrow> (\<forall>f. Parse_file f \<notin> set ss)) \<and> (ss \<noteq> [] \<longrightarrow> \<not> all_joined q)"
proof
  show "n \<le> 1 \<longrightarrow> (\<forall>f. Parse_file f \<notin> set ss)" using single_worker [OF assms] by auto
  show "ss \<noteq> [] \<longrightarrow> \<not> all_joined q"
    using watcher_stays [OF assms] by (auto simp: all_joined_def list_all_iff intro!: bexI [of _ "Working Parse_watcher"])
qed

definition busy_pool :: "server_task ThreadExecutor" where
  "busy_pool = \<lparr>te_workers = [Working Parse_watcher], te_stop = False, te_tasks = [Parse_file ''a'']\<rparr>"

lemma busy_run: "pool_run task_returns (server_pool 1) [Parse_file ''a''] [Parse_watcher] busy_pool"
proof -
  have s: "Submit (Parse_file ''a'') (server_pool 1) = Some (server_pool 1\<lparr>te_tasks := [Parse_watcher, Parse_file ''a'']\<rparr>)"
    by (simp add: Submit_def)
  have w: "worker_turn 0 (server_pool 1\<lparr>te_tasks := [Parse_watcher, Parse_file ''a'']\<rparr>) = Some (busy_pool, Some Parse_watcher)"
    by (simp add: worker_turn_def busy_pool_def server_pool_def new_ThreadExecutor_def Submit_def)
  show ?thesis
    using pool_run.Started [OF pool_run.Submitted [OF pool_run.Begin s] w] by simp
qed

lemma watcher_blocks_pool_witness: "\<not> all_joined busy_pool \<and> (\<forall>f. Parse_file f \<notin> set [Parse_watcher])"
  using watcher_blocks_pool [OF busy_run] by simp

text \<open>The workers besides the one of the watcher are free, or will be when their task ends.\<close>

lemma one_watcher:
  assumes "pool_run task_returns (server_pool n) us ss q" "Parse_watcher \<notin> set us"
  shows "length (filter (\<lambda>w. w = Working Parse_watcher) (te_workers q)) + count_list (te_tasks q) Parse_watcher \<le> 1"
proof -
  have free: "length (filter (\<lambda>w. w = Working Parse_watcher) (ws[i := w']))
      = length (filter (\<lambda>w. w = Working Parse_watcher) ws) + (if w' = Working Parse_watcher then 1 else 0)"
    if "i < length ws" "ws ! i \<noteq> Working Parse_watcher" for i and ws :: "server_task worker list" and w'
  proof -
    have "ws = take i ws @ ws ! i # drop (Suc i) ws" using that(1) by (rule id_take_nth_drop)
    then have "length (filter (\<lambda>w. w = Working Parse_watcher) ws)
        = length (filter (\<lambda>w. w = Working Parse_watcher) (take i ws @ ws ! i # drop (Suc i) ws))" by simp
    then show ?thesis using that by (simp add: upd_conv_take_nth_drop)
  qed
  show ?thesis
    using assms
  proof (induction rule: pool_run.induct)
    case (Submitted us ss q t q')
    then show ?case by (elim Submit_cases) auto
  next
    case (Started us ss q i q' t)
    from Started(2) show ?case
    proof (cases rule: worker_turn_cases)
      case 1
      with free [of i "te_workers q"] Started(3,4) show ?thesis by (cases "te_tasks q") (auto split: if_splits)
    qed simp
  next
    case (Left us ss q i q')
    from Left(2) show ?case
    proof (cases rule: worker_turn_cases)
      case 2
      with free [of i "te_workers q" Gone] Left(3,4) show ?thesis by simp
    qed simp
  next
    case (Done us ss q i t)
    have "t \<noteq> Parse_watcher" using Done(4) by (simp add: task_returns_def)
    with free [of i "te_workers q" Waiting] Done(2,3,5,6) show ?case by (simp add: worker_done_def)
  qed (simp_all add: stop_pool_def)
qed

lemma none_gone:
  assumes "pool_run returns (server_pool n) us ss q" "\<not> te_stop q"
  shows "Gone \<notin> set (te_workers q)"
proof -
  have "te_stop q \<or> Gone \<notin> set (te_workers q)" if "pool_run returns p us ss q" "Gone \<notin> set (te_workers p)" for p
    using that
  proof (induction rule: pool_run.induct)
    case (Submitted us ss q t q')
    then show ?case by (elim Submit_cases) simp
  next
    case (Started us ss q i q' t)
    from Started(2) show ?case
      using Started(3,4) by (elim worker_turn_cases) (auto dest!: set_update_subset_insert [THEN subsetD])
  next
    case (Left us ss q i q')
    from Left(2) show ?case by (elim worker_turn_cases) simp_all
  next
    case (Done us ss q i t)
    then show ?case by (auto simp: worker_done_def dest!: set_update_subset_insert [THEN subsetD])
  qed (simp_all add: stop_pool_def)
  from this [OF assms(1)] assms(2) show ?thesis by simp
qed

definition serving :: "server_task ThreadExecutor \<Rightarrow> bool" where
  "serving q \<longleftrightarrow> \<not> te_stop q \<and> 2 \<le> length (te_workers q) \<and> Gone \<notin> set (te_workers q)
     \<and> length (filter (\<lambda>w. w = Working Parse_watcher) (te_workers q)) + count_list (te_tasks q) Parse_watcher \<le> 1"

lemma serving_next:
  assumes "serving q" "te_tasks q = t # ts"
  shows "\<exists>r. pool_run task_returns q [] [t] r \<and> serving r \<and> te_tasks r = ts"
proof -
  let ?W = "\<lambda>ws. length (filter (\<lambda>w. w = Working Parse_watcher) ws)"
  have "\<exists>i<length (te_workers q). te_workers q ! i \<noteq> Working Parse_watcher"
  proof (rule ccontr)
    assume "\<not> ?thesis"
    then have "filter (\<lambda>w. w = Working Parse_watcher) (te_workers q) = te_workers q" by (simp add: filter_id_conv all_set_conv_all_nth)
    with assms(1) have "2 \<le> length (te_workers q)" "length (te_workers q) \<le> 1" by (simp_all add: serving_def)
    then show False by linarith
  qed
  then obtain i where i: "i < length (te_workers q)" "te_workers q ! i \<noteq> Working Parse_watcher" by blast
  have split: "te_workers q = take i (te_workers q) @ te_workers q ! i # drop (Suc i) (te_workers q)"
    using i(1) by (rule id_take_nth_drop)
  have W: "?W ((te_workers q)[i := w]) = ?W (te_workers q) + (if w = Working Parse_watcher then 1 else 0)" for w
  proof -
    have "?W (te_workers q) = ?W (take i (te_workers q) @ te_workers q ! i # drop (Suc i) (te_workers q))"
      using split by simp
    then show ?thesis using i by (simp add: upd_conv_take_nth_drop)
  qed
  have run: "\<exists>q1. pool_run task_returns q [] [] q1 \<and> te_workers q1 = (te_workers q)[i := Waiting]
      \<and> te_tasks q1 = te_tasks q \<and> te_stop q1 = te_stop q"
  proof (cases "te_workers q ! i")
    case Waiting
    then have "te_workers q = (te_workers q)[i := Waiting]" by (metis list_update_id)
    then show ?thesis using pool_run.Begin [of task_returns q] by metis
  next
    case (Working u)
    with i(2) have "task_returns u" by (simp add: task_returns_def)
    from pool_run.Done [where returns = task_returns, OF pool_run.Begin i(1) Working this] show ?thesis by (auto simp: worker_done_def)
  next
    case Gone
    with assms(1) i(1) show ?thesis by (metis nth_mem serving_def)
  qed
  then obtain q1 where q1: "pool_run task_returns q [] [] q1" "te_workers q1 = (te_workers q)[i := Waiting]"
    "te_tasks q1 = te_tasks q" "te_stop q1 = te_stop q" by blast
  let ?r = "q1\<lparr>te_workers := (te_workers q)[i := Working t], te_tasks := ts\<rparr>"
  have "worker_turn i q1 = Some (?r, Some t)"
    using q1 i(1) assms by (simp add: worker_turn_def serving_def)
  from pool_run.Started [OF q1(1) this] have "pool_run task_returns q [] [t] ?r" by simp
  moreover have "serving ?r"
    using assms q1 W by (auto simp: serving_def split: if_splits dest!: set_update_subset_insert [THEN subsetD])
  ultimately show ?thesis by auto
qed


lemma two_submitted: "pool_run task_returns (server_pool 2) [Parse_file ''a''] []
    (server_pool 2\<lparr>te_tasks := [Parse_watcher, Parse_file ''a'']\<rparr>)"
proof -
  have "Submit (Parse_file ''a'') (server_pool 2) = Some (server_pool 2\<lparr>te_tasks := [Parse_watcher, Parse_file ''a'']\<rparr>)"
    by (simp add: Submit_def)
  from pool_run.Submitted [OF pool_run.Begin this] show ?thesis by simp
qed


lemma pool_in_order_witness:
  "\<exists>q. pool_run (\<lambda>_. True) (new_ThreadExecutor 2) [''a'', ''b''] [] q \<and> te_stop q
    \<and> (\<forall>us ss r. pool_run (\<lambda>_. True) q us ss r \<longrightarrow> us = [] \<and> ss = [] \<and> te_tasks r = [''a'', ''b''])"
proof -
  have s: "Submit ''a'' (new_ThreadExecutor 2) = Some (new_ThreadExecutor 2\<lparr>te_tasks := [''a'']\<rparr>)"
    "Submit ''b'' (new_ThreadExecutor 2\<lparr>te_tasks := [''a'']\<rparr>) = Some (new_ThreadExecutor 2\<lparr>te_tasks := [''a'', ''b'']\<rparr>)"
    by (simp_all add: Submit_def new_ThreadExecutor_def)
  let ?q = "stop_pool (new_ThreadExecutor 2\<lparr>te_tasks := [''a'', ''b'']\<rparr>)"
  have run: "pool_run (\<lambda>_. True) (new_ThreadExecutor 2) [''a'', ''b''] [] ?q"
    using pool_run.Stopped [OF pool_run.Submitted [OF pool_run.Submitted [OF pool_run.Begin s(1)] s(2)]] by simp
  have q: "te_stop ?q" "te_tasks ?q = [''a'', ''b'']" by (simp_all add: stop_pool_def)
  show ?thesis using pool_in_order [OF run] run q by (intro exI [of _ ?q]) auto
qed

end
