(* ===== verification/Base.thy ===== *)
theory Base
  imports Main "HOL-Library.Word" "HOL-Library.Monad_Syntax" "HOL-Library.Sublist"
begin

text \<open>
  The prelude of the development: the names of the machine types, the collections the other
  theories add their facts to, and the generic lemmas on words, options, lists and maps that the
  components share.  Nothing here is about one component.

  Machine integers keep their width: \<open>u8\<close>, \<open>u16\<close>, \<open>u32\<close> and \<open>u64\<close> wrap around as the C types
  do.  A pointer is a natural number with \<open>0\<close> for the null pointer.
\<close>

unbundle bit_operations_syntax

type_synonym ptr = nat
type_synonym u4 = "4 word"
type_synonym u8 = "8 word"
type_synonym u16 = "16 word"
type_synonym u32 = "32 word"
type_synonym u64 = "64 word"

abbreviation NULL :: ptr where
  "NULL \<equiv> 0"

text \<open>
  \<open>step\<close> collects the definitions of the single-field reads and writes of the store, \<open>frame\<close> the
  facts that say which components of the store an operation leaves alone, and \<open>views\<close> the
  equations between the views of the store that the linked lists are stated over.
\<close>

named_theorems step
named_theorems frame
named_theorems views

subsection \<open>Four-bit words\<close>

text \<open>The poll type of a poll is a four-bit field; facts about it are decided by cases.\<close>

lemma u4_cases: "(t::u4) \<in> {0,1,2,3,4,5,6,7,8,9,10,11,12,13,14,15}"
proof -
  have "unat t < 16" using unsigned_less [of t] by simp
  then have "unat t \<in> {0,1,2,3,4,5,6,7,8,9,10,11,12,13,14,15}"
    by (simp only: insert_iff empty_iff) arith
  then have "of_nat (unat t) \<in> (of_nat ` {0,1,2,3,4,5,6,7,8,9,10,11,12,13,14,15::nat} :: u4 set)"
    by blast
  then show ?thesis by simp
qed

subsection \<open>Signed fields\<close>

text \<open>A signed bit field of width \<open>w\<close> gives back every value that fits it.\<close>

lemma sint_word_of_int_fits:
  assumes "- (2 ^ 27) \<le> i" "i < 2 ^ 27"
  shows "sint (word_of_int i :: 28 word) = i"
  using assms by (simp add: sint_sbintrunc' signed_take_bit_int_eq_self)

subsection \<open>Maps\<close>

lemma map_upd_cong_dom: "x \<in> dom m \<Longrightarrow> dom (m(x \<mapsto> v)) = dom m"
  by auto

lemma option_case_dom: "x \<in> dom m \<longleftrightarrow> (\<exists>v. m x = Some v)"
  by auto

subsection \<open>Lists\<close>

lemma remove1_split:
  assumes "distinct xs" "x \<in> set xs"
  obtains as bs where "xs = as @ x # bs" "remove1 x xs = as @ bs" "x \<notin> set as" "x \<notin> set bs"
proof -
  obtain as bs where xs: "xs = as @ x # bs" and n: "x \<notin> set as"
    using split_list_first [OF assms(2)] by blast
  with assms(1) show thesis
    by (intro that [of as bs]) (auto simp: remove1_append)
qed

lemma subseq_not_hd:
  assumes "subseq ys (x # xs)" "ys = [] \<or> hd ys \<noteq> x"
  shows "subseq ys xs"
  using assms by (cases ys) (auto split: if_splits)

end
