(* ===== verification/Linked.thy ===== *)
theory Linked
  imports Base
begin

text \<open>
  Intrusive linked lists, as specifications.  The code keeps its sockets and contexts in lists
  threaded through the \<open>prev\<close> and \<open>next\<close> fields of the objects themselves; the lists are stated
  here over two partial maps, \<open>nx\<close> and \<open>pv\<close>, which give the fields of the object at an address.

  \<open>dseg\<close> is a doubly linked segment, \<open>dll\<close> a whole doubly linked list, \<open>sll\<close> a list of which only
  \<open>next\<close> matters.  \<open>chains\<close> describes a family of disjoint lists, one per owner, and the lemmas
  about it say what pushing at the front, unlinking and renaming one element do to the family.
  The locale \<open>dll_store\<close> is the interface of a store whose operations link at the head and
  unlink; it is interpreted for the socket list of a context, for the listen sockets of a
  context and for the contexts of a loop in the theory Links.
\<close>

subsection \<open>Segments and lists\<close>

fun dseg :: "(ptr \<rightharpoonup> ptr) \<Rightarrow> (ptr \<rightharpoonup> ptr) \<Rightarrow> ptr \<Rightarrow> ptr \<Rightarrow> ptr list \<Rightarrow> ptr \<Rightarrow> ptr \<Rightarrow> bool" where
  "dseg nx pv p c [] q d \<longleftrightarrow> p = q \<and> c = d"
| "dseg nx pv p c (x # xs) q d \<longleftrightarrow>
     c = x \<and> x \<noteq> NULL \<and> pv x = Some p \<and> (\<exists>y. nx x = Some y \<and> dseg nx pv x y xs q d)"

definition dll :: "(ptr \<rightharpoonup> ptr) \<Rightarrow> (ptr \<rightharpoonup> ptr) \<Rightarrow> ptr \<Rightarrow> ptr list \<Rightarrow> bool" where
  "dll nx pv c xs \<longleftrightarrow> (\<exists>q. dseg nx pv NULL c xs q NULL)"

fun sll :: "(ptr \<rightharpoonup> ptr) \<Rightarrow> ptr \<Rightarrow> ptr list \<Rightarrow> bool" where
  "sll nx c [] \<longleftrightarrow> c = NULL"
| "sll nx c (x # xs) \<longleftrightarrow> c = x \<and> x \<noteq> NULL \<and> (\<exists>y. nx x = Some y \<and> sll nx y xs)"

lemma dseg_append:
  "dseg nx pv p c (xs @ ys) q d \<longleftrightarrow> (\<exists>r e. dseg nx pv p c xs r e \<and> dseg nx pv r e ys q d)"
  by (induction xs arbitrary: p c) auto

lemma dseg_cong:
  assumes "\<And>x. x \<in> set xs \<Longrightarrow> nx' x = nx x \<and> pv' x = pv x"
  shows "dseg nx' pv' p c xs q d = dseg nx pv p c xs q d"
  using assms by (induction xs arbitrary: p c) auto

lemma dseg_upd [simp]:
  "x \<notin> set xs \<Longrightarrow> dseg (nx(x := v)) pv p c xs q d = dseg nx pv p c xs q d"
  "x \<notin> set xs \<Longrightarrow> dseg nx (pv(x := v)) p c xs q d = dseg nx pv p c xs q d"
  by (induction xs arbitrary: p c) auto

lemma dll_cong:
  assumes "\<And>x. x \<in> set xs \<Longrightarrow> nx' x = nx x \<and> pv' x = pv x"
  shows "dll nx' pv' c xs = dll nx pv c xs"
  unfolding dll_def using dseg_cong [OF assms] by simp

lemma sll_cong:
  assumes "\<And>x. x \<in> set xs \<Longrightarrow> nx' x = nx x"
  shows "sll nx' c xs = sll nx c xs"
  using assms by (induction xs arbitrary: c) auto

lemma dseg_sll: "dseg nx pv p c xs q NULL \<Longrightarrow> sll nx c xs"
  by (induction xs arbitrary: p c) auto

lemma dll_sll: "dll nx pv c xs \<Longrightarrow> sll nx c xs"
  by (auto simp: dll_def intro: dseg_sll)

lemma sll_unique: "sll nx c xs \<Longrightarrow> sll nx c ys \<Longrightarrow> xs = ys"
  by (induction xs arbitrary: c ys) (case_tac ys; fastforce)+

lemma sll_append: "sll nx c (xs @ ys) \<Longrightarrow> \<exists>d. sll nx d ys \<and> (ys \<noteq> [] \<longrightarrow> d = hd ys)"
  by (induction xs arbitrary: c) (auto, metis list.exhaust_sel sll.simps(2))

lemma sll_NULL [simp]: "sll nx NULL xs \<longleftrightarrow> xs = []"
  by (cases xs) auto

lemma sll_distinct: "sll nx c xs \<Longrightarrow> distinct xs"
proof (induction xs arbitrary: c)
  case Nil
  then show ?case by simp
next
  case (Cons x xs)
  then obtain y where y: "nx x = Some y" "sll nx y xs" by auto
  have "x \<notin> set xs"
  proof
    assume "x \<in> set xs"
    then obtain as bs where xs: "xs = as @ x # bs" by (auto dest: split_list)
    with y(2) have "sll nx x (x # bs)"
      using sll_append [of nx y as "x # bs"] by auto
    with y have "x # bs = x # xs" by (intro sll_unique [of nx x]) auto
    with xs show False by simp
  qed
  with Cons.IH y(2) show ?case by auto
qed

lemma dll_distinct: "dll nx pv c xs \<Longrightarrow> distinct xs"
  by (blast intro: sll_distinct dll_sll)

lemma dll_unique: "dll nx pv c xs \<Longrightarrow> dll nx pv c ys \<Longrightarrow> xs = ys"
  by (blast intro: sll_unique dll_sll)

lemma dll_Nil [simp]: "dll nx pv c [] \<longleftrightarrow> c = NULL"
  by (simp add: dll_def)

lemma dll_NULL [simp]: "dll nx pv NULL xs \<longleftrightarrow> xs = []"
  using dll_sll [of nx pv NULL xs] by (auto simp: dll_def)

lemma sll_hd: "sll nx c xs \<Longrightarrow> c = (if xs = [] then NULL else hd xs)"
  by (cases xs) auto

lemma dll_hd: "dll nx pv c xs \<Longrightarrow> c = (if xs = [] then NULL else hd xs)"
  by (rule sll_hd, rule dll_sll)

lemma sll_mem: "sll nx c xs \<Longrightarrow> x \<in> set xs \<Longrightarrow> x \<noteq> NULL \<and> (\<exists>y. nx x = Some y)"
  by (induction xs arbitrary: c) auto

lemma sll_next_mem:
  "sll nx c xs \<Longrightarrow> x \<in> set xs \<Longrightarrow> nx x = Some y \<Longrightarrow> y = NULL \<or> y \<in> set xs"
proof (induction xs arbitrary: c)
  case (Cons a xs)
  then obtain z where z: "nx a = Some z" "sll nx z xs" by auto
  then have "z = NULL \<or> z \<in> set xs" by (cases xs) auto
  with Cons z show ?case by auto
qed simp

text \<open>The two neighbours of an element, and the list split around it.\<close>

lemma dll_split:
  assumes "dll nx pv c (as @ x # bs)"
  obtains n p q where
    "dseg nx pv NULL c as p x" "nx x = Some n" "pv x = Some p" "x \<noteq> NULL"
    "dseg nx pv x n bs q NULL" "p = (if as = [] then NULL else last as)"
    "n = (if bs = [] then NULL else hd bs)"
proof -
  from assms obtain q p n where
    s: "dseg nx pv NULL c as p x" "nx x = Some n" "pv x = Some p" "x \<noteq> NULL"
       "dseg nx pv x n bs q NULL"
    by (auto simp: dll_def dseg_append)
  have "p = (if as = [] then NULL else last as)"
  proof (cases as rule: rev_cases)
    case Nil
    with s(1) show ?thesis by simp
  next
    case (snoc as' a)
    with s(1) show ?thesis by (auto simp: dseg_append)
  qed
  moreover have "n = (if bs = [] then NULL else hd bs)"
    using s(5) by (cases bs) auto
  ultimately show thesis using s that by blast
qed

lemma dll_mem: "dll nx pv c xs \<Longrightarrow> x \<in> set xs \<Longrightarrow> x \<noteq> NULL \<and> (\<exists>n p. nx x = Some n \<and> pv x = Some p)"
  by (metis dll_split split_list)

lemma dll_prev_mem:
  assumes "dll nx pv c xs" "x \<in> set xs" "pv x = Some p"
  shows "p = NULL \<or> p \<in> set xs"
proof -
  obtain as bs where xs: "xs = as @ x # bs" using assms(2) by (auto dest: split_list)
  from assms(1) [unfolded xs] show ?thesis
    by (rule dll_split) (use assms(3) xs in auto)
qed

lemma dll_next_mem:
  "dll nx pv c xs \<Longrightarrow> x \<in> set xs \<Longrightarrow> nx x = Some n \<Longrightarrow> n = NULL \<or> n \<in> set xs"
  by (blast dest: dll_sll sll_next_mem)

lemma dll_neighbours_neq:
  assumes "dll nx pv c xs" "x \<in> set xs" "nx x = Some n" "pv x = Some p"
  shows "p \<noteq> x" "n \<noteq> x"
proof -
  obtain as bs where xs: "xs = as @ x # bs" using assms(2) by (auto dest: split_list)
  have d: "distinct (as @ x # bs)" using dll_distinct [OF assms(1)] xs by simp
  have nz: "x \<noteq> NULL" using dll_mem [OF assms(1,2)] by simp
  have "p = (if as = [] then NULL else last as) \<and> n = (if bs = [] then NULL else hd bs)"
    using assms(1) [unfolded xs] by (rule dll_split) (use assms(3,4) in simp)
  then show "p \<noteq> x" "n \<noteq> x" using d nz by (auto dest: last_in_set hd_in_set split: if_splits)
qed

lemma dll_first:
  assumes "dll nx pv c xs" "x \<in> set xs" "pv x = Some p"
  shows "p = NULL \<longleftrightarrow> c = x"
proof -
  obtain as bs where xs: "xs = as @ x # bs" using assms(2) by (auto dest: split_list)
  have d: "distinct xs" using assms(1) by (rule dll_distinct)
  have nz: "NULL \<notin> set xs" using dll_mem [OF assms(1)] by auto
  have c: "c = hd xs" using dll_hd [OF assms(1)] xs by simp
  from assms(1) [unfolded xs] have "p = (if as = [] then NULL else last as)"
    by (rule dll_split) (use assms(3) in simp)
  moreover have "as \<noteq> [] \<Longrightarrow> last as \<noteq> NULL" using nz xs by (metis Un_iff last_in_set set_append)
  moreover have "as \<noteq> [] \<Longrightarrow> hd xs \<noteq> x" using d xs by (cases as) auto
  ultimately show ?thesis using c xs by auto
qed

text \<open>
  The test \<open>prev == next\<close> by which the code recognises the last remaining element of a list is
  right: two neighbours are equal only if there are none.
\<close>

lemma dll_prev_eq_next:
  assumes "dll nx pv c xs" "x \<in> set xs" "nx x = Some n" "pv x = Some p"
  shows "p = n \<longleftrightarrow> xs = [x]"
proof -
  obtain as bs where xs: "xs = as @ x # bs" using assms(2) by (auto dest: split_list)
  have d: "distinct xs" using assms(1) by (rule dll_distinct)
  have nz: "NULL \<notin> set xs" using dll_mem [OF assms(1)] by auto
  from assms(1) [unfolded xs] show ?thesis
  proof (rule dll_split)
    fix n' p' q
    assume "nx x = Some n'" "pv x = Some p'"
      "p' = (if as = [] then NULL else last as)" "n' = (if bs = [] then NULL else hd bs)"
    with assms(3,4) have pn: "p = (if as = [] then NULL else last as)"
      "n = (if bs = [] then NULL else hd bs)" by auto
    have "last as \<noteq> hd bs" if "as \<noteq> []" "bs \<noteq> []"
      using that d xs by (metis IntI distinct_append empty_iff last_in_set list.set_intros(2) list.set_sel(1))
    moreover have "as \<noteq> [] \<Longrightarrow> last as \<noteq> NULL" "bs \<noteq> [] \<Longrightarrow> hd bs \<noteq> NULL"
      using nz xs by (metis Un_iff last_in_set set_append) (metis nz xs hd_in_set in_set_conv_decomp
          list.set_intros(2) Un_iff set_append)
    moreover have "xs = [x] \<longleftrightarrow> as = [] \<and> bs = []"
      using xs by (auto simp: append_eq_Cons_conv)
    ultimately show ?thesis using pn by auto
  qed
qed

subsection \<open>A family of disjoint lists\<close>

text \<open>
  \<open>chains dbl nx pv hds L\<close>: every owner \<open>k\<close> with a head has the list \<open>L k\<close>, doubly linked when
  \<open>dbl k\<close>, owners without a head have no list, and no object is in two lists.
\<close>

definition chain :: "bool \<Rightarrow> (ptr \<rightharpoonup> ptr) \<Rightarrow> (ptr \<rightharpoonup> ptr) \<Rightarrow> ptr \<Rightarrow> ptr list \<Rightarrow> bool" where
  "chain dbl nx pv c xs \<longleftrightarrow> (if dbl then dll nx pv c xs else sll nx c xs)"

definition chains ::
  "('k \<Rightarrow> bool) \<Rightarrow> (ptr \<rightharpoonup> ptr) \<Rightarrow> (ptr \<rightharpoonup> ptr) \<Rightarrow> ('k \<rightharpoonup> ptr) \<Rightarrow> ('k \<Rightarrow> ptr list) \<Rightarrow> bool" where
  "chains dbl nx pv hds L \<longleftrightarrow>
     (\<forall>k. case hds k of None \<Rightarrow> L k = [] | Some c \<Rightarrow> chain (dbl k) nx pv c (L k)) \<and>
     (\<forall>k k' x. x \<in> set (L k) \<longrightarrow> x \<in> set (L k') \<longrightarrow> k = k')"

definition unlisted :: "('k \<Rightarrow> ptr list) \<Rightarrow> ptr \<Rightarrow> bool" where
  "unlisted L x \<longleftrightarrow> (\<forall>k. x \<notin> set (L k))"

lemma chain_cong:
  assumes "\<And>x. x \<in> set xs \<Longrightarrow> nx' x = nx x \<and> pv' x = pv x"
  shows "chain d nx' pv' c xs = chain d nx pv c xs"
  unfolding chain_def using dll_cong [OF assms] sll_cong [of xs nx' nx] assms by simp

lemma chain_sll: "chain d nx pv c xs \<Longrightarrow> sll nx c xs"
  by (auto simp: chain_def dll_sll split: if_splits)

lemma chainsD:
  assumes "chains dbl nx pv hds L"
  shows "hds k = None \<Longrightarrow> L k = []"
    and "hds k = Some c \<Longrightarrow> chain (dbl k) nx pv c (L k)"
    and "x \<in> set (L k) \<Longrightarrow> x \<in> set (L k') \<Longrightarrow> k = k'"
proof -
  note a = assms [unfolded chains_def]
  show "hds k = None \<Longrightarrow> L k = []"
    using spec [OF conjunct1 [OF a], of k] by simp
  show "hds k = Some c \<Longrightarrow> chain (dbl k) nx pv c (L k)"
    using spec [OF conjunct1 [OF a], of k] by simp
  show "x \<in> set (L k) \<Longrightarrow> x \<in> set (L k') \<Longrightarrow> k = k'"
    using conjunct2 [OF a] by blast
qed

lemma chainsI:
  assumes "\<And>k. hds k = None \<Longrightarrow> L k = []"
    and "\<And>k c. hds k = Some c \<Longrightarrow> chain (dbl k) nx pv c (L k)"
    and "\<And>k k' x. x \<in> set (L k) \<Longrightarrow> x \<in> set (L k') \<Longrightarrow> k = k'"
  shows "chains dbl nx pv hds L"
  unfolding chains_def
proof (intro conjI allI impI)
  show "case hds k of None \<Rightarrow> L k = [] | Some c \<Rightarrow> chain (dbl k) nx pv c (L k)" for k
    by (cases "hds k") (simp_all add: assms(1,2))
qed (rule assms(3))

lemma chains_hd:
  assumes "chains dbl nx pv hds L" "hds k = Some c"
  shows "c = (if L k = [] then NULL else hd (L k))"
  using chainsD(2) [OF assms] by (blast intro: sll_hd chain_sll)

lemma chains_distinct:
  assumes "chains dbl nx pv hds L"
  shows "distinct (L k)"
proof (cases "hds k")
  case None
  then show ?thesis using chainsD(1) [OF assms, of k] by simp
next
  case (Some c)
  show ?thesis by (rule sll_distinct [OF chain_sll [OF chainsD(2) [OF assms Some]]])
qed

lemma chains_mem:
  assumes "chains dbl nx pv hds L" "x \<in> set (L k)"
  shows "x \<noteq> NULL" "\<exists>y. nx x = Some y" "\<exists>c. hds k = Some c"
proof -
  show *: "\<exists>c. hds k = Some c"
    using chainsD(1) [OF assms(1), of k] assms(2) by (cases "hds k") auto
  then obtain c where "sll nx c (L k)"
    using chain_sll [OF chainsD(2) [OF assms(1)]] by blast
  then show "x \<noteq> NULL" "\<exists>y. nx x = Some y"
    using sll_mem [OF _ assms(2)] by blast+
qed

lemma chains_dll:
  assumes "chains dbl nx pv hds L" "hds k = Some c" "dbl k"
  shows "dll nx pv c (L k)"
  using chainsD(2) [OF assms(1,2)] assms(3) by (simp add: chain_def)

text \<open>Writing to an object that is in no list changes no list.\<close>

lemma chains_frame:
  assumes "chains dbl nx pv hds L"
    and "\<And>x. \<not> unlisted L x \<Longrightarrow> nx' x = nx x \<and> pv' x = pv x"
  shows "chains dbl nx' pv' hds L"
proof (rule chainsI)
  fix k c assume "hds k = Some c"
  then have "chain (dbl k) nx pv c (L k)" by (rule chainsD(2) [OF assms(1)])
  then show "chain (dbl k) nx' pv' c (L k)"
    by (subst chain_cong [of _ nx' nx pv' pv]) (use assms(2) in \<open>auto simp: unlisted_def\<close>)
qed (simp add: chainsD(1) [OF assms(1)], rule chainsD(3) [OF assms(1)])

text \<open>An owner with an empty list may come and go.\<close>

lemma chains_new_owner:
  assumes "chains dbl nx pv hds L" "hds k = None"
  shows "chains dbl nx pv (hds(k \<mapsto> NULL)) L"
proof (rule chainsI)
  show "chain (dbl k') nx pv c (L k')" if "(hds(k \<mapsto> NULL)) k' = Some c" for k' c
    using that chainsD(1,2) [OF assms(1)] assms(2) by (cases "k' = k") (auto simp: chain_def)
qed (auto simp: chainsD(1) [OF assms(1)] split: if_splits intro: chainsD(3) [OF assms(1)])

lemma chains_drop_owner:
  assumes "chains dbl nx pv hds L" "L k = []"
  shows "chains dbl nx pv (hds(k := None)) L"
proof (rule chainsI)
  show "chain (dbl k') nx pv c (L k')" if "(hds(k := None)) k' = Some c" for k' c
    using that chainsD(2) [OF assms(1)] by (cases "k' = k") auto
qed (auto simp: assms(2) chainsD(1) [OF assms(1)] split: if_splits intro: chainsD(3) [OF assms(1)])

subsection \<open>Linking, unlinking and renaming\<close>

lemma dseg_set_prev:
  "dseg nx pv p c (x # xs) q d \<Longrightarrow> x \<notin> set xs \<Longrightarrow> dseg nx (pv(x \<mapsto> p')) p' c (x # xs) q d"
  by auto

lemma dseg_set_next:
  assumes "dseg nx pv p c xs q d" "distinct xs" "xs \<noteq> []"
  shows "dseg (nx(q \<mapsto> d')) pv p c xs q d'"
proof -
  obtain ys y where xs: "xs = ys @ [y]" using assms(3) by (cases xs rule: rev_cases) auto
  with assms(1) obtain r e where "dseg nx pv p c ys r e" "e = y" "y = q" "y \<noteq> NULL" "pv y = Some r"
    by (auto simp: dseg_append)
  moreover have "y \<notin> set ys" using assms(2) xs by simp
  ultimately show ?thesis
    unfolding xs by (auto simp: dseg_append)
qed

definition push_pv :: "(ptr \<rightharpoonup> ptr) \<Rightarrow> ptr \<Rightarrow> ptr \<Rightarrow> (ptr \<rightharpoonup> ptr)" where
  "push_pv pv c s = (if c = NULL then pv(s \<mapsto> NULL) else pv(s \<mapsto> NULL, c \<mapsto> s))"

definition drop_nx :: "(ptr \<rightharpoonup> ptr) \<Rightarrow> ptr \<Rightarrow> ptr \<Rightarrow> (ptr \<rightharpoonup> ptr)" where
  "drop_nx nx p n = (if p = NULL then nx else nx(p \<mapsto> n))"

definition drop_pv :: "(ptr \<rightharpoonup> ptr) \<Rightarrow> ptr \<Rightarrow> ptr \<Rightarrow> (ptr \<rightharpoonup> ptr)" where
  "drop_pv pv p n = (if n = NULL then pv else pv(n \<mapsto> p))"

lemma dll_push:
  assumes "dll nx pv c xs" "s \<noteq> NULL" "s \<notin> set xs"
  shows "dll (nx(s \<mapsto> c)) (push_pv pv c s) s (s # xs)"
proof (cases xs)
  case Nil
  with assms show ?thesis by (auto simp: dll_def push_pv_def)
next
  case (Cons x ys)
  from assms(1) obtain q where q: "dseg nx pv NULL c (x # ys) q NULL"
    by (auto simp: dll_def Cons)
  have "x \<notin> set ys" using dll_distinct [OF assms(1)] Cons by simp
  with q have "dseg nx (pv(x \<mapsto> s)) s c xs q NULL" unfolding Cons by (rule dseg_set_prev)
  moreover have "c = x" "x \<noteq> NULL" using q by auto
  ultimately have "dseg (nx(s \<mapsto> c)) (push_pv pv c s) s c xs q NULL"
    by (subst dseg_cong [of xs _ nx _ "pv(x \<mapsto> s)"]) (use assms(3) in \<open>auto simp: push_pv_def\<close>)
  then show ?thesis using assms(2,3) Cons \<open>c = x\<close> by (auto simp: dll_def push_pv_def)
qed

lemma dll_remove:
  assumes "dll nx pv c (as @ x # bs)" "nx x = Some n" "pv x = Some p"
  shows "dll (drop_nx nx p n) (drop_pv pv p n) (if p = NULL then n else c) (as @ bs)"
proof -
  let ?nx = "drop_nx nx p n" and ?pv = "drop_pv pv p n"
  have d: "distinct (as @ x # bs)" using assms(1) by (rule dll_distinct)
  obtain n' p' q where s: "dseg nx pv NULL c as p' x" "nx x = Some n'" "pv x = Some p'" "x \<noteq> NULL"
    "dseg nx pv x n' bs q NULL" "p' = (if as = [] then NULL else last as)"
    "n' = (if bs = [] then NULL else hd bs)"
    by (rule dll_split [OF assms(1)])
  have "n' = n" "p' = p" using s(2,3) assms(2,3) by simp_all
  with s have A: "dseg nx pv NULL c as p x" and B: "dseg nx pv x n bs q NULL"
    and p: "p = (if as = [] then NULL else last as)" and n: "n = (if bs = [] then NULL else hd bs)"
    by simp_all
  have nz: "NULL \<notin> set (as @ x # bs)" using dll_mem [OF assms(1)] by auto
  have pas: "as \<noteq> [] \<Longrightarrow> p \<in> set as \<and> p \<noteq> NULL" using p nz by (metis Un_iff last_in_set set_append)
  have nbs: "bs \<noteq> [] \<Longrightarrow> n \<in> set bs \<and> n \<noteq> NULL"
    using n nz by (metis Un_iff hd_in_set list.set_intros(2) set_append)
  have p_bs: "p = NULL \<or> p \<notin> set bs" using pas p d by fastforce
  have n_as: "n = NULL \<or> n \<notin> set as" using nbs n d by fastforce
  have "\<exists>q. dseg nx ?pv p n bs q NULL"
  proof (cases bs)
    case Nil
    with n show ?thesis by simp
  next
    case (Cons b bs')
    then have "dseg nx (pv(b \<mapsto> p)) p n bs q NULL"
      using B d unfolding Cons by (intro dseg_set_prev) auto
    with Cons nbs n show ?thesis by (auto simp: drop_pv_def)
  qed
  then obtain q' where "dseg nx ?pv p n bs q' NULL" ..
  then have B': "dseg ?nx ?pv p n bs q' NULL"
    by (subst dseg_cong [of bs _ nx _ ?pv]) (use p_bs in \<open>auto simp: drop_nx_def\<close>)
  show ?thesis
  proof (cases "as = []")
    case True
    with p B' show ?thesis by (auto simp: dll_def)
  next
    case False
    have "dseg (nx(p \<mapsto> n)) pv NULL c as p n" using A d False by (intro dseg_set_next) auto
    then have "dseg ?nx ?pv NULL c as p n"
      by (subst dseg_cong [of as _ "nx(p \<mapsto> n)" _ pv])
        (use pas [OF False] n_as in \<open>auto simp: drop_nx_def drop_pv_def\<close>)
    with B' pas [OF False] show ?thesis by (auto simp: dll_def dseg_append)
  qed
qed

lemma chains_push:
  assumes ch: "chains dbl nx pv hds L" and k: "hds k = Some c" "dbl k"
    and s: "s \<noteq> NULL" "unlisted L s"
  shows "chains dbl (nx(s \<mapsto> c)) (push_pv pv c s) (hds(k \<mapsto> s)) (L(k := s # L k))"
proof (rule chainsI)
  fix k' c' assume h: "(hds(k \<mapsto> s)) k' = Some c'"
  have ck: "c = NULL \<or> c \<in> set (L k)" using chains_hd [OF ch k(1)] by auto
  show "chain (dbl k') (nx(s \<mapsto> c)) (push_pv pv c s) c' ((L(k := s # L k)) k')"
  proof (cases "k' = k")
    case True
    with h dll_push [OF chains_dll [OF ch k] s(1)] s(2) k(2) show ?thesis
      by (auto simp: chain_def unlisted_def)
  next
    case False
    with h have "chain (dbl k') nx pv c' (L k')" using chainsD(2) [OF ch] by simp
    moreover have "c \<notin> set (L k') \<or> c = NULL" using ck False chainsD(3) [OF ch] by blast
    ultimately show ?thesis using False s(2)
      by (subst chain_cong [of _ _ nx _ pv]) (auto simp: push_pv_def unlisted_def)
  qed
qed (use s(2) in \<open>auto simp: chainsD(1) [OF ch] unlisted_def split: if_splits intro: chainsD(3) [OF ch]\<close>)

text \<open>Pushing on a list that is only followed forwards leaves \<open>prev\<close> of the new element free.\<close>

lemma chains_push_sll:
  assumes ch: "chains dbl nx pv hds L" and k: "hds k = Some c" "\<not> dbl k"
    and s: "s \<noteq> NULL" "unlisted L s"
  shows "chains dbl (nx(s \<mapsto> c)) (pv(s \<mapsto> q)) (hds(k \<mapsto> s)) (L(k := s # L k))"
proof (rule chainsI)
  fix k' c' assume h: "(hds(k \<mapsto> s)) k' = Some c'"
  show "chain (dbl k') (nx(s \<mapsto> c)) (pv(s \<mapsto> q)) c' ((L(k := s # L k)) k')"
  proof (cases "k' = k")
    case True
    have "sll nx c (L k)" using chainsD(2) [OF ch k(1)] k(2) by (simp add: chain_def)
    then have "sll (nx(s \<mapsto> c)) c (L k)"
      by (subst sll_cong [of _ _ nx]) (use s(2) in \<open>auto simp: unlisted_def\<close>)
    with True h s k(2) show ?thesis by (auto simp: chain_def)
  next
    case False
    with h have "chain (dbl k') nx pv c' (L k')" using chainsD(2) [OF ch] by simp
    then show ?thesis using False s(2)
      by (subst chain_cong [of _ _ nx _ pv]) (auto simp: unlisted_def)
  qed
qed (use s(2) in \<open>auto simp: chainsD(1) [OF ch] unlisted_def split: if_splits intro: chainsD(3) [OF ch]\<close>)

lemma chains_remove:
  assumes ch: "chains dbl nx pv hds L" and k: "hds k = Some c" "dbl k"
    and s: "s \<in> set (L k)" "nx s = Some n" "pv s = Some p"
  shows "chains dbl (drop_nx nx p n) (drop_pv pv p n) (if p = NULL then hds(k \<mapsto> n) else hds)
           (L(k := remove1 s (L k)))"
proof (rule chainsI)
  have dl: "dll nx pv c (L k)" by (rule chains_dll [OF ch k])
  fix k' c' assume h: "(if p = NULL then hds(k \<mapsto> n) else hds) k' = Some c'"
  show "chain (dbl k') (drop_nx nx p n) (drop_pv pv p n) c' ((L(k := remove1 s (L k))) k')"
  proof (cases "k' = k")
    case True
    obtain as bs where "L k = as @ s # bs" "remove1 s (L k) = as @ bs"
      using remove1_split [OF dll_distinct [OF dl] s(1)] by blast
    with dll_remove [of nx pv c as s bs n p] dl s(2,3) True h k show ?thesis
      by (auto simp: chain_def split: if_splits)
  next
    case False
    with h have "chain (dbl k') nx pv c' (L k')" using chainsD(2) [OF ch] by (simp split: if_splits)
    moreover have "p = NULL \<or> p \<notin> set (L k')" "n = NULL \<or> n \<notin> set (L k')"
      using dll_prev_mem [OF dl s(1,3)] dll_next_mem [OF dl s(1,2)] chainsD(3) [OF ch] False by blast+
    ultimately show ?thesis using False
      by (subst chain_cong [of _ _ nx _ pv]) (auto simp: drop_nx_def drop_pv_def)
  qed
next
  fix k1 k2 x
  assume "x \<in> set ((L(k := remove1 s (L k))) k1)" "x \<in> set ((L(k := remove1 s (L k))) k2)"
  then have "x \<in> set (L k1)" "x \<in> set (L k2)"
    by (auto split: if_splits dest: subsetD [OF set_remove1_subset])
  then show "k1 = k2" by (rule chainsD(3) [OF ch])
qed (use k in \<open>auto simp: chainsD(1) [OF ch] split: if_splits\<close>)

subsection \<open>The interface of a store of lists\<close>

text \<open>
  What a client of \<open>link\<close> and \<open>unlink\<close> relies on: the two operations succeed on allocated objects
  and act on the \<open>next\<close> fields, the \<open>prev\<close> fields and the list heads of the store exactly as an
  insertion at the head and an unlinking do.  The premises of \<open>unlink_views\<close> are the facts by which
  the implementations recognise the first and the last remaining element.
\<close>

locale dll_store =
  fixes nxt prv :: "'h \<Rightarrow> ptr \<rightharpoonup> ptr"
    and heads :: "'h \<Rightarrow> 'k \<rightharpoonup> ptr"
    and dbl :: "'k \<Rightarrow> bool"
    and key :: "ptr \<Rightarrow> 'k"
    and link unlink :: "'h \<Rightarrow> ptr \<Rightarrow> ptr \<Rightarrow> 'h option"
  assumes dom_eq: "dom (prv h) = dom (nxt h)"
    and link_spec: "heads h (key a) = Some c \<Longrightarrow> s \<in> dom (nxt h) \<Longrightarrow>
      c = NULL \<or> c \<in> dom (nxt h) \<Longrightarrow> c \<noteq> s \<Longrightarrow>
      \<exists>h'. link h a s = Some h' \<and> nxt h' = (nxt h)(s \<mapsto> c) \<and> prv h' = push_pv (prv h) c s \<and>
        heads h' = (heads h)(key a \<mapsto> s)"
    and unlink_spec: "heads h (key a) = Some c \<Longrightarrow> nxt h s = Some n \<Longrightarrow> prv h s = Some p \<Longrightarrow>
      n = NULL \<or> n \<in> dom (nxt h) \<Longrightarrow> p = NULL \<or> p \<in> dom (nxt h) \<Longrightarrow>
      p = n \<longrightarrow> p = NULL \<Longrightarrow> p = NULL \<longleftrightarrow> c = s \<Longrightarrow> p \<noteq> s \<Longrightarrow> n \<noteq> s \<Longrightarrow>
      \<exists>h'. unlink h a s = Some h' \<and> nxt h' = drop_nx (nxt h) p n \<and> prv h' = drop_pv (prv h) p n \<and>
        heads h' = (if p = NULL then (heads h)(key a \<mapsto> n) else heads h)"
begin

definition linked :: "'h \<Rightarrow> ('k \<Rightarrow> ptr list) \<Rightarrow> bool" where
  "linked h L \<longleftrightarrow> chains dbl (nxt h) (prv h) (heads h) L"

lemma link_linked:
  assumes L: "linked h L" and a: "heads h (key a) = Some c" "dbl (key a)"
    and s: "s \<in> dom (nxt h)" "s \<noteq> NULL" "unlisted L s"
  shows "\<exists>h'. link h a s = Some h' \<and> linked h' (L(key a := s # L (key a)))"
proof -
  note ch = L [unfolded linked_def]
  have "c = NULL \<or> c \<in> dom (nxt h)"
    using chains_hd [OF ch a(1)] chains_mem(2) [OF ch, of c "key a"] by (auto split: if_splits)
  moreover have "c \<noteq> s"
    using chains_hd [OF ch a(1)] s(2,3) hd_in_set [of "L (key a)"] unfolding unlisted_def by metis
  ultimately obtain h' where "link h a s = Some h'" "nxt h' = (nxt h)(s \<mapsto> c)"
    "prv h' = push_pv (prv h) c s" "heads h' = (heads h)(key a \<mapsto> s)"
    using link_spec [OF a(1) s(1)] by blast
  with chains_push [OF ch a s(2,3)] show ?thesis
    by (simp add: linked_def)
qed

lemma unlink_linked:
  assumes L: "linked h L" and a: "heads h (key a) = Some c" "dbl (key a)" and s: "s \<in> set (L (key a))"
  shows "\<exists>h'. unlink h a s = Some h' \<and> linked h' (L(key a := remove1 s (L (key a))))"
proof -
  note ch = L [unfolded linked_def]
  have dl: "dll (nxt h) (prv h) c (L (key a))" by (rule chains_dll [OF ch a])
  from dll_mem [OF dl s] obtain n p where np: "nxt h s = Some n" "prv h s = Some p" "s \<noteq> NULL" by blast
  have n: "n = NULL \<or> n \<in> dom (nxt h)"
    using dll_next_mem [OF dl s np(1)] dll_mem [OF dl] by blast
  have p: "p = NULL \<or> p \<in> dom (nxt h)"
    using dll_prev_mem [OF dl s np(2)] dll_mem [OF dl] by blast
  have last: "p = n \<longrightarrow> p = NULL"
    using dll_prev_eq_next [OF dl s np(1,2)] dl np by (auto simp: dll_def)
  have first: "p = NULL \<longleftrightarrow> c = s" by (rule dll_first [OF dl s np(2)])
  obtain h' where "unlink h a s = Some h'" "nxt h' = drop_nx (nxt h) p n"
    "prv h' = drop_pv (prv h) p n"
    "heads h' = (if p = NULL then (heads h)(key a \<mapsto> n) else heads h)"
    using unlink_spec [OF a(1) np(1,2) n p last first] dll_neighbours_neq [OF dl s np(1,2)] by blast
  with chains_remove [OF ch a s np(1,2)] show ?thesis
    by (simp add: linked_def)
qed

text \<open>Linking at the head and unlinking again gives the lists back.\<close>

lemma link_unlink:
  assumes L: "linked h L" and a: "heads h (key a) = Some c" "dbl (key a)"
    and s: "s \<in> dom (nxt h)" "s \<noteq> NULL" "unlisted L s"
  shows "\<exists>h' h''. link h a s = Some h' \<and> unlink h' a s = Some h'' \<and> linked h'' L"
proof -
  obtain h' where h': "link h a s = Some h'" "linked h' (L(key a := s # L (key a)))"
    using link_linked [OF assms] by blast
  have "\<exists>c'. heads h' (key a) = Some c'"
    using chains_mem(3) [OF h'(2) [unfolded linked_def], of s "key a"] by simp
  then have "heads h' (key a) = Some s"
    using chains_hd [OF h'(2) [unfolded linked_def]] by fastforce
  from unlink_linked [OF h'(2) this a(2), of s] show ?thesis using h' by simp
qed

end

end
