(* ===== verification/Sni.thy ===== *)
theory Sni
  imports Base "HOL-Library.Char_ord" "HOL-Library.List_Lexorder" "HOL-Library.Multiset"
begin

text \<open>
  The tree of server names of \<open>src/crypto/sni_tree.cpp\<close>.  A node holds the user pointer of the
  name that ends there (\<open>None\<close> for a null pointer) and its children, an ordered map from labels to
  nodes: \<open>std::map\<close> is an association list sorted by the label, compared byte by byte.  A hostname
  is cut into labels at its dots.  The labels of a node are copies made with \<open>malloc\<close>; they live
  as long as the entry of the map and are not modelled apart from it.

  The tree is compared with a flat map from label lists to users (\<open>exact\<close>): adding and removing
  are updates of that map, and the search with wildcards is the first match among the patterns of
  the name, exact labels preferred to the asterisk from left to right.
\<close>

subsection \<open>The code\<close>

datatype 'u sni_node =
  SniNode (node_user: "'u option") (node_children: "(string \<times> 'u sni_node) list")

definition MAX_LABELS :: nat where
  "MAX_LABELS = 10"

abbreviation empty_node :: "'u sni_node" where
  "empty_node \<equiv> SniNode None []"

text \<open>\<open>std::map::find\<close> is \<open>map_of\<close>; the other two operations of the map.\<close>

fun put_child :: "string \<Rightarrow> 'n \<Rightarrow> (string \<times> 'n) list \<Rightarrow> (string \<times> 'n) list" where
  "put_child k c [] = [(k, c)]"
| "put_child k c ((k', c') # cs) =
    (if k < k' then (k, c) # (k', c') # cs
     else if k = k' then (k, c) # cs
     else (k', c') # put_child k c cs)"

definition erase_child :: "string \<Rightarrow> (string \<times> 'n) list \<Rightarrow> (string \<times> 'n) list" where
  "erase_child k cs = filter (\<lambda>(k', _). k' \<noteq> k) cs"

text \<open>The head of the \<open>for\<close> loops: the label is what stands before the next dot.\<close>

definition next_label :: "string \<Rightarrow> string" where
  "next_label view = takeWhile (\<lambda>c. c \<noteq> CHR ''.'') view"

definition after_label :: "string \<Rightarrow> string" where
  "after_label view = drop (min (length view) (length (next_label view) + 1)) view"

function labels_of :: "string \<Rightarrow> string list" where
  "labels_of view =
    (if view = [] then [] else next_label view # labels_of (after_label view))"
  by pat_completeness auto
termination by (relation "measure length") (auto simp: after_label_def)

declare labels_of.simps [simp del]

text \<open>The loops of \<open>sni_remove\<close> and \<open>sni_find\<close>, which give up at an eleventh label.\<close>

function collect_labels :: "nat \<Rightarrow> string \<Rightarrow> string list option" where
  "collect_labels numLabels view =
    (if view = [] then Some []
     else if numLabels = MAX_LABELS then None
     else map_option ((#) (next_label view)) (collect_labels (numLabels + 1) (after_label view)))"
  by pat_completeness auto
termination by (relation "measure (length \<circ> snd)") (auto simp: after_label_def)

declare collect_labels.simps [simp del]

fun removeUser :: "'u sni_node \<Rightarrow> string list \<Rightarrow> 'u option \<times> 'u sni_node" where
  "removeUser (SniNode u cs) [] = (u, SniNode None cs)"
| "removeUser (SniNode u cs) (l # ls) =
    (case map_of cs l of
       None \<Rightarrow> (None, SniNode u cs)
     | Some c \<Rightarrow> (case removeUser c ls of (removed, c') \<Rightarrow>
         (removed, SniNode u (if node_children c' = [] \<and> node_user c' = None
                              then erase_child l cs else put_child l c' cs))))"

fun getUser :: "'u sni_node \<Rightarrow> string list \<Rightarrow> 'u option" where
  "getUser (SniNode u cs) [] = u"
| "getUser (SniNode u cs) (l # ls) =
    (case (case map_of cs l of Some c \<Rightarrow> getUser c ls | None \<Rightarrow> None) of
       Some x \<Rightarrow> Some x
     | None \<Rightarrow> (case map_of cs ''*'' of Some c \<Rightarrow> getUser c ls | None \<Rightarrow> None))"

text \<open>The walk of \<open>sni_add\<close>: missing nodes are made on the way; \<open>1\<close> when the name is taken.\<close>

fun addUser :: "'u sni_node \<Rightarrow> string list \<Rightarrow> 'u option \<Rightarrow> int \<times> 'u sni_node" where
  "addUser (SniNode u cs) [] x =
    (if u \<noteq> None then (1, SniNode u cs) else (0, SniNode x cs))"
| "addUser (SniNode u cs) (l # ls) x =
    (case addUser (case map_of cs l of Some c \<Rightarrow> c | None \<Rightarrow> empty_node) ls x of (r, c') \<Rightarrow>
       (r, SniNode u (put_child l c' cs)))"

text \<open>The destructor: the users of the children first, then the children themselves.\<close>

fun destroy_node :: "'u sni_node \<Rightarrow> 'u list" where
  "destroy_node (SniNode u cs) =
    List.map_filter (\<lambda>p. node_user (snd p)) cs @ concat (map (\<lambda>p. destroy_node (snd p)) cs)"

definition sni_new :: "'u sni_node" where
  "sni_new = empty_node"

text \<open>\<open>sni_free\<close> is given by the users it passes to the callback.\<close>

definition sni_free :: "'u sni_node \<Rightarrow> 'u list" where
  "sni_free sni = destroy_node sni"

definition sni_add :: "'u sni_node \<Rightarrow> string \<Rightarrow> 'u option \<Rightarrow> int \<times> 'u sni_node" where
  "sni_add sni hostname x = addUser sni (labels_of hostname) x"

definition sni_remove :: "'u sni_node \<Rightarrow> string \<Rightarrow> 'u option \<times> 'u sni_node" where
  "sni_remove sni hostname =
    (case collect_labels 0 hostname of
       None \<Rightarrow> (None, sni)
     | Some labels \<Rightarrow> removeUser sni labels)"

definition sni_find :: "'u sni_node \<Rightarrow> string \<Rightarrow> 'u option" where
  "sni_find sni hostname =
    (case collect_labels 0 hostname of
       None \<Rightarrow> None
     | Some labels \<Rightarrow> getUser sni labels)"

subsection \<open>The specification\<close>

text \<open>The flat map a tree stands for, and the well-formed trees: sorted, with no empty leaf.\<close>

fun exact :: "'u sni_node \<Rightarrow> string list \<Rightarrow> 'u option" where
  "exact (SniNode u cs) [] = u"
| "exact (SniNode u cs) (l # ls) =
    (case map_of cs l of Some c \<Rightarrow> exact c ls | None \<Rightarrow> None)"

fun sni_ok :: "'u sni_node \<Rightarrow> bool" where
  "sni_ok (SniNode u cs) =
    (sorted_wrt (<) (map fst cs) \<and> (\<forall>p \<in> set cs. sni_ok (snd p) \<and> snd p \<noteq> empty_node))"

text \<open>The patterns that match a name, in the order in which they are preferred.\<close>

fun patterns :: "string list \<Rightarrow> string list list" where
  "patterns [] = [[]]"
| "patterns (l # ls) = map ((#) l) (patterns ls) @ map ((#) ''*'') (patterns ls)"

fun first_match :: "('k \<Rightarrow> 'u option) \<Rightarrow> 'k list \<Rightarrow> 'u option" where
  "first_match m [] = None"
| "first_match m (p # ps) = (case m p of Some x \<Rightarrow> Some x | None \<Rightarrow> first_match m ps)"

text \<open>Every name of the tree with its user.\<close>

fun entries :: "'u sni_node \<Rightarrow> (string list \<times> 'u) list" where
  "entries (SniNode u cs) =
    (case u of Some x \<Rightarrow> [([], x)] | None \<Rightarrow> []) @
    concat (map (\<lambda>p. map (\<lambda>(ls, x). (fst p # ls, x)) (entries (snd p))) cs)"

subsection \<open>Labels\<close>

lemma labels_of_Nil [simp]: "labels_of [] = []"
  by (subst labels_of.simps) simp

lemma labels_of_step: "v \<noteq> [] \<Longrightarrow> labels_of v = next_label v # labels_of (after_label v)"
  by (subst labels_of.simps) simp

lemma collect_labels_is:
  "n \<le> MAX_LABELS \<Longrightarrow> collect_labels n v =
    (if n + length (labels_of v) \<le> MAX_LABELS then Some (labels_of v) else None)"
proof (induction n v rule: collect_labels.induct)
  case (1 n v)
  show ?case
  proof (cases "v = [] \<or> n = MAX_LABELS")
    case True
    with "1.prems" show ?thesis
      by (subst collect_labels.simps) (auto simp: labels_of_step)
  next
    case False
    with 1 have "collect_labels (n + 1) (after_label v) =
      (if n + 1 + length (labels_of (after_label v)) \<le> MAX_LABELS
       then Some (labels_of (after_label v)) else None)"
      by auto
    with False show ?thesis
      by (subst collect_labels.simps) (auto simp: labels_of_step)
  qed
qed

lemma collect_labels_0:
  "collect_labels 0 v =
    (if length (labels_of v) \<le> MAX_LABELS then Some (labels_of v) else None)"
  using collect_labels_is [of 0 v] by simp

subsection \<open>The ordered map of a node\<close>

lemma map_of_put [simp]: "map_of (put_child k c cs) = (map_of cs)(k \<mapsto> c)"
  by (induction k c cs rule: put_child.induct) (auto simp: fun_eq_iff)

lemma set_put: "set (put_child k c cs) \<subseteq> insert (k, c) (set cs)"
  by (induction k c cs rule: put_child.induct) auto

lemma keys_put: "set (map fst (put_child k c cs)) = insert k (set (map fst cs))"
  by (induction k c cs rule: put_child.induct) auto

lemma sorted_put:
  "sorted_wrt (<) (map fst cs) \<Longrightarrow> sorted_wrt (<) (map fst (put_child k c cs))"
proof (induction k c cs rule: put_child.induct)
  case (2 k c k' c' cs)
  then show ?case
    using keys_put [of k c cs] by (auto simp del: set_map)
qed simp

lemma put_child_nonempty [simp]: "put_child k c cs \<noteq> []"
  by (induction k c cs rule: put_child.induct) auto

lemma map_of_erase [simp]: "map_of (erase_child k cs) = (map_of cs)(k := None)"
  by (induction cs) (auto simp: erase_child_def fun_eq_iff)

lemma set_erase: "set (erase_child k cs) \<subseteq> set cs"
  by (auto simp: erase_child_def)

lemma sorted_erase:
  "sorted_wrt (<) (map fst cs) \<Longrightarrow> sorted_wrt (<) (map fst (erase_child k cs))"
  by (induction cs) (auto simp: erase_child_def)

lemma sorted_distinct: "sorted_wrt (<) (map fst cs) \<Longrightarrow> distinct (map (fst :: _ \<Rightarrow> string) cs)"
  by (induction cs) auto

lemma by_keys:
  "distinct (map fst cs) \<Longrightarrow> map (\<lambda>k. (k, the (map_of cs k))) (map fst cs) = cs"
  unfolding map_map by (rule map_idI) (auto simp: map_of_is_SomeI)

lemma sorted_map_unique:
  assumes "sorted_wrt (<) (map fst cs)" "sorted_wrt (<) (map (fst :: _ \<Rightarrow> string) ds)"
    and m: "map_of cs = map_of ds"
  shows "cs = ds"
proof -
  have d: "distinct (map fst cs)" "distinct (map fst ds)"
    using assms(1,2) by (auto dest: sorted_distinct)
  have "set (map fst cs) = set (map fst ds)"
    using m by (simp flip: dom_map_of_conv_image_fst)
  then have "map fst cs = map fst ds"
    using assms(1,2) by (intro strict_sorted_equal) auto
  then show ?thesis
    using by_keys [OF d(1)] by_keys [OF d(2)] m by simp
qed

lemma put_child_same:
  assumes "sorted_wrt (<) (map fst cs)" "map_of cs k = Some c"
  shows "put_child k c cs = cs"
  by (rule sorted_map_unique) (use assms sorted_put in \<open>auto simp: fun_upd_idem\<close>)

subsection \<open>A tree is a flat map\<close>

lemma exact_case:
  "exact (SniNode u cs) ls =
    (case ls of [] \<Rightarrow> u
     | l # ls' \<Rightarrow> (case map_of cs l of Some c \<Rightarrow> exact c ls' | None \<Rightarrow> None))"
  by (cases ls) auto

lemma exact_empty [simp]: "exact empty_node ls = None"
  by (cases ls) auto

lemma child_ok:
  "sni_ok (SniNode u cs) \<Longrightarrow> map_of cs l = Some c \<Longrightarrow> sni_ok c \<and> c \<noteq> empty_node"
  using map_of_SomeD [of cs l c] by auto

lemma addUser_taken:
  "sni_ok n \<Longrightarrow> exact n ls \<noteq> None \<Longrightarrow> addUser n ls x = (1, n)"
proof (induction n ls x rule: addUser.induct)
  case (2 u cs l ls x)
  then obtain c where c: "map_of cs l = Some c" "exact c ls \<noteq> None"
    by (auto split: option.splits)
  then have "sni_ok c"
    using 2(2) child_ok by blast
  with 2 c show ?case
    by (auto simp: put_child_same)
qed auto

lemma addUser_fresh:
  "exact n ls = None \<Longrightarrow>
    fst (addUser n ls x) = 0 \<and> exact (snd (addUser n ls x)) = (exact n)(ls := x)"
proof (induction n ls x rule: addUser.induct)
  case (2 u cs l ls x)
  let ?c = "case map_of cs l of Some c \<Rightarrow> c | None \<Rightarrow> empty_node"
  have "exact ?c ls = None"
    using 2(2) by (auto split: option.splits)
  from 2(1) [OF this] show ?case
    by (auto simp: exact_case fun_eq_iff split: prod.splits list.splits option.splits)
qed (auto simp: exact_case fun_eq_iff split: list.splits)

lemma addUser_ok:
  "sni_ok n \<Longrightarrow> sni_ok (snd (addUser n ls (Some x))) \<and> snd (addUser n ls (Some x)) \<noteq> empty_node"
proof (induction n ls "Some x" rule: addUser.induct)
  case (2 u cs l ls)
  let ?c = "case map_of cs l of Some c \<Rightarrow> c | None \<Rightarrow> empty_node"
  have "sni_ok ?c"
    using child_ok [OF 2(2)] by (auto split: option.splits)
  with 2(1) have "sni_ok (snd (addUser ?c ls (Some x)))"
    "snd (addUser ?c ls (Some x)) \<noteq> empty_node"
    by auto
  with 2(2) show ?case
    using set_put [of l "snd (addUser ?c ls (Some x))" cs]
    by (auto simp: sorted_put split: prod.splits)
qed auto

lemma removeUser_exact:
  "fst (removeUser n ls) = exact n ls \<and> exact (snd (removeUser n ls)) = (exact n)(ls := None)"
proof (induction n ls rule: removeUser.induct)
  case (2 u cs l ls)
  show ?case
  proof (cases "map_of cs l")
    case None
    then show ?thesis
      by (auto simp: exact_case fun_eq_iff split: list.splits)
  next
    case (Some c)
    let ?c = "snd (removeUser c ls)"
    have c: "fst (removeUser c ls) = exact c ls" "exact ?c = (exact c)(ls := None)"
      using 2 [OF Some] by auto
    have "node_children ?c = [] \<and> node_user ?c = None \<longleftrightarrow> ?c = empty_node"
      by (cases ?c) auto
    moreover have "exact c ls' = None" if "?c = empty_node" "ls' \<noteq> ls" for ls'
      using that c(2) by (metis exact_empty fun_upd_other)
    ultimately show ?thesis
      using c Some
      by (auto simp: exact_case fun_eq_iff split: prod.splits list.splits)
  qed
qed (auto simp: exact_case fun_eq_iff split: list.splits)

lemma removeUser_ok: "sni_ok n \<Longrightarrow> sni_ok (snd (removeUser n ls))"
proof (induction n ls rule: removeUser.induct)
  case (2 u cs l ls)
  show ?case
  proof (cases "map_of cs l")
    case (Some c)
    let ?c = "snd (removeUser c ls)"
    have "sni_ok ?c"
      using 2(1) [OF Some] child_ok [OF 2(2) Some] by simp
    moreover have "node_children ?c = [] \<and> node_user ?c = None \<longleftrightarrow> ?c = empty_node"
      by (cases ?c) auto
    ultimately show ?thesis
      using 2(2) Some set_put [of l ?c cs] set_erase [of l cs]
      by (auto simp: sorted_put sorted_erase split: prod.splits)
  qed (use 2 in auto)
qed auto

lemma sni_ok_has_user: "sni_ok n \<Longrightarrow> n \<noteq> empty_node \<Longrightarrow> \<exists>ls. exact n ls \<noteq> None"
proof (induction n)
  case (SniNode u cs)
  show ?case
  proof (cases u)
    case (Some x)
    then show ?thesis by (intro exI [of _ "[]"]) simp
  next
    case None
    with SniNode.prems obtain l c cs' where cs: "cs = (l, c) # cs'"
      by (cases cs) auto
    with SniNode obtain ls where "exact c ls \<noteq> None"
      by (metis list.set_intros(1) prod_set_simps(2) singletonI sni_ok.simps snd_conv)
    with cs show ?thesis
      by (intro exI [of _ "l # ls"]) simp
  qed
qed

text \<open>Trees are canonical: a well-formed tree is determined by its flat map.\<close>

lemma exact_unique:
  "sni_ok a \<Longrightarrow> sni_ok b \<Longrightarrow> exact a = exact b \<Longrightarrow> a = b"
proof (induction a arbitrary: b)
  case (SniNode u cs)
  obtain v ds where b: "b = SniNode v ds" by (cases b)
  have u: "u = v"
    using fun_cong [OF SniNode.prems(3), of "[]"] b by simp
  have ex: "(case map_of cs l of Some c \<Rightarrow> exact c ls | None \<Rightarrow> None) =
      (case map_of ds l of Some c \<Rightarrow> exact c ls | None \<Rightarrow> None)" for l ls
    using fun_cong [OF SniNode.prems(3), of "l # ls"] b by simp
  have "map_of cs l = map_of ds l" for l
  proof -
    have live: "sni_ok c \<and> (\<exists>ls. exact c ls \<noteq> None)"
      if "map_of cs l = Some c \<or> map_of ds l = Some c" for c
      using that SniNode.prems(1,2) b sni_ok_has_user [of c] by (auto dest!: map_of_SomeD)
    show ?thesis
    proof (cases "map_of cs l")
      case None
      with ex [where l = l] live show ?thesis
        by (cases "map_of ds l") auto
    next
      case (Some c)
      with ex [where l = l] live obtain d where d: "map_of ds l = Some d"
        by (cases "map_of ds l") auto
      with Some ex [where l = l] have "exact c = exact d"
        by (simp add: fun_eq_iff)
      then have "c = d"
        using SniNode.IH [of "(l, c)" c d] Some d live by (auto dest: map_of_SomeD)
      with Some d show ?thesis by simp
    qed
  qed
  then have "cs = ds"
    using SniNode.prems b by (intro sorted_map_unique) auto
  with u b show ?case by simp
qed

subsection \<open>The search\<close>

lemma first_match_append:
  "first_match m (ps @ qs) =
    (case first_match m ps of Some x \<Rightarrow> Some x | None \<Rightarrow> first_match m qs)"
  by (induction ps) (auto split: option.splits)

lemma first_match_map: "first_match m (map f ps) = first_match (\<lambda>p. m (f p)) ps"
  by (induction ps) (auto split: option.splits)

lemma first_match_None: "first_match m ps = None \<longleftrightarrow> (\<forall>p \<in> set ps. m p = None)"
  by (induction ps) (auto split: option.splits)

lemma first_match_nothing [simp]: "first_match (\<lambda>p. None) ps = None"
  by (induction ps) auto

lemma patterns_hd: "\<exists>qs. patterns ls = ls # qs"
  by (induction ls) auto

lemma getUser_first: "getUser n ls = first_match (exact n) (patterns ls)"
  by (induction n ls rule: getUser.induct)
    (auto simp: first_match_append first_match_map split: option.splits)

lemma getUser_exact: "exact n ls = Some x \<Longrightarrow> getUser n ls = Some x"
  using patterns_hd [of ls] by (auto simp: getUser_first)

lemma sni_find_is:
  "sni_find n h =
    (if length (labels_of h) \<le> MAX_LABELS then first_match (exact n) (patterns (labels_of h))
     else None)"
  by (simp add: sni_find_def collect_labels_0 getUser_first)

lemma sni_add_fresh:
  assumes "sni_ok n" "exact n (labels_of h) = None"
  obtains n' where "sni_add n h (Some x) = (0, n')" "sni_ok n'"
    "exact n' = (exact n)(labels_of h \<mapsto> x)"
  using addUser_fresh [OF assms(2), of "Some x"] addUser_ok [OF assms(1), of "labels_of h" x]
  by (cases "addUser n (labels_of h) (Some x)") (auto simp: sni_add_def)

lemma sni_remove_is:
  assumes "sni_ok n" "length (labels_of h) \<le> MAX_LABELS"
  obtains n' where "sni_remove n h = (exact n (labels_of h), n')" "sni_ok n'"
    "exact n' = (exact n)(labels_of h := None)"
  using removeUser_exact [of n "labels_of h"] removeUser_ok [OF assms(1), of "labels_of h"] assms(2)
  by (cases "removeUser n (labels_of h)") (auto simp: sni_remove_def collect_labels_0)

subsection \<open>Freeing the tree\<close>

lemma map_filter_Nil: "List.map_filter f [] = []"
  by (simp add: List.map_filter_def)

lemma map_filter_Cons: "List.map_filter f (x # xs) =
    (case f x of Some y \<Rightarrow> y # List.map_filter f xs | None \<Rightarrow> List.map_filter f xs)"
  by (simp add: List.map_filter_def split: option.splits)

definition proper_entries :: "'u sni_node \<Rightarrow> (string list \<times> 'u) list" where
  "proper_entries n = filter (\<lambda>e. fst e \<noteq> []) (entries n)"

lemma entries_split:
  "image_mset snd (mset (entries n)) =
    mset (case node_user n of Some x \<Rightarrow> [x] | None \<Rightarrow> []) +
    image_mset snd (mset (proper_entries n))"
  by (cases n) (auto simp: proper_entries_def filter_concat comp_def case_prod_unfold
      split: option.splits)

lemma destroy_entries:
  "mset (destroy_node n) = image_mset snd (mset (proper_entries n))"
proof (induction n)
  case (SniNode u cs)
  have p: "proper_entries (SniNode u cs) =
      concat (map (\<lambda>p. map (\<lambda>(ls, x). (fst p # ls, x)) (entries (snd p))) cs)"
    by (auto simp: proper_entries_def filter_concat comp_def case_prod_unfold
        split: option.splits)
  have "\<forall>p \<in> set cs.
      mset (destroy_node (snd p)) = image_mset snd (mset (proper_entries (snd p)))"
    using SniNode by (auto simp: snds.simps)
  then have "mset (List.map_filter (\<lambda>p. node_user (snd p)) cs @
      concat (map (\<lambda>p. destroy_node (snd p)) cs)) =
    image_mset snd (mset (concat (map (\<lambda>p. map (\<lambda>(ls, x). (fst p # ls, x)) (entries (snd p))) cs)))"
    by (induction cs) (auto simp: map_filter_Nil map_filter_Cons entries_split
        image_mset.compositionality comp_def case_prod_unfold ac_simps split: option.splits)
  then show ?case
    unfolding p by simp
qed

lemma entries_exact: "sni_ok n \<Longrightarrow> (ls, x) \<in> set (entries n) \<longleftrightarrow> exact n ls = Some x"
proof (induction n arbitrary: ls)
  case (SniNode u cs)
  have "distinct (map fst cs)"
    using SniNode.prems by (simp add: sorted_distinct)
  then have m: "map_of cs l = Some c \<longleftrightarrow> (l, c) \<in> set cs" for l c
    by simp
  have IH: "(ls, x) \<in> set (entries c) \<longleftrightarrow> exact c ls = Some x" if "(l, c) \<in> set cs" for l c ls
    using SniNode.IH [of "(l, c)" c] SniNode.prems that by (auto simp: snds.simps)
  show ?case
  proof (cases ls)
    case Nil
    then show ?thesis by (auto split: option.splits)
  next
    case (Cons l ls')
    have "(l # ls', x) \<in> set (entries (SniNode u cs)) \<longleftrightarrow>
        (\<exists>c. (l, c) \<in> set cs \<and> (ls', x) \<in> set (entries c))"
      by (force split: option.splits)
    also have "\<dots> \<longleftrightarrow> (\<exists>c. (l, c) \<in> set cs \<and> exact c ls' = Some x)"
      using IH by blast
    also have "\<dots> \<longleftrightarrow> exact (SniNode u cs) (l # ls') = Some x"
      by (auto simp flip: m split: option.splits)
    finally show ?thesis using Cons by simp
  qed
qed

lemma distinct_paths:
  "distinct (map fst cs) \<Longrightarrow> \<forall>p \<in> set cs. distinct (map fst (f (snd p))) \<Longrightarrow>
    distinct (concat (map (\<lambda>p. map (\<lambda>e. fst p # fst e) (f (snd p))) cs))"
  by (induction cs) (fastforce simp: distinct_map inj_on_def)+

lemma entries_distinct: "sni_ok n \<Longrightarrow> distinct (map fst (entries n))"
proof (induction n)
  case (SniNode u cs)
  have "\<forall>p \<in> set cs. distinct (map fst (entries (snd p)))"
    using SniNode by (auto simp: snds.simps)
  then have "distinct (concat (map (\<lambda>p. map (\<lambda>e. fst p # fst e) (entries (snd p))) cs))"
    using SniNode.prems by (intro distinct_paths) (simp_all add: sorted_distinct)
  moreover have "map fst (concat (map (\<lambda>p. map (\<lambda>(ls, x). (fst p # ls, x)) (entries (snd p))) cs)) =
      concat (map (\<lambda>p. map (\<lambda>e. fst p # fst e) (entries (snd p))) cs)"
    by (simp add: map_concat comp_def case_prod_unfold)
  ultimately show ?case
    by (auto simp del: map_concat split: option.splits)
qed

end
