(* ===== verification/Store.thy ===== *)
theory Store
  imports Linked Sni
begin

text \<open>
  The memory of the library.  Every struct of \<open>internal/internal.h\<close>, \<open>internal/loop_data.h\<close> and
  \<open>internal/eventing/epoll_kqueue.h\<close> is a record; \<open>heap\<close> maps addresses to the parts of objects.
  A socket, a listen socket and a callback all begin with a poll, and the code casts between
  them; the store keeps the parts in separate maps under the one address of the object, so that
  \<open>polls\<close> holds the common poll part, \<open>socks\<close> the socket part, \<open>listens\<close> what a listen socket
  adds, \<open>cbs\<close> what a callback adds.

  Reading or writing through a pointer that is null, freed or of the wrong kind is the value
  \<open>None\<close>; every operation of the model is an \<open>option\<close>, so a theorem that an operation returns
  \<open>Some\<close> says that it touches no memory it may not touch.

  \<open>env\<close> is what surrounds the library: the event backend it was compiled for, the results of the
  system calls, the addresses the allocator hands out and the user's callbacks.  Results are
  functions of the whole history \<open>trace\<close> of system calls and callback invocations, so nothing is
  fixed about them.
\<close>

subsection \<open>Function pointers\<close>

text \<open>
  A function pointer is null, one of the library's own functions that the code stores in a
  field, or a function of the user.  The handlers that \<open>openssl.c\<close> and \<open>udp.c\<close> install in the fields
  of a context or a callback are among the library's own.
\<close>

datatype fnptr = NullFn | DefaultIsLowPrio | SweepTimerCb | UserFn nat
  | SslOnOpen | SslOnClose | SslOnData | SslOnWritable | SslOnEnd | SslIsLowPrio | OnUdpRead

subsection \<open>The structs\<close>

text \<open>\<open>signed int fd : 28; unsigned int poll_type : 4\<close> of \<open>epoll_kqueue.h\<close>.\<close>

record us_poll_t =
  fd :: "28 word"
  poll_type :: u4

record us_socket_t =
  timeout :: u8
  long_timeout :: u8
  low_prio_state :: u16
  s_context :: ptr
  s_prev :: ptr
  s_next :: ptr

record us_internal_callback_t =
  cb_loop :: ptr
  cb_expects_the_loop :: int
  leave_poll_ready :: int
  cb_cb :: fnptr

record us_listen_socket_t =
  socket_ext_size :: u32

record us_socket_context_t =
  c_loop :: ptr
  global_tick :: u32
  timestamp :: u8
  long_timestamp :: u8
  head_sockets :: ptr
  head_listen_sockets :: ptr
  c_iterator :: ptr
  c_prev :: ptr
  c_next :: ptr
  on_open :: fnptr
  on_data :: fnptr
  on_writable :: fnptr
  on_close :: fnptr
  on_socket_timeout :: fnptr
  on_socket_long_timeout :: fnptr
  on_end :: fnptr
  on_connect_error :: fnptr
  is_low_prio :: fnptr

text \<open>
  One entry of the kernel's ready list: \<open>struct epoll_event\<close> has the pointer and the events,
  \<open>struct kevent\<close> the pointer, the filter and the flags.
\<close>

record ready_event =
  re_poll :: ptr
  re_events :: u32
  re_filter :: int
  re_flags :: u16

record us_internal_loop_data_t =
  sweep_timer :: ptr
  wakeup_async :: ptr
  last_write_failed :: int
  l_head :: ptr
  l_iterator :: ptr
  recv_buf :: "u8 list"
  ssl_data :: ptr
  pre_cb :: fnptr
  post_cb :: fnptr
  closed_head :: ptr
  low_prio_head :: ptr
  low_prio_budget :: int
  iteration_nr :: u64

record us_loop_t = us_internal_loop_data_t +
  num_polls :: int
  num_ready_polls :: int
  current_ready_poll :: int
  l_fd :: int
  ready_polls :: "ready_event list"

text \<open>
  What \<open>openssl.c\<close> puts behind a context and a socket, and the data of a loop that all its TLS
  sockets share.  \<open>ssl_read_input\<close> stands for the bytes behind the pointer.  A child context has no
  tree of names and no \<open>on_server_name\<close>: the fields are never initialised (\<open>None\<close>).
\<close>

record us_internal_ssl_socket_context_t =
  ssl_context :: ptr
  is_parent :: int
  x_on_open :: fnptr
  x_on_data :: fnptr
  x_on_writable :: fnptr
  x_on_close :: fnptr
  on_server_name :: "fnptr option"
  sni :: "ptr sni_node option"

record us_internal_ssl_socket_t =
  ssl :: ptr
  ssl_write_wants_read :: int
  ssl_read_wants_write :: int

record loop_ssl_data =
  ssl_read_input :: "u8 list"
  ssl_read_input_length :: u32
  ssl_read_input_offset :: u32
  ssl_socket :: ptr
  last_write_was_msg_more :: int
  ssl_msg_more :: int
  shared_rbio :: ptr
  shared_wbio :: ptr
  shared_biom :: ptr

text \<open>
  A control message of a datagram, a message header of \<open>recvmmsg\<close> and the packet buffer of \<open>bsd.c\<close>.
  Pointers into the buffer itself are indices: \<open>msg_name\<close> an entry of \<open>pb_addr\<close>, \<open>msg_iov\<close> an entry of
  \<open>pb_iov\<close>, \<open>iov_base\<close> and \<open>pb_buf\<close> offsets into the payload area behind the struct.
\<close>

datatype cmsg = Cmsg int int "u8 list"

record mmsghdr =
  msg_name :: nat
  msg_namelen :: nat
  msg_iov :: nat
  msg_iovlen :: nat
  msg_control :: nat
  msg_controllen :: nat
  msg_len :: nat

record iovec =
  iov_base :: nat
  iov_len :: nat

record us_internal_udp_packet_buffer =
  pb_msgvec :: "mmsghdr list"
  pb_iov :: "iovec list"
  pb_addr :: "u8 list list"
  pb_control :: "cmsg list list"
  pb_buf :: "nat list"
  pb_len :: "nat list"
  pb_mem :: "nat \<Rightarrow> u8"

record us_internal_udp_t =
  receive_buf :: ptr
  data_cb :: fnptr
  drain_cb :: fnptr
  udp_user :: ptr
  udp_port :: int

text \<open>A datagram as the kernel delivers it: the peer address, the data and the control messages.\<close>

record datagram =
  dg_peer :: "u8 list"
  dg_data :: "u8 list"
  dg_control :: "cmsg list"

subsection \<open>System calls and callback invocations\<close>

datatype ctl_op = EPOLL_CTL_ADD | EPOLL_CTL_MOD | EPOLL_CTL_DEL

text \<open>One entry of a kevent change list: identifier, filter, flags, note, data, user data.\<close>

datatype kchange = EvSet int int u16 u32 int ptr

datatype sockopt = TcpNodelay | TcpCork | SoReusePort | SoReuseAddr | Ipv6V6Only | SoNoSigPipe
  | Ipv6RecvPktInfo | IpPktInfo | Ipv6RecvTclass | IpRecvTos

datatype how = ShutRd | ShutWr

text \<open>
  A socket address as the kernel fills it in: the IPv4 and IPv6 forms with the address bytes and
  the port in network byte order, a Unix path, or another family.
\<close>

datatype sockaddr = SockIn "u8 list" u16 | SockIn6 "u8 list" u16 | SockUn string | SockOther

text \<open>One entry of the list \<open>getaddrinfo\<close> returns.\<close>

record addrinfo =
  ai_family :: int
  ai_socktype :: int
  ai_protocol :: int
  ai_addr :: sockaddr

datatype syscall =
    EpollCreate
  | Kqueue
  | EpollCtl int ctl_op int u32 ptr
  | Kevent int "kchange list"
  | EpollWait int nat
  | KeventWait int nat
  | TimerfdCreate
  | TimerfdSettime int int int int int
  | Eventfd
  | Read int nat
  | Write int nat
  | Close int
  | Shutdown int how
  | Setsockopt int sockopt int
  | FcntlNonblock int
  | Socket int int int
  | Accept int
  | Recv int nat u32
  | Send int "u8 list" u32
  | Writev int "u8 list list"
  | Getsockname int
  | Getpeername int
  | Getaddrinfo "string option" "string option" int int int
  | Freeaddrinfo
  | Bind int sockaddr
  | Listen_call int int
  | Connect_call int sockaddr
  | Fchmod int int
  | Unlink string
  | Sendmmsg int "(u8 list \<times> u8 list) list" u32
  | Recvmmsg int nat u32
  | Sendmsg int "u8 list \<times> u8 list" u32
  | Recvfrom int nat u32

text \<open>
  The calls into OpenSSL and the C library that \<open>openssl.c\<close> makes.  A pointer that OpenSSL owns is
  an address of its own.
\<close>

datatype ssl_call =
    OPENSSL_init_ssl
  | BIO_meth_new | BIO_meth_free ptr | BIO_new ptr | BIO_free ptr | BIO_up_ref ptr
  | SSL_new ptr | SSL_free ptr | SSL_set_bio ptr ptr ptr
  | SSL_set_connect_state ptr | SSL_set_accept_state ptr
  | SSL_read ptr nat | SSL_write ptr "u8 list" | SSL_shutdown ptr
  | SSL_get_error ptr int | SSL_get_shutdown ptr | SSL_in_init ptr | ERR_clear_error
  | SSL_get_SSL_CTX ptr | SSL_get_servername ptr | SSL_set_SSL_CTX ptr ptr
  | SSL_CTX_new | SSL_CTX_free ptr
  | SSL_CTX_set_read_ahead ptr int | SSL_CTX_set_mode ptr int | SSL_CTX_set_min_proto_version ptr int
  | Strdup string | Free ptr
  | SSL_CTX_set_default_passwd_cb_userdata ptr ptr | SSL_CTX_get_default_passwd_cb_userdata ptr
  | SSL_CTX_set_default_passwd_cb ptr
  | SSL_CTX_use_certificate_chain_file ptr string | SSL_CTX_use_PrivateKey_file ptr string
  | SSL_load_client_CA_file string | SSL_CTX_set_client_CA_list ptr ptr
  | SSL_CTX_load_verify_locations ptr string | SSL_CTX_set_verify ptr int
  | Fopen string | PEM_read_DHparams ptr | Fclose ptr
  | SSL_CTX_set_tmp_dh ptr ptr | DH_free ptr | SSL_CTX_set_cipher_list ptr string
  | SSL_CTX_set_ex_data ptr ptr | SSL_CTX_get_ex_data ptr
  | SSL_CTX_set_tlsext_servername_callback ptr | SSL_CTX_set_tlsext_servername_arg ptr ptr

text \<open>
  What OpenSSL asks of its BIO while a call runs, and what the BIO answered; the bytes read are those
  copied into OpenSSL's buffer, and a retry is a BIO that returned -1 with the retry flags set.
\<close>

datatype bio_request = BioRead nat | BioWrite "u8 list" | BioDone

datatype bio_answer = BioGot "u8 list" | BioWrote int | BioRetryRead | BioRetryWrite

text \<open>The events a callback of the user is invoked with.\<close>

datatype cb_event =
    OnOpen ptr int "u8 list"
  | OnData ptr "u8 list"
  | OnWritable ptr
  | OnClose ptr int ptr
  | OnTimeout ptr
  | OnLongTimeout ptr
  | OnEnd ptr
  | OnConnectError ptr int
  | IsLowPrio ptr
  | LoopCb ptr
  | PollCb ptr
  | OnServerName ptr string
  | OnDatagrams ptr ptr int

datatype event = Sys syscall | Call fnptr cb_event | Tls ssl_call | Bio bio_answer

type_synonym trace_t = "event list"

record heap =
  polls :: "ptr \<rightharpoonup> us_poll_t"
  socks :: "ptr \<rightharpoonup> us_socket_t"
  listens :: "ptr \<rightharpoonup> us_listen_socket_t"
  cbs :: "ptr \<rightharpoonup> us_internal_callback_t"
  ctxs :: "ptr \<rightharpoonup> us_socket_context_t"
  loops :: "ptr \<rightharpoonup> us_loop_t"
  trace :: trace_t
  ssl_socks :: "ptr \<rightharpoonup> us_internal_ssl_socket_t"
  ssl_ctxs :: "ptr \<rightharpoonup> us_internal_ssl_socket_context_t"
  ssl_datas :: "ptr \<rightharpoonup> loop_ssl_data"
  udps :: "ptr \<rightharpoonup> us_internal_udp_t"
  udp_bufs :: "ptr \<rightharpoonup> us_internal_udp_packet_buffer"

datatype backend = Epoll | Kqueue_backend

record env =
  be :: backend
  sys_ret :: "trace_t \<Rightarrow> syscall \<Rightarrow> int"
  sys_errno :: "trace_t \<Rightarrow> int"
  sys_data :: "trace_t \<Rightarrow> syscall \<Rightarrow> u8 list"
  sys_addr :: "trace_t \<Rightarrow> syscall \<Rightarrow> sockaddr"
  sys_ai :: "trace_t \<Rightarrow> syscall \<Rightarrow> addrinfo list"
  sys_ready :: "trace_t \<Rightarrow> syscall \<Rightarrow> ready_event list"
  malloc_at :: "heap \<Rightarrow> ptr"
  malloc_garbage :: "heap \<Rightarrow> us_poll_t"
  realloc_at :: "heap \<Rightarrow> ptr \<Rightarrow> ptr"
  callback :: "nat \<Rightarrow> cb_event \<Rightarrow> heap \<Rightarrow> (ptr \<times> heap) option"
  modules :: "fnptr \<Rightarrow> cb_event \<Rightarrow> heap \<Rightarrow> (ptr \<times> heap) option"
  sys_dgrams :: "trace_t \<Rightarrow> syscall \<Rightarrow> datagram list"
  mem_garbage :: "heap \<Rightarrow> nat \<Rightarrow> u8"
  tls_ret :: "trace_t \<Rightarrow> ssl_call \<Rightarrow> int"
  tls_data :: "trace_t \<Rightarrow> ssl_call \<Rightarrow> u8 list"
  tls_bio :: "trace_t \<Rightarrow> ssl_call \<Rightarrow> bio_request"
  ssl_garbage :: "heap \<Rightarrow> loop_ssl_data"

subsection \<open>Reads and writes\<close>

definition set_poll :: "heap \<Rightarrow> ptr \<Rightarrow> (us_poll_t \<Rightarrow> us_poll_t) \<Rightarrow> heap option" where
  "set_poll h p f = do { x \<leftarrow> polls h p; Some (h\<lparr>polls := (polls h)(p \<mapsto> f x)\<rparr>) }"

definition set_sock :: "heap \<Rightarrow> ptr \<Rightarrow> (us_socket_t \<Rightarrow> us_socket_t) \<Rightarrow> heap option" where
  "set_sock h p f = do { x \<leftarrow> socks h p; Some (h\<lparr>socks := (socks h)(p \<mapsto> f x)\<rparr>) }"

definition set_cb :: "heap \<Rightarrow> ptr \<Rightarrow> (us_internal_callback_t \<Rightarrow> us_internal_callback_t) \<Rightarrow> heap option" where
  "set_cb h p f = do { x \<leftarrow> cbs h p; Some (h\<lparr>cbs := (cbs h)(p \<mapsto> f x)\<rparr>) }"

definition set_ctx :: "heap \<Rightarrow> ptr \<Rightarrow> (us_socket_context_t \<Rightarrow> us_socket_context_t) \<Rightarrow> heap option" where
  "set_ctx h p f = do { x \<leftarrow> ctxs h p; Some (h\<lparr>ctxs := (ctxs h)(p \<mapsto> f x)\<rparr>) }"

definition set_loop :: "heap \<Rightarrow> ptr \<Rightarrow> (us_loop_t \<Rightarrow> us_loop_t) \<Rightarrow> heap option" where
  "set_loop h p f = do { x \<leftarrow> loops h p; Some (h\<lparr>loops := (loops h)(p \<mapsto> f x)\<rparr>) }"

text \<open>
  \<open>free\<close> ends the life of the object at an address, whatever it is.  The TLS data of a loop and the
  packet buffers are never freed along with another object and are kept apart from the others.
\<close>

definition free_obj :: "heap \<Rightarrow> ptr \<Rightarrow> heap" where
  "free_obj h p = h\<lparr>polls := (polls h)(p := None), socks := (socks h)(p := None),
     listens := (listens h)(p := None), cbs := (cbs h)(p := None), ctxs := (ctxs h)(p := None),
     loops := (loops h)(p := None), ssl_socks := (ssl_socks h)(p := None),
     ssl_ctxs := (ssl_ctxs h)(p := None), udps := (udps h)(p := None)\<rparr>"

definition allocated :: "heap \<Rightarrow> ptr set" where
  "allocated h = dom (polls h) \<union> dom (socks h) \<union> dom (listens h) \<union> dom (cbs h) \<union> dom (ctxs h) \<union>
     dom (loops h)"

text \<open>\<open>realloc\<close> moves the object at an address, with everything it holds, to another address.\<close>

definition move_key :: "(ptr \<rightharpoonup> 'v) \<Rightarrow> ptr \<Rightarrow> ptr \<Rightarrow> (ptr \<rightharpoonup> 'v)" where
  "move_key m p q = (if p = q then m else m(q := m p, p := None))"

definition move_obj :: "heap \<Rightarrow> ptr \<Rightarrow> ptr \<Rightarrow> heap" where
  "move_obj h p q = h\<lparr>polls := move_key (polls h) p q, socks := move_key (socks h) p q,
     listens := move_key (listens h) p q, cbs := move_key (cbs h) p q,
     ssl_socks := move_key (ssl_socks h) p q, udps := move_key (udps h) p q\<rparr>"

text \<open>
  What the code relies on of the C allocator: it does not fail, and an address it hands out is
  not in use.  (A heap with infinitely many objects has no free address.)
\<close>

definition allocator_ok :: "env \<Rightarrow> bool" where
  "allocator_ok E \<longleftrightarrow>
     (\<forall>h. finite (allocated h) \<longrightarrow> malloc_at E h \<noteq> NULL \<and> malloc_at E h \<notin> allocated h \<and>
       (\<forall>p. p \<noteq> NULL \<longrightarrow> realloc_at E h p \<noteq> NULL \<and>
         (realloc_at E h p = p \<or> realloc_at E h p \<notin> allocated h)))"

text \<open>A system call is recorded and its result read off the history before it.\<close>

definition do_sys :: "heap \<Rightarrow> syscall \<Rightarrow> heap" where
  "do_sys h c = h\<lparr>trace := trace h @ [Sys c]\<rparr>"

text \<open>
  A call through a function pointer.  A call through null is a fault; the library's default
  priority handler answers 0; a user's function is the environment's, and so are the handlers of the
  other modules of the library, which come after this one (\<open>Ssl\<close> and \<open>Udp\<close> say what they do).
\<close>

definition call_fn :: "env \<Rightarrow> fnptr \<Rightarrow> cb_event \<Rightarrow> heap \<Rightarrow> (ptr \<times> heap) option" where
  "call_fn E f ev h = (case f of
       UserFn n \<Rightarrow> callback E n ev (h\<lparr>trace := trace h @ [Call f ev]\<rparr>)
     | DefaultIsLowPrio \<Rightarrow> Some (0, h)
     | NullFn \<Rightarrow> None
     | SweepTimerCb \<Rightarrow> None
     | _ \<Rightarrow> modules E f ev h)"

lemmas set_defs [step] = set_poll_def set_sock_def set_cb_def set_ctx_def set_loop_def do_sys_def

subsection \<open>The views the linked lists are stated over\<close>

datatype list_id = Open ptr | Listen ptr | LowPrio ptr | Closed ptr

definition doubly :: "list_id \<Rightarrow> bool" where
  "doubly k = (case k of Closed _ \<Rightarrow> False | _ \<Rightarrow> True)"

definition nx_of :: "(ptr \<rightharpoonup> us_socket_t) \<Rightarrow> ptr \<rightharpoonup> ptr" where
  "nx_of m = (\<lambda>p. map_option s_next (m p))"

definition pv_of :: "(ptr \<rightharpoonup> us_socket_t) \<Rightarrow> ptr \<rightharpoonup> ptr" where
  "pv_of m = (\<lambda>p. map_option s_prev (m p))"

definition hds_of :: "(ptr \<rightharpoonup> us_socket_context_t) \<Rightarrow> (ptr \<rightharpoonup> us_loop_t) \<Rightarrow> list_id \<rightharpoonup> ptr" where
  "hds_of cm lm k = (case k of
       Open c \<Rightarrow> map_option head_sockets (cm c)
     | Listen c \<Rightarrow> map_option head_listen_sockets (cm c)
     | LowPrio l \<Rightarrow> map_option low_prio_head (lm l)
     | Closed l \<Rightarrow> map_option closed_head (lm l))"

definition cnx_of :: "(ptr \<rightharpoonup> us_socket_context_t) \<Rightarrow> ptr \<rightharpoonup> ptr" where
  "cnx_of m = (\<lambda>p. map_option c_next (m p))"

definition cpv_of :: "(ptr \<rightharpoonup> us_socket_context_t) \<Rightarrow> ptr \<rightharpoonup> ptr" where
  "cpv_of m = (\<lambda>p. map_option c_prev (m p))"

definition lhd_of :: "(ptr \<rightharpoonup> us_loop_t) \<Rightarrow> ptr \<rightharpoonup> ptr" where
  "lhd_of m = (\<lambda>l. map_option l_head (m l))"

lemmas view_defs = nx_of_def pv_of_def hds_of_def cnx_of_def cpv_of_def lhd_of_def

lemma doubly_simps [simp]:
  "doubly (Open c)" "doubly (Listen c)" "doubly (LowPrio l)" "\<not> doubly (Closed l)"
  by (simp_all add: doubly_def)

text \<open>How the views follow the updates of the store.\<close>

lemma views_upd [views]:
  "nx_of (m(p \<mapsto> x)) = (nx_of m)(p \<mapsto> s_next x)"
  "pv_of (m(p \<mapsto> x)) = (pv_of m)(p \<mapsto> s_prev x)"
  "hds_of (cm(p \<mapsto> y)) lm = (hds_of cm lm)(Open p \<mapsto> head_sockets y, Listen p \<mapsto> head_listen_sockets y)"
  "hds_of cm (lm(p \<mapsto> z)) = (hds_of cm lm)(LowPrio p \<mapsto> low_prio_head z, Closed p \<mapsto> closed_head z)"
  "cnx_of (cm(p \<mapsto> y)) = (cnx_of cm)(p \<mapsto> c_next y)"
  "cpv_of (cm(p \<mapsto> y)) = (cpv_of cm)(p \<mapsto> c_prev y)"
  "lhd_of (lm(p \<mapsto> z)) = (lhd_of lm)(p \<mapsto> l_head z)"
  by (auto simp: view_defs fun_eq_iff split: list_id.splits)

lemma views_del [views]:
  "nx_of (m(p := None)) = (nx_of m)(p := None)"
  "pv_of (m(p := None)) = (pv_of m)(p := None)"
  "hds_of (cm(p := None)) lm = (hds_of cm lm)(Open p := None, Listen p := None)"
  "hds_of cm (lm(p := None)) = (hds_of cm lm)(LowPrio p := None, Closed p := None)"
  "cnx_of (cm(p := None)) = (cnx_of cm)(p := None)"
  "cpv_of (cm(p := None)) = (cpv_of cm)(p := None)"
  "lhd_of (lm(p := None)) = (lhd_of lm)(p := None)"
  by (auto simp: view_defs fun_eq_iff split: list_id.splits)

lemma views_app [views]:
  "nx_of m p = map_option s_next (m p)"
  "pv_of m p = map_option s_prev (m p)"
  "hds_of cm lm (Open p) = map_option head_sockets (cm p)"
  "hds_of cm lm (Listen p) = map_option head_listen_sockets (cm p)"
  "hds_of cm lm (LowPrio p) = map_option low_prio_head (lm p)"
  "hds_of cm lm (Closed p) = map_option closed_head (lm p)"
  "cnx_of cm p = map_option c_next (cm p)"
  "cpv_of cm p = map_option c_prev (cm p)"
  "lhd_of lm p = map_option l_head (lm p)"
  by (simp_all add: view_defs)

lemma views_dom [views]:
  "dom (nx_of m) = dom m" "dom (pv_of m) = dom m" "dom (cnx_of cm) = dom cm" "dom (cpv_of cm) = dom cm"
  "dom (lhd_of lm) = dom lm"
  by (auto simp: view_defs)

abbreviation s_nx :: "heap \<Rightarrow> ptr \<rightharpoonup> ptr" where "s_nx h \<equiv> nx_of (socks h)"
abbreviation s_pv :: "heap \<Rightarrow> ptr \<rightharpoonup> ptr" where "s_pv h \<equiv> pv_of (socks h)"
abbreviation s_hds :: "heap \<Rightarrow> list_id \<rightharpoonup> ptr" where "s_hds h \<equiv> hds_of (ctxs h) (loops h)"
abbreviation c_nx :: "heap \<Rightarrow> ptr \<rightharpoonup> ptr" where "c_nx h \<equiv> cnx_of (ctxs h)"
abbreviation c_pv :: "heap \<Rightarrow> ptr \<rightharpoonup> ptr" where "c_pv h \<equiv> cpv_of (ctxs h)"
abbreviation c_hds :: "heap \<Rightarrow> ptr \<rightharpoonup> ptr" where "c_hds h \<equiv> lhd_of (loops h)"

end
