(* ===== verification/Poll.thy ===== *)
theory Poll
  imports Store "HOL-Library.Signed_Division"
begin

text \<open>
  The event backend, \<open>eventing/epoll_kqueue.c\<close>: polls and what they poll for, the pending ready
  list, timers and asyncs.  The file is compiled for epoll or for kqueue; the backend is the
  field \<open>be\<close> of the environment and both branches of every \<open>#ifdef\<close> are modelled.

  The extension memory that a user may ask for behind an object is the user's own and is not
  modelled, so the sizes passed to the allocator are left out.
\<close>

subsection \<open>Poll types and events\<close>

definition POLL_TYPE_SOCKET :: u4 where [simp]: "POLL_TYPE_SOCKET = 0"
definition POLL_TYPE_SOCKET_SHUT_DOWN :: u4 where [simp]: "POLL_TYPE_SOCKET_SHUT_DOWN = 1"
definition POLL_TYPE_SEMI_SOCKET :: u4 where [simp]: "POLL_TYPE_SEMI_SOCKET = 2"
definition POLL_TYPE_CALLBACK :: u4 where [simp]: "POLL_TYPE_CALLBACK = 3"
definition POLL_TYPE_POLLING_OUT :: u4 where [simp]: "POLL_TYPE_POLLING_OUT = 4"
definition POLL_TYPE_POLLING_IN :: u4 where [simp]: "POLL_TYPE_POLLING_IN = 8"

definition LIBUS_SOCKET_READABLE :: "backend \<Rightarrow> u32" where
  "LIBUS_SOCKET_READABLE b = (case b of Epoll \<Rightarrow> 1 | Kqueue_backend \<Rightarrow> 1)"

definition LIBUS_SOCKET_WRITABLE :: "backend \<Rightarrow> u32" where
  "LIBUS_SOCKET_WRITABLE b = (case b of Epoll \<Rightarrow> 4 | Kqueue_backend \<Rightarrow> 2)"

definition us_poll_events :: "backend \<Rightarrow> us_poll_t \<Rightarrow> u32" where
  "us_poll_events b p =
     (if poll_type p AND POLL_TYPE_POLLING_IN \<noteq> 0 then LIBUS_SOCKET_READABLE b else 0) OR
     (if poll_type p AND POLL_TYPE_POLLING_OUT \<noteq> 0 then LIBUS_SOCKET_WRITABLE b else 0)"

definition us_poll_fd :: "us_poll_t \<Rightarrow> int" where
  "us_poll_fd p = sint (fd p)"

definition us_internal_poll_type :: "us_poll_t \<Rightarrow> u4" where
  "us_internal_poll_type p = poll_type p AND 3"

definition us_poll_init :: "heap \<Rightarrow> ptr \<Rightarrow> int \<Rightarrow> u4 \<Rightarrow> heap option" where
  "us_poll_init h p f t = set_poll h p (\<lambda>x. x\<lparr>fd := word_of_int f, poll_type := t\<rparr>)"

definition us_internal_poll_set_type :: "heap \<Rightarrow> ptr \<Rightarrow> u4 \<Rightarrow> heap option" where
  "us_internal_poll_set_type h p t =
     set_poll h p (\<lambda>x. x\<lparr>poll_type := t OR (poll_type x AND 12)\<rparr>)"

text \<open>The polling bits that \<open>us_poll_start\<close> and \<open>us_poll_change\<close> store for a set of events.\<close>

definition polling_bits :: "backend \<Rightarrow> u32 \<Rightarrow> u4" where
  "polling_bits b ev =
     (if ev AND LIBUS_SOCKET_READABLE b \<noteq> 0 then POLL_TYPE_POLLING_IN else 0) OR
     (if ev AND LIBUS_SOCKET_WRITABLE b \<noteq> 0 then POLL_TYPE_POLLING_OUT else 0)"

subsection \<open>Creating and freeing polls\<close>

definition us_create_poll :: "env \<Rightarrow> heap \<Rightarrow> ptr \<Rightarrow> int \<Rightarrow> (ptr \<times> heap) option" where
  "us_create_poll E h l fallthrough = do {
     h \<leftarrow> (if fallthrough = 0 then set_loop h l (\<lambda>x. x\<lparr>num_polls := num_polls x + 1\<rparr>) else Some h);
     let p = malloc_at E h;
     Some (p, h\<lparr>polls := (polls h)(p \<mapsto> malloc_garbage E h)\<rparr>) }"

definition us_poll_free :: "heap \<Rightarrow> ptr \<Rightarrow> ptr \<Rightarrow> heap option" where
  "us_poll_free h p l = do {
     h \<leftarrow> set_loop h l (\<lambda>x. x\<lparr>num_polls := num_polls x - 1\<rparr>);
     _ \<leftarrow> polls h p;
     Some (free_obj h p) }"

subsection \<open>The pending ready list\<close>

text \<open>
  \<open>us_internal_loop_update_pending_ready_polls\<close> walks the entries from the current one on and
  replaces the first \<open>left\<close> entries of the old poll; epoll reports a poll once, kqueue up to twice
  (once per filter).
\<close>

function update_ready ::
  "ready_event list \<Rightarrow> int \<Rightarrow> int \<Rightarrow> nat \<Rightarrow> ptr \<Rightarrow> ptr \<Rightarrow> ready_event list option" where
  "update_ready rs i n left old_poll new_poll =
     (if i < n \<and> left \<noteq> 0 then
        (if 0 \<le> i \<and> nat i < length rs then
           (if re_poll (rs ! nat i) = old_poll
            then update_ready (rs[nat i := (rs ! nat i)\<lparr>re_poll := new_poll\<rparr>]) (i + 1) n (left - 1)
                   old_poll new_poll
            else update_ready rs (i + 1) n left old_poll new_poll)
         else None)
      else Some rs)"
  by pat_completeness auto
termination
  by (relation "measure (\<lambda>(rs, i, n, left, old_poll, new_poll). nat (n - i))") auto

declare update_ready.simps [simp del]

definition us_internal_loop_update_pending_ready_polls ::
  "env \<Rightarrow> heap \<Rightarrow> ptr \<Rightarrow> ptr \<Rightarrow> ptr \<Rightarrow> heap option" where
  "us_internal_loop_update_pending_ready_polls E h l old_poll new_poll = do {
     lp \<leftarrow> loops h l;
     rs \<leftarrow> update_ready (ready_polls lp) (current_ready_poll lp) (num_ready_polls lp)
             (case be E of Epoll \<Rightarrow> 1 | Kqueue_backend \<Rightarrow> 2) old_poll new_poll;
     set_loop h l (\<lambda>x. x\<lparr>ready_polls := rs\<rparr>) }"

subsection \<open>Starting, changing, stopping and resizing a poll\<close>

definition EVFILT_READ :: int where [simp]: "EVFILT_READ = -1"
definition EVFILT_WRITE :: int where [simp]: "EVFILT_WRITE = -2"
definition EVFILT_TIMER :: int where [simp]: "EVFILT_TIMER = -7"
definition EVFILT_USER :: int where [simp]: "EVFILT_USER = -10"
definition EV_ADD :: u16 where [simp]: "EV_ADD = 1"
definition EV_DELETE :: u16 where [simp]: "EV_DELETE = 2"
definition EV_ONESHOT :: u16 where [simp]: "EV_ONESHOT = 16"
definition NOTE_TRIGGER :: u32 where [simp]: "NOTE_TRIGGER = 0x1000000"

text \<open>\<open>kqueue_change\<close> submits one entry for each filter in which the old and new events differ.\<close>

definition kq_changes :: "int \<Rightarrow> u32 \<Rightarrow> u32 \<Rightarrow> ptr \<Rightarrow> kchange list" where
  "kq_changes f old_events new_events ud =
     (let r = LIBUS_SOCKET_READABLE Kqueue_backend; w = LIBUS_SOCKET_WRITABLE Kqueue_backend in
     (if new_events AND r \<noteq> old_events AND r
      then [EvSet f EVFILT_READ (if new_events AND r \<noteq> 0 then EV_ADD else EV_DELETE) 0 0 ud] else []) @
     (if new_events AND w \<noteq> old_events AND w
      then [EvSet f EVFILT_WRITE (if new_events AND w \<noteq> 0 then EV_ADD else EV_DELETE) 0 0 ud] else []))"

definition kqueue_change :: "heap \<Rightarrow> int \<Rightarrow> int \<Rightarrow> u32 \<Rightarrow> u32 \<Rightarrow> ptr \<Rightarrow> heap" where
  "kqueue_change h kqfd f old_events new_events ud =
     do_sys h (Kevent kqfd (kq_changes f old_events new_events ud))"

definition us_poll_start :: "env \<Rightarrow> heap \<Rightarrow> ptr \<Rightarrow> ptr \<Rightarrow> u32 \<Rightarrow> heap option" where
  "us_poll_start E h p l events = do {
     h \<leftarrow> set_poll h p (\<lambda>x. x\<lparr>poll_type := us_internal_poll_type x OR polling_bits (be E) events\<rparr>);
     x \<leftarrow> polls h p;
     lp \<leftarrow> loops h l;
     (case be E of
        Epoll \<Rightarrow> Some (do_sys h (EpollCtl (l_fd lp) EPOLL_CTL_ADD (us_poll_fd x) events p))
      | Kqueue_backend \<Rightarrow> Some (kqueue_change h (l_fd lp) (us_poll_fd x) 0 events p)) }"

definition us_poll_change :: "env \<Rightarrow> heap \<Rightarrow> ptr \<Rightarrow> ptr \<Rightarrow> u32 \<Rightarrow> heap option" where
  "us_poll_change E h p l events = do {
     x \<leftarrow> polls h p;
     let old_events = us_poll_events (be E) x;
     if old_events \<noteq> events then do {
       h \<leftarrow> set_poll h p (\<lambda>x. x\<lparr>poll_type := us_internal_poll_type x OR polling_bits (be E) events\<rparr>);
       lp \<leftarrow> loops h l;
       (case be E of
          Epoll \<Rightarrow> Some (do_sys h (EpollCtl (l_fd lp) EPOLL_CTL_MOD (us_poll_fd x) events p))
        | Kqueue_backend \<Rightarrow> Some (kqueue_change h (l_fd lp) (us_poll_fd x) old_events events p)) }
     else Some h }"

definition us_poll_stop :: "env \<Rightarrow> heap \<Rightarrow> ptr \<Rightarrow> ptr \<Rightarrow> heap option" where
  "us_poll_stop E h p l = do {
     x \<leftarrow> polls h p;
     lp \<leftarrow> loops h l;
     let old_events = us_poll_events (be E) x;
     let new_events = 0;
     let h = (case be E of
        Epoll \<Rightarrow> do_sys h (EpollCtl (l_fd lp) EPOLL_CTL_DEL (us_poll_fd x) 0 NULL)
      | Kqueue_backend \<Rightarrow>
          (if old_events \<noteq> 0 then kqueue_change h (l_fd lp) (us_poll_fd x) old_events new_events NULL
           else h));
     us_internal_loop_update_pending_ready_polls E h l p NULL }"

definition us_poll_resize :: "env \<Rightarrow> heap \<Rightarrow> ptr \<Rightarrow> ptr \<Rightarrow> (ptr \<times> heap) option" where
  "us_poll_resize E h p l = do {
     x \<leftarrow> polls h p;
     let events = us_poll_events (be E) x;
     let new_p = realloc_at E h p;
     let h = move_obj h p new_p;
     if p \<noteq> new_p \<and> events \<noteq> 0 then do {
       h \<leftarrow> (case be E of
          Epoll \<Rightarrow> do {
            h \<leftarrow> set_poll h new_p (\<lambda>x. x\<lparr>poll_type := us_internal_poll_type x\<rparr>);
            us_poll_change E h new_p l events }
        | Kqueue_backend \<Rightarrow> do {
            lp \<leftarrow> loops h l;
            Some (kqueue_change h (l_fd lp) (us_poll_fd x) 0 events new_p) });
       h \<leftarrow> us_internal_loop_update_pending_ready_polls E h l p new_p;
       Some (new_p, h) }
     else Some (new_p, h) }"

definition us_internal_accept_poll_event :: "env \<Rightarrow> heap \<Rightarrow> ptr \<Rightarrow> heap option" where
  "us_internal_accept_poll_event E h p = (case be E of
       Epoll \<Rightarrow> do { x \<leftarrow> polls h p; Some (do_sys h (Read (us_poll_fd x) 8)) }
     | Kqueue_backend \<Rightarrow> Some h)"

subsection \<open>Timers\<close>

definition us_timer_loop :: "heap \<Rightarrow> ptr \<Rightarrow> ptr option" where
  "us_timer_loop h t = map_option cb_loop (cbs h t)"

definition us_create_timer :: "env \<Rightarrow> heap \<Rightarrow> ptr \<Rightarrow> int \<Rightarrow> (ptr \<times> heap) option" where
  "us_create_timer E h l fallthrough = (case be E of
       Epoll \<Rightarrow> do {
         (p, h) \<leftarrow> us_create_poll E h l fallthrough;
         let timerfd = sys_ret E (trace h) TimerfdCreate;
         let h = do_sys h TimerfdCreate;
         if timerfd = -1 then Some (NULL, h)
         else do {
           h \<leftarrow> us_poll_init h p timerfd POLL_TYPE_CALLBACK;
           Some (p, h\<lparr>cbs := (cbs h)(p \<mapsto> \<lparr>cb_loop = l, cb_expects_the_loop = 0, leave_poll_ready = 0,
              cb_cb = NullFn\<rparr>)\<rparr>) } }
     | Kqueue_backend \<Rightarrow> do {
         let p = malloc_at E h;
         let x = malloc_garbage E h;
         let h = h\<lparr>cbs := (cbs h)(p \<mapsto> \<lparr>cb_loop = l, cb_expects_the_loop = 0, leave_poll_ready = 0,
              cb_cb = NullFn\<rparr>),
            polls := (polls h)(p \<mapsto> x\<lparr>poll_type := POLL_TYPE_POLLING_IN\<rparr>)\<rparr>;
         h \<leftarrow> us_internal_poll_set_type h p POLL_TYPE_CALLBACK;
         h \<leftarrow> (if fallthrough = 0 then set_loop h l (\<lambda>x. x\<lparr>num_polls := num_polls x + 1\<rparr>) else Some h);
         Some (p, h) })"

definition us_timer_close :: "env \<Rightarrow> heap \<Rightarrow> ptr \<Rightarrow> heap option" where
  "us_timer_close E h t = do {
     cb \<leftarrow> cbs h t;
     h \<leftarrow> (case be E of
       Epoll \<Rightarrow> do {
         h \<leftarrow> us_poll_stop E h t (cb_loop cb);
         x \<leftarrow> polls h t;
         Some (do_sys h (Close (us_poll_fd x))) }
     | Kqueue_backend \<Rightarrow> do {
         lp \<leftarrow> loops h (cb_loop cb);
         Some (do_sys h (Kevent (l_fd lp) [EvSet (int t) EVFILT_TIMER EV_DELETE 0 0 t])) });
     us_poll_free h t (cb_loop cb) }"

text \<open>C's division truncates towards zero, which is \<open>sdiv\<close> and \<open>smod\<close> on integers.\<close>

definition us_timer_set :: "env \<Rightarrow> heap \<Rightarrow> ptr \<Rightarrow> fnptr \<Rightarrow> int \<Rightarrow> int \<Rightarrow> heap option" where
  "us_timer_set E h t f ms repeat_ms = do {
     h \<leftarrow> set_cb h t (\<lambda>x. x\<lparr>cb_cb := f\<rparr>);
     cb \<leftarrow> cbs h t;
     (case be E of
       Epoll \<Rightarrow> do {
         x \<leftarrow> polls h t;
         let h = do_sys h (TimerfdSettime (us_poll_fd x) (repeat_ms sdiv 1000)
           ((repeat_ms smod 1000) * 1000000) (ms sdiv 1000) ((ms smod 1000) * 1000000));
         us_poll_start E h t (cb_loop cb) (LIBUS_SOCKET_READABLE Epoll) }
     | Kqueue_backend \<Rightarrow> do {
         lp \<leftarrow> loops h (cb_loop cb);
         Some (do_sys h (Kevent (l_fd lp) [EvSet (int t) EVFILT_TIMER
           (EV_ADD OR (if repeat_ms \<noteq> 0 then 0 else EV_ONESHOT)) 0 ms t])) }) }"

subsection \<open>Asyncs\<close>

definition us_internal_create_async :: "env \<Rightarrow> heap \<Rightarrow> ptr \<Rightarrow> int \<Rightarrow> (ptr \<times> heap) option" where
  "us_internal_create_async E h l fallthrough = (case be E of
       Epoll \<Rightarrow> do {
         (p, h) \<leftarrow> us_create_poll E h l fallthrough;
         let f = sys_ret E (trace h) Eventfd;
         let h = do_sys h Eventfd;
         h \<leftarrow> us_poll_init h p f POLL_TYPE_CALLBACK;
         Some (p, h\<lparr>cbs := (cbs h)(p \<mapsto> \<lparr>cb_loop = l, cb_expects_the_loop = 1, leave_poll_ready = 0,
              cb_cb = NullFn\<rparr>)\<rparr>) }
     | Kqueue_backend \<Rightarrow> do {
         let p = malloc_at E h;
         let x = malloc_garbage E h;
         let h = h\<lparr>cbs := (cbs h)(p \<mapsto> \<lparr>cb_loop = l, cb_expects_the_loop = 1, leave_poll_ready = 0,
              cb_cb = NullFn\<rparr>),
            polls := (polls h)(p \<mapsto> x\<lparr>poll_type := POLL_TYPE_POLLING_IN\<rparr>)\<rparr>;
         h \<leftarrow> us_internal_poll_set_type h p POLL_TYPE_CALLBACK;
         h \<leftarrow> (if fallthrough = 0 then set_loop h l (\<lambda>x. x\<lparr>num_polls := num_polls x + 1\<rparr>) else Some h);
         Some (p, h) })"

definition us_internal_async_close :: "env \<Rightarrow> heap \<Rightarrow> ptr \<Rightarrow> heap option" where
  "us_internal_async_close E h a = do {
     cb \<leftarrow> cbs h a;
     h \<leftarrow> (case be E of
       Epoll \<Rightarrow> do {
         h \<leftarrow> us_poll_stop E h a (cb_loop cb);
         x \<leftarrow> polls h a;
         Some (do_sys h (Close (us_poll_fd x))) }
     | Kqueue_backend \<Rightarrow> do {
         lp \<leftarrow> loops h (cb_loop cb);
         Some (do_sys h (Kevent (l_fd lp) [EvSet (int a) EVFILT_USER EV_DELETE 0 0 a])) });
     us_poll_free h a (cb_loop cb) }"

definition us_internal_async_set :: "env \<Rightarrow> heap \<Rightarrow> ptr \<Rightarrow> fnptr \<Rightarrow> heap option" where
  "us_internal_async_set E h a f = do {
     h \<leftarrow> set_cb h a (\<lambda>x. x\<lparr>cb_cb := f\<rparr>);
     (case be E of
       Epoll \<Rightarrow> do {
         cb \<leftarrow> cbs h a;
         us_poll_start E h a (cb_loop cb) (LIBUS_SOCKET_READABLE Epoll) }
     | Kqueue_backend \<Rightarrow> Some h) }"

definition us_internal_async_wakeup :: "env \<Rightarrow> heap \<Rightarrow> ptr \<Rightarrow> heap option" where
  "us_internal_async_wakeup E h a = (case be E of
       Epoll \<Rightarrow> do { x \<leftarrow> polls h a; Some (do_sys h (Write (us_poll_fd x) 8)) }
     | Kqueue_backend \<Rightarrow> do {
         cb \<leftarrow> cbs h a;
         lp \<leftarrow> loops h (cb_loop cb);
         Some (do_sys h (Kevent (l_fd lp) [EvSet (int a) EVFILT_USER (EV_ADD OR EV_ONESHOT)
           NOTE_TRIGGER 0 a])) })"

subsection \<open>The poll type field\<close>

text \<open>The three views of the four-bit field are independent of each other.\<close>

lemma u4_type_bits:
  fixes t :: u4
  assumes "b = 0 \<or> b = 4 \<or> b = 8 \<or> b = 12"
  shows "((t AND 3) OR b) AND 3 = t AND 3" "((t AND 3) OR b) AND 12 = b"
  using u4_cases [of t] assms by auto

lemma u4_set_type:
  fixes t :: u4
  shows "((t AND 3) OR (u AND 12)) AND 3 = t AND 3" "((t AND 3) OR (u AND 12)) AND 12 = u AND 12"
  using u4_cases [of t] u4_cases [of u] by auto

lemma u4_poll_bits:
  fixes t :: u4
  shows "t AND 8 = (t AND 12) AND 8" "t AND 4 = (t AND 12) AND 4"
  using u4_cases [of t] by auto

lemma polling_bits_cases: "polling_bits b ev \<in> {0, 4, 8, 12}"
  by (simp add: polling_bits_def)

lemma us_poll_events_eq:
  "us_poll_events b p =
     (if (poll_type p AND 12) AND 8 \<noteq> 0 then LIBUS_SOCKET_READABLE b else 0) OR
     (if (poll_type p AND 12) AND 4 \<noteq> 0 then LIBUS_SOCKET_WRITABLE b else 0)"
  unfolding us_poll_events_def POLL_TYPE_POLLING_IN_def POLL_TYPE_POLLING_OUT_def
  using u4_poll_bits [of "poll_type p"] by simp

text \<open>The event sets a poll can hold: nothing, readable, writable or both.\<close>

definition event_set :: "backend \<Rightarrow> u32 \<Rightarrow> bool" where
  "event_set b ev \<longleftrightarrow> ev \<in> {0, LIBUS_SOCKET_READABLE b, LIBUS_SOCKET_WRITABLE b,
     LIBUS_SOCKET_READABLE b OR LIBUS_SOCKET_WRITABLE b}"

lemmas event_consts = LIBUS_SOCKET_READABLE_def LIBUS_SOCKET_WRITABLE_def

lemma event_set_intros [simp, intro]:
  "event_set b 0" "event_set b (LIBUS_SOCKET_READABLE b)" "event_set b (LIBUS_SOCKET_WRITABLE b)"
  "event_set b (LIBUS_SOCKET_READABLE b OR LIBUS_SOCKET_WRITABLE b)"
  by (simp_all add: event_set_def)

lemma event_set_poll_events [simp, intro]: "event_set b (us_poll_events b p)"
  by (cases b) (simp_all add: us_poll_events_def event_set_def event_consts)

lemma event_set_and [simp, intro]:
  "event_set b ev \<Longrightarrow> event_set b (ev AND LIBUS_SOCKET_READABLE b)"
  "event_set b ev \<Longrightarrow> event_set b (ev AND LIBUS_SOCKET_WRITABLE b)"
  by (cases b; auto simp: event_set_def event_consts)+

lemma event_set_or [simp, intro]:
  "event_set b ev \<Longrightarrow> event_set b (ev OR LIBUS_SOCKET_READABLE b)"
  by (cases b; auto simp: event_set_def event_consts)

text \<open>Storing an event set and reading it back.\<close>

lemma poll_events_stored:
  assumes "event_set b ev" "poll_type y = (t AND 3) OR polling_bits b ev"
  shows "us_poll_events b y = ev" "us_internal_poll_type y = t AND 3"
proof -
  have c: "polling_bits b ev = 0 \<or> polling_bits b ev = 4 \<or> polling_bits b ev = 8 \<or> polling_bits b ev = 12"
    using polling_bits_cases [of b ev] by auto
  show "us_internal_poll_type y = t AND 3"
    using u4_type_bits(1) [OF c] assms(2) by (simp add: us_internal_poll_type_def)
  have "poll_type y AND 12 = polling_bits b ev"
    using u4_type_bits(2) [OF c] assms(2) by simp
  then show "us_poll_events b y = ev"
    unfolding us_poll_events_eq using assms(1)
    by (cases b) (auto simp: event_set_def event_consts polling_bits_def)
qed

end
