(* ===== verification/Links.thy ===== *)
theory Links
  imports Poll
begin

text \<open>
  Linking and unlinking: the intrusive lists of \<open>context.c\<close> (sockets and listen sockets of a
  context) and of \<open>loop.c\<close> (contexts of a loop), each shown to be a \<open>dll_store\<close>.
\<close>

subsection \<open>The operations\<close>

text \<open>We always add in the top, so no \<open>next\<close> of an element already in a list is modified.\<close>

definition us_internal_socket_context_link_socket :: "heap \<Rightarrow> ptr \<Rightarrow> ptr \<Rightarrow> heap option" where
  "us_internal_socket_context_link_socket h c s = do {
     h \<leftarrow> set_sock h s (\<lambda>x. x\<lparr>s_context := c\<rparr>);
     ctx \<leftarrow> ctxs h c;
     h \<leftarrow> set_sock h s (\<lambda>x. x\<lparr>s_next := head_sockets ctx\<rparr>);
     h \<leftarrow> set_sock h s (\<lambda>x. x\<lparr>s_prev := NULL\<rparr>);
     h \<leftarrow> (if head_sockets ctx \<noteq> NULL
          then set_sock h (head_sockets ctx) (\<lambda>x. x\<lparr>s_prev := s\<rparr>) else Some h);
     set_ctx h c (\<lambda>x. x\<lparr>head_sockets := s\<rparr>) }"

definition us_internal_socket_context_link_listen_socket :: "heap \<Rightarrow> ptr \<Rightarrow> ptr \<Rightarrow> heap option" where
  "us_internal_socket_context_link_listen_socket h c ls = do {
     h \<leftarrow> set_sock h ls (\<lambda>x. x\<lparr>s_context := c\<rparr>);
     ctx \<leftarrow> ctxs h c;
     h \<leftarrow> set_sock h ls (\<lambda>x. x\<lparr>s_next := head_listen_sockets ctx\<rparr>);
     h \<leftarrow> set_sock h ls (\<lambda>x. x\<lparr>s_prev := NULL\<rparr>);
     h \<leftarrow> (if head_listen_sockets ctx \<noteq> NULL
          then set_sock h (head_listen_sockets ctx) (\<lambda>x. x\<lparr>s_prev := ls\<rparr>) else Some h);
     set_ctx h c (\<lambda>x. x\<lparr>head_listen_sockets := ls\<rparr>) }"

definition us_internal_socket_context_unlink_socket :: "heap \<Rightarrow> ptr \<Rightarrow> ptr \<Rightarrow> heap option" where
  "us_internal_socket_context_unlink_socket h c s = do {
     ctx \<leftarrow> ctxs h c;
     so \<leftarrow> socks h s;
     h \<leftarrow> (if s = c_iterator ctx then set_ctx h c (\<lambda>x. x\<lparr>c_iterator := s_next so\<rparr>) else Some h);
     if s_prev so = s_next so then set_ctx h c (\<lambda>x. x\<lparr>head_sockets := NULL\<rparr>)
     else do {
       h \<leftarrow> (if s_prev so \<noteq> NULL then set_sock h (s_prev so) (\<lambda>x. x\<lparr>s_next := s_next so\<rparr>)
            else set_ctx h c (\<lambda>x. x\<lparr>head_sockets := s_next so\<rparr>));
       so \<leftarrow> socks h s;
       if s_next so \<noteq> NULL then set_sock h (s_next so) (\<lambda>x. x\<lparr>s_prev := s_prev so\<rparr>)
       else Some h } }"

definition us_internal_socket_context_unlink_listen_socket :: "heap \<Rightarrow> ptr \<Rightarrow> ptr \<Rightarrow> heap option" where
  "us_internal_socket_context_unlink_listen_socket h c ls = do {
     ctx \<leftarrow> ctxs h c;
     so \<leftarrow> socks h ls;
     h \<leftarrow> (if ls = c_iterator ctx then set_ctx h c (\<lambda>x. x\<lparr>c_iterator := s_next so\<rparr>) else Some h);
     if s_prev so = s_next so then set_ctx h c (\<lambda>x. x\<lparr>head_listen_sockets := NULL\<rparr>)
     else do {
       h \<leftarrow> (if s_prev so \<noteq> NULL then set_sock h (s_prev so) (\<lambda>x. x\<lparr>s_next := s_next so\<rparr>)
            else set_ctx h c (\<lambda>x. x\<lparr>head_listen_sockets := s_next so\<rparr>));
       so \<leftarrow> socks h ls;
       if s_next so \<noteq> NULL then set_sock h (s_next so) (\<lambda>x. x\<lparr>s_prev := s_prev so\<rparr>)
       else Some h } }"

definition us_internal_loop_link :: "heap \<Rightarrow> ptr \<Rightarrow> ptr \<Rightarrow> heap option" where
  "us_internal_loop_link h l c = do {
     lp \<leftarrow> loops h l;
     h \<leftarrow> set_ctx h c (\<lambda>x. x\<lparr>c_next := l_head lp\<rparr>);
     h \<leftarrow> set_ctx h c (\<lambda>x. x\<lparr>c_prev := NULL\<rparr>);
     h \<leftarrow> (if l_head lp \<noteq> NULL then set_ctx h (l_head lp) (\<lambda>x. x\<lparr>c_prev := c\<rparr>) else Some h);
     set_loop h l (\<lambda>x. x\<lparr>l_head := c\<rparr>) }"

definition us_internal_loop_unlink :: "heap \<Rightarrow> ptr \<Rightarrow> ptr \<Rightarrow> heap option" where
  "us_internal_loop_unlink h l c = do {
     lp \<leftarrow> loops h l;
     ctx \<leftarrow> ctxs h c;
     if l_head lp = c then do {
       h \<leftarrow> set_loop h l (\<lambda>x. x\<lparr>l_head := c_next ctx\<rparr>);
       if c_next ctx \<noteq> NULL then set_ctx h (c_next ctx) (\<lambda>x. x\<lparr>c_prev := NULL\<rparr>) else Some h }
     else do {
       h \<leftarrow> set_ctx h (c_prev ctx) (\<lambda>x. x\<lparr>c_next := c_next ctx\<rparr>);
       ctx \<leftarrow> ctxs h c;
       if c_next ctx \<noteq> NULL then set_ctx h (c_next ctx) (\<lambda>x. x\<lparr>c_prev := c_prev ctx\<rparr>)
       else Some h } }"

lemmas link_defs = us_internal_socket_context_link_socket_def
  us_internal_socket_context_link_listen_socket_def us_internal_socket_context_unlink_socket_def
  us_internal_socket_context_unlink_listen_socket_def us_internal_loop_link_def
  us_internal_loop_unlink_def

lemmas bind_Some_iff = bind_eq_Some_conv

subsection \<open>What linking and unlinking do to the store\<close>

text \<open>\<open>relinked m m'\<close>: the same sockets, of which at most the list fields have changed.\<close>

lemma heap_triv [simp]:
  "h\<lparr>socks := socks h\<rparr> = h" "h\<lparr>ctxs := ctxs h\<rparr> = h" "h\<lparr>loops := loops h\<rparr> = h" "h\<lparr>polls := polls h\<rparr> = h"
  by simp_all

definition relinked :: "(ptr \<rightharpoonup> us_socket_t) \<Rightarrow> (ptr \<rightharpoonup> us_socket_t) \<Rightarrow> bool" where
  "relinked m m' \<longleftrightarrow>
     (\<forall>q. rel_option (\<lambda>x x'. x' = x\<lparr>s_prev := s_prev x', s_next := s_next x'\<rparr>) (m q) (m' q))"

lemma relinked_refl [simp]: "relinked m m"
  by (simp add: relinked_def option.rel_refl)

lemma relinked_upd:
  "m q = Some x \<Longrightarrow> relinked m (m(q \<mapsto> x\<lparr>s_next := n\<rparr>))"
  "m q = Some x \<Longrightarrow> relinked m (m(q \<mapsto> x\<lparr>s_prev := p\<rparr>))"
  by (auto simp: relinked_def option.rel_refl)

lemma relinked_trans: "relinked m m' \<Longrightarrow> relinked m' m'' \<Longrightarrow> relinked m m''"
  unfolding relinked_def
proof (intro allI)
  fix q
  assume "\<forall>q. rel_option (\<lambda>x x'. x' = x\<lparr>s_prev := s_prev x', s_next := s_next x'\<rparr>) (m q) (m' q)"
    "\<forall>q. rel_option (\<lambda>x x'. x' = x\<lparr>s_prev := s_prev x', s_next := s_next x'\<rparr>) (m' q) (m'' q)"
  then have "rel_option (\<lambda>x x'. x' = x\<lparr>s_prev := s_prev x', s_next := s_next x'\<rparr>) (m q) (m' q)"
    "rel_option (\<lambda>x x'. x' = x\<lparr>s_prev := s_prev x', s_next := s_next x'\<rparr>) (m' q) (m'' q)" by blast+
  then show "rel_option (\<lambda>x x'. x' = x\<lparr>s_prev := s_prev x', s_next := s_next x'\<rparr>) (m q) (m'' q)"
    by (cases "m q"; cases "m' q"; cases "m'' q") (simp_all, metis us_socket_t.ext_inject
        us_socket_t.surjective us_socket_t.update_convs(5,6))
qed

lemma unlink_socket_result:
  assumes y: "ctxs h c = Some y" and x: "socks h s = Some x" "s_next x = n" "s_prev x = p"
    and n: "n = NULL \<or> n \<in> dom (socks h)" and p: "p = NULL \<or> p \<in> dom (socks h)"
    and d: "p = n \<longrightarrow> p = NULL" "p \<noteq> s" "n \<noteq> s"
  shows "\<exists>m. us_internal_socket_context_unlink_socket h c s = Some (h\<lparr>socks := m, ctxs := (ctxs h)(c \<mapsto>
      y\<lparr>c_iterator := if c_iterator y = s then n else c_iterator y,
        head_sockets := if p = NULL then n else head_sockets y\<rparr>)\<rparr>) \<and>
    relinked (socks h) m \<and> nx_of m = drop_nx (s_nx h) p n \<and> pv_of m = drop_pv (s_pv h) p n"
proof (cases "p = NULL"; cases "n = NULL")
  assume "p = NULL" "n = NULL"
  with assms show ?thesis
    by (intro exI [of _ "socks h"]) (auto simp: link_defs set_defs drop_nx_def drop_pv_def)
next
  assume pn: "p = NULL" "n \<noteq> NULL"
  with n obtain z where z: "socks h n = Some z" by auto
  show ?thesis
    by (rule exI [of _ "(socks h)(n \<mapsto> z\<lparr>s_prev := p\<rparr>)"])
      (use assms pn z in \<open>auto simp: link_defs set_defs drop_nx_def drop_pv_def views relinked_upd fun_upd_idem\<close>)
next
  assume pn: "p \<noteq> NULL" "n = NULL"
  with p obtain w where w: "socks h p = Some w" by auto
  show ?thesis
    by (rule exI [of _ "(socks h)(p \<mapsto> w\<lparr>s_next := n\<rparr>)"])
      (use assms pn w in \<open>auto simp: link_defs set_defs drop_nx_def drop_pv_def views relinked_upd fun_upd_idem\<close>)
next
  assume pn: "p \<noteq> NULL" "n \<noteq> NULL"
  with n p obtain w z where w: "socks h p = Some w" "socks h n = Some z" by auto
  have "relinked (socks h) ((socks h)(p \<mapsto> w\<lparr>s_next := n\<rparr>, n \<mapsto> z\<lparr>s_prev := p\<rparr>))"
    using w pn d by (intro relinked_trans [OF relinked_upd(1) relinked_upd(2)]) auto
  then show ?thesis
    by (intro exI [of _ "(socks h)(p \<mapsto> w\<lparr>s_next := n\<rparr>, n \<mapsto> z\<lparr>s_prev := p\<rparr>)"])
      (use assms pn w in \<open>auto simp: link_defs set_defs drop_nx_def drop_pv_def views fun_upd_idem\<close>)
qed

lemma unlink_listen_socket_result:
  assumes y: "ctxs h c = Some y" and x: "socks h s = Some x" "s_next x = n" "s_prev x = p"
    and n: "n = NULL \<or> n \<in> dom (socks h)" and p: "p = NULL \<or> p \<in> dom (socks h)"
    and d: "p = n \<longrightarrow> p = NULL" "p \<noteq> s" "n \<noteq> s"
  shows "\<exists>m. us_internal_socket_context_unlink_listen_socket h c s = Some (h\<lparr>socks := m, ctxs := (ctxs h)(c \<mapsto>
      y\<lparr>c_iterator := if c_iterator y = s then n else c_iterator y,
        head_listen_sockets := if p = NULL then n else head_listen_sockets y\<rparr>)\<rparr>) \<and>
    relinked (socks h) m \<and> nx_of m = drop_nx (s_nx h) p n \<and> pv_of m = drop_pv (s_pv h) p n"
proof (cases "p = NULL"; cases "n = NULL")
  assume "p = NULL" "n = NULL"
  with assms show ?thesis
    by (intro exI [of _ "socks h"]) (auto simp: link_defs set_defs drop_nx_def drop_pv_def)
next
  assume pn: "p = NULL" "n \<noteq> NULL"
  with n obtain z where z: "socks h n = Some z" by auto
  show ?thesis
    by (rule exI [of _ "(socks h)(n \<mapsto> z\<lparr>s_prev := p\<rparr>)"])
      (use assms pn z in \<open>auto simp: link_defs set_defs drop_nx_def drop_pv_def views relinked_upd fun_upd_idem\<close>)
next
  assume pn: "p \<noteq> NULL" "n = NULL"
  with p obtain w where w: "socks h p = Some w" by auto
  show ?thesis
    by (rule exI [of _ "(socks h)(p \<mapsto> w\<lparr>s_next := n\<rparr>)"])
      (use assms pn w in \<open>auto simp: link_defs set_defs drop_nx_def drop_pv_def views relinked_upd fun_upd_idem\<close>)
next
  assume pn: "p \<noteq> NULL" "n \<noteq> NULL"
  with n p obtain w z where w: "socks h p = Some w" "socks h n = Some z" by auto
  have "relinked (socks h) ((socks h)(p \<mapsto> w\<lparr>s_next := n\<rparr>, n \<mapsto> z\<lparr>s_prev := p\<rparr>))"
    using w pn d by (intro relinked_trans [OF relinked_upd(1) relinked_upd(2)]) auto
  then show ?thesis
    by (intro exI [of _ "(socks h)(p \<mapsto> w\<lparr>s_next := n\<rparr>, n \<mapsto> z\<lparr>s_prev := p\<rparr>)"])
      (use assms pn w in \<open>auto simp: link_defs set_defs drop_nx_def drop_pv_def views fun_upd_idem\<close>)
qed

lemma link_socket_result:
  assumes "ctxs h c = Some y" "socks h s = Some x" "head_sockets y = d"
    and d: "d = NULL \<or> d \<in> dom (socks h)" "d \<noteq> s"
  shows "\<exists>m. us_internal_socket_context_link_socket h c s =
      Some (h\<lparr>socks := m, ctxs := (ctxs h)(c \<mapsto> y\<lparr>head_sockets := s\<rparr>)\<rparr>) \<and>
    relinked ((socks h)(s \<mapsto> x\<lparr>s_context := c\<rparr>)) m \<and>
    nx_of m = (s_nx h)(s \<mapsto> d) \<and> pv_of m = push_pv (s_pv h) d s"
proof -
  let ?x = "x\<lparr>s_context := c, s_next := d, s_prev := NULL\<rparr>"
  have r: "relinked ((socks h)(s \<mapsto> x\<lparr>s_context := c\<rparr>)) ((socks h)(s \<mapsto> ?x))"
    by (auto simp: relinked_def option.rel_refl)
  show ?thesis
  proof (cases "d = NULL")
    case True
    show ?thesis
      by (rule exI [of _ "(socks h)(s \<mapsto> ?x)"])
        (use assms True r in \<open>auto simp: link_defs set_defs push_pv_def views\<close>)
  next
    case False
    with d obtain z where z: "socks h d = Some z" by auto
    have "relinked ((socks h)(s \<mapsto> x\<lparr>s_context := c\<rparr>)) ((socks h)(s \<mapsto> ?x, d \<mapsto> z\<lparr>s_prev := s\<rparr>))"
      using z d by (intro relinked_trans [OF r] relinked_upd(2)) auto
    then show ?thesis
      by (intro exI [of _ "(socks h)(s \<mapsto> ?x, d \<mapsto> z\<lparr>s_prev := s\<rparr>)"])
        (use assms False z in \<open>auto simp: link_defs set_defs push_pv_def views fun_upd_idem\<close>)
  qed
qed

lemma link_listen_socket_result:
  assumes "ctxs h c = Some y" "socks h s = Some x" "head_listen_sockets y = d"
    and d: "d = NULL \<or> d \<in> dom (socks h)" "d \<noteq> s"
  shows "\<exists>m. us_internal_socket_context_link_listen_socket h c s =
      Some (h\<lparr>socks := m, ctxs := (ctxs h)(c \<mapsto> y\<lparr>head_listen_sockets := s\<rparr>)\<rparr>) \<and>
    relinked ((socks h)(s \<mapsto> x\<lparr>s_context := c\<rparr>)) m \<and>
    nx_of m = (s_nx h)(s \<mapsto> d) \<and> pv_of m = push_pv (s_pv h) d s"
proof -
  let ?x = "x\<lparr>s_context := c, s_next := d, s_prev := NULL\<rparr>"
  have r: "relinked ((socks h)(s \<mapsto> x\<lparr>s_context := c\<rparr>)) ((socks h)(s \<mapsto> ?x))"
    by (auto simp: relinked_def option.rel_refl)
  show ?thesis
  proof (cases "d = NULL")
    case True
    show ?thesis
      by (rule exI [of _ "(socks h)(s \<mapsto> ?x)"])
        (use assms True r in \<open>auto simp: link_defs set_defs push_pv_def views\<close>)
  next
    case False
    with d obtain z where z: "socks h d = Some z" by auto
    have "relinked ((socks h)(s \<mapsto> x\<lparr>s_context := c\<rparr>)) ((socks h)(s \<mapsto> ?x, d \<mapsto> z\<lparr>s_prev := s\<rparr>))"
      using z d by (intro relinked_trans [OF r] relinked_upd(2)) auto
    then show ?thesis
      by (intro exI [of _ "(socks h)(s \<mapsto> ?x, d \<mapsto> z\<lparr>s_prev := s\<rparr>)"])
        (use assms False z in \<open>auto simp: link_defs set_defs push_pv_def views fun_upd_idem\<close>)
  qed
qed

text \<open>The same for the contexts of a loop.\<close>

definition relinked_ctxs ::
  "(ptr \<rightharpoonup> us_socket_context_t) \<Rightarrow> (ptr \<rightharpoonup> us_socket_context_t) \<Rightarrow> bool" where
  "relinked_ctxs m m' \<longleftrightarrow>
     (\<forall>q. rel_option (\<lambda>x x'. x' = x\<lparr>c_prev := c_prev x', c_next := c_next x'\<rparr>) (m q) (m' q))"

lemma relinked_ctxs_simps [simp]:
  "relinked_ctxs m m"
  "m q = Some x \<Longrightarrow> relinked_ctxs m (m(q \<mapsto> x\<lparr>c_next := n\<rparr>))"
  "m q = Some x \<Longrightarrow> relinked_ctxs m (m(q \<mapsto> x\<lparr>c_prev := p\<rparr>))"
  "m q = Some x \<Longrightarrow> relinked_ctxs m (m(q \<mapsto> x\<lparr>c_next := n, c_prev := p\<rparr>))"
  by (auto simp: relinked_ctxs_def option.rel_refl)

lemma relinked_ctxs_upd2:
  assumes "m p = Some w" "m n = Some z" "p \<noteq> n"
  shows "relinked_ctxs m (m(p \<mapsto> w\<lparr>c_next := b, c_prev := a\<rparr>, n \<mapsto> z\<lparr>c_prev := d\<rparr>))"
    "relinked_ctxs m (m(p \<mapsto> w\<lparr>c_next := b\<rparr>, n \<mapsto> z\<lparr>c_prev := d\<rparr>))"
  using assms by (auto simp: relinked_ctxs_def option.rel_refl)

lemma link_ctx_result:
  assumes "loops h l = Some z" "ctxs h c = Some y" "l_head z = d"
    and d: "d = NULL \<or> d \<in> dom (ctxs h)" "d \<noteq> c"
  shows "\<exists>m. us_internal_loop_link h l c =
      Some (h\<lparr>ctxs := m, loops := (loops h)(l \<mapsto> z\<lparr>l_head := c\<rparr>)\<rparr>) \<and>
    relinked_ctxs (ctxs h) m \<and> cnx_of m = (c_nx h)(c \<mapsto> d) \<and> cpv_of m = push_pv (c_pv h) d c"
proof (cases "d = NULL")
  case True
  show ?thesis
    by (rule exI [of _ "(ctxs h)(c \<mapsto> y\<lparr>c_next := d, c_prev := NULL\<rparr>)"])
      (use assms True in \<open>auto simp: link_defs set_defs push_pv_def views\<close>)
next
  case False
  with d obtain w where w: "ctxs h d = Some w" by auto
  show ?thesis
    by (rule exI [of _ "(ctxs h)(c \<mapsto> y\<lparr>c_next := d, c_prev := NULL\<rparr>, d \<mapsto> w\<lparr>c_prev := c\<rparr>)"])
      (use assms False w in \<open>auto simp: link_defs set_defs push_pv_def views relinked_ctxs_upd2
        fun_upd_idem\<close>)
qed

lemma unlink_ctx_result:
  assumes z: "loops h l = Some z" and y: "ctxs h c = Some y" "c_next y = n" "c_prev y = p"
    and n: "n = NULL \<or> n \<in> dom (ctxs h)" and p: "p = NULL \<or> p \<in> dom (ctxs h)"
    and d: "p = n \<longrightarrow> p = NULL" "p \<noteq> c" "n \<noteq> c" "p = NULL \<longleftrightarrow> l_head z = c"
  shows "\<exists>m. us_internal_loop_unlink h l c = Some (h\<lparr>ctxs := m,
      loops := (loops h)(l \<mapsto> z\<lparr>l_head := if p = NULL then n else l_head z\<rparr>)\<rparr>) \<and>
    relinked_ctxs (ctxs h) m \<and> cnx_of m = drop_nx (c_nx h) p n \<and> cpv_of m = drop_pv (c_pv h) p n"
proof (cases "p = NULL"; cases "n = NULL")
  assume pn: "p = NULL" "n = NULL"
  then have "l_head z = c" using d(4) by simp
  with z y pn show ?thesis
    by (intro exI [of _ "ctxs h"]) (simp add: link_defs set_defs drop_nx_def drop_pv_def)
next
  assume pn: "p = NULL" "n \<noteq> NULL"
  then have l: "l_head z = c" using d(4) by simp
  from pn n obtain w where w: "ctxs h n = Some w" by auto
  show ?thesis
    by (rule exI [of _ "(ctxs h)(n \<mapsto> w\<lparr>c_prev := p\<rparr>)"])
      (use z y pn w l d(2,3) in \<open>simp add: link_defs set_defs drop_nx_def drop_pv_def views fun_upd_idem\<close>)
next
  assume pn: "p \<noteq> NULL" "n = NULL"
  then have l: "l_head z \<noteq> c" using d(4) by simp
  from pn p obtain w where w: "ctxs h p = Some w" by auto
  show ?thesis
    by (rule exI [of _ "(ctxs h)(p \<mapsto> w\<lparr>c_next := n\<rparr>)"])
      (use z y pn w l d(2,3) in \<open>simp add: link_defs set_defs drop_nx_def drop_pv_def views fun_upd_idem\<close>)
next
  assume pn: "p \<noteq> NULL" "n \<noteq> NULL"
  then have l: "l_head z \<noteq> c" "p \<noteq> n" using d(1,4) by auto
  from pn n p obtain w v where w: "ctxs h p = Some w" "ctxs h n = Some v" by auto
  show ?thesis
    by (rule exI [of _ "(ctxs h)(p \<mapsto> w\<lparr>c_next := n\<rparr>, n \<mapsto> v\<lparr>c_prev := p\<rparr>)"])
      (use z y pn w l d(2,3) in \<open>simp add: link_defs set_defs drop_nx_def drop_pv_def views
        relinked_ctxs_upd2 fun_upd_idem\<close>)
qed

subsection \<open>The three stores of lists\<close>


text \<open>An update of one context that keeps the head of its other list keeps that head.\<close>

lemma hds_keep:
  "cm a = Some y \<Longrightarrow> hds_of (cm(a \<mapsto> y\<lparr>head_sockets := s\<rparr>)) lm = (hds_of cm lm)(Open a \<mapsto> s)"
  "cm a = Some y \<Longrightarrow> hds_of (cm(a \<mapsto> y\<lparr>head_listen_sockets := s\<rparr>)) lm = (hds_of cm lm)(Listen a \<mapsto> s)"
  "cm a = Some y \<Longrightarrow> hds_of (cm(a \<mapsto> y\<lparr>c_iterator := i, head_sockets := s\<rparr>)) lm = (hds_of cm lm)(Open a \<mapsto> s)"
  "cm a = Some y \<Longrightarrow> hds_of (cm(a \<mapsto> y\<lparr>c_iterator := i, head_listen_sockets := s\<rparr>)) lm =
     (hds_of cm lm)(Listen a \<mapsto> s)"
  by (simp_all add: views fun_upd_idem)

lemma hds_same: "cm a = Some y \<Longrightarrow> (hds_of cm lm)(Open a \<mapsto> head_sockets y) = hds_of cm lm"
  "cm a = Some y \<Longrightarrow> (hds_of cm lm)(Listen a \<mapsto> head_listen_sockets y) = hds_of cm lm"
  "lm l = Some z \<Longrightarrow> (lhd_of lm)(l \<mapsto> l_head z) = lhd_of lm"
  by (simp_all add: views fun_upd_idem)

interpretation sock_list: dll_store s_nx s_pv s_hds doubly Open
  us_internal_socket_context_link_socket us_internal_socket_context_unlink_socket
proof
  show "dom (s_pv h) = dom (s_nx h)" for h by (simp add: views)
next
  fix h a c s
  assume "s_hds h (Open a) = Some c" and "s \<in> dom (s_nx h)" and c: "c = NULL \<or> c \<in> dom (s_nx h)" "c \<noteq> s"
  then obtain x y where xy: "socks h s = Some x" "ctxs h a = Some y" "head_sockets y = c"
    by (auto simp: views)
  obtain m where "us_internal_socket_context_link_socket h a s =
      Some (h\<lparr>socks := m, ctxs := (ctxs h)(a \<mapsto> y\<lparr>head_sockets := s\<rparr>)\<rparr>)"
    "nx_of m = (s_nx h)(s \<mapsto> c)" "pv_of m = push_pv (s_pv h) c s"
    using link_socket_result [OF xy(2,1,3) c [unfolded views_dom]] by blast
  then show "\<exists>h'. us_internal_socket_context_link_socket h a s = Some h' \<and> s_nx h' = (s_nx h)(s \<mapsto> c) \<and>
      s_pv h' = push_pv (s_pv h) c s \<and> s_hds h' = (s_hds h)(Open a \<mapsto> s)"
    using xy by (simp add: hds_keep)
next
  fix h a c s n p
  assume *: "s_hds h (Open a) = Some c" "s_nx h s = Some n" "s_pv h s = Some p"
    and np: "n = NULL \<or> n \<in> dom (s_nx h)" "p = NULL \<or> p \<in> dom (s_nx h)"
    "p = n \<longrightarrow> p = NULL" "p = NULL \<longleftrightarrow> c = s" "p \<noteq> s" "n \<noteq> s"
  from * obtain x y where xy: "socks h s = Some x" "ctxs h a = Some y" "head_sockets y = c"
     "s_next x = n" "s_prev x = p"
    by (auto simp: views_app)
  obtain m where "us_internal_socket_context_unlink_socket h a s = Some (h\<lparr>socks := m, ctxs := (ctxs h)(a \<mapsto>
      y\<lparr>c_iterator := if c_iterator y = s then n else c_iterator y,
        head_sockets := if p = NULL then n else head_sockets y\<rparr>)\<rparr>)"
    "nx_of m = drop_nx (s_nx h) p n" "pv_of m = drop_pv (s_pv h) p n"
    using unlink_socket_result [OF xy(2,1,4,5) np(1,2) [unfolded views_dom] np(3,5,6)] by blast
  then show "\<exists>h'. us_internal_socket_context_unlink_socket h a s = Some h' \<and> s_nx h' = drop_nx (s_nx h) p n \<and>
      s_pv h' = drop_pv (s_pv h) p n \<and> s_hds h' = (if p = NULL then (s_hds h)(Open a \<mapsto> n) else s_hds h)"
    using xy by (simp add: hds_keep hds_same(1) [of "ctxs h", OF xy(2), unfolded xy(3)])
qed

interpretation listen_list: dll_store s_nx s_pv s_hds doubly Listen
  us_internal_socket_context_link_listen_socket us_internal_socket_context_unlink_listen_socket
proof
  show "dom (s_pv h) = dom (s_nx h)" for h by (simp add: views)
next
  fix h a c s
  assume "s_hds h (Listen a) = Some c" and "s \<in> dom (s_nx h)" and c: "c = NULL \<or> c \<in> dom (s_nx h)" "c \<noteq> s"
  then obtain x y where xy: "socks h s = Some x" "ctxs h a = Some y" "head_listen_sockets y = c"
    by (auto simp: views)
  obtain m where "us_internal_socket_context_link_listen_socket h a s =
      Some (h\<lparr>socks := m, ctxs := (ctxs h)(a \<mapsto> y\<lparr>head_listen_sockets := s\<rparr>)\<rparr>)"
    "nx_of m = (s_nx h)(s \<mapsto> c)" "pv_of m = push_pv (s_pv h) c s"
    using link_listen_socket_result [OF xy(2,1,3) c [unfolded views_dom]] by blast
  then show "\<exists>h'. us_internal_socket_context_link_listen_socket h a s = Some h' \<and> s_nx h' = (s_nx h)(s \<mapsto> c) \<and>
      s_pv h' = push_pv (s_pv h) c s \<and> s_hds h' = (s_hds h)(Listen a \<mapsto> s)"
    using xy by (simp add: hds_keep)
next
  fix h a c s n p
  assume *: "s_hds h (Listen a) = Some c" "s_nx h s = Some n" "s_pv h s = Some p"
    and np: "n = NULL \<or> n \<in> dom (s_nx h)" "p = NULL \<or> p \<in> dom (s_nx h)"
    "p = n \<longrightarrow> p = NULL" "p = NULL \<longleftrightarrow> c = s" "p \<noteq> s" "n \<noteq> s"
  from * obtain x y where xy: "socks h s = Some x" "ctxs h a = Some y" "head_listen_sockets y = c"
     "s_next x = n" "s_prev x = p"
    by (auto simp: views_app)
  obtain m where "us_internal_socket_context_unlink_listen_socket h a s = Some (h\<lparr>socks := m, ctxs := (ctxs h)(a \<mapsto>
      y\<lparr>c_iterator := if c_iterator y = s then n else c_iterator y,
        head_listen_sockets := if p = NULL then n else head_listen_sockets y\<rparr>)\<rparr>)"
    "nx_of m = drop_nx (s_nx h) p n" "pv_of m = drop_pv (s_pv h) p n"
    using unlink_listen_socket_result [OF xy(2,1,4,5) np(1,2) [unfolded views_dom] np(3,5,6)] by blast
  then show "\<exists>h'. us_internal_socket_context_unlink_listen_socket h a s = Some h' \<and> s_nx h' = drop_nx (s_nx h) p n \<and>
      s_pv h' = drop_pv (s_pv h) p n \<and> s_hds h' = (if p = NULL then (s_hds h)(Listen a \<mapsto> n) else s_hds h)"
    using xy by (simp add: hds_keep hds_same(2) [of "ctxs h", OF xy(2), unfolded xy(3)])
qed

interpretation ctx_list: dll_store c_nx c_pv c_hds "\<lambda>_. True" id
  us_internal_loop_link us_internal_loop_unlink
proof
  show "dom (c_pv h) = dom (c_nx h)" for h by (simp add: views)
next
  fix h a c s
  assume "c_hds h (id a) = Some c" and "s \<in> dom (c_nx h)" and c: "c = NULL \<or> c \<in> dom (c_nx h)" "c \<noteq> s"
  then obtain y z where yz: "loops h a = Some z" "ctxs h s = Some y" "l_head z = c"
    by (auto simp: views)
  obtain m where "us_internal_loop_link h a s =
      Some (h\<lparr>ctxs := m, loops := (loops h)(a \<mapsto> z\<lparr>l_head := s\<rparr>)\<rparr>)"
    "cnx_of m = (c_nx h)(s \<mapsto> c)" "cpv_of m = push_pv (c_pv h) c s"
    using link_ctx_result [OF yz c [unfolded views_dom]] by blast
  then show "\<exists>h'. us_internal_loop_link h a s = Some h' \<and> c_nx h' = (c_nx h)(s \<mapsto> c) \<and>
      c_pv h' = push_pv (c_pv h) c s \<and> c_hds h' = (c_hds h)(id a \<mapsto> s)"
    by (simp add: views)
next
  fix h a c s n p
  assume *: "c_hds h (id a) = Some c" "c_nx h s = Some n" "c_pv h s = Some p"
    and np: "n = NULL \<or> n \<in> dom (c_nx h)" "p = NULL \<or> p \<in> dom (c_nx h)"
    "p = n \<longrightarrow> p = NULL" "p = NULL \<longleftrightarrow> c = s" "p \<noteq> s" "n \<noteq> s"
  from * obtain y z where yz: "loops h a = Some z" "ctxs h s = Some y" "c_next y = n" "c_prev y = p"
    and z: "l_head z = c"
    by (auto simp: views_app)
  obtain m where "us_internal_loop_unlink h a s = Some (h\<lparr>ctxs := m,
      loops := (loops h)(a \<mapsto> z\<lparr>l_head := if p = NULL then n else l_head z\<rparr>)\<rparr>)"
    "cnx_of m = drop_nx (c_nx h) p n" "cpv_of m = drop_pv (c_pv h) p n"
    using unlink_ctx_result [OF yz np(1,2) [unfolded views_dom] np(3,5,6) np(4) [folded z]] by blast
  then show "\<exists>h'. us_internal_loop_unlink h a s = Some h' \<and> c_nx h' = drop_nx (c_nx h) p n \<and>
      c_pv h' = drop_pv (c_pv h) p n \<and> c_hds h' = (if p = NULL then (c_hds h)(id a \<mapsto> n) else c_hds h)"
    by (simp add: views_upd(7) hds_same(3) [of "loops h", OF yz(1), unfolded z] z)
qed

end
