(* ===== verification/Bsd.thy ===== *)
theory Bsd
  imports Store
begin

text \<open>
  The wrappers around the BSD socket calls, \<open>bsd.c\<close>.  Each call is recorded in the trace and its
  result taken from the environment.  The epoll backend stands for the Linux build of the file and
  the kqueue backend for its macOS build; the constants and the \<open>#ifdef\<close> branches are those of
  these two.  Packet buffers (\<open>bsd_*_packet_buffer*\<close>, \<open>bsd_sendmmsg\<close>, \<open>bsd_recvmmsg\<close>) are modelled
  in \<open>Udp\<close>.
\<close>

subsection \<open>Constants of the two platforms\<close>

definition LIBUS_SOCKET_ERROR :: int where [simp]: "LIBUS_SOCKET_ERROR = -1"
definition AF_UNIX :: int where [simp]: "AF_UNIX = 1"
definition AF_INET :: int where [simp]: "AF_INET = 2"
definition AF_INET6 :: "backend \<Rightarrow> int" where
  "AF_INET6 b = (case b of Epoll \<Rightarrow> 10 | Kqueue_backend \<Rightarrow> 30)"
definition AF_UNSPEC :: int where [simp]: "AF_UNSPEC = 0"
definition SOCK_STREAM :: int where [simp]: "SOCK_STREAM = 1"
definition SOCK_DGRAM :: int where [simp]: "SOCK_DGRAM = 2"
definition SOCK_CLOEXEC :: int where [simp]: "SOCK_CLOEXEC = 0x80000"
definition SOCK_NONBLOCK :: int where [simp]: "SOCK_NONBLOCK = 0x800"
definition AI_PASSIVE :: int where [simp]: "AI_PASSIVE = 1"
definition MSG_MORE :: u32 where [simp]: "MSG_MORE = 0x8000"
definition MSG_NOSIGNAL :: "backend \<Rightarrow> u32" where
  "MSG_NOSIGNAL b = (case b of Epoll \<Rightarrow> 0x4000 | Kqueue_backend \<Rightarrow> 0)"
definition EWOULDBLOCK :: "backend \<Rightarrow> int" where
  "EWOULDBLOCK b = (case b of Epoll \<Rightarrow> 11 | Kqueue_backend \<Rightarrow> 35)"
definition S_IRWXU :: int where [simp]: "S_IRWXU = 448"
definition SUN_PATH_SIZE :: "backend \<Rightarrow> nat" where
  "SUN_PATH_SIZE b = (case b of Epoll \<Rightarrow> 108 | Kqueue_backend \<Rightarrow> 104)"
definition LIBUS_LISTEN_EXCLUSIVE_PORT :: int where [simp]: "LIBUS_LISTEN_EXCLUSIVE_PORT = 1"

text \<open>A system call whose result is used: the result and the heap with the call recorded.\<close>

definition sys :: "env \<Rightarrow> heap \<Rightarrow> syscall \<Rightarrow> int \<times> heap" where
  "sys E h c = (sys_ret E (trace h) c, do_sys h c)"

subsection \<open>Descriptors\<close>

definition apple_no_sigpipe :: "env \<Rightarrow> heap \<Rightarrow> int \<Rightarrow> heap" where
  "apple_no_sigpipe E h f = (case be E of
       Epoll \<Rightarrow> h
     | Kqueue_backend \<Rightarrow> (if f \<noteq> LIBUS_SOCKET_ERROR then do_sys h (Setsockopt f SoNoSigPipe 1) else h))"

definition bsd_set_nonblocking :: "heap \<Rightarrow> int \<Rightarrow> heap" where
  "bsd_set_nonblocking h f = do_sys h (FcntlNonblock f)"

definition bsd_socket_nodelay :: "heap \<Rightarrow> int \<Rightarrow> int \<Rightarrow> heap" where
  "bsd_socket_nodelay h f enabled = do_sys h (Setsockopt f TcpNodelay enabled)"

definition bsd_socket_flush :: "env \<Rightarrow> heap \<Rightarrow> int \<Rightarrow> heap" where
  "bsd_socket_flush E h f = (case be E of
       Epoll \<Rightarrow> do_sys h (Setsockopt f TcpCork 0)
     | Kqueue_backend \<Rightarrow> h)"

definition bsd_create_socket :: "env \<Rightarrow> heap \<Rightarrow> int \<Rightarrow> int \<Rightarrow> int \<Rightarrow> int \<times> heap" where
  "bsd_create_socket E h domain ty protocol =
     (let flags = (case be E of Epoll \<Rightarrow> SOCK_CLOEXEC OR SOCK_NONBLOCK | Kqueue_backend \<Rightarrow> 0);
          (created_fd, h) = sys E h (Socket domain (ty OR flags) protocol)
      in (created_fd, bsd_set_nonblocking (apple_no_sigpipe E h created_fd) created_fd))"

definition bsd_close_socket :: "heap \<Rightarrow> int \<Rightarrow> heap" where
  "bsd_close_socket h f = do_sys h (Close f)"

definition bsd_shutdown_socket :: "heap \<Rightarrow> int \<Rightarrow> heap" where
  "bsd_shutdown_socket h f = do_sys h (Shutdown f ShutWr)"

definition bsd_shutdown_socket_read :: "heap \<Rightarrow> int \<Rightarrow> heap" where
  "bsd_shutdown_socket_read h f = do_sys h (Shutdown f ShutRd)"

subsection \<open>Addresses\<close>

text \<open>
  \<open>addr_ip\<close> points into the address; \<open>None\<close> is the pointer left uninitialised for an address family
  other than IPv4 and IPv6, where \<open>ip_length\<close> is 0.  \<open>ntohs\<close> swaps the bytes of a port (both
  platforms are little-endian).
\<close>

record bsd_addr_t =
  addr_ip :: "u8 list option"
  ip_length :: int
  addr_port :: int

definition ntohs :: "u16 \<Rightarrow> u16" where
  "ntohs w = push_bit 8 w OR drop_bit 8 w"

definition internal_finalize_bsd_addr :: "sockaddr \<Rightarrow> bsd_addr_t" where
  "internal_finalize_bsd_addr a = (case a of
       SockIn6 bs p \<Rightarrow> \<lparr>addr_ip = Some bs, ip_length = 16, addr_port = uint (ntohs p)\<rparr>
     | SockIn bs p \<Rightarrow> \<lparr>addr_ip = Some bs, ip_length = 4, addr_port = uint (ntohs p)\<rparr>
     | _ \<Rightarrow> \<lparr>addr_ip = None, ip_length = 0, addr_port = -1\<rparr>)"

text \<open>What a callback that gets \<open>bsd_addr_get_ip\<close> and \<open>bsd_addr_get_ip_length\<close> can read.\<close>

definition bsd_addr_bytes :: "bsd_addr_t \<Rightarrow> u8 list" where
  "bsd_addr_bytes a = (case addr_ip a of Some bs \<Rightarrow> take (nat (ip_length a)) bs | None \<Rightarrow> [])"

definition bsd_local_addr :: "env \<Rightarrow> heap \<Rightarrow> int \<Rightarrow> bsd_addr_t option \<times> heap" where
  "bsd_local_addr E h f =
     (let (r, h') = sys E h (Getsockname f)
      in (if r \<noteq> 0 then None
          else Some (internal_finalize_bsd_addr (sys_addr E (trace h) (Getsockname f))), h'))"

definition bsd_remote_addr :: "env \<Rightarrow> heap \<Rightarrow> int \<Rightarrow> bsd_addr_t option \<times> heap" where
  "bsd_remote_addr E h f =
     (let (r, h') = sys E h (Getpeername f)
      in (if r \<noteq> 0 then None
          else Some (internal_finalize_bsd_addr (sys_addr E (trace h) (Getpeername f))), h'))"

text \<open>The accepted descriptor, with the peer's address when there is one.\<close>

definition bsd_accept_socket :: "env \<Rightarrow> heap \<Rightarrow> int \<Rightarrow> (int \<times> bsd_addr_t) option \<times> heap" where
  "bsd_accept_socket E h f =
     (let (accepted_fd, h') = sys E h (Accept f)
      in if accepted_fd = LIBUS_SOCKET_ERROR then (None, h')
         else (Some (accepted_fd, internal_finalize_bsd_addr (sys_addr E (trace h) (Accept f))),
               bsd_set_nonblocking (apple_no_sigpipe E h' accepted_fd) accepted_fd))"

subsection \<open>Receiving and sending\<close>

definition bsd_recv :: "env \<Rightarrow> heap \<Rightarrow> int \<Rightarrow> nat \<Rightarrow> u32 \<Rightarrow> int \<times> u8 list \<times> heap" where
  "bsd_recv E h f n flags =
     (let (r, h') = sys E h (Recv f n flags)
      in (r, take (nat r) (sys_data E (trace h) (Recv f n flags)), h'))"

definition bsd_write2 :: "env \<Rightarrow> heap \<Rightarrow> int \<Rightarrow> u8 list \<Rightarrow> u8 list \<Rightarrow> int \<times> heap" where
  "bsd_write2 E h f header payload = sys E h (Writev f [header, payload])"

definition bsd_send :: "env \<Rightarrow> heap \<Rightarrow> int \<Rightarrow> u8 list \<Rightarrow> int \<Rightarrow> int \<times> heap" where
  "bsd_send E h f data msg_more =
     sys E h (Send f data ((if be E = Epoll \<and> msg_more \<noteq> 0 then MSG_MORE else 0) OR MSG_NOSIGNAL (be E)))"

definition bsd_would_block :: "env \<Rightarrow> heap \<Rightarrow> bool" where
  "bsd_would_block E h \<longleftrightarrow> sys_errno E (trace h) = EWOULDBLOCK (be E)"

subsection \<open>Listening and connecting\<close>

text \<open>\<open>snprintf(port_string, 16, "%d", port)\<close>; a C int needs at most 11 characters.\<close>

fun digits :: "nat \<Rightarrow> string" where
  "digits n = (if n < 10 then [char_of (48 + n)] else digits (n div 10) @ [char_of (48 + n mod 10)])"

declare digits.simps [simp del]

definition port_string :: "int \<Rightarrow> string" where
  "port_string i = (if i < 0 then CHR ''-'' # digits (nat (- i)) else digits (nat i))"

text \<open>
  The two loops over the results of \<open>getaddrinfo\<close>: the first one takes IPv6 addresses, the second
  one IPv4 addresses, each until a socket could be created.
\<close>

fun bsd_try_family ::
  "env \<Rightarrow> heap \<Rightarrow> int \<Rightarrow> addrinfo list \<Rightarrow> int \<Rightarrow> addrinfo option \<Rightarrow> int \<times> addrinfo option \<times> heap" where
  "bsd_try_family E h fam [] listenFd listenAddr = (listenFd, listenAddr, h)"
| "bsd_try_family E h fam (a # as) listenFd listenAddr =
     (if listenFd = LIBUS_SOCKET_ERROR then
        (if ai_family a = fam then
           (let (f, h) = bsd_create_socket E h (ai_family a) (ai_socktype a) (ai_protocol a)
            in bsd_try_family E h fam as f (Some a))
         else bsd_try_family E h fam as listenFd listenAddr)
      else (listenFd, listenAddr, h))"

definition bsd_create_listen_socket :: "env \<Rightarrow> heap \<Rightarrow> string option \<Rightarrow> int \<Rightarrow> int \<Rightarrow> (int \<times> heap) option" where
  "bsd_create_listen_socket E h host port options =
     (let q = Getaddrinfo host (Some (port_string port)) AI_PASSIVE AF_UNSPEC SOCK_STREAM;
          ais = sys_ai E (trace h) q;
          (r, h) = sys E h q
      in if r \<noteq> 0 then Some (LIBUS_SOCKET_ERROR, h)
         else
           (let (listenFd, listenAddr, h) =
                  bsd_try_family E h (AF_INET6 (be E)) ais LIBUS_SOCKET_ERROR None;
                (listenFd, listenAddr, h) = bsd_try_family E h AF_INET ais listenFd listenAddr
            in if listenFd = LIBUS_SOCKET_ERROR then Some (LIBUS_SOCKET_ERROR, do_sys h Freeaddrinfo)
               else do {
                 let h = (if port \<noteq> 0 then
                            (let h = (if options AND LIBUS_LISTEN_EXCLUSIVE_PORT = 0
                                      then do_sys h (Setsockopt listenFd SoReusePort 1) else h)
                             in do_sys h (Setsockopt listenFd SoReuseAddr 1))
                          else h);
                 let h = do_sys h (Setsockopt listenFd Ipv6V6Only 0);
                 a \<leftarrow> listenAddr;
                 let (b, h) = sys E h (Bind listenFd (ai_addr a));
                 let (failed, h) = (if b \<noteq> 0 then (True, h)
                   else (let (ret, h) = sys E h (Listen_call listenFd 512) in (ret \<noteq> 0, h)));
                 if failed
                 then Some (LIBUS_SOCKET_ERROR, do_sys (bsd_close_socket h listenFd) Freeaddrinfo)
                 else Some (listenFd, do_sys h Freeaddrinfo) }))"

text \<open>\<open>strcpy\<close> of a path that does not fit \<open>sun_path\<close> with its terminator writes out of bounds.\<close>

definition sun_addr :: "backend \<Rightarrow> string \<Rightarrow> sockaddr option" where
  "sun_addr b path = (if length path < SUN_PATH_SIZE b then Some (SockUn path) else None)"

definition bsd_create_listen_socket_unix :: "env \<Rightarrow> heap \<Rightarrow> string \<Rightarrow> int \<Rightarrow> (int \<times> heap) option" where
  "bsd_create_listen_socket_unix E h path options =
     (let (listenFd, h) = bsd_create_socket E h AF_UNIX SOCK_STREAM 0
      in if listenFd = LIBUS_SOCKET_ERROR then Some (LIBUS_SOCKET_ERROR, h)
         else do {
           let h = do_sys h (Fchmod listenFd S_IRWXU);
           a \<leftarrow> sun_addr (be E) path;
           let h = do_sys h (Unlink path);
           let (b, h) = sys E h (Bind listenFd a);
           let (failed, h) = (if b \<noteq> 0 then (True, h)
             else (let (ret, h) = sys E h (Listen_call listenFd 512) in (ret \<noteq> 0, h)));
           if failed then Some (LIBUS_SOCKET_ERROR, bsd_close_socket h listenFd)
           else Some (listenFd, h) })"

definition bsd_create_udp_socket :: "env \<Rightarrow> heap \<Rightarrow> string option \<Rightarrow> int \<Rightarrow> (int \<times> heap) option" where
  "bsd_create_udp_socket E h host port =
     (let q = Getaddrinfo host (Some (port_string port)) AI_PASSIVE AF_UNSPEC SOCK_DGRAM;
          ais = sys_ai E (trace h) q;
          (r, h) = sys E h q
      in if r \<noteq> 0 then Some (LIBUS_SOCKET_ERROR, h)
         else
           (let (listenFd, listenAddr, h) =
                  bsd_try_family E h (AF_INET6 (be E)) ais LIBUS_SOCKET_ERROR None;
                (listenFd, listenAddr, h) = bsd_try_family E h AF_INET ais listenFd listenAddr
            in if listenFd = LIBUS_SOCKET_ERROR then Some (LIBUS_SOCKET_ERROR, do_sys h Freeaddrinfo)
               else do {
                 let h = (if port \<noteq> 0 then do_sys h (Setsockopt listenFd SoReuseAddr 1) else h);
                 let h = do_sys h (Setsockopt listenFd Ipv6V6Only 0);
                 let (o6, h) = sys E h (Setsockopt listenFd Ipv6RecvPktInfo 1);
                 let h = (if o6 = -1 \<and> sys_errno E (trace h) = 92
                          then do_sys h (Setsockopt listenFd IpPktInfo 1) else h);
                 let (tc, h) = sys E h (Setsockopt listenFd Ipv6RecvTclass 1);
                 let h = (if tc = -1 \<and> sys_errno E (trace h) = 92
                          then do_sys h (Setsockopt listenFd IpRecvTos 1) else h);
                 a \<leftarrow> listenAddr;
                 let (b, h) = sys E h (Bind listenFd (ai_addr a));
                 if b \<noteq> 0
                 then Some (LIBUS_SOCKET_ERROR, do_sys (bsd_close_socket h listenFd) Freeaddrinfo)
                 else Some (listenFd, do_sys h Freeaddrinfo) }))"

text \<open>
  Connecting uses the first result of \<open>getaddrinfo\<close> without looking whether there is one, and the
  result of \<open>connect\<close> is not looked at (the descriptor is non-blocking).
\<close>

definition bsd_create_connect_socket ::
  "env \<Rightarrow> heap \<Rightarrow> string option \<Rightarrow> int \<Rightarrow> string option \<Rightarrow> int \<Rightarrow> (int \<times> heap) option" where
  "bsd_create_connect_socket E h host port source_host options =
     (let q = Getaddrinfo host (Some (port_string port)) 0 AF_UNSPEC SOCK_STREAM;
          ais = sys_ai E (trace h) q;
          (r, h) = sys E h q
      in if r \<noteq> 0 then Some (LIBUS_SOCKET_ERROR, h)
         else (case ais of [] \<Rightarrow> None | result # _ \<Rightarrow>
           (let (f, h) = bsd_create_socket E h (ai_family result) (ai_socktype result) (ai_protocol result)
            in if f = LIBUS_SOCKET_ERROR then Some (LIBUS_SOCKET_ERROR, do_sys h Freeaddrinfo)
               else do {
                 (bound, h) \<leftarrow> (case source_host of None \<Rightarrow> Some (True, h) | Some src \<Rightarrow>
                    (let q = Getaddrinfo (Some src) None 0 0 0;
                         ifs = sys_ai E (trace h) q;
                         (r, h) = sys E h q
                     in if r \<noteq> 0 then Some (True, h)
                        else (case ifs of [] \<Rightarrow> None | i # _ \<Rightarrow>
                          (let (ret, h) = sys E h (Bind f (ai_addr i))
                           in Some (ret \<noteq> LIBUS_SOCKET_ERROR, do_sys h Freeaddrinfo)))));
                 if \<not> bound
                 then Some (LIBUS_SOCKET_ERROR, do_sys (bsd_close_socket h f) Freeaddrinfo)
                 else Some (f, do_sys (do_sys h (Connect_call f (ai_addr result))) Freeaddrinfo) })))"

definition bsd_create_connect_socket_unix :: "env \<Rightarrow> heap \<Rightarrow> string \<Rightarrow> int \<Rightarrow> (int \<times> heap) option" where
  "bsd_create_connect_socket_unix E h server_path options = do {
     a \<leftarrow> sun_addr (be E) server_path;
     let (f, h) = bsd_create_socket E h AF_UNIX SOCK_STREAM 0;
     if f = LIBUS_SOCKET_ERROR then Some (LIBUS_SOCKET_ERROR, h)
     else Some (f, do_sys h (Connect_call f a)) }"

end
