(* ===== verification/Socket.thy ===== *)
theory Socket
  imports Links Bsd
begin

text \<open>
  The operations of \<open>socket.c\<close> on a plain (non-SSL) socket, the path every SSL socket takes as
  well once \<open>openssl.c\<close> has done its part.
\<close>

subsection \<open>Asking\<close>

definition us_socket_context :: "heap \<Rightarrow> ptr \<Rightarrow> ptr option" where
  "us_socket_context h s = map_option s_context (socks h s)"

definition us_socket_is_closed :: "us_socket_t \<Rightarrow> bool" where
  "us_socket_is_closed x \<longleftrightarrow> s_prev x = s_context x"

definition us_socket_is_established :: "us_poll_t \<Rightarrow> bool" where
  "us_socket_is_established p \<longleftrightarrow> us_internal_poll_type p \<noteq> POLL_TYPE_SEMI_SOCKET"

definition us_socket_is_shut_down :: "us_poll_t \<Rightarrow> bool" where
  "us_socket_is_shut_down p \<longleftrightarrow> us_internal_poll_type p = POLL_TYPE_SOCKET_SHUT_DOWN"

definition us_socket_get_native_handle :: "heap \<Rightarrow> ptr \<Rightarrow> int option" where
  "us_socket_get_native_handle h s = map_option us_poll_fd (polls h s)"

definition us_socket_local_port :: "env \<Rightarrow> heap \<Rightarrow> ptr \<Rightarrow> (int \<times> heap) option" where
  "us_socket_local_port E h s = do {
     p \<leftarrow> polls h s;
     let (a, h) = bsd_local_addr E h (us_poll_fd p);
     Some (case a of None \<Rightarrow> -1 | Some addr \<Rightarrow> addr_port addr, h) }"

text \<open>The length stored through the pointer and the bytes copied into the caller's buffer.\<close>

definition us_socket_remote_address :: "env \<Rightarrow> heap \<Rightarrow> ptr \<Rightarrow> int \<Rightarrow> (int \<times> u8 list \<times> heap) option" where
  "us_socket_remote_address E h s len = do {
     p \<leftarrow> polls h s;
     let (a, h) = bsd_remote_addr E h (us_poll_fd p);
     Some (case a of
         None \<Rightarrow> (0, [], h)
       | Some addr \<Rightarrow> (if len < ip_length addr then (0, [], h)
                      else (ip_length addr, bsd_addr_bytes addr, h))) }"

subsection \<open>Timeouts\<close>

text \<open>The sum is one of unsigned ints and wraps at 32 bits.\<close>

definition us_socket_timeout :: "heap \<Rightarrow> ptr \<Rightarrow> u32 \<Rightarrow> heap option" where
  "us_socket_timeout h s seconds =
     (if seconds \<noteq> 0 then do {
        x \<leftarrow> socks h s;
        y \<leftarrow> ctxs h (s_context x);
        set_sock h s (\<lambda>x. x\<lparr>timeout := ucast ((ucast (timestamp y) + drop_bit 2 (seconds + 3)) mod 240)\<rparr>) }
      else set_sock h s (\<lambda>x. x\<lparr>timeout := 255\<rparr>))"

definition us_socket_long_timeout :: "heap \<Rightarrow> ptr \<Rightarrow> u32 \<Rightarrow> heap option" where
  "us_socket_long_timeout h s minutes =
     (if minutes \<noteq> 0 then do {
        x \<leftarrow> socks h s;
        y \<leftarrow> ctxs h (s_context x);
        set_sock h s (\<lambda>x. x\<lparr>long_timeout := ucast ((ucast (long_timestamp y) + minutes) mod 240)\<rparr>) }
      else set_sock h s (\<lambda>x. x\<lparr>long_timeout := 255\<rparr>))"

subsection \<open>Closing\<close>

text \<open>
  The last part of closing, the same in three functions: the poll is stopped, the descriptor
  closed and the socket pushed on the close list of its loop, marked by \<open>prev = context\<close>.
\<close>

definition close_list_push :: "env \<Rightarrow> heap \<Rightarrow> ptr \<Rightarrow> heap option" where
  "close_list_push E h s = do {
     x \<leftarrow> socks h s;
     y \<leftarrow> ctxs h (s_context x);
     h \<leftarrow> us_poll_stop E h s (c_loop y);
     p \<leftarrow> polls h s;
     let h = bsd_close_socket h (us_poll_fd p);
     lp \<leftarrow> loops h (c_loop y);
     h \<leftarrow> set_sock h s (\<lambda>x. x\<lparr>s_next := closed_head lp\<rparr>);
     h \<leftarrow> set_loop h (c_loop y) (\<lambda>z. z\<lparr>closed_head := s\<rparr>);
     set_sock h s (\<lambda>x. x\<lparr>s_prev := s_context x\<rparr>) }"

definition us_socket_close_connecting :: "env \<Rightarrow> heap \<Rightarrow> ptr \<Rightarrow> (ptr \<times> heap) option" where
  "us_socket_close_connecting E h s = do {
     x \<leftarrow> socks h s;
     if us_socket_is_closed x then Some (s, h)
     else do {
       h \<leftarrow> us_internal_socket_context_unlink_socket h (s_context x) s;
       h \<leftarrow> close_list_push E h s;
       Some (s, h) } }"

text \<open>Taking a socket out of the low-priority queue, as \<open>us_socket_close\<close> does.\<close>

definition low_prio_unlink :: "heap \<Rightarrow> ptr \<Rightarrow> heap option" where
  "low_prio_unlink h s = do {
     x \<leftarrow> socks h s;
     h \<leftarrow> (if s_prev x = NULL then do {
             y \<leftarrow> ctxs h (s_context x);
             set_loop h (c_loop y) (\<lambda>z. z\<lparr>low_prio_head := s_next x\<rparr>) }
           else set_sock h (s_prev x) (\<lambda>w. w\<lparr>s_next := s_next x\<rparr>));
     x \<leftarrow> socks h s;
     h \<leftarrow> (if s_next x \<noteq> NULL then set_sock h (s_next x) (\<lambda>w. w\<lparr>s_prev := s_prev x\<rparr>) else Some h);
     h \<leftarrow> set_sock h s (\<lambda>x. x\<lparr>s_prev := NULL\<rparr>);
     h \<leftarrow> set_sock h s (\<lambda>x. x\<lparr>s_next := NULL\<rparr>);
     set_sock h s (\<lambda>x. x\<lparr>low_prio_state := 0\<rparr>) }"

text \<open>Everything \<open>us_socket_close\<close> does before it emits \<open>on_close\<close>.\<close>

definition close_quietly :: "env \<Rightarrow> heap \<Rightarrow> ptr \<Rightarrow> heap option" where
  "close_quietly E h s = do {
     x \<leftarrow> socks h s;
     h \<leftarrow> (if low_prio_state x = 1 then low_prio_unlink h s
           else us_internal_socket_context_unlink_socket h (s_context x) s);
     close_list_push E h s }"

definition us_socket_close :: "env \<Rightarrow> heap \<Rightarrow> ptr \<Rightarrow> int \<Rightarrow> ptr \<Rightarrow> (ptr \<times> heap) option" where
  "us_socket_close E h s code reason = do {
     x \<leftarrow> socks h s;
     if us_socket_is_closed x then Some (s, h)
     else do {
       h \<leftarrow> close_quietly E h s;
       x \<leftarrow> socks h s;
       y \<leftarrow> ctxs h (s_context x);
       call_fn E (on_close y) (OnClose s code reason) h } }"

subsection \<open>Writing and shutting down\<close>

definition us_socket_write :: "env \<Rightarrow> heap \<Rightarrow> ptr \<Rightarrow> u8 list \<Rightarrow> int \<Rightarrow> (int \<times> heap) option" where
  "us_socket_write E h s data msg_more = do {
     x \<leftarrow> socks h s;
     p \<leftarrow> polls h s;
     if us_socket_is_closed x \<or> us_socket_is_shut_down p then Some (0, h)
     else do {
       let (written, h) = bsd_send E h (us_poll_fd p) data msg_more;
       h \<leftarrow> (if written \<noteq> int (length data) then do {
               y \<leftarrow> ctxs h (s_context x);
               h \<leftarrow> set_loop h (c_loop y) (\<lambda>z. z\<lparr>last_write_failed := 1\<rparr>);
               us_poll_change E h s (c_loop y)
                 (LIBUS_SOCKET_READABLE (be E) OR LIBUS_SOCKET_WRITABLE (be E)) }
             else Some h);
       Some (if written < 0 then 0 else written, h) } }"

definition us_socket_write2 :: "env \<Rightarrow> heap \<Rightarrow> ptr \<Rightarrow> u8 list \<Rightarrow> u8 list \<Rightarrow> (int \<times> heap) option" where
  "us_socket_write2 E h s header payload = do {
     x \<leftarrow> socks h s;
     p \<leftarrow> polls h s;
     if us_socket_is_closed x \<or> us_socket_is_shut_down p then Some (0, h)
     else do {
       let (written, h) = bsd_write2 E h (us_poll_fd p) header payload;
       h \<leftarrow> (if written \<noteq> int (length header) + int (length payload) then do {
               y \<leftarrow> ctxs h (s_context x);
               us_poll_change E h s (c_loop y)
                 (LIBUS_SOCKET_READABLE (be E) OR LIBUS_SOCKET_WRITABLE (be E)) }
             else Some h);
       Some (if written < 0 then 0 else written, h) } }"

definition us_socket_shutdown :: "env \<Rightarrow> heap \<Rightarrow> ptr \<Rightarrow> heap option" where
  "us_socket_shutdown E h s = do {
     x \<leftarrow> socks h s;
     p \<leftarrow> polls h s;
     if \<not> us_socket_is_closed x \<and> \<not> us_socket_is_shut_down p then do {
       h \<leftarrow> us_internal_poll_set_type h s POLL_TYPE_SOCKET_SHUT_DOWN;
       p \<leftarrow> polls h s;
       y \<leftarrow> ctxs h (s_context x);
       h \<leftarrow> us_poll_change E h s (c_loop y) (us_poll_events (be E) p AND LIBUS_SOCKET_READABLE (be E));
       p \<leftarrow> polls h s;
       Some (bsd_shutdown_socket h (us_poll_fd p)) }
     else Some h }"

definition us_socket_shutdown_read :: "heap \<Rightarrow> ptr \<Rightarrow> heap option" where
  "us_socket_shutdown_read h s = do { p \<leftarrow> polls h s; Some (bsd_shutdown_socket_read h (us_poll_fd p)) }"

definition us_socket_flush :: "env \<Rightarrow> heap \<Rightarrow> ptr \<Rightarrow> heap option" where
  "us_socket_flush E h s = do {
     p \<leftarrow> polls h s;
     Some (if us_socket_is_shut_down p then h else bsd_socket_flush E h (us_poll_fd p)) }"

end
