(* ===== verification/Context.thy ===== *)
theory Context
  imports Socket
begin

text \<open>
  The operations of \<open>context.c\<close> on a plain (non-SSL) socket context: its life, its handlers,
  listening, connecting, adopting and closing.
\<close>

subsection \<open>Asking\<close>

definition us_socket_context_timestamp :: "heap \<Rightarrow> ptr \<Rightarrow> u16 option" where
  "us_socket_context_timestamp h c = map_option (\<lambda>y. ucast (timestamp y)) (ctxs h c)"

definition us_socket_context_loop :: "heap \<Rightarrow> ptr \<Rightarrow> ptr option" where
  "us_socket_context_loop h c = map_option c_loop (ctxs h c)"

definition default_is_low_prio_handler :: fnptr where
  "default_is_low_prio_handler = DefaultIsLowPrio"

subsection \<open>Creating and freeing\<close>

text \<open>
  \<open>malloc\<close> leaves the handlers uninitialised; a call through one before it is set is a fault, which
  \<open>NullFn\<close> stands for.  \<open>prev\<close> is set by the linking that follows.
\<close>

definition us_create_socket_context :: "env \<Rightarrow> heap \<Rightarrow> ptr \<Rightarrow> (ptr \<times> heap) option" where
  "us_create_socket_context E h l = do {
     let c = malloc_at E h;
     let h = h\<lparr>ctxs := (ctxs h)(c \<mapsto> \<lparr>c_loop = l, global_tick = 0, timestamp = 0, long_timestamp = 0,
       head_sockets = NULL, head_listen_sockets = NULL, c_iterator = NULL, c_prev = NULL, c_next = NULL,
       on_open = NullFn, on_data = NullFn, on_writable = NullFn, on_close = NullFn,
       on_socket_timeout = NullFn, on_socket_long_timeout = NullFn, on_end = NullFn,
       on_connect_error = NullFn, is_low_prio = default_is_low_prio_handler\<rparr>)\<rparr>;
     h \<leftarrow> us_internal_loop_link h l c;
     Some (c, h) }"

definition us_create_child_socket_context :: "env \<Rightarrow> heap \<Rightarrow> ptr \<Rightarrow> (ptr \<times> heap) option" where
  "us_create_child_socket_context E h c = do {
     y \<leftarrow> ctxs h c;
     us_create_socket_context E h (c_loop y) }"

definition us_socket_context_free :: "heap \<Rightarrow> ptr \<Rightarrow> heap option" where
  "us_socket_context_free h c = do {
     y \<leftarrow> ctxs h c;
     h \<leftarrow> us_internal_loop_unlink h (c_loop y) c;
     Some (free_obj h c) }"

subsection \<open>Handlers\<close>

definition us_socket_context_on_open :: "heap \<Rightarrow> ptr \<Rightarrow> fnptr \<Rightarrow> heap option" where
  "us_socket_context_on_open h c f = set_ctx h c (\<lambda>y. y\<lparr>on_open := f\<rparr>)"

definition us_socket_context_on_close :: "heap \<Rightarrow> ptr \<Rightarrow> fnptr \<Rightarrow> heap option" where
  "us_socket_context_on_close h c f = set_ctx h c (\<lambda>y. y\<lparr>on_close := f\<rparr>)"

definition us_socket_context_on_data :: "heap \<Rightarrow> ptr \<Rightarrow> fnptr \<Rightarrow> heap option" where
  "us_socket_context_on_data h c f = set_ctx h c (\<lambda>y. y\<lparr>on_data := f\<rparr>)"

definition us_socket_context_on_writable :: "heap \<Rightarrow> ptr \<Rightarrow> fnptr \<Rightarrow> heap option" where
  "us_socket_context_on_writable h c f = set_ctx h c (\<lambda>y. y\<lparr>on_writable := f\<rparr>)"

definition us_socket_context_on_long_timeout :: "heap \<Rightarrow> ptr \<Rightarrow> fnptr \<Rightarrow> heap option" where
  "us_socket_context_on_long_timeout h c f = set_ctx h c (\<lambda>y. y\<lparr>on_socket_long_timeout := f\<rparr>)"

definition us_socket_context_on_timeout :: "heap \<Rightarrow> ptr \<Rightarrow> fnptr \<Rightarrow> heap option" where
  "us_socket_context_on_timeout h c f = set_ctx h c (\<lambda>y. y\<lparr>on_socket_timeout := f\<rparr>)"

definition us_socket_context_on_end :: "heap \<Rightarrow> ptr \<Rightarrow> fnptr \<Rightarrow> heap option" where
  "us_socket_context_on_end h c f = set_ctx h c (\<lambda>y. y\<lparr>on_end := f\<rparr>)"

definition us_socket_context_on_connect_error :: "heap \<Rightarrow> ptr \<Rightarrow> fnptr \<Rightarrow> heap option" where
  "us_socket_context_on_connect_error h c f = set_ctx h c (\<lambda>y. y\<lparr>on_connect_error := f\<rparr>)"

subsection \<open>Listening and connecting\<close>

text \<open>
  The common part of \<open>us_socket_context_listen\<close> and \<open>us_socket_context_listen_unix\<close>, from the
  descriptor on.  The socket fields that \<open>malloc\<close> leaves uninitialised (\<open>prev\<close>) are written by the
  linking before anything reads them.
\<close>

definition start_listen_socket :: "env \<Rightarrow> heap \<Rightarrow> ptr \<Rightarrow> int \<Rightarrow> u32 \<Rightarrow> (ptr \<times> heap) option" where
  "start_listen_socket E h c listen_socket_fd ext = do {
     y \<leftarrow> ctxs h c;
     (p, h) \<leftarrow> us_create_poll E h (c_loop y) 0;
     h \<leftarrow> us_poll_init h p listen_socket_fd POLL_TYPE_SEMI_SOCKET;
     h \<leftarrow> us_poll_start E h p (c_loop y) (LIBUS_SOCKET_READABLE (be E));
     let h = h\<lparr>socks := (socks h)(p \<mapsto> \<lparr>timeout = 255, long_timeout = 255, low_prio_state = 0,
       s_context = c, s_prev = NULL, s_next = NULL\<rparr>)\<rparr>;
     h \<leftarrow> us_internal_socket_context_link_listen_socket h c p;
     Some (p, h\<lparr>listens := (listens h)(p \<mapsto> \<lparr>socket_ext_size = ext\<rparr>)\<rparr>) }"

definition us_socket_context_listen ::
  "env \<Rightarrow> heap \<Rightarrow> ptr \<Rightarrow> string option \<Rightarrow> int \<Rightarrow> int \<Rightarrow> u32 \<Rightarrow> (ptr \<times> heap) option" where
  "us_socket_context_listen E h c host port options ext = do {
     (listen_socket_fd, h) \<leftarrow> bsd_create_listen_socket E h host port options;
     if listen_socket_fd = LIBUS_SOCKET_ERROR then Some (NULL, h)
     else start_listen_socket E h c listen_socket_fd ext }"

definition us_socket_context_listen_unix ::
  "env \<Rightarrow> heap \<Rightarrow> ptr \<Rightarrow> string \<Rightarrow> int \<Rightarrow> u32 \<Rightarrow> (ptr \<times> heap) option" where
  "us_socket_context_listen_unix E h c path options ext = do {
     (listen_socket_fd, h) \<leftarrow> bsd_create_listen_socket_unix E h path options;
     if listen_socket_fd = LIBUS_SOCKET_ERROR then Some (NULL, h)
     else start_listen_socket E h c listen_socket_fd ext }"

text \<open>The common part of the two ways to connect.\<close>

definition start_connect_socket :: "env \<Rightarrow> heap \<Rightarrow> ptr \<Rightarrow> int \<Rightarrow> (ptr \<times> heap) option" where
  "start_connect_socket E h c connect_socket_fd = do {
     y \<leftarrow> ctxs h c;
     (p, h) \<leftarrow> us_create_poll E h (c_loop y) 0;
     h \<leftarrow> us_poll_init h p connect_socket_fd POLL_TYPE_SEMI_SOCKET;
     h \<leftarrow> us_poll_start E h p (c_loop y) (LIBUS_SOCKET_WRITABLE (be E));
     let h = h\<lparr>socks := (socks h)(p \<mapsto> \<lparr>timeout = 255, long_timeout = 255, low_prio_state = 0,
       s_context = c, s_prev = NULL, s_next = NULL\<rparr>)\<rparr>;
     h \<leftarrow> us_internal_socket_context_link_socket h c p;
     Some (p, h) }"

definition us_socket_context_connect ::
  "env \<Rightarrow> heap \<Rightarrow> ptr \<Rightarrow> string option \<Rightarrow> int \<Rightarrow> string option \<Rightarrow> int \<Rightarrow> (ptr \<times> heap) option" where
  "us_socket_context_connect E h c host port source_host options = do {
     (connect_socket_fd, h) \<leftarrow> bsd_create_connect_socket E h host port source_host options;
     if connect_socket_fd = LIBUS_SOCKET_ERROR then Some (NULL, h)
     else start_connect_socket E h c connect_socket_fd }"

definition us_socket_context_connect_unix ::
  "env \<Rightarrow> heap \<Rightarrow> ptr \<Rightarrow> string \<Rightarrow> int \<Rightarrow> (ptr \<times> heap) option" where
  "us_socket_context_connect_unix E h c server_path options = do {
     (connect_socket_fd, h) \<leftarrow> bsd_create_connect_socket_unix E h server_path options;
     if connect_socket_fd = LIBUS_SOCKET_ERROR then Some (NULL, h)
     else start_connect_socket E h c connect_socket_fd }"

subsection \<open>Adopting\<close>

definition us_socket_context_adopt_socket :: "env \<Rightarrow> heap \<Rightarrow> ptr \<Rightarrow> ptr \<Rightarrow> (ptr \<times> heap) option" where
  "us_socket_context_adopt_socket E h c s = do {
     x \<leftarrow> socks h s;
     if us_socket_is_closed x then Some (s, h)
     else do {
       h \<leftarrow> (if low_prio_state x \<noteq> 1 then us_internal_socket_context_unlink_socket h (s_context x) s
             else Some h);
       y \<leftarrow> ctxs h (s_context x);
       (new_s, h) \<leftarrow> us_poll_resize E h s (c_loop y);
       h \<leftarrow> set_sock h new_s (\<lambda>x. x\<lparr>timeout := 255\<rparr>);
       h \<leftarrow> set_sock h new_s (\<lambda>x. x\<lparr>long_timeout := 255\<rparr>);
       x \<leftarrow> socks h new_s;
       h \<leftarrow> (if low_prio_state x = 1 then do {
               h \<leftarrow> (if s_prev x = NULL then do {
                       y \<leftarrow> ctxs h (s_context x);
                       set_loop h (c_loop y) (\<lambda>z. z\<lparr>low_prio_head := new_s\<rparr>) }
                     else set_sock h (s_prev x) (\<lambda>w. w\<lparr>s_next := new_s\<rparr>));
               x \<leftarrow> socks h new_s;
               if s_next x \<noteq> NULL then set_sock h (s_next x) (\<lambda>w. w\<lparr>s_prev := new_s\<rparr>) else Some h }
             else us_internal_socket_context_link_socket h c new_s);
       Some (new_s, h) } }"

subsection \<open>Closing\<close>

definition us_listen_socket_close :: "env \<Rightarrow> heap \<Rightarrow> ptr \<Rightarrow> heap option" where
  "us_listen_socket_close E h ls = do {
     x \<leftarrow> socks h ls;
     if us_socket_is_closed x then Some h
     else do {
       h \<leftarrow> us_internal_socket_context_unlink_listen_socket h (s_context x) ls;
       close_list_push E h ls } }"

text \<open>
  The loops of \<open>us_socket_context_close\<close> read the successor before they close a socket.  The second
  one runs user code and is given as a partial function: a run that does not end is \<open>None\<close>.
\<close>

partial_function (option) close_listen_sockets :: "env \<Rightarrow> heap \<Rightarrow> ptr \<Rightarrow> heap option" where
  "close_listen_sockets E h ls =
     (if ls = NULL then Some h
      else do {
        x \<leftarrow> socks h ls;
        h \<leftarrow> us_listen_socket_close E h ls;
        close_listen_sockets E h (s_next x) })"

partial_function (option) close_sockets :: "env \<Rightarrow> heap \<Rightarrow> ptr \<Rightarrow> heap option" where
  "close_sockets E h s =
     (if s = NULL then Some h
      else do {
        x \<leftarrow> socks h s;
        r \<leftarrow> us_socket_close E h s 0 NULL;
        close_sockets E (snd r) (s_next x) })"

definition us_socket_context_close :: "env \<Rightarrow> heap \<Rightarrow> ptr \<Rightarrow> heap option" where
  "us_socket_context_close E h c = do {
     y \<leftarrow> ctxs h c;
     h \<leftarrow> close_listen_sockets E h (head_listen_sockets y);
     y \<leftarrow> ctxs h c;
     close_sockets E h (head_sockets y) }"

end
