(* ===== verification/Loop.thy ===== *)
theory Loop
  imports Context
begin

text \<open>
  The event loop: \<open>loop.c\<close> and the loop functions of \<open>eventing/epoll_kqueue.c\<close>.  A loop of the
  code that calls user code, or follows a list, is a partial function: a run that does not end is
  \<open>None\<close>, as a fault is, so a theorem that a result is \<open>Some\<close> is one of termination as well.
\<close>

subsection \<open>Creating and freeing a loop\<close>

definition us_internal_loop_data_init ::
  "env \<Rightarrow> heap \<Rightarrow> ptr \<Rightarrow> fnptr \<Rightarrow> fnptr \<Rightarrow> fnptr \<Rightarrow> heap option" where
  "us_internal_loop_data_init E h l wakeup_cb pre post = do {
     (t, h) \<leftarrow> us_create_timer E h l 1;
     h \<leftarrow> set_loop h l (\<lambda>z. z\<lparr>sweep_timer := t, recv_buf := [], ssl_data := NULL, l_head := NULL,
       l_iterator := NULL, closed_head := NULL, low_prio_head := NULL, low_prio_budget := 0,
       pre_cb := pre, post_cb := post, iteration_nr := 0\<rparr>);
     (a, h) \<leftarrow> us_internal_create_async E h l 1;
     h \<leftarrow> set_loop h l (\<lambda>z. z\<lparr>wakeup_async := a\<rparr>);
     us_internal_async_set E h a wakeup_cb }"

text \<open>
  What \<open>malloc\<close> leaves uninitialised until \<open>us_internal_loop_data_init\<close> is null here;
  \<open>last_write_failed\<close> is not initialised there, but written before it is read
  (\<open>us_internal_dispatch_ready_poll\<close>).
\<close>

definition us_create_loop :: "env \<Rightarrow> heap \<Rightarrow> fnptr \<Rightarrow> fnptr \<Rightarrow> fnptr \<Rightarrow> (ptr \<times> heap) option" where
  "us_create_loop E h wakeup_cb pre post =
     (let l = malloc_at E h;
          c = (case be E of Epoll \<Rightarrow> EpollCreate | Kqueue_backend \<Rightarrow> Kqueue);
          (f, h) = sys E h c;
          h = h\<lparr>loops := (loops h)(l \<mapsto> \<lparr>sweep_timer = NULL, wakeup_async = NULL, last_write_failed = 0,
            l_head = NULL, l_iterator = NULL, recv_buf = [], ssl_data = NULL, pre_cb = NullFn,
            post_cb = NullFn, closed_head = NULL, low_prio_head = NULL, low_prio_budget = 0,
            iteration_nr = 0, num_polls = 0, num_ready_polls = 0, current_ready_poll = 0, l_fd = f,
            ready_polls = []\<rparr>)\<rparr>
      in do {
        h \<leftarrow> us_internal_loop_data_init E h l wakeup_cb pre post;
        Some (l, h) })"

text \<open>The SSL data of a loop exists only when an SSL context was created on it (\<open>openssl.c\<close>).\<close>

definition us_internal_loop_data_free :: "env \<Rightarrow> heap \<Rightarrow> ptr \<Rightarrow> heap option" where
  "us_internal_loop_data_free E h l = do {
     h \<leftarrow> set_loop h l (\<lambda>z. z\<lparr>recv_buf := []\<rparr>);
     lp \<leftarrow> loops h l;
     h \<leftarrow> us_timer_close E h (sweep_timer lp);
     us_internal_async_close E h (wakeup_async lp) }"

definition us_loop_free :: "env \<Rightarrow> heap \<Rightarrow> ptr \<Rightarrow> heap option" where
  "us_loop_free E h l = do {
     h \<leftarrow> us_internal_loop_data_free E h l;
     lp \<leftarrow> loops h l;
     Some (free_obj (do_sys h (Close (l_fd lp))) l) }"

definition us_wakeup_loop :: "env \<Rightarrow> heap \<Rightarrow> ptr \<Rightarrow> heap option" where
  "us_wakeup_loop E h l = do { lp \<leftarrow> loops h l; us_internal_async_wakeup E h (wakeup_async lp) }"

definition us_loop_iteration_number :: "heap \<Rightarrow> ptr \<Rightarrow> int option" where
  "us_loop_iteration_number h l = map_option (\<lambda>lp. sint (iteration_nr lp)) (loops h l)"

definition LIBUS_TIMEOUT_GRANULARITY :: int where [simp]: "LIBUS_TIMEOUT_GRANULARITY = 4"

definition us_loop_integrate :: "env \<Rightarrow> heap \<Rightarrow> ptr \<Rightarrow> heap option" where
  "us_loop_integrate E h l = do {
     lp \<leftarrow> loops h l;
     us_timer_set E h (sweep_timer lp) SweepTimerCb (LIBUS_TIMEOUT_GRANULARITY * 1000)
       (LIBUS_TIMEOUT_GRANULARITY * 1000) }"

subsection \<open>The timer sweep\<close>

text \<open>The tightest loop: the first socket from \<open>s\<close> on whose timeout is due, or null.\<close>

partial_function (option) sweep_seek :: "heap \<Rightarrow> u8 \<Rightarrow> u8 \<Rightarrow> ptr \<Rightarrow> ptr option" where
  "sweep_seek h short_ticks long_ticks s = do {
     x \<leftarrow> socks h s;
     if short_ticks = timeout x \<or> long_ticks = long_timeout x then Some s
     else if s_next x = NULL then Some NULL
     else sweep_seek h short_ticks long_ticks (s_next x) }"

text \<open>Emitting the timeouts of one socket.\<close>

definition sweep_emit :: "env \<Rightarrow> heap \<Rightarrow> ptr \<Rightarrow> u8 \<Rightarrow> u8 \<Rightarrow> ptr \<Rightarrow> heap option" where
  "sweep_emit E h c short_ticks long_ticks s = do {
     h \<leftarrow> set_ctx h c (\<lambda>y. y\<lparr>c_iterator := s\<rparr>);
     x \<leftarrow> socks h s;
     h \<leftarrow> (if short_ticks = timeout x then do {
             h \<leftarrow> set_sock h s (\<lambda>x. x\<lparr>timeout := 255\<rparr>);
             y \<leftarrow> ctxs h c;
             r \<leftarrow> call_fn E (on_socket_timeout y) (OnTimeout s) h;
             Some (snd r) }
           else Some h);
     y \<leftarrow> ctxs h c;
     if c_iterator y = s then do {
       x \<leftarrow> socks h s;
       if long_ticks = long_timeout x then do {
         h \<leftarrow> set_sock h s (\<lambda>x. x\<lparr>long_timeout := 255\<rparr>);
         y \<leftarrow> ctxs h c;
         r \<leftarrow> call_fn E (on_socket_long_timeout y) (OnLongTimeout s) h;
         Some (snd r) }
       else Some h }
     else Some h }"

partial_function (option) sweep_sockets ::
  "env \<Rightarrow> heap \<Rightarrow> ptr \<Rightarrow> u8 \<Rightarrow> u8 \<Rightarrow> ptr \<Rightarrow> heap option" where
  "sweep_sockets E h c short_ticks long_ticks s =
     (if s = NULL then Some h
      else do {
        s \<leftarrow> sweep_seek h short_ticks long_ticks s;
        if s = NULL then Some h
        else do {
          h \<leftarrow> sweep_emit E h c short_ticks long_ticks s;
          y \<leftarrow> ctxs h c;
          if s = c_iterator y then do {
            x \<leftarrow> socks h s;
            sweep_sockets E h c short_ticks long_ticks (s_next x) }
          else sweep_sockets E h c short_ticks long_ticks (c_iterator y) } })"

text \<open>One context: its clock advances by one tick, then its sockets are swept.\<close>

definition sweep_tick :: "us_socket_context_t \<Rightarrow> us_socket_context_t" where
  "sweep_tick y = (let t = global_tick y + 1 in
     y\<lparr>global_tick := t, timestamp := ucast (t mod 240), long_timestamp := ucast ((t div 15) mod 240)\<rparr>)"

definition sweep_context :: "env \<Rightarrow> heap \<Rightarrow> ptr \<Rightarrow> heap option" where
  "sweep_context E h c = do {
     h \<leftarrow> set_ctx h c sweep_tick;
     y \<leftarrow> ctxs h c;
     h \<leftarrow> sweep_sockets E h c (timestamp y) (long_timestamp y) (head_sockets y);
     set_ctx h c (\<lambda>y. y\<lparr>c_iterator := NULL\<rparr>) }"

partial_function (option) sweep_contexts :: "env \<Rightarrow> heap \<Rightarrow> ptr \<Rightarrow> heap option" where
  "sweep_contexts E h l = do {
     lp \<leftarrow> loops h l;
     if l_iterator lp = NULL then Some h
     else do {
       h \<leftarrow> sweep_context E h (l_iterator lp);
       lp \<leftarrow> loops h l;
       y \<leftarrow> ctxs h (l_iterator lp);
       h \<leftarrow> set_loop h l (\<lambda>z. z\<lparr>l_iterator := c_next y\<rparr>);
       sweep_contexts E h l } }"

definition us_internal_timer_sweep :: "env \<Rightarrow> heap \<Rightarrow> ptr \<Rightarrow> heap option" where
  "us_internal_timer_sweep E h l = do {
     h \<leftarrow> set_loop h l (\<lambda>z. z\<lparr>l_iterator := l_head z\<rparr>);
     sweep_contexts E h l }"

definition sweep_timer_cb :: "env \<Rightarrow> heap \<Rightarrow> ptr \<Rightarrow> heap option" where
  "sweep_timer_cb E h t = do { cb \<leftarrow> cbs h t; us_internal_timer_sweep E h (cb_loop cb) }"

subsection \<open>Low-priority sockets and closed sockets\<close>

definition MAX_LOW_PRIO_SOCKETS_PER_LOOP_ITERATION :: int where [simp]:
  "MAX_LOW_PRIO_SOCKETS_PER_LOOP_ITERATION = 5"

definition low_prio_take :: "env \<Rightarrow> heap \<Rightarrow> ptr \<Rightarrow> ptr \<Rightarrow> heap option" where
  "low_prio_take E h l s = do {
     x \<leftarrow> socks h s;
     h \<leftarrow> set_loop h l (\<lambda>z. z\<lparr>low_prio_head := s_next x\<rparr>);
     h \<leftarrow> (if s_next x \<noteq> NULL then set_sock h (s_next x) (\<lambda>w. w\<lparr>s_prev := NULL\<rparr>) else Some h);
     h \<leftarrow> set_sock h s (\<lambda>x. x\<lparr>s_next := NULL\<rparr>);
     h \<leftarrow> us_internal_socket_context_link_socket h (s_context x) s;
     x \<leftarrow> socks h s;
     y \<leftarrow> ctxs h (s_context x);
     p \<leftarrow> polls h s;
     h \<leftarrow> us_poll_change E h s (c_loop y) (us_poll_events (be E) p OR LIBUS_SOCKET_READABLE (be E));
     set_sock h s (\<lambda>x. x\<lparr>low_prio_state := 2\<rparr>) }"

partial_function (option) low_prio_loop :: "env \<Rightarrow> heap \<Rightarrow> ptr \<Rightarrow> heap option" where
  "low_prio_loop E h l = do {
     lp \<leftarrow> loops h l;
     if low_prio_head lp \<noteq> NULL \<and> low_prio_budget lp > 0 then do {
       h \<leftarrow> low_prio_take E h l (low_prio_head lp);
       h \<leftarrow> set_loop h l (\<lambda>z. z\<lparr>low_prio_budget := low_prio_budget z - 1\<rparr>);
       low_prio_loop E h l }
     else Some h }"

definition us_internal_handle_low_priority_sockets :: "env \<Rightarrow> heap \<Rightarrow> ptr \<Rightarrow> heap option" where
  "us_internal_handle_low_priority_sockets E h l = do {
     h \<leftarrow> set_loop h l (\<lambda>z. z\<lparr>low_prio_budget := MAX_LOW_PRIO_SOCKETS_PER_LOOP_ITERATION\<rparr>);
     low_prio_loop E h l }"

partial_function (option) free_sockets :: "heap \<Rightarrow> ptr \<Rightarrow> ptr \<Rightarrow> heap option" where
  "free_sockets h l s =
     (if s = NULL then Some h
      else do {
        x \<leftarrow> socks h s;
        h \<leftarrow> us_poll_free h s l;
        free_sockets h l (s_next x) })"

definition us_internal_free_closed_sockets :: "heap \<Rightarrow> ptr \<Rightarrow> heap option" where
  "us_internal_free_closed_sockets h l = do {
     lp \<leftarrow> loops h l;
     if closed_head lp \<noteq> NULL then do {
       h \<leftarrow> free_sockets h l (closed_head lp);
       set_loop h l (\<lambda>z. z\<lparr>closed_head := NULL\<rparr>) }
     else Some h }"

subsection \<open>Dispatching a ready poll\<close>

definition dispatch_callback :: "env \<Rightarrow> heap \<Rightarrow> ptr \<Rightarrow> heap option" where
  "dispatch_callback E h p = do {
     cb \<leftarrow> cbs h p;
     h \<leftarrow> (if leave_poll_ready cb = 0 then us_internal_accept_poll_event E h p else Some h);
     if cb_cb cb = SweepTimerCb then sweep_timer_cb E h p
     else do {
       r \<leftarrow> call_fn E (cb_cb cb)
         (if cb_expects_the_loop cb \<noteq> 0 then LoopCb (cb_loop cb) else PollCb p) h;
       Some (snd r) } }"

definition dispatch_connect :: "env \<Rightarrow> heap \<Rightarrow> ptr \<Rightarrow> bool \<Rightarrow> heap option" where
  "dispatch_connect E h s error = do {
     x \<leftarrow> socks h s;
     y \<leftarrow> ctxs h (s_context x);
     if error then do {
       r \<leftarrow> call_fn E (on_connect_error y) (OnConnectError s 0) h;
       r \<leftarrow> us_socket_close_connecting E (snd r) s;
       Some (snd r) }
     else do {
       h \<leftarrow> us_poll_change E h s (c_loop y) (LIBUS_SOCKET_READABLE (be E));
       p \<leftarrow> polls h s;
       let h = bsd_socket_nodelay h (us_poll_fd p) 1;
       h \<leftarrow> us_internal_poll_set_type h s POLL_TYPE_SOCKET;
       h \<leftarrow> us_socket_timeout h s 0;
       r \<leftarrow> call_fn E (on_open y) (OnOpen s 1 []) h;
       Some (snd r) } }"

text \<open>One accepted connection: a new socket, linked into the context of the listen socket.\<close>

definition accept_one :: "env \<Rightarrow> heap \<Rightarrow> ptr \<Rightarrow> int \<Rightarrow> bsd_addr_t \<Rightarrow> heap option" where
  "accept_one E h ls client_fd addr = do {
     x \<leftarrow> socks h ls;
     y \<leftarrow> ctxs h (s_context x);
     (p, h) \<leftarrow> us_create_poll E h (c_loop y) 0;
     h \<leftarrow> us_poll_init h p client_fd POLL_TYPE_SOCKET;
     h \<leftarrow> us_poll_start E h p (c_loop y) (LIBUS_SOCKET_READABLE (be E));
     let h = h\<lparr>socks := (socks h)(p \<mapsto> \<lparr>timeout = 255, long_timeout = 255, low_prio_state = 0,
       s_context = s_context x, s_prev = NULL, s_next = NULL\<rparr>)\<rparr>;
     let h = bsd_socket_nodelay h client_fd 1;
     h \<leftarrow> us_internal_socket_context_link_socket h (s_context x) p;
     y \<leftarrow> ctxs h (s_context x);
     r \<leftarrow> call_fn E (on_open y) (OnOpen p 0 (bsd_addr_bytes addr)) h;
     Some (snd r) }"

partial_function (option) accept_loop ::
  "env \<Rightarrow> heap \<Rightarrow> ptr \<Rightarrow> int \<Rightarrow> bsd_addr_t \<Rightarrow> heap option" where
  "accept_loop E h ls client_fd addr = do {
     h \<leftarrow> accept_one E h ls client_fd addr;
     x \<leftarrow> socks h ls;
     if us_socket_is_closed x then Some h
     else do {
       p \<leftarrow> polls h ls;
       (case bsd_accept_socket E h (us_poll_fd p) of
          (None, h) \<Rightarrow> Some h
        | (Some r, h) \<Rightarrow> accept_loop E h ls (fst r) (snd r)) } }"

definition dispatch_listen :: "env \<Rightarrow> heap \<Rightarrow> ptr \<Rightarrow> heap option" where
  "dispatch_listen E h ls = do {
     p \<leftarrow> polls h ls;
     _ \<leftarrow> listens h ls;
     (case bsd_accept_socket E h (us_poll_fd p) of
        (None, h) \<Rightarrow> Some h
      | (Some r, h) \<Rightarrow> accept_loop E h ls (fst r) (snd r)) }"

text \<open>Writable: the socket to go on with, or \<open>None\<close> when it was closed.\<close>

definition dispatch_writable :: "env \<Rightarrow> heap \<Rightarrow> ptr \<Rightarrow> (ptr option \<times> heap) option" where
  "dispatch_writable E h s = do {
     x \<leftarrow> socks h s;
     y \<leftarrow> ctxs h (s_context x);
     h \<leftarrow> set_loop h (c_loop y) (\<lambda>z. z\<lparr>last_write_failed := 0\<rparr>);
     (s, h) \<leftarrow> call_fn E (on_writable y) (OnWritable s) h;
     x \<leftarrow> socks h s;
     if us_socket_is_closed x then Some (None, h)
     else do {
       y \<leftarrow> ctxs h (s_context x);
       lp \<leftarrow> loops h (c_loop y);
       p \<leftarrow> polls h s;
       h \<leftarrow> (if last_write_failed lp = 0 \<or> us_socket_is_shut_down p
             then us_poll_change E h s (c_loop y)
               (us_poll_events (be E) p AND LIBUS_SOCKET_READABLE (be E))
             else Some h);
       Some (Some s, h) } }"

text \<open>Pushing a socket on the low-priority queue instead of reading from it.\<close>

definition low_prio_push :: "env \<Rightarrow> heap \<Rightarrow> ptr \<Rightarrow> heap option" where
  "low_prio_push E h s = do {
     x \<leftarrow> socks h s;
     y \<leftarrow> ctxs h (s_context x);
     p \<leftarrow> polls h s;
     h \<leftarrow> us_poll_change E h s (c_loop y) (us_poll_events (be E) p AND LIBUS_SOCKET_WRITABLE (be E));
     h \<leftarrow> us_internal_socket_context_unlink_socket h (s_context x) s;
     h \<leftarrow> set_sock h s (\<lambda>x. x\<lparr>s_prev := NULL\<rparr>);
     lp \<leftarrow> loops h (c_loop y);
     h \<leftarrow> set_sock h s (\<lambda>x. x\<lparr>s_next := low_prio_head lp\<rparr>);
     h \<leftarrow> (if low_prio_head lp \<noteq> NULL
           then set_sock h (low_prio_head lp) (\<lambda>w. w\<lparr>s_prev := s\<rparr>) else Some h);
     h \<leftarrow> set_loop h (c_loop y) (\<lambda>z. z\<lparr>low_prio_head := s\<rparr>);
     set_sock h s (\<lambda>x. x\<lparr>low_prio_state := 1\<rparr>) }"

text \<open>The decision on a readable socket: whether to read from it now.\<close>

definition low_prio_decide :: "env \<Rightarrow> heap \<Rightarrow> ptr \<Rightarrow> (bool \<times> heap) option" where
  "low_prio_decide E h s = do {
     x \<leftarrow> socks h s;
     y \<leftarrow> ctxs h (s_context x);
     (low, h) \<leftarrow> call_fn E (is_low_prio y) (IsLowPrio s) h;
     if low \<noteq> 0 then do {
       x \<leftarrow> socks h s;
       y \<leftarrow> ctxs h (s_context x);
       lp \<leftarrow> loops h (c_loop y);
       if low_prio_state x = 2 then do {
         h \<leftarrow> set_sock h s (\<lambda>x. x\<lparr>low_prio_state := 0\<rparr>);
         Some (True, h) }
       else if low_prio_budget lp > 0 then do {
         h \<leftarrow> set_loop h (c_loop y) (\<lambda>z. z\<lparr>low_prio_budget := low_prio_budget z - 1\<rparr>);
         Some (True, h) }
       else do {
         h \<leftarrow> low_prio_push E h s;
         Some (False, h) } }
     else Some (True, h) }"

definition LIBUS_RECV_BUFFER_LENGTH :: nat where [simp]: "LIBUS_RECV_BUFFER_LENGTH = 524288"

text \<open>Reading: data, the end of the stream, an error, or nothing yet.\<close>

definition dispatch_read :: "env \<Rightarrow> heap \<Rightarrow> ptr \<Rightarrow> heap option" where
  "dispatch_read E h s = do {
     p \<leftarrow> polls h s;
     x \<leftarrow> socks h s;
     y \<leftarrow> ctxs h (s_context x);
     let (n, bs, h) = bsd_recv E h (us_poll_fd p) LIBUS_RECV_BUFFER_LENGTH 0;
     h \<leftarrow> set_loop h (c_loop y) (\<lambda>z. z\<lparr>recv_buf := bs\<rparr>);
     if n > 0 then do {
       r \<leftarrow> call_fn E (on_data y) (OnData s bs) h;
       Some (snd r) }
     else if n = 0 then
       (if us_socket_is_shut_down p then do {
          r \<leftarrow> us_socket_close E h s 0 NULL;
          Some (snd r) }
        else do {
          h \<leftarrow> us_poll_change E h s (c_loop y)
            (us_poll_events (be E) p AND LIBUS_SOCKET_WRITABLE (be E));
          r \<leftarrow> call_fn E (on_end y) (OnEnd s) h;
          Some (snd r) })
     else if n = LIBUS_SOCKET_ERROR \<and> \<not> bsd_would_block E h then do {
       r \<leftarrow> us_socket_close E h s 0 NULL;
       Some (snd r) }
     else Some h }"

definition dispatch_socket :: "env \<Rightarrow> heap \<Rightarrow> ptr \<Rightarrow> bool \<Rightarrow> u32 \<Rightarrow> heap option" where
  "dispatch_socket E h s error events =
     (if error then do {
        r \<leftarrow> us_socket_close E h s 0 NULL;
        Some (snd r) }
      else do {
        (w, h) \<leftarrow> (if events AND LIBUS_SOCKET_WRITABLE (be E) \<noteq> 0
                  then dispatch_writable E h s else Some (Some s, h));
        (case w of None \<Rightarrow> Some h
         | Some s \<Rightarrow>
             (if events AND LIBUS_SOCKET_READABLE (be E) \<noteq> 0 then do {
                (go, h) \<leftarrow> low_prio_decide E h s;
                if go then dispatch_read E h s else Some h }
              else Some h)) })"

definition us_internal_dispatch_ready_poll :: "env \<Rightarrow> heap \<Rightarrow> ptr \<Rightarrow> bool \<Rightarrow> u32 \<Rightarrow> heap option" where
  "us_internal_dispatch_ready_poll E h p error events = do {
     x \<leftarrow> polls h p;
     if us_internal_poll_type x = POLL_TYPE_CALLBACK then dispatch_callback E h p
     else if us_internal_poll_type x = POLL_TYPE_SEMI_SOCKET then
       (if us_poll_events (be E) x = LIBUS_SOCKET_WRITABLE (be E)
        then dispatch_connect E h p error else dispatch_listen E h p)
     else dispatch_socket E h p error events }"

subsection \<open>Running the loop\<close>

definition call_loop_cb :: "env \<Rightarrow> fnptr \<Rightarrow> ptr \<Rightarrow> heap \<Rightarrow> heap option" where
  "call_loop_cb E f l h = do { r \<leftarrow> call_fn E f (LoopCb l) h; Some (snd r) }"

definition us_internal_loop_pre :: "env \<Rightarrow> heap \<Rightarrow> ptr \<Rightarrow> heap option" where
  "us_internal_loop_pre E h l = do {
     h \<leftarrow> set_loop h l (\<lambda>z. z\<lparr>iteration_nr := iteration_nr z + 1\<rparr>);
     h \<leftarrow> us_internal_handle_low_priority_sockets E h l;
     lp \<leftarrow> loops h l;
     call_loop_cb E (pre_cb lp) l h }"

definition us_internal_loop_post :: "env \<Rightarrow> heap \<Rightarrow> ptr \<Rightarrow> heap option" where
  "us_internal_loop_post E h l = do {
     h \<leftarrow> us_internal_free_closed_sockets h l;
     lp \<leftarrow> loops h l;
     call_loop_cb E (post_cb lp) l h }"

text \<open>Fetching the ready polls.\<close>

definition fetch_ready_polls :: "env \<Rightarrow> heap \<Rightarrow> ptr \<Rightarrow> heap option" where
  "fetch_ready_polls E h l = do {
     lp \<leftarrow> loops h l;
     let c = (case be E of Epoll \<Rightarrow> EpollWait (l_fd lp) 1024 | Kqueue_backend \<Rightarrow> KeventWait (l_fd lp) 1024);
     let rs = sys_ready E (trace h) c;
     let (n, h) = sys E h c;
     set_loop h l (\<lambda>z. z\<lparr>ready_polls := rs, num_ready_polls := n, current_ready_poll := 0\<rparr>) }"

text \<open>What the kernel reported for one entry: the events and whether there is an error.\<close>

definition ready_entry_events :: "backend \<Rightarrow> ready_event \<Rightarrow> u32" where
  "ready_entry_events b r = (case b of
       Epoll \<Rightarrow> re_events r
     | Kqueue_backend \<Rightarrow>
         (if re_filter r = EVFILT_WRITE then LIBUS_SOCKET_WRITABLE b else LIBUS_SOCKET_READABLE b))"

definition ready_entry_error :: "backend \<Rightarrow> ready_event \<Rightarrow> bool" where
  "ready_entry_error b r = (case b of
       Epoll \<Rightarrow> re_events r AND (8 OR 16) \<noteq> 0
     | Kqueue_backend \<Rightarrow> re_flags r AND (0x4000 OR 0x8000) \<noteq> 0)"

definition dispatch_entry :: "env \<Rightarrow> heap \<Rightarrow> ready_event \<Rightarrow> heap option" where
  "dispatch_entry E h r =
     (if re_poll r = NULL then Some h
      else do {
        x \<leftarrow> polls h (re_poll r);
        let events = ready_entry_events (be E) r AND us_poll_events (be E) x;
        let error = ready_entry_error (be E) r;
        if events \<noteq> 0 \<or> error then us_internal_dispatch_ready_poll E h (re_poll r) error events
        else Some h })"

partial_function (option) dispatch_ready_polls :: "env \<Rightarrow> heap \<Rightarrow> ptr \<Rightarrow> heap option" where
  "dispatch_ready_polls E h l = do {
     lp \<leftarrow> loops h l;
     if current_ready_poll lp < num_ready_polls lp then do {
       r \<leftarrow> (if 0 \<le> current_ready_poll lp \<and> nat (current_ready_poll lp) < length (ready_polls lp)
             then Some (ready_polls lp ! nat (current_ready_poll lp)) else None);
       h \<leftarrow> dispatch_entry E h r;
       h \<leftarrow> set_loop h l (\<lambda>z. z\<lparr>current_ready_poll := current_ready_poll z + 1\<rparr>);
       dispatch_ready_polls E h l }
     else Some h }"

text \<open>One turn of the loop, and the loop: it returns when no poll keeps it alive.\<close>

definition us_loop_turn :: "env \<Rightarrow> heap \<Rightarrow> ptr \<Rightarrow> heap option" where
  "us_loop_turn E h l = do {
     h \<leftarrow> us_internal_loop_pre E h l;
     h \<leftarrow> fetch_ready_polls E h l;
     h \<leftarrow> dispatch_ready_polls E h l;
     us_internal_loop_post E h l }"

partial_function (option) loop_turns :: "env \<Rightarrow> heap \<Rightarrow> ptr \<Rightarrow> heap option" where
  "loop_turns E h l = do {
     lp \<leftarrow> loops h l;
     if num_polls lp \<noteq> 0 then do {
       h \<leftarrow> us_loop_turn E h l;
       loop_turns E h l }
     else Some h }"

definition us_loop_run :: "env \<Rightarrow> heap \<Rightarrow> ptr \<Rightarrow> heap option" where
  "us_loop_run E h l = do {
     h \<leftarrow> us_loop_integrate E h l;
     loop_turns E h l }"

end
