(* ===== verification/Openssl.thy ===== *)
theory Openssl
  imports Loop
begin

text \<open>
  What \<open>crypto/openssl.c\<close> relies on of OpenSSL, and the BIO it gives to OpenSSL.

  OpenSSL is a parameter: what a call returns is a function of the history (\<open>tls_ret\<close>, \<open>tls_data\<close>).  A
  call that does input or output asks its BIO for it any number of times (\<open>tls_bio\<close>) before it
  returns; the BIO is the code's own and works on the TLS data of the loop, which all sockets of the
  loop share.  A call whose requests never end is \<open>None\<close>.
\<close>

subsection \<open>Plain calls\<close>

definition tls_do :: "heap \<Rightarrow> ssl_call \<Rightarrow> heap" where
  "tls_do h c = h\<lparr>trace := trace h @ [Tls c]\<rparr>"

definition tls :: "env \<Rightarrow> heap \<Rightarrow> ssl_call \<Rightarrow> int \<times> heap" where
  "tls E h c = (tls_ret E (trace h) c, tls_do h c)"

definition set_data :: "heap \<Rightarrow> ptr \<Rightarrow> (loop_ssl_data \<Rightarrow> loop_ssl_data) \<Rightarrow> heap option" where
  "set_data h d f = do { x \<leftarrow> ssl_datas h d; Some (h\<lparr>ssl_datas := (ssl_datas h)(d \<mapsto> f x)\<rparr>) }"

definition set_ssl_sock ::
  "heap \<Rightarrow> ptr \<Rightarrow> (us_internal_ssl_socket_t \<Rightarrow> us_internal_ssl_socket_t) \<Rightarrow> heap option" where
  "set_ssl_sock h s f = do { x \<leftarrow> ssl_socks h s; Some (h\<lparr>ssl_socks := (ssl_socks h)(s \<mapsto> f x)\<rparr>) }"

definition set_ssl_ctx ::
  "heap \<Rightarrow> ptr \<Rightarrow> (us_internal_ssl_socket_context_t \<Rightarrow> us_internal_ssl_socket_context_t) \<Rightarrow> heap option" where
  "set_ssl_ctx h c f = do { x \<leftarrow> ssl_ctxs h c; Some (h\<lparr>ssl_ctxs := (ssl_ctxs h)(c \<mapsto> f x)\<rparr>) }"

lemmas [step] = set_data_def set_ssl_sock_def set_ssl_ctx_def tls_do_def

text \<open>Constants of \<open>openssl/ssl.h\<close>.\<close>

definition SSL_ERROR_SSL :: int where [simp]: "SSL_ERROR_SSL = 1"
definition SSL_ERROR_WANT_READ :: int where [simp]: "SSL_ERROR_WANT_READ = 2"
definition SSL_ERROR_WANT_WRITE :: int where [simp]: "SSL_ERROR_WANT_WRITE = 3"
definition SSL_ERROR_SYSCALL :: int where [simp]: "SSL_ERROR_SYSCALL = 5"
definition SSL_SENT_SHUTDOWN :: int where [simp]: "SSL_SENT_SHUTDOWN = 1"
definition SSL_RECEIVED_SHUTDOWN :: int where [simp]: "SSL_RECEIVED_SHUTDOWN = 2"
definition SSL_MODE_ACCEPT_MOVING_WRITE_BUFFER :: int where [simp]: "SSL_MODE_ACCEPT_MOVING_WRITE_BUFFER = 2"
definition SSL_MODE_RELEASE_BUFFERS :: int where [simp]: "SSL_MODE_RELEASE_BUFFERS = 16"
definition TLS1_2_VERSION :: int where [simp]: "TLS1_2_VERSION = 0x303"
definition SSL_VERIFY_PEER :: int where [simp]: "SSL_VERIFY_PEER = 1"
definition SSL_TLSEXT_ERR_OK :: int where [simp]: "SSL_TLSEXT_ERR_OK = 0"
definition SSL_TLSEXT_ERR_NOACK :: int where [simp]: "SSL_TLSEXT_ERR_NOACK = 3"
definition BIO_CTRL_FLUSH :: int where [simp]: "BIO_CTRL_FLUSH = 11"

subsection \<open>The callbacks given to OpenSSL\<close>

text \<open>
  The passphrase is copied into OpenSSL's buffer of \<open>buf_size\<close> bytes whatever its length; a longer one
  overruns the buffer.
\<close>

definition passphrase_cb :: "nat \<Rightarrow> u8 list \<Rightarrow> (u8 list \<times> int) option" where
  "passphrase_cb buf_size passphrase =
    (if length passphrase \<le> buf_size then Some (passphrase, int (length passphrase)) else None)"

text \<open>The init flag of the BIO and the result.\<close>

definition BIO_s_custom_create :: "int \<times> int" where
  "BIO_s_custom_create = (1, 1)"

definition BIO_s_custom_ctrl :: "int \<Rightarrow> int" where
  "BIO_s_custom_ctrl cmd = (if cmd = BIO_CTRL_FLUSH then 1 else 0)"

definition BIO_s_custom_write :: "env \<Rightarrow> heap \<Rightarrow> ptr \<Rightarrow> u8 list \<Rightarrow> (bio_answer \<times> heap) option" where
  "BIO_s_custom_write E h d data = do {
     h \<leftarrow> set_data h d (\<lambda>x. x\<lparr>last_write_was_msg_more :=
            if ssl_msg_more x \<noteq> 0 \<or> length data = 16413 then 1 else 0\<rparr>);
     x \<leftarrow> ssl_datas h d;
     (written, h) \<leftarrow> us_socket_write E h (ssl_socket x) data (last_write_was_msg_more x);
     Some (if written = 0 then BioRetryWrite else BioWrote written, h) }"

text \<open>Copying beyond the end of the input is a fault.\<close>

definition BIO_s_custom_read :: "heap \<Rightarrow> ptr \<Rightarrow> nat \<Rightarrow> (bio_answer \<times> heap) option" where
  "BIO_s_custom_read h d n = do {
     x \<leftarrow> ssl_datas h d;
     if ssl_read_input_length x = 0 then Some (BioRetryRead, h)
     else do {
       let n = (if n > unat (ssl_read_input_length x) then unat (ssl_read_input_length x) else n);
       let off = unat (ssl_read_input_offset x);
       dst \<leftarrow> (if off + n \<le> length (ssl_read_input x)
               then Some (take n (drop off (ssl_read_input x))) else None);
       h \<leftarrow> set_data h d (\<lambda>x. x\<lparr>ssl_read_input_offset := ssl_read_input_offset x + of_nat n\<rparr>);
       h \<leftarrow> set_data h d (\<lambda>x. x\<lparr>ssl_read_input_length := ssl_read_input_length x - of_nat n\<rparr>);
       Some (BioGot dst, h) } }"

subsection \<open>Calls that use the BIO\<close>

definition bio_answered :: "heap \<Rightarrow> bio_answer \<Rightarrow> heap" where
  "bio_answered h a = h\<lparr>trace := trace h @ [Bio a]\<rparr>"

partial_function (option) tls_run :: "env \<Rightarrow> ptr \<Rightarrow> ssl_call \<Rightarrow> heap \<Rightarrow> heap option" where
  "tls_run E d c h = (case tls_bio E (trace h) c of
       BioDone \<Rightarrow> Some h
     | BioRead n \<Rightarrow> do {
         (a, h) \<leftarrow> BIO_s_custom_read h d n;
         tls_run E d c (bio_answered h a) }
     | BioWrite data \<Rightarrow> do {
         (a, h) \<leftarrow> BIO_s_custom_write E h d data;
         tls_run E d c (bio_answered h a) })"

definition tls_io :: "env \<Rightarrow> ptr \<Rightarrow> heap \<Rightarrow> ssl_call \<Rightarrow> (int \<times> u8 list \<times> heap) option" where
  "tls_io E d h c = do {
     h \<leftarrow> tls_run E d c h;
     Some (tls_ret E (trace h) c, tls_data E (trace h) c, tls_do h c) }"

subsection \<open>The TLS data of a loop\<close>

text \<open>
  Making the BIO method includes setting its four functions, and making the BIOs setting their data
  pointer to the TLS data of the loop.  The output buffer of 512 kB is not modelled apart from the
  data that is passed on from it.
\<close>

definition us_internal_init_loop_ssl_data :: "env \<Rightarrow> heap \<Rightarrow> ptr \<Rightarrow> heap option" where
  "us_internal_init_loop_ssl_data E h loop = do {
     lp \<leftarrow> loops h loop;
     if ssl_data lp \<noteq> NULL then Some h
     else do {
       let d = malloc_at E h;
       let x = ssl_garbage E h;
       let h = tls_do h OPENSSL_init_ssl;
       let (biom, h) = tls E h BIO_meth_new;
       let (rbio, h) = tls E h (BIO_new (nat biom));
       let (wbio, h) = tls E h (BIO_new (nat biom));
       let h = h\<lparr>ssl_datas := (ssl_datas h)(d \<mapsto>
         x\<lparr>shared_biom := nat biom, shared_rbio := nat rbio, shared_wbio := nat wbio\<rparr>)\<rparr>;
       set_loop h loop (\<lambda>z. z\<lparr>ssl_data := d\<rparr>) } }"

definition us_internal_free_loop_ssl_data :: "heap \<Rightarrow> ptr \<Rightarrow> heap option" where
  "us_internal_free_loop_ssl_data h loop = do {
     lp \<leftarrow> loops h loop;
     if ssl_data lp = NULL then Some h
     else do {
       x \<leftarrow> ssl_datas h (ssl_data lp);
       let h = tls_do h (BIO_free (shared_rbio x));
       let h = tls_do h (BIO_free (shared_wbio x));
       let h = tls_do h (BIO_meth_free (shared_biom x));
       Some (h\<lparr>ssl_datas := (ssl_datas h)(ssl_data lp := None)\<rparr>) } }"

text \<open>\<open>us_loop_free\<close> frees the TLS data of the loop before everything else.\<close>

definition tls_loop_free :: "env \<Rightarrow> heap \<Rightarrow> ptr \<Rightarrow> heap option" where
  "tls_loop_free E h loop = do { h \<leftarrow> us_internal_free_loop_ssl_data h loop; us_loop_free E h loop }"

end
