(* ===== verification/Ssl.thy ===== *)
theory Ssl
  imports Openssl
begin

text \<open>
  The TLS sockets of \<open>crypto/openssl.c\<close>: the handlers it installs in the context beneath
  (\<open>ssl_on_open\<close> and so on) and the operations on a socket.  The handlers decorate those of the
  plain socket and call the user's, which are fields of the TLS part of the context.

  A socket has its TLS part from \<open>ssl_on_open\<close> on: before that the field \<open>ssl\<close> is uninitialised, and
  using it is \<open>None\<close>.
\<close>

subsection \<open>Opening and closing\<close>

definition ssl_on_open :: "env \<Rightarrow> heap \<Rightarrow> ptr \<Rightarrow> int \<Rightarrow> u8 list \<Rightarrow> (ptr \<times> heap) option" where
  "ssl_on_open E h s is_client ip = do {
     x \<leftarrow> socks h s;
     y \<leftarrow> ctxs h (s_context x);
     context \<leftarrow> ssl_ctxs h (s_context x);
     lp \<leftarrow> loops h (c_loop y);
     d \<leftarrow> ssl_datas h (ssl_data lp);
     let (r, h) = tls E h (SSL_new (ssl_context context));
     let h = h\<lparr>ssl_socks := (ssl_socks h)(s \<mapsto>
       \<lparr>ssl = nat r, ssl_write_wants_read = 0, ssl_read_wants_write = 0\<rparr>)\<rparr>;
     let h = tls_do h (SSL_set_bio (nat r) (shared_rbio d) (shared_wbio d));
     let h = tls_do h (BIO_up_ref (shared_rbio d));
     let h = tls_do h (BIO_up_ref (shared_wbio d));
     let h = tls_do h (if is_client \<noteq> 0 then SSL_set_connect_state (nat r) else SSL_set_accept_state (nat r));
     call_fn E (x_on_open context) (OnOpen s is_client ip) h }"

definition ssl_on_close :: "env \<Rightarrow> heap \<Rightarrow> ptr \<Rightarrow> int \<Rightarrow> ptr \<Rightarrow> (ptr \<times> heap) option" where
  "ssl_on_close E h s code reason = do {
     x \<leftarrow> socks h s;
     context \<leftarrow> ssl_ctxs h (s_context x);
     sx \<leftarrow> ssl_socks h s;
     let h = tls_do h (SSL_free (ssl sx));
     call_fn E (x_on_close context) (OnClose s code reason) h }"

text \<open>The environment of the plain socket operations that this module calls: closing reaches back.\<close>

definition close_env :: "env \<Rightarrow> env" where
  "close_env E = E\<lparr>modules := (\<lambda>f ev h. case (f, ev) of
     (SslOnClose, OnClose s code reason) \<Rightarrow> ssl_on_close E h s code reason
   | _ \<Rightarrow> modules E f ev h)\<rparr>"

definition us_internal_ssl_socket_close :: "env \<Rightarrow> heap \<Rightarrow> ptr \<Rightarrow> int \<Rightarrow> ptr \<Rightarrow> (ptr \<times> heap) option" where
  "us_internal_ssl_socket_close E h s code reason = us_socket_close (close_env E) h s code reason"

definition ssl_on_end :: "env \<Rightarrow> heap \<Rightarrow> ptr \<Rightarrow> (ptr \<times> heap) option" where
  "ssl_on_end E h s = us_internal_ssl_socket_close E h s 0 NULL"

definition us_internal_ssl_socket_is_shut_down :: "env \<Rightarrow> heap \<Rightarrow> ptr \<Rightarrow> (bool \<times> heap) option" where
  "us_internal_ssl_socket_is_shut_down E h s = do {
     p \<leftarrow> polls h s;
     if us_socket_is_shut_down p then Some (True, h)
     else do {
       sx \<leftarrow> ssl_socks h s;
       let (r, h) = tls E h (SSL_get_shutdown (ssl sx));
       Some (r AND SSL_SENT_SHUTDOWN \<noteq> 0, h) } }"

text \<open>Some errors leave entries in the error queue of the thread.\<close>

definition clear_errors :: "heap \<Rightarrow> int \<Rightarrow> heap" where
  "clear_errors h err =
    (if err = SSL_ERROR_SSL \<or> err = SSL_ERROR_SYSCALL then tls_do h ERR_clear_error else h)"

subsection \<open>Data\<close>

text \<open>
  The loop around \<open>SSL_read\<close>, with the data read so far; the result is whether \<open>ssl_on_data\<close> returns
  here, and the socket to return or to go on with.
\<close>

partial_function (option) ssl_read_loop ::
  "env \<Rightarrow> ptr \<Rightarrow> heap \<Rightarrow> ptr \<Rightarrow> u8 list \<Rightarrow> (bool \<times> ptr \<times> heap) option" where
  "ssl_read_loop E d h s read = do {
     sx \<leftarrow> ssl_socks h s;
     (just_read, bytes, h) \<leftarrow> tls_io E d h (SSL_read (ssl sx) (LIBUS_RECV_BUFFER_LENGTH - length read));
     if just_read \<le> 0 then do {
       let (err, h) = tls E h (SSL_get_error (ssl sx) just_read);
       if err \<noteq> SSL_ERROR_WANT_READ \<and> err \<noteq> SSL_ERROR_WANT_WRITE then do {
         (s, h) \<leftarrow> us_internal_ssl_socket_close E (clear_errors h err) s 0 NULL;
         Some (True, s, h) }
       else do {
         h \<leftarrow> (if err = SSL_ERROR_WANT_WRITE
               then set_ssl_sock h s (\<lambda>x. x\<lparr>ssl_read_wants_write := 1\<rparr>) else Some h);
         x \<leftarrow> ssl_datas h d;
         if ssl_read_input_length x \<noteq> 0 then do {
           (s, h) \<leftarrow> us_internal_ssl_socket_close E h s 0 NULL;
           Some (True, s, h) }
         else if read = [] then Some (False, s, h)
         else do {
           so \<leftarrow> socks h s;
           context \<leftarrow> ssl_ctxs h (s_context so);
           (s, h) \<leftarrow> call_fn E (x_on_data context) (OnData s read) h;
           so \<leftarrow> socks h s;
           Some (us_socket_is_closed so, s, h) } } }
     else do {
       let read = read @ take (nat just_read) bytes;
       if length read = LIBUS_RECV_BUFFER_LENGTH then do {
         so \<leftarrow> socks h s;
         context \<leftarrow> ssl_ctxs h (s_context so);
         (s, h) \<leftarrow> call_fn E (x_on_data context) (OnData s read) h;
         so \<leftarrow> socks h s;
         if us_socket_is_closed so then Some (True, s, h)
         else ssl_read_loop E d h s [] }
       else ssl_read_loop E d h s read } }"

text \<open>What \<open>ssl_on_data\<close> does for a socket that is shut down: it goes on with the shutdown.\<close>

definition ssl_continue_shutdown :: "env \<Rightarrow> ptr \<Rightarrow> heap \<Rightarrow> ptr \<Rightarrow> (ptr \<times> heap) option" where
  "ssl_continue_shutdown E d h s = do {
     sx \<leftarrow> ssl_socks h s;
     (ret, _, h) \<leftarrow> tls_io E d h (SSL_shutdown (ssl sx));
     if ret = 1 then us_internal_ssl_socket_close E h s 0 NULL
     else if ret < 0 then do {
       let (err, h) = tls E h (SSL_get_error (ssl sx) ret);
       Some (s, clear_errors h err) }
     else Some (s, h) }"

text \<open>
  \<open>ssl_on_data\<close> and \<open>ssl_on_writable\<close> call each other through the handlers of the plain context, so
  they are one function: \<open>ssl_on_data\<close> with the given data, or \<open>ssl_on_writable\<close>.
\<close>

partial_function (option) ssl_handle ::
  "env \<Rightarrow> heap \<Rightarrow> ptr \<Rightarrow> bool \<Rightarrow> u8 list \<Rightarrow> (ptr \<times> heap) option" where
  "ssl_handle E h s writable data = (if \<not> writable then do {
       x \<leftarrow> socks h s;
       y \<leftarrow> ctxs h (s_context x);
       lp \<leftarrow> loops h (c_loop y);
       let d = ssl_data lp;
       h \<leftarrow> set_data h d (\<lambda>z. z\<lparr>ssl_read_input := data, ssl_read_input_length := of_nat (length data),
              ssl_read_input_offset := 0, ssl_socket := s, ssl_msg_more := 0\<rparr>);
       (shut, h) \<leftarrow> us_internal_ssl_socket_is_shut_down E h s;
       if shut then ssl_continue_shutdown E d h s
       else do {
         (returns, s, h) \<leftarrow> ssl_read_loop E d h s [];
         if returns then Some (s, h)
         else do {
           sx \<leftarrow> ssl_socks h s;
           (returns, s, h) \<leftarrow> (if ssl_write_wants_read sx = 0 then Some (False, s, h)
             else do {
               h \<leftarrow> set_ssl_sock h s (\<lambda>x. x\<lparr>ssl_write_wants_read := 0\<rparr>);
               x \<leftarrow> socks h s;
               y \<leftarrow> ctxs h (s_context x);
               (s, h) \<leftarrow> (if on_writable y = SslOnWritable then ssl_handle E h s True []
                         else call_fn E (on_writable y) (OnWritable s) h);
               x \<leftarrow> socks h s;
               Some (us_socket_is_closed x, s, h) });
           if returns then Some (s, h)
           else do {
             sx \<leftarrow> ssl_socks h s;
             let (r, h) = tls E h (SSL_get_shutdown (ssl sx));
             if r AND SSL_RECEIVED_SHUTDOWN \<noteq> 0 then us_internal_ssl_socket_close E h s 0 NULL
             else Some (s, h) } } } }
     else do {
       x \<leftarrow> socks h s;
       sx \<leftarrow> ssl_socks h s;
       let context = s_context x;
       (s, h) \<leftarrow> (if ssl_read_wants_write sx = 0 then Some (s, h)
         else do {
           h \<leftarrow> set_ssl_sock h s (\<lambda>x. x\<lparr>ssl_read_wants_write := 0\<rparr>);
           y \<leftarrow> ctxs h context;
           if on_data y = SslOnData then ssl_handle E h s False []
           else call_fn E (on_data y) (OnData s []) h });
       cx \<leftarrow> ssl_ctxs h context;
       call_fn E (x_on_writable cx) (OnWritable s) h })"

definition ssl_on_data :: "env \<Rightarrow> heap \<Rightarrow> ptr \<Rightarrow> u8 list \<Rightarrow> (ptr \<times> heap) option" where
  "ssl_on_data E h s data = ssl_handle E h s False data"

definition ssl_on_writable :: "env \<Rightarrow> heap \<Rightarrow> ptr \<Rightarrow> (ptr \<times> heap) option" where
  "ssl_on_writable E h s = ssl_handle E h s True []"

definition ssl_is_low_prio :: "env \<Rightarrow> heap \<Rightarrow> ptr \<Rightarrow> (ptr \<times> heap) option" where
  "ssl_is_low_prio E h s = do {
     sx \<leftarrow> ssl_socks h s;
     let (r, h) = tls E h (SSL_in_init (ssl sx));
     Some (nat r, h) }"

text \<open>The environment in which the loop finds all handlers of this module.\<close>

definition tls_env :: "env \<Rightarrow> env" where
  "tls_env E = E\<lparr>modules := (\<lambda>f ev h. case (f, ev) of
     (SslOnOpen, OnOpen s is_client ip) \<Rightarrow> ssl_on_open E h s is_client ip
   | (SslOnClose, OnClose s code reason) \<Rightarrow> ssl_on_close E h s code reason
   | (SslOnData, OnData s data) \<Rightarrow> ssl_on_data E h s data
   | (SslOnWritable, OnWritable s) \<Rightarrow> ssl_on_writable E h s
   | (SslOnEnd, OnEnd s) \<Rightarrow> ssl_on_end E h s
   | (SslIsLowPrio, IsLowPrio s) \<Rightarrow> ssl_is_low_prio E h s
   | _ \<Rightarrow> modules E f ev h)\<rparr>"

subsection \<open>Operations on a socket\<close>

definition us_internal_ssl_socket_get_native_handle :: "heap \<Rightarrow> ptr \<Rightarrow> ptr option" where
  "us_internal_ssl_socket_get_native_handle h s = map_option ssl (ssl_socks h s)"

text \<open>The TLS data of a socket's loop.\<close>

definition loop_data_of :: "heap \<Rightarrow> ptr \<Rightarrow> ptr option" where
  "loop_data_of h s = do {
     x \<leftarrow> socks h s;
     y \<leftarrow> ctxs h (s_context x);
     lp \<leftarrow> loops h (c_loop y);
     Some (ssl_data lp) }"

definition us_internal_ssl_socket_write :: "env \<Rightarrow> heap \<Rightarrow> ptr \<Rightarrow> u8 list \<Rightarrow> int \<Rightarrow> (int \<times> heap) option" where
  "us_internal_ssl_socket_write E h s data msg_more = do {
     x \<leftarrow> socks h s;
     (stop, h) \<leftarrow> (if us_socket_is_closed x then Some (True, h) else us_internal_ssl_socket_is_shut_down E h s);
     if stop then Some (0, h)
     else do {
       d \<leftarrow> loop_data_of h s;
       h \<leftarrow> set_data h d (\<lambda>z. z\<lparr>ssl_read_input_length := 0, ssl_socket := s, ssl_msg_more := msg_more,
              last_write_was_msg_more := 0\<rparr>);
       sx \<leftarrow> ssl_socks h s;
       (written, _, h) \<leftarrow> tls_io E d h (SSL_write (ssl sx) data);
       h \<leftarrow> set_data h d (\<lambda>z. z\<lparr>ssl_msg_more := 0\<rparr>);
       z \<leftarrow> ssl_datas h d;
       h \<leftarrow> (if last_write_was_msg_more z \<noteq> 0 \<and> msg_more = 0 then us_socket_flush E h s else Some h);
       if written > 0 then Some (written, h)
       else do {
         let (err, h) = tls E h (SSL_get_error (ssl sx) written);
         h \<leftarrow> (if err = SSL_ERROR_WANT_READ
               then set_ssl_sock h s (\<lambda>x. x\<lparr>ssl_write_wants_read := 1\<rparr>)
               else Some (clear_errors h err));
         Some (0, h) } } }"

definition us_internal_ssl_socket_shutdown :: "env \<Rightarrow> heap \<Rightarrow> ptr \<Rightarrow> heap option" where
  "us_internal_ssl_socket_shutdown E h s = do {
     x \<leftarrow> socks h s;
     (stop, h) \<leftarrow> (if us_socket_is_closed x then Some (True, h) else us_internal_ssl_socket_is_shut_down E h s);
     if stop then Some h
     else do {
       d \<leftarrow> loop_data_of h s;
       h \<leftarrow> set_data h d (\<lambda>z. z\<lparr>ssl_read_input_length := 0, ssl_socket := s, ssl_msg_more := 0\<rparr>);
       sx \<leftarrow> ssl_socks h s;
       (ret, _, h) \<leftarrow> tls_io E d h (SSL_shutdown (ssl sx));
       (ret, h) \<leftarrow> (if ret = 0 then do {
           (ret, _, h) \<leftarrow> tls_io E d h (SSL_shutdown (ssl sx));
           Some (ret, h) }
         else Some (ret, h));
       if ret < 0 then do {
         let (err, h) = tls E h (SSL_get_error (ssl sx) ret);
         us_socket_shutdown E (clear_errors h err) s }
       else Some h } }"

definition us_internal_ssl_socket_context_adopt_socket :: "env \<Rightarrow> heap \<Rightarrow> ptr \<Rightarrow> ptr \<Rightarrow> (ptr \<times> heap) option" where
  "us_internal_ssl_socket_context_adopt_socket E h c s = us_socket_context_adopt_socket E h c s"

end
