(* ===== verification/Ssl_context.thy ===== *)
theory Ssl_context
  imports Ssl
begin

text \<open>
  The TLS socket contexts of \<open>crypto/openssl.c\<close>: making an OpenSSL context from options, server names,
  and the functions of a context.
\<close>

subsection \<open>OpenSSL contexts\<close>

record us_socket_context_options_t =
  key_file_name :: "string option"
  cert_file_name :: "string option"
  passphrase :: "string option"
  dh_params_file_name :: "string option"
  ca_file_name :: "string option"
  ssl_ciphers :: "string option"
  ssl_prefer_low_memory_usage :: int

text \<open>The password that was set is freed with the context; \<open>free\<close> of null does nothing.\<close>

definition free_ssl_context :: "env \<Rightarrow> heap \<Rightarrow> ptr \<Rightarrow> heap" where
  "free_ssl_context E h ctx =
    (if ctx = NULL then h
     else (let (password, h) = tls E h (SSL_CTX_get_default_passwd_cb_userdata ctx);
               h = tls_do h (Free (nat password))
           in tls_do h (SSL_CTX_free ctx)))"

text \<open>
  The steps of \<open>create_ssl_context_from_options\<close>, one per option: whether it went well, and the heap
  with its calls recorded.
\<close>

definition ssl_context_defaults :: "heap \<Rightarrow> ptr \<Rightarrow> heap" where
  "ssl_context_defaults h ctx =
    tls_do (tls_do (tls_do h (SSL_CTX_set_read_ahead ctx 1))
      (SSL_CTX_set_mode ctx SSL_MODE_ACCEPT_MOVING_WRITE_BUFFER))
      (SSL_CTX_set_min_proto_version ctx TLS1_2_VERSION)"

definition use_low_memory :: "heap \<Rightarrow> ptr \<Rightarrow> us_socket_context_options_t \<Rightarrow> heap" where
  "use_low_memory h ctx options =
    (if ssl_prefer_low_memory_usage options \<noteq> 0
     then tls_do h (SSL_CTX_set_mode ctx SSL_MODE_RELEASE_BUFFERS) else h)"

definition use_passphrase :: "env \<Rightarrow> heap \<Rightarrow> ptr \<Rightarrow> us_socket_context_options_t \<Rightarrow> heap" where
  "use_passphrase E h ctx options = (case passphrase options of
       None \<Rightarrow> h
     | Some p \<Rightarrow>
         (let (copy, h) = tls E h (Strdup p);
              h = tls_do h (SSL_CTX_set_default_passwd_cb_userdata ctx (nat copy))
          in tls_do h (SSL_CTX_set_default_passwd_cb ctx)))"

definition use_certificate :: "env \<Rightarrow> heap \<Rightarrow> ptr \<Rightarrow> us_socket_context_options_t \<Rightarrow> bool \<times> heap" where
  "use_certificate E h ctx options = (case cert_file_name options of
       None \<Rightarrow> (True, h)
     | Some f \<Rightarrow> (let (r, h) = tls E h (SSL_CTX_use_certificate_chain_file ctx f) in (r = 1, h)))"

definition use_private_key :: "env \<Rightarrow> heap \<Rightarrow> ptr \<Rightarrow> us_socket_context_options_t \<Rightarrow> bool \<times> heap" where
  "use_private_key E h ctx options = (case key_file_name options of
       None \<Rightarrow> (True, h)
     | Some f \<Rightarrow> (let (r, h) = tls E h (SSL_CTX_use_PrivateKey_file ctx f) in (r = 1, h)))"

definition use_ca :: "env \<Rightarrow> heap \<Rightarrow> ptr \<Rightarrow> us_socket_context_options_t \<Rightarrow> bool \<times> heap" where
  "use_ca E h ctx options = (case ca_file_name options of
       None \<Rightarrow> (True, h)
     | Some f \<Rightarrow>
         (let (ca_list, h) = tls E h (SSL_load_client_CA_file f)
          in if ca_list = 0 then (False, h)
             else (let h = tls_do h (SSL_CTX_set_client_CA_list ctx (nat ca_list));
                       (r, h) = tls E h (SSL_CTX_load_verify_locations ctx f)
                   in if r \<noteq> 1 then (False, h)
                      else (True, tls_do h (SSL_CTX_set_verify ctx SSL_VERIFY_PEER)))))"

definition OWASP_CIPHERS :: string where
  "OWASP_CIPHERS = ''DHE-RSA-AES256-GCM-SHA384:DHE-RSA-AES128-GCM-SHA256:ECDHE-RSA-AES256-GCM-SHA384:ECDHE-RSA-AES128-GCM-SHA256''"

definition use_dh_params :: "env \<Rightarrow> heap \<Rightarrow> ptr \<Rightarrow> us_socket_context_options_t \<Rightarrow> bool \<times> heap" where
  "use_dh_params E h ctx options = (case dh_params_file_name options of
       None \<Rightarrow> (True, h)
     | Some f \<Rightarrow>
         (let (paramfile, h) = tls E h (Fopen f)
          in if paramfile = 0 then (False, h)
             else (let (dh, h) = tls E h (PEM_read_DHparams (nat paramfile));
                       h = tls_do h (Fclose (nat paramfile))
                   in if dh = 0 then (False, h)
                      else (let (r, h) = tls E h (SSL_CTX_set_tmp_dh ctx (nat dh));
                                h = tls_do h (DH_free (nat dh))
                            in if r \<noteq> 1 then (False, h)
                               else (let (r, h) = tls E h (SSL_CTX_set_cipher_list ctx OWASP_CIPHERS)
                                     in (r = 1, h))))))"

definition use_ciphers :: "env \<Rightarrow> heap \<Rightarrow> ptr \<Rightarrow> us_socket_context_options_t \<Rightarrow> bool \<times> heap" where
  "use_ciphers E h ctx options = (case ssl_ciphers options of
       None \<Rightarrow> (True, h)
     | Some f \<Rightarrow> (let (r, h) = tls E h (SSL_CTX_set_cipher_list ctx f) in (r = 1, h)))"

text \<open>The steps in order; at the first that fails the context is freed and the result is null.\<close>

fun or_free :: "env \<Rightarrow> heap \<Rightarrow> ptr \<Rightarrow> us_socket_context_options_t \<Rightarrow>
    (env \<Rightarrow> heap \<Rightarrow> ptr \<Rightarrow> us_socket_context_options_t \<Rightarrow> bool \<times> heap) list \<Rightarrow> ptr \<times> heap" where
  "or_free E h ctx options [] = (ctx, h)"
| "or_free E h ctx options (f # fs) =
    (case f E h ctx options of (ok, h) \<Rightarrow>
      if ok then or_free E h ctx options fs else (NULL, free_ssl_context E h ctx))"

text \<open>The result of \<open>SSL_CTX_new\<close> is not looked at: without a context the next call is a fault.\<close>

definition create_ssl_context_from_options ::
  "env \<Rightarrow> heap \<Rightarrow> us_socket_context_options_t \<Rightarrow> (ptr \<times> heap) option" where
  "create_ssl_context_from_options E h options =
    (let (r, h) = tls E h SSL_CTX_new; ctx = nat r
     in if ctx = NULL then None
        else (let h = ssl_context_defaults h ctx;
                  h = use_low_memory h ctx options;
                  h = use_passphrase E h ctx options
              in Some (or_free E h ctx options
                   [use_certificate, use_private_key, use_ca, use_dh_params, use_ciphers])))"

subsection \<open>Server names\<close>

definition us_internal_ssl_socket_context_find_server_name_userdata ::
  "env \<Rightarrow> heap \<Rightarrow> ptr \<Rightarrow> string \<Rightarrow> (ptr \<times> heap) option" where
  "us_internal_ssl_socket_context_find_server_name_userdata E h c hostname_pattern = do {
     cx \<leftarrow> ssl_ctxs h c;
     tree \<leftarrow> sni cx;
     Some (case sni_find tree hostname_pattern of
         None \<Rightarrow> (0, h)
       | Some ctx \<Rightarrow> (let (r, h) = tls E h (SSL_CTX_get_ex_data ctx) in (nat r, h))) }"

definition us_internal_ssl_socket_get_sni_userdata :: "env \<Rightarrow> heap \<Rightarrow> ptr \<Rightarrow> (ptr \<times> heap) option" where
  "us_internal_ssl_socket_get_sni_userdata E h s = do {
     sx \<leftarrow> ssl_socks h s;
     let (ctx, h) = tls E h (SSL_get_SSL_CTX (ssl sx));
     let (r, h) = tls E h (SSL_CTX_get_ex_data (nat ctx));
     Some (nat r, h) }"

text \<open>
  The user data is attached before the context is compared with null: options from which no context
  can be made end in a fault.
\<close>

definition us_internal_ssl_socket_context_add_server_name ::
  "env \<Rightarrow> heap \<Rightarrow> ptr \<Rightarrow> string \<Rightarrow> us_socket_context_options_t \<Rightarrow> ptr \<Rightarrow> heap option" where
  "us_internal_ssl_socket_context_add_server_name E h c hostname_pattern options user = do {
     (ctx, h) \<leftarrow> create_ssl_context_from_options E h options;
     if ctx = NULL then None
     else do {
       let h = tls_do h (SSL_CTX_set_ex_data ctx user);
       cx \<leftarrow> ssl_ctxs h c;
       tree \<leftarrow> sni cx;
       let (taken, tree) = sni_add tree hostname_pattern (Some ctx);
       h \<leftarrow> set_ssl_ctx h c (\<lambda>x. x\<lparr>sni := Some tree\<rparr>);
       Some (if taken \<noteq> 0 then free_ssl_context E h ctx else h) } }"

definition us_internal_ssl_socket_context_on_server_name :: "heap \<Rightarrow> ptr \<Rightarrow> fnptr \<Rightarrow> heap option" where
  "us_internal_ssl_socket_context_on_server_name h c cb = set_ssl_ctx h c (\<lambda>x. x\<lparr>on_server_name := Some cb\<rparr>)"

definition us_internal_ssl_socket_context_remove_server_name :: "env \<Rightarrow> heap \<Rightarrow> ptr \<Rightarrow> string \<Rightarrow> heap option" where
  "us_internal_ssl_socket_context_remove_server_name E h c hostname_pattern = do {
     cx \<leftarrow> ssl_ctxs h c;
     tree \<leftarrow> sni cx;
     let (removed, tree) = sni_remove tree hostname_pattern;
     h \<leftarrow> set_ssl_ctx h c (\<lambda>x. x\<lparr>sni := Some tree\<rparr>);
     Some (case removed of None \<Rightarrow> h | Some ctx \<Rightarrow> free_ssl_context E h ctx) }"

definition resolve_context :: "env \<Rightarrow> heap \<Rightarrow> ptr \<Rightarrow> string \<Rightarrow> (ptr \<times> heap) option" where
  "resolve_context E h c hostname = do {
     cx \<leftarrow> ssl_ctxs h c;
     tree \<leftarrow> sni cx;
     (case sni_find tree hostname of
        Some ctx \<Rightarrow> Some (ctx, h)
      | None \<Rightarrow> do {
          cb \<leftarrow> on_server_name cx;
          if cb = NullFn then Some (NULL, h)
          else do {
            (_, h) \<leftarrow> call_fn E cb (OnServerName c hostname) h;
            cx \<leftarrow> ssl_ctxs h c;
            tree \<leftarrow> sni cx;
            Some (case sni_find tree hostname of Some ctx \<Rightarrow> ctx | None \<Rightarrow> NULL, h) } }) }"

text \<open>The servername callback of OpenSSL; the bytes of the name come with \<open>SSL_get_servername\<close>.\<close>

definition sni_cb :: "env \<Rightarrow> heap \<Rightarrow> ptr \<Rightarrow> ptr \<Rightarrow> (int \<times> heap) option" where
  "sni_cb E h ssl_ptr c =
    (if ssl_ptr = NULL then Some (SSL_TLSEXT_ERR_NOACK, h)
     else do {
       let hostname = map (\<lambda>b. char_of (unat b)) (tls_data E (trace h) (SSL_get_servername ssl_ptr));
       let (r, h) = tls E h (SSL_get_servername ssl_ptr);
       if r = 0 \<or> hostname = [] then Some (SSL_TLSEXT_ERR_OK, h)
       else do {
         (resolved, h) \<leftarrow> resolve_context E h c hostname;
         Some (SSL_TLSEXT_ERR_OK,
           if resolved \<noteq> NULL then tls_do h (SSL_set_SSL_CTX ssl_ptr resolved) else h) } })"

subsection \<open>Contexts\<close>

definition us_internal_ssl_socket_context_get_native_handle :: "heap \<Rightarrow> ptr \<Rightarrow> ptr option" where
  "us_internal_ssl_socket_context_get_native_handle h c = map_option ssl_context (ssl_ctxs h c)"

text \<open>
  The TLS part of a new context; its handlers, and for a child the name callback and the tree, are
  what \<open>malloc\<close> left there, which \<open>NullFn\<close> and \<open>None\<close> stand for.
\<close>

definition new_ssl_ctx :: "ptr \<Rightarrow> int \<Rightarrow> fnptr option \<Rightarrow> ptr sni_node option \<Rightarrow> us_internal_ssl_socket_context_t" where
  "new_ssl_ctx ctx parent cb tree = \<lparr>ssl_context = ctx, is_parent = parent, x_on_open = NullFn,
     x_on_data = NullFn, x_on_writable = NullFn, x_on_close = NullFn, on_server_name = cb, sni = tree\<rparr>"

definition us_internal_create_child_ssl_socket_context :: "env \<Rightarrow> heap \<Rightarrow> ptr \<Rightarrow> (ptr \<times> heap) option" where
  "us_internal_create_child_ssl_socket_context E h c = do {
     y \<leftarrow> ctxs h c;
     (child, h) \<leftarrow> us_create_socket_context E h (c_loop y);
     cx \<leftarrow> ssl_ctxs h c;
     Some (child, h\<lparr>ssl_ctxs := (ssl_ctxs h)(child \<mapsto> new_ssl_ctx (ssl_context cx) 0 None None)\<rparr>) }"

definition us_internal_create_ssl_socket_context ::
  "env \<Rightarrow> heap \<Rightarrow> ptr \<Rightarrow> us_socket_context_options_t \<Rightarrow> (ptr \<times> heap) option" where
  "us_internal_create_ssl_socket_context E h loop options = do {
     h \<leftarrow> us_internal_init_loop_ssl_data E h loop;
     (ctx, h) \<leftarrow> create_ssl_context_from_options E h options;
     if ctx = NULL then Some (NULL, h)
     else do {
       (c, h) \<leftarrow> us_create_socket_context E h loop;
       let h = h\<lparr>ssl_ctxs := (ssl_ctxs h)(c \<mapsto> new_ssl_ctx ctx 1 (Some NullFn) (Some sni_new))\<rparr>;
       h \<leftarrow> set_ctx h c (\<lambda>y. y\<lparr>is_low_prio := SslIsLowPrio\<rparr>);
       let h = tls_do h (SSL_CTX_set_tlsext_servername_callback ctx);
       Some (c, tls_do h (SSL_CTX_set_tlsext_servername_arg ctx c)) } }"

definition sni_hostname_destructor :: "env \<Rightarrow> heap \<Rightarrow> ptr \<Rightarrow> heap" where
  "sni_hostname_destructor E h user = free_ssl_context E h user"

definition us_internal_ssl_socket_context_free :: "env \<Rightarrow> heap \<Rightarrow> ptr \<Rightarrow> heap option" where
  "us_internal_ssl_socket_context_free E h c = do {
     cx \<leftarrow> ssl_ctxs h c;
     h \<leftarrow> (if is_parent cx = 0 then Some h
           else do {
             let h = free_ssl_context E h (ssl_context cx);
             tree \<leftarrow> sni cx;
             Some (fold (\<lambda>user h. sni_hostname_destructor E h user) (sni_free tree) h) });
     us_socket_context_free h c }"

definition us_internal_ssl_socket_context_listen ::
  "env \<Rightarrow> heap \<Rightarrow> ptr \<Rightarrow> string option \<Rightarrow> int \<Rightarrow> int \<Rightarrow> u32 \<Rightarrow> (ptr \<times> heap) option" where
  "us_internal_ssl_socket_context_listen E h c host port options ext =
     us_socket_context_listen E h c host port options (16 + ext)"

definition us_internal_ssl_socket_context_listen_unix ::
  "env \<Rightarrow> heap \<Rightarrow> ptr \<Rightarrow> string \<Rightarrow> int \<Rightarrow> u32 \<Rightarrow> (ptr \<times> heap) option" where
  "us_internal_ssl_socket_context_listen_unix E h c path options ext =
     us_socket_context_listen_unix E h c path options (16 + ext)"

definition us_internal_ssl_socket_context_connect ::
  "env \<Rightarrow> heap \<Rightarrow> ptr \<Rightarrow> string option \<Rightarrow> int \<Rightarrow> string option \<Rightarrow> int \<Rightarrow> (ptr \<times> heap) option" where
  "us_internal_ssl_socket_context_connect E h c host port source_host options =
     us_socket_context_connect E h c host port source_host options"

definition us_internal_ssl_socket_context_connect_unix ::
  "env \<Rightarrow> heap \<Rightarrow> ptr \<Rightarrow> string \<Rightarrow> int \<Rightarrow> (ptr \<times> heap) option" where
  "us_internal_ssl_socket_context_connect_unix E h c server_path options =
     us_socket_context_connect_unix E h c server_path options"

subsection \<open>Handlers\<close>

definition us_internal_ssl_socket_context_on_open :: "heap \<Rightarrow> ptr \<Rightarrow> fnptr \<Rightarrow> heap option" where
  "us_internal_ssl_socket_context_on_open h c f = do {
     h \<leftarrow> us_socket_context_on_open h c SslOnOpen; set_ssl_ctx h c (\<lambda>x. x\<lparr>x_on_open := f\<rparr>) }"

definition us_internal_ssl_socket_context_on_close :: "heap \<Rightarrow> ptr \<Rightarrow> fnptr \<Rightarrow> heap option" where
  "us_internal_ssl_socket_context_on_close h c f = do {
     h \<leftarrow> us_socket_context_on_close h c SslOnClose; set_ssl_ctx h c (\<lambda>x. x\<lparr>x_on_close := f\<rparr>) }"

definition us_internal_ssl_socket_context_on_data :: "heap \<Rightarrow> ptr \<Rightarrow> fnptr \<Rightarrow> heap option" where
  "us_internal_ssl_socket_context_on_data h c f = do {
     h \<leftarrow> us_socket_context_on_data h c SslOnData; set_ssl_ctx h c (\<lambda>x. x\<lparr>x_on_data := f\<rparr>) }"

definition us_internal_ssl_socket_context_on_writable :: "heap \<Rightarrow> ptr \<Rightarrow> fnptr \<Rightarrow> heap option" where
  "us_internal_ssl_socket_context_on_writable h c f = do {
     h \<leftarrow> us_socket_context_on_writable h c SslOnWritable; set_ssl_ctx h c (\<lambda>x. x\<lparr>x_on_writable := f\<rparr>) }"

definition us_internal_ssl_socket_context_on_timeout :: "heap \<Rightarrow> ptr \<Rightarrow> fnptr \<Rightarrow> heap option" where
  "us_internal_ssl_socket_context_on_timeout h c f = us_socket_context_on_timeout h c f"

definition us_internal_ssl_socket_context_on_long_timeout :: "heap \<Rightarrow> ptr \<Rightarrow> fnptr \<Rightarrow> heap option" where
  "us_internal_ssl_socket_context_on_long_timeout h c f = us_socket_context_on_long_timeout h c f"

text \<open>The handler that is passed in is not used.\<close>

definition us_internal_ssl_socket_context_on_end :: "heap \<Rightarrow> ptr \<Rightarrow> fnptr \<Rightarrow> heap option" where
  "us_internal_ssl_socket_context_on_end h c f = us_socket_context_on_end h c SslOnEnd"

definition us_internal_ssl_socket_context_on_connect_error :: "heap \<Rightarrow> ptr \<Rightarrow> fnptr \<Rightarrow> heap option" where
  "us_internal_ssl_socket_context_on_connect_error h c f = us_socket_context_on_connect_error h c f"

end
