(* ===== verification/Api.thy ===== *)
theory Api
  imports Ssl_context
begin

text \<open>
  The entry points of the library as the user calls them, with the argument \<open>ssl\<close> in front.  Every function of
  \<open>context.c\<close> and \<open>socket.c\<close> that has a TLS variant asks for it first and hands over to \<open>crypto/openssl.c\<close>;
  the theories \<open>Context\<close> and \<open>Socket\<close> are what follows after that test.  The entry points carry \<open>api_\<close> in
  front.
\<close>

subsection \<open>Sockets\<close>

definition api_us_socket_get_native_handle ::
  "int \<Rightarrow> heap \<Rightarrow> ptr \<Rightarrow> ptr option" where
  "api_us_socket_get_native_handle sl h s =
    (if sl \<noteq> 0 then us_internal_ssl_socket_get_native_handle h s
     else map_option (\<lambda>f. nat (f mod 2 ^ 64)) (us_socket_get_native_handle h s))"

definition api_us_socket_write ::
  "int \<Rightarrow> env \<Rightarrow> heap \<Rightarrow> ptr \<Rightarrow> u8 list \<Rightarrow> int \<Rightarrow> (int \<times> heap) option" where
  "api_us_socket_write sl E h s data msg_more =
    (if sl \<noteq> 0 then us_internal_ssl_socket_write E h s data msg_more
     else us_socket_write E h s data msg_more)"

definition api_us_socket_is_shut_down ::
  "int \<Rightarrow> env \<Rightarrow> heap \<Rightarrow> ptr \<Rightarrow> (bool \<times> heap) option" where
  "api_us_socket_is_shut_down sl E h s =
    (if sl \<noteq> 0 then us_internal_ssl_socket_is_shut_down E h s
     else map_option (\<lambda>p. (us_socket_is_shut_down p, h)) (polls h s))"

definition api_us_socket_shutdown ::
  "int \<Rightarrow> env \<Rightarrow> heap \<Rightarrow> ptr \<Rightarrow> heap option" where
  "api_us_socket_shutdown sl E h s =
    (if sl \<noteq> 0 then us_internal_ssl_socket_shutdown E h s
     else us_socket_shutdown E h s)"

subsection \<open>Server names\<close>

definition api_us_socket_context_find_server_name_userdata ::
  "int \<Rightarrow> env \<Rightarrow> heap \<Rightarrow> ptr \<Rightarrow> string \<Rightarrow> (ptr \<times> heap) option" where
  "api_us_socket_context_find_server_name_userdata sl E h c hostname_pattern =
    (if sl \<noteq> 0 then us_internal_ssl_socket_context_find_server_name_userdata E h c hostname_pattern
     else Some (NULL, h))"

definition api_us_socket_server_name_userdata ::
  "int \<Rightarrow> env \<Rightarrow> heap \<Rightarrow> ptr \<Rightarrow> (ptr \<times> heap) option" where
  "api_us_socket_server_name_userdata sl E h s =
    (if sl \<noteq> 0 then us_internal_ssl_socket_get_sni_userdata E h s
     else Some (NULL, h))"

definition api_us_socket_context_add_server_name ::
  "int \<Rightarrow> env \<Rightarrow> heap \<Rightarrow> ptr \<Rightarrow> string \<Rightarrow> us_socket_context_options_t \<Rightarrow> ptr \<Rightarrow> heap option" where
  "api_us_socket_context_add_server_name sl E h c hostname_pattern options user =
    (if sl \<noteq> 0 then us_internal_ssl_socket_context_add_server_name E h c hostname_pattern options user
     else Some h)"

definition api_us_socket_context_remove_server_name ::
  "int \<Rightarrow> env \<Rightarrow> heap \<Rightarrow> ptr \<Rightarrow> string \<Rightarrow> heap option" where
  "api_us_socket_context_remove_server_name sl E h c hostname_pattern =
    (if sl \<noteq> 0 then us_internal_ssl_socket_context_remove_server_name E h c hostname_pattern
     else Some h)"

definition api_us_socket_context_on_server_name ::
  "int \<Rightarrow> heap \<Rightarrow> ptr \<Rightarrow> fnptr \<Rightarrow> heap option" where
  "api_us_socket_context_on_server_name sl h c cb =
    (if sl \<noteq> 0 then us_internal_ssl_socket_context_on_server_name h c cb
     else Some h)"

definition api_us_socket_context_get_native_handle ::
  "int \<Rightarrow> heap \<Rightarrow> ptr \<Rightarrow> ptr option" where
  "api_us_socket_context_get_native_handle sl h c =
    (if sl \<noteq> 0 then us_internal_ssl_socket_context_get_native_handle h c
     else Some NULL)"

subsection \<open>Contexts\<close>

definition api_us_create_socket_context ::
  "int \<Rightarrow> env \<Rightarrow> heap \<Rightarrow> ptr \<Rightarrow> us_socket_context_options_t \<Rightarrow> (ptr \<times> heap) option" where
  "api_us_create_socket_context sl E h l options =
    (if sl \<noteq> 0 then us_internal_create_ssl_socket_context E h l options
     else us_create_socket_context E h l)"

definition api_us_create_child_socket_context ::
  "int \<Rightarrow> env \<Rightarrow> heap \<Rightarrow> ptr \<Rightarrow> (ptr \<times> heap) option" where
  "api_us_create_child_socket_context sl E h c =
    (if sl \<noteq> 0 then us_internal_create_child_ssl_socket_context E h c
     else us_create_child_socket_context E h c)"

definition api_us_socket_context_free ::
  "int \<Rightarrow> env \<Rightarrow> heap \<Rightarrow> ptr \<Rightarrow> heap option" where
  "api_us_socket_context_free sl E h c =
    (if sl \<noteq> 0 then us_internal_ssl_socket_context_free E h c
     else us_socket_context_free h c)"

definition api_us_socket_context_listen ::
  "int \<Rightarrow> env \<Rightarrow> heap \<Rightarrow> ptr \<Rightarrow> string option \<Rightarrow> int \<Rightarrow> int \<Rightarrow> u32 \<Rightarrow> (ptr \<times> heap) option" where
  "api_us_socket_context_listen sl E h c host port options socket_ext =
    (if sl \<noteq> 0 then us_internal_ssl_socket_context_listen E h c host port options socket_ext
     else us_socket_context_listen E h c host port options socket_ext)"

definition api_us_socket_context_listen_unix ::
  "int \<Rightarrow> env \<Rightarrow> heap \<Rightarrow> ptr \<Rightarrow> string \<Rightarrow> int \<Rightarrow> u32 \<Rightarrow> (ptr \<times> heap) option" where
  "api_us_socket_context_listen_unix sl E h c path options socket_ext =
    (if sl \<noteq> 0 then us_internal_ssl_socket_context_listen_unix E h c path options socket_ext
     else us_socket_context_listen_unix E h c path options socket_ext)"

definition api_us_socket_context_connect ::
  "int \<Rightarrow> env \<Rightarrow> heap \<Rightarrow> ptr \<Rightarrow> string option \<Rightarrow> int \<Rightarrow> string option \<Rightarrow> int \<Rightarrow> (ptr \<times> heap) option" where
  "api_us_socket_context_connect sl E h c host port source_host options =
    (if sl \<noteq> 0 then us_internal_ssl_socket_context_connect E h c host port source_host options
     else us_socket_context_connect E h c host port source_host options)"

definition api_us_socket_context_connect_unix ::
  "int \<Rightarrow> env \<Rightarrow> heap \<Rightarrow> ptr \<Rightarrow> string \<Rightarrow> int \<Rightarrow> (ptr \<times> heap) option" where
  "api_us_socket_context_connect_unix sl E h c server_path options =
    (if sl \<noteq> 0 then us_internal_ssl_socket_context_connect_unix E h c server_path options
     else us_socket_context_connect_unix E h c server_path options)"

definition api_us_socket_context_adopt_socket ::
  "int \<Rightarrow> env \<Rightarrow> heap \<Rightarrow> ptr \<Rightarrow> ptr \<Rightarrow> (ptr \<times> heap) option" where
  "api_us_socket_context_adopt_socket sl E h c s =
    (if sl \<noteq> 0 then us_internal_ssl_socket_context_adopt_socket E h c s
     else us_socket_context_adopt_socket E h c s)"

definition api_us_socket_context_on_open ::
  "int \<Rightarrow> heap \<Rightarrow> ptr \<Rightarrow> fnptr \<Rightarrow> heap option" where
  "api_us_socket_context_on_open sl h c cb =
    (if sl \<noteq> 0 then us_internal_ssl_socket_context_on_open h c cb
     else us_socket_context_on_open h c cb)"

definition api_us_socket_context_on_close ::
  "int \<Rightarrow> heap \<Rightarrow> ptr \<Rightarrow> fnptr \<Rightarrow> heap option" where
  "api_us_socket_context_on_close sl h c cb =
    (if sl \<noteq> 0 then us_internal_ssl_socket_context_on_close h c cb
     else us_socket_context_on_close h c cb)"

definition api_us_socket_context_on_data ::
  "int \<Rightarrow> heap \<Rightarrow> ptr \<Rightarrow> fnptr \<Rightarrow> heap option" where
  "api_us_socket_context_on_data sl h c cb =
    (if sl \<noteq> 0 then us_internal_ssl_socket_context_on_data h c cb
     else us_socket_context_on_data h c cb)"

definition api_us_socket_context_on_writable ::
  "int \<Rightarrow> heap \<Rightarrow> ptr \<Rightarrow> fnptr \<Rightarrow> heap option" where
  "api_us_socket_context_on_writable sl h c cb =
    (if sl \<noteq> 0 then us_internal_ssl_socket_context_on_writable h c cb
     else us_socket_context_on_writable h c cb)"

definition api_us_socket_context_on_long_timeout ::
  "int \<Rightarrow> heap \<Rightarrow> ptr \<Rightarrow> fnptr \<Rightarrow> heap option" where
  "api_us_socket_context_on_long_timeout sl h c cb =
    (if sl \<noteq> 0 then us_internal_ssl_socket_context_on_long_timeout h c cb
     else us_socket_context_on_long_timeout h c cb)"

definition api_us_socket_context_on_timeout ::
  "int \<Rightarrow> heap \<Rightarrow> ptr \<Rightarrow> fnptr \<Rightarrow> heap option" where
  "api_us_socket_context_on_timeout sl h c cb =
    (if sl \<noteq> 0 then us_internal_ssl_socket_context_on_timeout h c cb
     else us_socket_context_on_timeout h c cb)"

definition api_us_socket_context_on_end ::
  "int \<Rightarrow> heap \<Rightarrow> ptr \<Rightarrow> fnptr \<Rightarrow> heap option" where
  "api_us_socket_context_on_end sl h c cb =
    (if sl \<noteq> 0 then us_internal_ssl_socket_context_on_end h c cb
     else us_socket_context_on_end h c cb)"

definition api_us_socket_context_on_connect_error ::
  "int \<Rightarrow> heap \<Rightarrow> ptr \<Rightarrow> fnptr \<Rightarrow> heap option" where
  "api_us_socket_context_on_connect_error sl h c cb =
    (if sl \<noteq> 0 then us_internal_ssl_socket_context_on_connect_error h c cb
     else us_socket_context_on_connect_error h c cb)"

end
