(* ===== verification/Wellformed.thy ===== *)
theory Wellformed
  imports Links
begin

text \<open>
  The invariant of the store.  \<open>shape\<close> is what the lists depend on: the link fields, owners and
  priority states of the sockets, the list heads, the clocks' iterators and which object is what.
  Everything else (timeouts, polls, handlers, descriptors, the history) may change without
  touching the invariant, because the invariant is a predicate of the shape.

  \<open>L\<close> gives for each of the four kinds of socket list (open and listening sockets of a context,
  low-priority queue and close list of a loop) the addresses in it, \<open>C\<close> the contexts of each
  loop.  \<open>ok D S L C\<close> says that the shape realises exactly these lists and that every socket is
  in exactly one list, in a state that fits the list, except for the sockets of \<open>D\<close>, which are in
  no list: operations detach a socket from one list before they attach it to another.
\<close>

subsection \<open>The shape of the store\<close>

record shape =
  nx :: "ptr \<rightharpoonup> ptr"
  pv :: "ptr \<rightharpoonup> ptr"
  hds :: "list_id \<rightharpoonup> ptr"
  ci :: "ptr \<rightharpoonup> ptr"
  owner :: "ptr \<rightharpoonup> ptr"
  lp :: "ptr \<rightharpoonup> u16"
  cnx :: "ptr \<rightharpoonup> ptr"
  cpv :: "ptr \<rightharpoonup> ptr"
  chd :: "ptr \<rightharpoonup> ptr"
  cl :: "ptr \<rightharpoonup> ptr"
  li :: "ptr \<rightharpoonup> ptr"
  pls :: "ptr set"
  cbk :: "ptr set"
  lis :: "ptr set"

definition owner_of :: "(ptr \<rightharpoonup> us_socket_t) \<Rightarrow> ptr \<rightharpoonup> ptr" where
  "owner_of m = (\<lambda>p. map_option s_context (m p))"

definition lp_of :: "(ptr \<rightharpoonup> us_socket_t) \<Rightarrow> ptr \<rightharpoonup> u16" where
  "lp_of m = (\<lambda>p. map_option low_prio_state (m p))"

definition ci_of :: "(ptr \<rightharpoonup> us_socket_context_t) \<Rightarrow> ptr \<rightharpoonup> ptr" where
  "ci_of m = (\<lambda>c. map_option c_iterator (m c))"

definition cl_of :: "(ptr \<rightharpoonup> us_socket_context_t) \<Rightarrow> ptr \<rightharpoonup> ptr" where
  "cl_of m = (\<lambda>c. map_option c_loop (m c))"

definition li_of :: "(ptr \<rightharpoonup> us_loop_t) \<Rightarrow> ptr \<rightharpoonup> ptr" where
  "li_of m = (\<lambda>l. map_option l_iterator (m l))"

lemma views_upd2 [views]:
  "owner_of (m(p \<mapsto> x)) = (owner_of m)(p \<mapsto> s_context x)"
  "lp_of (m(p \<mapsto> x)) = (lp_of m)(p \<mapsto> low_prio_state x)"
  "ci_of (cm(p \<mapsto> y)) = (ci_of cm)(p \<mapsto> c_iterator y)"
  "cl_of (cm(p \<mapsto> y)) = (cl_of cm)(p \<mapsto> c_loop y)"
  "li_of (lm(p \<mapsto> z)) = (li_of lm)(p \<mapsto> l_iterator z)"
  by (auto simp: owner_of_def lp_of_def ci_of_def cl_of_def li_of_def)

lemma views_del2 [views]:
  "owner_of (m(p := None)) = (owner_of m)(p := None)"
  "lp_of (m(p := None)) = (lp_of m)(p := None)"
  "ci_of (cm(p := None)) = (ci_of cm)(p := None)"
  "cl_of (cm(p := None)) = (cl_of cm)(p := None)"
  "li_of (lm(p := None)) = (li_of lm)(p := None)"
  by (auto simp: owner_of_def lp_of_def ci_of_def cl_of_def li_of_def)

lemma views_app2 [views]:
  "owner_of m p = map_option s_context (m p)"
  "lp_of m p = map_option low_prio_state (m p)"
  "ci_of cm p = map_option c_iterator (cm p)"
  "cl_of cm p = map_option c_loop (cm p)"
  "li_of lm p = map_option l_iterator (lm p)"
  by (simp_all add: owner_of_def lp_of_def ci_of_def cl_of_def li_of_def)

lemma views_dom2 [views]:
  "dom (owner_of m) = dom m" "dom (lp_of m) = dom m" "dom (ci_of cm) = dom cm" "dom (cl_of cm) = dom cm"
  "dom (li_of lm) = dom lm"
  by (auto simp: owner_of_def lp_of_def ci_of_def cl_of_def li_of_def)

lemmas views_all_upd = views_upd views_upd2
lemmas views_all_app = views_app views_app2
lemmas views_all_dom = views_dom views_dom2

definition shape :: "heap \<Rightarrow> shape" where
  "shape h = \<lparr>nx = s_nx h, pv = s_pv h, hds = s_hds h, ci = ci_of (ctxs h), owner = owner_of (socks h),
     lp = lp_of (socks h), cnx = c_nx h, cpv = c_pv h, chd = c_hds h, cl = cl_of (ctxs h),
     li = li_of (loops h), pls = dom (polls h), cbk = dom (cbs h), lis = dom (listens h)\<rparr>"

lemma shape_sel [simp]:
  "nx (shape h) = s_nx h" "pv (shape h) = s_pv h" "hds (shape h) = s_hds h" "ci (shape h) = ci_of (ctxs h)"
  "owner (shape h) = owner_of (socks h)" "lp (shape h) = lp_of (socks h)" "cnx (shape h) = c_nx h"
  "cpv (shape h) = c_pv h" "chd (shape h) = c_hds h" "cl (shape h) = cl_of (ctxs h)"
  "li (shape h) = li_of (loops h)" "pls (shape h) = dom (polls h)" "cbk (shape h) = dom (cbs h)"
  "lis (shape h) = dom (listens h)"
  by (simp_all add: shape_def)

subsection \<open>The invariant\<close>

text \<open>
  The state of a socket in a list.  A closed socket is recognised by \<open>prev = context\<close>; a queued
  socket has priority state 1 and belongs to a context of the queue's loop.
\<close>

definition placed :: "shape \<Rightarrow> list_id \<Rightarrow> ptr \<Rightarrow> bool" where
  "placed S k x \<longleftrightarrow> (case k of
       Open c \<Rightarrow> owner S x = Some c \<and> lp S x \<noteq> Some 1 \<and> x \<notin> lis S
     | Listen c \<Rightarrow> owner S x = Some c \<and> lp S x = Some 0 \<and> x \<in> lis S
     | LowPrio l \<Rightarrow> lp S x = Some 1 \<and> (\<exists>c. owner S x = Some c \<and> cl S c = Some l) \<and> x \<notin> lis S
     | Closed l \<Rightarrow> pv S x = owner S x \<and> owner S x \<noteq> Some NULL \<and> lp S x \<noteq> Some 1)"

definition placed_ok :: "ptr set \<Rightarrow> shape \<Rightarrow> (list_id \<Rightarrow> ptr list) \<Rightarrow> bool" where
  "placed_ok D S L \<longleftrightarrow> D \<subseteq> dom (nx S) \<and> (\<forall>x\<in>D. unlisted L x) \<and>
     (\<forall>x\<in>dom (nx S) - D. \<exists>k. x \<in> set (L k) \<and> placed S k x)"

definition layout_ok :: "shape \<Rightarrow> bool" where
  "layout_ok S \<longleftrightarrow> (\<forall>x.
     (x \<in> dom (nx S) \<longrightarrow> x \<in> pls S \<and> x \<notin> cbk S) \<and>
     (x \<in> cbk S \<longrightarrow> x \<in> pls S) \<and>
     (x \<in> lis S \<longrightarrow> x \<in> dom (nx S)) \<and>
     (x \<in> pls S \<longrightarrow> x \<noteq> NULL \<and> x \<notin> dom (cl S) \<and> x \<notin> dom (chd S)) \<and>
     (x \<in> dom (cl S) \<longrightarrow> x \<noteq> NULL \<and> x \<notin> dom (chd S)) \<and>
     (x \<in> dom (chd S) \<longrightarrow> x \<noteq> NULL))"

definition owners_ok :: "shape \<Rightarrow> (list_id \<Rightarrow> ptr list) \<Rightarrow> (ptr \<Rightarrow> ptr list) \<Rightarrow> bool" where
  "owners_ok S L C \<longleftrightarrow>
     (\<forall>c l. cl S c = Some l \<longrightarrow> l \<in> dom (chd S) \<and> c \<in> set (C l)) \<and>
     (\<forall>c i. ci S c = Some i \<longrightarrow> i = NULL \<or> i \<in> set (L (Open c))) \<and>
     (\<forall>l i. li S l = Some i \<longrightarrow> i = NULL \<or> i \<in> set (C l))"

definition ok :: "ptr set \<Rightarrow> shape \<Rightarrow> (list_id \<Rightarrow> ptr list) \<Rightarrow> (ptr \<Rightarrow> ptr list) \<Rightarrow> bool" where
  "ok D S L C \<longleftrightarrow> chains doubly (nx S) (pv S) (hds S) L \<and> chains (\<lambda>_. True) (cnx S) (cpv S) (chd S) C \<and>
     placed_ok D S L \<and> layout_ok S \<and> owners_ok S L C"

abbreviation wfd :: "ptr set \<Rightarrow> heap \<Rightarrow> (list_id \<Rightarrow> ptr list) \<Rightarrow> (ptr \<Rightarrow> ptr list) \<Rightarrow> bool" where
  "wfd D h L C \<equiv> ok D (shape h) L C"

text \<open>Between operations every socket is in a list.\<close>

definition wf :: "heap \<Rightarrow> bool" where
  "wf h \<longleftrightarrow> (\<exists>L C. wfd {} h L C)"

subsection \<open>Reading the invariant\<close>

lemma okD:
  assumes "ok D S L C"
  shows "chains doubly (nx S) (pv S) (hds S) L" "chains (\<lambda>_. True) (cnx S) (cpv S) (chd S) C"
    "placed_ok D S L" "layout_ok S" "owners_ok S L C"
  using assms by (simp_all add: ok_def)

lemma okI:
  assumes "chains doubly (nx S) (pv S) (hds S) L" "chains (\<lambda>_. True) (cnx S) (cpv S) (chd S) C"
    "placed_ok D S L" "layout_ok S" "owners_ok S L C"
  shows "ok D S L C"
  using assms by (simp add: ok_def)

lemma layout_poll:
  assumes "layout_ok S" "x \<in> pls S"
  shows "x \<noteq> NULL" "x \<notin> dom (cl S)" "x \<notin> dom (chd S)"
  using spec [OF assms(1) [unfolded layout_ok_def], of x] assms(2) by simp_all

lemma layout_sock:
  assumes "layout_ok S" "x \<in> dom (nx S)"
  shows "x \<noteq> NULL" "x \<in> pls S" "x \<notin> cbk S" "x \<notin> dom (cl S)" "x \<notin> dom (chd S)"
proof -
  show p: "x \<in> pls S" and "x \<notin> cbk S"
    using spec [OF assms(1) [unfolded layout_ok_def], of x] assms(2) by simp_all
  then show "x \<noteq> NULL" "x \<notin> dom (cl S)" "x \<notin> dom (chd S)" using layout_poll [OF assms(1)] by blast+
qed

lemma layout_ctx:
  assumes "layout_ok S" "c \<in> dom (cl S)"
  shows "c \<noteq> NULL" "c \<notin> pls S" "c \<notin> dom (nx S)" "c \<notin> dom (chd S)"
proof -
  show "c \<noteq> NULL" and "c \<notin> dom (chd S)"
    using spec [OF assms(1) [unfolded layout_ok_def], of c] assms(2) by simp_all
  show p: "c \<notin> pls S" using layout_poll [OF assms(1)] assms(2) by blast
  then show "c \<notin> dom (nx S)" using layout_sock [OF assms(1)] by blast
qed

lemma ok_listed:
  assumes "ok D S L C" "x \<in> set (L k)"
  shows "x \<in> dom (nx S)" "x \<noteq> NULL" "x \<notin> D" "placed S k x"
proof -
  note ch = okD(1) [OF assms(1)] and pl = okD(3) [OF assms(1)]
  show n: "x \<in> dom (nx S)" "x \<noteq> NULL" using chains_mem [OF ch assms(2)] by auto
  show D: "x \<notin> D" using pl assms(2) unfolding placed_ok_def unlisted_def by blast
  obtain k' where "x \<in> set (L k')" "placed S k' x" using pl n D unfolding placed_ok_def by blast
  with chainsD(3) [OF ch assms(2)] show "placed S k x" by blast
qed

lemma ok_place:
  assumes "ok D S L C" "x \<in> dom (nx S)" "x \<notin> D"
  obtains k where "x \<in> set (L k)" "placed S k x"
  using okD(3) [OF assms(1)] assms(2,3) unfolding placed_ok_def by blast

lemma ok_head:
  assumes "ok D S L C" "x \<in> set (L k)"
  obtains d where "hds S k = Some d"
  using chains_mem(3) [OF okD(1) [OF assms(1)] assms(2)] by blast

lemma ok_ctx:
  assumes "ok D S L C" "cl S c = Some l"
  shows "l \<in> dom (chd S)" "c \<in> set (C l)" "c \<noteq> NULL" "c \<notin> pls S"
  using okD(5) [OF assms(1)] assms(2) layout_ctx [OF okD(4) [OF assms(1)], of c]
  unfolding owners_ok_def by blast+

lemma ok_ci: "ok D S L C \<Longrightarrow> ci S c = Some i \<Longrightarrow> i = NULL \<or> i \<in> set (L (Open c))"
  using okD(5) unfolding owners_ok_def by blast

lemma ok_li: "ok D S L C \<Longrightarrow> li S l = Some i \<Longrightarrow> i = NULL \<or> i \<in> set (C l)"
  using okD(5) unfolding owners_ok_def by blast

lemma ok_distinct: "ok D S L C \<Longrightarrow> distinct (L k)"
  by (rule chains_distinct [OF okD(1)])

lemma ok_unique: "ok D S L C \<Longrightarrow> x \<in> set (L k) \<Longrightarrow> x \<in> set (L k') \<Longrightarrow> k = k'"
  by (rule chainsD(3) [OF okD(1)])

text \<open>The lists of a store are determined by it.\<close>

lemma chains_determined:
  assumes "chains dbl n p d L" "chains dbl n p d L'"
  shows "L = L'"
proof
  fix k
  show "L k = L' k"
  proof (cases "d k")
    case None
    then show ?thesis using chainsD(1) [OF assms(1), of k] chainsD(1) [OF assms(2), of k] by simp
  next
    case (Some c)
    from chain_sll [OF chainsD(2) [OF assms(1) Some]] chain_sll [OF chainsD(2) [OF assms(2) Some]]
    show ?thesis by (rule sll_unique)
  qed
qed

lemma ok_determined:
  assumes "ok D S L C" "ok D' S L' C'"
  shows "L = L'" "C = C'"
  using chains_determined [OF okD(1) [OF assms(1)] okD(1) [OF assms(2)]]
    chains_determined [OF okD(2) [OF assms(1)] okD(2) [OF assms(2)]] by blast+

subsection \<open>Reading the invariant of a store\<close>

lemma wfd_sock:
  assumes "wfd D h L C" "socks h x = Some so"
  shows "x \<noteq> NULL" "\<exists>p. polls h x = Some p" "cbs h x = None" "ctxs h x = None" "loops h x = None"
proof -
  have "x \<in> dom (nx (shape h))" using assms(2) by (auto simp: views)
  note l = layout_sock [OF okD(4) [OF assms(1)] this]
  show "x \<noteq> NULL" "\<exists>p. polls h x = Some p" "cbs h x = None" "ctxs h x = None" "loops h x = None"
    using l by (auto simp: views_all_dom)
qed

lemma wfd_listed:
  assumes "wfd D h L C" "x \<in> set (L k)"
  obtains so p where "socks h x = Some so" "polls h x = Some p" "x \<noteq> NULL" "x \<notin> D" "placed (shape h) k x"
proof -
  note l = ok_listed [OF assms]
  from l(1) obtain so where so: "socks h x = Some so" by (auto simp: views_all_dom)
  from wfd_sock(2) [OF assms(1) so] obtain p where "polls h x = Some p" by blast
  with that so l show thesis by blast
qed

lemma wfd_open:
  assumes "wfd D h L C" "x \<in> set (L (Open c))"
  obtains so y z where "socks h x = Some so" "s_context so = c" "ctxs h c = Some y" "loops h (c_loop y) = Some z"
    "low_prio_state so \<noteq> 1"
proof -
  obtain so where so: "socks h x = Some so" "placed (shape h) (Open c) x" using wfd_listed [OF assms] .
  then have s: "s_context so = c" "low_prio_state so \<noteq> 1" by (auto simp: placed_def views)
  obtain d where "hds (shape h) (Open c) = Some d" using ok_head [OF assms] .
  then obtain y where y: "ctxs h c = Some y" by (auto simp: views)
  have "cl (shape h) c = Some (c_loop y)" using y by (simp add: views)
  from ok_ctx(1) [OF assms(1) this] obtain z where "loops h (c_loop y) = Some z"
    by (auto simp: views_all_dom)
  with that so s y show thesis by blast
qed

lemma wfd_ctx:
  assumes "wfd D h L C" "ctxs h c = Some y"
  obtains z where "loops h (c_loop y) = Some z" "c \<in> set (C (c_loop y))"
    "c_iterator y = NULL \<or> c_iterator y \<in> set (L (Open c))" "c \<noteq> NULL" "polls h c = None"
proof -
  have "cl (shape h) c = Some (c_loop y)" "ci (shape h) c = Some (c_iterator y)"
    using assms(2) by (simp_all add: views)
  note k = ok_ctx [OF assms(1) this(1)] ok_ci [OF assms(1) this(2)]
  from k(1) obtain z where "loops h (c_loop y) = Some z" by (auto simp: views_all_dom)
  with that k show thesis by auto
qed

text \<open>The lists of a context and of a loop, as linked lists.\<close>

lemma wfd_open_dll:
  assumes "wfd D h L C" "ctxs h c = Some y"
  shows "dll (s_nx h) (s_pv h) (head_sockets y) (L (Open c))"
  using chains_dll [OF okD(1) [OF assms(1)], of "Open c"] assms(2) by (simp add: views_app)

lemma wfd_listen_dll:
  assumes "wfd D h L C" "ctxs h c = Some y"
  shows "dll (s_nx h) (s_pv h) (head_listen_sockets y) (L (Listen c))"
  using chains_dll [OF okD(1) [OF assms(1)], of "Listen c"] assms(2) by (simp add: views_app)

lemma wfd_low_dll:
  assumes "wfd D h L C" "loops h l = Some z"
  shows "dll (s_nx h) (s_pv h) (low_prio_head z) (L (LowPrio l))"
  using chains_dll [OF okD(1) [OF assms(1)], of "LowPrio l"] assms(2) by (simp add: views_app)

lemma wfd_closed_sll:
  assumes "wfd D h L C" "loops h l = Some z"
  shows "sll (s_nx h) (closed_head z) (L (Closed l))"
  using chainsD(2) [OF okD(1) [OF assms(1)], of "Closed l"] assms(2)
  by (simp add: views_app chain_def)

lemma wfd_ctxs_dll:
  assumes "wfd D h L C" "loops h l = Some z"
  shows "dll (c_nx h) (c_pv h) (l_head z) (C l)"
  using chains_dll [OF okD(2) [OF assms(1)], of l] assms(2) by (simp add: views_app)

text \<open>\<open>us_socket_is_closed\<close>: exactly the sockets of a close list have \<open>prev = context\<close>.\<close>

lemma wfd_closed_iff:
  assumes w: "wfd D h L C" and x: "x \<in> set (L k)" "socks h x = Some so"
  shows "s_prev so = s_context so \<longleftrightarrow> (\<exists>l. k = Closed l)"
proof -
  have pl: "placed (shape h) k x" by (rule ok_listed(4) [OF w x(1)])
  show ?thesis
  proof (cases "doubly k")
    case False
    with pl x(2) show ?thesis by (cases k) (auto simp: placed_def views)
  next
    case True
    note ch = okD(1) [OF w]
    obtain d where "hds (shape h) k = Some d" using ok_head [OF w x(1)] .
    then have dl: "dll (s_nx h) (s_pv h) d (L k)" using chains_dll [OF ch _ True] by simp
    have p: "s_prev so = NULL \<or> s_prev so \<in> set (L k)"
      using dll_prev_mem [OF dl x(1)] x(2) by (simp add: views_app)
    have c: "s_context so \<in> dom (ctxs h)"
    proof (cases k)
      case (LowPrio l)
      with pl x(2) show ?thesis by (auto simp: placed_def views)
    qed (use pl x(2) ok_head [OF w x(1)] True in \<open>auto simp: placed_def views\<close>)
    then obtain y where y: "ctxs h (s_context so) = Some y" by auto
    from wfd_ctx [OF w y] have "s_context so \<noteq> NULL" by blast
    moreover have "s_context so \<notin> set (L k)"
    proof
      assume "s_context so \<in> set (L k)"
      from ok_listed(1) [OF w this] have "s_context so \<in> dom (socks h)" by (simp add: views_all_dom)
      then obtain so' where "socks h (s_context so) = Some so'" by blast
      from wfd_sock(4) [OF w this] y show False by simp
    qed
    ultimately have "s_prev so \<noteq> s_context so" using p by metis
    with True show ?thesis by auto
  qed
qed

end
