(* ===== verification/Frames.thy ===== *)
theory Frames
  imports Wellformed
begin

text \<open>
  How the invariant follows the changes of the shape: detaching a socket from a list, writing to
  a detached socket, attaching it to a list, new and freed objects.  The operations of the
  components are sequences of these steps.
\<close>

lemma placed_upd [simp]:
  "placed (S\<lparr>pls := a\<rparr>) k x = placed S k x" "placed (S\<lparr>cbk := a\<rparr>) k x = placed S k x"
  "placed (S\<lparr>ci := m\<rparr>) k x = placed S k x" "placed (S\<lparr>li := m\<rparr>) k x = placed S k x"
  by (cases k; simp add: placed_def)+

subsection \<open>Detaching and attaching\<close>

lemma unlisted_remove1:
  assumes "ok D S L C" "s \<in> set (L k)"
  shows "unlisted (L(k := remove1 s (L k))) s"
  using ok_unique [OF assms(1,2)] ok_distinct [OF assms(1), of k] by (auto simp: unlisted_def)

lemma ok_detach:
  assumes w: "ok D S L C" and s: "s \<in> set (L k)" "doubly k" and np: "nx S s = Some n" "pv S s = Some p"
    and d: "hds S k = Some d"
  shows "ok (insert s D) (S\<lparr>nx := drop_nx (nx S) p n, pv := drop_pv (pv S) p n,
      hds := if p = NULL then (hds S)(k \<mapsto> n) else hds S,
      ci := \<lambda>c. if k = Open c \<and> ci S c = Some s then Some n else ci S c\<rparr>)
    (L(k := remove1 s (L k))) C"
    (is "ok _ ?S ?L C")
proof (rule okI)
  have ch: "chains doubly (nx S) (pv S) (hds S) L" by (rule okD(1) [OF w])
  have dl: "dll (nx S) (pv S) d (L k)" by (rule chains_dll [OF ch d s(2)])
  have p: "p = NULL \<or> p \<in> set (L k)" by (rule dll_prev_mem [OF dl s(1) np(2)])
  have n: "n = NULL \<or> n \<in> set (L k)" by (rule dll_next_mem [OF dl s(1) np(1)])
  have ns: "n \<noteq> s" by (rule dll_neighbours_neq(2) [OF dl s(1) np])
  have dom: "dom (nx ?S) = dom (nx S)"
    using ok_listed(1) [OF w, of p k] p by (auto simp: drop_nx_def)
  show "chains doubly (nx ?S) (pv ?S) (hds ?S) ?L"
    using chains_remove [OF ch d s(2,1) np] by simp
  show "chains (\<lambda>_. True) (cnx ?S) (cpv ?S) (chd ?S) C" using okD(2) [OF w] by simp
  have keep: "x \<noteq> s \<Longrightarrow> x \<in> set (?L k') \<longleftrightarrow> x \<in> set (L k')" for x k' by simp
  have pl: "placed ?S k' x" if "x \<in> set (L k')" "placed S k' x" for x k'
  proof (cases "doubly k'")
    case True
    with that(2) show ?thesis by (cases k') (auto simp: placed_def)
  next
    case False
    then have "k' \<noteq> k" using s(2) by auto
    then have "x \<noteq> n \<or> n = NULL" using n ok_unique [OF w, of x k k'] that(1) by auto
    then have "drop_pv (pv S) p n x = pv S x"
      using ok_listed(2) [OF w that(1)] by (auto simp: drop_pv_def)
    with that(2) False show ?thesis by (cases k') (auto simp: placed_def)
  qed
  have sd: "s \<in> dom (nx S)" by (rule ok_listed(1) [OF w s(1)])
  show "placed_ok (insert s D) ?S ?L"
    unfolding placed_ok_def
  proof (intro conjI ballI)
    show "insert s D \<subseteq> dom (nx ?S)"
      using okD(3) [OF w] sd dom unfolding placed_ok_def by simp
    show "unlisted ?L x" if "x \<in> insert s D" for x
    proof (cases "x = s")
      case True
      then show ?thesis using unlisted_remove1 [OF w s(1)] by simp
    next
      case False
      with that okD(3) [OF w] have "unlisted L x" unfolding placed_ok_def by blast
      with False show ?thesis by (simp add: unlisted_def)
    qed
    fix x assume "x \<in> dom (nx ?S) - insert s D"
    then have x: "x \<in> dom (nx S)" "x \<notin> D" "x \<noteq> s" using dom by auto
    obtain k' where k': "x \<in> set (L k')" "placed S k' x" using ok_place [OF w x(1,2)] .
    then have "x \<in> set (?L k')" "placed ?S k' x" using keep [OF x(3)] pl by blast+
    then show "\<exists>k. x \<in> set (?L k) \<and> placed ?S k x" by blast
  qed
  show "layout_ok ?S" using okD(4) [OF w] dom by (simp add: layout_ok_def)
  have ci: "i = NULL \<or> i \<in> set (?L (Open c))" if "ci ?S c = Some i" for c i
  proof (cases "k = Open c \<and> ci S c = Some s")
    case True
    with that n ns show ?thesis by auto
  next
    case False
    with that have i: "ci S c = Some i" by simp
    from ok_ci [OF w this] False i show ?thesis by auto
  qed
  show "owners_ok ?S ?L C" using okD(5) [OF w] ci by (simp add: owners_ok_def)
qed

lemma ok_attach_gen:
  assumes w: "ok D S L C" and s: "s \<in> D"
    and ch: "chains doubly nx' pv' hds' (L(k := s # L k))" and dom: "dom nx' = dom (nx S)"
    and ow: "\<And>x. x \<noteq> s \<Longrightarrow> ow' x = owner S x" and lp: "\<And>x. x \<noteq> s \<Longrightarrow> lp' x = lp S x"
    and pv: "\<And>x k'. x \<in> set (L k') \<Longrightarrow> \<not> doubly k' \<Longrightarrow> pv' x = pv S x"
    and pl: "placed (S\<lparr>nx := nx', pv := pv', hds := hds', owner := ow', lp := lp'\<rparr>) k s"
  shows "ok (D - {s}) (S\<lparr>nx := nx', pv := pv', hds := hds', owner := ow', lp := lp'\<rparr>) (L(k := s # L k)) C"
    (is "ok _ ?S ?L C")
proof (rule okI)
  show "chains doubly (nx ?S) (pv ?S) (hds ?S) ?L" using ch by simp
  show "chains (\<lambda>_. True) (cnx ?S) (cpv ?S) (chd ?S) C" using okD(2) [OF w] by simp
  show "layout_ok ?S" using okD(4) [OF w] dom by (simp add: layout_ok_def)
  show "owners_ok ?S ?L C" using okD(5) [OF w] by (auto simp: owners_ok_def)
  have u: "unlisted L s" using okD(3) [OF w] s unfolding placed_ok_def by blast
  show "placed_ok (D - {s}) ?S ?L"
    unfolding placed_ok_def
  proof (intro conjI ballI)
    show "D - {s} \<subseteq> dom (nx ?S)" using okD(3) [OF w] dom unfolding placed_ok_def by auto
    show "unlisted ?L x" if "x \<in> D - {s}" for x
    proof -
      have "unlisted L x" using that okD(3) [OF w] unfolding placed_ok_def by blast
      with that show ?thesis by (simp add: unlisted_def)
    qed
    fix x assume x: "x \<in> dom (nx ?S) - (D - {s})"
    show "\<exists>k. x \<in> set (?L k) \<and> placed ?S k x"
    proof (cases "x = s")
      case True
      with pl show ?thesis by (intro exI [of _ k]) simp
    next
      case False
      with x dom have "x \<in> dom (nx S)" "x \<notin> D" by auto
      then obtain k' where k': "x \<in> set (L k')" "placed S k' x" using ok_place [OF w] by blast
      have "placed ?S k' x"
        using k'(2) ow [OF False] lp [OF False] pv [OF k'(1)]
        by (cases k') (auto simp: placed_def)
      with k'(1) show ?thesis by (intro exI [of _ k']) auto
    qed
  qed
qed

lemma ok_attach:
  assumes w: "ok D S L C" and s: "s \<in> D" and k: "hds S k = Some d" "doubly k"
    and ow: "\<And>x. x \<noteq> s \<Longrightarrow> ow' x = owner S x" and lp: "\<And>x. x \<noteq> s \<Longrightarrow> lp' x = lp S x"
    and pl: "placed (S\<lparr>owner := ow', lp := lp'\<rparr>) k s"
  shows "ok (D - {s}) (S\<lparr>nx := (nx S)(s \<mapsto> d), pv := push_pv (pv S) d s, hds := (hds S)(k \<mapsto> s),
    owner := ow', lp := lp'\<rparr>) (L(k := s # L k)) C"
proof (rule ok_attach_gen [OF w s _ _ ow lp])
  have sn: "s \<in> dom (nx S)" and u: "unlisted L s"
    using okD(3) [OF w] s unfolding placed_ok_def by blast+
  have s0: "s \<noteq> NULL" by (rule layout_sock(1) [OF okD(4) [OF w] sn])
  show "chains doubly ((nx S)(s \<mapsto> d)) (push_pv (pv S) d s) ((hds S)(k \<mapsto> s)) (L(k := s # L k))"
    by (rule chains_push [OF okD(1) [OF w] k s0 u])
  show "dom ((nx S)(s \<mapsto> d)) = dom (nx S)" using sn by auto
  show "placed (S\<lparr>nx := (nx S)(s \<mapsto> d), pv := push_pv (pv S) d s, hds := (hds S)(k \<mapsto> s),
      owner := ow', lp := lp'\<rparr>) k s"
    using pl k(2) by (cases k) (auto simp: placed_def)
  have d: "d = NULL \<or> d \<in> set (L k)" using chains_hd [OF okD(1) [OF w] k(1)] by auto
  show "push_pv (pv S) d s x = pv S x" if "x \<in> set (L k')" "\<not> doubly k'" for x k'
  proof -
    have "x \<noteq> s" using that(1) u by (auto simp: unlisted_def)
    moreover have "x \<noteq> d \<or> d = NULL" using d ok_unique [OF w that(1), of k] that(2) k(2) by auto
    ultimately show ?thesis by (auto simp: push_pv_def)
  qed
qed

lemma ok_attach_closed:
  assumes w: "ok D S L C" and s: "s \<in> D" and k: "hds S (Closed l) = Some d"
    and q: "owner S s = Some q" "q \<noteq> NULL" "lp S s \<noteq> Some 1"
  shows "ok (D - {s}) (S\<lparr>nx := (nx S)(s \<mapsto> d), pv := (pv S)(s \<mapsto> q), hds := (hds S)(Closed l \<mapsto> s)\<rparr>)
    (L(Closed l := s # L (Closed l))) C"
proof -
  have sn: "s \<in> dom (nx S)" and u: "unlisted L s"
    using okD(3) [OF w] s unfolding placed_ok_def by blast+
  have s0: "s \<noteq> NULL" by (rule layout_sock(1) [OF okD(4) [OF w] sn])
  have nd: "\<not> doubly (Closed l)" by simp
  have "ok (D - {s}) (S\<lparr>nx := (nx S)(s \<mapsto> d), pv := (pv S)(s \<mapsto> q), hds := (hds S)(Closed l \<mapsto> s),
      owner := owner S, lp := lp S\<rparr>) (L(Closed l := s # L (Closed l))) C"
  proof (rule ok_attach_gen [OF w s])
    show "chains doubly ((nx S)(s \<mapsto> d)) ((pv S)(s \<mapsto> q)) ((hds S)(Closed l \<mapsto> s)) (L(Closed l := s # L (Closed l)))"
      by (rule chains_push_sll [OF okD(1) [OF w] k nd s0 u])
    show "dom ((nx S)(s \<mapsto> d)) = dom (nx S)" using sn by auto
    show "((pv S)(s \<mapsto> q)) x = pv S x" if "x \<in> set (L k')" for x k'
      using that u by (auto simp: unlisted_def)
  qed (use q in \<open>simp_all add: placed_def\<close>)
  then show ?thesis by simp
qed

text \<open>A detached socket may be written freely.\<close>

lemma ok_write_detached:
  assumes w: "ok D S L C" and s: "s \<in> D"
    and eq: "\<And>x. x \<noteq> s \<Longrightarrow> nx' x = nx S x \<and> pv' x = pv S x \<and> ow' x = owner S x \<and> lp' x = lp S x"
    and dom: "dom nx' = dom (nx S)"
  shows "ok D (S\<lparr>nx := nx', pv := pv', owner := ow', lp := lp'\<rparr>) L C"
    (is "ok _ ?S L C")
proof (rule okI)
  have u: "unlisted L s" using okD(3) [OF w] s unfolding placed_ok_def by blast
  have "chains doubly nx' pv' (hds S) L"
  proof (rule chains_frame [OF okD(1) [OF w]])
    fix x assume "\<not> unlisted L x"
    with u have "x \<noteq> s" by auto
    from eq [OF this] show "nx' x = nx S x \<and> pv' x = pv S x" by blast
  qed
  then show "chains doubly (nx ?S) (pv ?S) (hds ?S) L" by simp
  show "chains (\<lambda>_. True) (cnx ?S) (cpv ?S) (chd ?S) C" using okD(2) [OF w] by simp
  show "layout_ok ?S" using okD(4) [OF w] dom by (simp add: layout_ok_def)
  show "owners_ok ?S L C" using okD(5) [OF w] by (simp add: owners_ok_def)
  show "placed_ok D ?S L"
    unfolding placed_ok_def
  proof (intro conjI ballI)
    show "D \<subseteq> dom (nx ?S)" using okD(3) [OF w] dom unfolding placed_ok_def by simp
    show "unlisted L x" if "x \<in> D" for x using that okD(3) [OF w] unfolding placed_ok_def by blast
    fix x assume "x \<in> dom (nx ?S) - D"
    with dom s have x: "x \<in> dom (nx S)" "x \<notin> D" "x \<noteq> s" by auto
    obtain k where "x \<in> set (L k)" "placed S k x" using ok_place [OF w x(1,2)] .
    with eq [OF x(3)] show "\<exists>k. x \<in> set (L k) \<and> placed ?S k x"
      by (intro exI [of _ k]) (cases k; auto simp: placed_def)
  qed
qed

subsection \<open>New objects\<close>

lemma ok_new_poll:
  assumes "ok D S L C" "p \<noteq> NULL" "p \<notin> dom (cl S)" "p \<notin> dom (chd S)"
  shows "ok D (S\<lparr>pls := insert p (pls S)\<rparr>) L C"
  using assms by (simp add: ok_def placed_ok_def layout_ok_def owners_ok_def)

lemma ok_new_listen:
  assumes w: "ok D S L C" and s: "s \<in> D"
  shows "ok D (S\<lparr>lis := insert s (lis S)\<rparr>) L C"
    (is "ok D ?S L C")
proof (rule okI)
  have sn: "s \<in> dom (nx S)" and u: "unlisted L s"
    using okD(3) [OF w] s unfolding placed_ok_def by blast+
  show "placed_ok D ?S L"
    unfolding placed_ok_def
  proof (intro conjI ballI)
    show "D \<subseteq> dom (nx ?S)" using okD(3) [OF w] unfolding placed_ok_def by simp
    show "unlisted L x" if "x \<in> D" for x using that okD(3) [OF w] unfolding placed_ok_def by blast
    fix x assume "x \<in> dom (nx ?S) - D"
    with s have x: "x \<in> dom (nx S)" "x \<notin> D" "x \<noteq> s" by auto
    obtain k where "x \<in> set (L k)" "placed S k x" using ok_place [OF w x(1,2)] .
    with x(3) show "\<exists>k. x \<in> set (L k) \<and> placed ?S k x"
      by (intro exI [of _ k]) (cases k; auto simp: placed_def)
  qed
  show "layout_ok ?S" using okD(4) [OF w] sn by (auto simp: layout_ok_def)
qed (use okD [OF w] in \<open>simp_all add: owners_ok_def\<close>)

lemma ok_new_cb:
  assumes "ok D S L C" "p \<in> pls S" "p \<notin> dom (nx S)"
  shows "ok D (S\<lparr>cbk := insert p (cbk S)\<rparr>) L C"
  using assms by (simp add: ok_def placed_ok_def layout_ok_def owners_ok_def) blast

lemma ok_new_sock:
  assumes w: "ok D S L C" and p: "p \<in> pls S" "p \<notin> dom (nx S)" "p \<notin> cbk S"
    and eq: "\<And>x. x \<noteq> p \<Longrightarrow> nx' x = nx S x \<and> pv' x = pv S x \<and> ow' x = owner S x \<and> lp' x = lp S x"
    and dom: "dom nx' = insert p (dom (nx S))"
  shows "ok (insert p D) (S\<lparr>nx := nx', pv := pv', owner := ow', lp := lp'\<rparr>) L C"
    (is "ok _ ?S L C")
proof (rule okI)
  have u: "unlisted L p" using ok_listed(1) [OF w] p(2) unfolding unlisted_def by blast
  have "chains doubly nx' pv' (hds S) L"
  proof (rule chains_frame [OF okD(1) [OF w]])
    fix x assume "\<not> unlisted L x"
    with u have "x \<noteq> p" by auto
    from eq [OF this] show "nx' x = nx S x \<and> pv' x = pv S x" by blast
  qed
  then show "chains doubly (nx ?S) (pv ?S) (hds ?S) L" by simp
  show "chains (\<lambda>_. True) (cnx ?S) (cpv ?S) (chd ?S) C" using okD(2) [OF w] by simp
  show "layout_ok ?S" using okD(4) [OF w] dom p by (auto simp: layout_ok_def)
  show "owners_ok ?S L C" using okD(5) [OF w] by (simp add: owners_ok_def)
  show "placed_ok (insert p D) ?S L"
    unfolding placed_ok_def
  proof (intro conjI ballI)
    show "insert p D \<subseteq> dom (nx ?S)" using okD(3) [OF w] dom unfolding placed_ok_def by auto
    show "unlisted L x" if "x \<in> insert p D" for x
      using that okD(3) [OF w] u unfolding placed_ok_def by auto
    fix x assume "x \<in> dom (nx ?S) - insert p D"
    with dom have x: "x \<in> dom (nx S)" "x \<notin> D" "x \<noteq> p" by auto
    obtain k where "x \<in> set (L k)" "placed S k x" using ok_place [OF w x(1,2)] .
    with eq [OF x(3)] show "\<exists>k. x \<in> set (L k) \<and> placed ?S k x"
      by (intro exI [of _ k]) (cases k; auto simp: placed_def)
  qed
qed

text \<open>A new context at the head of the list of its loop; its own lists are empty.\<close>

lemma ok_new_ctx:
  assumes w: "ok D S L C" and l: "chd S l = Some d"
    and c: "c \<noteq> NULL" "c \<notin> dom (cl S)" "c \<notin> pls S" "c \<notin> dom (chd S)"
    and cc: "hds S (Open c) = None" "hds S (Listen c) = None" "unlisted C c"
    and S': "S' = S\<lparr>hds := (hds S)(Open c \<mapsto> NULL, Listen c \<mapsto> NULL), ci := (ci S)(c \<mapsto> NULL),
      cnx := (cnx S)(c \<mapsto> d), cpv := push_pv (cpv S) d c, chd := (chd S)(l \<mapsto> c), cl := (cl S)(c \<mapsto> l)\<rparr>"
  shows "ok D S' L (C(l := c # C l))"
proof (rule okI)
  have "chains doubly (nx S) (pv S) ((hds S)(Open c \<mapsto> NULL)) L"
    by (rule chains_new_owner [OF okD(1) [OF w] cc(1)])
  then have "chains doubly (nx S) (pv S) ((hds S)(Open c \<mapsto> NULL, Listen c \<mapsto> NULL)) L"
    by (rule chains_new_owner) (simp add: cc(2))
  then show "chains doubly (nx S') (pv S') (hds S') L" by (simp add: S')
  show "chains (\<lambda>_. True) (cnx S') (cpv S') (chd S') (C(l := c # C l))"
    using chains_push [OF okD(2) [OF w] l TrueI c(1) cc(3)] by (simp add: S')
  have ld: "l \<in> dom (chd S)" using l by auto
  show "layout_ok S'" using okD(4) [OF w] c ld by (auto simp: layout_ok_def S')
  show "owners_ok S' L (C(l := c # C l))"
    using okD(5) [OF w] ld by (auto simp: owners_ok_def S')
  show "placed_ok D S' L"
    unfolding placed_ok_def
  proof (intro conjI ballI)
    show "D \<subseteq> dom (nx S')" using okD(3) [OF w] unfolding placed_ok_def by (simp add: S')
    show "unlisted L x" if "x \<in> D" for x using that okD(3) [OF w] unfolding placed_ok_def by blast
    fix x assume "x \<in> dom (nx S') - D"
    then have x: "x \<in> dom (nx S)" "x \<notin> D" by (simp_all add: S')
    obtain k where k: "x \<in> set (L k)" "placed S k x" using ok_place [OF w x] .
    have "placed S' k x"
      using k(2) c(2) by (cases k) (auto simp: placed_def S')
    with k(1) show "\<exists>k. x \<in> set (L k) \<and> placed S' k x" by blast
  qed
qed

subsection \<open>Freed objects\<close>

text \<open>Freeing detached sockets.\<close>

lemma ok_free_detached:
  assumes w: "ok D S L C" and X: "X \<subseteq> D"
  shows "ok (D - X) (S\<lparr>nx := nx S |` (- X), pv := pv S |` (- X), owner := owner S |` (- X), lp := lp S |` (- X),
    pls := pls S - X, cbk := cbk S - X, lis := lis S - X\<rparr>) L C"
    (is "ok _ ?S L C")
proof (rule okI)
  have u: "unlisted L x" if "x \<in> X" for x using that X okD(3) [OF w] unfolding placed_ok_def by blast
  have sn: "x \<in> dom (nx S)" if "x \<in> X" for x using that X okD(3) [OF w] unfolding placed_ok_def by blast
  have "chains doubly (nx S |` (- X)) (pv S |` (- X)) (hds S) L"
  proof (rule chains_frame [OF okD(1) [OF w]])
    fix x assume "\<not> unlisted L x"
    with u have "x \<notin> X" by auto
    then show "(nx S |` (- X)) x = nx S x \<and> (pv S |` (- X)) x = pv S x" by simp
  qed
  then show "chains doubly (nx ?S) (pv ?S) (hds ?S) L" by simp
  show "chains (\<lambda>_. True) (cnx ?S) (cpv ?S) (chd ?S) C" using okD(2) [OF w] by simp
  show "layout_ok ?S"
    using okD(4) [OF w] layout_sock(3) [OF okD(4) [OF w] sn]
    by (auto simp: layout_ok_def dom_restrict)
  show "owners_ok ?S L C" using okD(5) [OF w] by (simp add: owners_ok_def)
  show "placed_ok (D - X) ?S L"
    unfolding placed_ok_def
  proof (intro conjI ballI)
    show "D - X \<subseteq> dom (nx ?S)" using okD(3) [OF w] unfolding placed_ok_def by auto
    show "unlisted L x" if "x \<in> D - X" for x using that okD(3) [OF w] unfolding placed_ok_def by blast
    fix x assume "x \<in> dom (nx ?S) - (D - X)"
    then have x: "x \<in> dom (nx S)" "x \<notin> D" "x \<notin> X" using X by (auto split: if_splits)
    obtain k where "x \<in> set (L k)" "placed S k x" using ok_place [OF w x(1,2)] .
    with x(3) show "\<exists>k. x \<in> set (L k) \<and> placed ?S k x"
      by (intro exI [of _ k]) (cases k; auto simp: placed_def)
  qed
qed

text \<open>Emptying the close list of a loop leaves its sockets detached.\<close>

lemma ok_detach_closed:
  assumes w: "ok D S L C" and l: "hds S (Closed l) = Some d"
  shows "ok (D \<union> set (L (Closed l))) (S\<lparr>hds := (hds S)(Closed l \<mapsto> NULL)\<rparr>) (L(Closed l := [])) C"
    (is "ok _ ?S ?L C")
proof (rule okI)
  note ch = okD(1) [OF w]
  show "chains doubly (nx ?S) (pv ?S) (hds ?S) ?L"
  proof (rule chainsI)
    show "?L k = []" if "hds ?S k = None" for k
      using that chainsD(1) [OF ch, of k] by (auto split: if_splits)
    show "chain (doubly k) (nx ?S) (pv ?S) c (?L k)" if "hds ?S k = Some c" for k c
      using that chainsD(2) [OF ch, of k c] by (auto simp: chain_def split: if_splits)
    show "k = k'" if "x \<in> set (?L k)" "x \<in> set (?L k')" for k k' x
      using that chainsD(3) [OF ch, of x k k'] by (auto split: if_splits)
  qed
  show "chains (\<lambda>_. True) (cnx ?S) (cpv ?S) (chd ?S) C" using okD(2) [OF w] by simp
  show "layout_ok ?S" using okD(4) [OF w] by (simp add: layout_ok_def)
  show "owners_ok ?S ?L C" using okD(5) [OF w] by (auto simp: owners_ok_def)
  show "placed_ok (D \<union> set (L (Closed l))) ?S ?L"
    unfolding placed_ok_def
  proof (intro conjI ballI)
    show "D \<union> set (L (Closed l)) \<subseteq> dom (nx ?S)"
      using okD(3) [OF w] ok_listed(1) [OF w] unfolding placed_ok_def by auto
    show "unlisted ?L x" if "x \<in> D \<union> set (L (Closed l))" for x
      unfolding unlisted_def
    proof
      fix k
      show "x \<notin> set (?L k)"
      proof (cases "k = Closed l")
        case False
        with that ok_unique [OF w, of x k "Closed l"] ok_listed(3) [OF w, of x k] show ?thesis by auto
      qed simp
    qed
    fix x assume "x \<in> dom (nx ?S) - (D \<union> set (L (Closed l)))"
    then have x: "x \<in> dom (nx S)" "x \<notin> D" "x \<notin> set (L (Closed l))" by simp_all
    obtain k where k: "x \<in> set (L k)" "placed S k x" using ok_place [OF w x(1,2)] .
    then have "k \<noteq> Closed l" using x(3) by auto
    with k show "\<exists>k. x \<in> set (?L k) \<and> placed ?S k x"
      by (intro exI [of _ k]) (cases k; auto simp: placed_def)
  qed
qed

subsection \<open>Iterators\<close>

lemma ok_set_ci:
  assumes "ok D S L C" "i = NULL \<or> i \<in> set (L (Open c))"
  shows "ok D (S\<lparr>ci := (ci S)(c \<mapsto> i)\<rparr>) L C"
  using assms by (auto simp: ok_def placed_ok_def layout_ok_def owners_ok_def)

lemma ok_set_li:
  assumes "ok D S L C" "i = NULL \<or> i \<in> set (C l)"
  shows "ok D (S\<lparr>li := (li S)(l \<mapsto> i)\<rparr>) L C"
  using assms by (auto simp: ok_def placed_ok_def layout_ok_def owners_ok_def)

end
