(* ===== verification/Demo.thy ===== *)
theory Demo
  imports Store
begin

text \<open>
  A concrete environment and a small concrete store, at which the theorems with hypotheses are
  instantiated: one loop (address 1) with one context (2), two open sockets (3 and 4), and a
  kernel that knows the descriptors of both.  Every handler does nothing and gives back the
  socket it got.
\<close>

definition event_socket :: "cb_event \<Rightarrow> ptr" where
  "event_socket ev = (case ev of OnOpen s _ _ \<Rightarrow> s | OnData s _ \<Rightarrow> s | OnWritable s \<Rightarrow> s
     | OnClose s _ _ \<Rightarrow> s | OnTimeout s \<Rightarrow> s | OnLongTimeout s \<Rightarrow> s | OnEnd s \<Rightarrow> s
     | OnConnectError s _ \<Rightarrow> s | _ \<Rightarrow> 0)"

definition demo_ret :: "trace_t \<Rightarrow> syscall \<Rightarrow> int" where
  "demo_ret t c = (case c of Accept _ \<Rightarrow> -1 | Socket _ _ _ \<Rightarrow> 9 | Send _ bs _ \<Rightarrow> int (length bs) | _ \<Rightarrow> 0)"

definition demo_env :: "backend \<Rightarrow> env" where
  "demo_env b = \<lparr>be = b, sys_ret = demo_ret, sys_errno = (\<lambda>_. 0), sys_data = (\<lambda>_ _. []),
     sys_addr = (\<lambda>_ _. SockOther), sys_ai = (\<lambda>_ _. []), sys_ready = (\<lambda>_ _. []),
     malloc_at = (\<lambda>h. Suc (Max (insert 0 (allocated h)))), malloc_garbage = (\<lambda>_. \<lparr>fd = 0, poll_type = 0\<rparr>),
     realloc_at = (\<lambda>_ p. p), callback = (\<lambda>_ ev h. Some (event_socket ev, h)),
     modules = (\<lambda>_ _ _. None), sys_dgrams = (\<lambda>_ _. []), mem_garbage = (\<lambda>_ _. 0),
     tls_ret = (\<lambda>_ _. 0), tls_data = (\<lambda>_ _. []), tls_bio = (\<lambda>_ _. BioDone),
     ssl_garbage = (\<lambda>_. \<lparr>ssl_read_input = [], ssl_read_input_length = 0, ssl_read_input_offset = 0,
       ssl_socket = 0, last_write_was_msg_more = 0, ssl_msg_more = 0, shared_rbio = 0, shared_wbio = 0,
       shared_biom = 0\<rparr>)\<rparr>"

lemma demo_allocator_ok: "allocator_ok (demo_env b)"
proof -
  have "Suc (Max (insert 0 (allocated h))) \<notin> allocated h" if "finite (allocated h)" for h
  proof
    assume "Suc (Max (insert 0 (allocated h))) \<in> allocated h"
    then have "Suc (Max (insert 0 (allocated h))) \<le> Max (insert 0 (allocated h))"
      using that by (intro Max_ge) auto
    then show False by simp
  qed
  then show ?thesis by (simp add: allocator_ok_def demo_env_def)
qed

definition demo_loop :: us_loop_t where
  "demo_loop = \<lparr>sweep_timer = 0, wakeup_async = 0, last_write_failed = 0, l_head = 2, l_iterator = 0,
     recv_buf = [], ssl_data = 0, pre_cb = UserFn 0, post_cb = UserFn 0, closed_head = 0,
     low_prio_head = 0, low_prio_budget = 0, iteration_nr = 0, num_polls = 2, num_ready_polls = 1,
     current_ready_poll = 0, l_fd = 50, ready_polls = [\<lparr>re_poll = 3, re_events = 1, re_filter = -1, re_flags = 0\<rparr>]\<rparr>"

definition demo_ctx :: us_socket_context_t where
  "demo_ctx = \<lparr>c_loop = 1, global_tick = 0, timestamp = 0, long_timestamp = 0, head_sockets = 3,
     head_listen_sockets = 0, c_iterator = 0, c_prev = 0, c_next = 0, on_open = UserFn 0, on_data = UserFn 0,
     on_writable = UserFn 0, on_close = UserFn 0, on_socket_timeout = UserFn 0,
     on_socket_long_timeout = UserFn 0, on_end = UserFn 0, on_connect_error = UserFn 0,
     is_low_prio = DefaultIsLowPrio\<rparr>"

definition demo_sock :: "ptr \<Rightarrow> ptr \<Rightarrow> us_socket_t" where
  "demo_sock p n = \<lparr>timeout = 255, long_timeout = 255, low_prio_state = 0, s_context = 2, s_prev = p, s_next = n\<rparr>"

text \<open>The same history of system calls serves both backends: each ignores the other's calls.\<close>

definition demo_trace :: trace_t where
  "demo_trace = [Sys (EpollCtl 50 EPOLL_CTL_ADD 60 1 3), Sys (Kevent 50 [EvSet 60 (-1) 1 0 0 3]),
     Sys (EpollCtl 50 EPOLL_CTL_ADD 61 1 4), Sys (Kevent 50 [EvSet 61 (-1) 1 0 0 4])]"

definition demo_heap :: heap where
  "demo_heap = \<lparr>polls = [3 \<mapsto> \<lparr>fd = 60, poll_type = 8\<rparr>, 4 \<mapsto> \<lparr>fd = 61, poll_type = 8\<rparr>],
     socks = [3 \<mapsto> demo_sock 0 4, 4 \<mapsto> demo_sock 3 0], listens = (\<lambda>_. None), cbs = (\<lambda>_. None),
     ctxs = [2 \<mapsto> demo_ctx], loops = [1 \<mapsto> demo_loop], trace = demo_trace, ssl_socks = (\<lambda>_. None), ssl_ctxs = (\<lambda>_. None),
     ssl_datas = (\<lambda>_. None), udps = (\<lambda>_. None), udp_bufs = (\<lambda>_. None)\<rparr>"

lemmas demo_defs = demo_env_def demo_loop_def demo_ctx_def demo_sock_def demo_trace_def demo_heap_def
  demo_ret_def event_socket_def

end
