(* ===== verification/Polling.thy ===== *)
theory Polling
  imports Poll Demo
begin

text \<open>
  What the operations of the event backend do to a poll, and what the kernel ends up waiting for.
  The kernel's side is read off the history of system calls (\<open>kernel_events\<close>): the epoll and
  kqueue interfaces as their manuals describe them.  The pending ready list is treated as a list
  of pointers of which the part still to be dispatched matters.
\<close>

subsection \<open>Results of the operations\<close>

text \<open>The system call by which the backend is told of a change of events.\<close>

definition poll_syscall :: "env \<Rightarrow> ctl_op \<Rightarrow> int \<Rightarrow> int \<Rightarrow> u32 \<Rightarrow> u32 \<Rightarrow> ptr \<Rightarrow> syscall" where
  "poll_syscall E op kfd f old_events new_events p = (case be E of
       Epoll \<Rightarrow> EpollCtl kfd op f new_events p
     | Kqueue_backend \<Rightarrow> Kevent kfd (kq_changes f old_events new_events p))"

definition with_events :: "backend \<Rightarrow> us_poll_t \<Rightarrow> u32 \<Rightarrow> us_poll_t" where
  "with_events b x ev = x\<lparr>poll_type := us_internal_poll_type x OR polling_bits b ev\<rparr>"

lemma with_events_simps [simp]:
  "event_set b ev \<Longrightarrow> us_poll_events b (with_events b x ev) = ev"
  "us_internal_poll_type (with_events b x ev) = us_internal_poll_type x"
  "us_poll_fd (with_events b x ev) = us_poll_fd x"
  "fd (with_events b x ev) = fd x"
proof -
  show "us_poll_events b (with_events b x ev) = ev" if "event_set b ev"
    by (rule poll_events_stored [OF that]) (simp add: with_events_def us_internal_poll_type_def)
  have c: "polling_bits b ev = 0 \<or> polling_bits b ev = 4 \<or> polling_bits b ev = 8 \<or> polling_bits b ev = 12"
    using polling_bits_cases [of b ev] by auto
  show "us_internal_poll_type (with_events b x ev) = us_internal_poll_type x"
    using u4_type_bits(1) [OF c, of "poll_type x"] by (simp add: us_internal_poll_type_def with_events_def)
qed (simp_all add: with_events_def us_poll_fd_def)

lemma us_poll_start_result:
  assumes "polls h p = Some x" "loops h l = Some lp"
  shows "us_poll_start E h p l ev = Some (do_sys (h\<lparr>polls := (polls h)(p \<mapsto> with_events (be E) x ev)\<rparr>)
    (poll_syscall E EPOLL_CTL_ADD (l_fd lp) (us_poll_fd x) 0 ev p))"
  using assms by (simp add: us_poll_start_def set_poll_def poll_syscall_def kqueue_change_def do_sys_def
      us_poll_fd_def with_events_def split: backend.split)

lemma us_poll_change_result:
  assumes "polls h p = Some x" "loops h l = Some lp"
  shows "us_poll_change E h p l ev = Some (if us_poll_events (be E) x = ev then h
    else do_sys (h\<lparr>polls := (polls h)(p \<mapsto> with_events (be E) x ev)\<rparr>)
      (poll_syscall E EPOLL_CTL_MOD (l_fd lp) (us_poll_fd x) (us_poll_events (be E) x) ev p))"
  using assms by (simp add: us_poll_change_def set_poll_def poll_syscall_def kqueue_change_def do_sys_def
      us_poll_fd_def with_events_def split: backend.split)

subsection \<open>What the kernel waits for\<close>

text \<open>
  The kernel's knowledge of one descriptor: the pointer it is registered with (epoll) and, for
  reading and for writing, the pointer that will be reported.  \<open>EPOLL_CTL_ADD\<close> fails on a
  descriptor that is registered, \<open>EPOLL_CTL_MOD\<close> on one that is not; \<open>EV_ADD\<close> on an existing
  filter replaces its pointer; closing a descriptor removes it.
\<close>

record kst =
  k_reg :: "ptr option"
  k_read :: "ptr option"
  k_write :: "ptr option"

definition kst_none :: kst where
  "kst_none = \<lparr>k_reg = None, k_read = None, k_write = None\<rparr>"

definition kst_of :: "backend \<Rightarrow> u32 \<Rightarrow> ptr \<Rightarrow> kst" where
  "kst_of b ev p = \<lparr>k_reg = (case b of Epoll \<Rightarrow> Some p | Kqueue_backend \<Rightarrow> None),
     k_read = (if ev AND LIBUS_SOCKET_READABLE b \<noteq> 0 then Some p else None),
     k_write = (if ev AND LIBUS_SOCKET_WRITABLE b \<noteq> 0 then Some p else None)\<rparr>"

definition epoll_apply :: "int \<Rightarrow> int \<Rightarrow> kst \<Rightarrow> event \<Rightarrow> kst" where
  "epoll_apply kfd f s e = (case e of
       Sys (EpollCtl k op g ev p) \<Rightarrow>
         (if k = kfd \<and> g = f then
            (case op of EPOLL_CTL_ADD \<Rightarrow> (if k_reg s = None then kst_of Epoll ev p else s)
             | EPOLL_CTL_MOD \<Rightarrow> (if k_reg s = None then s else kst_of Epoll ev p)
             | EPOLL_CTL_DEL \<Rightarrow> kst_none)
          else s)
     | Sys (Close g) \<Rightarrow> (if g = f then kst_none else s)
     | _ \<Rightarrow> s)"

definition kq_set :: "int \<Rightarrow> ptr option \<Rightarrow> kst \<Rightarrow> kst" where
  "kq_set filt v s = (if filt = EVFILT_READ then s\<lparr>k_read := v\<rparr>
     else if filt = EVFILT_WRITE then s\<lparr>k_write := v\<rparr> else s)"

definition kq_apply_change :: "int \<Rightarrow> kst \<Rightarrow> kchange \<Rightarrow> kst" where
  "kq_apply_change f s c = (case c of EvSet ident filt flags _ _ ud \<Rightarrow>
     (if ident = f then
        (if flags AND EV_ADD \<noteq> 0 then kq_set filt (Some ud) s
         else if flags AND EV_DELETE \<noteq> 0 then kq_set filt None s else s)
      else s))"

definition kq_apply :: "int \<Rightarrow> int \<Rightarrow> kst \<Rightarrow> event \<Rightarrow> kst" where
  "kq_apply kfd f s e = (case e of
       Sys (Kevent k cs) \<Rightarrow> (if k = kfd then foldl (kq_apply_change f) s cs else s)
     | Sys (Close g) \<Rightarrow> (if g = f then kst_none else s)
     | _ \<Rightarrow> s)"

definition kernel_view :: "backend \<Rightarrow> int \<Rightarrow> trace_t \<Rightarrow> int \<Rightarrow> kst" where
  "kernel_view b kfd t f =
     foldl (case b of Epoll \<Rightarrow> epoll_apply kfd f | Kqueue_backend \<Rightarrow> kq_apply kfd f) kst_none t"

lemmas kernel_defs = kernel_view_def poll_syscall_def epoll_apply_def kq_apply_def

text \<open>The differential change list brings the kernel from the old events to the new ones.\<close>

lemma kq_changes_apply:
  assumes "event_set Kqueue_backend old" "event_set Kqueue_backend new"
  shows "foldl (kq_apply_change f) (kst_of Kqueue_backend old p) (kq_changes f old new p) =
    kst_of Kqueue_backend new p"
  using assms
  by (auto simp: event_set_def event_consts kq_changes_def kq_apply_change_def kq_set_def kst_of_def)

lemma kq_changes_other:
  "f \<noteq> g \<Longrightarrow> foldl (kq_apply_change f) s (kq_changes g old new p) = s"
  by (simp add: kq_changes_def kq_apply_change_def Let_def)

lemma kq_changes_repoint:
  assumes "event_set Kqueue_backend ev"
  shows "foldl (kq_apply_change f) (kst_of Kqueue_backend ev p) (kq_changes f 0 ev q) =
      kst_of Kqueue_backend ev q"
    "foldl (kq_apply_change f) kst_none (kq_changes f 0 ev q) = kst_of Kqueue_backend ev q"
    "foldl (kq_apply_change f) (kst_of Kqueue_backend ev p) (kq_changes f ev 0 q) = kst_none"
  using assms
  by (auto simp: event_set_def event_consts kq_changes_def kq_apply_change_def kq_set_def kst_of_def kst_none_def)

lemma kernel_view_mod:
  assumes "event_set (be E) old" "event_set (be E) new"
    "kernel_view (be E) kfd t f = kst_of (be E) old p"
  shows "kernel_view (be E) kfd (t @ [Sys (poll_syscall E EPOLL_CTL_MOD kfd f old new p)]) f =
    kst_of (be E) new p"
  using assms
  by (cases "be E") (simp_all add: kernel_defs kq_changes_apply, simp add: kst_of_def)

lemma kernel_view_add:
  assumes "event_set (be E) new" "kernel_view (be E) kfd t f = kst_none"
  shows "kernel_view (be E) kfd (t @ [Sys (poll_syscall E EPOLL_CTL_ADD kfd f 0 new p)]) f =
    kst_of (be E) new p"
  using assms
  by (cases "be E") (simp_all add: kernel_defs kq_changes_repoint(2), simp add: kst_none_def)

lemma kernel_view_other:
  assumes "f \<noteq> g"
  shows "kernel_view (be E) kfd (t @ [Sys (poll_syscall E op kfd g old new p)]) f = kernel_view (be E) kfd t f"
  using assms by (cases "be E") (simp_all add: kernel_defs kq_changes_other)

subsection \<open>The pending ready list\<close>

text \<open>
  Replacing a poll in the part of the list from the current entry on: with at most as many
  occurrences as the backend reports, every occurrence is replaced and nothing else changes.
\<close>

definition rename_ready :: "ptr \<Rightarrow> ptr \<Rightarrow> ready_event \<Rightarrow> ready_event" where
  "rename_ready p q r = (if re_poll r = p then r\<lparr>re_poll := q\<rparr> else r)"

lemma rename_ready_id [simp]: "re_poll r \<noteq> p \<Longrightarrow> rename_ready p q r = r"
  by (simp add: rename_ready_def)

lemma map_rename_ready_id: "p \<notin> re_poll ` set rs \<Longrightarrow> map (rename_ready p q) rs = rs"
  by (induction rs) (auto simp: rename_ready_def)

lemma update_ready_done: "n \<le> i \<or> left = 0 \<Longrightarrow> update_ready rs i n left p q = Some rs"
  by (subst update_ready.simps) auto

lemma update_ready_slice:
  assumes "length (filter (\<lambda>r. re_poll r = p) mid) \<le> left" "p \<noteq> q"
  shows "update_ready (pre @ mid @ post) (int (length pre)) (int (length pre + length mid)) left p q =
    Some (pre @ map (rename_ready p q) mid @ post)"
  using assms(1)
proof (induction mid arbitrary: pre left)
  case Nil
  then show ?case by (simp add: update_ready_done)
next
  case (Cons r mid)
  show ?case
  proof (cases "left = 0")
    case True
    with Cons.prems have "filter (\<lambda>r. re_poll r = p) (r # mid) = []" by (simp del: filter.simps)
    then have "p \<notin> re_poll ` set (r # mid)" unfolding filter_empty_conv by auto
    then have "map (rename_ready p q) (r # mid) = r # mid" by (rule map_rename_ready_id)
    with True show ?thesis by (simp add: update_ready_done)
  next
    case False
    have nth: "(pre @ r # mid @ post) ! length pre = r"
      and upd: "(pre @ r # mid @ post)[length pre := x] = (pre @ [x]) @ mid @ post" for x
      by (simp_all add: nth_append)
    have i: "int (length pre) < int (length pre + length (r # mid))" by simp
    show ?thesis
    proof (cases "re_poll r = p")
      case True
      with Cons.prems False have "length (filter (\<lambda>r. re_poll r = p) mid) \<le> left - 1" by simp
      from Cons.IH [OF this, of "pre @ [r\<lparr>re_poll := q\<rparr>]"] True False show ?thesis
        by (subst update_ready.simps) (simp add: nth upd rename_ready_def algebra_simps)
    next
      case neq: False
      with Cons.prems have "length (filter (\<lambda>r. re_poll r = p) mid) \<le> left" by simp
      from Cons.IH [OF this, of "pre @ [r]"] neq False show ?thesis
        by (subst update_ready.simps) (simp add: nth algebra_simps)
    qed
  qed
qed

text \<open>The entries still to be looked at, the current one included.\<close>

definition pending :: "us_loop_t \<Rightarrow> ready_event list" where
  "pending z = take (nat (num_ready_polls z - current_ready_poll z))
     (drop (nat (current_ready_poll z)) (ready_polls z))"

definition max_entries :: "backend \<Rightarrow> nat" where
  "max_entries b = (case b of Epoll \<Rightarrow> 1 | Kqueue_backend \<Rightarrow> 2)"

text \<open>
  The list as the kernel fills it in and the code keeps it: within bounds, each poll in it at most
  as often as the backend reports one.
\<close>

definition ready_list_ok :: "backend \<Rightarrow> us_loop_t \<Rightarrow> bool" where
  "ready_list_ok b z \<longleftrightarrow> 0 \<le> current_ready_poll z \<and> num_ready_polls z \<le> int (length (ready_polls z)) \<and>
     (\<forall>p\<in>re_poll ` set (pending z). p \<noteq> NULL \<longrightarrow>
        length (filter (\<lambda>r. re_poll r = p) (pending z)) \<le> max_entries b)"

lemma ready_split:
  assumes "0 \<le> current_ready_poll z" "num_ready_polls z \<le> int (length (ready_polls z))"
    "current_ready_poll z \<le> num_ready_polls z"
  obtains pre post where "ready_polls z = pre @ pending z @ post"
    "current_ready_poll z = int (length pre)" "num_ready_polls z = int (length pre + length (pending z))"
proof
  let ?c = "nat (current_ready_poll z)" and ?n = "nat (num_ready_polls z)"
  have n: "?c \<le> ?n" "?n \<le> length (ready_polls z)" "nat (num_ready_polls z - current_ready_poll z) = ?n - ?c"
    using assms by auto
  show "ready_polls z = take ?c (ready_polls z) @ pending z @ drop ?n (ready_polls z)"
    unfolding pending_def n(3) using n(1,2)
    by (metis add_diff_inverse_nat append.assoc append_take_drop_id not_less take_add)
  show "current_ready_poll z = int (length (take ?c (ready_polls z)))" using assms by simp
  show "num_ready_polls z = int (length (take ?c (ready_polls z)) + length (pending z))"
    using assms by (simp add: pending_def)
qed

lemma pending_append:
  "ready_polls z = pre @ mid @ post \<Longrightarrow> current_ready_poll z = int (length pre) \<Longrightarrow>
   num_ready_polls z = int (length pre + length mid) \<Longrightarrow> pending z = mid"
  by (simp add: pending_def)

lemma update_pending_result:
  assumes "loops h l = Some z" "ready_list_ok (be E) z" "p \<noteq> NULL" "p \<noteq> q"
  obtains rs where "us_internal_loop_update_pending_ready_polls E h l p q =
      Some (h\<lparr>loops := (loops h)(l \<mapsto> z\<lparr>ready_polls := rs\<rparr>)\<rparr>)"
    "length rs = length (ready_polls z)"
    "pending (z\<lparr>ready_polls := rs\<rparr>) = map (rename_ready p q) (pending z)"
proof -
  have m: "(case be E of Epoll \<Rightarrow> 1 | Kqueue_backend \<Rightarrow> 2) = max_entries (be E)"
    by (simp add: max_entries_def split: backend.split)
  show thesis
  proof (cases "current_ready_poll z \<le> num_ready_polls z")
    case False
    then have "update_ready (ready_polls z) (current_ready_poll z) (num_ready_polls z) left p q =
        Some (ready_polls z)" for left by (simp add: update_ready_done)
    moreover have "pending z = []" using False by (simp add: pending_def)
    ultimately show thesis
      using assms(1) that [of "ready_polls z"]
      by (simp add: us_internal_loop_update_pending_ready_polls_def set_loop_def)
  next
    case True
    obtain pre post where s: "ready_polls z = pre @ pending z @ post"
      "current_ready_poll z = int (length pre)" "num_ready_polls z = int (length pre + length (pending z))"
      using ready_split [OF _ _ True] assms(2) unfolding ready_list_ok_def by blast
    have "length (filter (\<lambda>r. re_poll r = p) (pending z)) \<le> max_entries (be E)"
    proof (cases "p \<in> re_poll ` set (pending z)")
      case True
      with assms(2,3) show ?thesis unfolding ready_list_ok_def by blast
    next
      case False
      then have "filter (\<lambda>r. re_poll r = p) (pending z) = []" by (auto simp: filter_empty_conv)
      then show ?thesis by simp
    qed
    from update_ready_slice [OF this assms(4), of pre post]
    have u: "update_ready (ready_polls z) (current_ready_poll z) (num_ready_polls z) (max_entries (be E)) p q =
        Some (pre @ map (rename_ready p q) (pending z) @ post)"
      using s by simp
    show thesis
    proof (rule that [of "pre @ map (rename_ready p q) (pending z) @ post"])
      show "us_internal_loop_update_pending_ready_polls E h l p q = Some (h\<lparr>loops := (loops h)(l \<mapsto>
          z\<lparr>ready_polls := pre @ map (rename_ready p q) (pending z) @ post\<rparr>)\<rparr>)"
        using assms(1) by (simp add: us_internal_loop_update_pending_ready_polls_def set_loop_def m u)
      show "length (pre @ map (rename_ready p q) (pending z) @ post) = length (ready_polls z)"
        by (subst s(1)) simp
      show "pending (z\<lparr>ready_polls := pre @ map (rename_ready p q) (pending z) @ post\<rparr>) =
          map (rename_ready p q) (pending z)"
        using s by (intro pending_append [of _ pre _ post]) simp_all
    qed
  qed
qed

subsection \<open>Keeping the kernel in step\<close>

text \<open>
  A poll is in step with the kernel when the kernel reports, for its descriptor, exactly the
  events the poll records, with a pointer to the poll.
\<close>

definition poll_in_sync :: "env \<Rightarrow> heap \<Rightarrow> ptr \<Rightarrow> ptr \<Rightarrow> bool" where
  "poll_in_sync E h l p = (case (polls h p, loops h l) of
       (Some x, Some z) \<Rightarrow>
         kernel_view (be E) (l_fd z) (trace h) (us_poll_fd x) = kst_of (be E) (us_poll_events (be E) x) p
     | _ \<Rightarrow> False)"

lemma poll_in_syncE:
  assumes "poll_in_sync E h l p"
  obtains x z where "polls h p = Some x" "loops h l = Some z"
    "kernel_view (be E) (l_fd z) (trace h) (us_poll_fd x) = kst_of (be E) (us_poll_events (be E) x) p"
  using assms by (auto simp: poll_in_sync_def split: option.splits)

lemma demo_in_sync: "poll_in_sync (demo_env b) demo_heap 1 3"
  by (cases b) (simp_all add: poll_in_sync_def demo_defs us_poll_fd_def us_poll_events_def event_consts
      kernel_defs kst_of_def kst_none_def kq_apply_change_def kq_set_def)

lemma demo_ready_list_ok: "ready_list_ok b demo_loop"
  by (cases b) (simp_all add: ready_list_ok_def demo_defs pending_def max_entries_def)

text \<open>
  C12: \<open>us_poll_change\<close> stores exactly the events it is given, keeps the type and the descriptor of
  the poll, and leaves the kernel waiting for exactly these events, on epoll and on kqueue.
\<close>

theorem us_poll_change_in_sync:
  assumes "poll_in_sync E h l p" "event_set (be E) ev"
  shows "\<exists>h' x x'. us_poll_change E h p l ev = Some h' \<and> polls h p = Some x \<and> polls h' p = Some x' \<and>
    us_poll_events (be E) x' = ev \<and> us_internal_poll_type x' = us_internal_poll_type x \<and>
    us_poll_fd x' = us_poll_fd x \<and> poll_in_sync E h' l p"
proof -
  obtain x z where x: "polls h p = Some x" "loops h l = Some z"
    and k: "kernel_view (be E) (l_fd z) (trace h) (us_poll_fd x) = kst_of (be E) (us_poll_events (be E) x) p"
    using poll_in_syncE [OF assms(1)] .
  note r = us_poll_change_result [where E = E, OF x, of ev]
  show ?thesis
  proof (cases "us_poll_events (be E) x = ev")
    case True
    with r x k assms(1) show ?thesis by simp
  next
    case False
    from kernel_view_mod [OF event_set_poll_events assms(2) k] have
      "poll_in_sync E (do_sys (h\<lparr>polls := (polls h)(p \<mapsto> with_events (be E) x ev)\<rparr>)
        (poll_syscall E EPOLL_CTL_MOD (l_fd z) (us_poll_fd x) (us_poll_events (be E) x) ev p)) l p"
      using x assms(2) by (simp add: poll_in_sync_def do_sys_def)
    with r x False assms(2) show ?thesis by (simp add: do_sys_def)
  qed
qed

lemma us_poll_change_in_sync_witness:
  "\<exists>h' x x'. us_poll_change (demo_env Kqueue_backend) demo_heap 3 1 (LIBUS_SOCKET_WRITABLE Kqueue_backend) = Some h' \<and>
    polls demo_heap 3 = Some x \<and> polls h' 3 = Some x' \<and>
    us_poll_events Kqueue_backend x' = LIBUS_SOCKET_WRITABLE Kqueue_backend \<and>
    us_internal_poll_type x' = us_internal_poll_type x \<and> us_poll_fd x' = us_poll_fd x \<and>
    poll_in_sync (demo_env Kqueue_backend) h' 1 3"
  using us_poll_change_in_sync [of "demo_env Kqueue_backend" demo_heap 1 3 "LIBUS_SOCKET_WRITABLE Kqueue_backend"]
    demo_in_sync by (simp add: demo_env_def)

text \<open>
  \<open>us_poll_start\<close> on a descriptor the kernel does not know brings poll and kernel in step on
  the given events.
\<close>

theorem us_poll_start_in_sync:
  assumes "polls h p = Some x" "loops h l = Some z" "event_set (be E) ev"
    "kernel_view (be E) (l_fd z) (trace h) (us_poll_fd x) = kst_none"
  shows "\<exists>h' x'. us_poll_start E h p l ev = Some h' \<and> polls h' p = Some x' \<and>
    us_poll_events (be E) x' = ev \<and> us_internal_poll_type x' = us_internal_poll_type x \<and>
    us_poll_fd x' = us_poll_fd x \<and> poll_in_sync E h' l p"
  using us_poll_start_result [where E = E, OF assms(1,2), of ev] kernel_view_add [OF assms(3,4)] assms
  by (simp add: poll_in_sync_def do_sys_def)

lemma us_poll_stop_result:
  assumes "polls h p = Some x" "loops h l = Some z" "ready_list_ok (be E) z" "p \<noteq> NULL"
  obtains c rs where "us_poll_stop E h p l =
      Some (h\<lparr>loops := (loops h)(l \<mapsto> z\<lparr>ready_polls := rs\<rparr>), trace := trace h @ c\<rparr>)"
    "length rs = length (ready_polls z)"
    "pending (z\<lparr>ready_polls := rs\<rparr>) = map (rename_ready p NULL) (pending z)"
    "kernel_view (be E) (l_fd z) (trace h) (us_poll_fd x) = kst_of (be E) (us_poll_events (be E) x) p \<Longrightarrow>
      kernel_view (be E) (l_fd z) (trace h @ c) (us_poll_fd x) = kst_none"
proof -
  define c where "c = (case be E of
       Epoll \<Rightarrow> [Sys (EpollCtl (l_fd z) EPOLL_CTL_DEL (us_poll_fd x) 0 NULL)]
     | Kqueue_backend \<Rightarrow> (if us_poll_events Kqueue_backend x \<noteq> 0
         then [Sys (Kevent (l_fd z) (kq_changes (us_poll_fd x) (us_poll_events Kqueue_backend x) 0 NULL))] else []))"
  have z: "loops (h\<lparr>trace := trace h @ c\<rparr>) l = Some z" using assms(2) by simp
  obtain rs where rs: "us_internal_loop_update_pending_ready_polls E (h\<lparr>trace := trace h @ c\<rparr>) l p NULL =
      Some ((h\<lparr>trace := trace h @ c\<rparr>)\<lparr>loops := (loops (h\<lparr>trace := trace h @ c\<rparr>))(l \<mapsto> z\<lparr>ready_polls := rs\<rparr>)\<rparr>)"
    and l: "length rs = length (ready_polls z)"
    and pd: "pending (z\<lparr>ready_polls := rs\<rparr>) = map (rename_ready p NULL) (pending z)"
    using update_pending_result [OF z assms(3,4,4)] by blast
  show thesis
  proof (rule that [OF _ l pd])
    show "us_poll_stop E h p l =
      Some (h\<lparr>loops := (loops h)(l \<mapsto> z\<lparr>ready_polls := rs\<rparr>), trace := trace h @ c\<rparr>)"
      using rs assms(1,2)
      by (cases "be E"; cases "us_poll_events Kqueue_backend x = 0")
        (simp_all add: us_poll_stop_def c_def do_sys_def kqueue_change_def)
    assume k: "kernel_view (be E) (l_fd z) (trace h) (us_poll_fd x) = kst_of (be E) (us_poll_events (be E) x) p"
    show "kernel_view (be E) (l_fd z) (trace h @ c) (us_poll_fd x) = kst_none"
    proof (cases "be E")
      case Epoll
      with k show ?thesis by (simp add: c_def kernel_defs kst_of_def kst_none_def)
    next
      case Kqueue_backend
      have ev: "event_set Kqueue_backend (us_poll_events Kqueue_backend x)" by simp
      have "kst_of Kqueue_backend 0 p = kst_none" by (simp add: kst_of_def kst_none_def)
      with k kq_changes_repoint(3) [OF ev] Kqueue_backend show ?thesis
        by (simp add: c_def kernel_defs)
    qed
  qed
qed

lemma us_poll_start_in_sync_witness:
  "\<exists>h' x'. us_poll_start (demo_env Epoll) (demo_heap\<lparr>trace := []\<rparr>) 4 1 (LIBUS_SOCKET_READABLE Epoll) = Some h' \<and>
    polls h' 4 = Some x' \<and> us_poll_events Epoll x' = LIBUS_SOCKET_READABLE Epoll \<and>
    us_internal_poll_type x' = 0 \<and> us_poll_fd x' = 61 \<and> poll_in_sync (demo_env Epoll) h' 1 4"
  using us_poll_start_in_sync [of "demo_heap\<lparr>trace := []\<rparr>" 4 "\<lparr>fd = 61, poll_type = 8\<rparr>" 1 demo_loop "demo_env Epoll"
      "LIBUS_SOCKET_READABLE Epoll"]
  by (simp add: demo_defs kernel_view_def us_internal_poll_type_def us_poll_fd_def)

text \<open>
  After \<open>us_poll_stop\<close> nothing can be dispatched to the poll any more: the kernel has forgotten
  its descriptor, and every pending entry for it is null while the other entries are untouched.
\<close>

theorem us_poll_stop_forgets:
  assumes "poll_in_sync E h l p" "loops h l = Some z" "ready_list_ok (be E) z" "p \<noteq> NULL"
  shows "\<exists>h' x z'. us_poll_stop E h p l = Some h' \<and> polls h p = Some x \<and> loops h' l = Some z' \<and>
    pending z' = map (rename_ready p NULL) (pending z) \<and> p \<notin> re_poll ` set (pending z') \<and>
    kernel_view (be E) (l_fd z) (trace h') (us_poll_fd x) = kst_none"
proof -
  obtain x where x: "polls h p = Some x"
    and k: "kernel_view (be E) (l_fd z) (trace h) (us_poll_fd x) = kst_of (be E) (us_poll_events (be E) x) p"
    using poll_in_syncE [OF assms(1)] assms(2) by auto
  obtain c rs where "us_poll_stop E h p l =
      Some (h\<lparr>loops := (loops h)(l \<mapsto> z\<lparr>ready_polls := rs\<rparr>), trace := trace h @ c\<rparr>)"
    "pending (z\<lparr>ready_polls := rs\<rparr>) = map (rename_ready p NULL) (pending z)"
    "kernel_view (be E) (l_fd z) (trace h @ c) (us_poll_fd x) = kst_none"
    using us_poll_stop_result [where E = E, OF x assms(2,3,4)] k by metis
  then show ?thesis
    using x assms(4) by (auto simp: rename_ready_def split: if_splits)
qed

lemma us_poll_stop_forgets_witness:
  "\<exists>h' x z'. us_poll_stop (demo_env Epoll) demo_heap 3 1 = Some h' \<and> polls demo_heap 3 = Some x \<and>
    loops h' 1 = Some z' \<and> pending z' = map (rename_ready 3 NULL) (pending demo_loop) \<and>
    3 \<notin> re_poll ` set (pending z') \<and> kernel_view Epoll (l_fd demo_loop) (trace h') (us_poll_fd x) = kst_none"
  using us_poll_stop_forgets [of "demo_env Epoll" demo_heap 1 3 demo_loop] demo_in_sync demo_ready_list_ok
  by (simp add: demo_env_def demo_heap_def)

subsection \<open>Resizing a poll\<close>

lemma us_poll_resize_result:
  assumes x: "polls h p = Some x" and z: "loops h l = Some z" "ready_list_ok (be E) z"
    and p: "p \<noteq> NULL" "realloc_at E h p = q" "q \<noteq> p"
    and ev: "us_poll_events (be E) x \<noteq> 0"
  obtains c rs where "us_poll_resize E h p l = Some (q, (move_obj h p q)\<lparr>
      loops := (loops h)(l \<mapsto> z\<lparr>ready_polls := rs\<rparr>), trace := trace h @ c\<rparr>)"
    "pending (z\<lparr>ready_polls := rs\<rparr>) = map (rename_ready p q) (pending z)"
    "length rs = length (ready_polls z)"
    "kernel_view (be E) (l_fd z) (trace h) (us_poll_fd x) = kst_of (be E) (us_poll_events (be E) x) p \<Longrightarrow>
     kernel_view (be E) (l_fd z) (trace h @ c) (us_poll_fd x) = kst_of (be E) (us_poll_events (be E) x) q"
proof -
  let ?ev = "us_poll_events (be E) x"
  let ?m = "move_obj h p q"
  have mq: "polls ?m q = Some x" "trace ?m = trace h" "loops ?m = loops h"
    using x p(3) by (simp_all add: move_obj_def move_key_def)
  define c where "c = [Sys (case be E of
       Epoll \<Rightarrow> EpollCtl (l_fd z) EPOLL_CTL_MOD (us_poll_fd x) ?ev q
     | Kqueue_backend \<Rightarrow> Kevent (l_fd z) (kq_changes (us_poll_fd x) 0 ?ev q))]"
  have z': "loops (?m\<lparr>trace := trace h @ c\<rparr>) l = Some z" using z mq by simp
  obtain rs where rs: "us_internal_loop_update_pending_ready_polls E (?m\<lparr>trace := trace h @ c\<rparr>) l p q =
      Some ((?m\<lparr>trace := trace h @ c\<rparr>)\<lparr>loops := (loops (?m\<lparr>trace := trace h @ c\<rparr>))(l \<mapsto> z\<lparr>ready_polls := rs\<rparr>)\<rparr>)"
    and l: "length rs = length (ready_polls z)"
    and pd: "pending (z\<lparr>ready_polls := rs\<rparr>) = map (rename_ready p q) (pending z)"
    using update_pending_result [OF z' z(2) p(1) p(3) [symmetric]] by blast
  show thesis
  proof (rule that [OF _ pd l])
    show "us_poll_resize E h p l = Some (q, ?m\<lparr>loops := (loops h)(l \<mapsto> z\<lparr>ready_polls := rs\<rparr>),
        trace := trace h @ c\<rparr>)"
    proof (cases "be E")
      case Kqueue_backend
      with rs show ?thesis
        using x z p ev mq by (simp add: us_poll_resize_def c_def kqueue_change_def do_sys_def)
    next
      case Epoll
      let ?x0 = "x\<lparr>poll_type := us_internal_poll_type x\<rparr>"
      have t: "us_internal_poll_type x = poll_type x AND 3" by (simp add: us_internal_poll_type_def)
      have e0: "us_poll_events Epoll ?x0 = 0"
        unfolding t by (simp add: us_poll_events_eq and.assoc)
      have restored: "with_events Epoll ?x0 ?ev = x"
      proof -
        have "(poll_type x AND 3 AND 3) OR polling_bits Epoll ?ev = poll_type x"
          using u4_cases [of "poll_type x"] Epoll
          by (auto simp: us_poll_events_def polling_bits_def event_consts)
        then show ?thesis by (simp add: with_events_def us_internal_poll_type_def and.assoc)
      qed
      let ?m1 = "?m\<lparr>polls := (polls ?m)(q \<mapsto> ?x0)\<rparr>"
      have m1: "polls ?m1 q = Some ?x0" "loops ?m1 l = Some z" using z mq by simp_all
      have "us_poll_change E ?m1 q l ?ev = Some (do_sys (?m1\<lparr>polls := (polls ?m1)(q \<mapsto> x)\<rparr>)
          (EpollCtl (l_fd z) EPOLL_CTL_MOD (us_poll_fd x) ?ev q))"
        using us_poll_change_result [where E = E, OF m1, of ?ev] Epoll e0 restored ev
        by (simp add: poll_syscall_def us_poll_fd_def)
      moreover have "?m1\<lparr>polls := (polls ?m1)(q \<mapsto> x)\<rparr> = ?m" using mq by (simp add: fun_upd_idem)
      ultimately have "us_poll_change E ?m1 q l ?ev = Some (?m\<lparr>trace := trace h @ c\<rparr>)"
        using Epoll mq by (simp add: do_sys_def c_def)
      with rs Epoll show ?thesis
        using x z p ev mq by (simp add: us_poll_resize_def set_poll_def)
    qed
    have es: "event_set (be E) ?ev" by simp
    show "kernel_view (be E) (l_fd z) (trace h @ c) (us_poll_fd x) = kst_of (be E) ?ev q"
      if k: "kernel_view (be E) (l_fd z) (trace h) (us_poll_fd x) = kst_of (be E) ?ev p"
    proof (cases "be E")
      case Epoll
      with k show ?thesis by (simp add: c_def kernel_defs) (simp add: kst_of_def)
    next
      case Kqueue_backend
      with k es kq_changes_repoint(1) show ?thesis by (simp add: c_def kernel_defs)
    qed
  qed
qed



text \<open>
  A poll that polls for nothing (a half-closed or queued socket) is moved without telling the
  kernel: with epoll, which reports errors and hang-ups on every registered descriptor, the kernel
  goes on reporting the old address, where no object is left.
\<close>

theorem us_poll_resize_leaves_stale_pointer:
  assumes "be E = Epoll" "poll_in_sync E h l p" "polls h p = Some x" "loops h l = Some z"
    "realloc_at E h p = q" "q \<noteq> p" "us_poll_events Epoll x = 0"
  shows "\<exists>h'. us_poll_resize E h p l = Some (q, h') \<and> polls h' p = None \<and> polls h' q = Some x \<and>
    k_reg (kernel_view Epoll (l_fd z) (trace h') (us_poll_fd x)) = Some p"
proof -
  have "kernel_view Epoll (l_fd z) (trace h) (us_poll_fd x) = kst_of Epoll 0 p"
    using assms(1-4,7) by (simp add: poll_in_sync_def)
  with assms show ?thesis
    by (simp add: us_poll_resize_def move_obj_def move_key_def kst_of_def)
qed

lemma us_poll_resize_leaves_stale_pointer_witness:
  "\<exists>h'. us_poll_resize ((demo_env Epoll)\<lparr>realloc_at := \<lambda>_ _. 9\<rparr>)
      (demo_heap\<lparr>polls := [3 \<mapsto> \<lparr>fd = 60, poll_type = 0\<rparr>], trace := [Sys (EpollCtl 50 EPOLL_CTL_ADD 60 0 3)]\<rparr>) 3 1 =
      Some (9, h') \<and> polls h' 3 = None \<and> polls h' 9 = Some \<lparr>fd = 60, poll_type = 0\<rparr> \<and>
    k_reg (kernel_view Epoll (l_fd demo_loop) (trace h') (us_poll_fd \<lparr>fd = 60, poll_type = 0\<rparr>)) = Some 3"
  by (rule us_poll_resize_leaves_stale_pointer)
    (simp_all add: demo_defs poll_in_sync_def us_poll_events_def us_poll_fd_def kernel_defs kst_of_def
      kst_none_def)

end
