(* ===== verification/Inv.thy ===== *)
theory Inv
  imports Frames Polling Context
begin

text \<open>
  The invariant of the library between operations: the lists are well formed (\<open>wfd\<close>), each socket
  polls for what its list asks for, the contexts of listed sockets have their handlers, callbacks
  are polls of callback type, and every pending ready entry is null or a live poll of its loop.
  \<open>evolves\<close> is what stays put while user code runs.
\<close>

subsection \<open>The parts of the invariant\<close>

definition is_user :: "fnptr \<Rightarrow> bool" where
  "is_user f \<longleftrightarrow> (case f of UserFn _ \<Rightarrow> True | _ \<Rightarrow> False)"

definition handlers_set :: "us_socket_context_t \<Rightarrow> bool" where
  "handlers_set y \<longleftrightarrow> is_user (on_open y) \<and> is_user (on_data y) \<and> is_user (on_writable y) \<and>
     is_user (on_close y) \<and> is_user (on_socket_timeout y) \<and> is_user (on_socket_long_timeout y) \<and>
     is_user (on_end y) \<and> is_user (on_connect_error y) \<and>
     (is_user (is_low_prio y) \<or> is_low_prio y = DefaultIsLowPrio)"

text \<open>
  What a poll polls for in each list: a socket that is still connecting waits for writable only, a
  listen socket for readable only, a queued socket not for readable.
\<close>

definition poll_ok :: "backend \<Rightarrow> list_id \<Rightarrow> us_poll_t \<Rightarrow> bool" where
  "poll_ok b k p \<longleftrightarrow> (case k of
       Open c \<Rightarrow> us_internal_poll_type p \<noteq> POLL_TYPE_CALLBACK \<and>
         (us_internal_poll_type p = POLL_TYPE_SEMI_SOCKET \<longrightarrow> us_poll_events b p = LIBUS_SOCKET_WRITABLE b)
     | Listen c \<Rightarrow> us_internal_poll_type p = POLL_TYPE_SEMI_SOCKET \<and>
         us_poll_events b p = LIBUS_SOCKET_READABLE b
     | LowPrio l \<Rightarrow> us_internal_poll_type p \<noteq> POLL_TYPE_CALLBACK \<and>
         us_internal_poll_type p \<noteq> POLL_TYPE_SEMI_SOCKET \<and>
         us_poll_events b p AND LIBUS_SOCKET_READABLE b = 0
     | Closed l \<Rightarrow> True)"

definition pollsI :: "backend \<Rightarrow> heap \<Rightarrow> (list_id \<Rightarrow> ptr list) \<Rightarrow> bool" where
  "pollsI b h L \<longleftrightarrow> (\<forall>k x p. x \<in> set (L k) \<longrightarrow> polls h x = Some p \<longrightarrow> poll_ok b k p)"

definition has_handlers :: "heap \<Rightarrow> ptr \<Rightarrow> bool" where
  "has_handlers h c \<longleftrightarrow> (case ctxs h c of Some y \<Rightarrow> handlers_set y | None \<Rightarrow> False)"

definition handI :: "heap \<Rightarrow> (list_id \<Rightarrow> ptr list) \<Rightarrow> bool" where
  "handI h L \<longleftrightarrow> (\<forall>k x so. x \<in> set (L k) \<longrightarrow> doubly k \<longrightarrow> socks h x = Some so \<longrightarrow> has_handlers h (s_context so))"

definition cb_ok :: "heap \<Rightarrow> ptr \<Rightarrow> us_internal_callback_t \<Rightarrow> bool" where
  "cb_ok h x cb \<longleftrightarrow> cb_loop cb \<in> dom (loops h) \<and>
     (case polls h x of Some p \<Rightarrow> us_internal_poll_type p = POLL_TYPE_CALLBACK | None \<Rightarrow> False)"

definition cbsI :: "heap \<Rightarrow> bool" where
  "cbsI h \<longleftrightarrow> (\<forall>x cb. cbs h x = Some cb \<longrightarrow> cb_ok h x cb)"

text \<open>The loop a socket belongs to.\<close>

definition loop_of :: "heap \<Rightarrow> ptr \<Rightarrow> ptr option" where
  "loop_of h x = do { so \<leftarrow> socks h x; y \<leftarrow> ctxs h (s_context so); Some (c_loop y) }"

definition entry_ok :: "heap \<Rightarrow> (list_id \<Rightarrow> ptr list) \<Rightarrow> ptr \<Rightarrow> ptr \<Rightarrow> bool" where
  "entry_ok h L l p \<longleftrightarrow>
     (\<exists>cb. cbs h p = Some cb \<and> cb_loop cb = l \<and> (is_user (cb_cb cb) \<or> cb_cb cb = SweepTimerCb)) \<or>
     (p \<in> dom (socks h) \<and> (\<forall>l'. p \<notin> set (L (Closed l'))) \<and> loop_of h p = Some l)"

definition readyI :: "backend \<Rightarrow> heap \<Rightarrow> (list_id \<Rightarrow> ptr list) \<Rightarrow> bool" where
  "readyI b h L \<longleftrightarrow> (\<forall>l z. loops h l = Some z \<longrightarrow> ready_list_ok b z \<and>
     (\<forall>p\<in>re_poll ` set (pending z). p \<noteq> NULL \<longrightarrow> entry_ok h L l p))"

definition invd ::
  "ptr set \<Rightarrow> env \<Rightarrow> heap \<Rightarrow> (list_id \<Rightarrow> ptr list) \<Rightarrow> (ptr \<Rightarrow> ptr list) \<Rightarrow> bool" where
  "invd D E h L C \<longleftrightarrow> wfd D h L C \<and> finite (allocated h) \<and> pollsI (be E) h L \<and> handI h L \<and> cbsI h \<and>
     readyI (be E) h L"

abbreviation inv_with :: "env \<Rightarrow> heap \<Rightarrow> (list_id \<Rightarrow> ptr list) \<Rightarrow> (ptr \<Rightarrow> ptr list) \<Rightarrow> bool" where
  "inv_with \<equiv> invd {}"

definition inv :: "env \<Rightarrow> heap \<Rightarrow> bool" where
  "inv E h \<longleftrightarrow> (\<exists>L C. inv_with E h L C)"

lemma invD:
  assumes "invd D E h L C"
  shows "wfd D h L C" "finite (allocated h)" "pollsI (be E) h L" "handI h L" "cbsI h" "readyI (be E) h L"
  using assms by (simp_all add: invd_def)

lemma invI:
  assumes "wfd D h L C" "finite (allocated h)" "pollsI (be E) h L" "handI h L" "cbsI h" "readyI (be E) h L"
  shows "invd D E h L C"
  using assms by (simp add: invd_def)

subsection \<open>The shape under updates\<close>

lemma shape_trace [simp]: "shape (h\<lparr>trace := t\<rparr>) = shape h"
  by (simp add: shape_def)

lemma shape_do_sys [simp]: "shape (do_sys h c) = shape h"
  by (simp add: do_sys_def)

lemma shape_polls: "dom m = dom (polls h) \<Longrightarrow> shape (h\<lparr>polls := m\<rparr>) = shape h"
  by (simp add: shape_def)

lemma shape_polls_upd [simp]: "p \<in> dom (polls h) \<Longrightarrow> shape (h\<lparr>polls := (polls h)(p \<mapsto> x)\<rparr>) = shape h"
  by (rule shape_polls) auto

lemma shape_loops:
  assumes "loops h l = Some z" "low_prio_head z' = low_prio_head z" "closed_head z' = closed_head z"
    "l_head z' = l_head z" "l_iterator z' = l_iterator z"
  shows "shape (h\<lparr>loops := (loops h)(l \<mapsto> z')\<rparr>) = shape h"
  using assms by (simp add: shape_def views_all_upd views_all_app fun_upd_idem)

lemma shape_socks:
  assumes "socks h s = Some x" "s_prev x' = s_prev x" "s_next x' = s_next x"
    "s_context x' = s_context x" "low_prio_state x' = low_prio_state x"
  shows "shape (h\<lparr>socks := (socks h)(s \<mapsto> x')\<rparr>) = shape h"
  using assms by (simp add: shape_def views_all_upd views_all_app fun_upd_idem)

lemma shape_ctxs:
  assumes "ctxs h c = Some y" "c_loop y' = c_loop y" "head_sockets y' = head_sockets y"
    "head_listen_sockets y' = head_listen_sockets y" "c_prev y' = c_prev y" "c_next y' = c_next y"
    "c_iterator y' = c_iterator y"
  shows "shape (h\<lparr>ctxs := (ctxs h)(c \<mapsto> y')\<rparr>) = shape h"
  using assms by (simp add: shape_def views_all_upd views_all_app fun_upd_idem)

lemma shape_ctx_iterator:
  assumes "ctxs h c = Some y" "c_loop y' = c_loop y" "head_sockets y' = head_sockets y"
    "head_listen_sockets y' = head_listen_sockets y" "c_prev y' = c_prev y" "c_next y' = c_next y"
    "c_iterator y' = i"
  shows "shape (h\<lparr>ctxs := (ctxs h)(c \<mapsto> y')\<rparr>) = (shape h)\<lparr>ci := (ci (shape h))(c \<mapsto> i)\<rparr>"
  using assms by (simp add: shape_def views_all_upd views_all_app fun_upd_idem)

lemma shape_loop_iterator:
  assumes "loops h l = Some z"
  shows "shape (h\<lparr>loops := (loops h)(l \<mapsto> z\<lparr>l_iterator := i\<rparr>)\<rparr>) =
    (shape h)\<lparr>li := (li (shape h))(l \<mapsto> i)\<rparr>"
  using assms by (simp add: shape_def views_all_upd views_all_app fun_upd_idem)

subsection \<open>Finiteness\<close>

lemma allocated_simps [simp]:
  "allocated (h\<lparr>trace := t\<rparr>) = allocated h" "allocated (do_sys h c) = allocated h"
  by (simp_all add: allocated_def do_sys_def)

lemma finite_allocated:
  "finite (allocated h) \<longleftrightarrow> finite (dom (polls h)) \<and> finite (dom (socks h)) \<and> finite (dom (listens h)) \<and>
     finite (dom (cbs h)) \<and> finite (dom (ctxs h)) \<and> finite (dom (loops h))"
  by (simp add: allocated_def)

lemma finite_shape:
  "shape h' = shape h \<Longrightarrow> finite (allocated h') = finite (allocated h)"
proof -
  assume e: "shape h' = shape h"
  have "dom (nx (shape h')) = dom (nx (shape h))" "dom (cl (shape h')) = dom (cl (shape h))"
    "dom (chd (shape h')) = dom (chd (shape h))" "pls (shape h') = pls (shape h)"
    "cbk (shape h') = cbk (shape h)" "lis (shape h') = lis (shape h)"
    by (simp_all only: e)
  then show ?thesis by (simp add: finite_allocated views_all_dom)
qed

subsection \<open>What stays put while user code runs\<close>

text \<open>The part of a context's socket list that its sweep still has to visit.\<close>

definition rem :: "shape \<Rightarrow> (list_id \<Rightarrow> ptr list) \<Rightarrow> ptr \<Rightarrow> ptr list" where
  "rem S L c = (case ci S c of None \<Rightarrow> [] | Some i \<Rightarrow> dropWhile (\<lambda>x. x \<noteq> i) (L (Open c)))"

lemma rem_cong: "ci S' c = ci S c \<Longrightarrow> L' (Open c) = L (Open c) \<Longrightarrow> rem S' L' c = rem S L c"
  by (cases "ci S c") (simp_all add: rem_def)

lemma rem_Some: "ci S c = Some i \<Longrightarrow> rem S L c = dropWhile (\<lambda>x. x \<noteq> i) (L (Open c))"
  by (simp add: rem_def)

definition ctx_evolves :: "us_socket_context_t \<Rightarrow> us_socket_context_t \<Rightarrow> bool" where
  "ctx_evolves y y' \<longleftrightarrow> c_next y' = c_next y \<and> c_loop y' = c_loop y \<and> global_tick y' = global_tick y \<and>
     timestamp y' = timestamp y \<and> long_timestamp y' = long_timestamp y \<and>
     (handlers_set y \<longrightarrow> handlers_set y')"

definition loop_evolves :: "us_loop_t \<Rightarrow> us_loop_t \<Rightarrow> bool" where
  "loop_evolves z z' \<longleftrightarrow> l_iterator z' = l_iterator z \<and> current_ready_poll z' = current_ready_poll z \<and>
     num_ready_polls z' = num_ready_polls z \<and> pre_cb z' = pre_cb z \<and> post_cb z' = post_cb z \<and>
     sweep_timer z' = sweep_timer z \<and> wakeup_async z' = wakeup_async z"

definition closed_in :: "(list_id \<Rightarrow> ptr list) \<Rightarrow> ptr \<Rightarrow> bool" where
  "closed_in L x \<longleftrightarrow> (\<exists>l. x \<in> set (L (Closed l)))"

definition connecting_in :: "heap \<Rightarrow> (list_id \<Rightarrow> ptr list) \<Rightarrow> ptr \<Rightarrow> bool" where
  "connecting_in h L x \<longleftrightarrow> (\<exists>c. x \<in> set (L (Open c))) \<and>
     (case polls h x of Some p \<Rightarrow> us_internal_poll_type p = POLL_TYPE_SEMI_SOCKET | None \<Rightarrow> False)"

text \<open>\<open>X\<close> are sockets that an operation has taken out of their list and not yet put into another.\<close>

definition evolves_ex ::
  "ptr set \<Rightarrow> heap \<Rightarrow> (list_id \<Rightarrow> ptr list) \<Rightarrow> heap \<Rightarrow> (list_id \<Rightarrow> ptr list) \<Rightarrow> bool" where
  "evolves_ex X h L h' L' \<longleftrightarrow>
     (\<forall>c y. ctxs h c = Some y \<longrightarrow> (\<exists>y'. ctxs h' c = Some y' \<and> ctx_evolves y y')) \<and>
     (\<forall>c. subseq (rem (shape h') L' c) (rem (shape h) L c)) \<and>
     (\<forall>l z. loops h l = Some z \<longrightarrow> (\<exists>z'. loops h' l = Some z' \<and> loop_evolves z z')) \<and>
     (\<forall>x. closed_in L x \<longrightarrow> closed_in L' x) \<and>
     (\<forall>x c. x \<notin> X \<longrightarrow> x \<in> set (L (Listen c)) \<longrightarrow> x \<in> set (L' (Listen c)) \<or> closed_in L' x) \<and>
     (\<forall>x. x \<notin> X \<longrightarrow> connecting_in h L x \<longrightarrow> connecting_in h' L' x \<or> closed_in L' x)"

abbreviation evolves :: "heap \<Rightarrow> (list_id \<Rightarrow> ptr list) \<Rightarrow> heap \<Rightarrow> (list_id \<Rightarrow> ptr list) \<Rightarrow> bool" where
  "evolves \<equiv> evolves_ex {}"

lemma ctx_evolves_refl [simp]: "ctx_evolves y y" by (simp add: ctx_evolves_def)
lemma loop_evolves_refl [simp]: "loop_evolves z z" by (simp add: loop_evolves_def)

lemma ctx_evolves_trans: "ctx_evolves a b \<Longrightarrow> ctx_evolves b c \<Longrightarrow> ctx_evolves a c"
  by (simp add: ctx_evolves_def)

lemma loop_evolves_trans: "loop_evolves a b \<Longrightarrow> loop_evolves b c \<Longrightarrow> loop_evolves a c"
  by (simp add: loop_evolves_def)

lemma evolves_refl [simp]: "evolves_ex X h L h L"
  by (auto simp: evolves_ex_def)

lemma evolvesD:
  assumes "evolves_ex X h L h' L'"
  shows "ctxs h c = Some y \<Longrightarrow> \<exists>y'. ctxs h' c = Some y' \<and> ctx_evolves y y'"
    "subseq (rem (shape h') L' c) (rem (shape h) L c)"
    "loops h l = Some z \<Longrightarrow> \<exists>z'. loops h' l = Some z' \<and> loop_evolves z z'"
    "closed_in L x \<Longrightarrow> closed_in L' x"
    "x \<notin> X \<Longrightarrow> x \<in> set (L (Listen c)) \<Longrightarrow> x \<in> set (L' (Listen c)) \<or> closed_in L' x"
    "x \<notin> X \<Longrightarrow> connecting_in h L x \<Longrightarrow> connecting_in h' L' x \<or> closed_in L' x"
  using assms unfolding evolves_ex_def by blast+

lemma evolves_trans:
  assumes a: "evolves_ex X h L h1 L1" and b: "evolves_ex X h1 L1 h2 L2"
  shows "evolves_ex X h L h2 L2"
  unfolding evolves_ex_def
proof (intro conjI allI impI)
  fix c y assume "ctxs h c = Some y"
  then obtain y1 where "ctxs h1 c = Some y1" "ctx_evolves y y1" using evolvesD(1) [OF a] by blast
  moreover from evolvesD(1) [OF b this(1)] obtain y2 where "ctxs h2 c = Some y2" "ctx_evolves y1 y2" by blast
  ultimately show "\<exists>y'. ctxs h2 c = Some y' \<and> ctx_evolves y y'" using ctx_evolves_trans by blast
next
  show "subseq (rem (shape h2) L2 c) (rem (shape h) L c)" for c
    using subseq_order.trans [OF evolvesD(2) [OF b] evolvesD(2) [OF a]] .
next
  fix l z assume "loops h l = Some z"
  then obtain z1 where "loops h1 l = Some z1" "loop_evolves z z1" using evolvesD(3) [OF a] by blast
  moreover from evolvesD(3) [OF b this(1)] obtain z2 where "loops h2 l = Some z2" "loop_evolves z1 z2" by blast
  ultimately show "\<exists>z'. loops h2 l = Some z' \<and> loop_evolves z z'" using loop_evolves_trans by blast
next
  show "closed_in L2 x" if "closed_in L x" for x using that evolvesD(4) [OF a] evolvesD(4) [OF b] by blast
next
  show "x \<in> set (L2 (Listen c)) \<or> closed_in L2 x" if "x \<notin> X" "x \<in> set (L (Listen c))" for x c
    using evolvesD(5) [OF a that] evolvesD(5) [OF b that(1)] evolvesD(4) [OF b] by blast
next
  show "connecting_in h2 L2 x \<or> closed_in L2 x" if "x \<notin> X" "connecting_in h L x" for x
    using evolvesD(6) [OF a that] evolvesD(6) [OF b that(1)] evolvesD(4) [OF b] by blast
qed

lemma evolves_weaken: "evolves_ex X h L h' L' \<Longrightarrow> X \<subseteq> Y \<Longrightarrow> evolves_ex Y h L h' L'"
  unfolding evolves_ex_def by blast

text \<open>The exempted sockets have ended up closed, or were neither listening nor connecting.\<close>

lemma evolves_settle:
  assumes a: "evolves_ex X h L h' L'"
    and x: "\<And>x. x \<in> X \<Longrightarrow> closed_in L' x \<or> (\<not> connecting_in h L x \<and> (\<forall>c. x \<notin> set (L (Listen c))))"
  shows "evolves h L h' L'"
proof -
  have "x \<in> set (L' (Listen c)) \<or> closed_in L' x" if "x \<in> set (L (Listen c))" for x c
    using that x [of x] evolvesD(5) [OF a] by (cases "x \<in> X") blast+
  moreover have "connecting_in h' L' x \<or> closed_in L' x" if "connecting_in h L x" for x
    using that x [of x] evolvesD(6) [OF a] by (cases "x \<in> X") blast+
  ultimately show ?thesis using a unfolding evolves_ex_def by blast
qed

text \<open>Steps that keep the shape, up to what \<open>evolves\<close> watches.\<close>

lemma evolves_same:
  assumes "shape h' = shape h"
    and "\<And>c y. ctxs h c = Some y \<Longrightarrow> \<exists>y'. ctxs h' c = Some y' \<and> ctx_evolves y y'"
    and "\<And>l z. loops h l = Some z \<Longrightarrow> \<exists>z'. loops h' l = Some z' \<and> loop_evolves z z'"
    and "\<And>x. x \<notin> X \<Longrightarrow> connecting_in h L x \<Longrightarrow> connecting_in h' L x"
  shows "evolves_ex X h L h' L"
  using assms by (simp add: evolves_ex_def)

lemma evolves_trace [simp]: "evolves_ex X h L (h'\<lparr>trace := t\<rparr>) L' = evolves_ex X h L h' L'"
  by (simp add: evolves_ex_def connecting_in_def)

lemma evolves_trace1 [simp]: "evolves_ex X (h\<lparr>trace := t\<rparr>) L h' L' = evolves_ex X h L h' L'"
  by (simp add: evolves_ex_def connecting_in_def)

lemma evolves_do_sys [simp]:
  "evolves_ex X h L (do_sys h' c) L' = evolves_ex X h L h' L'"
  "evolves_ex X (do_sys h c) L h' L' = evolves_ex X h L h' L'"
  by (simp_all add: do_sys_def)

end
