(* ===== verification/Steps.thy ===== *)
theory Steps
  imports Inv
begin

text \<open>
  The invariant under the elementary steps that the operations are made of: writes that keep the
  shape, unlinking and linking a socket, stopping a poll, pushing on the close list.
\<close>

subsection \<open>The parts of the invariant depend on little\<close>

lemma loop_of_shape: "loop_of h x = Option.bind (owner (shape h) x) (cl (shape h))"
  by (cases "socks h x"; cases "ctxs h (s_context (the (socks h x)))")
    (auto simp: loop_of_def views_all_app)

lemma entry_ok_shape:
  "entry_ok h L l p \<longleftrightarrow>
     (\<exists>cb. cbs h p = Some cb \<and> cb_loop cb = l \<and> (is_user (cb_cb cb) \<or> cb_cb cb = SweepTimerCb)) \<or>
     (p \<in> dom (nx (shape h)) \<and> \<not> closed_in L p \<and>
      Option.bind (owner (shape h) p) (cl (shape h)) = Some l)"
  by (simp add: entry_ok_def loop_of_shape views_all_dom closed_in_def)

lemma readyI_cong:
  assumes "readyI b h L" "loops h' = loops h"
    and "\<And>l p. entry_ok h L l p \<Longrightarrow> entry_ok h' L' l p"
  shows "readyI b h' L'"
  using assms unfolding readyI_def by metis

lemma invd_trace [simp]: "invd D E (h\<lparr>trace := t\<rparr>) L C = invd D E h L C"
proof -
  have "entry_ok (h\<lparr>trace := t\<rparr>) L l p = entry_ok h L l p" for l p by (simp add: entry_ok_shape)
  then show ?thesis
    by (simp add: invd_def pollsI_def handI_def has_handlers_def cbsI_def cb_ok_def readyI_def)
qed

lemma invd_do_sys [simp]: "invd D E (do_sys h c) L C = invd D E h L C"
  by (simp add: do_sys_def)

text \<open>The environment is only asked for its backend.\<close>

lemma invd_env: "be E' = be E \<Longrightarrow> invd D E' h L C = invd D E h L C"
  by (simp add: invd_def)

text \<open>Writing to a poll.\<close>

lemma invd_poll:
  assumes i: "invd D E h L C" and p: "polls h p = Some x"
    and ok: "\<And>k. p \<in> set (L k) \<Longrightarrow> poll_ok (be E) k x'"
    and cb: "cbs h p \<noteq> None \<Longrightarrow> us_internal_poll_type x' = us_internal_poll_type x"
  shows "invd D E (h\<lparr>polls := (polls h)(p \<mapsto> x')\<rparr>) L C"
    (is "invd D E ?h L C")
proof (rule invI)
  have sh: "shape ?h = shape h" by (rule shape_polls_upd) (use p in auto)
  show "wfd D ?h L C" using invD(1) [OF i] sh by simp
  show "finite (allocated ?h)" using invD(2) [OF i] finite_shape [OF sh] by simp
  show "pollsI (be E) ?h L" using invD(3) [OF i] ok by (simp add: pollsI_def)
  show "handI ?h L" using invD(4) [OF i] by (simp add: handI_def has_handlers_def)
  show "cbsI ?h"
    unfolding cbsI_def
  proof (intro allI impI)
    fix y c assume "cbs ?h y = Some c"
    then have c: "cbs h y = Some c" by simp
    then have "cb_ok h y c" using invD(5) [OF i] unfolding cbsI_def by blast
    then show "cb_ok ?h y c" using cb p c by (cases "y = p") (simp_all add: cb_ok_def)
  qed
  show "readyI (be E) ?h L"
    by (rule readyI_cong [OF invD(6) [OF i]]) (simp_all add: entry_ok_shape sh)
qed

text \<open>Writing to a socket what no list depends on.\<close>

lemma invd_sock:
  assumes i: "invd D E h L C" and s: "socks h s = Some x" "s_prev x' = s_prev x" "s_next x' = s_next x"
    "s_context x' = s_context x" "low_prio_state x' = low_prio_state x"
  shows "invd D E (h\<lparr>socks := (socks h)(s \<mapsto> x')\<rparr>) L C"
    (is "invd D E ?h L C")
proof (rule invI)
  have sh: "shape ?h = shape h" by (rule shape_socks [OF s])
  show "wfd D ?h L C" using invD(1) [OF i] sh by simp
  show "finite (allocated ?h)" using invD(2) [OF i] finite_shape [OF sh] by simp
  show "pollsI (be E) ?h L" using invD(3) [OF i] by (simp add: pollsI_def)
  have "has_handlers h (s_context so')" if k: "x \<in> set (L k)" "doubly k" "((socks h)(s \<mapsto> x')) x = Some so'" for k x so'
  proof -
    obtain so where so: "socks h x = Some so" "s_context so = s_context so'" using k(3) s by (cases "x = s") auto
    have "has_handlers h (s_context so)" using invD(4) [OF i] k(1,2) so(1) unfolding handI_def by blast
    with so(2) show ?thesis by simp
  qed
  then show "handI ?h L" by (simp add: handI_def has_handlers_def)
  show "cbsI ?h" using invD(5) [OF i] by (simp add: cbsI_def cb_ok_def)
  show "readyI (be E) ?h L"
    by (rule readyI_cong [OF invD(6) [OF i]]) (simp_all add: entry_ok_shape sh)
qed

text \<open>Writing to a context what no list depends on, or its iterator within its list.\<close>

lemma invd_ctx:
  assumes i: "invd D E h L C" and y: "ctxs h c = Some y" "c_loop y' = c_loop y" "head_sockets y' = head_sockets y"
    "head_listen_sockets y' = head_listen_sockets y" "c_prev y' = c_prev y" "c_next y' = c_next y"
    and it: "c_iterator y' = c_iterator y \<or> c_iterator y' = NULL \<or> c_iterator y' \<in> set (L (Open c))"
    and hs: "handlers_set y \<Longrightarrow> handlers_set y'"
  shows "invd D E (h\<lparr>ctxs := (ctxs h)(c \<mapsto> y')\<rparr>) L C"
    (is "invd D E ?h L C")
proof (rule invI)
  have sh: "shape ?h = (shape h)\<lparr>ci := (ci (shape h))(c \<mapsto> c_iterator y')\<rparr>"
    by (rule shape_ctx_iterator [OF y refl])
  have "c_iterator y = NULL \<or> c_iterator y \<in> set (L (Open c))" using wfd_ctx [OF invD(1) [OF i] y(1)] by blast
  with it have it': "c_iterator y' = NULL \<or> c_iterator y' \<in> set (L (Open c))" by metis
  show "wfd D ?h L C" unfolding sh by (rule ok_set_ci [OF invD(1) [OF i] it'])
  have "dom ((ctxs h)(c \<mapsto> y')) = dom (ctxs h)" using y(1) by auto
  then show "finite (allocated ?h)" using invD(2) [OF i] by (simp add: finite_allocated)
  show "pollsI (be E) ?h L" using invD(3) [OF i] by (simp add: pollsI_def)
  have hh: "has_handlers ?h d" if "has_handlers h d" for d
    using that hs y(1) by (auto simp: has_handlers_def)
  then show "handI ?h L" using invD(4) [OF i] by (simp add: handI_def)
  show "cbsI ?h" using invD(5) [OF i] by (simp add: cbsI_def cb_ok_def)
  show "readyI (be E) ?h L"
    by (rule readyI_cong [OF invD(6) [OF i]]) (simp_all add: entry_ok_shape sh)
qed

text \<open>Writing to a loop: its list heads stay, its iterator stays in its list, its ready list stays good.\<close>

lemma invd_loop:
  assumes i: "invd D E h L C" and z: "loops h l = Some z" "low_prio_head z' = low_prio_head z"
    "closed_head z' = closed_head z" "l_head z' = l_head z"
    and it: "l_iterator z' = l_iterator z \<or> l_iterator z' = NULL \<or> l_iterator z' \<in> set (C l)"
    and r: "ready_list_ok (be E) z'"
      "\<And>p. p \<in> re_poll ` set (pending z') \<Longrightarrow> p \<noteq> NULL \<Longrightarrow> entry_ok h L l p"
  shows "invd D E (h\<lparr>loops := (loops h)(l \<mapsto> z')\<rparr>) L C"
    (is "invd D E ?h L C")
proof (rule invI)
  have sh: "shape ?h = (shape h)\<lparr>li := (li (shape h))(l \<mapsto> l_iterator z')\<rparr>"
    using z by (simp add: shape_def views_all_upd views_all_app fun_upd_idem)
  have "li (shape h) l = Some (l_iterator z)" using z(1) by (simp add: views)
  from ok_li [OF invD(1) [OF i] this] it
  have it': "l_iterator z' = NULL \<or> l_iterator z' \<in> set (C l)" by metis
  show "wfd D ?h L C" unfolding sh by (rule ok_set_li [OF invD(1) [OF i] it'])
  have dl: "dom ((loops h)(l \<mapsto> z')) = dom (loops h)" using z(1) by auto
  then show "finite (allocated ?h)" using invD(2) [OF i] by (simp add: finite_allocated)
  show "pollsI (be E) ?h L" using invD(3) [OF i] by (simp add: pollsI_def)
  show "handI ?h L" using invD(4) [OF i] by (simp add: handI_def has_handlers_def)
  show "cbsI ?h" using invD(5) [OF i] dl by (simp add: cbsI_def cb_ok_def)
  have e: "entry_ok ?h L l' p = entry_ok h L l' p" for l' p by (simp add: entry_ok_shape sh)
  show "readyI (be E) ?h L"
    using invD(6) [OF i] r by (simp add: readyI_def e)
qed

lemma readyD:
  assumes "readyI b h L" "loops h l = Some z"
  shows "ready_list_ok b z" "p \<in> re_poll ` set (pending z) \<Longrightarrow> p \<noteq> NULL \<Longrightarrow> entry_ok h L l p"
  using assms unfolding readyI_def by blast+

lemma pending_cong:
  "ready_polls z' = ready_polls z \<Longrightarrow> num_ready_polls z' = num_ready_polls z \<Longrightarrow>
   current_ready_poll z' = current_ready_poll z \<Longrightarrow> pending z' = pending z"
  by (simp add: pending_def)

lemma ready_list_ok_cong:
  "ready_polls z' = ready_polls z \<Longrightarrow> num_ready_polls z' = num_ready_polls z \<Longrightarrow>
   current_ready_poll z' = current_ready_poll z \<Longrightarrow> ready_list_ok b z' = ready_list_ok b z"
  using pending_cong [of z' z] by (simp add: ready_list_ok_def)

text \<open>Writing to a loop what neither the lists nor the ready list depend on.\<close>

lemma invd_loop_plain:
  assumes i: "invd D E h L C" and z: "loops h l = Some z" "low_prio_head z' = low_prio_head z"
    "closed_head z' = closed_head z" "l_head z' = l_head z" "l_iterator z' = l_iterator z"
    "ready_polls z' = ready_polls z" "num_ready_polls z' = num_ready_polls z"
    "current_ready_poll z' = current_ready_poll z"
  shows "invd D E (h\<lparr>loops := (loops h)(l \<mapsto> z')\<rparr>) L C"
proof (rule invd_loop [OF i z(1-4)])
  show "l_iterator z' = l_iterator z \<or> l_iterator z' = NULL \<or> l_iterator z' \<in> set (C l)" using z(5) by simp
  show "ready_list_ok (be E) z'"
    using readyD(1) [OF invD(6) [OF i] z(1)] ready_list_ok_cong [OF z(6-8)] by simp
  show "entry_ok h L l p" if "p \<in> re_poll ` set (pending z')" "p \<noteq> NULL" for p
    using readyD(2) [OF invD(6) [OF i] z(1)] that pending_cong [OF z(6-8)] by simp
qed

text \<open>Stopping a poll takes it out of the pending entries.\<close>

lemma rename_ready_NULL_mem:
  "p \<in> re_poll ` set (map (rename_ready s NULL) rs) \<Longrightarrow> p \<noteq> NULL \<Longrightarrow> p \<in> re_poll ` set rs \<and> p \<noteq> s"
  by (auto simp: rename_ready_def)

lemma filter_rename_NULL:
  "p \<noteq> NULL \<Longrightarrow> p \<noteq> s \<Longrightarrow>
   length (filter (\<lambda>r. re_poll r = p) (map (rename_ready s NULL) rs)) = length (filter (\<lambda>r. re_poll r = p) rs)"
  by (induction rs) (auto simp: rename_ready_def)

lemma ready_list_ok_stop:
  assumes "ready_list_ok b z" "length rs = length (ready_polls z)"
    "pending (z\<lparr>ready_polls := rs\<rparr>) = map (rename_ready s NULL) (pending z)"
  shows "ready_list_ok b (z\<lparr>ready_polls := rs\<rparr>)"
  unfolding ready_list_ok_def assms(3)
proof (intro conjI ballI impI)
  fix p assume p: "p \<in> re_poll ` set (map (rename_ready s NULL) (pending z))" "p \<noteq> NULL"
  from rename_ready_NULL_mem [OF p] have q: "p \<in> re_poll ` set (pending z)" "p \<noteq> s" by auto
  from assms(1) q(1) p(2) have "length (filter (\<lambda>r. re_poll r = p) (pending z)) \<le> max_entries b"
    unfolding ready_list_ok_def by blast
  then show "length (filter (\<lambda>r. re_poll r = p) (map (rename_ready s NULL) (pending z))) \<le> max_entries b"
    using filter_rename_NULL [OF p(2) q(2)] by simp
qed (use assms in \<open>auto simp: ready_list_ok_def\<close>)

lemma us_poll_stop_invd:
  assumes i: "invd D E h L C" and p: "polls h p = Some x" "p \<noteq> NULL" and z: "loops h l = Some z"
  obtains c rs where "us_poll_stop E h p l =
      Some (h\<lparr>loops := (loops h)(l \<mapsto> z\<lparr>ready_polls := rs\<rparr>), trace := trace h @ c\<rparr>)"
    "invd D E (h\<lparr>loops := (loops h)(l \<mapsto> z\<lparr>ready_polls := rs\<rparr>), trace := trace h @ c\<rparr>) L C"
    "p \<notin> re_poll ` set (pending (z\<lparr>ready_polls := rs\<rparr>))"
proof -
  note rl = readyD [OF invD(6) [OF i] z]
  obtain c rs where r: "us_poll_stop E h p l =
      Some (h\<lparr>loops := (loops h)(l \<mapsto> z\<lparr>ready_polls := rs\<rparr>), trace := trace h @ c\<rparr>)"
    "length rs = length (ready_polls z)"
    "pending (z\<lparr>ready_polls := rs\<rparr>) = map (rename_ready p NULL) (pending z)"
    using us_poll_stop_result [where E = E, OF p(1) z rl(1) p(2)] by blast
  have "invd D E (h\<lparr>loops := (loops h)(l \<mapsto> z\<lparr>ready_polls := rs\<rparr>)\<rparr>) L C"
  proof (rule invd_loop [OF i z])
    show "ready_list_ok (be E) (z\<lparr>ready_polls := rs\<rparr>)" by (rule ready_list_ok_stop [OF rl(1) r(2,3)])
    show "entry_ok h L l q" if "q \<in> re_poll ` set (pending (z\<lparr>ready_polls := rs\<rparr>))" "q \<noteq> NULL" for q
      using rename_ready_NULL_mem [of q p "pending z"] that rl(2) r(3) by simp
  qed simp_all
  moreover have "p \<notin> re_poll ` set (pending (z\<lparr>ready_polls := rs\<rparr>))"
    using rename_ready_NULL_mem [of p p "pending z"] p(2) r(3) by auto
  ultimately show thesis using r(1) by (intro that [of c rs]) simp_all
qed

subsection \<open>Unlinking and linking\<close>

lemma relinked_sockD:
  assumes "relinked m m'" "m' x = Some so'"
  obtains so where "m x = Some so" "s_context so' = s_context so" "low_prio_state so' = low_prio_state so"
    "timeout so' = timeout so" "long_timeout so' = long_timeout so"
proof -
  have "rel_option (\<lambda>x x'. x' = x\<lparr>s_prev := s_prev x', s_next := s_next x'\<rparr>) (m x) (m' x)"
    using assms(1) unfolding relinked_def by blast
  with assms(2) obtain so where so: "m x = Some so" "so' = so\<lparr>s_prev := s_prev so', s_next := s_next so'\<rparr>"
    by (auto elim: option.rel_cases)
  have "s_context so' = s_context so \<and> low_prio_state so' = low_prio_state so \<and>
      timeout so' = timeout so \<and> long_timeout so' = long_timeout so"
    by (subst so(2), subst so(2), subst so(2), subst so(2)) simp
  with so(1) that show thesis by blast
qed

lemma relinked_sockD2:
  assumes "relinked m m'" "m x = Some so"
  obtains so' where "m' x = Some so'" "s_context so' = s_context so" "low_prio_state so' = low_prio_state so"
    "timeout so' = timeout so" "long_timeout so' = long_timeout so"
proof -
  have "rel_option (\<lambda>x x'. x' = x\<lparr>s_prev := s_prev x', s_next := s_next x'\<rparr>) (m x) (m' x)"
    using assms(1) unfolding relinked_def by blast
  with assms(2) obtain so' where so': "m' x = Some so'" by (auto elim: option.rel_cases)
  from relinked_sockD [OF assms(1) so'] assms(2) so' that show thesis by (metis option.inject)
qed

lemma relinked_views:
  assumes "relinked m m'"
  shows "owner_of m' = owner_of m" "lp_of m' = lp_of m" "dom m' = dom m"
proof -
  show d: "dom m' = dom m"
  proof (rule set_eqI)
    fix x
    show "x \<in> dom m' \<longleftrightarrow> x \<in> dom m"
      using relinked_sockD [OF assms, of x] relinked_sockD2 [OF assms, of x] by (metis domD domI)
  qed
  have "owner_of m' x = owner_of m x \<and> lp_of m' x = lp_of m x" for x
  proof (cases "m' x")
    case None
    then have "x \<notin> dom m'" by auto
    with d None show ?thesis by (auto simp: views)
  next
    case (Some so')
    from relinked_sockD [OF assms Some] Some show ?thesis by (metis option.map(2) views_app2(1,2))
  qed
  then show "owner_of m' = owner_of m" "lp_of m' = lp_of m" by auto
qed

lemma subseq_remove1: "subseq (remove1 s xs) xs"
  by (induction xs) auto

lemma subseq_dropWhile_remove1:
  "i \<noteq> s \<Longrightarrow> subseq (dropWhile (\<lambda>x. x \<noteq> i) (remove1 s xs)) (dropWhile (\<lambda>x. x \<noteq> i) xs)"
proof (induction xs)
  case (Cons a xs)
  show ?case
  proof (cases "a = s")
    case True
    with Cons.prems show ?thesis by simp
  next
    case False
    show ?thesis
    proof (cases "a = i")
      case True
      with False subseq_remove1 [of s "a # xs"] show ?thesis by simp
    qed (use False Cons in simp)
  qed
qed simp

text \<open>Removing the element that is waited for and going on with its successor.\<close>

lemma subseq_dropWhile_next:
  assumes dis: "distinct (as @ s # bs)" and n: "n = (if bs = [] then NULL else hd bs)" and N: "NULL \<notin> set as"
  shows "subseq (dropWhile (\<lambda>x. x \<noteq> n) (as @ bs)) (dropWhile (\<lambda>x. x \<noteq> s) (as @ s # bs))"
proof -
  have "dropWhile (\<lambda>x. x \<noteq> s) (as @ s # bs) = s # bs"
    using dis by (subst dropWhile_append2) auto
  moreover have "x \<noteq> n" if "x \<in> set as" for x
    using that N n dis hd_in_set [of bs] by (cases "x = NULL") (auto split: if_splits)
  then have "dropWhile (\<lambda>x. x \<noteq> n) (as @ bs) = dropWhile (\<lambda>x. x \<noteq> n) bs"
    by (subst dropWhile_append2) auto
  moreover have "subseq (dropWhile (\<lambda>x. x \<noteq> n) bs) bs"
    by (metis suffix_dropWhile suffix_imp_subseq)
  ultimately show ?thesis by (simp add: list_emb_Cons)
qed

text \<open>Moving one socket to another list, or out of all lists.\<close>

lemma invd_move:
  assumes i: "invd D E h L C" and w: "wfd D' h' L' C'"
    and L: "\<And>x k. x \<in> set (L' k) \<Longrightarrow> x \<noteq> s \<and> x \<in> set (L k) \<or> x = s \<and> k = k0"
    and po: "\<And>p. s \<in> set (L' k0) \<Longrightarrow> polls h s = Some p \<Longrightarrow> poll_ok (be E) k0 p"
    and ha: "\<And>so. s \<in> set (L' k0) \<Longrightarrow> doubly k0 \<Longrightarrow> socks h' s = Some so \<Longrightarrow> has_handlers h' (s_context so)"
    and same: "polls h' = polls h" "cbs h' = cbs h" "finite (allocated h')"
    and ow: "\<And>x. x \<noteq> s \<Longrightarrow> owner (shape h') x = owner (shape h) x"
    and hh: "\<And>c. has_handlers h c \<Longrightarrow> has_handlers h' c"
    and lo: "\<And>l z'. loops h' l = Some z' \<Longrightarrow> \<exists>z. loops h l = Some z \<and> ready_polls z' = ready_polls z \<and>
      num_ready_polls z' = num_ready_polls z \<and> current_ready_poll z' = current_ready_poll z"
    and ld: "dom (loops h') = dom (loops h)"
    and en: "\<And>l z p. loops h l = Some z \<Longrightarrow> p \<in> re_poll ` set (pending z) \<Longrightarrow> p \<noteq> NULL \<Longrightarrow>
      entry_ok h L l p \<Longrightarrow> entry_ok h' L' l p"
  shows "invd D' E h' L' C'"
proof (rule invI [OF w same(3)])
  show "pollsI (be E) h' L'"
    unfolding pollsI_def
  proof (intro allI impI)
    fix k x p assume x: "x \<in> set (L' k)" and p: "polls h' x = Some p"
    show "poll_ok (be E) k p"
    proof (cases "x = s")
      case True
      with L [OF x] have "k = k0" by blast
      with True po x p same(1) show ?thesis by simp
    next
      case False
      with L [OF x] have "x \<in> set (L k)" by blast
      with invD(3) [OF i] p same(1) show ?thesis unfolding pollsI_def by simp
    qed
  qed
  show "handI h' L'"
    unfolding handI_def
  proof (intro allI impI)
    fix k x so' assume x: "x \<in> set (L' k)" "doubly k" and so': "socks h' x = Some so'"
    show "has_handlers h' (s_context so')"
    proof (cases "x = s")
      case True
      with L [OF x(1)] have "k = k0" by blast
      with True ha x so' show ?thesis by simp
    next
      case False
      with L [OF x(1)] have xk: "x \<in> set (L k)" by blast
      have o: "owner_of (socks h) x = Some (s_context so')"
        using ow [OF False] so' by (simp add: views)
      then obtain so where so: "socks h x = Some so" "s_context so = s_context so'" by (auto simp: views)
      from invD(4) [OF i] xk x(2) so(1) have "has_handlers h (s_context so)" unfolding handI_def by blast
      with so(2) hh show ?thesis by simp
    qed
  qed
  show "cbsI h'" using invD(5) [OF i] same ld by (simp add: cbsI_def cb_ok_def)
  show "readyI (be E) h' L'"
    unfolding readyI_def
  proof (intro allI impI conjI ballI)
    fix l z' assume z': "loops h' l = Some z'"
    then obtain z where z: "loops h l = Some z" "ready_polls z' = ready_polls z"
      "num_ready_polls z' = num_ready_polls z" "current_ready_poll z' = current_ready_poll z" using lo by blast
    note r = readyD [OF invD(6) [OF i] z(1)]
    show "ready_list_ok (be E) z'" using r(1) ready_list_ok_cong [OF z(2-4)] by simp
    fix p assume "p \<in> re_poll ` set (pending z')" "p \<noteq> NULL"
    with pending_cong [OF z(2-4)] have "p \<in> re_poll ` set (pending z)" "p \<noteq> NULL" by simp_all
    with r(2) en [OF z(1)] show "entry_ok h' L' l p" by blast
  qed
qed

lemma has_handlers_ctx_upd:
  assumes "has_handlers h c'" "ctxs h c = Some y" "handlers_set y \<Longrightarrow> handlers_set y'"
    "ctxs h' = (ctxs h)(c \<mapsto> y')"
  shows "has_handlers h' c'"
  using assms by (auto simp: has_handlers_def)

lemma unlink_invd:
  assumes i: "invd D E h L C" and s: "s \<in> set (L (Open c))"
  obtains so y m it d where "socks h s = Some so" "ctxs h c = Some y"
    "us_internal_socket_context_unlink_socket h c s =
      Some (h\<lparr>socks := m, ctxs := (ctxs h)(c \<mapsto> y\<lparr>c_iterator := it, head_sockets := d\<rparr>)\<rparr>)"
    "relinked (socks h) m"
    "invd (insert s D) E (h\<lparr>socks := m, ctxs := (ctxs h)(c \<mapsto> y\<lparr>c_iterator := it, head_sockets := d\<rparr>)\<rparr>)
      (L(Open c := remove1 s (L (Open c)))) C"
    "evolves_ex {s} h L (h\<lparr>socks := m, ctxs := (ctxs h)(c \<mapsto> y\<lparr>c_iterator := it, head_sockets := d\<rparr>)\<rparr>)
      (L(Open c := remove1 s (L (Open c))))"
proof -
  have w: "wfd D h L C" by (rule invD(1) [OF i])
  note ch = okD(1) [OF w]
  obtain so y z where so: "socks h s = Some so" and y: "ctxs h c = Some y" using wfd_open [OF w s] by blast
  let ?n = "s_next so" and ?p = "s_prev so"
  have dl: "dll (s_nx h) (s_pv h) (head_sockets y) (L (Open c))" by (rule wfd_open_dll [OF w y])
  have np: "s_nx h s = Some ?n" "s_pv h s = Some ?p" using so by (simp_all add: views)
  have mem: "\<And>x. x \<in> set (L (Open c)) \<Longrightarrow> x \<in> dom (socks h)"
    using ok_listed(1) [OF w] by (simp add: views_all_dom)
  have n: "?n = NULL \<or> ?n \<in> dom (socks h)" using dll_next_mem [OF dl s np(1)] mem by blast
  have p: "?p = NULL \<or> ?p \<in> dom (socks h)" using dll_prev_mem [OF dl s np(2)] mem by blast
  have neq: "?p \<noteq> s" "?n \<noteq> s" using dll_neighbours_neq [OF dl s np] by auto
  have last: "?p = ?n \<longrightarrow> ?p = NULL"
    using dll_prev_eq_next [OF dl s np] dl np by (auto simp: dll_def)
  let ?it = "if c_iterator y = s then ?n else c_iterator y"
  let ?d = "if ?p = NULL then ?n else head_sockets y"
  obtain m where r: "us_internal_socket_context_unlink_socket h c s = Some (h\<lparr>socks := m, ctxs := (ctxs h)(c \<mapsto>
      y\<lparr>c_iterator := ?it, head_sockets := ?d\<rparr>)\<rparr>)" and rel: "relinked (socks h) m"
    and vm: "nx_of m = drop_nx (s_nx h) ?p ?n" "pv_of m = drop_pv (s_pv h) ?p ?n"
    using unlink_socket_result [OF y so refl refl n p last neq] by blast
  let ?h = "h\<lparr>socks := m, ctxs := (ctxs h)(c \<mapsto> y\<lparr>c_iterator := ?it, head_sockets := ?d\<rparr>)\<rparr>"
  let ?L = "L(Open c := remove1 s (L (Open c)))"
  have hd: "hds (shape h) (Open c) = Some (head_sockets y)" using y by (simp add: views)
  have hdsame: "(s_hds h)(Open c \<mapsto> head_sockets y) = s_hds h" using y by (simp add: views fun_upd_idem)
  have hd': "hds_of ((ctxs h)(c \<mapsto> y\<lparr>c_iterator := ?it, head_sockets := ?d\<rparr>)) (loops h) =
      (if ?p = NULL then (s_hds h)(Open c \<mapsto> ?n) else s_hds h)"
    using y hdsame by (simp add: hds_keep(3))
  have ci': "ci_of ((ctxs h)(c \<mapsto> y\<lparr>c_iterator := ?it, head_sockets := ?d\<rparr>)) =
      (\<lambda>c'. if Open c = Open c' \<and> ci_of (ctxs h) c' = Some s then Some ?n else ci_of (ctxs h) c')"
    using y by (auto simp: views_all_upd views_all_app fun_eq_iff)
  have ct': "cnx_of ((ctxs h)(c \<mapsto> y\<lparr>c_iterator := ?it, head_sockets := ?d\<rparr>)) = c_nx h"
    "cpv_of ((ctxs h)(c \<mapsto> y\<lparr>c_iterator := ?it, head_sockets := ?d\<rparr>)) = c_pv h"
    "cl_of ((ctxs h)(c \<mapsto> y\<lparr>c_iterator := ?it, head_sockets := ?d\<rparr>)) = cl_of (ctxs h)"
    using y by (simp_all add: views_all_upd views_all_app fun_upd_idem)
  have sh: "shape ?h = (shape h)\<lparr>nx := drop_nx (nx (shape h)) ?p ?n, pv := drop_pv (pv (shape h)) ?p ?n,
      hds := if ?p = NULL then (hds (shape h))(Open c \<mapsto> ?n) else hds (shape h),
      ci := \<lambda>c'. if Open c = Open c' \<and> ci (shape h) c' = Some s then Some ?n else ci (shape h) c'\<rparr>"
    using vm hd' ci' ct' relinked_views [OF rel] by (simp add: shape_def cong: if_cong)
  have w': "wfd (insert s D) ?h ?L C"
    unfolding sh by (rule ok_detach [OF w s _ _ _ hd]) (use np in simp_all)
  have dis: "distinct (L (Open c))" by (rule ok_distinct [OF w])
  have i': "invd (insert s D) E ?h ?L C"
  proof (rule invd_move [OF i w', of s "Open c"])
    show "x \<noteq> s \<and> x \<in> set (L k) \<or> x = s \<and> k = Open c" if "x \<in> set (?L k)" for x k
      using that dis ok_unique [OF w s, of k] by (auto split: if_splits)
    show "finite (allocated ?h)"
      using invD(2) [OF i] relinked_views(3) [OF rel] y by (simp add: finite_allocated)
    show "has_handlers ?h c'" if "has_handlers h c'" for c'
      using that y by (rule has_handlers_ctx_upd) (simp_all add: handlers_set_def)
    show "entry_ok ?h ?L l p" if "entry_ok h L l p" for l p
      using that by (auto simp: entry_ok_shape sh closed_in_def drop_nx_def)
  qed (use dis in \<open>simp_all add: sh\<close>)
  have rm: "subseq (rem (shape ?h) ?L c') (rem (shape h) L c')" for c'
  proof (cases "c' = c")
    case False
    then have "ci (shape ?h) c' = ci (shape h) c'" "?L (Open c') = L (Open c')" by (simp_all add: views)
    then have "rem (shape ?h) ?L c' = rem (shape h) L c'" by (rule rem_cong)
    then show ?thesis by (simp only: subseq_order.order_refl)
  next
    case True
    have ci1: "ci (shape ?h) c = Some ?it" "ci (shape h) c = Some (c_iterator y)"
      using y by (simp_all add: views)
    show ?thesis
    proof (cases "c_iterator y = s")
      case False
      with True ci1 show ?thesis by (simp add: rem_Some subseq_dropWhile_remove1)
    next
      case it: True
      obtain as bs where sp: "L (Open c) = as @ s # bs" "remove1 s (L (Open c)) = as @ bs" "s \<notin> set as" "s \<notin> set bs"
        using remove1_split [OF dis s] .
      have nb: "?n = (if bs = [] then NULL else hd bs)"
        using dll_split [OF dl [unfolded sp(1)]] np(1) by (metis option.inject)
      have "NULL \<notin> set as" using ok_listed(2) [OF w, of NULL "Open c"] sp(1) by auto
      from subseq_dropWhile_next [OF dis [unfolded sp(1)] nb this]
      have "subseq (dropWhile (\<lambda>x. x \<noteq> ?n) (as @ bs)) (dropWhile (\<lambda>x. x \<noteq> s) (as @ s # bs))" .
      with True it ci1 sp show ?thesis by (simp add: rem_Some)
    qed
  qed
  have ev: "evolves_ex {s} h L ?h ?L"
    unfolding evolves_ex_def
  proof (intro conjI allI impI)
    show "\<exists>y'. ctxs ?h c' = Some y' \<and> ctx_evolves x y'" if "ctxs h c' = Some x" for c' x
      using that y by (auto simp: ctx_evolves_def handlers_set_def)
    show "connecting_in ?h ?L x \<or> closed_in ?L x" if "x \<notin> {s}" "connecting_in h L x" for x
      using that by (auto simp: connecting_in_def)
  qed (use rm in \<open>simp_all add: closed_in_def\<close>)
  show thesis by (rule that [OF so y r rel i' ev])
qed

lemma unlink_listen_invd:
  assumes i: "invd D E h L C" and s: "s \<in> set (L (Listen c))"
  obtains so y m d where "socks h s = Some so" "ctxs h c = Some y"
    "us_internal_socket_context_unlink_listen_socket h c s =
      Some (h\<lparr>socks := m, ctxs := (ctxs h)(c \<mapsto> y\<lparr>head_listen_sockets := d\<rparr>)\<rparr>)"
    "relinked (socks h) m"
    "invd (insert s D) E (h\<lparr>socks := m, ctxs := (ctxs h)(c \<mapsto> y\<lparr>head_listen_sockets := d\<rparr>)\<rparr>)
      (L(Listen c := remove1 s (L (Listen c)))) C"
    "evolves_ex {s} h L (h\<lparr>socks := m, ctxs := (ctxs h)(c \<mapsto> y\<lparr>head_listen_sockets := d\<rparr>)\<rparr>)
      (L(Listen c := remove1 s (L (Listen c))))"
proof -
  have w: "wfd D h L C" by (rule invD(1) [OF i])
  obtain so where so: "socks h s = Some so" using wfd_listed [OF w s] by blast
  obtain e where "hds (shape h) (Listen c) = Some e" using ok_head [OF w s] .
  then obtain y where y: "ctxs h c = Some y" by (auto simp: views)
  let ?n = "s_next so" and ?p = "s_prev so"
  have dl: "dll (s_nx h) (s_pv h) (head_listen_sockets y) (L (Listen c))" by (rule wfd_listen_dll [OF w y])
  have np: "s_nx h s = Some ?n" "s_pv h s = Some ?p" using so by (simp_all add: views)
  have mem: "\<And>x. x \<in> set (L (Listen c)) \<Longrightarrow> x \<in> dom (socks h)"
    using ok_listed(1) [OF w] by (simp add: views_all_dom)
  have n: "?n = NULL \<or> ?n \<in> dom (socks h)" using dll_next_mem [OF dl s np(1)] mem by blast
  have p: "?p = NULL \<or> ?p \<in> dom (socks h)" using dll_prev_mem [OF dl s np(2)] mem by blast
  have neq: "?p \<noteq> s" "?n \<noteq> s" using dll_neighbours_neq [OF dl s np] by auto
  have last: "?p = ?n \<longrightarrow> ?p = NULL"
    using dll_prev_eq_next [OF dl s np] dl np by (auto simp: dll_def)
  have ci: "ci (shape h) c' \<noteq> Some s" for c'
    using ok_ci [OF w, of c' s] ok_unique [OF w s, of "Open c'"] ok_listed(2) [OF w s] by auto
  have it: "c_iterator y \<noteq> s" using ci [of c] y by (simp add: views)
  let ?d = "if ?p = NULL then ?n else head_listen_sockets y"
  obtain m where r: "us_internal_socket_context_unlink_listen_socket h c s = Some (h\<lparr>socks := m, ctxs := (ctxs h)(c \<mapsto>
      y\<lparr>head_listen_sockets := ?d\<rparr>)\<rparr>)" and rel: "relinked (socks h) m"
    and vm: "nx_of m = drop_nx (s_nx h) ?p ?n" "pv_of m = drop_pv (s_pv h) ?p ?n"
    using unlink_listen_socket_result [OF y so refl refl n p last neq] it by auto
  let ?h = "h\<lparr>socks := m, ctxs := (ctxs h)(c \<mapsto> y\<lparr>head_listen_sockets := ?d\<rparr>)\<rparr>"
  let ?L = "L(Listen c := remove1 s (L (Listen c)))"
  have hd: "hds (shape h) (Listen c) = Some (head_listen_sockets y)" using y by (simp add: views)
  have hdsame: "(s_hds h)(Listen c \<mapsto> head_listen_sockets y) = s_hds h" using y by (simp add: views fun_upd_idem)
  have hd': "hds_of ((ctxs h)(c \<mapsto> y\<lparr>head_listen_sockets := ?d\<rparr>)) (loops h) =
      (if ?p = NULL then (s_hds h)(Listen c \<mapsto> ?n) else s_hds h)"
    using y hdsame by (simp add: hds_keep(2))
  have ct': "ci_of ((ctxs h)(c \<mapsto> y\<lparr>head_listen_sockets := ?d\<rparr>)) = ci_of (ctxs h)"
    "cnx_of ((ctxs h)(c \<mapsto> y\<lparr>head_listen_sockets := ?d\<rparr>)) = c_nx h"
    "cpv_of ((ctxs h)(c \<mapsto> y\<lparr>head_listen_sockets := ?d\<rparr>)) = c_pv h"
    "cl_of ((ctxs h)(c \<mapsto> y\<lparr>head_listen_sockets := ?d\<rparr>)) = cl_of (ctxs h)"
    using y by (simp_all add: views_all_upd views_all_app fun_upd_idem)
  have sh: "shape ?h = (shape h)\<lparr>nx := drop_nx (nx (shape h)) ?p ?n, pv := drop_pv (pv (shape h)) ?p ?n,
      hds := if ?p = NULL then (hds (shape h))(Listen c \<mapsto> ?n) else hds (shape h),
      ci := \<lambda>c'. if Listen c = Open c' \<and> ci (shape h) c' = Some s then Some ?n else ci (shape h) c'\<rparr>"
    using vm hd' ct' relinked_views [OF rel] by (simp add: shape_def cong: if_cong)
  have w': "wfd (insert s D) ?h ?L C"
    unfolding sh by (rule ok_detach [OF w s _ _ _ hd]) (use np in simp_all)
  have dis: "distinct (L (Listen c))" by (rule ok_distinct [OF w])
  have i': "invd (insert s D) E ?h ?L C"
  proof (rule invd_move [OF i w', of s "Listen c"])
    show "x \<noteq> s \<and> x \<in> set (L k) \<or> x = s \<and> k = Listen c" if "x \<in> set (?L k)" for x k
      using that dis ok_unique [OF w s, of k] by (auto split: if_splits)
    show "finite (allocated ?h)"
      using invD(2) [OF i] relinked_views(3) [OF rel] y by (simp add: finite_allocated)
    show "has_handlers ?h c'" if "has_handlers h c'" for c'
      using that y by (rule has_handlers_ctx_upd) (simp_all add: handlers_set_def)
    show "entry_ok ?h ?L l p" if "entry_ok h L l p" for l p
      using that by (auto simp: entry_ok_shape sh closed_in_def drop_nx_def)
  qed (use dis in \<open>simp_all add: sh\<close>)
  have rm: "rem (shape ?h) ?L c' = rem (shape h) L c'" for c'
    by (rule rem_cong) (simp_all only: sh shape.simps, simp_all)
  have ev: "evolves_ex {s} h L ?h ?L"
    unfolding evolves_ex_def
  proof (intro conjI allI impI)
    show "\<exists>y'. ctxs ?h c' = Some y' \<and> ctx_evolves x y'" if "ctxs h c' = Some x" for c' x
      using that y by (auto simp: ctx_evolves_def handlers_set_def)
    show "subseq (rem (shape ?h) ?L c') (rem (shape h) L c')" for c' unfolding rm by simp
    show "connecting_in ?h ?L x \<or> closed_in ?L x" if "x \<notin> {s}" "connecting_in h L x" for x
      using that by (auto simp: connecting_in_def)
  qed (auto simp: closed_in_def)
  show thesis by (rule that [OF so y r rel i' ev])
qed

lemma ok_D_unlisted: "ok D S L C \<Longrightarrow> s \<in> D \<Longrightarrow> x \<in> set (L k) \<Longrightarrow> x \<noteq> s"
  by (metis ok_listed(3))

lemma ok_head_not:
  assumes "ok D S L C" "s \<in> D" "hds S k = Some d"
  shows "d = NULL \<or> d \<in> dom (nx S)" "d \<noteq> s"
proof -
  have d: "d = NULL \<or> d \<in> set (L k)" using chains_hd [OF okD(1) [OF assms(1)] assms(3)] by auto
  then show "d = NULL \<or> d \<in> dom (nx S)" using ok_listed(1) [OF assms(1)] by blast
  have "s \<in> dom (nx S)" using okD(3) [OF assms(1)] assms(2) unfolding placed_ok_def by blast
  then have "s \<noteq> NULL" by (rule layout_sock(1) [OF okD(4) [OF assms(1)]])
  with d ok_D_unlisted [OF assms(1,2)] show "d \<noteq> s" by blast
qed

lemma rem_push:
  assumes w: "ok D S L C" "s \<in> D" and ci: "ci S' = ci S"
  shows "rem S' (L(Open c := s # L (Open c))) c' = rem S L c'"
proof (cases "c' = c")
  case False
  with ci show ?thesis by (intro rem_cong) simp_all
next
  case True
  show ?thesis
  proof (cases "ci S c")
    case None
    with ci True show ?thesis by (simp add: rem_def)
  next
    case (Some i)
    show ?thesis
    proof (cases "i = s")
      case False
      with Some ci True show ?thesis by (simp add: rem_def)
    next
      case eq: True
      with ok_ci [OF w(1) Some] ok_D_unlisted [OF w, of s "Open c"] have "s = NULL" by blast
      moreover have "s \<in> dom (nx S)" using okD(3) [OF w(1)] w(2) unfolding placed_ok_def by blast
      then have "s \<noteq> NULL" by (rule layout_sock(1) [OF okD(4) [OF w(1)]])
      ultimately show ?thesis by simp
    qed
  qed
qed

lemma link_invd:
  assumes i: "invd D E h L C" and s: "s \<in> D" "socks h s = Some so" and y: "ctxs h c = Some y" "handlers_set y"
    and st: "low_prio_state so \<noteq> 1" "listens h s = None"
    and po: "\<And>p. polls h s = Some p \<Longrightarrow> poll_ok (be E) (Open c) p"
    and lo: "\<And>l. loop_of h s = Some l \<Longrightarrow> c_loop y = l"
  obtains m where "us_internal_socket_context_link_socket h c s =
      Some (h\<lparr>socks := m, ctxs := (ctxs h)(c \<mapsto> y\<lparr>head_sockets := s\<rparr>)\<rparr>)"
    "relinked ((socks h)(s \<mapsto> so\<lparr>s_context := c\<rparr>)) m"
    "invd (D - {s}) E (h\<lparr>socks := m, ctxs := (ctxs h)(c \<mapsto> y\<lparr>head_sockets := s\<rparr>)\<rparr>)
      (L(Open c := s # L (Open c))) C"
    "evolves_ex {s} h L (h\<lparr>socks := m, ctxs := (ctxs h)(c \<mapsto> y\<lparr>head_sockets := s\<rparr>)\<rparr>)
      (L(Open c := s # L (Open c)))"
proof -
  have w: "wfd D h L C" by (rule invD(1) [OF i])
  have hd: "hds (shape h) (Open c) = Some (head_sockets y)" using y by (simp add: views)
  note d = ok_head_not [OF w s(1) hd]
  have d1: "head_sockets y = NULL \<or> head_sockets y \<in> dom (socks h)" using d(1) by (simp add: views_all_dom)
  obtain m where r: "us_internal_socket_context_link_socket h c s =
      Some (h\<lparr>socks := m, ctxs := (ctxs h)(c \<mapsto> y\<lparr>head_sockets := s\<rparr>)\<rparr>)"
    and rel: "relinked ((socks h)(s \<mapsto> so\<lparr>s_context := c\<rparr>)) m"
    and vm: "nx_of m = (s_nx h)(s \<mapsto> head_sockets y)" "pv_of m = push_pv (s_pv h) (head_sockets y) s"
    using link_socket_result [OF y(1) s(2) refl d1 d(2)] by blast
  let ?h = "h\<lparr>socks := m, ctxs := (ctxs h)(c \<mapsto> y\<lparr>head_sockets := s\<rparr>)\<rparr>"
  let ?L = "L(Open c := s # L (Open c))"
  have dm: "dom m = dom (socks h)" using relinked_views(3) [OF rel] s(2) by auto
  have ov: "owner_of m = (owner_of (socks h))(s \<mapsto> c)" "lp_of m = lp_of (socks h)"
    using relinked_views(1,2) [OF rel] s(2) by (simp_all add: views_all_upd views_all_app fun_upd_idem)
  have hd': "hds_of ((ctxs h)(c \<mapsto> y\<lparr>head_sockets := s\<rparr>)) (loops h) = (s_hds h)(Open c \<mapsto> s)"
    using y(1) by (simp add: hds_keep(1))
  have ct': "ci_of ((ctxs h)(c \<mapsto> y\<lparr>head_sockets := s\<rparr>)) = ci_of (ctxs h)"
    "cnx_of ((ctxs h)(c \<mapsto> y\<lparr>head_sockets := s\<rparr>)) = c_nx h"
    "cpv_of ((ctxs h)(c \<mapsto> y\<lparr>head_sockets := s\<rparr>)) = c_pv h"
    "cl_of ((ctxs h)(c \<mapsto> y\<lparr>head_sockets := s\<rparr>)) = cl_of (ctxs h)"
    using y(1) by (simp_all add: views_all_upd views_all_app fun_upd_idem)
  have sh: "shape ?h = (shape h)\<lparr>nx := (nx (shape h))(s \<mapsto> head_sockets y),
      pv := push_pv (pv (shape h)) (head_sockets y) s, hds := (hds (shape h))(Open c \<mapsto> s),
      owner := (owner (shape h))(s \<mapsto> c), lp := lp (shape h)\<rparr>"
    using vm hd' ct' ov by (simp add: shape_def)
  have w': "wfd (D - {s}) ?h ?L C"
    unfolding sh
  proof (rule ok_attach [OF w s(1) hd])
    show "placed ((shape h)\<lparr>owner := (owner (shape h))(s \<mapsto> c), lp := lp (shape h)\<rparr>) (Open c) s"
      using s(2) st by (auto simp: placed_def views)
  qed simp_all
  have u: "\<And>x k. x \<in> set (L k) \<Longrightarrow> x \<noteq> s" by (rule ok_D_unlisted [OF w s(1)])
  have i': "invd (D - {s}) E ?h ?L C"
  proof (rule invd_move [OF i w', of s "Open c"])
    show "x \<noteq> s \<and> x \<in> set (L k) \<or> x = s \<and> k = Open c" if "x \<in> set (?L k)" for x k
      using that u [of x k] by (auto split: if_splits)
    show "finite (allocated ?h)"
      using invD(2) [OF i] dm y(1) by (simp add: finite_allocated)
    show "has_handlers ?h c'" if "has_handlers h c'" for c'
      using that y(1) by (rule has_handlers_ctx_upd) (simp_all add: handlers_set_def)
    show "has_handlers ?h (s_context so')" if "socks ?h s = Some so'" for so'
    proof -
      have "owner_of m s = Some (s_context so')" using that by (simp add: views)
      with ov have "s_context so' = c" by simp
      with y(2) show ?thesis by (simp add: has_handlers_def handlers_set_def)
    qed
    show "entry_ok ?h ?L l p" if e: "entry_ok h L l p" for l p
    proof (cases "p = s")
      case False
      with e show ?thesis by (auto simp: entry_ok_shape sh closed_in_def)
    next
      case True
      have nc: "cbs h s = None" by (rule wfd_sock(3) [OF w s(2)])
      with e True have l: "loop_of h s = Some l" by (auto simp: entry_ok_def)
      have "\<not> closed_in ?L s" using u by (auto simp: closed_in_def)
      with True lo [OF l] y(1) show ?thesis by (auto simp: entry_ok_shape sh views)
    qed
  qed (use po in \<open>simp_all add: sh\<close>)
  have rm: "rem (shape ?h) ?L c' = rem (shape h) L c'" for c'
    by (rule rem_push [OF w s(1)]) (simp add: sh)
  have ev: "evolves_ex {s} h L ?h ?L"
    unfolding evolves_ex_def
  proof (intro conjI allI impI)
    show "\<exists>y'. ctxs ?h c' = Some y' \<and> ctx_evolves x y'" if "ctxs h c' = Some x" for c' x
      using that y by (auto simp: ctx_evolves_def handlers_set_def)
    show "subseq (rem (shape ?h) ?L c') (rem (shape h) L c')" for c' unfolding rm by simp
    show "connecting_in ?h ?L x \<or> closed_in ?L x" if "x \<notin> {s}" "connecting_in h L x" for x
      using that by (auto simp: connecting_in_def)
  qed (simp_all add: closed_in_def)
  show thesis by (rule that [OF r rel i' ev])
qed

subsection \<open>Pushing on the close list\<close>

lemma close_list_push_result:
  assumes so: "socks h s = Some so" and y: "ctxs h (s_context so) = Some y" and z: "loops h (c_loop y) = Some z"
    and p: "polls h s = Some p" "s \<noteq> NULL" and rl: "ready_list_ok (be E) z"
  obtains c rs where "close_list_push E h s = Some (h\<lparr>
      socks := (socks h)(s \<mapsto> so\<lparr>s_next := closed_head z, s_prev := s_context so\<rparr>),
      loops := (loops h)(c_loop y \<mapsto> z\<lparr>ready_polls := rs, closed_head := s\<rparr>),
      trace := trace h @ c @ [Sys (Close (us_poll_fd p))]\<rparr>)"
    "length rs = length (ready_polls z)"
    "pending (z\<lparr>ready_polls := rs\<rparr>) = map (rename_ready s NULL) (pending z)"
proof -
  obtain c rs where r: "us_poll_stop E h s (c_loop y) =
      Some (h\<lparr>loops := (loops h)(c_loop y \<mapsto> z\<lparr>ready_polls := rs\<rparr>), trace := trace h @ c\<rparr>)"
    "length rs = length (ready_polls z)"
    "pending (z\<lparr>ready_polls := rs\<rparr>) = map (rename_ready s NULL) (pending z)"
    using us_poll_stop_result [where E = E, OF p(1) z rl p(2)] by blast
  have "close_list_push E h s = Some (h\<lparr>
      socks := (socks h)(s \<mapsto> so\<lparr>s_next := closed_head z, s_prev := s_context so\<rparr>),
      loops := (loops h)(c_loop y \<mapsto> z\<lparr>ready_polls := rs, closed_head := s\<rparr>),
      trace := trace h @ c @ [Sys (Close (us_poll_fd p))]\<rparr>)"
    using so y p by (simp add: close_list_push_def r(1) set_defs bsd_close_socket_def)
  with r(2,3) that show thesis by blast
qed

lemma closed_in_push: "closed_in L x \<Longrightarrow> closed_in (L(k := s # L k)) x"
  unfolding closed_in_def by (metis fun_upd_apply set_subset_Cons subsetD)

lemma close_list_push_invd:
  assumes i: "invd D E h L C" and s: "s \<in> D" "socks h s = Some so" and y: "ctxs h (s_context so) = Some y"
    and st: "low_prio_state so \<noteq> 1" and p: "polls h s = Some p"
  obtains h' where "close_list_push E h s = Some h'"
    "invd (D - {s}) E h' (L(Closed (c_loop y) := s # L (Closed (c_loop y)))) C"
    "evolves_ex {s} h L h' (L(Closed (c_loop y) := s # L (Closed (c_loop y))))"
    "ctxs h' = ctxs h" "polls h' = polls h" "cbs h' = cbs h" "listens h' = listens h"
    "socks h' s = Some (so\<lparr>s_next := the (s_hds h (Closed (c_loop y))), s_prev := s_context so\<rparr>)"
    "\<And>x. x \<noteq> s \<Longrightarrow> socks h' x = socks h x"
    "\<exists>t. trace h' = trace h @ t @ [Sys (Close (us_poll_fd p))]"
proof -
  have w: "wfd D h L C" by (rule invD(1) [OF i])
  let ?l = "c_loop y"
  obtain z where z: "loops h ?l = Some z" and c0: "s_context so \<noteq> NULL" using wfd_ctx [OF w y] by blast
  have s0: "s \<noteq> NULL" by (rule wfd_sock(1) [OF w s(2)])
  note rd = readyD [OF invD(6) [OF i] z]
  let ?x = "so\<lparr>s_next := closed_head z, s_prev := s_context so\<rparr>"
  obtain c rs where r: "close_list_push E h s = Some (h\<lparr>socks := (socks h)(s \<mapsto> ?x),
      loops := (loops h)(?l \<mapsto> z\<lparr>ready_polls := rs, closed_head := s\<rparr>),
      trace := trace h @ c @ [Sys (Close (us_poll_fd p))]\<rparr>)"
    and rs: "length rs = length (ready_polls z)"
    "pending (z\<lparr>ready_polls := rs\<rparr>) = map (rename_ready s NULL) (pending z)"
    using close_list_push_result [where E = E, OF s(2) y z p s0 rd(1)] by blast
  let ?h0 = "h\<lparr>loops := (loops h)(?l \<mapsto> z\<lparr>ready_polls := rs\<rparr>)\<rparr>"
  let ?h1 = "h\<lparr>socks := (socks h)(s \<mapsto> ?x), loops := (loops h)(?l \<mapsto> z\<lparr>ready_polls := rs, closed_head := s\<rparr>)\<rparr>"
  let ?h' = "?h1\<lparr>trace := trace h @ c @ [Sys (Close (us_poll_fd p))]\<rparr>"
  let ?L = "L(Closed ?l := s # L (Closed ?l))"
  have i0: "invd D E ?h0 L C"
  proof (rule invd_loop [OF i z])
    show "ready_list_ok (be E) (z\<lparr>ready_polls := rs\<rparr>)" by (rule ready_list_ok_stop [OF rd(1) rs])
    show "entry_ok h L ?l q" if "q \<in> re_poll ` set (pending (z\<lparr>ready_polls := rs\<rparr>))" "q \<noteq> NULL" for q
      using rename_ready_NULL_mem [of q s "pending z"] that rd(2) rs(2) by simp
  qed simp_all
  have w0: "wfd D ?h0 L C" by (rule invD(1) [OF i0])
  have hd: "hds (shape ?h0) (Closed ?l) = Some (closed_head z)" by (simp add: views)
  have sh: "shape ?h1 = (shape ?h0)\<lparr>nx := (nx (shape ?h0))(s \<mapsto> closed_head z),
      pv := (pv (shape ?h0))(s \<mapsto> s_context so), hds := (hds (shape ?h0))(Closed ?l \<mapsto> s)\<rparr>"
    using s(2) z by (simp add: shape_def views_all_upd views_all_app fun_upd_idem fun_upd_twist)
  have w1: "wfd (D - {s}) ?h1 ?L C"
    unfolding sh by (rule ok_attach_closed [OF w0 s(1) hd _ c0]) (use s(2) st in \<open>simp_all add: views\<close>)
  have u: "\<And>x k. x \<in> set (L k) \<Longrightarrow> x \<noteq> s" by (rule ok_D_unlisted [OF w s(1)])
  have nc: "cbs h s = None" by (rule wfd_sock(3) [OF w s(2)])
  have ls: "loop_of ?h0 s = Some ?l" using s(2) y by (simp add: loop_of_def)
  have i1: "invd (D - {s}) E ?h1 ?L C"
  proof (rule invd_move [OF i0 w1, of s "Closed ?l"])
    show "x \<noteq> s \<and> x \<in> set (L k) \<or> x = s \<and> k = Closed ?l" if "x \<in> set (?L k)" for x k
      using that u [of x k] by (auto split: if_splits)
    have "dom ((socks h)(s \<mapsto> ?x)) = dom (socks h)" "dom ((loops h)(?l \<mapsto> z\<lparr>ready_polls := rs, closed_head := s\<rparr>)) = dom (loops h)"
      using s(2) z by auto
    then show "finite (allocated ?h1)" using invD(2) [OF i] by (simp add: finite_allocated)
    show "poll_ok (be E) (Closed ?l) q" for q by (simp add: poll_ok_def)
    show "has_handlers ?h1 d" if "has_handlers ?h0 d" for d using that by (simp add: has_handlers_def)
    show "entry_ok ?h1 ?L l' q" if l': "loops ?h0 l' = Some z'"
      and q: "q \<in> re_poll ` set (pending z')" "q \<noteq> NULL" "entry_ok ?h0 L l' q" for l' z' q
    proof -
      have "q \<noteq> s"
      proof
        assume qs: "q = s"
        then have "loop_of ?h0 s = Some l'" using q(3) nc by (auto simp: entry_ok_def)
        then have "l' = ?l" using ls by simp
        then have "z' = z\<lparr>ready_polls := rs\<rparr>" using l' by simp
        with q(1) rs(2) qs show False using rename_ready_NULL_mem [of s s "pending z"] s0 by auto
      qed
      with q(3) show ?thesis by (auto simp: entry_ok_shape sh closed_in_def)
    qed
    show "\<exists>z0. loops ?h0 l' = Some z0 \<and> ready_polls z' = ready_polls z0 \<and>
        num_ready_polls z' = num_ready_polls z0 \<and> current_ready_poll z' = current_ready_poll z0"
      if "loops ?h1 l' = Some z'" for l' z' using that by (auto split: if_splits)
  qed (simp_all add: sh)
  have rm: "rem (shape ?h1) ?L c' = rem (shape h) L c'" for c'
    by (rule rem_cong) simp_all
  have ev: "evolves_ex {s} h L ?h1 ?L"
    unfolding evolves_ex_def
  proof (intro conjI allI impI)
    show "subseq (rem (shape ?h1) ?L c') (rem (shape h) L c')" for c' unfolding rm by simp
    show "\<exists>z'. loops ?h1 l' = Some z' \<and> loop_evolves z0 z'" if "loops h l' = Some z0" for l' z0
      using that z by (auto simp: loop_evolves_def)
    show "connecting_in ?h1 ?L x \<or> closed_in ?L x" if "x \<notin> {s}" "connecting_in h L x" for x
      using that by (auto simp: connecting_in_def)
    show "closed_in ?L x" if "closed_in L x" for x using that by (rule closed_in_push)
  qed simp_all
  show thesis
  proof (rule that [of ?h'])
    show "invd (D - {s}) E ?h' ?L C" unfolding invd_trace by (rule i1)
    show "evolves_ex {s} h L ?h' ?L" unfolding evolves_trace by (rule ev)
    show "socks ?h' s = Some (so\<lparr>s_next := the (s_hds h (Closed (c_loop y))), s_prev := s_context so\<rparr>)"
      using z by (simp add: views)
  qed (use r in simp_all)
qed

end
