(* ===== verification/Closing.thy ===== *)
theory Closing
  imports Steps
begin

text \<open>
  Closing a socket keeps the invariant, whichever list it is in: the open or listening sockets of
  its context, or the low-priority queue of its loop.
\<close>

subsection \<open>Leaving the low-priority queue\<close>

lemma low_prio_unlink_result:
  assumes x: "socks h s = Some x" "s_next x = n" "s_prev x = p" and y: "ctxs h (s_context x) = Some y"
    and z: "loops h (c_loop y) = Some z"
    and n: "n = NULL \<or> n \<in> dom (socks h)" and p: "p = NULL \<or> p \<in> dom (socks h)"
    and d: "p \<noteq> s" "n \<noteq> s" "p = n \<longrightarrow> p = NULL"
  shows "\<exists>m. low_prio_unlink h s = Some (h\<lparr>
      socks := m(s \<mapsto> x\<lparr>s_prev := NULL, s_next := NULL, low_prio_state := 0\<rparr>),
      loops := (loops h)(c_loop y \<mapsto> z\<lparr>low_prio_head := if p = NULL then n else low_prio_head z\<rparr>)\<rparr>) \<and>
    relinked (socks h) m \<and> m s = Some x \<and>
    nx_of m = drop_nx (s_nx h) p n \<and> pv_of m = drop_pv (s_pv h) p n"
proof (cases "p = NULL"; cases "n = NULL")
  assume pn: "p = NULL" "n = NULL"
  show ?thesis
  proof (intro exI [of _ "socks h"] conjI)
    show "low_prio_unlink h s = Some (h\<lparr>
      socks := (socks h)(s \<mapsto> x\<lparr>s_prev := NULL, s_next := NULL, low_prio_state := 0\<rparr>),
      loops := (loops h)(c_loop y \<mapsto> z\<lparr>low_prio_head := if p = NULL then n else low_prio_head z\<rparr>)\<rparr>)"
      using x y z pn by (simp add: low_prio_unlink_def set_defs)
  qed (use x pn in \<open>simp_all add: drop_nx_def drop_pv_def\<close>)
next
  assume pn: "p = NULL" "n \<noteq> NULL"
  with n obtain w where w: "socks h n = Some w" by auto
  show ?thesis
  proof (intro exI [of _ "(socks h)(n \<mapsto> w\<lparr>s_prev := p\<rparr>)"] conjI)
    show "low_prio_unlink h s = Some (h\<lparr>
      socks := ((socks h)(n \<mapsto> w\<lparr>s_prev := p\<rparr>))(s \<mapsto> x\<lparr>s_prev := NULL, s_next := NULL, low_prio_state := 0\<rparr>),
      loops := (loops h)(c_loop y \<mapsto> z\<lparr>low_prio_head := if p = NULL then n else low_prio_head z\<rparr>)\<rparr>)"
      using x y z w pn d(2) by (simp add: low_prio_unlink_def set_defs)
  qed (use x w pn d(2) in \<open>simp_all add: drop_nx_def drop_pv_def views relinked_upd fun_upd_idem\<close>)
next
  assume pn: "p \<noteq> NULL" "n = NULL"
  with p obtain w where w: "socks h p = Some w" by auto
  have l: "(loops h)(c_loop y \<mapsto> z\<lparr>low_prio_head := low_prio_head z\<rparr>) = loops h" using z by (simp add: fun_upd_idem)
  show ?thesis
  proof (intro exI [of _ "(socks h)(p \<mapsto> w\<lparr>s_next := n\<rparr>)"] conjI)
    show "low_prio_unlink h s = Some (h\<lparr>
      socks := ((socks h)(p \<mapsto> w\<lparr>s_next := n\<rparr>))(s \<mapsto> x\<lparr>s_prev := NULL, s_next := NULL, low_prio_state := 0\<rparr>),
      loops := (loops h)(c_loop y \<mapsto> z\<lparr>low_prio_head := if p = NULL then n else low_prio_head z\<rparr>)\<rparr>)"
      using x y w pn d(1) l by (simp add: low_prio_unlink_def set_defs)
  qed (use x w pn d(1) in \<open>simp_all add: drop_nx_def drop_pv_def views relinked_upd fun_upd_idem\<close>)
next
  assume pn: "p \<noteq> NULL" "n \<noteq> NULL"
  with n p obtain w v where w: "socks h p = Some w" "socks h n = Some v" by auto
  have neq: "p \<noteq> n" using d(3) pn by auto
  have l: "(loops h)(c_loop y \<mapsto> z\<lparr>low_prio_head := low_prio_head z\<rparr>) = loops h" using z by (simp add: fun_upd_idem)
  show ?thesis
  proof (intro exI [of _ "(socks h)(p \<mapsto> w\<lparr>s_next := n\<rparr>, n \<mapsto> v\<lparr>s_prev := p\<rparr>)"] conjI)
    show "low_prio_unlink h s = Some (h\<lparr>
      socks := ((socks h)(p \<mapsto> w\<lparr>s_next := n\<rparr>, n \<mapsto> v\<lparr>s_prev := p\<rparr>))
        (s \<mapsto> x\<lparr>s_prev := NULL, s_next := NULL, low_prio_state := 0\<rparr>),
      loops := (loops h)(c_loop y \<mapsto> z\<lparr>low_prio_head := if p = NULL then n else low_prio_head z\<rparr>)\<rparr>)"
      using x y w pn d(1,2) neq l by (simp add: low_prio_unlink_def set_defs)
    show "relinked (socks h) ((socks h)(p \<mapsto> w\<lparr>s_next := n\<rparr>, n \<mapsto> v\<lparr>s_prev := p\<rparr>))"
      using w neq by (intro relinked_trans [OF relinked_upd(1) relinked_upd(2)]) auto
  qed (use x w pn d(1,2) neq in \<open>simp_all add: drop_nx_def drop_pv_def views fun_upd_idem\<close>)
qed

lemma low_prio_unlink_invd:
  assumes i: "invd D E h L C" and s: "s \<in> set (L (LowPrio l))"
  obtains so h' where "socks h s = Some so" "low_prio_unlink h s = Some h'"
    "invd (insert s D) E h' (L(LowPrio l := remove1 s (L (LowPrio l)))) C"
    "evolves_ex {s} h L h' (L(LowPrio l := remove1 s (L (LowPrio l))))"
    "\<exists>so'. socks h' s = Some so' \<and> low_prio_state so' = 0 \<and> s_context so' = s_context so"
    "polls h' = polls h" "ctxs h' = ctxs h" "cbs h' = cbs h" "listens h' = listens h" "trace h' = trace h"
proof -
  have w: "wfd D h L C" by (rule invD(1) [OF i])
  obtain so where so: "socks h s = Some so" and pl: "placed (shape h) (LowPrio l) s"
    using wfd_listed [OF w s] by blast
  from pl so obtain y where y: "ctxs h (s_context so) = Some y" "c_loop y = l" by (auto simp: placed_def views)
  obtain z where z: "loops h l = Some z" using wfd_ctx [OF w y(1)] y(2) by blast
  let ?n = "s_next so" and ?p = "s_prev so"
  have dl: "dll (s_nx h) (s_pv h) (low_prio_head z) (L (LowPrio l))" by (rule wfd_low_dll [OF w z])
  have np: "s_nx h s = Some ?n" "s_pv h s = Some ?p" using so by (simp_all add: views)
  have mem: "\<And>x. x \<in> set (L (LowPrio l)) \<Longrightarrow> x \<in> dom (socks h)"
    using ok_listed(1) [OF w] by (simp add: views_all_dom)
  have n: "?n = NULL \<or> ?n \<in> dom (socks h)" using dll_next_mem [OF dl s np(1)] mem by blast
  have p: "?p = NULL \<or> ?p \<in> dom (socks h)" using dll_prev_mem [OF dl s np(2)] mem by blast
  have neq: "?p \<noteq> s" "?n \<noteq> s" using dll_neighbours_neq [OF dl s np] by auto
  have last: "?p = ?n \<longrightarrow> ?p = NULL"
    using dll_prev_eq_next [OF dl s np] dl np by (auto simp: dll_def)
  let ?x = "so\<lparr>s_prev := NULL, s_next := NULL, low_prio_state := 0\<rparr>"
  let ?z = "z\<lparr>low_prio_head := if ?p = NULL then ?n else low_prio_head z\<rparr>"
  obtain m where r: "low_prio_unlink h s = Some (h\<lparr>socks := m(s \<mapsto> ?x), loops := (loops h)(l \<mapsto> ?z)\<rparr>)"
    and rel: "relinked (socks h) m" "m s = Some so"
    and vm: "nx_of m = drop_nx (s_nx h) ?p ?n" "pv_of m = drop_pv (s_pv h) ?p ?n"
    using low_prio_unlink_result [OF so refl refl y(1) _ n p neq last] z y(2) by blast
  let ?g = "h\<lparr>socks := m, loops := (loops h)(l \<mapsto> ?z)\<rparr>"
  let ?h = "h\<lparr>socks := m(s \<mapsto> ?x), loops := (loops h)(l \<mapsto> ?z)\<rparr>"
  let ?L = "L(LowPrio l := remove1 s (L (LowPrio l)))"
  have hd: "hds (shape h) (LowPrio l) = Some (low_prio_head z)" using z by (simp add: views)
  have hd': "hds_of (ctxs h) ((loops h)(l \<mapsto> ?z)) = (if ?p = NULL then (s_hds h)(LowPrio l \<mapsto> ?n) else s_hds h)"
    using z by (simp add: views fun_upd_idem fun_upd_twist)
  have lv: "c_hds ?g = c_hds h" "li_of (loops ?g) = li_of (loops h)"
    using z by (simp_all add: views_all_upd views_all_app fun_upd_idem)
  have sh0: "shape ?g = (shape h)\<lparr>nx := drop_nx (nx (shape h)) ?p ?n, pv := drop_pv (pv (shape h)) ?p ?n,
      hds := if ?p = NULL then (hds (shape h))(LowPrio l \<mapsto> ?n) else hds (shape h),
      ci := \<lambda>c'. if LowPrio l = Open c' \<and> ci (shape h) c' = Some s then Some ?n else ci (shape h) c'\<rparr>"
    using vm hd' lv relinked_views [OF rel(1)] by (simp add: shape_def cong: if_cong)
  have w0: "wfd (insert s D) ?g ?L C"
    unfolding sh0 by (rule ok_detach [OF w s _ _ _ hd]) (use np in simp_all)
  have sh: "shape ?h = (shape ?g)\<lparr>nx := (nx (shape ?g))(s \<mapsto> NULL), pv := (pv (shape ?g))(s \<mapsto> NULL),
      owner := owner (shape ?g), lp := (lp (shape ?g))(s \<mapsto> 0)\<rparr>"
    using rel(2) by (simp add: shape_def views_all_upd views_all_app fun_upd_idem dom_def)
  have w1: "wfd (insert s D) ?h ?L C"
    unfolding sh
    by (rule ok_write_detached [OF w0]) (use rel(2) in \<open>auto simp: views_all_dom views_all_app\<close>)
  have dis: "distinct (L (LowPrio l))" by (rule ok_distinct [OF w])
  have dm: "dom (m(s \<mapsto> ?x)) = dom (socks h)" using relinked_views(3) [OF rel(1)] so by auto
  have i': "invd (insert s D) E ?h ?L C"
  proof (rule invd_move [OF i w1, of s "LowPrio l"])
    show "x \<noteq> s \<and> x \<in> set (L k) \<or> x = s \<and> k = LowPrio l" if "x \<in> set (?L k)" for x k
      using that dis ok_unique [OF w s, of k] by (auto split: if_splits)
    show "finite (allocated ?h)"
      using invD(2) [OF i] dm z by (simp add: finite_allocated)
    have ow: "owner (shape ?h) = owner (shape h)"
      using relinked_views(1) [OF rel(1)] rel(2) so by (simp add: views_all_upd views_all_app fun_upd_idem)
    then show "owner (shape ?h) x = owner (shape h) x" for x by simp
    show "has_handlers ?h d" if "has_handlers h d" for d using that by (simp add: has_handlers_def)
    show "entry_ok ?h ?L l' q" if "entry_ok h L l' q" for l' q
      using that ow dm by (simp add: entry_ok_shape closed_in_def views_all_dom)
    show "\<exists>z0. loops h l' = Some z0 \<and> ready_polls z' = ready_polls z0 \<and>
        num_ready_polls z' = num_ready_polls z0 \<and> current_ready_poll z' = current_ready_poll z0"
      if "loops ?h l' = Some z'" for l' z' using that z by (auto split: if_splits)
  qed (use dis z in auto)
  have rm: "rem (shape ?h) ?L c' = rem (shape h) L c'" for c'
    by (rule rem_cong) simp_all
  have ev: "evolves_ex {s} h L ?h ?L"
    unfolding evolves_ex_def
  proof (intro conjI allI impI)
    show "subseq (rem (shape ?h) ?L c') (rem (shape h) L c')" for c' unfolding rm by simp
    show "\<exists>z'. loops ?h l' = Some z' \<and> loop_evolves z0 z'" if "loops h l' = Some z0" for l' z0
      using that z by (auto simp: loop_evolves_def)
    show "connecting_in ?h ?L x \<or> closed_in ?L x" if "x \<notin> {s}" "connecting_in h L x" for x
      using that by (auto simp: connecting_in_def)
  qed (simp_all add: closed_in_def)
  show thesis
    by (rule that [OF so r i' ev]) simp_all
qed

subsection \<open>Closing sockets\<close>

text \<open>The list of a socket that is not closed and does not listen.\<close>

lemma open_or_queued:
  assumes w: "wfd {} h L C" and s: "socks h s = Some so" "\<not> us_socket_is_closed so" "listens h s = None"
  obtains "s \<in> set (L (Open (s_context so)))" "low_prio_state so \<noteq> 1"
    | l where "s \<in> set (L (LowPrio l))" "low_prio_state so = 1" "cl_of (ctxs h) (s_context so) = Some l"
proof -
  have "s \<in> dom (nx (shape h))" using s(1) by (auto simp: views)
  then obtain k where k: "s \<in> set (L k)" "placed (shape h) k s" using ok_place [OF w] by blast
  have nc: "\<nexists>l. k = Closed l"
    using wfd_closed_iff [OF w k(1) s(1)] s(2) by (simp add: us_socket_is_closed_def)
  show thesis
  proof (cases k)
    case (Open c)
    with k s(1) that(1) show thesis by (auto simp: placed_def views)
  next
    case (Listen c)
    with k s(3) show thesis by (auto simp: placed_def)
  next
    case (LowPrio l)
    with k s(1) that(2) show thesis by (auto simp: placed_def views)
  qed (use nc in simp)
qed

lemma after_close:
  assumes "evolves_ex {s} h L h' (L'(Closed l := s # L' (Closed l)))"
  shows "evolves h L h' (L'(Closed l := s # L' (Closed l)))" "closed_in (L'(Closed l := s # L' (Closed l))) s"
proof -
  show c: "closed_in (L'(Closed l := s # L' (Closed l))) s"
    unfolding closed_in_def by (rule exI [of _ l]) simp
  show "evolves h L h' (L'(Closed l := s # L' (Closed l)))"
    by (rule evolves_settle [OF assms]) (use c in blast)
qed

text \<open>Unlinking an open socket and pushing it on the close list.\<close>

lemma unlink_and_close:
  assumes i: "inv_with E h L C" and s: "s \<in> set (L (Open c))" "socks h s = Some so" "polls h s = Some p"
  obtains h1 h2 l where "us_internal_socket_context_unlink_socket h c s = Some h1" "close_list_push E h1 s = Some h2"
    "inv_with E h2 (L(Open c := remove1 s (L (Open c)), Closed l := s # L (Closed l))) C"
    "evolves h L h2 (L(Open c := remove1 s (L (Open c)), Closed l := s # L (Closed l)))"
    "\<exists>so'. socks h2 s = Some so' \<and> us_socket_is_closed so' \<and> s_context so' = s_context so"
    "listens h2 = listens h" "polls h2 = polls h" "cbs h2 = cbs h"
    "\<exists>t. trace h2 = trace h @ t @ [Sys (Close (us_poll_fd p))]"
proof -
  obtain so0 y m it d where u: "socks h s = Some so0" "ctxs h c = Some y"
    "us_internal_socket_context_unlink_socket h c s =
      Some (h\<lparr>socks := m, ctxs := (ctxs h)(c \<mapsto> y\<lparr>c_iterator := it, head_sockets := d\<rparr>)\<rparr>)"
    and rel: "relinked (socks h) m"
    and i1: "invd {s} E (h\<lparr>socks := m, ctxs := (ctxs h)(c \<mapsto> y\<lparr>c_iterator := it, head_sockets := d\<rparr>)\<rparr>)
      (L(Open c := remove1 s (L (Open c)))) C"
    and e1: "evolves_ex {s} h L (h\<lparr>socks := m, ctxs := (ctxs h)(c \<mapsto> y\<lparr>c_iterator := it, head_sockets := d\<rparr>)\<rparr>)
      (L(Open c := remove1 s (L (Open c))))"
    using unlink_invd [OF i s(1)] .
  let ?h1 = "h\<lparr>socks := m, ctxs := (ctxs h)(c \<mapsto> y\<lparr>c_iterator := it, head_sockets := d\<rparr>)\<rparr>"
  have so: "so0 = so" using u(1) s(2) by simp
  obtain so1 where so1: "m s = Some so1" "s_context so1 = s_context so" "low_prio_state so1 = low_prio_state so"
    using relinked_sockD2 [OF rel s(2)] .
  have pl: "placed (shape h) (Open c) s" by (rule ok_listed(4) [OF invD(1) [OF i] s(1)])
  then have c: "s_context so = c" "low_prio_state so \<noteq> 1" using s(2) by (auto simp: placed_def views)
  let ?y1 = "y\<lparr>c_iterator := it, head_sockets := d\<rparr>"
  have y1: "ctxs ?h1 (s_context so1) = Some ?y1" using so1 c by simp
  have q: "socks ?h1 s = Some so1" "low_prio_state so1 \<noteq> 1" "polls ?h1 s = Some p" using so1 c s(3) by simp_all
  obtain h2 where h2: "close_list_push E ?h1 s = Some h2"
    "invd ({s} - {s}) E h2 (L(Open c := remove1 s (L (Open c)), Closed (c_loop ?y1) := s #
       (L(Open c := remove1 s (L (Open c)))) (Closed (c_loop ?y1)))) C"
    "evolves_ex {s} ?h1 (L(Open c := remove1 s (L (Open c)))) h2 (L(Open c := remove1 s (L (Open c)),
       Closed (c_loop ?y1) := s # (L(Open c := remove1 s (L (Open c)))) (Closed (c_loop ?y1))))"
    "polls h2 = polls ?h1" "cbs h2 = cbs ?h1" "listens h2 = listens ?h1"
    "socks h2 s = Some (so1\<lparr>s_next := the (s_hds ?h1 (Closed (c_loop ?y1))), s_prev := s_context so1\<rparr>)"
    "\<exists>t. trace h2 = trace ?h1 @ t @ [Sys (Close (us_poll_fd p))]"
    by (rule close_list_push_invd [OF i1 insertI1 q(1) y1 q(2,3)])
  show thesis
  proof (rule that [OF u(3) h2(1), of "c_loop y"])
    show "inv_with E h2 (L(Open c := remove1 s (L (Open c)), Closed (c_loop y) := s # L (Closed (c_loop y)))) C"
      using h2(2) by simp
    have "evolves_ex {s} h L h2 (L(Open c := remove1 s (L (Open c)), Closed (c_loop y) := s # L (Closed (c_loop y))))"
      using evolves_trans [OF e1 h2(3)] by simp
    then show "evolves h L h2 (L(Open c := remove1 s (L (Open c)), Closed (c_loop y) := s # L (Closed (c_loop y))))"
      using after_close(1) [of s h L h2 "L(Open c := remove1 s (L (Open c)))" "c_loop y"] by simp
    show "\<exists>so'. socks h2 s = Some so' \<and> us_socket_is_closed so' \<and> s_context so' = s_context so"
      using h2(7) so1(2) by (simp add: us_socket_is_closed_def)
  qed (use h2 in simp_all)
qed

lemma dequeue_and_close:
  assumes i: "inv_with E h L C" and s: "s \<in> set (L (LowPrio l0))" "socks h s = Some so" "polls h s = Some p"
  obtains h1 h2 l where "low_prio_unlink h s = Some h1" "close_list_push E h1 s = Some h2"
    "inv_with E h2 (L(LowPrio l0 := remove1 s (L (LowPrio l0)), Closed l := s # L (Closed l))) C"
    "evolves h L h2 (L(LowPrio l0 := remove1 s (L (LowPrio l0)), Closed l := s # L (Closed l)))"
    "\<exists>so'. socks h2 s = Some so' \<and> us_socket_is_closed so' \<and> s_context so' = s_context so"
    "listens h2 = listens h" "polls h2 = polls h" "cbs h2 = cbs h"
    "\<exists>t. trace h2 = trace h @ t @ [Sys (Close (us_poll_fd p))]"
proof -
  obtain so0 h1 where u: "socks h s = Some so0" "low_prio_unlink h s = Some h1"
    and i1: "invd {s} E h1 (L(LowPrio l0 := remove1 s (L (LowPrio l0)))) C"
    and e1: "evolves_ex {s} h L h1 (L(LowPrio l0 := remove1 s (L (LowPrio l0))))"
    and ex: "\<exists>so'. socks h1 s = Some so' \<and> low_prio_state so' = 0 \<and> s_context so' = s_context so0"
    and same: "polls h1 = polls h" "ctxs h1 = ctxs h" "cbs h1 = cbs h" "listens h1 = listens h" "trace h1 = trace h"
    using low_prio_unlink_invd [OF i s(1)] .
  obtain so1 where so1: "socks h1 s = Some so1" "low_prio_state so1 \<noteq> 1" "s_context so1 = s_context so"
    using ex u(1) s(2) by auto
  have "placed (shape h) (LowPrio l0) s" by (rule ok_listed(4) [OF invD(1) [OF i] s(1)])
  then obtain y where "ctxs h (s_context so) = Some y" using s(2) by (auto simp: placed_def views)
  then have y: "ctxs h1 (s_context so1) = Some y" using so1(3) same(2) by simp
  have p1: "polls h1 s = Some p" using s(3) same(1) by simp
  obtain h2 where h2: "close_list_push E h1 s = Some h2"
    "invd ({s} - {s}) E h2 (L(LowPrio l0 := remove1 s (L (LowPrio l0)), Closed (c_loop y) := s #
       (L(LowPrio l0 := remove1 s (L (LowPrio l0)))) (Closed (c_loop y)))) C"
    "evolves_ex {s} h1 (L(LowPrio l0 := remove1 s (L (LowPrio l0)))) h2 (L(LowPrio l0 := remove1 s (L (LowPrio l0)),
       Closed (c_loop y) := s # (L(LowPrio l0 := remove1 s (L (LowPrio l0)))) (Closed (c_loop y))))"
    "polls h2 = polls h1" "cbs h2 = cbs h1" "listens h2 = listens h1"
    "socks h2 s = Some (so1\<lparr>s_next := the (s_hds h1 (Closed (c_loop y))), s_prev := s_context so1\<rparr>)"
    "\<exists>t. trace h2 = trace h1 @ t @ [Sys (Close (us_poll_fd p))]"
    by (rule close_list_push_invd [OF i1 insertI1 so1(1) y so1(2) p1])
  show thesis
  proof (rule that [OF u(2) h2(1), of "c_loop y"])
    show "inv_with E h2 (L(LowPrio l0 := remove1 s (L (LowPrio l0)), Closed (c_loop y) := s # L (Closed (c_loop y)))) C"
      using h2(2) by simp
    have "evolves_ex {s} h L h2 (L(LowPrio l0 := remove1 s (L (LowPrio l0)), Closed (c_loop y) := s # L (Closed (c_loop y))))"
      using evolves_trans [OF e1 h2(3)] by simp
    then show "evolves h L h2 (L(LowPrio l0 := remove1 s (L (LowPrio l0)), Closed (c_loop y) := s # L (Closed (c_loop y))))"
      using after_close(1) [of s h L h2 "L(LowPrio l0 := remove1 s (L (LowPrio l0)))" "c_loop y"] by simp
    show "\<exists>so'. socks h2 s = Some so' \<and> us_socket_is_closed so' \<and> s_context so' = s_context so"
      using h2(7) so1(3) by (simp add: us_socket_is_closed_def)
  qed (use h2 same in simp_all)
qed

text \<open>Everything \<open>us_socket_close\<close> does before it emits \<open>on_close\<close>.\<close>

lemma close_quietly_ok:
  assumes i: "inv_with E h L C" and s: "socks h s = Some so" "\<not> us_socket_is_closed so" "listens h s = None"
  obtains h' L' p where "close_quietly E h s = Some h'" "inv_with E h' L' C" "evolves h L h' L'" "closed_in L' s"
    "\<exists>so'. socks h' s = Some so' \<and> us_socket_is_closed so' \<and> s_context so' = s_context so"
    "listens h' = listens h" "polls h' = polls h" "cbs h' = cbs h" "polls h s = Some p"
    "\<exists>t. trace h' = trace h @ t @ [Sys (Close (us_poll_fd p))]"
    "has_handlers h' (s_context so)"
proof -
  have w: "wfd {} h L C" by (rule invD(1) [OF i])
  obtain p where p: "polls h s = Some p" using wfd_sock(2) [OF w s(1)] by blast
  have hh: "has_handlers h' (s_context so)" if "evolves h L h' L'" "s \<in> set (L k)" "doubly k" for h' L' k
  proof -
    have "has_handlers h (s_context so)" using invD(4) [OF i] that(2,3) s(1) unfolding handI_def by blast
    then obtain y where y: "ctxs h (s_context so) = Some y" "handlers_set y"
      by (auto simp: has_handlers_def split: option.splits)
    from evolvesD(1) [OF that(1) y(1)] y(2) show ?thesis by (auto simp: has_handlers_def ctx_evolves_def)
  qed
  show thesis
  proof (rule open_or_queued [OF w s])
    assume o: "s \<in> set (L (Open (s_context so)))" "low_prio_state so \<noteq> 1"
    show thesis
    proof (rule unlink_and_close [OF i o(1) s(1) p])
      fix h1 h2 l
      assume a: "us_internal_socket_context_unlink_socket h (s_context so) s = Some h1" "close_list_push E h1 s = Some h2"
        and b: "inv_with E h2 (L(Open (s_context so) := remove1 s (L (Open (s_context so))), Closed l := s # L (Closed l))) C"
          "evolves h L h2 (L(Open (s_context so) := remove1 s (L (Open (s_context so))), Closed l := s # L (Closed l)))"
        and c: "\<exists>so'. socks h2 s = Some so' \<and> us_socket_is_closed so' \<and> s_context so' = s_context so"
          "listens h2 = listens h" "polls h2 = polls h" "cbs h2 = cbs h"
          "\<exists>t. trace h2 = trace h @ t @ [Sys (Close (us_poll_fd p))]"
      have r: "close_quietly E h s = Some h2" using s(1) o(2) a by (simp add: close_quietly_def)
      show thesis
        by (rule that [OF r b _ c(1-4) p c(5) hh [OF b(2) o(1)]]) (auto simp: closed_in_def)
    qed
  next
    fix l0 assume o: "s \<in> set (L (LowPrio l0))" "low_prio_state so = 1"
    show thesis
    proof (rule dequeue_and_close [OF i o(1) s(1) p])
      fix h1 h2 l
      assume a: "low_prio_unlink h s = Some h1" "close_list_push E h1 s = Some h2"
        and b: "inv_with E h2 (L(LowPrio l0 := remove1 s (L (LowPrio l0)), Closed l := s # L (Closed l))) C"
          "evolves h L h2 (L(LowPrio l0 := remove1 s (L (LowPrio l0)), Closed l := s # L (Closed l)))"
        and c: "\<exists>so'. socks h2 s = Some so' \<and> us_socket_is_closed so' \<and> s_context so' = s_context so"
          "listens h2 = listens h" "polls h2 = polls h" "cbs h2 = cbs h"
          "\<exists>t. trace h2 = trace h @ t @ [Sys (Close (us_poll_fd p))]"
      have r: "close_quietly E h s = Some h2" using s(1) o(2) a by (simp add: close_quietly_def)
      show thesis
        by (rule that [OF r b _ c(1-4) p c(5) hh [OF b(2) o(1)]]) (auto simp: closed_in_def)
    qed
  qed
qed

lemma us_socket_close_unfold:
  assumes "socks h s = Some so" "\<not> us_socket_is_closed so" "close_quietly E h s = Some h'"
    "socks h' s = Some so'" "ctxs h' (s_context so') = Some y"
  shows "us_socket_close E h s code reason = call_fn E (on_close y) (OnClose s code reason) h'"
  using assms by (simp add: us_socket_close_def)

lemma us_socket_close_connecting_ok:
  assumes i: "inv_with E h L C" and s: "socks h s = Some so"
    "us_socket_is_closed so \<or> (listens h s = None \<and> low_prio_state so \<noteq> 1)"
  obtains h' L' where "us_socket_close_connecting E h s = Some (s, h')" "inv_with E h' L' C" "evolves h L h' L'"
    "closed_in L' s"
proof (cases "us_socket_is_closed so")
  case True
  have w: "wfd {} h L C" by (rule invD(1) [OF i])
  have "s \<in> dom (nx (shape h))" using s(1) by (auto simp: views)
  then obtain k where k: "s \<in> set (L k)" using ok_place [OF w] by blast
  then have "closed_in L s"
    using wfd_closed_iff [OF w k s(1)] True by (auto simp: us_socket_is_closed_def closed_in_def)
  moreover have "us_socket_close_connecting E h s = Some (s, h)"
    using s(1) True by (simp add: us_socket_close_connecting_def)
  ultimately show thesis using that i by simp
next
  case False
  have w: "wfd {} h L C" by (rule invD(1) [OF i])
  obtain p where p: "polls h s = Some p" using wfd_sock(2) [OF w s(1)] by blast
  from False s(2) have l: "listens h s = None" "low_prio_state so \<noteq> 1" by auto
  have o: "s \<in> set (L (Open (s_context so)))"
    by (rule open_or_queued [OF w s(1) False l(1)]) (use l(2) in auto)
  show thesis
  proof (rule unlink_and_close [OF i o s(1) p])
    fix h1 h2 l
    assume a: "us_internal_socket_context_unlink_socket h (s_context so) s = Some h1" "close_list_push E h1 s = Some h2"
      and b: "inv_with E h2 (L(Open (s_context so) := remove1 s (L (Open (s_context so))), Closed l := s # L (Closed l))) C"
        "evolves h L h2 (L(Open (s_context so) := remove1 s (L (Open (s_context so))), Closed l := s # L (Closed l)))"
    have r: "us_socket_close_connecting E h s = Some (s, h2)"
      using s(1) False a by (simp add: us_socket_close_connecting_def)
    show thesis by (rule that [OF r b]) (auto simp: closed_in_def)
  qed
qed

lemma us_listen_socket_close_ok:
  assumes i: "inv_with E h L C" and s: "socks h s = Some so" "us_socket_is_closed so \<or> listens h s \<noteq> None"
  obtains h' L' where "us_listen_socket_close E h s = Some h'" "inv_with E h' L' C" "evolves h L h' L'"
    "closed_in L' s"
proof (cases "us_socket_is_closed so")
  case True
  have w: "wfd {} h L C" by (rule invD(1) [OF i])
  have "s \<in> dom (nx (shape h))" using s(1) by (auto simp: views)
  then obtain k where k: "s \<in> set (L k)" using ok_place [OF w] by blast
  then have "closed_in L s"
    using wfd_closed_iff [OF w k s(1)] True by (auto simp: us_socket_is_closed_def closed_in_def)
  moreover have "us_listen_socket_close E h s = Some h"
    using s(1) True by (simp add: us_listen_socket_close_def)
  ultimately show thesis using that i by simp
next
  case False
  have w: "wfd {} h L C" by (rule invD(1) [OF i])
  obtain p where p: "polls h s = Some p" using wfd_sock(2) [OF w s(1)] by blast
  have "s \<in> dom (nx (shape h))" using s(1) by (auto simp: views)
  then obtain k where k: "s \<in> set (L k)" "placed (shape h) k s" using ok_place [OF w] by blast
  have nc: "\<nexists>l. k = Closed l"
    using wfd_closed_iff [OF w k(1) s(1)] False by (simp add: us_socket_is_closed_def)
  have c: "k = Listen (s_context so)" "low_prio_state so = 0"
    using k(2) s False nc by (cases k; auto simp: placed_def views)+
  have ls: "s \<in> set (L (Listen (s_context so)))" using k(1) c(1) by simp
  let ?c = "s_context so"
  obtain so0 y m d where u: "socks h s = Some so0" "ctxs h ?c = Some y"
    "us_internal_socket_context_unlink_listen_socket h ?c s =
      Some (h\<lparr>socks := m, ctxs := (ctxs h)(?c \<mapsto> y\<lparr>head_listen_sockets := d\<rparr>)\<rparr>)"
    and rel: "relinked (socks h) m"
    and i1: "invd {s} E (h\<lparr>socks := m, ctxs := (ctxs h)(?c \<mapsto> y\<lparr>head_listen_sockets := d\<rparr>)\<rparr>)
      (L(Listen ?c := remove1 s (L (Listen ?c)))) C"
    and e1: "evolves_ex {s} h L (h\<lparr>socks := m, ctxs := (ctxs h)(?c \<mapsto> y\<lparr>head_listen_sockets := d\<rparr>)\<rparr>)
      (L(Listen ?c := remove1 s (L (Listen ?c))))"
    using unlink_listen_invd [OF i ls] .
  let ?g = "h\<lparr>socks := m, ctxs := (ctxs h)(?c \<mapsto> y\<lparr>head_listen_sockets := d\<rparr>)\<rparr>"
  let ?y = "y\<lparr>head_listen_sockets := d\<rparr>"
  obtain so1 where so1: "m s = Some so1" "s_context so1 = ?c" "low_prio_state so1 = low_prio_state so"
    using relinked_sockD2 [OF rel s(1)] .
  have q: "socks ?g s = Some so1" "ctxs ?g (s_context so1) = Some ?y" "low_prio_state so1 \<noteq> 1" "polls ?g s = Some p"
    using so1 c p by simp_all
  obtain h2 where h2: "close_list_push E ?g s = Some h2"
    "invd ({s} - {s}) E h2 (L(Listen ?c := remove1 s (L (Listen ?c)), Closed (c_loop ?y) := s #
       (L(Listen ?c := remove1 s (L (Listen ?c)))) (Closed (c_loop ?y)))) C"
    "evolves_ex {s} ?g (L(Listen ?c := remove1 s (L (Listen ?c)))) h2 (L(Listen ?c := remove1 s (L (Listen ?c)),
       Closed (c_loop ?y) := s # (L(Listen ?c := remove1 s (L (Listen ?c)))) (Closed (c_loop ?y))))"
    by (rule close_list_push_invd [OF i1 insertI1 q])
  show thesis
  proof (rule that)
    show "us_listen_socket_close E h s = Some h2"
      using s(1) False u(3) h2(1) by (simp add: us_listen_socket_close_def)
    show "inv_with E h2 (L(Listen ?c := remove1 s (L (Listen ?c)), Closed (c_loop ?y) := s # L (Closed (c_loop ?y)))) C"
      using h2(2) by simp
    have "evolves_ex {s} h L h2 (L(Listen ?c := remove1 s (L (Listen ?c)), Closed (c_loop ?y) := s # L (Closed (c_loop ?y))))"
      using evolves_trans [OF e1 h2(3)] by simp
    then show "evolves h L h2 (L(Listen ?c := remove1 s (L (Listen ?c)), Closed (c_loop ?y) := s # L (Closed (c_loop ?y))))"
      using after_close(1) [of s h L h2 "L(Listen ?c := remove1 s (L (Listen ?c)))" "c_loop ?y"] by simp
    show "closed_in (L(Listen ?c := remove1 s (L (Listen ?c)), Closed (c_loop ?y) := s # L (Closed (c_loop ?y)))) s"
      unfolding closed_in_def by (rule exI [of _ "c_loop ?y"]) simp
  qed
qed

end
