(* ===== verification/Opening.thy ===== *)
theory Opening
  imports Closing Loop
begin

text \<open>
  New sockets keep the invariant: the common first part of listening, connecting and accepting
  makes a poll the kernel knows and a socket that is in no list yet, which is then linked into the
  list of open sockets or of listen sockets of its context.
\<close>

subsection \<open>Linking a listen socket\<close>

lemma link_listen_invd:
  assumes i: "invd D E h L C" and s: "s \<in> D" "socks h s = Some so" and y: "ctxs h c = Some y" "handlers_set y"
    and st: "low_prio_state so = 0" "s \<in> dom (listens h)"
    and po: "\<And>p. polls h s = Some p \<Longrightarrow> poll_ok (be E) (Listen c) p"
    and lo: "\<And>l. loop_of h s = Some l \<Longrightarrow> c_loop y = l"
  obtains m where "us_internal_socket_context_link_listen_socket h c s =
      Some (h\<lparr>socks := m, ctxs := (ctxs h)(c \<mapsto> y\<lparr>head_listen_sockets := s\<rparr>)\<rparr>)"
    "relinked ((socks h)(s \<mapsto> so\<lparr>s_context := c\<rparr>)) m"
    "invd (D - {s}) E (h\<lparr>socks := m, ctxs := (ctxs h)(c \<mapsto> y\<lparr>head_listen_sockets := s\<rparr>)\<rparr>)
      (L(Listen c := s # L (Listen c))) C"
    "evolves_ex {s} h L (h\<lparr>socks := m, ctxs := (ctxs h)(c \<mapsto> y\<lparr>head_listen_sockets := s\<rparr>)\<rparr>)
      (L(Listen c := s # L (Listen c)))"
proof -
  have w: "wfd D h L C" by (rule invD(1) [OF i])
  have hd: "hds (shape h) (Listen c) = Some (head_listen_sockets y)" using y by (simp add: views)
  note d = ok_head_not [OF w s(1) hd]
  have d1: "head_listen_sockets y = NULL \<or> head_listen_sockets y \<in> dom (socks h)" using d(1) by (simp add: views_all_dom)
  obtain m where r: "us_internal_socket_context_link_listen_socket h c s =
      Some (h\<lparr>socks := m, ctxs := (ctxs h)(c \<mapsto> y\<lparr>head_listen_sockets := s\<rparr>)\<rparr>)"
    and rel: "relinked ((socks h)(s \<mapsto> so\<lparr>s_context := c\<rparr>)) m"
    and vm: "nx_of m = (s_nx h)(s \<mapsto> head_listen_sockets y)" "pv_of m = push_pv (s_pv h) (head_listen_sockets y) s"
    using link_listen_socket_result [OF y(1) s(2) refl d1 d(2)] by blast
  let ?g = "h\<lparr>socks := m, ctxs := (ctxs h)(c \<mapsto> y\<lparr>head_listen_sockets := s\<rparr>)\<rparr>"
  let ?L = "L(Listen c := s # L (Listen c))"
  have dm: "dom m = dom (socks h)" using relinked_views(3) [OF rel] s(2) by auto
  have ov: "owner_of m = (owner_of (socks h))(s \<mapsto> c)" "lp_of m = lp_of (socks h)"
    using relinked_views(1,2) [OF rel] s(2) by (simp_all add: views_all_upd views_all_app fun_upd_idem)
  have hd': "hds_of ((ctxs h)(c \<mapsto> y\<lparr>head_listen_sockets := s\<rparr>)) (loops h) = (s_hds h)(Listen c \<mapsto> s)"
    using y(1) by (simp add: hds_keep(2))
  have ct': "ci_of ((ctxs h)(c \<mapsto> y\<lparr>head_listen_sockets := s\<rparr>)) = ci_of (ctxs h)"
    "cnx_of ((ctxs h)(c \<mapsto> y\<lparr>head_listen_sockets := s\<rparr>)) = c_nx h"
    "cpv_of ((ctxs h)(c \<mapsto> y\<lparr>head_listen_sockets := s\<rparr>)) = c_pv h"
    "cl_of ((ctxs h)(c \<mapsto> y\<lparr>head_listen_sockets := s\<rparr>)) = cl_of (ctxs h)"
    using y(1) by (simp_all add: views_all_upd views_all_app fun_upd_idem)
  have sh: "shape ?g = (shape h)\<lparr>nx := (nx (shape h))(s \<mapsto> head_listen_sockets y),
      pv := push_pv (pv (shape h)) (head_listen_sockets y) s, hds := (hds (shape h))(Listen c \<mapsto> s),
      owner := (owner (shape h))(s \<mapsto> c), lp := lp (shape h)\<rparr>"
    using vm hd' ct' ov by (simp add: shape_def)
  have w': "wfd (D - {s}) ?g ?L C"
    unfolding sh
  proof (rule ok_attach [OF w s(1) hd])
    show "placed ((shape h)\<lparr>owner := (owner (shape h))(s \<mapsto> c), lp := lp (shape h)\<rparr>) (Listen c) s"
      using s(2) st by (auto simp: placed_def views)
  qed simp_all
  have u: "\<And>x k. x \<in> set (L k) \<Longrightarrow> x \<noteq> s" by (rule ok_D_unlisted [OF w s(1)])
  have i': "invd (D - {s}) E ?g ?L C"
  proof (rule invd_move [OF i w', of s "Listen c"])
    show "x \<noteq> s \<and> x \<in> set (L k) \<or> x = s \<and> k = Listen c" if "x \<in> set (?L k)" for x k
      using that u [of x k] by (auto split: if_splits)
    show "finite (allocated ?g)"
      using invD(2) [OF i] dm y(1) by (simp add: finite_allocated)
    show "has_handlers ?g c'" if "has_handlers h c'" for c'
      using that y(1) by (rule has_handlers_ctx_upd) (simp_all add: handlers_set_def)
    show "has_handlers ?g (s_context so')" if "socks ?g s = Some so'" for so'
    proof -
      have "owner_of m s = Some (s_context so')" using that by (simp add: views)
      with ov have "s_context so' = c" by simp
      with y(2) show ?thesis by (simp add: has_handlers_def handlers_set_def)
    qed
    show "entry_ok ?g ?L l p" if e: "entry_ok h L l p" for l p
    proof (cases "p = s")
      case False
      with e show ?thesis by (auto simp: entry_ok_shape sh closed_in_def)
    next
      case True
      have nc: "cbs h s = None" by (rule wfd_sock(3) [OF w s(2)])
      with e True have l: "loop_of h s = Some l" by (auto simp: entry_ok_def)
      have "\<not> closed_in ?L s" using u by (auto simp: closed_in_def)
      with True lo [OF l] y(1) show ?thesis by (auto simp: entry_ok_shape sh views)
    qed
  qed (use po in \<open>simp_all add: sh\<close>)
  have rm: "rem (shape ?g) ?L c' = rem (shape h) L c'" for c'
    by (rule rem_cong) (simp_all add: sh)
  have ev: "evolves_ex {s} h L ?g ?L"
    unfolding evolves_ex_def
  proof (intro conjI allI impI)
    show "\<exists>y'. ctxs ?g c' = Some y' \<and> ctx_evolves x y'" if "ctxs h c' = Some x" for c' x
      using that y by (auto simp: ctx_evolves_def handlers_set_def)
    show "subseq (rem (shape ?g) ?L c') (rem (shape h) L c')" for c' unfolding rm by simp
    show "connecting_in ?g ?L x \<or> closed_in ?L x" if "x \<notin> {s}" "connecting_in h L x" for x
      using that by (auto simp: connecting_in_def)
  qed (auto simp: closed_in_def)
  show thesis by (rule that [OF r rel i' ev])
qed

subsection \<open>A new socket\<close>

definition new_sock :: "ptr \<Rightarrow> us_socket_t" where
  "new_sock c = \<lparr>timeout = 255, long_timeout = 255, low_prio_state = 0, s_context = c, s_prev = NULL, s_next = NULL\<rparr>"

text \<open>The first part of listening, connecting and accepting.\<close>

definition make_socket :: "env \<Rightarrow> heap \<Rightarrow> ptr \<Rightarrow> ptr \<Rightarrow> int \<Rightarrow> u4 \<Rightarrow> u32 \<Rightarrow> (ptr \<times> heap) option" where
  "make_socket E h l c f t ev = do {
     (p, h) \<leftarrow> us_create_poll E h l 0;
     h \<leftarrow> us_poll_init h p f t;
     h \<leftarrow> us_poll_start E h p l ev;
     Some (p, h\<lparr>socks := (socks h)(p \<mapsto> new_sock c)\<rparr>) }"

lemma make_socket_invd:
  assumes i: "inv_with E h L C" and a: "allocator_ok E" and y: "ctxs h c = Some y" "l = c_loop y"
    and t: "t AND 3 = t" and ev: "event_set (be E) ev"
  obtains p h' x where "make_socket E h l c f t ev = Some (p, h')" "invd {p} E h' L C" "evolves h L h' L"
    "socks h' = (socks h)(p \<mapsto> new_sock c)" "polls h' = (polls h)(p \<mapsto> x)" "ctxs h' = ctxs h"
    "listens h' = listens h" "cbs h' = cbs h" "p \<notin> allocated h" "p \<noteq> NULL"
    "us_internal_poll_type x = t" "us_poll_events (be E) x = ev" "us_poll_fd x = sint (word_of_int f :: 28 word)"
    "\<exists>z. loops h l = Some z \<and> loops h' = (loops h)(l \<mapsto> z\<lparr>num_polls := num_polls z + 1\<rparr>)"
proof -
  have w: "wfd {} h L C" by (rule invD(1) [OF i])
  obtain z where z: "loops h l = Some z" using wfd_ctx [OF w y(1)] y(2) by blast
  let ?l = "(loops h)(l \<mapsto> z\<lparr>num_polls := num_polls z + 1\<rparr>)"
  let ?h0 = "h\<lparr>loops := ?l\<rparr>"
  define p where "p = malloc_at E ?h0"
  define x where "x = with_events (be E) ((malloc_garbage E ?h0)\<lparr>fd := word_of_int f, poll_type := t\<rparr>) ev"
  have dl: "dom ?l = dom (loops h)" using z by auto
  have al: "allocated ?h0 = allocated h" using dl by (simp add: allocated_def)
  have fr: "p \<noteq> NULL" "p \<notin> allocated h"
    using a invD(2) [OF i] al unfolding allocator_ok_def p_def by metis+
  then have pn: "polls h p = None" "socks h p = None" "listens h p = None" "cbs h p = None" "ctxs h p = None"
    "loops h p = None"
    by (auto simp: allocated_def)
  have lp': "p \<noteq> l" using pn(6) z by auto
  let ?x0 = "(malloc_garbage E ?h0)\<lparr>fd := word_of_int f, poll_type := t\<rparr>"
  let ?c = "poll_syscall E EPOLL_CTL_ADD (l_fd z) (us_poll_fd ?x0) 0 ev p"
  let ?h' = "h\<lparr>polls := (polls h)(p \<mapsto> x), socks := (socks h)(p \<mapsto> new_sock c), loops := ?l, trace := trace h @ [Sys ?c]\<rparr>"
  have r: "make_socket E h l c f t ev = Some (p, ?h')"
  proof -
    have 1: "us_create_poll E h l 0 = Some (p, ?h0\<lparr>polls := (polls h)(p \<mapsto> malloc_garbage E ?h0)\<rparr>)"
      using z by (simp add: us_create_poll_def set_loop_def p_def Let_def)
    have 2: "us_poll_init (?h0\<lparr>polls := (polls h)(p \<mapsto> malloc_garbage E ?h0)\<rparr>) p f t =
        Some (?h0\<lparr>polls := (polls h)(p \<mapsto> ?x0)\<rparr>)"
      by (simp add: us_poll_init_def set_poll_def)
    let ?h2 = "?h0\<lparr>polls := (polls h)(p \<mapsto> ?x0)\<rparr>"
    have "polls ?h2 p = Some ?x0" "loops ?h2 l = Some (z\<lparr>num_polls := num_polls z + 1\<rparr>)" by simp_all
    from us_poll_start_result [where E = E, OF this, of ev]
    have 3: "us_poll_start E ?h2 p l ev = Some (?h2\<lparr>polls := (polls h)(p \<mapsto> x), trace := trace h @ [Sys ?c]\<rparr>)"
      by (simp add: do_sys_def x_def)
    show ?thesis by (simp add: make_socket_def 1 2 3)
  qed
  let ?g = "h\<lparr>polls := (polls h)(p \<mapsto> x), socks := (socks h)(p \<mapsto> new_sock c), loops := ?l\<rparr>"
  have lv: "s_hds ?g = s_hds h" "c_hds ?g = c_hds h" "li_of ?l = li_of (loops h)"
    using z by (simp_all add: views_all_upd views_all_app fun_upd_idem)
  have sh: "shape ?g = (shape h)\<lparr>pls := insert p (pls (shape h))\<rparr>\<lparr>nx := (nx (shape h))(p \<mapsto> NULL),
      pv := (pv (shape h))(p \<mapsto> NULL), owner := (owner (shape h))(p \<mapsto> c), lp := (lp (shape h))(p \<mapsto> 0)\<rparr>"
    using lv by (simp add: shape_def views_all_upd new_sock_def)
  have w1: "ok {} ((shape h)\<lparr>pls := insert p (pls (shape h))\<rparr>) L C"
    by (rule ok_new_poll [OF w fr(1)]) (use pn in \<open>auto simp: views_all_dom\<close>)
  have w2: "wfd {p} ?g L C"
    unfolding sh by (rule ok_new_sock [OF w1]) (use pn in \<open>auto simp: views_all_dom views_all_app\<close>)
  have u: "\<And>q k. q \<in> set (L k) \<Longrightarrow> q \<noteq> p"
    using ok_listed(1) [OF w] pn(2) by (fastforce simp: views_all_dom)
  have i1: "invd {p} E ?g L C"
  proof (rule invI [OF w2])
    show "finite (allocated ?g)" using invD(2) [OF i] dl by (simp add: finite_allocated)
    show "pollsI (be E) ?g L" using invD(3) [OF i] u unfolding pollsI_def by auto
    show "handI ?g L"
      unfolding handI_def
    proof (intro allI impI)
      fix k q so assume q: "q \<in> set (L k)" "doubly k" "socks ?g q = Some so"
      with u [OF q(1)] have "socks h q = Some so" by simp
      with invD(4) [OF i] q(1,2) have "has_handlers h (s_context so)" unfolding handI_def by blast
      then show "has_handlers ?g (s_context so)" by (simp add: has_handlers_def)
    qed
    show "cbsI ?g"
      unfolding cbsI_def
    proof (intro allI impI)
      fix q cb assume "cbs ?g q = Some cb"
      then have q: "cbs h q = Some cb" by simp
      with pn(4) have "q \<noteq> p" by auto
      moreover have "cb_ok h q cb" using invD(5) [OF i] q unfolding cbsI_def by blast
      ultimately show "cb_ok ?g q cb" using dl by (simp add: cb_ok_def)
    qed
    have e: "entry_ok ?g L l' q" if q: "entry_ok h L l' q" for l' q
    proof -
      have "q \<noteq> p" using q pn by (auto simp: entry_ok_def)
      with q show ?thesis by (auto simp: entry_ok_shape sh)
    qed
    show "readyI (be E) ?g L"
      unfolding readyI_def
    proof (intro allI impI)
      fix l' z' assume l': "loops ?g l' = Some z'"
      obtain z0 where z0: "loops h l' = Some z0" "ready_polls z' = ready_polls z0"
        "num_ready_polls z' = num_ready_polls z0" "current_ready_poll z' = current_ready_poll z0"
        using l' z by (auto split: if_splits)
      have p': "pending z' = pending z0" by (rule pending_cong [OF z0(2-4)])
      show "ready_list_ok (be E) z' \<and> (\<forall>q\<in>re_poll ` set (pending z'). q \<noteq> NULL \<longrightarrow> entry_ok ?g L l' q)"
        using readyD [OF invD(6) [OF i] z0(1)] e p' ready_list_ok_cong [OF z0(2-4)] by auto
    qed
  qed
  have rm: "rem (shape ?g) L c' = rem (shape h) L c'" for c'
    by (rule rem_cong) (simp_all add: sh)
  have e1: "evolves h L ?g L"
    unfolding evolves_ex_def
  proof (intro conjI allI impI)
    show "subseq (rem (shape ?g) L c') (rem (shape h) L c')" for c' unfolding rm by simp
    show "\<exists>z'. loops ?g l' = Some z' \<and> loop_evolves z0 z'" if "loops h l' = Some z0" for l' z0
      using that z by (auto simp: loop_evolves_def)
    show "connecting_in ?g L q \<or> closed_in L q" if "q \<notin> {}" "connecting_in h L q" for q
      using that u by (auto simp: connecting_in_def)
  qed simp_all
  have tx: "us_internal_poll_type x = t"
    using t by (simp add: x_def) (simp add: us_internal_poll_type_def)
  have fx: "us_poll_fd x = sint (word_of_int f :: 28 word)"
    by (simp add: x_def us_poll_fd_def)
  show thesis
  proof (rule that [OF r, of x])
    show "invd {p} E ?h' L C" using i1 unfolding invd_trace .
    show "evolves h L ?h' L" using e1 unfolding evolves_trace .
    show "us_poll_events (be E) x = ev" using ev by (simp add: x_def)
  qed (use z tx fx fr in simp_all)
qed

lemma accept_one_make:
  "accept_one E h ls client_fd addr = do {
     x \<leftarrow> socks h ls;
     y \<leftarrow> ctxs h (s_context x);
     (p, h) \<leftarrow> make_socket E h (c_loop y) (s_context x) client_fd POLL_TYPE_SOCKET (LIBUS_SOCKET_READABLE (be E));
     let h = bsd_socket_nodelay h client_fd 1;
     h \<leftarrow> us_internal_socket_context_link_socket h (s_context x) p;
     y \<leftarrow> ctxs h (s_context x);
     r \<leftarrow> call_fn E (on_open y) (OnOpen p 0 (bsd_addr_bytes addr)) h;
     Some (snd r) }"
  by (auto simp: accept_one_def make_socket_def new_sock_def intro!: Option.bind_cong split: prod.splits)

lemma start_connect_socket_make:
  "start_connect_socket E h c f = do {
     y \<leftarrow> ctxs h c;
     (p, h) \<leftarrow> make_socket E h (c_loop y) c f POLL_TYPE_SEMI_SOCKET (LIBUS_SOCKET_WRITABLE (be E));
     h \<leftarrow> us_internal_socket_context_link_socket h c p;
     Some (p, h) }"
  by (auto simp: start_connect_socket_def make_socket_def new_sock_def intro!: Option.bind_cong split: prod.splits)

lemma start_listen_socket_make:
  "start_listen_socket E h c f ext = do {
     y \<leftarrow> ctxs h c;
     (p, h) \<leftarrow> make_socket E h (c_loop y) c f POLL_TYPE_SEMI_SOCKET (LIBUS_SOCKET_READABLE (be E));
     h \<leftarrow> us_internal_socket_context_link_listen_socket h c p;
     Some (p, h\<lparr>listens := (listens h)(p \<mapsto> \<lparr>socket_ext_size = ext\<rparr>)\<rparr>) }"
  by (auto simp: start_listen_socket_def make_socket_def new_sock_def intro!: Option.bind_cong split: prod.splits)

subsection \<open>Sockets that are opened\<close>

lemma fresh_settle:
  assumes w: "wfd {} h L C" and p: "p \<notin> allocated h" and e: "evolves_ex {p} h L h' L'"
  shows "evolves h L h' L'"
proof (rule evolves_settle [OF e])
  fix x assume x: "x \<in> {p}"
  have "x \<notin> set (L k)" for k
    using ok_listed(1) [OF w, of x k] x p by (auto simp: views_all_dom allocated_def)
  then show "closed_in L' x \<or> (\<not> connecting_in h L x \<and> (\<forall>c. x \<notin> set (L (Listen c))))"
    by (simp add: connecting_in_def)
qed

lemma open_socket_ok:
  assumes i: "inv_with E h L C" and a: "allocator_ok E" and y: "ctxs h c = Some y" "handlers_set y"
    and t: "t AND 3 = t" and ev: "event_set (be E) ev"
    and po: "\<And>x. us_internal_poll_type x = t \<Longrightarrow> us_poll_events (be E) x = ev \<Longrightarrow> poll_ok (be E) (Open c) x"
  obtains p h1 x where "make_socket E h (c_loop y) c f t ev = Some (p, h1)"
    "p \<notin> allocated h" "p \<noteq> NULL" "us_internal_poll_type x = t" "us_poll_events (be E) x = ev"
    "\<And>tr. \<exists>h2. us_internal_socket_context_link_socket (h1\<lparr>trace := tr\<rparr>) c p = Some h2 \<and>
      inv_with E h2 (L(Open c := p # L (Open c))) C \<and> evolves h L h2 (L(Open c := p # L (Open c))) \<and>
      ctxs h2 = (ctxs h)(c \<mapsto> y\<lparr>head_sockets := p\<rparr>) \<and> polls h2 = (polls h)(p \<mapsto> x) \<and> trace h2 = tr \<and>
      p \<in> dom (socks h2)"
proof -
  have w: "wfd {} h L C" by (rule invD(1) [OF i])
  obtain p h1 x where m: "make_socket E h (c_loop y) c f t ev = Some (p, h1)" and i1: "invd {p} E h1 L C"
    and e1: "evolves h L h1 L" and s1: "socks h1 = (socks h)(p \<mapsto> new_sock c)" "polls h1 = (polls h)(p \<mapsto> x)"
      "ctxs h1 = ctxs h" "listens h1 = listens h" "cbs h1 = cbs h" "p \<notin> allocated h" "p \<noteq> NULL"
      "us_internal_poll_type x = t" "us_poll_events (be E) x = ev"
    using make_socket_invd [OF i a y(1) refl t ev] by metis
  have "\<exists>h2. us_internal_socket_context_link_socket (h1\<lparr>trace := tr\<rparr>) c p = Some h2 \<and>
      inv_with E h2 (L(Open c := p # L (Open c))) C \<and> evolves h L h2 (L(Open c := p # L (Open c))) \<and>
      ctxs h2 = (ctxs h)(c \<mapsto> y\<lparr>head_sockets := p\<rparr>) \<and> polls h2 = (polls h)(p \<mapsto> x) \<and> trace h2 = tr \<and>
      p \<in> dom (socks h2)" for tr
  proof -
    let ?h1 = "h1\<lparr>trace := tr\<rparr>"
    have i1': "invd {p} E ?h1 L C" using i1 by simp
    have q: "socks ?h1 p = Some (new_sock c)" "ctxs ?h1 c = Some y" "low_prio_state (new_sock c) \<noteq> 1" "listens ?h1 p = None"
      using s1 y by (auto simp: new_sock_def allocated_def)
    have po': "poll_ok (be E) (Open c) x'" if "polls ?h1 p = Some x'" for x'
      using that s1 po by simp
    have lo: "c_loop y = l" if "loop_of ?h1 p = Some l" for l
      using that s1 y by (simp add: loop_of_def new_sock_def)
    obtain m where m: "us_internal_socket_context_link_socket ?h1 c p =
      Some (?h1\<lparr>socks := m, ctxs := (ctxs ?h1)(c \<mapsto> y\<lparr>head_sockets := p\<rparr>)\<rparr>)"
      "relinked ((socks ?h1)(p \<mapsto> (new_sock c)\<lparr>s_context := c\<rparr>)) m"
      "invd ({p} - {p}) E (?h1\<lparr>socks := m, ctxs := (ctxs ?h1)(c \<mapsto> y\<lparr>head_sockets := p\<rparr>)\<rparr>)
        (L(Open c := p # L (Open c))) C"
      "evolves_ex {p} ?h1 L (?h1\<lparr>socks := m, ctxs := (ctxs ?h1)(c \<mapsto> y\<lparr>head_sockets := p\<rparr>)\<rparr>)
        (L(Open c := p # L (Open c)))"
      using link_invd [OF i1' insertI1 q(1,2) y(2) q(3,4) po' lo] by blast
    let ?h2 = "?h1\<lparr>socks := m, ctxs := (ctxs ?h1)(c \<mapsto> y\<lparr>head_sockets := p\<rparr>)\<rparr>"
    have "evolves_ex {p} h L ?h1 L" using evolves_weaken [OF e1] by simp
    from evolves_trans [OF this m(4)] have "evolves h L ?h2 (L(Open c := p # L (Open c)))"
      by (rule fresh_settle [OF w s1(6)])
    moreover have "p \<in> dom m" using relinked_views(3) [OF m(2)] by auto
    ultimately show ?thesis using m(1,3) s1 by simp
  qed
  then show thesis using that [OF m s1(6,7,8,9)] by blast
qed

lemma start_connect_socket_ok:
  assumes i: "inv_with E h L C" and a: "allocator_ok E" and y: "ctxs h c = Some y" "handlers_set y"
  obtains p h' where "start_connect_socket E h c f = Some (p, h')"
    "inv_with E h' (L(Open c := p # L (Open c))) C" "evolves h L h' (L(Open c := p # L (Open c)))"
    "p \<notin> allocated h"
proof -
  have t: "POLL_TYPE_SEMI_SOCKET AND 3 = POLL_TYPE_SEMI_SOCKET" by simp
  have po: "poll_ok (be E) (Open c) x" if "us_internal_poll_type x = POLL_TYPE_SEMI_SOCKET"
    "us_poll_events (be E) x = LIBUS_SOCKET_WRITABLE (be E)" for x
    using that by (simp add: poll_ok_def)
  show thesis
  proof (rule open_socket_ok [OF i a y t event_set_intros(3) po, where f = f])
    fix p h1 x
    assume m: "make_socket E h (c_loop y) c f POLL_TYPE_SEMI_SOCKET (LIBUS_SOCKET_WRITABLE (be E)) = Some (p, h1)"
      "p \<notin> allocated h"
    assume l: "\<And>tr. \<exists>h2. us_internal_socket_context_link_socket (h1\<lparr>trace := tr\<rparr>) c p = Some h2 \<and>
      inv_with E h2 (L(Open c := p # L (Open c))) C \<and> evolves h L h2 (L(Open c := p # L (Open c))) \<and>
      ctxs h2 = (ctxs h)(c \<mapsto> y\<lparr>head_sockets := p\<rparr>) \<and> polls h2 = (polls h)(p \<mapsto> x) \<and> trace h2 = tr \<and>
      p \<in> dom (socks h2)"
    obtain h2 where r: "us_internal_socket_context_link_socket h1 c p = Some h2"
      "inv_with E h2 (L(Open c := p # L (Open c))) C" "evolves h L h2 (L(Open c := p # L (Open c)))"
      using l [of "trace h1"] by auto
    show thesis
      by (rule that [OF _ r(2,3) m(2)]) (use y(1) m(1) r(1) in \<open>simp add: start_connect_socket_make\<close>)
  qed
qed

text \<open>The part of a listen socket that \<open>us_listen_socket_t\<close> adds is written after the linking.\<close>

lemma link_listen_listens:
  "us_internal_socket_context_link_listen_socket (h\<lparr>listens := m\<rparr>) c s =
     map_option (\<lambda>g. g\<lparr>listens := m\<rparr>) (us_internal_socket_context_link_listen_socket h c s)"
  by (cases "socks h s"; cases "ctxs h c"; cases "socks h (head_listen_sockets (the (ctxs h c)))")
    (simp_all add: us_internal_socket_context_link_listen_socket_def set_defs)

lemma invd_new_listen:
  assumes i: "invd D E h L C" and s: "s \<in> D"
  shows "invd D E (h\<lparr>listens := (listens h)(s \<mapsto> v)\<rparr>) L C"
    (is "invd D E ?g L C")
proof (rule invI)
  have sh: "shape ?g = (shape h)\<lparr>lis := insert s (lis (shape h))\<rparr>" by (simp add: shape_def)
  show "wfd D ?g L C" unfolding sh by (rule ok_new_listen [OF invD(1) [OF i] s])
  show "finite (allocated ?g)" using invD(2) [OF i] by (simp add: finite_allocated)
  show "pollsI (be E) ?g L" using invD(3) [OF i] by (simp add: pollsI_def)
  show "handI ?g L" using invD(4) [OF i] by (simp add: handI_def has_handlers_def)
  show "cbsI ?g" using invD(5) [OF i] by (simp add: cbsI_def cb_ok_def)
  show "readyI (be E) ?g L"
    by (rule readyI_cong [OF invD(6) [OF i]]) (simp_all add: entry_ok_shape sh)
qed

lemma evolves_listens [simp]:
  "evolves_ex X h L (h'\<lparr>listens := m\<rparr>) L' = evolves_ex X h L h' L'"
  "evolves_ex X (h\<lparr>listens := m\<rparr>) L h' L' = evolves_ex X h L h' L'"
  by (simp_all add: evolves_ex_def connecting_in_def rem_def)

lemma start_listen_socket_ok:
  assumes i: "inv_with E h L C" and a: "allocator_ok E" and y: "ctxs h c = Some y" "handlers_set y"
  obtains p h' where "start_listen_socket E h c f ext = Some (p, h')"
    "inv_with E h' (L(Listen c := p # L (Listen c))) C" "evolves h L h' (L(Listen c := p # L (Listen c)))"
    "p \<notin> allocated h" "p \<noteq> NULL" "listens h' = (listens h)(p \<mapsto> \<lparr>socket_ext_size = ext\<rparr>)"
proof -
  have t: "POLL_TYPE_SEMI_SOCKET AND 3 = POLL_TYPE_SEMI_SOCKET" by simp
  have w: "wfd {} h L C" by (rule invD(1) [OF i])
  show thesis
  proof (rule make_socket_invd [OF i a y(1) refl t event_set_intros(2), where f = f])
    fix p h1 x
    assume m: "make_socket E h (c_loop y) c f POLL_TYPE_SEMI_SOCKET (LIBUS_SOCKET_READABLE (be E)) = Some (p, h1)"
      and i1: "invd {p} E h1 L C" and e1: "evolves h L h1 L"
      and s1: "socks h1 = (socks h)(p \<mapsto> new_sock c)" "polls h1 = (polls h)(p \<mapsto> x)"
        "ctxs h1 = ctxs h" "listens h1 = listens h" "p \<notin> allocated h" "p \<noteq> NULL"
        "us_internal_poll_type x = POLL_TYPE_SEMI_SOCKET" "us_poll_events (be E) x = LIBUS_SOCKET_READABLE (be E)"
    let ?v = "\<lparr>socket_ext_size = ext\<rparr>"
    let ?g = "h1\<lparr>listens := (listens h1)(p \<mapsto> ?v)\<rparr>"
    have i2: "invd {p} E ?g L C" by (rule invd_new_listen [OF i1]) simp
    have q: "socks ?g p = Some (new_sock c)" "ctxs ?g c = Some y" "low_prio_state (new_sock c) = 0" "p \<in> dom (listens ?g)"
      using s1 y by (simp_all add: new_sock_def)
    have po: "poll_ok (be E) (Listen c) x'" if "polls ?g p = Some x'" for x'
      using that s1 by (simp add: poll_ok_def)
    have lo: "c_loop y = l" if "loop_of ?g p = Some l" for l
      using that s1 y by (simp add: loop_of_def new_sock_def)
    obtain m' where k: "us_internal_socket_context_link_listen_socket ?g c p =
        Some (?g\<lparr>socks := m', ctxs := (ctxs ?g)(c \<mapsto> y\<lparr>head_listen_sockets := p\<rparr>)\<rparr>)"
      "invd ({p} - {p}) E (?g\<lparr>socks := m', ctxs := (ctxs ?g)(c \<mapsto> y\<lparr>head_listen_sockets := p\<rparr>)\<rparr>)
        (L(Listen c := p # L (Listen c))) C"
      "evolves_ex {p} ?g L (?g\<lparr>socks := m', ctxs := (ctxs ?g)(c \<mapsto> y\<lparr>head_listen_sockets := p\<rparr>)\<rparr>)
        (L(Listen c := p # L (Listen c)))"
      by (rule link_listen_invd [OF i2 insertI1 q(1,2) y(2) q(3,4) po lo])
    let ?h2 = "?g\<lparr>socks := m', ctxs := (ctxs ?g)(c \<mapsto> y\<lparr>head_listen_sockets := p\<rparr>)\<rparr>"
    have "evolves_ex {p} h L ?g L" using evolves_weaken [OF e1, of "{p}"] by simp
    from evolves_trans [OF this k(3)] have e2: "evolves h L ?h2 (L(Listen c := p # L (Listen c)))"
      by (rule fresh_settle [OF w s1(5)])
    obtain h3 where h3: "us_internal_socket_context_link_listen_socket h1 c p = Some h3"
      "h3\<lparr>listens := (listens h1)(p \<mapsto> ?v)\<rparr> = ?h2"
      using k(1) unfolding link_listen_listens by auto
    have "listens h3 = listens h1"
      using h3(1) q(1,2) by (cases "socks h1 (head_listen_sockets y)")
        (auto simp: us_internal_socket_context_link_listen_socket_def set_defs split: if_splits)
    with h3(2) have h3': "h3\<lparr>listens := (listens h3)(p \<mapsto> ?v)\<rparr> = ?h2" by simp
    show thesis
    proof (rule that [OF _ _ e2 s1(5,6)])
      show "start_listen_socket E h c f ext = Some (p, ?h2)"
        using y(1) m h3(1) h3' by (simp add: start_listen_socket_make)
      show "inv_with E ?h2 (L(Listen c := p # L (Listen c))) C" using k(2) by simp
    qed (simp add: s1(4))
  qed
qed

end
