(* ===== verification/Sending.thy ===== *)
theory Sending
  imports Opening
begin

text \<open>
  Timeouts, writing and shutting down keep the invariant.  They stay within one socket: no list
  changes, only what the socket's poll polls for.
\<close>

subsection \<open>Live sockets\<close>

lemma live_socket:
  assumes i: "inv_with E h L C" and s: "socks h s = Some so" "\<not> us_socket_is_closed so"
  obtains y z p k where "ctxs h (s_context so) = Some y" "handlers_set y" "loops h (c_loop y) = Some z"
    "polls h s = Some p" "s \<in> set (L k)" "doubly k" "poll_ok (be E) k p" "placed (shape h) k s"
proof -
  have w: "wfd {} h L C" by (rule invD(1) [OF i])
  have "s \<in> dom (nx (shape h))" using s(1) by (auto simp: views)
  then obtain k where k: "s \<in> set (L k)" "placed (shape h) k s" using ok_place [OF w] by blast
  have "\<nexists>l. k = Closed l"
    using wfd_closed_iff [OF w k(1) s(1)] s(2) by (simp add: us_socket_is_closed_def)
  then have d: "doubly k" by (cases k) simp_all
  have "has_handlers h (s_context so)" using invD(4) [OF i] k(1) d s(1) unfolding handI_def by blast
  then obtain y where y: "ctxs h (s_context so) = Some y" "handlers_set y"
    by (auto simp: has_handlers_def split: option.splits)
  obtain z where z: "loops h (c_loop y) = Some z" using wfd_ctx [OF w y(1)] by blast
  obtain p where p: "polls h s = Some p" using wfd_sock(2) [OF w s(1)] by blast
  have "poll_ok (be E) k p" using invD(3) [OF i] k(1) p unfolding pollsI_def by blast
  with that y z p k d show thesis by blast
qed

lemma closed_socket:
  assumes i: "inv_with E h L C" and s: "socks h s = Some so"
  shows "us_socket_is_closed so \<longleftrightarrow> closed_in L s"
proof -
  have w: "wfd {} h L C" by (rule invD(1) [OF i])
  have "s \<in> dom (nx (shape h))" using s(1) by (auto simp: views)
  then obtain k where k: "s \<in> set (L k)" using ok_place [OF w] by blast
  have "closed_in L s \<longleftrightarrow> (\<exists>l. k = Closed l)"
  proof
    assume "closed_in L s"
    then obtain l where "s \<in> set (L (Closed l))" unfolding closed_in_def ..
    from ok_unique [OF w k this] show "\<exists>l. k = Closed l" ..
  next
    assume "\<exists>l. k = Closed l"
    with k show "closed_in L s" unfolding closed_in_def by auto
  qed
  with wfd_closed_iff [OF w k s(1)] show ?thesis by (simp add: us_socket_is_closed_def)
qed

text \<open>An established socket that is not closed is among the open ones of its context or queued.\<close>

lemma established_place:
  assumes "poll_ok b k p" "us_socket_is_established p" "doubly k"
  shows "(\<exists>c. k = Open c) \<or> (\<exists>l. k = LowPrio l)"
  using assms by (cases k) (auto simp: poll_ok_def us_socket_is_established_def)

subsection \<open>Changing what a socket polls for\<close>

lemma evolves_poll:
  assumes "polls h s = Some p" "us_internal_poll_type p' = us_internal_poll_type p \<or>
    us_internal_poll_type p \<noteq> POLL_TYPE_SEMI_SOCKET"
  shows "evolves_ex X h L (h\<lparr>polls := (polls h)(s \<mapsto> p')\<rparr>) L"
proof (rule evolves_same)
  show "shape (h\<lparr>polls := (polls h)(s \<mapsto> p')\<rparr>) = shape h" by (rule shape_polls_upd) (use assms(1) in auto)
  show "connecting_in (h\<lparr>polls := (polls h)(s \<mapsto> p')\<rparr>) L x" if "connecting_in h L x" for x
    using that assms by (auto simp: connecting_in_def split: option.splits)
qed auto

lemma evolves_sock:
  assumes "socks h s = Some x" "s_prev x' = s_prev x" "s_next x' = s_next x"
    "s_context x' = s_context x" "low_prio_state x' = low_prio_state x"
  shows "evolves_ex X h L (h\<lparr>socks := (socks h)(s \<mapsto> x')\<rparr>) L"
  by (rule evolves_same [OF shape_socks [OF assms]]) (auto simp: connecting_in_def)

lemma evolves_loop:
  assumes "loops h l = Some z" "low_prio_head z' = low_prio_head z" "closed_head z' = closed_head z"
    "l_head z' = l_head z" "l_iterator z' = l_iterator z" "loop_evolves z z'"
  shows "evolves_ex X h L (h\<lparr>loops := (loops h)(l \<mapsto> z')\<rparr>) L"
  by (rule evolves_same [OF shape_loops [OF assms(1-5)]]) (use assms in \<open>auto simp: connecting_in_def\<close>)

lemma poll_change_ok:
  assumes i: "invd D E h L C" and p: "polls h s = Some p" and z: "loops h l = Some z"
    and ev: "event_set (be E) ev"
    and ok: "\<And>k. s \<in> set (L k) \<Longrightarrow> poll_ok (be E) k (with_events (be E) p ev)"
  obtains p' t where "us_poll_change E h s l ev = Some (h\<lparr>polls := (polls h)(s \<mapsto> p'), trace := trace h @ t\<rparr>)"
    "invd D E (h\<lparr>polls := (polls h)(s \<mapsto> p'), trace := trace h @ t\<rparr>) L C"
    "evolves_ex X h L (h\<lparr>polls := (polls h)(s \<mapsto> p'), trace := trace h @ t\<rparr>) L"
    "us_poll_events (be E) p' = ev" "us_internal_poll_type p' = us_internal_poll_type p"
    "us_poll_fd p' = us_poll_fd p"
proof (cases "us_poll_events (be E) p = ev")
  case True
  then have r: "us_poll_change E h s l ev = Some (h\<lparr>polls := (polls h)(s \<mapsto> p), trace := trace h @ []\<rparr>)"
    using us_poll_change_result [where E = E, OF p z, of ev] p by (simp add: fun_upd_idem)
  show thesis
    by (rule that [OF r]) (use i p True in \<open>simp_all add: fun_upd_idem\<close>)
next
  case False
  let ?p = "with_events (be E) p ev"
  let ?t = "[Sys (poll_syscall E EPOLL_CTL_MOD (l_fd z) (us_poll_fd p) (us_poll_events (be E) p) ev s)]"
  have r: "us_poll_change E h s l ev = Some (h\<lparr>polls := (polls h)(s \<mapsto> ?p), trace := trace h @ ?t\<rparr>)"
    using us_poll_change_result [where E = E, OF p z, of ev] False by (simp add: do_sys_def)
  have i1: "invd D E (h\<lparr>polls := (polls h)(s \<mapsto> ?p)\<rparr>) L C"
    by (rule invd_poll [OF i p ok]) simp_all
  have e1: "evolves_ex X h L (h\<lparr>polls := (polls h)(s \<mapsto> ?p)\<rparr>) L"
    by (rule evolves_poll [OF p]) simp
  show thesis
  proof (rule that [OF r])
    show "invd D E (h\<lparr>polls := (polls h)(s \<mapsto> ?p), trace := trace h @ ?t\<rparr>) L C" using i1 by simp
    show "evolves_ex X h L (h\<lparr>polls := (polls h)(s \<mapsto> ?p), trace := trace h @ ?t\<rparr>) L" using e1 by simp
  qed (use ev in simp_all)
qed

subsection \<open>Timeouts\<close>

lemma us_socket_timeout_ok:
  assumes i: "inv_with E h L C" and s: "socks h s = Some so" "\<not> us_socket_is_closed so \<or> seconds = 0"
  obtains t where "us_socket_timeout h s seconds = Some (h\<lparr>socks := (socks h)(s \<mapsto> so\<lparr>timeout := t\<rparr>)\<rparr>)"
    "inv_with E (h\<lparr>socks := (socks h)(s \<mapsto> so\<lparr>timeout := t\<rparr>)\<rparr>) L C"
    "evolves h L (h\<lparr>socks := (socks h)(s \<mapsto> so\<lparr>timeout := t\<rparr>)\<rparr>) L"
proof -
  have "\<exists>t. us_socket_timeout h s seconds = Some (h\<lparr>socks := (socks h)(s \<mapsto> so\<lparr>timeout := t\<rparr>)\<rparr>)"
  proof (cases "seconds = 0")
    case True
    with s(1) show ?thesis by (auto simp: us_socket_timeout_def set_defs)
  next
    case False
    with s(2) live_socket [OF i s(1)] obtain y where "ctxs h (s_context so) = Some y" by metis
    with False s(1) show ?thesis by (auto simp: us_socket_timeout_def set_defs)
  qed
  then obtain t where r: "us_socket_timeout h s seconds = Some (h\<lparr>socks := (socks h)(s \<mapsto> so\<lparr>timeout := t\<rparr>)\<rparr>)" ..
  show thesis
    by (rule that [OF r invd_sock [OF i s(1)] evolves_sock [OF s(1)]]) simp_all
qed

lemma us_socket_long_timeout_ok:
  assumes i: "inv_with E h L C" and s: "socks h s = Some so" "\<not> us_socket_is_closed so \<or> minutes = 0"
  obtains t where "us_socket_long_timeout h s minutes = Some (h\<lparr>socks := (socks h)(s \<mapsto> so\<lparr>long_timeout := t\<rparr>)\<rparr>)"
    "inv_with E (h\<lparr>socks := (socks h)(s \<mapsto> so\<lparr>long_timeout := t\<rparr>)\<rparr>) L C"
    "evolves h L (h\<lparr>socks := (socks h)(s \<mapsto> so\<lparr>long_timeout := t\<rparr>)\<rparr>) L"
proof -
  have "\<exists>t. us_socket_long_timeout h s minutes = Some (h\<lparr>socks := (socks h)(s \<mapsto> so\<lparr>long_timeout := t\<rparr>)\<rparr>)"
  proof (cases "minutes = 0")
    case True
    with s(1) show ?thesis by (auto simp: us_socket_long_timeout_def set_defs)
  next
    case False
    with s(2) live_socket [OF i s(1)] obtain y where "ctxs h (s_context so) = Some y" by metis
    with False s(1) show ?thesis by (auto simp: us_socket_long_timeout_def set_defs)
  qed
  then obtain t where r: "us_socket_long_timeout h s minutes = Some (h\<lparr>socks := (socks h)(s \<mapsto> so\<lparr>long_timeout := t\<rparr>)\<rparr>)" ..
  show thesis
    by (rule that [OF r invd_sock [OF i s(1)] evolves_sock [OF s(1)]]) simp_all
qed

subsection \<open>Functions that only make system calls\<close>

definition only_calls :: "heap \<Rightarrow> heap \<Rightarrow> bool" where
  "only_calls h h' \<longleftrightarrow> (\<exists>t. h' = h\<lparr>trace := trace h @ t\<rparr>)"

lemma only_calls_refl [simp, intro]: "only_calls h h"
  unfolding only_calls_def by (rule exI [of _ "[]"]) simp

lemma only_calls_trans: "only_calls h h' \<Longrightarrow> only_calls h' h'' \<Longrightarrow> only_calls h h''"
  unfolding only_calls_def by auto

lemma only_calls_do_sys [simp]: "only_calls h h' \<Longrightarrow> only_calls h (do_sys h' c)"
  unfolding only_calls_def do_sys_def by auto

lemma only_calls_sys: "sys E h c = (r, h') \<Longrightarrow> only_calls h h'"
  by (auto simp: sys_def)

lemma only_callsD:
  assumes "only_calls h h'"
  shows "invd D E h' L C = invd D E h L C" "evolves_ex X g L0 h' L = evolves_ex X g L0 h L"
    "polls h' = polls h" "socks h' = socks h" "ctxs h' = ctxs h" "loops h' = loops h" "listens h' = listens h"
    "cbs h' = cbs h" "allocated h' = allocated h"
  using assms unfolding only_calls_def by auto

lemma only_calls_bsd [simp]:
  "only_calls h (bsd_socket_nodelay h f e)" "only_calls h (bsd_shutdown_socket h f)"
  "only_calls h (bsd_shutdown_socket_read h f)" "only_calls h (bsd_socket_flush E h f)"
  "only_calls h (bsd_close_socket h f)" "only_calls h (bsd_set_nonblocking h f)"
  "only_calls h (apple_no_sigpipe E h f)"
  "only_calls h (snd (bsd_send E h f data m))" "only_calls h (snd (bsd_write2 E h f data data'))"
  "only_calls h (snd (bsd_create_socket E h d ty pr))"
  "only_calls h (snd (bsd_accept_socket E h f))" "only_calls h (snd (snd (bsd_recv E h f n fl)))"
  by (simp_all add: bsd_socket_nodelay_def bsd_shutdown_socket_def bsd_shutdown_socket_read_def
      bsd_socket_flush_def bsd_close_socket_def bsd_set_nonblocking_def apple_no_sigpipe_def bsd_send_def
      bsd_write2_def sys_def bsd_create_socket_def bsd_accept_socket_def bsd_recv_def split: backend.split)

subsection \<open>Writing\<close>

text \<open>The sockets that may be written to: closed and shut down ones, and established ones that are not queued.\<close>

definition may_write :: "us_socket_t \<Rightarrow> us_poll_t \<Rightarrow> bool" where
  "may_write so p \<longleftrightarrow> us_socket_is_closed so \<or> us_socket_is_shut_down p \<or>
     (us_socket_is_established p \<and> low_prio_state so \<noteq> 1)"

lemma poll_ok_Open_established:
  "us_internal_poll_type p = us_internal_poll_type q \<Longrightarrow> poll_ok b (Open c) q \<Longrightarrow> us_socket_is_established q \<Longrightarrow>
   poll_ok b (Open c) p"
  by (simp add: poll_ok_def us_socket_is_established_def)

text \<open>A socket that is written to without queueing asks for readable and writable.\<close>

lemma poll_both_ok:
  assumes i: "inv_with E h L C" and s: "socks h s = Some so" "\<not> us_socket_is_closed so" "polls h s = Some p"
    and p: "us_socket_is_established p" "low_prio_state so \<noteq> 1" and ev: "event_set (be E) ev"
    and k: "s \<in> set (L k)"
  shows "poll_ok (be E) k (with_events (be E) p ev)"
proof -
  show ?thesis
  proof (rule live_socket [OF i s(1,2)])
    fix y z q k' assume q: "polls h s = Some q" "s \<in> set (L k')" "doubly k'" "poll_ok (be E) k' q" "placed (shape h) k' s"
    have kk: "k' = k" by (rule ok_unique [OF invD(1) [OF i] q(2) k])
    have "(\<exists>c. k = Open c) \<or> (\<exists>l. k = LowPrio l)"
      using established_place [OF q(4) _ q(3)] p(1) q(1) s(3) kk by simp
    moreover have "k \<noteq> LowPrio l" for l using q(5) kk s(1) p(2) by (auto simp: placed_def views)
    ultimately obtain c where c: "k = Open c" by blast
    show ?thesis unfolding c
      by (rule poll_ok_Open_established [of _ p]) (use q kk c s(3) p in \<open>simp_all\<close>)
  qed
qed

lemma set_last_write_failed_ok:
  assumes i: "invd D E h L C" and z: "loops h l = Some z"
  shows "set_loop h l (\<lambda>z. z\<lparr>last_write_failed := v\<rparr>) = Some (h\<lparr>loops := (loops h)(l \<mapsto> z\<lparr>last_write_failed := v\<rparr>)\<rparr>)"
    "invd D E (h\<lparr>loops := (loops h)(l \<mapsto> z\<lparr>last_write_failed := v\<rparr>)\<rparr>) L C"
    "evolves_ex X h L (h\<lparr>loops := (loops h)(l \<mapsto> z\<lparr>last_write_failed := v\<rparr>)\<rparr>) L"
proof -
  show "set_loop h l (\<lambda>z. z\<lparr>last_write_failed := v\<rparr>) = Some (h\<lparr>loops := (loops h)(l \<mapsto> z\<lparr>last_write_failed := v\<rparr>)\<rparr>)"
    using z by (simp add: set_loop_def)
  show "invd D E (h\<lparr>loops := (loops h)(l \<mapsto> z\<lparr>last_write_failed := v\<rparr>)\<rparr>) L C"
    by (rule invd_loop_plain [OF i z]) simp_all
  show "evolves_ex X h L (h\<lparr>loops := (loops h)(l \<mapsto> z\<lparr>last_write_failed := v\<rparr>)\<rparr>) L"
    by (rule evolves_loop [OF z]) (simp_all add: loop_evolves_def)
qed

lemma us_socket_write_ok:
  assumes i: "inv_with E h L C" and s: "socks h s = Some so" "polls h s = Some p" "may_write so p"
  obtains w h' where "us_socket_write E h s data m = Some (w, h')" "inv_with E h' L C" "evolves h L h' L"
    "socks h' = socks h"
proof (cases "us_socket_is_closed so \<or> us_socket_is_shut_down p")
  case True
  with s have "us_socket_write E h s data m = Some (0, h)" by (simp add: us_socket_write_def)
  with that i show thesis by simp
next
  case False
  with s(3) have e: "us_socket_is_established p" "low_prio_state so \<noteq> 1" "\<not> us_socket_is_closed so"
    by (auto simp: may_write_def)
  obtain w h1 where b: "bsd_send E h (us_poll_fd p) data m = (w, h1)" by fastforce
  have c: "only_calls h h1" using only_calls_bsd(8) [of h E "us_poll_fd p" data m] b by simp
  note c' = only_callsD [OF c]
  show thesis
  proof (cases "w = int (length data)")
    case True
    have "us_socket_write E h s data m = Some (if w < 0 then 0 else w, h1)"
      using s(1,2) False b True by (simp add: us_socket_write_def)
    then show thesis by (rule that) (use i c' in simp_all)
  next
    case n: False
    show thesis
    proof (rule live_socket [OF i s(1) e(3)])
      fix y z assume y: "ctxs h (s_context so) = Some y" "loops h (c_loop y) = Some z"
      let ?l = "c_loop y"
      have i1: "inv_with E h1 L C" "loops h1 ?l = Some z" using i y c' by simp_all
      note sl = set_last_write_failed_ok [OF i1, where v = 1]
      let ?g = "h1\<lparr>loops := (loops h1)(?l \<mapsto> z\<lparr>last_write_failed := 1\<rparr>)\<rparr>"
      have g: "polls ?g s = Some p" "loops ?g ?l = Some (z\<lparr>last_write_failed := 1\<rparr>)" using s(2) c' by simp_all
      let ?ev = "LIBUS_SOCKET_READABLE (be E) OR LIBUS_SOCKET_WRITABLE (be E)"
      have po: "poll_ok (be E) k (with_events (be E) p ?ev)" if "s \<in> set (L k)" for k
        by (rule poll_both_ok [OF i s(1) e(3) s(2) e(1,2) event_set_intros(4) that])
      obtain p' t where r: "us_poll_change E ?g s ?l ?ev = Some (?g\<lparr>polls := (polls ?g)(s \<mapsto> p'), trace := trace ?g @ t\<rparr>)"
        "inv_with E (?g\<lparr>polls := (polls ?g)(s \<mapsto> p'), trace := trace ?g @ t\<rparr>) L C"
        "evolves ?g L (?g\<lparr>polls := (polls ?g)(s \<mapsto> p'), trace := trace ?g @ t\<rparr>) L"
        by (rule poll_change_ok [OF sl(2) g event_set_intros(4) po])
      have "us_socket_write E h s data m =
          Some (if w < 0 then 0 else w, ?g\<lparr>polls := (polls ?g)(s \<mapsto> p'), trace := trace ?g @ t\<rparr>)"
        using s(1,2) False b n y(1) c' sl(1) r(1) by (simp add: us_socket_write_def)
      moreover have "evolves h L ?g L" using sl(3) c(1) [unfolded only_calls_def] by auto
      from evolves_trans [OF this r(3)]
      have "evolves h L (?g\<lparr>polls := (polls ?g)(s \<mapsto> p'), trace := trace ?g @ t\<rparr>) L" .
      ultimately show thesis using that r(2) c' by simp
    qed
  qed
qed

lemma us_socket_write2_ok:
  assumes i: "inv_with E h L C" and s: "socks h s = Some so" "polls h s = Some p" "may_write so p"
  obtains w h' where "us_socket_write2 E h s header payload = Some (w, h')" "inv_with E h' L C" "evolves h L h' L"
    "socks h' = socks h"
proof (cases "us_socket_is_closed so \<or> us_socket_is_shut_down p")
  case True
  with s have "us_socket_write2 E h s header payload = Some (0, h)" by (simp add: us_socket_write2_def)
  with that i show thesis by simp
next
  case False
  with s(3) have e: "us_socket_is_established p" "low_prio_state so \<noteq> 1" "\<not> us_socket_is_closed so"
    by (auto simp: may_write_def)
  obtain w h1 where b: "bsd_write2 E h (us_poll_fd p) header payload = (w, h1)" by fastforce
  have c: "only_calls h h1" using only_calls_bsd(9) [of h E "us_poll_fd p" header payload] b by simp
  note c' = only_callsD [OF c]
  show thesis
  proof (cases "w = int (length header) + int (length payload)")
    case True
    have "us_socket_write2 E h s header payload = Some (if w < 0 then 0 else w, h1)"
      using s(1,2) False b True by (simp add: us_socket_write2_def)
    then show thesis by (rule that) (use i c' in simp_all)
  next
    case n: False
    show thesis
    proof (rule live_socket [OF i s(1) e(3)])
      fix y z assume y: "ctxs h (s_context so) = Some y" "loops h (c_loop y) = Some z"
      let ?l = "c_loop y"
      have i1: "inv_with E h1 L C" and g: "polls h1 s = Some p" "loops h1 ?l = Some z"
        using i s(2) y c' by simp_all
      let ?ev = "LIBUS_SOCKET_READABLE (be E) OR LIBUS_SOCKET_WRITABLE (be E)"
      have po: "poll_ok (be E) k (with_events (be E) p ?ev)" if "s \<in> set (L k)" for k
        by (rule poll_both_ok [OF i s(1) e(3) s(2) e(1,2) event_set_intros(4) that])
      obtain p' t where r: "us_poll_change E h1 s ?l ?ev = Some (h1\<lparr>polls := (polls h1)(s \<mapsto> p'), trace := trace h1 @ t\<rparr>)"
        "inv_with E (h1\<lparr>polls := (polls h1)(s \<mapsto> p'), trace := trace h1 @ t\<rparr>) L C"
        "evolves h1 L (h1\<lparr>polls := (polls h1)(s \<mapsto> p'), trace := trace h1 @ t\<rparr>) L"
        by (rule poll_change_ok [OF i1 g event_set_intros(4) po])
      have "us_socket_write2 E h s header payload =
          Some (if w < 0 then 0 else w, h1\<lparr>polls := (polls h1)(s \<mapsto> p'), trace := trace h1 @ t\<rparr>)"
        using s(1,2) False b n y(1) c' r(1) by (simp add: us_socket_write2_def)
      moreover have "evolves h L h1 L" using c' by simp
      from evolves_trans [OF this r(3)]
      have "evolves h L (h1\<lparr>polls := (polls h1)(s \<mapsto> p'), trace := trace h1 @ t\<rparr>) L" .
      ultimately show thesis using that r(2) c' by simp
    qed
  qed
qed

subsection \<open>Shutting down\<close>

lemma us_poll_events_cong: "poll_type p AND 12 = poll_type q AND 12 \<Longrightarrow> us_poll_events b p = us_poll_events b q"
  by (simp add: us_poll_events_eq)

definition with_type :: "us_poll_t \<Rightarrow> u4 \<Rightarrow> us_poll_t" where
  "with_type x t = x\<lparr>poll_type := t OR (poll_type x AND 12)\<rparr>"

lemma with_type_simps [simp]:
  "t AND 3 = t \<Longrightarrow> us_poll_events b (with_type x t) = us_poll_events b x"
  "t AND 3 = t \<Longrightarrow> us_internal_poll_type (with_type x t) = t"
  "us_poll_fd (with_type x t) = us_poll_fd x"
proof -
  show "us_poll_fd (with_type x t) = us_poll_fd x" by (simp add: with_type_def us_poll_fd_def)
  assume "t AND 3 = t"
  with u4_set_type [of t "poll_type x"]
  have "(t OR (poll_type x AND 12)) AND 3 = t" "(t OR (poll_type x AND 12)) AND 12 = poll_type x AND 12" by simp_all
  then show "us_poll_events b (with_type x t) = us_poll_events b x" "us_internal_poll_type (with_type x t) = t"
    by (simp_all add: with_type_def us_poll_events_eq us_internal_poll_type_def)
qed

lemma set_type_result:
  "polls h s = Some p \<Longrightarrow> us_internal_poll_set_type h s t = Some (h\<lparr>polls := (polls h)(s \<mapsto> with_type p t)\<rparr>)"
  by (simp add: us_internal_poll_set_type_def set_poll_def with_type_def)

lemma us_socket_shutdown_ok:
  assumes i: "inv_with E h L C" and s: "socks h s = Some so" "polls h s = Some p"
    "us_socket_is_closed so \<or> us_socket_is_established p"
  obtains h' where "us_socket_shutdown E h s = Some h'" "inv_with E h' L C" "evolves h L h' L" "socks h' = socks h"
    "\<exists>p'. polls h' s = Some p' \<and> (us_socket_is_closed so \<or> us_socket_is_shut_down p')"
proof (cases "us_socket_is_closed so \<or> us_socket_is_shut_down p")
  case True
  with s have "us_socket_shutdown E h s = Some h" by (auto simp: us_socket_shutdown_def)
  with that i True s(2) show thesis by simp
next
  case False
  then have c: "\<not> us_socket_is_closed so" and e: "us_socket_is_established p" using s(3) by simp_all
  show thesis
  proof (rule live_socket [OF i s(1) c])
    fix y z q k assume y: "ctxs h (s_context so) = Some y" "loops h (c_loop y) = Some z"
      and q: "polls h s = Some q" "s \<in> set (L k)" "doubly k" "poll_ok (be E) k q"
    let ?t = "POLL_TYPE_SOCKET_SHUT_DOWN" and ?l = "c_loop y"
    let ?p = "with_type p ?t"
    let ?ev = "us_poll_events (be E) ?p AND LIBUS_SOCKET_READABLE (be E)"
    have t3: "?t AND 3 = ?t" by simp
    have nc: "cbs h s = None" by (rule wfd_sock(3) [OF invD(1) [OF i] s(1)])
    have qp: "q = p" using q(1) s(2) by simp
    have k: "(\<exists>c. k = Open c) \<or> (\<exists>l. k = LowPrio l)" using established_place [OF q(4) _ q(3)] e qp by simp
    have kk: "k' = k" if "s \<in> set (L k')" for k' by (rule ok_unique [OF invD(1) [OF i] that q(2)])
    have po: "poll_ok (be E) k' ?p" if "s \<in> set (L k')" for k'
      using kk [OF that] k q(4) qp t3 by (auto simp: poll_ok_def)
    have po2: "poll_ok (be E) k' (with_events (be E) ?p ?ev)" if "s \<in> set (L k')" for k'
      using kk [OF that] k q(4) qp t3 by (auto simp: poll_ok_def)
    let ?g = "h\<lparr>polls := (polls h)(s \<mapsto> ?p)\<rparr>"
    have i1: "inv_with E ?g L C" by (rule invd_poll [OF i s(2) po]) (auto simp: nc)
    have e1: "evolves h L ?g L" by (rule evolves_poll [OF s(2)]) (use e in \<open>simp add: us_socket_is_established_def\<close>)
    have g: "polls ?g s = Some ?p" "loops ?g ?l = Some z" using y by simp_all
    have ev: "event_set (be E) ?ev" by simp
    obtain p' t where r: "us_poll_change E ?g s ?l ?ev = Some (?g\<lparr>polls := (polls ?g)(s \<mapsto> p'), trace := trace ?g @ t\<rparr>)"
      "inv_with E (?g\<lparr>polls := (polls ?g)(s \<mapsto> p'), trace := trace ?g @ t\<rparr>) L C"
      "evolves ?g L (?g\<lparr>polls := (polls ?g)(s \<mapsto> p'), trace := trace ?g @ t\<rparr>) L"
      "us_internal_poll_type p' = us_internal_poll_type ?p"
      by (rule poll_change_ok [OF i1 g ev po2])
    let ?h' = "?g\<lparr>polls := (polls ?g)(s \<mapsto> p'), trace := trace ?g @ t\<rparr>"
    have "us_socket_shutdown E h s = Some (bsd_shutdown_socket ?h' (us_poll_fd p'))"
      using s(1,2) False y(1) set_type_result [OF s(2), of ?t] r(1) by (simp add: us_socket_shutdown_def)
    moreover note only_callsD [OF only_calls_bsd(2) [of ?h' "us_poll_fd p'"]]
    moreover have "us_socket_is_shut_down p'" using r(4) t3 by (simp add: us_socket_is_shut_down_def)
    ultimately show thesis using that r(2) evolves_trans [OF e1 r(3)] by simp
  qed
qed

subsection \<open>Setting handlers\<close>

lemma set_handler_ok:
  assumes i: "inv_with E h L C" and y: "ctxs h c = Some y" and f: "c_loop (f y) = c_loop y"
    "head_sockets (f y) = head_sockets y" "head_listen_sockets (f y) = head_listen_sockets y"
    "c_prev (f y) = c_prev y" "c_next (f y) = c_next y" "c_iterator (f y) = c_iterator y"
    "ctx_evolves y (f y)"
  shows "set_ctx h c f = Some (h\<lparr>ctxs := (ctxs h)(c \<mapsto> f y)\<rparr>)"
    "inv_with E (h\<lparr>ctxs := (ctxs h)(c \<mapsto> f y)\<rparr>) L C" "evolves h L (h\<lparr>ctxs := (ctxs h)(c \<mapsto> f y)\<rparr>) L"
proof -
  show "set_ctx h c f = Some (h\<lparr>ctxs := (ctxs h)(c \<mapsto> f y)\<rparr>)" using y by (simp add: set_ctx_def)
  show "inv_with E (h\<lparr>ctxs := (ctxs h)(c \<mapsto> f y)\<rparr>) L C"
    by (rule invd_ctx [OF i y]) (use f in \<open>simp_all add: ctx_evolves_def\<close>)
  show "evolves h L (h\<lparr>ctxs := (ctxs h)(c \<mapsto> f y)\<rparr>) L"
    by (rule evolves_same [OF shape_ctxs [OF y f(1-6)]]) (use y f(7) in \<open>auto simp: connecting_in_def\<close>)
qed

lemmas on_defs = us_socket_context_on_open_def us_socket_context_on_close_def us_socket_context_on_data_def
  us_socket_context_on_writable_def us_socket_context_on_long_timeout_def us_socket_context_on_timeout_def
  us_socket_context_on_end_def us_socket_context_on_connect_error_def

end
