(* ===== verification/Contexts.thy ===== *)
theory Contexts
  imports Sending
begin

text \<open>
  Creating contexts, listening, connecting and adopting keep the invariant.
\<close>

subsection \<open>Listen and connect descriptors\<close>

lemma bsd_create_socket_calls:
  "bsd_create_socket E h d ty pr = (f, h') \<Longrightarrow> only_calls h h'"
  using only_calls_bsd(10) [of h E d ty pr] by simp

lemma bsd_try_family_calls:
  "bsd_try_family E h fam as f a = (f', a', h') \<Longrightarrow> (f \<noteq> LIBUS_SOCKET_ERROR \<longrightarrow> a \<noteq> None) \<Longrightarrow>
   only_calls h h' \<and> (f' \<noteq> LIBUS_SOCKET_ERROR \<longrightarrow> a' \<noteq> None)"
proof (induction E h fam as f a rule: bsd_try_family.induct)
  case (1 E h fam f a)
  then show ?case by simp
next
  case (2 E h fam x xs f a)
  show ?case
  proof (cases "f = LIBUS_SOCKET_ERROR \<and> ai_family x = fam")
    case True
    obtain g h1 where g: "bsd_create_socket E h (ai_family x) (ai_socktype x) (ai_protocol x) = (g, h1)" by fastforce
    have r: "bsd_try_family E h1 fam xs g (Some x) = (f', a', h')" using 2(3) True g by simp
    have "only_calls h1 h' \<and> (f' \<noteq> LIBUS_SOCKET_ERROR \<longrightarrow> a' \<noteq> None)"
      using 2(1) [of "(g, h1)" g h1] True g r by simp
    with bsd_create_socket_calls [OF g] show ?thesis using only_calls_trans by blast
  next
    case False
    show ?thesis
    proof (cases "f = LIBUS_SOCKET_ERROR")
      case True
      with False 2(2-4) show ?thesis by simp
    next
      case f: False
      with 2(3,4) show ?thesis by auto
    qed
  qed
qed

lemma only_calls_sys2 [simp]: "only_calls h h' \<Longrightarrow> sys E h' c = (r, h'') \<Longrightarrow> only_calls h h''"
  by (auto simp: sys_def)

lemma bsd_create_listen_socket_total:
  obtains f h' where "bsd_create_listen_socket E h host port options = Some (f, h')" "only_calls h h'"
proof -
  let ?q = "Getaddrinfo host (Some (port_string port)) AI_PASSIVE AF_UNSPEC SOCK_STREAM"
  let ?ais = "sys_ai E (trace h) ?q"
  obtain r h1 where r: "sys E h ?q = (r, h1)" by fastforce
  obtain f1 a1 h2 where t1: "bsd_try_family E h1 (AF_INET6 (be E)) ?ais LIBUS_SOCKET_ERROR None = (f1, a1, h2)"
    using prod_cases3 by blast
  obtain f2 a2 h3 where t2: "bsd_try_family E h2 AF_INET ?ais f1 a1 = (f2, a2, h3)"
    using prod_cases3 by blast
  have k1: "only_calls h1 h2" "f1 \<noteq> LIBUS_SOCKET_ERROR \<longrightarrow> a1 \<noteq> None"
    using bsd_try_family_calls [OF t1] by simp_all
  have k: "only_calls h2 h3" "f2 \<noteq> LIBUS_SOCKET_ERROR \<longrightarrow> a2 \<noteq> None"
    using bsd_try_family_calls [OF t2 k1(2)] by simp_all
  have c3: "only_calls h h3"
    by (rule only_calls_trans [OF only_calls_trans [OF only_calls_sys [OF r] k1(1)] k(1)])
  show thesis
  proof (cases "r = 0")
    case False
    have "bsd_create_listen_socket E h host port options = Some (LIBUS_SOCKET_ERROR, h1)"
      using False r by (simp add: bsd_create_listen_socket_def Let_def)
    then show thesis by (rule that) (rule only_calls_sys [OF r])
  next
    case r0: True
    show thesis
    proof (cases "f2 = LIBUS_SOCKET_ERROR")
      case True
      have "bsd_create_listen_socket E h host port options = Some (LIBUS_SOCKET_ERROR, do_sys h3 Freeaddrinfo)"
        using r0 True r t1 t2 by (simp add: bsd_create_listen_socket_def Let_def)
      then show thesis by (rule that) (use c3 in simp)
    next
      case False
      with k obtain a where a: "a2 = Some a" by auto
      define h4 where "h4 = (if port \<noteq> 0 then
          do_sys (if options AND LIBUS_LISTEN_EXCLUSIVE_PORT = 0 then do_sys h3 (Setsockopt f2 SoReusePort 1) else h3)
            (Setsockopt f2 SoReuseAddr 1) else h3)"
      have c4: "only_calls h (do_sys h4 (Setsockopt f2 Ipv6V6Only 0))" using c3 by (simp add: h4_def)
      let ?h5 = "do_sys h4 (Setsockopt f2 Ipv6V6Only 0)"
      obtain b h6 where b: "sys E ?h5 (Bind f2 (ai_addr a)) = (b, h6)" by fastforce
      obtain ret h7 where l: "sys E h6 (Listen_call f2 512) = (ret, h7)" by fastforce
      have c6: "only_calls h h6" by (rule only_calls_trans [OF c4 only_calls_sys [OF b]])
      have c7: "only_calls h h7" by (rule only_calls_trans [OF c6 only_calls_sys [OF l]])
      have u: "bsd_create_listen_socket E h host port options =
          (if b \<noteq> 0 then Some (LIBUS_SOCKET_ERROR, do_sys (bsd_close_socket h6 f2) Freeaddrinfo)
           else if ret \<noteq> 0 then Some (LIBUS_SOCKET_ERROR, do_sys (bsd_close_socket h7 f2) Freeaddrinfo)
           else Some (f2, do_sys h7 Freeaddrinfo))"
        using r0 False r t1 t2 a b l by (simp add: bsd_create_listen_socket_def Let_def h4_def cong: if_cong)
      show thesis
      proof (cases "b = 0 \<and> ret = 0")
        case True
        with u have "bsd_create_listen_socket E h host port options = Some (f2, do_sys h7 Freeaddrinfo)" by simp
        then show thesis by (rule that) (use c7 in simp)
      next
        case False
        with u have "bsd_create_listen_socket E h host port options =
          Some (LIBUS_SOCKET_ERROR, do_sys (bsd_close_socket (if b \<noteq> 0 then h6 else h7) f2) Freeaddrinfo)"
          by auto
        then show thesis by (rule that) (use c6 c7 in \<open>simp add: bsd_close_socket_def\<close>)
      qed
    qed
  qed
qed

text \<open>What connecting relies on of the resolver: a successful answer is not empty.\<close>

definition resolver_ok :: "env \<Rightarrow> bool" where
  "resolver_ok E \<longleftrightarrow> (\<forall>t host port fl fam ty.
     sys_ret E t (Getaddrinfo host port fl fam ty) = 0 \<longrightarrow> sys_ai E t (Getaddrinfo host port fl fam ty) \<noteq> [])"

text \<open>Binding to the source address: whether to go on.\<close>

lemma bind_source_total:
  assumes "resolver_ok E" "only_calls h0 h"
  obtains b h' where "(case source_host of None \<Rightarrow> Some (True, h) | Some src \<Rightarrow>
      (let q = Getaddrinfo (Some src) None 0 0 0;
           ifs = sys_ai E (trace h) q;
           (r, h) = sys E h q
       in if r \<noteq> 0 then Some (True, h)
          else (case ifs of [] \<Rightarrow> None | i # _ \<Rightarrow>
            (let (ret, h) = sys E h (Bind f (ai_addr i))
             in Some (ret \<noteq> LIBUS_SOCKET_ERROR, do_sys h Freeaddrinfo))))) = Some (b, h')" "only_calls h0 h'"
proof (cases source_host)
  case None
  then show thesis using assms(2) that by simp
next
  case (Some src)
  let ?q = "Getaddrinfo (Some src) None 0 0 0"
  obtain r h1 where r: "sys E h ?q = (r, h1)" by fastforce
  have c: "only_calls h0 h1" by (rule only_calls_trans [OF assms(2) only_calls_sys [OF r]])
  show thesis
  proof (cases "r = 0")
    case False
    then show thesis using Some r c that by (simp add: Let_def)
  next
    case True
    have "sys_ret E (trace h) ?q = 0" using r True by (simp add: sys_def)
    with assms(1) have "sys_ai E (trace h) ?q \<noteq> []" unfolding resolver_ok_def by blast
    then obtain i rest where i: "sys_ai E (trace h) ?q = i # rest" by (cases "sys_ai E (trace h) ?q") auto
    obtain ret h2 where b: "sys E h1 (Bind f (ai_addr i)) = (ret, h2)" by fastforce
    have "only_calls h0 h2" by (rule only_calls_trans [OF c only_calls_sys [OF b]])
    then show thesis using Some r True i b that by (simp add: Let_def)
  qed
qed

lemma bsd_create_connect_socket_total:
  assumes e: "resolver_ok E"
  obtains f h' where "bsd_create_connect_socket E h host port source_host options = Some (f, h')" "only_calls h h'"
proof -
  let ?q = "Getaddrinfo host (Some (port_string port)) 0 AF_UNSPEC SOCK_STREAM"
  obtain r h1 where r: "sys E h ?q = (r, h1)" by fastforce
  note c1 = only_calls_sys [OF r]
  show thesis
  proof (cases "r = 0")
    case False
    have "bsd_create_connect_socket E h host port source_host options = Some (LIBUS_SOCKET_ERROR, h1)"
      using False r by (simp add: bsd_create_connect_socket_def Let_def)
    then show thesis by (rule that) (rule c1)
  next
    case r0: True
    have "sys_ret E (trace h) ?q = 0" using r r0 by (simp add: sys_def)
    with e have "sys_ai E (trace h) ?q \<noteq> []" unfolding resolver_ok_def by blast
    then obtain a as where a: "sys_ai E (trace h) ?q = a # as" by (cases "sys_ai E (trace h) ?q") auto
    obtain f h2 where f: "bsd_create_socket E h1 (ai_family a) (ai_socktype a) (ai_protocol a) = (f, h2)" by fastforce
    have c2: "only_calls h h2" by (rule only_calls_trans [OF c1 bsd_create_socket_calls [OF f]])
    show thesis
    proof (cases "f = LIBUS_SOCKET_ERROR")
      case True
      have "bsd_create_connect_socket E h host port source_host options = Some (LIBUS_SOCKET_ERROR, do_sys h2 Freeaddrinfo)"
        using r0 True r a f by (simp add: bsd_create_connect_socket_def Let_def)
      then show thesis by (rule that) (use c2 in simp)
    next
      case False
      show thesis
      proof (rule bind_source_total [OF e c2, where source_host = source_host and f = f])
        fix b h3 assume b: "(case source_host of None \<Rightarrow> Some (True, h2) | Some src \<Rightarrow>
            (let q = Getaddrinfo (Some src) None 0 0 0;
                 ifs = sys_ai E (trace h2) q;
                 (r, h) = sys E h2 q
             in if r \<noteq> 0 then Some (True, h)
                else (case ifs of [] \<Rightarrow> None | i # _ \<Rightarrow>
                  (let (ret, h) = sys E h (Bind f (ai_addr i))
                   in Some (ret \<noteq> LIBUS_SOCKET_ERROR, do_sys h Freeaddrinfo))))) = Some (b, h3)" "only_calls h h3"
        have "bsd_create_connect_socket E h host port source_host options =
            (if \<not> b then Some (LIBUS_SOCKET_ERROR, do_sys (bsd_close_socket h3 f) Freeaddrinfo)
             else Some (f, do_sys (do_sys h3 (Connect_call f (ai_addr a))) Freeaddrinfo))"
          unfolding bsd_create_connect_socket_def Let_def r f prod.case a list.case
          unfolding b(1) [unfolded Let_def] using r0 False by (simp cong: if_cong)
        then show thesis using b(2) that by (cases b) (simp_all add: bsd_close_socket_def)
      qed
    qed
  qed
qed

lemma bsd_create_listen_socket_unix_total:
  assumes "length path < SUN_PATH_SIZE (be E)"
  obtains f h' where "bsd_create_listen_socket_unix E h path options = Some (f, h')" "only_calls h h'"
proof -
  obtain f h1 where f: "bsd_create_socket E h AF_UNIX SOCK_STREAM 0 = (f, h1)" by fastforce
  note c1 = bsd_create_socket_calls [OF f]
  show thesis
  proof (cases "f = LIBUS_SOCKET_ERROR")
    case True
    have "bsd_create_listen_socket_unix E h path options = Some (LIBUS_SOCKET_ERROR, h1)"
      using True f by (simp add: bsd_create_listen_socket_unix_def)
    then show thesis by (rule that) (rule c1)
  next
    case False
    let ?h2 = "do_sys (do_sys h1 (Fchmod f S_IRWXU)) (Unlink path)"
    obtain b h3 where b: "sys E ?h2 (Bind f (SockUn path)) = (b, h3)" by fastforce
    obtain ret h4 where l: "sys E h3 (Listen_call f 512) = (ret, h4)" by fastforce
    have c2: "only_calls h ?h2" using c1 by simp
    have c3: "only_calls h h3" by (rule only_calls_trans [OF c2 only_calls_sys [OF b]])
    have c4: "only_calls h h4" by (rule only_calls_trans [OF c3 only_calls_sys [OF l]])
    have u: "bsd_create_listen_socket_unix E h path options =
        (if b \<noteq> 0 then Some (LIBUS_SOCKET_ERROR, bsd_close_socket h3 f)
         else if ret \<noteq> 0 then Some (LIBUS_SOCKET_ERROR, bsd_close_socket h4 f) else Some (f, h4))"
      using False f assms b l by (simp add: bsd_create_listen_socket_unix_def sun_addr_def Let_def cong: if_cong)
    show thesis
    proof (cases "b = 0 \<and> ret = 0")
      case True
      with u have "bsd_create_listen_socket_unix E h path options = Some (f, h4)" by simp
      then show thesis by (rule that) (rule c4)
    next
      case False
      with u have "bsd_create_listen_socket_unix E h path options =
        Some (LIBUS_SOCKET_ERROR, bsd_close_socket (if b \<noteq> 0 then h3 else h4) f)" by auto
      then show thesis by (rule that) (use c3 c4 in \<open>simp add: bsd_close_socket_def\<close>)
    qed
  qed
qed

lemma bsd_create_connect_socket_unix_total:
  assumes "length path < SUN_PATH_SIZE (be E)"
  obtains f h' where "bsd_create_connect_socket_unix E h path options = Some (f, h')" "only_calls h h'"
proof -
  obtain f h1 where f: "bsd_create_socket E h AF_UNIX SOCK_STREAM 0 = (f, h1)" by fastforce
  note c1 = bsd_create_socket_calls [OF f]
  have "bsd_create_connect_socket_unix E h path options =
      Some (f, if f = LIBUS_SOCKET_ERROR then h1 else do_sys h1 (Connect_call f (SockUn path)))"
    using f assms by (simp add: bsd_create_connect_socket_unix_def sun_addr_def)
  then show thesis by (rule that) (use c1 in simp)
qed

subsection \<open>Creating a context\<close>

lemma relinked_ctxs_D:
  assumes "relinked_ctxs m m'"
  shows "dom m' = dom m" "m c = Some y \<Longrightarrow> \<exists>p n. m' c = Some (y\<lparr>c_prev := p, c_next := n\<rparr>)"
    "ci_of m' = ci_of m" "cl_of m' = cl_of m" "hds_of m' lm = hds_of m lm"
proof -
  have r: "rel_option (\<lambda>x x'. x' = x\<lparr>c_prev := c_prev x', c_next := c_next x'\<rparr>) (m q) (m' q)" for q
    using assms unfolding relinked_ctxs_def by blast
  have k: "(m q = None \<and> m' q = None) \<or> (\<exists>y p n. m q = Some y \<and> m' q = Some (y\<lparr>c_prev := p, c_next := n\<rparr>))" for q
  proof (cases "m q")
    case None
    with r [of q] show ?thesis by (cases "m' q") simp_all
  next
    case (Some y)
    with r [of q] obtain y' where y': "m' q = Some y'" "y' = y\<lparr>c_prev := c_prev y', c_next := c_next y'\<rparr>"
      by (cases "m' q") simp_all
    have "m' q = Some (y\<lparr>c_prev := c_prev y', c_next := c_next y'\<rparr>)" using y'(1) unfolding y'(2) [symmetric] .
    with Some show ?thesis by blast
  qed
  show "dom m' = dom m"
  proof (rule set_eqI)
    show "q \<in> dom m' \<longleftrightarrow> q \<in> dom m" for q using k [of q] by auto
  qed
  show "m c = Some y \<Longrightarrow> \<exists>p n. m' c = Some (y\<lparr>c_prev := p, c_next := n\<rparr>)" using k [of c] by auto
  have "ci_of m' q = ci_of m q \<and> cl_of m' q = cl_of m q \<and>
      map_option head_sockets (m' q) = map_option head_sockets (m q) \<and>
      map_option head_listen_sockets (m' q) = map_option head_listen_sockets (m q)" for q
    using k [of q] by (auto simp: views_app2)
  then show "ci_of m' = ci_of m" "cl_of m' = cl_of m" "hds_of m' lm = hds_of m lm"
    by (auto simp: hds_of_def fun_eq_iff split: list_id.split)
qed

definition new_ctx :: "ptr \<Rightarrow> us_socket_context_t" where
  "new_ctx l = \<lparr>c_loop = l, global_tick = 0, timestamp = 0, long_timestamp = 0,
       head_sockets = NULL, head_listen_sockets = NULL, c_iterator = NULL, c_prev = NULL, c_next = NULL,
       on_open = NullFn, on_data = NullFn, on_writable = NullFn, on_close = NullFn,
       on_socket_timeout = NullFn, on_socket_long_timeout = NullFn, on_end = NullFn,
       on_connect_error = NullFn, is_low_prio = DefaultIsLowPrio\<rparr>"

lemma us_create_socket_context_ok:
  assumes i: "inv_with E h L C" and a: "allocator_ok E" and z: "loops h l = Some z"
  obtains c h' y where "us_create_socket_context E h l = Some (c, h')" "inv_with E h' L (C(l := c # C l))"
    "evolves h L h' L" "c \<notin> allocated h" "ctxs h' c = Some y" "is_low_prio y = DefaultIsLowPrio" "c_loop y = l"
    "on_open y = NullFn" "on_data y = NullFn" "on_close y = NullFn"
proof -
  have w: "wfd {} h L C" by (rule invD(1) [OF i])
  define c where "c = malloc_at E h"
  have fr: "c \<noteq> NULL" "c \<notin> allocated h" using a invD(2) [OF i] unfolding allocator_ok_def c_def by blast+
  then have cn: "polls h c = None" "ctxs h c = None" "loops h c = None" by (auto simp: allocated_def)
  let ?g = "h\<lparr>ctxs := (ctxs h)(c \<mapsto> new_ctx l)\<rparr>"
  have d: "l_head z = NULL \<or> l_head z \<in> dom (ctxs h)"
    using chains_hd [OF okD(2) [OF w], of l] z chains_mem [OF okD(2) [OF w], of "l_head z" l]
    by (auto simp: views_all_app views_all_dom dom_def split: if_splits)
  have dc: "l_head z \<noteq> c" using d cn fr by auto
  obtain m where m: "us_internal_loop_link ?g l c = Some (?g\<lparr>ctxs := m, loops := (loops h)(l \<mapsto> z\<lparr>l_head := c\<rparr>)\<rparr>)"
    "relinked_ctxs (ctxs ?g) m" "cnx_of m = (c_nx ?g)(c \<mapsto> l_head z)" "cpv_of m = push_pv (c_pv ?g) (l_head z) c"
    using link_ctx_result [of ?g l z c "new_ctx l", OF _ _ refl] z d dc by auto
  let ?l = "(loops h)(l \<mapsto> z\<lparr>l_head := c\<rparr>)"
  let ?h = "?g\<lparr>ctxs := m, loops := ?l\<rparr>"
  note rc = relinked_ctxs_D [OF m(2)]
  have r: "us_create_socket_context E h l = Some (c, ?h)"
    using m(1) by (simp add: us_create_socket_context_def new_ctx_def default_is_low_prio_handler_def c_def Let_def)
  have v: "cnx_of m = (c_nx h)(c \<mapsto> l_head z)" "cpv_of m = push_pv (c_pv h) (l_head z) c"
    using m(3,4) by (auto simp: views_all_upd push_pv_def fun_upd_twist)
  have hv: "hds_of m ?l = (s_hds h)(Open c \<mapsto> NULL, Listen c \<mapsto> NULL)"
  proof
    fix k show "hds_of m ?l k = ((s_hds h)(Open c \<mapsto> NULL, Listen c \<mapsto> NULL)) k"
      using fun_cong [OF rc(5), of ?l k] z by (cases k) (auto simp: views_app hds_of_def new_ctx_def)
  qed
  have lv: "lhd_of ?l = (c_hds h)(l \<mapsto> c)" "li_of ?l = li_of (loops h)"
    using z by (simp_all add: views_all_upd views_all_app fun_upd_idem)
  have cv: "ci_of m = (ci_of (ctxs h))(c \<mapsto> NULL)" "cl_of m = (cl_of (ctxs h))(c \<mapsto> l)"
    using rc(3,4) by (simp_all add: views_all_upd new_ctx_def)
  have hN: "hds (shape h) (Open c) = None" "hds (shape h) (Listen c) = None" using cn by (simp_all add: views)
  have LN: "L (Open c) = []" using chainsD(1) [OF okD(1) [OF w] hN(1)] .
  have Cn: "unlisted C c"
    unfolding unlisted_def
  proof
    fix l' show "c \<notin> set (C l')"
      using chains_mem(2) [OF okD(2) [OF w], of c l'] cn by (auto simp: views_all_app)
  qed
  have sh: "shape ?h = (shape h)\<lparr>hds := (hds (shape h))(Open c \<mapsto> NULL, Listen c \<mapsto> NULL),
      ci := (ci (shape h))(c \<mapsto> NULL), cnx := (cnx (shape h))(c \<mapsto> l_head z),
      cpv := push_pv (cpv (shape h)) (l_head z) c, chd := (chd (shape h))(l \<mapsto> c), cl := (cl (shape h))(c \<mapsto> l)\<rparr>"
    using v hv lv cv by (simp add: shape_def)
  have w': "wfd {} ?h L (C(l := c # C l))"
    unfolding sh
    by (rule ok_new_ctx [OF w _ fr(1) _ _ _ hN Cn refl]) (use z cn in \<open>auto simp: views_all_dom views_all_app\<close>)
  have ce: "\<exists>y'. m c' = Some y' \<and> ctx_evolves y y' \<and> (handlers_set y \<longrightarrow> handlers_set y')"
    if y: "ctxs h c' = Some y" for c' y
  proof -
    have n: "c' \<noteq> c" using y cn by auto
    then obtain p n where mp: "m c' = Some (y\<lparr>c_prev := p, c_next := n\<rparr>)" using rc(2) [of c' y] y by auto
    have "cnx_of m c' = c_nx h c'" using v(1) n by simp
    then have "n = c_next y" using mp y by (simp add: views_app)
    with mp show ?thesis by (simp add: ctx_evolves_def handlers_set_def)
  qed
  have dl: "dom ?l = dom (loops h)" using z by auto
  have i': "inv_with E ?h L (C(l := c # C l))"
  proof (rule invI [OF w'])
    show "finite (allocated ?h)" using invD(2) [OF i] rc(1) dl by (simp add: finite_allocated)
    show "pollsI (be E) ?h L" using invD(3) [OF i] by (simp add: pollsI_def)
    show "handI ?h L"
      unfolding handI_def
    proof (intro allI impI)
      fix k x so assume x: "x \<in> set (L k)" "doubly k" "socks ?h x = Some so"
      then have "has_handlers h (s_context so)" using invD(4) [OF i] unfolding handI_def by simp
      then obtain y where "ctxs h (s_context so) = Some y" "handlers_set y"
        by (auto simp: has_handlers_def split: option.splits)
      with ce show "has_handlers ?h (s_context so)" by (fastforce simp: has_handlers_def)
    qed
    show "cbsI ?h" using invD(5) [OF i] dl by (simp add: cbsI_def cb_ok_def)
    have lo: "loop_of ?h p = Some l'" if "loop_of h p = Some l'" for l' p
    proof -
      from that obtain so y where y: "socks h p = Some so" "ctxs h (s_context so) = Some y" "c_loop y = l'"
        by (auto simp: loop_of_def bind_eq_Some_conv)
      obtain y' where "m (s_context so) = Some y'" "ctx_evolves y y'" using ce [OF y(2)] by blast
      with y show ?thesis by (simp add: loop_of_def ctx_evolves_def)
    qed
    have en: "entry_ok ?h L l' p" if "entry_ok h L l' p" for l' p
      using that lo by (auto simp: entry_ok_def)
    show "readyI (be E) ?h L"
      unfolding readyI_def
    proof (intro allI impI)
      fix l' z' assume l': "loops ?h l' = Some z'"
      obtain z0 where z0: "loops h l' = Some z0" "ready_polls z' = ready_polls z0"
        "num_ready_polls z' = num_ready_polls z0" "current_ready_poll z' = current_ready_poll z0"
        using l' z by (auto split: if_splits)
      have p': "pending z' = pending z0" by (rule pending_cong [OF z0(2-4)])
      show "ready_list_ok (be E) z' \<and> (\<forall>q\<in>re_poll ` set (pending z'). q \<noteq> NULL \<longrightarrow> entry_ok ?h L l' q)"
        using readyD [OF invD(6) [OF i] z0(1)] en p' ready_list_ok_cong [OF z0(2-4)] by auto
    qed
  qed
  have rm: "rem (shape ?h) L c' = rem (shape h) L c'" for c'
  proof (cases "c' = c")
    case True
    have n: "rem S L c = []" for S unfolding rem_def LN by (simp split: option.split)
    show ?thesis unfolding True n ..
  next
    case False
    then show ?thesis by (intro rem_cong refl) (simp only: sh; simp)
  qed
  have ev: "evolves h L ?h L"
    unfolding evolves_ex_def
  proof (intro conjI allI impI)
    show "\<exists>y'. ctxs ?h c' = Some y' \<and> ctx_evolves x y'" if "ctxs h c' = Some x" for c' x
      using ce [OF that] by auto
    show "subseq (rem (shape ?h) L c') (rem (shape h) L c')" for c' unfolding rm by simp
    show "\<exists>z'. loops ?h l' = Some z' \<and> loop_evolves z0 z'" if "loops h l' = Some z0" for l' z0
      using that z by (auto simp: loop_evolves_def)
    show "connecting_in ?h L x \<or> closed_in L x" if "connecting_in h L x" for x
      using that by (simp add: connecting_in_def)
  qed simp_all
  obtain p n where yc: "m c = Some ((new_ctx l)\<lparr>c_prev := p, c_next := n\<rparr>)" using rc(2) [of c "new_ctx l"] by auto
  show thesis
    by (rule that [OF r i' ev fr(2), where y = "(new_ctx l)\<lparr>c_prev := p, c_next := n\<rparr>"])
      (use yc in \<open>simp_all add: new_ctx_def\<close>)
qed

subsection \<open>Listening and connecting\<close>

lemma us_socket_context_listen_ok:
  assumes i: "inv_with E h L C" and a: "allocator_ok E" and y: "ctxs h c = Some y" "handlers_set y"
  obtains p h' L' where "us_socket_context_listen E h c host port options ext = Some (p, h')"
    "inv_with E h' L' C" "evolves h L h' L'" "p = NULL \<or> p \<in> set (L' (Listen c)) \<and> p \<notin> allocated h"
proof (rule bsd_create_listen_socket_total [where E = E and h = h and host = host and port = port and options = options])
  fix f h1 assume b: "bsd_create_listen_socket E h host port options = Some (f, h1)" "only_calls h h1"
  note c = only_callsD [OF b(2)]
  show thesis
  proof (cases "f = LIBUS_SOCKET_ERROR")
    case True
    with b(1) have "us_socket_context_listen E h c host port options ext = Some (NULL, h1)"
      by (simp add: us_socket_context_listen_def)
    then show thesis by (rule that [where L' = L]) (use i c in simp_all)
  next
    case False
    have i1: "inv_with E h1 L C" "ctxs h1 c = Some y" using i y c by simp_all
    show thesis
    proof (rule start_listen_socket_ok [OF i1(1) a i1(2) y(2), where f = f and ext = ext])
      fix p h2
      assume s: "start_listen_socket E h1 c f ext = Some (p, h2)" "inv_with E h2 (L(Listen c := p # L (Listen c))) C"
        "evolves h1 L h2 (L(Listen c := p # L (Listen c)))" "p \<notin> allocated h1" "p \<noteq> NULL"
      have "us_socket_context_listen E h c host port options ext = Some (p, h2)"
        using b(1) False s(1) by (simp add: us_socket_context_listen_def)
      moreover have "evolves h L h1 L" using c by simp
      from evolves_trans [OF this s(3)] have "evolves h L h2 (L(Listen c := p # L (Listen c)))" .
      ultimately show thesis using that [of p h2 "L(Listen c := p # L (Listen c))"] s(2,4) c by simp
    qed
  qed
qed

lemma us_socket_context_listen_unix_ok:
  assumes i: "inv_with E h L C" and a: "allocator_ok E" and y: "ctxs h c = Some y" "handlers_set y"
    and pth: "length path < SUN_PATH_SIZE (be E)"
  obtains p h' L' where "us_socket_context_listen_unix E h c path options ext = Some (p, h')"
    "inv_with E h' L' C" "evolves h L h' L'" "p = NULL \<or> p \<in> set (L' (Listen c)) \<and> p \<notin> allocated h"
proof (rule bsd_create_listen_socket_unix_total [OF pth, where h = h and options = options])
  fix f h1 assume b: "bsd_create_listen_socket_unix E h path options = Some (f, h1)" "only_calls h h1"
  note c = only_callsD [OF b(2)]
  show thesis
  proof (cases "f = LIBUS_SOCKET_ERROR")
    case True
    with b(1) have "us_socket_context_listen_unix E h c path options ext = Some (NULL, h1)"
      by (simp add: us_socket_context_listen_unix_def)
    then show thesis by (rule that [where L' = L]) (use i c in simp_all)
  next
    case False
    have i1: "inv_with E h1 L C" "ctxs h1 c = Some y" using i y c by simp_all
    show thesis
    proof (rule start_listen_socket_ok [OF i1(1) a i1(2) y(2), where f = f and ext = ext])
      fix p h2
      assume s: "start_listen_socket E h1 c f ext = Some (p, h2)" "inv_with E h2 (L(Listen c := p # L (Listen c))) C"
        "evolves h1 L h2 (L(Listen c := p # L (Listen c)))" "p \<notin> allocated h1" "p \<noteq> NULL"
      have "us_socket_context_listen_unix E h c path options ext = Some (p, h2)"
        using b(1) False s(1) by (simp add: us_socket_context_listen_unix_def)
      moreover have "evolves h L h1 L" using c by simp
      from evolves_trans [OF this s(3)] have "evolves h L h2 (L(Listen c := p # L (Listen c)))" .
      ultimately show thesis using that [of p h2 "L(Listen c := p # L (Listen c))"] s(2,4) c by simp
    qed
  qed
qed

lemma us_socket_context_connect_ok:
  assumes i: "inv_with E h L C" and a: "allocator_ok E" "resolver_ok E" and y: "ctxs h c = Some y" "handlers_set y"
  obtains p h' L' where "us_socket_context_connect E h c host port source_host options = Some (p, h')"
    "inv_with E h' L' C" "evolves h L h' L'" "p = NULL \<or> p \<in> set (L' (Open c)) \<and> p \<notin> allocated h"
proof (rule bsd_create_connect_socket_total [OF a(2), where h = h and host = host and port = port
      and source_host = source_host and options = options])
  fix f h1 assume b: "bsd_create_connect_socket E h host port source_host options = Some (f, h1)" "only_calls h h1"
  note c = only_callsD [OF b(2)]
  show thesis
  proof (cases "f = LIBUS_SOCKET_ERROR")
    case True
    with b(1) have "us_socket_context_connect E h c host port source_host options = Some (NULL, h1)"
      by (simp add: us_socket_context_connect_def)
    then show thesis by (rule that [where L' = L]) (use i c in simp_all)
  next
    case False
    have i1: "inv_with E h1 L C" "ctxs h1 c = Some y" using i y c by simp_all
    show thesis
    proof (rule start_connect_socket_ok [OF i1(1) a(1) i1(2) y(2), where f = f])
      fix p h2
      assume s: "start_connect_socket E h1 c f = Some (p, h2)" "inv_with E h2 (L(Open c := p # L (Open c))) C"
        "evolves h1 L h2 (L(Open c := p # L (Open c)))" "p \<notin> allocated h1"
      have "us_socket_context_connect E h c host port source_host options = Some (p, h2)"
        using b(1) False s(1) by (simp add: us_socket_context_connect_def)
      moreover have "evolves h L h1 L" using c by simp
      from evolves_trans [OF this s(3)] have "evolves h L h2 (L(Open c := p # L (Open c)))" .
      ultimately show thesis using that [of p h2 "L(Open c := p # L (Open c))"] s(2,4) c by simp
    qed
  qed
qed

lemma us_socket_context_connect_unix_ok:
  assumes i: "inv_with E h L C" and a: "allocator_ok E" and y: "ctxs h c = Some y" "handlers_set y"
    and pth: "length path < SUN_PATH_SIZE (be E)"
  obtains p h' L' where "us_socket_context_connect_unix E h c path options = Some (p, h')"
    "inv_with E h' L' C" "evolves h L h' L'" "p = NULL \<or> p \<in> set (L' (Open c)) \<and> p \<notin> allocated h"
proof (rule bsd_create_connect_socket_unix_total [OF pth, where h = h and options = options])
  fix f h1 assume b: "bsd_create_connect_socket_unix E h path options = Some (f, h1)" "only_calls h h1"
  note c = only_callsD [OF b(2)]
  show thesis
  proof (cases "f = LIBUS_SOCKET_ERROR")
    case True
    with b(1) have "us_socket_context_connect_unix E h c path options = Some (NULL, h1)"
      by (simp add: us_socket_context_connect_unix_def)
    then show thesis by (rule that [where L' = L]) (use i c in simp_all)
  next
    case False
    have i1: "inv_with E h1 L C" "ctxs h1 c = Some y" using i y c by simp_all
    show thesis
    proof (rule start_connect_socket_ok [OF i1(1) a(1) i1(2) y(2), where f = f])
      fix p h2
      assume s: "start_connect_socket E h1 c f = Some (p, h2)" "inv_with E h2 (L(Open c := p # L (Open c))) C"
        "evolves h1 L h2 (L(Open c := p # L (Open c)))" "p \<notin> allocated h1"
      have "us_socket_context_connect_unix E h c path options = Some (p, h2)"
        using b(1) False s(1) by (simp add: us_socket_context_connect_unix_def)
      moreover have "evolves h L h1 L" using c by simp
      from evolves_trans [OF this s(3)] have "evolves h L h2 (L(Open c := p # L (Open c)))" .
      ultimately show thesis using that [of p h2 "L(Open c := p # L (Open c))"] s(2,4) c by simp
    qed
  qed
qed

end
