(* ===== verification/Adopting.thy ===== *)
theory Adopting
  imports Contexts
begin

text \<open>
  Moving a socket that is in no list to another address (\<open>realloc\<close>), with its pending ready
  entries, and adopting an open socket into another context, keep the invariant.
\<close>

subsection \<open>Moving\<close>

lemma move_key_neq: "p \<noteq> q \<Longrightarrow> move_key m p q = (m(q := m p)) |` (- {p})"
  by (simp add: move_key_def restrict_complement_singleton_eq)

lemma nx_of_move: "p \<noteq> q \<Longrightarrow> nx_of (move_key m p q) = move_key (nx_of m) p q"
  by (auto simp: move_key_def nx_of_def)

lemma pv_of_move: "p \<noteq> q \<Longrightarrow> pv_of (move_key m p q) = move_key (pv_of m) p q"
  by (auto simp: move_key_def pv_of_def)

lemma owner_of_move: "p \<noteq> q \<Longrightarrow> owner_of (move_key m p q) = move_key (owner_of m) p q"
  by (auto simp: move_key_def owner_of_def)

lemma lp_of_move: "p \<noteq> q \<Longrightarrow> lp_of (move_key m p q) = move_key (lp_of m) p q"
  by (auto simp: move_key_def lp_of_def)

lemma dom_move_key: "p \<noteq> q \<Longrightarrow> p \<in> dom m \<Longrightarrow> dom (move_key m p q) = insert q (dom m) - {p}"
  "p \<noteq> q \<Longrightarrow> p \<notin> dom m \<Longrightarrow> q \<notin> dom m \<Longrightarrow> dom (move_key m p q) = dom m - {p}"
  by (auto simp: move_key_def split: if_splits)

lemma pending_rename:
  assumes r: "ready_list_ok b z" and q: "q \<notin> re_poll ` set (pending z)" "p \<noteq> NULL"
    and rs: "length rs = length (ready_polls z)" "pending (z\<lparr>ready_polls := rs\<rparr>) = map (rename_ready p q) (pending z)"
  shows "ready_list_ok b (z\<lparr>ready_polls := rs\<rparr>)"
  unfolding ready_list_ok_def rs(2)
proof (intro conjI ballI impI)
  have k: "length (filter (\<lambda>r. re_poll r = x) (map (rename_ready p q) xs)) =
      (if x = q then length (filter (\<lambda>r. re_poll r = p) xs)
       else if x = p then 0 else length (filter (\<lambda>r. re_poll r = x) xs))"
    if n: "q \<notin> re_poll ` set xs" "q \<noteq> p" for x xs
  proof -
    have f: "filter ((\<lambda>r. re_poll r = x) \<circ> rename_ready p q) xs =
        filter (\<lambda>r. if x = q then re_poll r = p else x \<noteq> p \<and> re_poll r = x) xs"
      by (rule filter_cong [OF refl]) (use n in \<open>auto simp: rename_ready_def\<close>)
    show ?thesis using n(2) by (simp add: filter_map f)
  qed
  fix x assume x: "x \<in> re_poll ` set (map (rename_ready p q) (pending z))" "x \<noteq> NULL"
  show "length (filter (\<lambda>r. re_poll r = x) (map (rename_ready p q) (pending z))) \<le> max_entries b"
  proof (cases "q = p")
    case True
    then have "map (rename_ready p q) (pending z) = pending z"
      by (intro map_idI) (simp add: rename_ready_def)
    with x have "x \<in> re_poll ` set (pending z)" by simp
    with x(2) r \<open>map (rename_ready p q) (pending z) = pending z\<close> show ?thesis
      unfolding ready_list_ok_def by metis
  next
    case False
    have n: "length (filter (\<lambda>r. re_poll r = y) (pending z)) \<le> max_entries b" if "y \<noteq> NULL" for y
    proof (cases "y \<in> re_poll ` set (pending z)")
      case True
      with r that show ?thesis unfolding ready_list_ok_def by blast
    next
      case f: False
      then have "filter (\<lambda>r. re_poll r = y) (pending z) = []" by (auto simp: filter_empty_conv)
      then show ?thesis by simp
    qed
    show ?thesis unfolding k [OF q(1) False] using n [OF q(2)] n [OF x(2)] by simp
  qed
qed (use r rs in \<open>auto simp: ready_list_ok_def\<close>)

lemma move_invd:
  assumes i: "invd {p} E h L C" and so: "socks h p = Some so" "listens h p = None" and lo: "loop_of h p = Some l"
    and q: "q \<noteq> p" "q \<noteq> NULL" "q \<notin> allocated h" and z: "loops h l = Some z"
    and rs: "length rs = length (ready_polls z)" "pending (z\<lparr>ready_polls := rs\<rparr>) = map (rename_ready p q) (pending z)"
  shows "invd {q} E ((move_obj h p q)\<lparr>loops := (loops h)(l \<mapsto> z\<lparr>ready_polls := rs\<rparr>)\<rparr>) L C"
    (is "invd {q} E ?g L C")
    and "rem (shape ((move_obj h p q)\<lparr>loops := (loops h)(l \<mapsto> z\<lparr>ready_polls := rs\<rparr>)\<rparr>)) L c = rem (shape h) L c"
proof -
  have w: "wfd {p} h L C" by (rule invD(1) [OF i])
  have pq: "p \<noteq> q" using q(1) by simp
  have qn: "polls h q = None" "socks h q = None" "listens h q = None" "cbs h q = None" "ctxs h q = None" "loops h q = None"
    using q(3) by (auto simp: allocated_def)
  obtain x where x: "polls h p = Some x" using wfd_sock(2) [OF w so(1)] by blast
  have nc: "cbs h p = None" and p0: "p \<noteq> NULL" using wfd_sock(1,3) [OF w so(1)] by auto
  let ?l = "(loops h)(l \<mapsto> z\<lparr>ready_polls := rs\<rparr>)"
  have lv: "hds_of (ctxs h) ?l = s_hds h" "lhd_of ?l = c_hds h" "li_of ?l = li_of (loops h)"
    using z by (simp_all add: views_all_upd views_all_app fun_upd_idem)
  let ?S = "shape h"
  let ?S1 = "?S\<lparr>pls := insert q (pls ?S)\<rparr>"
  let ?S2 = "?S1\<lparr>nx := (nx ?S1)(q := nx ?S p), pv := (pv ?S1)(q := pv ?S p),
    owner := (owner ?S1)(q := owner ?S p), lp := (lp ?S1)(q := lp ?S p)\<rparr>"
  let ?S3 = "?S2\<lparr>nx := nx ?S2 |` (- {p}), pv := pv ?S2 |` (- {p}), owner := owner ?S2 |` (- {p}),
    lp := lp ?S2 |` (- {p}), pls := pls ?S2 - {p}, cbk := cbk ?S2 - {p}, lis := lis ?S2 - {p}\<rparr>"
  have w1: "ok {p} ?S1 L C"
    by (rule ok_new_poll [OF w q(2)]) (use qn in \<open>simp_all add: views_all_dom domIff\<close>)
  have w2: "ok (insert q {p}) ?S2 L C"
    by (rule ok_new_sock [OF w1]) (use qn so in \<open>auto simp: views_all_dom views_all_app\<close>)
  have w3: "ok ({q, p} - {p}) ?S3 L C" by (rule ok_free_detached [OF w2]) simp
  have mv: "nx_of (move_key (socks h) p q) = (s_nx h)(q := s_nx h p) |` (- {p})"
    "pv_of (move_key (socks h) p q) = (s_pv h)(q := s_pv h p) |` (- {p})"
    "owner_of (move_key (socks h) p q) = (owner_of (socks h))(q := owner_of (socks h) p) |` (- {p})"
    "lp_of (move_key (socks h) p q) = (lp_of (socks h))(q := lp_of (socks h) p) |` (- {p})"
    unfolding nx_of_move [OF pq] pv_of_move [OF pq] owner_of_move [OF pq] lp_of_move [OF pq]
    by (rule move_key_neq [OF pq])+
  have dm: "dom (move_key (polls h) p q) = insert q (dom (polls h)) - {p}"
    "dom (move_key (cbs h) p q) = dom (cbs h) - {p}" "dom (move_key (listens h) p q) = dom (listens h) - {p}"
    using dom_move_key(1) [OF pq, of "polls h"] dom_move_key(2) [OF pq, of "cbs h"]
      dom_move_key(2) [OF pq, of "listens h"] x so nc qn by (simp_all add: domIff)
  have sh: "shape ?g = ?S3"
    using lv by (simp add: shape_def move_obj_def mv dm)
  have "{q, p} - {p} = {q}" using q(1) by auto
  with w3 sh have w': "wfd {q} ?g L C" by simp
  show "rem (shape ?g) L c = rem ?S L c" by (rule rem_cong) (simp_all add: sh)
  have u: "\<And>y k. y \<in> set (L k) \<Longrightarrow> y \<noteq> p" by (rule ok_D_unlisted [OF w]) simp
  have uq: "\<And>y k. y \<in> set (L k) \<Longrightarrow> y \<noteq> q" using ok_listed(1) [OF w] qn by (fastforce simp: views_all_dom)
  have keep: "polls ?g y = polls h y" "socks ?g y = socks h y" "cbs ?g y = cbs h y" if "y \<noteq> p" "y \<noteq> q" for y
    using that pq by (simp_all add: move_obj_def move_key_def)
  have gq: "socks ?g q = Some so" "cbs ?g p = None" "cbs ?g q = None" "ctxs ?g = ctxs h"
    using so pq nc by (simp_all add: move_obj_def move_key_def)
  have nq: "entry_ok h L l' q \<Longrightarrow> False" for l' using qn by (auto simp: entry_ok_def)
  have en: "entry_ok ?g L l' y" if e: "entry_ok h L l' y" and n: "y \<noteq> p" for l' y
  proof -
    have "y \<noteq> q" using nq e by blast
    with n keep [of y] have k: "socks ?g y = socks h y" "cbs ?g y = cbs h y" by simp_all
    have "loop_of ?g y = loop_of h y" unfolding loop_of_def k(1) gq(4) ..
    with e k show ?thesis unfolding entry_ok_def by (simp add: dom_def)
  qed
  have eq: "entry_ok ?g L l q"
  proof -
    have "loop_of ?g q = Some l" using lo so gq(1,4) by (simp add: loop_of_def)
    moreover have "\<forall>l'. q \<notin> set (L (Closed l'))" using uq by blast
    ultimately show ?thesis using gq(1) unfolding entry_ok_def by blast
  qed
  show "invd {q} E ?g L C"
  proof (rule invI [OF w'])
    have "finite (dom (move_key (polls h) p q))" "finite (dom (move_key (socks h) p q))"
      "finite (dom (move_key (listens h) p q))" "finite (dom (move_key (cbs h) p q))"
      using invD(2) [OF i] x so nc qn pq by (simp_all add: finite_allocated dom_move_key domIff)
    then show "finite (allocated ?g)"
      using invD(2) [OF i] by (simp add: finite_allocated move_obj_def)
    show "pollsI (be E) ?g L"
      unfolding pollsI_def
    proof (intro allI impI)
      fix k y v assume y: "y \<in> set (L k)" "polls ?g y = Some v"
      with keep(1) [OF u [OF y(1)] uq [OF y(1)]] invD(3) [OF i] show "poll_ok (be E) k v"
        unfolding pollsI_def by simp
    qed
    show "handI ?g L"
      unfolding handI_def
    proof (intro allI impI)
      fix k y v assume y: "y \<in> set (L k)" "doubly k" "socks ?g y = Some v"
      with keep(2) [OF u [OF y(1)] uq [OF y(1)]] invD(4) [OF i] have "has_handlers h (s_context v)"
        unfolding handI_def by simp
      then show "has_handlers ?g (s_context v)" by (simp add: has_handlers_def gq(4))
    qed
    show "cbsI ?g"
      unfolding cbsI_def
    proof (intro allI impI)
      fix y cb assume y: "cbs ?g y = Some cb"
      with gq have n: "y \<noteq> p" "y \<noteq> q" by auto
      from y keep(3) [OF n] have "cb_ok h y cb" using invD(5) [OF i] unfolding cbsI_def by simp
      with keep(1) [OF n] show "cb_ok ?g y cb" using z by (auto simp: cb_ok_def)
    qed
    show "readyI (be E) ?g L"
      unfolding readyI_def
    proof (intro allI impI)
      fix l' z' assume l': "loops ?g l' = Some z'"
      show "ready_list_ok (be E) z' \<and> (\<forall>y\<in>re_poll ` set (pending z'). y \<noteq> NULL \<longrightarrow> entry_ok ?g L l' y)"
      proof (cases "l' = l")
        case True
        then have z': "z' = z\<lparr>ready_polls := rs\<rparr>" using l' by simp
        note rd = readyD [OF invD(6) [OF i] z]
        have "q \<notin> re_poll ` set (pending z)" using rd(2) [of q] q(2) nq by blast
        then have "ready_list_ok (be E) z'" unfolding z' by (rule pending_rename [OF rd(1) _ p0 rs])
        moreover have "entry_ok ?g L l' y" if y: "y \<in> re_poll ` set (pending z')" "y \<noteq> NULL" for y
        proof -
          have "y = q \<or> (y \<noteq> p \<and> y \<in> re_poll ` set (pending z))"
            using y(1) q(1) unfolding z' rs(2) by (auto simp: rename_ready_def split: if_splits)
          then show ?thesis using eq en [OF rd(2)] True y(2) by blast
        qed
        ultimately show ?thesis by blast
      next
        case False
        then have z': "loops h l' = Some z'" using l' by simp
        note rd = readyD [OF invD(6) [OF i] z']
        have "y \<noteq> p" if "entry_ok h L l' y" for y
          using that False lo nc by (auto simp: entry_ok_def)
        then show ?thesis using rd en by blast
      qed
    qed
  qed
qed

lemma resize_invd:
  assumes i: "invd {p} E h L C" and so: "socks h p = Some so" "listens h p = None" and lo: "loop_of h p = Some l"
    and a: "allocator_ok E" and x: "polls h p = Some x" and z: "loops h l = Some z"
    and ev: "us_poll_events (be E) x \<noteq> 0 \<or> realloc_at E h p = p"
  obtains q h' where "us_poll_resize E h p l = Some (q, h')" "invd {q} E h' L C" "evolves_ex {p, q} h L h' L"
    "socks h' q = Some so" "polls h' q = Some x" "ctxs h' = ctxs h" "listens h' q = None"
    "q = p \<or> q \<notin> allocated h"
proof (cases "realloc_at E h p = p")
  case True
  have "us_poll_resize E h p l = Some (p, h)"
    using x True by (simp add: us_poll_resize_def move_obj_def move_key_def)
  then show thesis by (rule that) (use i so x in simp_all)
next
  case False
  let ?q = "realloc_at E h p"
  have w: "wfd {p} h L C" by (rule invD(1) [OF i])
  have p0: "p \<noteq> NULL" by (rule wfd_sock(1) [OF w so(1)])
  have q: "?q \<noteq> p" "?q \<noteq> NULL" "?q \<notin> allocated h"
    using False a invD(2) [OF i] p0 unfolding allocator_ok_def by blast+
  have qn: "polls h ?q = None" "socks h ?q = None" "listens h ?q = None" using q(3) by (auto simp: allocated_def)
  have e0: "us_poll_events (be E) x \<noteq> 0" using ev False by simp
  note rl = readyD(1) [OF invD(6) [OF i] z]
  show thesis
  proof (rule us_poll_resize_result [OF x z rl p0 refl q(1) e0])
    fix c rs
    assume r: "us_poll_resize E h p l = Some (?q, (move_obj h p ?q)\<lparr>
        loops := (loops h)(l \<mapsto> z\<lparr>ready_polls := rs\<rparr>), trace := trace h @ c\<rparr>)"
      and rs: "pending (z\<lparr>ready_polls := rs\<rparr>) = map (rename_ready p ?q) (pending z)"
        "length rs = length (ready_polls z)"
    note m = move_invd [OF i so lo q z rs(2,1)]
    let ?g = "(move_obj h p ?q)\<lparr>loops := (loops h)(l \<mapsto> z\<lparr>ready_polls := rs\<rparr>)\<rparr>"
    have k: "polls ?g y = polls h y" if "y \<noteq> p" "y \<noteq> ?q" for y
      using that q(1) by (simp add: move_obj_def move_key_def)
    have cg: "ctxs ?g = ctxs h" by (simp add: move_obj_def)
    have ev: "evolves_ex {p, ?q} h L ?g L"
      unfolding evolves_ex_def
    proof (intro conjI allI impI)
      show "\<exists>y'. ctxs ?g c = Some y' \<and> ctx_evolves y y'" if "ctxs h c = Some y" for c y
        using that cg by simp
      show "subseq (rem (shape ?g) L c) (rem (shape h) L c)" for c unfolding m(2) by simp
      show "\<exists>z'. loops ?g l' = Some z' \<and> loop_evolves z0 z'" if "loops h l' = Some z0" for l' z0
        using that z by (auto simp: loop_evolves_def)
      show "connecting_in ?g L y \<or> closed_in L y" if "y \<notin> {p, ?q}" "connecting_in h L y" for y
        using that k [of y] by (simp add: connecting_in_def)
    qed simp_all
    show thesis
    proof (rule that [OF r])
      show "invd {?q} E ((move_obj h p ?q)\<lparr>loops := (loops h)(l \<mapsto> z\<lparr>ready_polls := rs\<rparr>), trace := trace h @ c\<rparr>) L C"
        using m(1) by simp
      show "evolves_ex {p, ?q} h L ((move_obj h p ?q)\<lparr>loops := (loops h)(l \<mapsto> z\<lparr>ready_polls := rs\<rparr>), trace := trace h @ c\<rparr>) L"
        using ev by simp
    qed (use so x q in \<open>simp_all add: move_obj_def move_key_def\<close>)
  qed
qed

subsection \<open>Adopting\<close>

lemma us_socket_context_adopt_socket_ok:
  assumes i: "inv_with E h L C" and a: "allocator_ok E"
    and s: "socks h s = Some so" "\<not> us_socket_is_closed so" "low_prio_state so \<noteq> 1"
    and p: "polls h s = Some p" "us_socket_is_established p" "us_poll_events (be E) p \<noteq> 0"
    and y: "ctxs h c = Some y" "handlers_set y" and y0: "ctxs h (s_context so) = Some y0" "c_loop y = c_loop y0"
  obtains q h' L' so' where "us_socket_context_adopt_socket E h c s = Some (q, h')" "inv_with E h' L' C"
    "evolves h L h' L'" "q \<in> set (L' (Open c))" "socks h' q = Some so'" "s_context so' = c"
    "timeout so' = 255" "long_timeout so' = 255" "polls h' q = Some p" "q = s \<or> q \<notin> allocated h"
proof -
  have w: "wfd {} h L C" by (rule invD(1) [OF i])
  let ?c0 = "s_context so" and ?l = "c_loop y0"
  show thesis
  proof (rule live_socket [OF i s(1,2)])
    fix y1 z q k assume k: "ctxs h ?c0 = Some y1" "loops h (c_loop y1) = Some z" "polls h s = Some q"
      "s \<in> set (L k)" "doubly k" "poll_ok (be E) k q" "placed (shape h) k s"
    have z: "loops h ?l = Some z" using k(1,2) y0 by simp
    have "(\<exists>c. k = Open c) \<or> (\<exists>l. k = LowPrio l)"
      using established_place [OF k(6) _ k(5)] p(1,2) k(3) by simp
    then have ko: "k = Open ?c0" using k(7) s by (auto simp: placed_def views)
    then have so: "s \<in> set (L (Open ?c0))" "s \<notin> dom (listens h)"
      using k(4,7) by (auto simp: placed_def)
    show thesis
    proof (rule unlink_invd [OF i so(1)])
      fix so0 y2 m it d
      let ?h1 = "h\<lparr>socks := m, ctxs := (ctxs h)(?c0 \<mapsto> y2\<lparr>c_iterator := it, head_sockets := d\<rparr>)\<rparr>"
      let ?L1 = "L(Open ?c0 := remove1 s (L (Open ?c0)))"
      assume u: "socks h s = Some so0" "ctxs h ?c0 = Some y2"
          "us_internal_socket_context_unlink_socket h ?c0 s = Some ?h1" "relinked (socks h) m"
        and i1: "invd {s} E ?h1 ?L1 C" and e1: "evolves_ex {s} h L ?h1 ?L1"
      have y2: "y2 = y0" using u(2) y0 by simp
      obtain so1 where so1: "m s = Some so1" "s_context so1 = ?c0" "low_prio_state so1 = low_prio_state so"
        using relinked_sockD2 [OF u(4) s(1)] .
      have q1: "socks ?h1 s = Some so1" "listens ?h1 s = None" "polls ?h1 s = Some p" "loops ?h1 ?l = Some z"
        using so1(1) so(2) p(1) z by auto
      have lo: "loop_of ?h1 s = Some ?l" using so1 y2 by (simp add: loop_of_def)
      have al: "allocated ?h1 = allocated h"
      proof -
        have "dom m = dom (socks h)" by (rule relinked_views(3) [OF u(4)])
        with u(2) show ?thesis by (auto simp: allocated_def)
      qed
      show thesis
      proof (rule resize_invd [OF i1 q1(1,2) lo a q1(3,4) disjI1 [OF p(3)]])
        fix q h2
        assume r: "us_poll_resize E ?h1 s ?l = Some (q, h2)" and i2: "invd {q} E h2 ?L1 C"
          and e2: "evolves_ex {s, q} ?h1 ?L1 h2 ?L1"
          and s2: "socks h2 q = Some so1" "polls h2 q = Some p" "ctxs h2 = ctxs ?h1" "listens h2 q = None"
            "q = s \<or> q \<notin> allocated ?h1"
        let ?so2 = "so1\<lparr>timeout := 255, long_timeout := 255\<rparr>"
        let ?h3 = "h2\<lparr>socks := (socks h2)(q \<mapsto> ?so2)\<rparr>"
        have i3: "invd {q} E ?h3 ?L1 C" by (rule invd_sock [OF i2 s2(1)]) simp_all
        have e3: "evolves_ex {s, q} h2 ?L1 ?h3 ?L1" by (rule evolves_sock [OF s2(1)]) simp_all
        define y3 where "y3 = (if c = ?c0 then y0\<lparr>c_iterator := it, head_sockets := d\<rparr> else y)"
        have y3: "ctxs ?h3 c = Some y3" "handlers_set y3" "c_loop y3 = ?l"
          using y y0 s2(3) y2 by (auto simp: y3_def handlers_set_def)
        have t3: "socks ?h3 q = Some ?so2" "low_prio_state ?so2 \<noteq> 1" "listens ?h3 q = None"
          using so1(3) s(3) s2(4) by simp_all
        have po: "poll_ok (be E) (Open c) x" if "polls ?h3 q = Some x" for x
          using that s2(2) p(2) k(3,6) p(1) ko by (auto simp: poll_ok_def us_socket_is_established_def)
        have lo3: "c_loop y3 = l'" if "loop_of ?h3 q = Some l'" for l'
          using that y3(3) s2(3) y2 so1(2) by (auto simp: loop_of_def)
        show thesis
        proof (rule link_invd [OF i3 insertI1 t3(1) y3(1,2) t3(2,3) po lo3])
          fix m'
          let ?h4 = "?h3\<lparr>socks := m', ctxs := (ctxs ?h3)(c \<mapsto> y3\<lparr>head_sockets := q\<rparr>)\<rparr>"
          let ?L2 = "?L1(Open c := q # ?L1 (Open c))"
          assume l: "us_internal_socket_context_link_socket ?h3 c q = Some ?h4"
            and rel: "relinked ((socks ?h3)(q \<mapsto> ?so2\<lparr>s_context := c\<rparr>)) m'"
            and i4: "invd ({q} - {q}) E ?h4 ?L2 C" and e4: "evolves_ex {q} ?h3 ?L1 ?h4 ?L2"
          have "us_socket_context_adopt_socket E h c s = Some (q, ?h4)"
            using s u(3) r y2 so1 s2(1) l by (simp add: us_socket_context_adopt_socket_def set_sock_def)
          moreover have "inv_with E ?h4 ?L2 C" using i4 by simp
          moreover have "evolves h L ?h4 ?L2"
          proof (rule evolves_settle)
            show "evolves_ex {s, q} h L ?h4 ?L2"
              by (rule evolves_trans [OF evolves_weaken [OF e1] evolves_trans [OF e2 evolves_trans [OF e3 evolves_weaken [OF e4]]]])
                auto
            fix x assume x: "x \<in> {s, q}"
            show "closed_in ?L2 x \<or> (\<not> connecting_in h L x \<and> (\<forall>c. x \<notin> set (L (Listen c))))"
            proof (cases "x = s")
              case True
              have "s \<notin> set (L (Listen c'))" for c' using ok_unique [OF w so(1), of "Listen c'"] by auto
              moreover have "\<not> connecting_in h L s" using p(1,2)
                by (simp add: connecting_in_def us_socket_is_established_def)
              ultimately show ?thesis using True by blast
            next
              case False
              then have "x \<notin> allocated h" using x s2(5) al by auto
              then have "x \<notin> set (L k)" for k
                using ok_listed(1) [OF w, of x k] by (auto simp: views_all_dom allocated_def)
              then show ?thesis by (simp add: connecting_in_def)
            qed
          qed
          moreover obtain so4 where "m' q = Some so4" "s_context so4 = c" "timeout so4 = 255" "long_timeout so4 = 255"
          proof (rule relinked_sockD2 [OF rel, of q])
            show "((socks ?h3)(q \<mapsto> ?so2\<lparr>s_context := c\<rparr>)) q = Some (?so2\<lparr>s_context := c\<rparr>)" by simp
          qed (use that in simp)
          moreover have "polls ?h4 q = Some p" using s2(2) by simp
          moreover have "q = s \<or> q \<notin> allocated h" using s2(5) al by simp
          ultimately show thesis using that [of q ?h4 ?L2 so4] by simp
        qed
      qed
    qed
  qed
qed

end
