(* ===== verification/Handlers.thy ===== *)
theory Handlers
  imports Adopting
begin

text \<open>
  The contract between the library and the application.  A handler of the application may call the
  operations of the library, in any order and number, on sockets and contexts that exist
  (\<open>handled\<close>); closing a socket runs the application's \<open>on_close\<close> handler inside the handler.  In
  return everything a handler does keeps the invariant (\<open>handled_keeps\<close>), so that the loop can go
  on with its lists after it has returned.
\<close>

subsection \<open>What a step keeps\<close>

definition keeps :: "env \<Rightarrow> heap \<Rightarrow> heap \<Rightarrow> bool" where
  "keeps E h h' \<longleftrightarrow> (\<forall>L C. inv_with E h L C \<longrightarrow> (\<exists>L' C'. inv_with E h' L' C' \<and> evolves h L h' L'))"

lemma keeps_refl [simp]: "keeps E h h"
  unfolding keeps_def using evolves_refl by blast

lemma keeps_trans: "keeps E h h1 \<Longrightarrow> keeps E h1 h2 \<Longrightarrow> keeps E h h2"
  unfolding keeps_def using evolves_trans by metis

lemma keepsD:
  assumes "keeps E h h'" "inv_with E h L C"
  obtains L' C' where "inv_with E h' L' C'" "evolves h L h' L'"
  using assms unfolding keeps_def by blast

lemma keeps_inv: "keeps E h h' \<Longrightarrow> inv E h \<Longrightarrow> inv E h'"
  unfolding keeps_def inv_def by blast

lemma keepsI:
  assumes "\<And>L C. inv_with E h L C \<Longrightarrow> \<exists>L' C'. inv_with E h' L' C' \<and> evolves h L h' L'"
  shows "keeps E h h'"
  using assms unfolding keeps_def by blast

lemma keeps_calls: "only_calls h h' \<Longrightarrow> keeps E h h'"
  by (rule keepsI) (metis evolves_refl only_callsD(1,2))

text \<open>A call through a function pointer, as the callee finds it.\<close>

definition called :: "heap \<Rightarrow> fnptr \<Rightarrow> cb_event \<Rightarrow> heap" where
  "called h f ev = h\<lparr>trace := trace h @ [Call f ev]\<rparr>"

lemma only_calls_called [simp]: "only_calls h (called h f ev)"
  by (auto simp: called_def only_calls_def)

lemma called_simps [simp]:
  "polls (called h f ev) = polls h" "socks (called h f ev) = socks h" "listens (called h f ev) = listens h"
  "cbs (called h f ev) = cbs h" "ctxs (called h f ev) = ctxs h" "loops (called h f ev) = loops h"
  "invd D E (called h f ev) L C = invd D E h L C" "shape (called h f ev) = shape h"
  "evolves_ex X g L0 (called h f ev) L = evolves_ex X g L0 h L"
  "evolves_ex X (called h f ev) L g L0 = evolves_ex X h L g L0"
  by (simp_all add: called_def)

subsection \<open>What a handler may do\<close>

text \<open>
  A socket may be moved to another context of its loop when it is open and established; a socket
  that polls for nothing is only moved safely when \<open>realloc\<close> leaves it in place
  (\<open>us_poll_resize_leaves_stale_pointer\<close>), and is excluded.
\<close>

definition may_adopt :: "env \<Rightarrow> heap \<Rightarrow> ptr \<Rightarrow> ptr \<Rightarrow> bool" where
  "may_adopt E h c s \<longleftrightarrow> (\<exists>so p y y0. socks h s = Some so \<and> polls h s = Some p \<and>
     us_socket_is_established p \<and> low_prio_state so \<noteq> 1 \<and> us_poll_events (be E) p \<noteq> 0 \<and>
     ctxs h (s_context so) = Some y0 \<and> ctxs h c = Some y \<and> handlers_set y \<and> c_loop y = c_loop y0)"

text \<open>The updates of the \<open>us_socket_context_on_*\<close> functions.\<close>

datatype handler_field = HOpen | HClose | HData | HWritable | HTimeout | HLongTimeout | HEnd | HConnectError

definition set_handler :: "heap \<Rightarrow> ptr \<Rightarrow> handler_field \<Rightarrow> fnptr \<Rightarrow> heap option" where
  "set_handler h c k f = (case k of
       HOpen \<Rightarrow> us_socket_context_on_open h c f
     | HClose \<Rightarrow> us_socket_context_on_close h c f
     | HData \<Rightarrow> us_socket_context_on_data h c f
     | HWritable \<Rightarrow> us_socket_context_on_writable h c f
     | HTimeout \<Rightarrow> us_socket_context_on_timeout h c f
     | HLongTimeout \<Rightarrow> us_socket_context_on_long_timeout h c f
     | HEnd \<Rightarrow> us_socket_context_on_end h c f
     | HConnectError \<Rightarrow> us_socket_context_on_connect_error h c f)"

inductive handled :: "env \<Rightarrow> heap \<Rightarrow> heap \<Rightarrow> bool" for E where
  return: "handled E h h"
| calls: "handled E h h1 \<Longrightarrow> only_calls h1 h2 \<Longrightarrow> handled E h h2"
| timeout: "handled E h h1 \<Longrightarrow> socks h1 s = Some so \<Longrightarrow> \<not> us_socket_is_closed so \<or> seconds = 0 \<Longrightarrow>
    us_socket_timeout h1 s seconds = Some h2 \<Longrightarrow> handled E h h2"
| long_timeout: "handled E h h1 \<Longrightarrow> socks h1 s = Some so \<Longrightarrow> \<not> us_socket_is_closed so \<or> minutes = 0 \<Longrightarrow>
    us_socket_long_timeout h1 s minutes = Some h2 \<Longrightarrow> handled E h h2"
| send: "handled E h h1 \<Longrightarrow> socks h1 s = Some so \<Longrightarrow> polls h1 s = Some p \<Longrightarrow> may_write so p \<Longrightarrow>
    us_socket_write E h1 s data msg_more = Some (w, h2) \<Longrightarrow> handled E h h2"
| send2: "handled E h h1 \<Longrightarrow> socks h1 s = Some so \<Longrightarrow> polls h1 s = Some p \<Longrightarrow> may_write so p \<Longrightarrow>
    us_socket_write2 E h1 s header payload = Some (w, h2) \<Longrightarrow> handled E h h2"
| shutdown: "handled E h h1 \<Longrightarrow> socks h1 s = Some so \<Longrightarrow> polls h1 s = Some p \<Longrightarrow>
    us_socket_is_closed so \<or> us_socket_is_established p \<Longrightarrow>
    us_socket_shutdown E h1 s = Some h2 \<Longrightarrow> handled E h h2"
| close: "handled E h h1 \<Longrightarrow> socks h1 s = Some so \<Longrightarrow> \<not> us_socket_is_closed so \<Longrightarrow> listens h1 s = None \<Longrightarrow>
    close_quietly E h1 s = Some h2 \<Longrightarrow> ctxs h2 (s_context so) = Some y \<Longrightarrow>
    handled E (called h2 (on_close y) (OnClose s code reason)) h3 \<Longrightarrow> handled E h h3"
| close_connecting: "handled E h h1 \<Longrightarrow> socks h1 s = Some so \<Longrightarrow>
    us_socket_is_closed so \<or> (listens h1 s = None \<and> low_prio_state so \<noteq> 1) \<Longrightarrow>
    us_socket_close_connecting E h1 s = Some (s', h2) \<Longrightarrow> handled E h h2"
| listen_close: "handled E h h1 \<Longrightarrow> socks h1 s = Some so \<Longrightarrow> us_socket_is_closed so \<or> listens h1 s \<noteq> None \<Longrightarrow>
    us_listen_socket_close E h1 s = Some h2 \<Longrightarrow> handled E h h2"
| listen: "handled E h h1 \<Longrightarrow> ctxs h1 c = Some y \<Longrightarrow> handlers_set y \<Longrightarrow>
    us_socket_context_listen E h1 c host port options ext = Some (p, h2) \<Longrightarrow> handled E h h2"
| listen_unix: "handled E h h1 \<Longrightarrow> ctxs h1 c = Some y \<Longrightarrow> handlers_set y \<Longrightarrow> length path < SUN_PATH_SIZE (be E) \<Longrightarrow>
    us_socket_context_listen_unix E h1 c path options ext = Some (p, h2) \<Longrightarrow> handled E h h2"
| connect: "handled E h h1 \<Longrightarrow> ctxs h1 c = Some y \<Longrightarrow> handlers_set y \<Longrightarrow>
    us_socket_context_connect E h1 c host port source_host options = Some (p, h2) \<Longrightarrow> handled E h h2"
| connect_unix: "handled E h h1 \<Longrightarrow> ctxs h1 c = Some y \<Longrightarrow> handlers_set y \<Longrightarrow> length path < SUN_PATH_SIZE (be E) \<Longrightarrow>
    us_socket_context_connect_unix E h1 c path options = Some (p, h2) \<Longrightarrow> handled E h h2"
| adopt: "handled E h h1 \<Longrightarrow> may_adopt E h1 c s \<Longrightarrow>
    us_socket_context_adopt_socket E h1 c s = Some (q, h2) \<Longrightarrow> handled E h h2"
| create_context: "handled E h h1 \<Longrightarrow> l \<in> dom (loops h1) \<Longrightarrow>
    us_create_socket_context E h1 l = Some (c, h2) \<Longrightarrow> handled E h h2"
| set_handler: "handled E h h1 \<Longrightarrow> c \<in> dom (ctxs h1) \<Longrightarrow>
    set_handler h1 c k (UserFn n) = Some h2 \<Longrightarrow> handled E h h2"

inductive_cases handled_elim: "handled E h h'"

lemma handled_trans: "handled E h1 h2 \<Longrightarrow> handled E h h1 \<Longrightarrow> handled E h h2"
  by (induction rule: handled.induct) (blast intro: handled.intros)+

text \<open>Each rule keeps the invariant.\<close>

definition handler_upd :: "handler_field \<Rightarrow> fnptr \<Rightarrow> us_socket_context_t \<Rightarrow> us_socket_context_t" where
  "handler_upd k f y = (case k of
       HOpen \<Rightarrow> y\<lparr>on_open := f\<rparr> | HClose \<Rightarrow> y\<lparr>on_close := f\<rparr> | HData \<Rightarrow> y\<lparr>on_data := f\<rparr>
     | HWritable \<Rightarrow> y\<lparr>on_writable := f\<rparr> | HTimeout \<Rightarrow> y\<lparr>on_socket_timeout := f\<rparr>
     | HLongTimeout \<Rightarrow> y\<lparr>on_socket_long_timeout := f\<rparr> | HEnd \<Rightarrow> y\<lparr>on_end := f\<rparr>
     | HConnectError \<Rightarrow> y\<lparr>on_connect_error := f\<rparr>)"

lemma set_handler_eq: "set_handler h c k f = set_ctx h c (handler_upd k f)"
  by (cases k) (simp_all add: set_handler_def on_defs handler_upd_def [abs_def])

lemma set_handler_keeps:
  assumes "set_handler h c k (UserFn n) = Some h'" "c \<in> dom (ctxs h)"
  shows "keeps E h h'"
proof (rule keepsI)
  fix L C assume i: "inv_with E h L C"
  obtain y where y: "ctxs h c = Some y" using assms(2) by blast
  have f: "c_loop (handler_upd k (UserFn n) y) = c_loop y" "head_sockets (handler_upd k (UserFn n) y) = head_sockets y"
    "head_listen_sockets (handler_upd k (UserFn n) y) = head_listen_sockets y"
    "c_prev (handler_upd k (UserFn n) y) = c_prev y" "c_next (handler_upd k (UserFn n) y) = c_next y"
    "c_iterator (handler_upd k (UserFn n) y) = c_iterator y" "ctx_evolves y (handler_upd k (UserFn n) y)"
    by (cases k; simp add: handler_upd_def ctx_evolves_def handlers_set_def is_user_def)+
  note r = set_handler_ok [where f = "handler_upd k (UserFn n)", OF i y f]
  have "h' = h\<lparr>ctxs := (ctxs h)(c \<mapsto> handler_upd k (UserFn n) y)\<rparr>"
    using assms(1) r(1) by (simp add: set_handler_eq)
  with r(2,3) show "\<exists>L' C'. inv_with E h' L' C' \<and> evolves h L h' L'" by blast
qed

lemma timeout_keeps:
  assumes "us_socket_timeout h s seconds = Some h'" "socks h s = Some so" "\<not> us_socket_is_closed so \<or> seconds = 0"
  shows "keeps E h h'"
proof (rule keepsI)
  fix L C assume i: "inv_with E h L C"
  show "\<exists>L' C'. inv_with E h' L' C' \<and> evolves h L h' L'"
  proof (rule us_socket_timeout_ok [OF i assms(2,3)])
    fix t assume "us_socket_timeout h s seconds = Some (h\<lparr>socks := (socks h)(s \<mapsto> so\<lparr>timeout := t\<rparr>)\<rparr>)"
      "inv_with E (h\<lparr>socks := (socks h)(s \<mapsto> so\<lparr>timeout := t\<rparr>)\<rparr>) L C"
      "evolves h L (h\<lparr>socks := (socks h)(s \<mapsto> so\<lparr>timeout := t\<rparr>)\<rparr>) L"
    with assms(1) show ?thesis by (metis option.inject)
  qed
qed

lemma long_timeout_keeps:
  assumes "us_socket_long_timeout h s minutes = Some h'" "socks h s = Some so" "\<not> us_socket_is_closed so \<or> minutes = 0"
  shows "keeps E h h'"
proof (rule keepsI)
  fix L C assume i: "inv_with E h L C"
  show "\<exists>L' C'. inv_with E h' L' C' \<and> evolves h L h' L'"
  proof (rule us_socket_long_timeout_ok [OF i assms(2,3)])
    fix t assume "us_socket_long_timeout h s minutes = Some (h\<lparr>socks := (socks h)(s \<mapsto> so\<lparr>long_timeout := t\<rparr>)\<rparr>)"
      "inv_with E (h\<lparr>socks := (socks h)(s \<mapsto> so\<lparr>long_timeout := t\<rparr>)\<rparr>) L C"
      "evolves h L (h\<lparr>socks := (socks h)(s \<mapsto> so\<lparr>long_timeout := t\<rparr>)\<rparr>) L"
    with assms(1) show ?thesis by (metis option.inject)
  qed
qed

text \<open>A result that an operation is known to have, with the invariant after it.\<close>

lemma keeps_result:
  assumes "\<And>L C. inv_with E h L C \<Longrightarrow> \<exists>x' h2 L' C'. r = Some (x', h2) \<and> inv_with E h2 L' C' \<and> evolves h L h2 L'"
    and "r = Some (x, h')"
  shows "keeps E h h'"
proof (rule keepsI)
  fix L C assume "inv_with E h L C"
  from assms(1) [OF this] assms(2) show "\<exists>L' C'. inv_with E h' L' C' \<and> evolves h L h' L'" by auto
qed

lemma keeps_result1:
  assumes "\<And>L C. inv_with E h L C \<Longrightarrow> \<exists>h2 L' C'. r = Some h2 \<and> inv_with E h2 L' C' \<and> evolves h L h2 L'"
    and "r = Some h'"
  shows "keeps E h h'"
proof (rule keepsI)
  fix L C assume "inv_with E h L C"
  from assms(1) [OF this] assms(2) show "\<exists>L' C'. inv_with E h' L' C' \<and> evolves h L h' L'" by auto
qed

lemma adopt_keeps:
  assumes a: "allocator_ok E" and m: "may_adopt E h c s" and r: "us_socket_context_adopt_socket E h c s = Some (q, h')"
  shows "keeps E h h'"
proof (rule keepsI)
  fix L C assume i: "inv_with E h L C"
  obtain so p y y0 where k: "socks h s = Some so" "polls h s = Some p" "us_socket_is_established p"
    "low_prio_state so \<noteq> 1" "us_poll_events (be E) p \<noteq> 0" "ctxs h (s_context so) = Some y0" "ctxs h c = Some y"
    "handlers_set y" "c_loop y = c_loop y0"
    using m unfolding may_adopt_def by blast
  show "\<exists>L' C'. inv_with E h' L' C' \<and> evolves h L h' L'"
  proof (cases "us_socket_is_closed so")
    case True
    with k(1) r have "h' = h" by (simp add: us_socket_context_adopt_socket_def)
    with i show ?thesis using evolves_refl by blast
  next
    case False
    show ?thesis
      by (rule us_socket_context_adopt_socket_ok [OF i a k(1) False k(4,2,3,5,7,8,6,9)])
        (use r in auto)
  qed
qed

theorem handled_keeps:
  assumes "handled E h h'" and a: "allocator_ok E" "resolver_ok E"
  shows "keeps E h h'"
  using assms(1)
proof (induction rule: handled.induct)
  case (return h)
  show ?case by simp
next
  case (calls h h1 h2)
  show ?case by (rule keeps_trans [OF calls.IH keeps_calls [OF calls.hyps(2)]])
next
  case (timeout h h1 s so seconds h2)
  show ?case by (rule keeps_trans [OF timeout.IH timeout_keeps [OF timeout.hyps(4,2,3)]])
next
  case (long_timeout h h1 s so minutes h2)
  show ?case by (rule keeps_trans [OF long_timeout.IH long_timeout_keeps [OF long_timeout.hyps(4,2,3)]])
next
  case (send h h1 s so p data msg_more w h2)
  have "keeps E h1 h2"
    by (rule keeps_result [OF _ send.hyps(5)])
      (metis us_socket_write_ok [OF _ send.hyps(2-4)])
  with send.IH show ?case by (rule keeps_trans)
next
  case (send2 h h1 s so p header payload w h2)
  have "keeps E h1 h2"
    by (rule keeps_result [OF _ send2.hyps(5)])
      (metis us_socket_write2_ok [OF _ send2.hyps(2-4)])
  with send2.IH show ?case by (rule keeps_trans)
next
  case (shutdown h h1 s so p h2)
  have "keeps E h1 h2"
    by (rule keeps_result1 [OF _ shutdown.hyps(5)])
      (metis us_socket_shutdown_ok [OF _ shutdown.hyps(2-4)])
  with shutdown.IH show ?case by (rule keeps_trans)
next
  case (close h h1 s so h2 y code reason h3)
  have "keeps E h1 h2"
    by (rule keeps_result1 [OF _ close.hyps(5)])
      (metis close_quietly_ok [OF _ close.hyps(2-4)])
  with close.IH show ?case using keeps_trans keeps_calls [OF only_calls_called] by metis
next
  case (close_connecting h h1 s so s' h2)
  have "keeps E h1 h2"
    by (rule keeps_result [OF _ close_connecting.hyps(4)])
      (metis us_socket_close_connecting_ok [OF _ close_connecting.hyps(2,3)])
  with close_connecting.IH show ?case by (rule keeps_trans)
next
  case (listen_close h h1 s so h2)
  have "keeps E h1 h2"
    by (rule keeps_result1 [OF _ listen_close.hyps(4)])
      (metis us_listen_socket_close_ok [OF _ listen_close.hyps(2,3)])
  with listen_close.IH show ?case by (rule keeps_trans)
next
  case (listen h h1 c y host port options ext p h2)
  have "keeps E h1 h2"
    by (rule keeps_result [OF _ listen.hyps(4)])
      (metis us_socket_context_listen_ok [OF _ a(1) listen.hyps(2,3)])
  with listen.IH show ?case by (rule keeps_trans)
next
  case (listen_unix h h1 c y path options ext p h2)
  have "keeps E h1 h2"
    by (rule keeps_result [OF _ listen_unix.hyps(5)])
      (metis us_socket_context_listen_unix_ok [OF _ a(1) listen_unix.hyps(2,3,4)])
  with listen_unix.IH show ?case by (rule keeps_trans)
next
  case (connect h h1 c y host port source_host options p h2)
  have "keeps E h1 h2"
    by (rule keeps_result [OF _ connect.hyps(4)])
      (metis us_socket_context_connect_ok [OF _ a connect.hyps(2,3)])
  with connect.IH show ?case by (rule keeps_trans)
next
  case (connect_unix h h1 c y path options p h2)
  have "keeps E h1 h2"
    by (rule keeps_result [OF _ connect_unix.hyps(5)])
      (metis us_socket_context_connect_unix_ok [OF _ a(1) connect_unix.hyps(2,3,4)])
  with connect_unix.IH show ?case by (rule keeps_trans)
next
  case (adopt h h1 c s q h2)
  have "keeps E h1 h2" by (rule adopt_keeps [OF a(1) adopt.hyps(2,3)])
  with adopt.IH show ?case by (rule keeps_trans)
next
  case (create_context h h1 l c h2)
  then obtain z where z: "loops h1 l = Some z" by blast
  have "keeps E h1 h2"
    by (rule keeps_result [OF _ create_context.hyps(3)])
      (metis us_create_socket_context_ok [OF _ a(1) z])
  with create_context.IH show ?case by (rule keeps_trans)
next
  case (set_handler h h1 c k n h2)
  have "keeps E h1 h2" by (rule set_handler_keeps [OF set_handler.hyps(3,2)])
  with set_handler.IH show ?case by (rule keeps_trans)
qed

subsection \<open>The contract\<close>

text \<open>
  What the library promises about the arguments of a handler.  A socket that is handed to a handler
  exists; it is not closed, except in \<open>on_close\<close>; it is established where data flows, and not queued
  where it has been read from.
\<close>

definition live :: "heap \<Rightarrow> ptr \<Rightarrow> bool" where
  "live h s \<longleftrightarrow> (\<exists>so. socks h s = Some so \<and> \<not> us_socket_is_closed so) \<and> listens h s = None"

definition established :: "heap \<Rightarrow> ptr \<Rightarrow> bool" where
  "established h s \<longleftrightarrow> (\<exists>p. polls h s = Some p \<and> us_socket_is_established p)"

definition queued :: "heap \<Rightarrow> ptr \<Rightarrow> bool" where
  "queued h s \<longleftrightarrow> (\<exists>so. socks h s = Some so \<and> low_prio_state so = 1)"

definition event_ok :: "heap \<Rightarrow> cb_event \<Rightarrow> bool" where
  "event_ok h ev \<longleftrightarrow> (case ev of
       OnOpen s _ _ \<Rightarrow> live h s \<and> established h s \<and> \<not> queued h s
     | OnData s _ \<Rightarrow> live h s \<and> established h s \<and> \<not> queued h s
     | OnEnd s \<Rightarrow> live h s \<and> established h s \<and> \<not> queued h s
     | OnWritable s \<Rightarrow> live h s \<and> established h s
     | IsLowPrio s \<Rightarrow> live h s \<and> established h s \<and> \<not> queued h s
     | OnTimeout s \<Rightarrow> live h s
     | OnLongTimeout s \<Rightarrow> live h s
     | OnConnectError s _ \<Rightarrow> live h s
     | OnClose s _ _ \<Rightarrow> (\<exists>so. socks h s = Some so \<and> us_socket_is_closed so)
     | _ \<Rightarrow> True)"

text \<open>
  What the library relies on of the value a handler returns: \<open>on_writable\<close> returns the socket to go
  on with, \<open>is_low_prio\<close> is a question and changes nothing.  The other results are ignored.
\<close>

definition reply_ok :: "cb_event \<Rightarrow> ptr \<Rightarrow> heap \<Rightarrow> heap \<Rightarrow> bool" where
  "reply_ok ev r h h' \<longleftrightarrow> (case ev of
       OnWritable s \<Rightarrow> (\<exists>so. socks h' r = Some so \<and>
         (us_socket_is_closed so \<or> (established h' r \<and> (queued h' r \<longrightarrow> queued h s))))
     | IsLowPrio s \<Rightarrow> only_calls h h'
     | _ \<Rightarrow> True)"

text \<open>Between two waits for events: nothing that is done waits for events itself.\<close>

definition waits :: "syscall \<Rightarrow> bool" where
  "waits c \<longleftrightarrow> (case c of EpollWait _ _ \<Rightarrow> True | KeventWait _ _ \<Rightarrow> True | _ \<Rightarrow> False)"

definition no_waits :: "trace_t \<Rightarrow> bool" where
  "no_waits t \<longleftrightarrow> (\<forall>c. Sys c \<in> set t \<longrightarrow> \<not> waits c)"

definition quiet :: "heap \<Rightarrow> heap \<Rightarrow> bool" where
  "quiet h h' \<longleftrightarrow> (\<exists>t. trace h' = trace h @ t \<and> no_waits t)"

lemma no_waits_simps [simp]:
  "no_waits []" "no_waits (e # t) \<longleftrightarrow> (\<forall>c. e = Sys c \<longrightarrow> \<not> waits c) \<and> no_waits t"
  "no_waits (t @ u) \<longleftrightarrow> no_waits t \<and> no_waits u"
  by (auto simp: no_waits_def)

lemma quiet_refl [simp]: "quiet h h"
  by (simp add: quiet_def)

lemma quiet_trans: "quiet h h1 \<Longrightarrow> quiet h1 h2 \<Longrightarrow> quiet h h2"
  unfolding quiet_def by (metis append.assoc no_waits_simps(3))

lemma quiet_called [simp]: "quiet h (called h f ev)"
  by (simp add: quiet_def called_def)

text \<open>
  The application, as the library needs it: its handlers return, have done what a handler may do, and
  have not waited for events.
\<close>

locale app =
  fixes E :: env
  assumes alloc: "allocator_ok E" and resolver: "resolver_ok E"
    and handler: "inv E h \<Longrightarrow> event_ok h ev \<Longrightarrow>
      \<exists>r h'. callback E n ev h = Some (r, h') \<and> handled E h h' \<and> reply_ok ev r h h' \<and> quiet h h'"

lemma event_ok_called [simp]: "event_ok (called h f ev') ev = event_ok h ev"
  by (simp add: event_ok_def live_def established_def queued_def split: cb_event.split)

lemma reply_ok_called: "reply_ok ev r (called h f ev') h' \<Longrightarrow> reply_ok ev r h h'"
  by (auto simp: reply_ok_def queued_def elim: only_calls_trans [OF only_calls_called] split: cb_event.splits)

context app
begin

lemma call_user_quiet:
  assumes i: "inv_with E h L C" and f: "is_user f" and ev: "event_ok h ev"
  obtains r h' L' C' where "call_fn E f ev h = Some (r, h')" "inv_with E h' L' C'" "evolves h L h' L'"
    "reply_ok ev r h h'" "quiet h h'"
proof -
  obtain n where n: "f = UserFn n" using f by (cases f) (simp_all add: is_user_def)
  have i1: "inv_with E (called h f ev) L C" using i by simp
  then have "inv E (called h f ev)" unfolding inv_def by blast
  from handler [OF this, of ev n] ev obtain r h' where c: "callback E n ev (called h f ev) = Some (r, h')"
    "handled E (called h f ev) h'" "reply_ok ev r (called h f ev) h'" "quiet (called h f ev) h'" by auto
  from handled_keeps [OF c(2) alloc resolver] i1
  obtain L' C' where k: "inv_with E h' L' C'" "evolves (called h f ev) L h' L'" by (rule keepsD)
  show thesis
  proof (rule that [OF _ k(1)])
    show "call_fn E f ev h = Some (r, h')" using c(1) n by (simp add: call_fn_def called_def)
    show "evolves h L h' L'" using k(2) by simp
  qed (rule reply_ok_called [OF c(3)], rule quiet_trans [OF quiet_called c(4)])
qed

lemma call_user:
  assumes i: "inv_with E h L C" and f: "is_user f" and ev: "event_ok h ev"
  obtains r h' L' C' where "call_fn E f ev h = Some (r, h')" "inv_with E h' L' C'" "evolves h L h' L'"
    "reply_ok ev r h h'"
  using call_user_quiet [OF i f ev] that by metis

end

end
