(* ===== verification/Sweep.thy ===== *)
theory Sweep
  imports Handlers
begin

text \<open>
  The timer sweep: it visits every context of the loop and every socket of a context, emits the
  timeouts that are due, and ends, whatever the handlers do to the lists meanwhile.  The argument
  is that the part of the list still to be visited (\<open>rem\<close>), which starts at the context's
  \<open>iterator\<close>, only ever loses sockets.
\<close>

subsection \<open>Finding the next socket that is due\<close>

definition due :: "heap \<Rightarrow> u8 \<Rightarrow> u8 \<Rightarrow> ptr \<Rightarrow> bool" where
  "due h st lt s \<longleftrightarrow> (case socks h s of Some x \<Rightarrow> st = timeout x \<or> lt = long_timeout x | None \<Rightarrow> False)"

lemma sweep_seek_result:
  assumes "sll (s_nx h) s xs" "xs \<noteq> []"
  shows "sweep_seek h st lt s = Some (case List.find (due h st lt) xs of None \<Rightarrow> NULL | Some x \<Rightarrow> x)"
  using assms
proof (induction xs arbitrary: s)
  case (Cons a xs)
  from Cons.prems obtain n where n: "a = s" "s \<noteq> NULL" "s_nx h s = Some n" "sll (s_nx h) n xs" by auto
  then obtain so where so: "socks h s = Some so" "s_next so = n" by (auto simp: views_app)
  show ?case
  proof (cases "due h st lt s")
    case True
    then show ?thesis using n so by (subst sweep_seek.simps) (auto simp: due_def)
  next
    case False
    have step: "sweep_seek h st lt s = (if n = NULL then Some NULL else sweep_seek h st lt n)"
      using False so by (subst sweep_seek.simps) (auto simp: due_def)
    show ?thesis
    proof (cases "n = NULL")
      case True
      with n have "xs = []" by simp
      with True False n(1) step show ?thesis by simp
    next
      case n0: False
      then have "xs \<noteq> []" using n(4) by auto
      with n0 False n step Cons.IH [OF n(4)] show ?thesis by simp
    qed
  qed
qed simp

subsection \<open>The rest of a list\<close>

definition rest_from :: "ptr \<Rightarrow> ptr list \<Rightarrow> ptr list" where
  "rest_from i xs = dropWhile (\<lambda>x. x \<noteq> i) xs"

lemma rem_rest: "ci S c = Some i \<Longrightarrow> rem S L c = rest_from i (L (Open c))"
  by (simp add: rem_def rest_from_def)

lemma rest_from_mem:
  assumes "i \<in> set xs"
  obtains bs where "rest_from i xs = i # bs" "set bs \<subseteq> set xs"
proof -
  have "rest_from i xs \<noteq> []" using assms by (auto simp: rest_from_def dropWhile_eq_Nil_conv)
  then obtain b bs where d: "rest_from i xs = b # bs" by (cases "rest_from i xs") auto
  then have "b = i" using hd_dropWhile [of "\<lambda>x. x \<noteq> i" xs] by (simp add: rest_from_def)
  moreover have "set bs \<subseteq> set xs" using d set_dropWhileD [of _ "\<lambda>x. x \<noteq> i" xs] unfolding rest_from_def by auto
  ultimately show thesis using that d by blast
qed

lemma sll_rest_from: "sll nxt c xs \<Longrightarrow> i \<in> set xs \<Longrightarrow> sll nxt i (rest_from i xs)"
proof (induction xs arbitrary: c)
  case (Cons a xs)
  then show ?case by (cases "a = i") (auto simp: rest_from_def)
qed simp

lemma rest_from_next:
  assumes "sll nxt c xs" "i \<in> set xs" "nxt i = Some n" "rest_from i xs = i # bs"
  shows "sll nxt n bs" "n = NULL \<longleftrightarrow> bs = []" "n \<noteq> NULL \<Longrightarrow> n \<in> set xs \<and> rest_from n xs = bs"
proof -
  show n: "sll nxt n bs" using sll_rest_from [OF assms(1,2)] assms(3,4) by simp
  show "n = NULL \<longleftrightarrow> bs = []" using n by (cases bs) auto
  assume n0: "n \<noteq> NULL"
  then obtain cs where bs: "bs = n # cs" using n by (cases bs) auto
  obtain as where xs: "xs = as @ i # bs" "i \<notin> set as"
  proof -
    have "xs = takeWhile (\<lambda>x. x \<noteq> i) xs @ i # bs"
      using assms(4) takeWhile_dropWhile_id [of "\<lambda>x. x \<noteq> i" xs] by (simp add: rest_from_def)
    moreover have "i \<notin> set (takeWhile (\<lambda>x. x \<noteq> i) xs)" using set_takeWhileD by fastforce
    ultimately show thesis using that by blast
  qed
  have d: "distinct xs" by (rule sll_distinct [OF assms(1)])
  then have "n \<notin> set (as @ [i])" using xs bs by auto
  then have "rest_from n xs = n # cs" unfolding rest_from_def xs(1) bs by (subst dropWhile_append2) auto
  with xs bs show "n \<in> set xs \<and> rest_from n xs = bs" by simp
qed

lemma rest_from_subset: "set (rest_from i xs) \<subseteq> set xs"
  unfolding rest_from_def using set_dropWhileD by fastforce

lemma rest_from_length:
  "distinct xs \<Longrightarrow> x \<in> set (rest_from i xs) \<Longrightarrow> length (rest_from x xs) \<le> length (rest_from i xs)"
proof (induction xs)
  case (Cons a xs)
  consider "a = i" | "a \<noteq> i" "a = x" | "a \<noteq> i" "a \<noteq> x" by blast
  then show ?case
  proof cases
    case 1
    then show ?thesis using length_dropWhile_le [of "\<lambda>y. y \<noteq> x" "a # xs"] by (simp add: rest_from_def)
  next
    case 2
    then have "x \<in> set xs" using Cons.prems(2) rest_from_subset [of i xs] by (auto simp: rest_from_def)
    with 2 Cons.prems(1) show ?thesis by simp
  next
    case 3
    with Cons show ?thesis by (simp add: rest_from_def)
  qed
qed (simp add: rest_from_def)

subsection \<open>Emitting\<close>

text \<open>What stays put over a whole sweep.\<close>

definition swept :: "heap \<Rightarrow> heap \<Rightarrow> bool" where
  "swept h h' \<longleftrightarrow>
     (\<forall>c y. ctxs h c = Some y \<longrightarrow> (\<exists>y'. ctxs h' c = Some y' \<and> c_next y' = c_next y \<and> c_loop y' = c_loop y)) \<and>
     (\<forall>l z. loops h l = Some z \<longrightarrow> (\<exists>z'. loops h' l = Some z' \<and> loop_evolves z z'))"

lemma swept_refl [simp]: "swept h h" by (simp add: swept_def)

lemma swept_trans:
  assumes "swept h h1" "swept h1 h2"
  shows "swept h h2"
  unfolding swept_def
proof (intro conjI allI impI)
  fix c y assume "ctxs h c = Some y"
  with assms(1) obtain y1 where y1: "ctxs h1 c = Some y1" "c_next y1 = c_next y" "c_loop y1 = c_loop y"
    unfolding swept_def by blast
  with assms(2) show "\<exists>y'. ctxs h2 c = Some y' \<and> c_next y' = c_next y \<and> c_loop y' = c_loop y"
    unfolding swept_def by metis
next
  fix l z assume "loops h l = Some z"
  with assms(1) obtain z1 where z1: "loops h1 l = Some z1" "loop_evolves z z1" unfolding swept_def by blast
  with assms(2) obtain z2 where "loops h2 l = Some z2" "loop_evolves z1 z2" unfolding swept_def by blast
  with z1 loop_evolves_trans show "\<exists>z'. loops h2 l = Some z' \<and> loop_evolves z z'" by blast
qed

lemma swept_evolves:
  assumes "evolves_ex X h L h' L'"
  shows "swept h h'"
  unfolding swept_def
proof (intro conjI allI impI)
  fix c y assume "ctxs h c = Some y"
  from evolvesD(1) [OF assms this] show "\<exists>y'. ctxs h' c = Some y' \<and> c_next y' = c_next y \<and> c_loop y' = c_loop y"
    by (auto simp: ctx_evolves_def)
next
  fix l z assume "loops h l = Some z"
  from evolvesD(3) [OF assms this] show "\<exists>z'. loops h' l = Some z' \<and> loop_evolves z z'" .
qed

lemma swept_ctx:
  "ctxs h c = Some y \<Longrightarrow> c_next y' = c_next y \<Longrightarrow> c_loop y' = c_loop y \<Longrightarrow> swept h (h\<lparr>ctxs := (ctxs h)(c \<mapsto> y')\<rparr>)"
  by (auto simp: swept_def)

text \<open>What stays put over everything that is dispatched.\<close>

definition loop_keeps :: "us_loop_t \<Rightarrow> us_loop_t \<Rightarrow> bool" where
  "loop_keeps z z' \<longleftrightarrow> current_ready_poll z' = current_ready_poll z \<and> num_ready_polls z' = num_ready_polls z \<and>
     pre_cb z' = pre_cb z \<and> post_cb z' = post_cb z \<and> sweep_timer z' = sweep_timer z \<and> wakeup_async z' = wakeup_async z"

definition runs :: "heap \<Rightarrow> heap \<Rightarrow> bool" where
  "runs h h' \<longleftrightarrow> dom (ctxs h) \<subseteq> dom (ctxs h') \<and>
     (\<forall>l z. loops h l = Some z \<longrightarrow> (\<exists>z'. loops h' l = Some z' \<and> loop_keeps z z'))"

lemma runs_refl [simp]: "runs h h" by (simp add: runs_def loop_keeps_def)

lemma runs_trans:
  assumes "runs h h1" "runs h1 h2"
  shows "runs h h2"
  unfolding runs_def
proof (intro conjI allI impI)
  show "dom (ctxs h) \<subseteq> dom (ctxs h2)" using assms unfolding runs_def by blast
  fix l z assume "loops h l = Some z"
  with assms(1) obtain z1 where z1: "loops h1 l = Some z1" "loop_keeps z z1" unfolding runs_def by blast
  with assms(2) obtain z2 where z2: "loops h2 l = Some z2" "loop_keeps z1 z2" unfolding runs_def by blast
  with z1 show "\<exists>z'. loops h2 l = Some z' \<and> loop_keeps z z'" by (simp add: loop_keeps_def)
qed

lemma swept_runs: 
  assumes "swept h h'"
  shows "runs h h'"
  unfolding runs_def
proof (intro conjI allI impI)
  show "dom (ctxs h) \<subseteq> dom (ctxs h')" using assms unfolding swept_def by blast
  fix l z assume "loops h l = Some z"
  with assms obtain z' where z': "loops h' l = Some z'" "loop_evolves z z'" unfolding swept_def by blast
  then show "\<exists>z'. loops h' l = Some z' \<and> loop_keeps z z'" by (simp add: loop_keeps_def loop_evolves_def)
qed

lemma open_socket_facts:
  assumes i: "inv_with E h L C" and s: "s \<in> set (L (Open c))"
  obtains so y z where "socks h s = Some so" "ctxs h c = Some y" "handlers_set y" "live h s" "s_context so = c"
    "s \<noteq> NULL" "loops h (c_loop y) = Some z"
proof -
  have w: "wfd {} h L C" by (rule invD(1) [OF i])
  obtain so y z where so: "socks h s = Some so" "s_context so = c" "ctxs h c = Some y" "loops h (c_loop y) = Some z"
    using wfd_open [OF w s] .
  have "has_handlers h c" using invD(4) [OF i] s so(1,2) unfolding handI_def by force
  then have hs: "handlers_set y" using so(3) by (simp add: has_handlers_def)
  have "\<not> us_socket_is_closed so" using wfd_closed_iff [OF w s so(1)] by (simp add: us_socket_is_closed_def)
  moreover have "listens h s = None" using ok_listed(4) [OF w s] by (auto simp: placed_def)
  ultimately have "live h s" using so(1) by (simp add: live_def)
  moreover have "s \<noteq> NULL" by (rule wfd_sock(1) [OF w so(1)])
  ultimately show thesis using that so hs by blast
qed

context app
begin

text \<open>One timeout of a socket: its field is reset, then its handler runs.\<close>

lemma emit_timeout_ok:
  assumes i: "inv_with E h L C" and s: "s \<in> set (L (Open c))" "socks h s = Some so"
    and so': "s_prev so' = s_prev so" "s_next so' = s_next so" "s_context so' = s_context so"
      "low_prio_state so' = low_prio_state so"
    and f: "is_user f" and ev: "ev = OnTimeout s \<or> ev = OnLongTimeout s"
  obtains r h' L' C' where "call_fn E f ev (h\<lparr>socks := (socks h)(s \<mapsto> so')\<rparr>) = Some (r, h')"
    "inv_with E h' L' C'" "evolves h L h' L'"
proof -
  let ?h = "h\<lparr>socks := (socks h)(s \<mapsto> so')\<rparr>"
  have i1: "inv_with E ?h L C" by (rule invd_sock [OF i s(2) so'])
  have e1: "evolves h L ?h L" by (rule evolves_sock [OF s(2) so'])
  have "live ?h s" by (rule open_socket_facts [OF i1 s(1)])
  with ev have "event_ok ?h ev" by (auto simp: event_ok_def)
  from call_user [OF i1 f this] evolves_trans [OF e1] that show thesis by metis
qed

lemma sweep_emit_ok:
  assumes i: "inv_with E h L C" and s: "s \<in> set (L (Open c))"
  obtains h' L' C' where "sweep_emit E h c st lt s = Some h'" "inv_with E h' L' C'" "swept h h'"
    "subseq (rem (shape h') L' c) (rest_from s (L (Open c)))"
proof -
  obtain so y where so: "socks h s = Some so" "ctxs h c = Some y" "handlers_set y" "s \<noteq> NULL"
    using open_socket_facts [OF i s] .
  let ?h1 = "h\<lparr>ctxs := (ctxs h)(c \<mapsto> y\<lparr>c_iterator := s\<rparr>)\<rparr>"
  have i1: "inv_with E ?h1 L C" by (rule invd_ctx [OF i so(2)]) (use s in \<open>simp_all add: handlers_set_def\<close>)
  have r1: "rem (shape ?h1) L c = rest_from s (L (Open c))" by (rule rem_rest) (simp add: views)
  have sw1: "swept h ?h1" by (rule swept_ctx [OF so(2)]) simp_all
  let ?st1 = "if st = timeout so then do {
      h \<leftarrow> set_sock ?h1 s (\<lambda>x. x\<lparr>timeout := 255\<rparr>);
      y \<leftarrow> ctxs h c;
      r \<leftarrow> call_fn E (on_socket_timeout y) (OnTimeout s) h;
      Some (snd r) } else Some ?h1"
  obtain h2 L2 C2 where h2: "?st1 = Some h2" "inv_with E h2 L2 C2" "evolves ?h1 L h2 L2"
  proof (cases "st = timeout so")
    case False
    then show thesis using that [of ?h1 L C] i1 by simp
  next
    case True
    have f: "is_user (on_socket_timeout y)" using so(3) by (simp add: handlers_set_def)
    have s1: "socks ?h1 s = Some so" using so by simp
    obtain r h' L' C' where c: "call_fn E (on_socket_timeout y) (OnTimeout s)
        (?h1\<lparr>socks := (socks ?h1)(s \<mapsto> so\<lparr>timeout := 255\<rparr>)\<rparr>) = Some (r, h')"
      "inv_with E h' L' C'" "evolves ?h1 L h' L'"
      by (rule emit_timeout_ok [OF i1 s s1 _ _ _ _ f, where so' = "so\<lparr>timeout := 255\<rparr>" and ev = "OnTimeout s"]) simp_all
    then show thesis using that [of h' L' C'] True so by (simp add: set_sock_def)
  qed
  obtain y2 where y2: "ctxs h2 c = Some y2" "ctx_evolves (y\<lparr>c_iterator := s\<rparr>) y2"
    using evolvesD(1) [OF h2(3), of c] by auto
  have hs2: "handlers_set y2" using y2(2) so(3) by (simp add: ctx_evolves_def handlers_set_def)
  have u: "sweep_emit E h c st lt s = (if c_iterator y2 = s then do {
       x \<leftarrow> socks h2 s;
       if lt = long_timeout x then do {
         h \<leftarrow> set_sock h2 s (\<lambda>x. x\<lparr>long_timeout := 255\<rparr>);
         y \<leftarrow> ctxs h c;
         r \<leftarrow> call_fn E (on_socket_long_timeout y) (OnLongTimeout s) h;
         Some (snd r) }
       else Some h2 }
     else Some h2)"
    unfolding sweep_emit_def set_ctx_def so(2) using so(1) h2(1) y2(1) by (simp split del: if_split)
  have sub: "subseq (rem (shape h2) L2 c) (rest_from s (L (Open c)))" using evolvesD(2) [OF h2(3), of c] r1 by simp
  have sw2: "swept h h2" by (rule swept_trans [OF sw1 swept_evolves [OF h2(3)]])
  show thesis
  proof (cases "c_iterator y2 = s")
    case False
    with u have "sweep_emit E h c st lt s = Some h2" by simp
    then show thesis by (rule that [OF _ h2(2) sw2 sub])
  next
    case True
    have s2: "s \<in> set (L2 (Open c))" using wfd_ctx [OF invD(1) [OF h2(2)] y2(1)] True so(4) by metis
    obtain so2 where so2: "socks h2 s = Some so2" using open_socket_facts [OF h2(2) s2] .
    show thesis
    proof (cases "lt = long_timeout so2")
      case False
      with u True so2 have "sweep_emit E h c st lt s = Some h2" by simp
      then show thesis by (rule that [OF _ h2(2) sw2 sub])
    next
      case l: True
      have f: "is_user (on_socket_long_timeout y2)" using hs2 by (simp add: handlers_set_def)
      obtain r h' L' C' where c: "call_fn E (on_socket_long_timeout y2) (OnLongTimeout s)
          (h2\<lparr>socks := (socks h2)(s \<mapsto> so2\<lparr>long_timeout := 255\<rparr>)\<rparr>) = Some (r, h')"
        "inv_with E h' L' C'" "evolves h2 L2 h' L'"
        by (rule emit_timeout_ok [OF h2(2) s2 so2 _ _ _ _ f, where so' = "so2\<lparr>long_timeout := 255\<rparr>" and
              ev = "OnLongTimeout s"]) simp_all
      have "sweep_emit E h c st lt s = Some h'" using u True so2 l y2(1) c(1) by (simp add: set_sock_def)
      moreover have "subseq (rem (shape h') L' c) (rest_from s (L (Open c)))"
        using subseq_order.trans [OF evolvesD(2) [OF c(3)] sub] .
      ultimately show thesis by (rule that [OF _ c(2) swept_trans [OF sw2 swept_evolves [OF c(3)]]])
    qed
  qed
qed

subsection \<open>The loops of the sweep\<close>

lemma sweep_seek_open:
  assumes i: "inv_with E h L C" and s: "s \<in> set (L (Open c))"
  obtains "sweep_seek h st lt s = Some NULL"
    | x where "sweep_seek h st lt s = Some x" "x \<noteq> NULL" "x \<in> set (rest_from s (L (Open c)))" "x \<in> set (L (Open c))"
proof -
  have w: "wfd {} h L C" by (rule invD(1) [OF i])
  obtain y where y: "ctxs h c = Some y" using open_socket_facts [OF i s] .
  have sl: "sll (s_nx h) (head_sockets y) (L (Open c))" by (rule dll_sll [OF wfd_open_dll [OF w y]])
  have r: "sll (s_nx h) s (rest_from s (L (Open c)))" by (rule sll_rest_from [OF sl s])
  obtain bs where bs: "rest_from s (L (Open c)) = s # bs" using rest_from_mem [OF s] .
  have k: "sweep_seek h st lt s = Some (case List.find (due h st lt) (rest_from s (L (Open c))) of
      None \<Rightarrow> NULL | Some x \<Rightarrow> x)"
    by (rule sweep_seek_result [OF r]) (simp add: bs)
  show thesis
  proof (cases "List.find (due h st lt) (rest_from s (L (Open c)))")
    case None
    with k that(1) show thesis by simp
  next
    case (Some x)
    then have x: "x \<in> set (rest_from s (L (Open c)))" by (auto simp: find_Some_iff)
    then have "x \<in> set (L (Open c))" using rest_from_subset by blast
    moreover from this have "x \<noteq> NULL" by (rule ok_listed(2) [OF w])
    ultimately show thesis using k Some x that(2) by simp
  qed
qed

lemma sweep_sockets_ok:
  assumes "inv_with E h L C" "c \<in> dom (ctxs h)" "s = NULL \<or> s \<in> set (L (Open c))"
  shows "\<exists>h' L' C'. sweep_sockets E h c st lt s = Some h' \<and> inv_with E h' L' C' \<and> swept h h'"
  using assms
proof (induction "length (rest_from s (L (Open c)))" arbitrary: h L C s rule: less_induct)
  case less
  note i = less.prems(1)
  show ?case
  proof (cases "s = NULL")
    case True
    then have "sweep_sockets E h c st lt s = Some h" by (subst sweep_sockets.simps) simp
    with i show ?thesis by auto
  next
    case s0: False
    then have s: "s \<in> set (L (Open c))" using less.prems(3) by simp
    show ?thesis
    proof (rule sweep_seek_open [OF i s])
      assume "sweep_seek h st lt s = Some NULL"
      then have "sweep_sockets E h c st lt s = Some h" using s0 by (subst sweep_sockets.simps) simp
      with i show ?thesis by auto
    next
      fix x assume x: "sweep_seek h st lt s = Some x" "x \<noteq> NULL" "x \<in> set (rest_from s (L (Open c)))" "x \<in> set (L (Open c))"
      obtain h1 L1 C1 where e: "sweep_emit E h c st lt x = Some h1" "inv_with E h1 L1 C1" "swept h h1"
        "subseq (rem (shape h1) L1 c) (rest_from x (L (Open c)))"
        using sweep_emit_ok [OF i x(4)] .
      have w1: "wfd {} h1 L1 C1" by (rule invD(1) [OF e(2)])
      obtain y0 where y0: "ctxs h c = Some y0" using less.prems(2) by blast
      with e(3) obtain y1 where y1: "ctxs h1 c = Some y1" unfolding swept_def by blast
      have d1: "c \<in> dom (ctxs h1)" using y1 by auto
      obtain bs where bs: "rest_from x (L (Open c)) = x # bs" using rest_from_mem [OF x(4)] .
      have le: "length (x # bs) \<le> length (rest_from s (L (Open c)))"
        using rest_from_length [OF ok_distinct [OF invD(1) [OF i]] x(3)] bs by simp
      have it: "c_iterator y1 = NULL \<or> c_iterator y1 \<in> set (L1 (Open c))" using wfd_ctx [OF w1 y1] by metis
      have rm: "rem (shape h1) L1 c = rest_from (c_iterator y1) (L1 (Open c))" by (rule rem_rest) (simp add: y1 views)
      obtain nxt where nxt: "sweep_sockets E h c st lt s = sweep_sockets E h1 c st lt nxt"
        "nxt = NULL \<or> nxt \<in> set (L1 (Open c)) \<and> length (rest_from nxt (L1 (Open c))) < length (x # bs)"
      proof (cases "x = c_iterator y1")
        case True
        then have x1: "x \<in> set (L1 (Open c))" using it x(2) by simp
        obtain so where so: "socks h1 x = Some so" using open_socket_facts [OF e(2) x1] .
        obtain cs where cs: "rest_from x (L1 (Open c)) = x # cs" using rest_from_mem [OF x1] .
        have sl: "sll (s_nx h1) (head_sockets y1) (L1 (Open c))" by (rule dll_sll [OF wfd_open_dll [OF w1 y1]])
        have n: "s_nx h1 x = Some (s_next so)" using so by (simp add: views)
        have "length (x # cs) \<le> length (x # bs)" using e(4) rm cs bs True list_emb_length by metis
        moreover have "s_next so \<noteq> NULL \<Longrightarrow> s_next so \<in> set (L1 (Open c)) \<and> rest_from (s_next so) (L1 (Open c)) = cs"
          by (rule rest_from_next(3) [OF sl x1 n cs])
        moreover have "sweep_sockets E h c st lt s = sweep_sockets E h1 c st lt (s_next so)"
          using s0 x(1,2) e(1) y1 so True by (subst sweep_sockets.simps) simp
        ultimately show thesis using that [of "s_next so"] by (cases "s_next so = NULL") auto
      next
        case False
        have "sweep_sockets E h c st lt s = sweep_sockets E h1 c st lt (c_iterator y1)"
          using s0 x(1,2) e(1) y1 False by (subst sweep_sockets.simps) simp
        moreover have "length (rest_from (c_iterator y1) (L1 (Open c))) < length (x # bs)" if m: "c_iterator y1 \<in> set (L1 (Open c))"
        proof -
          obtain cs where cs: "rest_from (c_iterator y1) (L1 (Open c)) = c_iterator y1 # cs" using rest_from_mem [OF m] .
          have "subseq (c_iterator y1 # cs) (x # bs)" using e(4) rm cs bs by simp
          then have "subseq (c_iterator y1 # cs) bs" by (rule subseq_not_hd) (use False in simp)
          then show ?thesis using cs list_emb_length by fastforce
        qed
        ultimately show thesis using that [of "c_iterator y1"] it by blast
      qed
      have "nxt = NULL \<or> nxt \<in> set (L1 (Open c))" using nxt(2) by blast
      have "\<exists>h' L' C'. sweep_sockets E h1 c st lt nxt = Some h' \<and> inv_with E h' L' C' \<and> swept h1 h'"
      proof (cases "nxt = NULL")
        case True
        then have "sweep_sockets E h1 c st lt nxt = Some h1" by (subst sweep_sockets.simps) simp
        with e(2) show ?thesis by auto
      next
        case False
        show ?thesis
        proof (rule less.hyps [OF _ e(2) d1])
          show "length (rest_from nxt (L1 (Open c))) < length (rest_from s (L (Open c)))"
            using nxt(2) False le by simp
          show "nxt = NULL \<or> nxt \<in> set (L1 (Open c))" by fact
        qed
      qed
      then show ?thesis using nxt(1) swept_trans [OF e(3)] by metis
    qed
  qed
qed

lemma sweep_context_ok:
  assumes i: "inv_with E h L C" and y: "ctxs h c = Some y"
  obtains h' L' C' where "sweep_context E h c = Some h'" "inv_with E h' L' C'" "swept h h'"
proof -
  let ?y = "sweep_tick y"
  have f: "c_loop ?y = c_loop y" "head_sockets ?y = head_sockets y" "head_listen_sockets ?y = head_listen_sockets y"
    "c_prev ?y = c_prev y" "c_next ?y = c_next y" "c_iterator ?y = c_iterator y" "handlers_set ?y = handlers_set y"
    by (simp_all add: sweep_tick_def Let_def handlers_set_def)
  let ?h1 = "h\<lparr>ctxs := (ctxs h)(c \<mapsto> ?y)\<rparr>"
  have i1: "inv_with E ?h1 L C" by (rule invd_ctx [OF i y f(1-5)]) (simp_all add: f)
  have sw1: "swept h ?h1" by (rule swept_ctx [OF y f(5,1)])
  have y1: "ctxs ?h1 c = Some ?y" by simp
  have d: "c \<in> dom (ctxs ?h1)" by simp
  have hd: "head_sockets ?y = NULL \<or> head_sockets ?y \<in> set (L (Open c))"
    using dll_hd [OF wfd_open_dll [OF invD(1) [OF i1] y1]] by (cases "L (Open c)") simp_all
  obtain h2 L2 C2 where s: "sweep_sockets E ?h1 c (timestamp ?y) (long_timestamp ?y) (head_sockets ?y) = Some h2"
    "inv_with E h2 L2 C2" "swept ?h1 h2"
    using sweep_sockets_ok [OF i1 d hd] by blast
  obtain y2 where y2: "ctxs h2 c = Some y2" using s(3) y1 unfolding swept_def by blast
  let ?h3 = "h2\<lparr>ctxs := (ctxs h2)(c \<mapsto> y2\<lparr>c_iterator := NULL\<rparr>)\<rparr>"
  have "sweep_context E h c = Some ?h3"
    using y s(1) y2 by (simp add: sweep_context_def set_ctx_def)
  moreover have "inv_with E ?h3 L2 C2" by (rule invd_ctx [OF s(2) y2]) (simp_all add: handlers_set_def)
  moreover have "swept h2 ?h3" by (rule swept_ctx [OF y2]) simp_all
  then have "swept h ?h3" by (rule swept_trans [OF swept_trans [OF sw1 s(3)]])
  ultimately show thesis by (rule that)
qed

lemma sweep_contexts_ok:
  assumes "inv_with E h L C" "loops h l = Some z" "sll (c_nx h) (l_iterator z) cs"
  shows "\<exists>h' L' C'. sweep_contexts E h l = Some h' \<and> inv_with E h' L' C' \<and> runs h h'"
  using assms
proof (induction cs arbitrary: h L C z)
  case Nil
  then have "sweep_contexts E h l = Some h" by (subst sweep_contexts.simps) simp
  with Nil(1) show ?case by auto
next
  case (Cons a cs)
  note i = Cons.prems(1)
  obtain n where n: "l_iterator z = a" "a \<noteq> NULL" "c_nx h a = Some n" "sll (c_nx h) n cs" using Cons.prems(3) by auto
  obtain y where y: "ctxs h a = Some y" "c_next y = n" using n(3) by (auto simp: views_app)
  obtain h1 L1 C1 where s: "sweep_context E h a = Some h1" "inv_with E h1 L1 C1" "swept h h1"
    using sweep_context_ok [OF i y(1)] .
  have w1: "wfd {} h1 L1 C1" by (rule invD(1) [OF s(2)])
  obtain z1 where z1: "loops h1 l = Some z1" "loop_evolves z z1" using s(3) Cons.prems(2) unfolding swept_def by blast
  then have it: "l_iterator z1 = a" using n(1) by (simp add: loop_evolves_def)
  obtain y1 where y1: "ctxs h1 a = Some y1" "c_next y1 = n" using s(3) y unfolding swept_def by metis
  have keep: "c_nx h1 x = c_nx h x" if "x \<in> dom (c_nx h)" for x
  proof -
    from that obtain v where "ctxs h x = Some v" by (auto simp: views_all_app)
    moreover from this obtain v' where "ctxs h1 x = Some v'" "c_next v' = c_next v" using s(3) unfolding swept_def by metis
    ultimately show ?thesis by (simp add: views_app)
  qed
  have "x \<in> set cs \<Longrightarrow> c_nx h1 x = c_nx h x" for x using sll_mem [OF n(4)] keep by blast
  then have sl: "sll (c_nx h1) n cs" using sll_cong [of cs "c_nx h1" "c_nx h"] n(4) by simp
  have aC: "a \<in> set (C1 l)"
    using ok_li [OF w1, of l a] z1(1) it n(2) by (simp add: views)
  have nC: "n = NULL \<or> n \<in> set (C1 l)"
    using sll_next_mem [OF dll_sll [OF wfd_ctxs_dll [OF w1 z1(1)]] aC] y1 by (simp add: views_app)
  let ?z = "z1\<lparr>l_iterator := n\<rparr>"
  let ?h2 = "h1\<lparr>loops := (loops h1)(l \<mapsto> ?z)\<rparr>"
  note rd = readyD [OF invD(6) [OF s(2)] z1(1)]
  have pc: "pending ?z = pending z1" "ready_list_ok (be E) ?z = ready_list_ok (be E) z1"
    by (rule pending_cong ready_list_ok_cong; simp)+
  have i2: "inv_with E ?h2 L1 C1"
    by (rule invd_loop [OF s(2) z1(1)]) (use nC rd pc in simp_all)
  have u: "sweep_contexts E h l = sweep_contexts E ?h2 l"
    using Cons.prems(2) n(1,2) s(1) z1(1) it y1 by (subst sweep_contexts.simps) (simp add: set_loop_def)
  have "loops ?h2 l = Some ?z" "sll (c_nx ?h2) (l_iterator ?z) cs" using sl by simp_all
  from Cons.IH [OF i2 this] obtain h' L' C' where r: "sweep_contexts E ?h2 l = Some h'" "inv_with E h' L' C'" "runs ?h2 h'"
    by blast
  have "runs h1 ?h2" using z1(1) by (auto simp: runs_def loop_keeps_def)
  then have "runs h h'" using runs_trans [OF runs_trans [OF swept_runs [OF s(3)]] r(3)] by blast
  with u r show ?case by auto
qed

text \<open>The sweep of a loop ends and keeps the invariant.\<close>

lemma us_internal_timer_sweep_ok:
  assumes i: "inv_with E h L C" and z: "loops h l = Some z"
  obtains h' L' C' where "us_internal_timer_sweep E h l = Some h'" "inv_with E h' L' C'" "runs h h'"
proof -
  let ?z = "z\<lparr>l_iterator := l_head z\<rparr>"
  let ?h1 = "h\<lparr>loops := (loops h)(l \<mapsto> ?z)\<rparr>"
  have w: "wfd {} h L C" by (rule invD(1) [OF i])
  have sl: "sll (c_nx h) (l_head z) (C l)" by (rule dll_sll [OF wfd_ctxs_dll [OF w z]])
  then have hd: "l_head z = NULL \<or> l_head z \<in> set (C l)" by (cases "C l") auto
  note rd = readyD [OF invD(6) [OF i] z]
  have pc: "pending ?z = pending z" "ready_list_ok (be E) ?z = ready_list_ok (be E) z"
    by (rule pending_cong ready_list_ok_cong; simp)+
  have i1: "inv_with E ?h1 L C" by (rule invd_loop [OF i z]) (use hd rd pc in simp_all)
  have "loops ?h1 l = Some ?z" "sll (c_nx ?h1) (l_iterator ?z) (C l)" using sl by simp_all
  from sweep_contexts_ok [OF i1 this] obtain h' L' C' where r: "sweep_contexts E ?h1 l = Some h'"
    "inv_with E h' L' C'" "runs ?h1 h'" by blast
  have "runs h ?h1" using z by (auto simp: runs_def loop_keeps_def)
  from runs_trans [OF this r(3)] r(1,2) z that show thesis by (simp add: us_internal_timer_sweep_def set_loop_def)
qed

end

end
