(* ===== verification/Queue.thy ===== *)
theory Queue
  imports Sweep
begin

text \<open>
  The low-priority queue and the close list of a loop: pushing a socket on the queue, taking the
  sockets of the queue back into their contexts at the start of an iteration, and freeing the
  closed sockets at its end.
\<close>

subsection \<open>Changing the priority state of an open socket\<close>

lemma invd_state:
  assumes i: "invd D E h L C" and s: "socks h s = Some x" "\<And>k. s \<in> set (L k) \<Longrightarrow> \<exists>c. k = Open c"
    and v: "v \<noteq> 1"
  shows "invd D E (h\<lparr>socks := (socks h)(s \<mapsto> x\<lparr>low_prio_state := v\<rparr>)\<rparr>) L C"
    (is "invd D E ?g L C")
proof (rule invI)
  have w: "wfd D h L C" by (rule invD(1) [OF i])
  have sh: "shape ?g = (shape h)\<lparr>lp := (lp (shape h))(s \<mapsto> v)\<rparr>"
    using s(1) by (simp add: shape_def views_all_upd views_all_app fun_upd_idem)
  have pl: "placed (shape ?g) k y" if "y \<in> set (L k)" "placed (shape h) k y" for k y
  proof (cases "y = s")
    case True
    with s(2) that obtain c where "k = Open c" by blast
    with that True v show ?thesis unfolding sh by (simp add: placed_def)
  next
    case False
    with that show ?thesis unfolding sh by (cases k) (simp_all add: placed_def)
  qed
  show "wfd D ?g L C"
  proof (rule okI)
    show "chains doubly (nx (shape ?g)) (pv (shape ?g)) (hds (shape ?g)) L" using okD(1) [OF w] unfolding sh by simp
    show "chains (\<lambda>_. True) (cnx (shape ?g)) (cpv (shape ?g)) (chd (shape ?g)) C" using okD(2) [OF w] unfolding sh by simp
    show "layout_ok (shape ?g)" using okD(4) [OF w] unfolding sh layout_ok_def by simp
    show "owners_ok (shape ?g) L C" using okD(5) [OF w] unfolding sh owners_ok_def by simp
    show "placed_ok D (shape ?g) L"
      unfolding placed_ok_def
    proof (intro conjI ballI)
      show "D \<subseteq> dom (nx (shape ?g))" using okD(3) [OF w] unfolding sh placed_ok_def by simp
      show "unlisted L y" if "y \<in> D" for y using that okD(3) [OF w] unfolding placed_ok_def by blast
      fix y assume "y \<in> dom (nx (shape ?g)) - D"
      then have y: "y \<in> dom (nx (shape h))" "y \<notin> D" unfolding sh by simp_all
      obtain k where "y \<in> set (L k)" "placed (shape h) k y" using ok_place [OF w y] .
      with pl show "\<exists>k. y \<in> set (L k) \<and> placed (shape ?g) k y" by blast
    qed
  qed
  have "dom ((socks h)(s \<mapsto> x\<lparr>low_prio_state := v\<rparr>)) = dom (socks h)" using s(1) by auto
  then show "finite (allocated ?g)" using invD(2) [OF i] by (simp add: finite_allocated)
  show "pollsI (be E) ?g L" using invD(3) [OF i] by (simp add: pollsI_def)
  show "handI ?g L"
    unfolding handI_def
  proof (intro allI impI)
    fix k y so assume y: "y \<in> set (L k)" "doubly k" "socks ?g y = Some so"
    obtain so0 where "socks h y = Some so0" "s_context so = s_context so0" using y(3) s(1) by (auto split: if_splits)
    with y invD(4) [OF i] show "has_handlers ?g (s_context so)" unfolding handI_def by (simp add: has_handlers_def)
  qed
  show "cbsI ?g" using invD(5) [OF i] by (simp add: cbsI_def cb_ok_def)
  show "readyI (be E) ?g L"
    by (rule readyI_cong [OF invD(6) [OF i]]) (simp_all add: entry_ok_shape sh)
qed

lemma evolves_state:
  "evolves_ex X h L (h\<lparr>socks := (socks h)(s \<mapsto> x\<lparr>low_prio_state := v\<rparr>)\<rparr>) L"
    (is "evolves_ex X h L ?g L")
  unfolding evolves_ex_def
proof (intro conjI allI impI)
  have "rem (shape ?g) L c = rem (shape h) L c" for c by (rule rem_cong) simp_all
  then show "subseq (rem (shape ?g) L c) (rem (shape h) L c)" for c by simp
qed (auto simp: connecting_in_def)

subsection \<open>Pushing on the queue\<close>

text \<open>The part of \<open>low_prio_push\<close> after the socket has left its context.\<close>

definition queue_push :: "heap \<Rightarrow> ptr \<Rightarrow> ptr \<Rightarrow> heap option" where
  "queue_push h l s = do {
     h \<leftarrow> set_sock h s (\<lambda>x. x\<lparr>s_prev := NULL\<rparr>);
     lp \<leftarrow> loops h l;
     h \<leftarrow> set_sock h s (\<lambda>x. x\<lparr>s_next := low_prio_head lp\<rparr>);
     h \<leftarrow> (if low_prio_head lp \<noteq> NULL
           then set_sock h (low_prio_head lp) (\<lambda>w. w\<lparr>s_prev := s\<rparr>) else Some h);
     h \<leftarrow> set_loop h l (\<lambda>z. z\<lparr>low_prio_head := s\<rparr>);
     set_sock h s (\<lambda>x. x\<lparr>low_prio_state := 1\<rparr>) }"

lemma queue_push_result:
  assumes x: "socks h s = Some x" and z: "loops h l = Some z" "low_prio_head z = d"
    and d: "d = NULL \<or> d \<in> dom (socks h)" "d \<noteq> s"
  shows "\<exists>m. queue_push h l s = Some (h\<lparr>socks := m, loops := (loops h)(l \<mapsto> z\<lparr>low_prio_head := s\<rparr>)\<rparr>) \<and>
    relinked ((socks h)(s \<mapsto> x\<lparr>low_prio_state := 1\<rparr>)) m \<and>
    nx_of m = (s_nx h)(s \<mapsto> d) \<and> pv_of m = push_pv (s_pv h) d s"
proof -
  let ?x = "x\<lparr>s_prev := NULL, s_next := d, low_prio_state := 1\<rparr>"
  have r: "relinked ((socks h)(s \<mapsto> x\<lparr>low_prio_state := 1\<rparr>)) ((socks h)(s \<mapsto> ?x))"
    by (auto simp: relinked_def option.rel_refl)
  show ?thesis
  proof (cases "d = NULL")
    case True
    then show ?thesis
      using x z d r by (intro exI [of _ "(socks h)(s \<mapsto> ?x)"]) (simp add: queue_push_def set_defs push_pv_def views)
  next
    case False
    with d obtain w where w: "socks h d = Some w" by auto
    have "relinked ((socks h)(s \<mapsto> x\<lparr>low_prio_state := 1\<rparr>)) ((socks h)(s \<mapsto> ?x, d \<mapsto> w\<lparr>s_prev := s\<rparr>))"
      using w d by (intro relinked_trans [OF r] relinked_upd(2)) auto
    then show ?thesis
      using x z d w False
      by (intro exI [of _ "(socks h)(s \<mapsto> ?x, d \<mapsto> w\<lparr>s_prev := s\<rparr>)"])
        (simp add: queue_push_def set_defs push_pv_def views fun_upd_twist fun_upd_idem)
  qed
qed

lemma queue_push_invd:
  assumes i: "invd D E h L C" and s: "s \<in> D" "socks h s = Some so" and z: "loops h l = Some z"
    and y: "ctxs h (s_context so) = Some y" "handlers_set y" "c_loop y = l" and ls: "listens h s = None"
    and po: "\<And>p. polls h s = Some p \<Longrightarrow> poll_ok (be E) (LowPrio l) p"
  obtains h' where "queue_push h l s = Some h'"
    "invd (D - {s}) E h' (L(LowPrio l := s # L (LowPrio l))) C"
    "evolves_ex {s} h L h' (L(LowPrio l := s # L (LowPrio l)))"
    "\<exists>m. h' = h\<lparr>socks := m, loops := (loops h)(l \<mapsto> z\<lparr>low_prio_head := s\<rparr>)\<rparr> \<and>
      relinked ((socks h)(s \<mapsto> so\<lparr>low_prio_state := 1\<rparr>)) m"
proof -
  have w: "wfd D h L C" by (rule invD(1) [OF i])
  have hd: "hds (shape h) (LowPrio l) = Some (low_prio_head z)" using z by (simp add: views)
  note d = ok_head_not [OF w s(1) hd]
  have d1: "low_prio_head z = NULL \<or> low_prio_head z \<in> dom (socks h)" using d(1) by (simp add: views_all_dom)
  obtain m where r: "queue_push h l s = Some (h\<lparr>socks := m, loops := (loops h)(l \<mapsto> z\<lparr>low_prio_head := s\<rparr>)\<rparr>)"
    and rel: "relinked ((socks h)(s \<mapsto> so\<lparr>low_prio_state := 1\<rparr>)) m"
    and vm: "nx_of m = (s_nx h)(s \<mapsto> low_prio_head z)" "pv_of m = push_pv (s_pv h) (low_prio_head z) s"
    using queue_push_result [OF s(2) z refl d1 d(2)] by blast
  let ?z = "z\<lparr>low_prio_head := s\<rparr>"
  let ?g = "h\<lparr>socks := m, loops := (loops h)(l \<mapsto> ?z)\<rparr>"
  let ?L = "L(LowPrio l := s # L (LowPrio l))"
  have dm: "dom m = dom (socks h)" using relinked_views(3) [OF rel] s(2) by auto
  have dl: "dom ((loops h)(l \<mapsto> ?z)) = dom (loops h)" using z by auto
  have ov: "owner_of m = owner_of (socks h)" "lp_of m = (lp_of (socks h))(s \<mapsto> 1)"
    using relinked_views(1,2) [OF rel] s(2) by (simp_all add: views_all_upd views_all_app fun_upd_idem)
  have hd': "hds_of (ctxs h) ((loops h)(l \<mapsto> ?z)) = (s_hds h)(LowPrio l \<mapsto> s)"
    using z by (simp add: views_all_upd views_all_app fun_upd_idem fun_upd_twist)
  have lv: "lhd_of ((loops h)(l \<mapsto> ?z)) = c_hds h" "li_of ((loops h)(l \<mapsto> ?z)) = li_of (loops h)"
    using z by (simp_all add: views_all_upd views_all_app fun_upd_idem)
  have sh: "shape ?g = (shape h)\<lparr>nx := (nx (shape h))(s \<mapsto> low_prio_head z),
      pv := push_pv (pv (shape h)) (low_prio_head z) s, hds := (hds (shape h))(LowPrio l \<mapsto> s),
      owner := owner (shape h), lp := (lp (shape h))(s \<mapsto> 1)\<rparr>"
    using vm hd' lv ov by (simp add: shape_def)
  have w': "wfd (D - {s}) ?g ?L C"
    unfolding sh
  proof (rule ok_attach [OF w s(1) hd])
    show "placed ((shape h)\<lparr>owner := owner (shape h), lp := (lp (shape h))(s \<mapsto> 1)\<rparr>) (LowPrio l) s"
      using s(2) y ls by (auto simp: placed_def views)
  qed simp_all
  have u: "\<And>x k. x \<in> set (L k) \<Longrightarrow> x \<noteq> s" by (rule ok_D_unlisted [OF w s(1)])
  have i': "invd (D - {s}) E ?g ?L C"
  proof (rule invd_move [OF i w', of s "LowPrio l"])
    show "x \<noteq> s \<and> x \<in> set (L k) \<or> x = s \<and> k = LowPrio l" if "x \<in> set (?L k)" for x k
      using that u [of x k] by (auto split: if_splits)
    show "finite (allocated ?g)"
      using invD(2) [OF i] dm dl by (simp add: finite_allocated)
    show "has_handlers ?g c" if "has_handlers h c" for c using that by (simp add: has_handlers_def)
    show "has_handlers ?g (s_context so')" if "socks ?g s = Some so'" for so'
    proof -
      have "owner_of m s = Some (s_context so')" using that by (simp add: views)
      with ov s(2) have "s_context so' = s_context so" by (simp add: views)
      with y show ?thesis by (simp add: has_handlers_def)
    qed
    show "entry_ok ?g ?L l' p" if "entry_ok h L l' p" for l' p
      using that by (simp add: entry_ok_shape sh closed_in_def) (use s(2) in \<open>auto simp: views\<close>)
    show "\<exists>z0. loops h l' = Some z0 \<and> ready_polls z' = ready_polls z0 \<and>
        num_ready_polls z' = num_ready_polls z0 \<and> current_ready_poll z' = current_ready_poll z0"
      if "loops ?g l' = Some z'" for l' z' using that z by (auto split: if_splits)
  qed (use po dl in \<open>simp_all add: sh\<close>)
  have rm: "rem (shape ?g) ?L c' = rem (shape h) L c'" for c'
    by (rule rem_cong) (simp_all add: sh)
  have ev: "evolves_ex {s} h L ?g ?L"
    unfolding evolves_ex_def
  proof (intro conjI allI impI)
    show "subseq (rem (shape ?g) ?L c') (rem (shape h) L c')" for c' unfolding rm by simp
    show "\<exists>z'. loops ?g l' = Some z' \<and> loop_evolves z0 z'" if "loops h l' = Some z0" for l' z0
      using that z by (auto simp: loop_evolves_def)
    show "connecting_in ?g ?L x \<or> closed_in ?L x" if "x \<notin> {s}" "connecting_in h L x" for x
      using that by (auto simp: connecting_in_def)
  qed (simp_all add: closed_in_def)
  show thesis
    by (rule that [OF r i' ev]) (use rel in blast)
qed

lemma low_prio_push_unfold:
  "low_prio_push E h s = do {
     x \<leftarrow> socks h s;
     y \<leftarrow> ctxs h (s_context x);
     p \<leftarrow> polls h s;
     h \<leftarrow> us_poll_change E h s (c_loop y) (us_poll_events (be E) p AND LIBUS_SOCKET_WRITABLE (be E));
     h \<leftarrow> us_internal_socket_context_unlink_socket h (s_context x) s;
     queue_push h (c_loop y) s }"
  unfolding low_prio_push_def queue_push_def ..

lemma RW_masks: "(ev AND LIBUS_SOCKET_WRITABLE b) AND LIBUS_SOCKET_READABLE b = 0"
  by (cases b) (simp_all add: event_consts and.assoc)

lemma low_prio_push_ok:
  assumes i: "inv_with E h L C" and s: "s \<in> set (L (Open c))" "established h s"
  obtains h' L' where "low_prio_push E h s = Some h'" "inv_with E h' L' C" "evolves h L h' L'"
proof -
  have w: "wfd {} h L C" by (rule invD(1) [OF i])
  obtain so y z where so: "socks h s = Some so" "ctxs h c = Some y" "handlers_set y" "s_context so = c"
    "loops h (c_loop y) = Some z" "live h s"
    using open_socket_facts [OF i s(1)] .
  obtain p where p: "polls h s = Some p" "us_socket_is_established p" using s(2) by (auto simp: established_def)
  have pk: "poll_ok (be E) (Open c) p" using invD(3) [OF i] s(1) p(1) unfolding pollsI_def by blast
  let ?l = "c_loop y" and ?ev = "us_poll_events (be E) p AND LIBUS_SOCKET_WRITABLE (be E)"
  have ev: "event_set (be E) ?ev" by simp
  have po: "poll_ok (be E) k (with_events (be E) p ?ev)" if "s \<in> set (L k)" for k
    using ok_unique [OF w that s(1)] poll_ok_Open_established [OF _ pk p(2)] by simp
  show thesis
  proof (rule poll_change_ok [OF i p(1) so(5) ev po, where X = "{}"])
    fix p' t
    let ?h1 = "h\<lparr>polls := (polls h)(s \<mapsto> p'), trace := trace h @ t\<rparr>"
    assume r1: "us_poll_change E h s ?l ?ev = Some ?h1" and i1: "inv_with E ?h1 L C" and e1: "evolves h L ?h1 L"
      and p': "us_poll_events (be E) p' = ?ev" "us_internal_poll_type p' = us_internal_poll_type p"
    show thesis
    proof (rule unlink_invd [OF i1 s(1)])
      fix so0 y0 m it d
      let ?h2 = "?h1\<lparr>socks := m, ctxs := (ctxs ?h1)(c \<mapsto> y0\<lparr>c_iterator := it, head_sockets := d\<rparr>)\<rparr>"
      let ?L2 = "L(Open c := remove1 s (L (Open c)))"
      assume u: "socks ?h1 s = Some so0" "ctxs ?h1 c = Some y0"
          "us_internal_socket_context_unlink_socket ?h1 c s = Some ?h2" "relinked (socks ?h1) m"
        and i2: "invd {s} E ?h2 ?L2 C" and e2: "evolves_ex {s} ?h1 L ?h2 ?L2"
      obtain so2 where so2: "m s = Some so2" "s_context so2 = c"
        using relinked_sockD2 [OF u(4) u(1)] u(1) so(1,4) by auto
      have q: "socks ?h2 s = Some so2" "loops ?h2 ?l = Some z" "listens ?h2 s = None"
        using so2 so by (simp_all add: live_def)
      let ?y = "y0\<lparr>c_iterator := it, head_sockets := d\<rparr>"
      have yy: "ctxs ?h2 (s_context so2) = Some ?y" "handlers_set ?y" "c_loop ?y = ?l"
        using so2 u(2) so(2,3) by (simp_all add: handlers_set_def)
      have t: "us_internal_poll_type p' \<noteq> POLL_TYPE_CALLBACK" "us_internal_poll_type p' \<noteq> POLL_TYPE_SEMI_SOCKET"
        using pk p(2) p'(2) by (simp_all add: poll_ok_def us_socket_is_established_def)
      have po2: "poll_ok (be E) (LowPrio ?l) x" if "polls ?h2 s = Some x" for x
        using that t p'(1) RW_masks by (simp add: poll_ok_def)
      show thesis
      proof (rule queue_push_invd [OF i2 insertI1 q(1,2) yy q(3) po2])
        fix h3
        let ?L3 = "?L2(LowPrio ?l := s # ?L2 (LowPrio ?l))"
        assume k: "queue_push ?h2 ?l s = Some h3" "invd ({s} - {s}) E h3 ?L3 C" "evolves_ex {s} ?h2 ?L2 h3 ?L3"
        have "low_prio_push E h s = Some h3"
          using so(1,2,4) p(1) r1 u(3) k(1) by (simp add: low_prio_push_unfold)
        moreover have "inv_with E h3 ?L3 C" using k(2) by simp
        moreover have "evolves h L h3 ?L3"
        proof (rule evolves_settle)
          show "evolves_ex {s} h L h3 ?L3"
            by (rule evolves_trans [OF evolves_weaken [OF e1] evolves_trans [OF e2 k(3)]]) simp
          have "s \<notin> set (L (Listen c'))" for c' using ok_unique [OF w s(1), of "Listen c'"] by auto
          moreover have "\<not> connecting_in h L s" using p by (simp add: connecting_in_def us_socket_is_established_def)
          ultimately show "closed_in ?L3 x \<or> (\<not> connecting_in h L x \<and> (\<forall>c. x \<notin> set (L (Listen c))))"
            if "x \<in> {s}" for x using that by blast
        qed
        ultimately show thesis by (rule that)
      qed
    qed
  qed
qed

subsection \<open>Taking a socket back into its context\<close>

text \<open>Taking the head of the queue is unlinking it, but for the state that is set last.\<close>

lemma low_prio_take_unlink:
  assumes x: "socks h s = Some x" "s_prev x = NULL" "low_prio_state x = 1" "s_next x \<noteq> s"
    and y: "ctxs h (s_context x) = Some y" "c_loop y = l" and z: "loops h l = Some z"
    and u: "low_prio_unlink h s = Some h1" "socks h1 s = Some x1"
  shows "low_prio_take E h l s = do {
     h \<leftarrow> us_internal_socket_context_link_socket
       (h1\<lparr>socks := (socks h1)(s \<mapsto> x1\<lparr>low_prio_state := 1\<rparr>)\<rparr>) (s_context x) s;
     x \<leftarrow> socks h s;
     y \<leftarrow> ctxs h (s_context x);
     p \<leftarrow> polls h s;
     h \<leftarrow> us_poll_change E h s (c_loop y) (us_poll_events (be E) p OR LIBUS_SOCKET_READABLE (be E));
     set_sock h s (\<lambda>x. x\<lparr>low_prio_state := 2\<rparr>) }"
proof (cases "s_next x = NULL")
  case True
  from u(1) have h1: "h1 = h\<lparr>loops := (loops h)(l \<mapsto> z\<lparr>low_prio_head := NULL\<rparr>),
      socks := (socks h)(s \<mapsto> x\<lparr>s_prev := NULL, s_next := NULL, low_prio_state := 0\<rparr>)\<rparr>"
    using x y z True by (simp add: low_prio_unlink_def set_defs)
  with u(2) have x1: "x1 = x\<lparr>s_prev := NULL, s_next := NULL, low_prio_state := 0\<rparr>" by simp
  have e: "x\<lparr>s_prev := NULL, s_next := NULL, low_prio_state := 1\<rparr> = x\<lparr>s_next := NULL\<rparr>" using x by simp
  show ?thesis using x y z True unfolding h1 x1 by (simp add: low_prio_take_def set_defs e)
next
  case False
  show ?thesis
  proof (cases "socks h (s_next x)")
    case None
    then have "low_prio_unlink h s = None" using x y z False by (simp add: low_prio_unlink_def set_defs)
    with u(1) show ?thesis by simp
  next
    case (Some w)
    from u(1) have h1: "h1 = h\<lparr>loops := (loops h)(l \<mapsto> z\<lparr>low_prio_head := s_next x\<rparr>),
        socks := (socks h)(s_next x \<mapsto> w\<lparr>s_prev := NULL\<rparr>, s \<mapsto> x\<lparr>s_prev := NULL, s_next := NULL, low_prio_state := 0\<rparr>)\<rparr>"
      using x y z False Some by (simp add: low_prio_unlink_def set_defs)
    with u(2) have x1: "x1 = x\<lparr>s_prev := NULL, s_next := NULL, low_prio_state := 0\<rparr>" by simp
    have e: "x\<lparr>s_prev := NULL, s_next := NULL, low_prio_state := 1\<rparr> = x\<lparr>s_next := NULL\<rparr>" using x by simp
    show ?thesis using x y z False Some unfolding h1 x1 by (simp add: low_prio_take_def set_defs e)
  qed
qed

lemma link_state:
  assumes "socks h s = Some x" "ctxs h c = Some y" "head_sockets y \<noteq> s"
  shows "us_internal_socket_context_link_socket (h\<lparr>socks := (socks h)(s \<mapsto> x\<lparr>low_prio_state := v\<rparr>)\<rparr>) c s =
    map_option (\<lambda>g. g\<lparr>socks := (socks g)(s \<mapsto> (the (socks g s))\<lparr>low_prio_state := v\<rparr>)\<rparr>)
      (us_internal_socket_context_link_socket h c s)"
proof -
  have e: "x\<lparr>low_prio_state := v, s_context := c, s_next := n, s_prev := p\<rparr> =
      x\<lparr>s_context := c, s_next := n, s_prev := p, low_prio_state := v\<rparr>" for n p by simp
  show ?thesis
    using assms by (cases "socks h (head_sockets y)")
      (simp_all add: us_internal_socket_context_link_socket_def set_defs fun_upd_twist e)
qed

lemma poll_change_socks:
  "us_poll_change E (h\<lparr>socks := m\<rparr>) p l ev = map_option (\<lambda>g. g\<lparr>socks := m\<rparr>) (us_poll_change E h p l ev)"
  by (cases "polls h p"; cases "loops h l"; cases "be E")
    (simp_all add: us_poll_change_def set_poll_def do_sys_def kqueue_change_def Let_def)

lemma low_prio_take_ok:
  assumes i: "inv_with E h L C" and z: "loops h l = Some z" "low_prio_head z \<noteq> NULL"
  obtains h' L' z' c where "low_prio_take E h l (low_prio_head z) = Some h'" "inv_with E h' L' C" "evolves h L h' L'"
    "loops h' l = Some z'" "low_prio_budget z' = low_prio_budget z"
    "L' = L(LowPrio l := tl (L (LowPrio l)), Open c := low_prio_head z # L (Open c))"
    "L (LowPrio l) = low_prio_head z # tl (L (LowPrio l))"
    "\<exists>p. polls h' (low_prio_head z) = Some p \<and> us_poll_events (be E) p AND LIBUS_SOCKET_READABLE (be E) \<noteq> 0"
proof -
  have w: "wfd {} h L C" by (rule invD(1) [OF i])
  let ?s = "low_prio_head z"
  have dl: "dll (s_nx h) (s_pv h) ?s (L (LowPrio l))" by (rule wfd_low_dll [OF w z(1)])
  then obtain rst where q: "L (LowPrio l) = ?s # rst" using z(2) by (cases "L (LowPrio l)") (auto simp: dll_def)
  then have s: "?s \<in> set (L (LowPrio l))" by simp
  obtain so p where so: "socks h ?s = Some so" "polls h ?s = Some p" "placed (shape h) (LowPrio l) ?s"
    using wfd_listed [OF w s] by blast
  from so obtain y where y: "ctxs h (s_context so) = Some y" "c_loop y = l" "low_prio_state so = 1" "listens h ?s = None"
    by (auto simp: placed_def views)
  have pv: "s_prev so = NULL" using dl q so(1) by (auto simp: dll_def views_app)
  have sn: "s_next so \<noteq> ?s"
    using dll_neighbours_neq(2) [OF dl s] so(1) by (simp add: views_app)
  have hs: "handlers_set y"
  proof -
    have "has_handlers h (s_context so)" using invD(4) [OF i] s so(1) unfolding handI_def by force
    then show ?thesis using y(1) by (simp add: has_handlers_def)
  qed
  have pk: "poll_ok (be E) (LowPrio l) p" using invD(3) [OF i] s so(2) unfolding pollsI_def by blast
  let ?c = "s_context so"
  let ?L1 = "L(LowPrio l := remove1 ?s (L (LowPrio l)))"
  show thesis
  proof (rule low_prio_unlink_invd [OF i s])
    fix so0 h1
    assume u: "socks h ?s = Some so0" "low_prio_unlink h ?s = Some h1" and i1: "invd (insert ?s {}) E h1 ?L1 C"
      and e1: "evolves_ex {?s} h L h1 ?L1"
      and ex: "\<exists>so'. socks h1 ?s = Some so' \<and> low_prio_state so' = 0 \<and> s_context so' = s_context so0"
      and k: "polls h1 = polls h" "ctxs h1 = ctxs h" "cbs h1 = cbs h" "listens h1 = listens h" "trace h1 = trace h"
    from ex u(1) so(1) obtain so1 where so1: "socks h1 ?s = Some so1" "low_prio_state so1 = 0" "s_context so1 = ?c" by auto
    have w1: "wfd {?s} h1 ?L1 C" by (rule invD(1) [OF i1])
    have q1: "ctxs h1 ?c = Some y" "low_prio_state so1 \<noteq> 1" "listens h1 ?s = None" using y k so1 by simp_all
    have hn: "head_sockets y \<noteq> ?s"
      using ok_head_not(2) [OF w1, of ?s "Open ?c"] q1(1) by (simp add: views)
    have po: "poll_ok (be E) (Open ?c) x" if "polls h1 ?s = Some x" for x
      using that k so(2) pk by (simp add: poll_ok_def)
    have lo: "c_loop y = l'" if "loop_of h1 ?s = Some l'" for l'
      using that so1 q1(1) by (simp add: loop_of_def)
    show thesis
    proof (rule link_invd [OF i1 _ so1(1) q1(1) hs q1(2,3) po lo])
      show "?s \<in> {?s}" by simp
      fix m
      let ?h2 = "h1\<lparr>socks := m, ctxs := (ctxs h1)(?c \<mapsto> y\<lparr>head_sockets := ?s\<rparr>)\<rparr>"
      let ?L2 = "?L1(Open ?c := ?s # ?L1 (Open ?c))"
      assume r2: "us_internal_socket_context_link_socket h1 ?c ?s = Some ?h2"
        and rel: "relinked ((socks h1)(?s \<mapsto> so1\<lparr>s_context := ?c\<rparr>)) m"
        and i2: "invd ({?s} - {?s}) E ?h2 ?L2 C" and e2: "evolves_ex {?s} h1 ?L1 ?h2 ?L2"
      have L2: "?L2 = L(LowPrio l := rst, Open ?c := ?s # L (Open ?c))" using q by simp
      have i2': "inv_with E ?h2 ?L2 C" using i2 by simp
      have "((socks h1)(?s \<mapsto> so1\<lparr>s_context := ?c\<rparr>)) ?s = Some (so1\<lparr>s_context := ?c\<rparr>)" by simp
      from relinked_sockD2 [OF rel this] obtain so2 where so2: "m ?s = Some so2" "s_context so2 = ?c" by auto
      obtain z1 where z1: "loops h1 l = Some z1" "low_prio_budget z1 = low_prio_budget z"
      proof -
        have "\<exists>z1. loops h1 l = Some z1 \<and> low_prio_budget z1 = low_prio_budget z"
          using u(2) so(1) pv y z by (cases "socks h (s_next so)")
            (auto simp: low_prio_unlink_def set_defs split: if_splits)
        then show thesis using that by blast
      qed
      let ?g = "?h2\<lparr>socks := m(?s \<mapsto> so2\<lparr>low_prio_state := 1\<rparr>)\<rparr>"
      let ?f = "?h2\<lparr>socks := m(?s \<mapsto> so2\<lparr>low_prio_state := 2\<rparr>)\<rparr>"
      have i3: "inv_with E ?f ?L2 C"
      proof -
        have s2: "socks ?h2 ?s = Some so2" using so2 by simp
        have "?s \<in> set (?L2 (Open ?c))" by simp
        from ok_unique [OF invD(1) [OF i2'] this] have "\<exists>c. k = Open c" if "?s \<in> set (?L2 k)" for k using that by blast
        from invd_state [OF i2' s2 this, of 2] show ?thesis by simp
      qed
      have e3: "evolves_ex {?s} ?h2 ?L2 ?f ?L2"
        using evolves_state [where X = "{?s}" and h = ?h2 and L = ?L2 and s = ?s and x = so2 and v = 2] by simp
      let ?ev = "us_poll_events (be E) p OR LIBUS_SOCKET_READABLE (be E)"
      have ev: "event_set (be E) ?ev" by simp
      have pf: "polls ?f ?s = Some p" "loops ?f l = Some z1" using k so(2) z1 by simp_all
      have po2: "poll_ok (be E) k (with_events (be E) p ?ev)" if "?s \<in> set (?L2 k)" for k
      proof -
        have "?s \<in> set (?L2 (Open ?c))" by simp
        from ok_unique [OF invD(1) [OF i2'] that this] have "k = Open ?c" .
        with pk show ?thesis by (simp add: poll_ok_def)
      qed
      show thesis
      proof (rule poll_change_ok [OF i3 pf ev po2, where X = "{?s}"])
        fix p' t
        let ?h4 = "?f\<lparr>polls := (polls ?f)(?s \<mapsto> p'), trace := trace ?f @ t\<rparr>"
        assume r4: "us_poll_change E ?f ?s l ?ev = Some ?h4" and i4: "inv_with E ?h4 ?L2 C"
          and e4: "evolves_ex {?s} ?f ?L2 ?h4 ?L2" and p': "us_poll_events (be E) p' = ?ev"
        have r4': "us_poll_change E ?g ?s l ?ev = Some (?g\<lparr>polls := (polls ?f)(?s \<mapsto> p'), trace := trace ?f @ t\<rparr>)"
          using poll_change_socks [where E = E and h = ?f and m = "m(?s \<mapsto> so2\<lparr>low_prio_state := 1\<rparr>)" and p = ?s and l = l and ev = ?ev] r4 by simp
        have lk: "us_internal_socket_context_link_socket
            (h1\<lparr>socks := (socks h1)(?s \<mapsto> so1\<lparr>low_prio_state := 1\<rparr>)\<rparr>) ?c ?s = Some ?g"
          using link_state [OF so1(1) q1(1) hn, of 1] r2 so2 by simp
        have "low_prio_take E h l ?s = Some ?h4"
          unfolding low_prio_take_unlink [OF so(1) pv y(3) sn y(1,2) z(1) u(2) so1(1)] lk
          using so2 y(2) k so(2) r4' by (simp add: set_sock_def)
        moreover have "evolves h L ?h4 ?L2"
        proof (rule evolves_settle)
          show "evolves_ex {?s} h L ?h4 ?L2"
            by (rule evolves_trans [OF e1 evolves_trans [OF e2 evolves_trans [OF e3 e4]]])
          have "?s \<notin> set (L (Listen c'))" for c' using ok_unique [OF w s, of "Listen c'"] by auto
          moreover have "\<not> connecting_in h L ?s" using so(2) pk by (simp add: connecting_in_def poll_ok_def)
          ultimately show "closed_in ?L2 x \<or> (\<not> connecting_in h L x \<and> (\<forall>c. x \<notin> set (L (Listen c))))"
            if "x \<in> {?s}" for x using that by blast
        qed
        moreover have "loops ?h4 l = Some z1" using z1 by simp
        moreover have "?ev AND LIBUS_SOCKET_READABLE (be E) \<noteq> 0"
          by (cases "be E") (simp_all add: event_consts us_poll_events_def)
        then have "\<exists>x. polls ?h4 ?s = Some x \<and> us_poll_events (be E) x AND LIBUS_SOCKET_READABLE (be E) \<noteq> 0"
          using p' by simp
        ultimately show thesis
          by (intro that [of ?h4 ?L2 z1 ?c]) (use i4 z1(2) L2 q in \<open>simp_all add: q\<close>)
      qed
    qed
  qed
qed

text \<open>Setting the budget.\<close>

lemma set_budget_ok:
  assumes i: "invd D E h L C" and z: "loops h l = Some z"
  shows "invd D E (h\<lparr>loops := (loops h)(l \<mapsto> z\<lparr>low_prio_budget := b\<rparr>)\<rparr>) L C"
    "evolves_ex X h L (h\<lparr>loops := (loops h)(l \<mapsto> z\<lparr>low_prio_budget := b\<rparr>)\<rparr>) L"
proof -
  show "invd D E (h\<lparr>loops := (loops h)(l \<mapsto> z\<lparr>low_prio_budget := b\<rparr>)\<rparr>) L C"
    by (rule invd_loop_plain [OF i z]) simp_all
  show "evolves_ex X h L (h\<lparr>loops := (loops h)(l \<mapsto> z\<lparr>low_prio_budget := b\<rparr>)\<rparr>) L"
    by (rule evolves_loop [OF z]) (simp_all add: loop_evolves_def)
qed

text \<open>
  The loop takes sockets from the head of the queue until the queue or the budget is exhausted:
  \<open>n\<close> sockets leave the queue for the open lists of their contexts.
\<close>

lemma low_prio_loop_ok:
  assumes "inv_with E h L C" "loops h l = Some z" "n = min (nat (low_prio_budget z)) (length (L (LowPrio l)))"
  shows "\<exists>h' L' z'. low_prio_loop E h l = Some h' \<and> inv_with E h' L' C \<and> evolves h L h' L' \<and> loops h' l = Some z' \<and>
    low_prio_budget z' = low_prio_budget z - int n \<and> L' (LowPrio l) = drop n (L (LowPrio l)) \<and>
    (\<forall>x\<in>set (take n (L (LowPrio l))). \<exists>c. x \<in> set (L' (Open c))) \<and> (\<forall>c x. x \<in> set (L (Open c)) \<longrightarrow> x \<in> set (L' (Open c)))"
  using assms
proof (induction n arbitrary: h L z)
  case 0
  note i = 0(1) and z = 0(2)
  have e: "low_prio_head z = NULL \<or> low_prio_budget z \<le> 0"
  proof (cases "L (LowPrio l) = []")
    case True
    then show ?thesis using dll_hd [OF wfd_low_dll [OF invD(1) [OF i] z]] by simp
  next
    case False
    then have "0 < length (L (LowPrio l))" by simp
    with 0(3) have "nat (low_prio_budget z) = 0" by linarith
    then show ?thesis by simp
  qed
  then have "low_prio_loop E h l = Some h" using z by (subst low_prio_loop.simps) auto
  then show ?case using i z by auto
next
  case (Suc n)
  note i = Suc.prems(1) and z = Suc.prems(2)
  have b: "low_prio_budget z > 0" "L (LowPrio l) \<noteq> []" using Suc.prems(3) by auto
  have hd: "low_prio_head z \<noteq> NULL"
    using b(2) wfd_low_dll [OF invD(1) [OF i] z] by (metis dll_NULL)
  show ?case
  proof (rule low_prio_take_ok [OF i z hd])
    fix h1 L1 z1 c
    assume t: "low_prio_take E h l (low_prio_head z) = Some h1" "inv_with E h1 L1 C" "evolves h L h1 L1"
      and z1: "loops h1 l = Some z1" "low_prio_budget z1 = low_prio_budget z"
      and L1: "L1 = L(LowPrio l := tl (L (LowPrio l)), Open c := low_prio_head z # L (Open c))"
        "L (LowPrio l) = low_prio_head z # tl (L (LowPrio l))"
    let ?z = "z1\<lparr>low_prio_budget := low_prio_budget z1 - 1\<rparr>"
    let ?h2 = "h1\<lparr>loops := (loops h1)(l \<mapsto> ?z)\<rparr>"
    note s = set_budget_ok [OF t(2) z1(1), where b = "low_prio_budget z1 - 1"]
    have LL: "L1 (LowPrio l) = tl (L (LowPrio l))" unfolding L1(1) by simp
    have n: "n = min (nat (low_prio_budget ?z)) (length (L1 (LowPrio l)))"
    proof -
      have a: "nat (low_prio_budget ?z) = nat (low_prio_budget z) - 1" using z1(2) b(1) by simp
      have m: "m = min (a - 1) (b - 1)" if "Suc m = min a b" for m a b :: nat
        using that by (auto simp: min_def split: if_splits)
      show ?thesis using m [OF Suc.prems(3)] unfolding a LL by simp
    qed
    have l2: "loops ?h2 l = Some ?z" by simp
    from Suc.IH [OF s(1) l2 n] obtain h' L' z' where r: "low_prio_loop E ?h2 l = Some h'" "inv_with E h' L' C"
      "evolves ?h2 L1 h' L'" "loops h' l = Some z'" "low_prio_budget z' = low_prio_budget ?z - int n"
      "L' (LowPrio l) = drop n (L1 (LowPrio l))" "\<forall>x\<in>set (take n (L1 (LowPrio l))). \<exists>c. x \<in> set (L' (Open c))"
      "\<forall>c x. x \<in> set (L1 (Open c)) \<longrightarrow> x \<in> set (L' (Open c))"
      by auto
    have "low_prio_loop E h l = low_prio_loop E ?h2 l"
      using z hd b(1) t(1) z1(1) by (subst low_prio_loop.simps) (simp add: set_loop_def)
    moreover have "evolves h L h' L'" by (rule evolves_trans [OF t(3) evolves_trans [OF s(2) r(3)]])
    moreover have "L' (LowPrio l) = drop (Suc n) (L (LowPrio l))" using r(6) LL by (simp add: drop_Suc)
    moreover have o: "\<forall>c x. x \<in> set (L (Open c)) \<longrightarrow> x \<in> set (L' (Open c))"
    proof (intro allI impI)
      fix c' x assume "x \<in> set (L (Open c'))"
      then have "x \<in> set (L1 (Open c'))" unfolding L1(1) by (cases "c' = c") simp_all
      with r(8) show "x \<in> set (L' (Open c'))" by blast
    qed
    moreover have "\<forall>x\<in>set (take (Suc n) (L (LowPrio l))). \<exists>c. x \<in> set (L' (Open c))"
    proof
      fix x assume "x \<in> set (take (Suc n) (L (LowPrio l)))"
      then have "x = low_prio_head z \<or> x \<in> set (take n (tl (L (LowPrio l))))"
        using L1(2) by (cases "L (LowPrio l)") auto
      then show "\<exists>c. x \<in> set (L' (Open c))"
      proof
        assume "x = low_prio_head z"
        then have "x \<in> set (L1 (Open c))" unfolding L1(1) by simp
        with r(8) show ?thesis by blast
      qed (use r(7) LL in auto)
    qed
    ultimately show ?case using r(1,2,4,5) z1(2) by auto
  qed
qed

lemma handle_low_priority_ok:
  assumes i: "inv_with E h L C" and z: "loops h l = Some z"
  obtains h' L' z' where "us_internal_handle_low_priority_sockets E h l = Some h'" "inv_with E h' L' C"
    "evolves h L h' L'" "loops h' l = Some z'" "L' (LowPrio l) = drop 5 (L (LowPrio l))"
    "\<forall>x\<in>set (take 5 (L (LowPrio l))). \<exists>c. x \<in> set (L' (Open c))"
    "low_prio_budget z' = 5 - int (min 5 (length (L (LowPrio l))))"
proof -
  let ?z = "z\<lparr>low_prio_budget := 5\<rparr>"
  let ?h1 = "h\<lparr>loops := (loops h)(l \<mapsto> ?z)\<rparr>"
  note s = set_budget_ok [OF i z, where b = 5]
  have z1: "loops ?h1 l = Some ?z" by simp
  let ?n = "min 5 (length (L (LowPrio l)))"
  have n: "?n = min (nat (low_prio_budget ?z)) (length (L (LowPrio l)))" by simp
  from low_prio_loop_ok [OF s(1) z1 n] obtain h' L' z' where r: "low_prio_loop E ?h1 l = Some h'" "inv_with E h' L' C"
    "evolves ?h1 L h' L'" "loops h' l = Some z'" "low_prio_budget z' = low_prio_budget ?z - int ?n"
    "L' (LowPrio l) = drop ?n (L (LowPrio l))" "\<forall>x\<in>set (take ?n (L (LowPrio l))). \<exists>c. x \<in> set (L' (Open c))"
    by auto
  have "us_internal_handle_low_priority_sockets E h l = Some h'"
    using z r(1) by (simp add: us_internal_handle_low_priority_sockets_def set_loop_def)
  moreover have "drop ?n (L (LowPrio l)) = drop 5 (L (LowPrio l))" "take ?n (L (LowPrio l)) = take 5 (L (LowPrio l))"
    by (simp_all add: min_def)
  ultimately show thesis using that [of h' L' z'] r evolves_trans [OF s(2) r(3)] by simp
qed

subsection \<open>Freeing the closed sockets\<close>

text \<open>The store without the objects at some addresses.\<close>

definition without :: "heap \<Rightarrow> ptr set \<Rightarrow> heap" where
  "without h X = h\<lparr>polls := polls h |` (- X), socks := socks h |` (- X), listens := listens h |` (- X),
     cbs := cbs h |` (- X), ssl_socks := ssl_socks h |` (- X), ssl_ctxs := ssl_ctxs h |` (- X),
     udps := udps h |` (- X)\<rparr>"

lemma free_obj_without:
  assumes "ctxs h p = None" "loops h p = None"
  shows "free_obj h p = without h {p}"
proof -
  have "(ctxs h)(p := None) = ctxs h" "(loops h)(p := None) = loops h" using assms by (simp_all add: fun_upd_idem)
  then show ?thesis by (simp add: free_obj_def without_def restrict_complement_singleton_eq)
qed

lemma restrict_map_UNIV [simp]: "m |` UNIV = m"
  by (rule ext) simp

lemma without_empty [simp]: "without h {} = h"
  by (simp add: without_def)

lemma without_without: "without (without h X) Y = without h (X \<union> Y)"
proof -
  have "(- X) \<inter> (- Y) = - (X \<union> Y)" by blast
  then show ?thesis by (simp add: without_def Int_commute)
qed

lemma without_loops: "without (h\<lparr>loops := m\<rparr>) X = (without h X)\<lparr>loops := m\<rparr>"
  by (simp add: without_def)

lemma free_sockets_result:
  assumes "sll (s_nx h) s xs" "loops h l = Some z"
    "\<And>x. x \<in> set xs \<Longrightarrow> x \<in> dom (polls h) \<and> ctxs h x = None \<and> loops h x = None"
  shows "free_sockets h l s = Some ((without h (set xs))\<lparr>
    loops := (loops h)(l \<mapsto> z\<lparr>num_polls := num_polls z - int (length xs)\<rparr>)\<rparr>)"
  using assms
proof (induction xs arbitrary: h s z)
  case Nil
  then show ?case by (subst free_sockets.simps) (simp add: fun_upd_idem)
next
  case (Cons a xs)
  obtain n where n: "s = a" "a \<noteq> NULL" "s_nx h a = Some n" "sll (s_nx h) n xs" using Cons.prems(1) by auto
  obtain so where so: "socks h a = Some so" "s_next so = n" using n(3) by (auto simp: views_app)
  have a: "a \<notin> set xs" using sll_distinct [OF Cons.prems(1)] by simp
  obtain p where p: "polls h a = Some p" "ctxs h a = None" "loops h a = None" using Cons.prems(3) [of a] by auto
  let ?l = "(loops h)(l \<mapsto> z\<lparr>num_polls := num_polls z - 1\<rparr>)"
  have al: "a \<noteq> l" using p(3) Cons.prems(2) by auto
  let ?h1 = "(without h {a})\<lparr>loops := ?l\<rparr>"
  have f: "us_poll_free h a l = Some ?h1"
    using p al Cons.prems(2) free_obj_without [of "h\<lparr>loops := ?l\<rparr>" a]
    by (simp add: us_poll_free_def set_loop_def without_loops)
  have "s_nx ?h1 x = s_nx h x" if "x \<in> set xs" for x
  proof -
    have "x \<noteq> a" using that a by auto
    then show ?thesis by (simp add: without_def views_app)
  qed
  then have s1: "sll (s_nx ?h1) n xs" using sll_cong [of xs "s_nx ?h1" "s_nx h"] n(4) by simp
  have z1: "loops ?h1 l = Some (z\<lparr>num_polls := num_polls z - 1\<rparr>)" by simp
  have d1: "x \<in> dom (polls ?h1) \<and> ctxs ?h1 x = None \<and> loops ?h1 x = None" if "x \<in> set xs" for x
  proof -
    have "x \<noteq> a" "x \<in> dom (polls h)" "ctxs h x = None" "loops h x = None" using that a Cons.prems(3) [of x] by auto
    moreover from this(4) Cons.prems(2) have "x \<noteq> l" by auto
    ultimately show ?thesis by (simp add: without_def)
  qed
  have "free_sockets h l s = free_sockets ?h1 l n"
    using n(1,2) so f by (subst free_sockets.simps) simp
  also have "\<dots> = Some ((without ?h1 (set xs))\<lparr>loops := (loops ?h1)(l \<mapsto> (z\<lparr>num_polls := num_polls z - 1\<rparr>)
      \<lparr>num_polls := num_polls (z\<lparr>num_polls := num_polls z - 1\<rparr>) - int (length xs)\<rparr>)\<rparr>)"
    by (rule Cons.IH [OF s1 z1 d1])
  also have "\<dots> = Some ((without h (set (a # xs)))\<lparr>
      loops := (loops h)(l \<mapsto> z\<lparr>num_polls := num_polls z - int (length (a # xs))\<rparr>)\<rparr>)"
    by (simp add: without_loops without_without diff_diff_eq)
  finally show ?case .
qed

lemma restrict_views:
  "nx_of (m |` A) = nx_of m |` A" "pv_of (m |` A) = pv_of m |` A" "owner_of (m |` A) = owner_of m |` A"
  "lp_of (m |` A) = lp_of m |` A"
  by (auto simp: nx_of_def pv_of_def owner_of_def lp_of_def restrict_map_def)

lemma free_closed_ok:
  assumes i: "inv_with E h L C" and z: "loops h l = Some z"
  defines "X \<equiv> set (L (Closed l))"
  obtains h' where "us_internal_free_closed_sockets h l = Some h'" "inv_with E h' (L(Closed l := [])) C" "runs h h'"
    "h' = (without h X)\<lparr>loops := (loops h)(l \<mapsto> z\<lparr>num_polls := num_polls z - int (length (L (Closed l))), closed_head := NULL\<rparr>)\<rparr>"
proof -
  have w: "wfd {} h L C" by (rule invD(1) [OF i])
  have sl: "sll (s_nx h) (closed_head z) (L (Closed l))" by (rule wfd_closed_sll [OF w z])
  have X: "x \<in> dom (polls h) \<and> ctxs h x = None \<and> loops h x = None" "cbs h x = None" if x: "x \<in> X" for x
  proof -
    obtain so where so: "socks h x = Some so" using wfd_listed [OF w x [unfolded X_def]] by blast
    show "x \<in> dom (polls h) \<and> ctxs h x = None \<and> loops h x = None" "cbs h x = None"
      using wfd_sock(2-5) [OF w so] by auto
  qed
  let ?z = "z\<lparr>num_polls := num_polls z - int (length (L (Closed l))), closed_head := NULL\<rparr>"
  let ?l = "(loops h)(l \<mapsto> ?z)"
  let ?g = "(without h X)\<lparr>loops := ?l\<rparr>"
  have r: "us_internal_free_closed_sockets h l = Some ?g"
  proof (cases "closed_head z = NULL")
    case True
    then have "L (Closed l) = []" using sl by simp
    then show ?thesis using True z by (simp add: us_internal_free_closed_sockets_def X_def fun_upd_idem)
  next
    case False
    have "free_sockets h l (closed_head z) = Some ((without h (set (L (Closed l))))\<lparr>
        loops := (loops h)(l \<mapsto> z\<lparr>num_polls := num_polls z - int (length (L (Closed l)))\<rparr>)\<rparr>)"
      by (rule free_sockets_result [OF sl z]) (use X X_def in blast)
    then show ?thesis using False z by (simp add: us_internal_free_closed_sockets_def set_loop_def X_def)
  qed
  have hv: "hds_of (ctxs h) ?l = (s_hds h)(Closed l \<mapsto> NULL)" "lhd_of ?l = c_hds h" "li_of ?l = li_of (loops h)"
    using z by (simp_all add: views_all_upd views_all_app fun_upd_idem fun_upd_twist)
  have hd: "hds (shape h) (Closed l) = Some (closed_head z)" using z by (simp add: views)
  let ?S1 = "(shape h)\<lparr>hds := (hds (shape h))(Closed l \<mapsto> NULL)\<rparr>"
  let ?S2 = "?S1\<lparr>nx := nx ?S1 |` (- X), pv := pv ?S1 |` (- X), owner := owner ?S1 |` (- X), lp := lp ?S1 |` (- X),
    pls := pls ?S1 - X, cbk := cbk ?S1 - X, lis := lis ?S1 - X\<rparr>"
  have w1: "ok ({} \<union> X) ?S1 (L(Closed l := [])) C" unfolding X_def by (rule ok_detach_closed [OF w hd])
  have w2: "ok (({} \<union> X) - X) ?S2 (L(Closed l := [])) C" by (rule ok_free_detached [OF w1]) simp
  have sh: "shape ?g = ?S2"
    using hv by (simp add: shape_def without_def restrict_views Diff_eq)
  have w': "wfd {} ?g (L(Closed l := [])) C" using w2 sh by simp
  have nX: "y \<notin> X" if "y \<in> set ((L(Closed l := [])) k)" for y k
  proof
    assume y: "y \<in> X"
    from that have k: "k \<noteq> Closed l" "y \<in> set (L k)" by (auto split: if_splits)
    from ok_unique [OF w k(2) y [unfolded X_def]] k(1) show False by simp
  qed
  have dl: "dom ?l = dom (loops h)" using z by auto
  have i': "inv_with E ?g (L(Closed l := [])) C"
  proof (rule invI [OF w'])
    show "finite (allocated ?g)" using invD(2) [OF i] dl by (simp add: finite_allocated without_def)
    show "pollsI (be E) ?g (L(Closed l := []))"
      unfolding pollsI_def
    proof (intro allI impI)
      fix k x p assume x: "x \<in> set ((L(Closed l := [])) k)" "polls ?g x = Some p"
      from x(2) nX [OF x(1)] have "polls h x = Some p" by (simp add: without_def)
      moreover from x(1) have "x \<in> set (L k)" by (auto split: if_splits)
      ultimately show "poll_ok (be E) k p" using invD(3) [OF i] unfolding pollsI_def by blast
    qed
    show "handI ?g (L(Closed l := []))"
      unfolding handI_def
    proof (intro allI impI)
      fix k x so assume x: "x \<in> set ((L(Closed l := [])) k)" "doubly k" "socks ?g x = Some so"
      from x(3) nX [OF x(1)] have "socks h x = Some so" by (simp add: without_def)
      moreover from x(1) have "x \<in> set (L k)" by (auto split: if_splits)
      ultimately have "has_handlers h (s_context so)" using invD(4) [OF i] x(2) unfolding handI_def by blast
      then show "has_handlers ?g (s_context so)" by (simp add: has_handlers_def without_def)
    qed
    show "cbsI ?g"
      unfolding cbsI_def
    proof (intro allI impI)
      fix x cb assume c: "cbs ?g x = Some cb"
      then have x: "x \<notin> X" "cbs h x = Some cb" by (auto simp: without_def restrict_map_def split: if_splits)
      then have "cb_ok h x cb" using invD(5) [OF i] unfolding cbsI_def by blast
      with x(1) dl show "cb_ok ?g x cb" by (simp add: cb_ok_def without_def)
    qed
    have en: "entry_ok ?g (L(Closed l := [])) l' p" if e: "entry_ok h L l' p" for l' p
    proof -
      have "p \<notin> X" using e X(2) unfolding entry_ok_def X_def by auto
      then have "cbs ?g p = cbs h p" "p \<in> dom (socks ?g) \<longleftrightarrow> p \<in> dom (socks h)" "loop_of ?g p = loop_of h p"
        by (simp_all add: without_def loop_of_def)
      with e show ?thesis unfolding entry_ok_def by auto
    qed
    show "readyI (be E) ?g (L(Closed l := []))"
      unfolding readyI_def
    proof (intro allI impI)
      fix l' z' assume l': "loops ?g l' = Some z'"
      obtain z0 where z0: "loops h l' = Some z0" "ready_polls z' = ready_polls z0"
        "num_ready_polls z' = num_ready_polls z0" "current_ready_poll z' = current_ready_poll z0"
        using l' z by (auto split: if_splits)
      have p': "pending z' = pending z0" by (rule pending_cong [OF z0(2-4)])
      show "ready_list_ok (be E) z' \<and> (\<forall>q\<in>re_poll ` set (pending z'). q \<noteq> NULL \<longrightarrow> entry_ok ?g (L(Closed l := [])) l' q)"
        using readyD [OF invD(6) [OF i] z0(1)] en p' ready_list_ok_cong [OF z0(2-4)] by auto
    qed
  qed
  have "runs h ?g" using z by (auto simp: runs_def loop_keeps_def without_def)
  then show thesis using that [OF r i'] by simp
qed

end
