(* ===== verification/Dispatch.thy ===== *)
theory Dispatch
  imports Queue
begin

text \<open>
  Dispatching ready polls and running the loop.  A ready poll is a callback, a socket that is still
  connecting, a listen socket or an established socket; whichever it is, dispatching it returns and
  keeps the invariant, so a turn of the loop does.
\<close>

subsection \<open>Keeping track of what runs\<close>

lemma runs_evolves: "evolves_ex X h L h' L' \<Longrightarrow> runs h h'"
  by (rule swept_runs [OF swept_evolves])

lemma runs_loopD:
  assumes "runs h h'" "loops h l = Some z"
  obtains z' where "loops h' l = Some z'" "loop_keeps z z'"
  using assms unfolding runs_def by blast

text \<open>The store after a step, with the invariant and all that is relied on across it.\<close>

definition ran :: "env \<Rightarrow> heap \<Rightarrow> heap option \<Rightarrow> bool" where
  "ran E h r \<longleftrightarrow> (\<exists>h' L' C'. r = Some h' \<and> inv_with E h' L' C' \<and> runs h h')"

lemma ranI: "r = Some h' \<Longrightarrow> inv_with E h' L' C' \<Longrightarrow> runs h h' \<Longrightarrow> ran E h r"
  unfolding ran_def by blast

lemma ranE:
  assumes "ran E h r"
  obtains h' L' C' where "r = Some h'" "inv_with E h' L' C'" "runs h h'"
  using assms unfolding ran_def by blast

lemma ran_after: "runs h h1 \<Longrightarrow> ran E h1 r \<Longrightarrow> ran E h r"
  unfolding ran_def using runs_trans by blast

lemma runs_calls: "only_calls h h' \<Longrightarrow> runs h h'"
  by (auto simp: only_calls_def runs_def loop_keeps_def)

text \<open>What stays put over whole turns of the loop.\<close>

definition loop_stays :: "us_loop_t \<Rightarrow> us_loop_t \<Rightarrow> bool" where
  "loop_stays z z' \<longleftrightarrow> pre_cb z' = pre_cb z \<and> post_cb z' = post_cb z \<and> sweep_timer z' = sweep_timer z \<and>
     wakeup_async z' = wakeup_async z"

definition loops_stay :: "heap \<Rightarrow> heap \<Rightarrow> bool" where
  "loops_stay h h' \<longleftrightarrow> (\<forall>l z. loops h l = Some z \<longrightarrow> (\<exists>z'. loops h' l = Some z' \<and> loop_stays z z'))"

lemma loop_stays_refl [simp]: "loop_stays z z" by (simp add: loop_stays_def)
lemma loops_stay_refl [simp]: "loops_stay h h" by (simp add: loops_stay_def)

lemma loops_stay_trans:
  assumes "loops_stay h h1" "loops_stay h1 h2"
  shows "loops_stay h h2"
  unfolding loops_stay_def
proof (intro allI impI)
  fix l z assume "loops h l = Some z"
  with assms(1) obtain z1 where z1: "loops h1 l = Some z1" "loop_stays z z1" unfolding loops_stay_def by blast
  with assms(2) obtain z2 where "loops h2 l = Some z2" "loop_stays z1 z2" unfolding loops_stay_def by blast
  with z1(2) show "\<exists>z'. loops h2 l = Some z' \<and> loop_stays z z'" by (simp add: loop_stays_def)
qed

lemma loops_stay_runs:
  assumes "runs h h'"
  shows "loops_stay h h'"
  unfolding loops_stay_def
proof (intro allI impI)
  fix l z assume "loops h l = Some z"
  from runs_loopD [OF assms this] obtain z' where "loops h' l = Some z'" "loop_keeps z z'" .
  then show "\<exists>z'. loops h' l = Some z' \<and> loop_stays z z'" by (simp add: loop_keeps_def loop_stays_def)
qed

lemma loops_stay_upd:
  "loops h l = Some z \<Longrightarrow> pre_cb z' = pre_cb z \<Longrightarrow> post_cb z' = post_cb z \<Longrightarrow> sweep_timer z' = sweep_timer z \<Longrightarrow>
   wakeup_async z' = wakeup_async z \<Longrightarrow> loops_stay h (h\<lparr>loops := (loops h)(l \<mapsto> z')\<rparr>)"
  by (simp add: loops_stay_def loop_stays_def)

subsection \<open>The places of a ready socket\<close>

lemma entry_place:
  assumes i: "inv_with E h L C" and p: "p \<in> dom (socks h)" "\<And>l'. p \<notin> set (L (Closed l'))"
  obtains k x where "p \<in> set (L k)" "doubly k" "polls h p = Some x" "poll_ok (be E) k x" "placed (shape h) k p"
proof -
  have w: "wfd {} h L C" by (rule invD(1) [OF i])
  have "p \<in> dom (nx (shape h))" using p(1) by (simp add: views_all_dom)
  then obtain k where k: "p \<in> set (L k)" "placed (shape h) k p" using ok_place [OF w] by blast
  have d: "doubly k" using k(1) p(2) by (cases k) auto
  obtain x where x: "polls h p = Some x" using wfd_listed [OF w k(1)] .
  have "poll_ok (be E) k x" using invD(3) [OF i] k(1) x unfolding pollsI_def by blast
  with that k d x show thesis by blast
qed

text \<open>An established socket that is not closed: what is known of it.\<close>

definition going :: "heap \<Rightarrow> ptr \<Rightarrow> bool" where
  "going h s \<longleftrightarrow> live h s \<and> established h s"

lemma going_place:
  assumes i: "inv_with E h L C" and g: "going h s"
  obtains so y z p k where "socks h s = Some so" "\<not> us_socket_is_closed so" "ctxs h (s_context so) = Some y"
    "handlers_set y" "loops h (c_loop y) = Some z" "polls h s = Some p" "us_socket_is_established p" "s \<in> set (L k)"
    "poll_ok (be E) k p" "k = Open (s_context so) \<and> low_prio_state so \<noteq> 1 \<or> k = LowPrio (c_loop y) \<and> low_prio_state so = 1"
proof -
  obtain so where so: "socks h s = Some so" "\<not> us_socket_is_closed so" using g by (auto simp: going_def live_def)
  obtain p where p: "polls h s = Some p" "us_socket_is_established p" using g by (auto simp: going_def established_def)
  show thesis
  proof (rule live_socket [OF i so])
    fix y z q k
    assume y: "ctxs h (s_context so) = Some y" "handlers_set y" "loops h (c_loop y) = Some z"
      and q: "polls h s = Some q" "s \<in> set (L k)" "doubly k" "poll_ok (be E) k q" "placed (shape h) k s"
    have qp: "q = p" using q(1) p(1) by simp
    have "(\<exists>c. k = Open c) \<or> (\<exists>l. k = LowPrio l)" using established_place [OF q(4) _ q(3)] p(2) qp by simp
    then have "k = Open (s_context so) \<and> low_prio_state so \<noteq> 1 \<or> k = LowPrio (c_loop y) \<and> low_prio_state so = 1"
      using q(5) so(1) y(1) by (auto simp: placed_def views)
    with that so y p q(2,4) qp show thesis by blast
  qed
qed

lemma going_open:
  assumes i: "inv_with E h L C" and s: "s \<in> set (L (Open c))" and e: "established h s"
  shows "going h s" "\<not> queued h s"
proof -
  have "live h s" by (rule open_socket_facts [OF i s])
  with e show "going h s" by (simp add: going_def)
  obtain so where "socks h s = Some so" "low_prio_state so \<noteq> 1" by (rule wfd_open [OF invD(1) [OF i] s])
  then show "\<not> queued h s" by (simp add: queued_def)
qed

lemma goingI:
  assumes i: "inv_with E h L C" and s: "socks h s = Some so" "\<not> us_socket_is_closed so" "established h s"
  shows "going h s"
proof -
  have w: "wfd {} h L C" by (rule invD(1) [OF i])
  have "listens h s = None"
  proof (rule ccontr)
    assume n: "listens h s \<noteq> None"
    show False
    proof (rule live_socket [OF i s(1,2)])
      fix y z q k
      assume q: "polls h s = Some q" "s \<in> set (L k)" "doubly k" "poll_ok (be E) k q" "placed (shape h) k s"
      have "us_socket_is_established q" using s(3) q(1) by (auto simp: established_def)
      from established_place [OF q(4) this q(3)] q(5) n show False by (auto simp: placed_def)
    qed
  qed
  with s show ?thesis by (auto simp: going_def live_def)
qed

lemma going_calls: "only_calls h h' \<Longrightarrow> going h' s = going h s" "only_calls h h' \<Longrightarrow> queued h' s = queued h s"
  by (auto simp: going_def live_def established_def queued_def only_calls_def)

context app
begin

subsection \<open>Callbacks\<close>

lemma accept_poll_event_calls:
  "polls h p = Some x \<Longrightarrow> \<exists>h'. us_internal_accept_poll_event E h p = Some h' \<and> only_calls h h'"
  by (cases "be E") (simp_all add: us_internal_accept_poll_event_def)

lemma dispatch_callback_ok:
  assumes i: "inv_with E h L C" and cb: "cbs h p = Some cb" "is_user (cb_cb cb) \<or> cb_cb cb = SweepTimerCb"
  shows "ran E h (dispatch_callback E h p)"
proof -
  have ok: "cb_ok h p cb" using invD(5) [OF i] cb(1) unfolding cbsI_def by blast
  then obtain x where x: "polls h p = Some x" by (auto simp: cb_ok_def split: option.splits)
  let ?r = "if leave_poll_ready cb = 0 then us_internal_accept_poll_event E h p else Some h"
  obtain h1 where h1: "?r = Some h1" "only_calls h h1"
    using accept_poll_event_calls [OF x] by (cases "leave_poll_ready cb = 0") auto
  note c = only_callsD [OF h1(2)]
  have i1: "inv_with E h1 L C" using i c by simp
  show ?thesis
  proof (cases "cb_cb cb = SweepTimerCb")
    case True
    obtain z where z: "loops h1 (cb_loop cb) = Some z" using ok c by (auto simp: cb_ok_def)
    obtain h' L' C' where s: "us_internal_timer_sweep E h1 (cb_loop cb) = Some h'" "inv_with E h' L' C'" "runs h1 h'"
      using us_internal_timer_sweep_ok [OF i1 z] .
    have "dispatch_callback E h p = Some h'"
      using cb(1) h1(1) True s(1) c by (simp add: dispatch_callback_def sweep_timer_cb_def)
    then show ?thesis by (rule ranI [OF _ s(2) runs_trans [OF runs_calls [OF h1(2)] s(3)]])
  next
    case False
    then have f: "is_user (cb_cb cb)" using cb(2) by simp
    let ?ev = "if cb_expects_the_loop cb \<noteq> 0 then LoopCb (cb_loop cb) else PollCb p"
    have "event_ok h1 ?ev" by (simp add: event_ok_def)
    from call_user [OF i1 f this] obtain r h' L' C' where r: "call_fn E (cb_cb cb) ?ev h1 = Some (r, h')"
      "inv_with E h' L' C'" "evolves h1 L h' L'" by metis
    have "dispatch_callback E h p = Some h'"
      using cb(1) h1(1) False r(1) by (simp add: dispatch_callback_def)
    then show ?thesis by (rule ranI [OF _ r(2) runs_trans [OF runs_calls [OF h1(2)] runs_evolves [OF r(3)]]])
  qed
qed

subsection \<open>Closing from the loop\<close>

lemma us_socket_close_ok:
  assumes i: "inv_with E h L C" and s: "live h s"
  obtains r h' L' C' where "us_socket_close E h s code reason = Some (r, h')" "inv_with E h' L' C'" "evolves h L h' L'"
proof -
  obtain so where so: "socks h s = Some so" "\<not> us_socket_is_closed so" "listens h s = None"
    using s by (auto simp: live_def)
  obtain h1 L1 p where c: "close_quietly E h s = Some h1" "inv_with E h1 L1 C" "evolves h L h1 L1"
    "\<exists>so'. socks h1 s = Some so' \<and> us_socket_is_closed so' \<and> s_context so' = s_context so"
    "has_handlers h1 (s_context so)"
    using close_quietly_ok [OF i so] by metis
  obtain so' where so': "socks h1 s = Some so'" "us_socket_is_closed so'" "s_context so' = s_context so" using c(4) by blast
  obtain y where y: "ctxs h1 (s_context so') = Some y" "handlers_set y"
    using c(5) so'(3) by (auto simp: has_handlers_def split: option.splits)
  have f: "is_user (on_close y)" using y(2) by (simp add: handlers_set_def)
  have "event_ok h1 (OnClose s code reason)" using so' by (simp add: event_ok_def)
  from call_user [OF c(2) f this] obtain r h' L' C' where r: "call_fn E (on_close y) (OnClose s code reason) h1 = Some (r, h')"
    "inv_with E h' L' C'" "evolves h1 L1 h' L'" by metis
  show thesis
    by (rule that [OF _ r(2) evolves_trans [OF c(3) r(3)]])
      (use us_socket_close_unfold [OF so(1,2) c(1) so'(1) y(1)] r(1) in simp)
qed

subsection \<open>Connecting\<close>

text \<open>The state of a poll after the connection is made: an established socket that waits for data.\<close>

lemma connected_poll_ok:
  assumes "us_internal_poll_type x = POLL_TYPE_SOCKET"
  shows "poll_ok b (Open c) x"
  using assms by (simp add: poll_ok_def)

lemma connect_error_ok:
  assumes i: "inv_with E h L C" and s: "s \<in> set (L (Open c))" "polls h s = Some p"
    "us_internal_poll_type p = POLL_TYPE_SEMI_SOCKET"
  shows "ran E h (dispatch_connect E h s True)"
proof -
  obtain so y where so: "socks h s = Some so" "ctxs h c = Some y" "handlers_set y" "live h s" "s_context so = c"
    using open_socket_facts [OF i s(1)] .
  have f: "is_user (on_connect_error y)" using so(3) by (simp add: handlers_set_def)
  have "event_ok h (OnConnectError s 0)" using so(4) by (simp add: event_ok_def)
  from call_user [OF i f this] obtain r h1 L1 C1 where r: "call_fn E (on_connect_error y) (OnConnectError s 0) h = Some (r, h1)"
    "inv_with E h1 L1 C1" "evolves h L h1 L1" by metis
  have "connecting_in h L s" using s by (auto simp: connecting_in_def)
  then have k: "connecting_in h1 L1 s \<or> closed_in L1 s" using evolvesD(6) [OF r(3)] by blast
  have w1: "wfd {} h1 L1 C1" by (rule invD(1) [OF r(2)])
  obtain so1 where so1: "socks h1 s = Some so1"
    "us_socket_is_closed so1 \<or> (listens h1 s = None \<and> low_prio_state so1 \<noteq> 1)"
  proof (cases "closed_in L1 s")
    case True
    then obtain l where l: "s \<in> set (L1 (Closed l))" by (auto simp: closed_in_def)
    obtain so1 where so1: "socks h1 s = Some so1" using wfd_listed [OF w1 l] .
    then have "us_socket_is_closed so1" using closed_socket [OF r(2) so1] True by simp
    with so1 that show thesis by blast
  next
    case False
    with k obtain c' where c': "s \<in> set (L1 (Open c'))" by (auto simp: connecting_in_def)
    obtain so1 where so1: "socks h1 s = Some so1" "low_prio_state so1 \<noteq> 1" by (rule wfd_open [OF w1 c'])
    have "live h1 s" by (rule open_socket_facts [OF r(2) c'])
    with so1 that show thesis by (simp add: live_def)
  qed
  obtain h2 L2 where c: "us_socket_close_connecting E h1 s = Some (s, h2)" "inv_with E h2 L2 C1" "evolves h1 L1 h2 L2"
    using us_socket_close_connecting_ok [OF r(2) so1] by metis
  have "dispatch_connect E h s True = Some h2"
    using so(1,2,5) r(1) c(1) by (simp add: dispatch_connect_def)
  then show ?thesis by (rule ranI [OF _ c(2) runs_trans [OF runs_evolves [OF r(3)] runs_evolves [OF c(3)]]])
qed

lemma connect_done_ok:
  assumes i: "inv_with E h L C" and s: "s \<in> set (L (Open c))" "polls h s = Some p"
    "us_internal_poll_type p = POLL_TYPE_SEMI_SOCKET" "us_poll_events (be E) p = LIBUS_SOCKET_WRITABLE (be E)"
  shows "ran E h (dispatch_connect E h s False)"
proof -
  have w: "wfd {} h L C" by (rule invD(1) [OF i])
  obtain so y z where so: "socks h s = Some so" "ctxs h c = Some y" "handlers_set y" "s_context so = c"
    "loops h (c_loop y) = Some z"
    using open_socket_facts [OF i s(1)] .
  let ?R = "LIBUS_SOCKET_READABLE (be E)" and ?l = "c_loop y"
  let ?p1 = "with_events (be E) p ?R"
  let ?p2 = "with_type ?p1 POLL_TYPE_SOCKET"
  have ne: "us_poll_events (be E) p \<noteq> ?R" using s(4) by (cases "be E") (simp_all add: event_consts)
  let ?c = "poll_syscall E EPOLL_CTL_MOD (l_fd z) (us_poll_fd p) (us_poll_events (be E) p) ?R s"
  have r1: "us_poll_change E h s ?l ?R = Some (do_sys (h\<lparr>polls := (polls h)(s \<mapsto> ?p1)\<rparr>) ?c)"
    using us_poll_change_result [where E = E, OF s(2) so(5), of ?R] ne by simp
  let ?g = "bsd_socket_nodelay (do_sys (h\<lparr>polls := (polls h)(s \<mapsto> ?p1)\<rparr>) ?c) (us_poll_fd ?p1) 1"
  have pg: "polls ?g s = Some ?p1" "polls ?g = (polls h)(s \<mapsto> ?p1)" by (simp_all add: bsd_socket_nodelay_def do_sys_def)
  have pg0: "polls (do_sys (h\<lparr>polls := (polls h)(s \<mapsto> ?p1)\<rparr>) ?c) s = Some ?p1" by (simp add: do_sys_def)
  let ?h2 = "?g\<lparr>polls := (polls ?g)(s \<mapsto> ?p2)\<rparr>"
  have h2: "?h2 = (h\<lparr>polls := (polls h)(s \<mapsto> ?p2)\<rparr>)\<lparr>trace := trace ?g\<rparr>"
    by (simp add: bsd_socket_nodelay_def do_sys_def)
  have t3: "POLL_TYPE_SOCKET AND 3 = POLL_TYPE_SOCKET" by simp
  have ty: "us_internal_poll_type ?p2 = POLL_TYPE_SOCKET" by (rule with_type_simps(2) [OF t3])
  have po: "poll_ok (be E) k ?p2" if "s \<in> set (L k)" for k
    using ok_unique [OF w that s(1)] connected_poll_ok [OF ty] by simp
  have nc: "cbs h s = None" by (rule wfd_sock(3) [OF w so(1)])
  have "inv_with E (h\<lparr>polls := (polls h)(s \<mapsto> ?p2)\<rparr>) L C"
    by (rule invd_poll [OF i s(2) po]) (use nc in auto)
  then have i2: "inv_with E ?h2 L C" unfolding h2 invd_trace .
  have r2: "runs h ?h2" by (auto simp: runs_def loop_keeps_def bsd_socket_nodelay_def do_sys_def)
  have s2: "socks ?h2 s = Some so" using so(1) by (simp add: bsd_socket_nodelay_def do_sys_def)
  obtain t where t: "us_socket_timeout ?h2 s 0 = Some (?h2\<lparr>socks := (socks ?h2)(s \<mapsto> so\<lparr>timeout := t\<rparr>)\<rparr>)"
    "inv_with E (?h2\<lparr>socks := (socks ?h2)(s \<mapsto> so\<lparr>timeout := t\<rparr>)\<rparr>) L C"
    "evolves ?h2 L (?h2\<lparr>socks := (socks ?h2)(s \<mapsto> so\<lparr>timeout := t\<rparr>)\<rparr>) L"
    by (rule us_socket_timeout_ok [OF i2 s2, of 0]) simp_all
  let ?h3 = "?h2\<lparr>socks := (socks ?h2)(s \<mapsto> so\<lparr>timeout := t\<rparr>)\<rparr>"
  have est: "established ?h3 s" using ty by (simp add: established_def us_socket_is_established_def)
  note g = going_open [OF t(2) s(1) est]
  have ev: "event_ok ?h3 (OnOpen s 1 [])" using g by (simp add: event_ok_def going_def)
  have f: "is_user (on_open y)" using so(3) by (simp add: handlers_set_def)
  from call_user [OF t(2) f ev] obtain r h' L' C' where r: "call_fn E (on_open y) (OnOpen s 1 []) ?h3 = Some (r, h')"
    "inv_with E h' L' C'" "evolves ?h3 L h' L'" by metis
  have "dispatch_connect E h s False = Some h'"
    using so(1,2,4) r1 pg0 set_type_result [OF pg(1), of POLL_TYPE_SOCKET] t(1) r(1)
    by (simp add: dispatch_connect_def)
  moreover have "runs h h'"
    by (rule runs_trans [OF r2 runs_trans [OF runs_evolves [OF t(3)] runs_evolves [OF r(3)]]])
  ultimately show ?thesis by (rule ranI [OF _ r(2)])
qed

subsection \<open>Accepting\<close>

lemma quiet_make_socket:
  assumes "make_socket E h l c f t ev = Some (p, h')"
  shows "quiet h h'"
  using assms
  by (cases "be E") (auto simp: make_socket_def us_create_poll_def us_poll_init_def us_poll_start_def kqueue_change_def
      set_defs quiet_def waits_def Let_def bind_eq_Some_conv split: if_splits)

lemma quiet_accept_socket:
  assumes "bsd_accept_socket E h f = (Some r, h')"
  shows "\<exists>u. trace h' = trace h @ Sys (Accept f) # u \<and> no_waits u"
  using assms
  by (cases "be E") (auto simp: bsd_accept_socket_def sys_def do_sys_def bsd_set_nonblocking_def apple_no_sigpipe_def
      waits_def split: if_splits)

lemma accept_one_ok:
  assumes i: "inv_with E h L C" and ls: "ls \<in> set (L (Listen c))"
  obtains h' L' C' where "accept_one E h ls f addr = Some h'" "inv_with E h' L' C'" "evolves h L h' L'" "quiet h h'"
proof -
  have w: "wfd {} h L C" by (rule invD(1) [OF i])
  obtain so where so: "socks h ls = Some so" "placed (shape h) (Listen c) ls" using wfd_listed [OF w ls] .
  have sc: "s_context so = c" using so by (simp add: placed_def views)
  have "has_handlers h c" using invD(4) [OF i] ls so(1) sc unfolding handI_def by fastforce
  then obtain y where y: "ctxs h c = Some y" "handlers_set y" by (auto simp: has_handlers_def split: option.splits)
  let ?R = "LIBUS_SOCKET_READABLE (be E)"
  have t3: "POLL_TYPE_SOCKET AND 3 = POLL_TYPE_SOCKET" by simp
  have po: "poll_ok (be E) (Open c) x" if "us_internal_poll_type x = POLL_TYPE_SOCKET" for x
    by (rule connected_poll_ok [OF that])
  obtain p h1 x where m: "make_socket E h (c_loop y) c f POLL_TYPE_SOCKET ?R = Some (p, h1)"
    "us_internal_poll_type x = POLL_TYPE_SOCKET"
    "\<And>tr. \<exists>h2. us_internal_socket_context_link_socket (h1\<lparr>trace := tr\<rparr>) c p = Some h2 \<and>
      inv_with E h2 (L(Open c := p # L (Open c))) C \<and> evolves h L h2 (L(Open c := p # L (Open c))) \<and>
      ctxs h2 = (ctxs h)(c \<mapsto> y\<lparr>head_sockets := p\<rparr>) \<and> polls h2 = (polls h)(p \<mapsto> x) \<and> trace h2 = tr \<and>
      p \<in> dom (socks h2)"
    using open_socket_ok [OF i alloc y t3 event_set_intros(2) po] by metis
  let ?t = "trace h1 @ [Sys (Setsockopt f TcpNodelay 1)]"
  obtain h2 where h2: "us_internal_socket_context_link_socket (h1\<lparr>trace := ?t\<rparr>) c p = Some h2"
    "inv_with E h2 (L(Open c := p # L (Open c))) C" "evolves h L h2 (L(Open c := p # L (Open c)))"
    "ctxs h2 = (ctxs h)(c \<mapsto> y\<lparr>head_sockets := p\<rparr>)" "polls h2 = (polls h)(p \<mapsto> x)" "trace h2 = ?t"
    using m(3) [of ?t] by blast
  have n: "bsd_socket_nodelay h1 f 1 = h1\<lparr>trace := ?t\<rparr>" by (simp add: bsd_socket_nodelay_def do_sys_def)
  have p: "p \<in> set ((L(Open c := p # L (Open c))) (Open c))" by simp
  have est: "established h2 p" using h2(5) m(2) by (simp add: established_def us_socket_is_established_def)
  have ev: "event_ok h2 (OnOpen p 0 (bsd_addr_bytes addr))"
    using going_open [OF h2(2) p est] by (simp add: event_ok_def going_def)
  have f: "is_user (on_open y)" using y(2) by (simp add: handlers_set_def)
  obtain r h' L' C' where r: "call_fn E (on_open y) (OnOpen p 0 (bsd_addr_bytes addr)) h2 = Some (r, h')"
    "inv_with E h' L' C'" "evolves h2 (L(Open c := p # L (Open c))) h' L'" "quiet h2 h'"
    using call_user_quiet [OF h2(2) f ev] by metis
  show thesis
  proof (rule that [OF _ r(2) evolves_trans [OF h2(3) r(3)]])
    show "accept_one E h ls f addr = Some h'"
      unfolding accept_one_make using so(1) sc y(1) m(1) n h2(1,4) r(1) by simp
    have "quiet h h1" by (rule quiet_make_socket [OF m(1)])
    moreover have "quiet h1 h2" using h2(6) by (simp add: quiet_def waits_def)
    ultimately show "quiet h h'" using quiet_trans r(4) by blast
  qed
qed

end

text \<open>
  The kernel: between two waits for events only so many connections can be accepted on a listen
  socket (\<open>backlog\<close>), which is what ends the accept loop.
\<close>

locale server = app +
  fixes backlog :: "trace_t \<Rightarrow> nat"
  assumes accepts_end: "sys_ret E t (Accept f) \<noteq> -1 \<Longrightarrow> no_waits u \<Longrightarrow> backlog (t @ Sys (Accept f) # u) < backlog t"

context server
begin

lemma accept_loop_ok:
  assumes "inv_with E h L C" "ls \<in> set (L (Listen c))" "trace h = t @ Sys (Accept f) # u" "no_waits u"
    "sys_ret E t (Accept f) \<noteq> -1"
  shows "ran E h (accept_loop E h ls cfd addr)"
  using assms
proof (induction "backlog t" arbitrary: h L C t u f cfd addr rule: less_induct)
  case less
  note i = less.prems(1)
  obtain h1 L1 C1 where a: "accept_one E h ls cfd addr = Some h1" "inv_with E h1 L1 C1" "evolves h L h1 L1" "quiet h h1"
    using accept_one_ok [OF i less.prems(2)] .
  have w1: "wfd {} h1 L1 C1" by (rule invD(1) [OF a(2)])
  note rn = runs_evolves [OF a(3)]
  consider "closed_in L1 ls" | "ls \<in> set (L1 (Listen c))" using evolvesD(5) [OF a(3) _ less.prems(2)] by blast
  then show ?case
  proof cases
    case 1
    then obtain l where l: "ls \<in> set (L1 (Closed l))" by (auto simp: closed_in_def)
    obtain so where so: "socks h1 ls = Some so" using wfd_listed [OF w1 l] .
    then have "us_socket_is_closed so" using closed_socket [OF a(2) so] 1 by simp
    then have "accept_loop E h ls cfd addr = Some h1" using a(1) so by (subst accept_loop.simps) simp
    then show ?thesis by (rule ranI [OF _ a(2) rn])
  next
    case 2
    obtain so p where so: "socks h1 ls = Some so" "polls h1 ls = Some p" using wfd_listed [OF w1 2] .
    have "\<not> closed_in L1 ls" using ok_unique [OF w1 2] by (auto simp: closed_in_def)
    then have nc: "\<not> us_socket_is_closed so" using closed_socket [OF a(2) so(1)] by simp
    let ?g = "us_poll_fd p"
    obtain r h2 where b: "bsd_accept_socket E h1 ?g = (r, h2)" by fastforce
    have c2: "only_calls h1 h2" using only_calls_bsd(11) [of h1 E ?g] b by simp
    have i2: "inv_with E h2 L1 C1" using a(2) only_callsD(1) [OF c2] by simp
    have rn2: "runs h h2" by (rule runs_trans [OF rn runs_calls [OF c2]])
    show ?thesis
    proof (cases r)
      case None
      then have "accept_loop E h ls cfd addr = Some h2" using a(1) so nc b by (subst accept_loop.simps) simp
      then show ?thesis by (rule ranI [OF _ i2 rn2])
    next
      case (Some v)
      then have step: "accept_loop E h ls cfd addr = accept_loop E h2 ls (fst v) (snd v)"
        using a(1) so nc b by (subst accept_loop.simps) simp
      obtain u2 where u2: "trace h2 = trace h1 @ Sys (Accept ?g) # u2" "no_waits u2"
        using quiet_accept_socket b Some by blast
      obtain u1 where u1: "trace h1 = trace h @ u1" "no_waits u1" using a(4) by (auto simp: quiet_def)
      have ok: "sys_ret E (trace h1) (Accept ?g) \<noteq> -1"
        using b Some by (auto simp: bsd_accept_socket_def sys_def split: if_splits)
      have t1: "trace h1 = t @ Sys (Accept f) # (u @ u1)" using u1(1) less.prems(3) by simp
      have "backlog (trace h1) < backlog t"
        unfolding t1 by (rule accepts_end [OF less.prems(5)]) (use less.prems(4) u1(2) in simp)
      from less.hyps [OF this i2 2 u2 ok] show ?thesis unfolding step by (rule ran_after [OF rn2])
    qed
  qed
qed

lemma dispatch_listen_ok:
  assumes i: "inv_with E h L C" and ls: "ls \<in> set (L (Listen c))"
  shows "ran E h (dispatch_listen E h ls)"
proof -
  have w: "wfd {} h L C" by (rule invD(1) [OF i])
  obtain so p where so: "socks h ls = Some so" "polls h ls = Some p" "placed (shape h) (Listen c) ls" using wfd_listed [OF w ls] .
  obtain x where x: "listens h ls = Some x" using so(3) by (auto simp: placed_def)
  let ?g = "us_poll_fd p"
  obtain r h2 where b: "bsd_accept_socket E h ?g = (r, h2)" by fastforce
  have c2: "only_calls h h2" using only_calls_bsd(11) [of h E ?g] b by simp
  have i2: "inv_with E h2 L C" using i only_callsD(1) [OF c2] by simp
  show ?thesis
  proof (cases r)
    case None
    then have "dispatch_listen E h ls = Some h2" using so x b by (simp add: dispatch_listen_def)
    then show ?thesis by (rule ranI [OF _ i2 runs_calls [OF c2]])
  next
    case (Some v)
    then have step: "dispatch_listen E h ls = accept_loop E h2 ls (fst v) (snd v)"
      using so x b by (simp add: dispatch_listen_def)
    obtain u2 where u2: "trace h2 = trace h @ Sys (Accept ?g) # u2" "no_waits u2"
      using quiet_accept_socket b Some by blast
    have ok: "sys_ret E (trace h) (Accept ?g) \<noteq> -1"
      using b Some by (auto simp: bsd_accept_socket_def sys_def split: if_splits)
    show ?thesis unfolding step by (rule ran_after [OF runs_calls [OF c2] accept_loop_ok [OF i2 ls u2 ok]])
  qed
qed

end

context app
begin

subsection \<open>Writable sockets\<close>

lemma dispatch_writable_ok:
  assumes i: "inv_with E h L C" and g: "going h s"
  obtains v h' L' C' where "dispatch_writable E h s = Some (v, h')" "inv_with E h' L' C'" "runs h h'"
    "\<forall>s'. v = Some s' \<longrightarrow> going h' s' \<and> (queued h' s' \<longrightarrow> queued h s)"
proof -
  obtain so y z where so: "socks h s = Some so" "ctxs h (s_context so) = Some y" "handlers_set y"
    "loops h (c_loop y) = Some z"
    using going_place [OF i g] .
  let ?h1 = "h\<lparr>loops := (loops h)(c_loop y \<mapsto> z\<lparr>last_write_failed := 0\<rparr>)\<rparr>"
  note sl = set_last_write_failed_ok [OF i so(4), where v = 0]
  have f: "is_user (on_writable y)" using so(3) by (simp add: handlers_set_def)
  have ev: "event_ok ?h1 (OnWritable s)" using g by (simp add: event_ok_def going_def live_def established_def)
  obtain r h2 L2 C2 where r: "call_fn E (on_writable y) (OnWritable s) ?h1 = Some (r, h2)"
    "inv_with E h2 L2 C2" "evolves ?h1 L h2 L2" "reply_ok (OnWritable s) r ?h1 h2"
    using call_user [OF sl(2) f ev] .
  have rn: "runs h h2" by (rule runs_trans [OF runs_evolves [OF sl(3)] runs_evolves [OF r(3)]])
  obtain so2 where so2: "socks h2 r = Some so2"
    "us_socket_is_closed so2 \<or> (established h2 r \<and> (queued h2 r \<longrightarrow> queued ?h1 s))"
    using r(4) by (auto simp: reply_ok_def)
  have q1: "queued ?h1 s = queued h s" by (simp add: queued_def)
  show thesis
  proof (cases "us_socket_is_closed so2")
    case True
    have "dispatch_writable E h s = Some (None, h2)"
      using so(1,2) sl(1) r(1) so2(1) True by (simp add: dispatch_writable_def)
    then show thesis by (rule that [OF _ r(2) rn]) simp
  next
    case False
    then have e: "established h2 r" and q: "queued h2 r \<longrightarrow> queued h s" using so2(2) q1 by simp_all
    have g2: "going h2 r" by (rule goingI [OF r(2) so2(1) False e])
    obtain so3 y2 z2 p k where k: "socks h2 r = Some so3" "ctxs h2 (s_context so3) = Some y2" "loops h2 (c_loop y2) = Some z2"
      "polls h2 r = Some p" "us_socket_is_established p" "r \<in> set (L2 k)" "poll_ok (be E) k p"
      "k = Open (s_context so3) \<and> low_prio_state so3 \<noteq> 1 \<or> k = LowPrio (c_loop y2) \<and> low_prio_state so3 = 1"
      using going_place [OF r(2) g2] by metis
    have s3: "so3 = so2" using k(1) so2(1) by simp
    let ?ev = "us_poll_events (be E) p AND LIBUS_SOCKET_READABLE (be E)"
    show thesis
    proof (cases "last_write_failed z2 = 0 \<or> us_socket_is_shut_down p")
      case d: False
      have "dispatch_writable E h s = Some (Some r, h2)"
        using so(1,2) sl(1) r(1) so2(1) False s3 k(2,3,4) d by (simp add: dispatch_writable_def)
      then show thesis by (rule that [OF _ r(2) rn]) (use g2 q in simp)
    next
      case True
      have ev: "event_set (be E) ?ev" by simp
      have po: "poll_ok (be E) k' (with_events (be E) p ?ev)" if "r \<in> set (L2 k')" for k'
      proof -
        have kk: "k' = k" by (rule ok_unique [OF invD(1) [OF r(2)] that k(6)])
        have t: "us_internal_poll_type p \<noteq> POLL_TYPE_SEMI_SOCKET" "us_internal_poll_type p \<noteq> POLL_TYPE_CALLBACK"
          using k(5,7,8) by (auto simp: us_socket_is_established_def poll_ok_def)
        show ?thesis using k(7,8) t unfolding kk by (auto simp: poll_ok_def)
      qed
      show thesis
      proof (rule poll_change_ok [OF r(2) k(4,3) ev po, where X = "{}"])
        fix p' t
        let ?h3 = "h2\<lparr>polls := (polls h2)(r \<mapsto> p'), trace := trace h2 @ t\<rparr>"
        assume c: "us_poll_change E h2 r (c_loop y2) ?ev = Some ?h3" "inv_with E ?h3 L2 C2" "evolves h2 L2 ?h3 L2"
          "us_internal_poll_type p' = us_internal_poll_type p"
        have "dispatch_writable E h s = Some (Some r, ?h3)"
          using so(1,2) sl(1) r(1) so2(1) False s3 k(2,3,4) True c(1) by (simp add: dispatch_writable_def)
        moreover have "going ?h3 r" "queued ?h3 r = queued h2 r"
          using g2 c(4) k(4,5) by (auto simp: going_def live_def established_def queued_def us_socket_is_established_def)
        ultimately show thesis
          by (intro that [OF _ c(2) runs_trans [OF rn runs_evolves [OF c(3)]]]) (use q in auto)
      qed
    qed
  qed
qed

subsection \<open>Deciding and reading\<close>

lemma low_prio_decide_ok:
  assumes i: "inv_with E h L C" and g: "going h s" "\<not> queued h s"
  obtains go h' L' C' where "low_prio_decide E h s = Some (go, h')" "inv_with E h' L' C'" "runs h h'"
    "go \<longrightarrow> going h' s \<and> \<not> queued h' s"
proof -
  obtain so y z p k where so: "socks h s = Some so" "ctxs h (s_context so) = Some y" "handlers_set y"
    "loops h (c_loop y) = Some z" "s \<in> set (L k)"
    "k = Open (s_context so) \<and> low_prio_state so \<noteq> 1 \<or> k = LowPrio (c_loop y) \<and> low_prio_state so = 1"
    using going_place [OF i g(1)] by metis
  have ls: "low_prio_state so \<noteq> 1" using g(2) so(1) by (simp add: queued_def)
  then have o: "s \<in> set (L (Open (s_context so)))" using so(5,6) by auto
  have ev: "event_ok h (IsLowPrio s)" using g by (simp add: event_ok_def going_def)
  obtain low h1 where c: "call_fn E (is_low_prio y) (IsLowPrio s) h = Some (low, h1)" "only_calls h h1"
  proof (cases "is_user (is_low_prio y)")
    case True
    from call_user [OF i True ev] obtain r h' where "call_fn E (is_low_prio y) (IsLowPrio s) h = Some (r, h')"
      "reply_ok (IsLowPrio s) r h h'" by metis
    with that show thesis by (simp add: reply_ok_def)
  next
    case False
    then have "is_low_prio y = DefaultIsLowPrio" using so(3) by (simp add: handlers_set_def)
    with that [of 0 h] show thesis by (simp add: call_fn_def)
  qed
  note cD = only_callsD [OF c(2)]
  have i1: "inv_with E h1 L C" using i cD by simp
  have g1: "going h1 s" "\<not> queued h1 s" using g going_calls [OF c(2)] by simp_all
  have rn: "runs h h1" by (rule runs_calls [OF c(2)])
  have s1: "socks h1 s = Some so" "ctxs h1 (s_context so) = Some y" "loops h1 (c_loop y) = Some z"
    using so cD by simp_all
  show thesis
  proof (cases "low \<noteq> 0")
    case False
    have "low_prio_decide E h s = Some (True, h1)" using so(1,2) c(1) False by (simp add: low_prio_decide_def)
    then show thesis by (rule that [OF _ i1 rn]) (use g1 in simp)
  next
    case low: True
    show thesis
    proof (cases "low_prio_state so = 2")
      case True
      let ?h2 = "h1\<lparr>socks := (socks h1)(s \<mapsto> so\<lparr>low_prio_state := 0\<rparr>)\<rparr>"
      have "\<exists>c. k' = Open c" if "s \<in> set (L k')" for k' using ok_unique [OF invD(1) [OF i] that o] by blast
      then have i2: "inv_with E ?h2 L C" by (rule invd_state [OF i1 s1(1)]) simp_all
      have "runs h1 ?h2" by (rule runs_evolves [OF evolves_state])
      moreover have "low_prio_decide E h s = Some (True, ?h2)"
        using so(1,2) c(1) low s1 True by (simp add: low_prio_decide_def set_sock_def)
      moreover have "going ?h2 s" "\<not> queued ?h2 s"
        using g1 s1(1) by (auto simp: going_def live_def established_def queued_def us_socket_is_closed_def)
      ultimately show thesis by (intro that [OF _ i2 runs_trans [OF rn]]) auto
    next
      case n2: False
      show thesis
      proof (cases "low_prio_budget z > 0")
        case True
        let ?h2 = "h1\<lparr>loops := (loops h1)(c_loop y \<mapsto> z\<lparr>low_prio_budget := low_prio_budget z - 1\<rparr>)\<rparr>"
        note sb = set_budget_ok [OF i1 s1(3), where b = "low_prio_budget z - 1"]
        have "low_prio_decide E h s = Some (True, ?h2)"
          using so(1,2) c(1) low s1 n2 True by (simp add: low_prio_decide_def set_loop_def)
        moreover have "going ?h2 s" "\<not> queued ?h2 s"
          using g1 by (auto simp: going_def live_def established_def queued_def)
        ultimately show thesis by (intro that [OF _ sb(1) runs_trans [OF rn runs_evolves [OF sb(2)]]]) auto
      next
        case False
        have e1: "established h1 s" using g1(1) by (simp add: going_def)
        obtain h2 L2 where q: "low_prio_push E h1 s = Some h2" "inv_with E h2 L2 C" "evolves h1 L h2 L2"
          using low_prio_push_ok [OF i1 o e1] .
        have "low_prio_decide E h s = Some (False, h2)"
          using so(1,2) c(1) low s1 n2 False q(1) by (simp add: low_prio_decide_def)
        then show thesis by (rule that [OF _ q(2) runs_trans [OF rn runs_evolves [OF q(3)]]]) simp
      qed
    qed
  qed
qed

lemma dispatch_read_ok:
  assumes i: "inv_with E h L C" and g: "going h s" "\<not> queued h s"
  shows "ran E h (dispatch_read E h s)"
proof -
  obtain so y z p k where so: "socks h s = Some so" "ctxs h (s_context so) = Some y" "handlers_set y"
    "loops h (c_loop y) = Some z" "polls h s = Some p" "us_socket_is_established p" "s \<in> set (L k)" "poll_ok (be E) k p"
    "k = Open (s_context so) \<and> low_prio_state so \<noteq> 1 \<or> k = LowPrio (c_loop y) \<and> low_prio_state so = 1"
    using going_place [OF i g(1)] by metis
  have k: "k = Open (s_context so)" using so(1,9) g(2) by (auto simp: queued_def)
  obtain n bs h1 where b: "bsd_recv E h (us_poll_fd p) LIBUS_RECV_BUFFER_LENGTH 0 = (n, bs, h1)" by (metis prod_cases3)
  have c: "only_calls h h1" by (metis b only_calls_bsd(12) snd_conv)
  note cD = only_callsD [OF c]
  let ?z = "z\<lparr>recv_buf := bs\<rparr>"
  let ?h2 = "h1\<lparr>loops := (loops h1)(c_loop y \<mapsto> ?z)\<rparr>"
  have i1: "inv_with E h1 L C" and z1: "loops h1 (c_loop y) = Some z" using i so(4) cD by simp_all
  have i2: "inv_with E ?h2 L C" by (rule invd_loop_plain [OF i1 z1]) simp_all
  have "runs h1 ?h2" using z1 by (auto simp: runs_def loop_keeps_def)
  then have rn: "runs h ?h2" by (rule runs_trans [OF runs_calls [OF c]])
  have g2: "going ?h2 s" "\<not> queued ?h2 s"
    using g going_calls [OF c, of s] by (auto simp: going_def live_def established_def queued_def)
  have lv: "live ?h2 s" using g2(1) by (simp add: going_def)
  obtain r0 h0 L0 C0 where cl: "us_socket_close E ?h2 s 0 NULL = Some (r0, h0)" "inv_with E h0 L0 C0" "evolves ?h2 L h0 L0"
    using us_socket_close_ok [OF i2 lv] .
  have rc: "runs h h0" by (rule runs_trans [OF rn runs_evolves [OF cl(3)]])
  consider "n > 0" | "n = 0" "us_socket_is_shut_down p" | "n = 0" "\<not> us_socket_is_shut_down p"
    | "n < 0" "n = LIBUS_SOCKET_ERROR \<and> \<not> bsd_would_block E ?h2"
    | "n < 0" "\<not> (n = LIBUS_SOCKET_ERROR \<and> \<not> bsd_would_block E ?h2)" by linarith
  then show ?thesis
  proof cases
    case 1
    have f: "is_user (on_data y)" using so(3) by (simp add: handlers_set_def)
    have ev: "event_ok ?h2 (OnData s bs)" using g2 by (simp add: event_ok_def going_def)
    obtain r h' L' C' where r: "call_fn E (on_data y) (OnData s bs) ?h2 = Some (r, h')" "inv_with E h' L' C'"
      "evolves ?h2 L h' L'" "reply_ok (OnData s bs) r ?h2 h'" using call_user [OF i2 f ev] .
    have "dispatch_read E h s = Some h'"
      using so(1,2,5) b z1 1 r(1) by (simp add: dispatch_read_def set_loop_def)
    then show ?thesis by (rule ranI [OF _ r(2) runs_trans [OF rn runs_evolves [OF r(3)]]])
  next
    case 2
    have "dispatch_read E h s = Some h0"
      using so(1,2,5) b z1 2 cl(1) by (simp add: dispatch_read_def set_loop_def)
    then show ?thesis by (rule ranI [OF _ cl(2) rc])
  next
    case 3
    let ?ev = "us_poll_events (be E) p AND LIBUS_SOCKET_WRITABLE (be E)"
    have ev: "event_set (be E) ?ev" by simp
    have po: "poll_ok (be E) k' (with_events (be E) p ?ev)" if "s \<in> set (L k')" for k'
      using ok_unique [OF invD(1) [OF i] that so(7)] k so(6,8)
      by (auto simp: poll_ok_def us_socket_is_established_def)
    have p2: "polls ?h2 s = Some p" "loops ?h2 (c_loop y) = Some ?z" using so(5) cD by simp_all
    show ?thesis
    proof (rule poll_change_ok [OF i2 p2 ev po, where X = "{}"])
      fix p' t
      let ?h3 = "?h2\<lparr>polls := (polls ?h2)(s \<mapsto> p'), trace := trace ?h2 @ t\<rparr>"
      assume c3: "us_poll_change E ?h2 s (c_loop y) ?ev = Some ?h3" "inv_with E ?h3 L C" "evolves ?h2 L ?h3 L"
        "us_internal_poll_type p' = us_internal_poll_type p"
      have f: "is_user (on_end y)" using so(3) by (simp add: handlers_set_def)
      have "event_ok ?h3 (OnEnd s)"
        using g2 c3(4) so(6) by (auto simp: event_ok_def going_def live_def established_def queued_def us_socket_is_established_def)
      from call_user [OF c3(2) f this] obtain r h' L' C' where r: "call_fn E (on_end y) (OnEnd s) ?h3 = Some (r, h')"
        "inv_with E h' L' C'" "evolves ?h3 L h' L'" by metis
      have "dispatch_read E h s = Some h'"
        using so(1,2,5) b z1 3 c3(1) r(1) by (simp add: dispatch_read_def set_loop_def)
      then show ?thesis
        by (rule ranI [OF _ r(2) runs_trans [OF rn runs_trans [OF runs_evolves [OF c3(3)] runs_evolves [OF r(3)]]]])
    qed
  next
    case 4
    have "dispatch_read E h s = Some h0"
      using so(1,2,5) b z1 4 cl(1) by (simp add: dispatch_read_def set_loop_def)
    then show ?thesis by (rule ranI [OF _ cl(2) rc])
  next
    case 5
    have "dispatch_read E h s = Some ?h2"
      using so(1,2,5) b z1 5 by (auto simp: dispatch_read_def set_loop_def)
    then show ?thesis by (rule ranI [OF _ i2 rn])
  qed
qed

text \<open>A socket that polls for readable is not queued.\<close>

lemma reading_not_queued:
  assumes i: "inv_with E h L C" and g: "going h s" and p: "polls h s = Some p"
    and r: "us_poll_events (be E) p AND LIBUS_SOCKET_READABLE (be E) \<noteq> 0"
  shows "\<not> queued h s"
proof
  assume q: "queued h s"
  obtain so y q' k where k: "socks h s = Some so" "ctxs h (s_context so) = Some y" "polls h s = Some q'" "poll_ok (be E) k q'"
    "k = Open (s_context so) \<and> low_prio_state so \<noteq> 1 \<or> k = LowPrio (c_loop y) \<and> low_prio_state so = 1"
    using going_place [OF i g] by metis
  then have "k = LowPrio (c_loop y)" using q by (auto simp: queued_def)
  with k p r show False by (auto simp: poll_ok_def)
qed

lemma events_masked:
  "(ev AND w) AND b \<noteq> 0 \<Longrightarrow> w AND b \<noteq> (0::u32)"
  by (metis and.assoc and_zero_eq)

lemma dispatch_socket_ok:
  assumes i: "inv_with E h L C" and g: "going h s" and p: "polls h s = Some p"
  shows "ran E h (dispatch_socket E h s error (ev AND us_poll_events (be E) p))"
proof (cases error)
  case True
  have lv: "live h s" using g by (simp add: going_def)
  obtain r0 h0 L0 C0 where cl: "us_socket_close E h s 0 NULL = Some (r0, h0)" "inv_with E h0 L0 C0" "evolves h L h0 L0"
    using us_socket_close_ok [OF i lv] .
  have "dispatch_socket E h s error (ev AND us_poll_events (be E) p) = Some h0" using True cl(1) by (simp add: dispatch_socket_def)
  then show ?thesis by (rule ranI [OF _ cl(2) runs_evolves [OF cl(3)]])
next
  case ne: False
  let ?ev = "ev AND us_poll_events (be E) p"
  let ?W = "LIBUS_SOCKET_WRITABLE (be E)" and ?R = "LIBUS_SOCKET_READABLE (be E)"
  obtain v h1 L1 C1 where w: "(if ?ev AND ?W \<noteq> 0 then dispatch_writable E h s else Some (Some s, h)) = Some (v, h1)"
    "inv_with E h1 L1 C1" "runs h h1" "\<forall>s'. v = Some s' \<longrightarrow> going h1 s' \<and> (queued h1 s' \<longrightarrow> queued h s)"
  proof (cases "?ev AND ?W \<noteq> 0")
    case True
    obtain v h' L' C' where d: "dispatch_writable E h s = Some (v, h')" "inv_with E h' L' C'" "runs h h'"
      "\<forall>s'. v = Some s' \<longrightarrow> going h' s' \<and> (queued h' s' \<longrightarrow> queued h s)" using dispatch_writable_ok [OF i g] .
    show thesis by (rule that [OF _ d(2-4)]) (use d(1) True in simp)
  next
    case False
    show thesis by (rule that [OF _ i runs_refl, of "Some s"]) (use False g in auto)
  qed
  show ?thesis
  proof (cases v)
    case None
    then have "dispatch_socket E h s error ?ev = Some h1" using ne w(1) by (simp add: dispatch_socket_def)
    then show ?thesis by (rule ranI [OF _ w(2,3)])
  next
    case (Some s')
    show ?thesis
    proof (cases "?ev AND ?R \<noteq> 0")
      case False
      then have "dispatch_socket E h s error ?ev = Some h1" using ne w(1) Some by (simp add: dispatch_socket_def)
      then show ?thesis by (rule ranI [OF _ w(2,3)])
    next
      case True
      have "\<not> queued h s" by (rule reading_not_queued [OF i g p events_masked [OF True]])
      then have g1: "going h1 s'" "\<not> queued h1 s'" using w(4) Some by auto
      obtain go h2 L2 C2 where d: "low_prio_decide E h1 s' = Some (go, h2)" "inv_with E h2 L2 C2" "runs h1 h2"
        "go \<longrightarrow> going h2 s' \<and> \<not> queued h2 s'" using low_prio_decide_ok [OF w(2) g1] .
      have u: "dispatch_socket E h s error ?ev = (if go then dispatch_read E h2 s' else Some h2)"
        using ne w(1) Some True d(1) by (simp add: dispatch_socket_def)
      have rn: "runs h h2" by (rule runs_trans [OF w(3) d(3)])
      show ?thesis
      proof (cases go)
        case False
        then show ?thesis using u by (intro ranI [OF _ d(2) rn]) simp
      next
        case True
        then have "ran E h2 (dispatch_read E h2 s')" using dispatch_read_ok [OF d(2)] d(4) by blast
        then show ?thesis using u True ran_after [OF rn] by simp
      qed
    qed
  qed
qed

end

context server
begin

subsection \<open>Any ready poll\<close>

lemma dispatch_ready_poll_ok:
  assumes i: "inv_with E h L C" and e: "entry_ok h L l p" and x: "polls h p = Some x"
  shows "ran E h (us_internal_dispatch_ready_poll E h p error (ev AND us_poll_events (be E) x))"
proof (cases "\<exists>cb. cbs h p = Some cb \<and> cb_loop cb = l \<and> (is_user (cb_cb cb) \<or> cb_cb cb = SweepTimerCb)")
  case True
  then obtain cb where cb: "cbs h p = Some cb" "is_user (cb_cb cb) \<or> cb_cb cb = SweepTimerCb" by blast
  have "cb_ok h p cb" using invD(5) [OF i] cb(1) unfolding cbsI_def by blast
  then have "us_internal_poll_type x = POLL_TYPE_CALLBACK" using x by (simp add: cb_ok_def)
  then show ?thesis using dispatch_callback_ok [OF i cb] x by (simp add: us_internal_dispatch_ready_poll_def)
next
  case False
  then have s: "p \<in> dom (socks h)" "\<And>l'. p \<notin> set (L (Closed l'))" using e unfolding entry_ok_def by blast+
  obtain k where k: "p \<in> set (L k)" "doubly k" "poll_ok (be E) k x" "placed (shape h) k p"
    using entry_place [OF i s] x by (metis option.inject)
  have t: "us_internal_poll_type x \<noteq> POLL_TYPE_CALLBACK" using k(2,3) by (cases k) (simp_all add: poll_ok_def)
  show ?thesis
  proof (cases "us_internal_poll_type x = POLL_TYPE_SEMI_SOCKET")
    case semi: True
    show ?thesis
    proof (cases k)
      case (Open c)
      then have o: "p \<in> set (L (Open c))" and w: "us_poll_events (be E) x = LIBUS_SOCKET_WRITABLE (be E)"
        using k(1,3) semi by (simp_all add: poll_ok_def)
      have "ran E h (dispatch_connect E h p error)"
        using connect_error_ok [OF i o x semi] connect_done_ok [OF i o x semi w] by (cases error) simp_all
      then show ?thesis using x semi w by (simp add: us_internal_dispatch_ready_poll_def)
    next
      case (Listen c)
      then have ls: "p \<in> set (L (Listen c))" and r: "us_poll_events (be E) x = LIBUS_SOCKET_READABLE (be E)"
        using k(1,3) by (simp_all add: poll_ok_def)
      have "us_poll_events (be E) x \<noteq> LIBUS_SOCKET_WRITABLE (be E)"
        using r by (cases "be E") (simp_all add: event_consts)
      then show ?thesis using dispatch_listen_ok [OF i ls] x semi by (simp add: us_internal_dispatch_ready_poll_def)
    next
      case (LowPrio l')
      then show ?thesis using k(3) semi by (simp add: poll_ok_def)
    next
      case (Closed l')
      then show ?thesis using k(2) by simp
    qed
  next
    case False
    then have est: "established h p" using x by (simp add: established_def us_socket_is_established_def)
    obtain so where so: "socks h p = Some so" using s(1) by blast
    have "\<not> us_socket_is_closed so" using closed_socket [OF i so] s(2) by (simp add: closed_in_def)
    from goingI [OF i so this est] have g: "going h p" .
    show ?thesis using dispatch_socket_ok [OF i g x] x t False by (simp add: us_internal_dispatch_ready_poll_def)
  qed
qed

lemma entry_poll:
  assumes i: "inv_with E h L C" and e: "entry_ok h L l p"
  shows "p \<in> dom (polls h)"
proof (cases "p \<in> dom (socks h)")
  case True
  then show ?thesis using wfd_sock(2) [OF invD(1) [OF i]] by blast
next
  case False
  then obtain cb where "cbs h p = Some cb" using e unfolding entry_ok_def by blast
  then have "cb_ok h p cb" using invD(5) [OF i] unfolding cbsI_def by blast
  then show ?thesis by (auto simp: cb_ok_def split: option.splits)
qed

lemma dispatch_entry_ok:
  assumes i: "inv_with E h L C" and e: "re_poll r = NULL \<or> entry_ok h L l (re_poll r)"
  shows "ran E h (dispatch_entry E h r)"
proof (cases "re_poll r = NULL")
  case True
  then show ?thesis by (intro ranI [OF _ i runs_refl]) (simp add: dispatch_entry_def)
next
  case False
  with e have e': "entry_ok h L l (re_poll r)" by simp
  obtain x where x: "polls h (re_poll r) = Some x" using entry_poll [OF i e'] by blast
  let ?ev = "ready_entry_events (be E) r AND us_poll_events (be E) x" and ?er = "ready_entry_error (be E) r"
  show ?thesis
  proof (cases "?ev \<noteq> 0 \<or> ?er")
    case True
    then show ?thesis using dispatch_ready_poll_ok [OF i e' x] False x by (simp add: dispatch_entry_def)
  next
    case n: False
    then show ?thesis by (intro ranI [OF _ i runs_refl]) (use False x in \<open>simp add: dispatch_entry_def\<close>)
  qed
qed

lemma pending_step:
  assumes "0 \<le> current_ready_poll z" "current_ready_poll z < num_ready_polls z" "num_ready_polls z \<le> int (length (ready_polls z))"
  shows "pending z = (ready_polls z ! nat (current_ready_poll z)) #
    pending (z\<lparr>current_ready_poll := current_ready_poll z + 1\<rparr>)"
proof -
  let ?c = "nat (current_ready_poll z)" and ?n = "nat (num_ready_polls z)"
  have "?c < length (ready_polls z)" using assms by linarith
  then have d: "drop ?c (ready_polls z) = (ready_polls z ! ?c) # drop (Suc ?c) (ready_polls z)" by (rule Cons_nth_drop_Suc [symmetric])
  have k: "nat (num_ready_polls z - current_ready_poll z) = Suc (nat (num_ready_polls z - (current_ready_poll z + 1)))"
    "nat (current_ready_poll z + 1) = Suc ?c"
    using assms by linarith+
  show ?thesis by (simp add: pending_def d k)
qed

text \<open>The walk over the ready polls ends after at most \<open>num_ready_polls\<close> of them.\<close>

lemma dispatch_ready_polls_ok:
  assumes "inv_with E h L C" "loops h l = Some z"
  shows "\<exists>h' L' C'. dispatch_ready_polls E h l = Some h' \<and> inv_with E h' L' C' \<and> loops_stay h h'"
  using assms
proof (induction "nat (num_ready_polls z - current_ready_poll z)" arbitrary: h L C z rule: less_induct)
  case less
  note i = less.prems(1) and z = less.prems(2)
  note rd = readyD [OF invD(6) [OF i] z]
  have b: "0 \<le> current_ready_poll z" "num_ready_polls z \<le> int (length (ready_polls z))"
    using rd(1) by (simp_all add: ready_list_ok_def)
  show ?case
  proof (cases "current_ready_poll z < num_ready_polls z")
    case False
    then have "dispatch_ready_polls E h l = Some h" using z by (subst dispatch_ready_polls.simps) simp
    then show ?thesis using i by auto
  next
    case True
    let ?r = "ready_polls z ! nat (current_ready_poll z)"
    have ps: "pending z = ?r # pending (z\<lparr>current_ready_poll := current_ready_poll z + 1\<rparr>)"
      by (rule pending_step [OF b(1) True b(2)])
    then have "re_poll ?r \<in> re_poll ` set (pending z)" by simp
    with rd(2) have e: "re_poll ?r = NULL \<or> entry_ok h L l (re_poll ?r)" by blast
    have nb: "nat (current_ready_poll z) < length (ready_polls z)" using b True by linarith
    obtain h1 L1 C1 where r: "dispatch_entry E h ?r = Some h1" "inv_with E h1 L1 C1" "runs h h1"
      using dispatch_entry_ok [OF i e] by (rule ranE)
    obtain z1 where z1: "loops h1 l = Some z1" "loop_keeps z z1" using runs_loopD [OF r(3) z] .
    have k: "current_ready_poll z1 = current_ready_poll z" "num_ready_polls z1 = num_ready_polls z"
      using z1(2) by (simp_all add: loop_keeps_def)
    note rd1 = readyD [OF invD(6) [OF r(2)] z1(1)]
    have b1: "0 \<le> current_ready_poll z1" "num_ready_polls z1 \<le> int (length (ready_polls z1))"
      using rd1(1) by (simp_all add: ready_list_ok_def)
    let ?z2 = "z1\<lparr>current_ready_poll := current_ready_poll z1 + 1\<rparr>"
    let ?h2 = "h1\<lparr>loops := (loops h1)(l \<mapsto> ?z2)\<rparr>"
    have "current_ready_poll z1 < num_ready_polls z1" using True k by simp
    note ps1 = pending_step [OF b1(1) this b1(2)]
    have len: "length (filter (\<lambda>r. re_poll r = p) (pending ?z2)) \<le> length (filter (\<lambda>r. re_poll r = p) (pending z1))" for p
      unfolding ps1 by simp
    have sub: "set (pending ?z2) \<subseteq> set (pending z1)" unfolding ps1 by auto
    have ok2: "ready_list_ok (be E) ?z2"
      unfolding ready_list_ok_def
    proof (intro conjI ballI impI)
      fix p assume p: "p \<in> re_poll ` set (pending ?z2)" "p \<noteq> NULL"
      then have "p \<in> re_poll ` set (pending z1)" using sub by blast
      then have "length (filter (\<lambda>r. re_poll r = p) (pending z1)) \<le> max_entries (be E)"
        using rd1(1) p(2) unfolding ready_list_ok_def by blast
      with len show "length (filter (\<lambda>r. re_poll r = p) (pending ?z2)) \<le> max_entries (be E)" by (rule order.trans)
    qed (use b1 in simp_all)
    have i2: "inv_with E ?h2 L1 C1"
      by (rule invd_loop [OF r(2) z1(1)]) (use ok2 rd1(2) sub in auto)
    have step: "dispatch_ready_polls E h l = dispatch_ready_polls E ?h2 l"
      using z True b(1) nb r(1) z1(1) by (subst dispatch_ready_polls.simps) (simp add: set_loop_def)
    have z2: "loops ?h2 l = Some ?z2" by simp
    have m: "nat (num_ready_polls ?z2 - current_ready_poll ?z2) < nat (num_ready_polls z - current_ready_poll z)"
      using True k by simp
    obtain h3 L3 C3 where f: "dispatch_ready_polls E ?h2 l = Some h3" "inv_with E h3 L3 C3" "loops_stay ?h2 h3"
      using less.hyps [OF m i2 z2] by blast
    have "loops_stay h1 ?h2" by (rule loops_stay_upd [OF z1(1)]) simp_all
    from loops_stay_trans [OF loops_stay_trans [OF loops_stay_runs [OF r(3)] this] f(3)] f(1,2)
    show ?thesis unfolding step by blast
  qed
qed

end

subsection \<open>A turn of the loop\<close>

text \<open>
  What the code relies on of the kernel in a turn: it fills in as many entries as it says, each for a
  poll of this loop that is registered, hence live, and at most as often as the backend reports one.
\<close>

definition entry_live :: "heap \<Rightarrow> ptr \<Rightarrow> ptr \<Rightarrow> bool" where
  "entry_live h l p \<longleftrightarrow>
     (case cbs h p of Some cb \<Rightarrow> cb_loop cb = l \<and> (is_user (cb_cb cb) \<or> cb_cb cb = SweepTimerCb) | None \<Rightarrow> False) \<or>
     (case socks h p of Some so \<Rightarrow> \<not> us_socket_is_closed so \<and> loop_of h p = Some l | None \<Rightarrow> False)"

definition wait_call :: "env \<Rightarrow> us_loop_t \<Rightarrow> syscall" where
  "wait_call E z = (case be E of Epoll \<Rightarrow> EpollWait (l_fd z) 1024 | Kqueue_backend \<Rightarrow> KeventWait (l_fd z) 1024)"

definition reported :: "env \<Rightarrow> heap \<Rightarrow> us_loop_t \<Rightarrow> ready_event list" where
  "reported E h z = take (nat (sys_ret E (trace h) (wait_call E z))) (sys_ready E (trace h) (wait_call E z))"

definition reports_ok :: "env \<Rightarrow> heap \<Rightarrow> ptr \<Rightarrow> bool" where
  "reports_ok E h l \<longleftrightarrow> (case loops h l of
       None \<Rightarrow> False
     | Some z \<Rightarrow> sys_ret E (trace h) (wait_call E z) \<le> int (length (sys_ready E (trace h) (wait_call E z))) \<and>
         (\<forall>r\<in>set (reported E h z). re_poll r \<noteq> NULL \<longrightarrow> entry_live h l (re_poll r) \<and>
            length (filter (\<lambda>q. re_poll q = re_poll r) (reported E h z)) \<le> max_entries (be E)))"

lemma entry_live_ok:
  assumes i: "inv_with E h L C" and e: "entry_live h l p"
  shows "entry_ok h L l p"
proof (cases "\<exists>cb. cbs h p = Some cb \<and> cb_loop cb = l \<and> (is_user (cb_cb cb) \<or> cb_cb cb = SweepTimerCb)")
  case True
  then show ?thesis unfolding entry_ok_def by blast
next
  case False
  then obtain so where so: "socks h p = Some so" "\<not> us_socket_is_closed so" "loop_of h p = Some l"
    using e by (auto simp: entry_live_def split: option.splits)
  then have "\<not> closed_in L p" using closed_socket [OF i so(1)] by simp
  with so show ?thesis by (auto simp: entry_ok_def closed_in_def)
qed

context server
begin

lemma call_loop_cb_ok:
  assumes i: "inv_with E h L C" and f: "is_user f"
  shows "ran E h (call_loop_cb E f l h)"
proof -
  have "event_ok h (LoopCb l)" by (simp add: event_ok_def)
  from call_user [OF i f this] obtain r h' L' C' where r: "call_fn E f (LoopCb l) h = Some (r, h')"
    "inv_with E h' L' C'" "evolves h L h' L'" by metis
  have "call_loop_cb E f l h = Some h'" using r(1) by (simp add: call_loop_cb_def)
  then show ?thesis by (rule ranI [OF _ r(2) runs_evolves [OF r(3)]])
qed

lemma loop_pre_ok:
  assumes i: "inv_with E h L C" and z: "loops h l = Some z" and f: "is_user (pre_cb z)"
  shows "ran E h (us_internal_loop_pre E h l)"
proof -
  let ?z = "z\<lparr>iteration_nr := iteration_nr z + 1\<rparr>"
  let ?h1 = "h\<lparr>loops := (loops h)(l \<mapsto> ?z)\<rparr>"
  have i1: "inv_with E ?h1 L C" by (rule invd_loop_plain [OF i z]) simp_all
  have z1: "loops ?h1 l = Some ?z" by simp
  obtain h2 L2 z2 where q: "us_internal_handle_low_priority_sockets E ?h1 l = Some h2" "inv_with E h2 L2 C"
    "evolves ?h1 L h2 L2" "loops h2 l = Some z2" using handle_low_priority_ok [OF i1 z1] by metis
  have r1: "runs h ?h1" using z by (auto simp: runs_def loop_keeps_def)
  have rn: "runs h h2" by (rule runs_trans [OF r1 runs_evolves [OF q(3)]])
  have "pre_cb z2 = pre_cb z" using runs_loopD [OF rn z] q(4) by (auto simp: loop_keeps_def)
  then have "ran E h2 (call_loop_cb E (pre_cb z2) l h2)" using call_loop_cb_ok [OF q(2)] f by simp
  moreover have "us_internal_loop_pre E h l = call_loop_cb E (pre_cb z2) l h2"
    using z q(1,4) by (simp add: us_internal_loop_pre_def set_loop_def)
  ultimately show ?thesis using ran_after [OF rn] by simp
qed

lemma loop_post_ok:
  assumes i: "inv_with E h L C" and z: "loops h l = Some z" and f: "is_user (post_cb z)"
  shows "ran E h (us_internal_loop_post E h l)"
proof (rule free_closed_ok [OF i z])
  fix h1
  assume r: "us_internal_free_closed_sockets h l = Some h1" "inv_with E h1 (L(Closed l := [])) C" "runs h h1"
  obtain z1 where z1: "loops h1 l = Some z1" "loop_keeps z z1" using runs_loopD [OF r(3) z] .
  then have "ran E h1 (call_loop_cb E (post_cb z1) l h1)" using call_loop_cb_ok [OF r(2)] f by (simp add: loop_keeps_def)
  moreover have "us_internal_loop_post E h l = call_loop_cb E (post_cb z1) l h1"
    using r(1) z1(1) by (simp add: us_internal_loop_post_def)
  ultimately show ?thesis using ran_after [OF r(3)] by simp
qed

lemma fetch_ok:
  assumes i: "inv_with E h L C" and r: "reports_ok E h l"
  shows "\<exists>h' L' C'. fetch_ready_polls E h l = Some h' \<and> inv_with E h' L' C' \<and> loops_stay h h'"
proof -
  obtain z where z: "loops h l = Some z" using r by (auto simp: reports_ok_def split: option.splits)
  let ?c = "wait_call E z"
  let ?rs = "sys_ready E (trace h) ?c" and ?n = "sys_ret E (trace h) ?c"
  let ?z = "z\<lparr>ready_polls := ?rs, num_ready_polls := ?n, current_ready_poll := 0\<rparr>"
  let ?h1 = "do_sys h ?c"
  have p: "pending ?z = reported E h z" by (simp add: pending_def reported_def)
  have n: "?n \<le> int (length ?rs)" using r z by (simp add: reports_ok_def)
  have en: "entry_live h l p \<and> length (filter (\<lambda>q. re_poll q = p) (reported E h z)) \<le> max_entries (be E)"
    if "p \<in> re_poll ` set (reported E h z)" "p \<noteq> NULL" for p
    using that r z by (auto simp: reports_ok_def)
  have ok: "ready_list_ok (be E) ?z" unfolding ready_list_ok_def p using n en by simp
  have i1: "inv_with E ?h1 L C" using i by simp
  have z1: "loops ?h1 l = Some z" using z by (simp add: do_sys_def)
  have eo: "entry_ok ?h1 L l p" if "p \<in> re_poll ` set (pending ?z)" "p \<noteq> NULL" for p
  proof -
    have "entry_ok h L l p" using entry_live_ok [OF i] en that unfolding p by blast
    then show ?thesis by (simp add: entry_ok_shape do_sys_def)
  qed
  let ?h2 = "?h1\<lparr>loops := (loops ?h1)(l \<mapsto> ?z)\<rparr>"
  have "inv_with E ?h2 L C" by (rule invd_loop [OF i1 z1]) (use ok eo in auto)
  moreover have "fetch_ready_polls E h l = Some ?h2"
    using z z1 by (simp add: fetch_ready_polls_def sys_def set_loop_def wait_call_def Let_def split: backend.split)
  moreover have "loops_stay h ?h1" by (simp add: loops_stay_def do_sys_def)
  moreover have "loops_stay ?h1 ?h2" by (rule loops_stay_upd [OF z1]) simp_all
  ultimately show ?thesis using loops_stay_trans by blast
qed

text \<open>A turn of the loop returns and keeps the invariant.\<close>

lemma loop_turn_ok:
  assumes i: "inv_with E h L C" and z: "loops h l = Some z" and f: "is_user (pre_cb z)" "is_user (post_cb z)"
    and k: "\<And>h1. us_internal_loop_pre E h l = Some h1 \<Longrightarrow> reports_ok E h1 l"
  shows "\<exists>h' L' C'. us_loop_turn E h l = Some h' \<and> inv_with E h' L' C' \<and> loops_stay h h'"
proof -
  obtain h1 L1 C1 where p: "us_internal_loop_pre E h l = Some h1" "inv_with E h1 L1 C1" "runs h h1"
    using loop_pre_ok [OF i z f(1)] by (rule ranE)
  obtain h2 L2 C2 where w: "fetch_ready_polls E h1 l = Some h2" "inv_with E h2 L2 C2" "loops_stay h1 h2"
    using fetch_ok [OF p(2) k [OF p(1)]] by blast
  have s2: "loops_stay h h2" by (rule loops_stay_trans [OF loops_stay_runs [OF p(3)] w(3)])
  obtain z2 where z2: "loops h2 l = Some z2" using s2 z unfolding loops_stay_def by blast
  obtain h3 L3 C3 where d: "dispatch_ready_polls E h2 l = Some h3" "inv_with E h3 L3 C3" "loops_stay h2 h3"
    using dispatch_ready_polls_ok [OF w(2) z2] by blast
  have s3: "loops_stay h h3" by (rule loops_stay_trans [OF s2 d(3)])
  obtain z3 where z3: "loops h3 l = Some z3" "loop_stays z z3" using s3 z unfolding loops_stay_def by blast
  have f3: "is_user (post_cb z3)" using z3(2) f(2) by (simp add: loop_stays_def)
  obtain h4 L4 C4 where q: "us_internal_loop_post E h3 l = Some h4" "inv_with E h4 L4 C4" "runs h3 h4"
    using loop_post_ok [OF d(2) z3(1) f3] by (rule ranE)
  have "us_loop_turn E h l = Some h4" using p(1) w(1) d(1) q(1) by (simp add: us_loop_turn_def)
  with q(2) loops_stay_trans [OF s3 loops_stay_runs [OF q(3)]] show ?thesis by blast
qed

end

end
