(* ===== verification/Echo.thy ===== *)
theory Echo
  imports Dispatch Demo
begin

text \<open>
  An application for the library, in the manner of \<open>examples/echo_server.c\<close>: it sends back what it
  receives, gives every client thirty seconds to say something, closes a client that has timed out
  or half-closed.  (The buffer the example keeps for what could not be sent at once is extension
  memory of the user and left out.)  It meets the contract of \<open>app\<close> and, with a kernel that hands
  out one connection between two waits, that of \<open>server\<close>; the theorems about every application are
  instantiated at it.
\<close>

subsection \<open>What does not wait for events\<close>

lemma quiet_do_sys [simp]: "\<not> waits c \<Longrightarrow> quiet h (do_sys h c)"
  by (simp add: quiet_def do_sys_def)

lemma quiet_trace: "trace h' = trace h @ t \<Longrightarrow> no_waits t \<Longrightarrow> quiet h h'"
  unfolding quiet_def by blast

text \<open>A step that does not wait for events, composed of such steps and of reads.\<close>

definition quietly :: "heap \<Rightarrow> heap option \<Rightarrow> bool" where
  "quietly h r \<longleftrightarrow> (\<forall>h'. r = Some h' \<longrightarrow> quiet h h')"

named_theorems quietly

lemma quietly_Some [quietly]: "quiet h h' \<Longrightarrow> quietly h (Some h')"
  by (simp add: quietly_def)

lemma quietly_bind [quietly]: "quietly h r \<Longrightarrow> (\<And>h'. quietly h' (f h')) \<Longrightarrow> quietly h (Option.bind r f)"
  unfolding quietly_def bind_eq_Some_conv using quiet_trans by blast

lemma quietly_read: "(\<And>x. m = Some x \<Longrightarrow> quietly h (f x)) \<Longrightarrow> quietly h (Option.bind m f)"
  unfolding quietly_def bind_eq_Some_conv by blast

lemma quietly_if [quietly]: "(b \<Longrightarrow> quietly h r) \<Longrightarrow> (\<not> b \<Longrightarrow> quietly h r') \<Longrightarrow> quietly h (if b then r else r')"
  by simp

lemma quietly_after: "quiet h h1 \<Longrightarrow> quietly h1 r \<Longrightarrow> quietly h r"
  unfolding quietly_def using quiet_trans by blast

lemma quietlyD: "r = Some h' \<Longrightarrow> quietly h r \<Longrightarrow> quiet h h'"
  by (simp add: quietly_def)

lemma quietly_set [quietly]:
  "quietly h (set_sock h s f)" "quietly h (set_ctx h c f')" "quietly h (set_loop h l f'')" "quietly h (set_poll h p f3)"
  by (auto simp: set_defs quietly_def quiet_def bind_eq_Some_conv)

lemma quietly_timeout: "quietly h (us_socket_timeout h s t)"
  unfolding us_socket_timeout_def by (intro quietly quietly_read)

lemma quietly_poll_change: "quietly h (us_poll_change E h p l ev)"
  by (cases "be E") (auto simp: us_poll_change_def set_defs kqueue_change_def bind_eq_Some_conv Let_def quietly_def
      quiet_def waits_def split: if_splits)

lemma quietly_update_pending: "quietly h (us_internal_loop_update_pending_ready_polls E h l p q)"
  unfolding us_internal_loop_update_pending_ready_polls_def by (intro quietly quietly_read)

lemma quietly_poll_stop: "quietly h (us_poll_stop E h p l)"
  unfolding us_poll_stop_def Let_def
  by (intro quietly_read, rule quietly_after [OF _ quietly_update_pending])
    (simp add: kqueue_change_def waits_def split: backend.split)

lemma quietly_shutdown: "quietly h (us_socket_shutdown E h s)"
  unfolding us_socket_shutdown_def us_internal_poll_set_type_def bsd_shutdown_socket_def
  by (intro quietly quietly_poll_change quietly_read) (simp_all add: waits_def)

lemma quietly_close: "quietly h (close_quietly E h s)"
  unfolding close_quietly_def close_list_push_def low_prio_unlink_def us_internal_socket_context_unlink_socket_def
    bsd_close_socket_def Let_def
  by (intro quietly quietly_poll_stop quietly_read; (rule quietly_after [OF _ quietly_set(1)])?; simp add: waits_def)

text \<open>A write does not wait for events either.\<close>

lemma quietly_block: "quietly h (do {
      y \<leftarrow> ctxs h c;
      g \<leftarrow> set_loop h (c_loop y) k;
      us_poll_change E g s (c_loop y) ev })"
  by (intro quietly quietly_poll_change quietly_read)

lemma quiet_write:
  assumes "us_socket_write E h s d m = Some (w, h')"
  shows "quiet h h'"
proof -
  obtain x p where x: "socks h s = Some x" "polls h s = Some p"
    using assms by (auto simp: us_socket_write_def bind_eq_Some_conv)
  obtain v h1 where b: "bsd_send E h (us_poll_fd p) d m = (v, h1)" by fastforce
  have q: "quiet h h1" using b by (auto simp: bsd_send_def sys_def waits_def)
  let ?b = "do {
      y \<leftarrow> ctxs h1 (s_context x);
      g \<leftarrow> set_loop h1 (c_loop y) (\<lambda>z. z\<lparr>last_write_failed := 1\<rparr>);
      us_poll_change E g s (c_loop y) (LIBUS_SOCKET_READABLE (be E) OR LIBUS_SOCKET_WRITABLE (be E)) }"
  show ?thesis
  proof (cases "us_socket_is_closed x \<or> us_socket_is_shut_down p")
    case True
    then show ?thesis using assms x by (simp add: us_socket_write_def)
  next
    case False
    have "us_socket_write E h s d m = do {
        g \<leftarrow> (if v \<noteq> int (length d) then ?b else Some h1);
        Some (if v < 0 then 0 else v, g) }"
      using x b False by (simp add: us_socket_write_def)
    with assms obtain g where "(if v \<noteq> int (length d) then ?b else Some h1) = Some g" "h' = g"
      by (auto simp only: bind_eq_Some_conv option.inject prod.inject)
    then have "quiet h1 h'" using quietlyD [OF _ quietly_block] by (cases "v = int (length d)") auto
    with q show ?thesis by (rule quiet_trans)
  qed
qed

subsection \<open>The application\<close>

text \<open>
  The kernel around it: it accepts one connection between two waits, sends everything, receives three
  bytes, and reports the same ready entries (\<open>rs\<close>) at every wait; \<open>echo_reported\<close> are those of the
  four polls of the store below.
\<close>

definition accepted_since_wait :: "trace_t \<Rightarrow> bool" where
  "accepted_since_wait t \<longleftrightarrow> list_ex (\<lambda>e. case e of Sys (Accept _) \<Rightarrow> True | _ \<Rightarrow> False)
     (takeWhile (\<lambda>e. case e of Sys c \<Rightarrow> \<not> waits c | _ \<Rightarrow> True) (rev t))"

definition echo_ret :: "ready_event list \<Rightarrow> trace_t \<Rightarrow> syscall \<Rightarrow> int" where
  "echo_ret rs t c = (case c of
       Accept _ \<Rightarrow> (if accepted_since_wait t then -1 else 70)
     | Socket _ _ _ \<Rightarrow> 9 | Send _ bs _ \<Rightarrow> int (length bs) | Recv _ _ _ \<Rightarrow> 3
     | EpollWait _ _ \<Rightarrow> int (length rs) | KeventWait _ _ \<Rightarrow> int (length rs) | _ \<Rightarrow> 0)"

definition echo_reported :: "ready_event list" where
  "echo_reported = [\<lparr>re_poll = 3, re_events = 1, re_filter = -1, re_flags = 0\<rparr>,
     \<lparr>re_poll = 4, re_events = 4, re_filter = -2, re_flags = 0\<rparr>,
     \<lparr>re_poll = 5, re_events = 1, re_filter = -1, re_flags = 0\<rparr>,
     \<lparr>re_poll = 8, re_events = 1, re_filter = -1, re_flags = 0\<rparr>]"

text \<open>The handlers that may run inside another handler: only \<open>on_close\<close>, which does nothing.\<close>

definition echo_base_with :: "backend \<Rightarrow> ready_event list \<Rightarrow> env" where
  "echo_base_with b rs = (demo_env b)\<lparr>sys_ret := echo_ret rs, sys_data := (\<lambda>_ _. [104, 105, 33]),
     sys_ready := (\<lambda>_ _. rs),
     sys_ai := (\<lambda>_ _. [\<lparr>ai_family = 2, ai_socktype = 1, ai_protocol = 0, ai_addr = SockIn [127, 0, 0, 1] 80\<rparr>])\<rparr>"

definition echo_handler :: "env \<Rightarrow> cb_event \<Rightarrow> heap \<Rightarrow> (ptr \<times> heap) option" where
  "echo_handler E ev h = (case ev of
       OnOpen s _ _ \<Rightarrow> do { h \<leftarrow> us_socket_timeout h s 30; Some (s, h) }
     | OnData s d \<Rightarrow> do {
         (written, h) \<leftarrow> us_socket_write E h s d 0;
         h \<leftarrow> us_socket_timeout h s 30;
         Some (s, h) }
     | OnWritable s \<Rightarrow> do { h \<leftarrow> us_socket_timeout h s 30; Some (s, h) }
     | OnEnd s \<Rightarrow> do { h \<leftarrow> us_socket_shutdown E h s; us_socket_close E h s 0 NULL }
     | OnTimeout s \<Rightarrow> us_socket_close E h s 0 NULL
     | OnLongTimeout s \<Rightarrow> us_socket_close E h s 0 NULL
     | _ \<Rightarrow> Some (event_socket ev, h))"

definition echo_env_with :: "backend \<Rightarrow> ready_event list \<Rightarrow> env" where
  "echo_env_with b rs = (echo_base_with b rs)\<lparr>callback := (\<lambda>_. echo_handler (echo_base_with b rs))\<rparr>"

abbreviation echo_base :: "backend \<Rightarrow> env" where "echo_base b \<equiv> echo_base_with b echo_reported"
abbreviation echo_env :: "backend \<Rightarrow> env" where "echo_env b \<equiv> echo_env_with b echo_reported"

lemma echo_sel [simp]:
  "be (echo_env_with b rs) = b" "be (echo_base_with b rs) = b"
  "sys_ret (echo_env_with b rs) = echo_ret rs" "sys_ret (echo_base_with b rs) = echo_ret rs"
  "callback (echo_env_with b rs) = (\<lambda>_. echo_handler (echo_base_with b rs))"
  "callback (echo_base_with b rs) = (\<lambda>_ ev h. Some (event_socket ev, h))"
  "sys_ai (echo_env_with b rs) = (\<lambda>_ _. [\<lparr>ai_family = 2, ai_socktype = 1, ai_protocol = 0, ai_addr = SockIn [127, 0, 0, 1] 80\<rparr>])" "sys_data (echo_env_with b rs) = (\<lambda>_ _. [104, 105, 33])"
  "sys_ready (echo_env_with b rs) = (\<lambda>_ _. rs)"
  by (simp_all add: echo_env_with_def echo_base_with_def demo_env_def)

lemma echo_same:
  "us_socket_write (echo_base_with b rs) = us_socket_write (echo_env_with b rs)"
  "us_socket_shutdown (echo_base_with b rs) = us_socket_shutdown (echo_env_with b rs)"
  "close_quietly (echo_base_with b rs) = close_quietly (echo_env_with b rs)"
proof -
  note d = us_socket_write_def us_socket_shutdown_def close_quietly_def close_list_push_def
    us_poll_change_def us_poll_stop_def us_internal_loop_update_pending_ready_polls_def bsd_send_def sys_def
  show "us_socket_write (echo_base_with b rs) = us_socket_write (echo_env_with b rs)" unfolding d echo_sel ..
  show "us_socket_shutdown (echo_base_with b rs) = us_socket_shutdown (echo_env_with b rs)" unfolding d echo_sel ..
  show "close_quietly (echo_base_with b rs) = close_quietly (echo_env_with b rs)" unfolding d echo_sel ..
qed

lemma echo_allocator_ok: "allocator_ok (echo_env_with b rs)"
  using demo_allocator_ok [of b] by (simp add: allocator_ok_def echo_env_with_def echo_base_with_def demo_env_def)

lemma echo_resolver_ok: "resolver_ok (echo_env_with b rs)"
  by (simp add: resolver_ok_def)

text \<open>Closing a live socket is something a handler may do.\<close>

lemma echo_close:
  assumes i: "inv (echo_env_with b rs) h" and s: "live h s"
  shows "\<exists>h'. us_socket_close (echo_base_with b rs) h s 0 NULL = Some (s, h') \<and> handled (echo_env_with b rs) h h' \<and> quiet h h'"
proof -
  let ?E = "echo_env_with b rs"
  obtain L C where iw: "inv_with ?E h L C" using i unfolding inv_def by blast
  obtain so where so: "socks h s = Some so" "\<not> us_socket_is_closed so" "listens h s = None"
    using s by (auto simp: live_def)
  obtain h1 so' where c: "close_quietly ?E h s = Some h1" "socks h1 s = Some so'" "s_context so' = s_context so"
    "has_handlers h1 (s_context so)"
    using close_quietly_ok [OF iw so] by metis
  obtain y where y: "ctxs h1 (s_context so) = Some y" "handlers_set y"
    using c(4) by (auto simp: has_handlers_def split: option.splits)
  obtain n where n: "on_close y = UserFn n" using y(2) by (cases "on_close y") (simp_all add: handlers_set_def is_user_def)
  let ?h2 = "called h1 (on_close y) (OnClose s 0 NULL)"
  have "us_socket_close (echo_base_with b rs) h s 0 NULL = Some (s, ?h2)"
    using so(1,2) c(1,2,3) y(1) n by (simp add: us_socket_close_def echo_same call_fn_def called_def event_socket_def)
  moreover have "handled ?E h ?h2"
    by (rule handled.close [OF handled.return so c(1) y(1) handled.return])
  moreover have "quiet h h1" by (rule quietlyD [OF c(1) quietly_close])
  then have "quiet h ?h2" using quiet_trans quiet_called by blast
  ultimately show ?thesis by blast
qed

lemma echo_timeout:
  assumes i: "inv (echo_env_with b rs) h" and s: "live h s"
  shows "\<exists>h'. us_socket_timeout h s 30 = Some h' \<and> handled (echo_env_with b rs) h h' \<and> quiet h h' \<and> live h' s \<and>
    polls h' = polls h \<and> (queued h' s \<longrightarrow> queued h s)"
proof -
  let ?E = "echo_env_with b rs"
  obtain L C where iw: "inv_with ?E h L C" using i unfolding inv_def by blast
  obtain so where so: "socks h s = Some so" "\<not> us_socket_is_closed so" "listens h s = None"
    using s by (auto simp: live_def)
  have c: "\<not> us_socket_is_closed so \<or> (30::u32) = 0" using so(2) by simp
  obtain t where t: "us_socket_timeout h s 30 = Some (h\<lparr>socks := (socks h)(s \<mapsto> so\<lparr>timeout := t\<rparr>)\<rparr>)"
    by (rule us_socket_timeout_ok [OF iw so(1) c])
  have "handled ?E h (h\<lparr>socks := (socks h)(s \<mapsto> so\<lparr>timeout := t\<rparr>)\<rparr>)"
    by (rule handled.timeout [OF handled.return so(1) c t])
  with t so quietlyD [OF t quietly_timeout] show ?thesis
    by (auto simp: live_def queued_def us_socket_is_closed_def)
qed

lemma echo_nothing:
  assumes "echo_handler (echo_base_with b rs) ev h = Some (event_socket ev, h)" "reply_ok ev (event_socket ev) h h"
  shows "\<exists>r h'. echo_handler (echo_base_with b rs) ev h = Some (r, h') \<and> handled (echo_env_with b rs) h h' \<and> reply_ok ev r h h' \<and> quiet h h'"
  using assms handled.return [of "echo_env_with b rs" h] by auto

lemma echo_handler_ok:
  assumes i: "inv (echo_env_with b rs) h" and ev: "event_ok h ev"
  shows "\<exists>r h'. echo_handler (echo_base_with b rs) ev h = Some (r, h') \<and> handled (echo_env_with b rs) h h' \<and> reply_ok ev r h h' \<and> quiet h h'"
proof -
  let ?E = "echo_env_with b rs"
  show ?thesis
  proof (cases ev)
    case (OnOpen s c a)
    then have "live h s" using ev by (simp add: event_ok_def)
    from echo_timeout [OF i this] OnOpen show ?thesis by (auto simp: echo_handler_def reply_ok_def)
  next
    case (OnWritable s)
    then have s: "live h s" "established h s" using ev by (simp_all add: event_ok_def)
    from echo_timeout [OF i s(1)] obtain h' where h': "us_socket_timeout h s 30 = Some h'" "handled ?E h h'" "quiet h h'"
      "live h' s" "polls h' = polls h" "queued h' s \<longrightarrow> queued h s" by blast
    then have "reply_ok ev s h h'" using OnWritable s(2) by (auto simp: reply_ok_def live_def established_def)
    with h' OnWritable show ?thesis by (auto simp: echo_handler_def)
  next
    case (OnTimeout s)
    then have "live h s" using ev by (simp add: event_ok_def)
    from echo_close [OF i this] OnTimeout show ?thesis by (auto simp: echo_handler_def reply_ok_def)
  next
    case (OnLongTimeout s)
    then have "live h s" using ev by (simp add: event_ok_def)
    from echo_close [OF i this] OnLongTimeout show ?thesis by (auto simp: echo_handler_def reply_ok_def)
  next
    case (OnData s d)
    then have s: "live h s" "established h s" "\<not> queued h s" using ev by (simp_all add: event_ok_def)
    obtain L C where iw: "inv_with ?E h L C" using i unfolding inv_def by blast
    obtain so p where so: "socks h s = Some so" "polls h s = Some p" "may_write so p"
      using s by (auto simp: live_def established_def queued_def may_write_def)
    obtain w h1 where w: "us_socket_write ?E h s d 0 = Some (w, h1)" "inv_with ?E h1 L C" "evolves h L h1 L" "socks h1 = socks h"
      using us_socket_write_ok [OF iw so] .
    have c: "\<not> us_socket_is_closed so" using s(1) so(1) by (simp add: live_def)
    have w1: "handled ?E h h1" by (rule handled.send [OF handled.return so w(1)])
    have i1: "inv ?E h1" using w(2) unfolding inv_def by blast
    have so1: "socks h1 s = Some so" "\<not> us_socket_is_closed so \<or> (30::u32) = 0" using so(1) w(4) c by simp_all
    obtain t where t: "us_socket_timeout h1 s 30 = Some (h1\<lparr>socks := (socks h1)(s \<mapsto> so\<lparr>timeout := t\<rparr>)\<rparr>)"
      by (rule us_socket_timeout_ok [OF w(2) so1])
    have "handled ?E h (h1\<lparr>socks := (socks h1)(s \<mapsto> so\<lparr>timeout := t\<rparr>)\<rparr>)"
      by (rule handled.timeout [OF w1 so1 t])
    moreover have "quiet h (h1\<lparr>socks := (socks h1)(s \<mapsto> so\<lparr>timeout := t\<rparr>)\<rparr>)"
      by (rule quiet_trans [OF quiet_write [OF w(1)] quietlyD [OF t quietly_timeout]])
    ultimately show ?thesis using OnData w(1) t by (auto simp: echo_handler_def echo_same reply_ok_def)
  next
    case (OnEnd s)
    then have s: "live h s" "established h s" using ev by (simp_all add: event_ok_def)
    obtain L C where iw: "inv_with ?E h L C" using i unfolding inv_def by blast
    obtain so p where so: "socks h s = Some so" "polls h s = Some p" "us_socket_is_closed so \<or> us_socket_is_established p"
      using s by (auto simp: live_def established_def)
    obtain h1 where w: "us_socket_shutdown ?E h s = Some h1" "inv_with ?E h1 L C" "socks h1 = socks h"
      "\<exists>p'. polls h1 s = Some p' \<and> (us_socket_is_closed so \<or> us_socket_is_shut_down p')"
      using us_socket_shutdown_ok [OF iw so] by metis
    have c: "\<not> us_socket_is_closed so" using s(1) so(1) by (simp add: live_def)
    have w1: "handled ?E h h1" by (rule handled.shutdown [OF handled.return so w(1)])
    have "established h1 s" using w(4) c by (auto simp: established_def us_socket_is_shut_down_def us_socket_is_established_def)
    then have l1: "live h1 s" using goingI [OF w(2) _ c] so(1) w(3) by (simp add: going_def)
    have i1: "inv ?E h1" using w(2) unfolding inv_def by blast
    obtain h2 where h2: "us_socket_close (echo_base_with b rs) h1 s 0 NULL = Some (s, h2)" "handled ?E h1 h2" "quiet h1 h2"
      using echo_close [OF i1 l1] by blast
    have "handled ?E h h2" by (rule handled_trans [OF h2(2) w1])
    moreover have "quiet h h2" by (rule quiet_trans [OF quietlyD [OF w(1) quietly_shutdown] h2(3)])
    ultimately show ?thesis using OnEnd w(1) h2(1) by (auto simp: echo_handler_def echo_same reply_ok_def)
  next
    case (OnClose s c r)
    show ?thesis by (rule echo_nothing) (simp_all add: OnClose echo_handler_def reply_ok_def)
  next
    case (OnConnectError s c)
    show ?thesis by (rule echo_nothing) (simp_all add: OnConnectError echo_handler_def reply_ok_def)
  next
    case (IsLowPrio s)
    show ?thesis by (rule echo_nothing) (simp_all add: IsLowPrio echo_handler_def reply_ok_def)
  next
    case (LoopCb l)
    show ?thesis by (rule echo_nothing) (simp_all add: LoopCb echo_handler_def reply_ok_def)
  next
    case (PollCb p)
    show ?thesis by (rule echo_nothing) (simp_all add: PollCb echo_handler_def reply_ok_def)
  next
    case (OnServerName c n)
    show ?thesis by (rule echo_nothing) (simp_all add: OnServerName echo_handler_def reply_ok_def)
  next
    case (OnDatagrams p q n)
    show ?thesis by (rule echo_nothing) (simp_all add: OnDatagrams echo_handler_def reply_ok_def)
  qed
qed

text \<open>The contracts.\<close>

definition echo_backlog :: "trace_t \<Rightarrow> nat" where
  "echo_backlog t = (if accepted_since_wait t then 0 else 1)"

lemma accepted_after_accept:
  assumes "no_waits u"
  shows "accepted_since_wait (t @ Sys (Accept f) # u)"
proof -
  let ?nw = "\<lambda>e. case e of Sys c \<Rightarrow> \<not> waits c | _ \<Rightarrow> True"
  have "takeWhile ?nw (rev u @ Sys (Accept f) # rev t) = rev u @ Sys (Accept f) # takeWhile ?nw (rev t)"
    by (subst takeWhile_append2) (use assms in \<open>auto simp: no_waits_def waits_def split: event.split\<close>)
  then show ?thesis by (simp add: accepted_since_wait_def)
qed

interpretation echo: server "echo_env_with b rs" echo_backlog
proof unfold_locales
  show "allocator_ok (echo_env_with b rs)" by (rule echo_allocator_ok)
  show "resolver_ok (echo_env_with b rs)" by (rule echo_resolver_ok)
  show "\<exists>r h'. callback (echo_env_with b rs) n ev h = Some (r, h') \<and> handled (echo_env_with b rs) h h' \<and> reply_ok ev r h h' \<and> quiet h h'"
    if "inv (echo_env_with b rs) h" "event_ok h ev" for h ev n
    using echo_handler_ok [OF that] by simp
  show "echo_backlog (t @ Sys (Accept f) # u) < echo_backlog t"
    if "sys_ret (echo_env_with b rs) t (Accept f) \<noteq> -1" "no_waits u" for t f u
    using that accepted_after_accept [OF that(2)] by (simp add: echo_backlog_def echo_ret_def split: if_splits)
qed

subsection \<open>A store with something in every list\<close>

text \<open>
  One loop (address 1) with one context (2): an established socket (3) whose timeout is due at the
  next tick, one that is connecting (4), a listen socket (5), a socket in the low-priority queue (6),
  a closed socket (7), and the sweep timer (8).
\<close>

definition echo_sock :: "u8 \<Rightarrow> u16 \<Rightarrow> ptr \<Rightarrow> ptr \<Rightarrow> us_socket_t" where
  "echo_sock t st p n = \<lparr>timeout = t, long_timeout = 255, low_prio_state = st, s_context = 2, s_prev = p, s_next = n\<rparr>"

definition echo_loop :: us_loop_t where
  "echo_loop = \<lparr>sweep_timer = 8, wakeup_async = 0, last_write_failed = 0, l_head = 2, l_iterator = 0,
     recv_buf = [], ssl_data = 0, pre_cb = UserFn 0, post_cb = UserFn 0, closed_head = 7,
     low_prio_head = 6, low_prio_budget = 0, iteration_nr = 0, num_polls = 6, num_ready_polls = 0,
     current_ready_poll = 0, l_fd = 50, ready_polls = []\<rparr>"

definition echo_ctx :: us_socket_context_t where
  "echo_ctx = \<lparr>c_loop = 1, global_tick = 0, timestamp = 0, long_timestamp = 0, head_sockets = 3,
     head_listen_sockets = 5, c_iterator = 0, c_prev = 0, c_next = 0, on_open = UserFn 0, on_data = UserFn 1,
     on_writable = UserFn 2, on_close = UserFn 3, on_socket_timeout = UserFn 4,
     on_socket_long_timeout = UserFn 5, on_end = UserFn 6, on_connect_error = UserFn 7,
     is_low_prio = DefaultIsLowPrio\<rparr>"

definition echo_heap :: heap where
  "echo_heap = \<lparr>polls = [3 \<mapsto> \<lparr>fd = 60, poll_type = 8\<rparr>, 4 \<mapsto> \<lparr>fd = 61, poll_type = 6\<rparr>,
       5 \<mapsto> \<lparr>fd = 62, poll_type = 10\<rparr>, 6 \<mapsto> \<lparr>fd = 63, poll_type = 0\<rparr>, 7 \<mapsto> \<lparr>fd = 64, poll_type = 0\<rparr>,
       8 \<mapsto> \<lparr>fd = 65, poll_type = 11\<rparr>],
     socks = [3 \<mapsto> echo_sock 1 0 0 4, 4 \<mapsto> echo_sock 255 0 3 0, 5 \<mapsto> echo_sock 255 0 0 0,
       6 \<mapsto> echo_sock 255 1 0 0, 7 \<mapsto> echo_sock 255 0 2 0],
     listens = [5 \<mapsto> \<lparr>socket_ext_size = 0\<rparr>],
     cbs = [8 \<mapsto> \<lparr>cb_loop = 1, cb_expects_the_loop = 0, leave_poll_ready = 0, cb_cb = SweepTimerCb\<rparr>],
     ctxs = [2 \<mapsto> echo_ctx], loops = [1 \<mapsto> echo_loop], trace = [], ssl_socks = (\<lambda>_. None), ssl_ctxs = (\<lambda>_. None),
     ssl_datas = (\<lambda>_. None), udps = (\<lambda>_. None), udp_bufs = (\<lambda>_. None)\<rparr>"

definition echo_lists :: "list_id \<Rightarrow> ptr list" where
  "echo_lists k = (if k = Open 2 then [3, 4] else if k = Listen 2 then [5] else if k = LowPrio 1 then [6]
     else if k = Closed 1 then [7] else [])"

definition echo_ctxs :: "ptr \<Rightarrow> ptr list" where
  "echo_ctxs l = (if l = 1 then [2] else [])"

lemmas echo_defs = echo_sock_def echo_loop_def echo_ctx_def echo_heap_def

lemma echo_listed: "x \<in> set (echo_lists k) \<Longrightarrow> (x, k) \<in> {(3, Open 2), (4, Open 2), (5, Listen 2), (6, LowPrio 1), (7, Closed 1)}"
  by (auto simp: echo_lists_def split: if_splits)

lemma echo_chains:
  "chains doubly (nx (shape echo_heap)) (pv (shape echo_heap)) (hds (shape echo_heap)) echo_lists"
  "chains (\<lambda>_. True) (cnx (shape echo_heap)) (cpv (shape echo_heap)) (chd (shape echo_heap)) echo_ctxs"
proof -
  have u: "k = k'" if "x \<in> set (echo_lists k)" "x \<in> set (echo_lists k')" for x k k'
    using echo_listed [OF that(1)] echo_listed [OF that(2)] by auto
  have h: "case hds (shape echo_heap) k of None \<Rightarrow> echo_lists k = []
      | Some c \<Rightarrow> chain (doubly k) (nx (shape echo_heap)) (pv (shape echo_heap)) c (echo_lists k)" for k
    by (cases k) (auto simp: echo_defs echo_lists_def view_defs chain_def dll_def)
  show "chains doubly (nx (shape echo_heap)) (pv (shape echo_heap)) (hds (shape echo_heap)) echo_lists"
    unfolding chains_def using h u by blast
  show "chains (\<lambda>_. True) (cnx (shape echo_heap)) (cpv (shape echo_heap)) (chd (shape echo_heap)) echo_ctxs"
    by (auto simp: chains_def chain_def dll_def echo_defs echo_ctxs_def view_defs split: if_splits)
qed

lemma echo_wfd: "wfd {} echo_heap echo_lists echo_ctxs"
proof (rule okI)
  show "placed_ok {} (shape echo_heap) echo_lists"
  proof -
    have "\<exists>k. x \<in> set (echo_lists k) \<and> placed (shape echo_heap) k x" if "x \<in> dom (nx (shape echo_heap))" for x
    proof -
      have "x = 3 \<or> x = 4 \<or> x = 5 \<or> x = 6 \<or> x = 7" using that by (auto simp: views_all_dom echo_defs split: if_splits)
      moreover have "x \<in> set (echo_lists k) \<and> placed (shape echo_heap) k x"
        if "(x, k) \<in> {(3, Open 2), (4, Open 2), (5, Listen 2), (6, LowPrio 1), (7, Closed 1)}" for k
        using that by (auto simp: echo_lists_def placed_def views_all_app echo_defs)
      ultimately show ?thesis by blast
    qed
    then show ?thesis by (simp add: placed_ok_def)
  qed
  show "layout_ok (shape echo_heap)"
    unfolding layout_ok_def by (auto simp: views_all_dom echo_defs split: if_splits)
  show "owners_ok (shape echo_heap) echo_lists echo_ctxs"
    unfolding owners_ok_def by (auto simp: views_all_app views_all_dom echo_defs echo_ctxs_def split: if_splits)
qed (rule echo_chains)+

lemma echo_inv_with: "inv_with (echo_env_with b rs) echo_heap echo_lists echo_ctxs"
proof (rule invI)
  show "wfd {} echo_heap echo_lists echo_ctxs" by (rule echo_wfd)
  show "finite (allocated echo_heap)" by (simp add: finite_allocated echo_heap_def)
  show "pollsI (be (echo_env_with b rs)) echo_heap echo_lists"
    unfolding pollsI_def
  proof (intro allI impI)
    fix k x p assume "x \<in> set (echo_lists k)" "polls echo_heap x = Some p"
    with echo_listed [of x k] show "poll_ok (be (echo_env_with b rs)) k p"
      by (cases b) (auto simp: echo_heap_def poll_ok_def us_internal_poll_type_def us_poll_events_def event_consts)
  qed
  show "handI echo_heap echo_lists"
    unfolding handI_def
  proof (intro allI impI)
    fix k x so assume "x \<in> set (echo_lists k)" "doubly k" "socks echo_heap x = Some so"
    with echo_listed [of x k] show "has_handlers echo_heap (s_context so)"
      by (auto simp: echo_defs has_handlers_def handlers_set_def is_user_def)
  qed
  show "cbsI echo_heap" by (auto simp: cbsI_def cb_ok_def echo_defs us_internal_poll_type_def split: if_splits)
  show "readyI (be (echo_env_with b rs)) echo_heap echo_lists"
    by (auto simp: readyI_def ready_list_ok_def pending_def echo_defs split: if_splits)
qed

lemma echo_inv: "inv (echo_env_with b rs) echo_heap"
  unfolding inv_def using echo_inv_with by blast

end
