(* ===== verification/Claims.thy ===== *)
theory Claims
  imports Echo
begin

text \<open>
  The properties of the core, stated over the operations and the invariant, each with a witness at
  the echo application and its store.
\<close>

subsection \<open>The loop\<close>

text \<open>
  C2: A turn of the loop returns and keeps the invariant: for every application that meets the
  contract of \<open>app\<close>, from every store that satisfies the invariant, whatever the kernel reports for
  live polls, pre handler, low-priority sockets, every ready poll, closed sockets and post handler
  included, no pointer is followed that is null, freed or of the wrong kind, and every loop ends.
\<close>

theorem us_loop_turn_total:
  assumes "server E backlog" "inv E h" "loops h l = Some z" "is_user (pre_cb z)" "is_user (post_cb z)"
    and "\<And>h1. us_internal_loop_pre E h l = Some h1 \<Longrightarrow> reports_ok E h1 l"
  shows "\<exists>h'. us_loop_turn E h l = Some h' \<and> inv E h' \<and> loops_stay h h'"
proof -
  obtain L C where "inv_with E h L C" using assms(2) unfolding inv_def by blast
  from server.loop_turn_ok [OF assms(1) this assms(3-6)] show ?thesis unfolding inv_def by blast
qed

lemma echo_pre:
  "\<exists>h1. us_internal_loop_pre (echo_env Epoll) echo_heap 1 = Some h1 \<and> reports_ok (echo_env Epoll) h1 1"
  unfolding us_internal_loop_pre_def us_internal_handle_low_priority_sockets_def
  apply (subst low_prio_loop.simps)
  apply (simp add: echo_defs set_defs low_prio_take_def us_internal_socket_context_link_socket_def us_poll_change_def
    us_poll_events_def us_internal_poll_type_def polling_bits_def event_consts)
  apply (subst low_prio_loop.simps)
  apply (simp add: call_loop_cb_def call_fn_def echo_handler_def event_socket_def)
  apply (simp add: reports_ok_def reported_def wait_call_def echo_ret_def echo_reported_def entry_live_def max_entries_def
   us_socket_is_closed_def loop_of_def)
  done

theorem us_loop_turn_total_witness:
  "\<exists>h'. us_loop_turn (echo_env Epoll) echo_heap 1 = Some h' \<and> inv (echo_env Epoll) h' \<and> loops_stay echo_heap h'"
  by (rule us_loop_turn_total [OF echo.server_axioms echo_inv, where z = echo_loop])
    (use echo_pre in \<open>auto simp: echo_heap_def echo_loop_def is_user_def\<close>)

text \<open>
  C3: Dispatching a ready poll, whatever it is and whatever the kernel reports for it, returns and
  keeps the invariant: callbacks, connects that succeed and that fail, the accept loop, writable,
  readable, half-closed and broken sockets, and sockets that are put in the low-priority queue.
\<close>

theorem dispatch_ready_poll_total:
  assumes "server E backlog" "inv E h" "entry_live h l p" "polls h p = Some x"
  shows "\<exists>h'. us_internal_dispatch_ready_poll E h p error (ev AND us_poll_events (be E) x) = Some h' \<and> inv E h' \<and>
    runs h h'"
proof -
  obtain L C where i: "inv_with E h L C" using assms(2) unfolding inv_def by blast
  from server.dispatch_ready_poll_ok [OF assms(1) i entry_live_ok [OF i assms(3)] assms(4)]
  show ?thesis by (rule ranE) (auto simp: inv_def)
qed

theorem dispatch_ready_poll_total_witness:
  "\<exists>h'. us_internal_dispatch_ready_poll (echo_env Epoll) echo_heap 5 False (1 AND us_poll_events (be (echo_env Epoll)) \<lparr>fd = 62, poll_type = 10\<rparr>) =
    Some h' \<and> inv (echo_env Epoll) h' \<and> runs echo_heap h'"
  by (rule dispatch_ready_poll_total [OF echo.server_axioms echo_inv, where l = 1])
    (simp_all add: entry_live_def us_socket_is_closed_def loop_of_def echo_defs)

text \<open>
  C4: Whatever a handler of the application does with the operations of the library, in any order and
  number, keeps the invariant: timeouts, writing, shutting down, closing (which runs the
  application's \<open>on_close\<close> handler in between), listening, connecting, adopting sockets into
  another context, creating contexts and setting handlers.
\<close>

theorem handled_inv:
  assumes "handled E h h'" "allocator_ok E" "resolver_ok E" "inv E h"
  shows "inv E h'"
  using keeps_inv [OF handled_keeps [OF assms(1-3)] assms(4)] .

theorem handled_inv_witness:
  "\<exists>h'. echo_handler (echo_base Epoll) (OnTimeout 3) echo_heap = Some (3, h') \<and> inv (echo_env Epoll) h'"
proof -
  have "live echo_heap 3" by (simp add: live_def us_socket_is_closed_def echo_defs)
  from echo_close [OF echo_inv this] obtain h' where h': "us_socket_close (echo_base Epoll) echo_heap 3 0 NULL = Some (3, h')"
    "handled (echo_env Epoll) echo_heap h'" by blast
  from handled_inv [OF h'(2) echo_allocator_ok echo_resolver_ok echo_inv] h'(1) show ?thesis
    by (auto simp: echo_handler_def)
qed

text \<open>
  C5: The timer sweep ends and keeps the invariant although the timeout handlers may close, adopt or
  open any sockets of the list that is being swept, and create contexts in the list of contexts.
\<close>

theorem us_internal_timer_sweep_total:
  assumes "app E" "inv E h" "loops h l = Some z"
  shows "\<exists>h'. us_internal_timer_sweep E h l = Some h' \<and> inv E h' \<and> runs h h'"
proof -
  obtain L C where i: "inv_with E h L C" using assms(2) unfolding inv_def by blast
  obtain h' L' C' where "us_internal_timer_sweep E h l = Some h'" "inv_with E h' L' C'" "runs h h'"
    by (rule app.us_internal_timer_sweep_ok [OF assms(1) i assms(3)])
  then show ?thesis unfolding inv_def by blast
qed

theorem us_internal_timer_sweep_total_witness:
  "\<exists>h'. us_internal_timer_sweep (echo_env Epoll) echo_heap 1 = Some h' \<and> inv (echo_env Epoll) h' \<and> runs echo_heap h'"
  by (rule us_internal_timer_sweep_total [OF echo.app_axioms echo_inv, where z = echo_loop]) (simp add: echo_heap_def)

subsection \<open>The low-priority queue and the close list\<close>

text \<open>
  At the start of an iteration the first five sockets of the low-priority queue, and no others,
  leave it for the open lists of their contexts, and the budget left is what they did not use.
\<close>

theorem handle_low_priority_five:
  assumes "inv_with E h L C" "loops h l = Some z"
  shows "\<exists>h' L' z'. us_internal_handle_low_priority_sockets E h l = Some h' \<and> inv_with E h' L' C \<and>
    loops h' l = Some z' \<and> L' (LowPrio l) = drop 5 (L (LowPrio l)) \<and>
    (\<forall>x\<in>set (take 5 (L (LowPrio l))). \<exists>c. x \<in> set (L' (Open c))) \<and>
    low_prio_budget z' = 5 - int (min 5 (length (L (LowPrio l))))"
  by (rule handle_low_priority_ok [OF assms]) blast

theorem handle_low_priority_five_witness:
  "\<exists>h' L' z'. us_internal_handle_low_priority_sockets (echo_env Epoll) echo_heap 1 = Some h' \<and>
    inv_with (echo_env Epoll) h' L' echo_ctxs \<and> loops h' 1 = Some z' \<and> L' (LowPrio 1) = drop 5 (echo_lists (LowPrio 1)) \<and>
    (\<forall>x\<in>set (take 5 (echo_lists (LowPrio 1))). \<exists>c. x \<in> set (L' (Open c))) \<and>
    low_prio_budget z' = 5 - int (min 5 (length (echo_lists (LowPrio 1))))"
  by (rule handle_low_priority_five [OF echo_inv_with, where z = echo_loop]) (simp add: echo_heap_def)

text \<open>
  C8: At the end of an iteration exactly the sockets of the close list are freed, each counted out of
  \<open>num_polls\<close>, the close list is empty, nothing else changes and the invariant holds.
\<close>

theorem free_closed_exactly:
  assumes "inv_with E h L C" "loops h l = Some z"
  shows "\<exists>h'. us_internal_free_closed_sockets h l = Some h' \<and> inv_with E h' (L(Closed l := [])) C \<and>
    h' = (without h (set (L (Closed l))))\<lparr>loops := (loops h)(l \<mapsto>
      z\<lparr>num_polls := num_polls z - int (length (L (Closed l))), closed_head := NULL\<rparr>)\<rparr>"
  by (rule free_closed_ok [OF assms]) blast

theorem free_closed_exactly_witness:
  "\<exists>h'. us_internal_free_closed_sockets echo_heap 1 = Some h' \<and>
    inv_with (echo_env Epoll) h' (echo_lists(Closed 1 := [])) echo_ctxs \<and>
    h' = (without echo_heap (set (echo_lists (Closed 1))))\<lparr>loops := (loops echo_heap)(1 \<mapsto>
      echo_loop\<lparr>num_polls := num_polls echo_loop - int (length (echo_lists (Closed 1))), closed_head := NULL\<rparr>)\<rparr>"
  by (rule free_closed_exactly [OF echo_inv_with]) (simp add: echo_heap_def)

subsection \<open>Closing\<close>

text \<open>
  C6: \<open>us_socket_close\<close> on a socket that is open, connecting or queued: its descriptor is closed, it
  is in a close list and reports closed, no pending ready entry of any loop refers to it, the
  invariant holds, and then \<open>on_close\<close> of its context is called.
\<close>

theorem us_socket_close_closes:
  assumes "inv E h" "socks h s = Some so" "\<not> us_socket_is_closed so" "listens h s = None" "polls h s = Some p"
  shows "\<exists>h' so' y t. us_socket_close E h s code reason = call_fn E (on_close y) (OnClose s code reason) h' \<and>
    inv E h' \<and> socks h' s = Some so' \<and> us_socket_is_closed so' \<and> ctxs h' (s_context so') = Some y \<and> handlers_set y \<and>
    trace h' = trace h @ t @ [Sys (Close (us_poll_fd p))] \<and>
    (\<forall>l z. loops h' l = Some z \<longrightarrow> s \<notin> re_poll ` set (pending z))"
proof -
  obtain L C where i: "inv_with E h L C" using assms(1) unfolding inv_def by blast
  obtain h' L' so' q t where c: "close_quietly E h s = Some h'" "inv_with E h' L' C" "closed_in L' s"
    "socks h' s = Some so'" "us_socket_is_closed so'" "s_context so' = s_context so" "polls h s = Some q"
    "trace h' = trace h @ t @ [Sys (Close (us_poll_fd q))]" "has_handlers h' (s_context so)" "cbs h' = cbs h"
    by (rule close_quietly_ok [OF i assms(2-4)]) blast
  obtain y where y: "ctxs h' (s_context so') = Some y" "handlers_set y"
    using c(6,9) by (auto simp: has_handlers_def split: option.splits)
  have w: "wfd {} h' L' C" by (rule invD(1) [OF c(2)])
  have "s \<notin> re_poll ` set (pending z)" if z: "loops h' l = Some z" for l z
  proof
    assume "s \<in> re_poll ` set (pending z)"
    moreover have "s \<noteq> NULL" by (rule wfd_sock(1) [OF w c(4)])
    ultimately have "entry_ok h' L' l s" using readyD(2) [OF invD(6) [OF c(2)] z] by blast
    then show False using wfd_sock(3) [OF w c(4)] c(3) by (auto simp: entry_ok_def closed_in_def)
  qed
  moreover have "us_socket_close E h s code reason = call_fn E (on_close y) (OnClose s code reason) h'"
    by (rule us_socket_close_unfold [OF assms(2,3) c(1,4) y(1)])
  moreover have "inv E h'" using c(2) unfolding inv_def by blast
  ultimately show ?thesis using c(4,5,7,8) y assms(5) by (metis option.inject)
qed

theorem us_socket_close_closes_witness:
  "\<exists>h' so' y t. us_socket_close (echo_env Epoll) echo_heap 3 0 NULL = call_fn (echo_env Epoll) (on_close y) (OnClose 3 0 NULL) h' \<and>
    inv (echo_env Epoll) h' \<and> socks h' 3 = Some so' \<and> us_socket_is_closed so' \<and> ctxs h' (s_context so') = Some y \<and> handlers_set y \<and>
    trace h' = trace echo_heap @ t @ [Sys (Close (us_poll_fd \<lparr>fd = 60, poll_type = 8\<rparr>))] \<and>
    (\<forall>l z. loops h' l = Some z \<longrightarrow> 3 \<notin> re_poll ` set (pending z))"
  by (rule us_socket_close_closes [OF echo_inv, where so = "echo_sock 1 0 0 4"])
    (simp_all add: echo_defs us_socket_is_closed_def)

end
