(* ===== verification/Operations.thy ===== *)
theory Operations
  imports Echo
begin

text \<open>
  The properties of single operations: the intrusive lists, the clock of a context and the timeouts
  read off it, writing and shutting down, reading to the end of a stream, addresses, descriptors and
  poll types.
\<close>

subsection \<open>The lists\<close>

text \<open>
  C10: \<open>us_internal_socket_context_unlink_socket\<close> implements the removal of a socket from the list of
  its context, wherever in the list it is, and leaves every other list of the store as it was.
\<close>

theorem unlink_socket_refines_remove:
  assumes "chains doubly (s_nx h) (s_pv h) (s_hds h) L" "ctxs h c = Some y" "s \<in> set (L (Open c))"
  shows "\<exists>h'. us_internal_socket_context_unlink_socket h c s = Some h' \<and>
    chains doubly (s_nx h') (s_pv h') (s_hds h') (L(Open c := remove1 s (L (Open c))))"
  using sock_list.unlink_linked [of h L c "head_sockets y" s] assms
  by (simp add: sock_list.linked_def views_app)

theorem unlink_socket_refines_remove_witness:
  "\<exists>h'. us_internal_socket_context_unlink_socket echo_heap 2 4 = Some h' \<and>
    chains doubly (s_nx h') (s_pv h') (s_hds h') (echo_lists(Open 2 := remove1 4 (echo_lists (Open 2))))"
  by (rule unlink_socket_refines_remove [where y = echo_ctx])
    (use echo_chains(1) in \<open>simp_all add: echo_heap_def echo_lists_def\<close>)

text \<open>
  Linking a socket into a context and unlinking it again gives all the lists of the store back.
\<close>

theorem link_unlink_roundtrip:
  assumes "chains doubly (s_nx h) (s_pv h) (s_hds h) L" "ctxs h c = Some y"
    and "s \<in> dom (socks h)" "s \<noteq> NULL" "unlisted L s"
  shows "\<exists>h1 h2. us_internal_socket_context_link_socket h c s = Some h1 \<and>
    us_internal_socket_context_unlink_socket h1 c s = Some h2 \<and> chains doubly (s_nx h2) (s_pv h2) (s_hds h2) L"
  using sock_list.link_unlink [of h L c "head_sockets y" s] assms
  by (simp add: sock_list.linked_def views_app views_dom)

theorem link_unlink_roundtrip_witness:
  "\<exists>h1 h2. us_internal_socket_context_link_socket (echo_heap\<lparr>socks := (socks echo_heap)(9 \<mapsto> echo_sock 255 0 0 0)\<rparr>) 2 9 = Some h1 \<and>
    us_internal_socket_context_unlink_socket h1 2 9 = Some h2 \<and> chains doubly (s_nx h2) (s_pv h2) (s_hds h2) echo_lists"
proof (rule link_unlink_roundtrip)
  let ?h = "echo_heap\<lparr>socks := (socks echo_heap)(9 \<mapsto> echo_sock 255 0 0 0)\<rparr>"
  have h: "case s_hds ?h k of None \<Rightarrow> echo_lists k = []
      | Some c \<Rightarrow> chain (doubly k) (s_nx ?h) (s_pv ?h) c (echo_lists k)" for k
    by (cases k) (auto simp: echo_defs echo_lists_def view_defs chain_def dll_def)
  show "chains doubly (s_nx ?h) (s_pv ?h) (s_hds ?h) echo_lists"
    using h chainsD(3) [OF echo_chains(1)] unfolding chains_def by blast
  show "ctxs ?h 2 = Some echo_ctx" by (simp add: echo_heap_def)
  show "unlisted echo_lists 9" by (auto simp: unlisted_def echo_lists_def)
qed simp_all

subsection \<open>The clock and the timeouts\<close>

lemma tick_add: "global_tick ((sweep_tick ^^ k) y) = global_tick y + of_nat k"
  by (induction k) (simp_all add: sweep_tick_def Let_def)

lemma tick_timestamp:
  assumes "0 < k"
  shows "timestamp ((sweep_tick ^^ k) y) = ucast ((global_tick y + of_nat k) mod 240)"
    "long_timestamp ((sweep_tick ^^ k) y) = ucast (((global_tick y + of_nat k) div 15) mod 240)"
proof -
  obtain n where k: "k = Suc n" using assms by (cases k) auto
  have "global_tick ((sweep_tick ^^ n) y) + 1 = global_tick y + of_nat k" by (simp add: k tick_add)
  then show "timestamp ((sweep_tick ^^ k) y) = ucast ((global_tick y + of_nat k) mod 240)"
    "long_timestamp ((sweep_tick ^^ k) y) = ucast (((global_tick y + of_nat k) div 15) mod 240)"
    by (simp_all add: k sweep_tick_def Let_def ac_simps)
qed

lemma unat_mod240: "unat (ucast ((w::u32) mod 240) :: u8) = unat w mod 240"
proof -
  have "unat (w mod 240) = unat w mod 240" by (simp add: unat_mod_distrib)
  moreover have "unat w mod 240 < 2 ^ 8" using mod_less_divisor [of 240 "unat w"] by simp
  ultimately show ?thesis by (simp add: unsigned_ucast_eq take_bit_nat_eq_self)
qed

text \<open>
  C7: A timeout of up to 960 seconds is due at the tick that is the number of seconds divided by
  four, rounded up, after it was set, and at none before: the context's timestamp meets the
  socket's at that tick for the first time.
\<close>

theorem timeout_due_on_time:
  assumes "us_socket_timeout h s seconds = Some h'" "socks h s = Some so" "ctxs h (s_context so) = Some y"
    and "timestamp y = ucast (global_tick y mod 240)" "unat (global_tick y) + 240 < 2 ^ 32"
    and "0 < unat seconds" "unat seconds \<le> 960" "1 \<le> k" "k \<le> (unat seconds + 3) div 4"
  shows "\<exists>so'. socks h' s = Some so' \<and>
    (timestamp ((sweep_tick ^^ k) y) = timeout so' \<longleftrightarrow> k = (unat seconds + 3) div 4)"
proof -
  let ?n = "(unat seconds + 3) div 4" and ?g = "unat (global_tick y)"
  let ?t = "ucast ((ucast (timestamp y) + drop_bit 2 (seconds + 3)) mod 240 :: u32) :: u8"
  have s0: "seconds \<noteq> 0" using assms(6) by auto
  have so': "socks h' s = Some (so\<lparr>timeout := ?t\<rparr>)"
    using assms(1-3) s0 by (auto simp: us_socket_timeout_def set_sock_def)
  have n: "?n \<le> 240" using assms(7) by linarith
  have u3: "unat (seconds + 3) = unat seconds + 3"
    using assms(7) by (subst unat_add_lem [THEN iffD1]) simp_all
  have ts: "unat (ucast (timestamp y) :: u32) = ?g mod 240"
    unfolding assms(4) using unat_mod240 [of "global_tick y"]
    by (simp add: unsigned_ucast_eq unsigned_take_bit_eq)
  have d: "unat (drop_bit 2 (seconds + 3)) = ?n"
    by (simp add: drop_bit_eq_div unat_div_distrib u3)
  have g240: "?g mod 240 < 240" by simp
  have sum: "unat (ucast (timestamp y) + drop_bit 2 (seconds + 3) :: u32) = ?g mod 240 + ?n"
    using n g240 by (subst unat_add_lem [THEN iffD1]) (simp_all add: ts d)
  have t: "unat ?t = (?g + ?n) mod 240" unfolding unat_mod240 sum by (simp add: mod_add_left_eq)
  have gk: "unat (global_tick y + of_nat k) = ?g + k"
  proof -
    have k: "unat (of_nat k :: u32) = k" using assms(9) n by (simp add: unat_of_nat)
    show ?thesis using assms(5,9) n k by (subst unat_add_lem [THEN iffD1]) simp_all
  qed
  have tk: "unat (timestamp ((sweep_tick ^^ k) y)) = (?g + k) mod 240"
    unfolding tick_timestamp(1) [OF assms(8) [unfolded One_nat_def Suc_le_eq]] unat_mod240 gk ..
  have "timestamp ((sweep_tick ^^ k) y) = ?t \<longleftrightarrow> (?g + k) mod 240 = (?g + ?n) mod 240"
    using tk t by (metis unsigned_word_eqI)
  also have "\<dots> \<longleftrightarrow> k = ?n"
  proof
    assume e: "(?g + k) mod 240 = (?g + ?n) mod 240"
    then have "240 dvd (?g + ?n) - (?g + k)" using assms(9) by (metis add_le_cancel_left mod_eq_dvd_iff_nat)
    then have "240 dvd ?n - k" by simp
    moreover have "?n - k < 240" using assms(8) n by linarith
    ultimately have "?n - k = 0" by (auto dest: dvd_imp_le)
    then show "k = ?n" using assms(9) by simp
  qed simp
  finally show ?thesis using so' by simp
qed

theorem timeout_due_on_time_witness:
  "\<exists>so'. socks (echo_heap\<lparr>socks := (socks echo_heap)(3 \<mapsto> (echo_sock 1 0 0 4)\<lparr>timeout := 8\<rparr>)\<rparr>) 3 = Some so' \<and>
    (timestamp ((sweep_tick ^^ 8) echo_ctx) = timeout so' \<longleftrightarrow> (8::nat) = (unat (30::u32) + 3) div 4)"
proof (rule timeout_due_on_time)
  show "us_socket_timeout echo_heap 3 30 = Some (echo_heap\<lparr>socks := (socks echo_heap)(3 \<mapsto> (echo_sock 1 0 0 4)\<lparr>timeout := 8\<rparr>)\<rparr>)"
    by (simp add: us_socket_timeout_def set_sock_def echo_defs)
  show "socks echo_heap 3 = Some (echo_sock 1 0 0 4)" by (simp add: echo_heap_def)
  show "ctxs echo_heap (s_context (echo_sock 1 0 0 4)) = Some echo_ctx" by (simp add: echo_heap_def echo_sock_def)
  show "timestamp echo_ctx = ucast (global_tick echo_ctx mod 240)" "unat (global_tick echo_ctx) + 240 < 2 ^ 32"
    by (simp_all add: echo_ctx_def)
qed simp_all

text \<open>
  A timeout of zero seconds, or minutes, disarms: no tick of any context's clock ever meets it, because
  the timestamps stay below 240 and a disarmed timeout is 255.
\<close>

theorem disarmed_never_due:
  assumes "us_socket_timeout h s 0 = Some h1" "us_socket_long_timeout h1 s 0 = Some h2" "0 < k"
  shows "\<exists>so. socks h2 s = Some so \<and> timestamp ((sweep_tick ^^ k) y) \<noteq> timeout so \<and>
    long_timestamp ((sweep_tick ^^ k) y) \<noteq> long_timeout so"
proof -
  obtain so where so: "socks h s = Some so" "h1 = h\<lparr>socks := (socks h)(s \<mapsto> so\<lparr>timeout := 255\<rparr>)\<rparr>"
    using assms(1) by (auto simp: us_socket_timeout_def set_sock_def bind_eq_Some_conv)
  have h2: "socks h2 s = Some (so\<lparr>timeout := 255, long_timeout := 255\<rparr>)"
    using assms(2) so(2) by (auto simp: us_socket_long_timeout_def set_sock_def)
  have "unat (timestamp ((sweep_tick ^^ k) y)) < 240" "unat (long_timestamp ((sweep_tick ^^ k) y)) < 240"
    unfolding tick_timestamp [OF assms(3)] unat_mod240 by simp_all
  moreover have "unat (255 :: u8) = 255" by simp
  ultimately have "timestamp ((sweep_tick ^^ k) y) \<noteq> 255" "long_timestamp ((sweep_tick ^^ k) y) \<noteq> 255" by force+
  with h2 show ?thesis by simp
qed

theorem disarmed_never_due_witness:
  "\<exists>so. socks echo_heap 4 = Some so \<and> timestamp ((sweep_tick ^^ 255) echo_ctx) \<noteq> timeout so \<and>
    long_timestamp ((sweep_tick ^^ 255) echo_ctx) \<noteq> long_timeout so"
  by (rule disarmed_never_due [where h = echo_heap and ?h1.0 = echo_heap])
    (auto simp: us_socket_timeout_def us_socket_long_timeout_def set_sock_def echo_heap_def echo_sock_def fun_upd_idem)

subsection \<open>Writing, reading and shutting down\<close>

text \<open>The system call a write makes.\<close>

definition send_call :: "env \<Rightarrow> us_poll_t \<Rightarrow> u8 list \<Rightarrow> int \<Rightarrow> syscall" where
  "send_call E p data m = Send (us_poll_fd p) data ((if be E = Epoll \<and> m \<noteq> 0 then MSG_MORE else 0) OR MSG_NOSIGNAL (be E))"

text \<open>
  C9: What \<open>us_socket_write\<close> does: on a closed or shut down socket it writes nothing and changes
  nothing; otherwise one \<open>send\<close> is made and what the kernel took, or 0 on an error, is returned; when
  the kernel did not take everything the socket waits for both readable and writable, and the loop
  records that the last write failed.
\<close>

theorem us_socket_write_result:
  assumes "socks h s = Some so" "polls h s = Some p" "ctxs h (s_context so) = Some y" "loops h (c_loop y) = Some z"
  shows "\<exists>w h'. us_socket_write E h s data m = Some (w, h') \<and>
    (if us_socket_is_closed so \<or> us_socket_is_shut_down p then w = 0 \<and> h' = h
     else w = max 0 (sys_ret E (trace h) (send_call E p data m)) \<and>
       (if sys_ret E (trace h) (send_call E p data m) = int (length data) then h' = do_sys h (send_call E p data m)
        else (\<exists>p' z'. polls h' s = Some p' \<and> us_poll_events (be E) p' = (LIBUS_SOCKET_READABLE (be E) OR LIBUS_SOCKET_WRITABLE (be E)) \<and>
          us_internal_poll_type p' = us_internal_poll_type p \<and> loops h' (c_loop y) = Some z' \<and> last_write_failed z' = 1)))"
proof (cases "us_socket_is_closed so \<or> us_socket_is_shut_down p")
  case True
  then show ?thesis using assms by (simp add: us_socket_write_def)
next
  case open': False
  let ?c = "send_call E p data m"
  let ?w = "sys_ret E (trace h) ?c"
  have b: "bsd_send E h (us_poll_fd p) data m = (?w, do_sys h ?c)" by (simp add: bsd_send_def sys_def send_call_def)
  show ?thesis
  proof (cases "?w = int (length data)")
    case True
    then show ?thesis using assms(1,2) open' b by (simp add: us_socket_write_def)
  next
    case False
    let ?z = "z\<lparr>last_write_failed := 1\<rparr>"
    let ?g = "(do_sys h ?c)\<lparr>loops := (loops h)(c_loop y \<mapsto> ?z)\<rparr>"
    let ?ev = "LIBUS_SOCKET_READABLE (be E) OR LIBUS_SOCKET_WRITABLE (be E)"
    have g: "polls ?g s = Some p" "loops ?g (c_loop y) = Some ?z" using assms(2) by (simp_all add: do_sys_def)
    note r = us_poll_change_result [where E = E, OF g, of ?ev]
    obtain h' where h': "us_poll_change E ?g s (c_loop y) ?ev = Some h'" using r by blast
    have u: "us_socket_write E h s data m = Some (if ?w < 0 then 0 else ?w, h')"
      using assms(1-4) open' b False h' by (simp add: us_socket_write_def set_loop_def do_sys_def)
    have "\<exists>p'. polls h' s = Some p' \<and> us_poll_events (be E) p' = ?ev \<and> us_internal_poll_type p' = us_internal_poll_type p"
      "loops h' (c_loop y) = Some ?z"
      using r h' g by (auto simp: do_sys_def split: if_splits)
    with u open' False show ?thesis by (auto simp: max_def)
  qed
qed

theorem us_socket_write_result_witness:
  "\<exists>w h'. us_socket_write (echo_env Epoll) echo_heap 3 [104, 105] 0 = Some (w, h') \<and> w = 2 \<and>
    h' = do_sys echo_heap (Send 60 [104, 105] 0x4000)"
proof -
  let ?p = "\<lparr>fd = 60, poll_type = 8\<rparr> :: us_poll_t"
  have c: "send_call (echo_env Epoll) ?p [104, 105] 0 = Send 60 [104, 105] 0x4000"
    by (simp add: send_call_def us_poll_fd_def MSG_NOSIGNAL_def)
  have "\<not> us_socket_is_closed (echo_sock 1 0 0 4)" "\<not> us_socket_is_shut_down ?p"
    by (simp_all add: us_socket_is_closed_def echo_sock_def us_socket_is_shut_down_def us_internal_poll_type_def)
  with us_socket_write_result [where E = "echo_env Epoll" and h = echo_heap and s = 3 and so = "echo_sock 1 0 0 4" and
      p = ?p and y = echo_ctx and z = echo_loop and data = "[104, 105]" and m = 0] c
  show ?thesis by (simp add: echo_heap_def echo_sock_def echo_ctx_def echo_ret_def)
qed

text \<open>
  A peer that has sent its last data: a socket that was shut down is closed; any other stops
  polling for readable, so that the end is reported once, and \<open>on_end\<close> of its context is called.
\<close>

theorem dispatch_read_end:
  assumes "socks h s = Some so" "polls h s = Some p" "ctxs h (s_context so) = Some y" "loops h (c_loop y) = Some z"
    and "sys_ret E (trace h) (Recv (us_poll_fd p) LIBUS_RECV_BUFFER_LENGTH 0) = 0"
  shows "\<exists>h'. (if us_socket_is_shut_down p
    then dispatch_read E h s = map_option snd (us_socket_close E h' s 0 NULL) \<and> socks h' = socks h \<and> polls h' = polls h
    else dispatch_read E h s = map_option snd (call_fn E (on_end y) (OnEnd s) h') \<and>
      (\<exists>p'. polls h' s = Some p' \<and> us_poll_events (be E) p' AND LIBUS_SOCKET_READABLE (be E) = 0))"
proof -
  let ?c = "Recv (us_poll_fd p) LIBUS_RECV_BUFFER_LENGTH 0"
  let ?z = "z\<lparr>recv_buf := []\<rparr>"
  let ?g = "(do_sys h ?c)\<lparr>loops := (loops h)(c_loop y \<mapsto> ?z)\<rparr>"
  have b: "bsd_recv E h (us_poll_fd p) LIBUS_RECV_BUFFER_LENGTH 0 = (0, [], do_sys h ?c)"
    using assms(5) by (simp add: bsd_recv_def sys_def)
  show ?thesis
  proof (cases "us_socket_is_shut_down p")
    case True
    have "dispatch_read E h s = map_option snd (us_socket_close E ?g s 0 NULL)"
      using assms(1-4) b True
      by (cases "us_socket_close E ?g s 0 NULL") (simp_all add: dispatch_read_def set_loop_def do_sys_def)
    with True show ?thesis by (intro exI [of _ ?g]) (simp add: do_sys_def)
  next
    case False
    let ?ev = "us_poll_events (be E) p AND LIBUS_SOCKET_WRITABLE (be E)"
    have g: "polls ?g s = Some p" "loops ?g (c_loop y) = Some ?z" using assms(2) by (simp_all add: do_sys_def)
    note r = us_poll_change_result [where E = E, OF g, of ?ev]
    obtain h' where h': "us_poll_change E ?g s (c_loop y) ?ev = Some h'" using r by blast
    have "dispatch_read E h s = map_option snd (call_fn E (on_end y) (OnEnd s) h')"
      using assms(1-4) b False h'
      by (cases "call_fn E (on_end y) (OnEnd s) h'") (simp_all add: dispatch_read_def set_loop_def do_sys_def)
    moreover have "\<exists>p'. polls h' s = Some p' \<and> us_poll_events (be E) p' = ?ev"
      using r h' g by (auto simp: do_sys_def split: if_splits)
    ultimately show ?thesis using False RW_masks by auto
  qed
qed

theorem dispatch_read_end_witness:
  "\<exists>h'. dispatch_read ((echo_env Epoll)\<lparr>sys_ret := \<lambda>_ _. 0\<rparr>) echo_heap 3 =
      map_option snd (call_fn ((echo_env Epoll)\<lparr>sys_ret := \<lambda>_ _. 0\<rparr>) (on_end echo_ctx) (OnEnd 3) h') \<and>
    (\<exists>p'. polls h' 3 = Some p' \<and> us_poll_events Epoll p' AND LIBUS_SOCKET_READABLE Epoll = 0)"
proof -
  let ?p = "\<lparr>fd = 60, poll_type = 8\<rparr> :: us_poll_t"
  have "\<not> us_socket_is_shut_down ?p" by (simp add: us_socket_is_shut_down_def us_internal_poll_type_def)
  with dispatch_read_end [where E = "(echo_env Epoll)\<lparr>sys_ret := \<lambda>_ _. 0\<rparr>" and h = echo_heap and s = 3 and
      so = "echo_sock 1 0 0 4" and p = ?p and y = echo_ctx and z = echo_loop]
  show ?thesis by (simp add: echo_heap_def echo_sock_def echo_ctx_def)
qed

text \<open>
  A receive that fails for another reason than that nothing is there closes the socket; one that
  would block changes nothing but the history and the receive buffer.
\<close>

theorem dispatch_read_error:
  assumes "socks h s = Some so" "polls h s = Some p" "ctxs h (s_context so) = Some y" "loops h (c_loop y) = Some z"
    and "sys_ret E (trace h) (Recv (us_poll_fd p) LIBUS_RECV_BUFFER_LENGTH 0) = -1"
  shows "\<exists>h'. socks h' = socks h \<and> polls h' = polls h \<and> ctxs h' = ctxs h \<and>
    dispatch_read E h s = (if bsd_would_block E h' then Some h' else map_option snd (us_socket_close E h' s 0 NULL))"
proof -
  let ?c = "Recv (us_poll_fd p) LIBUS_RECV_BUFFER_LENGTH 0"
  let ?g = "(do_sys h ?c)\<lparr>loops := (loops h)(c_loop y \<mapsto> z\<lparr>recv_buf := []\<rparr>)\<rparr>"
  have b: "bsd_recv E h (us_poll_fd p) LIBUS_RECV_BUFFER_LENGTH 0 = (-1, [], do_sys h ?c)"
    using assms(5) by (simp add: bsd_recv_def sys_def)
  have "dispatch_read E h s = (if bsd_would_block E ?g then Some ?g else map_option snd (us_socket_close E ?g s 0 NULL))"
    using assms(1-4) b
    by (cases "us_socket_close E ?g s 0 NULL") (simp_all add: dispatch_read_def set_loop_def do_sys_def)
  then show ?thesis by (intro exI [of _ ?g]) (simp add: do_sys_def)
qed

theorem dispatch_read_error_witness:
  "\<exists>h'. socks h' = socks echo_heap \<and> polls h' = polls echo_heap \<and> ctxs h' = ctxs echo_heap \<and>
    dispatch_read ((echo_env Epoll)\<lparr>sys_ret := \<lambda>_ _. -1\<rparr>) echo_heap 3 =
      (if bsd_would_block ((echo_env Epoll)\<lparr>sys_ret := \<lambda>_ _. -1\<rparr>) h' then Some h'
       else map_option snd (us_socket_close ((echo_env Epoll)\<lparr>sys_ret := \<lambda>_ _. -1\<rparr>) h' 3 0 NULL))"
  by (rule dispatch_read_error [where so = "echo_sock 1 0 0 4" and p = "\<lparr>fd = 60, poll_type = 8\<rparr>" and y = echo_ctx and
        z = echo_loop]) (simp_all add: echo_heap_def echo_sock_def echo_ctx_def)

subsection \<open>Addresses and descriptors\<close>

lemma ntohs_ntohs [simp]: "ntohs (ntohs w) = w"
  by (rule bit_word_eqI) (auto simp: ntohs_def bit_simps)

text \<open>
  The port of an address read back from the kernel is the one in host byte order: it is between
  0 and 65535 for IPv4 and IPv6, -1 for every other family, and storing a port in network byte order
  and reading it gives it back.
\<close>

theorem addr_port_roundtrip:
  "addr_port (internal_finalize_bsd_addr (SockIn bs (ntohs w))) = uint w \<and>
   addr_port (internal_finalize_bsd_addr (SockIn6 bs (ntohs w))) = uint w \<and>
   addr_port (internal_finalize_bsd_addr a) \<in> {-1..65535} \<and>
   ip_length (internal_finalize_bsd_addr a) = (case a of SockIn _ _ \<Rightarrow> 4 | SockIn6 _ _ \<Rightarrow> 16 | _ \<Rightarrow> 0)"
proof -
  have "0 \<le> uint (v::u16)" "uint (v::u16) \<le> 65535" for v using uint_lt2p [of v] by simp_all
  then have "addr_port (internal_finalize_bsd_addr a) \<in> {-1..65535}"
    by (cases a) (auto simp: internal_finalize_bsd_addr_def intro: order_trans [of "-1" 0])
  then show ?thesis by (cases a) (simp_all add: internal_finalize_bsd_addr_def)
qed

fun tries :: "env \<Rightarrow> heap \<Rightarrow> addrinfo list \<Rightarrow> heap" where
  "tries E h [] = h"
| "tries E h (a # as) = tries E (snd (bsd_create_socket E h (ai_family a) (ai_socktype a) (ai_protocol a))) as"

lemma try_family_done: "f \<noteq> -1 \<Longrightarrow> bsd_try_family E h fam ais f a = (f, a, h)"
  by (cases ais) auto

lemma try_family_result:
  "bsd_try_family E h fam ais (-1) a0 = (f, a, h') \<Longrightarrow>
     (f \<noteq> -1 \<longrightarrow> (\<exists>pre x post. filter (\<lambda>x. ai_family x = fam) ais = pre @ x # post \<and> a = Some x \<and>
        h' = tries E h (pre @ [x]))) \<and>
     (f = -1 \<longrightarrow> h' = tries E h (filter (\<lambda>x. ai_family x = fam) ais))"
proof (induction ais arbitrary: h a0)
  case (Cons b ais)
  show ?case
  proof (cases "ai_family b = fam")
    case False
    then have "bsd_try_family E h fam ais (-1) a0 = (f, a, h')" using Cons.prems by simp
    from Cons.IH [OF this] False show ?thesis by simp
  next
    case True
    obtain f1 h1 where c: "bsd_create_socket E h (ai_family b) (ai_socktype b) (ai_protocol b) = (f1, h1)" by fastforce
    have r: "bsd_try_family E h1 fam ais f1 (Some b) = (f, a, h')" using Cons.prems True c by simp
    show ?thesis
    proof (cases "f1 = -1")
      case False
      then have "f = f1" "a = Some b" "h' = h1" using r try_family_done [OF False] by auto
      then show ?thesis using True c False by (simp, intro exI [of _ "[]"] exI [of _ b], simp)
    next
      case neg: True
      note IH = Cons.IH [OF r [unfolded neg]]
      show ?thesis
      proof (cases "f = -1")
        case False
        with IH obtain pre x post where "filter (\<lambda>x. ai_family x = fam) ais = pre @ x # post" "a = Some x"
          "h' = tries E h1 (pre @ [x])" by blast
        then show ?thesis using True c False by (simp, intro exI [of _ "b # pre"] exI [of _ x] conjI exI [of _ post]) simp_all
      qed (use IH True c in simp)
    qed
  qed
qed simp

text \<open>
  Listening prefers IPv6: when a socket can be made for an IPv6 result of the resolver, the first
  such result is taken and the IPv4 results are not tried; otherwise every IPv6 result was tried.
\<close>

theorem listen_prefers_ipv6:
  assumes "bsd_try_family E h (AF_INET6 (be E)) ais LIBUS_SOCKET_ERROR None = (f, a, h1)"
  shows "(if f \<noteq> LIBUS_SOCKET_ERROR
    then bsd_try_family E h1 AF_INET ais f a = (f, a, h1) \<and>
      (\<exists>pre x post. filter (\<lambda>x. ai_family x = AF_INET6 (be E)) ais = pre @ x # post \<and> a = Some x \<and> h1 = tries E h (pre @ [x]))
    else h1 = tries E h (filter (\<lambda>x. ai_family x = AF_INET6 (be E)) ais))"
  using try_family_result [OF assms [unfolded LIBUS_SOCKET_ERROR_def]] try_family_done by simp

theorem listen_prefers_ipv6_witness:
  "let a4 = \<lparr>ai_family = 2, ai_socktype = 1, ai_protocol = 6, ai_addr = SockIn [0, 0, 0, 0] 80\<rparr>;
       a6 = \<lparr>ai_family = 10, ai_socktype = 1, ai_protocol = 6, ai_addr = SockOther\<rparr>;
       h1 = tries (echo_env Epoll) echo_heap [a6]
   in bsd_try_family (echo_env Epoll) h1 AF_INET [a4, a6] 9 (Some a6) = (9, Some a6, h1)"
proof -
  let ?a4 = "\<lparr>ai_family = 2, ai_socktype = 1, ai_protocol = 6, ai_addr = SockIn [0, 0, 0, 0] 80\<rparr>"
  let ?a6 = "\<lparr>ai_family = 10, ai_socktype = 1, ai_protocol = 6, ai_addr = SockOther\<rparr>"
  have "bsd_try_family (echo_env Epoll) echo_heap (AF_INET6 (be (echo_env Epoll))) [?a4, ?a6] LIBUS_SOCKET_ERROR None =
      (9, Some ?a6, tries (echo_env Epoll) echo_heap [?a6])"
    by (simp add: AF_INET6_def bsd_create_socket_def sys_def echo_ret_def)
  from listen_prefers_ipv6 [OF this] show ?thesis by (simp add: Let_def)
qed

text \<open>
  A descriptor is kept in 28 signed bits: one between \<open>-2^27\<close> and \<open>2^27 - 1\<close> is read back as it
  was stored, with the poll type beside it, and no poll ever reports a descriptor outside this range.
\<close>

theorem poll_fd_roundtrip:
  assumes "us_poll_init h p f t = Some h'" "polls h' q = Some x"
  shows "us_poll_fd x \<in> {- (2 ^ 27)..<2 ^ 27} \<and>
    (q = p \<longrightarrow> us_internal_poll_type x = t AND 3 \<and> (f \<in> {- (2 ^ 27)..<2 ^ 27} \<longrightarrow> us_poll_fd x = f))"
proof -
  have r: "- (2 ^ 27) \<le> sint (w :: 28 word)" "sint (w :: 28 word) < 2 ^ 27" for w
    using sint_ge [of w] sint_lt [of w] by simp_all
  have "q = p \<Longrightarrow> fd x = word_of_int f \<and> poll_type x = t"
    using assms by (auto simp: us_poll_init_def set_poll_def bind_eq_Some_conv)
  with r [of "fd x"] sint_word_of_int_fits [of f] show ?thesis
    by (auto simp: us_poll_fd_def us_internal_poll_type_def)
qed

theorem poll_fd_roundtrip_witness:
  "us_poll_fd \<lparr>fd = 1000, poll_type = 2\<rparr> \<in> {- (2 ^ 27)..<2 ^ 27} \<and> us_poll_fd \<lparr>fd = 1000, poll_type = 2\<rparr> = 1000"
proof -
  have i: "us_poll_init echo_heap 3 1000 2 = Some (echo_heap\<lparr>polls := (polls echo_heap)(3 \<mapsto> \<lparr>fd = 1000, poll_type = 2\<rparr>)\<rparr>)"
    by (simp add: us_poll_init_def set_poll_def echo_heap_def)
  from poll_fd_roundtrip [OF i, of 3 "\<lparr>fd = 1000, poll_type = 2\<rparr>"] show ?thesis by simp
qed

text \<open>
  C11: The type and the events of a poll share one field of four bits, and are independent in it:
  setting the type keeps the events and the descriptor and gives the type back.
\<close>

theorem poll_type_independent:
  assumes "us_internal_poll_set_type h p t = Some h'" "polls h p = Some x" "t AND 3 = t"
  shows "\<exists>x'. h' = h\<lparr>polls := (polls h)(p \<mapsto> x')\<rparr> \<and> us_internal_poll_type x' = t \<and>
    us_poll_events b x' = us_poll_events b x \<and> us_poll_fd x' = us_poll_fd x"
  using assms(1) set_type_result [OF assms(2), of t] with_type_simps(1,2) [OF assms(3)] with_type_simps(3) by auto

theorem poll_type_independent_witness:
  "\<exists>x'. echo_heap\<lparr>polls := (polls echo_heap)(4 \<mapsto> \<lparr>fd = 61, poll_type = 4\<rparr>)\<rparr> = echo_heap\<lparr>polls := (polls echo_heap)(4 \<mapsto> x')\<rparr> \<and>
    us_internal_poll_type x' = POLL_TYPE_SOCKET \<and>
    us_poll_events Epoll x' = us_poll_events Epoll \<lparr>fd = 61, poll_type = 6\<rparr> \<and> us_poll_fd x' = us_poll_fd \<lparr>fd = 61, poll_type = 6\<rparr>"
  by (rule poll_type_independent) (simp_all add: us_internal_poll_set_type_def set_poll_def echo_heap_def)

end
