(* ===== verification/Start.thy ===== *)
theory Start
  imports Echo
begin

text \<open>
  Where the invariant comes from: a loop created in an empty store satisfies it, and so does every
  store that is reached from there by what an application does before it runs the loop and by turns
  of the loop.
\<close>

subsection \<open>A store with nothing but loops and callbacks\<close>

lemma bare_inv:
  assumes e: "socks h = Map.empty" "ctxs h = Map.empty" "listens h = Map.empty" "loops h = [l \<mapsto> z]" "l \<noteq> NULL"
    and z: "l_head z = NULL" "l_iterator z = NULL" "closed_head z = NULL" "low_prio_head z = NULL"
      "num_ready_polls z = 0" "current_ready_poll z = 0"
    and p: "finite (dom (polls h))" "NULL \<notin> dom (polls h)" "l \<notin> dom (polls h)"
    and cb: "\<And>x cb. cbs h x = Some cb \<Longrightarrow> cb_loop cb = l \<and> (\<exists>p. polls h x = Some p \<and> us_internal_poll_type p = POLL_TYPE_CALLBACK)"
  shows "inv_with E h (\<lambda>_. []) (\<lambda>_. [])"
proof (rule invI)
  have ld: "dom (cbs h) \<subseteq> dom (polls h)" using cb by blast
  have hd: "hds_of Map.empty [l \<mapsto> z] k = None \<or> hds_of Map.empty [l \<mapsto> z] k = Some NULL" for k
    using z by (cases k) (auto simp: hds_of_def)
  show "wfd {} h (\<lambda>_. []) (\<lambda>_. [])"
  proof (rule okI)
    have "case hds_of Map.empty [l \<mapsto> z] k of None \<Rightarrow> [] = ([]::ptr list) | Some c \<Rightarrow> chain (doubly k) nx' pv' c []" for k nx' pv'
      using hd [of k] by (auto simp: chain_def)
    then show "chains doubly (nx (shape h)) (pv (shape h)) (hds (shape h)) (\<lambda>_. [])"
      unfolding chains_def by (simp add: e)
    have "case c_hds h k of None \<Rightarrow> [] = ([]::ptr list) | Some c \<Rightarrow> chain True (c_nx h) (c_pv h) c []" for k
      using e z by (simp add: chain_def views_all_app)
    then show "chains (\<lambda>_. True) (cnx (shape h)) (cpv (shape h)) (chd (shape h)) (\<lambda>_. [])"
      by (simp add: chains_def)
    show "placed_ok {} (shape h) (\<lambda>_. [])" using e by (simp add: placed_ok_def views_all_dom)
    show "layout_ok (shape h)" using e p ld by (auto simp: layout_ok_def views_all_dom)
    show "owners_ok (shape h) (\<lambda>_. []) (\<lambda>_. [])" using e z by (simp add: owners_ok_def views_all_app)
  qed
  show "finite (allocated h)" using p(1) ld e by (simp add: finite_allocated) (metis finite_subset)
  show "pollsI (be E) h (\<lambda>_. [])" by (simp add: pollsI_def)
  show "handI h (\<lambda>_. [])" by (simp add: handI_def)
  show "cbsI h" using cb e by (fastforce simp: cbsI_def cb_ok_def)
  show "readyI (be E) h (\<lambda>_. [])" using e z by (simp add: readyI_def ready_list_ok_def pending_def)
qed

subsection \<open>Creating a loop\<close>

definition empty_heap :: "trace_t \<Rightarrow> heap" where
  "empty_heap t = \<lparr>polls = Map.empty, socks = Map.empty, listens = Map.empty, cbs = Map.empty, ctxs = Map.empty,
     loops = Map.empty, trace = t, ssl_socks = Map.empty, ssl_ctxs = Map.empty,
     ssl_datas = Map.empty, udps = Map.empty, udp_bufs = Map.empty\<rparr>"

lemma allocator_fresh:
  assumes "allocator_ok E" "finite (allocated h)"
  shows "malloc_at E h \<noteq> NULL" "malloc_at E h \<notin> allocated h"
  using assms unfolding allocator_ok_def by blast+

text \<open>A heap with one loop and some callbacks, while it is being set up.\<close>

definition bare :: "ptr \<Rightarrow> us_loop_t \<Rightarrow> heap \<Rightarrow> bool" where
  "bare l z h \<longleftrightarrow> socks h = Map.empty \<and> ctxs h = Map.empty \<and> listens h = Map.empty \<and> loops h = [l \<mapsto> z] \<and> l \<noteq> NULL \<and>
     finite (dom (polls h)) \<and> NULL \<notin> dom (polls h) \<and> l \<notin> dom (polls h) \<and>
     (\<forall>x cb. cbs h x = Some cb \<longrightarrow> cb_loop cb = l \<and>
        (\<exists>p. polls h x = Some p \<and> us_internal_poll_type p = POLL_TYPE_CALLBACK))"

lemma bare_finite:
  assumes "bare l z h"
  shows "finite (allocated h)"
proof -
  have "dom (cbs h) \<subseteq> dom (polls h)" using assms unfolding bare_def by blast
  then have "finite (dom (cbs h))" using assms finite_subset unfolding bare_def by blast
  then show ?thesis using assms by (simp add: finite_allocated bare_def)
qed

lemma bare_fresh:
  assumes "allocator_ok E" "bare l z h"
  obtains p where "malloc_at E h = p" "p \<noteq> NULL" "p \<noteq> l" "polls h p = None" "cbs h p = None"
proof -
  note f = allocator_fresh [OF assms(1) bare_finite [OF assms(2)]]
  have "malloc_at E h \<noteq> l" "polls h (malloc_at E h) = None" "cbs h (malloc_at E h) = None"
    using f assms(2) by (auto simp: allocated_def bare_def)
  with f(1) that show thesis by blast
qed

lemma callback_type: "us_internal_poll_type (x\<lparr>poll_type := POLL_TYPE_CALLBACK\<rparr>) = POLL_TYPE_CALLBACK"
  "us_internal_poll_type (x\<lparr>poll_type := POLL_TYPE_CALLBACK OR (poll_type y AND 12)\<rparr>) = POLL_TYPE_CALLBACK"
  "us_internal_poll_type y = POLL_TYPE_CALLBACK \<Longrightarrow>
    us_internal_poll_type (x\<lparr>poll_type := us_internal_poll_type y OR polling_bits b ev\<rparr>) = POLL_TYPE_CALLBACK"
  using u4_set_type(1) [of 3 "poll_type y"] u4_type_bits(1) [of "polling_bits b ev" 3] polling_bits_cases [of b ev]
  by (simp_all add: us_internal_poll_type_def)

lemma bare_callback:
  assumes "bare l z h" "p \<noteq> NULL" "p \<noteq> l" "us_internal_poll_type x = POLL_TYPE_CALLBACK" "cb_loop cb = l"
  shows "bare l z (h\<lparr>cbs := (cbs h)(p \<mapsto> cb), polls := (polls h)(p \<mapsto> x)\<rparr>)"
  using assms by (auto simp: bare_def)

lemma bare_trace [simp]: "bare l z (h\<lparr>trace := t\<rparr>) = bare l z h" "bare l z (do_sys h c) = bare l z h"
  by (simp_all add: bare_def do_sys_def)

lemma create_timer_bare:
  assumes a: "allocator_ok E" and b: "bare l z h"
  obtains t h' where "us_create_timer E h l 1 = Some (t, h')" "bare l z h'"
proof (rule bare_fresh [OF a b])
  fix p assume p: "malloc_at E h = p" "p \<noteq> NULL" "p \<noteq> l" "polls h p = None" "cbs h p = None"
  show thesis
  proof (cases "be E")
    case Kqueue_backend
    let ?cb = "\<lparr>cb_loop = l, cb_expects_the_loop = 0, leave_poll_ready = 0, cb_cb = NullFn\<rparr>"
    let ?x = "(malloc_garbage E h)\<lparr>poll_type := POLL_TYPE_CALLBACK OR (POLL_TYPE_POLLING_IN AND 12)\<rparr>"
    have t: "us_internal_poll_type ?x = POLL_TYPE_CALLBACK" by (simp add: us_internal_poll_type_def)
    have "us_create_timer E h l 1 = Some (p, h\<lparr>cbs := (cbs h)(p \<mapsto> ?cb), polls := (polls h)(p \<mapsto> ?x)\<rparr>)"
      using p(1) Kqueue_backend by (simp add: us_create_timer_def us_internal_poll_set_type_def set_poll_def Let_def)
    then show thesis by (rule that) (rule bare_callback [OF b p(2,3) t], simp)
  next
    case Epoll
    let ?h1 = "do_sys (h\<lparr>polls := (polls h)(p \<mapsto> malloc_garbage E h)\<rparr>) TimerfdCreate"
    let ?f = "sys_ret E (trace h) TimerfdCreate"
    show thesis
    proof (cases "?f = -1")
      case True
      then have "us_create_timer E h l 1 = Some (NULL, ?h1)"
        using p(1) Epoll by (simp add: us_create_timer_def us_create_poll_def Let_def)
      moreover have "bare l z ?h1" using b p by (auto simp: bare_def do_sys_def)
      ultimately show thesis by (rule that)
    next
      case False
      let ?cb = "\<lparr>cb_loop = l, cb_expects_the_loop = 0, leave_poll_ready = 0, cb_cb = NullFn\<rparr>"
      let ?x = "(malloc_garbage E h)\<lparr>fd := word_of_int ?f, poll_type := POLL_TYPE_CALLBACK\<rparr>"
      have "us_create_timer E h l 1 = Some (p, (do_sys h TimerfdCreate)\<lparr>cbs := (cbs h)(p \<mapsto> ?cb), polls := (polls h)(p \<mapsto> ?x)\<rparr>)"
        using p(1) Epoll False by (simp add: us_create_timer_def us_create_poll_def us_poll_init_def set_poll_def Let_def do_sys_def)
      moreover have "bare l z ((do_sys h TimerfdCreate)\<lparr>cbs := (cbs h)(p \<mapsto> ?cb), polls := (polls h)(p \<mapsto> ?x)\<rparr>)"
        using bare_callback [of l z "do_sys h TimerfdCreate" p ?x ?cb] b p(2,3)
        by (simp add: us_internal_poll_type_def) (simp add: do_sys_def)
      ultimately show thesis by (rule that)
    qed
  qed
qed

lemma create_async_bare:
  assumes a: "allocator_ok E" and b: "bare l z h"
  obtains t h' where "us_internal_create_async E h l 1 = Some (t, h')" "bare l z h'" "t \<in> dom (cbs h')"
proof (rule bare_fresh [OF a b])
  fix p assume p: "malloc_at E h = p" "p \<noteq> NULL" "p \<noteq> l" "polls h p = None" "cbs h p = None"
  let ?cb = "\<lparr>cb_loop = l, cb_expects_the_loop = 1, leave_poll_ready = 0, cb_cb = NullFn\<rparr>"
  show thesis
  proof (cases "be E")
    case Kqueue_backend
    let ?x = "(malloc_garbage E h)\<lparr>poll_type := POLL_TYPE_CALLBACK OR (POLL_TYPE_POLLING_IN AND 12)\<rparr>"
    have t: "us_internal_poll_type ?x = POLL_TYPE_CALLBACK" by (simp add: us_internal_poll_type_def)
    have "us_internal_create_async E h l 1 = Some (p, h\<lparr>cbs := (cbs h)(p \<mapsto> ?cb), polls := (polls h)(p \<mapsto> ?x)\<rparr>)"
      using p(1) Kqueue_backend by (simp add: us_internal_create_async_def us_internal_poll_set_type_def set_poll_def Let_def)
    then show thesis by (rule that) (rule bare_callback [OF b p(2,3) t], simp_all)
  next
    case Epoll
    let ?x = "(malloc_garbage E h)\<lparr>fd := word_of_int (sys_ret E (trace h) Eventfd), poll_type := POLL_TYPE_CALLBACK\<rparr>"
    have "us_internal_create_async E h l 1 = Some (p, (do_sys h Eventfd)\<lparr>cbs := (cbs h)(p \<mapsto> ?cb), polls := (polls h)(p \<mapsto> ?x)\<rparr>)"
      using p(1) Epoll by (simp add: us_internal_create_async_def us_create_poll_def us_poll_init_def set_poll_def Let_def do_sys_def)
    moreover have "bare l z ((do_sys h Eventfd)\<lparr>cbs := (cbs h)(p \<mapsto> ?cb), polls := (polls h)(p \<mapsto> ?x)\<rparr>)"
      using bare_callback [of l z "do_sys h Eventfd" p ?x ?cb] b p(2,3)
      by (simp add: us_internal_poll_type_def) (simp add: do_sys_def)
    ultimately show thesis by (rule that) simp
  qed
qed

lemma async_set_bare:
  assumes b: "bare l z h" and p: "p \<in> dom (cbs h)"
  obtains h' where "us_internal_async_set E h p f = Some h'" "bare l z h'"
proof -
  obtain cb x where cb: "cbs h p = Some cb" "polls h p = Some x" "cb_loop cb = l" "us_internal_poll_type x = POLL_TYPE_CALLBACK"
    using b p unfolding bare_def by blast
  have pl: "p \<noteq> NULL" "p \<noteq> l" using b cb(2) by (auto simp: bare_def)
  let ?cb = "cb\<lparr>cb_cb := f\<rparr>"
  let ?x = "x\<lparr>poll_type := us_internal_poll_type x OR polling_bits Epoll (LIBUS_SOCKET_READABLE Epoll)\<rparr>"
  show thesis
  proof (cases "be E")
    case Kqueue_backend
    have "us_internal_async_set E h p f = Some (h\<lparr>cbs := (cbs h)(p \<mapsto> ?cb), polls := (polls h)(p \<mapsto> x)\<rparr>)"
      using Kqueue_backend cb(1,2) by (simp add: us_internal_async_set_def set_cb_def fun_upd_idem)
    then show thesis by (rule that) (rule bare_callback [OF b pl cb(4)], simp add: cb)
  next
    case Epoll
    let ?c = "EpollCtl (l_fd z) EPOLL_CTL_ADD (us_poll_fd ?x) (LIBUS_SOCKET_READABLE Epoll) p"
    have lz: "loops h l = Some z" using b by (simp add: bare_def)
    have "us_internal_async_set E h p f =
        Some (do_sys (h\<lparr>cbs := (cbs h)(p \<mapsto> ?cb), polls := (polls h)(p \<mapsto> ?x)\<rparr>) ?c)"
      using Epoll cb lz by (simp add: us_internal_async_set_def set_cb_def us_poll_start_def set_poll_def us_poll_fd_def)
    moreover have "bare l z (do_sys (h\<lparr>cbs := (cbs h)(p \<mapsto> ?cb), polls := (polls h)(p \<mapsto> ?x)\<rparr>) ?c)"
      using bare_callback [OF b pl, of ?x ?cb] callback_type(3) [OF cb(4)] cb(3) by simp
    ultimately show thesis by (rule that)
  qed
qed

lemma bare_set_loop:
  "bare l z h \<Longrightarrow> set_loop h l f = Some (h\<lparr>loops := (loops h)(l \<mapsto> f z)\<rparr>) \<and> bare l (f z) (h\<lparr>loops := (loops h)(l \<mapsto> f z)\<rparr>)"
  by (simp add: bare_def set_loop_def)

lemma create_loop_bare:
  assumes a: "allocator_ok E"
  obtains l h z where "us_create_loop E (empty_heap t) w pre post = Some (l, h)" "bare l z h"
    "pre_cb z = pre" "post_cb z = post" "num_polls z = 0" "l_head z = NULL" "l_iterator z = NULL" "closed_head z = NULL"
    "low_prio_head z = NULL" "num_ready_polls z = 0" "current_ready_poll z = 0"
proof -
  let ?c = "case be E of Epoll \<Rightarrow> EpollCreate | Kqueue_backend \<Rightarrow> Kqueue"
  define l where "l = malloc_at E (empty_heap t)"
  define z0 where "z0 = \<lparr>sweep_timer = NULL, wakeup_async = NULL, last_write_failed = 0,
            l_head = NULL, l_iterator = NULL, recv_buf = [], ssl_data = NULL, pre_cb = NullFn,
            post_cb = NullFn, closed_head = NULL, low_prio_head = NULL, low_prio_budget = 0,
            iteration_nr = 0, num_polls = 0, num_ready_polls = 0, current_ready_poll = 0,
            l_fd = sys_ret E t ?c, ready_polls = []\<rparr>"
  define h0 where "h0 = (do_sys (empty_heap t) ?c)\<lparr>loops := [l \<mapsto> z0]\<rparr>"
  have "finite (allocated (empty_heap t))" by (simp add: finite_allocated empty_heap_def)
  from allocator_fresh(1) [OF a this] have l0: "l \<noteq> NULL" by (simp add: l_def)
  have b0: "bare l z0 h0" using l0 by (simp add: bare_def h0_def empty_heap_def do_sys_def)
  obtain tm h1 where t1: "us_create_timer E h0 l 1 = Some (tm, h1)" "bare l z0 h1" using create_timer_bare [OF a b0] .
  define f1 where "f1 = (\<lambda>z :: us_loop_t. z\<lparr>sweep_timer := tm, recv_buf := [], ssl_data := NULL, l_head := NULL,
       l_iterator := NULL, closed_head := NULL, low_prio_head := NULL, low_prio_budget := 0,
       pre_cb := pre, post_cb := post, iteration_nr := 0\<rparr>)"
  note s1 = bare_set_loop [OF t1(2), of f1]
  let ?h2 = "h1\<lparr>loops := (loops h1)(l \<mapsto> f1 z0)\<rparr>"
  obtain as h3 where t3: "us_internal_create_async E ?h2 l 1 = Some (as, h3)" "bare l (f1 z0) h3" "as \<in> dom (cbs h3)"
    using create_async_bare [OF a conjunct2 [OF s1]] .
  note s3 = bare_set_loop [OF t3(2), of "\<lambda>z. z\<lparr>wakeup_async := as\<rparr>"]
  let ?h4 = "h3\<lparr>loops := (loops h3)(l \<mapsto> (f1 z0)\<lparr>wakeup_async := as\<rparr>)\<rparr>"
  have "as \<in> dom (cbs ?h4)" using t3(3) by simp
  then obtain h5 where t5: "us_internal_async_set E ?h4 as w = Some h5" "bare l ((f1 z0)\<lparr>wakeup_async := as\<rparr>) h5"
    using async_set_bare [OF conjunct2 [OF s3]] by metis
  have e0: "(do_sys (empty_heap t) ?c)\<lparr>loops := (loops (do_sys (empty_heap t) ?c))(l \<mapsto> z0)\<rparr> = h0"
    by (simp add: h0_def do_sys_def empty_heap_def)
  have tr: "trace (empty_heap t) = t" by (simp add: empty_heap_def)
  have "us_internal_loop_data_init E h0 l w pre post = Some h5"
    using t1(1) s1 t3(1) s3 t5(1) unfolding f1_def by (simp add: us_internal_loop_data_init_def)
  then have r: "us_create_loop E (empty_heap t) w pre post = Some (l, h5)"
    unfolding us_create_loop_def Let_def sys_def prod.case l_def [symmetric] tr z0_def [symmetric] e0 by simp
  show thesis by (rule that [OF r t5(2)]) (simp_all add: f1_def z0_def)
qed

lemma create_loop_inv:
  assumes "allocator_ok E"
  obtains l h z where "us_create_loop E (empty_heap t) wakeup pre post = Some (l, h)" "inv E h" "loops h l = Some z"
    "pre_cb z = pre" "post_cb z = post" "num_polls z = 0"
proof (rule create_loop_bare [OF assms])
  fix l h z
  assume r: "us_create_loop E (empty_heap t) wakeup pre post = Some (l, h)" "bare l z h"
    "pre_cb z = pre" "post_cb z = post" "num_polls z = 0"
    and z: "l_head z = NULL" "l_iterator z = NULL" "closed_head z = NULL" "low_prio_head z = NULL"
      "num_ready_polls z = 0" "current_ready_poll z = 0"
  note b = r(2) [unfolded bare_def]
  have "inv_with E h (\<lambda>_. []) (\<lambda>_. [])"
    by (rule bare_inv [where l = l and z = z]) (use b z in blast)+
  then have "inv E h" unfolding inv_def by blast
  moreover have "loops h l = Some z" using b by simp
  ultimately show thesis using r that by blast
qed

text \<open>
  A loop that is created in an empty store satisfies the invariant, with its pre and post handlers
  set and nothing keeping it alive.
\<close>

theorem us_create_loop_inv:
  assumes "allocator_ok E"
  shows "\<exists>l h z. us_create_loop E (empty_heap t) wakeup pre post = Some (l, h) \<and> inv E h \<and> loops h l = Some z \<and>
    pre_cb z = pre \<and> post_cb z = post \<and> num_polls z = 0"
  by (rule create_loop_inv [OF assms]) blast

theorem us_create_loop_inv_witness:
  "\<exists>l h z. us_create_loop (echo_env Epoll) (empty_heap []) (UserFn 8) (UserFn 0) (UserFn 0) = Some (l, h) \<and>
    inv (echo_env Epoll) h \<and> loops h l = Some z \<and> pre_cb z = UserFn 0 \<and> post_cb z = UserFn 0 \<and> num_polls z = 0"
  by (rule us_create_loop_inv [OF echo_allocator_ok])

subsection \<open>Reachable stores\<close>

text \<open>
  A store is reachable for a loop when it comes from creating the loop by steps of the application
  (\<open>handled\<close>: everything a program does with the library before and between turns) and by turns of the loop
  in which the kernel reports live polls.
\<close>

inductive reachable :: "env \<Rightarrow> ptr \<Rightarrow> heap \<Rightarrow> bool" for E l where
  created: "us_create_loop E (empty_heap t) wakeup (UserFn m) (UserFn n) = Some (l, h) \<Longrightarrow> reachable E l h"
| application: "reachable E l h \<Longrightarrow> handled E h h' \<Longrightarrow> reachable E l h'"
| turn: "reachable E l h \<Longrightarrow> (\<And>h1. us_internal_loop_pre E h l = Some h1 \<Longrightarrow> reports_ok E h1 l) \<Longrightarrow>
    us_loop_turn E h l = Some h' \<Longrightarrow> reachable E l h'"

inductive_cases reachable_elim: "reachable E l h"

lemma reachable_invs:
  assumes "reachable E l h" and s: "server E backlog"
  shows "inv E h \<and> (\<exists>z. loops h l = Some z \<and> is_user (pre_cb z) \<and> is_user (post_cb z))"
  using assms(1)
proof (induction rule: reachable.induct)
  case (created t wakeup m n h)
  have "app E" using s by (rule server.axioms(1))
  then have al: "allocator_ok E" by (simp add: app_def)
  obtain l' h' z where r: "us_create_loop E (empty_heap t) wakeup (UserFn m) (UserFn n) = Some (l', h')" "inv E h'"
    "loops h' l' = Some z" "pre_cb z = UserFn m" "post_cb z = UserFn n" using create_loop_inv [OF al] .
  with created show ?case by (auto simp: is_user_def)
next
  case (application h h')
  have "app E" using s by (rule server.axioms(1))
  then have al: "allocator_ok E" "resolver_ok E" by (simp_all add: app_def)
  from application.IH obtain L C z where i: "inv_with E h L C" and z: "loops h l = Some z" "is_user (pre_cb z)" "is_user (post_cb z)"
    unfolding inv_def by blast
  obtain L' C' where k: "inv_with E h' L' C'" "evolves h L h' L'"
    using handled_keeps [OF application.hyps(2) al] i by (rule keepsD)
  from evolvesD(3) [OF k(2) z(1)] z(2,3) k(1) show ?case unfolding inv_def by (auto simp: loop_evolves_def)
next
  case (turn h h')
  then obtain L C z where i: "inv_with E h L C" and z: "loops h l = Some z" "is_user (pre_cb z)" "is_user (post_cb z)"
    unfolding inv_def by blast
  from server.loop_turn_ok [OF s i z turn.hyps(2)] turn.hyps(3)
  obtain L' C' where "inv_with E h' L' C'" "loops_stay h h'" by auto
  then show ?case using z unfolding inv_def loops_stay_def loop_stays_def by metis
qed


text \<open>A kernel that reports nothing reports only live polls.\<close>

lemma echo_silent_reports:
  assumes "reachable (echo_env_with b []) l h" "us_internal_loop_pre (echo_env_with b []) h l = Some h1"
  shows "reports_ok (echo_env_with b []) h1 l"
proof -
  let ?E = "echo_env_with b []"
  from reachable_invs [OF assms(1) echo.server_axioms] obtain L C z where i: "inv_with ?E h L C"
    and z: "loops h l = Some z" "is_user (pre_cb z)" unfolding inv_def by blast
  from server.loop_pre_ok [OF echo.server_axioms i z] assms(2) have "runs h h1" by (auto elim: ranE)
  then obtain z1 where "loops h1 l = Some z1" using runs_loopD z(1) by blast
  then show ?thesis by (cases b) (simp_all add: reports_ok_def wait_call_def echo_ret_def reported_def)
qed


end
