(* ===== verification/Udp.thy ===== *)
theory Udp
  imports Loop
begin

text \<open>
  UDP: the packet buffers of \<open>bsd.c\<close> and the sockets of \<open>udp.c\<close>.

  A packet buffer holds 1024 packets of 64 kB behind one struct.  On Linux (the epoll backend) the
  struct is an array of message headers for \<open>recvmmsg\<close> with their vectors, addresses and control
  buffers; on macOS (the kqueue backend) it is an array of pointers, lengths and addresses.  The
  fields of the other platform are left empty.  Indexing past the end of an array is \<open>None\<close>.

  A UDP socket is a callback poll whose callback is \<open>internal_on_udp_read\<close>.
\<close>

subsection \<open>Constants\<close>

definition LIBUS_UDP_MAX_SIZE :: nat where "LIBUS_UDP_MAX_SIZE = 64 * 1024"
definition LIBUS_UDP_MAX_NUM :: nat where "LIBUS_UDP_MAX_NUM = 1024"
definition IPPROTO_IP :: int where [simp]: "IPPROTO_IP = 0"
definition IPPROTO_IPV6 :: int where [simp]: "IPPROTO_IPV6 = 41"
definition IP_PKTINFO :: int where [simp]: "IP_PKTINFO = 8"
definition IPV6_PKTINFO :: int where [simp]: "IPV6_PKTINFO = 50"
definition IP_TOS :: int where [simp]: "IP_TOS = 1"
definition IPV6_TCLASS :: int where [simp]: "IPV6_TCLASS = 67"
definition SIZEOF_SOCKADDR_IN :: nat where [simp]: "SIZEOF_SOCKADDR_IN = 16"
definition SIZEOF_SOCKADDR_STORAGE :: nat where [simp]: "SIZEOF_SOCKADDR_STORAGE = 128"

subsection \<open>Arrays and memory\<close>

definition at :: "'a list \<Rightarrow> nat \<Rightarrow> 'a option" where
  "at xs i = (if i < length xs then Some (xs ! i) else None)"

definition read_mem :: "(nat \<Rightarrow> u8) \<Rightarrow> nat \<Rightarrow> nat \<Rightarrow> u8 list" where
  "read_mem m a n = map m [a..<a + n]"

definition write_mem :: "(nat \<Rightarrow> u8) \<Rightarrow> nat \<Rightarrow> u8 list \<Rightarrow> nat \<Rightarrow> u8" where
  "write_mem m a bs = (\<lambda>i. if a \<le> i \<and> i < a + length bs then bs ! (i - a) else m i)"

text \<open>\<open>memcpy\<close> of bytes onto the start of a storage.\<close>

definition overlay :: "u8 list \<Rightarrow> u8 list \<Rightarrow> u8 list" where
  "overlay bs old = bs @ drop (length bs) old"

subsection \<open>Packet buffers\<close>

type_synonym packet_buffer = us_internal_udp_packet_buffer

definition empty_packet_buffer :: "env \<Rightarrow> heap \<Rightarrow> packet_buffer" where
  "empty_packet_buffer E h = \<lparr>pb_msgvec = [], pb_iov = [],
     pb_addr = replicate LIBUS_UDP_MAX_NUM (map (mem_garbage E h) [0..<SIZEOF_SOCKADDR_STORAGE]),
     pb_control = [], pb_buf = [], pb_len = [], pb_mem = mem_garbage E h\<rparr>"

definition bsd_create_udp_packet_buffer :: "env \<Rightarrow> heap \<Rightarrow> ptr \<times> heap" where
  "bsd_create_udp_packet_buffer E h =
     (let p = malloc_at E h;
          b = (case be E of
               Kqueue_backend \<Rightarrow> (empty_packet_buffer E h)\<lparr>
                 pb_buf := map (\<lambda>i. LIBUS_UDP_MAX_SIZE * i) [0..<LIBUS_UDP_MAX_NUM],
                 pb_len := map (\<lambda>i. unat (mem_garbage E h i)) [0..<LIBUS_UDP_MAX_NUM]\<rparr>
             | Epoll \<Rightarrow> (empty_packet_buffer E h)\<lparr>
                 pb_iov := map (\<lambda>n. \<lparr>iov_base = n * LIBUS_UDP_MAX_SIZE, iov_len = LIBUS_UDP_MAX_SIZE\<rparr>)
                   [0..<LIBUS_UDP_MAX_NUM],
                 pb_msgvec := map (\<lambda>n. \<lparr>msg_name = 0, msg_namelen = SIZEOF_SOCKADDR_STORAGE,
                     msg_iov = n, msg_iovlen = 1, msg_control = n, msg_controllen = 256,
                     msg_len = unat (mem_garbage E h n)\<rparr>) [0..<LIBUS_UDP_MAX_NUM],
                 pb_control := replicate LIBUS_UDP_MAX_NUM []\<rparr>)
      in (p, h\<lparr>udp_bufs := (udp_bufs h)(p \<mapsto> b)\<rparr>))"

text \<open>
  \<open>CMSG_SPACE\<close>: a control message takes a header of 16 bytes and its data rounded up to 8.  A header
  whose control length is 0 has no messages.
\<close>

definition cmsg_space :: "cmsg \<Rightarrow> nat" where
  "cmsg_space c = (case c of Cmsg _ _ bs \<Rightarrow> 16 + 8 * ((length bs + 7) div 8))"

definition cmsgs_of :: "packet_buffer \<Rightarrow> mmsghdr \<Rightarrow> cmsg list option" where
  "cmsgs_of b mh = (if msg_controllen mh = 0 then Some [] else at (pb_control b) (msg_control mh))"

fun find_local_ip :: "cmsg list \<Rightarrow> u8 list" where
  "find_local_ip [] = []"
| "find_local_ip (Cmsg level ty bs # cs) =
    (if level = IPPROTO_IP \<and> ty = IP_PKTINFO then take 4 (drop 8 bs)
     else if level = IPPROTO_IPV6 \<and> ty = IPV6_PKTINFO then take 16 bs
     else find_local_ip cs)"

text \<open>The bytes copied out; the result of the function is how many there are.\<close>

definition bsd_udp_packet_buffer_local_ip :: "env \<Rightarrow> packet_buffer \<Rightarrow> nat \<Rightarrow> u8 list option" where
  "bsd_udp_packet_buffer_local_ip E b index = (case be E of
       Kqueue_backend \<Rightarrow> Some []
     | Epoll \<Rightarrow> do { mh \<leftarrow> at (pb_msgvec b) index; cs \<leftarrow> cmsgs_of b mh; Some (find_local_ip cs) })"

text \<open>A pointer to a peer is an index into \<open>pb_addr\<close>.\<close>

definition bsd_udp_packet_buffer_peer :: "env \<Rightarrow> packet_buffer \<Rightarrow> nat \<Rightarrow> nat option" where
  "bsd_udp_packet_buffer_peer E b index = (case be E of
       Kqueue_backend \<Rightarrow> (if index < length (pb_addr b) then Some index else None)
     | Epoll \<Rightarrow> map_option msg_name (at (pb_msgvec b) index))"

definition bsd_udp_packet_buffer_payload :: "env \<Rightarrow> packet_buffer \<Rightarrow> nat \<Rightarrow> nat option" where
  "bsd_udp_packet_buffer_payload E b index = (case be E of
       Kqueue_backend \<Rightarrow> at (pb_buf b) index
     | Epoll \<Rightarrow> do { mh \<leftarrow> at (pb_msgvec b) index; v \<leftarrow> at (pb_iov b) (msg_iov mh); Some (iov_base v) })"

definition bsd_udp_packet_buffer_payload_length :: "env \<Rightarrow> packet_buffer \<Rightarrow> nat \<Rightarrow> nat option" where
  "bsd_udp_packet_buffer_payload_length E b index = (case be E of
       Kqueue_backend \<Rightarrow> at (pb_len b) index
     | Epoll \<Rightarrow> map_option msg_len (at (pb_msgvec b) index))"

fun find_ecn :: "cmsg list \<Rightarrow> int" where
  "find_ecn [] = 0"
| "find_ecn (Cmsg level ty bs # cs) =
    (if level = IPPROTO_IP \<and> ty = IP_TOS \<or> level = IPPROTO_IPV6 \<and> ty = IPV6_TCLASS
     then (case bs of tos # _ \<Rightarrow> uint (tos AND 3) | [] \<Rightarrow> 0) else find_ecn cs)"

definition bsd_udp_packet_buffer_ecn :: "env \<Rightarrow> packet_buffer \<Rightarrow> nat \<Rightarrow> int option" where
  "bsd_udp_packet_buffer_ecn E b index = (case be E of
       Kqueue_backend \<Rightarrow> Some 0
     | Epoll \<Rightarrow> do { mh \<leftarrow> at (pb_msgvec b) index; cs \<leftarrow> cmsgs_of b mh; Some (find_ecn cs) })"

text \<open>
  Filling a packet of a send buffer.  Nothing compares the length with the size of the packet's
  area.  On Linux the peer address is copied to where \<open>msg_name\<close> points, and only as much of it as a
  \<open>sockaddr_in\<close> takes.
\<close>

definition bsd_udp_buffer_set_packet_payload ::
  "env \<Rightarrow> packet_buffer \<Rightarrow> nat \<Rightarrow> nat \<Rightarrow> u8 list \<Rightarrow> u8 list \<Rightarrow> packet_buffer option" where
  "bsd_udp_buffer_set_packet_payload E b index offset payload peer_addr = (case be E of
       Kqueue_backend \<Rightarrow> do {
         a \<leftarrow> at (pb_buf b) index;
         old \<leftarrow> at (pb_addr b) index;
         Some (b\<lparr>pb_mem := write_mem (pb_mem b) a payload,
           pb_addr := (pb_addr b)[index := overlay (take SIZEOF_SOCKADDR_STORAGE peer_addr) old],
           pb_len := (pb_len b)[index := length payload]\<rparr>) }
     | Epoll \<Rightarrow> do {
         mh \<leftarrow> at (pb_msgvec b) index;
         old \<leftarrow> at (pb_addr b) (msg_name mh);
         v \<leftarrow> at (pb_iov b) (msg_iov mh);
         Some (b\<lparr>pb_addr := (pb_addr b)[msg_name mh := overlay (take SIZEOF_SOCKADDR_IN peer_addr) old],
           pb_msgvec := (pb_msgvec b)[index := mh\<lparr>msg_controllen := 0\<rparr>],
           pb_iov := (pb_iov b)[msg_iov mh := v\<lparr>iov_len := length payload + offset\<rparr>],
           pb_mem := write_mem (pb_mem b) (iov_base v + offset) payload\<rparr>) })"

subsection \<open>Sending and receiving datagrams\<close>

text \<open>What one message header tells the kernel to send: the address and the data.\<close>

definition outgoing :: "packet_buffer \<Rightarrow> nat \<Rightarrow> (u8 list \<times> u8 list) option" where
  "outgoing b i = do {
     mh \<leftarrow> at (pb_msgvec b) i;
     name \<leftarrow> at (pb_addr b) (msg_name mh);
     v \<leftarrow> at (pb_iov b) (msg_iov mh);
     Some (take (msg_namelen mh) name, read_mem (pb_mem b) (iov_base v) (iov_len v)) }"

fun option_all :: "'a option list \<Rightarrow> 'a list option" where
  "option_all [] = Some []"
| "option_all (x # xs) = do { y \<leftarrow> x; ys \<leftarrow> option_all xs; Some (y # ys) }"

text \<open>
  On macOS the packet buffer is cast to an array of message headers, which it is not: what is sent
  then is whatever the pointers of the buffer amount to, and the model has no value for it.
\<close>

definition bsd_sendmmsg :: "env \<Rightarrow> heap \<Rightarrow> int \<Rightarrow> ptr \<Rightarrow> nat \<Rightarrow> u32 \<Rightarrow> (int \<times> heap) option" where
  "bsd_sendmmsg E h f p vlen flags = do {
     b \<leftarrow> udp_bufs h p;
     (case be E of
        Kqueue_backend \<Rightarrow> if vlen = 0 then Some (0, h) else None
      | Epoll \<Rightarrow> do {
          ms \<leftarrow> option_all (map (outgoing b) [0..<vlen]);
          Some (sys E h (Sendmmsg f ms (flags OR MSG_NOSIGNAL (be E)))) }) }"

text \<open>
  What the kernel does with a datagram it receives into a message header: the address goes where
  \<open>msg_name\<close> points, the data into the vector, both cut to the room there is, and the control
  messages into the control buffer.
\<close>

definition deliver :: "packet_buffer \<Rightarrow> nat \<Rightarrow> datagram \<Rightarrow> packet_buffer option" where
  "deliver b i d = do {
     mh \<leftarrow> at (pb_msgvec b) i;
     old \<leftarrow> at (pb_addr b) (msg_name mh);
     v \<leftarrow> at (pb_iov b) (msg_iov mh);
     _ \<leftarrow> at (pb_control b) (msg_control mh);
     let bs = take (iov_len v) (dg_data d);
     Some (b\<lparr>pb_addr := (pb_addr b)[msg_name mh := overlay (take (msg_namelen mh) (dg_peer d)) old],
       pb_mem := write_mem (pb_mem b) (iov_base v) bs,
       pb_control := (pb_control b)[msg_control mh := dg_control d],
       pb_msgvec := (pb_msgvec b)[i := mh\<lparr>msg_namelen := length (dg_peer d), msg_len := length bs,
         msg_controllen := sum_list (map cmsg_space (dg_control d))\<rparr>]\<rparr>) }"

fun deliver_all :: "packet_buffer \<Rightarrow> nat \<Rightarrow> datagram list \<Rightarrow> packet_buffer option" where
  "deliver_all b i [] = Some b"
| "deliver_all b i (d # ds) = do { b \<leftarrow> deliver b i d; deliver_all b (i + 1) ds }"

definition reset_controllen :: "nat \<Rightarrow> mmsghdr list \<Rightarrow> mmsghdr list" where
  "reset_controllen n ms = map (\<lambda>m. m\<lparr>msg_controllen := 256\<rparr>) (take n ms) @ drop n ms"

text \<open>The loop of \<open>recvfrom\<close> calls that stands for \<open>recvmmsg\<close> on macOS; \<open>n\<close> turns are left.\<close>

fun recvfrom_loop :: "env \<Rightarrow> heap \<Rightarrow> int \<Rightarrow> packet_buffer \<Rightarrow> u32 \<Rightarrow> nat \<Rightarrow> nat \<Rightarrow> (int \<times> packet_buffer \<times> heap) option" where
  "recvfrom_loop E h f b flags i 0 = Some (int i, b, h)"
| "recvfrom_loop E h f b flags i (Suc n) =
    (let c = Recvfrom f LIBUS_UDP_MAX_SIZE flags;
         ds = sys_dgrams E (trace h) c;
         (r, h) = sys E h c
     in if r = -1 then Some (int i, b, h)
        else do {
          d \<leftarrow> at ds 0;
          a \<leftarrow> at (pb_buf b) i;
          old \<leftarrow> at (pb_addr b) i;
          recvfrom_loop E h f (b\<lparr>pb_mem := write_mem (pb_mem b) a (take LIBUS_UDP_MAX_SIZE (dg_data d)),
            pb_addr := (pb_addr b)[i := overlay (take SIZEOF_SOCKADDR_STORAGE (dg_peer d)) old],
            pb_len := (pb_len b)[i := nat r]\<rparr>) flags (i + 1) n })"

definition bsd_recvmmsg :: "env \<Rightarrow> heap \<Rightarrow> int \<Rightarrow> ptr \<Rightarrow> nat \<Rightarrow> u32 \<Rightarrow> (int \<times> heap) option" where
  "bsd_recvmmsg E h f p vlen flags = do {
     b \<leftarrow> udp_bufs h p;
     (case be E of
        Kqueue_backend \<Rightarrow> do {
          (r, b, h) \<leftarrow> recvfrom_loop E h f b flags 0 LIBUS_UDP_MAX_NUM;
          Some (r, h\<lparr>udp_bufs := (udp_bufs h)(p \<mapsto> b)\<rparr>) }
      | Epoll \<Rightarrow> do {
          _ \<leftarrow> (if vlen \<le> length (pb_msgvec b) then Some () else None);
          let b = b\<lparr>pb_msgvec := reset_controllen vlen (pb_msgvec b)\<rparr>;
          let c = Recvmmsg f vlen flags;
          let ds = sys_dgrams E (trace h) c;
          let (r, h) = sys E h c;
          b \<leftarrow> deliver_all b 0 (take (nat r) ds);
          Some (r, h\<lparr>udp_bufs := (udp_bufs h)(p \<mapsto> b)\<rparr>) }) }"

subsection \<open>The interface of \<open>udp.c\<close>\<close>

definition us_udp_packet_buffer_ecn :: "env \<Rightarrow> packet_buffer \<Rightarrow> nat \<Rightarrow> int option" where
  "us_udp_packet_buffer_ecn = bsd_udp_packet_buffer_ecn"

definition us_udp_packet_buffer_local_ip :: "env \<Rightarrow> packet_buffer \<Rightarrow> nat \<Rightarrow> u8 list option" where
  "us_udp_packet_buffer_local_ip = bsd_udp_packet_buffer_local_ip"

definition us_udp_packet_buffer_peer :: "env \<Rightarrow> packet_buffer \<Rightarrow> nat \<Rightarrow> nat option" where
  "us_udp_packet_buffer_peer = bsd_udp_packet_buffer_peer"

definition us_udp_packet_buffer_payload :: "env \<Rightarrow> packet_buffer \<Rightarrow> nat \<Rightarrow> nat option" where
  "us_udp_packet_buffer_payload = bsd_udp_packet_buffer_payload"

definition us_udp_packet_buffer_payload_length :: "env \<Rightarrow> packet_buffer \<Rightarrow> nat \<Rightarrow> nat option" where
  "us_udp_packet_buffer_payload_length = bsd_udp_packet_buffer_payload_length"

definition us_udp_socket_send :: "env \<Rightarrow> heap \<Rightarrow> ptr \<Rightarrow> ptr \<Rightarrow> nat \<Rightarrow> (int \<times> heap) option" where
  "us_udp_socket_send E h s buf num = do {
     p \<leftarrow> polls h s;
     bsd_sendmmsg E h (us_poll_fd p) buf num 0 }"

definition us_udp_socket_receive :: "env \<Rightarrow> heap \<Rightarrow> ptr \<Rightarrow> ptr \<Rightarrow> (int \<times> heap) option" where
  "us_udp_socket_receive E h s buf = do {
     p \<leftarrow> polls h s;
     bsd_recvmmsg E h (us_poll_fd p) buf LIBUS_UDP_MAX_NUM 0 }"

definition us_udp_buffer_set_packet_payload ::
  "env \<Rightarrow> heap \<Rightarrow> ptr \<Rightarrow> nat \<Rightarrow> nat \<Rightarrow> u8 list \<Rightarrow> u8 list \<Rightarrow> heap option" where
  "us_udp_buffer_set_packet_payload E h send_buf index offset payload peer_addr = do {
     b \<leftarrow> udp_bufs h send_buf;
     b \<leftarrow> bsd_udp_buffer_set_packet_payload E b index offset payload peer_addr;
     Some (h\<lparr>udp_bufs := (udp_bufs h)(send_buf \<mapsto> b)\<rparr>) }"

definition us_create_udp_packet_buffer :: "env \<Rightarrow> heap \<Rightarrow> ptr \<times> heap" where
  "us_create_udp_packet_buffer E h = bsd_create_udp_packet_buffer E h"

definition us_udp_socket_bound_port :: "heap \<Rightarrow> ptr \<Rightarrow> int option" where
  "us_udp_socket_bound_port h s = map_option udp_port (udps h s)"

definition us_udp_socket_user :: "heap \<Rightarrow> ptr \<Rightarrow> ptr option" where
  "us_udp_socket_user h s = map_option udp_user (udps h s)"

definition internal_on_udp_read :: "env \<Rightarrow> heap \<Rightarrow> ptr \<Rightarrow> (ptr \<times> heap) option" where
  "internal_on_udp_read E h s = do {
     udp \<leftarrow> udps h s;
     (packets, h) \<leftarrow> us_udp_socket_receive E h s (receive_buf udp);
     call_fn E (data_cb udp) (OnDatagrams s (receive_buf udp) packets) h }"

text \<open>The result of \<open>bsd_local_addr\<close> is not looked at: when it fails the port is what the stack holds.\<close>

definition us_create_udp_socket ::
  "env \<Rightarrow> heap \<Rightarrow> ptr \<Rightarrow> ptr \<Rightarrow> fnptr \<Rightarrow> fnptr \<Rightarrow> string option \<Rightarrow> u16 \<Rightarrow> ptr \<Rightarrow> (ptr \<times> heap) option" where
  "us_create_udp_socket E h loop buf data drain host port user = do {
     (f, h) \<leftarrow> bsd_create_udp_socket E h host (uint port);
     if f = LIBUS_SOCKET_ERROR then Some (NULL, h)
     else do {
       let (buf, h) = (if buf = NULL then us_create_udp_packet_buffer E h else (buf, h));
       (p, h) \<leftarrow> us_create_poll E h loop 0;
       h \<leftarrow> us_poll_init h p f POLL_TYPE_CALLBACK;
       let (tmp, h) = bsd_local_addr E h f;
       let prt = (case tmp of Some a \<Rightarrow> addr_port a | None \<Rightarrow> uint (mem_garbage E h 0));
       let h = h\<lparr>cbs := (cbs h)(p \<mapsto> \<lparr>cb_loop = loop, cb_expects_the_loop = 0, leave_poll_ready = 1,
           cb_cb = OnUdpRead\<rparr>),
         udps := (udps h)(p \<mapsto> \<lparr>receive_buf = buf, data_cb = data, drain_cb = drain,
           udp_user = user, udp_port = prt\<rparr>)\<rparr>;
       h \<leftarrow> us_poll_start E h p loop (LIBUS_SOCKET_READABLE (be E));
       Some (p, h) } }"

text \<open>The environment in which the loop finds the callback of a UDP socket.\<close>

definition udp_env :: "env \<Rightarrow> env" where
  "udp_env E = E\<lparr>modules := (\<lambda>f ev h. case (f, ev) of
     (OnUdpRead, PollCb p) \<Rightarrow> internal_on_udp_read E h p | _ \<Rightarrow> modules E f ev h)\<rparr>"

end
