(* ===== verification/Packets.thy ===== *)
theory Packets
  imports Udp Demo
begin

text \<open>
  The properties of packet buffers: the areas of the packets are disjoint and inside the
  allocation, filling one packet changes no other, and what is received is what the kernel
  delivered, except that on Linux all packets of a buffer share one address.
\<close>

subsection \<open>Arrays and memory\<close>

lemma at_Some [simp]: "at xs i = Some x \<longleftrightarrow> i < length xs \<and> xs ! i = x"
  by (auto simp: at_def)

lemma at_map [simp]: "at (map f [0..<n]) i = (if i < n then Some (f i) else None)"
  by (simp add: at_def)

lemma length_read_mem [simp]: "length (read_mem m a n) = n"
  by (simp add: read_mem_def)

lemma read_write_same: "read_mem (write_mem m a bs) a (length bs) = bs"
  by (rule nth_equalityI) (simp_all add: read_mem_def write_mem_def)

lemma read_write_other:
  "a + length bs \<le> c \<or> c + n \<le> a \<Longrightarrow> read_mem (write_mem m a bs) c n = read_mem m c n"
  by (auto simp: read_mem_def write_mem_def)

lemma read_mem_take: "k \<le> n \<Longrightarrow> read_mem m a k = take k (read_mem m a n)"
  by (simp add: read_mem_def take_map)

lemma read_mem_split: "read_mem m a (k + n) = read_mem m a k @ read_mem m (a + k) n"
  using upt_add_eq_append [of a "a + k" n] by (simp add: read_mem_def add.assoc)

text \<open>The area of packet \<open>i\<close> starts at \<open>i\<close> times the size of a packet.\<close>

lemma areas_apart:
  assumes "i \<noteq> (j::nat)" "m \<le> s"
  shows "i * s + m \<le> j * s \<or> j * s + m \<le> i * s"
proof -
  have "Suc i * s \<le> j * s \<or> Suc j * s \<le> i * s"
    using assms(1) by (metis linorder_neqE_nat mult_le_mono1 Suc_leI)
  then show ?thesis using assms(2) by auto
qed

subsection \<open>The shape of a packet buffer\<close>

text \<open>
  The arrays have an entry for every packet, and every packet its own area, vector and control
  buffer.  On Linux all packets have the address storage 0.
\<close>

definition buffer_ok :: "backend \<Rightarrow> packet_buffer \<Rightarrow> bool" where
  "buffer_ok e b \<longleftrightarrow> length (pb_addr b) = LIBUS_UDP_MAX_NUM \<and>
    (case e of
       Kqueue_backend \<Rightarrow> length (pb_len b) = LIBUS_UDP_MAX_NUM \<and>
         pb_buf b = map (\<lambda>i. LIBUS_UDP_MAX_SIZE * i) [0..<LIBUS_UDP_MAX_NUM]
     | Epoll \<Rightarrow> length (pb_msgvec b) = LIBUS_UDP_MAX_NUM \<and> length (pb_iov b) = LIBUS_UDP_MAX_NUM \<and>
         length (pb_control b) = LIBUS_UDP_MAX_NUM \<and>
         (\<forall>i < LIBUS_UDP_MAX_NUM.
            msg_name (pb_msgvec b ! i) = 0 \<and> msg_iov (pb_msgvec b ! i) = i \<and>
            msg_control (pb_msgvec b ! i) = i \<and>
            iov_base (pb_iov b ! i) = i * LIBUS_UDP_MAX_SIZE \<and>
            iov_len (pb_iov b ! i) \<le> LIBUS_UDP_MAX_SIZE))"

lemma max_pos [simp]: "0 < LIBUS_UDP_MAX_NUM" "0 < LIBUS_UDP_MAX_SIZE"
  by (simp_all add: LIBUS_UDP_MAX_NUM_def LIBUS_UDP_MAX_SIZE_def)

lemma create_buffer_ok:
  assumes "bsd_create_udp_packet_buffer E h = (p, h')"
  shows "\<exists>b. udp_bufs h' p = Some b \<and> buffer_ok (be E) b"
  using assms by (auto simp: bsd_create_udp_packet_buffer_def buffer_ok_def empty_packet_buffer_def
      Let_def split: backend.splits)

lemma payload_at:
  assumes "buffer_ok (be E) b" "i < LIBUS_UDP_MAX_NUM"
  shows "bsd_udp_packet_buffer_payload E b i = Some (i * LIBUS_UDP_MAX_SIZE)"
  using assms by (auto simp: bsd_udp_packet_buffer_payload_def buffer_ok_def at_def split: backend.splits)

text \<open>
  A new packet buffer gives each of its 1024 packets an area of 64 kB behind the struct: every
  area is inside the allocated memory, and no two areas overlap.
\<close>

theorem packet_areas:
  assumes "bsd_create_udp_packet_buffer E h = (p, h')"
  shows "\<exists>b. udp_bufs h' p = Some b \<and>
    (\<forall>i < LIBUS_UDP_MAX_NUM. \<exists>a. bsd_udp_packet_buffer_payload E b i = Some a \<and>
      a + LIBUS_UDP_MAX_SIZE \<le> LIBUS_UDP_MAX_NUM * LIBUS_UDP_MAX_SIZE \<and>
      (\<forall>j < LIBUS_UDP_MAX_NUM. \<forall>c. j \<noteq> i \<and> bsd_udp_packet_buffer_payload E b j = Some c \<longrightarrow>
        a + LIBUS_UDP_MAX_SIZE \<le> c \<or> c + LIBUS_UDP_MAX_SIZE \<le> a))"
proof -
  obtain b where b: "udp_bufs h' p = Some b" "buffer_ok (be E) b"
    using create_buffer_ok [OF assms] by blast
  have "i * LIBUS_UDP_MAX_SIZE + LIBUS_UDP_MAX_SIZE \<le> LIBUS_UDP_MAX_NUM * LIBUS_UDP_MAX_SIZE"
    if "i < LIBUS_UDP_MAX_NUM" for i
    using mult_le_mono1 [of "Suc i" LIBUS_UDP_MAX_NUM LIBUS_UDP_MAX_SIZE] that by simp
  with b show ?thesis
    using areas_apart [where s = LIBUS_UDP_MAX_SIZE and m = LIBUS_UDP_MAX_SIZE]
    by (intro exI [of _ b]) (auto simp: payload_at)
qed

theorem packet_areas_witness:
  "\<exists>p h'. bsd_create_udp_packet_buffer (demo_env Epoll) demo_heap = (p, h') \<and>
    (\<exists>b. udp_bufs h' p = Some b \<and>
    (\<forall>i < LIBUS_UDP_MAX_NUM. \<exists>a. bsd_udp_packet_buffer_payload (demo_env Epoll) b i = Some a \<and>
      a + LIBUS_UDP_MAX_SIZE \<le> LIBUS_UDP_MAX_NUM * LIBUS_UDP_MAX_SIZE \<and>
      (\<forall>j < LIBUS_UDP_MAX_NUM. \<forall>c. j \<noteq> i \<and> bsd_udp_packet_buffer_payload (demo_env Epoll) b j = Some c \<longrightarrow>
        a + LIBUS_UDP_MAX_SIZE \<le> c \<or> c + LIBUS_UDP_MAX_SIZE \<le> a)))"
  by (cases "bsd_create_udp_packet_buffer (demo_env Epoll) demo_heap") (use packet_areas in blast)

subsection \<open>Filling a packet on Linux\<close>

text \<open>The data of packet \<open>j\<close> as it would be sent.\<close>

definition packet_data :: "packet_buffer \<Rightarrow> nat \<Rightarrow> u8 list" where
  "packet_data b j = read_mem (pb_mem b) (iov_base (pb_iov b ! j)) (iov_len (pb_iov b ! j))"

lemma outgoing_is:
  assumes "buffer_ok Epoll b" "j < LIBUS_UDP_MAX_NUM"
  shows "outgoing b j = Some (take (msg_namelen (pb_msgvec b ! j)) (pb_addr b ! 0), packet_data b j)"
  using assms by (simp add: outgoing_def buffer_ok_def packet_data_def at_def)

lemma packet_data_is:
  assumes "buffer_ok Epoll b" "j < LIBUS_UDP_MAX_NUM"
  shows "packet_data b j = read_mem (pb_mem b) (j * LIBUS_UDP_MAX_SIZE) (iov_len (pb_iov b ! j))"
  using assms by (simp add: buffer_ok_def packet_data_def)

lemma fill_ok:
  assumes b: "buffer_ok Epoll b" and i: "index < LIBUS_UDP_MAX_NUM"
    and fits: "offset + length payload \<le> LIBUS_UDP_MAX_SIZE" and e: "be E = Epoll"
  obtains b' where
    "bsd_udp_buffer_set_packet_payload E b index offset payload peer_addr = Some b'"
    "buffer_ok Epoll b'"
    "pb_addr b' ! 0 = overlay (take SIZEOF_SOCKADDR_IN peer_addr) (pb_addr b ! 0)"
    "pb_mem b' = write_mem (pb_mem b) (index * LIBUS_UDP_MAX_SIZE + offset) payload"
    "iov_len (pb_iov b' ! index) = offset + length payload"
    "\<forall>j. j \<noteq> index \<longrightarrow> pb_iov b' ! j = pb_iov b ! j"
    "\<forall>j. msg_namelen (pb_msgvec b' ! j) = msg_namelen (pb_msgvec b ! j)"
proof -
  have n: "msg_name (pb_msgvec b ! index) = 0" "msg_iov (pb_msgvec b ! index) = index"
    "iov_base (pb_iov b ! index) = index * LIBUS_UDP_MAX_SIZE"
    and l: "length (pb_msgvec b) = LIBUS_UDP_MAX_NUM" "length (pb_iov b) = LIBUS_UDP_MAX_NUM"
      "length (pb_addr b) = LIBUS_UDP_MAX_NUM"
    using b i by (simp_all add: buffer_ok_def)
  let ?b = "b\<lparr>pb_addr := (pb_addr b)[0 := overlay (take SIZEOF_SOCKADDR_IN peer_addr) (pb_addr b ! 0)],
      pb_msgvec := (pb_msgvec b)[index := (pb_msgvec b ! index)\<lparr>msg_controllen := 0\<rparr>],
      pb_iov := (pb_iov b)[index := (pb_iov b ! index)\<lparr>iov_len := length payload + offset\<rparr>],
      pb_mem := write_mem (pb_mem b) (index * LIBUS_UDP_MAX_SIZE + offset) payload\<rparr>"
  have "bsd_udp_buffer_set_packet_payload E b index offset payload peer_addr = Some ?b"
    using i n l e by (simp add: bsd_udp_buffer_set_packet_payload_def at_def)
  moreover have "buffer_ok Epoll ?b"
    using b fits i by (auto simp: buffer_ok_def nth_list_update)
  moreover have "msg_namelen (pb_msgvec ?b ! j) = msg_namelen (pb_msgvec b ! j)" for j
    using i l by (cases "j = index") simp_all
  ultimately show thesis
    using i l by (intro that [of ?b]) simp_all
qed

text \<open>
  Filling a packet on Linux is read back when it is sent: the packet's data is then the payload
  behind the first \<open>offset\<close> bytes it had, and no other packet's data changes.  But all packets of a
  buffer share one address: the packets that were filled before are now sent to this peer too.
\<close>

theorem fill_packet:
  assumes b: "buffer_ok Epoll b" and i: "index < LIBUS_UDP_MAX_NUM"
    and fits: "offset + length payload \<le> LIBUS_UDP_MAX_SIZE" and e: "be E = Epoll"
  shows "\<exists>b'. bsd_udp_buffer_set_packet_payload E b index offset payload peer_addr = Some b' \<and>
    (\<exists>name. outgoing b' index =
      Some (name, read_mem (pb_mem b) (index * LIBUS_UDP_MAX_SIZE) offset @ payload)) \<and>
    (\<forall>j < LIBUS_UDP_MAX_NUM.
      (\<exists>data. outgoing b' j = Some (take (msg_namelen (pb_msgvec b ! j))
        (overlay (take SIZEOF_SOCKADDR_IN peer_addr) (pb_addr b ! 0)), data) \<and>
        (j \<noteq> index \<longrightarrow> map_option snd (outgoing b j) = Some data)))"
proof -
  obtain b' where f: "bsd_udp_buffer_set_packet_payload E b index offset payload peer_addr = Some b'"
    and b': "buffer_ok Epoll b'"
    and a: "pb_addr b' ! 0 = overlay (take SIZEOF_SOCKADDR_IN peer_addr) (pb_addr b ! 0)"
    and m: "pb_mem b' = write_mem (pb_mem b) (index * LIBUS_UDP_MAX_SIZE + offset) payload"
    and v: "iov_len (pb_iov b' ! index) = offset + length payload"
    and o: "\<forall>j. j \<noteq> index \<longrightarrow> pb_iov b' ! j = pb_iov b ! j"
    and nl: "\<forall>j. msg_namelen (pb_msgvec b' ! j) = msg_namelen (pb_msgvec b ! j)"
    using fill_ok [OF assms] by blast
  have here: "packet_data b' index =
      read_mem (pb_mem b) (index * LIBUS_UDP_MAX_SIZE) offset @ payload"
    using v m by (simp add: packet_data_is [OF b' i] read_mem_split read_write_same read_write_other)
  have there: "packet_data b' j = packet_data b j" if "j < LIBUS_UDP_MAX_NUM" "j \<noteq> index" for j
  proof -
    have "iov_len (pb_iov b ! j) \<le> LIBUS_UDP_MAX_SIZE"
      using b that(1) by (simp add: buffer_ok_def)
    then have "index * LIBUS_UDP_MAX_SIZE + offset + length payload \<le> j * LIBUS_UDP_MAX_SIZE \<or>
        j * LIBUS_UDP_MAX_SIZE + iov_len (pb_iov b ! j) \<le> index * LIBUS_UDP_MAX_SIZE + offset"
      using areas_apart [OF that(2), of LIBUS_UDP_MAX_SIZE LIBUS_UDP_MAX_SIZE] fits by linarith
    then show ?thesis
      using o that m by (simp add: packet_data_is [OF b that(1)] packet_data_is [OF b' that(1)]
          read_write_other)
  qed
  show ?thesis
    using f here there a nl
    by (intro exI [of _ b']) (auto simp: outgoing_is [OF b'] outgoing_is [OF b] i)
qed

text \<open>A packet buffer as \<open>bsd_create_udp_packet_buffer\<close> makes it on Linux.\<close>

definition demo_buffer :: packet_buffer where
  "demo_buffer = the (udp_bufs (snd (bsd_create_udp_packet_buffer (demo_env Epoll) demo_heap))
    (fst (bsd_create_udp_packet_buffer (demo_env Epoll) demo_heap)))"

lemma demo_buffer_ok: "buffer_ok Epoll demo_buffer"
  using create_buffer_ok [of "demo_env Epoll" demo_heap]
  by (cases "bsd_create_udp_packet_buffer (demo_env Epoll) demo_heap")
    (auto simp: demo_buffer_def demo_env_def)

theorem fill_packet_witness:
  "\<exists>b'. bsd_udp_buffer_set_packet_payload (demo_env Epoll) demo_buffer 1 0 [104, 105] [2, 0, 0, 53] = Some b' \<and>
    (\<exists>name. outgoing b' 1 = Some (name, [104, 105])) \<and>
    fst (the (outgoing b' 0)) = fst (the (outgoing b' 1))"
proof -
  have len: "msg_namelen (pb_msgvec demo_buffer ! j) = 128" if "j < LIBUS_UDP_MAX_NUM" for j
    using that by (simp add: demo_buffer_def bsd_create_udp_packet_buffer_def demo_env_def Let_def)
  have "(0::nat) + length [104, 105::u8] \<le> LIBUS_UDP_MAX_SIZE" "(1::nat) < LIBUS_UDP_MAX_NUM"
    by (simp_all add: LIBUS_UDP_MAX_SIZE_def LIBUS_UDP_MAX_NUM_def)
  note n = this
  obtain b' where f: "bsd_udp_buffer_set_packet_payload (demo_env Epoll) demo_buffer 1 0 [104, 105] [2, 0, 0, 53] = Some b'"
    and o1: "\<exists>name. outgoing b' 1 =
      Some (name, read_mem (pb_mem demo_buffer) (1 * LIBUS_UDP_MAX_SIZE) 0 @ [104, 105])"
    and o: "\<forall>j < LIBUS_UDP_MAX_NUM. (\<exists>data. outgoing b' j = Some (take (msg_namelen (pb_msgvec demo_buffer ! j))
        (overlay (take SIZEOF_SOCKADDR_IN [2, 0, 0, 53]) (pb_addr demo_buffer ! 0)), data) \<and>
        (j \<noteq> 1 \<longrightarrow> map_option snd (outgoing demo_buffer j) = Some data))"
    using fill_packet [OF demo_buffer_ok n(2,1), of "demo_env Epoll" "[2, 0, 0, 53]"]
    by (auto simp: demo_env_def)
  have "fst (the (outgoing b' 0)) = fst (the (outgoing b' 1))"
    using o [rule_format, OF n(2)] o [rule_format, OF max_pos(1)] len [OF n(2)] len [OF max_pos(1)]
    by auto
  with f o1 show ?thesis
    by (simp add: read_mem_def)
qed

subsection \<open>Receiving on Linux\<close>

text \<open>Packet \<open>j\<close> of a buffer holds these bytes.\<close>

definition holds :: "packet_buffer \<Rightarrow> nat \<Rightarrow> u8 list \<Rightarrow> bool" where
  "holds b j bs \<longleftrightarrow> msg_len (pb_msgvec b ! j) = length bs \<and>
    read_mem (pb_mem b) (j * LIBUS_UDP_MAX_SIZE) (length bs) = bs"

lemma deliver_ok:
  assumes b: "buffer_ok Epoll b" and i: "i < LIBUS_UDP_MAX_NUM"
  obtains b' where "deliver b i d = Some b'" "buffer_ok Epoll b'" "pb_iov b' = pb_iov b"
    "holds b' i (take (iov_len (pb_iov b ! i)) (dg_data d))"
    "\<forall>j bs. j \<noteq> i \<and> length bs \<le> LIBUS_UDP_MAX_SIZE \<and> holds b j bs \<longrightarrow> holds b' j bs"
    "pb_addr b' ! 0 = overlay (take (msg_namelen (pb_msgvec b ! i)) (dg_peer d)) (pb_addr b ! 0)"
    "\<forall>j. j \<noteq> i \<longrightarrow> pb_msgvec b' ! j = pb_msgvec b ! j"
proof -
  have n: "msg_name (pb_msgvec b ! i) = 0" "msg_iov (pb_msgvec b ! i) = i"
    "msg_control (pb_msgvec b ! i) = i" "iov_base (pb_iov b ! i) = i * LIBUS_UDP_MAX_SIZE"
    "iov_len (pb_iov b ! i) \<le> LIBUS_UDP_MAX_SIZE"
    and l: "length (pb_msgvec b) = LIBUS_UDP_MAX_NUM" "length (pb_iov b) = LIBUS_UDP_MAX_NUM"
      "length (pb_addr b) = LIBUS_UDP_MAX_NUM" "length (pb_control b) = LIBUS_UDP_MAX_NUM"
    using b i by (simp_all add: buffer_ok_def)
  let ?bs = "take (iov_len (pb_iov b ! i)) (dg_data d)"
  let ?b = "b\<lparr>pb_addr := (pb_addr b)[0 := overlay (take (msg_namelen (pb_msgvec b ! i)) (dg_peer d)) (pb_addr b ! 0)],
      pb_mem := write_mem (pb_mem b) (i * LIBUS_UDP_MAX_SIZE) ?bs,
      pb_control := (pb_control b)[i := dg_control d],
      pb_msgvec := (pb_msgvec b)[i := (pb_msgvec b ! i)\<lparr>msg_namelen := length (dg_peer d),
        msg_len := length ?bs, msg_controllen := sum_list (map cmsg_space (dg_control d))\<rparr>]\<rparr>"
  have "deliver b i d = Some ?b"
    using i n l by (simp add: deliver_def at_def)
  moreover have "buffer_ok Epoll ?b"
    using b i by (auto simp: buffer_ok_def nth_list_update)
  moreover have "holds ?b i ?bs"
    using i l by (simp add: holds_def read_write_same del: length_take)
  moreover have "holds ?b j bs" if "j \<noteq> i" "length bs \<le> LIBUS_UDP_MAX_SIZE" "holds b j bs" for j bs
  proof -
    have "i * LIBUS_UDP_MAX_SIZE + length ?bs \<le> j * LIBUS_UDP_MAX_SIZE \<or>
        j * LIBUS_UDP_MAX_SIZE + length bs \<le> i * LIBUS_UDP_MAX_SIZE"
      using areas_apart [OF that(1), of LIBUS_UDP_MAX_SIZE LIBUS_UDP_MAX_SIZE] n(5) that(2) by auto
    then show ?thesis
      using that(1,3) by (simp add: holds_def read_write_other del: length_take)
  qed
  ultimately show thesis
    using l by (intro that [of ?b]) (simp_all del: length_take)
qed

lemma deliver_all_ok:
  assumes "buffer_ok Epoll b" "i + length ds \<le> LIBUS_UDP_MAX_NUM"
  shows "\<exists>b'. deliver_all b i ds = Some b' \<and> buffer_ok Epoll b' \<and>
    (\<forall>k < length ds. holds b' (i + k) (take (iov_len (pb_iov b ! (i + k))) (dg_data (ds ! k)))) \<and>
    (\<forall>j bs. j < i \<and> length bs \<le> LIBUS_UDP_MAX_SIZE \<and> holds b j bs \<longrightarrow> holds b' j bs) \<and>
    (ds \<noteq> [] \<longrightarrow> take (length (take (msg_namelen (pb_msgvec b ! (i + length ds - 1))) (dg_peer (last ds))))
        (pb_addr b' ! 0) =
      take (msg_namelen (pb_msgvec b ! (i + length ds - 1))) (dg_peer (last ds)))"
  using assms
proof (induction ds arbitrary: b i)
  case Nil
  then show ?case by simp
next
  case (Cons d ds)
  have i: "i < LIBUS_UDP_MAX_NUM" using Cons.prems(2) by simp
  obtain b1 where b1: "deliver b i d = Some b1" "buffer_ok Epoll b1" "pb_iov b1 = pb_iov b"
    "holds b1 i (take (iov_len (pb_iov b ! i)) (dg_data d))"
    "\<forall>j bs. j \<noteq> i \<and> length bs \<le> LIBUS_UDP_MAX_SIZE \<and> holds b j bs \<longrightarrow> holds b1 j bs"
    "pb_addr b1 ! 0 = overlay (take (msg_namelen (pb_msgvec b ! i)) (dg_peer d)) (pb_addr b ! 0)"
    "\<forall>j. j \<noteq> i \<longrightarrow> pb_msgvec b1 ! j = pb_msgvec b ! j"
    using deliver_ok [OF Cons.prems(1) i] by blast
  have "Suc i + length ds \<le> LIBUS_UDP_MAX_NUM" using Cons.prems(2) by simp
  from Cons.IH [OF b1(2) this] obtain b' where
    b': "deliver_all b1 (Suc i) ds = Some b'" "buffer_ok Epoll b'"
    and here: "\<forall>k < length ds. holds b' (Suc i + k) (take (iov_len (pb_iov b1 ! (Suc i + k))) (dg_data (ds ! k)))"
    and there: "\<forall>j bs. j < Suc i \<and> length bs \<le> LIBUS_UDP_MAX_SIZE \<and> holds b1 j bs \<longrightarrow> holds b' j bs"
    and name: "ds \<noteq> [] \<longrightarrow> take (length (take (msg_namelen (pb_msgvec b1 ! (Suc i + length ds - 1))) (dg_peer (last ds))))
        (pb_addr b' ! 0) = take (msg_namelen (pb_msgvec b1 ! (Suc i + length ds - 1))) (dg_peer (last ds))"
    by blast
  have "iov_len (pb_iov b ! i) \<le> LIBUS_UDP_MAX_SIZE"
    using Cons.prems(1) i by (simp add: buffer_ok_def)
  then have "holds b' i (take (iov_len (pb_iov b ! i)) (dg_data d))"
    using there b1(4) by simp
  with here b1(3) have all: "\<forall>k < length (d # ds).
      holds b' (i + k) (take (iov_len (pb_iov b ! (i + k))) (dg_data ((d # ds) ! k)))"
    by (auto simp: less_Suc_eq_0_disj)
  have old: "\<forall>j bs. j < i \<and> length bs \<le> LIBUS_UDP_MAX_SIZE \<and> holds b j bs \<longrightarrow> holds b' j bs"
    using there b1(5) by auto
  have addr: "take (length (take (msg_namelen (pb_msgvec b ! (i + length (d # ds) - 1))) (dg_peer (last (d # ds)))))
        (pb_addr b' ! 0) = take (msg_namelen (pb_msgvec b ! (i + length (d # ds) - 1))) (dg_peer (last (d # ds)))"
  proof (cases "ds = []")
    case True
    then have "b' = b1" using b'(1) by simp
    with True show ?thesis by (simp add: b1(6) overlay_def del: length_take take_take)
  next
    case False
    then have "i + length (d # ds) - 1 \<noteq> i" by simp
    with False name b1(7) show ?thesis by simp
  qed
  show ?case
    using b1(1) b' all old addr by (intro exI [of _ b']) simp
qed

text \<open>
  Receiving on Linux puts the data of every datagram the kernel delivered into the packet of its
  number, cut to the room of that packet, and reports its length.  The address of every packet is
  the same storage, which holds the peer of the last datagram: the peers of the others are lost.
\<close>

theorem receive_packets:
  assumes e: "be E = Epoll" and b: "udp_bufs h p = Some b" "buffer_ok Epoll b"
    and r: "sys_ret E (trace h) (Recvmmsg f LIBUS_UDP_MAX_NUM 0) = int n" "n \<le> LIBUS_UDP_MAX_NUM"
    and ds: "sys_dgrams E (trace h) (Recvmmsg f LIBUS_UDP_MAX_NUM 0) = ds" "length ds = n" "ds \<noteq> []"
  shows "\<exists>h' b'. bsd_recvmmsg E h f p LIBUS_UDP_MAX_NUM 0 = Some (int n, h') \<and> udp_bufs h' p = Some b' \<and>
    (\<forall>i < n. let bs = take (iov_len (pb_iov b ! i)) (dg_data (ds ! i)) in
      bsd_udp_packet_buffer_payload_length E b' i = Some (length bs) \<and>
      map_option (\<lambda>a. read_mem (pb_mem b') a (length bs)) (bsd_udp_packet_buffer_payload E b' i) = Some bs \<and>
      bsd_udp_packet_buffer_peer E b' i = Some 0) \<and>
    (let peer = take (msg_namelen (pb_msgvec b ! (n - 1))) (dg_peer (last ds)) in
      take (length peer) (pb_addr b' ! 0) = peer)"
proof -
  let ?ms = "reset_controllen LIBUS_UDP_MAX_NUM (pb_msgvec b)"
  have l: "length (pb_msgvec b) = LIBUS_UDP_MAX_NUM" using b(2) by (simp add: buffer_ok_def)
  have ms: "?ms ! j = (pb_msgvec b ! j)\<lparr>msg_controllen := 256\<rparr>" if "j < LIBUS_UDP_MAX_NUM" for j
    using that l by (simp add: reset_controllen_def)
  have b0: "buffer_ok Epoll (b\<lparr>pb_msgvec := ?ms\<rparr>)"
    using b(2) ms l by (simp add: buffer_ok_def reset_controllen_def)
  from deliver_all_ok [OF b0, of 0 ds] obtain b' where
    b': "deliver_all (b\<lparr>pb_msgvec := ?ms\<rparr>) 0 ds = Some b'" "buffer_ok Epoll b'"
    and here: "\<forall>k < length ds. holds b' k (take (iov_len (pb_iov b ! k)) (dg_data (ds ! k)))"
    and name: "take (length (take (msg_namelen (?ms ! (length ds - 1))) (dg_peer (last ds)))) (pb_addr b' ! 0) =
      take (msg_namelen (?ms ! (length ds - 1))) (dg_peer (last ds))"
    using ds r(2) by auto
  have "n - 1 < LIBUS_UDP_MAX_NUM" using ds r(2) by (cases ds) auto
  then have nm: "msg_namelen (?ms ! (length ds - 1)) = msg_namelen (pb_msgvec b ! (n - 1))"
    using ms ds(2) by simp
  have run: "bsd_recvmmsg E h f p LIBUS_UDP_MAX_NUM 0 =
      Some (int n, (do_sys h (Recvmmsg f LIBUS_UDP_MAX_NUM 0))\<lparr>udp_bufs := (udp_bufs h)(p \<mapsto> b')\<rparr>)"
    using b(1) e l r(1) ds b'(1) by (simp add: bsd_recvmmsg_def sys_def do_sys_def)
  have "bsd_udp_packet_buffer_payload_length E b' i = Some (length bs) \<and>
      map_option (\<lambda>a. read_mem (pb_mem b') a (length bs)) (bsd_udp_packet_buffer_payload E b' i) = Some bs \<and>
      bsd_udp_packet_buffer_peer E b' i = Some 0"
    if i: "i < n" and bs: "bs = take (iov_len (pb_iov b ! i)) (dg_data (ds ! i))" for i bs
  proof -
    have "i < LIBUS_UDP_MAX_NUM" using i r(2) by simp
    moreover have "holds b' i bs" using here i ds(2) bs by simp
    ultimately show ?thesis
      using b'(2) e payload_at [of E b' i]
      by (simp add: bsd_udp_packet_buffer_payload_length_def bsd_udp_packet_buffer_peer_def
          buffer_ok_def holds_def at_def)
  qed
  with run name nm show ?thesis
    by (intro exI [of _ "(do_sys h (Recvmmsg f LIBUS_UDP_MAX_NUM 0))\<lparr>udp_bufs := (udp_bufs h)(p \<mapsto> b')\<rparr>"]
        exI [of _ b']) (simp add: Let_def)
qed

text \<open>Two datagrams from different peers.\<close>

definition demo_datagrams :: "datagram list" where
  "demo_datagrams = [\<lparr>dg_peer = [2, 0, 0, 1], dg_data = [65], dg_control = []\<rparr>,
    \<lparr>dg_peer = [2, 0, 0, 2], dg_data = [66, 67], dg_control = []\<rparr>]"

definition demo_udp_env :: env where
  "demo_udp_env = (demo_env Epoll)\<lparr>sys_ret := (\<lambda>_ _. 2), sys_dgrams := (\<lambda>_ _. demo_datagrams)\<rparr>"

definition demo_udp_heap :: heap where
  "demo_udp_heap = demo_heap\<lparr>udp_bufs := [9 \<mapsto> demo_buffer]\<rparr>"

theorem receive_packets_witness:
  "\<exists>h' b'. bsd_recvmmsg demo_udp_env demo_udp_heap 7 9 LIBUS_UDP_MAX_NUM 0 = Some (2, h') \<and>
    udp_bufs h' 9 = Some b' \<and> bsd_udp_packet_buffer_payload_length demo_udp_env b' 1 = Some 2 \<and>
    bsd_udp_packet_buffer_peer demo_udp_env b' 0 = bsd_udp_packet_buffer_peer demo_udp_env b' 1 \<and>
    take 4 (pb_addr b' ! 0) = [2, 0, 0, 2]"
proof -
  have n: "(0::nat) < LIBUS_UDP_MAX_NUM" "(1::nat) < LIBUS_UDP_MAX_NUM" "(2::nat) \<le> LIBUS_UDP_MAX_NUM"
    by (simp_all add: LIBUS_UDP_MAX_NUM_def)
  have v: "msg_namelen (pb_msgvec demo_buffer ! 1) = 128" "iov_len (pb_iov demo_buffer ! 1) = LIBUS_UDP_MAX_SIZE"
    using n by (simp_all add: demo_buffer_def bsd_create_udp_packet_buffer_def demo_env_def Let_def)
  have s: "be demo_udp_env = Epoll" "udp_bufs demo_udp_heap 9 = Some demo_buffer"
    "sys_ret demo_udp_env (trace demo_udp_heap) (Recvmmsg 7 LIBUS_UDP_MAX_NUM 0) = int 2"
    "sys_dgrams demo_udp_env (trace demo_udp_heap) (Recvmmsg 7 LIBUS_UDP_MAX_NUM 0) = demo_datagrams"
    "length demo_datagrams = 2" "demo_datagrams \<noteq> []"
    by (simp_all add: demo_udp_env_def demo_env_def demo_udp_heap_def demo_datagrams_def)
  obtain h' b' where run: "bsd_recvmmsg demo_udp_env demo_udp_heap 7 9 LIBUS_UDP_MAX_NUM 0 = Some (int 2, h')"
    "udp_bufs h' 9 = Some b'"
    and p: "\<forall>i < 2. let bs = take (iov_len (pb_iov demo_buffer ! i)) (dg_data (demo_datagrams ! i)) in
      bsd_udp_packet_buffer_payload_length demo_udp_env b' i = Some (length bs) \<and>
      map_option (\<lambda>a. read_mem (pb_mem b') a (length bs)) (bsd_udp_packet_buffer_payload demo_udp_env b' i) = Some bs \<and>
      bsd_udp_packet_buffer_peer demo_udp_env b' i = Some 0"
    and a: "let peer = take (msg_namelen (pb_msgvec demo_buffer ! (2 - 1))) (dg_peer (last demo_datagrams)) in
      take (length peer) (pb_addr b' ! 0) = peer"
    using receive_packets [OF s(1,2) demo_buffer_ok s(3) n(3) s(4,5,6)] by blast
  have "2 \<le> LIBUS_UDP_MAX_SIZE" by (simp add: LIBUS_UDP_MAX_SIZE_def)
  then show ?thesis
    using run p [rule_format, of 0] p [rule_format, of 1] a v
    by (auto simp: demo_datagrams_def Let_def min_def numeral_eq_Suc)
qed

end
