(* ===== verification/Names.thy ===== *)
theory Names
  imports Sni
begin

text \<open>
  The properties of the tree of server names.
\<close>

text \<open>
  C14: Searching for a hostname gives the user of the first pattern of the hostname that was added,
  in the order that prefers a label itself to the asterisk from left to right, and nothing when no
  pattern was added; the backtracking search and this reference search agree on every tree.  A
  hostname of more than ten labels is never found.
\<close>

theorem sni_find_first_pattern:
  "sni_find sni hostname =
    (if length (labels_of hostname) \<le> MAX_LABELS
     then first_match (exact sni) (patterns (labels_of hostname)) else None)"
  by (rule sni_find_is)

text \<open>A tree with the names used by \<open>tests/sni_test.c\<close>.\<close>

definition test_tree :: "nat sni_node" where
  "test_tree = snd (sni_add (snd (sni_add sni_new ''*.google.com'' (Some 13))) ''test.google.com'' (Some 14))"

lemma labels_google:
  "labels_of ''*.google.com'' = [''*'', ''google'', ''com'']"
  "labels_of ''test.google.com'' = [''test'', ''google'', ''com'']"
  "labels_of ''docs.google.com'' = [''docs'', ''google'', ''com'']"
  by code_simp+

lemma test_tree_is:
  "test_tree = SniNode None
    [(''*'', SniNode None [(''google'', SniNode None [(''com'', SniNode (Some 13) [])])]),
     (''test'', SniNode None [(''google'', SniNode None [(''com'', SniNode (Some 14) [])])])]"
  by code_simp

lemma test_tree_ok: "sni_ok test_tree"
  unfolding test_tree_is by simp

text \<open>
  Adding a name to a tree is an insertion into the flat map of its names: when the name is
  free the result is 0 and exactly this name changes; when it is taken the result is 1 and the tree
  is as it was.  Either way the tree stays sorted and without empty leaves.
\<close>

theorem sni_add_updates:
  assumes "sni_ok sni"
  shows "case sni_add sni hostname (Some x) of (r, sni') \<Rightarrow>
    sni_ok sni' \<and>
    (if exact sni (labels_of hostname) = None
     then r = 0 \<and> exact sni' = (exact sni)(labels_of hostname \<mapsto> x)
     else r = 1 \<and> sni' = sni)"
proof (cases "exact sni (labels_of hostname)")
  case None
  with assms obtain sni' where "sni_add sni hostname (Some x) = (0, sni')" "sni_ok sni'"
    "exact sni' = (exact sni)(labels_of hostname \<mapsto> x)"
    by (rule sni_add_fresh)
  with None show ?thesis by simp
next
  case Some
  with assms show ?thesis
    by (simp add: sni_add_def addUser_taken)
qed

theorem sni_add_updates_witness:
  "sni_ok test_tree \<and> sni_add test_tree ''*.google.com'' (Some 15) = (1, test_tree)"
  using sni_add_updates [OF test_tree_ok, of "''*.google.com''" 15] test_tree_ok
  by (auto simp: labels_google test_tree_is)

text \<open>
  C15: Removing the name that was just added gives the user that was passed to \<open>sni_add\<close>, and the
  tree of before, with every node that the addition made culled; for names within the limit of ten
  labels.
\<close>

theorem sni_add_remove:
  assumes "sni_ok sni" "exact sni (labels_of hostname) = None"
    and "length (labels_of hostname) \<le> MAX_LABELS"
  shows "sni_remove (snd (sni_add sni hostname (Some x))) hostname = (Some x, sni)"
proof -
  obtain a where a: "sni_add sni hostname (Some x) = (0, a)" "sni_ok a"
    "exact a = (exact sni)(labels_of hostname \<mapsto> x)"
    using assms(1,2) by (rule sni_add_fresh)
  obtain b where b: "sni_remove a hostname = (exact a (labels_of hostname), b)" "sni_ok b"
    "exact b = (exact a)(labels_of hostname := None)"
    using a(2) assms(3) by (rule sni_remove_is)
  have "exact b = exact sni"
    using a(3) b(3) assms(2) by (auto simp: fun_eq_iff)
  then have "b = sni"
    by (rule exact_unique [OF b(2) assms(1)])
  with a b show ?thesis by simp
qed

theorem sni_add_remove_witness:
  "sni_remove (snd (sni_add test_tree ''docs.google.com'' (Some 16))) ''docs.google.com'' =
    (Some 16, test_tree)"
  by (rule sni_add_remove [OF test_tree_ok]) (simp_all add: labels_google test_tree_is MAX_LABELS_def)

lemma in_set_map_fst: "k \<in> set (map fst es) \<longleftrightarrow> (\<exists>x. (k, x) \<in> set es)"
  by (induction es) auto

text \<open>
  Freeing the tree passes the user of every name to the callback exactly once, except the user
  of the empty hostname, which sits at the root: the destructor runs the callback for the children
  of a node only, so that user is leaked.
\<close>

theorem sni_free_each_once:
  assumes "sni_ok sni"
  shows "mset (sni_free sni) =
    image_mset (\<lambda>ls. the (exact sni ls)) (mset_set {ls. ls \<noteq> [] \<and> exact sni ls \<noteq> None})"
proof -
  let ?es = "proper_entries sni"
  have d: "distinct (map fst ?es)"
    using entries_distinct [OF assms] by (simp add: proper_entries_def distinct_map_filter)
  have in_es: "(ls, x) \<in> set ?es \<longleftrightarrow> ls \<noteq> [] \<and> exact sni ls = Some x" for ls x
    using entries_exact [OF assms] by (auto simp: proper_entries_def)
  have "ls \<in> fst ` set ?es \<longleftrightarrow> (\<exists>x. (ls, x) \<in> set ?es)" for ls
    by (simp only: set_map [symmetric] in_set_map_fst)
  then have "fst ` set ?es = {ls. ls \<noteq> [] \<and> exact sni ls \<noteq> None}"
    unfolding in_es by blast
  then have "mset_set {ls. ls \<noteq> [] \<and> exact sni ls \<noteq> None} = mset (map fst ?es)"
    using mset_set_set [OF d] by simp
  moreover have "image_mset snd (mset ?es) = image_mset (\<lambda>e. the (exact sni (fst e))) (mset ?es)"
    by (intro image_mset_cong) (metis in_es option.sel prod.collapse set_mset_mset)
  ultimately show ?thesis
    by (simp add: sni_free_def destroy_entries image_mset.compositionality comp_def)
qed

theorem sni_free_each_once_witness:
  "sni_ok test_tree \<and> mset (sni_free test_tree) =
    image_mset (\<lambda>ls. the (exact test_tree ls)) (mset_set {ls. ls \<noteq> [] \<and> exact test_tree ls \<noteq> None})
    \<and> sni_free test_tree = [13, 14]"
  by (intro conjI test_tree_ok sni_free_each_once [OF test_tree_ok])
    (simp add: test_tree_is sni_free_def List.map_filter_def)

end
