(* ===== verification/Tls.thy ===== *)
theory Tls
  imports Ssl_context Polling Names
begin

text \<open>
  The properties of the TLS module: the BIO is a queue of the bytes that were received, calls into
  OpenSSL return when OpenSSL asks its BIO only finitely often, writing, and what becomes of the
  resources of a context that cannot be made.
\<close>

subsection \<open>The input of the BIO is a queue\<close>

definition input_ok :: "loop_ssl_data \<Rightarrow> bool" where
  "input_ok x \<longleftrightarrow> unat (ssl_read_input_offset x) + unat (ssl_read_input_length x) \<le> length (ssl_read_input x) \<and>
    length (ssl_read_input x) < 2 ^ 32"

definition pending_input :: "loop_ssl_data \<Rightarrow> u8 list" where
  "pending_input x = take (unat (ssl_read_input_length x)) (drop (unat (ssl_read_input_offset x)) (ssl_read_input x))"

lemma length_pending: "input_ok x \<Longrightarrow> length (pending_input x) = unat (ssl_read_input_length x)"
  by (auto simp: input_ok_def pending_input_def)

text \<open>The data after \<open>n\<close> bytes were read.\<close>

definition advanced :: "nat \<Rightarrow> loop_ssl_data \<Rightarrow> loop_ssl_data" where
  "advanced n x = x\<lparr>ssl_read_input_offset := ssl_read_input_offset x + of_nat n,
     ssl_read_input_length := ssl_read_input_length x - of_nat n\<rparr>"

lemma advanced_ok:
  assumes "input_ok x" "n \<le> unat (ssl_read_input_length x)"
  shows "input_ok (advanced n x)" "pending_input (advanced n x) = drop n (pending_input x)"
proof -
  have n: "unat (of_nat n :: u32) = n"
  proof -
    have "unat (ssl_read_input_length x) < 2 ^ 32"
      using unsigned_less [of "ssl_read_input_length x"] by simp
    with assms(2) show ?thesis
      by (simp add: unat_of_nat take_bit_nat_eq_self_iff)
  qed
  have l: "unat (ssl_read_input_length x - of_nat n) = unat (ssl_read_input_length x) - n"
    using assms(2) n by (simp add: unat_sub word_le_nat_alt)
  have o: "unat (ssl_read_input_offset x + of_nat n) = unat (ssl_read_input_offset x) + n"
    using assms n by (simp add: unat_add_lem [THEN iffD1] input_ok_def)
  show "input_ok (advanced n x)"
    using assms l o by (simp add: input_ok_def advanced_def)
  show "pending_input (advanced n x) = drop n (pending_input x)"
    using l o by (simp add: pending_input_def advanced_def drop_take add.commute)
qed

lemma BIO_read_result:
  assumes "ssl_datas h d = Some x" "input_ok x"
  shows "BIO_s_custom_read h d n = Some (if pending_input x = [] then (BioRetryRead, h)
    else (BioGot (take n (pending_input x)),
      h\<lparr>ssl_datas := (ssl_datas h)(d \<mapsto> advanced (min n (unat (ssl_read_input_length x))) x)\<rparr>))"
proof -
  let ?l = "unat (ssl_read_input_length x)"
  have e: "pending_input x = [] \<longleftrightarrow> ssl_read_input_length x = 0"
    using length_pending [OF assms(2)] by (metis length_0_conv unat_eq_zero)
  have "(if n > ?l then ?l else n) = min n ?l" by simp
  moreover have "take (min n ?l) (drop (unat (ssl_read_input_offset x)) (ssl_read_input x)) = take n (pending_input x)"
    by (simp add: pending_input_def)
  moreover have "unat (ssl_read_input_offset x) + min n ?l \<le> length (ssl_read_input x)"
    using assms(2) by (auto simp: input_ok_def)
  ultimately show ?thesis
    using assms(1) e by (simp add: BIO_s_custom_read_def set_data_def advanced_def Let_def)
qed

lemma BIO_read_step:
  assumes "ssl_datas h d = Some x" "input_ok x"
  shows "\<exists>a h' x'. BIO_s_custom_read h d n = Some (a, h') \<and> ssl_datas h' d = Some x' \<and> input_ok x' \<and>
    pending_input x' = drop n (pending_input x) \<and>
    a = (if pending_input x = [] then BioRetryRead else BioGot (take n (pending_input x)))"
proof (cases "pending_input x = []")
  case True
  with assms show ?thesis by (simp add: BIO_read_result)
next
  case False
  let ?n = "min n (unat (ssl_read_input_length x))"
  have "drop ?n (pending_input x) = drop n (pending_input x)"
    using length_pending [OF assms(2)] by (simp add: min_def)
  with advanced_ok [OF assms(2), of ?n] assms False show ?thesis
    by (simp add: BIO_read_result)
qed

text \<open>
  C16: The input BIO is a queue: as long as the offset and length lie within the received data,
  OpenSSL reading \<open>n\<close> bytes never copies past the data, gets the next \<open>n\<close> bytes that were received
  (or what is left), and leaves the rest; only an empty queue answers with a retry.
\<close>

theorem BIO_s_custom_read_refines:
  assumes "ssl_datas h d = Some x" "input_ok x"
  shows "\<exists>a h' x'. BIO_s_custom_read h d n = Some (a, h') \<and> ssl_datas h' d = Some x' \<and> input_ok x' \<and>
    pending_input x' = drop n (pending_input x) \<and>
    a = (if pending_input x = [] then BioRetryRead else BioGot (take n (pending_input x)))"
  using assms by (rule BIO_read_step)

definition demo_data :: loop_ssl_data where
  "demo_data = \<lparr>ssl_read_input = [9, 22, 3, 1], ssl_read_input_length = 3, ssl_read_input_offset = 1,
     ssl_socket = 3, last_write_was_msg_more = 0, ssl_msg_more = 0, shared_rbio = 30, shared_wbio = 31,
     shared_biom = 32\<rparr>"

definition tls_heap :: heap where
  "tls_heap = demo_heap\<lparr>loops := [1 \<mapsto> demo_loop\<lparr>ssl_data := 20\<rparr>], ssl_datas := [20 \<mapsto> demo_data],
     ssl_socks := [3 \<mapsto> \<lparr>ssl = 40, ssl_write_wants_read = 0, ssl_read_wants_write = 0\<rparr>],
     ssl_ctxs := [2 \<mapsto> new_ssl_ctx 50 1 (Some NullFn) (Some sni_new)]\<rparr>"

lemma demo_input_ok: "ssl_datas tls_heap 20 = Some demo_data" "input_ok demo_data"
  by (simp_all add: tls_heap_def demo_data_def input_ok_def)

theorem BIO_s_custom_read_refines_witness:
  "\<exists>h' x'. BIO_s_custom_read tls_heap 20 2 = Some (BioGot [22, 3], h') \<and>
    ssl_datas h' 20 = Some x' \<and> pending_input x' = [1]"
  using BIO_s_custom_read_refines [OF demo_input_ok, of 2]
  by (auto simp: pending_input_def demo_data_def)

subsection \<open>Calls into OpenSSL return\<close>

text \<open>A socket that can be written to: its parts, its context and its loop are there.\<close>

definition sock_ready :: "heap \<Rightarrow> ptr \<Rightarrow> bool" where
  "sock_ready h s \<longleftrightarrow> (\<exists>x p y z. socks h s = Some x \<and> polls h s = Some p \<and>
    ctxs h (s_context x) = Some y \<and> loops h (c_loop y) = Some z)"

text \<open>
  What a call into OpenSSL leaves alone: all that is not polling, not the loop's
  \<open>last_write_failed\<close>, and not the queue of the shared data.
\<close>

definition loops_alike :: "heap \<Rightarrow> heap \<Rightarrow> bool" where
  "loops_alike h h' \<longleftrightarrow> (\<forall>l z. loops h l = Some z \<longrightarrow>
    (\<exists>z'. loops h' l = Some z' \<and> ssl_data z' = ssl_data z))"

definition same_objects :: "heap \<Rightarrow> heap \<Rightarrow> bool" where
  "same_objects h h' \<longleftrightarrow> socks h' = socks h \<and> ctxs h' = ctxs h \<and> ssl_socks h' = ssl_socks h \<and>
    ssl_ctxs h' = ssl_ctxs h \<and> dom (polls h') = dom (polls h) \<and> loops_alike h h' \<and>
    prefix (trace h) (trace h')"

definition data_kept :: "ptr \<Rightarrow> heap \<Rightarrow> heap \<Rightarrow> bool" where
  "data_kept d h h' \<longleftrightarrow> (\<forall>x. ssl_datas h d = Some x \<and> input_ok x \<longrightarrow>
    (\<exists>x'. ssl_datas h' d = Some x' \<and> input_ok x' \<and> ssl_socket x' = ssl_socket x \<and>
      ssl_msg_more x' = ssl_msg_more x \<and> suffix (pending_input x') (pending_input x)))"

lemma loops_alike_refl [simp]: "loops_alike h h"
  by (simp add: loops_alike_def)

lemma loops_alike_cong: "loops h' = loops h \<Longrightarrow> loops_alike h h'"
  by (simp add: loops_alike_def)

lemma loops_alike_trans: "loops_alike h h1 \<Longrightarrow> loops_alike h1 h2 \<Longrightarrow> loops_alike h h2"
  unfolding loops_alike_def by metis

lemma same_objects_refl [simp]: "same_objects h h"
  by (simp add: same_objects_def)

lemma same_objects_trans: "same_objects h h1 \<Longrightarrow> same_objects h1 h2 \<Longrightarrow> same_objects h h2"
  unfolding same_objects_def using loops_alike_trans by (metis prefix_order.trans)

lemma data_kept_refl [simp]: "data_kept d h h"
  by (auto simp: data_kept_def)

lemma data_kept_trans: "data_kept d h h1 \<Longrightarrow> data_kept d h1 h2 \<Longrightarrow> data_kept d h h2"
  unfolding data_kept_def
proof (intro allI impI)
  fix x
  assume 1: "\<forall>x. ssl_datas h d = Some x \<and> input_ok x \<longrightarrow>
      (\<exists>x'. ssl_datas h1 d = Some x' \<and> input_ok x' \<and> ssl_socket x' = ssl_socket x \<and>
        ssl_msg_more x' = ssl_msg_more x \<and> suffix (pending_input x') (pending_input x))"
    and 2: "\<forall>x. ssl_datas h1 d = Some x \<and> input_ok x \<longrightarrow>
      (\<exists>x'. ssl_datas h2 d = Some x' \<and> input_ok x' \<and> ssl_socket x' = ssl_socket x \<and>
        ssl_msg_more x' = ssl_msg_more x \<and> suffix (pending_input x') (pending_input x))"
    and x: "ssl_datas h d = Some x \<and> input_ok x"
  from 1 x obtain x1 where x1: "ssl_datas h1 d = Some x1" "input_ok x1" "ssl_socket x1 = ssl_socket x"
    "ssl_msg_more x1 = ssl_msg_more x" "suffix (pending_input x1) (pending_input x)" by blast
  from 2 x1(1,2) obtain x2 where "ssl_datas h2 d = Some x2" "input_ok x2" "ssl_socket x2 = ssl_socket x1"
    "ssl_msg_more x2 = ssl_msg_more x1" "suffix (pending_input x2) (pending_input x1)" by blast
  with x1 show "\<exists>x'. ssl_datas h2 d = Some x' \<and> input_ok x' \<and> ssl_socket x' = ssl_socket x \<and>
        ssl_msg_more x' = ssl_msg_more x \<and> suffix (pending_input x') (pending_input x)"
    by (auto intro: suffix_order.trans)
qed

lemma same_objects_ready: "same_objects h h' \<Longrightarrow> sock_ready h s \<Longrightarrow> sock_ready h' s"
  unfolding same_objects_def sock_ready_def loops_alike_def by (metis domIff not_Some_eq)

lemma same_objects_plain [simp]:
  "same_objects h (tls_do h c)" "same_objects h (bio_answered h a)" "same_objects h (do_sys h q)"
  "data_kept d h (tls_do h c)" "data_kept d h (bio_answered h a)" "data_kept d h (do_sys h q)"
  by (auto simp: same_objects_def data_kept_def tls_do_def bio_answered_def do_sys_def loops_alike_def)

lemma write_returns:
  assumes "sock_ready h s"
  obtains w h' where "us_socket_write E h s data m = Some (w, h')" "same_objects h h'" "ssl_datas h' = ssl_datas h"
proof -
  obtain x p y z where r: "socks h s = Some x" "polls h s = Some p" "ctxs h (s_context x) = Some y"
    "loops h (c_loop y) = Some z"
    using assms by (auto simp: sock_ready_def)
  show thesis
  proof (cases "us_socket_is_closed x \<or> us_socket_is_shut_down p")
    case True
    with r show thesis by (intro that [of 0 h]) (simp_all add: us_socket_write_def)
  next
    case live: False
    obtain w c where b: "bsd_send E h (us_poll_fd p) data m = (w, do_sys h c)"
      by (simp add: bsd_send_def sys_def)
    let ?h1 = "do_sys h c"
    show thesis
    proof (cases "w = int (length data)")
      case True
      with r live b show thesis
        by (intro that [of w ?h1]) (simp_all add: us_socket_write_def, simp add: do_sys_def)
    next
      case False
      let ?h2 = "?h1\<lparr>loops := (loops h)(c_loop y \<mapsto> z\<lparr>last_write_failed := 1\<rparr>)\<rparr>"
      let ?ev = "LIBUS_SOCKET_READABLE (be E) OR LIBUS_SOCKET_WRITABLE (be E)"
      have p2: "polls ?h2 s = Some p" "loops ?h2 (c_loop y) = Some (z\<lparr>last_write_failed := 1\<rparr>)"
        using r by (simp_all add: do_sys_def)
      note ch = us_poll_change_result [OF p2, of E ?ev]
      obtain h3 where h3: "us_poll_change E ?h2 s (c_loop y) ?ev = Some h3" using ch by blast
      then have "us_socket_write E h s data m = Some (if w < 0 then 0 else w, h3)"
        using r live b False by (simp add: us_socket_write_def set_loop_def do_sys_def)
      moreover have "same_objects h h3"
        using r ch unfolding h3
        by (auto simp: same_objects_def do_sys_def loops_alike_def split: if_splits)
      moreover have "ssl_datas h3 = ssl_datas h"
        using ch unfolding h3 by (simp add: do_sys_def split: if_splits)
      ultimately show thesis by (rule that)
    qed
  qed
qed

lemma BIO_write_returns:
  assumes "ssl_datas h d = Some x" "input_ok x" "sock_ready h (ssl_socket x)"
  obtains a h' where "BIO_s_custom_write E h d data = Some (a, h')" "same_objects h h'" "data_kept d h h'"
proof -
  let ?x = "x\<lparr>last_write_was_msg_more := if ssl_msg_more x \<noteq> 0 \<or> length data = 16413 then 1 else 0\<rparr>"
  let ?h1 = "h\<lparr>ssl_datas := (ssl_datas h)(d \<mapsto> ?x)\<rparr>"
  have "sock_ready ?h1 (ssl_socket x)" using assms(3) by (simp add: sock_ready_def)
  then obtain w h2 where w: "us_socket_write E ?h1 (ssl_socket x) data (last_write_was_msg_more ?x) = Some (w, h2)"
    "same_objects ?h1 h2" "ssl_datas h2 = ssl_datas ?h1"
    by (rule write_returns)
  have "BIO_s_custom_write E h d data = Some (if w = 0 then BioRetryWrite else BioWrote w, h2)"
    using assms(1) w(1) by (simp add: BIO_s_custom_write_def set_data_def)
  moreover have "same_objects h h2"
    using w(2) by (simp add: same_objects_def loops_alike_def)
  moreover have "data_kept d h h2"
    using assms(1,2) w(3) by (simp add: data_kept_def input_ok_def pending_input_def)
  ultimately show thesis by (rule that)
qed

text \<open>
  What the code relies on of OpenSSL: a call asks its BIO only finitely often.  Some number drops
  with every answer, whatever else happens in between.
\<close>

definition bio_finite :: "env \<Rightarrow> ssl_call \<Rightarrow> bool" where
  "bio_finite E c \<longleftrightarrow> (\<exists>f :: trace_t \<Rightarrow> nat. \<forall>t u a. tls_bio E t c \<noteq> BioDone \<longrightarrow> f (t @ u @ [Bio a]) < f t)"

lemma tls_run_returns:
  assumes "bio_finite E c" "ssl_datas h d = Some x" "input_ok x" "sock_ready h (ssl_socket x)"
  shows "\<exists>h'. tls_run E d c h = Some h' \<and> same_objects h h' \<and> data_kept d h h' \<and> tls_bio E (trace h') c = BioDone"
proof -
  obtain f :: "trace_t \<Rightarrow> nat" where f: "\<And>t u a. tls_bio E t c \<noteq> BioDone \<Longrightarrow> f (t @ u @ [Bio a]) < f t"
    using assms(1) by (auto simp: bio_finite_def)
  from assms(2-4) show ?thesis
  proof (induction "f (trace h)" arbitrary: h x rule: less_induct)
    case less
    have step: "\<exists>h'. tls_run E d c (bio_answered h1 a) = Some h' \<and> same_objects h h' \<and> data_kept d h h' \<and>
        tls_bio E (trace h') c = BioDone"
      if more: "tls_bio E (trace h) c \<noteq> BioDone" and s: "same_objects h h1" "data_kept d h h1" for a h1
    proof -
      obtain x1 where x1: "ssl_datas h1 d = Some x1" "input_ok x1" "ssl_socket x1 = ssl_socket x"
        using s(2) less.prems by (auto simp: data_kept_def)
      let ?h = "bio_answered h1 a"
      obtain u where "trace h1 = trace h @ u"
        using s(1) by (auto simp: same_objects_def prefix_def)
      then have "f (trace ?h) < f (trace h)"
        using f [OF more] by (simp add: bio_answered_def)
      moreover have s2: "same_objects h ?h" "data_kept d h ?h"
        using s by (auto intro: same_objects_trans data_kept_trans)
      moreover have "sock_ready ?h (ssl_socket x1)"
        using same_objects_ready [OF s2(1)] less.prems(3) x1(3) by simp
      moreover have "ssl_datas ?h d = Some x1"
        using x1(1) by (simp add: bio_answered_def)
      ultimately obtain h' where "tls_run E d c ?h = Some h'" "same_objects ?h h'" "data_kept d ?h h'"
        "tls_bio E (trace h') c = BioDone"
        using less.hyps [of ?h x1] x1(2) by blast
      with s2 show ?thesis
        by (blast intro: same_objects_trans data_kept_trans)
    qed
    show ?case
    proof (cases "tls_bio E (trace h) c")
      case BioDone
      then show ?thesis by (subst tls_run.simps) simp
    next
      case (BioRead n)
      obtain a h1 x1 where r: "BIO_s_custom_read h d n = Some (a, h1)" "ssl_datas h1 d = Some x1" "input_ok x1"
        "pending_input x1 = drop n (pending_input x)"
        using BIO_read_step [OF less.prems(1,2), of n] by blast
      then have h1: "h1 = h \<or> h1 = h\<lparr>ssl_datas := (ssl_datas h)(d \<mapsto> advanced (min n (unat (ssl_read_input_length x))) x)\<rparr>"
        using BIO_read_result [OF less.prems(1,2), of n] by (auto split: if_splits)
      then have "same_objects h h1"
        by (auto simp: same_objects_def loops_alike_def)
      moreover have "data_kept d h h1"
        using h1 r(2-4) less.prems(1) by (auto simp: data_kept_def advanced_def suffix_drop)
      ultimately show ?thesis
        using step [of h1 a] BioRead r(1) by (subst tls_run.simps) simp
    next
      case (BioWrite data)
      obtain a h1 where w: "BIO_s_custom_write E h d data = Some (a, h1)" "same_objects h h1" "data_kept d h h1"
        using BIO_write_returns [OF less.prems] by blast
      with step [of h1 a] BioWrite show ?thesis
        by (subst tls_run.simps) simp
    qed
  qed
qed

subsection \<open>Writing\<close>

lemma tls_io_returns:
  assumes "bio_finite E c" "ssl_datas h d = Some x" "input_ok x" "sock_ready h (ssl_socket x)"
  obtains h1 where "tls_io E d h c = Some (tls_ret E (trace h1) c, tls_data E (trace h1) c, tls_do h1 c)"
    "same_objects h h1" "data_kept d h h1" "same_objects h (tls_do h1 c)"
proof -
  obtain h1 where "tls_run E d c h = Some h1" "same_objects h h1" "data_kept d h h1"
    using tls_run_returns [OF assms] by blast
  then show thesis
    by (intro that [of h1]) (auto simp: tls_io_def intro: same_objects_trans)
qed

lemma flush_returns:
  assumes "polls h s = Some p"
  obtains h' where "us_socket_flush E h s = Some h'" "same_objects h h'" "ssl_datas h' = ssl_datas h"
  using assms that by (cases "us_socket_is_shut_down p"; cases "be E")
    (auto simp: us_socket_flush_def bsd_socket_flush_def, simp_all add: do_sys_def same_objects_def loops_alike_def)

definition write_started :: "ptr \<Rightarrow> int \<Rightarrow> loop_ssl_data \<Rightarrow> loop_ssl_data" where
  "write_started s m dx = dx\<lparr>ssl_read_input_length := 0, ssl_socket := s, ssl_msg_more := m,
     last_write_was_msg_more := 0\<rparr>"

lemma write_open_result:
  assumes fin: "bio_finite E (SSL_write (ssl sx) data)"
    and x: "socks h s = Some x" "polls h s = Some p" "ctxs h (s_context x) = Some y"
      "loops h (c_loop y) = Some z" "ssl_socks h s = Some sx"
    and d: "ssl_datas h (ssl_data z) = Some dx" "input_ok dx"
    and live: "\<not> us_socket_is_closed x" "\<not> us_socket_is_shut_down p"
      "tls_ret E (trace h) (SSL_get_shutdown (ssl sx)) AND SSL_SENT_SHUTDOWN = 0"
  obtains t w h' dx' sx' where "us_internal_ssl_socket_write E h s data msg_more = Some (if w > 0 then w else 0, h')"
    "prefix (trace h) t" "prefix (t @ [Tls (SSL_write (ssl sx) data)]) (trace h')"
    "w = tls_ret E t (SSL_write (ssl sx) data)"
    "ssl_datas h' (ssl_data z) = Some dx'" "pending_input dx' = []" "ssl_socks h' s = Some sx'"
    "w > 0 \<Longrightarrow> sx' = sx"
    "w \<le> 0 \<Longrightarrow> \<exists>t'. prefix (t' @ [Tls (SSL_get_error (ssl sx) w)]) (trace h') \<and>
      ssl_write_wants_read sx' = (if tls_ret E t' (SSL_get_error (ssl sx) w) = SSL_ERROR_WANT_READ then 1
        else ssl_write_wants_read sx)"
proof -
  let ?c = "SSL_write (ssl sx) data"
  let ?d = "ssl_data z"
  let ?h0 = "tls_do h (SSL_get_shutdown (ssl sx))"
  let ?x = "write_started s msg_more dx"
  let ?h1 = "?h0\<lparr>ssl_datas := (ssl_datas h)(?d \<mapsto> ?x)\<rparr>"
  have s1: "ssl_datas ?h1 ?d = Some ?x" "input_ok ?x" "ssl_socket ?x = s" "pending_input ?x = []"
    using d(2) by (simp_all add: write_started_def input_ok_def pending_input_def)
  have "sock_ready ?h1 s" using x by (simp add: sock_ready_def tls_do_def)
  with s1 obtain h2 where io: "tls_io E ?d ?h1 ?c = Some (tls_ret E (trace h2) ?c, tls_data E (trace h2) ?c, tls_do h2 ?c)"
    and k: "same_objects ?h1 h2" "data_kept ?d ?h1 h2"
    using tls_io_returns [OF fin, of ?h1 ?d ?x] by metis
  let ?w = "tls_ret E (trace h2) ?c"
  have pf: "prefix (trace h) (trace h2)"
    using k(1) by (auto simp: same_objects_def tls_do_def prefix_def)
  have same: "polls h2 s \<noteq> None" "ssl_socks h2 s = Some sx"
    using k(1) x by (auto simp: same_objects_def tls_do_def domIff)
  obtain x2 where x2: "ssl_datas h2 ?d = Some x2" "pending_input x2 = []"
    using k(2) s1 by (auto simp: data_kept_def)
  let ?x3 = "x2\<lparr>ssl_msg_more := 0\<rparr>"
  let ?h3 = "(tls_do h2 ?c)\<lparr>ssl_datas := (ssl_datas h2)(?d \<mapsto> ?x3)\<rparr>"
  obtain p3 where p3: "polls ?h3 s = Some p3" using same by (auto simp: tls_do_def)
  obtain h4 where f: "(if last_write_was_msg_more ?x3 \<noteq> 0 \<and> msg_more = 0 then us_socket_flush E ?h3 s else Some ?h3) = Some h4"
    "same_objects ?h3 h4" "ssl_datas h4 = ssl_datas ?h3"
    by (cases "last_write_was_msg_more ?x3 \<noteq> 0 \<and> msg_more = 0") (use flush_returns [OF p3] in auto)
  have run: "us_internal_ssl_socket_write E h s data msg_more = (if ?w > 0 then Some (?w, h4)
       else do {
         let (err, h) = tls E h4 (SSL_get_error (ssl sx) ?w);
         h \<leftarrow> (if err = SSL_ERROR_WANT_READ
               then set_ssl_sock h s (\<lambda>x. x\<lparr>ssl_write_wants_read := 1\<rparr>)
               else Some (clear_errors h err));
         Some (0, h) })"
    using x d live io f(1) [unfolded tls_do_def] x2(1)
    by (cases "last_write_was_msg_more x2 = 0"; cases "msg_more = 0")
      (simp_all add: us_internal_ssl_socket_write_def us_internal_ssl_socket_is_shut_down_def tls_def
        loop_data_of_def set_data_def write_started_def tls_do_def)
  have w4: "prefix (trace h2 @ [Tls ?c]) (trace h4)" "ssl_socks h4 s = Some sx"
    "ssl_datas h4 ?d = Some ?x3" "pending_input ?x3 = []"
    using f(2,3) same(2) x2(2) by (simp_all add: same_objects_def tls_do_def pending_input_def)
  show thesis
  proof (cases "?w > 0")
    case True
    with run w4 pf show thesis by (intro that [of ?w h4 "trace h2" ?x3 sx]) simp_all
  next
    case False
    let ?e = "SSL_get_error (ssl sx) ?w"
    let ?err = "tls_ret E (trace h4) ?e"
    define sx' where "sx' = (if ?err = SSL_ERROR_WANT_READ then sx\<lparr>ssl_write_wants_read := 1\<rparr> else sx)"
    define h' where "h' = (if ?err = SSL_ERROR_WANT_READ
        then (tls_do h4 ?e)\<lparr>ssl_socks := (ssl_socks h4)(s \<mapsto> sx')\<rparr> else clear_errors (tls_do h4 ?e) ?err)"
    have "us_internal_ssl_socket_write E h s data msg_more = Some (0, h')"
      using run False w4(2) by (simp add: tls_def h'_def sx'_def set_ssl_sock_def tls_do_def)
    moreover have "prefix (trace h4 @ [Tls ?e]) (trace h')" "ssl_socks h' s = Some sx'" "ssl_datas h' = ssl_datas h4"
      using w4(2) by (simp_all add: h'_def sx'_def clear_errors_def tls_do_def)
    moreover have "ssl_write_wants_read sx' = (if ?err = SSL_ERROR_WANT_READ then 1 else ssl_write_wants_read sx)"
      by (simp add: sx'_def)
    moreover have "prefix (trace h2 @ [Tls ?c]) (trace h')"
      using w4(1) calculation(2) by (metis prefix_order.trans prefixI append_prefixD)
    ultimately show thesis
      using False w4 pf by (intro that [of ?w h' "trace h2" ?x3 sx']) auto
  qed
qed

text \<open>
  C17: \<open>us_internal_ssl_socket_write\<close> returns whatever the state of the socket.  On a closed socket, or
  one that was shut down, beneath TLS or in it, it returns 0 and writes nothing.  Otherwise it
  returns what OpenSSL wrote, or 0, and then remembers to write again after a read exactly when
  OpenSSL wants that.  In passing it discards all input that was received and not yet read.
\<close>

theorem us_internal_ssl_socket_write_result:
  assumes fin: "bio_finite E (SSL_write (ssl sx) data)"
    and x: "socks h s = Some x" "polls h s = Some p" "ctxs h (s_context x) = Some y"
      "loops h (c_loop y) = Some z" "ssl_socks h s = Some sx"
    and d: "ssl_datas h (ssl_data z) = Some dx" "input_ok dx"
  shows "\<exists>r h'. us_internal_ssl_socket_write E h s data msg_more = Some (r, h') \<and>
    (if us_socket_is_closed x \<or> us_socket_is_shut_down p then r = 0 \<and> h' = h
     else if tls_ret E (trace h) (SSL_get_shutdown (ssl sx)) AND SSL_SENT_SHUTDOWN \<noteq> 0
     then r = 0 \<and> h' = tls_do h (SSL_get_shutdown (ssl sx))
     else \<exists>t w dx' sx'. prefix (trace h) t \<and> prefix (t @ [Tls (SSL_write (ssl sx) data)]) (trace h') \<and>
       w = tls_ret E t (SSL_write (ssl sx) data) \<and> r = (if w > 0 then w else 0) \<and>
       ssl_datas h' (ssl_data z) = Some dx' \<and> pending_input dx' = [] \<and>
       ssl_socks h' s = Some sx' \<and> (w > 0 \<longrightarrow> sx' = sx) \<and>
       (w \<le> 0 \<longrightarrow> (\<exists>t'. prefix (t' @ [Tls (SSL_get_error (ssl sx) w)]) (trace h') \<and>
         ssl_write_wants_read sx' = (if tls_ret E t' (SSL_get_error (ssl sx) w) = SSL_ERROR_WANT_READ
           then 1 else ssl_write_wants_read sx))))"
proof -
  consider "us_socket_is_closed x \<or> us_socket_is_shut_down p"
    | "\<not> us_socket_is_closed x" "\<not> us_socket_is_shut_down p"
      "tls_ret E (trace h) (SSL_get_shutdown (ssl sx)) AND SSL_SENT_SHUTDOWN \<noteq> 0"
    | "\<not> us_socket_is_closed x" "\<not> us_socket_is_shut_down p"
      "tls_ret E (trace h) (SSL_get_shutdown (ssl sx)) AND SSL_SENT_SHUTDOWN = 0"
    by blast
  then show ?thesis
  proof cases
    case 1
    with x show ?thesis
      by (auto simp: us_internal_ssl_socket_write_def us_internal_ssl_socket_is_shut_down_def)
  next
    case 2
    with x show ?thesis
      by (simp add: us_internal_ssl_socket_write_def us_internal_ssl_socket_is_shut_down_def tls_def)
  next
    case 3
    show ?thesis
    proof (rule write_open_result [OF fin x d 3, where msg_more = msg_more])
      fix t w h' dx' sx'
      assume w: "us_internal_ssl_socket_write E h s data msg_more = Some (if w > 0 then w else 0, h')"
        "prefix (trace h) t" "prefix (t @ [Tls (SSL_write (ssl sx) data)]) (trace h')"
        "w = tls_ret E t (SSL_write (ssl sx) data)"
        "ssl_datas h' (ssl_data z) = Some dx'" "pending_input dx' = []" "ssl_socks h' s = Some sx'"
        "w > 0 \<Longrightarrow> sx' = sx"
        "w \<le> 0 \<Longrightarrow> \<exists>t'. prefix (t' @ [Tls (SSL_get_error (ssl sx) w)]) (trace h') \<and>
          ssl_write_wants_read sx' = (if tls_ret E t' (SSL_get_error (ssl sx) w) = SSL_ERROR_WANT_READ then 1
            else ssl_write_wants_read sx)"
      show ?thesis
        by (rule exI [of _ "if w > 0 then w else 0"], rule exI [of _ h'], rule conjI, rule w(1),
            subst if_not_P, use 3 in blast, subst if_not_P, use 3 in blast, rule exI [of _ t],
            rule exI [of _ w], rule exI [of _ dx'], rule exI [of _ sx'], use w in blast)
    qed
  qed
qed

text \<open>An OpenSSL that turns each write into one record and writes everything.\<close>

definition demo_tls_env :: env where
  "demo_tls_env = (demo_env Epoll)\<lparr>
     tls_bio := (\<lambda>t c. if \<exists>a. Bio a \<in> set t then BioDone else BioWrite [23, 3, 3, 0, 1, 7]),
     tls_ret := (\<lambda>t c. case c of SSL_write _ data \<Rightarrow> int (length data) | SSL_CTX_new \<Rightarrow> 50
       | Strdup _ \<Rightarrow> 60 | SSL_CTX_use_certificate_chain_file _ _ \<Rightarrow> 1
       | SSL_CTX_get_default_passwd_cb_userdata _ \<Rightarrow>
           (if Tls (SSL_CTX_set_default_passwd_cb_userdata 50 60) \<in> set t then 60 else 0)
       | _ \<Rightarrow> 0)\<rparr>"

lemma demo_bio_finite: "bio_finite demo_tls_env c"
  unfolding bio_finite_def
  by (rule exI [of _ "\<lambda>t. if \<exists>a. Bio a \<in> set t then 0 else 1"]) (auto simp: demo_tls_env_def)

theorem us_internal_ssl_socket_write_result_witness:
  "\<exists>h' dx'. us_internal_ssl_socket_write demo_tls_env tls_heap 3 [104, 105] 0 = Some (2, h') \<and>
    ssl_datas h' 20 = Some dx' \<and> pending_input dx' = []"
proof -
  have x: "socks tls_heap 3 = Some (demo_sock 0 4)" "polls tls_heap 3 = Some \<lparr>fd = 60, poll_type = 8\<rparr>"
    "ctxs tls_heap (s_context (demo_sock 0 4)) = Some demo_ctx"
    "loops tls_heap (c_loop demo_ctx) = Some (demo_loop\<lparr>ssl_data := 20\<rparr>)"
    "ssl_socks tls_heap 3 = Some \<lparr>ssl = 40, ssl_write_wants_read = 0, ssl_read_wants_write = 0\<rparr>"
    and d: "ssl_datas tls_heap (ssl_data (demo_loop\<lparr>ssl_data := 20\<rparr>)) = Some demo_data"
    using demo_input_ok by (simp_all add: tls_heap_def demo_heap_def demo_sock_def demo_ctx_def)
  have n: "\<not> (us_socket_is_closed (demo_sock 0 4) \<or> us_socket_is_shut_down \<lparr>fd = 60, poll_type = 8\<rparr>)"
    by (simp add: us_socket_is_closed_def us_socket_is_shut_down_def demo_sock_def us_internal_poll_type_def)
  show ?thesis
    using us_internal_ssl_socket_write_result [OF demo_bio_finite x d demo_input_ok(2), of "[104, 105]" 0] n
    by (auto simp: demo_tls_env_def)
qed

subsection \<open>Resources\<close>

text \<open>
  What the library holds of OpenSSL and the C library: a sequence of calls is run through, with the
  history it started from, and every call that gives out something or takes it back is followed.
\<close>

datatype resource = Context ptr | Memory ptr | File ptr | DH_params ptr

definition gain :: "(ptr \<Rightarrow> resource) \<Rightarrow> int \<Rightarrow> resource set \<Rightarrow> resource set" where
  "gain f r R = (if r = 0 then R else insert (f (nat r)) R)"

fun held :: "env \<Rightarrow> trace_t \<Rightarrow> ssl_call list \<Rightarrow> resource set \<Rightarrow> resource set" where
  "held E t [] R = R"
| "held E t (c # cs) R = held E (t @ [Tls c]) cs
    (case c of
       SSL_CTX_new \<Rightarrow> gain Context (tls_ret E t c) R
     | Strdup _ \<Rightarrow> gain Memory (tls_ret E t c) R
     | Fopen _ \<Rightarrow> gain File (tls_ret E t c) R
     | PEM_read_DHparams _ \<Rightarrow> gain DH_params (tls_ret E t c) R
     | SSL_CTX_free p \<Rightarrow> R - {Context p}
     | Free p \<Rightarrow> R - {Memory p}
     | Fclose p \<Rightarrow> R - {File p}
     | DH_free p \<Rightarrow> R - {DH_params p}
     | _ \<Rightarrow> R)"

text \<open>The user data of the password callback of a context, as the calls so far have set it.\<close>

fun password_of :: "ptr \<Rightarrow> event list \<Rightarrow> ptr" where
  "password_of c [] = NULL"
| "password_of c (e # t) = (case e of
       Tls (SSL_CTX_set_default_passwd_cb_userdata c' p) \<Rightarrow> if c' = c then p else password_of c t
     | Tls (SSL_CTX_free c') \<Rightarrow> if c' = c then NULL else password_of c t
     | _ \<Rightarrow> password_of c t)"

text \<open>What the code relies on: OpenSSL gives back the user data that was set.\<close>

definition passwords_ok :: "env \<Rightarrow> bool" where
  "passwords_ok E \<longleftrightarrow> (\<forall>t c. tls_ret E t (SSL_CTX_get_default_passwd_cb_userdata c) = int (password_of c (rev t)))"

text \<open>A stretch of calls that neither sets a password nor leaves anything open.\<close>

definition balanced :: "env \<Rightarrow> ptr \<Rightarrow> heap \<Rightarrow> heap \<Rightarrow> bool" where
  "balanced E c h h' \<longleftrightarrow> (\<exists>cs. trace h' = trace h @ map Tls cs \<and>
    (\<forall>R. (\<forall>p. File p \<notin> R \<and> DH_params p \<notin> R) \<longrightarrow> held E (trace h) cs R = R) \<and>
    password_of c (rev (trace h')) = password_of c (rev (trace h)))"

lemma held_append: "held E t (cs @ ds) R = held E (t @ map Tls cs) ds (held E t cs R)"
  by (induction E t cs R rule: held.induct) auto

lemma balanced_trans:
  assumes "balanced E c h h1" "balanced E c h1 h2"
  shows "balanced E c h h2"
proof -
  obtain cs ds where cs: "trace h1 = trace h @ map Tls cs" "trace h2 = trace h1 @ map Tls ds"
    and r: "\<And>R. (\<forall>p. File p \<notin> R \<and> DH_params p \<notin> R) \<Longrightarrow> held E (trace h) cs R = R"
      "\<And>R. (\<forall>p. File p \<notin> R \<and> DH_params p \<notin> R) \<Longrightarrow> held E (trace h1) ds R = R"
    and w: "password_of c (rev (trace h2)) = password_of c (rev (trace h))"
    using assms unfolding balanced_def by metis
  have "trace h2 = trace h @ map Tls (cs @ ds)" using cs by simp
  moreover have "held E (trace h) (cs @ ds) R = R" if "\<forall>p. File p \<notin> R \<and> DH_params p \<notin> R" for R
    using r [OF that] cs(1) by (simp add: held_append)
  ultimately show ?thesis
    using w unfolding balanced_def by blast
qed

lemma balanced_steps:
  "balanced E c h (ssl_context_defaults h c)" "balanced E c h (use_low_memory h c options)"
  "balanced E c h (snd (use_certificate E h c options))" "balanced E c h (snd (use_private_key E h c options))"
  "balanced E c h (snd (use_ca E h c options))" "balanced E c h (snd (use_ciphers E h c options))"
proof -
  have one: "balanced E c h (tls_do h q)"
    if "\<And>t R. held E t [q] R = R" "\<And>t. password_of c (Tls q # t) = password_of c t" for q h
    using that unfolding balanced_def by (intro exI [of _ "[q]"]) (simp_all add: tls_do_def)
  have refl: "balanced E c h h"
    unfolding balanced_def by (intro exI [of _ "[]"]) simp
  note step = balanced_trans [OF _ one] and intros = refl one
  show "balanced E c h (ssl_context_defaults h c)"
    unfolding ssl_context_defaults_def by (intro step one) simp_all
  show "balanced E c h (use_low_memory h c options)"
    using intros by (simp add: use_low_memory_def)
  show "balanced E c h (snd (use_certificate E h c options))" "balanced E c h (snd (use_private_key E h c options))"
    "balanced E c h (snd (use_ciphers E h c options))"
    using intros by (simp_all add: use_certificate_def use_private_key_def use_ciphers_def tls_def split: option.split)
  show "balanced E c h (snd (use_ca E h c options))"
    by (auto simp: use_ca_def tls_def Let_def refl split: option.split intro!: step one)
qed

lemma balanced_dh: "balanced E c h (snd (use_dh_params E h c options))"
proof (cases "dh_params_file_name options")
  case None
  then show ?thesis
    unfolding balanced_def by (intro exI [of _ "[]"]) (simp add: use_dh_params_def)
next
  case (Some f)
  let ?file = "tls_ret E (trace h) (Fopen f)"
  let ?t = "trace h @ [Tls (Fopen f)]"
  let ?dh = "tls_ret E ?t (PEM_read_DHparams (nat ?file))"
  let ?t2 = "?t @ [Tls (PEM_read_DHparams (nat ?file)), Tls (Fclose (nat ?file))]"
  let ?r = "tls_ret E ?t2 (SSL_CTX_set_tmp_dh c (nat ?dh))"
  define cs where "cs = (if ?file = 0 then [Fopen f]
    else if ?dh = 0 then [Fopen f, PEM_read_DHparams (nat ?file), Fclose (nat ?file)]
    else [Fopen f, PEM_read_DHparams (nat ?file), Fclose (nat ?file), SSL_CTX_set_tmp_dh c (nat ?dh), DH_free (nat ?dh)] @
      (if ?r \<noteq> 1 then [] else [SSL_CTX_set_cipher_list c OWASP_CIPHERS]))"
  have "trace (snd (use_dh_params E h c options)) = trace h @ map Tls cs"
    using Some by (simp add: use_dh_params_def tls_def tls_do_def cs_def Let_def)
  moreover have "held E (trace h) cs R = R" if "\<forall>p. File p \<notin> R \<and> DH_params p \<notin> R" for R
    using that by (auto simp: cs_def gain_def)
  moreover have "password_of c (rev (trace h @ map Tls cs)) = password_of c (rev (trace h))"
    by (simp add: cs_def)
  ultimately show ?thesis
    unfolding balanced_def by metis
qed

lemma or_free_result:
  assumes "\<And>f h. f \<in> set fs \<Longrightarrow> balanced E ctx h (snd (f E h ctx options))"
  shows "\<exists>h1. balanced E ctx h h1 \<and>
    (or_free E h ctx options fs = (ctx, h1) \<or> or_free E h ctx options fs = (NULL, free_ssl_context E h1 ctx))"
  using assms
proof (induction fs arbitrary: h)
  case Nil
  have "balanced E ctx h h"
    unfolding balanced_def by (intro exI [of _ "[]"]) simp
  then show ?case by auto
next
  case (Cons f fs)
  obtain b h1 where f: "f E h ctx options = (b, h1)" by fastforce
  have s: "balanced E ctx h h1" using Cons.prems [of f h] f by simp
  show ?case
  proof (cases b)
    case True
    obtain h2 where h2: "balanced E ctx h1 h2" "or_free E h1 ctx options fs = (ctx, h2) \<or>
        or_free E h1 ctx options fs = (NULL, free_ssl_context E h2 ctx)"
      using Cons.IH [of h1] Cons.prems by auto
    have "balanced E ctx h h2" by (rule balanced_trans [OF s h2(1)])
    with h2(2) f True show ?thesis by (intro exI [of _ h2]) simp
  next
    case False
    with f s show ?thesis by auto
  qed
qed

lemma free_context_result:
  assumes "passwords_ok E" "c \<noteq> NULL"
  shows "\<exists>cs. trace (free_ssl_context E h c) = trace h @ map Tls cs \<and>
    held E (trace h) cs R = R - {Memory (password_of c (rev (trace h)))} - {Context c}"
  using assms by (intro exI [of _ "[SSL_CTX_get_default_passwd_cb_userdata c,
      Free (password_of c (rev (trace h))), SSL_CTX_free c]"])
    (simp add: free_ssl_context_def tls_def tls_do_def passwords_ok_def)

lemma passphrase_result:
  "\<exists>cs. trace (use_passphrase E h c options) = trace h @ map Tls cs \<and>
    held E (trace h) cs R \<subseteq> R \<union> {Memory (password_of c (rev (trace (use_passphrase E h c options))))} \<and>
    R \<subseteq> held E (trace h) cs R"
proof (cases "passphrase options")
  case None
  then show ?thesis by (intro exI [of _ "[]"]) (auto simp: use_passphrase_def)
next
  case (Some p)
  then show ?thesis
    by (intro exI [of _ "[Strdup p, SSL_CTX_set_default_passwd_cb_userdata c (nat (tls_ret E (trace h) (Strdup p))),
        SSL_CTX_set_default_passwd_cb c]"]) (auto simp: use_passphrase_def tls_def tls_do_def gain_def)
qed

lemma no_open: "R \<subseteq> {Context a} \<union> {Memory b} \<Longrightarrow> \<forall>p. File p \<notin> R \<and> DH_params p \<notin> R"
  by auto

lemma create_ssl_context_result:
  assumes pw: "passwords_ok E" and c: "c = nat (tls_ret E (trace h) SSL_CTX_new)" "c \<noteq> NULL"
  shows "\<exists>ctx h' cs. create_ssl_context_from_options E h options = Some (ctx, h') \<and>
    trace h' = trace h @ map Tls cs \<and>
    (ctx = NULL \<and> held E (trace h) cs {} = {} \<or>
     ctx = c \<and> Context c \<in> held E (trace h) cs {} \<and>
       held E (trace h) cs {} \<subseteq> {Context c, Memory (password_of c (rev (trace h')))})"
proof -
  let ?h1 = "tls_do h SSL_CTX_new"
  let ?h2 = "use_low_memory (ssl_context_defaults ?h1 c) c options"
  let ?h3 = "use_passphrase E ?h2 c options"
  let ?fs = "[use_certificate, use_private_key, use_ca, use_dh_params, use_ciphers]"
  have run: "create_ssl_context_from_options E h options = Some (or_free E ?h3 c options ?fs)"
    using c by (simp add: create_ssl_context_from_options_def tls_def Let_def)
  have "balanced E c ?h1 ?h2"
    by (rule balanced_trans [OF balanced_steps(1,2)])
  then obtain cs2 where s2: "trace ?h2 = trace ?h1 @ map Tls cs2" "held E (trace ?h1) cs2 {Context c} = {Context c}"
    by (auto simp: balanced_def)
  obtain cs3 where s3: "trace ?h3 = trace ?h2 @ map Tls cs3"
    "held E (trace ?h2) cs3 {Context c} \<subseteq> {Context c} \<union> {Memory (password_of c (rev (trace ?h3)))}"
    "{Context c} \<subseteq> held E (trace ?h2) cs3 {Context c}"
    using passphrase_result [of E ?h2 c options "{Context c}"] by blast
  let ?R = "held E (trace ?h2) cs3 {Context c}"
  have b: "balanced E c g (snd (f E g c options))" if "f \<in> set ?fs" for f g
    using that by (auto intro: balanced_steps balanced_dh)
  obtain h4 where h4: "balanced E c ?h3 h4"
    "or_free E ?h3 c options ?fs = (c, h4) \<or> or_free E ?h3 c options ?fs = (NULL, free_ssl_context E h4 c)"
    using or_free_result [of ?fs E c options ?h3] b by blast
  obtain cs4 where s4: "trace h4 = trace ?h3 @ map Tls cs4" "held E (trace ?h3) cs4 ?R = ?R"
    "password_of c (rev (trace h4)) = password_of c (rev (trace ?h3))"
  proof -
    obtain ds where "trace h4 = trace ?h3 @ map Tls ds"
      "\<And>R. (\<forall>p. File p \<notin> R \<and> DH_params p \<notin> R) \<Longrightarrow> held E (trace ?h3) ds R = R"
      "password_of c (rev (trace h4)) = password_of c (rev (trace ?h3))"
      using h4(1) unfolding balanced_def by metis
    with no_open [OF s3(2)] show thesis by (intro that [of ds])
  qed
  let ?cs = "SSL_CTX_new # cs2 @ cs3 @ cs4"
  have t4: "trace h4 = trace h @ map Tls ?cs"
    using s2(1) s3(1) s4(1) by (simp add: tls_do_def)
  have "tls_ret E (trace h) SSL_CTX_new \<noteq> 0" using c by auto
  then have r4: "held E (trace h) ?cs {} = ?R"
    using s2 s3(1) s4 c(1) by (simp add: held_append tls_do_def gain_def)
  show ?thesis
    using h4(2)
  proof
    assume "or_free E ?h3 c options ?fs = (c, h4)"
    with run t4 r4 s3 s4(3) show ?thesis
      by (intro exI [of _ c] exI [of _ h4] exI [of _ ?cs]) auto
  next
    assume o: "or_free E ?h3 c options ?fs = (NULL, free_ssl_context E h4 c)"
    obtain cs5 where s5: "trace (free_ssl_context E h4 c) = trace h4 @ map Tls cs5"
      "held E (trace h4) cs5 ?R = ?R - {Memory (password_of c (rev (trace h4)))} - {Context c}"
      using free_context_result [OF pw c(2)] by blast
    have "held E (trace h) (?cs @ cs5) {} = {}"
      unfolding held_append r4 using t4 s5(2) s3(2) s4(3) by auto
    with run o t4 s5(1) show ?thesis
      by (intro exI [of _ NULL] exI [of _ "free_ssl_context E h4 c"] exI [of _ "?cs @ cs5"]) simp
  qed
qed


text \<open>Options whose private key cannot be read, and an OpenSSL that remembers passwords.\<close>

definition demo_options :: us_socket_context_options_t where
  "demo_options = \<lparr>key_file_name = Some ''key.pem'', cert_file_name = Some ''cert.pem'',
     passphrase = Some ''1234'', dh_params_file_name = None, ca_file_name = None, ssl_ciphers = None,
     ssl_prefer_low_memory_usage = 0\<rparr>"

definition demo_key_env :: env where
  "demo_key_env = demo_tls_env\<lparr>tls_ret := (\<lambda>t c. case c of
     SSL_CTX_get_default_passwd_cb_userdata d \<Rightarrow> int (password_of d (rev t)) | _ \<Rightarrow> tls_ret demo_tls_env t c)\<rparr>"


end
