(* ===== verification/Outcome.thy ===== *)
theory Outcome
  imports Base
begin

text \<open>
  Results of code that may call \<open>exit\<close>: a value, or the end of the process.  \<open>None\<close> around it stays the
  fault (or the loop that does not end) of the rest of the development.
\<close>

datatype 'a outcome = Returned 'a | Exited

definition and_then :: "'a outcome option \<Rightarrow> ('a \<Rightarrow> 'b outcome option) \<Rightarrow> 'b outcome option" where
  "and_then m k = Option.bind m (\<lambda>r. case r of Exited \<Rightarrow> Some Exited | Returned x \<Rightarrow> k x)"

lemma and_then_simps [simp]:
  "and_then None k = None"
  "and_then (Some Exited) k = Some Exited"
  "and_then (Some (Returned x)) k = k x"
  by (simp_all add: and_then_def)

lemma and_then_SomeE:
  assumes "and_then m k = Some (Returned y)"
  obtains x where "m = Some (Returned x)" "k x = Some (Returned y)"
  using assms by (cases m; cases "the m") (auto simp: and_then_def)

lemma and_then_mono [partial_function_mono]:
  assumes "mono_option B" "\<And>y. mono_option (C y)"
  shows "mono_option (\<lambda>f. and_then (B f) (\<lambda>y. C y f))"
  unfolding and_then_def
proof (rule bind_mono [OF assms(1)])
  fix r
  show "mono_option (\<lambda>f. case r of Returned x \<Rightarrow> C x f | Exited \<Rightarrow> Some Exited)"
    by (cases r) (simp_all add: assms(2) option.const_mono)
qed

end
