(* ===== verification/Uring.thy ===== *)
theory Uring
  imports Bsd Outcome "HOL-Library.Signed_Division"
begin

text \<open>
  The io_uring build of the library: \<open>io_uring/internal.h\<close>, \<open>io_loop.c\<close>, \<open>io_context.c\<close> and
  \<open>io_socket.c\<close>.  It replaces \<open>loop.c\<close>, \<open>context.c\<close> and \<open>socket.c\<close> with structs and functions of its
  own under the same names, so it has a store of its own here and the names of its functions carry
  \<open>io_\<close> in front.  The functions of \<open>bsd.c\<close> are shared: \<open>u_heap\<close> is used for the record of system
  calls only.

  liburing is not part of the source.  An entry of the submission queue is the record of the calls
  that fill it; what the ring functions return, whether the queue has room and which completions a
  wait brings are the environment's.  The functions on the buffer ring are recorded in order.

  \<open>None\<close> is a fault (a pointer that is null or not of that kind, an access out of bounds) or a loop
  that does not end; \<open>Exited\<close> is \<open>exit(1)\<close>, which the code calls in several places.
\<close>

subsection \<open>Constants\<close>

definition BACKLOG :: int where [simp]: "BACKLOG = 512"
definition MAX_MESSAGE_LEN :: nat where [simp]: "MAX_MESSAGE_LEN = 2048"
definition BUFFERS_COUNT :: nat where [simp]: "BUFFERS_COUNT = 4096"
definition SENDBUF_SIZE :: nat where [simp]: "SENDBUF_SIZE = 16 * 1024"
definition group_id :: int where [simp]: "group_id = 1337"
definition ENOBUFS :: int where [simp]: "ENOBUFS = 105"
definition CQE_NO_DATA :: u64 where [simp]: "CQE_NO_DATA = 5"
definition IOSQE_FIXED_FILE :: u32 where [simp]: "IOSQE_FIXED_FILE = 1"
definition IOSQE_BUFFER_SELECT :: u32 where [simp]: "IOSQE_BUFFER_SELECT = 0x20"
definition IOSQE_CQE_SKIP_SUCCESS :: u32 where [simp]: "IOSQE_CQE_SKIP_SUCCESS = 0x40"

subsection \<open>Tagged pointers\<close>

text \<open>The objects are 8 byte aligned and the low three bits of a pointer say what a completion is for.\<close>

definition SOCKET_READ :: nat where [simp]: "SOCKET_READ = 0"
definition SOCKET_WRITE :: nat where [simp]: "SOCKET_WRITE = 1"
definition LISTEN_SOCKET_ACCEPT :: nat where [simp]: "LISTEN_SOCKET_ACCEPT = 2"
definition SOCKET_CONNECT :: nat where [simp]: "SOCKET_CONNECT = 3"
definition LOOP_TIMER :: nat where [simp]: "LOOP_TIMER = 7"

definition tagged :: "ptr \<Rightarrow> nat \<Rightarrow> u64" where
  "tagged p tag = of_nat p + of_nat tag"

definition pointer_tag :: "u64 \<Rightarrow> nat" where
  "pointer_tag d = unat (d AND 0x7)"

definition object_of :: "u64 \<Rightarrow> ptr" where
  "object_of d = unat (d AND 0xFFFFFFFFFFFFFFF8)"

subsection \<open>Submissions and completions\<close>

datatype uring_op =
    Multishot_accept_direct int
  | Recv_multishot int nat
  | Close_direct int
  | Prep_send int ptr int
  | Prep_read int ptr nat
  | Prep_connect int sockaddr

text \<open>What the code has put into an entry so far; a send names the socket whose buffer it sends.\<close>

record sqe =
  sq_op :: "uring_op option"
  sq_flags :: "u32 option"
  sq_buf_group :: "int option"
  sq_data :: "u64 option"

definition empty_sqe :: sqe where
  "empty_sqe = \<lparr>sq_op = None, sq_flags = None, sq_buf_group = None, sq_data = None\<rparr>"

record cqe =
  cq_res :: int
  cq_flags :: u32
  cq_data :: u64

text \<open>The calls on the buffer ring; \<open>Tail_increment\<close> is \<open>buf_ring->tail++\<close>.\<close>

datatype buf_op = Buf_ring_init | Buf_ring_add nat nat nat nat | Buf_ring_advance nat | Tail_increment

datatype ring_call =
    Queue_init_params nat
  | Register_files_sparse nat
  | Register_ring_fd
  | Register_buf_ring nat int
  | Register_files_update int int
  | Submit_and_wait "sqe list"
  | Cq_advance nat

subsection \<open>The structs\<close>

record io_us_timer_t =
  ut_loop :: ptr
  ut_fd :: int

record io_us_loop_t =
  ul_ring :: "sqe list"
  ul_buf_ring :: "buf_op list"
  ul_timer :: ptr
  ul_head :: ptr
  ul_iterator :: ptr

text \<open>A callback that was never set is an uninitialised pointer, \<open>None\<close>.\<close>

record io_us_socket_context_t =
  uc_loop :: ptr
  uc_global_tick :: u32
  uc_timestamp :: u8
  uc_long_timestamp :: u8
  uc_head_sockets :: ptr
  uc_head_listen_sockets :: ptr
  uc_iterator :: ptr
  uc_prev :: ptr
  uc_next :: ptr
  uc_on_open :: "nat option"
  uc_on_data :: "nat option"
  uc_on_close :: "nat option"
  uc_on_socket_timeout :: "nat option"
  uc_on_socket_long_timeout :: "nat option"

record io_us_listen_socket_t =
  uls_context :: ptr
  uls_socket_ext_size :: int

record io_us_socket_t =
  us_ctx :: ptr
  us_prev :: ptr
  us_next :: ptr
  us_timeout :: u8
  us_long_timeout :: u8
  us_dd :: int
  us_sendBuf :: "u8 list"

datatype io_event =
    IoOpen ptr int
  | IoData ptr "u8 list"
  | IoClose ptr int ptr
  | IoTimeout ptr
  | IoLongTimeout ptr

record uring =
  u_timers :: "ptr \<rightharpoonup> io_us_timer_t"
  u_loops :: "ptr \<rightharpoonup> io_us_loop_t"
  u_ctxs :: "ptr \<rightharpoonup> io_us_socket_context_t"
  u_listens :: "ptr \<rightharpoonup> io_us_listen_socket_t"
  u_socks :: "ptr \<rightharpoonup> io_us_socket_t"
  u_bufs :: "u8 list list"
  u_num_sockets :: int
  u_calls :: "ring_call list"
  u_events :: "(nat \<times> io_event) list"
  u_heap :: heap

record uenv =
  u_sys :: env
  u_ring_ret :: "ring_call list \<Rightarrow> ring_call \<Rightarrow> int"
  u_sq_room :: "uring \<Rightarrow> ptr \<Rightarrow> bool"
  u_cqes :: "uring \<Rightarrow> cqe list"
  u_fill :: "uring \<Rightarrow> u8 list list"
  u_malloc :: "uring \<Rightarrow> ptr"
  u_sock_garbage :: "uring \<Rightarrow> io_us_socket_t"
  u_callback :: "nat \<Rightarrow> io_event \<Rightarrow> uring \<Rightarrow> uring outcome option"

subsection \<open>Reads and writes\<close>

definition set_uloop :: "uring \<Rightarrow> ptr \<Rightarrow> (io_us_loop_t \<Rightarrow> io_us_loop_t) \<Rightarrow> uring option" where
  "set_uloop u p f = do { x \<leftarrow> u_loops u p; Some (u\<lparr>u_loops := (u_loops u)(p \<mapsto> f x)\<rparr>) }"

definition set_uctx :: "uring \<Rightarrow> ptr \<Rightarrow> (io_us_socket_context_t \<Rightarrow> io_us_socket_context_t) \<Rightarrow> uring option" where
  "set_uctx u p f = do { x \<leftarrow> u_ctxs u p; Some (u\<lparr>u_ctxs := (u_ctxs u)(p \<mapsto> f x)\<rparr>) }"

definition set_usock :: "uring \<Rightarrow> ptr \<Rightarrow> (io_us_socket_t \<Rightarrow> io_us_socket_t) \<Rightarrow> uring option" where
  "set_usock u p f = do { x \<leftarrow> u_socks u p; Some (u\<lparr>u_socks := (u_socks u)(p \<mapsto> f x)\<rparr>) }"

lemmas uset_defs = set_uloop_def set_uctx_def set_usock_def

definition io_sys :: "uenv \<Rightarrow> uring \<Rightarrow> syscall \<Rightarrow> int \<times> uring" where
  "io_sys U u c = (let (r, h) = sys (u_sys U) (u_heap u) c in (r, u\<lparr>u_heap := h\<rparr>))"

definition ring_call :: "uenv \<Rightarrow> uring \<Rightarrow> ring_call \<Rightarrow> int \<times> uring" where
  "ring_call U u c = (u_ring_ret U (u_calls u) c, u\<lparr>u_calls := u_calls u @ [c]\<rparr>)"

text \<open>
  A new entry of the queue, by its index; \<open>io_uring_get_sqe\<close> returns null when there is no room, and
  the code writes through what it returns.
\<close>

definition get_sqe :: "uenv \<Rightarrow> uring \<Rightarrow> ptr \<Rightarrow> (nat \<times> uring) option" where
  "get_sqe U u l = do {
     lp \<leftarrow> u_loops u l;
     if u_sq_room U u l
     then do {
       u \<leftarrow> set_uloop u l (\<lambda>z. z\<lparr>ul_ring := ul_ring z @ [empty_sqe]\<rparr>);
       Some (length (ul_ring lp), u) }
     else None }"

definition set_sqe :: "uring \<Rightarrow> ptr \<Rightarrow> nat \<Rightarrow> (sqe \<Rightarrow> sqe) \<Rightarrow> uring option" where
  "set_sqe u l i f = do {
     lp \<leftarrow> u_loops u l;
     if i < length (ul_ring lp)
     then set_uloop u l (\<lambda>z. z\<lparr>ul_ring := (ul_ring z)[i := f (ul_ring z ! i)]\<rparr>)
     else None }"

definition buf_ring_ops :: "uring \<Rightarrow> ptr \<Rightarrow> buf_op list \<Rightarrow> uring option" where
  "buf_ring_ops u l ops = set_uloop u l (\<lambda>z. z\<lparr>ul_buf_ring := ul_buf_ring z @ ops\<rparr>)"

definition io_call :: "uenv \<Rightarrow> nat option \<Rightarrow> io_event \<Rightarrow> uring \<Rightarrow> uring outcome option" where
  "io_call U f ev u = do { n \<leftarrow> f; u_callback U n ev (u\<lparr>u_events := u_events u @ [(n, ev)]\<rparr>) }"

subsection \<open>\<open>io_socket.c\<close>\<close>

definition io_us_socket_local_port :: "ptr \<Rightarrow> int" where "io_us_socket_local_port s = 0"

definition io_us_socket_shutdown_read :: "uring \<Rightarrow> ptr \<Rightarrow> uring" where
  "io_us_socket_shutdown_read u s = u"

definition io_us_socket_remote_address :: "uring \<Rightarrow> ptr \<Rightarrow> uring" where
  "io_us_socket_remote_address u s = u"

definition io_us_socket_context :: "uring \<Rightarrow> ptr \<Rightarrow> ptr option" where
  "io_us_socket_context u s = map_option us_ctx (u_socks u s)"

definition io_us_socket_timeout :: "uring \<Rightarrow> ptr \<Rightarrow> u32 \<Rightarrow> uring option" where
  "io_us_socket_timeout u s seconds =
     (if seconds \<noteq> 0 then do {
        x \<leftarrow> u_socks u s;
        y \<leftarrow> u_ctxs u (us_ctx x);
        set_usock u s (\<lambda>x. x\<lparr>us_timeout := ucast ((ucast (uc_timestamp y) + drop_bit 2 (seconds + 3)) mod 240)\<rparr>) }
      else set_usock u s (\<lambda>x. x\<lparr>us_timeout := 255\<rparr>))"

definition io_us_socket_long_timeout :: "uring \<Rightarrow> ptr \<Rightarrow> u32 \<Rightarrow> uring option" where
  "io_us_socket_long_timeout u s minutes =
     (if minutes \<noteq> 0 then do {
        x \<leftarrow> u_socks u s;
        y \<leftarrow> u_ctxs u (us_ctx x);
        set_usock u s (\<lambda>x. x\<lparr>us_long_timeout := ucast ((ucast (uc_long_timestamp y) + minutes) mod 240)\<rparr>) }
      else set_usock u s (\<lambda>x. x\<lparr>us_long_timeout := 255\<rparr>))"

definition io_us_socket_flush :: "uring \<Rightarrow> ptr \<Rightarrow> uring" where "io_us_socket_flush u s = u"

definition io_us_socket_is_closed :: "ptr \<Rightarrow> int" where "io_us_socket_is_closed s = 0"

definition io_us_socket_is_established :: "ptr \<Rightarrow> int" where "io_us_socket_is_established s = 1"

definition io_us_socket_close_connecting :: "uring \<Rightarrow> ptr \<Rightarrow> ptr \<times> uring" where
  "io_us_socket_close_connecting u s = (s, u)"

definition io_us_socket_write2 :: "uring \<Rightarrow> ptr \<Rightarrow> u8 list \<Rightarrow> u8 list \<Rightarrow> uring outcome option" where
  "io_us_socket_write2 u s header payload = Some Exited"

definition io_us_socket_send_buffer :: "uring \<Rightarrow> ptr \<Rightarrow> u8 list option" where
  "io_us_socket_send_buffer u s = map_option us_sendBuf (u_socks u s)"

definition io_us_socket_close :: "uring \<Rightarrow> ptr \<Rightarrow> int \<Rightarrow> ptr \<Rightarrow> ptr \<times> uring" where
  "io_us_socket_close u s code reason = (s, u)"

definition io_us_socket_get_native_handle :: "ptr \<Rightarrow> ptr" where
  "io_us_socket_get_native_handle s = NULL"

text \<open>
  \<open>data\<close> is the socket's own send buffer (\<open>None\<close>) or other memory, which holds at least the given
  bytes.  A length that is negative is a huge one for \<open>memcpy\<close>, and one greater than the buffer
  writes past its end.
\<close>

definition io_us_socket_write ::
  "uenv \<Rightarrow> uring \<Rightarrow> ptr \<Rightarrow> u8 list option \<Rightarrow> int \<Rightarrow> int \<Rightarrow> (int \<times> uring) option" where
  "io_us_socket_write U u s data len msg_more = do {
     u \<leftarrow> (case data of None \<Rightarrow> Some u
           | Some bs \<Rightarrow>
               if 0 \<le> len \<and> nat len \<le> length bs \<and> nat len \<le> SENDBUF_SIZE
               then set_usock u s (\<lambda>x. x\<lparr>us_sendBuf := take (nat len) bs @ drop (nat len) (us_sendBuf x)\<rparr>)
               else None);
     x \<leftarrow> u_socks u s;
     y \<leftarrow> u_ctxs u (us_ctx x);
     (sqe, u) \<leftarrow> get_sqe U u (uc_loop y);
     u \<leftarrow> set_sqe u (uc_loop y) sqe (\<lambda>q. q\<lparr>sq_op := Some (Prep_send (us_dd x) s len)\<rparr>);
     u \<leftarrow> set_sqe u (uc_loop y) sqe (\<lambda>q. q\<lparr>sq_flags := Some IOSQE_FIXED_FILE\<rparr>);
     u \<leftarrow> set_sqe u (uc_loop y) sqe (\<lambda>q. q\<lparr>sq_data := Some (tagged s SOCKET_WRITE)\<rparr>);
     Some (len, u) }"

definition io_us_socket_is_shut_down :: "ptr \<Rightarrow> int" where "io_us_socket_is_shut_down s = 0"

definition io_us_socket_shutdown :: "uring \<Rightarrow> ptr \<Rightarrow> uring" where "io_us_socket_shutdown u s = u"

subsection \<open>\<open>io_context.c\<close>: lists\<close>

definition io_us_listen_socket_close :: "uring \<Rightarrow> ptr \<Rightarrow> uring" where "io_us_listen_socket_close u ls = u"

definition io_us_socket_context_close :: "uring \<Rightarrow> ptr \<Rightarrow> uring" where "io_us_socket_context_close u c = u"

definition io_us_internal_socket_context_unlink_listen_socket :: "uring \<Rightarrow> ptr \<Rightarrow> ptr \<Rightarrow> uring" where
  "io_us_internal_socket_context_unlink_listen_socket u c ls = u"

definition io_us_internal_socket_context_unlink_socket :: "uring \<Rightarrow> ptr \<Rightarrow> ptr \<Rightarrow> uring" where
  "io_us_internal_socket_context_unlink_socket u c s = u"

definition io_us_socket_context_adopt_socket :: "uring \<Rightarrow> ptr \<Rightarrow> ptr \<Rightarrow> (ptr \<times> uring) option" where
  "io_us_socket_context_adopt_socket u c s = do {
     u \<leftarrow> set_usock u s (\<lambda>x. x\<lparr>us_ctx := c\<rparr>);
     Some (s, u) }"

definition io_us_internal_socket_context_link_listen_socket :: "uring \<Rightarrow> ptr \<Rightarrow> ptr \<Rightarrow> uring" where
  "io_us_internal_socket_context_link_listen_socket u c ls = u"

definition io_us_internal_socket_context_link_socket :: "uring \<Rightarrow> ptr \<Rightarrow> ptr \<Rightarrow> uring option" where
  "io_us_internal_socket_context_link_socket u c s = do {
     y \<leftarrow> u_ctxs u c;
     u \<leftarrow> set_usock u s (\<lambda>x. x\<lparr>us_ctx := c, us_next := uc_head_sockets y, us_prev := NULL\<rparr>);
     u \<leftarrow> (if uc_head_sockets y \<noteq> NULL then set_usock u (uc_head_sockets y) (\<lambda>x. x\<lparr>us_prev := s\<rparr>)
           else Some u);
     set_uctx u c (\<lambda>y. y\<lparr>uc_head_sockets := s\<rparr>) }"

definition io_us_socket_context_loop :: "uring \<Rightarrow> ptr \<Rightarrow> ptr option" where
  "io_us_socket_context_loop u c = map_option uc_loop (u_ctxs u c)"

subsection \<open>\<open>io_context.c\<close>: server names\<close>

definition io_us_socket_context_find_server_name_userdata :: "ptr \<Rightarrow> string \<Rightarrow> ptr" where
  "io_us_socket_context_find_server_name_userdata c hostname_pattern = NULL"

definition io_us_socket_server_name_userdata :: "ptr \<Rightarrow> ptr" where
  "io_us_socket_server_name_userdata s = NULL"

definition io_us_socket_context_add_server_name :: "uring \<Rightarrow> ptr \<Rightarrow> string \<Rightarrow> ptr \<Rightarrow> uring" where
  "io_us_socket_context_add_server_name u c hostname_pattern user = u"

definition io_us_socket_context_remove_server_name :: "uring \<Rightarrow> ptr \<Rightarrow> string \<Rightarrow> uring" where
  "io_us_socket_context_remove_server_name u c hostname_pattern = u"

definition io_us_socket_context_on_server_name :: "uring \<Rightarrow> ptr \<Rightarrow> nat \<Rightarrow> uring" where
  "io_us_socket_context_on_server_name u c cb = u"

definition io_us_socket_context_get_native_handle :: "ptr \<Rightarrow> ptr" where
  "io_us_socket_context_get_native_handle c = NULL"

subsection \<open>\<open>io_context.c\<close>: making contexts\<close>

definition io_us_internal_loop_link :: "uring \<Rightarrow> ptr \<Rightarrow> ptr \<Rightarrow> uring option" where
  "io_us_internal_loop_link u l c = do {
     lp \<leftarrow> u_loops u l;
     u \<leftarrow> set_uctx u c (\<lambda>y. y\<lparr>uc_next := ul_head lp, uc_prev := NULL\<rparr>);
     u \<leftarrow> (if ul_head lp \<noteq> NULL then set_uctx u (ul_head lp) (\<lambda>y. y\<lparr>uc_prev := c\<rparr>) else Some u);
     set_uloop u l (\<lambda>z. z\<lparr>ul_head := c\<rparr>) }"

definition io_us_create_socket_context :: "uenv \<Rightarrow> uring \<Rightarrow> ptr \<Rightarrow> (ptr \<times> uring) option" where
  "io_us_create_socket_context U u l = do {
     let c = u_malloc U u;
     let u = u\<lparr>u_ctxs := (u_ctxs u)(c \<mapsto> \<lparr>uc_loop = l, uc_global_tick = 0, uc_timestamp = 0,
       uc_long_timestamp = 0, uc_head_sockets = NULL, uc_head_listen_sockets = NULL, uc_iterator = NULL,
       uc_prev = NULL, uc_next = NULL, uc_on_open = None, uc_on_data = None, uc_on_close = None,
       uc_on_socket_timeout = None, uc_on_socket_long_timeout = None\<rparr>)\<rparr>;
     u \<leftarrow> io_us_internal_loop_link u l c;
     Some (c, u) }"

definition io_us_create_child_socket_context :: "uenv \<Rightarrow> uring \<Rightarrow> ptr \<Rightarrow> (ptr \<times> uring) option" where
  "io_us_create_child_socket_context U u c = do {
     y \<leftarrow> u_ctxs u c;
     io_us_create_socket_context U u (uc_loop y) }"

definition io_us_socket_context_free :: "uring \<Rightarrow> ptr \<Rightarrow> uring" where "io_us_socket_context_free u c = u"

definition io_us_socket_context_on_open :: "uring \<Rightarrow> ptr \<Rightarrow> nat \<Rightarrow> uring option" where
  "io_us_socket_context_on_open u c cb = set_uctx u c (\<lambda>y. y\<lparr>uc_on_open := Some cb\<rparr>)"

definition io_us_socket_context_on_close :: "uring \<Rightarrow> ptr \<Rightarrow> nat \<Rightarrow> uring option" where
  "io_us_socket_context_on_close u c cb = set_uctx u c (\<lambda>y. y\<lparr>uc_on_close := Some cb\<rparr>)"

definition io_us_socket_context_on_data :: "uring \<Rightarrow> ptr \<Rightarrow> nat \<Rightarrow> uring option" where
  "io_us_socket_context_on_data u c cb = set_uctx u c (\<lambda>y. y\<lparr>uc_on_data := Some cb\<rparr>)"

definition io_us_socket_context_on_long_timeout :: "uring \<Rightarrow> ptr \<Rightarrow> nat \<Rightarrow> uring option" where
  "io_us_socket_context_on_long_timeout u c cb = set_uctx u c (\<lambda>y. y\<lparr>uc_on_socket_long_timeout := Some cb\<rparr>)"

definition io_us_socket_context_on_timeout :: "uring \<Rightarrow> ptr \<Rightarrow> nat \<Rightarrow> uring option" where
  "io_us_socket_context_on_timeout u c cb = set_uctx u c (\<lambda>y. y\<lparr>uc_on_socket_timeout := Some cb\<rparr>)"

definition io_us_socket_context_on_writable :: "uring \<Rightarrow> ptr \<Rightarrow> nat \<Rightarrow> uring" where
  "io_us_socket_context_on_writable u c cb = u"

definition io_us_socket_context_on_end :: "uring \<Rightarrow> ptr \<Rightarrow> nat \<Rightarrow> uring" where
  "io_us_socket_context_on_end u c cb = u"

definition io_us_socket_context_on_connect_error :: "uring \<Rightarrow> ptr \<Rightarrow> nat \<Rightarrow> uring" where
  "io_us_socket_context_on_connect_error u c cb = u"

subsection \<open>\<open>io_context.c\<close>: listening and connecting\<close>

definition io_us_socket_context_listen ::
  "uenv \<Rightarrow> uring \<Rightarrow> ptr \<Rightarrow> int \<Rightarrow> int \<Rightarrow> (ptr \<times> uring) outcome option" where
  "io_us_socket_context_listen U u c port ext_size = do {
     let ls = u_malloc U u;
     let u = u\<lparr>u_listens := (u_listens u)(ls \<mapsto> \<lparr>uls_context = c, uls_socket_ext_size = ext_size\<rparr>)\<rparr>;
     let (f, u) = io_sys U u (Socket AF_INET SOCK_STREAM 0);
     let u = u\<lparr>u_heap := bsd_socket_nodelay (u_heap u) f 1\<rparr>;
     let (_, u) = io_sys U u (Setsockopt f SoReuseAddr 1);
     let (_, u) = io_sys U u (Setsockopt f SoReusePort 1);
     let (b, u) = io_sys U u (Bind f (SockIn [0, 0, 0, 0] (ntohs (word_of_int port))));
     if b < 0 then Some Exited
     else do {
       let (r, u) = io_sys U u (Listen_call f BACKLOG);
       if r < 0 then Some Exited
       else do {
         y \<leftarrow> u_ctxs u c;
         (sqe, u) \<leftarrow> get_sqe U u (uc_loop y);
         u \<leftarrow> set_sqe u (uc_loop y) sqe (\<lambda>q. q\<lparr>sq_op := Some (Multishot_accept_direct f)\<rparr>);
         u \<leftarrow> set_sqe u (uc_loop y) sqe (\<lambda>q. q\<lparr>sq_flags := Some 0\<rparr>);
         u \<leftarrow> set_sqe u (uc_loop y) sqe (\<lambda>q. q\<lparr>sq_data := Some (tagged ls LISTEN_SOCKET_ACCEPT)\<rparr>);
         Some (Returned (ls, u)) } } }"

definition io_us_socket_context_listen_unix :: "ptr \<Rightarrow> string \<Rightarrow> ptr" where
  "io_us_socket_context_listen_unix c path = NULL"

text \<open>
  Connecting: the first result of \<open>getaddrinfo\<close> is used without looking whether there is one.
  \<open>io_bind_source\<close> is the part for a source address; it says whether to go on.
\<close>

definition io_bind_source ::
  "uenv \<Rightarrow> uring \<Rightarrow> int \<Rightarrow> string option \<Rightarrow> (bool \<times> uring) option" where
  "io_bind_source U u f source_host = (case source_host of
       None \<Rightarrow> Some (True, u)
     | Some src \<Rightarrow>
         (let q = Getaddrinfo (Some src) None 0 0 0;
              ifs = sys_ai (u_sys U) (trace (u_heap u)) q;
              (r, u) = io_sys U u q
          in if r \<noteq> 0 then Some (True, u)
             else (case ifs of [] \<Rightarrow> None | i # _ \<Rightarrow>
               (let (ret, u) = io_sys U u (Bind f (ai_addr i));
                    u = u\<lparr>u_heap := do_sys (u_heap u) Freeaddrinfo\<rparr>
                in if ret = LIBUS_SOCKET_ERROR
                   then Some (False, u\<lparr>u_heap := do_sys (bsd_close_socket (u_heap u) f) Freeaddrinfo\<rparr>)
                   else Some (True, u)))))"

definition io_us_socket_context_connect ::
  "uenv \<Rightarrow> uring \<Rightarrow> ptr \<Rightarrow> string option \<Rightarrow> int \<Rightarrow> string option \<Rightarrow> (ptr \<times> uring) option" where
  "io_us_socket_context_connect U u c host port source_host = do {
     let s = u_malloc U u;
     let u = u\<lparr>u_socks := (u_socks u)(s \<mapsto> (u_sock_garbage U u)\<lparr>us_ctx := c, us_timeout := 255,
       us_long_timeout := 255\<rparr>)\<rparr>;
     u \<leftarrow> io_us_internal_socket_context_link_socket u c s;
     let q = Getaddrinfo host (Some (port_string port)) 0 AF_UNSPEC SOCK_STREAM;
     let ais = sys_ai (u_sys U) (trace (u_heap u)) q;
     let (r, u) = io_sys U u q;
     if r \<noteq> 0 then Some (NULL, u)
     else (case ais of [] \<Rightarrow> None | result # _ \<Rightarrow> do {
       let (f, h) = bsd_create_socket (u_sys U) (u_heap u) (ai_family result) (ai_socktype result)
         (ai_protocol result);
       let u = u\<lparr>u_heap := bsd_socket_nodelay h f 1\<rparr>;
       if f = LIBUS_SOCKET_ERROR then Some (NULL, u\<lparr>u_heap := do_sys (u_heap u) Freeaddrinfo\<rparr>)
       else do {
         (go_on, u) \<leftarrow> io_bind_source U u f source_host;
         if \<not> go_on then Some (NULL, u)
         else do {
           y \<leftarrow> u_ctxs u c;
           (sqe, u) \<leftarrow> get_sqe U u (uc_loop y);
           u \<leftarrow> set_sqe u (uc_loop y) sqe (\<lambda>q. q\<lparr>sq_op := Some (Prep_connect f (ai_addr result))\<rparr>);
           let (_, u) = ring_call U u (Register_files_update (u_num_sockets u) f);
           u \<leftarrow> set_usock u s (\<lambda>x. x\<lparr>us_dd := u_num_sockets u\<rparr>);
           let u = u\<lparr>u_num_sockets := u_num_sockets u + 1\<rparr>;
           u \<leftarrow> set_sqe u (uc_loop y) sqe (\<lambda>q. q\<lparr>sq_data := Some (tagged s SOCKET_CONNECT)\<rparr>);
           Some (s, u\<lparr>u_heap := do_sys (u_heap u) Freeaddrinfo\<rparr>) } } }) }"

definition io_us_socket_context_connect_unix :: "ptr \<Rightarrow> string \<Rightarrow> ptr" where
  "io_us_socket_context_connect_unix c server_path = NULL"

end
