(* ===== verification/Uring_loop.thy ===== *)
theory Uring_loop
  imports Uring Loop
begin

text \<open>
  The loop of the io_uring build, \<open>io_loop.c\<close>: timers, making a loop, the timer sweep, and the
  dispatch of completions.  \<open>us_loop_run\<close> never returns; \<open>io_us_loop_run n\<close> is the store after its
  first \<open>n\<close> turns.
\<close>

subsection \<open>Timers\<close>

definition io_us_create_timer :: "uenv \<Rightarrow> uring \<Rightarrow> ptr \<Rightarrow> (ptr \<times> uring)" where
  "io_us_create_timer U u l =
     (let t = u_malloc U u;
          (f, u1) = io_sys U u TimerfdCreate
      in if f = -1 then (NULL, u1)
         else (t, u1\<lparr>u_timers := (u_timers u1)(t \<mapsto> \<lparr>ut_loop = l, ut_fd = f\<rparr>)\<rparr>))"

text \<open>Arming the read of the timer, which is done again after each tick.\<close>

definition arm_timer :: "uenv \<Rightarrow> uring \<Rightarrow> ptr \<Rightarrow> ptr \<Rightarrow> uring option" where
  "arm_timer U u l t = do {
     (sqe, u) \<leftarrow> get_sqe U u l;
     x \<leftarrow> u_timers u t;
     u \<leftarrow> set_sqe u l sqe (\<lambda>q. q\<lparr>sq_op := Some (Prep_read (ut_fd x) t 8)\<rparr>);
     set_sqe u l sqe (\<lambda>q. q\<lparr>sq_data := Some (tagged t LOOP_TIMER)\<rparr>) }"

definition io_us_timer_set :: "uenv \<Rightarrow> uring \<Rightarrow> ptr \<Rightarrow> int \<Rightarrow> int \<Rightarrow> uring option" where
  "io_us_timer_set U u t ms repeat_ms = do {
     x \<leftarrow> u_timers u t;
     let (_, u) = io_sys U u (TimerfdSettime (ut_fd x) (repeat_ms sdiv 1000)
       ((repeat_ms smod 1000) * 1000000) (ms sdiv 1000) ((ms smod 1000) * 1000000));
     arm_timer U u (ut_loop x) t }"

definition io_us_timer_close :: "uring \<Rightarrow> ptr \<Rightarrow> uring" where "io_us_timer_close u t = u"

definition io_us_timer_loop :: "uring \<Rightarrow> ptr \<Rightarrow> ptr option" where
  "io_us_timer_loop u t = map_option ut_loop (u_timers u t)"

subsection \<open>Making a loop\<close>

text \<open>The buffer ring of a new loop holds every buffer once.\<close>

definition provide_all :: "buf_op list" where
  "provide_all = Buf_ring_init #
     map (\<lambda>i. Buf_ring_add i MAX_MESSAGE_LEN i i) [0..<4096] @ [Buf_ring_advance 4096]"

definition io_us_create_loop :: "uenv \<Rightarrow> uring \<Rightarrow> (ptr \<times> uring) outcome option" where
  "io_us_create_loop U u = do {
     let l = u_malloc U u;
     let u = u\<lparr>u_loops := (u_loops u)(l \<mapsto> \<lparr>ul_ring = [], ul_buf_ring = [], ul_timer = NULL,
       ul_head = NULL, ul_iterator = NULL\<rparr>)\<rparr>;
     let (t, u) = io_us_create_timer U u l;
     u \<leftarrow> set_uloop u l (\<lambda>z. z\<lparr>ul_timer := t\<rparr>);
     let (r, u) = ring_call U u (Queue_init_params 2048);
     if r < 0 then Some Exited
     else do {
       let (r, u) = ring_call U u (Register_files_sparse 1024);
       if r \<noteq> 0 then Some Exited
       else do {
         let (_, u) = ring_call U u Register_ring_fd;
         let (r, u) = ring_call U u (Register_buf_ring 4096 group_id);
         if r \<noteq> 0 then Some Exited
         else do {
           u \<leftarrow> buf_ring_ops u l provide_all;
           Some (Returned (l, u)) } } } }"

definition io_us_loop_free :: "uring \<Rightarrow> ptr \<Rightarrow> uring" where "io_us_loop_free u l = u"
definition io_us_internal_loop_data_free :: "uring \<Rightarrow> ptr \<Rightarrow> uring" where "io_us_internal_loop_data_free u l = u"
definition io_us_wakeup_loop :: "uring \<Rightarrow> ptr \<Rightarrow> uring" where "io_us_wakeup_loop u l = u"
definition io_us_internal_loop_unlink :: "uring \<Rightarrow> ptr \<Rightarrow> ptr \<Rightarrow> uring" where
  "io_us_internal_loop_unlink u l c = u"
definition io_us_internal_handle_low_priority_sockets :: "uring \<Rightarrow> ptr \<Rightarrow> uring" where
  "io_us_internal_handle_low_priority_sockets u l = u"
definition io_us_internal_free_closed_sockets :: "uring \<Rightarrow> ptr \<Rightarrow> uring" where
  "io_us_internal_free_closed_sockets u l = u"
definition io_us_loop_iteration_number :: "ptr \<Rightarrow> int" where "io_us_loop_iteration_number l = 0"
definition io_us_internal_loop_pre :: "uring \<Rightarrow> ptr \<Rightarrow> uring" where "io_us_internal_loop_pre u l = u"
definition io_us_internal_loop_post :: "uring \<Rightarrow> ptr \<Rightarrow> uring" where "io_us_internal_loop_post u l = u"
definition io_us_loop_integrate :: "uring \<Rightarrow> ptr \<Rightarrow> uring" where "io_us_loop_integrate u l = u"

subsection \<open>The timer sweep\<close>

partial_function (option) io_sweep_seek :: "uring \<Rightarrow> u8 \<Rightarrow> u8 \<Rightarrow> ptr \<Rightarrow> ptr option" where
  "io_sweep_seek u short_ticks long_ticks s = do {
     x \<leftarrow> u_socks u s;
     if short_ticks = us_timeout x \<or> long_ticks = us_long_timeout x then Some s
     else if us_next x = NULL then Some NULL
     else io_sweep_seek u short_ticks long_ticks (us_next x) }"

definition io_sweep_emit :: "uenv \<Rightarrow> uring \<Rightarrow> ptr \<Rightarrow> u8 \<Rightarrow> u8 \<Rightarrow> ptr \<Rightarrow> uring outcome option" where
  "io_sweep_emit U u c short_ticks long_ticks s = do {
     u \<leftarrow> set_uctx u c (\<lambda>y. y\<lparr>uc_iterator := s\<rparr>);
     x \<leftarrow> u_socks u s;
     and_then
       (if short_ticks = us_timeout x then do {
          u \<leftarrow> set_usock u s (\<lambda>x. x\<lparr>us_timeout := 255\<rparr>);
          y \<leftarrow> u_ctxs u c;
          io_call U (uc_on_socket_timeout y) (IoTimeout s) u }
        else Some (Returned u))
       (\<lambda>u. do {
          y \<leftarrow> u_ctxs u c;
          if uc_iterator y = s then do {
            x \<leftarrow> u_socks u s;
            if long_ticks = us_long_timeout x then do {
              u \<leftarrow> set_usock u s (\<lambda>x. x\<lparr>us_long_timeout := 255\<rparr>);
              y \<leftarrow> u_ctxs u c;
              io_call U (uc_on_socket_long_timeout y) (IoLongTimeout s) u }
            else Some (Returned u) }
          else Some (Returned u) }) }"

partial_function (option) io_sweep_sockets ::
  "uenv \<Rightarrow> uring \<Rightarrow> ptr \<Rightarrow> u8 \<Rightarrow> u8 \<Rightarrow> ptr \<Rightarrow> uring outcome option" where
  "io_sweep_sockets U u c short_ticks long_ticks s =
     (if s = NULL then Some (Returned u)
      else do {
        s \<leftarrow> io_sweep_seek u short_ticks long_ticks s;
        if s = NULL then Some (Returned u)
        else and_then (io_sweep_emit U u c short_ticks long_ticks s) (\<lambda>u. do {
          y \<leftarrow> u_ctxs u c;
          if s = uc_iterator y then do {
            x \<leftarrow> u_socks u s;
            io_sweep_sockets U u c short_ticks long_ticks (us_next x) }
          else io_sweep_sockets U u c short_ticks long_ticks (uc_iterator y) }) })"

definition io_sweep_tick :: "io_us_socket_context_t \<Rightarrow> io_us_socket_context_t" where
  "io_sweep_tick y = (let t = uc_global_tick y + 1 in
     y\<lparr>uc_global_tick := t, uc_timestamp := ucast (t mod 240), uc_long_timestamp := ucast ((t div 15) mod 240)\<rparr>)"

definition io_sweep_context :: "uenv \<Rightarrow> uring \<Rightarrow> ptr \<Rightarrow> uring outcome option" where
  "io_sweep_context U u c = do {
     u \<leftarrow> set_uctx u c io_sweep_tick;
     y \<leftarrow> u_ctxs u c;
     and_then (io_sweep_sockets U u c (uc_timestamp y) (uc_long_timestamp y) (uc_head_sockets y))
       (\<lambda>u. map_option Returned (set_uctx u c (\<lambda>y. y\<lparr>uc_iterator := NULL\<rparr>))) }"

partial_function (option) io_sweep_contexts :: "uenv \<Rightarrow> uring \<Rightarrow> ptr \<Rightarrow> uring outcome option" where
  "io_sweep_contexts U u l = do {
     lp \<leftarrow> u_loops u l;
     if ul_iterator lp = NULL then Some (Returned u)
     else and_then (io_sweep_context U u (ul_iterator lp)) (\<lambda>u. do {
       lp \<leftarrow> u_loops u l;
       y \<leftarrow> u_ctxs u (ul_iterator lp);
       u \<leftarrow> set_uloop u l (\<lambda>z. z\<lparr>ul_iterator := uc_next y\<rparr>);
       io_sweep_contexts U u l }) }"

definition io_us_internal_timer_sweep :: "uenv \<Rightarrow> uring \<Rightarrow> ptr \<Rightarrow> uring outcome option" where
  "io_us_internal_timer_sweep U u l = do {
     u \<leftarrow> set_uloop u l (\<lambda>z. z\<lparr>ul_iterator := ul_head z\<rparr>);
     io_sweep_contexts U u l }"

subsection \<open>Completions\<close>

text \<open>Reading with a buffer of the ring: the entry for a socket whose descriptor is registered.\<close>

definition start_reading :: "uenv \<Rightarrow> uring \<Rightarrow> ptr \<Rightarrow> ptr \<Rightarrow> uring option" where
  "start_reading U u l s = do {
     (sqe, u) \<leftarrow> get_sqe U u l;
     x \<leftarrow> u_socks u s;
     u \<leftarrow> set_sqe u l sqe (\<lambda>q. q\<lparr>sq_op := Some (Recv_multishot (us_dd x) 0)\<rparr>);
     u \<leftarrow> set_sqe u l sqe (\<lambda>q. q\<lparr>sq_flags := Some (IOSQE_BUFFER_SELECT OR IOSQE_FIXED_FILE)\<rparr>);
     u \<leftarrow> set_sqe u l sqe (\<lambda>q. q\<lparr>sq_buf_group := Some group_id\<rparr>);
     set_sqe u l sqe (\<lambda>q. q\<lparr>sq_data := Some (tagged s SOCKET_READ)\<rparr>) }"

definition emit_open :: "uenv \<Rightarrow> uring \<Rightarrow> ptr \<Rightarrow> uring outcome option" where
  "emit_open U u s = do {
     x \<leftarrow> u_socks u s;
     y \<leftarrow> u_ctxs u (us_ctx x);
     io_call U (uc_on_open y) (IoOpen s 1) u }"

definition complete_accept :: "uenv \<Rightarrow> uring \<Rightarrow> ptr \<Rightarrow> ptr \<Rightarrow> int \<Rightarrow> uring outcome option" where
  "complete_accept U u l ls res = do {
     x \<leftarrow> u_listens u ls;
     let s = u_malloc U u;
     let u = u\<lparr>u_socks := (u_socks u)(s \<mapsto> (u_sock_garbage U u)\<lparr>us_ctx := uls_context x, us_dd := res,
       us_timeout := 255, us_long_timeout := 255, us_prev := NULL, us_next := NULL\<rparr>)\<rparr>;
     u \<leftarrow> io_us_internal_socket_context_link_socket u (uls_context x) s;
     u \<leftarrow> (if 0 \<le> res then start_reading U u l s else Some u);
     emit_open U u s }"

text \<open>The buffer a completion names goes back to the ring.\<close>

definition buffer_id :: "cqe \<Rightarrow> nat" where
  "buffer_id q = unat (drop_bit 16 (cq_flags q))"

definition return_buffer :: "uring \<Rightarrow> ptr \<Rightarrow> nat \<Rightarrow> uring option" where
  "return_buffer u l bid =
     (if bid < BUFFERS_COUNT then buf_ring_ops u l [Buf_ring_add bid MAX_MESSAGE_LEN bid 0, Tail_increment]
      else None)"

definition complete_read :: "uenv \<Rightarrow> uring \<Rightarrow> ptr \<Rightarrow> ptr \<Rightarrow> cqe \<Rightarrow> uring outcome option" where
  "complete_read U u l s q =
     (if cq_res q \<le> 0 then do {
        u \<leftarrow> return_buffer u l (buffer_id q);
        (sqe, u) \<leftarrow> get_sqe U u l;
        x \<leftarrow> u_socks u s;
        y \<leftarrow> u_ctxs u (us_ctx x);
        and_then (io_call U (uc_on_close y) (IoClose s 0 NULL) u) (\<lambda>u. do {
          x \<leftarrow> u_socks u s;
          u \<leftarrow> set_sqe u l sqe (\<lambda>q. q\<lparr>sq_op := Some (Close_direct (us_dd x))\<rparr>);
          u \<leftarrow> set_sqe u l sqe (\<lambda>q. q\<lparr>sq_flags := Some IOSQE_CQE_SKIP_SUCCESS\<rparr>);
          map_option Returned (set_sqe u l sqe (\<lambda>q. q\<lparr>sq_data := Some CQE_NO_DATA\<rparr>)) }) }
      else if buffer_id q < length (u_bufs u) then do {
        x \<leftarrow> u_socks u s;
        y \<leftarrow> u_ctxs u (us_ctx x);
        and_then (io_call U (uc_on_data y) (IoData s (take (nat (cq_res q)) (u_bufs u ! buffer_id q))) u)
          (\<lambda>u. map_option Returned (return_buffer u l (buffer_id q))) }
      else None)"

definition complete_connect :: "uenv \<Rightarrow> uring \<Rightarrow> ptr \<Rightarrow> ptr \<Rightarrow> uring outcome option" where
  "complete_connect U u l s = do {
     u \<leftarrow> start_reading U u l s;
     emit_open U u s }"

definition complete_timer :: "uenv \<Rightarrow> uring \<Rightarrow> ptr \<Rightarrow> ptr \<Rightarrow> uring outcome option" where
  "complete_timer U u l t =
     and_then (io_us_internal_timer_sweep U u l) (\<lambda>u. map_option Returned (arm_timer U u l t))"

definition complete :: "uenv \<Rightarrow> uring \<Rightarrow> ptr \<Rightarrow> cqe \<Rightarrow> uring outcome option" where
  "complete U u l q =
     (let tag = pointer_tag (cq_data q); object = object_of (cq_data q)
      in if tag = 6 then Some Exited
         else if cq_res q = - ENOBUFS then Some Exited
         else if tag = LISTEN_SOCKET_ACCEPT then complete_accept U u l object (cq_res q)
         else if tag = SOCKET_READ then complete_read U u l object q
         else if tag = SOCKET_WRITE then Some (Returned u)
         else if tag = SOCKET_CONNECT then complete_connect U u l object
         else if tag = LOOP_TIMER then complete_timer U u l object
         else Some (Returned u))"

fun complete_all :: "uenv \<Rightarrow> uring \<Rightarrow> ptr \<Rightarrow> cqe list \<Rightarrow> uring outcome option" where
  "complete_all U u l [] = Some (Returned u)"
| "complete_all U u l (q # qs) = and_then (complete U u l q) (\<lambda>u. complete_all U u l qs)"

text \<open>
  One turn: everything queued is submitted, the kernel fills buffers and posts completions, and they
  are handled in order.
\<close>

definition io_turn :: "uenv \<Rightarrow> uring \<Rightarrow> ptr \<Rightarrow> uring outcome option" where
  "io_turn U u l = do {
     lp \<leftarrow> u_loops u l;
     let (_, u) = ring_call U u (Submit_and_wait (ul_ring lp));
     u \<leftarrow> set_uloop u l (\<lambda>z. z\<lparr>ul_ring := []\<rparr>);
     let qs = u_cqes U u;
     let u = u\<lparr>u_bufs := u_fill U u\<rparr>;
     and_then (complete_all U u l qs)
       (\<lambda>u. Some (Returned (snd (ring_call U u (Cq_advance (length qs)))))) }"

primrec io_turns :: "nat \<Rightarrow> uenv \<Rightarrow> uring \<Rightarrow> ptr \<Rightarrow> uring outcome option" where
  "io_turns 0 U u l = Some (Returned u)"
| "io_turns (Suc n) U u l = and_then (io_turn U u l) (\<lambda>u. io_turns n U u l)"

definition io_us_loop_run :: "nat \<Rightarrow> uenv \<Rightarrow> uring \<Rightarrow> ptr \<Rightarrow> uring outcome option" where
  "io_us_loop_run n U u l = do {
     lp \<leftarrow> u_loops u l;
     u \<leftarrow> io_us_timer_set U u (ul_timer lp) (LIBUS_TIMEOUT_GRANULARITY * 1000)
       (LIBUS_TIMEOUT_GRANULARITY * 1000);
     io_turns n U u l }"

end
