(* ===== verification/Uring_inv.thy ===== *)
theory Uring_inv
  imports Uring_loop
begin

text \<open>
  What holds of the store of the io_uring build between completions, what the library relies on of
  the handlers of the application, and the lemmas that carry both through the timer sweep.

  No object is ever freed and lists only grow at their heads in this build, so a step is described by
  \<open>grows\<close>: every object is still there, with the same successor in its list.  A handler must leave the
  iterators and the buffer ring alone as well (\<open>extends\<close>).
\<close>

subsection \<open>Steps that keep objects\<close>

definition kept :: "('k \<rightharpoonup> 'v) \<Rightarrow> ('k \<rightharpoonup> 'v) \<Rightarrow> ('v \<Rightarrow> 'v \<Rightarrow> bool) \<Rightarrow> bool" where
  "kept m m' R \<longleftrightarrow> (\<forall>k v. m k = Some v \<longrightarrow> (\<exists>v'. m' k = Some v' \<and> R v v'))"

lemma kept_refl: "(\<And>v. R v v) \<Longrightarrow> kept m m R"
  by (simp add: kept_def)

lemma kept_trans:
  assumes "kept m m' R" "kept m' m'' R" "\<And>a b c. R a b \<Longrightarrow> R b c \<Longrightarrow> R a c"
  shows "kept m m'' R"
  using assms unfolding kept_def by metis

lemma kept_upd: "m k = Some v \<Longrightarrow> R v w \<Longrightarrow> (\<And>v. R v v) \<Longrightarrow> kept m (m(k \<mapsto> w)) R"
  by (simp add: kept_def)

lemma kept_new: "m k = None \<Longrightarrow> (\<And>v. R v v) \<Longrightarrow> kept m (m(k \<mapsto> w)) R"
  by (auto simp: kept_def)

lemma keptD: "kept m m' R \<Longrightarrow> m k = Some v \<Longrightarrow> \<exists>v'. m' k = Some v' \<and> R v v'"
  by (simp add: kept_def)

definition same_next :: "io_us_socket_t \<Rightarrow> io_us_socket_t \<Rightarrow> bool" where
  "same_next x x' \<longleftrightarrow> us_next x' = us_next x"

definition same_cnext :: "io_us_socket_context_t \<Rightarrow> io_us_socket_context_t \<Rightarrow> bool" where
  "same_cnext y y' \<longleftrightarrow> uc_next y' = uc_next y"

definition same_citerator :: "io_us_socket_context_t \<Rightarrow> io_us_socket_context_t \<Rightarrow> bool" where
  "same_citerator y y' \<longleftrightarrow> uc_iterator y' = uc_iterator y"

definition ring_longer :: "io_us_loop_t \<Rightarrow> io_us_loop_t \<Rightarrow> bool" where
  "ring_longer z z' \<longleftrightarrow> length (ul_ring z) \<le> length (ul_ring z')"

definition same_lbufs :: "io_us_loop_t \<Rightarrow> io_us_loop_t \<Rightarrow> bool" where
  "same_lbufs z z' \<longleftrightarrow> ul_buf_ring z' = ul_buf_ring z"

definition same_literator :: "io_us_loop_t \<Rightarrow> io_us_loop_t \<Rightarrow> bool" where
  "same_literator z z' \<longleftrightarrow> ul_iterator z' = ul_iterator z"

lemmas same_defs = same_next_def same_cnext_def same_citerator_def ring_longer_def same_lbufs_def
  same_literator_def

definition grows :: "uring \<Rightarrow> uring \<Rightarrow> bool" where
  "grows u u' \<longleftrightarrow> kept (u_socks u) (u_socks u') same_next \<and> kept (u_ctxs u) (u_ctxs u') same_cnext \<and>
     kept (u_loops u) (u_loops u') ring_longer \<and> kept (u_listens u) (u_listens u') (\<lambda>_ _. True) \<and>
     kept (u_timers u) (u_timers u') (\<lambda>_ _. True) \<and> u_bufs u' = u_bufs u"

definition same_bufs :: "uring \<Rightarrow> uring \<Rightarrow> bool" where
  "same_bufs u u' \<longleftrightarrow> kept (u_loops u) (u_loops u') same_lbufs"

definition same_iterator :: "ptr \<Rightarrow> uring \<Rightarrow> uring \<Rightarrow> bool" where
  "same_iterator c u u' \<longleftrightarrow> (\<forall>y. u_ctxs u c = Some y \<longrightarrow> (\<exists>y'. u_ctxs u' c = Some y' \<and> same_citerator y y'))"

definition same_iterators :: "uring \<Rightarrow> uring \<Rightarrow> bool" where
  "same_iterators u u' \<longleftrightarrow> kept (u_loops u) (u_loops u') same_literator"

definition extends :: "uring \<Rightarrow> uring \<Rightarrow> bool" where
  "extends u u' \<longleftrightarrow> grows u u' \<and> same_bufs u u' \<and> (\<forall>c. same_iterator c u u') \<and> same_iterators u u'"

lemma grows_refl [simp]: "grows u u"
  by (simp add: grows_def kept_refl same_defs)

lemma same_refl [simp]: "same_bufs u u" "same_iterator c u u" "same_iterators u u" "extends u u"
  by (simp_all add: same_bufs_def same_iterator_def same_iterators_def extends_def kept_refl same_defs)

lemma kept_same_trans:
  "kept m m' same_next \<Longrightarrow> kept m' m'' same_next \<Longrightarrow> kept m m'' same_next"
  "kept n n' same_cnext \<Longrightarrow> kept n' n'' same_cnext \<Longrightarrow> kept n n'' same_cnext"
  "kept l l' ring_longer \<Longrightarrow> kept l' l'' ring_longer \<Longrightarrow> kept l l'' ring_longer"
  "kept k k' (\<lambda>_ _. True) \<Longrightarrow> kept k' k'' (\<lambda>_ _. True) \<Longrightarrow> kept k k'' (\<lambda>_ _. True)"
  by (rule kept_trans, assumption, assumption, simp add: same_defs)+

lemma grows_trans [trans]: "grows a b \<Longrightarrow> grows b c \<Longrightarrow> grows a c"
  unfolding grows_def by (auto intro: kept_same_trans)

lemma same_bufs_trans: "same_bufs a b \<Longrightarrow> same_bufs b c \<Longrightarrow> same_bufs a c"
  unfolding same_bufs_def by (rule kept_trans) (auto simp: same_defs)

lemma same_iterators_trans: "same_iterators a b \<Longrightarrow> same_iterators b c \<Longrightarrow> same_iterators a c"
  unfolding same_iterators_def by (rule kept_trans) (auto simp: same_defs)

lemma same_iterator_trans: "same_iterator p a b \<Longrightarrow> same_iterator p b c \<Longrightarrow> same_iterator p a c"
  unfolding same_iterator_def same_citerator_def by metis

lemma extends_trans: "extends a b \<Longrightarrow> extends b c \<Longrightarrow> extends a c"
  unfolding extends_def
  using grows_trans same_bufs_trans same_iterators_trans same_iterator_trans by blast

subsection \<open>The invariant\<close>

abbreviation u_snx :: "uring \<Rightarrow> ptr \<rightharpoonup> ptr" where "u_snx u \<equiv> \<lambda>p. map_option us_next (u_socks u p)"
abbreviation u_cnx :: "uring \<Rightarrow> ptr \<rightharpoonup> ptr" where "u_cnx u \<equiv> \<lambda>p. map_option uc_next (u_ctxs u p)"

definition callbacks_set :: "io_us_socket_context_t \<Rightarrow> bool" where
  "callbacks_set y \<longleftrightarrow> uc_on_open y \<noteq> None \<and> uc_on_data y \<noteq> None \<and> uc_on_close y \<noteq> None \<and>
     uc_on_socket_timeout y \<noteq> None \<and> uc_on_socket_long_timeout y \<noteq> None"

definition in_list :: "(ptr \<rightharpoonup> ptr) \<Rightarrow> ptr \<Rightarrow> bool" where
  "in_list nx p \<longleftrightarrow> (\<exists>xs. sll nx p xs)"

definition sock_ok :: "uring \<Rightarrow> ptr \<Rightarrow> io_us_socket_t \<Rightarrow> bool" where
  "sock_ok u s x \<longleftrightarrow> s \<noteq> NULL \<and> us_ctx x \<in> dom (u_ctxs u) \<and> in_list (u_snx u) s"

definition ctx_ok :: "uring \<Rightarrow> ptr \<Rightarrow> io_us_socket_context_t \<Rightarrow> bool" where
  "ctx_ok u c y \<longleftrightarrow> c \<noteq> NULL \<and> uc_loop y \<in> dom (u_loops u) \<and>
     (uc_head_sockets y = NULL \<or> uc_head_sockets y \<in> dom (u_socks u)) \<and> in_list (u_cnx u) c \<and> callbacks_set y"

definition io_allocated :: "uring \<Rightarrow> ptr set" where
  "io_allocated u = dom (u_socks u) \<union> dom (u_ctxs u) \<union> dom (u_loops u) \<union> dom (u_listens u) \<union> dom (u_timers u)"

definition io_inv :: "uring \<Rightarrow> bool" where
  "io_inv u \<longleftrightarrow> finite (io_allocated u) \<and> (\<forall>s x. u_socks u s = Some x \<longrightarrow> sock_ok u s x) \<and>
     (\<forall>c y. u_ctxs u c = Some y \<longrightarrow> ctx_ok u c y) \<and>
     (\<forall>l z. u_loops u l = Some z \<longrightarrow> ul_head z = NULL \<or> ul_head z \<in> dom (u_ctxs u)) \<and>
     (\<forall>ls x. u_listens u ls = Some x \<longrightarrow> uls_context x \<in> dom (u_ctxs u))"

text \<open>The invariant looks at these fields only.\<close>

definition sock_view :: "io_us_socket_t \<Rightarrow> ptr \<times> ptr" where
  "sock_view x = (us_ctx x, us_next x)"

definition ctx_view :: "io_us_socket_context_t \<Rightarrow> ptr \<times> ptr \<times> ptr \<times> bool" where
  "ctx_view y = (uc_loop y, uc_head_sockets y, uc_next y, callbacks_set y)"

lemma sock_view_next:
  assumes "\<And>p. map_option sock_view (m' p) = map_option sock_view (m p)"
  shows "map_option us_next (m' p) = map_option us_next (m p)" "m' p = None \<longleftrightarrow> m p = None"
proof -
  have *: "map_option us_next r = map_option snd (map_option sock_view r)" for r
    by (cases r) (simp_all add: sock_view_def)
  show "map_option us_next (m' p) = map_option us_next (m p)" by (simp add: * assms)
  show "m' p = None \<longleftrightarrow> m p = None" using assms [of p] by (metis map_option_is_None)
qed

lemma ctx_view_next:
  assumes "\<And>p. map_option ctx_view (m' p) = map_option ctx_view (m p)"
  shows "map_option uc_next (m' p) = map_option uc_next (m p)" "m' p = None \<longleftrightarrow> m p = None"
proof -
  have *: "map_option uc_next r = map_option (fst \<circ> snd \<circ> snd) (map_option ctx_view r)" for r
    by (cases r) (simp_all add: ctx_view_def)
  show "map_option uc_next (m' p) = map_option uc_next (m p)" by (simp add: * assms)
  show "m' p = None \<longleftrightarrow> m p = None" using assms [of p] by (metis map_option_is_None)
qed

lemma io_inv_views:
  assumes "io_inv u"
    and s: "\<And>p. map_option sock_view (u_socks u' p) = map_option sock_view (u_socks u p)"
    and c: "\<And>p. map_option ctx_view (u_ctxs u' p) = map_option ctx_view (u_ctxs u p)"
    and l: "\<And>p. map_option ul_head (u_loops u' p) = map_option ul_head (u_loops u p)"
    and ls: "u_listens u' = u_listens u" and t: "dom (u_timers u') = dom (u_timers u)"
  shows "io_inv u'"
proof -
  have "(u_loops u' p = None) = (u_loops u p = None)" for p
    using l [of p] by (metis map_option_is_None)
  then have d: "dom (u_socks u') = dom (u_socks u)" "dom (u_ctxs u') = dom (u_ctxs u)"
      "dom (u_loops u') = dom (u_loops u)"
    using sock_view_next(2) [of "u_socks u'" "u_socks u", OF s] ctx_view_next(2) [of "u_ctxs u'" "u_ctxs u", OF c]
    by (simp_all add: dom_def)
  have n: "u_snx u' = u_snx u" "u_cnx u' = u_cnx u"
    by (rule ext, rule sock_view_next, rule s) (rule ext, rule ctx_view_next, rule c)
  have S: "sock_ok u' p x'" if at: "u_socks u' p = Some x'" for p x'
  proof -
    obtain x where x: "u_socks u p = Some x" "sock_view x = sock_view x'"
      using at s [of p] by (cases "u_socks u p") auto
    then have "sock_ok u p x" using assms(1) by (simp add: io_inv_def)
    with x(2) show ?thesis by (simp add: sock_ok_def sock_view_def d n)
  qed
  have C: "ctx_ok u' p y'" if at: "u_ctxs u' p = Some y'" for p y'
  proof -
    obtain y where y: "u_ctxs u p = Some y" "ctx_view y = ctx_view y'"
      using at c [of p] by (cases "u_ctxs u p") auto
    then have "ctx_ok u p y" using assms(1) by (simp add: io_inv_def)
    with y(2) show ?thesis by (simp add: ctx_ok_def ctx_view_def d n)
  qed
  have L: "ul_head z' = NULL \<or> ul_head z' \<in> dom (u_ctxs u')" if at: "u_loops u' p = Some z'" for p z'
  proof -
    obtain z where z: "u_loops u p = Some z" "ul_head z = ul_head z'"
      using at l [of p] by (cases "u_loops u p") auto
    then have "ul_head z = NULL \<or> ul_head z \<in> dom (u_ctxs u)" using assms(1) unfolding io_inv_def by blast
    with z(2) show ?thesis by (simp add: d)
  qed
  have "io_allocated u' = io_allocated u" by (simp add: io_allocated_def d ls t)
  then show ?thesis
    using S C L assms(1) unfolding io_inv_def by (simp add: d ls)
qed

subsection \<open>Results\<close>

text \<open>The result is a store with the property, or the process has ended.\<close>

definition returns :: "(uring \<Rightarrow> bool) \<Rightarrow> uring outcome option \<Rightarrow> bool" where
  "returns P r \<longleftrightarrow> (\<exists>x. r = Some x \<and> (\<forall>u. x = Returned u \<longrightarrow> P u))"

lemma returns_simps [simp]:
  "returns P (Some (Returned u)) \<longleftrightarrow> P u"
  "returns P (Some Exited)"
  "\<not> returns P None"
  by (simp_all add: returns_def)

lemma returns_mono: "returns P r \<Longrightarrow> (\<And>u. P u \<Longrightarrow> Q u) \<Longrightarrow> returns Q r"
  by (auto simp: returns_def)

lemma returns_and_then:
  assumes "returns P r" "\<And>u. P u \<Longrightarrow> returns Q (k u)"
  shows "returns Q (and_then r k)"
proof -
  from assms(1) obtain x where x: "r = Some x" "\<And>u. x = Returned u \<Longrightarrow> P u" by (auto simp: returns_def)
  show ?thesis using x assms(2) by (cases x) auto
qed

subsection \<open>What the library relies on\<close>

text \<open>
  The allocator hands out addresses that are not in use, the submission queue has room, and a handler
  that is told of an object there keeps the invariant, the iterators and the buffer ring.
\<close>

definition io_malloc_ok :: "uenv \<Rightarrow> bool" where
  "io_malloc_ok U \<longleftrightarrow> (\<forall>u. finite (io_allocated u) \<longrightarrow> u_malloc U u \<noteq> NULL \<and> u_malloc U u \<notin> io_allocated u)"

definition queue_has_room :: "uenv \<Rightarrow> bool" where
  "queue_has_room U \<longleftrightarrow> (\<forall>u l. u_sq_room U u l)"

fun io_event_sock :: "io_event \<Rightarrow> ptr" where
  "io_event_sock (IoOpen s i) = s"
| "io_event_sock (IoData s bs) = s"
| "io_event_sock (IoClose s c r) = s"
| "io_event_sock (IoTimeout s) = s"
| "io_event_sock (IoLongTimeout s) = s"

definition handlers_ok :: "uenv \<Rightarrow> bool" where
  "handlers_ok U \<longleftrightarrow> (\<forall>n ev u. io_inv u \<longrightarrow> io_event_sock ev \<in> dom (u_socks u) \<longrightarrow>
     returns (\<lambda>u'. io_inv u' \<and> extends u u') (u_callback U n ev u))"

definition io_env_ok :: "uenv \<Rightarrow> bool" where
  "io_env_ok U \<longleftrightarrow> io_malloc_ok U \<and> queue_has_room U \<and> handlers_ok U"

subsection \<open>Single steps\<close>

lemma view_upd:
  "m p = Some v \<Longrightarrow> f w = f v \<Longrightarrow> map_option f ((m(p \<mapsto> w)) q) = map_option f (m q)"
  by simp

lemma set_usock_inv:
  assumes "io_inv u" "u_socks u s = Some x" "sock_view (f x) = sock_view x"
  shows "\<exists>u'. set_usock u s f = Some u' \<and> u' = u\<lparr>u_socks := (u_socks u)(s \<mapsto> f x)\<rparr> \<and> io_inv u' \<and> extends u u'"
proof -
  let ?u = "u\<lparr>u_socks := (u_socks u)(s \<mapsto> f x)\<rparr>"
  have "us_next (f x) = us_next x" using assms(3) by (simp add: sock_view_def)
  then have "extends u ?u"
    using assms(2) by (simp add: extends_def grows_def same_bufs_def same_iterator_def same_iterators_def
        kept_refl kept_upd same_defs)
  moreover have "io_inv ?u"
    using assms by (intro io_inv_views [OF assms(1)]) (simp_all add: view_upd)
  ultimately show ?thesis using assms(2) by (simp add: set_usock_def)
qed

definition io_swept :: "uring \<Rightarrow> uring \<Rightarrow> bool" where
  "io_swept u u' \<longleftrightarrow> grows u u' \<and> same_bufs u u' \<and> same_iterators u u'"

lemma io_swept_refl [simp]: "io_swept u u"
  by (simp add: io_swept_def)

lemma io_swept_trans: "io_swept a b \<Longrightarrow> io_swept b c \<Longrightarrow> io_swept a c"
  unfolding io_swept_def using grows_trans same_bufs_trans same_iterators_trans by blast

lemma extends_swept: "extends a b \<Longrightarrow> io_swept a b"
  by (simp add: extends_def io_swept_def)

lemma extends_iterator: "extends a b \<Longrightarrow> same_iterator c a b"
  by (simp add: extends_def)

lemma set_uctx_inv:
  assumes "io_inv u" "u_ctxs u c = Some y" "ctx_view (f y) = ctx_view y"
  shows "\<exists>u'. set_uctx u c f = Some u' \<and> u' = u\<lparr>u_ctxs := (u_ctxs u)(c \<mapsto> f y)\<rparr> \<and> io_inv u' \<and> io_swept u u'"
proof -
  let ?u = "u\<lparr>u_ctxs := (u_ctxs u)(c \<mapsto> f y)\<rparr>"
  have "uc_next (f y) = uc_next y" using assms(3) by (simp add: ctx_view_def)
  then have "io_swept u ?u"
    using assms(2) by (simp add: io_swept_def grows_def same_bufs_def same_iterators_def kept_refl kept_upd same_defs)
  moreover have "io_inv ?u"
    using assms by (intro io_inv_views [OF assms(1)]) (simp_all add: view_upd)
  ultimately show ?thesis using assms(2) by (simp add: set_uctx_def)
qed

lemma set_uloop_inv:
  assumes "io_inv u" "u_loops u l = Some z" "ul_head (f z) = ul_head z" "length (ul_ring z) \<le> length (ul_ring (f z))"
  shows "\<exists>u'. set_uloop u l f = Some u' \<and> u' = u\<lparr>u_loops := (u_loops u)(l \<mapsto> f z)\<rparr> \<and> io_inv u' \<and> grows u u'"
proof -
  let ?u = "u\<lparr>u_loops := (u_loops u)(l \<mapsto> f z)\<rparr>"
  have "grows u ?u"
    using assms(2,4) by (simp add: grows_def kept_refl kept_upd same_defs)
  moreover have "io_inv ?u"
    using assms by (intro io_inv_views [OF assms(1)]) (simp_all add: view_upd)
  ultimately show ?thesis using assms(2) by (simp add: set_uloop_def)
qed

lemma same_events:
  "io_inv (u\<lparr>u_events := e\<rparr>) = io_inv u" "extends (u\<lparr>u_events := e\<rparr>) u' = extends u u'"
proof -
  show "io_inv (u\<lparr>u_events := e\<rparr>) = io_inv u"
    by (simp add: io_inv_def sock_ok_def ctx_ok_def io_allocated_def)
  show "extends (u\<lparr>u_events := e\<rparr>) u' = extends u u'"
    by (simp add: extends_def grows_def same_bufs_def same_iterator_def same_iterators_def)
qed

lemma io_call_returns:
  assumes "handlers_ok U" "io_inv u" "f \<noteq> None" "io_event_sock ev \<in> dom (u_socks u)"
  shows "returns (\<lambda>u'. io_inv u' \<and> extends u u') (io_call U f ev u)"
proof -
  from assms(3) obtain n where n: "f = Some n" by auto
  let ?u = "u\<lparr>u_events := u_events u @ [(n, ev)]\<rparr>"
  have "io_inv ?u" "io_event_sock ev \<in> dom (u_socks ?u)" using assms by (simp_all add: same_events)
  then have "returns (\<lambda>u'. io_inv u' \<and> extends ?u u') (u_callback U n ev ?u)"
    using assms(1) unfolding handlers_ok_def by blast
  then show ?thesis by (simp add: io_call_def n same_events)
qed

lemma grows_sock: "grows u u' \<Longrightarrow> u_socks u s = Some x \<Longrightarrow> \<exists>x'. u_socks u' s = Some x' \<and> us_next x' = us_next x"
  unfolding grows_def same_next_def using keptD by fastforce

lemma grows_ctx: "grows u u' \<Longrightarrow> u_ctxs u c = Some y \<Longrightarrow> \<exists>y'. u_ctxs u' c = Some y' \<and> uc_next y' = uc_next y"
  unfolding grows_def same_cnext_def using keptD by fastforce

lemma grows_loop: "grows u u' \<Longrightarrow> u_loops u l = Some z \<Longrightarrow>
    \<exists>z'. u_loops u' l = Some z' \<and> length (ul_ring z) \<le> length (ul_ring z')"
  unfolding grows_def ring_longer_def using keptD by fastforce

lemma grows_sll: "grows u u' \<Longrightarrow> sll (u_snx u) p xs \<Longrightarrow> sll (u_snx u') p xs"
proof (induction xs arbitrary: p)
  case (Cons a xs)
  then obtain x where x: "u_socks u p = Some x" "sll (u_snx u) (us_next x) xs" "p = a" "p \<noteq> NULL" by auto
  obtain x' where "u_socks u' p = Some x'" "us_next x' = us_next x" using grows_sock [OF Cons.prems(1) x(1)] by blast
  with x Cons show ?case by auto
qed simp

lemma grows_csll: "grows u u' \<Longrightarrow> sll (u_cnx u) p xs \<Longrightarrow> sll (u_cnx u') p xs"
proof (induction xs arbitrary: p)
  case (Cons a xs)
  then obtain y where y: "u_ctxs u p = Some y" "sll (u_cnx u) (uc_next y) xs" "p = a" "p \<noteq> NULL" by auto
  obtain y' where "u_ctxs u' p = Some y'" "uc_next y' = uc_next y" using grows_ctx [OF Cons.prems(1) y(1)] by blast
  with y Cons show ?case by auto
qed simp

subsection \<open>The sweep of one list\<close>

lemma io_sweep_seek_total:
  "sll (u_snx u) s xs \<Longrightarrow> s \<noteq> NULL \<Longrightarrow>
   \<exists>r ys. io_sweep_seek u a b s = Some r \<and> sll (u_snx u) r ys \<and> length ys \<le> length xs"
proof (induction xs arbitrary: s)
  case (Cons p xs)
  then obtain x where x: "u_socks u s = Some x" "sll (u_snx u) (us_next x) xs" by auto
  show ?case
  proof (cases "a = us_timeout x \<or> b = us_long_timeout x")
    case True
    then show ?thesis using x Cons.prems by (subst io_sweep_seek.simps) (auto intro!: exI [of _ "p # xs"])
  next
    case False
    show ?thesis
    proof (cases "us_next x = NULL")
      case True
      then show ?thesis using x False by (subst io_sweep_seek.simps) (auto intro!: exI [of _ "[]"])
    next
      case nx: False
      from Cons.IH [OF x(2) nx] obtain r ys where
        "io_sweep_seek u a b (us_next x) = Some r" "sll (u_snx u) r ys" "length ys \<le> length xs" by blast
      then show ?thesis using x False nx
        by (subst io_sweep_seek.simps) (auto intro!: exI [of _ ys])
    qed
  qed
qed simp

lemma ctx_of_inv: "io_inv u \<Longrightarrow> u_ctxs u c = Some y \<Longrightarrow> ctx_ok u c y"
  by (simp add: io_inv_def)

lemma loop_of_inv:
  "io_inv u \<Longrightarrow> u_loops u l = Some z \<Longrightarrow> ul_head z \<noteq> NULL \<Longrightarrow> \<exists>y. u_ctxs u (ul_head z) = Some y"
  unfolding io_inv_def by fastforce

lemma sock_of_inv: "io_inv u \<Longrightarrow> u_socks u s = Some x \<Longrightarrow> sock_ok u s x"
  by (simp add: io_inv_def)

text \<open>The state after emitting the timeouts of a socket: the iterator of the context is that socket.\<close>

definition emitted :: "ptr \<Rightarrow> ptr \<Rightarrow> uring \<Rightarrow> uring \<Rightarrow> bool" where
  "emitted c s u u' \<longleftrightarrow> io_inv u' \<and> io_swept u u' \<and> (\<exists>y. u_ctxs u' c = Some y \<and> uc_iterator y = s)"

lemma emitted_extends: "emitted c s u u1 \<Longrightarrow> io_inv u2 \<Longrightarrow> extends u1 u2 \<Longrightarrow> emitted c s u u2"
  unfolding emitted_def using io_swept_trans extends_swept extends_iterator
  unfolding same_iterator_def same_citerator_def by metis

lemma emit_one:
  assumes "handlers_ok U" "emitted c s u u1" "u_socks u1 s = Some x" "sock_view (g x) = sock_view x"
    and cb: "\<And>y. u_ctxs u1 c = Some y \<Longrightarrow> f y \<noteq> None" and ev: "io_event_sock ev = s"
  shows "returns (emitted c s u)
    (do { u \<leftarrow> set_usock u1 s g; y \<leftarrow> u_ctxs u c; io_call U (f y) ev u })"
proof -
  have inv: "io_inv u1" using assms(2) by (simp add: emitted_def)
  obtain u2 where u2: "set_usock u1 s g = Some u2" "u2 = u1\<lparr>u_socks := (u_socks u1)(s \<mapsto> g x)\<rparr>" "io_inv u2" "extends u1 u2"
    using set_usock_inv [OF inv assms(3), of g] assms(4) by blast
  obtain y where y: "u_ctxs u1 c = Some y" using assms(2) by (auto simp: emitted_def)
  then have y2: "u_ctxs u2 c = Some y" by (simp add: u2(2))
  have "returns (\<lambda>u'. io_inv u' \<and> extends u2 u') (io_call U (f y) ev u2)"
    by (rule io_call_returns [OF assms(1) u2(3) cb [OF y]]) (simp add: u2(2) ev)
  moreover have "emitted c s u u2" by (rule emitted_extends [OF assms(2) u2(3,4)])
  ultimately have "returns (emitted c s u) (io_call U (f y) ev u2)"
    by (elim returns_mono) (blast intro: emitted_extends)
  then show ?thesis by (simp add: u2(1) y2)
qed

lemma io_sweep_emit_total:
  assumes "handlers_ok U" "io_inv u" "u_socks u s = Some x" "u_ctxs u c = Some y"
  shows "returns (emitted c s u) (io_sweep_emit U u c a b s)"
proof -
  have cb: "uc_on_socket_timeout y' \<noteq> None" "uc_on_socket_long_timeout y' \<noteq> None"
    if "emitted c s u u'" "u_ctxs u' c = Some y'" for u' y'
    using ctx_of_inv [of u' c y'] that by (simp_all add: emitted_def ctx_ok_def callbacks_set_def)
  obtain u1 where u1: "set_uctx u c (\<lambda>y. y\<lparr>uc_iterator := s\<rparr>) = Some u1"
      "u1 = u\<lparr>u_ctxs := (u_ctxs u)(c \<mapsto> y\<lparr>uc_iterator := s\<rparr>)\<rparr>" "io_inv u1" "io_swept u u1"
    using set_uctx_inv [OF assms(2,4), of "\<lambda>y. y\<lparr>uc_iterator := s\<rparr>"]
    by (auto simp: ctx_view_def callbacks_set_def)
  have em: "emitted c s u u1" using u1 by (simp add: emitted_def)
  have x1: "u_socks u1 s = Some x" using assms(3) by (simp add: u1(2))
  have first: "returns (emitted c s u)
      (if a = us_timeout x then do {
         u \<leftarrow> set_usock u1 s (\<lambda>x. x\<lparr>us_timeout := 255\<rparr>);
         y \<leftarrow> u_ctxs u c;
         io_call U (uc_on_socket_timeout y) (IoTimeout s) u }
       else Some (Returned u1))"
    using emit_one [OF assms(1) em x1, where g = "\<lambda>x. x\<lparr>us_timeout := 255\<rparr>" and f = uc_on_socket_timeout
        and ev = "IoTimeout s"] cb(1) [OF em] em by (simp add: sock_view_def)
  have second: "returns (emitted c s u) (do {
      y \<leftarrow> u_ctxs u2 c;
      if uc_iterator y = s then do {
        x \<leftarrow> u_socks u2 s;
        if b = us_long_timeout x then do {
          u \<leftarrow> set_usock u2 s (\<lambda>x. x\<lparr>us_long_timeout := 255\<rparr>);
          y \<leftarrow> u_ctxs u c;
          io_call U (uc_on_socket_long_timeout y) (IoLongTimeout s) u }
        else Some (Returned u2) }
      else Some (Returned u2) })" if em2: "emitted c s u u2" for u2
  proof -
    obtain y2 where y2: "u_ctxs u2 c = Some y2" "uc_iterator y2 = s" using em2 by (auto simp: emitted_def)
    obtain x2 where x2: "u_socks u2 s = Some x2"
      using grows_sock [of u u2, OF _ assms(3)] em2 by (auto simp: emitted_def io_swept_def)
    show ?thesis
      using emit_one [OF assms(1) em2 x2, where g = "\<lambda>x. x\<lparr>us_long_timeout := 255\<rparr>" and
          f = uc_on_socket_long_timeout and ev = "IoLongTimeout s"] cb(2) [OF em2] em2
      by (simp add: y2 x2 sock_view_def)
  qed
  show ?thesis
    unfolding io_sweep_emit_def u1(1) x1
    by (simp only: Option.bind.bind_lunit x1) (rule returns_and_then [OF first second])
qed

lemma io_sweep_sockets_total:
  assumes "handlers_ok U"
  shows "io_inv u \<Longrightarrow> u_ctxs u c = Some y \<Longrightarrow> sll (u_snx u) s xs \<Longrightarrow>
    returns (\<lambda>u'. io_inv u' \<and> io_swept u u') (io_sweep_sockets U u c a b s)"
proof (induction xs arbitrary: u s y rule: length_induct)
  case (1 xs)
  show ?case
  proof (cases "s = NULL")
    case True
    then show ?thesis using 1 by (subst io_sweep_sockets.simps) simp
  next
    case False
    obtain r ys where seek: "io_sweep_seek u a b s = Some r" "sll (u_snx u) r ys" "length ys \<le> length xs"
      using io_sweep_seek_total [OF 1(4) False] by blast
    show ?thesis
    proof (cases "r = NULL")
      case True
      then show ?thesis using 1 False seek(1) by (subst io_sweep_sockets.simps) simp
    next
      case r: False
      then obtain zs x where x: "ys = r # zs" "u_socks u r = Some x" "sll (u_snx u) (us_next x) zs"
        using seek(2) by (cases ys) auto
      have rest: "returns (\<lambda>u'. io_inv u' \<and> io_swept u u') (do {
          y \<leftarrow> u_ctxs u1 c;
          if r = uc_iterator y then do {
            x \<leftarrow> u_socks u1 r;
            io_sweep_sockets U u1 c a b (us_next x) }
          else io_sweep_sockets U u1 c a b (uc_iterator y) })" if em: "emitted c r u u1" for u1
      proof -
        have g: "grows u u1" "io_swept u u1" "io_inv u1" using em by (simp_all add: emitted_def io_swept_def)
        obtain y1 where y1: "u_ctxs u1 c = Some y1" "uc_iterator y1 = r" using em by (auto simp: emitted_def)
        obtain x1 where x1: "u_socks u1 r = Some x1" "us_next x1 = us_next x" using grows_sock [OF g(1) x(2)] by blast
        have "sll (u_snx u1) (us_next x1) zs" using grows_sll [OF g(1) x(3)] by (simp add: x1(2))
        moreover have "length zs < length xs" using x(1) seek(3) by simp
        ultimately have "returns (\<lambda>u'. io_inv u' \<and> io_swept u1 u') (io_sweep_sockets U u1 c a b (us_next x1))"
          using 1(1) [rule_format, of zs u1 y1 "us_next x1"] g(3) y1(1) by blast
        then show ?thesis using y1 x1(1) g(2) by (auto elim!: returns_mono intro: io_swept_trans)
      qed
      have "returns (\<lambda>u'. io_inv u' \<and> io_swept u u') (and_then (io_sweep_emit U u c a b r) (\<lambda>u1. do {
          y \<leftarrow> u_ctxs u1 c;
          if r = uc_iterator y then do {
            x \<leftarrow> u_socks u1 r;
            io_sweep_sockets U u1 c a b (us_next x) }
          else io_sweep_sockets U u1 c a b (uc_iterator y) }))"
        by (rule returns_and_then [OF io_sweep_emit_total [OF assms 1(2) x(2) 1(3)] rest])
      then show ?thesis using False r seek(1) by (subst io_sweep_sockets.simps) simp
    qed
  qed
qed

lemma io_sweep_context_total:
  assumes "handlers_ok U" "io_inv u" "u_ctxs u c = Some y"
  shows "returns (\<lambda>u'. io_inv u' \<and> io_swept u u') (io_sweep_context U u c)"
proof -
  have cv: "ctx_view (io_sweep_tick y) = ctx_view y"
    by (simp add: ctx_view_def io_sweep_tick_def callbacks_set_def Let_def)
  obtain u1 where u1: "set_uctx u c io_sweep_tick = Some u1"
      "u1 = u\<lparr>u_ctxs := (u_ctxs u)(c \<mapsto> io_sweep_tick y)\<rparr>" "io_inv u1" "io_swept u u1"
    using set_uctx_inv [where f = io_sweep_tick, OF assms(2,3) cv] by blast
  have y1: "u_ctxs u1 c = Some (io_sweep_tick y)" by (simp add: u1(2))
  have "in_list (u_snx u1) (uc_head_sockets (io_sweep_tick y))"
  proof (cases "uc_head_sockets (io_sweep_tick y) = NULL")
    case True
    then have "sll (u_snx u1) (uc_head_sockets (io_sweep_tick y)) []" by simp
    then show ?thesis unfolding in_list_def by blast
  next
    case False
    then show ?thesis using ctx_of_inv [OF u1(3) y1] sock_of_inv [OF u1(3)] by (auto simp: ctx_ok_def sock_ok_def)
  qed
  then obtain xs where xs: "sll (u_snx u1) (uc_head_sockets (io_sweep_tick y)) xs" by (auto simp: in_list_def)
  have last: "returns (\<lambda>u'. io_inv u' \<and> io_swept u u') (map_option Returned (set_uctx u2 c (\<lambda>y. y\<lparr>uc_iterator := NULL\<rparr>)))"
    if u2: "io_inv u2 \<and> io_swept u1 u2" for u2
  proof -
    obtain y2 where y2: "u_ctxs u2 c = Some y2" using grows_ctx [of u1 u2, OF _ y1] u2 by (auto simp: io_swept_def)
    obtain u3 where "set_uctx u2 c (\<lambda>y. y\<lparr>uc_iterator := NULL\<rparr>) = Some u3" "io_inv u3" and s3: "io_swept u2 u3"
      using set_uctx_inv [of u2, OF _ y2, of "\<lambda>y. y\<lparr>uc_iterator := NULL\<rparr>"] u2
      by (auto simp: ctx_view_def callbacks_set_def)
    then show ?thesis using io_swept_trans [OF u1(4) io_swept_trans [OF _ s3]] u2 by simp
  qed
  show ?thesis
    unfolding io_sweep_context_def u1(1)
    by (simp only: Option.bind.bind_lunit y1)
      (rule returns_and_then [OF io_sweep_sockets_total [OF assms(1) u1(3) y1 xs] last])
qed

text \<open>Between two contexts only the loop's iterator changes.\<close>

lemma io_sweep_contexts_total:
  assumes "handlers_ok U"
  shows "io_inv u \<Longrightarrow> u_loops u l = Some z \<Longrightarrow> sll (u_cnx u) (ul_iterator z) cs \<Longrightarrow>
    returns (\<lambda>u'. io_inv u' \<and> grows u u' \<and> same_bufs u u') (io_sweep_contexts U u l)"
proof (induction cs arbitrary: u z)
  case Nil
  then show ?case by (subst io_sweep_contexts.simps) simp
next
  case (Cons c cs)
  then obtain y where y: "u_ctxs u c = Some y" "sll (u_cnx u) (uc_next y) cs" "ul_iterator z = c" "c \<noteq> NULL"
    by auto
  have rest: "returns (\<lambda>u'. io_inv u' \<and> grows u u' \<and> same_bufs u u') (do {
      lp \<leftarrow> u_loops u1 l;
      y \<leftarrow> u_ctxs u1 (ul_iterator lp);
      u \<leftarrow> set_uloop u1 l (\<lambda>z. z\<lparr>ul_iterator := uc_next y\<rparr>);
      io_sweep_contexts U u l })" if u1: "io_inv u1 \<and> io_swept u u1" for u1
  proof -
    have g: "grows u u1" using u1 by (simp add: io_swept_def)
    obtain z1 where z1: "u_loops u1 l = Some z1" "ul_iterator z1 = c"
      using u1 keptD [of "u_loops u" "u_loops u1" same_literator l z] Cons.prems(2) y(3)
      by (auto simp: io_swept_def same_iterators_def same_literator_def)
    obtain y1 where y1: "u_ctxs u1 c = Some y1" "uc_next y1 = uc_next y" using grows_ctx [OF g y(1)] by blast
    let ?f = "\<lambda>z. z\<lparr>ul_iterator := uc_next y1\<rparr>"
    obtain u2 where u2: "set_uloop u1 l ?f = Some u2" "u2 = u1\<lparr>u_loops := (u_loops u1)(l \<mapsto> ?f z1)\<rparr>"
        "io_inv u2" "grows u1 u2"
      using set_uloop_inv [of u1, OF _ z1(1), of ?f] u1 by auto
    have sb: "same_bufs u1 u2" unfolding same_bufs_def u2(2) using z1(1) by (simp add: kept_upd same_lbufs_def)
    have "sll (u_cnx u2) (uc_next y1) cs" using grows_csll [OF g y(2)] by (simp add: u2(2) y1(2))
    then have "returns (\<lambda>u'. io_inv u' \<and> grows u2 u' \<and> same_bufs u2 u') (io_sweep_contexts U u2 l)"
      by (intro Cons.IH [OF u2(3), where z = "?f z1"]) (simp_all add: u2(2))
    moreover have "grows u u2" "same_bufs u u2"
      using grows_trans [OF g u2(4)] same_bufs_trans [OF _ sb, of u] u1 by (simp_all add: io_swept_def)
    ultimately have "returns (\<lambda>u'. io_inv u' \<and> grows u u' \<and> same_bufs u u') (io_sweep_contexts U u2 l)"
      by (elim returns_mono) (blast intro: grows_trans same_bufs_trans)
    then show ?thesis by (simp add: z1 y1(1) u2(1))
  qed
  have "returns (\<lambda>u'. io_inv u' \<and> grows u u' \<and> same_bufs u u') (and_then (io_sweep_context U u c) (\<lambda>u1. do {
      lp \<leftarrow> u_loops u1 l;
      y \<leftarrow> u_ctxs u1 (ul_iterator lp);
      u \<leftarrow> set_uloop u1 l (\<lambda>z. z\<lparr>ul_iterator := uc_next y\<rparr>);
      io_sweep_contexts U u l }))"
    by (rule returns_and_then [OF io_sweep_context_total [OF assms Cons.prems(1) y(1)] rest])
  then show ?case using Cons.prems(2) y(3,4) by (subst io_sweep_contexts.simps) simp
qed

lemma io_timer_sweep_total:
  assumes "handlers_ok U" "io_inv u" "l \<in> dom (u_loops u)"
  shows "returns (\<lambda>u'. io_inv u' \<and> grows u u' \<and> same_bufs u u') (io_us_internal_timer_sweep U u l)"
proof -
  from assms(3) obtain z where z: "u_loops u l = Some z" by auto
  let ?f = "\<lambda>z. z\<lparr>ul_iterator := ul_head z\<rparr>"
  obtain u1 where u1: "set_uloop u l ?f = Some u1" "u1 = u\<lparr>u_loops := (u_loops u)(l \<mapsto> ?f z)\<rparr>"
      "io_inv u1" "grows u u1"
    using set_uloop_inv [OF assms(2) z, of ?f] by auto
  have sb: "same_bufs u u1" unfolding same_bufs_def u1(2) using z by (simp add: kept_upd same_lbufs_def)
  have z1: "u_loops u1 l = Some (?f z)" by (simp add: u1(2))
  obtain cs where cs: "sll (u_cnx u1) (ul_iterator (?f z)) cs"
  proof (cases "ul_head z = NULL")
    case True
    then show ?thesis using that [of "[]"] by simp
  next
    case False
    then obtain y where "u_ctxs u (ul_head z) = Some y" using loop_of_inv [OF assms(2) z] by blast
    then show ?thesis using ctx_of_inv [OF assms(2)] that by (auto simp: u1(2) ctx_ok_def in_list_def)
  qed
  have "returns (\<lambda>u'. io_inv u' \<and> grows u1 u' \<and> same_bufs u1 u') (io_sweep_contexts U u1 l)"
    by (rule io_sweep_contexts_total [OF assms(1) u1(3) z1 cs])
  then have "returns (\<lambda>u'. io_inv u' \<and> grows u u' \<and> same_bufs u u') (io_sweep_contexts U u1 l)"
    by (rule returns_mono) (use u1(4) sb grows_trans same_bufs_trans in blast)
  then show ?thesis by (simp add: io_us_internal_timer_sweep_def u1(1))
qed

end
