(* ===== verification/Completions.thy ===== *)
theory Completions
  imports Uring_inv
begin

text \<open>
  The dispatch of completions in the io_uring build, its connecting and its sending: the lemmas that
  each completion is handled without a fault, and the properties of the build.
\<close>

subsection \<open>Steps that keep the invariant and the buffer ring\<close>

definition calm :: "uring \<Rightarrow> uring \<Rightarrow> bool" where
  "calm u u' \<longleftrightarrow> io_inv u' \<and> grows u u' \<and> same_bufs u u'"

lemma calm_trans: "calm a b \<Longrightarrow> calm b c \<Longrightarrow> calm a c"
  unfolding calm_def using grows_trans same_bufs_trans by blast

lemma extends_calm: "io_inv u' \<Longrightarrow> extends u u' \<Longrightarrow> calm u u'"
  by (simp add: calm_def extends_def)

lemma calmly: "returns (calm a) r \<Longrightarrow> calm b a \<Longrightarrow> returns (calm b) r"
  by (erule returns_mono) (rule calm_trans)

text \<open>A filled entry at the end of the queue.\<close>

definition enqueue :: "uring \<Rightarrow> ptr \<Rightarrow> sqe \<Rightarrow> uring option" where
  "enqueue u l e = set_uloop u l (\<lambda>z. z\<lparr>ul_ring := ul_ring z @ [e]\<rparr>)"

lemma enqueue_calm:
  assumes "io_inv u" "u_loops u l = Some z"
  shows "\<exists>u'. enqueue u l e = Some u' \<and> u' = u\<lparr>u_loops := (u_loops u)(l \<mapsto> z\<lparr>ul_ring := ul_ring z @ [e]\<rparr>)\<rparr> \<and> calm u u'"
proof -
  let ?f = "\<lambda>z. z\<lparr>ul_ring := ul_ring z @ [e]\<rparr>"
  obtain u' where u': "set_uloop u l ?f = Some u'" "u' = u\<lparr>u_loops := (u_loops u)(l \<mapsto> ?f z)\<rparr>" "io_inv u'" "grows u u'"
    using set_uloop_inv [OF assms, of ?f] by auto
  have "same_bufs u u'" unfolding same_bufs_def u'(2) using assms(2) by (simp add: kept_upd same_lbufs_def)
  with u' show ?thesis by (simp add: enqueue_def calm_def)
qed

lemmas sqe_defs = get_sqe_def set_sqe_def set_uloop_def empty_sqe_def

lemma arm_timer_enqueues:
  assumes "queue_has_room U" "u_loops u l = Some z" "u_timers u t = Some x"
  shows "arm_timer U u l t = enqueue u l \<lparr>sq_op = Some (Prep_read (ut_fd x) t 8), sq_flags = None,
    sq_buf_group = None, sq_data = Some (tagged t LOOP_TIMER)\<rparr>"
  using assms by (simp add: arm_timer_def enqueue_def sqe_defs queue_has_room_def)

lemma start_reading_enqueues:
  assumes "queue_has_room U" "u_loops u l = Some z" "u_socks u s = Some x"
  shows "start_reading U u l s = enqueue u l \<lparr>sq_op = Some (Recv_multishot (us_dd x) 0),
    sq_flags = Some (IOSQE_BUFFER_SELECT OR IOSQE_FIXED_FILE), sq_buf_group = Some group_id,
    sq_data = Some (tagged s SOCKET_READ)\<rparr>"
  using assms by (simp add: start_reading_def enqueue_def sqe_defs queue_has_room_def)

subsection \<open>A new socket\<close>

lemma link_new_socket:
  assumes inv: "io_inv u" and s: "s \<noteq> NULL" "u_socks u s = None" and c: "u_ctxs u c = Some y"
  shows "\<exists>u'. io_us_internal_socket_context_link_socket (u\<lparr>u_socks := (u_socks u)(s \<mapsto> x)\<rparr>) c s = Some u' \<and>
    calm u u' \<and> u_socks u' s = Some (x\<lparr>us_ctx := c, us_next := uc_head_sockets y, us_prev := NULL\<rparr>) \<and>
    u_loops u' = u_loops u \<and> u_heap u' = u_heap u \<and> u_ctxs u' = (u_ctxs u)(c \<mapsto> y\<lparr>uc_head_sockets := s\<rparr>)"
proof -
  let ?h = "uc_head_sockets y"
  let ?x = "x\<lparr>us_ctx := c, us_next := ?h, us_prev := NULL\<rparr>"
  have head: "?h = NULL \<or> (\<exists>w. u_socks u ?h = Some w)" "in_list (u_cnx u) c" "callbacks_set y"
      "uc_loop y \<in> dom (u_loops u)" "c \<noteq> NULL"
    using ctx_of_inv [OF inv c] by (auto simp: ctx_ok_def)
  define socks' where "socks' = (if ?h = NULL then (u_socks u)(s \<mapsto> ?x)
    else (u_socks u)(s \<mapsto> ?x, ?h \<mapsto> (the (u_socks u ?h))\<lparr>us_prev := s\<rparr>))"
  let ?u = "u\<lparr>u_socks := socks', u_ctxs := (u_ctxs u)(c \<mapsto> y\<lparr>uc_head_sockets := s\<rparr>)\<rparr>"
  have hs: "?h \<noteq> s" using head(1) s by auto
  have eq: "io_us_internal_socket_context_link_socket (u\<lparr>u_socks := (u_socks u)(s \<mapsto> x)\<rparr>) c s = Some ?u"
    using c head(1) hs by (auto simp: io_us_internal_socket_context_link_socket_def uset_defs socks'_def)
  have at_s: "socks' s = Some ?x" using hs by (simp add: socks'_def)
  have old: "\<exists>w'. socks' p = Some w' \<and> sock_view w' = sock_view w" if "u_socks u p = Some w" for p w
    using that s head(1) by (auto simp: socks'_def sock_view_def)
  have new: "p = s \<or> (\<exists>w. u_socks u p = Some w \<and> sock_view w = sock_view w')" if "socks' p = Some w'" for p w'
    using that head(1) by (auto simp: socks'_def sock_view_def split: if_splits)
  have g: "grows u ?u"
    using old c unfolding grows_def kept_def
    by (auto simp: same_defs sock_view_def)
  have lists: "in_list (u_snx ?u) p" if "in_list (u_snx u) p" for p
    using that grows_sll [OF g] unfolding in_list_def by blast
  have clists: "in_list (u_cnx ?u) p" if "in_list (u_cnx u) p" for p
    using that grows_csll [OF g] unfolding in_list_def by blast
  have in_s: "in_list (u_snx ?u) s"
  proof -
    have "in_list (u_snx u) ?h"
      using head(1) sock_of_inv [OF inv] by (auto simp: sock_ok_def in_list_def)
    then obtain xs where "sll (u_snx ?u) ?h xs" using lists in_list_def by blast
    then have "sll (u_snx ?u) s (s # xs)" using s(1) at_s by simp
    then show ?thesis unfolding in_list_def by blast
  qed
  have S: "sock_ok ?u p w'" if at: "socks' p = Some w'" for p w'
  proof (cases "p = s")
    case True
    then show ?thesis using at at_s s(1) in_s by (auto simp: sock_ok_def)
  next
    case False
    then obtain w where w: "u_socks u p = Some w" "sock_view w = sock_view w'" using new [OF at] False by blast
    then have ok: "sock_ok u p w" using sock_of_inv [OF inv] by blast
    then have "in_list (u_snx ?u) p" using lists by (simp add: sock_ok_def)
    then show ?thesis using ok w(2) by (auto simp: sock_ok_def sock_view_def)
  qed
  have dom_s: "dom (u_socks u) \<subseteq> dom socks'" "dom socks' = insert s (dom (u_socks u))"
    using head(1) by (auto simp: socks'_def)
  have C: "ctx_ok ?u p w'" if "(u_ctxs ?u) p = Some w'" for p w'
  proof (cases "p = c")
    case True
    then show ?thesis using that head clists at_s by (auto simp: ctx_ok_def callbacks_set_def)
  next
    case False
    then have ok: "ctx_ok u p w'" using that ctx_of_inv [OF inv] by simp
    then have "in_list (u_cnx ?u) p" using clists by (simp add: ctx_ok_def)
    then show ?thesis using ok dom_s(1) by (auto simp: ctx_ok_def)
  qed
  have L: "ul_head z = NULL \<or> ul_head z \<in> dom (u_ctxs ?u)" if "u_loops u p = Some z" for p z
    using loop_of_inv [OF inv that] by auto
  have LS: "uls_context w \<in> dom (u_ctxs ?u)" if "u_listens u p = Some w" for p w
    using inv that unfolding io_inv_def by auto
  have "io_allocated ?u \<subseteq> insert s (insert c (io_allocated u))" using dom_s(2) by (auto simp: io_allocated_def)
  moreover have "finite (io_allocated u)" using inv by (simp add: io_inv_def)
  ultimately have "finite (io_allocated ?u)" using finite_subset by blast
  then have "io_inv ?u" unfolding io_inv_def using S C L LS by simp
  then have "calm u ?u" using g by (simp add: calm_def same_bufs_def kept_refl same_defs)
  with eq at_s show ?thesis by auto
qed

subsection \<open>Each completion\<close>

text \<open>A completion is for an object that is there, and one of a read names a buffer.\<close>

definition cqe_ok :: "uring \<Rightarrow> cqe \<Rightarrow> bool" where
  "cqe_ok u q \<longleftrightarrow>
     (pointer_tag (cq_data q) = LISTEN_SOCKET_ACCEPT \<longrightarrow> object_of (cq_data q) \<in> dom (u_listens u)) \<and>
     (pointer_tag (cq_data q) = SOCKET_READ \<longrightarrow>
        object_of (cq_data q) \<in> dom (u_socks u) \<and> buffer_id q < BUFFERS_COUNT) \<and>
     (pointer_tag (cq_data q) = SOCKET_CONNECT \<longrightarrow> object_of (cq_data q) \<in> dom (u_socks u)) \<and>
     (pointer_tag (cq_data q) = LOOP_TIMER \<longrightarrow> object_of (cq_data q) \<in> dom (u_timers u))"

text \<open>What a completion puts back into the buffer ring.\<close>

definition given_back :: "cqe \<Rightarrow> buf_op list" where
  "given_back q = (if pointer_tag (cq_data q) = SOCKET_READ
     then [Buf_ring_add (buffer_id q) MAX_MESSAGE_LEN (buffer_id q) 0, Tail_increment] else [])"

definition bufs_of :: "uring \<Rightarrow> ptr \<Rightarrow> buf_op list" where
  "bufs_of u l = (case u_loops u l of Some z \<Rightarrow> ul_buf_ring z | None \<Rightarrow> [])"

definition handled_cqe :: "ptr \<Rightarrow> buf_op list \<Rightarrow> uring \<Rightarrow> uring \<Rightarrow> bool" where
  "handled_cqe l bs u u' \<longleftrightarrow> io_inv u' \<and> grows u u' \<and> bufs_of u' l = bufs_of u l @ bs"

lemma same_bufs_of: "same_bufs u u' \<Longrightarrow> l \<in> dom (u_loops u) \<Longrightarrow> bufs_of u' l = bufs_of u l"
  using keptD [of "u_loops u" "u_loops u'" same_lbufs l] by (auto simp: same_bufs_def bufs_of_def same_lbufs_def)

lemma calm_handled: "calm u u' \<Longrightarrow> l \<in> dom (u_loops u) \<Longrightarrow> handled_cqe l [] u u'"
  by (simp add: calm_def handled_cqe_def same_bufs_of)

lemma grows_dom: "grows u u' \<Longrightarrow> dom (u_loops u) \<subseteq> dom (u_loops u') \<and> dom (u_socks u) \<subseteq> dom (u_socks u') \<and>
    dom (u_listens u) \<subseteq> dom (u_listens u') \<and> dom (u_timers u) \<subseteq> dom (u_timers u')"
  unfolding grows_def kept_def by fastforce

lemma handled_cqe_trans:
  "handled_cqe l bs u u' \<Longrightarrow> handled_cqe l cs u' u'' \<Longrightarrow> handled_cqe l (bs @ cs) u u''"
  unfolding handled_cqe_def using grows_trans by auto

lemma emit_open_calm:
  assumes "handlers_ok U" "io_inv u" "u_socks u s = Some x"
  shows "returns (calm u) (emit_open U u s)"
proof -
  obtain y where y: "u_ctxs u (us_ctx x) = Some y" using sock_of_inv [OF assms(2,3)] by (auto simp: sock_ok_def)
  have "uc_on_open y \<noteq> None" using ctx_of_inv [OF assms(2) y] by (simp add: ctx_ok_def callbacks_set_def)
  then have "returns (\<lambda>u'. io_inv u' \<and> extends u u') (io_call U (uc_on_open y) (IoOpen s 1) u)"
    using assms by (intro io_call_returns) auto
  then show ?thesis using assms(3) y by (auto simp: emit_open_def elim!: returns_mono intro: extends_calm)
qed

lemma start_reading_calm:
  assumes "queue_has_room U" "io_inv u" "l \<in> dom (u_loops u)" "u_socks u s = Some x"
  shows "\<exists>u'. start_reading U u l s = Some u' \<and> calm u u' \<and> u_socks u' = u_socks u"
proof -
  from assms(3) obtain z where z: "u_loops u l = Some z" by auto
  show ?thesis
    unfolding start_reading_enqueues [OF assms(1) z assms(4)]
    using enqueue_calm [OF assms(2) z] by fastforce
qed

lemma complete_connect_calm:
  assumes "io_env_ok U" "io_inv u" "l \<in> dom (u_loops u)" "u_socks u s = Some x"
  shows "returns (calm u) (complete_connect U u l s)"
proof -
  have U: "queue_has_room U" "handlers_ok U" using assms(1) by (simp_all add: io_env_ok_def)
  obtain u1 where u1: "start_reading U u l s = Some u1" "calm u u1" "u_socks u1 = u_socks u"
    using start_reading_calm [OF U(1) assms(2-4)] by blast
  have "returns (calm u1) (emit_open U u1 s)"
    using emit_open_calm [OF U(2), of u1 s x] u1 assms(4) by (simp add: calm_def)
  then show ?thesis using calmly [OF _ u1(2)] by (simp add: complete_connect_def u1(1))
qed

lemma complete_timer_calm:
  assumes "io_env_ok U" "io_inv u" "l \<in> dom (u_loops u)" "t \<in> dom (u_timers u)"
  shows "returns (calm u) (complete_timer U u l t)"
proof -
  have U: "queue_has_room U" "handlers_ok U" using assms(1) by (simp_all add: io_env_ok_def)
  have "returns (calm u) (io_us_internal_timer_sweep U u l)"
    using io_timer_sweep_total [OF U(2) assms(2,3)] by (simp add: calm_def [abs_def])
  moreover have "returns (calm u) (map_option Returned (arm_timer U u1 l t))" if c: "calm u u1" for u1
  proof -
    have "l \<in> dom (u_loops u1)" "t \<in> dom (u_timers u1)"
      using c assms(3,4) grows_dom [of u u1] by (auto simp: calm_def)
    then obtain z x where z: "u_loops u1 l = Some z" and x: "u_timers u1 t = Some x" by auto
    have "io_inv u1" using c by (simp add: calm_def)
    from enqueue_calm [OF this z] obtain u2 where "arm_timer U u1 l t = Some u2" "calm u1 u2"
      unfolding arm_timer_enqueues [OF U(1) z x] by blast
    then show ?thesis using calm_trans [OF c] by simp
  qed
  ultimately show ?thesis unfolding complete_timer_def by (rule returns_and_then)
qed

lemma complete_accept_calm:
  assumes "io_env_ok U" "io_inv u" "l \<in> dom (u_loops u)" "ls \<in> dom (u_listens u)"
  shows "returns (calm u) (complete_accept U u l ls res)"
proof -
  have U: "queue_has_room U" "handlers_ok U" "io_malloc_ok U" using assms(1) by (simp_all add: io_env_ok_def)
  from assms(4) obtain w where w: "u_listens u ls = Some w" by auto
  obtain y where y: "u_ctxs u (uls_context w) = Some y" using assms(2) w unfolding io_inv_def by fastforce
  let ?s = "u_malloc U u"
  let ?x = "(u_sock_garbage U u)\<lparr>us_ctx := uls_context w, us_dd := res,
       us_timeout := 255, us_long_timeout := 255, us_prev := NULL, us_next := NULL\<rparr>"
  have "finite (io_allocated u)" using assms(2) by (simp add: io_inv_def)
  then have s: "?s \<noteq> NULL" "u_socks u ?s = None" using U(3) by (auto simp: io_malloc_ok_def io_allocated_def)
  obtain u1 x1 where u1: "io_us_internal_socket_context_link_socket (u\<lparr>u_socks := (u_socks u)(?s \<mapsto> ?x)\<rparr>) (uls_context w) ?s = Some u1"
      "calm u u1" "u_socks u1 ?s = Some x1" "u_loops u1 = u_loops u"
    using link_new_socket [OF assms(2) s y, of ?x] by blast
  have "\<exists>u2. (if 0 \<le> res then start_reading U u1 l ?s else Some u1) = Some u2 \<and> calm u u2 \<and> u_socks u2 = u_socks u1"
    using start_reading_calm [OF U(1), of u1 l ?s x1] u1 assms(3) calm_trans [OF u1(2)] by (auto simp: calm_def)
  then obtain u2 where u2: "(if 0 \<le> res then start_reading U u1 l ?s else Some u1) = Some u2" "calm u u2"
      "u_socks u2 ?s = Some x1" using u1(3) by auto
  have "returns (calm u2) (emit_open U u2 ?s)"
    using emit_open_calm [OF U(2) _ u2(3)] u2(2) by (simp add: calm_def)
  then show ?thesis using calmly [OF _ u2(2)] w u1(1) u2(1) by (simp add: complete_accept_def Let_def)
qed

lemma return_buffer_handled:
  assumes "io_inv u" "l \<in> dom (u_loops u)" "bid < BUFFERS_COUNT"
  shows "\<exists>u'. return_buffer u l bid = Some u' \<and>
    handled_cqe l [Buf_ring_add bid MAX_MESSAGE_LEN bid 0, Tail_increment] u u' \<and>
    u_socks u' = u_socks u \<and> u_ctxs u' = u_ctxs u"
proof -
  from assms(2) obtain z where z: "u_loops u l = Some z" by auto
  let ?f = "\<lambda>z. z\<lparr>ul_buf_ring := ul_buf_ring z @ [Buf_ring_add bid MAX_MESSAGE_LEN bid 0, Tail_increment]\<rparr>"
  obtain u' where u': "set_uloop u l ?f = Some u'" "u' = u\<lparr>u_loops := (u_loops u)(l \<mapsto> ?f z)\<rparr>" "io_inv u'" "grows u u'"
    using set_uloop_inv [OF assms(1) z, of ?f] by auto
  have "bufs_of u' l = bufs_of u l @ [Buf_ring_add bid MAX_MESSAGE_LEN bid 0, Tail_increment]"
    using z by (simp add: bufs_of_def u'(2))
  with u' assms(3) show ?thesis by (simp add: return_buffer_def buf_ring_ops_def handled_cqe_def)
qed

text \<open>Filling the entry taken before the close handler ran.\<close>

lemma set_sqe_calm:
  assumes "io_inv u" "u_loops u l = Some z" "i < length (ul_ring z)"
  shows "\<exists>u' z'. set_sqe u l i f = Some u' \<and> calm u u' \<and> u_loops u' l = Some z' \<and> i < length (ul_ring z')"
proof -
  let ?f = "\<lambda>z. z\<lparr>ul_ring := (ul_ring z)[i := f (ul_ring z ! i)]\<rparr>"
  obtain u' where u': "set_uloop u l ?f = Some u'" "u' = u\<lparr>u_loops := (u_loops u)(l \<mapsto> ?f z)\<rparr>" "io_inv u'" "grows u u'"
    using set_uloop_inv [OF assms(1,2), of ?f] by auto
  have "same_bufs u u'" unfolding same_bufs_def u'(2) using assms(2) by (simp add: kept_upd same_lbufs_def)
  with u' assms(2,3) show ?thesis by (auto simp: set_sqe_def calm_def)
qed

lemma three_sqe_calm:
  assumes "io_inv u" "u_loops u l = Some z" "i < length (ul_ring z)"
  shows "returns (calm u) (do { u \<leftarrow> set_sqe u l i f; u \<leftarrow> set_sqe u l i g; map_option Returned (set_sqe u l i k) })"
proof -
  obtain u1 z1 where 1: "set_sqe u l i f = Some u1" "calm u u1" "u_loops u1 l = Some z1" "i < length (ul_ring z1)"
    using set_sqe_calm [OF assms] by blast
  have i1: "io_inv u1" using 1(2) by (simp add: calm_def)
  obtain u2 z2 where 2: "set_sqe u1 l i g = Some u2" "calm u1 u2" "u_loops u2 l = Some z2" "i < length (ul_ring z2)"
    using set_sqe_calm [OF i1 1(3,4)] by blast
  have i2: "io_inv u2" using 2(2) by (simp add: calm_def)
  obtain u3 where 3: "set_sqe u2 l i k = Some u3" "calm u2 u3"
    using set_sqe_calm [OF i2 2(3,4)] by blast
  show ?thesis using calm_trans [OF 1(2) calm_trans [OF 2(2) 3(2)]] 1(1) 2(1) 3(1) by simp
qed

lemma complete_read_end_handled:
  assumes "io_env_ok U" "io_inv u" "l \<in> dom (u_loops u)" "u_socks u s = Some x" "buffer_id q < BUFFERS_COUNT"
    "cq_res q \<le> 0"
  shows "returns (handled_cqe l [Buf_ring_add (buffer_id q) MAX_MESSAGE_LEN (buffer_id q) 0, Tail_increment] u)
    (complete_read U u l s q)"
proof -
  let ?bs = "[Buf_ring_add (buffer_id q) MAX_MESSAGE_LEN (buffer_id q) 0, Tail_increment]"
  have U: "queue_has_room U" "handlers_ok U" using assms(1) by (simp_all add: io_env_ok_def)
  obtain u1 where u1: "return_buffer u l (buffer_id q) = Some u1" "handled_cqe l ?bs u u1"
      "u_socks u1 = u_socks u" "u_ctxs u1 = u_ctxs u"
    using return_buffer_handled [OF assms(2,3,5)] by blast
  have inv1: "io_inv u1" using u1(2) by (simp add: handled_cqe_def)
  have l1: "l \<in> dom (u_loops u1)" using u1(2) assms(3) grows_dom [of u u1] by (auto simp: handled_cqe_def)
  then obtain z1 where z1: "u_loops u1 l = Some z1" by auto
  obtain u2 where u2: "enqueue u1 l empty_sqe = Some u2"
      "u2 = u1\<lparr>u_loops := (u_loops u1)(l \<mapsto> z1\<lparr>ul_ring := ul_ring z1 @ [empty_sqe]\<rparr>)\<rparr>" "calm u1 u2"
    using enqueue_calm [OF inv1 z1] by blast
  let ?i = "length (ul_ring z1)"
  have sqe: "get_sqe U u1 l = Some (?i, u2)"
    using U(1) z1 u2(1) by (simp add: get_sqe_def enqueue_def set_uloop_def queue_has_room_def)
  have x2: "u_socks u2 s = Some x" using assms(4) u1(3) by (simp add: u2(2))
  have inv2: "io_inv u2" using u2(3) by (simp add: calm_def)
  obtain y where y: "u_ctxs u2 (us_ctx x) = Some y" using sock_of_inv [OF inv2 x2] by (auto simp: sock_ok_def)
  have "uc_on_close y \<noteq> None" using ctx_of_inv [OF inv2 y] by (simp add: ctx_ok_def callbacks_set_def)
  then have "returns (\<lambda>u'. io_inv u' \<and> extends u2 u') (io_call U (uc_on_close y) (IoClose s 0 NULL) u2)"
    using U(2) inv2 x2 by (intro io_call_returns) auto
  then have call: "returns (calm u2) (io_call U (uc_on_close y) (IoClose s 0 NULL) u2)"
    by (auto elim!: returns_mono intro: extends_calm)
  have rest: "returns (calm u2) (do {
      x \<leftarrow> u_socks u3 s;
      u \<leftarrow> set_sqe u3 l ?i (\<lambda>q. q\<lparr>sq_op := Some (Close_direct (us_dd x))\<rparr>);
      u \<leftarrow> set_sqe u l ?i (\<lambda>q. q\<lparr>sq_flags := Some IOSQE_CQE_SKIP_SUCCESS\<rparr>);
      map_option Returned (set_sqe u l ?i (\<lambda>q. q\<lparr>sq_data := Some CQE_NO_DATA\<rparr>)) })" if c: "calm u2 u3" for u3
  proof -
    obtain x3 where x3: "u_socks u3 s = Some x3" using grows_sock [of u2 u3, OF _ x2] c by (auto simp: calm_def)
    have "u_loops u2 l = Some (z1\<lparr>ul_ring := ul_ring z1 @ [empty_sqe]\<rparr>)" by (simp add: u2(2))
    then obtain z3 where z3: "u_loops u3 l = Some z3" "?i < length (ul_ring z3)"
      using grows_loop [of u2 u3 l] c by (fastforce simp: calm_def)
    have inv3: "io_inv u3" using c by (simp add: calm_def)
    show ?thesis
      using calmly [OF three_sqe_calm [OF inv3 z3, of "\<lambda>q. q\<lparr>sq_op := Some (Close_direct (us_dd x3))\<rparr>"] c]
      by (simp add: x3)
  qed
  have "returns (calm u2) (complete_read U u l s q)"
    using returns_and_then [OF call rest] assms(6) by (simp add: complete_read_def u1(1) sqe x2 y)
  moreover have "handled_cqe l ?bs u u3" if "calm u2 u3" for u3
    using handled_cqe_trans [OF u1(2) calm_handled [OF calm_trans [OF u2(3) that] l1]] by simp
  ultimately show ?thesis by (auto elim!: returns_mono)
qed

lemma complete_read_data_handled:
  assumes "io_env_ok U" "io_inv u" "l \<in> dom (u_loops u)" "u_socks u s = Some x" "buffer_id q < BUFFERS_COUNT"
    "length (u_bufs u) = BUFFERS_COUNT" "0 < cq_res q"
  shows "returns (handled_cqe l [Buf_ring_add (buffer_id q) MAX_MESSAGE_LEN (buffer_id q) 0, Tail_increment] u)
    (complete_read U u l s q)"
proof -
  let ?bs = "[Buf_ring_add (buffer_id q) MAX_MESSAGE_LEN (buffer_id q) 0, Tail_increment]"
  have U: "handlers_ok U" using assms(1) by (simp add: io_env_ok_def)
  obtain y where y: "u_ctxs u (us_ctx x) = Some y" using sock_of_inv [OF assms(2,4)] by (auto simp: sock_ok_def)
  have "uc_on_data y \<noteq> None" using ctx_of_inv [OF assms(2) y] by (simp add: ctx_ok_def callbacks_set_def)
  then have "returns (\<lambda>u'. io_inv u' \<and> extends u u')
      (io_call U (uc_on_data y) (IoData s (take (nat (cq_res q)) (u_bufs u ! buffer_id q))) u)"
    using U assms(2,4) by (intro io_call_returns) auto
  then have call: "returns (calm u)
      (io_call U (uc_on_data y) (IoData s (take (nat (cq_res q)) (u_bufs u ! buffer_id q))) u)"
    by (auto elim!: returns_mono intro: extends_calm)
  have rest: "returns (handled_cqe l ?bs u) (map_option Returned (return_buffer u1 l (buffer_id q)))"
    if c: "calm u u1" for u1
  proof -
    have i: "io_inv u1" "l \<in> dom (u_loops u1)" using c assms(3) grows_dom [of u u1] by (auto simp: calm_def)
    obtain u2 where "return_buffer u1 l (buffer_id q) = Some u2" "handled_cqe l ?bs u1 u2"
      using return_buffer_handled [OF i assms(5)] by blast
    then show ?thesis using handled_cqe_trans [OF calm_handled [OF c assms(3)]] by fastforce
  qed
  show ?thesis
    using returns_and_then [OF call rest] assms(4-7) by (simp add: complete_read_def y)
qed

lemma complete_handled:
  assumes "io_env_ok U" "io_inv u" "l \<in> dom (u_loops u)" "length (u_bufs u) = BUFFERS_COUNT" "cqe_ok u q"
  shows "returns (handled_cqe l (given_back q) u) (complete U u l q)"
proof -
  let ?tag = "pointer_tag (cq_data q)" and ?o = "object_of (cq_data q)"
  have calmly_none: "returns (handled_cqe l [] u) r" if "returns (calm u) r" for r
    using that calm_handled [OF _ assms(3)] by (auto elim!: returns_mono)
  show ?thesis
  proof (cases "?tag = 6 \<or> cq_res q = - ENOBUFS")
    case True
    then show ?thesis by (auto simp: complete_def Let_def)
  next
    case False
    then have go_on: "?tag \<noteq> 6" "cq_res q \<noteq> - ENOBUFS" by auto
    consider (accept) "?tag = LISTEN_SOCKET_ACCEPT" | (read) "?tag = SOCKET_READ" | (connect) "?tag = SOCKET_CONNECT"
      | (timer) "?tag = LOOP_TIMER" | (other) "?tag \<notin> {LISTEN_SOCKET_ACCEPT, SOCKET_READ, SOCKET_CONNECT, LOOP_TIMER}"
      by blast
    then show ?thesis
    proof cases
      case accept
      then have "?o \<in> dom (u_listens u)" using assms(5) by (simp add: cqe_ok_def)
      from calmly_none [OF complete_accept_calm [OF assms(1-3) this]] show ?thesis
        using go_on accept by (simp add: complete_def given_back_def)
    next
      case read
      then obtain x where x: "u_socks u ?o = Some x" "buffer_id q < BUFFERS_COUNT"
        using assms(5) by (auto simp: cqe_ok_def)
      show ?thesis
        using go_on read complete_read_end_handled [OF assms(1-3) x] complete_read_data_handled [OF assms(1-3) x assms(4)]
        by (cases "cq_res q \<le> 0") (simp_all add: complete_def given_back_def)
    next
      case connect
      then obtain x where x: "u_socks u ?o = Some x" using assms(5) by (auto simp: cqe_ok_def)
      from calmly_none [OF complete_connect_calm [OF assms(1-3) x]] show ?thesis
        using go_on connect by (simp add: complete_def given_back_def)
    next
      case timer
      then have "?o \<in> dom (u_timers u)" using assms(5) by (simp add: cqe_ok_def)
      from calmly_none [OF complete_timer_calm [OF assms(1-3) this]] show ?thesis
        using go_on timer by (simp add: complete_def given_back_def)
    next
      case other
      then have "complete U u l q = Some (Returned u)" "given_back q = []"
        using go_on by (simp_all add: complete_def given_back_def Let_def)
      then show ?thesis using assms(2) by (simp add: handled_cqe_def)
    qed
  qed
qed

lemma grows_cqe_ok: "grows u u' \<Longrightarrow> cqe_ok u q \<Longrightarrow> cqe_ok u' q"
  using grows_dom [of u u'] unfolding cqe_ok_def by blast

lemma grows_bufs: "grows u u' \<Longrightarrow> u_bufs u' = u_bufs u"
  by (simp add: grows_def)

lemma complete_all_handled:
  assumes "io_env_ok U"
  shows "io_inv u \<Longrightarrow> l \<in> dom (u_loops u) \<Longrightarrow> length (u_bufs u) = BUFFERS_COUNT \<Longrightarrow>
    \<forall>q\<in>set qs. cqe_ok u q \<Longrightarrow> returns (handled_cqe l (concat (map given_back qs)) u) (complete_all U u l qs)"
proof (induction qs arbitrary: u)
  case Nil
  then show ?case by (simp add: handled_cqe_def)
next
  case (Cons q qs)
  have first: "returns (handled_cqe l (given_back q) u) (complete U u l q)"
    using complete_handled [OF assms Cons.prems(1-3)] Cons.prems(4) by simp
  have rest: "returns (handled_cqe l (concat (map given_back (q # qs))) u) (complete_all U u1 l qs)"
    if h: "handled_cqe l (given_back q) u u1" for u1
  proof -
    have g: "io_inv u1" "grows u u1" using h by (simp_all add: handled_cqe_def)
    have "returns (handled_cqe l (concat (map given_back qs)) u1) (complete_all U u1 l qs)"
    proof (rule Cons.IH [OF g(1)])
      show "l \<in> dom (u_loops u1)" using Cons.prems(2) grows_dom [OF g(2)] by blast
      show "length (u_bufs u1) = BUFFERS_COUNT" using Cons.prems(3) grows_bufs [OF g(2)] by simp
      show "\<forall>q\<in>set qs. cqe_ok u1 q" using Cons.prems(4) grows_cqe_ok [OF g(2)] by simp
    qed
    then show ?thesis using handled_cqe_trans [OF h] by (auto elim!: returns_mono)
  qed
  show ?case unfolding complete_all.simps by (rule returns_and_then [OF first rest])
qed

end
