(* ===== verification/Uring_app.thy ===== *)
theory Uring_app
  imports Completions Demo
begin

text \<open>
  Applications of the io_uring build.  The locale \<open>io_app\<close> is the interface between the loop and its
  surroundings: the allocator, a submission queue with room, handlers that keep the store, and a kernel
  that completes what was submitted.  In it, every number of turns of the loop returns.  It is
  interpreted for an echo application, whose handlers are the library's own operations.
\<close>

subsection \<open>Turns\<close>

definition completions_ok :: "uenv \<Rightarrow> bool" where
  "completions_ok U \<longleftrightarrow> (\<forall>u. length (u_fill U u) = BUFFERS_COUNT) \<and>
     (\<forall>u. io_inv u \<longrightarrow> (\<forall>q\<in>set (u_cqes U u). cqe_ok u q))"

locale io_app =
  fixes U :: uenv
  assumes env: "io_env_ok U"
    and kernel: "completions_ok U"

context io_app
begin

lemma turn_returns:
  assumes "io_inv u" "l \<in> dom (u_loops u)"
  shows "returns (\<lambda>u'. io_inv u' \<and> l \<in> dom (u_loops u')) (io_turn U u l)"
proof -
  from assms(2) obtain z where z: "u_loops u l = Some z" by auto
  define u2 where "u2 = u\<lparr>u_calls := u_calls u @ [Submit_and_wait (ul_ring z)],
    u_loops := (u_loops u)(l \<mapsto> z\<lparr>ul_ring := []\<rparr>)\<rparr>"
  define u3 where "u3 = u2\<lparr>u_bufs := u_fill U u2\<rparr>"
  have turn: "io_turn U u l = and_then (complete_all U u3 l (u_cqes U u2))
      (\<lambda>u. Some (Returned (snd (ring_call U u (Cq_advance (length (u_cqes U u2)))))))"
    using z by (simp add: io_turn_def ring_call_def set_uloop_def Let_def u2_def u3_def)
  have inv: "io_inv u2" by (rule io_inv_views [OF assms(1)]) (simp_all add: u2_def z dom_def)
  then have inv3: "io_inv u3" by (rule io_inv_views) (simp_all add: u3_def)
  have l3: "l \<in> dom (u_loops u3)" by (simp add: u2_def u3_def)
  have "cqe_ok u3 q = cqe_ok u2 q" for q by (simp add: cqe_ok_def u3_def)
  then have ok: "\<forall>q\<in>set (u_cqes U u2). cqe_ok u3 q"
    using kernel inv unfolding completions_ok_def by blast
  have bufs: "length (u_bufs u3) = BUFFERS_COUNT"
    using kernel unfolding completions_ok_def u3_def by simp
  note h = complete_all_handled [OF env inv3 l3 bufs ok]
  have last: "returns (\<lambda>u'. io_inv u' \<and> l \<in> dom (u_loops u'))
      (Some (Returned (snd (ring_call U u4 (Cq_advance n)))))"
    if "handled_cqe l bs u3 u4" for u4 n bs
  proof -
    have inv4: "io_inv u4" "l \<in> dom (u_loops u4)" using that l3 grows_dom [of u3 u4] by (auto simp: handled_cqe_def)
    have "io_inv (snd (ring_call U u4 (Cq_advance n)))"
      by (rule io_inv_views [OF inv4(1)]) (simp_all add: ring_call_def)
    then show ?thesis using inv4(2) by (simp add: ring_call_def)
  qed
  show ?thesis unfolding turn by (rule returns_and_then [OF h last])
qed

lemma turns_return:
  "io_inv u \<Longrightarrow> l \<in> dom (u_loops u) \<Longrightarrow> returns io_inv (io_turns n U u l)"
proof (induction n arbitrary: u)
  case (Suc n)
  then show ?case unfolding io_turns.simps by (intro returns_and_then [OF turn_returns]) auto
qed simp

lemma run_returns:
  assumes "io_inv u" "u_loops u l = Some z" "u_timers u (ul_timer z) = Some t" "ut_loop t = l"
  shows "returns io_inv (io_us_loop_run n U u l)"
proof -
  let ?c = "TimerfdSettime (ut_fd t) ((LIBUS_TIMEOUT_GRANULARITY * 1000) sdiv 1000)
     ((LIBUS_TIMEOUT_GRANULARITY * 1000) smod 1000 * 1000000) ((LIBUS_TIMEOUT_GRANULARITY * 1000) sdiv 1000)
     ((LIBUS_TIMEOUT_GRANULARITY * 1000) smod 1000 * 1000000)"
  let ?u1 = "snd (io_sys U u ?c)"
  have same: "u_loops ?u1 = u_loops u" "u_timers ?u1 = u_timers u" by (simp_all add: io_sys_def sys_def)
  have inv1: "io_inv ?u1" by (rule io_inv_views [OF assms(1)]) (simp_all add: io_sys_def sys_def)
  have room: "queue_has_room U" using env by (simp add: io_env_ok_def)
  have z1: "u_loops ?u1 l = Some z" and t1: "u_timers ?u1 (ul_timer z) = Some t" using assms same by simp_all
  obtain u2 where u2: "arm_timer U ?u1 l (ul_timer z) = Some u2" "calm ?u1 u2"
    unfolding arm_timer_enqueues [OF room z1 t1] using enqueue_calm [OF inv1 z1] by blast
  have set: "io_us_timer_set U u (ul_timer z) (LIBUS_TIMEOUT_GRANULARITY * 1000) (LIBUS_TIMEOUT_GRANULARITY * 1000) = Some u2"
    using assms(3,4) u2(1) by (simp add: io_us_timer_set_def Let_def case_prod_unfold)
  have "io_inv u2" "l \<in> dom (u_loops u2)"
    using u2(2) z1 grows_dom [of ?u1 u2] by (auto simp: calm_def)
  then show ?thesis
    using turns_return [of u2 l n] unfolding io_us_loop_run_def assms(2) Option.bind.bind_lunit set by blast
qed

end

subsection \<open>The operations as handlers\<close>

lemma io_us_socket_write_sends:
  assumes "queue_has_room U" "u_socks u s = Some x" "u_ctxs u (us_ctx x) = Some y"
    "u_loops u (uc_loop y) = Some z" "length bs \<le> SENDBUF_SIZE"
  shows "io_us_socket_write U u s (Some bs) (int (length bs)) m =
    Some (int (length bs), u\<lparr>u_socks := (u_socks u)(s \<mapsto> x\<lparr>us_sendBuf := bs @ drop (length bs) (us_sendBuf x)\<rparr>),
      u_loops := (u_loops u)(uc_loop y \<mapsto> z\<lparr>ul_ring := ul_ring z @
        [\<lparr>sq_op = Some (Prep_send (us_dd x) s (int (length bs))), sq_flags = Some IOSQE_FIXED_FILE,
          sq_buf_group = None, sq_data = Some (tagged s SOCKET_WRITE)\<rparr>]\<rparr>)\<rparr>)"
  using assms by (simp add: io_us_socket_write_def set_usock_def sqe_defs queue_has_room_def)

lemma io_us_socket_write_extends:
  assumes "queue_has_room U" "io_inv u" "u_socks u s = Some x" "length bs \<le> SENDBUF_SIZE"
  shows "\<exists>u'. io_us_socket_write U u s (Some bs) (int (length bs)) m = Some (int (length bs), u') \<and>
    io_inv u' \<and> extends u u'"
proof -
  obtain y where y: "u_ctxs u (us_ctx x) = Some y" using sock_of_inv [OF assms(2,3)] by (auto simp: sock_ok_def)
  obtain z where z: "u_loops u (uc_loop y) = Some z" using ctx_of_inv [OF assms(2) y] by (auto simp: ctx_ok_def)
  let ?f = "\<lambda>x. x\<lparr>us_sendBuf := bs @ drop (length bs) (us_sendBuf x)\<rparr>"
  obtain u1 where u1: "u1 = u\<lparr>u_socks := (u_socks u)(s \<mapsto> ?f x)\<rparr>" "io_inv u1" "extends u u1"
    using set_usock_inv [OF assms(2,3), of ?f] by (auto simp: sock_view_def)
  have z1: "u_loops u1 (uc_loop y) = Some z" by (simp add: u1(1) z)
  let ?e = "\<lparr>sq_op = Some (Prep_send (us_dd x) s (int (length bs))), sq_flags = Some IOSQE_FIXED_FILE,
          sq_buf_group = None, sq_data = Some (tagged s SOCKET_WRITE)\<rparr>"
  obtain u2 where u2: "u2 = u1\<lparr>u_loops := (u_loops u1)(uc_loop y \<mapsto> z\<lparr>ul_ring := ul_ring z @ [?e]\<rparr>)\<rparr>" "calm u1 u2"
    using enqueue_calm [OF u1(2) z1, of ?e] by blast
  have "extends u1 u2" using u2(2) z1
    by (simp add: extends_def calm_def u2(1) same_iterator_def same_iterators_def kept_refl kept_upd same_defs)
  then have "extends u u2" by (rule extends_trans [OF u1(3)])
  moreover have "io_inv u2" using u2(2) by (simp add: calm_def)
  moreover have "io_us_socket_write U u s (Some bs) (int (length bs)) m = Some (int (length bs), u2)"
    unfolding io_us_socket_write_sends [OF assms(1,3) y z assms(4)] by (simp add: u1(1) u2(1))
  ultimately show ?thesis by blast
qed

lemma io_us_socket_timeout_extends:
  assumes "io_inv u" "u_socks u s = Some x"
  shows "\<exists>u'. io_us_socket_timeout u s t = Some u' \<and> io_inv u' \<and> extends u u'"
proof -
  obtain y where y: "u_ctxs u (us_ctx x) = Some y" using sock_of_inv [OF assms] by (auto simp: sock_ok_def)
  show ?thesis
    using set_usock_inv [OF assms, of "\<lambda>x. x\<lparr>us_timeout := 255\<rparr>"]
      set_usock_inv [OF assms, of "\<lambda>x. x\<lparr>us_timeout := ucast ((ucast (uc_timestamp y) + drop_bit 2 (t + 3)) mod 240)\<rparr>"]
      assms(2) y
    by (auto simp: io_us_socket_timeout_def sock_view_def)
qed

text \<open>The echo application: data goes back and a client has thirty seconds to say something.\<close>

definition echo_io :: "uenv \<Rightarrow> io_event \<Rightarrow> uring \<Rightarrow> uring outcome option" where
  "echo_io U ev u = (case ev of
       IoOpen s i \<Rightarrow> map_option Returned (io_us_socket_timeout u s 30)
     | IoData s bs \<Rightarrow> (if length bs \<le> SENDBUF_SIZE
         then map_option (\<lambda>(_, u). Returned u) (io_us_socket_write U u s (Some bs) (int (length bs)) 0)
         else Some (Returned u))
     | _ \<Rightarrow> Some (Returned u))"

text \<open>A kernel that ticks the timer at address 24 whenever it is there.\<close>

definition quiet_io_env :: uenv where
  "quiet_io_env = \<lparr>u_sys = demo_env Epoll, u_ring_ret = (\<lambda>_ _. 0), u_sq_room = (\<lambda>_ _. True),
     u_cqes = (\<lambda>u. if u_timers u 24 = None then [] else [\<lparr>cq_res = 8, cq_flags = 0, cq_data = tagged 24 LOOP_TIMER\<rparr>]),
     u_fill = (\<lambda>_. replicate BUFFERS_COUNT []), u_malloc = (\<lambda>u. Suc (Max (insert 0 (io_allocated u)))),
     u_sock_garbage = (\<lambda>_. \<lparr>us_ctx = 0, us_prev = 0, us_next = 0, us_timeout = 0, us_long_timeout = 0,
       us_dd = 0, us_sendBuf = []\<rparr>), u_callback = (\<lambda>_ _ u. Some (Returned u))\<rparr>"

definition echo_io_env :: uenv where
  "echo_io_env = quiet_io_env\<lparr>u_callback := \<lambda>_. echo_io quiet_io_env\<rparr>"

lemma quiet_io_room: "queue_has_room quiet_io_env" "queue_has_room echo_io_env"
  by (simp_all add: queue_has_room_def quiet_io_env_def echo_io_env_def)

lemma echo_io_handlers_ok: "handlers_ok echo_io_env"
proof -
  have "returns (\<lambda>u'. io_inv u' \<and> extends u u') (echo_io quiet_io_env ev u)"
    if u: "io_inv u" "io_event_sock ev \<in> dom (u_socks u)" for ev u
  proof -
    from u(2) obtain x where x: "u_socks u (io_event_sock ev) = Some x" by auto
    show ?thesis
    proof (cases ev)
      case (IoOpen s i)
      then show ?thesis using io_us_socket_timeout_extends [OF u(1) x, of 30] by (auto simp: echo_io_def)
    next
      case (IoData s bs)
      show ?thesis
      proof (cases "length bs \<le> SENDBUF_SIZE")
        case True
        then show ?thesis
          using io_us_socket_write_extends [OF quiet_io_room(1) u(1) x True, of 0] IoData by (auto simp: echo_io_def)
      qed (use u(1) IoData in \<open>simp add: echo_io_def\<close>)
    qed (simp_all add: echo_io_def u(1))
  qed
  then show ?thesis by (simp add: handlers_ok_def echo_io_env_def)
qed

lemma echo_io_malloc_ok: "io_malloc_ok echo_io_env"
proof -
  have "Suc (Max (insert 0 (io_allocated u))) \<notin> io_allocated u" if "finite (io_allocated u)" for u
    using Max_ge [of "insert 0 (io_allocated u)"] that by (metis Suc_n_not_le_n finite_insert insertCI)
  then show ?thesis by (simp add: io_malloc_ok_def echo_io_env_def quiet_io_env_def)
qed

lemma tag_24: "pointer_tag (tagged 24 LOOP_TIMER) = 7" "object_of (tagged 24 LOOP_TIMER) = 24"
  by (simp_all add: tagged_def pointer_tag_def object_of_def)

lemma echo_completions_ok: "completions_ok echo_io_env"
  by (auto simp: completions_ok_def echo_io_env_def quiet_io_env_def cqe_ok_def tag_24 simp del: LOOP_TIMER_def)

lemma echo_io_env_ok: "io_env_ok echo_io_env"
  by (simp add: io_env_ok_def echo_io_malloc_ok quiet_io_room echo_io_handlers_ok)

interpretation echo_app: io_app echo_io_env
  by unfold_locales (rule echo_io_env_ok, rule echo_completions_ok)

end
