(* ===== verification/Uring_claims.thy ===== *)
theory Uring_claims
  imports Uring_app
begin

text \<open>The properties of the io_uring build, with a small store at which they are instantiated.\<close>

subsection \<open>A store\<close>

definition demo_usock :: io_us_socket_t where
  "demo_usock = \<lparr>us_ctx = 16, us_prev = 0, us_next = 0, us_timeout = 255, us_long_timeout = 255, us_dd = 3,
     us_sendBuf = replicate 8 0\<rparr>"

definition demo_uctx :: io_us_socket_context_t where
  "demo_uctx = \<lparr>uc_loop = 8, uc_global_tick = 0, uc_timestamp = 0, uc_long_timestamp = 0, uc_head_sockets = 32,
     uc_head_listen_sockets = 0, uc_iterator = 0, uc_prev = 0, uc_next = 0, uc_on_open = Some 0, uc_on_data = Some 0,
     uc_on_close = Some 0, uc_on_socket_timeout = Some 0, uc_on_socket_long_timeout = Some 0\<rparr>"

definition demo_uring :: uring where
  "demo_uring = \<lparr>u_timers = [24 \<mapsto> \<lparr>ut_loop = 8, ut_fd = 5\<rparr>],
     u_loops = [8 \<mapsto> \<lparr>ul_ring = [], ul_buf_ring = [], ul_timer = 24, ul_head = 16, ul_iterator = 0\<rparr>],
     u_ctxs = [16 \<mapsto> demo_uctx], u_listens = [40 \<mapsto> \<lparr>uls_context = 16, uls_socket_ext_size = 0\<rparr>],
     u_socks = [32 \<mapsto> demo_usock], u_bufs = replicate BUFFERS_COUNT [1, 2, 3], u_num_sockets = 0, u_calls = [],
     u_events = [], u_heap = demo_heap\<rparr>"

lemma demo_uring_inv: "io_inv demo_uring"
proof -
  have "sll (u_snx demo_uring) 32 [32]" "sll (u_cnx demo_uring) 16 [16]"
    by (simp_all add: demo_uring_def demo_usock_def demo_uctx_def)
  then have "in_list (u_snx demo_uring) 32" "in_list (u_cnx demo_uring) 16"
    unfolding in_list_def by blast+
  then show ?thesis
    by (simp add: io_inv_def sock_ok_def ctx_ok_def io_allocated_def callbacks_set_def)
      (simp add: demo_uring_def demo_usock_def demo_uctx_def split: if_splits)
qed

subsection \<open>The loop\<close>



text \<open>
  Handling a batch of completions gives every buffer that a completion of a read names back to the
  buffer ring, once, in the order of the completions, each with its own memory and the full length, and
  the ring's tail advanced by one; nothing else is put there.
\<close>

theorem completions_return_buffers:
  assumes "io_env_ok U" "io_inv u" "u_loops u l = Some z" "length (u_bufs u) = BUFFERS_COUNT"
    "\<forall>q\<in>set qs. cqe_ok u q"
  shows "\<exists>r. complete_all U u l qs = Some r \<and>
    (\<forall>u'. r = Returned u' \<longrightarrow> (\<exists>z'. u_loops u' l = Some z' \<and> ul_buf_ring z' = ul_buf_ring z @
      concat (map (\<lambda>q. [Buf_ring_add (buffer_id q) MAX_MESSAGE_LEN (buffer_id q) 0, Tail_increment])
        (filter (\<lambda>q. pointer_tag (cq_data q) = SOCKET_READ) qs))))"
proof -
  have l: "l \<in> dom (u_loops u)" using assms(3) by auto
  have bs: "concat (map given_back qs) =
      concat (map (\<lambda>q. [Buf_ring_add (buffer_id q) MAX_MESSAGE_LEN (buffer_id q) 0, Tail_increment])
        (filter (\<lambda>q. pointer_tag (cq_data q) = SOCKET_READ) qs))" (is "_ = ?bs")
    by (induction qs) (simp_all add: given_back_def)
  have "\<exists>z'. u_loops u' l = Some z' \<and> ul_buf_ring z' = ul_buf_ring z @ ?bs"
    if h: "handled_cqe l (concat (map given_back qs)) u u'" for u'
  proof -
    obtain z' where "u_loops u' l = Some z'" using h l grows_dom [of u u'] by (auto simp: handled_cqe_def)
    then show ?thesis using h assms(3) unfolding bs by (simp add: handled_cqe_def bufs_of_def)
  qed
  then show ?thesis
    using complete_all_handled [OF assms(1,2) l assms(4,5)] unfolding returns_def by blast
qed

definition demo_cqes :: "cqe list" where
  "demo_cqes = [\<lparr>cq_res = 3, cq_flags = 0x50002, cq_data = tagged 32 SOCKET_READ\<rparr>,
     \<lparr>cq_res = 8, cq_flags = 0, cq_data = tagged 24 LOOP_TIMER\<rparr>,
     \<lparr>cq_res = 0, cq_flags = 0, cq_data = tagged 32 SOCKET_READ\<rparr>]"

lemma tag_32: "pointer_tag (tagged 32 SOCKET_READ) = 0" "object_of (tagged 32 SOCKET_READ) = 32"
  by (simp_all add: tagged_def pointer_tag_def object_of_def)

lemma demo_cqes_ok: "\<forall>q\<in>set demo_cqes. cqe_ok demo_uring q"
  by (simp add: demo_cqes_def cqe_ok_def tag_24 [simplified] tag_32 [simplified] buffer_id_def demo_uring_def)

theorem completions_return_buffers_witness:
  "\<exists>r. complete_all echo_io_env demo_uring 8 demo_cqes = Some r \<and>
    (\<forall>u'. r = Returned u' \<longrightarrow> (\<exists>z'. u_loops u' 8 = Some z' \<and> ul_buf_ring z' =
      [Buf_ring_add 5 2048 5 0, Tail_increment, Buf_ring_add 0 2048 0 0, Tail_increment]))"
  using completions_return_buffers [OF echo_io_env_ok demo_uring_inv _ _ demo_cqes_ok, of 8]
  by (simp add: demo_uring_def demo_cqes_def tag_24 [simplified] tag_32 [simplified] buffer_id_def)



subsection \<open>Tagged pointers\<close>

lemma clear_tag: "unat ((w::u64) AND 0xFFFFFFFFFFFFFFF8) = 8 * (unat w div 8)"
proof -
  have eq: "w AND 0xFFFFFFFFFFFFFFF8 = push_bit 3 (take_bit 61 (drop_bit 3 w))"
    using slice_eq_mask [of 3 61 w] by (simp add: mask_eq_exp_minus_1)
  have lt: "unat w < 2 ^ 64" using unsigned_less [of w] by simp
  then have "unat w div 8 < 2 ^ 61" by (simp add: div_less_iff_less_mult)
  then have d: "take_bit 61 (unat w div 8) = unat w div 8" by (simp add: take_bit_nat_eq_self)
  have "unat (push_bit 3 (take_bit 61 (drop_bit 3 w))) = take_bit 64 (push_bit 3 (take_bit 61 (drop_bit 3 (unat w))))"
    by (simp only: unsigned_push_bit_eq unsigned_take_bit_eq unsigned_drop_bit_eq)
      (simp add: take_bit_nat_eq_self [OF lt])
  also have "\<dots> = take_bit 64 (8 * (unat w div 8))"
    using d by (simp add: push_bit_eq_mult drop_bit_eq_div mult.commute)
  also have "\<dots> = 8 * (unat w div 8)"
    using \<open>unat w div 8 < 2 ^ 61\<close> by (intro take_bit_nat_eq_self) simp
  finally show ?thesis using eq by simp
qed
lemma low_bits: "unat ((w::u64) AND 7) = unat w mod 8"
proof -
  have "w AND 7 = take_bit 3 w" by (simp add: take_bit_eq_mask mask_eq_exp_minus_1)
  then have "unat (w AND 7) = take_bit 3 (unat w)" by (simp only: unsigned_take_bit_eq)
  then show ?thesis by (simp add: take_bit_eq_mod)
qed
lemma tagged_unat: "p mod 8 = 0 \<Longrightarrow> p < 2 ^ 64 \<Longrightarrow> tag < 8 \<Longrightarrow> unat (tagged p tag) = p + tag"
proof -
  assume a: "p mod 8 = 0" "p < 2 ^ 64" "tag < 8"
  then have b: "p + tag < 2 ^ 64" by (auto simp: mod_eq_0_iff_dvd dvd_def)
  have "tagged p tag = of_nat (p + tag)" by (simp only: tagged_def of_nat_add)
  then have "unat (tagged p tag) = take_bit 64 (p + tag)" by (simp only: unsigned_of_nat) simp
  then show ?thesis using b by (simp only: take_bit_nat_eq_self)
qed

text \<open>
  A pointer to an 8 byte aligned object and a tag below 8 are both read back from the 64 bit word
  that travels through the ring, and no two such pairs share a word; the word 5 of a close is never
  taken for an object's: its completion changes nothing.
\<close>

theorem pointer_tags_roundtrip:
  assumes "p mod 8 = 0" "p < 2 ^ 64" "tag < 8"
  shows "pointer_tag (tagged p tag) = tag \<and> object_of (tagged p tag) = p \<and>
    (p' mod 8 = 0 \<and> p' < 2 ^ 64 \<and> tag' < 8 \<and> tagged p' tag' = tagged p tag \<longrightarrow> p' = p \<and> tag' = tag) \<and>
    (cq_data q = CQE_NO_DATA \<and> cq_res q \<noteq> - ENOBUFS \<longrightarrow> complete U u l q = Some (Returned u))"
proof -
  have rt: "pointer_tag (tagged p tag) = tag \<and> object_of (tagged p tag) = p"
    if "p mod 8 = 0" "p < 2 ^ 64" "tag < 8" for p tag
    using that by (simp add: pointer_tag_def object_of_def low_bits clear_tag tagged_unat mod_eq_0_iff_dvd dvd_def)
      (auto simp: div_mult2_eq)
  have close: "cq_data q = CQE_NO_DATA \<and> cq_res q \<noteq> - ENOBUFS \<longrightarrow> complete U u l q = Some (Returned u)"
    by (simp add: complete_def pointer_tag_def Let_def)
  have inj: "p' mod 8 = 0 \<and> p' < 2 ^ 64 \<and> tag' < 8 \<and> tagged p' tag' = tagged p tag \<longrightarrow> p' = p \<and> tag' = tag"
    using rt [OF assms] rt [of p' tag'] by metis
  show ?thesis
    using rt [OF assms] close inj by metis
qed

theorem pointer_tags_roundtrip_witness:
  "pointer_tag (tagged 4096 SOCKET_CONNECT) = 3 \<and> object_of (tagged 4096 SOCKET_CONNECT) = 4096"
  using pointer_tags_roundtrip [of 4096 SOCKET_CONNECT] by simp

subsection \<open>Sending and connecting\<close>

text \<open>The bytes a queued send will carry, if it is submitted in this store.\<close>

definition payload :: "uring \<Rightarrow> sqe \<Rightarrow> u8 list option" where
  "payload u e = (case sq_op e of
       Some (Prep_send f s n) \<Rightarrow> map_option (\<lambda>x. take (nat n) (us_sendBuf x)) (u_socks u s)
     | _ \<Rightarrow> None)"

text \<open>
  A socket has one send buffer and a write only queues its sending.  One write queues exactly its
  bytes and returns their number.  Two writes before the next wait return both lengths and queue two
  sends, but both read the buffer as the second write left it: the first message is lost as far as the
  second one covers it.
\<close>

theorem second_write_overwrites:
  assumes "queue_has_room U" "u_socks u s = Some x" "u_ctxs u (us_ctx x) = Some y" "u_loops u (uc_loop y) = Some z"
    "length bs \<le> SENDBUF_SIZE" "length cs \<le> SENDBUF_SIZE"
  shows "\<exists>e1 e2 u1 u2. io_us_socket_write U u s (Some bs) (int (length bs)) 0 = Some (int (length bs), u1) \<and>
    payload u1 e1 = Some bs \<and>
    io_us_socket_write U u1 s (Some cs) (int (length cs)) 0 = Some (int (length cs), u2) \<and>
    map_option ul_ring (u_loops u2 (uc_loop y)) = Some (ul_ring z @ [e1, e2]) \<and>
    payload u2 e2 = Some cs \<and> payload u2 e1 = Some (take (length bs) cs @ drop (length cs) bs)"
proof -
  let ?e = "\<lambda>bs. \<lparr>sq_op = Some (Prep_send (us_dd x) s (int (length bs))), sq_flags = Some IOSQE_FIXED_FILE,
          sq_buf_group = None, sq_data = Some (tagged s SOCKET_WRITE)\<rparr>"
  let ?x1 = "x\<lparr>us_sendBuf := bs @ drop (length bs) (us_sendBuf x)\<rparr>"
  let ?z1 = "z\<lparr>ul_ring := ul_ring z @ [?e bs]\<rparr>"
  let ?u1 = "u\<lparr>u_socks := (u_socks u)(s \<mapsto> ?x1), u_loops := (u_loops u)(uc_loop y \<mapsto> ?z1)\<rparr>"
  have w1: "io_us_socket_write U u s (Some bs) (int (length bs)) 0 = Some (int (length bs), ?u1)"
    by (rule io_us_socket_write_sends [OF assms(1-5)])
  have at: "u_socks ?u1 s = Some ?x1" "u_ctxs ?u1 (us_ctx ?x1) = Some y" "u_loops ?u1 (uc_loop y) = Some ?z1"
    using assms(3) by simp_all
  note w2 = io_us_socket_write_sends [OF assms(1) at assms(6), of 0]
  show ?thesis
    by (intro exI [of _ "?e bs"] exI [of _ "?e cs"], rule exI [of _ ?u1], rule exI, intro conjI, rule w1, simp add: payload_def, rule w2)
      (simp_all add: payload_def)
qed

theorem second_write_overwrites_witness:
  "\<exists>e1 e2 u1 u2. io_us_socket_write echo_io_env demo_uring 32 (Some [1, 2, 3, 4]) 4 0 = Some (4, u1) \<and>
    payload u1 e1 = Some [1, 2, 3, 4] \<and>
    io_us_socket_write echo_io_env u1 32 (Some [9, 9, 9]) 3 0 = Some (3, u2) \<and>
    map_option ul_ring (u_loops u2 8) = Some [e1, e2] \<and>
    payload u2 e2 = Some [9, 9, 9] \<and> payload u2 e1 = Some [9, 9, 9, 4]"
  using second_write_overwrites [of echo_io_env demo_uring 32 demo_usock demo_uctx "the (u_loops demo_uring 8)"
      "[1, 2, 3, 4]" "[9, 9, 9]"] quiet_io_room(2)
  by (simp add: demo_uring_def demo_usock_def demo_uctx_def)

text \<open>
  Connecting links the new socket into its context before the address is known.  When the name
  cannot be resolved the caller gets null, and the socket he never got stays the head of the context's
  list, the old list behind it: it is swept at every tick and never freed.  Nothing was submitted.
\<close>

theorem connect_failure_stays_linked:
  assumes "io_inv u" "io_malloc_ok U" "u_ctxs u c = Some y"
    "sys_ret (u_sys U) (trace (u_heap u)) (Getaddrinfo host (Some (port_string port)) 0 AF_UNSPEC SOCK_STREAM) \<noteq> 0"
  shows "\<exists>u' x. io_us_socket_context_connect U u c host port source = Some (NULL, u') \<and> io_inv u' \<and>
    u_ctxs u' c = Some (y\<lparr>uc_head_sockets := u_malloc U u\<rparr>) \<and> u_socks u (u_malloc U u) = None \<and>
    u_socks u' (u_malloc U u) = Some x \<and> us_next x = uc_head_sockets y \<and> us_ctx x = c \<and> u_loops u' = u_loops u"
proof -
  let ?s = "u_malloc U u"
  let ?x = "(u_sock_garbage U u)\<lparr>us_ctx := c, us_timeout := 255, us_long_timeout := 255\<rparr>"
  have "finite (io_allocated u)" using assms(1) by (simp add: io_inv_def)
  then have s: "?s \<noteq> NULL" "u_socks u ?s = None" using assms(2) by (auto simp: io_malloc_ok_def io_allocated_def)
  obtain u1 where u1: "io_us_internal_socket_context_link_socket (u\<lparr>u_socks := (u_socks u)(?s \<mapsto> ?x)\<rparr>) c ?s = Some u1"
      "calm u u1" "u_socks u1 ?s = Some (?x\<lparr>us_ctx := c, us_next := uc_head_sockets y, us_prev := NULL\<rparr>)"
      "u_loops u1 = u_loops u" "u_heap u1 = u_heap u" "u_ctxs u1 = (u_ctxs u)(c \<mapsto> y\<lparr>uc_head_sockets := ?s\<rparr>)"
    using link_new_socket [OF assms(1) s assms(3), of ?x] by blast
  let ?q = "Getaddrinfo host (Some (port_string port)) 0 AF_UNSPEC SOCK_STREAM"
  let ?u2 = "snd (io_sys U u1 ?q)"
  have "io_inv u1" using u1(2) by (simp add: calm_def)
  then have "io_inv ?u2" by (rule io_inv_views) (simp_all add: io_sys_def sys_def)
  moreover have "io_us_socket_context_connect U u c host port source = Some (NULL, ?u2)"
    using assms(4) u1(1,5) by (simp add: io_us_socket_context_connect_def io_sys_def sys_def Let_def)
  ultimately show ?thesis using u1 s(2) by (simp add: io_sys_def sys_def)
qed

definition unresolved_env :: uenv where
  "unresolved_env = echo_io_env\<lparr>u_sys := (demo_env Epoll)\<lparr>sys_ret := \<lambda>_ _. -2\<rparr>\<rparr>"

theorem connect_failure_stays_linked_witness:
  "\<exists>u' x s. io_us_socket_context_connect unresolved_env demo_uring 16 (Some ''no.where'') 80 None = Some (NULL, u') \<and>
    u_ctxs u' 16 = Some (demo_uctx\<lparr>uc_head_sockets := s\<rparr>) \<and> u_socks demo_uring s = None \<and>
    u_socks u' s = Some x \<and> us_next x = 32"
proof -
  have m: "io_malloc_ok unresolved_env"
    using echo_io_malloc_ok by (simp add: io_malloc_ok_def unresolved_env_def)
  have c: "u_ctxs demo_uring 16 = Some demo_uctx" by (simp add: demo_uring_def)
  have "sys_ret (u_sys unresolved_env) t q \<noteq> 0" for t q by (simp add: unresolved_env_def)
  then obtain u' x where "io_us_socket_context_connect unresolved_env demo_uring 16 (Some ''no.where'') 80 None = Some (NULL, u')"
      "u_ctxs u' 16 = Some (demo_uctx\<lparr>uc_head_sockets := u_malloc unresolved_env demo_uring\<rparr>)"
      "u_socks demo_uring (u_malloc unresolved_env demo_uring) = None"
      "u_socks u' (u_malloc unresolved_env demo_uring) = Some x" "us_next x = uc_head_sockets demo_uctx"
    using connect_failure_stays_linked [OF demo_uring_inv m c] by blast
  moreover have "uc_head_sockets demo_uctx = 32" by (simp add: demo_uctx_def)
  ultimately show ?thesis by metis
qed

end
