(* ===== verification/Gcd.thy ===== *)
theory Gcd
  imports Store
begin

text \<open>
  The Grand Central Dispatch backend, \<open>eventing/gcd.c\<close>, an alternative to \<open>epoll_kqueue.c\<close> on Apple
  systems.  A poll has two dispatch sources, one for reading and one for writing, that are suspended and
  resumed as the events of the poll change.  The dispatch library is not part of the source: the calls into
  it are recorded, and so are the calls back into \<open>loop.c\<close>.  The names of the functions carry \<open>gcd_\<close> in
  front.
\<close>

subsection \<open>The structs\<close>

definition GCD_READABLE :: int where [simp]: "GCD_READABLE = 1"
definition GCD_WRITABLE :: int where [simp]: "GCD_WRITABLE = 2"

record gcd_us_poll_t =
  gp_events :: int
  gp_read :: ptr
  gp_write :: ptr
  gp_fd :: int
  gp_type :: u8

record gcd_callback_t =
  gcb_loop :: ptr
  gcb_fn :: "fnptr option"
  gcb_expects_the_loop :: int
  gcb_leave_poll_ready :: int
  gcb_source :: ptr

datatype gcd_source_type = DISPATCH_SOURCE_TYPE_READ | DISPATCH_SOURCE_TYPE_WRITE | DISPATCH_SOURCE_TYPE_TIMER

datatype gcd_handler = Gcd_read_handler | Gcd_write_handler | Gcd_timer_handler | Gcd_async_handler

text \<open>A source made by \<open>dispatch_source_create\<close> is the second argument of its entry.\<close>

datatype gcd_call =
    Dispatch_create gcd_source_type ptr int
  | Dispatch_set_context ptr ptr
  | Dispatch_set_event_handler ptr gcd_handler
  | Dispatch_set_cancel_handler ptr gcd_handler
  | Dispatch_resume ptr
  | Dispatch_suspend ptr
  | Dispatch_release ptr
  | Dispatch_activate ptr
  | Dispatch_set_timer ptr nat nat nat
  | Dispatch_async ptr gcd_handler
  | CFRunLoopRun
  | Gcd_dispatch_poll ptr int int
  | Gcd_loop_data_init ptr fnptr fnptr fnptr | Gcd_loop_data_free ptr | Gcd_loop_integrate ptr
  | Gcd_call_cb fnptr ptr

record gcds =
  g_polls :: "ptr \<rightharpoonup> gcd_us_poll_t"
  g_cbs :: "ptr \<rightharpoonup> gcd_callback_t"
  g_loops :: "ptr set"
  g_log :: "gcd_call list"

record gcd_env =
  g_malloc :: "gcds \<Rightarrow> ptr"
  g_realloc :: "gcds \<Rightarrow> ptr \<Rightarrow> ptr"
  g_new_source :: "gcd_call list \<Rightarrow> ptr"
  g_poll_garbage :: "gcds \<Rightarrow> gcd_us_poll_t"

definition gcd_log :: "gcds \<Rightarrow> gcd_call \<Rightarrow> gcds" where
  "gcd_log g c = g\<lparr>g_log := g_log g @ [c]\<rparr>"

definition set_gpoll :: "gcds \<Rightarrow> ptr \<Rightarrow> (gcd_us_poll_t \<Rightarrow> gcd_us_poll_t) \<Rightarrow> gcds option" where
  "set_gpoll g p f = do { x \<leftarrow> g_polls g p; Some (g\<lparr>g_polls := (g_polls g)(p \<mapsto> f x)\<rparr>) }"

definition set_gcb :: "gcds \<Rightarrow> ptr \<Rightarrow> (gcd_callback_t \<Rightarrow> gcd_callback_t) \<Rightarrow> gcds option" where
  "set_gcb g p f = do { x \<leftarrow> g_cbs g p; Some (g\<lparr>g_cbs := (g_cbs g)(p \<mapsto> f x)\<rparr>) }"

definition gcd_create_source :: "gcd_env \<Rightarrow> gcds \<Rightarrow> gcd_source_type \<Rightarrow> int \<Rightarrow> ptr \<times> gcds" where
  "gcd_create_source G g ty f = (let s = g_new_source G (g_log g) in (s, gcd_log g (Dispatch_create ty s f)))"

subsection \<open>Loops\<close>

definition gcd_us_create_loop :: "gcd_env \<Rightarrow> gcds \<Rightarrow> fnptr \<Rightarrow> fnptr \<Rightarrow> fnptr \<Rightarrow> ptr \<times> gcds" where
  "gcd_us_create_loop G g wakeup_fn pre_fn post_fn =
     (let l = g_malloc G g
      in (l, gcd_log (g\<lparr>g_loops := insert l (g_loops g)\<rparr>) (Gcd_loop_data_init l wakeup_fn pre_fn post_fn)))"

definition gcd_us_loop_free :: "gcds \<Rightarrow> ptr \<Rightarrow> gcds option" where
  "gcd_us_loop_free g l =
     (let g = gcd_log g (Gcd_loop_data_free l)
      in if l \<in> g_loops g then Some (g\<lparr>g_loops := g_loops g - {l}\<rparr>) else None)"

definition gcd_us_loop_run :: "gcds \<Rightarrow> ptr \<Rightarrow> gcds" where
  "gcd_us_loop_run g l = gcd_log (gcd_log g (Gcd_loop_integrate l)) CFRunLoopRun"

definition gcd_read_handler :: "gcds \<Rightarrow> ptr \<Rightarrow> gcds" where
  "gcd_read_handler g p = gcd_log g (Gcd_dispatch_poll p 0 GCD_READABLE)"

definition gcd_write_handler :: "gcds \<Rightarrow> ptr \<Rightarrow> gcds" where
  "gcd_write_handler g p = gcd_log g (Gcd_dispatch_poll p 0 GCD_WRITABLE)"

subsection \<open>Polls\<close>

definition gcd_us_internal_poll_type :: "gcd_us_poll_t \<Rightarrow> u8" where
  "gcd_us_internal_poll_type p = gp_type p AND 3"

definition gcd_us_poll_events :: "gcd_us_poll_t \<Rightarrow> int" where "gcd_us_poll_events p = gp_events p"

definition gcd_us_poll_fd :: "gcd_us_poll_t \<Rightarrow> int" where "gcd_us_poll_fd p = gp_fd p"

definition gcd_us_poll_init :: "gcd_env \<Rightarrow> gcds \<Rightarrow> ptr \<Rightarrow> int \<Rightarrow> u8 \<Rightarrow> gcds option" where
  "gcd_us_poll_init G g p f pt = do {
     g \<leftarrow> set_gpoll g p (\<lambda>x. x\<lparr>gp_type := pt\<rparr>);
     g \<leftarrow> set_gpoll g p (\<lambda>x. x\<lparr>gp_fd := f\<rparr>);
     let (r, g) = gcd_create_source G g DISPATCH_SOURCE_TYPE_READ f;
     g \<leftarrow> set_gpoll g p (\<lambda>x. x\<lparr>gp_read := r\<rparr>);
     let g = gcd_log g (Dispatch_set_context r p);
     let g = gcd_log g (Dispatch_set_event_handler r Gcd_read_handler);
     let g = gcd_log g (Dispatch_set_cancel_handler r Gcd_read_handler);
     let (w, g) = gcd_create_source G g DISPATCH_SOURCE_TYPE_WRITE f;
     g \<leftarrow> set_gpoll g p (\<lambda>x. x\<lparr>gp_write := w\<rparr>);
     let g = gcd_log g (Dispatch_set_context w p);
     let g = gcd_log g (Dispatch_set_event_handler w Gcd_write_handler);
     Some (gcd_log g (Dispatch_set_cancel_handler w Gcd_write_handler)) }"

definition gcd_us_poll_start :: "gcds \<Rightarrow> ptr \<Rightarrow> int \<Rightarrow> gcds option" where
  "gcd_us_poll_start g p events = do {
     g \<leftarrow> set_gpoll g p (\<lambda>x. x\<lparr>gp_events := events\<rparr>);
     x \<leftarrow> g_polls g p;
     let g = (if events AND GCD_READABLE \<noteq> 0 then gcd_log g (Dispatch_resume (gp_read x)) else g);
     Some (if events AND GCD_WRITABLE \<noteq> 0 then gcd_log g (Dispatch_resume (gp_write x)) else g) }"

definition gcd_us_poll_change :: "gcds \<Rightarrow> ptr \<Rightarrow> int \<Rightarrow> gcds option" where
  "gcd_us_poll_change g p events = do {
     x \<leftarrow> g_polls g p;
     let old_events = gp_events x;
     let g = (if old_events AND GCD_READABLE \<noteq> events AND GCD_READABLE
              then gcd_log g (if old_events AND GCD_READABLE \<noteq> 0 then Dispatch_suspend (gp_read x)
                              else Dispatch_resume (gp_read x))
              else g);
     let g = (if old_events AND GCD_WRITABLE \<noteq> events AND GCD_WRITABLE
              then gcd_log g (if old_events AND GCD_WRITABLE \<noteq> 0 then Dispatch_suspend (gp_write x)
                              else Dispatch_resume (gp_write x))
              else g);
     set_gpoll g p (\<lambda>x. x\<lparr>gp_events := events\<rparr>) }"

definition gcd_us_poll_stop :: "gcds \<Rightarrow> ptr \<Rightarrow> gcds option" where
  "gcd_us_poll_stop g p = do {
     x \<leftarrow> g_polls g p;
     let g = (if gp_events x AND GCD_READABLE \<noteq> 0 then gcd_log g (Dispatch_suspend (gp_read x)) else g);
     let g = (if gp_events x AND GCD_WRITABLE \<noteq> 0 then gcd_log g (Dispatch_suspend (gp_write x)) else g);
     set_gpoll g p (\<lambda>x. x\<lparr>gp_events := 0\<rparr>) }"

definition gcd_us_poll_free :: "gcds \<Rightarrow> ptr \<Rightarrow> gcds option" where
  "gcd_us_poll_free g p = do {
     g \<leftarrow> gcd_us_poll_change g p (GCD_READABLE OR GCD_WRITABLE);
     x \<leftarrow> g_polls g p;
     let g = gcd_log g (Dispatch_release (gp_read x));
     let g = gcd_log g (Dispatch_release (gp_write x));
     Some (g\<lparr>g_polls := (g_polls g)(p := None)\<rparr>) }"

definition gcd_us_internal_accept_poll_event :: "ptr \<Rightarrow> nat" where
  "gcd_us_internal_accept_poll_event p = 0"

definition gcd_us_internal_poll_set_type :: "gcds \<Rightarrow> ptr \<Rightarrow> u8 \<Rightarrow> gcds option" where
  "gcd_us_internal_poll_set_type g p pt = set_gpoll g p (\<lambda>x. x\<lparr>gp_type := pt\<rparr>)"

definition gcd_us_create_poll :: "gcd_env \<Rightarrow> gcds \<Rightarrow> ptr \<times> gcds" where
  "gcd_us_create_poll G g =
     (let p = g_malloc G g in (p, g\<lparr>g_polls := (g_polls g)(p \<mapsto> g_poll_garbage G g)\<rparr>))"

text \<open>When the block moves, the sources, which know the old address, are released and made anew.\<close>

definition gcd_us_poll_resize :: "gcd_env \<Rightarrow> gcds \<Rightarrow> ptr \<Rightarrow> (ptr \<times> gcds) option" where
  "gcd_us_poll_resize G g p = do {
     x \<leftarrow> g_polls g p;
     let events = gcd_us_poll_events x;
     let new_p = g_realloc G g p;
     let g = g\<lparr>g_polls := (g_polls g)(p := None, new_p \<mapsto> x)\<rparr>;
     g \<leftarrow> (if p \<noteq> new_p then do {
             g \<leftarrow> gcd_us_poll_change g new_p (GCD_READABLE OR GCD_WRITABLE);
             x \<leftarrow> g_polls g new_p;
             let g = gcd_log g (Dispatch_release (gp_read x));
             let g = gcd_log g (Dispatch_release (gp_write x));
             g \<leftarrow> gcd_us_poll_init G g new_p (gcd_us_poll_fd x) (gcd_us_internal_poll_type x);
             gcd_us_poll_start g new_p events }
           else Some g);
     Some (new_p, g) }"

subsection \<open>Timers and asyncs\<close>

definition gcd_timer_handler :: "gcds \<Rightarrow> ptr \<Rightarrow> gcds option" where
  "gcd_timer_handler g t = do { x \<leftarrow> g_cbs g t; f \<leftarrow> gcb_fn x; Some (gcd_log g (Gcd_call_cb f t)) }"

definition gcd_us_create_timer :: "gcd_env \<Rightarrow> gcds \<Rightarrow> ptr \<Rightarrow> bool \<Rightarrow> ptr \<times> gcds" where
  "gcd_us_create_timer G g l fallthrough =
     (let cb = g_malloc G g;
          (s, g) = gcd_create_source G g DISPATCH_SOURCE_TYPE_TIMER 0;
          g = g\<lparr>g_cbs := (g_cbs g)(cb \<mapsto> \<lparr>gcb_loop = l, gcb_fn = None, gcb_expects_the_loop = 0,
            gcb_leave_poll_ready = 0, gcb_source = s\<rparr>)\<rparr>;
          g = gcd_log g (Dispatch_set_event_handler s Gcd_timer_handler)
      in (cb, gcd_log g (Dispatch_set_context s cb)))"

definition gcd_us_timer_close :: "gcds \<Rightarrow> ptr \<Rightarrow> gcds" where "gcd_us_timer_close g t = g"

text \<open>The milliseconds are widened to 64 unsigned bits; the repetition is the interval itself.\<close>

definition gcd_us_timer_set :: "gcds \<Rightarrow> ptr \<Rightarrow> fnptr \<Rightarrow> int \<Rightarrow> int \<Rightarrow> gcds option" where
  "gcd_us_timer_set g t cb ms repeat_ms = do {
     g \<leftarrow> set_gcb g t (\<lambda>x. x\<lparr>gcb_fn := Some cb\<rparr>);
     x \<leftarrow> g_cbs g t;
     let nanos = (word_of_int ms :: u64) * 1000000;
     let g = gcd_log g (Dispatch_set_timer (gcb_source x) 0 (unat nanos) 0);
     Some (gcd_log g (Dispatch_activate (gcb_source x))) }"

definition gcd_us_timer_loop :: "gcds \<Rightarrow> ptr \<Rightarrow> ptr option" where
  "gcd_us_timer_loop g t = map_option gcb_loop (g_cbs g t)"

definition gcd_async_handler :: "gcds \<Rightarrow> ptr \<Rightarrow> gcds option" where
  "gcd_async_handler g c = do { x \<leftarrow> g_cbs g c; f \<leftarrow> gcb_fn x; Some (gcd_log g (Gcd_call_cb f (gcb_loop x))) }"

definition gcd_us_internal_create_async :: "gcd_env \<Rightarrow> gcds \<Rightarrow> ptr \<Rightarrow> bool \<Rightarrow> ptr \<times> gcds" where
  "gcd_us_internal_create_async G g l fallthrough =
     (let cb = g_malloc G g
      in (cb, g\<lparr>g_cbs := (g_cbs g)(cb \<mapsto> \<lparr>gcb_loop = l, gcb_fn = None, gcb_expects_the_loop = 1,
        gcb_leave_poll_ready = 0, gcb_source = NULL\<rparr>)\<rparr>))"

definition gcd_us_internal_async_close :: "gcds \<Rightarrow> ptr \<Rightarrow> gcds" where "gcd_us_internal_async_close g a = g"

definition gcd_us_internal_async_set :: "gcds \<Rightarrow> ptr \<Rightarrow> fnptr \<Rightarrow> gcds option" where
  "gcd_us_internal_async_set g a cb = set_gcb g a (\<lambda>x. x\<lparr>gcb_fn := Some cb\<rparr>)"

definition gcd_us_internal_async_wakeup :: "gcds \<Rightarrow> ptr \<Rightarrow> gcds" where
  "gcd_us_internal_async_wakeup g a = gcd_log g (Dispatch_async a Gcd_async_handler)"

end
