(* ===== verification/Gcd_sources.thy ===== *)
theory Gcd_sources
  imports Gcd
begin

text \<open>
  The dispatch sources of the GCD backend.  A source is made suspended; resuming one that is not
  suspended, and releasing one that is, are errors that abort the program.  \<open>source_state\<close> follows one
  source through the recorded calls, and the property is that the functions on polls never misuse one.
\<close>

datatype source_state = Absent | Suspended nat | Released | Misused

definition dead :: "source_state \<Rightarrow> bool" where "dead st \<longleftrightarrow> st = Absent \<or> st = Released"

text \<open>A released source may be handed out anew.\<close>

fun source_step :: "ptr \<Rightarrow> source_state \<Rightarrow> gcd_call \<Rightarrow> source_state" where
  "source_step s st (Dispatch_create ty s' f) =
     (if s' = s then (if dead st then Suspended 1 else Misused) else st)"
| "source_step s st (Dispatch_resume s') =
     (if s' = s then (case st of Suspended (Suc n) \<Rightarrow> Suspended n | _ \<Rightarrow> Misused) else st)"
| "source_step s st (Dispatch_suspend s') =
     (if s' = s then (case st of Suspended n \<Rightarrow> Suspended (Suc n) | _ \<Rightarrow> Misused) else st)"
| "source_step s st (Dispatch_release s') =
     (if s' = s then (case st of Suspended 0 \<Rightarrow> Released | _ \<Rightarrow> Misused) else st)"
| "source_step s st _ = st"

definition source_state :: "gcd_call list \<Rightarrow> ptr \<Rightarrow> source_state" where
  "source_state log s = foldl (source_step s) Absent log"

lemma source_state_append [simp]:
  "source_state (log @ cs) s = foldl (source_step s) (source_state log s) cs"
  by (simp add: source_state_def)

lemma dead_simps [simp]: "dead Absent" "dead Released" "\<not> dead (Suspended n)" "\<not> dead Misused"
  by (simp_all add: dead_def)

text \<open>The library does not hand out a source that is in use.\<close>

definition fresh_sources :: "gcd_env \<Rightarrow> bool" where
  "fresh_sources G \<longleftrightarrow> (\<forall>log. dead (source_state log (g_new_source G log)))"

text \<open>
  The sources of a poll are resumed for exactly its events.  Since the time \<open>log0\<close> no other source has
  changed, but that some that were not in use then have been made and released.
\<close>

definition running :: "int \<Rightarrow> int \<Rightarrow> source_state" where
  "running events b = Suspended (if events AND b \<noteq> 0 then 0 else 1)"

definition gcd_in_step :: "gcds \<Rightarrow> ptr \<Rightarrow> bool" where
  "gcd_in_step g p = (case g_polls g p of None \<Rightarrow> False | Some x \<Rightarrow>
     source_state (g_log g) (gp_read x) = running (gp_events x) GCD_READABLE \<and>
     source_state (g_log g) (gp_write x) = running (gp_events x) GCD_WRITABLE \<and> gp_read x \<noteq> gp_write x)"

definition sources_of :: "gcds \<Rightarrow> ptr \<Rightarrow> ptr set" where
  "sources_of g p = (case g_polls g p of None \<Rightarrow> {} | Some x \<Rightarrow> {gp_read x, gp_write x})"

definition settled :: "gcd_call list \<Rightarrow> gcd_call list \<Rightarrow> ptr \<Rightarrow> bool" where
  "settled log0 log s \<longleftrightarrow> source_state log s = source_state log0 s \<or>
     (dead (source_state log0 s) \<and> source_state log s = Released)"

definition owned_since :: "gcd_call list \<Rightarrow> gcds \<Rightarrow> ptr \<Rightarrow> bool" where
  "owned_since log0 g p \<longleftrightarrow> gcd_in_step g p \<and>
     (\<forall>s. if s \<in> sources_of g p then dead (source_state log0 s) else settled log0 (g_log g) s)"

lemmas gcd_step_defs = gcd_log_def set_gpoll_def running_def gcd_in_step_def sources_of_def

lemma one_bit: "(c::int) AND 2 ^ n = of_bool (bit c n) * 2 ^ n"
  by (rule bit_eqI) (auto simp: bit_simps)

lemma bit_test_eq:
  "((a::int) AND 1 = b AND 1) = ((a AND 1 \<noteq> 0) = (b AND 1 \<noteq> 0))"
  "((a::int) AND 2 = b AND 2) = ((a AND 2 \<noteq> 0) = (b AND 2 \<noteq> 0))"
  using one_bit [of _ 0] one_bit [of _ 1] by simp_all

subsection \<open>The operations on a poll\<close>

text \<open>What every operation but moving and freeing does: the same sources, their counts fitting the events.\<close>

definition gcd_keeps :: "gcds \<Rightarrow> ptr \<Rightarrow> gcds \<Rightarrow> bool" where
  "gcd_keeps g p g' \<longleftrightarrow> gcd_in_step g' p \<and> sources_of g' p = sources_of g p \<and>
     (\<forall>s. s \<notin> sources_of g p \<longrightarrow> source_state (g_log g') s = source_state (g_log g) s)"

lemma gcd_change_keeps:
  assumes "gcd_in_step g p"
  shows "\<exists>g'. gcd_us_poll_change g p events = Some g' \<and> gcd_keeps g p g' \<and>
    map_option gp_events (g_polls g' p) = Some events"
proof -
  from assms obtain x where x: "g_polls g p = Some x"
    "source_state (g_log g) (gp_read x) = running (gp_events x) GCD_READABLE"
    "source_state (g_log g) (gp_write x) = running (gp_events x) GCD_WRITABLE" "gp_read x \<noteq> gp_write x"
    by (auto simp: gcd_in_step_def split: option.splits)
  then show ?thesis
    using bit_test_eq [of "gp_events x" events]
    by (auto simp: gcd_us_poll_change_def gcd_step_defs gcd_keeps_def Let_def split: if_splits)
qed

lemma gcd_stop_keeps:
  assumes "gcd_in_step g p"
  shows "\<exists>g'. gcd_us_poll_stop g p = Some g' \<and> gcd_keeps g p g'"
  using assms by (auto simp: gcd_us_poll_stop_def gcd_step_defs gcd_keeps_def Let_def split: option.splits if_splits)

lemma gcd_set_type_keeps:
  assumes "gcd_in_step g p"
  shows "\<exists>g'. gcd_us_internal_poll_set_type g p pt = Some g' \<and> gcd_keeps g p g'"
  using assms by (auto simp: gcd_us_internal_poll_set_type_def gcd_step_defs gcd_keeps_def split: option.splits)

lemma gcd_keeps_owned: "gcd_keeps g p g' \<Longrightarrow> owned_since log0 g p \<Longrightarrow> owned_since log0 g' p"
  unfolding owned_since_def gcd_keeps_def settled_def by (metis (no_types, lifting))

text \<open>Letting both sources go: they are resumed first, since a suspended one must not be released.\<close>

lemma gcd_released:
  assumes "gcd_in_step g p"
  shows "\<exists>g1 x. gcd_us_poll_change g p 3 = Some g1 \<and> g_polls g1 p = Some x \<and>
    (\<forall>s. source_state (g_log g1 @ [Dispatch_release (gp_read x), Dispatch_release (gp_write x)]) s =
       (if s \<in> sources_of g p then Released else source_state (g_log g) s))"
proof -
  from gcd_change_keeps [OF assms, of 3] obtain g1 where g1: "gcd_us_poll_change g p 3 = Some g1"
    "gcd_keeps g p g1" "map_option gp_events (g_polls g1 p) = Some 3" by blast
  then obtain x where x: "g_polls g1 p = Some x" "gp_events x = 3" by auto
  from g1(2) x have "source_state (g_log g1) (gp_read x) = Suspended 0"
    "source_state (g_log g1) (gp_write x) = Suspended 0" "gp_read x \<noteq> gp_write x"
    "sources_of g p = {gp_read x, gp_write x}"
    by (auto simp: gcd_keeps_def gcd_in_step_def running_def sources_of_def)
  with g1 x show ?thesis by (auto simp: gcd_keeps_def)
qed

text \<open>New sources, and the events they are to report.\<close>

lemma gcd_init_start:
  assumes "fresh_sources G" "g_polls g p = Some x"
  shows "\<exists>g1 g2. gcd_us_poll_init G g p f pt = Some g1 \<and> gcd_us_poll_start g1 p events = Some g2 \<and>
    gcd_in_step g2 p \<and> (\<forall>s. if s \<in> sources_of g2 p then dead (source_state (g_log g) s)
                            else source_state (g_log g2) s = source_state (g_log g) s)"
proof -
  define r where "r = g_new_source G (g_log g)"
  define log where "log = g_log g @ [Dispatch_create DISPATCH_SOURCE_TYPE_READ r f, Dispatch_set_context r p,
    Dispatch_set_event_handler r Gcd_read_handler, Dispatch_set_cancel_handler r Gcd_read_handler]"
  define w where "w = g_new_source G log"
  have dead: "dead (source_state (g_log g) r)" "dead (source_state log w)"
    using assms(1) by (simp_all add: fresh_sources_def r_def w_def)
  then have "r \<noteq> w" by (auto simp: log_def)
  with dead have w: "dead (source_state (g_log g) w)" by (simp add: log_def)
  have "gcd_us_poll_init G g p f pt = Some (g\<lparr>g_polls := (g_polls g)(p \<mapsto>
      x\<lparr>gp_type := pt, gp_fd := f, gp_read := r, gp_write := w\<rparr>),
      g_log := log @ [Dispatch_create DISPATCH_SOURCE_TYPE_WRITE w f, Dispatch_set_context w p,
        Dispatch_set_event_handler w Gcd_write_handler, Dispatch_set_cancel_handler w Gcd_write_handler]\<rparr>)"
    using assms(2) unfolding w_def log_def
    by (simp add: gcd_us_poll_init_def gcd_create_source_def set_gpoll_def gcd_log_def Let_def r_def)
  then show ?thesis
    using dead(1) w \<open>r \<noteq> w\<close> unfolding log_def
    by (auto simp: gcd_us_poll_start_def gcd_step_defs Let_def)
qed

lemma gcd_resize_owned:
  assumes "fresh_sources G" "owned_since log0 g p"
  shows "\<exists>p' g'. gcd_us_poll_resize G g p = Some (p', g') \<and> owned_since log0 g' p'"
proof -
  define p' where "p' = g_realloc G g p"
  from assms(2) obtain x where x: "g_polls g p = Some x" by (auto simp: owned_since_def gcd_in_step_def split: option.splits)
  define g0 where "g0 = g\<lparr>g_polls := (g_polls g)(p := None, p' \<mapsto> x)\<rparr>"
  have owned: "owned_since log0 g0 p'"
    using assms(2) x by (simp add: owned_since_def gcd_in_step_def sources_of_def g0_def)
  show ?thesis
  proof (cases "p' = p")
    case True
    with x have "gcd_us_poll_resize G g p = Some (p, g0)"
      by (simp add: gcd_us_poll_resize_def p'_def [symmetric] g0_def Let_def)
    with owned True show ?thesis by blast
  next
    case False
    from owned have "gcd_in_step g0 p'" by (simp add: owned_since_def)
    from gcd_released [OF this] obtain g1 y where g1: "gcd_us_poll_change g0 p' 3 = Some g1"
      "g_polls g1 p' = Some y"
      "\<And>s. source_state (g_log g1 @ [Dispatch_release (gp_read y), Dispatch_release (gp_write y)]) s =
        (if s \<in> sources_of g0 p' then Released else source_state (g_log g0) s)" by blast
    define g2 where "g2 = gcd_log (gcd_log g1 (Dispatch_release (gp_read y))) (Dispatch_release (gp_write y))"
    have g2: "g_polls g2 p' = Some y" "g_log g2 = g_log g1 @ [Dispatch_release (gp_read y), Dispatch_release (gp_write y)]"
      using g1(2) by (simp_all add: g2_def gcd_log_def)
    have settled: "settled log0 (g_log g2) s" for s
      using owned unfolding g2(2) settled_def g1(3) by (auto simp: owned_since_def settled_def split: if_splits)
    from gcd_init_start [OF assms(1) g2(1)] obtain g3 g4 where g4:
      "gcd_us_poll_init G g2 p' (gp_fd y) (gp_type y AND 3) = Some g3"
      "gcd_us_poll_start g3 p' (gp_events x) = Some g4" "gcd_in_step g4 p'"
      "\<forall>s. if s \<in> sources_of g4 p' then dead (source_state (g_log g2) s)
           else source_state (g_log g4) s = source_state (g_log g2) s" by blast
    have "owned_since log0 g4 p'"
      using g4(3,4) settled unfolding owned_since_def settled_def by (metis dead_simps)
    moreover have "gcd_us_poll_resize G g p = Some (p', g4)"
      using False x g1(1,2) g4(1,2) unfolding g2_def
      by (simp add: gcd_us_poll_resize_def p'_def [symmetric] g0_def [symmetric] Let_def
          gcd_us_poll_events_def gcd_us_poll_fd_def gcd_us_internal_poll_type_def)
    ultimately show ?thesis by blast
  qed
qed

lemma gcd_free_settled:
  assumes "owned_since log0 g p"
  shows "\<exists>g'. gcd_us_poll_free g p = Some g' \<and> g_polls g' p = None \<and> (\<forall>s. settled log0 (g_log g') s)"
proof -
  from assms have "gcd_in_step g p" by (simp add: owned_since_def)
  from gcd_released [OF this] obtain g1 x where g1: "gcd_us_poll_change g p 3 = Some g1" "g_polls g1 p = Some x"
    "\<And>s. source_state (g_log g1 @ [Dispatch_release (gp_read x), Dispatch_release (gp_write x)]) s =
      (if s \<in> sources_of g p then Released else source_state (g_log g) s)" by blast
  have "settled log0 (g_log g1 @ [Dispatch_release (gp_read x), Dispatch_release (gp_write x)]) s" for s
    using assms unfolding settled_def g1(3) by (auto simp: owned_since_def settled_def split: if_splits)
  with g1(1,2) show ?thesis by (auto simp: gcd_us_poll_free_def gcd_log_def)
qed

subsection \<open>The life of a poll\<close>

datatype poll_op = Op_change int | Op_stop | Op_set_type u8 | Op_resize

fun gcd_op :: "gcd_env \<Rightarrow> gcds \<Rightarrow> ptr \<Rightarrow> poll_op \<Rightarrow> (ptr \<times> gcds) option" where
  "gcd_op G g p (Op_change events) = map_option (Pair p) (gcd_us_poll_change g p events)"
| "gcd_op G g p Op_stop = map_option (Pair p) (gcd_us_poll_stop g p)"
| "gcd_op G g p (Op_set_type pt) = map_option (Pair p) (gcd_us_internal_poll_set_type g p pt)"
| "gcd_op G g p Op_resize = gcd_us_poll_resize G g p"

fun gcd_ops :: "gcd_env \<Rightarrow> gcds \<Rightarrow> ptr \<Rightarrow> poll_op list \<Rightarrow> (ptr \<times> gcds) option" where
  "gcd_ops G g p [] = Some (p, g)"
| "gcd_ops G g p (x # xs) = do { (p, g) \<leftarrow> gcd_op G g p x; gcd_ops G g p xs }"

definition gcd_poll_life :: "gcd_env \<Rightarrow> gcds \<Rightarrow> int \<Rightarrow> u8 \<Rightarrow> int \<Rightarrow> poll_op list \<Rightarrow> (ptr \<times> gcds) option" where
  "gcd_poll_life G g f pt events ops = do {
     let (p, g) = gcd_us_create_poll G g;
     g \<leftarrow> gcd_us_poll_init G g p f pt;
     g \<leftarrow> gcd_us_poll_start g p events;
     gcd_ops G g p ops }"

lemma gcd_op_owned:
  assumes "fresh_sources G" "owned_since log0 g p"
  shows "\<exists>p' g'. gcd_op G g p x = Some (p', g') \<and> owned_since log0 g' p'"
proof -
  from assms(2) have s: "gcd_in_step g p" by (simp add: owned_since_def)
  show ?thesis
    using gcd_keeps_owned [OF _ assms(2)] gcd_change_keeps [OF s] gcd_stop_keeps [OF s] gcd_set_type_keeps [OF s]
      gcd_resize_owned [OF assms]
    by (cases x) fastforce+
qed

lemma gcd_ops_owned:
  "fresh_sources G \<Longrightarrow> owned_since log0 g p \<Longrightarrow> \<exists>p' g'. gcd_ops G g p xs = Some (p', g') \<and> owned_since log0 g' p'"
proof (induction xs arbitrary: g p)
  case (Cons x xs)
  from gcd_op_owned [OF Cons.prems] obtain p1 g1 where "gcd_op G g p x = Some (p1, g1)" "owned_since log0 g1 p1"
    by blast
  with Cons.IH [OF Cons.prems(1), of g1 p1] show ?case by simp
qed simp

text \<open>
  C23: a poll of the GCD backend that is started once and then changed, stopped, retyped and moved in any order
  always has its two dispatch sources resumed exactly for the events it polls for; when it is then freed every
  source made on the way has been released, none was resumed when running or released when suspended (which
  would abort the program), and no other source was touched.
\<close>

theorem gcd_sources_balanced:
  assumes "fresh_sources G"
  shows "\<exists>p g'. gcd_poll_life G g f pt events ops = Some (p, g') \<and> gcd_in_step g' p \<and>
    (\<exists>g''. gcd_us_poll_free g' p = Some g'' \<and> g_polls g'' p = None \<and>
      (\<forall>s. source_state (g_log g'') s = source_state (g_log g) s \<or>
         (dead (source_state (g_log g) s) \<and> source_state (g_log g'') s = Released)))"
proof -
  obtain q g0 where create: "gcd_us_create_poll G g = (q, g0)" by fastforce
  then have log0: "g_log g0 = g_log g" and "\<exists>x. g_polls g0 q = Some x"
    by (auto simp: gcd_us_create_poll_def Let_def)
  then obtain x where "g_polls g0 q = Some x" by blast
  from gcd_init_start [OF assms this, of f pt events] obtain g1 g2 where started:
    "gcd_us_poll_init G g0 q f pt = Some g1" "gcd_us_poll_start g1 q events = Some g2" "gcd_in_step g2 q"
    "\<forall>s. if s \<in> sources_of g2 q then dead (source_state (g_log g0) s)
         else source_state (g_log g2) s = source_state (g_log g0) s" by blast
  then have "owned_since (g_log g) g2 q" unfolding owned_since_def settled_def log0 by auto
  from gcd_ops_owned [OF assms this, of ops] obtain p g' where ops: "gcd_ops G g2 q ops = Some (p, g')"
    "owned_since (g_log g) g' p" by blast
  then have "gcd_poll_life G g f pt events ops = Some (p, g')"
    using create started(1,2) by (simp add: gcd_poll_life_def)
  then show ?thesis
    using ops(2) gcd_free_settled [OF ops(2)] by (auto simp: owned_since_def settled_def)
qed

text \<open>A library that numbers its sources, and a poll moved while it reads and writes.\<close>

fun source_named :: "gcd_call \<Rightarrow> nat" where
  "source_named (Dispatch_create ty s f) = s"
| "source_named (Dispatch_resume s) = s"
| "source_named (Dispatch_suspend s) = s"
| "source_named (Dispatch_release s) = s"
| "source_named _ = 0"

definition numbering_env :: gcd_env where
  "numbering_env = \<lparr>g_malloc = (\<lambda>g. 100), g_realloc = (\<lambda>g p. p + 100),
     g_new_source = (\<lambda>log. Suc (foldr (\<lambda>c m. max (source_named c) m) log 0)),
     g_poll_garbage = (\<lambda>g. \<lparr>gp_events = 7, gp_read = 0, gp_write = 0, gp_fd = 0, gp_type = 9\<rparr>)\<rparr>"

lemma named_below: "foldr (\<lambda>c m. max (source_named c) m) log 0 < s \<Longrightarrow> \<forall>c \<in> set log. source_named c < s"
  by (induction log) auto

lemma unnamed_source_absent: "\<forall>c \<in> set log. source_named c < s \<Longrightarrow> source_state log s = Absent"
proof (induction log rule: rev_induct)
  case (snoc c log)
  then show ?case by (cases c) simp_all
qed (simp add: source_state_def)

lemma numbering_env_fresh: "fresh_sources numbering_env"
  using unnamed_source_absent [OF named_below] by (simp add: fresh_sources_def numbering_env_def)

lemma gcd_sources_balanced_witness:
  "\<exists>p g'. gcd_poll_life numbering_env \<lparr>g_polls = Map.empty, g_cbs = Map.empty, g_loops = {}, g_log = []\<rparr> 5 1 3
       [Op_stop, Op_change 1, Op_resize, Op_set_type 2, Op_change 2] = Some (p, g') \<and> gcd_in_step g' p \<and>
    (\<exists>g''. gcd_us_poll_free g' p = Some g'' \<and> g_polls g'' p = None \<and>
      (\<forall>s. source_state (g_log g'') s = source_state [] s \<or>
         (dead (source_state [] s) \<and> source_state (g_log g'') s = Released)))"
  using gcd_sources_balanced [OF numbering_env_fresh,
    of "\<lparr>g_polls = Map.empty, g_cbs = Map.empty, g_loops = {}, g_log = []\<rparr>" 5 1 3
      "[Op_stop, Op_change 1, Op_resize, Op_set_type 2, Op_change 2]"] by simp

end
