(* ===== verification/Libuv.thy ===== *)
theory Libuv
  imports Store
begin

text \<open>
  The libuv backend, \<open>eventing/libuv.c\<close>, an alternative to \<open>epoll_kqueue.c\<close>.  It has its own poll and
  loop structs, so it has a store of its own.  libuv is not part of the source: the calls into it are
  recorded, what \<open>uv_is_closing\<close> answers is a function of the record, and the callbacks given to it are
  functions here that the environment may call.  The calls back into \<open>loop.c\<close> are recorded as well.

  A poll is two blocks of memory, the poll and the \<open>uv_poll_t\<close> it points to, and both have to outlive
  \<open>uv_close\<close>: the point of this backend is who frees them, and when.  The names of its functions carry
  \<open>uv_\<close> in front.
\<close>

subsection \<open>The structs\<close>

definition UV_READABLE :: int where [simp]: "UV_READABLE = 1"
definition UV_WRITABLE :: int where [simp]: "UV_WRITABLE = 2"

record uv_us_poll_t =
  vp_uv :: ptr
  vp_fd :: int
  vp_type :: u8

record uv_us_loop_t =
  vl_uv_loop :: ptr
  vl_is_default :: bool
  vl_pre :: ptr
  vl_check :: ptr

text \<open>
  A callback object; the \<open>uv_timer_t\<close> or \<open>uv_async_t\<close> behind it is known by the same address.  The fields
  \<open>cb_expects_the_loop\<close> and \<open>leave_poll_ready\<close> are left out: this backend never reads them.
\<close>

record uv_callback_t =
  vcb_loop :: ptr
  vcb_fn :: "fnptr option"
  vcb_data :: ptr

datatype uv_close_cb = Close_cb_free | Close_cb_free_poll

datatype uv_run_mode = UV_RUN_DEFAULT | UV_RUN_NOWAIT

datatype uv_call =
    Uv_loop_new
  | Uv_loop_delete ptr
  | Uv_run ptr uv_run_mode
  | Uv_poll_init_socket ptr ptr int
  | Uv_poll_start ptr int
  | Uv_poll_stop ptr
  | Uv_prepare_init ptr ptr | Uv_prepare_start ptr | Uv_prepare_stop ptr
  | Uv_check_init ptr ptr | Uv_check_start ptr | Uv_check_stop ptr
  | Uv_timer_init ptr ptr | Uv_timer_start ptr int int | Uv_timer_stop ptr
  | Uv_async_init ptr ptr | Uv_async_send ptr
  | Uv_ref ptr | Uv_unref ptr
  | Uv_close ptr uv_close_cb
  | Uv_closed ptr
  | Uv_free ptr
  | Uv_dispatch ptr bool int
  | Uv_loop_pre ptr | Uv_loop_post ptr
  | Uv_loop_data_init ptr fnptr fnptr fnptr | Uv_loop_data_free ptr | Uv_loop_integrate ptr
  | Uv_call_cb fnptr ptr

text \<open>\<open>uv_data\<close> holds the \<open>data\<close> field of every handle that is a block of its own.\<close>

record uvs =
  v_polls :: "ptr \<rightharpoonup> uv_us_poll_t"
  v_data :: "ptr \<rightharpoonup> ptr"
  v_cbs :: "ptr \<rightharpoonup> uv_callback_t"
  v_loops :: "ptr \<rightharpoonup> uv_us_loop_t"
  v_log :: "uv_call list"

record uv_env =
  v_is_closing :: "uv_call list \<Rightarrow> ptr \<Rightarrow> bool"
  v_malloc :: "uvs \<Rightarrow> ptr"
  v_realloc :: "uvs \<Rightarrow> ptr \<Rightarrow> ptr"
  v_new_loop :: "uv_call list \<Rightarrow> ptr"
  v_poll_garbage :: "uvs \<Rightarrow> uv_us_poll_t"

definition uv_log :: "uvs \<Rightarrow> uv_call \<Rightarrow> uvs" where
  "uv_log v c = v\<lparr>v_log := v_log v @ [c]\<rparr>"

definition set_vpoll :: "uvs \<Rightarrow> ptr \<Rightarrow> (uv_us_poll_t \<Rightarrow> uv_us_poll_t) \<Rightarrow> uvs option" where
  "set_vpoll v p f = do { x \<leftarrow> v_polls v p; Some (v\<lparr>v_polls := (v_polls v)(p \<mapsto> f x)\<rparr>) }"

definition set_vcb :: "uvs \<Rightarrow> ptr \<Rightarrow> (uv_callback_t \<Rightarrow> uv_callback_t) \<Rightarrow> uvs option" where
  "set_vcb v p f = do { x \<leftarrow> v_cbs v p; Some (v\<lparr>v_cbs := (v_cbs v)(p \<mapsto> f x)\<rparr>) }"

definition set_vdata :: "uvs \<Rightarrow> ptr \<Rightarrow> ptr \<Rightarrow> uvs option" where
  "set_vdata v h d = do { _ \<leftarrow> v_data v h; Some (v\<lparr>v_data := (v_data v)(h \<mapsto> d)\<rparr>) }"

text \<open>\<open>free\<close>: nothing for null, a fault for a block that is not there (a double free).\<close>

definition uv_blocks :: "uvs \<Rightarrow> ptr set" where
  "uv_blocks v = dom (v_polls v) \<union> dom (v_data v) \<union> dom (v_cbs v) \<union> dom (v_loops v)"

definition uv_free :: "uvs \<Rightarrow> ptr \<Rightarrow> uvs option" where
  "uv_free v p =
     (if p = NULL then Some v
      else if p \<in> uv_blocks v then
        Some (uv_log (v\<lparr>v_polls := (v_polls v)(p := None), v_data := (v_data v)(p := None),
          v_cbs := (v_cbs v)(p := None), v_loops := (v_loops v)(p := None)\<rparr>) (Uv_free p))
      else None)"

subsection \<open>The callbacks given to libuv\<close>

definition uv_poll_cb :: "uvs \<Rightarrow> ptr \<Rightarrow> int \<Rightarrow> int \<Rightarrow> uvs option" where
  "uv_poll_cb v h status events = do { d \<leftarrow> v_data v h; Some (uv_log v (Uv_dispatch d (status < 0) events)) }"

definition uv_prepare_cb :: "uvs \<Rightarrow> ptr \<Rightarrow> uvs option" where
  "uv_prepare_cb v h = do { d \<leftarrow> v_data v h; Some (uv_log v (Uv_loop_pre d)) }"

definition uv_check_cb :: "uvs \<Rightarrow> ptr \<Rightarrow> uvs option" where
  "uv_check_cb v h = do { d \<leftarrow> v_data v h; Some (uv_log v (Uv_loop_post d)) }"

text \<open>The \<open>data\<close> of a handle inside a callback object or of one that is a block of its own.\<close>

definition handle_data :: "uvs \<Rightarrow> ptr \<Rightarrow> ptr option" where
  "handle_data v h = (case v_data v h of Some d \<Rightarrow> Some d | None \<Rightarrow> map_option vcb_data (v_cbs v h))"

definition close_cb_free :: "uvs \<Rightarrow> ptr \<Rightarrow> uvs option" where
  "close_cb_free v h = do { d \<leftarrow> handle_data v h; uv_free v d }"

definition close_cb_free_poll :: "uvs \<Rightarrow> ptr \<Rightarrow> uvs option" where
  "close_cb_free_poll v h = do {
     d \<leftarrow> v_data v h;
     if d \<noteq> NULL then do { v \<leftarrow> uv_free v d; uv_free v h } else Some v }"

definition uv_timer_cb :: "uvs \<Rightarrow> ptr \<Rightarrow> uvs option" where
  "uv_timer_cb v t = do { x \<leftarrow> v_cbs v t; y \<leftarrow> v_cbs v (vcb_data x); f \<leftarrow> vcb_fn y;
     Some (uv_log v (Uv_call_cb f (vcb_data x))) }"

definition uv_async_cb :: "uvs \<Rightarrow> ptr \<Rightarrow> uvs option" where
  "uv_async_cb v a = do { x \<leftarrow> v_cbs v a; y \<leftarrow> v_cbs v (vcb_data x); f \<leftarrow> vcb_fn y;
     Some (uv_log v (Uv_call_cb f (vcb_loop y))) }"

subsection \<open>Polls\<close>

definition uv_us_internal_poll_type :: "uv_us_poll_t \<Rightarrow> u8" where
  "uv_us_internal_poll_type p = vp_type p AND 3"

definition uv_polling_bits :: "int \<Rightarrow> u8" where
  "uv_polling_bits events = (if events AND UV_READABLE \<noteq> 0 then 8 else 0) OR (if events AND UV_WRITABLE \<noteq> 0 then 4 else 0)"

definition uv_us_poll_events :: "uv_us_poll_t \<Rightarrow> int" where
  "uv_us_poll_events p = (if vp_type p AND 8 \<noteq> 0 then UV_READABLE else 0) OR (if vp_type p AND 4 \<noteq> 0 then UV_WRITABLE else 0)"

definition uv_us_poll_init :: "uvs \<Rightarrow> ptr \<Rightarrow> int \<Rightarrow> u8 \<Rightarrow> uvs option" where
  "uv_us_poll_init v p f pt = set_vpoll v p (\<lambda>x. x\<lparr>vp_type := pt, vp_fd := f\<rparr>)"

definition uv_us_poll_free :: "uv_env \<Rightarrow> uvs \<Rightarrow> ptr \<Rightarrow> uvs option" where
  "uv_us_poll_free V v p = do {
     x \<leftarrow> v_polls v p;
     if v_is_closing V (v_log v) (vp_uv x) then set_vdata v (vp_uv x) p
     else do { v \<leftarrow> uv_free v (vp_uv x); uv_free v p } }"

definition uv_us_poll_start :: "uvs \<Rightarrow> ptr \<Rightarrow> ptr \<Rightarrow> int \<Rightarrow> uvs option" where
  "uv_us_poll_start v p l events = do {
     v \<leftarrow> set_vpoll v p (\<lambda>x. x\<lparr>vp_type := uv_us_internal_poll_type x OR uv_polling_bits events\<rparr>);
     x \<leftarrow> v_polls v p;
     lp \<leftarrow> v_loops v l;
     let v = uv_log v (Uv_poll_init_socket (vl_uv_loop lp) (vp_uv x) (vp_fd x));
     Some (uv_log v (Uv_poll_start (vp_uv x) events)) }"

definition uv_us_poll_change :: "uvs \<Rightarrow> ptr \<Rightarrow> ptr \<Rightarrow> int \<Rightarrow> uvs option" where
  "uv_us_poll_change v p l events = do {
     x \<leftarrow> v_polls v p;
     if uv_us_poll_events x \<noteq> events then do {
       v \<leftarrow> set_vpoll v p (\<lambda>x. x\<lparr>vp_type := uv_us_internal_poll_type x OR uv_polling_bits events\<rparr>);
       Some (uv_log v (Uv_poll_start (vp_uv x) events)) }
     else Some v }"

definition uv_us_poll_stop :: "uvs \<Rightarrow> ptr \<Rightarrow> ptr \<Rightarrow> uvs option" where
  "uv_us_poll_stop v p l = do {
     x \<leftarrow> v_polls v p;
     let v = uv_log v (Uv_poll_stop (vp_uv x));
     v \<leftarrow> set_vdata v (vp_uv x) NULL;
     Some (uv_log v (Uv_close (vp_uv x) Close_cb_free_poll)) }"

definition uv_us_internal_accept_poll_event :: "uvs \<Rightarrow> ptr \<Rightarrow> nat" where
  "uv_us_internal_accept_poll_event v p = 0"

definition uv_us_internal_poll_set_type :: "uvs \<Rightarrow> ptr \<Rightarrow> u8 \<Rightarrow> uvs option" where
  "uv_us_internal_poll_set_type v p pt =
     set_vpoll v p (\<lambda>x. x\<lparr>vp_type := pt OR (vp_type x AND 12)\<rparr>)"

definition uv_us_poll_fd :: "uv_us_poll_t \<Rightarrow> int" where "uv_us_poll_fd p = vp_fd p"

text \<open>Two blocks are allocated, and the handle points back to the poll.\<close>

definition uv_us_create_poll :: "uv_env \<Rightarrow> uvs \<Rightarrow> (ptr \<times> uvs)" where
  "uv_us_create_poll V v =
     (let p = v_malloc V v;
          v1 = v\<lparr>v_polls := (v_polls v)(p \<mapsto> v_poll_garbage V v)\<rparr>;
          h = v_malloc V v1
      in (p, v1\<lparr>v_polls := (v_polls v1)(p \<mapsto> (v_poll_garbage V v)\<lparr>vp_uv := h\<rparr>), v_data := (v_data v1)(h \<mapsto> p)\<rparr>))"

definition uv_us_poll_resize :: "uv_env \<Rightarrow> uvs \<Rightarrow> ptr \<Rightarrow> (ptr \<times> uvs) option" where
  "uv_us_poll_resize V v p = do {
     x \<leftarrow> v_polls v p;
     let new_p = v_realloc V v p;
     let v = v\<lparr>v_polls := (v_polls v)(p := None, new_p \<mapsto> x)\<rparr>;
     v \<leftarrow> set_vdata v (vp_uv x) new_p;
     Some (new_p, v) }"

subsection \<open>Loops\<close>

definition uv_us_loop_pump :: "uvs \<Rightarrow> ptr \<Rightarrow> uvs option" where
  "uv_us_loop_pump v l = do { lp \<leftarrow> v_loops v l; Some (uv_log v (Uv_run (vl_uv_loop lp) UV_RUN_NOWAIT)) }"

definition uv_us_create_loop :: "uv_env \<Rightarrow> uvs \<Rightarrow> ptr \<Rightarrow> fnptr \<Rightarrow> fnptr \<Rightarrow> fnptr \<Rightarrow> ptr \<times> uvs" where
  "uv_us_create_loop V v hint wakeup_fn pre_fn post_fn =
     (let l = v_malloc V v;
          ul = (if hint \<noteq> NULL then hint else v_new_loop V (v_log v));
          v = (if hint \<noteq> NULL then v else uv_log v Uv_loop_new);
          lp = \<lparr>vl_uv_loop = ul, vl_is_default = (hint \<noteq> NULL), vl_pre = NULL, vl_check = NULL\<rparr>;
          v = v\<lparr>v_loops := (v_loops v)(l \<mapsto> lp)\<rparr>;
          pre = v_malloc V v;
          v = v\<lparr>v_data := (v_data v)(pre \<mapsto> l), v_log := v_log v @ [Uv_prepare_init ul pre, Uv_prepare_start pre, Uv_unref pre]\<rparr>;
          check = v_malloc V v;
          v = v\<lparr>v_data := (v_data v)(check \<mapsto> l), v_log := v_log v @ [Uv_check_init ul check, Uv_unref check, Uv_check_start check]\<rparr>;
          v = v\<lparr>v_loops := (v_loops v)(l \<mapsto> lp\<lparr>vl_pre := pre, vl_check := check\<rparr>)\<rparr>;
          v = uv_log v (Uv_loop_data_init l wakeup_fn pre_fn post_fn);
          v = (if hint \<noteq> NULL then uv_log v (Uv_loop_integrate l) else v)
      in (l, v))"

text \<open>
  \<open>uv_run\<close> of the last round is where the close callbacks run; \<open>closing\<close> is the list of those the
  environment calls in it, in its order.
\<close>

fun run_close_cbs :: "uvs \<Rightarrow> (ptr \<times> uv_close_cb) list \<Rightarrow> uvs option" where
  "run_close_cbs v [] = Some v"
| "run_close_cbs v ((h, cb) # hs) = do {
     v \<leftarrow> (case cb of Close_cb_free \<Rightarrow> close_cb_free v h | Close_cb_free_poll \<Rightarrow> close_cb_free_poll v h);
     run_close_cbs (uv_log v (Uv_closed h)) hs }"

definition uv_us_loop_free :: "uvs \<Rightarrow> ptr \<Rightarrow> (ptr \<times> uv_close_cb) list \<Rightarrow> uvs option" where
  "uv_us_loop_free v l closing = do {
     lp \<leftarrow> v_loops v l;
     let v = uv_log (uv_log v (Uv_ref (vl_pre lp))) (Uv_prepare_stop (vl_pre lp));
     v \<leftarrow> set_vdata v (vl_pre lp) (vl_pre lp);
     let v = uv_log v (Uv_close (vl_pre lp) Close_cb_free);
     let v = uv_log (uv_log v (Uv_ref (vl_check lp))) (Uv_check_stop (vl_check lp));
     v \<leftarrow> set_vdata v (vl_check lp) (vl_check lp);
     let v = uv_log v (Uv_close (vl_check lp) Close_cb_free);
     let v = uv_log v (Uv_loop_data_free l);
     v \<leftarrow> (if \<not> vl_is_default lp then do {
             v \<leftarrow> run_close_cbs (uv_log v (Uv_run (vl_uv_loop lp) UV_RUN_NOWAIT)) closing;
             Some (uv_log v (Uv_loop_delete (vl_uv_loop lp))) }
           else Some v);
     uv_free v l }"

definition uv_us_loop_run :: "uvs \<Rightarrow> ptr \<Rightarrow> uvs option" where
  "uv_us_loop_run v l = do {
     let v = uv_log v (Uv_loop_integrate l);
     lp \<leftarrow> v_loops v l;
     Some (uv_log v (Uv_run (vl_uv_loop lp) UV_RUN_DEFAULT)) }"

subsection \<open>Timers and asyncs\<close>

definition uv_us_create_timer :: "uv_env \<Rightarrow> uvs \<Rightarrow> ptr \<Rightarrow> bool \<Rightarrow> (ptr \<times> uvs) option" where
  "uv_us_create_timer V v l fallthrough = do {
     lp \<leftarrow> v_loops v l;
     let cb = v_malloc V v;
     let v = v\<lparr>v_cbs := (v_cbs v)(cb \<mapsto> \<lparr>vcb_loop = l, vcb_fn = None, vcb_data = cb\<rparr>)\<rparr>;
     let v = uv_log v (Uv_timer_init (vl_uv_loop lp) cb);
     Some (cb, if fallthrough then uv_log v (Uv_unref cb) else v) }"

definition uv_us_timer_close :: "uvs \<Rightarrow> ptr \<Rightarrow> uvs option" where
  "uv_us_timer_close v t = do {
     let v = uv_log (uv_log v (Uv_ref t)) (Uv_timer_stop t);
     v \<leftarrow> set_vcb v t (\<lambda>x. x\<lparr>vcb_data := t\<rparr>);
     Some (uv_log v (Uv_close t Close_cb_free)) }"

definition uv_us_timer_set :: "uvs \<Rightarrow> ptr \<Rightarrow> fnptr \<Rightarrow> int \<Rightarrow> int \<Rightarrow> uvs option" where
  "uv_us_timer_set v t cb ms repeat_ms = do {
     v \<leftarrow> set_vcb v t (\<lambda>x. x\<lparr>vcb_fn := Some cb\<rparr>);
     Some (uv_log v (if ms = 0 then Uv_timer_stop t else Uv_timer_start t ms repeat_ms)) }"

definition uv_us_timer_loop :: "uvs \<Rightarrow> ptr \<Rightarrow> ptr option" where
  "uv_us_timer_loop v t = map_option vcb_loop (v_cbs v t)"

definition uv_us_internal_create_async :: "uv_env \<Rightarrow> uvs \<Rightarrow> ptr \<Rightarrow> ptr \<times> uvs" where
  "uv_us_internal_create_async V v l =
     (let cb = v_malloc V v
      in (cb, v\<lparr>v_cbs := (v_cbs v)(cb \<mapsto> \<lparr>vcb_loop = l, vcb_fn = None, vcb_data = NULL\<rparr>)\<rparr>))"

definition uv_us_internal_async_close :: "uvs \<Rightarrow> ptr \<Rightarrow> uvs option" where
  "uv_us_internal_async_close v a = do {
     let v = uv_log v (Uv_ref a);
     v \<leftarrow> set_vcb v a (\<lambda>x. x\<lparr>vcb_data := a\<rparr>);
     Some (uv_log v (Uv_close a Close_cb_free)) }"

definition uv_us_internal_async_set :: "uvs \<Rightarrow> ptr \<Rightarrow> fnptr \<Rightarrow> uvs option" where
  "uv_us_internal_async_set v a cb = do {
     v \<leftarrow> set_vcb v a (\<lambda>x. x\<lparr>vcb_fn := Some cb\<rparr>);
     x \<leftarrow> v_cbs v a;
     lp \<leftarrow> v_loops v (vcb_loop x);
     let v = uv_log (uv_log v (Uv_async_init (vl_uv_loop lp) a)) (Uv_unref a);
     set_vcb v a (\<lambda>x. x\<lparr>vcb_data := a\<rparr>) }"

definition uv_us_internal_async_wakeup :: "uvs \<Rightarrow> ptr \<Rightarrow> uvs" where
  "uv_us_internal_async_wakeup v a = uv_log v (Uv_async_send a)"

end
