(* ===== verification/Uv_memory.thy ===== *)
theory Uv_memory
  imports Libuv
begin

text \<open>
  The memory of a poll of the libuv backend.  A poll is two blocks, its own and that of the libuv handle.
  libuv needs the handle until its close callback, so whoever comes second, \<open>us_poll_free\<close> or the close
  callback, has to free both; \<open>us_poll_free\<close> asks \<open>uv_is_closing\<close> which of the two it is.
\<close>

subsection \<open>What the environment promises\<close>

text \<open>
  The answer of \<open>uv_is_closing\<close> is documented from the initialisation of a handle to its close callback
  and there only.
\<close>

fun uv_window_step :: "ptr \<Rightarrow> bool option \<Rightarrow> uv_call \<Rightarrow> bool option" where
  "uv_window_step h st (Uv_poll_init_socket ul h' f) = (if h' = h then Some False else st)"
| "uv_window_step h st (Uv_close h' cb) = (if h' = h then Some True else st)"
| "uv_window_step h st (Uv_closed h') = (if h' = h then None else st)"
| "uv_window_step h st _ = st"

definition uv_window :: "uv_call list \<Rightarrow> ptr \<Rightarrow> bool option" where
  "uv_window log h = foldl (uv_window_step h) None log"

definition uv_closing_documented :: "uv_env \<Rightarrow> bool" where
  "uv_closing_documented V \<longleftrightarrow> (\<forall>log h b. uv_window log h = Some b \<longrightarrow> v_is_closing V log h = b)"

definition uv_new_block :: "uvs \<Rightarrow> ptr \<Rightarrow> bool" where
  "uv_new_block v p \<longleftrightarrow> p \<noteq> NULL \<and> p \<notin> uv_blocks v"

definition uv_malloc_ok :: "uv_env \<Rightarrow> bool" where
  "uv_malloc_ok V \<longleftrightarrow> (\<forall>v. finite (uv_blocks v) \<longrightarrow> uv_new_block v (v_malloc V v) \<and>
     (\<forall>p. v_realloc V v p = p \<or> uv_new_block v (v_realloc V v p)))"

lemma uv_window_append [simp]: "uv_window (log @ cs) h = foldl (uv_window_step h) (uv_window log h) cs"
  by (simp add: uv_window_def)

definition same_memory :: "uvs \<Rightarrow> uvs \<Rightarrow> bool" where
  "same_memory v v' \<longleftrightarrow> v_polls v' = v_polls v \<and> v_data v' = v_data v \<and> v_cbs v' = v_cbs v \<and> v_loops v' = v_loops v"

lemma upd_eq_upd [simp]: "(\<exists>y. m(p \<mapsto> x) = m(p \<mapsto> y) \<and> P y) \<longleftrightarrow> P x"
  by (metis map_upd_eqD1)

text \<open>The memory of \<open>v0\<close>, and a poll with its handle on top of it.\<close>

definition uv_holds :: "uvs \<Rightarrow> uvs \<Rightarrow> ptr \<Rightarrow> ptr \<Rightarrow> ptr \<Rightarrow> bool" where
  "uv_holds v0 v p h d \<longleftrightarrow> uv_new_block v0 p \<and> uv_new_block v0 h \<and> p \<noteq> h \<and>
     (\<exists>x. v_polls v = (v_polls v0)(p \<mapsto> x) \<and> vp_uv x = h) \<and> v_data v = (v_data v0)(h \<mapsto> d) \<and>
     v_cbs v = v_cbs v0 \<and> v_loops v = v_loops v0"

lemma uv_holds_blocks: "uv_holds v0 v p h d \<Longrightarrow> uv_blocks v = uv_blocks v0 \<union> {p, h} \<and> p \<noteq> h \<and> {p, h} \<inter> uv_blocks v0 = {}"
  by (auto simp: uv_holds_def uv_blocks_def uv_new_block_def)

definition uv_open :: "uvs \<Rightarrow> uvs \<Rightarrow> ptr \<Rightarrow> ptr \<Rightarrow> bool" where
  "uv_open v0 v p h \<longleftrightarrow> uv_holds v0 v p h p \<and> uv_window (v_log v) h = Some False"

lemmas uv_step_defs = uv_log_def set_vpoll_def set_vdata_def uv_holds_def

lemma uv_new_block_maps:
  "uv_new_block v p \<Longrightarrow> v_polls v p = None \<and> v_data v p = None \<and> v_cbs v p = None \<and> v_loops v p = None"
  by (auto simp: uv_new_block_def uv_blocks_def)

subsection \<open>The operations on a poll\<close>

lemma uv_create_holds:
  assumes "uv_malloc_ok V" "finite (uv_blocks v)"
  obtains p h v' where "uv_us_create_poll V v = (p, v')" "uv_holds v v' p h p"
proof -
  define p where "p = v_malloc V v"
  define v1 where "v1 = v\<lparr>v_polls := (v_polls v)(p \<mapsto> v_poll_garbage V v)\<rparr>"
  define h where "h = v_malloc V v1"
  have "finite (uv_blocks v1)" using assms(2) by (simp add: uv_blocks_def v1_def)
  then have "uv_new_block v p" "uv_new_block v1 h" using assms by (auto simp: uv_malloc_ok_def p_def h_def)
  then have new: "uv_new_block v p" "uv_new_block v h" "p \<noteq> h"
    by (auto simp: uv_new_block_def uv_blocks_def v1_def)
  show thesis
    by (rule that [of p "v1\<lparr>v_polls := (v_polls v1)(p \<mapsto> (v_poll_garbage V v)\<lparr>vp_uv := h\<rparr>), v_data := (v_data v1)(h \<mapsto> p)\<rparr>" h])
      (use new in \<open>simp_all add: uv_us_create_poll_def p_def [symmetric] v1_def [symmetric] h_def [symmetric] Let_def,
        simp_all add: v1_def uv_holds_def\<close>)
qed

lemma uv_init_holds:
  "uv_holds v0 v p h d \<Longrightarrow> \<exists>v'. uv_us_poll_init v p f pt = Some v' \<and> uv_holds v0 v' p h d"
  by (auto simp: uv_us_poll_init_def uv_step_defs)

lemma uv_start_open:
  "uv_holds v0 v p h p \<Longrightarrow> l \<in> dom (v_loops v0) \<Longrightarrow> \<exists>v'. uv_us_poll_start v p l events = Some v' \<and> uv_open v0 v' p h"
  by (auto simp: uv_us_poll_start_def uv_step_defs uv_open_def Let_def)

datatype uv_poll_op = Uv_op_change int | Uv_op_set_type u8 | Uv_op_resize

fun uv_op :: "uv_env \<Rightarrow> ptr \<Rightarrow> uvs \<Rightarrow> ptr \<Rightarrow> uv_poll_op \<Rightarrow> (ptr \<times> uvs) option" where
  "uv_op V l v p (Uv_op_change events) = map_option (Pair p) (uv_us_poll_change v p l events)"
| "uv_op V l v p (Uv_op_set_type pt) = map_option (Pair p) (uv_us_internal_poll_set_type v p pt)"
| "uv_op V l v p Uv_op_resize = uv_us_poll_resize V v p"

fun uv_ops :: "uv_env \<Rightarrow> ptr \<Rightarrow> uvs \<Rightarrow> ptr \<Rightarrow> uv_poll_op list \<Rightarrow> (ptr \<times> uvs) option" where
  "uv_ops V l v p [] = Some (p, v)"
| "uv_ops V l v p (x # xs) = do { (p, v) \<leftarrow> uv_op V l v p x; uv_ops V l v p xs }"

lemma uv_resize_open:
  assumes "uv_malloc_ok V" "finite (uv_blocks v0)" "uv_open v0 v p h"
  shows "\<exists>p' v'. uv_us_poll_resize V v p = Some (p', v') \<and> uv_open v0 v' p' h"
proof -
  define p' where "p' = v_realloc V v p"
  from assms(3) obtain x where x: "v_polls v = (v_polls v0)(p \<mapsto> x)" "vp_uv x = h" "p \<noteq> h"
    "v_data v = (v_data v0)(h \<mapsto> p)" "uv_new_block v0 p" "uv_new_block v0 h" "v_cbs v = v_cbs v0" "v_loops v = v_loops v0"
    by (auto simp: uv_open_def uv_holds_def)
  from x(5) have old: "(v_polls v0)(p := None) = v_polls v0" by (auto simp: uv_new_block_maps fun_eq_iff)
  have "finite (uv_blocks v)" using assms(2,3) uv_holds_blocks unfolding uv_open_def by (metis finite.emptyI finite.insertI finite_UnI)
  then have "p' = p \<or> uv_new_block v p'" using assms(1) by (auto simp: uv_malloc_ok_def p'_def)
  then have "uv_new_block v0 p'" "p' \<noteq> h"
    using x by (auto simp: uv_new_block_def uv_blocks_def)
  then have "uv_open v0 (v\<lparr>v_polls := (v_polls v0)(p' \<mapsto> x), v_data := (v_data v0)(h \<mapsto> p')\<rparr>) p' h"
    using x assms(3) by (auto simp: uv_open_def uv_holds_def)
  moreover have "uv_us_poll_resize V v p = Some (p', v\<lparr>v_polls := (v_polls v0)(p' \<mapsto> x), v_data := (v_data v0)(h \<mapsto> p')\<rparr>)"
    using x(1,2,4) old by (simp add: uv_us_poll_resize_def p'_def [symmetric] set_vdata_def Let_def)
  ultimately show ?thesis by blast
qed

lemma uv_op_open:
  assumes "uv_malloc_ok V" "finite (uv_blocks v0)" "uv_open v0 v p h"
  shows "\<exists>p' v'. uv_op V l v p x = Some (p', v') \<and> uv_open v0 v' p' h"
proof (cases x)
  case (Uv_op_change events)
  with assms(3) show ?thesis by (auto simp: uv_us_poll_change_def uv_step_defs uv_open_def Let_def)
next
  case (Uv_op_set_type pt)
  with assms(3) show ?thesis by (auto simp: uv_us_internal_poll_set_type_def uv_step_defs uv_open_def)
next
  case Uv_op_resize
  with uv_resize_open [OF assms] show ?thesis by simp
qed

lemma uv_ops_open:
  "uv_malloc_ok V \<Longrightarrow> finite (uv_blocks v0) \<Longrightarrow> uv_open v0 v p h \<Longrightarrow> \<exists>p' v'. uv_ops V l v p xs = Some (p', v') \<and> uv_open v0 v' p' h"
proof (induction xs arbitrary: v p)
  case (Cons x xs)
  from uv_op_open [OF Cons.prems] obtain p1 v1 where "uv_op V l v p x = Some (p1, v1)" "uv_open v0 v1 p1 h" by blast
  with Cons.IH [OF Cons.prems(1,2), of v1 p1] show ?case by simp
qed simp

lemma uv_stop_holds:
  "uv_open v0 v p h \<Longrightarrow> \<exists>v'. uv_us_poll_stop v p l = Some v' \<and> uv_holds v0 v' p h NULL \<and> uv_window (v_log v') h = Some True"
  by (auto simp: uv_us_poll_stop_def uv_step_defs uv_open_def Let_def)

lemma uv_free_both:
  assumes "uv_holds v0 v p h d"
  shows "\<exists>v1 v2. uv_free v h = Some v1 \<and> uv_free v1 p = Some v2 \<and> same_memory v0 v2"
    and "\<exists>v1 v2. uv_free v p = Some v1 \<and> uv_free v1 h = Some v2 \<and> same_memory v0 v2"
  using assms uv_new_block_maps [of v0 p] uv_new_block_maps [of v0 h]
  by (auto simp: uv_holds_def uv_free_def uv_blocks_def uv_log_def same_memory_def uv_new_block_def fun_eq_iff)

subsection \<open>The life of a poll\<close>

definition uv_poll_life ::
  "uv_env \<Rightarrow> uvs \<Rightarrow> ptr \<Rightarrow> int \<Rightarrow> u8 \<Rightarrow> int \<Rightarrow> uv_poll_op list \<Rightarrow> (ptr \<times> uvs) option" where
  "uv_poll_life V v l f pt events ops = do {
     let (p, v) = uv_us_create_poll V v;
     v \<leftarrow> uv_us_poll_init v p f pt;
     v \<leftarrow> uv_us_poll_start v p l events;
     (p, v) \<leftarrow> uv_ops V l v p ops;
     v \<leftarrow> uv_us_poll_stop v p l;
     Some (p, v) }"

lemma uv_poll_life_holds:
  assumes "uv_malloc_ok V" "l \<in> dom (v_loops v)" "finite (uv_blocks v)"
  shows "\<exists>p h v1. uv_poll_life V v l f pt events ops = Some (p, v1) \<and> uv_holds v v1 p h NULL \<and>
    uv_window (v_log v1) h = Some True"
proof -
  obtain q h va where a: "uv_us_create_poll V v = (q, va)" "uv_holds v va q h q" by (rule uv_create_holds [OF assms(1,3)])
  from uv_init_holds [OF a(2)] obtain vb where b: "uv_us_poll_init va q f pt = Some vb" "uv_holds v vb q h q" by blast
  from uv_start_open [OF b(2) assms(2)] obtain vc where c: "uv_us_poll_start vb q l events = Some vc" "uv_open v vc q h"
    by blast
  from uv_ops_open [OF assms(1,3) c(2)] obtain p vd where d: "uv_ops V l vc q ops = Some (p, vd)" "uv_open v vd p h"
    by blast
  from uv_stop_holds [OF d(2)] obtain ve where "uv_us_poll_stop vd p l = Some ve" "uv_holds v ve p h NULL"
    "uv_window (v_log ve) h = Some True" by blast
  with a b c d show ?thesis by (auto simp: uv_poll_life_def)
qed

text \<open>The two orders of \<open>us_poll_free\<close> and the close callback.\<close>

lemma uv_free_then_closed:
  assumes "uv_closing_documented V" "uv_holds v0 v p h NULL" "uv_window (v_log v) h = Some True"
  shows "\<exists>v2 v3. uv_us_poll_free V v p = Some v2 \<and> v_data v2 h = Some p \<and> close_cb_free_poll v2 h = Some v3 \<and>
    same_memory v0 v3"
proof -
  define v2 where "v2 = v\<lparr>v_data := (v_data v)(h \<mapsto> p)\<rparr>"
  have "uv_us_poll_free V v p = Some v2"
    using assms unfolding v2_def by (auto simp: uv_us_poll_free_def uv_holds_def set_vdata_def uv_closing_documented_def)
  moreover have v2: "uv_holds v0 v2 p h p" using assms(2) by (auto simp: uv_holds_def v2_def)
  moreover have "v_data v2 h = Some p" "p \<noteq> NULL" using v2 by (auto simp: uv_holds_def uv_new_block_def)
  ultimately show ?thesis using uv_free_both(2) [OF v2] by (auto simp: close_cb_free_poll_def)
qed

lemma uv_closed_then_free:
  assumes "uv_holds v0 v p h NULL"
  shows "close_cb_free_poll v h = Some v"
    and "v_is_closing V (v_log v) h \<Longrightarrow>
      \<exists>v2. uv_us_poll_free V v p = Some v2 \<and> uv_holds v0 v2 p h p \<and> uv_blocks v2 = uv_blocks v0 \<union> {p, h}"
    and "\<not> v_is_closing V (v_log v) h \<Longrightarrow> \<exists>v2. uv_us_poll_free V v p = Some v2 \<and> same_memory v0 v2"
proof -
  show "close_cb_free_poll v h = Some v" using assms by (auto simp: close_cb_free_poll_def uv_holds_def)
  show "v_is_closing V (v_log v) h \<Longrightarrow>
      \<exists>v2. uv_us_poll_free V v p = Some v2 \<and> uv_holds v0 v2 p h p \<and> uv_blocks v2 = uv_blocks v0 \<union> {p, h}"
    using assms by (auto simp: uv_us_poll_free_def uv_holds_def set_vdata_def uv_blocks_def)
  show "\<not> v_is_closing V (v_log v) h \<Longrightarrow> \<exists>v2. uv_us_poll_free V v p = Some v2 \<and> same_memory v0 v2"
    using assms uv_free_both(1) [OF assms] by (auto simp: uv_us_poll_free_def uv_holds_def)
qed

text \<open>
  The two blocks of a poll of the libuv backend that was started, used (changed, retyped, moved) and
  stopped are freed exactly once when it is freed while libuv is still closing the handle: \<open>us_poll_free\<close> only
  leaves a note and the close callback then frees both.  When the close callback comes first it frees nothing
  and \<open>us_poll_free\<close> relies on \<open>uv_is_closing\<close> answering no for a closed handle, on which libuv promises
  nothing: then both are freed, but if the answer is still yes, both blocks are leaked.
\<close>

theorem uv_poll_memory:
  assumes "uv_malloc_ok V" "uv_closing_documented V" "l \<in> dom (v_loops v)" "finite (uv_blocks v)"
  shows "\<exists>p h v1. uv_poll_life V v l f pt events ops = Some (p, v1) \<and>
    map_option vp_uv (v_polls v1 p) = Some h \<and> uv_blocks v1 = uv_blocks v \<union> {p, h} \<and>
    (\<exists>v2 v3. uv_us_poll_free V v1 p = Some v2 \<and> close_cb_free_poll v2 h = Some v3 \<and> same_memory v v3) \<and>
    close_cb_free_poll v1 h = Some v1 \<and>
    (\<exists>v2. uv_us_poll_free V (uv_log v1 (Uv_closed h)) p = Some v2 \<and>
       (if v_is_closing V (v_log v1 @ [Uv_closed h]) h then uv_blocks v2 = uv_blocks v \<union> {p, h} \<and> p \<noteq> h \<and>
          {p, h} \<inter> uv_blocks v = {} else same_memory v v2))"
proof -
  from uv_poll_life_holds [OF assms(1,3,4)] obtain p h v1 where v1: "uv_poll_life V v l f pt events ops = Some (p, v1)"
    "uv_holds v v1 p h NULL" "uv_window (v_log v1) h = Some True" by blast
  define v2 where "v2 = uv_log v1 (Uv_closed h)"
  have v2: "uv_holds v v2 p h NULL" "v_log v2 = v_log v1 @ [Uv_closed h]" using v1(2) by (simp_all add: v2_def uv_step_defs)
  have blocks: "uv_blocks v1 = uv_blocks v \<union> {p, h}" "p \<noteq> h" "{p, h} \<inter> uv_blocks v = {}"
    using uv_holds_blocks [OF v1(2)] by simp_all
  have handle: "map_option vp_uv (v_polls v1 p) = Some h" using v1(2) by (auto simp: uv_holds_def)
  have "\<exists>v2. uv_us_poll_free V (uv_log v1 (Uv_closed h)) p = Some v2 \<and>
       (if v_is_closing V (v_log v1 @ [Uv_closed h]) h then uv_blocks v2 = uv_blocks v \<union> {p, h} \<and> p \<noteq> h \<and>
          {p, h} \<inter> uv_blocks v = {} else same_memory v v2)"
    using uv_closed_then_free(2,3) [OF v2(1), of V] blocks unfolding v2(2) v2_def [symmetric]
    by (cases "v_is_closing V (v_log v1 @ [Uv_closed h]) h") auto
  then show ?thesis
    using v1(1) handle blocks(1) uv_free_then_closed [OF assms(2) v1(2,3)] uv_closed_then_free(1) [OF v1(2)] by blast
qed

text \<open>
  An allocator that takes the next address, and the answer of \<open>uv_is_closing\<close> that stays yes once the handle
  is closed.
\<close>

definition next_address_env :: uv_env where
  "next_address_env = \<lparr>v_is_closing = (\<lambda>log h. uv_window log h \<noteq> Some False),
     v_malloc = (\<lambda>v. Suc (Max (insert 0 (uv_blocks v)))), v_realloc = (\<lambda>v p. Suc (Max (insert 0 (uv_blocks v)))),
     v_new_loop = (\<lambda>log. 1), v_poll_garbage = (\<lambda>v. \<lparr>vp_uv = 3, vp_fd = 3, vp_type = 3\<rparr>)\<rparr>"

definition one_loop :: uvs where
  "one_loop = \<lparr>v_polls = Map.empty, v_data = [8 \<mapsto> 7, 9 \<mapsto> 7], v_cbs = Map.empty,
     v_loops = [7 \<mapsto> \<lparr>vl_uv_loop = 1, vl_is_default = False, vl_pre = 8, vl_check = 9\<rparr>], v_log = []\<rparr>"

lemma next_address_new: "finite (uv_blocks v) \<Longrightarrow> uv_new_block v (Suc (Max (insert 0 (uv_blocks v))))"
  unfolding uv_new_block_def by (metis Max_ge finite.insertI insertCI not_less_eq_eq zero_less_Suc less_irrefl le_refl)

lemma next_address_env_ok: "uv_malloc_ok next_address_env" "uv_closing_documented next_address_env"
  "7 \<in> dom (v_loops one_loop)" "finite (uv_blocks one_loop)"
  using next_address_new by (auto simp: uv_malloc_ok_def uv_closing_documented_def next_address_env_def one_loop_def uv_blocks_def)

lemma uv_poll_memory_witness:
  "\<exists>p h v1. uv_poll_life next_address_env one_loop 7 5 0 1 [Uv_op_change 3, Uv_op_resize, Uv_op_set_type 1] = Some (p, v1) \<and>
    map_option vp_uv (v_polls v1 p) = Some h \<and>
    uv_blocks v1 = uv_blocks one_loop \<union> {p, h} \<and>
    (\<exists>v2 v3. uv_us_poll_free next_address_env v1 p = Some v2 \<and> close_cb_free_poll v2 h = Some v3 \<and> same_memory one_loop v3) \<and>
    close_cb_free_poll v1 h = Some v1 \<and>
    (\<exists>v2. uv_us_poll_free next_address_env (uv_log v1 (Uv_closed h)) p = Some v2 \<and>
       (if v_is_closing next_address_env (v_log v1 @ [Uv_closed h]) h
        then uv_blocks v2 = uv_blocks one_loop \<union> {p, h} \<and> p \<noteq> h \<and> {p, h} \<inter> uv_blocks one_loop = {}
        else same_memory one_loop v2))"
  by (rule uv_poll_memory [OF next_address_env_ok])

end
