(* ===== verification/Quic.thy ===== *)
theory Quic
  imports Udp Outcome
begin

text \<open>
  The experimental QUIC layer, \<open>quic.c\<close>, over the UDP sockets of \<open>udp.c\<close> and the lsquic library.
  lsquic and OpenSSL are not part of the source: a call into them is recorded, and what it returns and
  does to the store (it may call the handlers here back) is the environment's.

  \<open>None\<close> is a fault (a pointer that is null or of another kind, an access out of bounds) and \<open>Exited\<close> is
  \<open>exit(0)\<close> or \<open>exit(EXIT_FAILURE)\<close>, which the code calls on errors.
\<close>

subsection \<open>Constants\<close>

definition UIO_MAXIOV :: nat where "UIO_MAXIOV = 1024"
definition HEADER_BUF_SIZE :: nat where "HEADER_BUF_SIZE = 65535"
definition HEADERS_MAX :: nat where [simp]: "HEADERS_MAX = 10"
definition ALPN_SIZE :: nat where [simp]: "ALPN_SIZE = 0x100"
definition POOL_BLOCKS :: nat where [simp]: "POOL_BLOCKS = 1000"
definition POOL_BLOCK_SIZE :: nat where [simp]: "POOL_BLOCK_SIZE = 4096"
definition SIZEOF_HEADER_SET_HD :: nat where [simp]: "SIZEOF_HEADER_SET_HD = 4"
definition SIZEOF_PROCESSED_HEADER :: nat where [simp]: "SIZEOF_PROCESSED_HEADER = 24"
definition LSENG_SERVER :: int where [simp]: "LSENG_SERVER = 1"
definition LSENG_HTTP :: int where [simp]: "LSENG_HTTP = 2"

subsection \<open>The structs\<close>

record us_quic_socket_context_options_t =
  cert_file_name :: "string option"
  key_file_name :: "string option"
  quic_passphrase :: "string option"

text \<open>
  A callback that was never set is an uninitialised pointer, \<open>None\<close>.  The field \<open>outgoing_packets\<close> is left
  out: nothing reads or writes it.
\<close>

record us_quic_socket_context_s =
  qc_recv_buf :: ptr
  qc_loop :: ptr
  qc_engine :: ptr
  qc_client_engine :: ptr
  qc_options :: us_quic_socket_context_options_t
  qc_on_stream_data :: "nat option"
  qc_on_stream_end :: "nat option"
  qc_on_stream_headers :: "nat option"
  qc_on_stream_open :: "nat option"
  qc_on_stream_close :: "nat option"
  qc_on_stream_writable :: "nat option"
  qc_on_open :: "nat option"
  qc_on_close :: "nat option"

text \<open>
  A header to send: its place in the static header buffer and the offsets from there; a header that was
  decoded: the block of the pool its bytes are in and where.
\<close>

record lsxpack_header =
  lx_base :: nat
  lx_name_offset :: nat
  lx_name_len :: nat
  lx_val_offset :: nat
  lx_val_len :: nat

record processed_header =
  ph_block :: nat
  ph_name :: nat
  ph_value :: nat
  ph_name_length :: nat
  ph_value_length :: nat

record header_set_hd =
  hs_offset :: int
  hs_headers :: "nat \<rightharpoonup> processed_header"

text \<open>A datagram lsquic wants sent: the UDP socket, the address with its family, and the parts.\<close>

record lsquic_out_spec =
  spec_peer_ctx :: ptr
  spec_family :: int
  spec_dest_sa :: "u8 list"
  spec_iov :: "u8 list list"

datatype quic_event =
    QOpen ptr int
  | QClose ptr
  | QStreamOpen ptr int
  | QStreamHeaders ptr
  | QStreamData ptr "u8 list"
  | QStreamEnd ptr
  | QStreamWritable ptr

datatype quic_call =
    Global_init
  | Engine_new int
  | Engine_process_conns ptr
  | Engine_send_unsent_packets ptr
  | Engine_packet_in ptr "u8 list" sockaddr "u8 list" ptr
  | Engine_connect ptr sockaddr sockaddr ptr
  | Conn_get_engine ptr
  | Conn_get_ctx ptr
  | Conn_make_stream ptr
  | Stream_conn ptr
  | Stream_wantread ptr int
  | Stream_wantwrite ptr int
  | Stream_get_hset ptr
  | Stream_read ptr nat
  | Stream_write ptr "u8 list"
  | Stream_shutdown ptr int
  | Stream_close ptr
  | Stream_set_ctx ptr ptr
  | Stream_get_ctx ptr
  | Stream_send_headers ptr "lsxpack_header list" int
  | Header_prepare_decode nat nat
  | Q_CTX_new
  | Q_CTX_set_min_proto_version ptr | Q_CTX_set_max_proto_version ptr
  | Q_CTX_set_alpn_select_cb ptr | Q_CTX_set_servername_callback ptr
  | Q_CTX_use_certificate ptr "string option" | Q_CTX_use_private_key ptr "string option"
  | Q_select_next_proto "u8 list" "u8 list"
  | Q_set_SSL_CTX ptr ptr | Q_get_servername ptr | Q_set_host_name ptr string

text \<open>
  The statics of the file: the header buffer with its offset and the headers in it, the ALPN string, the
  TLS context of all, the pool with its header sets, the last header set, and the two engines.
\<close>

record quics =
  q_heap :: heap
  q_ctxs :: "ptr \<rightharpoonup> us_quic_socket_context_s"
  q_exts :: "ptr \<rightharpoonup> string"
  q_hbuf :: "u8 list"
  q_hoff :: nat
  q_headers :: "lsxpack_header list"
  q_alpn :: "u8 list"
  q_old_ctx :: ptr
  q_pool_top :: nat
  q_hsets :: "nat \<Rightarrow> header_set_hd"
  q_decoded :: "nat \<Rightarrow> lsxpack_header"
  q_last_hset :: "nat option"
  q_global_engine :: ptr
  q_global_client_engine :: ptr
  q_log :: "quic_call list"
  q_events :: "(nat \<times> quic_event) list"

record qenv =
  q_env :: env
  q_lsquic :: "quic_call \<Rightarrow> quics \<Rightarrow> (int \<times> u8 list \<times> quics) outcome option"
  q_errno :: "quics \<Rightarrow> int"
  q_malloc :: "quics \<Rightarrow> ptr"
  q_block_garbage :: "quics \<Rightarrow> header_set_hd"
  q_sizeof_lsxpack_header :: nat
  q_fn_timer_cb :: fnptr
  q_fn_data :: fnptr
  q_fn_data_client :: fnptr
  q_fn_writable :: fnptr
  q_callback :: "nat \<Rightarrow> quic_event \<Rightarrow> quics \<Rightarrow> quics outcome option"

definition lsq :: "qenv \<Rightarrow> quic_call \<Rightarrow> quics \<Rightarrow> (int \<times> u8 list \<times> quics) outcome option" where
  "lsq Q c q = q_lsquic Q c (q\<lparr>q_log := q_log q @ [c]\<rparr>)"

text \<open>A call whose result is not looked at.\<close>

definition lsq_do :: "qenv \<Rightarrow> quic_call \<Rightarrow> quics \<Rightarrow> quics outcome option" where
  "lsq_do Q c q = and_then (lsq Q c q) (\<lambda>(r, bs, q). Some (Returned q))"

definition q_call :: "qenv \<Rightarrow> nat option \<Rightarrow> quic_event \<Rightarrow> quics \<Rightarrow> quics outcome option" where
  "q_call Q f ev q = do { n \<leftarrow> f; q_callback Q n ev (q\<lparr>q_events := q_events q @ [(n, ev)]\<rparr>) }"

definition set_qctx :: "quics \<Rightarrow> ptr \<Rightarrow> (us_quic_socket_context_s \<Rightarrow> us_quic_socket_context_s) \<Rightarrow> quics option" where
  "set_qctx q c f = do { x \<leftarrow> q_ctxs q c; Some (q\<lparr>q_ctxs := (q_ctxs q)(c \<mapsto> f x)\<rparr>) }"

subsection \<open>Setters\<close>

definition us_quic_socket_context_on_stream_data :: "quics \<Rightarrow> ptr \<Rightarrow> nat \<Rightarrow> quics option" where
  "us_quic_socket_context_on_stream_data q c f = set_qctx q c (\<lambda>x. x\<lparr>qc_on_stream_data := Some f\<rparr>)"
definition us_quic_socket_context_on_stream_end :: "quics \<Rightarrow> ptr \<Rightarrow> nat \<Rightarrow> quics option" where
  "us_quic_socket_context_on_stream_end q c f = set_qctx q c (\<lambda>x. x\<lparr>qc_on_stream_end := Some f\<rparr>)"
definition us_quic_socket_context_on_stream_headers :: "quics \<Rightarrow> ptr \<Rightarrow> nat \<Rightarrow> quics option" where
  "us_quic_socket_context_on_stream_headers q c f = set_qctx q c (\<lambda>x. x\<lparr>qc_on_stream_headers := Some f\<rparr>)"
definition us_quic_socket_context_on_stream_open :: "quics \<Rightarrow> ptr \<Rightarrow> nat \<Rightarrow> quics option" where
  "us_quic_socket_context_on_stream_open q c f = set_qctx q c (\<lambda>x. x\<lparr>qc_on_stream_open := Some f\<rparr>)"
definition us_quic_socket_context_on_stream_close :: "quics \<Rightarrow> ptr \<Rightarrow> nat \<Rightarrow> quics option" where
  "us_quic_socket_context_on_stream_close q c f = set_qctx q c (\<lambda>x. x\<lparr>qc_on_stream_close := Some f\<rparr>)"
definition us_quic_socket_context_on_open :: "quics \<Rightarrow> ptr \<Rightarrow> nat \<Rightarrow> quics option" where
  "us_quic_socket_context_on_open q c f = set_qctx q c (\<lambda>x. x\<lparr>qc_on_open := Some f\<rparr>)"
definition us_quic_socket_context_on_close :: "quics \<Rightarrow> ptr \<Rightarrow> nat \<Rightarrow> quics option" where
  "us_quic_socket_context_on_close q c f = set_qctx q c (\<lambda>x. x\<lparr>qc_on_close := Some f\<rparr>)"
definition us_quic_socket_context_on_stream_writable :: "quics \<Rightarrow> ptr \<Rightarrow> nat \<Rightarrow> quics option" where
  "us_quic_socket_context_on_stream_writable q c f = set_qctx q c (\<lambda>x. x\<lparr>qc_on_stream_writable := Some f\<rparr>)"

subsection \<open>Datagrams in\<close>

definition on_udp_socket_writable :: "qenv \<Rightarrow> quics \<Rightarrow> ptr \<Rightarrow> quics outcome option" where
  "on_udp_socket_writable Q q s = do {
     c \<leftarrow> us_udp_socket_user (q_heap q) s;
     x \<leftarrow> q_ctxs q c;
     lsq_do Q (Engine_send_unsent_packets (qc_engine x)) q }"

text \<open>The local address is built from the destination address of the packet and the bound port.\<close>

definition local_address :: "u8 list \<Rightarrow> int \<Rightarrow> sockaddr" where
  "local_address ip prt = (if length ip = 16 then SockIn6 ip (ntohs (word_of_int prt))
     else SockIn (take 4 ip) (ntohs (word_of_int prt)))"

definition one_packet_in ::
  "qenv \<Rightarrow> quics \<Rightarrow> ptr \<Rightarrow> (us_quic_socket_context_s \<Rightarrow> ptr) \<Rightarrow> ptr \<Rightarrow> ptr \<Rightarrow> nat \<Rightarrow> quics outcome option" where
  "one_packet_in Q q c engine s buf i = do {
     b \<leftarrow> udp_bufs (q_heap q) buf;
     payload \<leftarrow> us_udp_packet_buffer_payload (q_env Q) b i;
     len \<leftarrow> us_udp_packet_buffer_payload_length (q_env Q) b i;
     ecn \<leftarrow> us_udp_packet_buffer_ecn (q_env Q) b i;
     peer \<leftarrow> us_udp_packet_buffer_peer (q_env Q) b i;
     peer_addr \<leftarrow> at (pb_addr b) peer;
     ip \<leftarrow> us_udp_packet_buffer_local_ip (q_env Q) b i;
     if ip = [] then Some Exited
     else do {
       prt \<leftarrow> us_udp_socket_bound_port (q_heap q) s;
       x \<leftarrow> q_ctxs q c;
       lsq_do Q (Engine_packet_in (engine x) (read_mem (pb_mem b) payload len) (local_address ip prt) peer_addr s) q } }"

fun packets_in ::
  "qenv \<Rightarrow> quics \<Rightarrow> ptr \<Rightarrow> (us_quic_socket_context_s \<Rightarrow> ptr) \<Rightarrow> ptr \<Rightarrow> ptr \<Rightarrow> nat list \<Rightarrow> quics outcome option" where
  "packets_in Q q c engine s buf [] = Some (Returned q)"
| "packets_in Q q c engine s buf (i # is) =
     and_then (one_packet_in Q q c engine s buf i) (\<lambda>q. packets_in Q q c engine s buf is)"

definition process_conns ::
  "qenv \<Rightarrow> quics \<Rightarrow> ptr \<Rightarrow> (us_quic_socket_context_s \<Rightarrow> ptr) \<Rightarrow> quics outcome option" where
  "process_conns Q q c engine = do { x \<leftarrow> q_ctxs q c; lsq_do Q (Engine_process_conns (engine x)) q }"

definition on_udp_socket_data_client :: "qenv \<Rightarrow> quics \<Rightarrow> ptr \<Rightarrow> ptr \<Rightarrow> int \<Rightarrow> quics outcome option" where
  "on_udp_socket_data_client Q q s buf packets = do {
     c \<leftarrow> us_udp_socket_user (q_heap q) s;
     and_then (packets_in Q q c qc_client_engine s buf [0..<nat packets])
       (\<lambda>q. process_conns Q q c qc_client_engine) }"

definition on_udp_socket_data :: "qenv \<Rightarrow> quics \<Rightarrow> ptr \<Rightarrow> ptr \<Rightarrow> int \<Rightarrow> quics outcome option" where
  "on_udp_socket_data Q q s buf packets = do {
     c \<leftarrow> us_udp_socket_user (q_heap q) s;
     and_then (process_conns Q q c qc_engine) (\<lambda>q.
       and_then (packets_in Q q c qc_engine s buf [0..<nat packets])
         (\<lambda>q. process_conns Q q c qc_engine)) }"

subsection \<open>Datagrams out\<close>

text \<open>
  The message headers here are an array on the stack, not a packet buffer.  On Linux they go to the kernel
  in one call; on macOS one \<open>sendmsg\<close> is made for each, until one fails.
\<close>

fun sendmsg_each :: "env \<Rightarrow> heap \<Rightarrow> int \<Rightarrow> nat \<Rightarrow> (u8 list \<times> u8 list) list \<Rightarrow> int \<times> heap" where
  "sendmsg_each E h f i [] = (int i, h)"
| "sendmsg_each E h f i (m # ms) =
     (let (r, h) = sys E h (Sendmsg f m 0)
      in if r = -1 then (if i \<noteq> 0 then int i else -1, h) else sendmsg_each E h f (i + 1) ms)"

definition sendmmsg_headers :: "env \<Rightarrow> heap \<Rightarrow> int \<Rightarrow> (u8 list \<times> u8 list) list \<Rightarrow> int \<times> heap" where
  "sendmmsg_headers E h f ms = (case be E of
       Epoll \<Rightarrow> sys E h (Sendmmsg f ms (0 OR MSG_NOSIGNAL (be E)))
     | Kqueue_backend \<Rightarrow> sendmsg_each E h f 0 ms)"

definition spec_message :: "lsquic_out_spec \<Rightarrow> u8 list \<times> u8 list" where
  "spec_message p = (take (if spec_family p = AF_INET then 16 else 28) (spec_dest_sa p), concat (spec_iov p))"

text \<open>
  The result, whether \<open>errno\<close> was set to \<open>EAGAIN\<close>, and the heap.  \<open>run\<close> is the run of messages being
  collected for \<open>last_socket\<close>, \<open>n_specs\<close> the number of all.
\<close>

fun send_runs :: "env \<Rightarrow> heap \<Rightarrow> nat \<Rightarrow> int \<Rightarrow> ptr \<Rightarrow> (u8 list \<times> u8 list) list \<Rightarrow> lsquic_out_spec list \<Rightarrow>
    (int \<times> bool \<times> heap) option" where
  "send_runs E h n_specs sent last_socket run [] =
     (if run \<noteq> [] then do {
        p \<leftarrow> polls h last_socket;
        let (ret, h) = sendmmsg_headers E h (us_poll_fd p) run;
        if ret = -1 then Some (sent, False, h)
        else Some (sent + ret, sent + ret \<noteq> int n_specs, h) }
      else Some (int n_specs, False, h))"
| "send_runs E h n_specs sent last_socket run (s # specs) =
     (if length run = UIO_MAXIOV \<or> spec_peer_ctx s \<noteq> last_socket then do {
        p \<leftarrow> polls h last_socket;
        let (ret, h) = sendmmsg_headers E h (us_poll_fd p) run;
        if ret \<noteq> int (length run) then
          (if ret = -1 then Some (sent, False, h) else Some (sent + ret, True, h))
        else send_runs E h n_specs (sent + ret) (spec_peer_ctx s) [spec_message s] specs }
      else send_runs E h n_specs sent last_socket (run @ [spec_message s]) specs)"

definition send_packets_out :: "env \<Rightarrow> heap \<Rightarrow> lsquic_out_spec list \<Rightarrow> (int \<times> bool \<times> heap) option" where
  "send_packets_out E h specs = (case specs of
       [] \<Rightarrow> None
     | s # _ \<Rightarrow> send_runs E h (length specs) 0 (spec_peer_ctx s) [] specs)"

subsection \<open>Connections and streams\<close>

text \<open>Whether the engine of a connection is the client engine of the context.\<close>

definition conn_is_client :: "qenv \<Rightarrow> ptr \<Rightarrow> ptr \<Rightarrow> quics \<Rightarrow> (int \<times> quics) outcome option" where
  "conn_is_client Q c conn q = and_then (lsq Q (Conn_get_engine conn) q) (\<lambda>(r, bs, q). do {
     x \<leftarrow> q_ctxs q c;
     Some (Returned (if nat r = qc_client_engine x then 1 else 0, q)) })"

definition on_new_conn :: "qenv \<Rightarrow> quics \<Rightarrow> ptr \<Rightarrow> ptr \<Rightarrow> (ptr \<times> quics) outcome option" where
  "on_new_conn Q q stream_if_ctx conn =
     and_then (conn_is_client Q stream_if_ctx conn q) (\<lambda>(is_client, q). do {
       x \<leftarrow> q_ctxs q stream_if_ctx;
       and_then (q_call Q (qc_on_open x) (QOpen conn is_client) q)
         (\<lambda>q. Some (Returned (stream_if_ctx, q))) })"

definition us_quic_socket_create_stream :: "qenv \<Rightarrow> quics \<Rightarrow> ptr \<Rightarrow> quics outcome option" where
  "us_quic_socket_create_stream Q q s = lsq_do Q (Conn_make_stream s) q"

definition on_conn_closed :: "qenv \<Rightarrow> quics \<Rightarrow> ptr \<Rightarrow> quics outcome option" where
  "on_conn_closed Q q conn = and_then (lsq Q (Conn_get_ctx conn) q) (\<lambda>(r, bs, q). do {
     x \<leftarrow> q_ctxs q (nat r);
     q_call Q (qc_on_close x) (QClose conn) q })"

definition on_new_stream :: "qenv \<Rightarrow> quics \<Rightarrow> ptr \<Rightarrow> ptr \<Rightarrow> (ptr \<times> quics) outcome option" where
  "on_new_stream Q q stream_if_ctx s =
     and_then (lsq_do Q (Stream_wantread s 1) q) (\<lambda>q.
       let ext = q_malloc Q q; q = q\<lparr>q_exts := (q_exts q)(ext \<mapsto> ''Hello I am ext!'')\<rparr>
       in and_then (lsq Q (Stream_conn s) q) (\<lambda>(conn, bs, q).
          and_then (conn_is_client Q stream_if_ctx (nat conn) q) (\<lambda>(is_client, q).
            and_then (lsq_do Q (Stream_set_ctx s ext) q) (\<lambda>q. do {
              x \<leftarrow> q_ctxs q stream_if_ctx;
              and_then (q_call Q (qc_on_stream_open x) (QStreamOpen s is_client) q)
                (\<lambda>q. Some (Returned (ext, q))) }))))"

definition us_quic_stream_is_client :: "qenv \<Rightarrow> quics \<Rightarrow> ptr \<Rightarrow> (int \<times> quics) outcome option" where
  "us_quic_stream_is_client Q q s = and_then (lsq Q (Stream_conn s) q) (\<lambda>(conn, bs, q).
     and_then (lsq Q (Conn_get_ctx (nat conn)) q) (\<lambda>(c, bs, q).
       and_then (lsq Q (Stream_conn s) q) (\<lambda>(conn, bs, q). conn_is_client Q (nat c) (nat conn) q)))"

definition us_quic_stream_socket :: "qenv \<Rightarrow> quics \<Rightarrow> ptr \<Rightarrow> (ptr \<times> quics) outcome option" where
  "us_quic_stream_socket Q q s = and_then (lsq Q (Stream_conn s) q) (\<lambda>(r, bs, q). Some (Returned (nat r, q)))"

text \<open>The context of a stream, by its connection.\<close>

definition stream_context :: "qenv \<Rightarrow> quics \<Rightarrow> ptr \<Rightarrow> (ptr \<times> quics) outcome option" where
  "stream_context Q q s = and_then (lsq Q (Stream_conn s) q) (\<lambda>(conn, bs, q).
     and_then (lsq Q (Conn_get_ctx (nat conn)) q) (\<lambda>(c, bs, q). Some (Returned (nat c, q))))"

definition leave_all :: "quics \<Rightarrow> quics" where "leave_all q = q\<lparr>q_pool_top := 0\<rparr>"

definition on_read_headers :: "qenv \<Rightarrow> quics \<Rightarrow> ptr \<Rightarrow> ptr \<Rightarrow> quics outcome option" where
  "on_read_headers Q q c s = and_then (lsq Q (Stream_get_hset s) q) (\<lambda>(header_set, bs, q).
     if header_set \<noteq> 0 then do {
       x \<leftarrow> q_ctxs q c;
       and_then (q_call Q (qc_on_stream_headers x) (QStreamHeaders s) q)
         (\<lambda>q. Some (Returned (leave_all q))) }
     else Some (Returned q))"

definition on_read :: "qenv \<Rightarrow> quics \<Rightarrow> ptr \<Rightarrow> quics outcome option" where
  "on_read Q q s = and_then (stream_context Q q s) (\<lambda>(c, q).
     and_then (on_read_headers Q q c s) (\<lambda>q.
       and_then (lsq Q (Stream_read s 4096) q) (\<lambda>(nr, temp, q).
         if nr = 0 then and_then (lsq_do Q (Stream_wantread s 0) q) (\<lambda>q. do {
           x \<leftarrow> q_ctxs q c;
           q_call Q (qc_on_stream_end x) (QStreamEnd s) q })
         else if nr = -1 then
           (if q_errno Q q \<noteq> EWOULDBLOCK (be (q_env Q)) then Some Exited else Some (Returned q))
         else do {
           x \<leftarrow> q_ctxs q c;
           q_call Q (qc_on_stream_data x) (QStreamData s (take (nat nr) temp)) q })))"

definition us_quic_stream_write :: "qenv \<Rightarrow> quics \<Rightarrow> ptr \<Rightarrow> u8 list \<Rightarrow> (int \<times> quics) outcome option" where
  "us_quic_stream_write Q q s data = and_then (lsq Q (Stream_write s data) q) (\<lambda>(ret, bs, q).
     and_then (lsq_do Q (Stream_wantwrite s (if ret \<noteq> int (length data) then 1 else 0)) q)
       (\<lambda>q. Some (Returned (ret, q))))"

definition on_write :: "qenv \<Rightarrow> quics \<Rightarrow> ptr \<Rightarrow> quics outcome option" where
  "on_write Q q s = and_then (stream_context Q q s) (\<lambda>(c, q). do {
     x \<leftarrow> q_ctxs q c;
     q_call Q (qc_on_stream_writable x) (QStreamWritable s) q })"

definition on_stream_close :: "quics \<Rightarrow> ptr \<Rightarrow> quics" where "on_stream_close q s = q"

text \<open>A failing call ends the process.\<close>

definition or_exit :: "(int \<times> u8 list \<times> quics) outcome option \<Rightarrow> quics outcome option" where
  "or_exit m = and_then m (\<lambda>(ret, bs, q). if ret \<noteq> 0 then Some Exited else Some (Returned q))"

definition us_quic_stream_shutdown_read :: "qenv \<Rightarrow> quics \<Rightarrow> ptr \<Rightarrow> quics outcome option" where
  "us_quic_stream_shutdown_read Q q s = or_exit (lsq Q (Stream_shutdown s 0) q)"

definition us_quic_stream_ext :: "qenv \<Rightarrow> quics \<Rightarrow> ptr \<Rightarrow> (ptr \<times> quics) outcome option" where
  "us_quic_stream_ext Q q s = and_then (lsq Q (Stream_get_ctx s) q) (\<lambda>(r, bs, q). Some (Returned (nat r, q)))"

definition us_quic_stream_close :: "qenv \<Rightarrow> quics \<Rightarrow> ptr \<Rightarrow> quics outcome option" where
  "us_quic_stream_close Q q s = or_exit (lsq Q (Stream_close s) q)"

definition us_quic_stream_shutdown :: "qenv \<Rightarrow> quics \<Rightarrow> ptr \<Rightarrow> quics outcome option" where
  "us_quic_stream_shutdown Q q s = or_exit (lsq Q (Stream_shutdown s 1) q)"

definition us_quic_socket_context :: "qenv \<Rightarrow> quics \<Rightarrow> ptr \<Rightarrow> (ptr \<times> quics) outcome option" where
  "us_quic_socket_context Q q s = and_then (lsq Q (Conn_get_ctx s) q) (\<lambda>(r, bs, q). Some (Returned (nat r, q)))"

subsection \<open>Headers to send\<close>

definition splice :: "'a list \<Rightarrow> nat \<Rightarrow> 'a list \<Rightarrow> 'a list" where
  "splice buf i bs = take i buf @ bs @ drop (i + length bs) buf"

text \<open>
  The sum of the offset and the lengths is one of 64 unsigned bits.  Copying more than the source holds,
  or past the end of the buffer, is a fault.
\<close>

definition header_set_ptr :: "quics \<Rightarrow> nat \<Rightarrow> u8 list \<Rightarrow> u64 \<Rightarrow> u8 list \<Rightarrow> u64 \<Rightarrow> (int \<times> quics) option" where
  "header_set_ptr q index name name_len val val_len =
     (if unat ((of_nat (q_hoff q) :: u64) + name_len + val_len) \<le> HEADER_BUF_SIZE then
        (if unat name_len \<le> length name \<and> unat val_len \<le> length val \<and>
            q_hoff q + unat name_len + unat val_len \<le> HEADER_BUF_SIZE \<and> index < length (q_headers q)
         then Some (0, q\<lparr>q_hbuf := splice (q_hbuf q) (q_hoff q) (take (unat name_len) name @ take (unat val_len) val),
            q_headers := (q_headers q)[index := \<lparr>lx_base = q_hoff q, lx_name_offset = 0, lx_name_len = unat name_len,
              lx_val_offset = unat name_len, lx_val_len = unat val_len\<rparr>],
            q_hoff := q_hoff q + unat name_len + unat val_len\<rparr>)
         else None)
      else Some (-1, q))"

definition us_quic_socket_context_set_header ::
  "quics \<Rightarrow> int \<Rightarrow> u8 list \<Rightarrow> int \<Rightarrow> u8 list \<Rightarrow> int \<Rightarrow> quics outcome option" where
  "us_quic_socket_context_set_header q index key key_length value value_length =
     (if index < 0 then None
      else do {
        (r, q) \<leftarrow> header_set_ptr q (nat index) key (word_of_int key_length) value (word_of_int value_length);
        Some (if r \<noteq> 0 then Exited else Returned q) })"

definition us_quic_socket_context_send_headers ::
  "qenv \<Rightarrow> quics \<Rightarrow> ptr \<Rightarrow> int \<Rightarrow> int \<Rightarrow> quics outcome option" where
  "us_quic_socket_context_send_headers Q q s num has_body =
     (if nat num \<le> length (q_headers q) then
        and_then (or_exit (lsq Q (Stream_send_headers s (take (nat num) (q_headers q)) (if has_body \<noteq> 0 then 0 else 1)) q))
          (\<lambda>q. Some (Returned (q\<lparr>q_hoff := 0\<rparr>)))
      else None)"

subsection \<open>TLS\<close>

text \<open>
  The ALPN string up to its terminator: every protocol behind a byte with its length.  An empty protocol
  leaves it as it was, since its length byte is a terminator.
\<close>

definition add_alpn :: "quics \<Rightarrow> u8 list \<Rightarrow> int \<times> quics" where
  "add_alpn q alpn =
     (if length alpn > 255 then (-1, q)
      else if length (q_alpn q) + 1 + length alpn + 1 > ALPN_SIZE then (-1, q)
      else (0, if alpn = [] then q else q\<lparr>q_alpn := q_alpn q @ of_nat (length alpn) # alpn\<rparr>))"

definition select_alpn :: "qenv \<Rightarrow> quics \<Rightarrow> u8 list \<Rightarrow> (int \<times> quics) outcome option" where
  "select_alpn Q q client_protocols = and_then (lsq Q (Q_select_next_proto client_protocols (q_alpn q)) q)
     (\<lambda>(r, bs, q). Some (Returned (if r = 1 then 0 else 2, q)))"

definition server_name_cb :: "qenv \<Rightarrow> quics \<Rightarrow> ptr \<Rightarrow> (int \<times> quics) outcome option" where
  "server_name_cb Q q s = and_then (lsq_do Q (Q_set_SSL_CTX s (q_old_ctx q)) q) (\<lambda>q.
     and_then (lsq_do Q (Q_get_servername s) q) (\<lambda>q.
       and_then (lsq Q (Q_get_servername s) q) (\<lambda>(name, bs, q).
         if name = 0 then and_then (lsq_do Q (Q_set_host_name s ''YOLO NAME!'') q) (\<lambda>q.
           and_then (lsq_do Q (Q_get_servername s) q) (\<lambda>q. Some (Returned (0, q))))
         else Some (Returned (0, q)))))"

definition get_ssl_ctx :: "qenv \<Rightarrow> quics \<Rightarrow> ptr \<Rightarrow> (ptr \<times> quics) outcome option" where
  "get_ssl_ctx Q q peer_ctx = do {
     c \<leftarrow> us_udp_socket_user (q_heap q) peer_ctx;
     if q_old_ctx q \<noteq> NULL then Some (Returned (q_old_ctx q, q))
     else and_then (lsq Q Q_CTX_new q) (\<lambda>(r, bs, q).
       let ctx = nat r; q = q\<lparr>q_old_ctx := ctx\<rparr> in
       and_then (lsq_do Q (Q_CTX_set_min_proto_version ctx) q) (\<lambda>q.
       and_then (lsq_do Q (Q_CTX_set_max_proto_version ctx) q) (\<lambda>q.
       and_then (lsq_do Q (Q_CTX_set_alpn_select_cb ctx) q) (\<lambda>q.
       and_then (lsq_do Q (Q_CTX_set_servername_callback ctx) q) (\<lambda>q. do {
         x \<leftarrow> q_ctxs q c;
         and_then (lsq_do Q (Q_CTX_use_certificate ctx (cert_file_name (qc_options x))) q) (\<lambda>q. do {
           x \<leftarrow> q_ctxs q c;
           and_then (lsq_do Q (Q_CTX_use_private_key ctx (key_file_name (qc_options x))) q)
             (\<lambda>q. Some (Returned (ctx, q))) }) }))))) }"

definition sni_lookup :: "quics \<Rightarrow> string \<Rightarrow> ptr" where "sni_lookup q server_name = q_old_ctx q"

subsection \<open>Headers received\<close>

text \<open>A block of the pool, by its number.\<close>

definition take_block :: "quics \<Rightarrow> (nat \<times> quics) outcome" where
  "take_block q = (if q_pool_top q = POOL_BLOCKS then Exited
     else Returned (q_pool_top q, q\<lparr>q_pool_top := q_pool_top q + 1\<rparr>))"

definition hsi_create_header_set :: "quics \<Rightarrow> (nat \<times> quics) outcome" where
  "hsi_create_header_set q = (case take_block q of
       Exited \<Rightarrow> Exited
     | Returned (b, q) \<Rightarrow> Returned (b, q\<lparr>q_hsets := (q_hsets q)(b := (q_hsets q b)\<lparr>hs_offset := 0\<rparr>)\<rparr>))"

definition hsi_discard_header_set :: "quics \<Rightarrow> nat \<Rightarrow> quics" where "hsi_discard_header_set q hset = q"

text \<open>A block that becomes a header is no header set any more.\<close>

definition hsi_prepare_decode :: "qenv \<Rightarrow> quics \<Rightarrow> nat option \<Rightarrow> nat \<Rightarrow> (nat \<times> quics) outcome option" where
  "hsi_prepare_decode Q q hdr space = (case hdr of
       None \<Rightarrow> (case take_block q of
           Exited \<Rightarrow> Some Exited
         | Returned (b, q) \<Rightarrow>
             and_then (lsq_do Q (Header_prepare_decode b space) (q\<lparr>q_hsets := (q_hsets q)(b := q_block_garbage Q q)\<rparr>))
               (\<lambda>q. Some (Returned (b, q))))
     | Some b \<Rightarrow>
         (if space > POOL_BLOCK_SIZE - q_sizeof_lsxpack_header Q then Some Exited
          else Some (Returned (b, q\<lparr>q_decoded := (q_decoded q)(b := (q_decoded q b)\<lparr>lx_val_len := space\<rparr>)\<rparr>))))"

text \<open>A header set is a count and an array in one block; nothing compares the count with the block's size.\<close>

definition hset_room :: "nat \<Rightarrow> bool" where
  "hset_room n \<longleftrightarrow> SIZEOF_HEADER_SET_HD + SIZEOF_PROCESSED_HEADER * (n + 1) \<le> POOL_BLOCK_SIZE"

definition hsi_process_header :: "quics \<Rightarrow> nat \<Rightarrow> nat option \<Rightarrow> (int \<times> quics) option" where
  "hsi_process_header q hset hdr = (case hdr of
       None \<Rightarrow> Some (0, q\<lparr>q_last_hset := Some hset\<rparr>)
     | Some d \<Rightarrow>
         (let hd = q_hsets q hset; i = hs_offset hd; x = q_decoded q d
          in if 0 \<le> i \<and> hset_room (nat i) then
               Some (0, q\<lparr>q_hsets := (q_hsets q)(hset := \<lparr>hs_offset = i + 1,
                 hs_headers = (hs_headers hd)(nat i \<mapsto> \<lparr>ph_block = d, ph_name = lx_name_offset x,
                   ph_value = lx_val_offset x, ph_name_length = lx_name_len x, ph_value_length = lx_val_len x\<rparr>)\<rparr>)\<rparr>)
             else None))"

definition us_quic_socket_context_get_header :: "quics \<Rightarrow> int \<Rightarrow> (int \<times> processed_header option) option" where
  "us_quic_socket_context_get_header q index = do {
     b \<leftarrow> q_last_hset q;
     if index < hs_offset (q_hsets q b) then
       (if 0 \<le> index then do { h \<leftarrow> hs_headers (q_hsets q b) (nat index); Some (1, Some h) } else None)
     else Some (0, None) }"

subsection \<open>Contexts\<close>

definition timer_cb :: "qenv \<Rightarrow> quics \<Rightarrow> quics outcome option" where
  "timer_cb Q q = and_then (lsq_do Q (Engine_process_conns (q_global_engine q)) q) (\<lambda>q.
     and_then (lsq_do Q (Engine_process_conns (q_global_client_engine q)) q) (\<lambda>q.
     and_then (lsq_do Q (Engine_send_unsent_packets (q_global_engine q)) q) (\<lambda>q.
       lsq_do Q (Engine_send_unsent_packets (q_global_client_engine q)) q)))"

definition us_create_quic_socket_context ::
  "qenv \<Rightarrow> quics \<Rightarrow> ptr \<Rightarrow> us_quic_socket_context_options_t \<Rightarrow> (ptr \<times> quics) outcome option" where
  "us_create_quic_socket_context Q q loop options =
     (let c = q_malloc Q q;
          (buf, h) = us_create_udp_packet_buffer (q_env Q) (q_heap q);
          q = q\<lparr>q_heap := h, q_ctxs := (q_ctxs q)(c \<mapsto> \<lparr>qc_recv_buf = buf, qc_loop = loop, qc_engine = NULL,
            qc_client_engine = NULL, qc_options = options, qc_on_stream_data = None, qc_on_stream_end = None,
            qc_on_stream_headers = None, qc_on_stream_open = None, qc_on_stream_close = None,
            qc_on_stream_writable = None, qc_on_open = None, qc_on_close = None\<rparr>)\<rparr>
      in and_then (or_exit (lsq Q Global_init q)) (\<lambda>q.
         let q = snd (add_alpn q [104, 51]) in
         and_then (lsq Q (Engine_new (LSENG_SERVER OR LSENG_HTTP)) q) (\<lambda>(e, bs, q). do {
           q \<leftarrow> set_qctx q c (\<lambda>x. x\<lparr>qc_engine := nat e\<rparr>);
           and_then (lsq Q (Engine_new LSENG_HTTP) q) (\<lambda>(e, bs, q). do {
             q \<leftarrow> set_qctx q c (\<lambda>x. x\<lparr>qc_client_engine := nat e\<rparr>);
             (t, h) \<leftarrow> us_create_timer (q_env Q) (q_heap q) loop 0;
             h \<leftarrow> us_timer_set (q_env Q) h t (q_fn_timer_cb Q) 50 50;
             x \<leftarrow> q_ctxs q c;
             Some (Returned (c, q\<lparr>q_heap := h, q_global_engine := qc_engine x,
               q_global_client_engine := qc_client_engine x\<rparr>)) }) })))"

definition us_quic_socket_context_listen ::
  "qenv \<Rightarrow> quics \<Rightarrow> ptr \<Rightarrow> string option \<Rightarrow> int \<Rightarrow> (ptr \<times> quics) option" where
  "us_quic_socket_context_listen Q q c host port = do {
     x \<leftarrow> q_ctxs q c;
     (p, h) \<leftarrow> us_create_udp_socket (q_env Q) (q_heap q) (qc_loop x) NULL (q_fn_data Q) (q_fn_writable Q) host
       (word_of_int port) c;
     Some (p, q\<lparr>q_heap := h\<rparr>) }"

text \<open>The host and the port asked for are not used: the peer is always port 9004 of the local host.\<close>

definition localhost6 :: "int \<Rightarrow> sockaddr" where
  "localhost6 prt = SockIn6 (replicate 15 0 @ [1]) (ntohs (word_of_int prt))"

definition us_quic_socket_context_connect ::
  "qenv \<Rightarrow> quics \<Rightarrow> ptr \<Rightarrow> string option \<Rightarrow> int \<Rightarrow> (ptr \<times> quics) outcome option" where
  "us_quic_socket_context_connect Q q c host port = do {
     x \<leftarrow> q_ctxs q c;
     (s, h) \<leftarrow> us_create_udp_socket (q_env Q) (q_heap q) (qc_loop x) NULL (q_fn_data_client Q) (q_fn_writable Q)
       None 0 c;
     let q = q\<lparr>q_heap := h\<rparr>;
     ephemeral \<leftarrow> us_udp_socket_bound_port (q_heap q) s;
     and_then (lsq Q (Engine_connect (qc_client_engine x) (localhost6 ephemeral) (localhost6 9004) s) q)
       (\<lambda>(client, bs, q). and_then (process_conns Q q c qc_client_engine)
          (\<lambda>q. Some (Returned (nat client, q)))) }"

end
