(* ===== verification/Quic_out.thy ===== *)
theory Quic_out
  imports Quic Demo
begin

text \<open>
  Sending the datagrams of lsquic: \<open>send_packets_out\<close> cuts them into runs for one socket each and hands a run
  at a time to the kernel.  lsquic takes the result for the number of datagrams sent from the front, so what
  the kernel accepted has to be exactly that prefix.
\<close>

text \<open>A kernel that takes some messages from the front, or fails.\<close>

definition sendmmsg_counts :: "env \<Rightarrow> bool" where
  "sendmmsg_counts E \<longleftrightarrow> (\<forall>tr f ms fl. -1 \<le> sys_ret E tr (Sendmmsg f ms fl) \<and>
     sys_ret E tr (Sendmmsg f ms fl) \<le> int (length ms))"

text \<open>What the kernel accepted in a history of calls, with the descriptor, and whether it refused something.\<close>

fun taken :: "env \<Rightarrow> trace_t \<Rightarrow> event \<Rightarrow> (int \<times> u8 list \<times> u8 list) list" where
  "taken E tr (Sys (Sendmmsg f ms fl)) = map (Pair f) (take (nat (sys_ret E tr (Sendmmsg f ms fl))) ms)"
| "taken E tr (Sys (Sendmsg f m fl)) = (if sys_ret E tr (Sendmsg f m fl) = -1 then [] else [(f, m)])"
| "taken E tr _ = []"

fun accepted :: "env \<Rightarrow> trace_t \<Rightarrow> event list \<Rightarrow> (int \<times> u8 list \<times> u8 list) list" where
  "accepted E tr [] = []"
| "accepted E tr (e # es) = taken E tr e @ accepted E (tr @ [e]) es"

fun refused :: "env \<Rightarrow> trace_t \<Rightarrow> event \<Rightarrow> bool" where
  "refused E tr (Sys (Sendmmsg f ms fl)) = (sys_ret E tr (Sendmmsg f ms fl) \<noteq> int (length ms))"
| "refused E tr (Sys (Sendmsg f m fl)) = (sys_ret E tr (Sendmsg f m fl) = -1)"
| "refused E tr _ = False"

definition ends_refused :: "env \<Rightarrow> trace_t \<Rightarrow> event list \<Rightarrow> bool" where
  "ends_refused E tr es \<longleftrightarrow> es \<noteq> [] \<and> refused E (tr @ butlast es) (last es)"

fun run_ok :: "event \<Rightarrow> bool" where
  "run_ok (Sys (Sendmmsg f ms fl)) = (length ms \<le> UIO_MAXIOV)"
| "run_ok (Sys (Sendmsg f m fl)) = True"
| "run_ok _ = False"

lemma accepted_append [simp]: "accepted E tr (es @ es') = accepted E tr es @ accepted E (tr @ es) es'"
  by (induction es arbitrary: tr) simp_all

lemma ends_refused_append: "ends_refused E (tr @ es) es' \<Longrightarrow> ends_refused E tr (es @ es')"
  by (auto simp: ends_refused_def butlast_append)

text \<open>\<open>es\<close> is what a send of \<open>ms\<close> did, when \<open>r\<close> of them were taken and \<open>ok\<close> tells whether that is all.\<close>

definition sends :: "env \<Rightarrow> heap \<Rightarrow> heap \<Rightarrow> (int \<times> u8 list \<times> u8 list) list \<Rightarrow> nat \<Rightarrow> bool" where
  "sends E h h' ms r \<longleftrightarrow> r \<le> length ms \<and> (\<exists>es. h' = h\<lparr>trace := trace h @ es\<rparr> \<and>
     accepted E (trace h) es = take r ms \<and> list_all run_ok es \<and> (r < length ms \<longrightarrow> ends_refused E (trace h) es))"

lemma sends_polls: "sends E h h' ms r \<Longrightarrow> polls h' = polls h"
  by (auto simp: sends_def)

lemma sends_nothing: "sends E h h [] 0"
  by (auto simp: sends_def intro: exI [of _ "[]"])

lemma sends_trans:
  assumes "sends E h h1 ms (length ms)" "sends E h1 h2 ms' r"
  shows "sends E h h2 (ms @ ms') (length ms + r)"
proof -
  from assms obtain es es' where es: "h1 = h\<lparr>trace := trace h @ es\<rparr>" "accepted E (trace h) es = ms" "list_all run_ok es"
    "r \<le> length ms'" "h2 = h1\<lparr>trace := trace h1 @ es'\<rparr>" "accepted E (trace h1) es' = take r ms'" "list_all run_ok es'"
    "r < length ms' \<longrightarrow> ends_refused E (trace h1) es'"
    by (auto simp: sends_def)
  then show ?thesis
    unfolding sends_def by (intro conjI exI [of _ "es @ es'"]) (auto intro: ends_refused_append)
qed

lemma sends_prefix: "sends E h h' ms r \<Longrightarrow> r < length ms \<Longrightarrow> sends E h h' (ms @ ms') r"
  by (auto simp: sends_def)

subsection \<open>One run\<close>

lemma sendmsg_each_sends:
  "\<exists>r ret h'. sendmsg_each E h f i ms = (ret, h') \<and> sends E h h' (map (Pair f) ms) r \<and>
     ret = (if i + r = 0 \<and> ms \<noteq> [] then -1 else int (i + r))"
proof (induction ms arbitrary: h i)
  case Nil
  then show ?case using sends_nothing by auto
next
  case (Cons m ms)
  define h1 where "h1 = do_sys h (Sendmsg f m 0)"
  have h1: "trace h1 = trace h @ [Sys (Sendmsg f m 0)]" "h1 = h\<lparr>trace := trace h @ [Sys (Sendmsg f m 0)]\<rparr>"
    by (simp_all add: h1_def do_sys_def)
  show ?case
  proof (cases "sys_ret E (trace h) (Sendmsg f m 0) = -1")
    case True
    then have "sends E h h1 (map (Pair f) (m # ms)) 0"
      unfolding sends_def h1(2) by (auto simp: ends_refused_def intro!: exI [of _ "[Sys (Sendmsg f m 0)]"])
    with True show ?thesis
      by (intro exI [of _ 0] exI [of _ "if i \<noteq> 0 then int i else -1"] exI [of _ h1]) (simp add: sys_def h1_def)
  next
    case False
    have one: "sends E h h1 [(f, m)] (length [(f, m)])"
      unfolding sends_def h1(2) using False by (auto intro!: exI [of _ "[Sys (Sendmsg f m 0)]"])
    from Cons.IH [of h1 "i + 1"] obtain r ret h' where r: "sendmsg_each E h1 f (i + 1) ms = (ret, h')"
      "sends E h1 h' (map (Pair f) ms) r" "ret = int (i + 1 + r)" by auto
    from sends_trans [OF one r(2)] have "sends E h h' (map (Pair f) (m # ms)) (Suc r)" by simp
    with r False show ?thesis by (intro exI [of _ "Suc r"] exI [of _ ret] exI [of _ h']) (simp add: sys_def h1_def)
  qed
qed

lemma sendmmsg_headers_sends:
  assumes "sendmmsg_counts E" "length ms \<le> UIO_MAXIOV" "ms \<noteq> []"
  shows "\<exists>r ret h'. sendmmsg_headers E h f ms = (ret, h') \<and> sends E h h' (map (Pair f) ms) r \<and>
    (ret = -1 \<and> r = 0 \<or> ret = int r)"
proof (cases "be E")
  case Epoll
  define fl where "fl = 0 OR MSG_NOSIGNAL (be E)"
  define ret where "ret = sys_ret E (trace h) (Sendmmsg f ms fl)"
  have ret: "-1 \<le> ret" "ret \<le> int (length ms)" using assms(1) by (simp_all add: sendmmsg_counts_def ret_def)
  have "sends E h (do_sys h (Sendmmsg f ms fl)) (map (Pair f) ms) (nat ret)"
    using ret assms(2) unfolding sends_def do_sys_def
    by (auto simp: ends_refused_def ret_def [symmetric] take_map intro!: exI [of _ "[Sys (Sendmmsg f ms fl)]"])
  with ret Epoll show ?thesis
    by (intro exI [of _ "nat ret"] exI [of _ ret] exI [of _ "do_sys h (Sendmmsg f ms fl)"])
      (auto simp: sendmmsg_headers_def sys_def fl_def ret_def)
next
  case Kqueue_backend
  with sendmsg_each_sends [of E h f 0 ms] show ?thesis by (fastforce simp: sendmmsg_headers_def)
qed

subsection \<open>All runs\<close>

definition fd_of :: "heap \<Rightarrow> ptr \<Rightarrow> int" where
  "fd_of h p = (case polls h p of None \<Rightarrow> 0 | Some x \<Rightarrow> us_poll_fd x)"

definition datagram :: "heap \<Rightarrow> lsquic_out_spec \<Rightarrow> int \<times> u8 list \<times> u8 list" where
  "datagram h s = (fd_of h (spec_peer_ctx s), spec_message s)"

text \<open>What remains to be sent: the run collected and the rest of the specs.\<close>

definition pending :: "heap \<Rightarrow> ptr \<Rightarrow> (u8 list \<times> u8 list) list \<Rightarrow> lsquic_out_spec list \<Rightarrow> (int \<times> u8 list \<times> u8 list) list" where
  "pending h lst run specs = map (Pair (fd_of h lst)) run @ map (datagram h) specs"

lemma pending_polls: "polls h' = polls h \<Longrightarrow> pending h' = pending h"
  by (simp add: pending_def datagram_def fd_of_def fun_eq_iff)

lemma pending_length [simp]: "length (pending h lst run specs) = length run + length specs"
  by (simp add: pending_def)

lemma one_run:
  assumes "sendmmsg_counts E" "length run \<le> UIO_MAXIOV" "run \<noteq> []" "polls h lst = Some x"
  obtains r ret h' where "sendmmsg_headers E h (us_poll_fd x) run = (ret, h')"
    "sends E h h' (map (Pair (fd_of h lst)) run) r" "r \<le> length run" "ret = -1 \<and> r = 0 \<or> ret = int r" "polls h' = polls h"
proof -
  from sendmmsg_headers_sends [OF assms(1-3), of h "us_poll_fd x"] obtain r ret h'
    where "sendmmsg_headers E h (us_poll_fd x) run = (ret, h')"
    "sends E h h' (map (Pair (us_poll_fd x)) run) r" "ret = -1 \<and> r = 0 \<or> ret = int r" by blast
  note r = this
  have fd: "fd_of h lst = us_poll_fd x" using assms(4) by (simp add: fd_of_def)
  have "r \<le> length run" using r(2) by (simp add: sends_def)
  with r sends_polls [OF r(2)] show thesis by (intro that [of ret h' r]) (simp_all add: fd)
qed

lemma send_runs_sends:
  assumes "sendmmsg_counts E" "length run \<le> UIO_MAXIOV" "run \<noteq> [] \<or> (\<exists>s ss. specs = s # ss \<and> spec_peer_ctx s = lst)"
    "lst \<in> dom (polls h)" "spec_peer_ctx ` set specs \<subseteq> dom (polls h)" "n = sent + (length run + length specs)"
  shows "\<exists>r again h'. send_runs E h n (int sent) lst run specs = Some (int (sent + r), again, h') \<and>
    sends E h h' (pending h lst run specs) r \<and> (again \<longrightarrow> r < length run + length specs)"
  using assms(2-6)
proof (induction specs arbitrary: h sent lst run)
  case Nil
  then obtain x where x: "polls h lst = Some x" and "run \<noteq> []" by auto
  obtain r ret h' where r: "sendmmsg_headers E h (us_poll_fd x) run = (ret, h')"
    "sends E h h' (map (Pair (fd_of h lst)) run) r" "r \<le> length run" "ret = -1 \<and> r = 0 \<or> ret = int r"
    by (rule one_run [OF assms(1) Nil.prems(1) \<open>run \<noteq> []\<close> x])
  with x \<open>run \<noteq> []\<close> Nil.prems(5) show ?case by (auto simp: pending_def)
next
  case (Cons s specs)
  show ?case
  proof (cases "length run = UIO_MAXIOV \<or> spec_peer_ctx s \<noteq> lst")
    case False
    with Cons.prems have "length (run @ [spec_message s]) \<le> UIO_MAXIOV" by simp
    with Cons.IH [of "run @ [spec_message s]" lst h sent] Cons.prems False show ?thesis
      by (auto simp: pending_def datagram_def)
  next
    case True
    with Cons.prems(2) have "run \<noteq> []" by (auto simp: UIO_MAXIOV_def)
    from Cons.prems(3) obtain x where x: "polls h lst = Some x" by auto
    obtain r ret h1 where r: "sendmmsg_headers E h (us_poll_fd x) run = (ret, h1)"
      "sends E h h1 (map (Pair (fd_of h lst)) run) r" "r \<le> length run" "ret = -1 \<and> r = 0 \<or> ret = int r" "polls h1 = polls h"
      by (rule one_run [OF assms(1) Cons.prems(1) \<open>run \<noteq> []\<close> x])
    show ?thesis
    proof (cases "ret = int (length run)")
      case short: False
      then have "r < length run" using r \<open>run \<noteq> []\<close> by auto
      from sends_prefix [OF r(2)] this have "sends E h h1 (pending h lst run (s # specs)) r"
        by (simp add: pending_def)
      moreover have "send_runs E h n (int sent) lst run (s # specs) = Some (int (sent + r), ret \<noteq> -1, h1)"
        using short x True r(1,4) by (auto simp: Let_def)
      ultimately show ?thesis using \<open>r < length run\<close> by (intro exI [of _ r] exI [of _ "ret \<noteq> -1"] exI [of _ h1]) simp
    next
      case False: True
      then have "r = length run" using r(4) by auto
      have "\<exists>r' again h'. send_runs E h1 n (int (sent + length run)) (spec_peer_ctx s) [spec_message s] specs =
          Some (int (sent + length run + r'), again, h') \<and>
        sends E h1 h' (pending h1 (spec_peer_ctx s) [spec_message s] specs) r' \<and>
          (again \<longrightarrow> r' < length [spec_message s] + length specs)"
        using Cons.prems r(5) by (intro Cons.IH) (auto simp: UIO_MAXIOV_def)
      then obtain r' again h' where r': "send_runs E h1 n (int (sent + length run)) (spec_peer_ctx s) [spec_message s] specs =
          Some (int (sent + length run + r'), again, h')"
        "sends E h1 h' (map (datagram h) (s # specs)) r'" "again \<longrightarrow> r' < Suc (length specs)"
        by (auto simp: pending_polls [OF r(5)] pending_def datagram_def)
      have "sends E h h' (pending h lst run (s # specs)) (length run + r')"
        using sends_trans [of E h h1 "map (Pair (fd_of h lst)) run" h'] r(2) r'(2) \<open>r = length run\<close>
        by (simp add: pending_def)
      moreover have "send_runs E h n (int sent) lst run (s # specs) = Some (int (sent + (length run + r')), again, h')"
        using r'(1) r(1) x True False by (simp add: add.assoc)
      ultimately show ?thesis
        using r'(3) by (intro exI [of _ "length run + r'"] exI [of _ again] exI [of _ h']) simp
    qed
  qed
qed

text \<open>
  C21: \<open>send_packets_out\<close> returns the number of datagrams that the kernel accepted, and these are the first of
  those it was given, in their order, each on the descriptor of its socket and with its parts put together;
  no run is longer than the array, and when the result is not the number of all, the last call was refused.
\<close>

theorem send_packets_out_prefix:
  assumes "sendmmsg_counts E" "specs \<noteq> []" "spec_peer_ctx ` set specs \<subseteq> dom (polls h)"
  shows "\<exists>r again h' es. send_packets_out E h specs = Some (int r, again, h') \<and> r \<le> length specs \<and>
    h' = h\<lparr>trace := trace h @ es\<rparr> \<and> accepted E (trace h) es = take r (map (datagram h) specs) \<and>
    list_all run_ok es \<and> (r < length specs \<longrightarrow> ends_refused E (trace h) es) \<and> (again \<longrightarrow> r < length specs)"
proof -
  from assms(2) obtain s ss where specs: "specs = s # ss" by (cases specs) auto
  have "\<exists>r again h'. send_runs E h (length specs) (int 0) (spec_peer_ctx s) [] specs = Some (int (0 + r), again, h') \<and>
    sends E h h' (pending h (spec_peer_ctx s) [] specs) r \<and> (again \<longrightarrow> r < length ([] :: (u8 list \<times> u8 list) list) + length specs)"
    by (rule send_runs_sends [OF assms(1)]) (use assms(3) specs in auto)
  then obtain r again h' where "send_packets_out E h specs = Some (int r, again, h')"
    "sends E h h' (map (datagram h) specs) r" "again \<longrightarrow> r < length specs"
    by (auto simp: send_packets_out_def specs pending_def)
  then show ?thesis unfolding sends_def by auto
qed

text \<open>Three datagrams for two sockets, to a kernel that takes at most two at a time.\<close>

definition two_at_a_time :: env where
  "two_at_a_time = (demo_env Epoll)\<lparr>sys_ret := (\<lambda>tr c. case c of Sendmmsg f ms fl \<Rightarrow> int (min 2 (length ms)) | _ \<Rightarrow> 0)\<rparr>"

definition demo_spec :: "ptr \<Rightarrow> lsquic_out_spec" where
  "demo_spec p = \<lparr>spec_peer_ctx = p, spec_family = AF_INET, spec_dest_sa = replicate 16 2, spec_iov = [[1], [2, 3]]\<rparr>"

lemma send_packets_out_prefix_witness:
  "\<exists>r again h' es. send_packets_out two_at_a_time demo_heap (map demo_spec [3, 4, 4, 4]) = Some (int r, again, h') \<and>
    r \<le> length (map demo_spec [3, 4, 4, 4]) \<and> h' = demo_heap\<lparr>trace := trace demo_heap @ es\<rparr> \<and>
    accepted two_at_a_time (trace demo_heap) es = take r (map (datagram demo_heap) (map demo_spec [3, 4, 4, 4])) \<and>
    list_all run_ok es \<and> (r < length (map demo_spec [3, 4, 4, 4]) \<longrightarrow> ends_refused two_at_a_time (trace demo_heap) es) \<and> (again \<longrightarrow> r < length (map demo_spec [3, 4, 4, 4]))"
proof -
  have "sendmmsg_counts two_at_a_time" by (simp add: sendmmsg_counts_def two_at_a_time_def)
  moreover have "spec_peer_ctx ` set (map demo_spec [3, 4, 4, 4]) \<subseteq> dom (polls demo_heap)"
    by (simp add: demo_spec_def demo_heap_def)
  ultimately show ?thesis by (intro send_packets_out_prefix) simp_all
qed

end
