(* ===== verification/Quic_headers.thy ===== *)
theory Quic_headers
  imports Quic Demo
begin

text \<open>
  The headers of the QUIC layer: those to send, which are collected in one static buffer, and those received,
  which go through a static pool of blocks.
\<close>

subsection \<open>Headers to send\<close>

fun set_headers :: "quics \<Rightarrow> nat \<Rightarrow> (u8 list \<times> u8 list) list \<Rightarrow> quics outcome option" where
  "set_headers q i [] = Some (Returned q)"
| "set_headers q i ((k, v) # hs) =
     and_then (us_quic_socket_context_set_header q (int i) k (int (length k)) v (int (length v)))
       (\<lambda>q. set_headers q (i + 1) hs)"

definition headers_size :: "(u8 list \<times> u8 list) list \<Rightarrow> nat" where
  "headers_size hs = sum_list (map (\<lambda>(k, v). length k + length v) hs)"

text \<open>Name and value that lsquic reads through an entry of the header array.\<close>

definition header_at :: "u8 list \<Rightarrow> lsxpack_header \<Rightarrow> u8 list \<times> u8 list" where
  "header_at buf x = (take (lx_name_len x) (drop (lx_base x + lx_name_offset x) buf),
     take (lx_val_len x) (drop (lx_base x + lx_val_offset x) buf))"

definition header_below :: "nat \<Rightarrow> lsxpack_header \<Rightarrow> bool" where
  "header_below o' x \<longleftrightarrow> lx_base x + lx_name_offset x + lx_name_len x \<le> o' \<and>
     lx_base x + lx_val_offset x + lx_val_len x \<le> o'"

definition header_statics_ok :: "quics \<Rightarrow> bool" where
  "header_statics_ok q \<longleftrightarrow> length (q_hbuf q) = HEADER_BUF_SIZE \<and> length (q_headers q) = HEADERS_MAX \<and>
     q_hoff q \<le> HEADER_BUF_SIZE"

definition headers_stored :: "quics \<Rightarrow> (u8 list \<times> u8 list) list \<Rightarrow> bool" where
  "headers_stored q hs \<longleftrightarrow> length hs \<le> HEADERS_MAX \<and> (\<forall>j < length hs. header_below (q_hoff q) (q_headers q ! j) \<and>
     header_at (q_hbuf q) (q_headers q ! j) = hs ! j)"

lemma header_at_prefix:
  assumes "header_below n x" "take n buf' = take n buf"
  shows "header_at buf' x = header_at buf x"
proof -
  have "take len (drop b buf') = take len (drop b buf)" if "b + len \<le> n" for b len
  proof -
    have eq: "take len (drop b xs) = drop b (take (len + b) (take n xs))" for xs :: "u8 list"
      using that by (simp add: take_drop min_def add.commute)
    show ?thesis by (simp only: eq assms(2))
  qed
  with assms(1) show ?thesis by (simp add: header_at_def header_below_def)
qed

lemma header_below_mono: "header_below m x \<Longrightarrow> m \<le> n \<Longrightarrow> header_below n x"
  by (simp add: header_below_def)

lemma splice_take: "i + length bs \<le> length buf \<Longrightarrow> take i (splice buf i bs) = take i buf"
  by (simp add: splice_def)

lemma splice_length: "i + length bs \<le> length buf \<Longrightarrow> length (splice buf i bs) = length buf"
  by (simp add: splice_def)

lemma splice_read: "i + length bs \<le> length buf \<Longrightarrow> take (length bs) (drop i (splice buf i bs)) = bs"
  by (simp add: splice_def)

text \<open>The header that one call stores.\<close>

definition new_header :: "nat \<Rightarrow> u8 list \<Rightarrow> u8 list \<Rightarrow> lsxpack_header" where
  "new_header i k v = \<lparr>lx_base = i, lx_name_offset = 0, lx_name_len = length k, lx_val_offset = length k, lx_val_len = length v\<rparr>"

lemma set_header_room:
  assumes "header_statics_ok q" "length k + length v < 2 ^ 31"
  shows "us_quic_socket_context_set_header q (int i) k (int (length k)) v (int (length v)) =
    (if q_hoff q + length k + length v > HEADER_BUF_SIZE then Some Exited
     else if i < HEADERS_MAX then Some (Returned (q\<lparr>q_hbuf := splice (q_hbuf q) (q_hoff q) (k @ v),
       q_headers := (q_headers q)[i := new_header (q_hoff q) k v], q_hoff := q_hoff q + length k + length v\<rparr>))
     else None)"
proof -
  have "unat (of_nat (q_hoff q) + word_of_int (int (length k)) + word_of_int (int (length v)) :: u64) =
      q_hoff q + length k + length v"
    using assms by (simp add: header_statics_ok_def HEADER_BUF_SIZE_def unat_word_ariths unat_of_nat)
  moreover have "unat (word_of_int (int (length k)) :: u64) = length k" "unat (word_of_int (int (length v)) :: u64) = length v"
    using assms by (simp_all add: unat_of_nat)
  ultimately show ?thesis
    using assms(1) by (simp add: us_quic_socket_context_set_header_def header_set_ptr_def new_header_def header_statics_ok_def)
qed

lemma headers_stored_append:
  assumes "header_statics_ok q" "headers_stored q hs" "length hs < HEADERS_MAX"
    "q_hoff q + length k + length v \<le> HEADER_BUF_SIZE"
  defines "q' \<equiv> q\<lparr>q_hbuf := splice (q_hbuf q) (q_hoff q) (k @ v),
     q_headers := (q_headers q)[length hs := new_header (q_hoff q) k v], q_hoff := q_hoff q + length k + length v\<rparr>"
  shows "header_statics_ok q'" "headers_stored q' (hs @ [(k, v)])"
proof -
  have room: "q_hoff q + length (k @ v) \<le> length (q_hbuf q)" using assms(1,4) by (simp add: header_statics_ok_def)
  show "header_statics_ok q'"
    using assms(1,4) splice_length [OF room] by (simp add: header_statics_ok_def q'_def)
  have new: "header_at (q_hbuf q') (new_header (q_hoff q) k v) = (k, v)"
  proof -
    from splice_read [OF room] have "take (length k + length v) (drop (q_hoff q) (q_hbuf q')) = k @ v" by (simp add: q'_def)
    then have "take (length k) (drop (q_hoff q) (q_hbuf q')) = k"
      "take (length v) (drop (length k) (drop (q_hoff q) (q_hbuf q'))) = v"
      by (metis append_eq_conv_conj min.absorb1 le_add1 take_take, metis append_eq_conv_conj drop_take diff_add_inverse)
    then show ?thesis by (simp add: header_at_def new_header_def add.commute)
  qed
  have old: "header_at (q_hbuf q') x = header_at (q_hbuf q) x" if "header_below (q_hoff q) x" for x
    by (rule header_at_prefix [OF that]) (use splice_take [OF room] in \<open>simp add: q'_def\<close>)
  show "headers_stored q' (hs @ [(k, v)])"
    unfolding headers_stored_def
  proof (intro conjI allI impI)
    show "length (hs @ [(k, v)]) \<le> HEADERS_MAX" using assms(3) by simp
    fix j assume j: "j < length (hs @ [(k, v)])"
    have "length hs < length (q_headers q)" using assms(1,3) by (simp add: header_statics_ok_def)
    moreover have "header_below (q_hoff q') (new_header (q_hoff q) k v)"
      by (simp add: header_below_def new_header_def q'_def)
    ultimately show "header_below (q_hoff q') (q_headers q' ! j)"
      using j assms(2) header_below_mono [of "q_hoff q" _ "q_hoff q'"]
      by (cases "j = length hs") (auto simp: q'_def headers_stored_def)
    note \<open>length hs < length (q_headers q)\<close>
    from j assms(2) \<open>length hs < length (q_headers q)\<close> show "header_at (q_hbuf q') (q_headers q' ! j) = (hs @ [(k, v)]) ! j"
      using new old [of "q_headers q ! j"]
      by (cases "j = length hs") (auto simp: q'_def headers_stored_def nth_append)
  qed
qed

lemma set_headers_stored:
  assumes "header_statics_ok q" "headers_stored q hs" "length hs + length hs' \<le> HEADERS_MAX"
    "q_hoff q + headers_size hs' \<le> HEADER_BUF_SIZE"
  shows "\<exists>q'. set_headers q (length hs) hs' = Some (Returned q') \<and> header_statics_ok q' \<and> headers_stored q' (hs @ hs') \<and>
    q_hoff q' = q_hoff q + headers_size hs'"
  using assms
proof (induction hs' arbitrary: q hs)
  case Nil
  then show ?case by (simp add: headers_size_def)
next
  case (Cons kv hs')
  obtain k v where kv: "kv = (k, v)" by fastforce
  define q1 where "q1 = q\<lparr>q_hbuf := splice (q_hbuf q) (q_hoff q) (k @ v),
     q_headers := (q_headers q)[length hs := new_header (q_hoff q) k v], q_hoff := q_hoff q + length k + length v\<rparr>"
  have room: "q_hoff q + length k + length v \<le> HEADER_BUF_SIZE" "q_hoff q1 + headers_size hs' \<le> HEADER_BUF_SIZE"
    using Cons.prems(4) by (simp_all add: headers_size_def kv q1_def)
  have "length k + length v < 2 ^ 31" using room(1) by (simp add: HEADER_BUF_SIZE_def)
  with set_header_room [OF Cons.prems(1), of k v "length hs"] room(1) Cons.prems(3)
  have step: "us_quic_socket_context_set_header q (int (length hs)) k (int (length k)) v (int (length v)) = Some (Returned q1)"
    by (simp add: q1_def)
  have q1: "header_statics_ok q1" "headers_stored q1 (hs @ [(k, v)])"
    unfolding q1_def by (rule headers_stored_append; use Cons.prems room(1) in simp)+
  from Cons.IH [OF q1] room(2) Cons.prems(3) obtain q' where
    "set_headers q1 (Suc (length hs)) hs' = Some (Returned q')" "header_statics_ok q'"
    "headers_stored q' ((hs @ [(k, v)]) @ hs')" "q_hoff q' = q_hoff q1 + headers_size hs'" by auto
  then show ?case using step by (simp add: kv headers_size_def q1_def)
qed

text \<open>
  C22: up to ten headers of at most 65535 bytes in all, set one after the other from an empty buffer, are stored
  so that every name and value is read back as it was given from the entries that \<open>send_headers\<close> hands to
  lsquic.  A further header that does not fit the buffer ends the process, and one that fits but has the
  eleventh index is a fault, because nothing checks the index.
\<close>

theorem set_headers_roundtrip:
  assumes "header_statics_ok q" "q_hoff q = 0" "length hs \<le> HEADERS_MAX" "headers_size hs \<le> HEADER_BUF_SIZE"
    "length k + length v < 2 ^ 31"
  shows "\<exists>q'. set_headers q 0 hs = Some (Returned q') \<and>
    map (header_at (q_hbuf q')) (take (length hs) (q_headers q')) = hs \<and>
    us_quic_socket_context_set_header q' (int HEADERS_MAX) k (int (length k)) v (int (length v)) =
      (if headers_size hs + length k + length v > HEADER_BUF_SIZE then Some Exited else None)"
proof -
  have "headers_stored q []" by (simp add: headers_stored_def)
  from set_headers_stored [OF assms(1) this, of hs] assms(2-4) obtain q' where q':
    "set_headers q 0 hs = Some (Returned q')" "header_statics_ok q'" "headers_stored q' hs" "q_hoff q' = headers_size hs"
    by auto
  have "map (header_at (q_hbuf q')) (take (length hs) (q_headers q')) = hs"
    using q'(2,3) by (intro nth_equalityI) (auto simp: headers_stored_def header_statics_ok_def)
  moreover note set_header_room [OF q'(2) assms(5), of HEADERS_MAX]
  ultimately show ?thesis using q' by auto
qed

definition empty_quics :: quics where
  "empty_quics = \<lparr>q_heap = demo_heap, q_ctxs = Map.empty, q_exts = Map.empty, q_hbuf = replicate HEADER_BUF_SIZE 0,
     q_hoff = 0, q_headers = replicate HEADERS_MAX \<lparr>lx_base = 0, lx_name_offset = 0, lx_name_len = 0, lx_val_offset = 0,
       lx_val_len = 0\<rparr>, q_alpn = [], q_old_ctx = 0, q_pool_top = 0, q_hsets = (\<lambda>b. \<lparr>hs_offset = 0, hs_headers = Map.empty\<rparr>),
     q_decoded = (\<lambda>b. \<lparr>lx_base = 0, lx_name_offset = 0, lx_name_len = 0, lx_val_offset = 0, lx_val_len = 0\<rparr>),
     q_last_hset = None, q_global_engine = 0, q_global_client_engine = 0, q_log = [], q_events = []\<rparr>"

lemma set_headers_roundtrip_witness:
  "\<exists>q'. set_headers empty_quics 0 [([58, 97], [1, 2, 3]), ([98], [])] = Some (Returned q') \<and>
    map (header_at (q_hbuf q')) (take (Suc (Suc 0)) (q_headers q')) = [([58, 97], [1, 2, 3]), ([98], [])] \<and>
    us_quic_socket_context_set_header q' 10 [99] 1 [4] 1 = None"
  using set_headers_roundtrip [of empty_quics "[([58, 97], [1, 2, 3]), ([98], [])]" "[99]" "[4]"]
  by (simp add: header_statics_ok_def empty_quics_def headers_size_def HEADER_BUF_SIZE_def del: set_headers.simps)

subsection \<open>Headers received\<close>

text \<open>
  What lsquic does for the headers of a stream: it makes a set, has a block prepared for each header, decodes
  into it, and passes it on; at the end it passes no header.  Preparing a block is a macro of lsquic that
  fills in the fields of the header; what it decodes into them is the environment's.
\<close>

definition decode_ok :: "qenv \<Rightarrow> bool" where
  "decode_ok Q \<longleftrightarrow> (\<forall>d space q. \<exists>r bs x. q_lsquic Q (Header_prepare_decode d space) q =
     Some (Returned (r, bs, q\<lparr>q_decoded := (q_decoded q)(d := x)\<rparr>)))"

fun process_headers :: "qenv \<Rightarrow> quics \<Rightarrow> nat \<Rightarrow> nat list \<Rightarrow> quics outcome option" where
  "process_headers Q q b [] = Some (Returned q)"
| "process_headers Q q b (space # spaces) = and_then (hsi_prepare_decode Q q None space) (\<lambda>(d, q). do {
     (r, q) \<leftarrow> hsi_process_header q b (Some d);
     process_headers Q q b spaces })"

definition receive_headers :: "qenv \<Rightarrow> quics \<Rightarrow> nat list \<Rightarrow> quics outcome option" where
  "receive_headers Q q spaces = (case hsi_create_header_set q of
       Exited \<Rightarrow> Some Exited
     | Returned (b, q) \<Rightarrow> and_then (process_headers Q q b spaces) (\<lambda>q. do {
         (r, q) \<leftarrow> hsi_process_header q b None;
         Some (Returned q) }))"

text \<open>The entry of a set for the header in block \<open>d\<close>.\<close>

definition processed :: "quics \<Rightarrow> nat \<Rightarrow> processed_header" where
  "processed q d = (let x = q_decoded q d in \<lparr>ph_block = d, ph_name = lx_name_offset x, ph_value = lx_val_offset x,
     ph_name_length = lx_name_len x, ph_value_length = lx_val_len x\<rparr>)"

text \<open>A set in block \<open>b\<close> that holds the \<open>n\<close> blocks after it.\<close>

definition set_holds :: "quics \<Rightarrow> nat \<Rightarrow> nat \<Rightarrow> bool" where
  "set_holds q b n \<longleftrightarrow> q_pool_top q = b + 1 + n \<and> b + n < POOL_BLOCKS \<and> hs_offset (q_hsets q b) = int n \<and>
     (\<forall>i < n. hs_headers (q_hsets q b) i = Some (processed q (b + 1 + i)))"

lemma hset_room_iff [simp]: "hset_room n \<longleftrightarrow> n < 170"
  by (auto simp: hset_room_def)

lemma process_one:
  assumes "decode_ok Q" "set_holds q b n"
  shows "b + n + 1 = POOL_BLOCKS \<Longrightarrow> hsi_prepare_decode Q q None space = Some Exited"
    and "b + n + 1 < POOL_BLOCKS \<Longrightarrow> \<exists>q1. hsi_prepare_decode Q q None space = Some (Returned (b + 1 + n, q1)) \<and>
      (if n < 170 then \<exists>q2. hsi_process_header q1 b (Some (b + 1 + n)) = Some (0, q2) \<and> set_holds q2 b (n + 1)
       else hsi_process_header q1 b (Some (b + 1 + n)) = None)"
proof -
  show "b + n + 1 = POOL_BLOCKS \<Longrightarrow> hsi_prepare_decode Q q None space = Some Exited"
    using assms(2) by (simp add: hsi_prepare_decode_def take_block_def set_holds_def)
  assume room: "b + n + 1 < POOL_BLOCKS"
  define d where "d = b + 1 + n"
  define q0 where "q0 = q\<lparr>q_pool_top := d + 1, q_hsets := (q_hsets q)(d := q_block_garbage Q (q\<lparr>q_pool_top := d + 1\<rparr>)),
    q_log := q_log q @ [Header_prepare_decode d space]\<rparr>"
  from assms(1) obtain r bs x where "q_lsquic Q (Header_prepare_decode d space) q0 =
      Some (Returned (r, bs, q0\<lparr>q_decoded := (q_decoded q0)(d := x)\<rparr>))" unfolding decode_ok_def by blast
  then have prep: "hsi_prepare_decode Q q None space = Some (Returned (d, q0\<lparr>q_decoded := (q_decoded q0)(d := x)\<rparr>))"
    using assms(2) room by (simp add: hsi_prepare_decode_def take_block_def set_holds_def lsq_do_def lsq_def d_def q0_def)
  have set0: "q_hsets q0 b = q_hsets q b" "q_decoded q0 = q_decoded q" "q_pool_top q0 = d + 1"
    by (simp_all add: q0_def d_def)
  show "\<exists>q1. hsi_prepare_decode Q q None space = Some (Returned (b + 1 + n, q1)) \<and>
      (if n < 170 then \<exists>q2. hsi_process_header q1 b (Some (b + 1 + n)) = Some (0, q2) \<and> set_holds q2 b (n + 1)
       else hsi_process_header q1 b (Some (b + 1 + n)) = None)"
    unfolding d_def [symmetric]
    using prep assms(2) room set0
    by (auto simp: hsi_process_header_def set_holds_def processed_def Let_def less_Suc_eq d_def)
qed

lemma process_headers_cases:
  assumes "decode_ok Q" "set_holds q b n" "n \<le> 170"
  shows "n + length spaces \<le> 170 \<Longrightarrow> b + n + length spaces < POOL_BLOCKS \<Longrightarrow>
      \<exists>q'. process_headers Q q b spaces = Some (Returned q') \<and> set_holds q' b (n + length spaces)"
    and "n + length spaces > 170 \<Longrightarrow> b + 171 < POOL_BLOCKS \<Longrightarrow> process_headers Q q b spaces = None"
    and "b + n + length spaces \<ge> POOL_BLOCKS \<Longrightarrow> b + 171 \<ge> POOL_BLOCKS \<Longrightarrow> process_headers Q q b spaces = Some Exited"
  using assms(2,3)
proof (induction spaces arbitrary: q n)
  case Nil
  { case 1 then show ?case by simp next case 2 then show ?case by simp next case 3 then show ?case by (simp add: set_holds_def) }
next
  case (Cons space spaces)
  note one = process_one [OF assms(1), where space = space]
  { case 1
    then have "b + n + 1 < POOL_BLOCKS" "n < 170" by auto
    with one(2) [OF 1(3)] obtain q1 q2 where q2: "hsi_prepare_decode Q q None space = Some (Returned (b + 1 + n, q1))"
      "hsi_process_header q1 b (Some (b + 1 + n)) = Some (0, q2)" "set_holds q2 b (n + 1)" by auto
    with Cons.IH(1) [of "n + 1" q2] 1 show ?case by simp
  next
    case 2
    then have room: "b + n + 1 < POOL_BLOCKS" by auto
    show ?case
    proof (cases "n < 170")
      case True
      with one(2) [OF 2(3) room] obtain q1 q2 where q2: "hsi_prepare_decode Q q None space = Some (Returned (b + 1 + n, q1))"
        "hsi_process_header q1 b (Some (b + 1 + n)) = Some (0, q2)" "set_holds q2 b (n + 1)" by auto
      with Cons.IH(2) [of "n + 1" q2] 2 True show ?thesis by simp
    next
      case False
      with one(2) [OF 2(3) room] show ?thesis by auto
    qed
  next
    case 3
    show ?case
    proof (cases "b + n + 1 = POOL_BLOCKS")
      case True
      with one(1) [OF 3(3)] show ?thesis by simp
    next
      case False
      with 3 have room: "b + n + 1 < POOL_BLOCKS" "n < 170" by (auto simp: set_holds_def)
      with one(2) [OF 3(3)] obtain q1 q2 where q2: "hsi_prepare_decode Q q None space = Some (Returned (b + 1 + n, q1))"
        "hsi_process_header q1 b (Some (b + 1 + n)) = Some (0, q2)" "set_holds q2 b (n + 1)" by auto
      with Cons.IH(3) [of "n + 1" q2] 3 room show ?thesis by simp
    qed }
qed

lemma created_set_holds:
  assumes "q_pool_top q < POOL_BLOCKS"
  obtains q0 where "hsi_create_header_set q = Returned (q_pool_top q, q0)" "set_holds q0 (q_pool_top q) 0"
  using assms by (auto simp: hsi_create_header_set_def take_block_def set_holds_def)

text \<open>
  The headers received for a stream are all kept, in order, each with the lengths and places its own block
  has them at, when there are at most 170 of them and the pool has blocks for them and the set; reading one by
  an index past the end gives nothing, and by a negative one is a fault.  The 171st header is written past the
  end of the 4096 bytes of the set, since nothing compares the count with the size; when the pool runs out
  before that, the process ends.
\<close>

theorem receive_headers_bounds:
  assumes "decode_ok Q" "q_pool_top q < POOL_BLOCKS"
  shows "(length spaces \<le> 170 \<and> q_pool_top q + length spaces < POOL_BLOCKS \<longrightarrow>
      (\<exists>q'. receive_headers Q q spaces = Some (Returned q') \<and>
        (\<forall>i < length spaces. us_quic_socket_context_get_header q' (int i) =
           Some (1, Some (processed q' (q_pool_top q + 1 + i)))) \<and>
        (\<forall>i \<ge> length spaces. us_quic_socket_context_get_header q' (int i) = Some (0, None)) \<and>
        (\<forall>i < 0. us_quic_socket_context_get_header q' i = None))) \<and>
    (length spaces > 170 \<and> q_pool_top q + 171 < POOL_BLOCKS \<longrightarrow> receive_headers Q q spaces = None) \<and>
    (q_pool_top q + length spaces \<ge> POOL_BLOCKS \<and> q_pool_top q + 171 \<ge> POOL_BLOCKS \<longrightarrow>
      receive_headers Q q spaces = Some Exited)"
proof -
  define b where "b = q_pool_top q"
  obtain q0 where q0: "hsi_create_header_set q = Returned (b, q0)" "set_holds q0 b 0"
    using created_set_holds [OF assms(2)] unfolding b_def .
  note cases = process_headers_cases [OF assms(1) q0(2), of spaces, simplified]
  have "\<exists>q'. receive_headers Q q spaces = Some (Returned q') \<and>
        (\<forall>i < length spaces. us_quic_socket_context_get_header q' (int i) = Some (1, Some (processed q' (b + 1 + i)))) \<and>
        (\<forall>i \<ge> length spaces. us_quic_socket_context_get_header q' (int i) = Some (0, None)) \<and>
        (\<forall>i < 0. us_quic_socket_context_get_header q' i = None)"
    if "length spaces \<le> 170" "b + length spaces < POOL_BLOCKS"
  proof -
    from cases(1) that obtain q1 where q1: "process_headers Q q0 b spaces = Some (Returned q1)"
      "set_holds q1 b (length spaces)" by auto
    then have "receive_headers Q q spaces = Some (Returned (q1\<lparr>q_last_hset := Some b\<rparr>))"
      using q0(1) by (simp add: receive_headers_def hsi_process_header_def)
    then show ?thesis
      using q1(2) by (auto simp: us_quic_socket_context_get_header_def set_holds_def processed_def)
  qed
  then show ?thesis
    using cases(2,3) q0(1) unfolding b_def [symmetric] by (auto simp: receive_headers_def)
qed

definition plain_lsquic :: qenv where
  "plain_lsquic = \<lparr>q_env = demo_env Epoll,
     q_lsquic = (\<lambda>c q. case c of
         Header_prepare_decode d space \<Rightarrow> Some (Returned (0, [], q\<lparr>q_decoded := (q_decoded q)(d :=
           \<lparr>lx_base = 0, lx_name_offset = 0, lx_name_len = 4, lx_val_offset = 6, lx_val_len = space\<rparr>)\<rparr>))
       | _ \<Rightarrow> Some (Returned (0, [], q))),
     q_errno = (\<lambda>q. 0), q_malloc = (\<lambda>q. 1), q_block_garbage = (\<lambda>q. \<lparr>hs_offset = 5, hs_headers = Map.empty\<rparr>),
     q_sizeof_lsxpack_header = 48, q_fn_timer_cb = UserFn 1, q_fn_data = UserFn 2, q_fn_data_client = UserFn 3,
     q_fn_writable = UserFn 4, q_callback = (\<lambda>n ev q. Some (Returned q))\<rparr>"

lemma plain_lsquic_ok: "decode_ok plain_lsquic"
  by (auto simp: decode_ok_def plain_lsquic_def)

lemma receive_headers_bounds_witness:
  "(\<exists>q'. receive_headers plain_lsquic empty_quics [10, 20] = Some (Returned q') \<and>
     us_quic_socket_context_get_header q' 1 = Some (1, Some (processed q' 2)) \<and>
     us_quic_socket_context_get_header q' 2 = Some (0, None)) \<and>
   receive_headers plain_lsquic empty_quics (replicate 171 10) = None \<and>
   receive_headers plain_lsquic (empty_quics\<lparr>q_pool_top := 998\<rparr>) [10, 20] = Some Exited"
proof (intro conjI)
  have top: "q_pool_top empty_quics = 0" by (simp add: empty_quics_def)
  have "\<exists>q'. receive_headers plain_lsquic empty_quics [10, 20] = Some (Returned q') \<and>
      (\<forall>i < 2. us_quic_socket_context_get_header q' (int i) = Some (1, Some (processed q' (1 + i)))) \<and>
      (\<forall>i \<ge> 2. us_quic_socket_context_get_header q' (int i) = Some (0, None))"
    using receive_headers_bounds [OF plain_lsquic_ok, of empty_quics "[10, 20]"] by (auto simp: top numeral_2_eq_2)
  then obtain q' where q': "receive_headers plain_lsquic empty_quics [10, 20] = Some (Returned q')"
    "\<forall>i < 2. us_quic_socket_context_get_header q' (int i) = Some (1, Some (processed q' (1 + i)))"
    "\<forall>i \<ge> 2. us_quic_socket_context_get_header q' (int i) = Some (0, None)" by blast
  have "us_quic_socket_context_get_header q' (int 1) = Some (1, Some (processed q' (1 + 1)))"
    by (rule q'(2) [rule_format]) simp
  moreover from q'(3) have "us_quic_socket_context_get_header q' (int 2) = Some (0, None)" by blast
  ultimately show "\<exists>q'. receive_headers plain_lsquic empty_quics [10, 20] = Some (Returned q') \<and>
     us_quic_socket_context_get_header q' 1 = Some (1, Some (processed q' 2)) \<and>
     us_quic_socket_context_get_header q' 2 = Some (0, None)"
    using q'(1) by (auto simp: numeral_2_eq_2)
  show "receive_headers plain_lsquic empty_quics (replicate 171 10) = None"
    using receive_headers_bounds [OF plain_lsquic_ok, of empty_quics "replicate 171 10"] by (simp add: top)
  show "receive_headers plain_lsquic (empty_quics\<lparr>q_pool_top := 998\<rparr>) [10, 20] = Some Exited"
    using receive_headers_bounds [OF plain_lsquic_ok, of "empty_quics\<lparr>q_pool_top := 998\<rparr>" "[10, 20]"] by simp
qed

end
