(* ===== verification/Spec2Isabelle.thy ===== *)
theory Spec2Isabelle
  imports Scalar_logs Scalar_http Scalar_pool Api Claims Operations Start Packets Tls Uring_claims Gcd_sources Uv_memory Quic_out Quic_headers
begin

text \<open>
  Verification of uSockets, the C event and networking library under \<open>src/uSockets-0.8.6/src\<close>.
\<close>

end
